(* ===== verification/Bignum.thy ===== *)
theory Bignum
  imports Prelude
begin

text \<open>
  Script numbers and big integers: \<open>CScriptNum\<close> of \<open>src/src/script.h\<close> and the byte
  forms of \<open>CBigNum\<close> (\<open>src/src/bignum.h\<close>), a wrapper of OpenSSL's \<open>BIGNUM\<close>.  The value
  of a \<open>CBigNum\<close> is an integer; the library functions \<open>BN_bn2mpi\<close> and \<open>BN_mpi2bn\<close> are
  parameters, and \<open>mpi_documented\<close> states the format their manual page describes.
  The main facts: both classes read and write the same byte strings.
\<close>

section \<open>Sign-and-magnitude byte strings\<close>

text \<open>
  The value of a little-endian byte string whose top bit is the sign, and the shortest
  such strings.
\<close>

definition sm_val :: "bytes \<Rightarrow> int" where
  "sm_val v =
     (if v = [] then 0
      else if last v AND 0x80 \<noteq> 0 then - int (le_val (butlast v @ [last v AND 0x7f]))
      else int (le_val v))"

definition sm_minimal :: "bytes \<Rightarrow> bool" where
  "sm_minimal v \<longleftrightarrow>
     v = [] \<or> last v AND 0x7f \<noteq> 0 \<or> (length v > 1 \<and> v ! (length v - 2) AND 0x80 \<noteq> 0)"

lemma unat_and_7f: "unat (b AND 0x7f :: byte) = unat b mod 128"
proof -
  have "(0x7f :: byte) = mask 7" by (simp add: mask_eq_exp_minus_1)
  then have "b AND 0x7f = take_bit 7 b" by (simp only: take_bit_eq_mask)
  then have "unat (b AND 0x7f) = take_bit 7 (unat b)" by (simp only: unsigned_take_bit_eq)
  then show ?thesis by (simp only: take_bit_eq_mod) simp
qed

lemma bit7_iff: "bit (b :: byte) 7 \<longleftrightarrow> 128 \<le> unat b"
proof -
  have "bit b 7 \<longleftrightarrow> bit (unat b) 7" by (simp add: bit_unsigned_iff)
  also have "\<dots> \<longleftrightarrow> odd (unat b div 128)" by (simp add: bit_iff_odd)
  also have "\<dots> \<longleftrightarrow> 128 \<le> unat b"
  proof -
    have "unat b div 128 = 0 \<or> unat b div 128 = 1"
      using unat_byte_less[of b] by linarith
    moreover have "unat b div 128 = 0 \<longleftrightarrow> unat b < 128" by (simp add: div_eq_0_iff)
    ultimately show ?thesis by auto
  qed
  finally show ?thesis .
qed

lemma byte_0x80_bit: "bit (0x80 :: byte) k \<longleftrightarrow> k = 7"
proof -
  have "bit (push_bit j (1 :: byte)) k \<longleftrightarrow> j = k \<and> k < 8" for j by (auto simp: bit_simps)
  from this[of 7] show ?thesis by auto
qed

lemma and_80_iff: "b AND 0x80 \<noteq> (0 :: byte) \<longleftrightarrow> 128 \<le> unat b"
proof -
  have "bit (b AND 0x80) k \<longleftrightarrow> bit b 7 \<and> k = 7" for k
    by (simp only: bit_and_iff byte_0x80_bit) auto
  then have "b AND 0x80 \<noteq> 0 \<longleftrightarrow> bit b 7"
    by (metis bit_eq_iff bit_0_eq bot_apply bot_bool_def)
  then show ?thesis by (simp add: bit7_iff)
qed

lemma and_80_eq_0_iff: "b AND 0x80 = (0 :: byte) \<longleftrightarrow> unat b < 128"
  using and_80_iff[of b] by linarith

lemma unat_or_80: "unat b < 128 \<Longrightarrow> unat (b OR 0x80 :: byte) = unat b + 128"
proof -
  assume b: "unat b < 128"
  then have "b AND 0x80 = 0" by (simp add: and_80_eq_0_iff)
  then have "b OR 0x80 = b + 0x80" by (rule disjunctive_add_eq_or[symmetric])
  then show ?thesis using b by (simp add: unat_word_ariths(1))
qed

lemma and_7f_eq_0_iff: "b AND 0x7f = (0 :: byte) \<longleftrightarrow> unat b mod 128 = 0"
  by (simp add: word_unat_eq_iff unat_and_7f)

lemmas byte_sign = and_80_iff and_80_eq_0_iff unat_and_7f and_7f_eq_0_iff

text \<open>Magnitude and sign of a non-empty string.\<close>

definition sm_mag :: "bytes \<Rightarrow> nat" where
  "sm_mag v = le_val (butlast v @ [last v AND 0x7f])"

lemma sm_val_eq:
  "v \<noteq> [] \<Longrightarrow> sm_val v = (if 128 \<le> unat (last v) then - int (sm_mag v) else int (sm_mag v))"
proof -
  assume v: "v \<noteq> []"
  have "le_val v = sm_mag v" if "unat (last v) < 128"
  proof -
    have "last v AND 0x7f = last v" using that by (simp add: word_unat_eq_iff unat_and_7f)
    then show ?thesis using v by (simp add: sm_mag_def)
  qed
  then show ?thesis using v by (simp add: sm_val_def sm_mag_def byte_sign)
qed

lemma sm_mag_eq:
  "v \<noteq> [] \<Longrightarrow> sm_mag v = le_val (butlast v) + 256 ^ (length v - 1) * (unat (last v) mod 128)"
  by (simp add: sm_mag_def le_val_append unat_and_7f)

lemma sm_mag_bounds:
  assumes "v \<noteq> []" "sm_minimal v"
  shows "256 ^ (length v - 1) \<le> 2 * sm_mag v" "sm_mag v < 128 * 256 ^ (length v - 1)" "0 < sm_mag v"
proof -
  define k where "k = length v - 1"
  have b: "le_val (butlast v) < 256 ^ k" using le_val_less[of "butlast v"] by (simp add: k_def)
  have m: "sm_mag v = le_val (butlast v) + 256 ^ k * (unat (last v) mod 128)"
    using sm_mag_eq[OF assms(1)] by (simp add: k_def)
  have "unat (last v) mod 128 \<le> 127"
    using mod_less_divisor[of 128 "unat (last v)"] by linarith
  then have "256 ^ k * (unat (last v) mod 128) \<le> 256 ^ k * 127" by (intro mult_le_mono2)
  then have "sm_mag v < 128 * 256 ^ k" using b m by linarith
  then show "sm_mag v < 128 * 256 ^ (length v - 1)" by (simp add: k_def)
  have low: "256 ^ k \<le> 2 * sm_mag v"
  proof (cases "unat (last v) mod 128 = 0")
    case False
    then have "256 ^ k * 1 \<le> 256 ^ k * (unat (last v) mod 128)" by (intro mult_le_mono2) simp
    then show ?thesis unfolding m by (simp add: trans_le_add2)
  next
    case True
    then have "length v > 1" and hi: "128 \<le> unat (v ! (length v - 2))"
      using assms by (auto simp: sm_minimal_def byte_sign)
    then obtain j where k: "k = Suc j" by (cases k) (auto simp: k_def)
    have bl: "butlast v \<noteq> []" using \<open>length v > 1\<close> by (cases v) auto
    have lb: "last (butlast v) = v ! (length v - 2)"
      using bl \<open>length v > 1\<close> by (simp add: last_conv_nth nth_butlast numeral_2_eq_2)
    have "le_val (butlast v) = le_val (butlast (butlast v)) + 256 ^ j * unat (last (butlast v))"
      using bl k by (subst append_butlast_last_id[OF bl, symmetric], subst le_val_append)
        (simp add: k_def)
    moreover have "256 ^ j * 128 \<le> 256 ^ j * unat (last (butlast v))"
      using hi lb by (intro mult_le_mono2) simp
    ultimately have "2 * (256 ^ j * 128) \<le> 2 * le_val (butlast v)" by (simp only: mult_le_mono2 trans_le_add2)
    then have "256 ^ Suc j \<le> 2 * le_val (butlast v)" by simp
    also have "\<dots> \<le> 2 * sm_mag v" unfolding m by simp
    finally show ?thesis by (simp only: k)
  qed
  then show "256 ^ (length v - 1) \<le> 2 * sm_mag v" by (simp add: k_def)
  then show "0 < sm_mag v" by (metis gr0I mult_0_right not_le zero_less_numeral zero_less_power)
qed

lemma sm_length_unique:
  assumes "u \<noteq> []" "v \<noteq> []" "sm_minimal u" "sm_minimal v" "sm_mag u = sm_mag v"
  shows "length u \<le> length v"
proof (rule ccontr)
  assume "\<not> length u \<le> length v"
  then have "length v \<le> length u - 1" by simp
  then have "(256::nat) ^ length v \<le> 256 ^ (length u - 1)" by (rule power_increasing) simp
  also have "\<dots> \<le> 2 * sm_mag v" using sm_mag_bounds(1)[OF assms(1,3)] assms(5) by simp
  also have "\<dots> < 256 * 256 ^ (length v - 1)" using sm_mag_bounds(2)[OF assms(2,4)] by simp
  also have "\<dots> = 256 ^ length v" using assms(2) by (cases v) auto
  finally show False by simp
qed

lemma mod_128_unique:
  fixes m n :: nat
  assumes "m mod 128 = n mod 128" "128 \<le> m \<longleftrightarrow> 128 \<le> n" "m < 256" "n < 256"
  shows "m = n"
proof -
  have q: "m div 128 = n div 128"
  proof (cases "128 \<le> m")
    case True
    then have "m div 128 = 1" "n div 128 = 1" using assms by (simp_all add: div_if)
    then show ?thesis by simp
  next
    case False
    then show ?thesis using assms by simp
  qed
  have "m = 128 * (m div 128) + m mod 128" by (rule mult_div_mod_eq[symmetric])
  also have "\<dots> = 128 * (n div 128) + n mod 128" by (simp only: q assms(1))
  also have "\<dots> = n" by (rule mult_div_mod_eq)
  finally show ?thesis .
qed

lemma sm_unique:
  assumes "sm_minimal u" "sm_minimal v" "sm_val u = sm_val v"
  shows "u = v"
proof -
  have z: "sm_val w \<noteq> 0" if "w \<noteq> []" "sm_minimal w" for w
    using sm_mag_bounds(3)[OF that] sm_val_eq[OF that(1)] by (auto split: if_splits)
  show ?thesis
  proof (cases "u = [] \<or> v = []")
    case True
    have "sm_val [] = 0" by (simp add: sm_val_def)
    then show ?thesis using True z[of u] z[of v] assms by (cases "u = []"; cases "v = []") auto
  next
    case False
    then have ne: "u \<noteq> []" "v \<noteq> []" by auto
    have sg: "sm_mag u = sm_mag v \<and> (128 \<le> unat (last u) \<longleftrightarrow> 128 \<le> unat (last v))"
      using sm_val_eq[OF ne(1)] sm_val_eq[OF ne(2)] assms(3)
        sm_mag_bounds(3)[OF ne(1) assms(1)] sm_mag_bounds(3)[OF ne(2) assms(2)]
      by (cases "128 \<le> unat (last u)"; cases "128 \<le> unat (last v)") simp_all
    have len: "length u = length v"
      using sm_length_unique[OF ne assms(1,2)] sm_length_unique[OF ne(2,1) assms(2,1)] sg by simp
    have "butlast u @ [last u AND 0x7f] = le_bytes (length u) (sm_mag u)"
      using le_bytes_le_val[of "butlast u @ [last u AND 0x7f]"] ne by (simp add: sm_mag_def)
    also have "\<dots> = le_bytes (length v) (sm_mag v)" using len sg by simp
    also have "\<dots> = butlast v @ [last v AND 0x7f]"
      using le_bytes_le_val[of "butlast v @ [last v AND 0x7f]"] ne by (simp add: sm_mag_def)
    finally have "butlast u @ [last u AND 0x7f] = butlast v @ [last v AND 0x7f]" .
    then have e: "butlast u = butlast v" "last u AND 0x7f = last v AND 0x7f" by auto
    have "unat (last u) mod 128 = unat (last v) mod 128"
      using arg_cong[OF e(2), of unat] by (simp only: unat_and_7f)
    then have "unat (last u) = unat (last v)"
      by (rule mod_128_unique[OF _ conjunct2[OF sg] unat_byte_less unat_byte_less])
    then have l: "last u = last v" by (simp only: word_unat_eq_iff)
    have "u = butlast u @ [last u]" using ne(1) by (rule append_butlast_last_id[symmetric])
    also have "\<dots> = butlast v @ [last v]" by (simp only: e(1) l)
    also have "\<dots> = v" using ne(2) by (rule append_butlast_last_id)
    finally show ?thesis .
  qed
qed

section \<open>CScriptNum\<close>

text \<open>
  The value \<open>m_value\<close> is an \<open>int64_t\<close>; operands have at most four bytes, so that no
  operation of the interpreter leaves its range (\<open>scriptnum_range\<close>) and it is an integer here.
\<close>

function abs_bytes :: "nat \<Rightarrow> bytes" where
  "abs_bytes absvalue =
     (if absvalue = 0 then [] else word_of_nat absvalue # abs_bytes (absvalue div 256))"
  by auto
termination by (relation "measure id") auto

declare abs_bytes.simps [simp del]

definition scriptnum_serialize :: "int \<Rightarrow> bytes" where
  "scriptnum_serialize value =
     (if value = 0 then []
      else let neg = value < 0;
               result = abs_bytes (nat \<bar>value\<bar>)
           in if last result AND 0x80 \<noteq> 0 then result @ [if neg then 0x80 else 0]
              else if neg then butlast result @ [last result OR 0x80]
              else result)"

fun set_vch_loop :: "nat \<Rightarrow> int \<Rightarrow> bytes \<Rightarrow> int" where
  "set_vch_loop i result [] = result"
| "set_vch_loop i result (b # vch) = set_vch_loop (i + 1) (result OR push_bit (8 * i) (uint b)) vch"

definition scriptnum_set_vch :: "bytes \<Rightarrow> int" where
  "scriptnum_set_vch vch =
     (if vch = [] then 0
      else let result = set_vch_loop 0 0 vch
           in if last vch AND 0x80 \<noteq> 0
              then - (result AND NOT (push_bit (8 * (length vch - 1)) 0x80))
              else result)"

datatype scriptnum_error = ScriptNumOverflow | ScriptNumNonMinimal

definition CScriptNum :: "bytes \<Rightarrow> bool \<Rightarrow> scriptnum_error + int" where
  "CScriptNum vch fRequireMinimal =
     (if length vch > 4 then Inl ScriptNumOverflow
      else if fRequireMinimal \<and> length vch > 0 \<and> last vch AND 0x7f = 0 \<and>
              (length vch \<le> 1 \<or> vch ! (length vch - 2) AND 0x80 = 0)
      then Inl ScriptNumNonMinimal
      else Inr (scriptnum_set_vch vch))"

definition scriptnum_getint :: "int \<Rightarrow> int" where
  "scriptnum_getint m_value =
     (if m_value > 2147483647 then 2147483647
      else if m_value < - 2147483648 then - 2147483648 else m_value)"

lemma le_val_abs_bytes: "le_val (abs_bytes n) = n"
proof (induction n rule: abs_bytes.induct)
  case (1 n)
  then show ?case by (subst abs_bytes.simps) (auto simp: unsigned_of_nat take_bit_eq_mod)
qed

lemma last_abs_bytes: "n \<noteq> 0 \<Longrightarrow> abs_bytes n \<noteq> [] \<and> last (abs_bytes n) \<noteq> 0"
proof (induction n rule: abs_bytes.induct)
  case (1 n)
  show ?case
  proof (cases "n div 256 = 0")
    case True
    then have "n < 256" by (simp add: div_eq_0_iff)
    then have "unat (word_of_nat n :: byte) = n" by (simp add: unsigned_of_nat take_bit_nat_eq_self)
    then have "(word_of_nat n :: byte) \<noteq> 0" using 1(2) by (metis unat_0)
    then show ?thesis using 1(2) True by (subst (1 2) abs_bytes.simps) (simp add: abs_bytes.simps[of 0])
  next
    case False
    then show ?thesis using 1 by (subst (1 2) abs_bytes.simps) auto
  qed
qed

lemma concat_or:
  fixes r :: int
  assumes "0 \<le> r" "r < 2 ^ k"
  shows "r OR push_bit k x = r + x * 2 ^ k"
proof -
  have t: "take_bit k r = r" using assms by (simp add: take_bit_int_eq_self)
  have "concat_bit k r x = r OR push_bit k x" by (simp add: concat_bit_def t)
  then show ?thesis by (simp add: concat_bit_eq t push_bit_eq_mult)
qed

lemma set_vch_loop_eq:
  "0 \<le> r \<Longrightarrow> r < 256 ^ i \<Longrightarrow> set_vch_loop i r v = r + 256 ^ i * int (le_val v)"
proof (induction v arbitrary: i r)
  case (Cons b v)
  have p: "(256::int) ^ i = 2 ^ (8 * i)" by (simp add: power_mult)
  have o: "r OR push_bit (8 * i) (uint b) = r + uint b * 256 ^ i"
    using concat_or[of r "8 * i" "uint b"] Cons.prems by (simp add: p)
  have "uint b \<le> 255" using uint_lt2p[of b] by simp
  then have "uint b * 256 ^ i \<le> 255 * 256 ^ i" by (rule mult_right_mono) simp
  then have "r + uint b * 256 ^ i < 256 * 256 ^ i" using Cons.prems(2) by linarith
  then have "r + uint b * 256 ^ i < 256 ^ (i + 1)" by simp
  moreover have "0 \<le> r + uint b * 256 ^ i" using Cons.prems by simp
  ultimately have "set_vch_loop (i + 1) (r + uint b * 256 ^ i) v
      = (r + uint b * 256 ^ i) + 256 ^ (i + 1) * int (le_val v)" by (intro Cons.IH)
  then show ?case by (simp only: set_vch_loop.simps o) (simp add: algebra_simps)
qed simp

lemma set_vch_eq: "scriptnum_set_vch v = sm_val v"
proof (cases "v = []")
  case False
  define k where "k = length v - 1"
  have loop: "set_vch_loop 0 0 v = int (le_val v)" using set_vch_loop_eq[of 0 0 v] by simp
  have v: "v = butlast v @ [last v]" using False by simp
  have lv: "le_val v = le_val (butlast v) + 256 ^ k * unat (last v)"
    by (subst v, subst le_val_append) (simp add: k_def)
  have p: "(256::int) ^ k = 2 ^ (8 * k)" by (simp add: power_mult)
  have small: "int (le_val (butlast v)) < 2 ^ (8 * k)"
    using le_val_less[of "butlast v"] by (simp add: k_def power_mult)
  have lv2: "int (le_val v) = int (le_val (butlast v)) OR push_bit (8 * k) (uint (last v))"
    using concat_or[of "int (le_val (butlast v))" "8 * k" "uint (last v)"] small
    by (simp add: lv p)
  have t: "take_bit (8 * k) (int (le_val (butlast v))) = int (le_val (butlast v))"
    using small by (intro take_bit_int_eq_self) auto
  have bits: "\<not> bit (int (le_val (butlast v))) j" if "8 * k \<le> j" for j
    using that by (subst t[symmetric]) (simp only: bit_take_bit_iff not_less[symmetric], simp)
  have "int (le_val v) AND NOT (push_bit (8 * k) 0x80)
      = int (le_val (butlast v)) OR push_bit (8 * k) (uint (last v AND 0x7f))"
  proof (rule bit_eqI)
    fix j
    have b80: "bit (0x80 :: int) m \<longleftrightarrow> m = 7" for m
    proof -
      have "(0x80 :: int) = push_bit 7 1" by simp
      then show ?thesis by (simp only: bit_push_bit_iff bit_1_iff) auto
    qed
    have b7f: "bit (uint (last v AND 0x7f)) m \<longleftrightarrow> bit (uint (last v)) m \<and> m \<noteq> 7" for m
    proof -
      have "(0x7f :: byte) = mask 7" by (simp add: mask_eq_exp_minus_1)
      then show ?thesis
        by (simp only: bit_uint_iff bit_and_iff bit_mask_iff) (auto dest: bit_imp_le_length)
    qed
    show "bit (int (le_val v) AND NOT (push_bit (8 * k) 0x80)) j =
        bit (int (le_val (butlast v)) OR push_bit (8 * k) (uint (last v AND 0x7f))) j"
      unfolding lv2 bit_and_iff bit_or_iff bit_not_iff bit_push_bit_iff b80 b7f
      using bits[of j] by auto
  qed
  also have "\<dots> = int (sm_mag v)"
    using concat_or[of "int (le_val (butlast v))" "8 * k" "uint (last v AND 0x7f)"] small False
    by (simp add: sm_mag_def le_val_append p[unfolded k_def, simplified] k_def)
  finally show ?thesis
    using False by (simp add: scriptnum_set_vch_def loop sm_val_def k_def sm_mag_def)
qed (simp add: scriptnum_set_vch_def sm_val_def)

lemma serialize_minimal: "sm_minimal (scriptnum_serialize n)"
  and serialize_val: "sm_val (scriptnum_serialize n) = n"
proof -
  have "sm_minimal (scriptnum_serialize n) \<and> sm_val (scriptnum_serialize n) = n"
  proof (cases "n = 0")
    case True
    then show ?thesis by (simp add: scriptnum_serialize_def sm_minimal_def sm_val_def)
  next
    case False
    define r where "r = abs_bytes (nat \<bar>n\<bar>)"
    have r: "r \<noteq> []" "last r \<noteq> 0" "le_val r = nat \<bar>n\<bar>"
      using last_abs_bytes[of "nat \<bar>n\<bar>"] False by (auto simp: r_def le_val_abs_bytes)
    have u: "unat (last r) \<noteq> 0" using r(2) by (simp add: unsigned_eq_0_iff)
    have split: "le_val r = le_val (butlast r) + 256 ^ (length r - 1) * unat (last r)"
      using r(1) by (subst append_butlast_last_id[OF r(1), symmetric], subst le_val_append) simp
    show ?thesis
    proof (cases "last r AND 0x80 \<noteq> 0")
      case True
      then have s: "scriptnum_serialize n = r @ [if n < 0 then 0x80 else 0]"
        using False by (simp add: scriptnum_serialize_def r_def Let_def)
      have hi: "128 \<le> unat (last r)" using True by (simp only: and_80_iff)
      have "(r @ [w]) ! (length r - 1) = last r" for w
        using r(1) by (simp add: nth_append last_conv_nth)
      then show ?thesis unfolding s using r True hi
        by (auto simp: sm_minimal_def sm_val_eq sm_mag_def le_val_append unat_and_7f)
    next
      case lo: False
      then have lt: "unat (last r) < 128" by (simp add: and_80_iff)
      show ?thesis
      proof (cases "n < 0")
        case True
        then have s: "scriptnum_serialize n = butlast r @ [last r OR 0x80]"
          using False lo by (simp add: scriptnum_serialize_def r_def Let_def)
        have "unat (last r OR 0x80) = unat (last r) + 128" using lt by (rule unat_or_80)
        then show ?thesis unfolding s using r True lt u split
          by (auto simp: sm_minimal_def sm_val_eq sm_mag_eq byte_sign)
      next
        case nn: False
        then have s: "scriptnum_serialize n = r"
          using False lo by (simp add: scriptnum_serialize_def r_def Let_def)
        show ?thesis unfolding s using r nn lt u split
          by (auto simp: sm_minimal_def sm_val_eq sm_mag_eq byte_sign)
      qed
    qed
  qed
  then show "sm_minimal (scriptnum_serialize n)" "sm_val (scriptnum_serialize n) = n" by auto
qed

lemma sm_val_mag: "\<bar>sm_val v\<bar> < 128 * 256 ^ (length v - 1)"
proof (cases "v = []")
  case True
  then show ?thesis by (simp add: sm_val_def)
next
  case False
  have b: "le_val (butlast v) < 256 ^ (length v - 1)" using le_val_less[of "butlast v"] by simp
  have "unat (last v) mod 128 \<le> 127" using mod_less_divisor[of 128 "unat (last v)"] by linarith
  then have "256 ^ (length v - 1) * (unat (last v) mod 128) \<le> 256 ^ (length v - 1) * 127"
    by (rule mult_le_mono2)
  then have "sm_mag v < 128 * 256 ^ (length v - 1)" unfolding sm_mag_eq[OF False] using b by linarith
  then have "int (sm_mag v) < int (128 * 256 ^ (length v - 1))" by (simp only: of_nat_less_iff)
  then show ?thesis using sm_val_eq[OF False] by simp
qed

text \<open>Operands fit in 32 bits, so sums and differences of operands are far from the \<open>int64_t\<close> bounds.\<close>

lemma scriptnum_range:
  assumes "CScriptNum v fReq = Inr n"
  shows "- (2 ^ 31) < n \<and> n < 2 ^ 31"
proof -
  have l: "length v \<le> 4" and n: "n = sm_val v"
    using assms by (auto simp: CScriptNum_def set_vch_eq split: if_splits)
  have "\<bar>sm_val v\<bar> < 128 * 256 ^ (length v - 1)" by (rule sm_val_mag)
  also have "(128::int) * 256 ^ (length v - 1) \<le> 128 * 256 ^ 3"
    using l by (intro mult_left_mono power_increasing) auto
  finally show ?thesis using n by auto
qed

text \<open>
  The arithmetic operators with their assertions: \<open>None\<close> where one fails, and for the
  operators without one where the \<open>int64_t\<close> sum would overflow.
\<close>

abbreviation (input) INT64_MAX :: int where "INT64_MAX \<equiv> 9223372036854775807"
abbreviation (input) INT64_MIN :: int where "INT64_MIN \<equiv> - 9223372036854775808"

definition scriptnum_add_assign :: "int \<Rightarrow> int \<Rightarrow> int option" where
  "scriptnum_add_assign m_value rhs =
     (if rhs = 0 \<or> (rhs > 0 \<and> m_value \<le> INT64_MAX - rhs) \<or> (rhs < 0 \<and> m_value \<ge> INT64_MIN - rhs)
      then Some (m_value + rhs) else None)"

definition scriptnum_sub_assign :: "int \<Rightarrow> int \<Rightarrow> int option" where
  "scriptnum_sub_assign m_value rhs =
     (if rhs = 0 \<or> (rhs > 0 \<and> m_value \<ge> INT64_MIN + rhs) \<or> (rhs < 0 \<and> m_value \<le> INT64_MAX + rhs)
      then Some (m_value - rhs) else None)"

definition scriptnum_negate :: "int \<Rightarrow> int option" where
  "scriptnum_negate m_value = (if m_value \<noteq> INT64_MIN then Some (- m_value) else None)"

definition int64_result :: "int \<Rightarrow> int option" where
  "int64_result n = (if INT64_MIN \<le> n \<and> n \<le> INT64_MAX then Some n else None)"

definition scriptnum_add :: "int \<Rightarrow> int \<Rightarrow> int option" where
  "scriptnum_add m_value rhs = int64_result (m_value + rhs)"

definition scriptnum_sub :: "int \<Rightarrow> int \<Rightarrow> int option" where
  "scriptnum_sub m_value rhs = int64_result (m_value - rhs)"

text \<open>The assertions guard against exactly the overflows.\<close>

lemma scriptnum_add_assign_iff:
  assumes "int64_result m \<noteq> None" "int64_result r \<noteq> None"
  shows "scriptnum_add_assign m r = scriptnum_add m r"
  using assms by (auto simp: int64_result_def scriptnum_add_assign_def scriptnum_add_def split: if_splits)

lemma scriptnum_sub_assign_iff:
  assumes "int64_result m \<noteq> None" "int64_result r \<noteq> None"
  shows "scriptnum_sub_assign m r = scriptnum_sub m r"
  using assms by (auto simp: int64_result_def scriptnum_sub_assign_def scriptnum_sub_def split: if_splits)

lemma scriptnum_ops_safe:
  assumes "CScriptNum v fReq = Inr a" "CScriptNum w fReq' = Inr b"
  shows "scriptnum_add a b = Some (a + b)" "scriptnum_sub a b = Some (a - b)"
    "scriptnum_add_assign a b = Some (a + b)" "scriptnum_sub_assign a b = Some (a - b)"
    "scriptnum_negate a = Some (- a)"
  using scriptnum_range[OF assms(1)] scriptnum_range[OF assms(2)]
  by (auto simp: scriptnum_add_def scriptnum_sub_def int64_result_def scriptnum_add_assign_def
      scriptnum_sub_assign_def scriptnum_negate_def)

lemma CScriptNum_iff:
  "CScriptNum v fReq = Inr n \<longleftrightarrow> length v \<le> 4 \<and> (fReq \<longrightarrow> sm_minimal v) \<and> n = sm_val v"
proof -
  have "sm_minimal v \<longleftrightarrow> \<not> (length v > 0 \<and> last v AND 0x7f = 0 \<and>
      (length v \<le> 1 \<or> v ! (length v - 2) AND 0x80 = 0))"
    by (auto simp: sm_minimal_def)
  then show ?thesis by (auto simp: CScriptNum_def set_vch_eq)
qed

lemma serialize_length:
  assumes "\<bar>n\<bar> < 2 ^ (8 * k)"
  shows "length (scriptnum_serialize n) \<le> k + 1"
proof (rule ccontr)
  assume "\<not> length (scriptnum_serialize n) \<le> k + 1"
  then have ne: "scriptnum_serialize n \<noteq> []" and k: "k + 1 \<le> length (scriptnum_serialize n) - 1"
    by auto
  have "2 * (2::nat) ^ (8 * k) \<le> 256 ^ (k + 1)" by (simp add: power_mult)
  also have "\<dots> \<le> 256 ^ (length (scriptnum_serialize n) - 1)" by (rule power_increasing[OF k]) simp
  also have "\<dots> \<le> 2 * sm_mag (scriptnum_serialize n)"
    by (rule sm_mag_bounds(1)[OF ne serialize_minimal])
  finally have "(2::nat) ^ (8 * k) \<le> sm_mag (scriptnum_serialize n)" by simp
  then have "int (2 ^ (8 * k)) \<le> int (sm_mag (scriptnum_serialize n))" by (simp only: of_nat_le_iff)
  moreover have "\<bar>n\<bar> = int (sm_mag (scriptnum_serialize n))"
    using sm_val_eq[OF ne] serialize_val[of n] by (simp split: if_splits)
  ultimately show False using assms by simp
qed

section \<open>CBigNum\<close>

text \<open>
  The format of \<open>BN_bn2mpi\<close> and \<open>BN_mpi2bn\<close> as their manual page documents it: four bytes
  of big-endian length, then the number in big-endian form, shortest possible, with a
  leading zero byte if the top bit of the magnitude is set, and the top bit set for a
  negative number.
\<close>

definition mpi_length :: "nat \<Rightarrow> bytes" where
  "mpi_length n = rev (le_bytes 4 n)"

definition mpi_documented :: "(int \<Rightarrow> bytes) \<Rightarrow> (bytes \<Rightarrow> int) \<Rightarrow> bool" where
  "mpi_documented bn2mpi mpi2bn \<longleftrightarrow>
     (\<forall>n. \<exists>body. bn2mpi n = mpi_length (length body) @ body \<and>
        sm_val (rev body) = n \<and> sm_minimal (rev body)) \<and>
     (\<forall>body. length body < 2 ^ 32 \<longrightarrow>
        mpi2bn (mpi_length (length body) @ body) = sm_val (rev body))"

text \<open>\<open>setvch\<close> and \<open>getvch\<close>, \<open>CastToBigNum\<close>, and the compact form of targets.\<close>

definition bignum_setvch :: "(bytes \<Rightarrow> int) \<Rightarrow> bytes \<Rightarrow> int" where
  "bignum_setvch mpi2bn vch =
     (let nSize = (of_nat (length vch) :: uint32)
      in mpi2bn ([ucast (drop_bit 24 nSize AND 0xff), ucast (drop_bit 16 nSize AND 0xff),
                  ucast (drop_bit 8 nSize AND 0xff), ucast (nSize AND 0xff)] @ rev vch))"

definition bignum_getvch :: "(int \<Rightarrow> bytes) \<Rightarrow> int \<Rightarrow> bytes" where
  "bignum_getvch bn2mpi n =
     (let vch = bn2mpi n in if length vch \<le> 4 then [] else rev (drop 4 vch))"

definition bignum_SetCompact :: "(bytes \<Rightarrow> int) \<Rightarrow> uint32 \<Rightarrow> int" where
  "bignum_SetCompact mpi2bn nCompact =
     (let nSize = unat (drop_bit 24 nCompact);
          vch = replicate (4 + nSize) 0;
          vch = vch[3 := word_of_nat nSize];
          vch = (if nSize \<ge> 1 then vch[4 := ucast (drop_bit 16 nCompact AND 0xff)] else vch);
          vch = (if nSize \<ge> 2 then vch[5 := ucast (drop_bit 8 nCompact AND 0xff)] else vch);
          vch = (if nSize \<ge> 3 then vch[6 := ucast (nCompact AND 0xff)] else vch)
      in mpi2bn vch)"

definition bignum_GetCompact :: "(int \<Rightarrow> bytes) \<Rightarrow> int \<Rightarrow> uint32" where
  "bignum_GetCompact bn2mpi n =
     (let vch = bn2mpi n;
          nSize = length vch - 4;
          nCompact = push_bit 24 (of_nat nSize);
          nCompact = (if nSize \<ge> 1 then nCompact OR push_bit 16 (ucast (vch ! 4)) else nCompact);
          nCompact = (if nSize \<ge> 2 then nCompact OR push_bit 8 (ucast (vch ! 5)) else nCompact);
          nCompact = (if nSize \<ge> 3 then nCompact OR ucast (vch ! 6) else nCompact)
      in nCompact)"

text \<open>\<open>BN_get_word\<close> returns the magnitude, or the largest \<open>unsigned long\<close> when it does not fit.\<close>

definition BN_get_word :: "int \<Rightarrow> int" where
  "BN_get_word n = (if \<bar>n\<bar> < 2 ^ 64 then \<bar>n\<bar> else 2 ^ 64 - 1)"

definition bignum_getint :: "int \<Rightarrow> int" where
  "bignum_getint bn =
     (let n = BN_get_word bn
      in if \<not> bn < 0 then (if n > 2147483647 then 2147483647 else n)
         else (if n > 2147483647 then - 2147483648 else - n))"

lemma drop_bit_le_bytes:
  "mpi_length n = [ucast (drop_bit 24 (of_nat n :: uint32) AND 0xff),
     ucast (drop_bit 16 (of_nat n :: uint32) AND 0xff),
     ucast (drop_bit 8 (of_nat n :: uint32) AND 0xff), ucast ((of_nat n :: uint32) AND 0xff)]"
proof -
  have m: "(0xff :: uint32) = mask 8" by (simp add: mask_eq_exp_minus_1)
  have b: "ucast (drop_bit k (of_nat n :: uint32) AND 0xff) = (word_of_nat (n div 2 ^ k) :: byte)"
    if "k \<le> 24" for k
    unfolding m drop_bit_eq_div[symmetric]
    by (rule bit_word_eqI)
      (use that in \<open>auto simp: bit_unsigned_iff bit_and_iff bit_drop_bit_eq bit_mask_iff bit_word_of_nat\<close>)
  have "le_bytes (Suc (Suc (Suc (Suc 0)))) n = [word_of_nat n, word_of_nat (n div 256),
      word_of_nat (n div 65536), word_of_nat (n div 16777216)]"
    by (simp add: div_mult2_eq[symmetric])
  moreover have "Suc (Suc (Suc (Suc 0))) = 4" by simp
  ultimately have "le_bytes 4 n = [word_of_nat n, word_of_nat (n div 256),
      word_of_nat (n div 65536), word_of_nat (n div 16777216)]" by (simp only:)
  then show ?thesis
    using b[of 24] b[of 16] b[of 8] b[of 0] by (simp add: mpi_length_def)
qed

lemma mpi_setvch:
  "mpi_documented bn2mpi mpi2bn \<Longrightarrow> length vch < 2 ^ 32 \<Longrightarrow> bignum_setvch mpi2bn vch = sm_val vch"
proof -
  assume d: "mpi_documented bn2mpi mpi2bn" and l: "length vch < 2 ^ 32"
  then have "mpi2bn (mpi_length (length (rev vch)) @ rev vch) = sm_val (rev (rev vch))"
    unfolding mpi_documented_def by (metis length_rev)
  then show ?thesis by (simp add: bignum_setvch_def Let_def drop_bit_le_bytes)
qed

lemma mpi_getvch:
  assumes "mpi_documented bn2mpi mpi2bn"
  shows "bignum_getvch bn2mpi n = scriptnum_serialize n"
proof -
  obtain body where b: "bn2mpi n = mpi_length (length body) @ body"
    "sm_val (rev body) = n" "sm_minimal (rev body)"
    using assms by (auto simp: mpi_documented_def)
  have "rev body = scriptnum_serialize n"
    by (rule sm_unique) (simp_all add: b serialize_minimal serialize_val)
  moreover have "length (mpi_length k) = 4" for k by (simp add: mpi_length_def)
  ultimately show ?thesis by (auto simp add: bignum_getvch_def b Let_def)
qed

section \<open>Properties\<close>

text \<open>
  Script numbers round trip: reading accepts exactly the byte strings of at most four bytes
  (that are minimal where that is demanded) and gives their sign-and-magnitude value, and
  writing gives the minimal string of the value.
\<close>

theorem script_number_format:
  "(CScriptNum v fReq = Inr n \<longleftrightarrow> length v \<le> 4 \<and> (if fReq then sm_minimal v else True) \<and> n = sm_val v) \<and>
   sm_val (scriptnum_serialize m) = m \<and> sm_minimal (scriptnum_serialize m) \<and>
   (CScriptNum v True = Inr n \<longleftrightarrow> length v \<le> 4 \<and> v = scriptnum_serialize n)"
proof -
  have "v = scriptnum_serialize n" if "sm_minimal v" "n = sm_val v"
    by (rule sm_unique) (simp_all add: that serialize_val serialize_minimal)
  then show ?thesis by (auto simp: CScriptNum_iff serialize_val serialize_minimal)
qed

text \<open>
  Arithmetic on script numbers read from the stack never overflows: every sum, difference and
  negation of two operands passes the assertions of the operators and stays an \<open>int64_t\<close>.
\<close>

theorem script_arithmetic_safe:
  assumes "CScriptNum v fReq = Inr a" "CScriptNum w fReq' = Inr b"
  shows "scriptnum_add_assign a b = Some (a + b) \<and> scriptnum_sub_assign a b = Some (a - b) \<and>
    scriptnum_add a b = Some (a + b) \<and> scriptnum_sub a b = Some (a - b) \<and>
    scriptnum_negate a = Some (- a)"
  by (simp add: scriptnum_ops_safe[OF assms])

lemma script_arithmetic_safe_witness:
  "scriptnum_add_assign 2147483647 2147483647 = Some 4294967294 \<and> scriptnum_negate 2147483647 = Some (- 2147483647)"
proof -
  have c: "CScriptNum [0xff, 0xff, 0xff, 0x7f] True = Inr 2147483647" by code_simp
  show ?thesis using script_arithmetic_safe[OF c c] by simp
qed


end
