(* ===== verification/Serialize.thy ===== *)
theory Serialize
  imports Prelude
begin

text \<open>
  The serialisation layer of \<open>src/src/serialize.h\<close>: the in-memory stream
  \<open>CDataStream\<close>, compact sizes, variable-length integers, fixed-width integers and
  vectors.  A reader takes the unread bytes and returns a value with the bytes left over,
  or the exception the code throws; a writer returns the bytes it appends.

  The locale \<open>codec\<close> is the contract of a writer and its reader (what is written is
  read back and the rest of the stream is untouched); \<open>canonical_codec\<close> adds that
  the reader accepts nothing but written values.  The serialisers of the later theories
  are interpretations of the two.
\<close>

section \<open>Interface: a writer and its reader\<close>

datatype ser_error = EndOfData | NonCanonical | SizeTooLarge

type_synonym 'a reader = "bytes \<Rightarrow> ser_error + ('a \<times> bytes)"

locale codec =
  fixes wr :: "'a \<Rightarrow> bytes" and rd :: "'a reader" and ok :: "'a \<Rightarrow> bool"
  assumes rd_wr: "ok x \<Longrightarrow> rd (wr x @ s) = Inr (x, s)"
begin

lemma rd_wr_end: "ok x \<Longrightarrow> rd (wr x) = Inr (x, [])"
  using rd_wr[of x "[]"] by simp

lemma wr_prefix_free:
  assumes "ok x" "ok y" "wr x @ s = wr y @ t"
  shows "x = y \<and> s = t"
proof -
  have "Inr (x, s) = (Inr (y, t) :: ser_error + _)"
    using rd_wr[OF assms(1), of s] rd_wr[OF assms(2), of t] unfolding assms(3) by (rule trans[OF sym])
  then show ?thesis by simp
qed

lemma wr_inj: "ok x \<Longrightarrow> ok y \<Longrightarrow> wr x = wr y \<Longrightarrow> x = y"
  using wr_prefix_free[of x y "[]" "[]"] by simp

end

locale canonical_codec = codec +
  assumes rd_canon: "rd s = Inr (x, t) \<Longrightarrow> ok x \<and> s = wr x @ t"
begin

lemma rd_iff: "rd s = Inr (x, t) \<longleftrightarrow> ok x \<and> s = wr x @ t"
  using rd_wr rd_canon by blast

lemma rd_unique: "rd s = Inr (x, t) \<Longrightarrow> rd s' = Inr (x, t) \<Longrightarrow> s = s'"
  using rd_canon by blast

end

lemma canonical_codecI:
  assumes "\<And>s x t. rd s = Inr (x, t) \<longleftrightarrow> ok x \<and> s = wr x @ t"
  shows "canonical_codec wr rd ok"
  by unfold_locales (use assms in auto)

section \<open>Reading and writing raw data\<close>

text \<open>\<open>CDataStream::read\<close> as its callers see it: the bytes asked for, or end of data.\<close>

definition read_data :: "nat \<Rightarrow> bytes reader" where
  "read_data k s = (if k \<le> length s then Inr (take k s, drop k s) else Inl EndOfData)"

lemma read_data_iff: "read_data k s = Inr (x, t) \<longleftrightarrow> length x = k \<and> s = x @ t"
  by (auto simp: read_data_def)

lemma read_data_append [simp]: "length x = k \<Longrightarrow> read_data k (x @ t) = Inr (x, t)"
  by (simp add: read_data_iff)

interpretation flat: canonical_codec "\<lambda>x. x" "read_data k" "\<lambda>x. length x = k" for k
  by (rule canonical_codecI) (rule read_data_iff)

text \<open>\<open>WRITEDATA\<close> and \<open>READDATA\<close> of a fixed-width integer of \<open>k\<close> bytes.\<close>

definition write_word :: "nat \<Rightarrow> 'a::len word \<Rightarrow> bytes" where
  "write_word k w = word_bytes k w"

definition read_word :: "nat \<Rightarrow> 'a::len word reader" where
  "read_word k s = rbind (read_data k s) (\<lambda>(bs, t). Inr (bytes_word bs, t))"

lemma length_write_word [simp]: "length (write_word k w) = k"
  by (simp add: write_word_def)

lemma word_canonical:
  assumes "LENGTH('a) = 8 * k"
  shows "canonical_codec (write_word k) (read_word k :: 'a::len word reader) (\<lambda>_. True)"
proof (rule canonical_codecI)
  fix s t and x :: "'a word"
  show "read_word k s = Inr (x, t) \<longleftrightarrow> True \<and> s = write_word k x @ t"
  proof
    assume "read_word k s = Inr (x, t)"
    then obtain bs where "length bs = k" "s = bs @ t" "x = bytes_word bs"
      by (auto simp: read_word_def rbind_Inr_iff read_data_iff)
    then show "True \<and> s = write_word k x @ t"
      using assms by (simp add: write_word_def) (metis word_bytes_bytes_word order_refl)
  next
    assume "True \<and> s = write_word k x @ t"
    then show "read_word k s = Inr (x, t)"
      using assms by (simp add: read_word_def write_word_def bytes_word_word_bytes)
  qed
qed

text \<open>A single \<open>unsigned char\<close>.\<close>

definition write_byte :: "byte \<Rightarrow> bytes" where
  "write_byte b = [b]"

fun read_byte :: "byte reader" where
  "read_byte [] = Inl EndOfData"
| "read_byte (b # s) = Inr (b, s)"

lemma read_byte_iff: "read_byte s = Inr (b, t) \<longleftrightarrow> s = write_byte b @ t"
  by (cases s) (auto simp: write_byte_def)

lemma length_write_byte [simp]: "length (write_byte b) = 1"
  by (simp add: write_byte_def)

interpretation u8: canonical_codec write_byte read_byte "\<lambda>_. True"
  by (rule canonical_codecI) (simp add: read_byte_iff)
interpretation u16: canonical_codec "write_word 2" "read_word 2 :: 16 word reader" "\<lambda>_. True"
  by (rule word_canonical) simp
interpretation u32: canonical_codec "write_word 4" "read_word 4 :: 32 word reader" "\<lambda>_. True"
  by (rule word_canonical) simp
interpretation u64: canonical_codec "write_word 8" "read_word 8 :: 64 word reader" "\<lambda>_. True"
  by (rule word_canonical) simp
interpretation u256: canonical_codec "write_word 32" "read_word 32 :: 256 word reader" "\<lambda>_. True"
  by (rule word_canonical) simp

section \<open>Compact sizes\<close>

definition MAX_SIZE :: uint64 where
  "MAX_SIZE = 0x02000000"

definition GetSizeOfCompactSize :: "uint64 \<Rightarrow> nat" where
  "GetSizeOfCompactSize nSize =
     (if nSize < 253 then 1
      else if nSize \<le> 0xFFFF then 1 + 2
      else if nSize \<le> 0xFFFFFFFF then 1 + 4
      else 1 + 8)"

definition WriteCompactSize :: "uint64 \<Rightarrow> bytes" where
  "WriteCompactSize nSize =
     (if nSize < 253 then write_byte (ucast nSize)
      else if nSize \<le> 0xFFFF then
        write_byte 253 @ write_word 2 (ucast nSize :: 16 word)
      else if nSize \<le> 0xFFFFFFFF then
        write_byte 254 @ write_word 4 (ucast nSize :: 32 word)
      else write_byte 255 @ write_word 8 nSize)"

definition ReadCompactSize :: "uint64 reader" where
  "ReadCompactSize s =
     rbind (read_byte s) (\<lambda>(chSize, s1).
     rbind
       (if chSize < 253 then Inr (ucast chSize :: uint64, s1)
        else if chSize = 253 then
          rbind (read_word 2 s1) (\<lambda>(xSize :: 16 word, s2).
            if (ucast xSize :: uint64) < 253 then Inl NonCanonical else Inr (ucast xSize, s2))
        else if chSize = 254 then
          rbind (read_word 4 s1) (\<lambda>(xSize :: 32 word, s2).
            if (ucast xSize :: uint64) < 0x10000 then Inl NonCanonical else Inr (ucast xSize, s2))
        else
          rbind (read_word 8 s1) (\<lambda>(xSize :: 64 word, s2).
            if xSize < 0x100000000 then Inl NonCanonical else Inr (xSize, s2)))
     (\<lambda>(nSizeRet, s3). if nSizeRet > MAX_SIZE then Inl SizeTooLarge else Inr (nSizeRet, s3)))"

lemma length_WriteCompactSize: "length (WriteCompactSize n) = GetSizeOfCompactSize n"
  by (simp add: WriteCompactSize_def GetSizeOfCompactSize_def)

text \<open>Reading accepts exactly the shortest form of the sizes up to \<open>MAX_SIZE\<close>.\<close>

lemma ReadCompactSize_Write:
  assumes "n \<le> MAX_SIZE"
  shows "ReadCompactSize (WriteCompactSize n @ s) = Inr (n, s)"
proof -
  have le: "\<not> MAX_SIZE < n" using assms by simp
  have u: "unat n \<le> 33554432"
    using assms by (simp add: MAX_SIZE_def word_le_nat_alt)
  consider "unat n < 253" | "253 \<le> unat n" "unat n \<le> 65535" | "65535 < unat n"
    by linarith
  then show ?thesis
  proof cases
    case 1
    have "ucast (ucast n :: 8 word) = n" using 1 by (intro ucast_ucast_small) simp
    moreover have "(ucast n :: 8 word) < 253" using 1 by (simp add: word_less_nat_alt unat_ucast_mod)
    ultimately show ?thesis
      using 1 le by (simp add: WriteCompactSize_def ReadCompactSize_def u8.rd_wr word_less_nat_alt[of n 253])
  next
    case 2
    have "ucast (ucast n :: 16 word) = n" using 2 by (intro ucast_ucast_small) simp
    then show ?thesis using 2 le
      by (simp add: WriteCompactSize_def ReadCompactSize_def u8.rd_wr u16.rd_wr
          word_less_nat_alt[of n 253] word_le_nat_alt[of n 65535])
  next
    case 3
    have "ucast (ucast n :: 32 word) = n" using u by (intro ucast_ucast_small) simp
    then show ?thesis using 3 le u
      by (simp add: WriteCompactSize_def ReadCompactSize_def u8.rd_wr u32.rd_wr
          word_less_nat_alt[of n 253] word_less_nat_alt[of n 65536]
          word_le_nat_alt[of n 65535] word_le_nat_alt[of n "0xFFFFFFFF"])
  qed
qed

lemma ReadCompactSize_canon:
  assumes "ReadCompactSize s = Inr (n, t)"
  shows "n \<le> MAX_SIZE \<and> s = WriteCompactSize n @ t"
proof -
  obtain ch s1 where s: "s = write_byte ch @ s1"
    using assms by (auto simp: ReadCompactSize_def rbind_Inr_iff u8.rd_iff)
  note r = assms[unfolded s ReadCompactSize_def, simplified u8.rd_wr rbind_simps prod.case]
  have le: "n \<le> MAX_SIZE" using r by (auto simp: rbind_Inr_iff split: if_splits)
  consider "ch < 253" | "ch = 253" | "ch = 254" | "ch = 255"
  proof -
    have "unat ch < 253 \<or> unat ch = 253 \<or> unat ch = 254 \<or> unat ch = 255"
      using unat_byte_less[of ch] by linarith
    then show ?thesis using that by (auto simp: word_less_nat_alt word_unat_eq_iff)
  qed
  then have "s = WriteCompactSize n @ t"
  proof cases
    case 1
    then have n: "n = ucast ch" "s1 = t" using r by (auto split: if_splits)
    then have "n < 253" using 1 by (simp add: word_less_nat_alt unat_ucast_mod)
    then show ?thesis using n s by (simp add: WriteCompactSize_def ucast_ucast_up)
  next
    case 2
    then obtain x :: "16 word" where n: "n = ucast x" "s1 = write_word 2 x @ t" "\<not> n < 253"
      using r by (auto simp: rbind_Inr_iff u16.rd_iff split: if_splits)
    moreover have "n \<le> 0xFFFF"
      using unsigned_less[of x, where ?'a=nat] by (simp add: n word_le_nat_alt unat_ucast_mod)
    ultimately show ?thesis using s 2 by (simp add: WriteCompactSize_def ucast_ucast_up)
  next
    case 3
    then obtain x :: "32 word" where n: "n = ucast x" "s1 = write_word 4 x @ t" "\<not> n < 0x10000"
      using r by (auto simp: rbind_Inr_iff u32.rd_iff split: if_splits)
    moreover have "n \<le> 0xFFFFFFFF"
      using unsigned_less[of x, where ?'a=nat] by (simp add: n word_le_nat_alt unat_ucast_mod)
    moreover have "\<not> n < 253" "\<not> n \<le> 0xFFFF"
      using n(3) by (simp_all add: word_less_nat_alt word_le_nat_alt)
    ultimately show ?thesis using s 3 by (simp add: WriteCompactSize_def ucast_ucast_up)
  next
    case 4
    then have "\<not> n < 0x100000000" using r by (auto simp: rbind_Inr_iff split: if_splits)
    moreover have "n < 0x100000000" using le by (simp add: MAX_SIZE_def word_le_nat_alt word_less_nat_alt)
    ultimately show ?thesis by blast
  qed
  with le show ?thesis by blast
qed

interpretation csize: canonical_codec WriteCompactSize ReadCompactSize "\<lambda>n. n \<le> MAX_SIZE"
  by unfold_locales (fact ReadCompactSize_Write, fact ReadCompactSize_canon)

section \<open>Variable-length integers\<close>

lemma unat_lt_pred: "unat (n :: 'a::len word) \<le> 2 ^ LENGTH('a) - Suc 0"
  using unsigned_less[of n, where ?'a=nat] by linarith

text \<open>
  \<open>I\<close> is an unsigned integer of \<open>LENGTH('a)\<close> bits.  \<open>varint_tmp\<close> is the
  buffer \<open>tmp\<close> in index order, from the index \<open>len\<close> on.
\<close>

lemma varint_step_less:
  fixes n :: "'a::len word"
  assumes "\<not> n \<le> 0x7F"
  shows "unat (drop_bit 7 n - 1) = unat n div 128 - 1" and "unat (drop_bit 7 n - 1) < unat n"
    and "128 \<le> unat n"
proof -
  have len: "7 < LENGTH('a)"
  proof (rule ccontr)
    assume "\<not> 7 < LENGTH('a)"
    then have "(2::nat) ^ LENGTH('a) \<le> 2 ^ 7" by (intro power_increasing) auto
    moreover have "(127 :: 'a word) = - 1 \<or> LENGTH('a) = 7 \<or> LENGTH('a) < 7"
      using \<open>\<not> 7 < LENGTH('a)\<close> by linarith
    moreover have "take_bit LENGTH('a) (127::nat) = 2 ^ LENGTH('a) - 1"
    proof -
      have "(127::nat) = mask 7" by (simp add: mask_eq_exp_minus_1)
      then have "take_bit LENGTH('a) (127::nat) = mask (min LENGTH('a) 7)"
        by (simp only: take_bit_of_mask)
      then show ?thesis using \<open>\<not> 7 < LENGTH('a)\<close> by (simp add: min_def mask_eq_exp_minus_1)
    qed
    ultimately have "unat (127 :: 'a word) = 2 ^ LENGTH('a) - 1" by simp
    then have "n \<le> 127" using unat_lt_pred[of n] by (simp add: word_le_nat_alt)
    with assms show False by simp
  qed
  then have "(127::nat) < 2 ^ LENGTH('a)"
    using power_strict_increasing[of 7 "LENGTH('a)" "2::nat"] by simp
  then have "unat (127 :: 'a word) = 127" by (simp add: take_bit_nat_eq_self)
  then show n: "128 \<le> unat n" using assms by (simp add: word_le_nat_alt)
  have d: "unat (drop_bit 7 n) = unat n div 128"
    by (simp add: unat_drop_bit_div)
  then have "drop_bit 7 n \<noteq> 0" using n by auto
  then show e: "unat (drop_bit 7 n - 1) = unat n div 128 - 1"
    using d by (simp add: unat_minus_one)
  show "unat (drop_bit 7 n - 1) < unat n" unfolding e using n by linarith
qed

function varint_tmp :: "'a::len word \<Rightarrow> nat \<Rightarrow> bytes" where
  "varint_tmp n len =
     (let b = ucast (n AND 0x7F) OR (if len \<noteq> 0 then 0x80 else 0x00)
      in if n \<le> 0x7F then [b] else b # varint_tmp (drop_bit 7 n - 1) (len + 1))"
  by auto
termination
  by (relation "measure (\<lambda>(n, len). unat n)") (auto dest: varint_step_less(2))

declare varint_tmp.simps [simp del]

definition WriteVarInt :: "'a::len word \<Rightarrow> bytes" where
  "WriteVarInt n = rev (varint_tmp n 0)"

function GetSizeOfVarInt_loop :: "'a::len word \<Rightarrow> nat \<Rightarrow> nat" where
  "GetSizeOfVarInt_loop n nRet =
     (if n \<le> 0x7F then nRet + 1 else GetSizeOfVarInt_loop (drop_bit 7 n - 1) (nRet + 1))"
  by auto
termination
  by (relation "measure (\<lambda>(n, nRet). unat n)") (auto dest: varint_step_less(2))

declare GetSizeOfVarInt_loop.simps [simp del]

definition GetSizeOfVarInt :: "'a::len word \<Rightarrow> nat" where
  "GetSizeOfVarInt n = GetSizeOfVarInt_loop n 0"

fun ReadVarInt_loop :: "'a::len word \<Rightarrow> 'a word reader" where
  "ReadVarInt_loop n [] = Inl EndOfData"
| "ReadVarInt_loop n (chData # s) =
     (let n' = push_bit 7 n OR ucast (chData AND 0x7F)
      in if chData AND 0x80 \<noteq> 0 then ReadVarInt_loop (n' + 1) s else Inr (n', s))"

definition ReadVarInt :: "'a::len word reader" where
  "ReadVarInt = ReadVarInt_loop 0"

lemma mask7: "(0x7F :: 'a::len word) = mask 7"
  by (simp add: mask_eq_exp_minus_1)

lemma bit_0x80: "bit (0x80 :: byte) k \<longleftrightarrow> k = 7"
proof -
  have "bit (push_bit j (1 :: byte)) k \<longleftrightarrow> j = k \<and> k < 8" for j
    by (auto simp: bit_simps)
  from this[of 7] show ?thesis by auto
qed

lemma varint_digit:
  fixes n :: "'a::len word" and f :: byte
  assumes "f = 0x80 \<or> f = 0"
  shows "(ucast ((ucast (n AND 0x7F) OR f) AND 0x7F) :: 'a word) = n AND 0x7F"
    and "((ucast (n AND 0x7F) OR f) AND 0x80 \<noteq> (0 :: byte)) = (f \<noteq> 0)"
proof -
  have "(0x80 :: byte) \<noteq> 0" by simp
  then have f: "bit f k = (f \<noteq> 0 \<and> k = 7)" for k
    using assms bit_0x80[of k] by (metis bit_0_eq bot_apply bot_bool_def)
  show "(ucast ((ucast (n AND 0x7F) OR f) AND 0x7F) :: 'a word) = n AND 0x7F"
    unfolding mask7 by (rule bit_word_eqI) (auto simp: bit_simps f)
  have "(ucast (n AND 0x7F) OR f) AND 0x80 = f"
    unfolding mask7
    by (rule bit_word_eqI) (simp only: bit_and_iff bit_or_iff bit_0x80 f, auto simp: bit_simps)
  then show "((ucast (n AND 0x7F) OR f) AND 0x80 \<noteq> (0 :: byte)) = (f \<noteq> 0)" by simp
qed

lemma ReadVarInt_loop_more:
  "ReadVarInt_loop m ((ucast (n AND 0x7F) OR 0x80) # s)
     = ReadVarInt_loop ((push_bit 7 m OR (n AND 0x7F)) + 1) s"
  using varint_digit[of "0x80" n] by (simp only: ReadVarInt_loop.simps Let_def if_True) simp

lemma ReadVarInt_loop_last:
  "ReadVarInt_loop m ((ucast (n AND 0x7F) OR 0) # s) = Inr (push_bit 7 m OR (n AND 0x7F), s)"
  using varint_digit[of 0 n] by (simp only: ReadVarInt_loop.simps Let_def) simp

lemmas varint_read = ReadVarInt_loop_more ReadVarInt_loop_last

lemma varint_join: "push_bit 7 (drop_bit 7 n) OR (n AND 0x7F) = (n :: 'a::len word)"
  unfolding mask7 by (rule bit_word_eqI) (auto simp: bit_simps)

lemma varint_last: "(n :: 'a::len word) \<le> 0x7F \<Longrightarrow> n AND 0x7F = n"
proof -
  assume n: "n \<le> 0x7F"
  have "drop_bit 7 n = 0"
  proof (cases "7 \<le> LENGTH('a)")
    case True
    then have "(127::nat) < 2 ^ LENGTH('a)"
      using power_increasing[of 7 "LENGTH('a)" "2::nat"] by simp
    then have "unat n < 128" using n by (simp add: word_le_nat_alt take_bit_nat_eq_self)
    then have "unat (drop_bit 7 n) = unat (0 :: 'a word)"
      by (simp add: unat_drop_bit_div)
    then show ?thesis by (simp only: word_unat_eq_iff)
  next
    case False
    then show ?thesis by (intro bit_word_eqI) (auto simp: bit_simps dest: bit_imp_le_length)
  qed
  then show ?thesis using varint_join[of n] by simp
qed

declare ReadVarInt_loop.simps(2) [simp del]

lemma ReadVarInt_loop_cont:
  "len \<noteq> 0 \<Longrightarrow> ReadVarInt_loop 0 (rev (varint_tmp n len) @ s) = ReadVarInt_loop (n + 1) s"
proof (induction n len arbitrary: s rule: varint_tmp.induct)
  case (1 n len)
  show ?case
  proof (cases "n \<le> 0x7F")
    case True
    then have "varint_tmp n len = [ucast (n AND 0x7F) OR 0x80]"
      using 1(2) by (subst varint_tmp.simps) (simp add: Let_def)
    from this varint_read(1)[of 0 n s] varint_last[OF True] show ?thesis by simp
  next
    case False
    then have t: "varint_tmp n len = (ucast (n AND 0x7F) OR 0x80) # varint_tmp (drop_bit 7 n - 1) (len + 1)"
      using 1(2) by (subst varint_tmp.simps) (simp add: Let_def)
    show ?thesis unfolding t
      using 1(1)[OF refl False, of "(ucast (n AND 0x7F) OR 0x80) # s"]
      by (simp add: varint_read varint_join)
  qed
qed

lemma ReadVarInt_WriteVarInt: "ReadVarInt (WriteVarInt n @ s) = Inr (n, s)"
proof (cases "n \<le> 0x7F")
  case True
  then have "varint_tmp n 0 = [ucast (n AND 0x7F) OR 0]"
    by (subst varint_tmp.simps) (simp add: Let_def)
  from this varint_read(2)[of 0 n s] varint_last[OF True] show ?thesis
    by (simp add: ReadVarInt_def WriteVarInt_def)
next
  case False
  then have t: "varint_tmp n 0 = (ucast (n AND 0x7F) OR 0) # varint_tmp (drop_bit 7 n - 1) 1"
    by (subst varint_tmp.simps) (simp add: Let_def)
  show ?thesis
    unfolding ReadVarInt_def WriteVarInt_def t
    using ReadVarInt_loop_cont[of 1 "drop_bit 7 n - 1" "(ucast (n AND 0x7F) OR 0) # s"]
    by (simp add: varint_read[of _ n, simplified] varint_join)
qed

interpretation varint: codec WriteVarInt ReadVarInt "\<lambda>_. True"
  by unfold_locales (rule ReadVarInt_WriteVarInt)

lemma GetSizeOfVarInt_loop_eq: "GetSizeOfVarInt_loop n r = r + length (varint_tmp n len)"
  by (induction n r arbitrary: len rule: GetSizeOfVarInt_loop.induct)
    (subst GetSizeOfVarInt_loop.simps, subst varint_tmp.simps, simp add: Let_def)

lemma GetSizeOfVarInt_length: "GetSizeOfVarInt n = length (WriteVarInt n)"
  using GetSizeOfVarInt_loop_eq[of n 0 0] by (simp add: GetSizeOfVarInt_def WriteVarInt_def)

text \<open>The buffer \<open>tmp[(sizeof(n)*8+6)/7]\<close> is large enough.\<close>

lemma varint_tmp_bound:
  "unat n < 2 ^ (7 * k) \<Longrightarrow> 0 < k \<Longrightarrow> length (varint_tmp n len) \<le> k"
proof (induction n len arbitrary: k rule: varint_tmp.induct)
  case (1 n len)
  show ?case
  proof (cases "n \<le> 0x7F")
    case True
    then show ?thesis using 1 by (subst varint_tmp.simps) (simp add: Let_def)
  next
    case False
    note st = varint_step_less[OF False]
    obtain j where k: "k = Suc j" using 1 by (cases k) auto
    have "unat n < 128 * 2 ^ (7 * j)" using 1(2) by (simp add: k power_add)
    then have lt: "unat n div 128 < 2 ^ (7 * j)" by (simp add: less_mult_imp_div_less mult.commute)
    have "0 < j" using lt st(3) by (cases j) (auto simp: div_less_iff_less_mult)
    moreover have "unat (drop_bit 7 n - 1) < 2 ^ (7 * j)" unfolding st(1) using lt by linarith
    ultimately have "length (varint_tmp (drop_bit 7 n - 1) (len + 1)) \<le> j"
      using 1(1)[OF _ False] by blast
    then show ?thesis using False by (subst varint_tmp.simps) (simp add: Let_def k)
  qed
qed

lemma WriteVarInt_buffer: "length (WriteVarInt (n :: 'a::len word)) \<le> (LENGTH('a) + 6) div 7"
proof -
  have "unat n < 2 ^ LENGTH('a)" by (rule unsigned_less)
  also have "(2::nat) ^ LENGTH('a) \<le> 2 ^ (7 * ((LENGTH('a) + 6) div 7))"
    by (intro power_increasing) linarith+
  finally show ?thesis
    unfolding WriteVarInt_def length_rev by (rule varint_tmp_bound) (simp add: div_greater_zero_iff Suc_le_eq)
qed

section \<open>Vectors\<close>

text \<open>Reading \<open>k\<close> elements one after the other.\<close>

primrec read_n :: "'a reader \<Rightarrow> nat \<Rightarrow> 'a list reader" where
  "read_n rd 0 s = Inr ([], s)"
| "read_n rd (Suc k) s =
     rbind (rd s) (\<lambda>(x, s1). rbind (read_n rd k s1) (\<lambda>(xs, s2). Inr (x # xs, s2)))"

lemma read_n_add:
  "read_n rd (j + k) s =
     rbind (read_n rd j s) (\<lambda>(xs, s1). rbind (read_n rd k s1) (\<lambda>(ys, s2). Inr (xs @ ys, s2)))"
proof (induction j arbitrary: s)
  case 0
  show ?case by (cases "read_n rd k s") (auto simp: rbind_def)
next
  case (Suc j)
  show ?case
    by (auto simp: Suc rbind_def split: sum.splits prod.splits)
qed

text \<open>
  Vectors of class type: the loop grows the vector by blocks of
  \<open>step = 5000000 / sizeof(T)\<close> elements.  A block of size zero would make it loop
  forever, which is the value \<open>None\<close>.
\<close>

partial_function (option) read_blocks ::
  "'a reader \<Rightarrow> nat \<Rightarrow> nat \<Rightarrow> nat \<Rightarrow> 'a list \<Rightarrow> bytes \<Rightarrow> (ser_error + ('a list \<times> bytes)) option" where
  "read_blocks rd step nSize nMid v s =
     (if nMid < nSize then
        (let nMid' = (if nMid + step > nSize then nSize else nMid + step)
         in case read_n rd (nMid' - length v) s of
              Inl e \<Rightarrow> Some (Inl e)
            | Inr (xs, s') \<Rightarrow> read_blocks rd step nSize nMid' (v @ xs) s')
      else Some (Inr (v, s)))"

definition write_vec :: "('a \<Rightarrow> bytes) \<Rightarrow> 'a list \<Rightarrow> bytes" where
  "write_vec wr v = WriteCompactSize (of_nat (length v)) @ concat (map wr v)"

definition read_vec :: "'a reader \<Rightarrow> nat \<Rightarrow> bytes \<Rightarrow> (ser_error + ('a list \<times> bytes)) option" where
  "read_vec rd sizeof_T s =
     (case ReadCompactSize s of
        Inl e \<Rightarrow> Some (Inl e)
      | Inr (n, s1) \<Rightarrow>
          read_blocks rd (5000000 div sizeof_T) (unat (ucast n :: uint32)) 0 [] s1)"

text \<open>The one-pass reader that the block loop implements.\<close>

definition read_list :: "'a reader \<Rightarrow> 'a list reader" where
  "read_list rd s = rbind (ReadCompactSize s) (\<lambda>(n, s1). read_n rd (unat n) s1)"

lemma read_n_length: "read_n rd k s = Inr (xs, t) \<Longrightarrow> length xs = k"
  by (induction k arbitrary: s xs t) (auto simp: rbind_Inr_iff)

lemma read_blocks_eq:
  assumes "0 < step" "nMid \<le> nSize" "length v = nMid"
  shows "read_blocks rd step nSize nMid v s
     = Some (rbind (read_n rd (nSize - nMid) s) (\<lambda>(xs, s'). Inr (v @ xs, s')))"
  using assms(2,3)
proof (induction "nSize - nMid" arbitrary: nMid v s rule: less_induct)
  case less
  show ?case
  proof (cases "nMid < nSize")
    case True
    define m where "m = (if nMid + step > nSize then nSize else nMid + step)"
    have m: "nMid < m" "m \<le> nSize" using True assms(1) by (auto simp: m_def)
    then have split: "nSize - nMid = (m - nMid) + (nSize - m)" by simp
    show ?thesis
    proof (cases "read_n rd (m - nMid) s")
      case (Inl e)
      then show ?thesis
        using True less.prems by (subst read_blocks.simps) (simp add: m_def[symmetric] split read_n_add)
    next
      case (Inr r)
      obtain xs s' where r: "r = (xs, s')" by (cases r)
      have len: "length (v @ xs) = m" using read_n_length Inr r less.prems m by fastforce
      have "nSize - m < nSize - nMid" using m True by linarith
      note IH = less.hyps[OF this m(2) len, of s']
      show ?thesis
        using True less.prems Inr r IH
        by (subst read_blocks.simps)
          (auto simp: m_def[symmetric] split read_n_add rbind_def split: sum.splits prod.splits)
    qed
  next
    case False
    then show ?thesis using less.prems by (subst read_blocks.simps) simp
  qed
qed

lemma read_vec_eq:
  assumes "0 < sizeof_T" "sizeof_T \<le> 5000000"
  shows "read_vec rd sizeof_T s = Some (read_list rd s)"
proof (cases "ReadCompactSize s")
  case (Inr r)
  obtain n s1 where r: "r = (n, s1)" by (cases r)
  have "n \<le> MAX_SIZE" using Inr r csize.rd_canon by blast
  then have "unat n \<le> 33554432" by (simp add: MAX_SIZE_def word_le_nat_alt)
  then have "unat (ucast n :: uint32) = unat n" by (simp add: unat_ucast_mod)
  moreover have "0 < 5000000 div sizeof_T" using assms by (simp add: div_greater_zero_iff)
  ultimately show ?thesis
    using Inr r by (cases "read_n rd (unat n) s1")
      (auto simp: read_vec_def read_list_def read_blocks_eq)
qed (simp add: read_vec_def read_list_def)

definition vec_ok :: "('a \<Rightarrow> bool) \<Rightarrow> 'a list \<Rightarrow> bool" where
  "vec_ok ok v \<longleftrightarrow> length v \<le> 33554432 \<and> list_all ok v"

text \<open>Vectors inherit the contract of their elements.\<close>

locale element_codec = elem: canonical_codec +
  assumes nothing_more: True
begin

lemma read_n_iff:
  "read_n rd k s = Inr (v, t) \<longleftrightarrow> length v = k \<and> list_all ok v \<and> s = concat (map wr v) @ t"
proof (induction k arbitrary: s v)
  case (Suc k)
  show ?case
    by (cases v) (auto simp: rbind_Inr_iff elem.rd_iff Suc)
qed auto

lemma read_list_iff: "read_list rd s = Inr (v, t) \<longleftrightarrow> vec_ok ok v \<and> s = write_vec wr v @ t"
proof
  assume "read_list rd s = Inr (v, t)"
  then obtain n where n: "n \<le> MAX_SIZE" "s = WriteCompactSize n @ concat (map wr v) @ t"
    "length v = unat n" "list_all ok v"
    by (auto simp: read_list_def rbind_Inr_iff csize.rd_iff read_n_iff)
  then show "vec_ok ok v \<and> s = write_vec wr v @ t"
    by (simp add: vec_ok_def write_vec_def MAX_SIZE_def word_le_nat_alt)
next
  assume a: "vec_ok ok v \<and> s = write_vec wr v @ t"
  then have u: "unat (of_nat (length v) :: uint64) = length v"
    by (simp add: vec_ok_def unsigned_of_nat take_bit_nat_eq_self)
  then have "(of_nat (length v) :: uint64) \<le> MAX_SIZE"
    using a by (simp add: vec_ok_def MAX_SIZE_def word_le_nat_alt)
  then show "read_list rd s = Inr (v, t)"
    using a u by (auto simp: read_list_def write_vec_def csize.rd_wr read_n_iff vec_ok_def)
qed

end

sublocale element_codec \<subseteq> vec: canonical_codec "write_vec wr" "read_list rd" "vec_ok ok"
  by (rule canonical_codecI) (rule read_list_iff)

lemma element_codecI: "canonical_codec wr rd ok \<Longrightarrow> element_codec wr rd ok"
  by (simp add: element_codec_def element_codec_axioms_def)

text \<open>
  Vectors of bytes (\<open>is_fundamental\<close>): read in blocks of at most
  \<open>1 + 4999999 / sizeof(T)\<close> bytes, \<open>sizeof(T) = 1\<close>.
\<close>

function read_chunks :: "nat \<Rightarrow> nat \<Rightarrow> bytes \<Rightarrow> bytes reader" where
  "read_chunks nSize i v s =
     (if i < nSize then
        (let blk = min (nSize - i) (1 + 4999999 div 1)
         in rbind (read_data blk s) (\<lambda>(d, s'). read_chunks nSize (i + blk) (v @ d) s'))
      else Inr (v, s))"
  by auto
termination
  by (relation "measure (\<lambda>(nSize, i, v, s). nSize - i)") (auto simp: min_def)

declare read_chunks.simps [simp del]

definition write_bytevec :: "bytes \<Rightarrow> bytes" where
  "write_bytevec v = WriteCompactSize (of_nat (length v)) @ v"

definition read_bytevec :: "bytes reader" where
  "read_bytevec s =
     rbind (ReadCompactSize s) (\<lambda>(n, s1). read_chunks (unat (ucast n :: uint32)) 0 [] s1)"

lemma read_chunks_iff:
  "i \<le> nSize \<Longrightarrow>
   read_chunks nSize i v s = Inr (x, t) \<longleftrightarrow> (\<exists>d. length d = nSize - i \<and> s = d @ t \<and> x = v @ d)"
proof (induction nSize i v s rule: read_chunks.induct)
  case (1 nSize i v s)
  show ?case
  proof (cases "i < nSize")
    case True
    define blk where "blk = min (nSize - i) (5000000::nat)"
    have blk: "0 < blk" "i + blk \<le> nSize" using True by (auto simp: blk_def)
    have IH: "read_chunks nSize (i + blk) (v @ d) s' = Inr (x, t) \<longleftrightarrow>
        (\<exists>d'. length d' = nSize - (i + blk) \<and> s' = d' @ t \<and> x = (v @ d) @ d')"
      if "read_data blk s = Inr (d, s')" for d s'
      using 1(1)[OF True, of blk "(d, s')" d s'] blk that by (simp add: blk_def)
    have "read_chunks nSize i v s =
        rbind (read_data blk s) (\<lambda>(d, s'). read_chunks nSize (i + blk) (v @ d) s')"
      using True by (subst read_chunks.simps) (simp add: blk_def Let_def)
    then have "read_chunks nSize i v s = Inr (x, t) \<longleftrightarrow>
        (\<exists>d s'. read_data blk s = Inr (d, s') \<and> read_chunks nSize (i + blk) (v @ d) s' = Inr (x, t))"
      by (auto simp: rbind_Inr_iff)
    also have "\<dots> \<longleftrightarrow> (\<exists>d s'. read_data blk s = Inr (d, s') \<and>
        (\<exists>d'. length d' = nSize - (i + blk) \<and> s' = d' @ t \<and> x = (v @ d) @ d'))"
      using IH by blast
    also have "\<dots> \<longleftrightarrow>
        (\<exists>d d'. length d = blk \<and> s = d @ d' @ t \<and> length d' = nSize - (i + blk) \<and> x = v @ d @ d')"
      by (auto simp: read_data_iff)
    also have "\<dots> \<longleftrightarrow> (\<exists>d. length d = nSize - i \<and> s = d @ t \<and> x = v @ d)" (is "?l \<longleftrightarrow> ?r")
    proof
      assume ?l
      then obtain d d' where d: "length d = blk" "s = d @ d' @ t"
        "length d' = nSize - (i + blk)" "x = v @ d @ d'" by blast
      then have "length (d @ d') = nSize - i" using blk by simp
      then show ?r using d by (intro exI[of _ "d @ d'"]) simp
    next
      assume ?r
      then obtain d where d: "length d = nSize - i" "s = d @ t" "x = v @ d" by blast
      then show ?l using blk
        by (intro exI[of _ "take blk d"] exI[of _ "drop blk d"]) auto
    qed
    finally show ?thesis .
  next
    case False
    then show ?thesis using 1(2) by (subst read_chunks.simps) auto
  qed
qed

definition bytevec_ok :: "bytes \<Rightarrow> bool" where
  "bytevec_ok v \<longleftrightarrow> length v \<le> 33554432"

lemma read_bytevec_iff:
  "read_bytevec s = Inr (v, t) \<longleftrightarrow> bytevec_ok v \<and> s = write_bytevec v @ t"
proof
  assume "read_bytevec s = Inr (v, t)"
  then obtain n s1 where n: "n \<le> MAX_SIZE" "s = WriteCompactSize n @ s1"
    and r: "read_chunks (unat (ucast n :: uint32)) 0 [] s1 = Inr (v, t)"
    by (auto simp: read_bytevec_def rbind_Inr_iff csize.rd_iff)
  have u: "unat n \<le> 33554432" using n by (simp add: MAX_SIZE_def word_le_nat_alt)
  then have "unat (ucast n :: uint32) = unat n" by (simp add: unat_ucast_mod)
  then show "bytevec_ok v \<and> s = write_bytevec v @ t"
    using r n u by (auto simp: read_chunks_iff write_bytevec_def bytevec_ok_def)
next
  assume a: "bytevec_ok v \<and> s = write_bytevec v @ t"
  then have u: "unat (of_nat (length v) :: uint64) = length v"
    by (simp add: bytevec_ok_def unsigned_of_nat take_bit_nat_eq_self)
  then have le: "(of_nat (length v) :: uint64) \<le> MAX_SIZE"
    using a by (simp add: bytevec_ok_def MAX_SIZE_def word_le_nat_alt)
  have l: "unat (ucast (of_nat (length v) :: uint64) :: uint32) = length v"
    using a u by (simp add: unat_ucast_mod bytevec_ok_def)
  have "read_bytevec s = read_chunks (length v) 0 [] (v @ t)"
    using a unfolding read_bytevec_def write_bytevec_def
    by (simp only: append_assoc csize.rd_wr[OF le] rbind_simps prod.case l)
  then show "read_bytevec s = Inr (v, t)" by (simp add: read_chunks_iff)
qed

interpretation bytevec: canonical_codec write_bytevec read_bytevec bytevec_ok
  by (rule canonical_codecI) (rule read_bytevec_iff)

end
