(* ===== verification/Core.thy ===== *)
theory Core
  imports Serialize "HOL-Library.Signed_Division"
begin

text \<open>
  Transactions and blocks as data: \<open>src/src/core.h\<close> and the classes
  \<open>CDiskTxPos\<close>, \<open>CTransaction\<close>, \<open>CTxIndex\<close> and \<open>CBlock\<close> of
  \<open>src/src/main.h\<close>, with their predicates, comparison operators and serialised
  forms.  An \<open>int\<close> or \<open>int64_t\<close> field is the word of its width and is read
  with \<open>sint\<close>; a script is its bytes.
\<close>

section \<open>Amounts\<close>

type_synonym int64 = "64 word"
type_synonym script = bytes

definition COIN :: int where "COIN = 100000000"
definition CENT :: int where "CENT = 1000000"
definition MAX_MONEY :: int where "MAX_MONEY = 294336000 * COIN"

definition MoneyRange :: "int64 \<Rightarrow> bool" where
  "MoneyRange nValue \<longleftrightarrow> sint nValue \<ge> 0 \<and> sint nValue \<le> MAX_MONEY"

lemma sint64_add:
  fixes a b :: int64
  assumes "- (2 ^ 63) \<le> sint a + sint b" "sint a + sint b < 2 ^ 63"
  shows "sint (a + b) = sint a + sint b"
  using assms by (simp add: sint_word_ariths(1) signed_take_bit_int_eq_self)

lemma MoneyRange_add:
  assumes "MoneyRange a" "MoneyRange b"
  shows "sint (a + b) = sint a + sint b"
  using assms by (intro sint64_add) (auto simp: MoneyRange_def MAX_MONEY_def COIN_def)

section \<open>Outpoints\<close>

record COutPoint =
  op_hash :: uint256
  op_n :: uint32

definition outpoint_null :: COutPoint where
  "outpoint_null = \<lparr>op_hash = 0, op_n = - 1\<rparr>"

definition outpoint_IsNull :: "COutPoint \<Rightarrow> bool" where
  "outpoint_IsNull p \<longleftrightarrow> op_hash p = 0 \<and> op_n p = - 1"

text \<open>\<open>operator<\<close>, the order of the maps keyed by outpoints.\<close>

definition outpoint_less :: "COutPoint \<Rightarrow> COutPoint \<Rightarrow> bool" where
  "outpoint_less a b \<longleftrightarrow>
     op_hash a < op_hash b \<or> (op_hash a = op_hash b \<and> op_n a < op_n b)"

definition outpoint_eq :: "COutPoint \<Rightarrow> COutPoint \<Rightarrow> bool" where
  "outpoint_eq a b \<longleftrightarrow> op_hash a = op_hash b \<and> op_n a = op_n b"

lemma outpoint_eq_iff: "outpoint_eq a b \<longleftrightarrow> a = b"
  by (cases a; cases b) (auto simp: outpoint_eq_def)

lemma outpoint_IsNull_iff: "outpoint_IsNull p \<longleftrightarrow> p = outpoint_null"
  by (cases p) (auto simp: outpoint_IsNull_def outpoint_null_def)

instantiation COutPoint_ext :: (linorder) linorder
begin

definition less_COutPoint_ext :: "'a COutPoint_ext \<Rightarrow> 'a COutPoint_ext \<Rightarrow> bool" where
  "less_COutPoint_ext a b \<longleftrightarrow>
     op_hash a < op_hash b \<or> (op_hash a = op_hash b \<and>
       (op_n a < op_n b \<or> (op_n a = op_n b \<and> COutPoint.more a < COutPoint.more b)))"

definition less_eq_COutPoint_ext :: "'a COutPoint_ext \<Rightarrow> 'a COutPoint_ext \<Rightarrow> bool" where
  "less_eq_COutPoint_ext a b \<longleftrightarrow> a < b \<or> a = (b :: 'a COutPoint_ext)"

instance
proof
  fix a b c :: "'a COutPoint_ext"
  show "a < b \<longleftrightarrow> a \<le> b \<and> \<not> b \<le> a"
    by (auto simp: less_COutPoint_ext_def less_eq_COutPoint_ext_def)
  show "a \<le> a" by (simp add: less_eq_COutPoint_ext_def)
  show "a \<le> b \<Longrightarrow> b \<le> c \<Longrightarrow> a \<le> c"
    by (auto simp: less_COutPoint_ext_def less_eq_COutPoint_ext_def)
  show "a \<le> b \<Longrightarrow> b \<le> a \<Longrightarrow> a = b"
    by (auto simp: less_COutPoint_ext_def less_eq_COutPoint_ext_def)
  show "a \<le> b \<or> b \<le> a"
    by (cases a; cases b) (auto simp: less_COutPoint_ext_def less_eq_COutPoint_ext_def)
qed

end

lemma outpoint_less_iff: "outpoint_less a b \<longleftrightarrow> a < b"
  by (cases a; cases b) (auto simp: outpoint_less_def less_COutPoint_ext_def)

definition write_outpoint :: "COutPoint \<Rightarrow> bytes" where
  "write_outpoint p = write_word 32 (op_hash p) @ write_word 4 (op_n p)"

definition read_outpoint :: "COutPoint reader" where
  "read_outpoint s =
     rbind (read_word 32 s) (\<lambda>(h, s).
     rbind (read_word 4 s) (\<lambda>(n, s). Inr (\<lparr>op_hash = h, op_n = n\<rparr>, s)))"

interpretation outpoint: canonical_codec write_outpoint read_outpoint "\<lambda>_. True"
  by (rule canonical_codecI, rename_tac s x t, case_tac x)
    (auto simp: read_outpoint_def write_outpoint_def rbind_Inr_iff u256.rd_iff u32.rd_iff)

section \<open>Inputs and outputs\<close>

record CTxIn =
  prevout :: COutPoint
  scriptSig :: script
  prevPubKey :: script
  nSequence :: uint32

definition mk_txin :: "COutPoint \<Rightarrow> script \<Rightarrow> uint32 \<Rightarrow> CTxIn" where
  "mk_txin p sig nSeq = \<lparr>prevout = p, scriptSig = sig, prevPubKey = [], nSequence = nSeq\<rparr>"

definition txin_IsFinal :: "CTxIn \<Rightarrow> bool" where
  "txin_IsFinal i \<longleftrightarrow> nSequence i = - 1"

definition txin_eq :: "CTxIn \<Rightarrow> CTxIn \<Rightarrow> bool" where
  "txin_eq a b \<longleftrightarrow>
     outpoint_eq (prevout a) (prevout b) \<and> scriptSig a = scriptSig b \<and> nSequence a = nSequence b"

definition write_txin :: "CTxIn \<Rightarrow> bytes" where
  "write_txin i =
     write_outpoint (prevout i) @ write_bytevec (scriptSig i) @ write_word 4 (nSequence i)"

definition read_txin :: "CTxIn reader" where
  "read_txin s =
     rbind (read_outpoint s) (\<lambda>(p, s).
     rbind (read_bytevec s) (\<lambda>(sig, s).
     rbind (read_word 4 s) (\<lambda>(sq, s). Inr (mk_txin p sig sq, s))))"

definition txin_ok :: "CTxIn \<Rightarrow> bool" where
  "txin_ok i \<longleftrightarrow> bytevec_ok (scriptSig i) \<and> prevPubKey i = []"

interpretation txin: canonical_codec write_txin read_txin txin_ok
  by (rule canonical_codecI, rename_tac s x t, case_tac x)
    (auto simp: read_txin_def write_txin_def mk_txin_def txin_ok_def rbind_Inr_iff
      outpoint.rd_iff bytevec.rd_iff u32.rd_iff)

interpretation txins: element_codec write_txin read_txin txin_ok
  by (rule element_codecI) (rule txin.canonical_codec_axioms)

record CTxOut =
  nValue :: int64
  nRounds :: uint32
  scriptPubKey :: script

definition txout_null :: CTxOut where
  "txout_null = \<lparr>nValue = - 1, nRounds = - 10, scriptPubKey = []\<rparr>"

definition txout_IsNull :: "CTxOut \<Rightarrow> bool" where
  "txout_IsNull out \<longleftrightarrow> nValue out = - 1"

definition txout_SetEmpty :: "CTxOut \<Rightarrow> CTxOut" where
  "txout_SetEmpty out = out\<lparr>nValue := 0, scriptPubKey := []\<rparr>"

definition txout_IsEmpty :: "CTxOut \<Rightarrow> bool" where
  "txout_IsEmpty out \<longleftrightarrow> nValue out = 0 \<and> scriptPubKey out = []"

definition txout_eq :: "CTxOut \<Rightarrow> CTxOut \<Rightarrow> bool" where
  "txout_eq a b \<longleftrightarrow>
     nValue a = nValue b \<and> nRounds a = nRounds b \<and> scriptPubKey a = scriptPubKey b"

definition write_txout :: "CTxOut \<Rightarrow> bytes" where
  "write_txout out = write_word 8 (nValue out) @ write_bytevec (scriptPubKey out)"

definition read_txout :: "CTxOut reader" where
  "read_txout s =
     rbind (read_word 8 s) (\<lambda>(v, s).
     rbind (read_bytevec s) (\<lambda>(pk, s).
       Inr (txout_null\<lparr>nValue := v, scriptPubKey := pk\<rparr>, s)))"

definition txout_ok :: "CTxOut \<Rightarrow> bool" where
  "txout_ok out \<longleftrightarrow> bytevec_ok (scriptPubKey out) \<and> nRounds out = - 10"

definition GetSerializeSize_txout :: "CTxOut \<Rightarrow> nat" where
  "GetSerializeSize_txout out =
     8 + (GetSizeOfCompactSize (of_nat (length (scriptPubKey out))) + length (scriptPubKey out))"

text \<open>\<open>IsDust\<close>: the division is C's, truncating toward zero.\<close>

definition txout_IsDust :: "int64 \<Rightarrow> CTxOut \<Rightarrow> bool" where
  "txout_IsDust MIN_RELAY_TX_FEE out \<longleftrightarrow>
     sint (nValue out * 1000) sdiv (3 * (int (GetSerializeSize_txout out) + 148))
       < sint MIN_RELAY_TX_FEE"

lemma GetSerializeSize_txout_eq: "length (write_txout out) = GetSerializeSize_txout out"
  by (simp add: write_txout_def GetSerializeSize_txout_def write_bytevec_def length_WriteCompactSize)

interpretation txout: canonical_codec write_txout read_txout txout_ok
  by (rule canonical_codecI, rename_tac s x t, case_tac x)
    (auto simp: read_txout_def write_txout_def txout_null_def txout_ok_def rbind_Inr_iff
      bytevec.rd_iff u64.rd_iff)

interpretation txouts: element_codec write_txout read_txout txout_ok
  by (rule element_codecI) (rule txout.canonical_codec_axioms)

section \<open>Transactions\<close>

record CTransaction =
  tx_nVersion :: uint32
  tx_nTime :: uint32
  vin :: "CTxIn list"
  vout :: "CTxOut list"
  nLockTime :: uint32
  tx_nDoS :: uint32

definition tx_SetNull :: "uint32 \<Rightarrow> CTransaction" where
  "tx_SetNull adjustedTime =
     \<lparr>tx_nVersion = 1, tx_nTime = adjustedTime, vin = [], vout = [], nLockTime = 0, tx_nDoS = 0\<rparr>"

definition tx_IsNull :: "CTransaction \<Rightarrow> bool" where
  "tx_IsNull tx \<longleftrightarrow> vin tx = [] \<and> vout tx = []"

definition IsCoinBase :: "CTransaction \<Rightarrow> bool" where
  "IsCoinBase tx \<longleftrightarrow>
     length (vin tx) = 1 \<and> outpoint_IsNull (prevout (vin tx ! 0)) \<and> length (vout tx) \<ge> 1"

definition IsCoinStake :: "CTransaction \<Rightarrow> bool" where
  "IsCoinStake tx \<longleftrightarrow>
     length (vin tx) > 0 \<and> \<not> outpoint_IsNull (prevout (vin tx ! 0)) \<and>
     length (vout tx) \<ge> 2 \<and> txout_IsEmpty (vout tx ! 0)"

datatype tx_exn = ValueOutOfRange

fun GetValueOut_loop :: "int64 \<Rightarrow> CTxOut list \<Rightarrow> tx_exn + int64" where
  "GetValueOut_loop nValueOut [] = Inr nValueOut"
| "GetValueOut_loop nValueOut (txout # rest) =
     (let nValueOut = nValueOut + nValue txout
      in if \<not> MoneyRange (nValue txout) \<or> \<not> MoneyRange nValueOut then Inl ValueOutOfRange
         else GetValueOut_loop nValueOut rest)"

definition GetValueOut :: "CTransaction \<Rightarrow> tx_exn + int64" where
  "GetValueOut tx = GetValueOut_loop 0 (vout tx)"

definition tx_eq :: "CTransaction \<Rightarrow> CTransaction \<Rightarrow> bool" where
  "tx_eq a b \<longleftrightarrow>
     tx_nVersion a = tx_nVersion b \<and> tx_nTime a = tx_nTime b \<and>
     list_all2 txin_eq (vin a) (vin b) \<and> list_all2 txout_eq (vout a) (vout b) \<and>
     nLockTime a = nLockTime b"

definition write_tx :: "CTransaction \<Rightarrow> bytes" where
  "write_tx tx =
     write_word 4 (tx_nVersion tx) @ write_word 4 (tx_nTime tx) @
     write_vec write_txin (vin tx) @ write_vec write_txout (vout tx) @
     write_word 4 (nLockTime tx)"

definition read_tx :: "CTransaction reader" where
  "read_tx s =
     rbind (read_word 4 s) (\<lambda>(ver, s).
     rbind (read_word 4 s) (\<lambda>(t, s).
     rbind (read_list read_txin s) (\<lambda>(is, s).
     rbind (read_list read_txout s) (\<lambda>(os, s).
     rbind (read_word 4 s) (\<lambda>(lt, s).
       Inr (\<lparr>tx_nVersion = ver, tx_nTime = t, vin = is, vout = os, nLockTime = lt, tx_nDoS = 0\<rparr>, s))))))"

definition tx_ok :: "CTransaction \<Rightarrow> bool" where
  "tx_ok tx \<longleftrightarrow> vec_ok txin_ok (vin tx) \<and> vec_ok txout_ok (vout tx) \<and> tx_nDoS tx = 0"

text \<open>\<open>GetHash\<close>: \<open>H\<close> is the double SHA-256 of OpenSSL.\<close>

definition tx_GetHash :: "(bytes \<Rightarrow> uint256) \<Rightarrow> CTransaction \<Rightarrow> uint256" where
  "tx_GetHash H tx = H (write_tx tx)"

interpretation tx: canonical_codec write_tx read_tx tx_ok
  by (rule canonical_codecI, rename_tac s x t, case_tac x)
    (auto simp: read_tx_def write_tx_def tx_ok_def rbind_Inr_iff
      txins.vec.rd_iff txouts.vec.rd_iff u32.rd_iff)

interpretation txs: element_codec write_tx read_tx tx_ok
  by (rule element_codecI) (rule tx.canonical_codec_axioms)

lemma coinbase_not_coinstake: "IsCoinBase tx \<Longrightarrow> \<not> IsCoinStake tx"
  by (auto simp: IsCoinBase_def IsCoinStake_def)

lemma MoneyRange_0: "MoneyRange 0"
  by (simp add: MoneyRange_def MAX_MONEY_def COIN_def)

lemma GetValueOut_loop_iff:
  "MoneyRange acc \<Longrightarrow>
   GetValueOut_loop acc outs = Inr v \<longleftrightarrow>
     list_all (\<lambda>out. MoneyRange (nValue out)) outs \<and>
     sint acc + sum_list (map (\<lambda>out. sint (nValue out)) outs) \<le> MAX_MONEY \<and>
     sint v = sint acc + sum_list (map (\<lambda>out. sint (nValue out)) outs)"
proof (induction outs arbitrary: acc)
  case Nil
  then show ?case by (auto simp: MoneyRange_def simp flip: word_eq_iff_signed)
next
  case (Cons out outs)
  show ?case
  proof (cases "MoneyRange (nValue out)")
    case False
    then show ?thesis by simp
  next
    case True
    have add: "sint (acc + nValue out) = sint acc + sint (nValue out)"
      by (rule MoneyRange_add) fact+
    have pos: "list_all (\<lambda>out. MoneyRange (nValue out)) outs \<Longrightarrow>
        0 \<le> sum_list (map (\<lambda>out. sint (nValue out)) outs)"
      by (intro sum_list_nonneg) (auto simp: list_all_iff MoneyRange_def)
    have mr: "MoneyRange (acc + nValue out) \<longleftrightarrow> sint acc + sint (nValue out) \<le> MAX_MONEY"
      using True Cons.prems by (auto simp: MoneyRange_def add)
    show ?thesis
    proof (cases "MoneyRange (acc + nValue out)")
      case True
      then show ?thesis using Cons.IH[OF True] \<open>MoneyRange (nValue out)\<close>
        by (simp add: add algebra_simps)
    next
      case False
      then show ?thesis using True mr pos by auto
    qed
  qed
qed

end
