(* ===== verification/Script.thy ===== *)
theory Script
  imports Bignum Core "HOL-Library.Sublist"
begin

text \<open>
  Scripts as byte strings (\<open>src/src/script.h\<close>, \<open>src/src/script.cpp\<close>): the opcodes, the
  instruction decoder \<open>GetOp2\<close>, the push operators, and the functions that scan a script
  (\<open>FindAndDelete\<close>, \<open>IsPushOnly\<close>, \<open>GetSigOpCount\<close>, ...).  An opcode is the number of
  its byte; an iterator into a script is the part of the script from it on.
\<close>

section \<open>Opcodes, limits and flags\<close>

abbreviation (input) OP_0 :: nat where "OP_0 \<equiv> 0"
abbreviation (input) OP_FALSE :: nat where "OP_FALSE \<equiv> 0"
abbreviation (input) OP_PUSHDATA1 :: nat where "OP_PUSHDATA1 \<equiv> 76"
abbreviation (input) OP_PUSHDATA2 :: nat where "OP_PUSHDATA2 \<equiv> 77"
abbreviation (input) OP_PUSHDATA4 :: nat where "OP_PUSHDATA4 \<equiv> 78"
abbreviation (input) OP_1NEGATE :: nat where "OP_1NEGATE \<equiv> 79"
abbreviation (input) OP_RESERVED :: nat where "OP_RESERVED \<equiv> 80"
abbreviation (input) OP_1 :: nat where "OP_1 \<equiv> 81"
abbreviation (input) OP_TRUE :: nat where "OP_TRUE \<equiv> 81"
abbreviation (input) OP_2 :: nat where "OP_2 \<equiv> 82"
abbreviation (input) OP_3 :: nat where "OP_3 \<equiv> 83"
abbreviation (input) OP_4 :: nat where "OP_4 \<equiv> 84"
abbreviation (input) OP_5 :: nat where "OP_5 \<equiv> 85"
abbreviation (input) OP_6 :: nat where "OP_6 \<equiv> 86"
abbreviation (input) OP_7 :: nat where "OP_7 \<equiv> 87"
abbreviation (input) OP_8 :: nat where "OP_8 \<equiv> 88"
abbreviation (input) OP_9 :: nat where "OP_9 \<equiv> 89"
abbreviation (input) OP_10 :: nat where "OP_10 \<equiv> 90"
abbreviation (input) OP_11 :: nat where "OP_11 \<equiv> 91"
abbreviation (input) OP_12 :: nat where "OP_12 \<equiv> 92"
abbreviation (input) OP_13 :: nat where "OP_13 \<equiv> 93"
abbreviation (input) OP_14 :: nat where "OP_14 \<equiv> 94"
abbreviation (input) OP_15 :: nat where "OP_15 \<equiv> 95"
abbreviation (input) OP_16 :: nat where "OP_16 \<equiv> 96"
abbreviation (input) OP_NOP :: nat where "OP_NOP \<equiv> 97"
abbreviation (input) OP_VER :: nat where "OP_VER \<equiv> 98"
abbreviation (input) OP_IF :: nat where "OP_IF \<equiv> 99"
abbreviation (input) OP_NOTIF :: nat where "OP_NOTIF \<equiv> 100"
abbreviation (input) OP_VERIF :: nat where "OP_VERIF \<equiv> 101"
abbreviation (input) OP_VERNOTIF :: nat where "OP_VERNOTIF \<equiv> 102"
abbreviation (input) OP_ELSE :: nat where "OP_ELSE \<equiv> 103"
abbreviation (input) OP_ENDIF :: nat where "OP_ENDIF \<equiv> 104"
abbreviation (input) OP_VERIFY :: nat where "OP_VERIFY \<equiv> 105"
abbreviation (input) OP_RETURN :: nat where "OP_RETURN \<equiv> 106"
abbreviation (input) OP_TOALTSTACK :: nat where "OP_TOALTSTACK \<equiv> 107"
abbreviation (input) OP_FROMALTSTACK :: nat where "OP_FROMALTSTACK \<equiv> 108"
abbreviation (input) OP_2DROP :: nat where "OP_2DROP \<equiv> 109"
abbreviation (input) OP_2DUP :: nat where "OP_2DUP \<equiv> 110"
abbreviation (input) OP_3DUP :: nat where "OP_3DUP \<equiv> 111"
abbreviation (input) OP_2OVER :: nat where "OP_2OVER \<equiv> 112"
abbreviation (input) OP_2ROT :: nat where "OP_2ROT \<equiv> 113"
abbreviation (input) OP_2SWAP :: nat where "OP_2SWAP \<equiv> 114"
abbreviation (input) OP_IFDUP :: nat where "OP_IFDUP \<equiv> 115"
abbreviation (input) OP_DEPTH :: nat where "OP_DEPTH \<equiv> 116"
abbreviation (input) OP_DROP :: nat where "OP_DROP \<equiv> 117"
abbreviation (input) OP_DUP :: nat where "OP_DUP \<equiv> 118"
abbreviation (input) OP_NIP :: nat where "OP_NIP \<equiv> 119"
abbreviation (input) OP_OVER :: nat where "OP_OVER \<equiv> 120"
abbreviation (input) OP_PICK :: nat where "OP_PICK \<equiv> 121"
abbreviation (input) OP_ROLL :: nat where "OP_ROLL \<equiv> 122"
abbreviation (input) OP_ROT :: nat where "OP_ROT \<equiv> 123"
abbreviation (input) OP_SWAP :: nat where "OP_SWAP \<equiv> 124"
abbreviation (input) OP_TUCK :: nat where "OP_TUCK \<equiv> 125"
abbreviation (input) OP_CAT :: nat where "OP_CAT \<equiv> 126"
abbreviation (input) OP_SUBSTR :: nat where "OP_SUBSTR \<equiv> 127"
abbreviation (input) OP_LEFT :: nat where "OP_LEFT \<equiv> 128"
abbreviation (input) OP_RIGHT :: nat where "OP_RIGHT \<equiv> 129"
abbreviation (input) OP_SIZE :: nat where "OP_SIZE \<equiv> 130"
abbreviation (input) OP_INVERT :: nat where "OP_INVERT \<equiv> 131"
abbreviation (input) OP_AND :: nat where "OP_AND \<equiv> 132"
abbreviation (input) OP_OR :: nat where "OP_OR \<equiv> 133"
abbreviation (input) OP_XOR :: nat where "OP_XOR \<equiv> 134"
abbreviation (input) OP_EQUAL :: nat where "OP_EQUAL \<equiv> 135"
abbreviation (input) OP_EQUALVERIFY :: nat where "OP_EQUALVERIFY \<equiv> 136"
abbreviation (input) OP_RESERVED1 :: nat where "OP_RESERVED1 \<equiv> 137"
abbreviation (input) OP_RESERVED2 :: nat where "OP_RESERVED2 \<equiv> 138"
abbreviation (input) OP_1ADD :: nat where "OP_1ADD \<equiv> 139"
abbreviation (input) OP_1SUB :: nat where "OP_1SUB \<equiv> 140"
abbreviation (input) OP_2MUL :: nat where "OP_2MUL \<equiv> 141"
abbreviation (input) OP_2DIV :: nat where "OP_2DIV \<equiv> 142"
abbreviation (input) OP_NEGATE :: nat where "OP_NEGATE \<equiv> 143"
abbreviation (input) OP_ABS :: nat where "OP_ABS \<equiv> 144"
abbreviation (input) OP_NOT :: nat where "OP_NOT \<equiv> 145"
abbreviation (input) OP_0NOTEQUAL :: nat where "OP_0NOTEQUAL \<equiv> 146"
abbreviation (input) OP_ADD :: nat where "OP_ADD \<equiv> 147"
abbreviation (input) OP_SUB :: nat where "OP_SUB \<equiv> 148"
abbreviation (input) OP_MUL :: nat where "OP_MUL \<equiv> 149"
abbreviation (input) OP_DIV :: nat where "OP_DIV \<equiv> 150"
abbreviation (input) OP_MOD :: nat where "OP_MOD \<equiv> 151"
abbreviation (input) OP_LSHIFT :: nat where "OP_LSHIFT \<equiv> 152"
abbreviation (input) OP_RSHIFT :: nat where "OP_RSHIFT \<equiv> 153"
abbreviation (input) OP_BOOLAND :: nat where "OP_BOOLAND \<equiv> 154"
abbreviation (input) OP_BOOLOR :: nat where "OP_BOOLOR \<equiv> 155"
abbreviation (input) OP_NUMEQUAL :: nat where "OP_NUMEQUAL \<equiv> 156"
abbreviation (input) OP_NUMEQUALVERIFY :: nat where "OP_NUMEQUALVERIFY \<equiv> 157"
abbreviation (input) OP_NUMNOTEQUAL :: nat where "OP_NUMNOTEQUAL \<equiv> 158"
abbreviation (input) OP_LESSTHAN :: nat where "OP_LESSTHAN \<equiv> 159"
abbreviation (input) OP_GREATERTHAN :: nat where "OP_GREATERTHAN \<equiv> 160"
abbreviation (input) OP_LESSTHANOREQUAL :: nat where "OP_LESSTHANOREQUAL \<equiv> 161"
abbreviation (input) OP_GREATERTHANOREQUAL :: nat where "OP_GREATERTHANOREQUAL \<equiv> 162"
abbreviation (input) OP_MIN :: nat where "OP_MIN \<equiv> 163"
abbreviation (input) OP_MAX :: nat where "OP_MAX \<equiv> 164"
abbreviation (input) OP_WITHIN :: nat where "OP_WITHIN \<equiv> 165"
abbreviation (input) OP_RIPEMD160 :: nat where "OP_RIPEMD160 \<equiv> 166"
abbreviation (input) OP_SHA1 :: nat where "OP_SHA1 \<equiv> 167"
abbreviation (input) OP_SHA256 :: nat where "OP_SHA256 \<equiv> 168"
abbreviation (input) OP_HASH160 :: nat where "OP_HASH160 \<equiv> 169"
abbreviation (input) OP_HASH256 :: nat where "OP_HASH256 \<equiv> 170"
abbreviation (input) OP_CODESEPARATOR :: nat where "OP_CODESEPARATOR \<equiv> 171"
abbreviation (input) OP_CHECKSIG :: nat where "OP_CHECKSIG \<equiv> 172"
abbreviation (input) OP_CHECKSIGVERIFY :: nat where "OP_CHECKSIGVERIFY \<equiv> 173"
abbreviation (input) OP_CHECKMULTISIG :: nat where "OP_CHECKMULTISIG \<equiv> 174"
abbreviation (input) OP_CHECKMULTISIGVERIFY :: nat where "OP_CHECKMULTISIGVERIFY \<equiv> 175"
abbreviation (input) OP_NOP1 :: nat where "OP_NOP1 \<equiv> 176"
abbreviation (input) OP_NOP2 :: nat where "OP_NOP2 \<equiv> 177"
abbreviation (input) OP_NOP3 :: nat where "OP_NOP3 \<equiv> 178"
abbreviation (input) OP_NOP4 :: nat where "OP_NOP4 \<equiv> 179"
abbreviation (input) OP_NOP5 :: nat where "OP_NOP5 \<equiv> 180"
abbreviation (input) OP_NOP6 :: nat where "OP_NOP6 \<equiv> 181"
abbreviation (input) OP_NOP7 :: nat where "OP_NOP7 \<equiv> 182"
abbreviation (input) OP_NOP8 :: nat where "OP_NOP8 \<equiv> 183"
abbreviation (input) OP_NOP9 :: nat where "OP_NOP9 \<equiv> 184"
abbreviation (input) OP_NOP10 :: nat where "OP_NOP10 \<equiv> 185"
abbreviation (input) OP_SMALLDATA :: nat where "OP_SMALLDATA \<equiv> 249"
abbreviation (input) OP_SMALLINTEGER :: nat where "OP_SMALLINTEGER \<equiv> 250"
abbreviation (input) OP_PUBKEYS :: nat where "OP_PUBKEYS \<equiv> 251"
abbreviation (input) OP_PUBKEYHASH :: nat where "OP_PUBKEYHASH \<equiv> 253"
abbreviation (input) OP_PUBKEY :: nat where "OP_PUBKEY \<equiv> 254"
abbreviation (input) OP_INVALIDOPCODE :: nat where "OP_INVALIDOPCODE \<equiv> 255"

definition MAX_SCRIPT_ELEMENT_SIZE :: nat where "MAX_SCRIPT_ELEMENT_SIZE = 520"
definition MAX_OP_RETURN_RELAY :: nat where "MAX_OP_RETURN_RELAY = 40"

datatype ScriptError =
    SCRIPT_ERR_UNKNOWN_ERROR
  | SCRIPT_ERR_EVAL_FALSE
  | SCRIPT_ERR_OP_RETURN
  | SCRIPT_ERR_SCRIPT_SIZE
  | SCRIPT_ERR_PUSH_SIZE
  | SCRIPT_ERR_OP_COUNT
  | SCRIPT_ERR_STACK_SIZE
  | SCRIPT_ERR_SIG_COUNT
  | SCRIPT_ERR_PUBKEY_COUNT
  | SCRIPT_ERR_VERIFY
  | SCRIPT_ERR_EQUALVERIFY
  | SCRIPT_ERR_CHECKMULTISIGVERIFY
  | SCRIPT_ERR_CHECKSIGVERIFY
  | SCRIPT_ERR_NUMEQUALVERIFY
  | SCRIPT_ERR_BAD_OPCODE
  | SCRIPT_ERR_DISABLED_OPCODE
  | SCRIPT_ERR_INVALID_STACK_OPERATION
  | SCRIPT_ERR_INVALID_ALTSTACK_OPERATION
  | SCRIPT_ERR_UNBALANCED_CONDITIONAL
  | SCRIPT_ERR_SIG_HASHTYPE
  | SCRIPT_ERR_SIG_DER
  | SCRIPT_ERR_MINIMALDATA
  | SCRIPT_ERR_SIG_PUSHONLY
  | SCRIPT_ERR_SIG_HIGH_S
  | SCRIPT_ERR_SIG_NULLDUMMY
  | SCRIPT_ERR_PUBKEYTYPE
  | SCRIPT_ERR_DISCOURAGE_UPGRADABLE_NOPS

definition SIGHASH_ALL :: int where "SIGHASH_ALL = 1"
definition SIGHASH_NONE :: int where "SIGHASH_NONE = 2"
definition SIGHASH_SINGLE :: int where "SIGHASH_SINGLE = 3"
definition SIGHASH_ANYONECANPAY :: int where "SIGHASH_ANYONECANPAY = 0x80"

definition SCRIPT_VERIFY_NONE :: uint32 where "SCRIPT_VERIFY_NONE = 0"
definition SCRIPT_VERIFY_NOCACHE :: uint32 where "SCRIPT_VERIFY_NOCACHE = push_bit 0 1"
definition SCRIPT_VERIFY_P2SH :: uint32 where "SCRIPT_VERIFY_P2SH = push_bit 0 1"
definition SCRIPT_VERIFY_STRICTENC :: uint32 where "SCRIPT_VERIFY_STRICTENC = push_bit 1 1"
definition SCRIPT_VERIFY_DERSIG :: uint32 where "SCRIPT_VERIFY_DERSIG = push_bit 2 1"
definition SCRIPT_VERIFY_LOW_S :: uint32 where "SCRIPT_VERIFY_LOW_S = push_bit 3 1"
definition SCRIPT_VERIFY_NULLDUMMY :: uint32 where "SCRIPT_VERIFY_NULLDUMMY = push_bit 4 1"
definition SCRIPT_VERIFY_SIGPUSHONLY :: uint32 where "SCRIPT_VERIFY_SIGPUSHONLY = push_bit 5 1"
definition SCRIPT_VERIFY_MINIMALDATA :: uint32 where "SCRIPT_VERIFY_MINIMALDATA = push_bit 6 1"
definition SCRIPT_VERIFY_DISCOURAGE_UPGRADABLE_NOPS :: uint32 where
  "SCRIPT_VERIFY_DISCOURAGE_UPGRADABLE_NOPS = push_bit 7 1"

definition MANDATORY_SCRIPT_VERIFY_FLAGS :: uint32 where
  "MANDATORY_SCRIPT_VERIFY_FLAGS = SCRIPT_VERIFY_NONE"
definition STANDARD_SCRIPT_VERIFY_FLAGS :: uint32 where
  "STANDARD_SCRIPT_VERIFY_FLAGS =
     MANDATORY_SCRIPT_VERIFY_FLAGS OR SCRIPT_VERIFY_STRICTENC OR SCRIPT_VERIFY_NULLDUMMY OR
     SCRIPT_VERIFY_DISCOURAGE_UPGRADABLE_NOPS"

section \<open>Reading instructions\<close>

text \<open>
  \<open>GetOp2\<close>: the opcode, the pushed data and the position after the instruction, or
  \<open>None\<close> where the code returns false.
\<close>

definition GetOp2 :: "script \<Rightarrow> (nat \<times> bytes \<times> script) option" where
  "GetOp2 pc =
     (case pc of
        [] \<Rightarrow> None
      | b # pc \<Rightarrow>
          (let opcode = unat b
           in if opcode \<le> OP_PUSHDATA4 then
                (case
                   (if opcode < OP_PUSHDATA1 then Some (opcode, pc)
                    else if opcode = OP_PUSHDATA1 then
                      (if length pc < 1 then None else Some (unat (hd pc), drop 1 pc))
                    else if opcode = OP_PUSHDATA2 then
                      (if length pc < 2 then None else Some (le_val (take 2 pc), drop 2 pc))
                    else
                      (if length pc < 4 then None else Some (le_val (take 4 pc), drop 4 pc)))
                 of None \<Rightarrow> None
                  | Some (nSize, pc) \<Rightarrow>
                      (if length pc < nSize then None
                       else Some (opcode, take nSize pc, drop nSize pc)))
              else Some (opcode, [], pc)))"

lemma GetOp2_Nil [simp]: "GetOp2 [] = None"
  by (simp add: GetOp2_def)

lemma GetOp2_shorter: "GetOp2 pc = Some (opcode, v, pc') \<Longrightarrow> length pc' < length pc"
  by (cases pc) (auto simp: GetOp2_def Let_def split: if_splits option.splits)

lemma GetOp2_opcode_less: "GetOp2 pc = Some (opcode, v, pc') \<Longrightarrow> opcode < 256"
  by (cases pc) (auto simp: GetOp2_def Let_def split: if_splits option.splits)

lemma GetOp2_suffix: "GetOp2 pc = Some (opcode, v, pc') \<Longrightarrow> suffix pc' pc"
  by (cases pc) (auto simp: GetOp2_def Let_def suffix_Cons suffix_drop split: if_splits option.splits)

lemma GetOp2_no_push: "GetOp2 pc = Some (opcode, v, pc') \<Longrightarrow> opcode > OP_PUSHDATA4 \<Longrightarrow> v = []"
  by (cases pc) (auto simp: GetOp2_def Let_def split: if_splits option.splits)

section \<open>Writing instructions\<close>

definition push_opcode :: "nat \<Rightarrow> script \<Rightarrow> script" where
  "push_opcode opcode s = s @ [word_of_nat opcode]"

definition push_data :: "bytes \<Rightarrow> script \<Rightarrow> script" where
  "push_data b s =
     s @ (if length b < OP_PUSHDATA1 then [word_of_nat (length b)]
          else if length b \<le> 0xff then [word_of_nat OP_PUSHDATA1, word_of_nat (length b)]
          else if length b \<le> 0xffff then word_of_nat OP_PUSHDATA2 # le_bytes 2 (length b)
          else word_of_nat OP_PUSHDATA4 # le_bytes 4 (length b)) @ b"

text \<open>\<open>push_int64\<close>: small numbers have opcodes of their own; \<open>getvch\<close> is that of \<open>CBigNum\<close>.\<close>

definition push_int64 :: "(int \<Rightarrow> bytes) \<Rightarrow> int \<Rightarrow> script \<Rightarrow> script" where
  "push_int64 bn2mpi n s =
     (if n = - 1 \<or> (n \<ge> 1 \<and> n \<le> 16) then s @ [word_of_int (n + (int OP_1 - 1))]
      else push_data (bignum_getvch bn2mpi n) s)"

definition push_uint64 :: "(int \<Rightarrow> bytes) \<Rightarrow> int \<Rightarrow> script \<Rightarrow> script" where
  "push_uint64 bn2mpi n s =
     (if n \<ge> 1 \<and> n \<le> 16 then s @ [word_of_int (n + (int OP_1 - 1))]
      else push_data (bignum_getvch bn2mpi n) s)"

definition push_uint160 :: "uint160 \<Rightarrow> script \<Rightarrow> script" where
  "push_uint160 b s = s @ [20] @ word_bytes 20 b"

definition push_uint256 :: "uint256 \<Rightarrow> script \<Rightarrow> script" where
  "push_uint256 b s = s @ [32] @ word_bytes 32 b"

lemma GetOp2_push_data:
  assumes "length b < 2 ^ 32"
  shows "\<exists>opcode \<le> OP_PUSHDATA4. GetOp2 (push_data b [] @ rest) = Some (opcode, b, rest)"
proof -
  have u8: "unat (word_of_nat n :: byte) = n" if "n < 256" for n
    using that by (simp add: unsigned_of_nat take_bit_nat_eq_self)
  consider "length b < 76" | "76 \<le> length b" "length b \<le> 255" | "255 < length b" "length b \<le> 65535"
    | "65535 < length b" by linarith
  then show ?thesis
  proof cases
    case 1
    then show ?thesis by (simp add: push_data_def GetOp2_def u8)
  next
    case 2
    then show ?thesis by (simp add: push_data_def GetOp2_def u8)
  next
    case 3
    then show ?thesis by (simp add: push_data_def GetOp2_def u8 le_val_le_bytes)
  next
    case 4
    then show ?thesis using assms by (simp add: push_data_def GetOp2_def u8 le_val_le_bytes)
  qed
qed

section \<open>Small integers\<close>

text \<open>The assertions of the two functions are \<open>None\<close>.\<close>

definition DecodeOP_N :: "nat \<Rightarrow> nat option" where
  "DecodeOP_N opcode =
     (if opcode = OP_0 then Some 0
      else if opcode \<ge> OP_1 \<and> opcode \<le> OP_16 then Some (opcode - (OP_1 - 1)) else None)"

definition EncodeOP_N :: "nat \<Rightarrow> nat option" where
  "EncodeOP_N n =
     (if n \<le> 16 then (if n = 0 then Some OP_0 else Some (OP_1 + n - 1)) else None)"

lemma DecodeOP_N_EncodeOP_N: "n \<le> 16 \<Longrightarrow> Option.bind (EncodeOP_N n) DecodeOP_N = Some n"
  by (auto simp: EncodeOP_N_def DecodeOP_N_def)

section \<open>Scanning\<close>

text \<open>The inner loop of \<open>FindAndDelete\<close>: erase every copy of \<open>b\<close> at the current position.\<close>

function erase_copies :: "script \<Rightarrow> script \<Rightarrow> nat \<Rightarrow> nat \<times> script" where
  "erase_copies b pc nFound =
     (if b \<noteq> [] \<and> length pc \<ge> length b \<and> take (length b) pc = b
      then erase_copies b (drop (length b) pc) (nFound + 1) else (nFound, pc))"
  by auto
termination by (relation "measure (\<lambda>(b, pc, n). length pc)") (auto intro!: diff_less)

declare erase_copies.simps [simp del]

lemma erase_copies_shorter: "length (snd (erase_copies b pc n)) \<le> length pc"
  by (induction b pc n rule: erase_copies.induct) (subst erase_copies.simps, auto)

text \<open>\<open>before\<close> is the part of the script already passed.\<close>

function FindAndDelete_loop :: "script \<Rightarrow> script \<Rightarrow> script \<Rightarrow> nat \<Rightarrow> nat \<times> script" where
  "FindAndDelete_loop b before pc nFound =
     (case erase_copies b pc nFound of (nFound, pc1) \<Rightarrow>
        (case GetOp2 pc1 of
           None \<Rightarrow> (nFound, before @ pc1)
         | Some (opcode, v, pc2) \<Rightarrow>
             FindAndDelete_loop b (before @ take (length pc1 - length pc2) pc1) pc2 nFound))"
  by auto
termination
proof (relation "measure (\<lambda>(b, before, pc, n). length pc)", goal_cases)
  case (2 b before pc n m pc1 t opcode vp v pc2)
  have "length pc1 \<le> length pc" using erase_copies_shorter[of b pc n] by (simp add: 2(1)[symmetric])
  moreover have "length pc2 < length pc1" using GetOp2_shorter 2 by fastforce
  ultimately show ?case by simp
qed auto

declare FindAndDelete_loop.simps [simp del]

definition FindAndDelete :: "script \<Rightarrow> script \<Rightarrow> nat \<times> script" where
  "FindAndDelete s b = (if b = [] then (0, s) else FindAndDelete_loop b [] s 0)"

text \<open>Counting occurrences of an opcode; the loop stops at the first undecodable instruction.\<close>

function Find_loop :: "nat \<Rightarrow> script \<Rightarrow> nat \<Rightarrow> nat" where
  "Find_loop op pc nFound =
     (case GetOp2 pc of
        None \<Rightarrow> nFound
      | Some (opcode, v, pc') \<Rightarrow> Find_loop op pc' (if opcode = op then nFound + 1 else nFound))"
  by auto
termination by (relation "measure (\<lambda>(op, pc, n). length pc)") (auto dest: GetOp2_shorter)

function IsPushOnly :: "script \<Rightarrow> bool" where
  "IsPushOnly pc =
     (if pc = [] then True
      else case GetOp2 pc of
             None \<Rightarrow> False
           | Some (opcode, v, pc') \<Rightarrow> if opcode > OP_16 then False else IsPushOnly pc')"
  by auto
termination by (relation "measure length") (auto dest: GetOp2_shorter)

text \<open>\<open>GetSigOpCount(bool)\<close>: \<open>lastOpcode\<close> starts as the invalid opcode.\<close>

function SigOpCount_loop :: "bool \<Rightarrow> script \<Rightarrow> nat \<Rightarrow> nat \<Rightarrow> nat" where
  "SigOpCount_loop fAccurate pc lastOpcode n =
     (if pc = [] then n
      else case GetOp2 pc of
             None \<Rightarrow> n
           | Some (opcode, v, pc') \<Rightarrow>
               SigOpCount_loop fAccurate pc' opcode
                 (if opcode = OP_CHECKSIG \<or> opcode = OP_CHECKSIGVERIFY then n + 1
                  else if opcode = OP_CHECKMULTISIG \<or> opcode = OP_CHECKMULTISIGVERIFY then
                    (if fAccurate \<and> lastOpcode \<ge> OP_1 \<and> lastOpcode \<le> OP_16
                     then n + the (DecodeOP_N lastOpcode) else n + 20)
                  else n))"
  by auto
termination by (relation "measure (\<lambda>(a, pc, l, n). length pc)") (auto dest: GetOp2_shorter)

declare Find_loop.simps [simp del] IsPushOnly.simps [simp del] SigOpCount_loop.simps [simp del]

definition Find :: "script \<Rightarrow> nat \<Rightarrow> nat" where
  "Find s op = Find_loop op s 0"

definition GetSigOpCount :: "bool \<Rightarrow> script \<Rightarrow> nat" where
  "GetSigOpCount fAccurate s = SigOpCount_loop fAccurate s OP_INVALIDOPCODE 0"

definition IsPayToScriptHash :: "script \<Rightarrow> bool" where
  "IsPayToScriptHash s \<longleftrightarrow>
     length s = 23 \<and> unat (s ! 0) = OP_HASH160 \<and> s ! 1 = 0x14 \<and> unat (s ! 22) = OP_EQUAL"

text \<open>The data of the last push of a push-only script, or \<open>None\<close> where the code returns 0.\<close>

function last_push :: "script \<Rightarrow> bytes \<Rightarrow> bytes option" where
  "last_push pc data =
     (if pc = [] then Some data
      else case GetOp2 pc of
             None \<Rightarrow> None
           | Some (opcode, v, pc') \<Rightarrow> if opcode > OP_16 then None else last_push pc' v)"
  by auto
termination by (relation "measure (\<lambda>(pc, d). length pc)") (auto dest: GetOp2_shorter)

declare last_push.simps [simp del]

definition GetSigOpCount_P2SH :: "script \<Rightarrow> script \<Rightarrow> nat" where
  "GetSigOpCount_P2SH s sig =
     (if \<not> IsPayToScriptHash s then GetSigOpCount True s
      else case last_push sig [] of
             None \<Rightarrow> 0
           | Some data \<Rightarrow> GetSigOpCount True data)"

function HasCanonicalPushes :: "script \<Rightarrow> bool" where
  "HasCanonicalPushes pc =
     (if pc = [] then True
      else case GetOp2 pc of
             None \<Rightarrow> False
           | Some (opcode, data, pc') \<Rightarrow>
               if opcode > OP_16 then HasCanonicalPushes pc'
               else if opcode < OP_PUSHDATA1 \<and> opcode > OP_0 \<and> (length data = 1 \<and> data ! 0 \<le> 16) then False
               else if opcode = OP_PUSHDATA1 \<and> length data < OP_PUSHDATA1 then False
               else if opcode = OP_PUSHDATA2 \<and> length data \<le> 0xFF then False
               else if opcode = OP_PUSHDATA4 \<and> length data \<le> 0xFFFF then False
               else HasCanonicalPushes pc')"
  by auto
termination by (relation "measure length") (auto dest: GetOp2_shorter)

declare HasCanonicalPushes.simps [simp del]

definition IsUnspendable :: "script \<Rightarrow> bool" where
  "IsUnspendable s \<longleftrightarrow> length s > 0 \<and> unat (s ! 0) = OP_RETURN"

section \<open>Values on the stack\<close>

fun CastToBool :: "bytes \<Rightarrow> bool" where
  "CastToBool [] = False"
| "CastToBool (b # vch) =
     (if b \<noteq> 0 then (if vch = [] \<and> b = 0x80 then False else True) else CastToBool vch)"

definition MakeSameSize :: "bytes \<Rightarrow> bytes \<Rightarrow> bytes \<times> bytes" where
  "MakeSameSize vch1 vch2 =
     (let vch1 = (if length vch1 < length vch2 then vch1 @ replicate (length vch2 - length vch1) 0 else vch1);
          vch2 = (if length vch2 < length vch1 then vch2 @ replicate (length vch1 - length vch2) 0 else vch2)
      in (vch1, vch2))"

definition vchFalse :: bytes where "vchFalse = []"
definition vchTrue :: bytes where "vchTrue = [1]"

text \<open>A value is true exactly if it is not zero as a number, minus zero included.\<close>

lemma CastToBool_iff: "CastToBool v \<longleftrightarrow> sm_val v \<noteq> 0"
proof (induction v)
  case (Cons b v)
  show ?case
  proof (cases "v = []")
    case True
    have "unat b = 0 \<longleftrightarrow> b = 0" by (simp add: unsigned_eq_0_iff)
    moreover have "unat b = 128 \<longleftrightarrow> b = 0x80" by (simp add: word_unat_eq_iff)
    moreover have "unat b mod 128 = 0 \<longleftrightarrow> unat b = 0 \<or> unat b = 128"
      using unat_byte_less[of b] by presburger
    ultimately show ?thesis using True
      by (auto simp: sm_val_eq sm_mag_eq unsigned_eq_0_iff)
  next
    case False
    have u: "unat b = 0 \<longleftrightarrow> b = 0" by (simp add: unsigned_eq_0_iff)
    have "sm_mag (b # v) = unat b + 256 * sm_mag v"
      using False by (simp add: sm_mag_def)
    then have "sm_mag (b # v) = 0 \<longleftrightarrow> unat b = 0 \<and> sm_mag v = 0" by simp
    moreover have "sm_val w = 0 \<longleftrightarrow> sm_mag w = 0" if "w \<noteq> []" for w
      using that by (simp add: sm_val_eq)
    ultimately have "sm_val (b # v) = 0 \<longleftrightarrow> unat b = 0 \<and> sm_val v = 0"
      using False by simp
    then show ?thesis using Cons False u by auto
  qed
qed (simp add: sm_val_def)

section \<open>Instructions as chunks\<close>

text \<open>
  The bytes of the instructions of a script, and the undecodable rest.  A script that is
  one instruction is deleted by \<open>FindAndDelete\<close> exactly where it is an instruction.
\<close>

function chunks :: "script \<Rightarrow> script list \<times> script" where
  "chunks s =
     (case GetOp2 s of
        None \<Rightarrow> ([], s)
      | Some (opcode, v, s') \<Rightarrow>
          (case chunks s' of (cs, t) \<Rightarrow> (take (length s - length s') s # cs, t)))"
  by auto
termination by (relation "measure length") (auto dest: GetOp2_shorter)

declare chunks.simps [simp del]

lemma take_append_split:
  "(k \<le> length pc \<and> n \<le> length pc - k \<and> v = take n (drop k pc) \<and> t = drop n (drop k pc)) \<longleftrightarrow>
   (pc = take k pc @ v @ t \<and> length (take k pc) = k \<and> length v = n)"
  (is "?l \<longleftrightarrow> ?r")
proof
  assume ?l
  then have "v @ t = drop k pc" by (elim conjE) (simp only: append_take_drop_id)
  then show ?r using \<open>?l\<close> by (simp add: min_def)
next
  assume ?r
  then have d: "drop k pc = v @ t" "k \<le> length pc"
    by (metis append_eq_conv_conj) (use \<open>?r\<close> in \<open>simp add: min_def split: if_splits\<close>)
  then have "length pc - k = length v + length t" by (metis length_append length_drop)
  then show ?l using d \<open>?r\<close> by simp
qed

text \<open>A pushing instruction is its opcode, a size field of \<open>push_width\<close> bytes and the data.\<close>

definition push_width :: "nat \<Rightarrow> nat" where
  "push_width opcode =
     (if opcode < OP_PUSHDATA1 then 0 else if opcode = OP_PUSHDATA1 then 1
      else if opcode = OP_PUSHDATA2 then 2 else 4)"

lemma GetOp2_push:
  assumes "unat b \<le> OP_PUSHDATA4"
  shows "GetOp2 (b # pc) = Some (opcode, v, t) \<longleftrightarrow>
     opcode = unat b \<and> (\<exists>h. length h = push_width opcode \<and> pc = h @ v @ t \<and>
       length v = (if opcode < OP_PUSHDATA1 then opcode else le_val h))"
proof -
  define k where "k = push_width (unat b)"
  define n where "n = (if unat b < OP_PUSHDATA1 then unat b else le_val (take k pc))"
  have "GetOp2 (b # pc) =
      (if k \<le> length pc \<and> n \<le> length pc - k
       then Some (unat b, take n (drop k pc), drop n (drop k pc)) else None)"
  proof (cases "unat b = OP_PUSHDATA1")
    case True
    then show ?thesis by (cases pc) (auto simp: GetOp2_def k_def n_def push_width_def Let_def)
  next
    case False
    then show ?thesis using assms by (auto simp: GetOp2_def k_def n_def push_width_def Let_def)
  qed
  then have "GetOp2 (b # pc) = Some (opcode, v, t) \<longleftrightarrow> opcode = unat b \<and>
      (k \<le> length pc \<and> n \<le> length pc - k \<and> v = take n (drop k pc) \<and> t = drop n (drop k pc))"
    by auto
  also have "\<dots> \<longleftrightarrow> opcode = unat b \<and>
      (pc = take k pc @ v @ t \<and> length (take k pc) = k \<and> length v = n)"
    by (simp only: take_append_split)
  also have "\<dots> \<longleftrightarrow> opcode = unat b \<and> (\<exists>h. length h = k \<and> pc = h @ v @ t \<and>
      length v = (if opcode < OP_PUSHDATA1 then opcode else le_val h))"
    by (auto simp: n_def intro!: exI[of _ "take k pc"])
  finally show ?thesis by (auto simp: k_def)
qed

lemma GetOp2_nonpush:
  "\<not> unat b \<le> OP_PUSHDATA4 \<Longrightarrow> GetOp2 (b # pc) = Some (unat b, [], pc)"
  by (simp add: GetOp2_def Let_def)

lemma GetOp2_local:
  assumes "GetOp2 s = Some (opcode, v, t)"
  shows "\<exists>c. s = c @ t \<and> c \<noteq> [] \<and> (\<forall>r. GetOp2 (c @ r) = Some (opcode, v, r))"
proof -
  obtain b pc where s: "s = b # pc" using assms by (cases s) auto
  show ?thesis
  proof (cases "unat b \<le> OP_PUSHDATA4")
    case True
    then obtain h where h: "opcode = unat b" "length h = push_width opcode" "pc = h @ v @ t"
      "length v = (if opcode < OP_PUSHDATA1 then opcode else le_val h)"
      using assms by (auto simp: s GetOp2_push)
    have "GetOp2 ((b # h @ v) @ r) = Some (opcode, v, r)" for r
      using h True by (simp add: GetOp2_push)
    then show ?thesis using h by (intro exI[of _ "b # h @ v"]) (simp add: s)
  next
    case False
    then show ?thesis using assms by (intro exI[of _ "[b]"]) (simp add: s GetOp2_nonpush)
  qed
qed

lemma chunk_take:
  assumes "GetOp2 s = Some (opcode, v, t)"
  shows "s = take (length s - length t) s @ t"
    and "GetOp2 (take (length s - length t) s @ r) = Some (opcode, v, r)"
    and "take (length s - length t) s \<noteq> []"
proof -
  obtain c where c: "s = c @ t" "c \<noteq> []" "\<forall>r. GetOp2 (c @ r) = Some (opcode, v, r)"
    using GetOp2_local[OF assms] by blast
  then have "take (length s - length t) s = c" by simp
  then show "s = take (length s - length t) s @ t"
    "GetOp2 (take (length s - length t) s @ r) = Some (opcode, v, r)"
    "take (length s - length t) s \<noteq> []" using c by auto
qed

definition is_instruction :: "script \<Rightarrow> bool" where
  "is_instruction b \<longleftrightarrow> (\<exists>opcode v. GetOp2 b = Some (opcode, v, []))"

lemma instruction_prefix:
  assumes "is_instruction b" "GetOp2 s = Some (opcode, v, t)"
  shows "(length s \<ge> length b \<and> take (length b) s = b) \<longleftrightarrow> take (length s - length t) s = b"
proof -
  obtain o' v' where b: "GetOp2 b = Some (o', v', [])" using assms(1) by (auto simp: is_instruction_def)
  obtain cb where cb: "b = cb @ []" "\<forall>r. GetOp2 (cb @ r) = Some (o', v', r)"
    using GetOp2_local[OF b] by blast
  show ?thesis
  proof
    assume p: "length s \<ge> length b \<and> take (length b) s = b"
    then have s: "s = b @ drop (length b) s" by (metis append_take_drop_id)
    then have "GetOp2 s = Some (o', v', drop (length b) s)" using cb by (metis append_Nil2)
    then have "t = drop (length b) s" using assms(2) by simp
    then show "take (length s - length t) s = b" using p by simp
  next
    assume e: "take (length s - length t) s = b"
    then have "s = b @ t" using chunk_take(1)[OF assms(2)] by simp
    then show "length s \<ge> length b \<and> take (length b) s = b" by simp
  qed
qed

lemma instruction_not_prefix_undecodable:
  assumes "is_instruction b" "GetOp2 s = None"
  shows "\<not> (length s \<ge> length b \<and> take (length b) s = b)"
proof
  assume p: "length s \<ge> length b \<and> take (length b) s = b"
  then have s: "s = b @ drop (length b) s" by (metis append_take_drop_id)
  obtain o' v' where b: "GetOp2 b = Some (o', v', [])" using assms(1) by (auto simp: is_instruction_def)
  then obtain cb where "b = cb @ []" "\<forall>r. GetOp2 (cb @ r) = Some (o', v', r)"
    using GetOp2_local by blast
  then have "GetOp2 s = Some (o', v', drop (length b) s)" using s by (metis append_Nil2)
  then show False using assms(2) by simp
qed

text \<open>What deleting an instruction does to a script.\<close>

definition delete_instruction :: "script \<Rightarrow> script \<Rightarrow> nat \<times> script" where
  "delete_instruction b s =
     (case chunks s of (cs, t) \<Rightarrow> (count_list cs b, concat (filter (\<lambda>c. c \<noteq> b) cs) @ t))"

lemma delete_instruction_None: "GetOp2 s = None \<Longrightarrow> delete_instruction b s = (0, s)"
  by (simp add: delete_instruction_def chunks.simps[of s])

lemma delete_instruction_Some:
  assumes "GetOp2 s = Some (opcode, v, t)"
  shows "delete_instruction b s =
    (case delete_instruction b t of (n, r) \<Rightarrow>
       if take (length s - length t) s = b then (n + 1, r)
       else (n, take (length s - length t) s @ r))"
  using assms by (auto simp: delete_instruction_def chunks.simps[of s] split: prod.splits)

lemma erase_copies_delete:
  "erase_copies b s n = (m, s1) \<Longrightarrow> is_instruction b \<Longrightarrow>
    (case delete_instruction b s of (k, r) \<Rightarrow> (n + k, r)) =
    (case delete_instruction b s1 of (k, r) \<Rightarrow> (m + k, r)) \<and>
    \<not> (length s1 \<ge> length b \<and> take (length b) s1 = b)"
proof (induction b s n rule: erase_copies.induct)
  case (1 b s n)
  show ?case
  proof (cases "b \<noteq> [] \<and> length s \<ge> length b \<and> take (length b) s = b")
    case False
    moreover have "b \<noteq> []" using 1(3) by (auto simp: is_instruction_def)
    ultimately show ?thesis using 1(2) by (subst (asm) erase_copies.simps) auto
  next
    case True
    then have e: "erase_copies b (drop (length b) s) (n + 1) = (m, s1)"
      using 1(2) by (subst (asm) erase_copies.simps) simp
    have g: "GetOp2 s \<noteq> None"
      using True instruction_not_prefix_undecodable[OF 1(3)] by blast
    then obtain op v t where g: "GetOp2 s = Some (op, v, t)" by auto
    have c: "take (length s - length t) s = b"
      using instruction_prefix[OF 1(3) g] True by blast
    then have t: "t = drop (length b) s" using chunk_take(1)[OF g] by (metis append_eq_conv_conj)
    have "delete_instruction b s = (case delete_instruction b t of (k, r) \<Rightarrow> (k + 1, r))"
      using delete_instruction_Some[OF g, of b] c by (auto split: prod.splits)
    moreover note 1(1)[OF True e 1(3)]
    ultimately show ?thesis by (auto simp: t split: prod.splits)
  qed
qed

lemma FindAndDelete_loop_delete:
  "is_instruction b \<Longrightarrow> FindAndDelete_loop b before s n =
    (case delete_instruction b s of (k, r) \<Rightarrow> (n + k, before @ r))"
proof (induction b before s n rule: FindAndDelete_loop.induct)
  case (1 b before s n)
  obtain m s1 where e: "erase_copies b s n = (m, s1)" by (cases "erase_copies b s n")
  note d = erase_copies_delete[OF e 1(2)]
  show ?case
  proof (cases "GetOp2 s1")
    case None
    then have "delete_instruction b s1 = (0, s1)" by (rule delete_instruction_None)
    then show ?thesis using d e None
      by (subst FindAndDelete_loop.simps) (auto split: prod.splits)
  next
    case (Some r)
    obtain op v t where g: "GetOp2 s1 = Some (op, v, t)" using Some by (cases r) auto
    have ne: "take (length s1 - length t) s1 \<noteq> b"
      using d instruction_prefix[OF 1(2) g] by blast
    have IH: "FindAndDelete_loop b (before @ take (length s1 - length t) s1) t m =
      (case delete_instruction b t of (k, r) \<Rightarrow> (m + k, (before @ take (length s1 - length t) s1) @ r))"
      using 1(1)[OF e[symmetric] g refl refl 1(2)] .
    have "FindAndDelete_loop b before s n =
        FindAndDelete_loop b (before @ take (length s1 - length t) s1) t m"
      using e g by (subst FindAndDelete_loop.simps) simp
    then show ?thesis
      using IH d delete_instruction_Some[OF g, of b] ne by (auto split: prod.splits)
  qed
qed

lemma FindAndDelete_instruction:
  "is_instruction b \<Longrightarrow> FindAndDelete s b = delete_instruction b s"
proof -
  assume b: "is_instruction b"
  then have "b \<noteq> []" by (auto simp: is_instruction_def)
  then show ?thesis using FindAndDelete_loop_delete[OF b, of "[]" s 0]
    by (auto simp: FindAndDelete_def split: prod.splits)
qed

lemma push_data_instruction: "length v < 2 ^ 32 \<Longrightarrow> is_instruction (push_data v [])"
  using GetOp2_push_data[of v "[]"] by (auto simp: is_instruction_def)

lemma push_opcode_instruction:
  "OP_PUSHDATA4 < op \<Longrightarrow> op < 256 \<Longrightarrow> is_instruction (push_opcode op [])"
proof -
  assume op: "OP_PUSHDATA4 < op" "op < 256"
  have "unat (word_of_nat op :: byte) = op"
    using op by (simp add: unsigned_of_nat take_bit_nat_eq_self)
  then show ?thesis using op by (auto simp: is_instruction_def push_opcode_def GetOp2_nonpush)
qed

section \<open>Normal payment scripts\<close>

text \<open>The position after \<open>GetOp2\<close>, also where it fails.\<close>

definition GetOp2_pc :: "script \<Rightarrow> script" where
  "GetOp2_pc pc =
     (case pc of
        [] \<Rightarrow> []
      | b # pc \<Rightarrow>
          (let opcode = unat b; k = push_width opcode
           in if opcode > OP_PUSHDATA4 \<or> length pc < k then pc
              else let nSize = (if opcode < OP_PUSHDATA1 then opcode else le_val (take k pc));
                       pc = drop k pc
                   in if length pc < nSize then pc else drop nSize pc))"

lemma GetOp2_pc_shorter: "pc \<noteq> [] \<Longrightarrow> length (GetOp2_pc pc) < length pc"
  by (cases pc) (auto simp: GetOp2_pc_def Let_def)

lemma GetOp2_pc_Some: "GetOp2 pc = Some (opcode, v, pc') \<Longrightarrow> GetOp2_pc pc = pc'"
proof (cases pc)
  case (Cons b bs)
  assume g: "GetOp2 pc = Some (opcode, v, pc')"
  show ?thesis
  proof (cases "unat b \<le> OP_PUSHDATA4")
    case True
    then obtain h where "opcode = unat b" "length h = push_width opcode" "bs = h @ v @ pc'"
      "length v = (if opcode < OP_PUSHDATA1 then opcode else le_val h)"
      using g by (auto simp: Cons GetOp2_push)
    then show ?thesis using True by (auto simp: Cons GetOp2_pc_def Let_def)
  next
    case False
    then show ?thesis using g by (simp add: Cons GetOp2_nonpush GetOp2_pc_def)
  qed
qed simp

function IsNormalPaymentScript_loop :: "nat \<Rightarrow> script \<Rightarrow> bool" where
  "IsNormalPaymentScript_loop i pc =
     (if pc = [] then True
      else
        let opcode = (case GetOp2 pc of None \<Rightarrow> OP_INVALIDOPCODE | Some (opcode, v, pc') \<Rightarrow> opcode)
        in if i = 0 \<and> opcode \<noteq> OP_DUP then False
           else if i = 1 \<and> opcode \<noteq> OP_HASH160 then False
           else if i = 3 \<and> opcode \<noteq> OP_EQUALVERIFY then False
           else if i = 4 \<and> opcode \<noteq> OP_CHECKSIG then False
           else if i = 5 then False
           else IsNormalPaymentScript_loop (i + 1) (GetOp2_pc pc))"
  by auto
termination by (relation "measure (\<lambda>(i, pc). length pc)") (auto dest: GetOp2_pc_shorter)

declare IsNormalPaymentScript_loop.simps [simp del]

definition IsNormalPaymentScript :: "script \<Rightarrow> bool" where
  "IsNormalPaymentScript s = (if length s \<noteq> 25 then False else IsNormalPaymentScript_loop 0 s)"

section \<open>Properties\<close>

text \<open>
  What \<open>FindAndDelete\<close> removes from a script: exactly the instructions, at any instruction
  boundary, whose bytes are the given push; all other bytes stay in order, and the number
  returned is the number of instructions removed.
\<close>

theorem find_and_delete_push:
  assumes "length v < 2 ^ 32"
  shows "FindAndDelete s (push_data v []) =
    (count_list (fst (chunks s)) (push_data v []),
     concat (filter (\<lambda>c. c \<noteq> push_data v []) (fst (chunks s))) @ snd (chunks s))"
  using FindAndDelete_instruction[OF push_data_instruction[OF assms]]
  by (simp add: delete_instruction_def split_def)

lemma find_and_delete_push_witness: "FindAndDelete [0x02, 0x01, 0x07, 0x01, 0x07, 0xac] [0x01, 0x07] = (1, [0x02, 0x01, 0x07, 0xac])"
proof -
  have p: "push_data [7] [] = [0x01, 0x07]" by (simp add: push_data_def)
  have "chunks [0x02, 0x01, 0x07, 0x01, 0x07, 0xac] = ([[0x02, 0x01, 0x07], [0x01, 0x07], [0xac]], [])"
    by (simp add: chunks.simps GetOp2_def)
  then show ?thesis using find_and_delete_push[of "[7]" "[0x02, 0x01, 0x07, 0x01, 0x07, 0xac]"] by (simp add: p)
qed

end
