(* ===== verification/SigEncoding.thy ===== *)
theory SigEncoding
  imports Script
begin

text \<open>
  Encoding rules for signatures, public keys and pushes (\<open>src/src/script.cpp\<close>): the checks
  that both interpreters apply before an ECDSA verification.  The test of the size of \<open>S\<close>
  (\<open>CPubKey::CheckLowS\<close>, an elliptic-curve library call) is a parameter.
\<close>

section \<open>Public keys and signatures\<close>

definition IsCompressedOrUncompressedPubKey :: "bytes \<Rightarrow> bool" where
  "IsCompressedOrUncompressedPubKey vchPubKey =
     (if length vchPubKey < 33 then False
      else if vchPubKey ! 0 = 0x04 then
        (if length vchPubKey \<noteq> 65 then False else True)
      else if vchPubKey ! 0 = 0x02 \<or> vchPubKey ! 0 = 0x03 then
        (if length vchPubKey \<noteq> 33 then False else True)
      else False)"

definition IsDERSignature :: "bytes \<Rightarrow> bool \<Rightarrow> bool" where
  "IsDERSignature vchSig haveHashType =
     (if length vchSig < 9 then False
      else if length vchSig > 73 then False
      else if vchSig ! 0 \<noteq> 0x30 then False
      else if unat (vchSig ! 1) \<noteq> length vchSig - (if haveHashType then 3 else 2) then False
      else let nLenR = unat (vchSig ! 3)
           in if 5 + nLenR \<ge> length vchSig then False
      else let nLenS = unat (vchSig ! (5 + nLenR))
           in if nLenR + nLenS + (if haveHashType then 7 else 6) \<noteq> length vchSig then False
      else let R = drop 4 vchSig
           in if vchSig ! 2 \<noteq> 0x02 then False
      else if nLenR = 0 then False
      else if R ! 0 AND 0x80 \<noteq> 0 then False
      else if nLenR > 1 \<and> R ! 0 = 0x00 \<and> R ! 1 AND 0x80 = 0 then False
      else let S = drop (6 + nLenR) vchSig
           in if vchSig ! (4 + nLenR) \<noteq> 0x02 then False
      else if nLenS = 0 then False
      else if S ! 0 AND 0x80 \<noteq> 0 then False
      else if nLenS > 1 \<and> S ! 0 = 0x00 \<and> S ! 1 AND 0x80 = 0 then False
      else True)"

definition IsDefinedHashtypeSignature :: "bytes \<Rightarrow> bool" where
  "IsDefinedHashtypeSignature vchSig =
     (if length vchSig = 0 then False
      else let nHashType = vchSig ! (length vchSig - 1) AND NOT 0x80
           in if nHashType < 1 \<or> nHashType > 3 then False else True)"

text \<open>The encodings as the legacy interpreter checks them.\<close>

definition IsLowDERSignature :: "(bytes \<Rightarrow> bool) \<Rightarrow> bytes \<Rightarrow> bool" where
  "IsLowDERSignature CheckLowS vchSig =
     (if \<not> IsDERSignature vchSig True then False
      else CheckLowS (take (length vchSig - 1) vchSig))"

definition CheckSignatureEncoding :: "(bytes \<Rightarrow> bool) \<Rightarrow> bytes \<Rightarrow> bool" where
  "CheckSignatureEncoding CheckLowS vchSig =
     (if \<not> IsLowDERSignature CheckLowS vchSig then False
      else if \<not> IsDefinedHashtypeSignature vchSig then False
      else True)"

definition CheckPubKeyEncoding :: "bytes \<Rightarrow> bool" where
  "CheckPubKeyEncoding vchSig = (if \<not> IsCompressedOrUncompressedPubKey vchSig then False else True)"

text \<open>
  The encodings as the flag-driven interpreter checks them.  A signature with a high \<open>S\<close>
  makes \<open>IsLowDERSignature\<close> return false without setting the error, which keeps the value
  \<open>SCRIPT_ERR_UNKNOWN_ERROR\<close> that \<open>EvalScript\<close> gave it at its start.
\<close>

definition IsLowDERSignature2 :: "(bytes \<Rightarrow> bool) \<Rightarrow> bytes \<Rightarrow> ScriptError + unit" where
  "IsLowDERSignature2 CheckLowS vchSig =
     (if \<not> IsDERSignature vchSig True then Inl SCRIPT_ERR_SIG_DER
      else if CheckLowS (take (length vchSig - 1) vchSig) then Inr ()
      else Inl SCRIPT_ERR_UNKNOWN_ERROR)"

definition CheckSignatureEncoding2 ::
  "(bytes \<Rightarrow> bool) \<Rightarrow> bytes \<Rightarrow> uint32 \<Rightarrow> ScriptError + unit" where
  "CheckSignatureEncoding2 CheckLowS vchSig flags =
     (if flags AND (SCRIPT_VERIFY_DERSIG OR SCRIPT_VERIFY_LOW_S OR SCRIPT_VERIFY_STRICTENC) \<noteq> 0 \<and>
         \<not> IsDERSignature vchSig True
      then Inl SCRIPT_ERR_SIG_DER
      else rbind (if flags AND SCRIPT_VERIFY_LOW_S \<noteq> 0 then IsLowDERSignature2 CheckLowS vchSig
                  else Inr ())
        (\<lambda>_. if flags AND SCRIPT_VERIFY_STRICTENC \<noteq> 0 \<and> \<not> IsDefinedHashtypeSignature vchSig
             then Inl SCRIPT_ERR_SIG_HASHTYPE else Inr ()))"

definition CheckPubKeyEncoding2 :: "bytes \<Rightarrow> uint32 \<Rightarrow> ScriptError + unit" where
  "CheckPubKeyEncoding2 vchSig flags =
     (if flags AND SCRIPT_VERIFY_STRICTENC \<noteq> 0 \<and> \<not> IsCompressedOrUncompressedPubKey vchSig
      then Inl SCRIPT_ERR_PUBKEYTYPE else Inr ())"

definition CheckMinimalPush :: "bytes \<Rightarrow> nat \<Rightarrow> bool" where
  "CheckMinimalPush data opcode =
     (if length data = 0 then opcode = OP_0
      else if length data = 1 \<and> data ! 0 \<ge> 1 \<and> data ! 0 \<le> 16 then opcode = OP_1 + (unat (data ! 0) - 1)
      else if length data = 1 \<and> data ! 0 = 0x81 then opcode = OP_1NEGATE
      else if length data \<le> 75 then opcode = length data
      else if length data \<le> 255 then opcode = OP_PUSHDATA1
      else if length data \<le> 65535 then opcode = OP_PUSHDATA2
      else True)"

section \<open>The shape of a DER signature\<close>

text \<open>An integer of a signature: not empty, not negative, no needless leading zero.\<close>

definition der_integer :: "bytes \<Rightarrow> bool" where
  "der_integer R \<longleftrightarrow>
     R \<noteq> [] \<and> R ! 0 AND 0x80 = 0 \<and> (length R > 1 \<and> R ! 0 = 0 \<longrightarrow> R ! 1 AND 0x80 \<noteq> 0)"

text \<open>A signature with its hash type byte.\<close>

definition der_signature :: "bytes \<Rightarrow> bytes \<Rightarrow> byte \<Rightarrow> bytes" where
  "der_signature R S hashtype =
     [0x30, word_of_nat (4 + length R + length S), 0x02, word_of_nat (length R)] @ R @
     [0x02, word_of_nat (length S)] @ S @ [hashtype]"

lemma unat_small_byte: "n < 256 \<Longrightarrow> unat (word_of_nat n :: byte) = n"
  by (simp add: unsigned_of_nat take_bit_nat_eq_self)

lemma IsDERSignature_der:
  assumes "der_integer R" "der_integer S" "length R + length S \<le> 66"
  shows "IsDERSignature (der_signature R S h) True"
proof -
  let ?v = "der_signature R S h"
  have ne: "R \<noteq> []" "S \<noteq> []" using assms by (auto simp: der_integer_def)
  have len: "length ?v = 7 + length R + length S" by (simp add: der_signature_def)
  have u: "unat (word_of_nat (4 + length R + length S) :: byte) = 4 + length R + length S"
    "unat (word_of_nat (length R) :: byte) = length R"
    "unat (word_of_nat (length S) :: byte) = length S"
    using assms by (simp_all only: unat_small_byte)
  have at: "?v ! 0 = 0x30" "?v ! 1 = word_of_nat (4 + length R + length S)" "?v ! 2 = 0x02"
    "?v ! 3 = word_of_nat (length R)" by (simp_all add: der_signature_def)
  have d4: "drop 4 ?v = R @ [0x02, word_of_nat (length S)] @ S @ [h]"
    by (simp add: der_signature_def)
  have v4: "?v ! (4 + length R) = 0x02" and v5: "?v ! (5 + length R) = word_of_nat (length S)"
    by (simp_all add: der_signature_def nth_append numeral_eq_Suc)
  have d6: "drop (6 + length R) ?v = S @ [h]"
    by (simp add: der_signature_def numeral_eq_Suc)
  have R0: "drop 4 ?v ! 0 = R ! 0" and R1: "length R > 1 \<Longrightarrow> drop 4 ?v ! 1 = R ! 1"
    using ne by (simp_all add: d4 nth_append)
  have S0: "drop (6 + length R) ?v ! 0 = S ! 0"
    and S1: "length S > 1 \<Longrightarrow> drop (6 + length R) ?v ! 1 = S ! 1"
    using ne by (simp_all add: d6 nth_append)
  have "2 \<le> length R + length S" using ne by (cases R; cases S) auto
  then show ?thesis
    using assms ne u R1 S1 unfolding IsDERSignature_def Let_def at v5 u len R0 S0 v4 der_integer_def
    by auto
qed

lemma list_split_at: "i < length v \<Longrightarrow> v = take i v @ v ! i # drop (i + 1) v"
  by (simp add: id_take_nth_drop)

lemma IsDERSignature_shape:
  assumes "IsDERSignature v True"
  shows "\<exists>R S h. v = der_signature R S h \<and> der_integer R \<and> der_integer S \<and>
     length R + length S \<le> 66"
proof -
  define r where "r = unat (v ! 3)"
  define l where "l = unat (v ! (5 + r))"
  note d = assms[unfolded IsDERSignature_def Let_def, folded r_def, folded l_def]
  have len: "length v = r + l + 7" and max: "length v \<le> 73" and pos: "0 < r" "0 < l"
    and b0: "v ! 0 = 0x30" and b1: "unat (v ! 1) = length v - 3" and b2: "v ! 2 = 2"
    and b4: "v ! (4 + r) = 2"
    using d by (auto split: if_splits)
  define R where "R = take r (drop 4 v)"
  define S where "S = take l (drop (6 + r) v)"
  define h where "h = v ! (6 + r + l)"
  have lens: "length R = r" "length S = l" using len by (auto simp: R_def S_def)
  have wn: "word_of_nat (unat (w :: byte)) = w" for w by simp
  have "v = der_signature R S h"
  proof (rule nth_equalityI)
    show "length v = length (der_signature R S h)" using len lens by (simp add: der_signature_def)
    fix i assume i: "i < length v"
    consider "i = 0" | "i = 1" | "i = 2" | "i = 3" | "4 \<le> i" "i < 4 + r" | "i = 4 + r" | "i = 5 + r"
      | "6 + r \<le> i" "i < 6 + r + l" | "i = 6 + r + l" using i len by linarith
    then show "v ! i = der_signature R S h ! i"
    proof cases
      case 1 then show ?thesis by (simp add: der_signature_def b0)
    next
      case 2
      have "word_of_nat (4 + length R + length S) = v ! 1"
      proof -
        have e: "4 + length R + length S = unat (v ! 1)" using b1 len lens by simp
        show ?thesis unfolding e by (rule wn)
      qed
      then show ?thesis using 2 by (simp add: der_signature_def)
    next
      case 3 then show ?thesis by (simp add: der_signature_def b2)
    next
      case 4
      then show ?thesis using wn[of "v ! 3"] lens by (simp add: der_signature_def r_def)
    next
      case 5
      then obtain k where k: "i = 4 + k" "k < r" by (metis add_less_cancel_left le_Suc_ex)
      have "der_signature R S h ! i = R ! k"
        using k lens by (simp add: der_signature_def nth_append numeral_eq_Suc)
      then show ?thesis using k len by (simp add: R_def)
    next
      case 6
      then show ?thesis using lens b4 by (simp add: der_signature_def nth_append numeral_eq_Suc)
    next
      case 7
      then show ?thesis using lens wn[of "v ! (5 + r)"]
        by (simp add: der_signature_def nth_append numeral_eq_Suc l_def)
    next
      case 8
      then obtain k where k: "i = 6 + r + k" "k < l" by (metis add_less_cancel_left le_Suc_ex)
      have "der_signature R S h ! i = S ! k"
        using k lens by (simp add: der_signature_def nth_append numeral_eq_Suc)
      then show ?thesis using k len by (simp add: S_def)
    next
      case 9
      then show ?thesis using lens by (simp add: der_signature_def nth_append numeral_eq_Suc h_def)
    qed
  qed
  moreover have "R ! 0 = drop 4 v ! 0" "r > 1 \<Longrightarrow> R ! 1 = drop 4 v ! 1"
    "S ! 0 = drop (6 + r) v ! 0" "l > 1 \<Longrightarrow> S ! 1 = drop (6 + r) v ! 1"
    using pos by (simp_all add: R_def S_def)
  then have "der_integer R" "der_integer S"
    using d lens pos unfolding der_integer_def by (auto split: if_splits)
  ultimately show ?thesis using lens len max by (intro exI[of _ R] exI[of _ S] exI[of _ h]) simp
qed

lemma IsDERSignature_iff:
  "IsDERSignature v True \<longleftrightarrow>
     (\<exists>R S h. v = der_signature R S h \<and> der_integer R \<and> der_integer S \<and> length R + length S \<le> 66)"
  using IsDERSignature_shape IsDERSignature_der by blast

section \<open>Properties\<close>

text \<open>
  The signature check accepts exactly the strict DER encodings: a sequence of two positive
  integers without superfluous leading zeros, followed by one byte of hash type.
\<close>

theorem der_signature_format:
  "IsDERSignature v True \<longleftrightarrow>
     (\<exists>R S h. v = der_signature R S h \<and> der_integer R \<and> der_integer S \<and> length R + length S \<le> 66)"
  by (rule IsDERSignature_iff)

end
