(* ===== verification/Interp.thy ===== *)
theory Interp
  imports SigEncoding
begin

text \<open>
  The flag-driven script interpreter: \<open>EvalScript(stack, script, flags, checker, serror)\<close>
  of \<open>src/src/script.cpp\<close>.  The state is the local variables of the function; the top of
  the two stacks and the innermost condition are the heads of their lists.  Each group of
  \<open>case\<close> labels of the big \<open>switch\<close> is a definition; a failing instruction is the error
  code it sets, and an exception is \<open>SCRIPT_ERR_UNKNOWN_ERROR\<close>, as the handler has it.
  Hash functions, the test of \<open>S\<close> and the signature checker are the record \<open>script_env\<close>.
\<close>

section \<open>State and environment\<close>

record eval_state =
  es_stack :: "bytes list"
  es_altstack :: "bytes list"
  es_vfExec :: "bool list"
  es_nOpCount :: nat
  es_codehash :: script

record script_env =
  RIPEMD160 :: "bytes \<Rightarrow> bytes"
  SHA1 :: "bytes \<Rightarrow> bytes"
  SHA256 :: "bytes \<Rightarrow> bytes"
  HASH160 :: "bytes \<Rightarrow> bytes"
  HASH256 :: "bytes \<Rightarrow> bytes"
  CheckLowS :: "bytes \<Rightarrow> bool"
  CheckSig :: "bytes \<Rightarrow> bytes \<Rightarrow> script \<Rightarrow> bool"

abbreviation with_stack :: "eval_state \<Rightarrow> bytes list \<Rightarrow> eval_state" where
  "with_stack st s \<equiv> st\<lparr>es_stack := s\<rparr>"

definition bool_item :: "bool \<Rightarrow> bytes" where
  "bool_item b = (if b then vchTrue else vchFalse)"

text \<open>\<open>CScriptNum(vch, fRequireMinimal)\<close>, whose exceptions end in the handler.\<close>

definition script_num :: "bool \<Rightarrow> bytes \<Rightarrow> ScriptError + int" where
  "script_num fRequireMinimal vch =
     (case CScriptNum vch fRequireMinimal of
        Inl e \<Rightarrow> Inl SCRIPT_ERR_UNKNOWN_ERROR | Inr n \<Rightarrow> Inr n)"

section \<open>Instructions\<close>

definition is_disabled :: "nat \<Rightarrow> bool" where
  "is_disabled opcode \<longleftrightarrow>
     opcode = OP_CAT \<or> opcode = OP_SUBSTR \<or> opcode = OP_LEFT \<or> opcode = OP_RIGHT \<or>
     opcode = OP_INVERT \<or> opcode = OP_AND \<or> opcode = OP_OR \<or> opcode = OP_XOR \<or>
     opcode = OP_2MUL \<or> opcode = OP_2DIV \<or> opcode = OP_MUL \<or> opcode = OP_DIV \<or>
     opcode = OP_MOD \<or> opcode = OP_LSHIFT \<or> opcode = OP_RSHIFT"

definition eval_push :: "nat \<Rightarrow> eval_state \<Rightarrow> ScriptError + eval_state" where
  "eval_push opcode st =
     Inr (with_stack st (scriptnum_serialize (int opcode - int (OP_1 - 1)) # es_stack st))"

definition eval_control :: "uint32 \<Rightarrow> bool \<Rightarrow> nat \<Rightarrow> eval_state \<Rightarrow> ScriptError + eval_state" where
  "eval_control flags fExec opcode st =
     (if opcode = OP_NOP then Inr st
      else if opcode \<ge> OP_NOP1 \<and> opcode \<le> OP_NOP10 then
        (if flags AND SCRIPT_VERIFY_DISCOURAGE_UPGRADABLE_NOPS \<noteq> 0
         then Inl SCRIPT_ERR_DISCOURAGE_UPGRADABLE_NOPS else Inr st)
      else if opcode = OP_IF \<or> opcode = OP_NOTIF then
        (if fExec then
           (case es_stack st of
              [] \<Rightarrow> Inl SCRIPT_ERR_UNBALANCED_CONDITIONAL
            | vch # s \<Rightarrow>
                let fValue = CastToBool vch;
                    fValue = (if opcode = OP_NOTIF then \<not> fValue else fValue)
                in Inr (st\<lparr>es_stack := s, es_vfExec := fValue # es_vfExec st\<rparr>))
         else Inr (st\<lparr>es_vfExec := False # es_vfExec st\<rparr>))
      else if opcode = OP_ELSE then
        (case es_vfExec st of
           [] \<Rightarrow> Inl SCRIPT_ERR_UNBALANCED_CONDITIONAL
         | f # fs \<Rightarrow> Inr (st\<lparr>es_vfExec := (\<not> f) # fs\<rparr>))
      else if opcode = OP_ENDIF then
        (case es_vfExec st of
           [] \<Rightarrow> Inl SCRIPT_ERR_UNBALANCED_CONDITIONAL
         | f # fs \<Rightarrow> Inr (st\<lparr>es_vfExec := fs\<rparr>))
      else if opcode = OP_VERIFY then
        (case es_stack st of
           [] \<Rightarrow> Inl SCRIPT_ERR_INVALID_STACK_OPERATION
         | v # s \<Rightarrow> if CastToBool v then Inr (with_stack st s) else Inl SCRIPT_ERR_VERIFY)
      else if opcode = OP_RETURN then Inl SCRIPT_ERR_OP_RETURN
      else Inl SCRIPT_ERR_BAD_OPCODE)"

definition eval_stackop :: "bool \<Rightarrow> nat \<Rightarrow> eval_state \<Rightarrow> ScriptError + eval_state" where
  "eval_stackop fRequireMinimal opcode st =
     (let bad = Inl SCRIPT_ERR_INVALID_STACK_OPERATION;
          ok = (\<lambda>s. Inr (with_stack st s));
          stack = es_stack st
      in if opcode = OP_TOALTSTACK then
           (case stack of x # s \<Rightarrow> Inr (st\<lparr>es_stack := s, es_altstack := x # es_altstack st\<rparr>) | _ \<Rightarrow> bad)
         else if opcode = OP_FROMALTSTACK then
           (case es_altstack st of
              x # a \<Rightarrow> Inr (st\<lparr>es_stack := x # stack, es_altstack := a\<rparr>)
            | _ \<Rightarrow> Inl SCRIPT_ERR_INVALID_ALTSTACK_OPERATION)
         else if opcode = OP_2DROP then (case stack of x2 # x1 # s \<Rightarrow> ok s | _ \<Rightarrow> bad)
         else if opcode = OP_2DUP then
           (case stack of x2 # x1 # s \<Rightarrow> ok (x2 # x1 # x2 # x1 # s) | _ \<Rightarrow> bad)
         else if opcode = OP_3DUP then
           (case stack of x3 # x2 # x1 # s \<Rightarrow> ok (x3 # x2 # x1 # x3 # x2 # x1 # s) | _ \<Rightarrow> bad)
         else if opcode = OP_2OVER then
           (case stack of x4 # x3 # x2 # x1 # s \<Rightarrow> ok (x2 # x1 # x4 # x3 # x2 # x1 # s) | _ \<Rightarrow> bad)
         else if opcode = OP_2ROT then
           (case stack of x6 # x5 # x4 # x3 # x2 # x1 # s \<Rightarrow> ok (x2 # x1 # x6 # x5 # x4 # x3 # s) | _ \<Rightarrow> bad)
         else if opcode = OP_2SWAP then
           (case stack of x4 # x3 # x2 # x1 # s \<Rightarrow> ok (x2 # x1 # x4 # x3 # s) | _ \<Rightarrow> bad)
         else if opcode = OP_IFDUP then
           (case stack of x # s \<Rightarrow> (if CastToBool x then ok (x # x # s) else ok (x # s)) | _ \<Rightarrow> bad)
         else if opcode = OP_DEPTH then ok (scriptnum_serialize (int (length stack)) # stack)
         else if opcode = OP_DROP then (case stack of x # s \<Rightarrow> ok s | _ \<Rightarrow> bad)
         else if opcode = OP_DUP then (case stack of x # s \<Rightarrow> ok (x # x # s) | _ \<Rightarrow> bad)
         else if opcode = OP_NIP then (case stack of x2 # x1 # s \<Rightarrow> ok (x2 # s) | _ \<Rightarrow> bad)
         else if opcode = OP_OVER then (case stack of x2 # x1 # s \<Rightarrow> ok (x1 # x2 # x1 # s) | _ \<Rightarrow> bad)
         else if opcode = OP_PICK \<or> opcode = OP_ROLL then
           (if length stack < 2 then bad
            else rbind (script_num fRequireMinimal (hd stack)) (\<lambda>bn.
              let n = scriptnum_getint bn; s = tl stack
              in if n < 0 \<or> n \<ge> int (length s) then bad
                 else let vch = s ! nat n;
                          s = (if opcode = OP_ROLL then take (nat n) s @ drop (nat n + 1) s else s)
                      in ok (vch # s)))
         else if opcode = OP_ROT then (case stack of x3 # x2 # x1 # s \<Rightarrow> ok (x1 # x3 # x2 # s) | _ \<Rightarrow> bad)
         else if opcode = OP_SWAP then (case stack of x2 # x1 # s \<Rightarrow> ok (x1 # x2 # s) | _ \<Rightarrow> bad)
         else if opcode = OP_TUCK then (case stack of x2 # x1 # s \<Rightarrow> ok (x2 # x1 # x2 # s) | _ \<Rightarrow> bad)
         else Inl SCRIPT_ERR_BAD_OPCODE)"

definition eval_size_equal :: "nat \<Rightarrow> eval_state \<Rightarrow> ScriptError + eval_state" where
  "eval_size_equal opcode st =
     (if opcode = OP_SIZE then
        (case es_stack st of
           [] \<Rightarrow> Inl SCRIPT_ERR_INVALID_STACK_OPERATION
         | x # s \<Rightarrow> Inr (with_stack st (scriptnum_serialize (int (length x)) # x # s)))
      else if opcode = OP_EQUAL \<or> opcode = OP_EQUALVERIFY then
        (case es_stack st of
           x2 # x1 # s \<Rightarrow>
             let fEqual = (x1 = x2)
             in if opcode = OP_EQUALVERIFY then
                  (if fEqual then Inr (with_stack st s) else Inl SCRIPT_ERR_EQUALVERIFY)
                else Inr (with_stack st (bool_item fEqual # s))
         | _ \<Rightarrow> Inl SCRIPT_ERR_INVALID_STACK_OPERATION)
      else Inl SCRIPT_ERR_BAD_OPCODE)"

definition unary_num :: "nat \<Rightarrow> int \<Rightarrow> int" where
  "unary_num opcode bn =
     (if opcode = OP_1ADD then bn + 1
      else if opcode = OP_1SUB then bn - 1
      else if opcode = OP_NEGATE then - bn
      else if opcode = OP_ABS then (if bn < 0 then - bn else bn)
      else if opcode = OP_NOT then of_bool (bn = 0)
      else of_bool (bn \<noteq> 0))"

definition binary_num :: "nat \<Rightarrow> int \<Rightarrow> int \<Rightarrow> int" where
  "binary_num opcode bn1 bn2 =
     (if opcode = OP_ADD then bn1 + bn2
      else if opcode = OP_SUB then bn1 - bn2
      else if opcode = OP_BOOLAND then of_bool (bn1 \<noteq> 0 \<and> bn2 \<noteq> 0)
      else if opcode = OP_BOOLOR then of_bool (bn1 \<noteq> 0 \<or> bn2 \<noteq> 0)
      else if opcode = OP_NUMEQUAL then of_bool (bn1 = bn2)
      else if opcode = OP_NUMEQUALVERIFY then of_bool (bn1 = bn2)
      else if opcode = OP_NUMNOTEQUAL then of_bool (bn1 \<noteq> bn2)
      else if opcode = OP_LESSTHAN then of_bool (bn1 < bn2)
      else if opcode = OP_GREATERTHAN then of_bool (bn1 > bn2)
      else if opcode = OP_LESSTHANOREQUAL then of_bool (bn1 \<le> bn2)
      else if opcode = OP_GREATERTHANOREQUAL then of_bool (bn1 \<ge> bn2)
      else if opcode = OP_MIN then (if bn1 < bn2 then bn1 else bn2)
      else (if bn1 > bn2 then bn1 else bn2))"

definition is_unary :: "nat \<Rightarrow> bool" where
  "is_unary opcode \<longleftrightarrow>
     opcode = OP_1ADD \<or> opcode = OP_1SUB \<or> opcode = OP_NEGATE \<or> opcode = OP_ABS \<or>
     opcode = OP_NOT \<or> opcode = OP_0NOTEQUAL"

definition is_binary :: "nat \<Rightarrow> bool" where
  "is_binary opcode \<longleftrightarrow>
     opcode = OP_ADD \<or> opcode = OP_SUB \<or> opcode = OP_BOOLAND \<or> opcode = OP_BOOLOR \<or>
     opcode = OP_NUMEQUAL \<or> opcode = OP_NUMEQUALVERIFY \<or> opcode = OP_NUMNOTEQUAL \<or>
     opcode = OP_LESSTHAN \<or> opcode = OP_GREATERTHAN \<or> opcode = OP_LESSTHANOREQUAL \<or>
     opcode = OP_GREATERTHANOREQUAL \<or> opcode = OP_MIN \<or> opcode = OP_MAX"

definition eval_numeric :: "bool \<Rightarrow> nat \<Rightarrow> eval_state \<Rightarrow> ScriptError + eval_state" where
  "eval_numeric fRequireMinimal opcode st =
     (if is_unary opcode then
        (case es_stack st of
           [] \<Rightarrow> Inl SCRIPT_ERR_INVALID_STACK_OPERATION
         | x # s \<Rightarrow> rbind (script_num fRequireMinimal x) (\<lambda>bn.
             Inr (with_stack st (scriptnum_serialize (unary_num opcode bn) # s))))
      else if is_binary opcode then
        (case es_stack st of
           x2 # x1 # s \<Rightarrow>
             rbind (script_num fRequireMinimal x1) (\<lambda>bn1.
             rbind (script_num fRequireMinimal x2) (\<lambda>bn2.
               let v = scriptnum_serialize (binary_num opcode bn1 bn2)
               in if opcode = OP_NUMEQUALVERIFY then
                    (if CastToBool v then Inr (with_stack st s) else Inl SCRIPT_ERR_NUMEQUALVERIFY)
                  else Inr (with_stack st (v # s))))
         | _ \<Rightarrow> Inl SCRIPT_ERR_INVALID_STACK_OPERATION)
      else if opcode = OP_WITHIN then
        (case es_stack st of
           x3 # x2 # x1 # s \<Rightarrow>
             rbind (script_num fRequireMinimal x1) (\<lambda>bn1.
             rbind (script_num fRequireMinimal x2) (\<lambda>bn2.
             rbind (script_num fRequireMinimal x3) (\<lambda>bn3.
               Inr (with_stack st (bool_item (bn2 \<le> bn1 \<and> bn1 < bn3) # s)))))
         | _ \<Rightarrow> Inl SCRIPT_ERR_INVALID_STACK_OPERATION)
      else Inl SCRIPT_ERR_BAD_OPCODE)"

definition hash_item :: "'e script_env_scheme \<Rightarrow> nat \<Rightarrow> bytes \<Rightarrow> bytes" where
  "hash_item E opcode vch =
     (if opcode = OP_RIPEMD160 then RIPEMD160 E vch
      else if opcode = OP_SHA1 then SHA1 E vch
      else if opcode = OP_SHA256 then SHA256 E vch
      else if opcode = OP_HASH160 then HASH160 E vch
      else HASH256 E vch)"

definition eval_hash ::
  "'e script_env_scheme \<Rightarrow> script \<Rightarrow> nat \<Rightarrow> eval_state \<Rightarrow> ScriptError + eval_state" where
  "eval_hash E pc opcode st =
     (if opcode = OP_CODESEPARATOR then Inr (st\<lparr>es_codehash := pc\<rparr>)
      else case es_stack st of
             [] \<Rightarrow> Inl SCRIPT_ERR_INVALID_STACK_OPERATION
           | x # s \<Rightarrow> Inr (with_stack st (hash_item E opcode x # s)))"

definition eval_checksig ::
  "'e script_env_scheme \<Rightarrow> uint32 \<Rightarrow> nat \<Rightarrow> eval_state \<Rightarrow> ScriptError + eval_state" where
  "eval_checksig E flags opcode st =
     (case es_stack st of
        vchPubKey # vchSig # s \<Rightarrow>
          let scriptCode = snd (FindAndDelete (es_codehash st) (push_data vchSig []))
          in rbind (CheckSignatureEncoding2 (CheckLowS E) vchSig flags) (\<lambda>_.
             rbind (CheckPubKeyEncoding2 vchPubKey flags) (\<lambda>_.
               let fSuccess = CheckSig E vchSig vchPubKey scriptCode
               in if opcode = OP_CHECKSIGVERIFY then
                    (if fSuccess then Inr (with_stack st s) else Inl SCRIPT_ERR_CHECKSIGVERIFY)
                  else Inr (with_stack st (bool_item fSuccess # s))))
      | _ \<Rightarrow> Inl SCRIPT_ERR_INVALID_STACK_OPERATION)"

text \<open>
  The signatures loop of \<open>OP_CHECKMULTISIG\<close>.  \<open>isig\<close> and \<open>ikey\<close> count from the top of the
  stack, from one.
\<close>

function multisig_loop ::
  "'e script_env_scheme \<Rightarrow> uint32 \<Rightarrow> script \<Rightarrow> bytes list \<Rightarrow> nat \<Rightarrow> nat \<Rightarrow> int \<Rightarrow> int \<Rightarrow> ScriptError + bool"
where
  "multisig_loop E flags scriptCode stack isig ikey nSigsCount nKeysCount =
     (if nSigsCount > 0 then
        (let vchSig = stack ! (isig - 1); vchPubKey = stack ! (ikey - 1)
         in rbind (CheckSignatureEncoding2 (CheckLowS E) vchSig flags) (\<lambda>_.
            rbind (CheckPubKeyEncoding2 vchPubKey flags) (\<lambda>_.
              let fOk = CheckSig E vchSig vchPubKey scriptCode;
                  isig = (if fOk then isig + 1 else isig);
                  nSigsCount = (if fOk then nSigsCount - 1 else nSigsCount);
                  nKeysCount = nKeysCount - 1
              in if nSigsCount > nKeysCount then Inr False
                 else multisig_loop E flags scriptCode stack isig (ikey + 1) nSigsCount nKeysCount)))
      else Inr True)"
  by auto
termination
  by (relation "measure (\<lambda>(E, flags, code, stack, isig, ikey, nSigs, nKeys). nat nKeys)")
    (auto split: if_splits)

declare multisig_loop.simps [simp del]

fun delete_sigs :: "bytes list \<Rightarrow> script \<Rightarrow> script" where
  "delete_sigs [] scriptCode = scriptCode"
| "delete_sigs (vchSig # sigs) scriptCode =
     delete_sigs sigs (snd (FindAndDelete scriptCode (push_data vchSig [])))"

text \<open>The two counts, with the checks on them and on the depth of the stack, in the order of the code.\<close>

definition multisig_args :: "bool \<Rightarrow> eval_state \<Rightarrow> ScriptError + int \<times> int" where
  "multisig_args fRequireMinimal st =
     (let stack = es_stack st; bad = Inl SCRIPT_ERR_INVALID_STACK_OPERATION
      in if length stack < 1 then bad
         else rbind (script_num fRequireMinimal (stack ! 0)) (\<lambda>bnKeys.
         let nKeysCount = scriptnum_getint bnKeys
         in if nKeysCount < 0 \<or> nKeysCount > 20 then Inl SCRIPT_ERR_PUBKEY_COUNT
         else if es_nOpCount st + nat nKeysCount > 201 then Inl SCRIPT_ERR_OP_COUNT
         else let i = 2 + nat nKeysCount
         in if length stack < i then bad
         else rbind (script_num fRequireMinimal (stack ! (i - 1))) (\<lambda>bnSigs.
         let nSigsCount = scriptnum_getint bnSigs
         in if nSigsCount < 0 \<or> nSigsCount > nKeysCount then Inl SCRIPT_ERR_SIG_COUNT
         else if length stack < i + 1 + nat nSigsCount then bad
         else Inr (nKeysCount, nSigsCount))))"

text \<open>Removing the arguments and the extra item, and pushing the result.\<close>

definition multisig_finish ::
  "uint32 \<Rightarrow> nat \<Rightarrow> nat \<Rightarrow> bool \<Rightarrow> eval_state \<Rightarrow> ScriptError + eval_state" where
  "multisig_finish flags opcode i fSuccess st =
     (case drop (i - 1) (es_stack st) of
        [] \<Rightarrow> Inl SCRIPT_ERR_INVALID_STACK_OPERATION
      | dummy # s \<Rightarrow>
          if flags AND SCRIPT_VERIFY_NULLDUMMY \<noteq> 0 \<and> length dummy \<noteq> 0
          then Inl SCRIPT_ERR_SIG_NULLDUMMY
          else if opcode = OP_CHECKMULTISIGVERIFY then
            (if fSuccess then Inr (with_stack st s) else Inl SCRIPT_ERR_CHECKMULTISIGVERIFY)
          else Inr (with_stack st (bool_item fSuccess # s)))"

definition eval_multisig ::
  "'e script_env_scheme \<Rightarrow> uint32 \<Rightarrow> bool \<Rightarrow> nat \<Rightarrow> eval_state \<Rightarrow> ScriptError + eval_state" where
  "eval_multisig E flags fRequireMinimal opcode st =
     rbind (multisig_args fRequireMinimal st) (\<lambda>(nKeysCount, nSigsCount).
       let ikey = 2; isig = 3 + nat nKeysCount; i = isig + nat nSigsCount;
           scriptCode = delete_sigs (map (\<lambda>k. es_stack st ! (isig + k - 1)) [0..<nat nSigsCount])
                          (es_codehash st)
       in rbind (multisig_loop E flags scriptCode (es_stack st) isig ikey nSigsCount nKeysCount)
            (\<lambda>fSuccess. multisig_finish flags opcode i fSuccess
               (st\<lparr>es_nOpCount := es_nOpCount st + nat nKeysCount\<rparr>)))"

text \<open>The \<open>switch\<close>.  \<open>pc\<close> is the position after the instruction.\<close>

definition eval_opcode ::
  "'e script_env_scheme \<Rightarrow> uint32 \<Rightarrow> bool \<Rightarrow> nat \<Rightarrow> script \<Rightarrow> eval_state \<Rightarrow> ScriptError + eval_state" where
  "eval_opcode E flags fExec opcode pc st =
     (let fRequireMinimal = (flags AND SCRIPT_VERIFY_MINIMALDATA \<noteq> 0)
      in if opcode = OP_1NEGATE \<or> (opcode \<ge> OP_1 \<and> opcode \<le> OP_16) then eval_push opcode st
         else if (opcode \<ge> OP_NOP \<and> opcode \<le> OP_RETURN) \<or> (opcode \<ge> OP_NOP1 \<and> opcode \<le> OP_NOP10)
         then eval_control flags fExec opcode st
         else if opcode \<ge> OP_TOALTSTACK \<and> opcode \<le> OP_TUCK then eval_stackop fRequireMinimal opcode st
         else if opcode = OP_SIZE \<or> opcode = OP_EQUAL \<or> opcode = OP_EQUALVERIFY
         then eval_size_equal opcode st
         else if opcode \<ge> OP_1ADD \<and> opcode \<le> OP_WITHIN then eval_numeric fRequireMinimal opcode st
         else if opcode \<ge> OP_RIPEMD160 \<and> opcode \<le> OP_CODESEPARATOR then eval_hash E pc opcode st
         else if opcode = OP_CHECKSIG \<or> opcode = OP_CHECKSIGVERIFY
         then eval_checksig E flags opcode st
         else if opcode = OP_CHECKMULTISIG \<or> opcode = OP_CHECKMULTISIGVERIFY
         then eval_multisig E flags fRequireMinimal opcode st
         else Inl SCRIPT_ERR_BAD_OPCODE)"

text \<open>
  One turn of the loop: the checks before the instruction, the push or the \<open>switch\<close>, and
  the stack limit.  \<open>st\<close> already counts the operation in \<open>eval_exec\<close>.
\<close>

definition eval_exec ::
  "'e script_env_scheme \<Rightarrow> uint32 \<Rightarrow> bool \<Rightarrow> nat \<Rightarrow> bytes \<Rightarrow> script \<Rightarrow> eval_state \<Rightarrow> ScriptError + eval_state" where
  "eval_exec E flags fExec opcode vchPushValue pc st =
     (if fExec \<and> opcode \<le> OP_PUSHDATA4 then
        (if flags AND SCRIPT_VERIFY_MINIMALDATA \<noteq> 0 \<and> \<not> CheckMinimalPush vchPushValue opcode
         then Inl SCRIPT_ERR_MINIMALDATA
         else Inr (with_stack st (vchPushValue # es_stack st)))
      else if fExec \<or> (OP_IF \<le> opcode \<and> opcode \<le> OP_ENDIF)
      then eval_opcode E flags fExec opcode pc st
      else Inr st)"

definition count_op :: "nat \<Rightarrow> eval_state \<Rightarrow> eval_state" where
  "count_op opcode st = (if opcode > OP_16 then st\<lparr>es_nOpCount := es_nOpCount st + 1\<rparr> else st)"

definition eval_step ::
  "'e script_env_scheme \<Rightarrow> uint32 \<Rightarrow> nat \<Rightarrow> bytes \<Rightarrow> script \<Rightarrow> eval_state \<Rightarrow> ScriptError + eval_state" where
  "eval_step E flags opcode vchPushValue pc st =
     (let fExec = list_all id (es_vfExec st); st1 = count_op opcode st
      in if length vchPushValue > MAX_SCRIPT_ELEMENT_SIZE then Inl SCRIPT_ERR_PUSH_SIZE
         else if opcode > OP_16 \<and> es_nOpCount st1 > 201 then Inl SCRIPT_ERR_OP_COUNT
         else if is_disabled opcode then Inl SCRIPT_ERR_DISABLED_OPCODE
         else rbind (eval_exec E flags fExec opcode vchPushValue pc st1)
           (\<lambda>st2. if length (es_stack st2) + length (es_altstack st2) > 1000
                  then Inl SCRIPT_ERR_STACK_SIZE else Inr st2))"

function eval_loop ::
  "'e script_env_scheme \<Rightarrow> uint32 \<Rightarrow> script \<Rightarrow> eval_state \<Rightarrow> ScriptError + eval_state" where
  "eval_loop E flags pc st =
     (if pc = [] then Inr st
      else case GetOp2 pc of
             None \<Rightarrow> Inl SCRIPT_ERR_BAD_OPCODE
           | Some (opcode, vchPushValue, pc') \<Rightarrow>
               rbind (eval_step E flags opcode vchPushValue pc' st) (eval_loop E flags pc'))"
  by auto
termination
  by (relation "measure (\<lambda>(E, flags, pc, st). length pc)") (auto dest: GetOp2_shorter)

declare eval_loop.simps [simp del]

definition eval_init :: "bytes list \<Rightarrow> script \<Rightarrow> eval_state" where
  "eval_init stack script =
     \<lparr>es_stack = stack, es_altstack = [], es_vfExec = [], es_nOpCount = 0, es_codehash = script\<rparr>"

definition EvalScript ::
  "'e script_env_scheme \<Rightarrow> uint32 \<Rightarrow> bytes list \<Rightarrow> script \<Rightarrow> ScriptError + bytes list" where
  "EvalScript E flags stack script =
     (if length script > 10000 then Inl SCRIPT_ERR_SCRIPT_SIZE
      else rbind (eval_loop E flags script (eval_init stack script)) (\<lambda>st.
        if es_vfExec st \<noteq> [] then Inl SCRIPT_ERR_UNBALANCED_CONDITIONAL
        else Inr (es_stack st)))"

end
