(* ===== verification/InterpInv.thy ===== *)
theory InterpInv
  imports Interp
begin

text \<open>
  Invariants of the flag-driven interpreter: the stacks hold at most 1000 items, at most
  201 counted operations run, and no item is longer than 520 bytes.
\<close>

section \<open>Operation count\<close>

lemmas eval_group_defs = eval_push_def eval_control_def eval_stackop_def eval_size_equal_def
  eval_numeric_def eval_hash_def eval_checksig_def

lemma eval_groups_opcount:
  "eval_push opcode st = Inr st' \<Longrightarrow> es_nOpCount st' = es_nOpCount st"
  "eval_control flags fExec opcode st = Inr st' \<Longrightarrow> es_nOpCount st' = es_nOpCount st"
  "eval_stackop fReq opcode st = Inr st' \<Longrightarrow> es_nOpCount st' = es_nOpCount st"
  "eval_size_equal opcode st = Inr st' \<Longrightarrow> es_nOpCount st' = es_nOpCount st"
  "eval_numeric fReq opcode st = Inr st' \<Longrightarrow> es_nOpCount st' = es_nOpCount st"
  "eval_hash E pc opcode st = Inr st' \<Longrightarrow> es_nOpCount st' = es_nOpCount st"
  "eval_checksig E flags opcode st = Inr st' \<Longrightarrow> es_nOpCount st' = es_nOpCount st"
  by (auto simp: eval_group_defs Let_def rbind_Inr_iff split: if_splits list.splits)

lemma multisig_args_bounds:
  "multisig_args fReq st = Inr (nKeys, nSigs) \<Longrightarrow>
     0 \<le> nSigs \<and> nSigs \<le> nKeys \<and> nKeys \<le> 20 \<and> es_nOpCount st + nat nKeys \<le> 201 \<and>
     nat nKeys + nat nSigs + 3 \<le> length (es_stack st)"
  by (auto simp: multisig_args_def Let_def rbind_Inr_iff split: if_splits)

lemma multisig_finish_opcount:
  "multisig_finish flags opcode i fSuccess st = Inr st' \<Longrightarrow> es_nOpCount st' = es_nOpCount st"
  by (cases "drop (i - 1) (es_stack st)") (auto simp: multisig_finish_def split: if_splits)

lemma eval_multisig_opcount:
  "eval_multisig E flags fReq opcode st = Inr st' \<Longrightarrow>
     es_nOpCount st \<le> es_nOpCount st' \<and> es_nOpCount st' \<le> 201"
  by (auto simp: eval_multisig_def Let_def rbind_Inr_iff dest!: multisig_args_bounds multisig_finish_opcount)

text \<open>What every group guarantees, \<open>eval_opcode\<close> guarantees.\<close>

lemma eval_opcode_cases:
  assumes "eval_opcode E flags fExec opcode pc st = Inr st'"
    and "eval_push opcode st = Inr st' \<Longrightarrow> P"
    and "eval_control flags fExec opcode st = Inr st' \<Longrightarrow> P"
    and "\<And>fReq. eval_stackop fReq opcode st = Inr st' \<Longrightarrow> P"
    and "eval_size_equal opcode st = Inr st' \<Longrightarrow> P"
    and "\<And>fReq. eval_numeric fReq opcode st = Inr st' \<Longrightarrow> P"
    and "eval_hash E pc opcode st = Inr st' \<Longrightarrow> P"
    and "eval_checksig E flags opcode st = Inr st' \<Longrightarrow> P"
    and "\<And>fReq. eval_multisig E flags fReq opcode st = Inr st' \<Longrightarrow> P"
  shows P
proof -
  show ?thesis
    using assms(1) unfolding eval_opcode_def Let_def
    by (elim if_resultE) (erule assms(2-9) | simp)+
qed

lemma eval_opcode_opcount:
  assumes "eval_opcode E flags fExec opcode pc st = Inr st'" "es_nOpCount st \<le> 201"
  shows "es_nOpCount st \<le> es_nOpCount st' \<and> es_nOpCount st' \<le> 201"
proof -
  have eq: "es_nOpCount st' = es_nOpCount st \<Longrightarrow> ?thesis" using assms(2) by simp
  show ?thesis
    by (rule eval_opcode_cases[OF assms(1)])
      (erule eval_groups_opcount[THEN eq] eval_multisig_opcount)+
qed

text \<open>The parts of one turn of the loop.\<close>

lemma eval_step_parts:
  assumes "eval_step E flags opcode v pc st = Inr st'"
  shows "length v \<le> MAX_SCRIPT_ELEMENT_SIZE" "es_nOpCount (count_op opcode st) \<le> 201 \<or> opcode \<le> OP_16"
    "\<not> is_disabled opcode" "length (es_stack st') + length (es_altstack st') \<le> 1000"
    "\<exists>fExec. eval_exec E flags fExec opcode v pc (count_op opcode st) = Inr st'"
  using assms unfolding eval_step_def Let_def
  by (auto simp: rbind_Inr_iff split: if_split_asm)

lemma eval_exec_cases:
  assumes "eval_exec E flags fExec opcode v pc st = Inr st'"
    and "st' = with_stack st (v # es_stack st) \<Longrightarrow> P" and "st' = st \<Longrightarrow> P"
    and "eval_opcode E flags fExec opcode pc st = Inr st' \<Longrightarrow> P"
  shows P
proof -
  consider "st' = with_stack st (v # es_stack st)" | "st' = st"
    | "eval_opcode E flags fExec opcode pc st = Inr st'"
    using assms(1) unfolding eval_exec_def by (fastforce split: if_split_asm)
  then show P by cases (fact assms(2-4))+
qed

lemma eval_step_opcount:
  assumes "eval_step E flags opcode v pc st = Inr st'" "es_nOpCount st \<le> 201"
  shows "es_nOpCount st + of_bool (opcode > OP_16) \<le> es_nOpCount st' \<and> es_nOpCount st' \<le> 201"
proof -
  have le: "es_nOpCount (count_op opcode st) \<le> 201"
    and c: "es_nOpCount (count_op opcode st) = es_nOpCount st + of_bool (opcode > OP_16)"
    using eval_step_parts(2)[OF assms(1)] assms(2) by (auto simp: count_op_def)
  obtain fExec where "eval_exec E flags fExec opcode v pc (count_op opcode st) = Inr st'"
    using eval_step_parts(5)[OF assms(1)] ..
  then show ?thesis
  proof (rule eval_exec_cases)
    assume "eval_opcode E flags fExec opcode pc (count_op opcode st) = Inr st'"
    from eval_opcode_opcount[OF this le] show ?thesis unfolding c .
  qed (use le c in simp_all)
qed

section \<open>Stack sizes\<close>

lemma eval_step_stack:
  "eval_step E flags opcode v pc st = Inr st' \<Longrightarrow>
     length (es_stack st') + length (es_altstack st') \<le> 1000"
  by (rule eval_step_parts(4))

section \<open>Item sizes\<close>

abbreviation item_ok :: "bytes \<Rightarrow> bool" where
  "item_ok v \<equiv> length v \<le> MAX_SCRIPT_ELEMENT_SIZE"

definition items_ok :: "eval_state \<Rightarrow> bool" where
  "items_ok st \<longleftrightarrow> list_all item_ok (es_stack st) \<and> list_all item_ok (es_altstack st) \<and>
     length (es_stack st) \<le> 1000"

definition hashes_ok :: "'e script_env_scheme \<Rightarrow> bool" where
  "hashes_ok E \<longleftrightarrow> (\<forall>v. item_ok (RIPEMD160 E v) \<and> item_ok (SHA1 E v) \<and> item_ok (SHA256 E v) \<and>
     item_ok (HASH160 E v) \<and> item_ok (HASH256 E v))"

lemma serialize_item_ok: "\<bar>n\<bar> < 2 ^ 32 \<Longrightarrow> item_ok (scriptnum_serialize n)"
  using serialize_length[of n 4] by (simp add: MAX_SCRIPT_ELEMENT_SIZE_def)

lemma bool_item_ok: "item_ok (bool_item b)"
  by (simp add: bool_item_def vchTrue_def vchFalse_def MAX_SCRIPT_ELEMENT_SIZE_def)

lemma script_num_range: "script_num fReq v = Inr n \<Longrightarrow> - (2 ^ 31) < n \<and> n < 2 ^ 31"
  using scriptnum_range[of v fReq] by (auto simp: script_num_def split: sum.splits)

lemma abs_if_less: "\<bar>a\<bar> < m \<Longrightarrow> \<bar>b\<bar> < m \<Longrightarrow> \<bar>if c then a else b\<bar> < (m :: int)"
  by simp

lemma of_bool_small: "\<bar>of_bool b :: int\<bar> < 2 ^ 32"
  by simp

lemma unary_item_ok:
  assumes "script_num fReq v = Inr n"
  shows "item_ok (scriptnum_serialize (unary_num opcode n))"
  using script_num_range[OF assms] unfolding unary_num_def
  by (intro serialize_item_ok abs_if_less of_bool_small) (simp_all add: abs_less_iff)

lemma binary_item_ok:
  assumes "script_num fReq v = Inr n" "script_num fReq w = Inr m"
  shows "item_ok (scriptnum_serialize (binary_num opcode n m))"
  using script_num_range[OF assms(1)] script_num_range[OF assms(2)] unfolding binary_num_def
  by (intro serialize_item_ok abs_if_less of_bool_small) (simp_all add: abs_less_iff)

lemmas item_oks = serialize_item_ok bool_item_ok unary_item_ok binary_item_ok

definition result_items_ok :: "eval_state \<Rightarrow> bool" where
  "result_items_ok st \<longleftrightarrow> list_all item_ok (es_stack st) \<and> list_all item_ok (es_altstack st)"

lemma eval_push_items:
  "items_ok st \<Longrightarrow> opcode < 256 \<Longrightarrow> eval_push opcode st = Inr st' \<Longrightarrow> result_items_ok st'"
  by (auto simp: eval_push_def items_ok_def result_items_ok_def intro!: serialize_item_ok)

lemma eval_control_items:
  "items_ok st \<Longrightarrow> eval_control flags fExec opcode st = Inr st' \<Longrightarrow> result_items_ok st'"
  by (auto simp: eval_control_def items_ok_def result_items_ok_def Let_def split: if_splits list.splits)

lemma list_all_parts:
  "list_all P s \<Longrightarrow> list_all P (tl s)"
  "list_all P s \<Longrightarrow> list_all P (take n s)"
  "list_all P s \<Longrightarrow> list_all P (drop n s)"
  "list_all P s \<Longrightarrow> n < length s \<Longrightarrow> P (s ! n)"
  by (cases s, auto simp: list_all_iff dest: in_set_takeD in_set_dropD)

lemma items_okD:
  assumes "items_ok st"
  shows "list_all item_ok (es_stack st)" "list_all item_ok (es_altstack st)" "length (es_stack st) \<le> 1000"
  using assms by (auto simp: items_ok_def)

lemma eval_stackop_items:
  assumes "items_ok st" "eval_stackop fReq opcode st = Inr st'"
  shows "result_items_ok st'"
  using assms(2) items_okD[OF assms(1)] unfolding eval_stackop_def Let_def
  by (elim if_resultE)
    (auto simp: result_items_ok_def rbind_Inr_iff Let_def
      intro!: serialize_item_ok list_all_parts(1-3) list_all_parts(4)[where P = item_ok] split: if_split_asm list.split_asm)

lemma eval_size_equal_items:
  assumes "items_ok st" "eval_size_equal opcode st = Inr st'"
  shows "result_items_ok st'"
  using items_okD[OF assms(1)] assms(2)
  by (auto simp: eval_size_equal_def result_items_ok_def Let_def MAX_SCRIPT_ELEMENT_SIZE_def[symmetric]
      bool_item_ok intro!: serialize_item_ok split: if_splits list.splits)
    (auto simp: MAX_SCRIPT_ELEMENT_SIZE_def)

lemma eval_numeric_items:
  assumes "items_ok st" "eval_numeric fReq opcode st = Inr st'"
  shows "result_items_ok st'"
  using items_okD[OF assms(1)] assms(2)
  by (auto simp: eval_numeric_def result_items_ok_def Let_def rbind_Inr_iff
      bool_item_ok unary_item_ok binary_item_ok split: if_splits list.splits)

lemma eval_hash_items:
  assumes "items_ok st" "hashes_ok E" "eval_hash E pc opcode st = Inr st'"
  shows "result_items_ok st'"
  using items_okD[OF assms(1)] assms(2,3)
  by (auto simp: eval_hash_def hash_item_def hashes_ok_def result_items_ok_def split: if_splits list.splits)

lemma eval_checksig_items:
  assumes "items_ok st" "eval_checksig E flags opcode st = Inr st'"
  shows "result_items_ok st'"
  using items_okD[OF assms(1)] assms(2)
  by (auto simp: eval_checksig_def result_items_ok_def Let_def rbind_Inr_iff bool_item_ok
      split: if_splits list.splits)

lemma multisig_finish_items:
  assumes "list_all item_ok (es_stack st)" "list_all item_ok (es_altstack st)"
    and "multisig_finish flags opcode i fSuccess st = Inr st'"
  shows "result_items_ok st'"
  using assms list_all_parts(3)[OF assms(1), of "i - 1"]
  by (cases "drop (i - 1) (es_stack st)")
    (auto simp: multisig_finish_def result_items_ok_def bool_item_ok split: if_splits)

lemma eval_multisig_items:
  assumes "items_ok st" "eval_multisig E flags fReq opcode st = Inr st'"
  shows "result_items_ok st'"
  using assms(2) items_okD[OF assms(1)]
  by (auto simp: eval_multisig_def Let_def rbind_Inr_iff elim!: multisig_finish_items[rotated 2])

lemma eval_opcode_items:
  assumes "eval_opcode E flags fExec opcode pc st = Inr st'" "items_ok st" "hashes_ok E" "opcode < 256"
  shows "result_items_ok st'"
  by (rule eval_opcode_cases[OF assms(1)])
    (erule eval_push_items[OF assms(2,4)] eval_control_items[OF assms(2)]
      eval_stackop_items[OF assms(2)] eval_size_equal_items[OF assms(2)]
      eval_numeric_items[OF assms(2)] eval_hash_items[OF assms(2,3)]
      eval_checksig_items[OF assms(2)] eval_multisig_items[OF assms(2)])+

lemma count_op_simps [simp]:
  "es_stack (count_op opcode st) = es_stack st" "es_altstack (count_op opcode st) = es_altstack st"
  "es_vfExec (count_op opcode st) = es_vfExec st" "es_codehash (count_op opcode st) = es_codehash st"
  by (simp_all add: count_op_def)

lemma eval_step_items:
  assumes "eval_step E flags opcode v pc st = Inr st'" "items_ok st" "hashes_ok E" "opcode < 256"
  shows "items_ok st'"
proof -
  have ok: "items_ok (count_op opcode st)" using assms(2) by (simp add: items_ok_def)
  obtain fExec where "eval_exec E flags fExec opcode v pc (count_op opcode st) = Inr st'"
    using eval_step_parts(5)[OF assms(1)] ..
  then have "result_items_ok st'"
  proof (rule eval_exec_cases)
    assume "eval_opcode E flags fExec opcode pc (count_op opcode st) = Inr st'"
    then show ?thesis by (rule eval_opcode_items[OF _ ok assms(3,4)])
  qed (use items_okD[OF assms(2)] eval_step_parts(1)[OF assms(1)] in \<open>simp_all add: result_items_ok_def\<close>)
  then show ?thesis using eval_step_parts(4)[OF assms(1)] by (simp add: items_ok_def result_items_ok_def)
qed

section \<open>Whole runs\<close>

text \<open>The limits of a state that a run can reach.\<close>

definition within_limits :: "eval_state \<Rightarrow> bool" where
  "within_limits st \<longleftrightarrow>
     length (es_stack st) + length (es_altstack st) \<le> 1000 \<and> es_nOpCount st \<le> 201 \<and> items_ok st"

lemma eval_step_limits:
  assumes "eval_step E flags opcode v pc st = Inr st'" "within_limits st" "hashes_ok E" "opcode < 256"
  shows "within_limits st'"
  using assms eval_step_items[OF assms(1) _ assms(3,4)] eval_step_opcount[OF assms(1)]
    eval_step_parts(4)[OF assms(1)]
  by (auto simp: within_limits_def)

text \<open>Stepping from one position of the script to another.\<close>

inductive eval_reaches ::
  "'e script_env_scheme \<Rightarrow> uint32 \<Rightarrow> script \<times> eval_state \<Rightarrow> script \<times> eval_state \<Rightarrow> bool"
  for E flags where
  reach_refl: "eval_reaches E flags c c"
| reach_step: "eval_reaches E flags c (pc, st) \<Longrightarrow> GetOp2 pc = Some (opcode, v, pc') \<Longrightarrow>
    eval_step E flags opcode v pc' st = Inr st' \<Longrightarrow> eval_reaches E flags c (pc', st')"

inductive_cases eval_reachesE: "eval_reaches E flags c d"

lemma eval_reaches_limits:
  assumes "eval_reaches E flags c d" "within_limits (snd c)" "hashes_ok E"
  shows "within_limits (snd d)"
  using assms(1,2)
proof induction
  case (reach_step c pc st opcode v pc' st')
  then show ?case
    using eval_step_limits[OF reach_step.hyps(3) _ assms(3) GetOp2_opcode_less[OF reach_step.hyps(2)]]
    by simp
qed simp

lemma eval_reaches_trans:
  assumes "eval_reaches E flags c d" "eval_reaches E flags d e"
  shows "eval_reaches E flags c e"
  using assms(2,1) by induction (auto intro: reach_step)

lemma eval_loop_reaches: "eval_loop E flags pc st = Inr st' \<Longrightarrow> eval_reaches E flags (pc, st) ([], st')"
proof (induction E flags pc st rule: eval_loop.induct)
  case (1 E flags pc st)
  show ?case
  proof (cases "pc = []")
    case True
    then show ?thesis using 1(2) by (subst (asm) eval_loop.simps) (simp add: reach_refl)
  next
    case False
    then obtain opcode v pc' st1 where g: "GetOp2 pc = Some (opcode, v, pc')"
      and s: "eval_step E flags opcode v pc' st = Inr st1" and l: "eval_loop E flags pc' st1 = Inr st'"
      using 1(2) by (subst (asm) eval_loop.simps) (auto simp: rbind_Inr_iff split: option.splits)
    have "eval_reaches E flags (pc, st) (pc', st1)" by (rule reach_step[OF reach_refl g s])
    moreover have "eval_reaches E flags (pc', st1) ([], st')"
      using 1(1)[OF False g refl refl s l] .
    ultimately show ?thesis by (rule eval_reaches_trans)
  qed
qed

lemma EvalScript_limits:
  assumes "EvalScript E flags stack script = Inr stack'" "hashes_ok E"
    and "length stack \<le> 1000" "list_all item_ok stack"
  shows "length stack' \<le> 1000 \<and> list_all item_ok stack'"
proof -
  obtain st where l: "eval_loop E flags script (eval_init stack script) = Inr st" and s: "stack' = es_stack st"
    using assms(1) by (auto simp: EvalScript_def rbind_Inr_iff split: if_splits)
  have "within_limits (eval_init stack script)"
    using assms(3,4) by (simp add: within_limits_def eval_init_def items_ok_def)
  then have "within_limits st"
    using eval_reaches_limits[OF eval_loop_reaches[OF l] _ assms(2)] by simp
  then show ?thesis by (simp add: s within_limits_def items_ok_def)
qed

section \<open>Disabled opcodes\<close>

text \<open>A script with a disabled opcode at an instruction boundary fails, executed or not.\<close>

lemma chunks_eval_loop:
  "eval_loop E flags pc st = Inr st' \<Longrightarrow> c \<in> set (fst (chunks pc)) \<Longrightarrow>
     \<exists>opcode v. GetOp2 c = Some (opcode, v, []) \<and> \<not> is_disabled opcode \<and>
       length v \<le> MAX_SCRIPT_ELEMENT_SIZE"
proof (induction E flags pc st rule: eval_loop.induct)
  case (1 E flags pc st)
  have "pc \<noteq> []" using 1(3) by (auto simp: chunks.simps[of pc])
  then obtain opcode v pc' st1 where g: "GetOp2 pc = Some (opcode, v, pc')"
    and s: "eval_step E flags opcode v pc' st = Inr st1" and l: "eval_loop E flags pc' st1 = Inr st'"
    using 1(2) by (subst (asm) eval_loop.simps) (auto simp: rbind_Inr_iff split: option.splits)
  have "c = take (length pc - length pc') pc \<or> c \<in> set (fst (chunks pc'))"
    using 1(3) g by (auto simp: chunks.simps[of pc] split: prod.splits)
  then show ?case
  proof
    assume c: "c = take (length pc - length pc') pc"
    have "GetOp2 c = Some (opcode, v, [])" using chunk_take(2)[OF g, of "[]"] by (simp add: c)
    then show ?thesis using eval_step_parts(1,3)[OF s] by blast
  next
    assume "c \<in> set (fst (chunks pc'))"
    then show ?thesis using 1(1)[OF \<open>pc \<noteq> []\<close> g refl refl s l] by blast
  qed
qed

lemma eval_loop_chunks_end: "eval_loop E flags pc st = Inr st' \<Longrightarrow> snd (chunks pc) = []"
proof (induction E flags pc st rule: eval_loop.induct)
  case (1 E flags pc st)
  show ?case
  proof (cases "pc = []")
    case True
    then show ?thesis by (simp add: chunks.simps[of "[]"])
  next
    case False
    then obtain opcode v pc' st1 where g: "GetOp2 pc = Some (opcode, v, pc')"
      and s: "eval_step E flags opcode v pc' st = Inr st1" and l: "eval_loop E flags pc' st1 = Inr st'"
      using 1(2) by (subst (asm) eval_loop.simps) (auto simp: rbind_Inr_iff split: option.splits)
    show ?thesis using 1(1)[OF False g refl refl s l] g
      by (cases "chunks pc'") (simp add: chunks.simps[of pc])
  qed
qed

section \<open>Properties\<close>

text \<open> C11.
  A script that succeeds leaves at most 1000 items of at most 520 bytes, when it starts from such
  a stack and the hash functions give at most 520 bytes, whatever the flags and the checker.
\<close>

theorem script_resource_limits:
  assumes "EvalScript E flags stack script = Inr stack'" "hashes_ok E"
    and "length stack \<le> 1000" "list_all item_ok stack"
  shows "length stack' \<le> 1000 \<and> list_all item_ok stack'"
  by (rule EvalScript_limits[OF assms])

text \<open>The hash functions of an example environment give nothing.\<close>

definition null_env :: script_env where
  "null_env = \<lparr>RIPEMD160 = \<lambda>_. [], SHA1 = \<lambda>_. [], SHA256 = \<lambda>_. [], HASH160 = \<lambda>_. [],
     HASH256 = \<lambda>_. [], CheckLowS = \<lambda>_. True, CheckSig = \<lambda>_ _ _. True\<rparr>"

lemma script_resource_limits_witness:
  "EvalScript null_env 0 [[1, 2]] [0x76, 0x69] = Inr [[1, 2]] \<and> length [[1, 2 :: byte]] \<le> 1000"
proof -
  have e: "EvalScript null_env 0 [[1, 2]] [0x76, 0x69] = Inr [[1, 2]]" by code_simp
  then show ?thesis
    using script_resource_limits[OF e]
    by (simp add: hashes_ok_def null_env_def MAX_SCRIPT_ELEMENT_SIZE_def)
qed

text \<open>
  A script with a disabled opcode, an oversized push or an undecodable byte string anywhere at an
  instruction boundary fails, whether or not the instruction would be executed.
\<close>

theorem script_no_disabled_opcode:
  assumes "EvalScript E flags stack script = Inr stack'"
  shows "snd (chunks script) = [] \<and>
    list_all (\<lambda>c. case GetOp2 c of
        None \<Rightarrow> False
      | Some (opcode, v, rest) \<Rightarrow> \<not> is_disabled opcode \<and> length v \<le> MAX_SCRIPT_ELEMENT_SIZE)
      (fst (chunks script))"
proof -
  obtain st where l: "eval_loop E flags script (eval_init stack script) = Inr st"
    using assms by (auto simp: EvalScript_def rbind_Inr_iff split: if_splits)
  show ?thesis using eval_loop_chunks_end[OF l] chunks_eval_loop[OF l] by (fastforce simp: list_all_iff)
qed

lemma script_no_disabled_opcode_witness:
  "EvalScript null_env 0 [] [0x00, 0x63, 0x61, 0x68, 0x51] = Inr [[1]] \<and>
   snd (chunks [0x00, 0x63, 0x61, 0x68, 0x51]) = []"
proof -
  have e: "EvalScript null_env 0 [] [0x00, 0x63, 0x61, 0x68, 0x51] = Inr [[1]]" by code_simp
  show ?thesis using e script_no_disabled_opcode[OF e] by blast
qed

end
