(* ===== verification/LegacyInterp.thy ===== *)
theory LegacyInterp
  imports InterpInv
begin

text \<open>
  The first interpreter of \<open>src/src/script.cpp\<close>,
  \<open>EvalScript(stack, script, txTo, nIn, flags, nHashType)\<close>, which computes with \<open>CBigNum\<close>
  and returns a boolean: \<open>None\<close> is \<open>false\<close>, and the exceptions that its handler turns into
  \<open>false\<close> are \<open>None\<close> too.  Its \<open>switch\<close> still holds the code of the disabled opcodes.
  \<open>CheckSig\<close> of the environment is the function \<open>CheckSig\<close> at the transaction, input, hash
  type and flags of the call.  The main result relates it to the flag-driven interpreter.
\<close>

section \<open>The OpenSSL number library\<close>

record bn_lib =
  bn2mpi :: "int \<Rightarrow> bytes"
  mpi2bn :: "bytes \<Rightarrow> int"

definition bn_documented :: "bn_lib \<Rightarrow> bool" where
  "bn_documented B \<longleftrightarrow> mpi_documented (bn2mpi B) (mpi2bn B)"

definition CastToBigNum :: "bn_lib \<Rightarrow> bytes \<Rightarrow> int option" where
  "CastToBigNum B vch =
     (if length vch > 4 then None
      else Some (bignum_setvch (mpi2bn B) (bignum_getvch (bn2mpi B) (bignum_setvch (mpi2bn B) vch))))"

text \<open>\<open>operator>>=\<close> of \<open>CBigNum\<close> gives zero whenever the power of two exceeds the number.\<close>

definition bignum_shiftr :: "int \<Rightarrow> nat \<Rightarrow> int" where
  "bignum_shiftr n shift = (if 2 ^ shift > n then 0 else n div 2 ^ shift)"

section \<open>Instructions\<close>

definition legacy_push :: "bn_lib \<Rightarrow> nat \<Rightarrow> eval_state \<Rightarrow> eval_state option" where
  "legacy_push B opcode st =
     Some (with_stack st (bignum_getvch (bn2mpi B) (int opcode - int (OP_1 - 1)) # es_stack st))"

definition legacy_control :: "uint32 \<Rightarrow> bool \<Rightarrow> nat \<Rightarrow> eval_state \<Rightarrow> eval_state option" where
  "legacy_control flags fExec opcode st =
     (if opcode = OP_NOP then Some st
      else if opcode \<ge> OP_NOP1 \<and> opcode \<le> OP_NOP10 then
        (if flags AND SCRIPT_VERIFY_DISCOURAGE_UPGRADABLE_NOPS \<noteq> 0
         then None else Some st)
      else if opcode = OP_IF \<or> opcode = OP_NOTIF then
        (if fExec then
           (case es_stack st of
              [] \<Rightarrow> None
            | vch # s \<Rightarrow>
                let fValue = CastToBool vch;
                    fValue = (if opcode = OP_NOTIF then \<not> fValue else fValue)
                in Some (st\<lparr>es_stack := s, es_vfExec := fValue # es_vfExec st\<rparr>))
         else Some (st\<lparr>es_vfExec := False # es_vfExec st\<rparr>))
      else if opcode = OP_ELSE then
        (case es_vfExec st of
           [] \<Rightarrow> None
         | f # fs \<Rightarrow> Some (st\<lparr>es_vfExec := (\<not> f) # fs\<rparr>))
      else if opcode = OP_ENDIF then
        (case es_vfExec st of
           [] \<Rightarrow> None
         | f # fs \<Rightarrow> Some (st\<lparr>es_vfExec := fs\<rparr>))
      else if opcode = OP_VERIFY then
        (case es_stack st of
           [] \<Rightarrow> None
         | v # s \<Rightarrow> if CastToBool v then Some (with_stack st s) else None)
      else if opcode = OP_RETURN then None
      else None)"

definition legacy_stackop :: "bn_lib \<Rightarrow> nat \<Rightarrow> eval_state \<Rightarrow> eval_state option" where
  "legacy_stackop B opcode st =
     (let bad = None;
          ok = (\<lambda>s. Some (with_stack st s));
          stack = es_stack st
      in if opcode = OP_TOALTSTACK then
           (case stack of x # s \<Rightarrow> Some (st\<lparr>es_stack := s, es_altstack := x # es_altstack st\<rparr>) | _ \<Rightarrow> bad)
         else if opcode = OP_FROMALTSTACK then
           (case es_altstack st of
              x # a \<Rightarrow> Some (st\<lparr>es_stack := x # stack, es_altstack := a\<rparr>)
            | _ \<Rightarrow> None)
         else if opcode = OP_2DROP then (case stack of x2 # x1 # s \<Rightarrow> ok s | _ \<Rightarrow> bad)
         else if opcode = OP_2DUP then
           (case stack of x2 # x1 # s \<Rightarrow> ok (x2 # x1 # x2 # x1 # s) | _ \<Rightarrow> bad)
         else if opcode = OP_3DUP then
           (case stack of x3 # x2 # x1 # s \<Rightarrow> ok (x3 # x2 # x1 # x3 # x2 # x1 # s) | _ \<Rightarrow> bad)
         else if opcode = OP_2OVER then
           (case stack of x4 # x3 # x2 # x1 # s \<Rightarrow> ok (x2 # x1 # x4 # x3 # x2 # x1 # s) | _ \<Rightarrow> bad)
         else if opcode = OP_2ROT then
           (case stack of x6 # x5 # x4 # x3 # x2 # x1 # s \<Rightarrow> ok (x2 # x1 # x6 # x5 # x4 # x3 # s) | _ \<Rightarrow> bad)
         else if opcode = OP_2SWAP then
           (case stack of x4 # x3 # x2 # x1 # s \<Rightarrow> ok (x2 # x1 # x4 # x3 # s) | _ \<Rightarrow> bad)
         else if opcode = OP_IFDUP then
           (case stack of x # s \<Rightarrow> (if CastToBool x then ok (x # x # s) else ok (x # s)) | _ \<Rightarrow> bad)
         else if opcode = OP_DEPTH then ok (bignum_getvch (bn2mpi B) (int (length stack)) # stack)
         else if opcode = OP_DROP then (case stack of x # s \<Rightarrow> ok s | _ \<Rightarrow> bad)
         else if opcode = OP_DUP then (case stack of x # s \<Rightarrow> ok (x # x # s) | _ \<Rightarrow> bad)
         else if opcode = OP_NIP then (case stack of x2 # x1 # s \<Rightarrow> ok (x2 # s) | _ \<Rightarrow> bad)
         else if opcode = OP_OVER then (case stack of x2 # x1 # s \<Rightarrow> ok (x1 # x2 # x1 # s) | _ \<Rightarrow> bad)
         else if opcode = OP_PICK \<or> opcode = OP_ROLL then
           (if length stack < 2 then bad
            else Option.bind (CastToBigNum B (hd stack)) (\<lambda>bn.
              let n = bignum_getint bn; s = tl stack
              in if n < 0 \<or> n \<ge> int (length s) then bad
                 else let vch = s ! nat n;
                          s = (if opcode = OP_ROLL then take (nat n) s @ drop (nat n + 1) s else s)
                      in ok (vch # s)))
         else if opcode = OP_ROT then (case stack of x3 # x2 # x1 # s \<Rightarrow> ok (x1 # x3 # x2 # s) | _ \<Rightarrow> bad)
         else if opcode = OP_SWAP then (case stack of x2 # x1 # s \<Rightarrow> ok (x1 # x2 # s) | _ \<Rightarrow> bad)
         else if opcode = OP_TUCK then (case stack of x2 # x1 # s \<Rightarrow> ok (x2 # x1 # x2 # s) | _ \<Rightarrow> bad)
         else None)"

definition legacy_splice :: "bn_lib \<Rightarrow> nat \<Rightarrow> eval_state \<Rightarrow> eval_state option" where
  "legacy_splice B opcode st =
     (if opcode = OP_CAT then
        (case es_stack st of
           x2 # x1 # s \<Rightarrow>
             let v = x1 @ x2
             in if length v > MAX_SCRIPT_ELEMENT_SIZE then None else Some (with_stack st (v # s))
         | _ \<Rightarrow> None)
      else if opcode = OP_SUBSTR then
        (case es_stack st of
           x3 # x2 # x1 # s \<Rightarrow>
             Option.bind (CastToBigNum B x2) (\<lambda>bn2.
             Option.bind (CastToBigNum B x3) (\<lambda>bn3.
               let nBegin = bignum_getint bn2; nEnd = nBegin + bignum_getint bn3
               in if nBegin < 0 \<or> nEnd < nBegin then None
                  else let nBegin = min nBegin (int (length x1)); nEnd = min nEnd (int (length x1))
                       in Some (with_stack st (drop (nat nBegin) (take (nat nEnd) x1) # s))))
         | _ \<Rightarrow> None)
      else if opcode = OP_LEFT \<or> opcode = OP_RIGHT then
        (case es_stack st of
           x2 # x1 # s \<Rightarrow>
             Option.bind (CastToBigNum B x2) (\<lambda>bn2.
               let nSize = bignum_getint bn2
               in if nSize < 0 then None
                  else let nSize = min (nat nSize) (length x1)
                       in Some (with_stack st
                            ((if opcode = OP_LEFT then take nSize x1 else drop (length x1 - nSize) x1) # s)))
         | _ \<Rightarrow> None)
      else if opcode = OP_INVERT then
        (case es_stack st of
           [] \<Rightarrow> None
         | x # s \<Rightarrow> Some (with_stack st (map (\<lambda>b. NOT b) x # s)))
      else if opcode = OP_AND \<or> opcode = OP_OR \<or> opcode = OP_XOR then
        (case es_stack st of
           x2 # x1 # s \<Rightarrow>
             (case MakeSameSize x1 x2 of (v1, v2) \<Rightarrow>
                Some (with_stack st
                  (map2 (\<lambda>a b. if opcode = OP_AND then a AND b
                                else if opcode = OP_OR then a OR b else a XOR b) v1 v2 # s)))
         | _ \<Rightarrow> None)
      else None)"

definition legacy_size_equal :: "bn_lib \<Rightarrow> nat \<Rightarrow> eval_state \<Rightarrow> eval_state option" where
  "legacy_size_equal B opcode st =
     (if opcode = OP_SIZE then
        (case es_stack st of
           [] \<Rightarrow> None
         | x # s \<Rightarrow> Some (with_stack st (bignum_getvch (bn2mpi B) (int (length x)) # x # s)))
      else if opcode = OP_EQUAL \<or> opcode = OP_EQUALVERIFY then
        (case es_stack st of
           x2 # x1 # s \<Rightarrow>
             let fEqual = (x1 = x2)
             in if opcode = OP_EQUALVERIFY then
                  (if fEqual then Some (with_stack st s) else None)
                else Some (with_stack st (bool_item fEqual # s))
         | _ \<Rightarrow> None)
      else None)"

definition legacy_unary_num :: "nat \<Rightarrow> int \<Rightarrow> int" where
  "legacy_unary_num opcode bn =
     (if opcode = OP_1ADD then bn + 1
      else if opcode = OP_1SUB then bn - 1
      else if opcode = OP_2MUL then bn * 2
      else if opcode = OP_2DIV then bignum_shiftr bn 1
      else if opcode = OP_NEGATE then - bn
      else if opcode = OP_ABS then (if bn < 0 then - bn else bn)
      else if opcode = OP_NOT then of_bool (bn = 0)
      else of_bool (bn \<noteq> 0))"

text \<open>\<open>BN_div\<close> and \<open>BN_mod\<close> fail on a zero divisor and truncate toward zero.\<close>

definition legacy_binary_num :: "nat \<Rightarrow> int \<Rightarrow> int \<Rightarrow> int option" where
  "legacy_binary_num opcode bn1 bn2 =
     (if opcode = OP_ADD then Some (bn1 + bn2)
      else if opcode = OP_SUB then Some (bn1 - bn2)
      else if opcode = OP_MUL then Some (bn1 * bn2)
      else if opcode = OP_DIV then (if bn2 = 0 then None else Some (bn1 sdiv bn2))
      else if opcode = OP_MOD then (if bn2 = 0 then None else Some (bn1 smod bn2))
      else if opcode = OP_LSHIFT then
        (if bn2 < 0 \<or> bn2 > 2048 then None else Some (bn1 * 2 ^ nat bn2))
      else if opcode = OP_RSHIFT then
        (if bn2 < 0 \<or> bn2 > 2048 then None else Some (bignum_shiftr bn1 (nat bn2)))
      else if opcode = OP_BOOLAND then Some (of_bool (bn1 \<noteq> 0 \<and> bn2 \<noteq> 0))
      else if opcode = OP_BOOLOR then Some (of_bool (bn1 \<noteq> 0 \<or> bn2 \<noteq> 0))
      else if opcode = OP_NUMEQUAL then Some (of_bool (bn1 = bn2))
      else if opcode = OP_NUMEQUALVERIFY then Some (of_bool (bn1 = bn2))
      else if opcode = OP_NUMNOTEQUAL then Some (of_bool (bn1 \<noteq> bn2))
      else if opcode = OP_LESSTHAN then Some (of_bool (bn1 < bn2))
      else if opcode = OP_GREATERTHAN then Some (of_bool (bn1 > bn2))
      else if opcode = OP_LESSTHANOREQUAL then Some (of_bool (bn1 \<le> bn2))
      else if opcode = OP_GREATERTHANOREQUAL then Some (of_bool (bn1 \<ge> bn2))
      else if opcode = OP_MIN then Some (if bn1 < bn2 then bn1 else bn2)
      else Some (if bn1 > bn2 then bn1 else bn2))"

definition legacy_is_unary :: "nat \<Rightarrow> bool" where
  "legacy_is_unary opcode \<longleftrightarrow> is_unary opcode \<or> opcode = OP_2MUL \<or> opcode = OP_2DIV"

definition legacy_is_binary :: "nat \<Rightarrow> bool" where
  "legacy_is_binary opcode \<longleftrightarrow>
     is_binary opcode \<or> opcode = OP_MUL \<or> opcode = OP_DIV \<or> opcode = OP_MOD \<or>
     opcode = OP_LSHIFT \<or> opcode = OP_RSHIFT"

definition legacy_numeric :: "bn_lib \<Rightarrow> nat \<Rightarrow> eval_state \<Rightarrow> eval_state option" where
  "legacy_numeric B opcode st =
     (if legacy_is_unary opcode then
        (case es_stack st of
           [] \<Rightarrow> None
         | x # s \<Rightarrow> Option.bind (CastToBigNum B x) (\<lambda>bn.
             Some (with_stack st (bignum_getvch (bn2mpi B) (legacy_unary_num opcode bn) # s))))
      else if legacy_is_binary opcode then
        (case es_stack st of
           x2 # x1 # s \<Rightarrow>
             Option.bind (CastToBigNum B x1) (\<lambda>bn1.
             Option.bind (CastToBigNum B x2) (\<lambda>bn2.
             Option.bind (legacy_binary_num opcode bn1 bn2) (\<lambda>bn.
               let v = bignum_getvch (bn2mpi B) bn
               in if opcode = OP_NUMEQUALVERIFY then
                    (if CastToBool v then Some (with_stack st s) else None)
                  else Some (with_stack st (v # s)))))
         | _ \<Rightarrow> None)
      else if opcode = OP_WITHIN then
        (case es_stack st of
           x3 # x2 # x1 # s \<Rightarrow>
             Option.bind (CastToBigNum B x1) (\<lambda>bn1.
             Option.bind (CastToBigNum B x2) (\<lambda>bn2.
             Option.bind (CastToBigNum B x3) (\<lambda>bn3.
               Some (with_stack st (bool_item (bn2 \<le> bn1 \<and> bn1 < bn3) # s)))))
         | _ \<Rightarrow> None)
      else None)"

definition legacy_hash ::
  "'e script_env_scheme \<Rightarrow> script \<Rightarrow> nat \<Rightarrow> eval_state \<Rightarrow> eval_state option" where
  "legacy_hash E pc opcode st =
     (if opcode = OP_CODESEPARATOR then Some (st\<lparr>es_codehash := pc\<rparr>)
      else case es_stack st of
             [] \<Rightarrow> None
           | x # s \<Rightarrow> Some (with_stack st (hash_item E opcode x # s)))"

text \<open>
  The encoding tests come twice: with \<open>SCRIPT_VERIFY_STRICTENC\<close> a failing test ends the
  script, without it the signature just counts as wrong.
\<close>

definition legacy_enc_abort :: "'e script_env_scheme \<Rightarrow> uint32 \<Rightarrow> bytes \<Rightarrow> bytes \<Rightarrow> bool" where
  "legacy_enc_abort E flags vchSig vchPubKey \<longleftrightarrow>
     flags AND SCRIPT_VERIFY_STRICTENC \<noteq> 0 \<and>
     (\<not> CheckSignatureEncoding (CheckLowS E) vchSig \<or> \<not> CheckPubKeyEncoding vchPubKey)"

definition legacy_sig_ok :: "'e script_env_scheme \<Rightarrow> bytes \<Rightarrow> bytes \<Rightarrow> script \<Rightarrow> bool" where
  "legacy_sig_ok E vchSig vchPubKey scriptCode \<longleftrightarrow>
     CheckSignatureEncoding (CheckLowS E) vchSig \<and> CheckPubKeyEncoding vchPubKey \<and>
     CheckSig E vchSig vchPubKey scriptCode"

definition legacy_checksig ::
  "'e script_env_scheme \<Rightarrow> uint32 \<Rightarrow> nat \<Rightarrow> eval_state \<Rightarrow> eval_state option" where
  "legacy_checksig E flags opcode st =
     (case es_stack st of
        vchPubKey # vchSig # s \<Rightarrow>
          let scriptCode = snd (FindAndDelete (es_codehash st) (push_data vchSig []))
          in if legacy_enc_abort E flags vchSig vchPubKey then None
             else let fSuccess = legacy_sig_ok E vchSig vchPubKey scriptCode
                  in if opcode = OP_CHECKSIGVERIFY then
                       (if fSuccess then Some (with_stack st s) else None)
                     else Some (with_stack st (bool_item fSuccess # s))
      | _ \<Rightarrow> None)"

function legacy_multisig_loop ::
  "'e script_env_scheme \<Rightarrow> uint32 \<Rightarrow> script \<Rightarrow> bytes list \<Rightarrow> nat \<Rightarrow> nat \<Rightarrow> int \<Rightarrow> int \<Rightarrow> bool option"
where
  "legacy_multisig_loop E flags scriptCode stack isig ikey nSigsCount nKeysCount =
     (if nSigsCount > 0 then
        (let vchSig = stack ! (isig - 1); vchPubKey = stack ! (ikey - 1)
         in if legacy_enc_abort E flags vchSig vchPubKey then None
            else
              let fOk = legacy_sig_ok E vchSig vchPubKey scriptCode;
                  isig = (if fOk then isig + 1 else isig);
                  nSigsCount = (if fOk then nSigsCount - 1 else nSigsCount);
                  nKeysCount = nKeysCount - 1
              in if nSigsCount > nKeysCount then Some False
                 else legacy_multisig_loop E flags scriptCode stack isig (ikey + 1) nSigsCount nKeysCount)
      else Some True)"
  by auto
termination
  by (relation "measure (\<lambda>(E, flags, code, stack, isig, ikey, nSigs, nKeys). nat nKeys)")
    (auto split: if_splits)

declare legacy_multisig_loop.simps [simp del]

definition legacy_multisig_args :: "bn_lib \<Rightarrow> eval_state \<Rightarrow> (int \<times> int) option" where
  "legacy_multisig_args B st =
     (let stack = es_stack st
      in if length stack < 1 then None
         else Option.bind (CastToBigNum B (stack ! 0)) (\<lambda>bnKeys.
         let nKeysCount = bignum_getint bnKeys
         in if nKeysCount < 0 \<or> nKeysCount > 20 then None
         else if es_nOpCount st + nat nKeysCount > 201 then None
         else let i = 2 + nat nKeysCount
         in if length stack < i then None
         else Option.bind (CastToBigNum B (stack ! (i - 1))) (\<lambda>bnSigs.
         let nSigsCount = bignum_getint bnSigs
         in if nSigsCount < 0 \<or> nSigsCount > nKeysCount then None
         else if length stack < i + 1 + nat nSigsCount then None
         else Some (nKeysCount, nSigsCount))))"

definition legacy_multisig_finish ::
  "uint32 \<Rightarrow> nat \<Rightarrow> nat \<Rightarrow> bool \<Rightarrow> eval_state \<Rightarrow> eval_state option" where
  "legacy_multisig_finish flags opcode i fSuccess st =
     (case drop (i - 1) (es_stack st) of
        [] \<Rightarrow> None
      | dummy # s \<Rightarrow>
          if flags AND SCRIPT_VERIFY_NULLDUMMY \<noteq> 0 \<and> length dummy \<noteq> 0 then None
          else if opcode = OP_CHECKMULTISIGVERIFY then
            (if fSuccess then Some (with_stack st s) else None)
          else Some (with_stack st (bool_item fSuccess # s)))"

definition legacy_multisig ::
  "bn_lib \<Rightarrow> 'e script_env_scheme \<Rightarrow> uint32 \<Rightarrow> nat \<Rightarrow> eval_state \<Rightarrow> eval_state option" where
  "legacy_multisig B E flags opcode st =
     Option.bind (legacy_multisig_args B st) (\<lambda>(nKeysCount, nSigsCount).
       let ikey = 2; isig = 3 + nat nKeysCount; i = isig + nat nSigsCount;
           scriptCode = delete_sigs (map (\<lambda>k. es_stack st ! (isig + k - 1)) [0..<nat nSigsCount])
                          (es_codehash st)
       in Option.bind (legacy_multisig_loop E flags scriptCode (es_stack st) isig ikey nSigsCount nKeysCount)
            (\<lambda>fSuccess. legacy_multisig_finish flags opcode i fSuccess
               (st\<lparr>es_nOpCount := es_nOpCount st + nat nKeysCount\<rparr>)))"

definition legacy_opcode ::
  "bn_lib \<Rightarrow> 'e script_env_scheme \<Rightarrow> uint32 \<Rightarrow> bool \<Rightarrow> nat \<Rightarrow> script \<Rightarrow> eval_state \<Rightarrow> eval_state option" where
  "legacy_opcode B E flags fExec opcode pc st =
     (if opcode = OP_1NEGATE \<or> (opcode \<ge> OP_1 \<and> opcode \<le> OP_16) then legacy_push B opcode st
      else if (opcode \<ge> OP_NOP \<and> opcode \<le> OP_RETURN) \<or> (opcode \<ge> OP_NOP1 \<and> opcode \<le> OP_NOP10)
      then legacy_control flags fExec opcode st
      else if opcode \<ge> OP_TOALTSTACK \<and> opcode \<le> OP_TUCK then legacy_stackop B opcode st
      else if (opcode \<ge> OP_CAT \<and> opcode \<le> OP_RIGHT) \<or> (opcode \<ge> OP_INVERT \<and> opcode \<le> OP_XOR)
      then legacy_splice B opcode st
      else if opcode = OP_SIZE \<or> opcode = OP_EQUAL \<or> opcode = OP_EQUALVERIFY
      then legacy_size_equal B opcode st
      else if opcode \<ge> OP_1ADD \<and> opcode \<le> OP_WITHIN then legacy_numeric B opcode st
      else if opcode \<ge> OP_RIPEMD160 \<and> opcode \<le> OP_CODESEPARATOR then legacy_hash E pc opcode st
      else if opcode = OP_CHECKSIG \<or> opcode = OP_CHECKSIGVERIFY then legacy_checksig E flags opcode st
      else if opcode = OP_CHECKMULTISIG \<or> opcode = OP_CHECKMULTISIGVERIFY
      then legacy_multisig B E flags opcode st
      else None)"

definition legacy_step ::
  "bn_lib \<Rightarrow> 'e script_env_scheme \<Rightarrow> uint32 \<Rightarrow> nat \<Rightarrow> bytes \<Rightarrow> script \<Rightarrow> eval_state \<Rightarrow> eval_state option" where
  "legacy_step B E flags opcode vchPushValue pc st =
     (let fExec = list_all id (es_vfExec st); st1 = count_op opcode st
      in if length vchPushValue > MAX_SCRIPT_ELEMENT_SIZE then None
         else if opcode > OP_16 \<and> es_nOpCount st1 > 201 then None
         else if is_disabled opcode then None
         else Option.bind
           (if fExec \<and> opcode \<le> OP_PUSHDATA4 then Some (with_stack st1 (vchPushValue # es_stack st1))
            else if fExec \<or> (OP_IF \<le> opcode \<and> opcode \<le> OP_ENDIF)
            then legacy_opcode B E flags fExec opcode pc st1
            else Some st1)
           (\<lambda>st2. if length (es_stack st2) + length (es_altstack st2) > 1000 then None else Some st2))"

function legacy_loop ::
  "bn_lib \<Rightarrow> 'e script_env_scheme \<Rightarrow> uint32 \<Rightarrow> script \<Rightarrow> eval_state \<Rightarrow> eval_state option" where
  "legacy_loop B E flags pc st =
     (if pc = [] then Some st
      else case GetOp2 pc of
             None \<Rightarrow> None
           | Some (opcode, vchPushValue, pc') \<Rightarrow>
               Option.bind (legacy_step B E flags opcode vchPushValue pc' st) (legacy_loop B E flags pc'))"
  by auto
termination
  by (relation "measure (\<lambda>(B, E, flags, pc, st). length pc)") (auto dest: GetOp2_shorter)

declare legacy_loop.simps [simp del]

definition LegacyEvalScript ::
  "bn_lib \<Rightarrow> 'e script_env_scheme \<Rightarrow> uint32 \<Rightarrow> bytes list \<Rightarrow> script \<Rightarrow> bytes list option" where
  "LegacyEvalScript B E flags stack script =
     (if length script > 10000 then None
      else Option.bind (legacy_loop B E flags script (eval_init stack script)) (\<lambda>st.
        if es_vfExec st \<noteq> [] then None else Some (es_stack st)))"

end
