(* ===== verification/InterpEquiv.thy ===== *)
theory InterpEquiv
  imports LegacyInterp
begin

text \<open>
  The two interpreters agree.  \<open>forget\<close> drops the error code; each group of instructions of
  the first interpreter is \<open>forget\<close> of the same group of the second, given the documented
  number format of the library, when no minimal encoding is demanded and the signature
  flags ask both interpreters for the same tests.
\<close>

section \<open>Forgetting the error code\<close>

definition forget :: "'e + 'a \<Rightarrow> 'a option" where
  "forget r = (case r of Inl e \<Rightarrow> None | Inr x \<Rightarrow> Some x)"

lemma forget_simps [simp]: "forget (Inl e) = None" "forget (Inr x) = Some x"
  by (simp_all add: forget_def)

lemma forget_rbind [simp]: "forget (rbind r f) = Option.bind (forget r) (\<lambda>x. forget (f x))"
  by (cases r) auto

lemma forget_Some_iff: "forget r = Some x \<longleftrightarrow> r = Inr x"
  by (cases r) auto

lemma forget_if: "forget (if c then a else b) = (if c then forget a else forget b)"
  by simp

lemmas forget_case = list.case_distrib[of forget] forget_if

section \<open>Numbers\<close>

locale documented_bignum =
  fixes B :: bn_lib
  assumes documented: "bn_documented B"
begin

lemma getvch: "bignum_getvch (bn2mpi B) n = scriptnum_serialize n"
  using documented unfolding bn_documented_def by (rule mpi_getvch)

lemma CastToBigNum_eq: "CastToBigNum B v = forget (script_num False v)"
proof (cases "length v \<le> 4")
  case True
  have s: "bignum_setvch (mpi2bn B) w = sm_val w" if "length w < 2 ^ 32" for w
    using documented that unfolding bn_documented_def by (rule mpi_setvch)
  have "\<bar>sm_val v\<bar> < 128 * 256 ^ (length v - 1)" by (rule sm_val_mag)
  also have "(128::int) * 256 ^ (length v - 1) \<le> 128 * 256 ^ 3"
    using True by (intro mult_left_mono power_increasing) auto
  finally have "length (scriptnum_serialize (sm_val v)) \<le> 5"
    using serialize_length[of "sm_val v" 4] by simp
  then have "length (scriptnum_serialize (sm_val v)) < 2 ^ 32" by simp
  then show ?thesis using True
    by (simp add: CastToBigNum_def s getvch serialize_val script_num_def CScriptNum_def set_vch_eq)
next
  case False
  then show ?thesis by (simp add: CastToBigNum_def script_num_def CScriptNum_def)
qed

end

lemma getint_eq: "bignum_getint n = scriptnum_getint n"
  by (auto simp: bignum_getint_def scriptnum_getint_def BN_get_word_def Let_def)

context documented_bignum
begin

section \<open>Groups of instructions\<close>

lemma push_eq: "legacy_push B opcode st = forget (eval_push opcode st)"
  by (simp add: legacy_push_def eval_push_def getvch)

lemma stackop_eq: "legacy_stackop B opcode st = forget (eval_stackop False opcode st)"
  by (simp add: legacy_stackop_def eval_stackop_def Let_def forget_case getvch CastToBigNum_eq
      getint_eq cong: if_cong list.case_cong)

lemma size_equal_eq: "legacy_size_equal B opcode st = forget (eval_size_equal opcode st)"
  by (simp add: legacy_size_equal_def eval_size_equal_def Let_def forget_case getvch
      cong: if_cong list.case_cong)

lemma numeric_eq:
  assumes "\<not> is_disabled opcode"
  shows "legacy_numeric B opcode st = forget (eval_numeric False opcode st)"
proof -
  have u: "legacy_is_unary opcode = is_unary opcode" "legacy_unary_num opcode n = unary_num opcode n" for n
    using assms by (auto simp: legacy_is_unary_def is_disabled_def legacy_unary_num_def unary_num_def)
  have b: "legacy_is_binary opcode = is_binary opcode"
    "legacy_binary_num opcode n m = Some (binary_num opcode n m)" for n m
    using assms by (auto simp: legacy_is_binary_def is_disabled_def legacy_binary_num_def binary_num_def)
  show ?thesis
    by (simp add: legacy_numeric_def eval_numeric_def u b Let_def forget_case getvch CastToBigNum_eq
        cong: if_cong list.case_cong)
qed

lemma multisig_args_eq: "legacy_multisig_args B st = forget (multisig_args False st)"
  by (simp add: legacy_multisig_args_def multisig_args_def Let_def forget_case CastToBigNum_eq getint_eq
      cong: if_cong)

end

lemma control_eq: "legacy_control flags fExec opcode st = forget (eval_control flags fExec opcode st)"
  by (simp add: legacy_control_def eval_control_def Let_def forget_case cong: if_cong list.case_cong)

lemma multisig_finish_eq:
  "legacy_multisig_finish flags opcode i f st = forget (multisig_finish flags opcode i f st)"
  by (simp add: legacy_multisig_finish_def multisig_finish_def forget_case cong: if_cong list.case_cong)

section \<open>Signatures\<close>

text \<open>The flags for which the two interpreters test the same encodings.\<close>

definition sig_flags_agree :: "uint32 \<Rightarrow> bool" where
  "sig_flags_agree flags \<longleftrightarrow>
     flags AND (SCRIPT_VERIFY_DERSIG OR SCRIPT_VERIFY_LOW_S OR SCRIPT_VERIFY_STRICTENC) = 0 \<or>
     (flags AND SCRIPT_VERIFY_STRICTENC \<noteq> 0 \<and> flags AND SCRIPT_VERIFY_LOW_S \<noteq> 0)"

text \<open>
  The first interpreter counts a signature or public key that is not encoded as the network asks as a
  wrong signature when the flags do not make it end the script.  \<open>same_tests\<close>: the flags ask for the
  tests, or ask for none and the checker accepts no such signature.
\<close>

definition well_encoded_only :: "'e script_env_scheme \<Rightarrow> bool" where
  "well_encoded_only E \<longleftrightarrow> (\<forall>sig pk code. CheckSig E sig pk code \<longrightarrow>
     CheckSignatureEncoding (CheckLowS E) sig \<and> CheckPubKeyEncoding pk)"

definition same_tests :: "'e script_env_scheme \<Rightarrow> uint32 \<Rightarrow> bool" where
  "same_tests E flags \<longleftrightarrow>
     sig_flags_agree flags \<and> (flags AND SCRIPT_VERIFY_STRICTENC \<noteq> 0 \<or> well_encoded_only E)"

lemma sig_ok_eq:
  "same_tests E flags \<Longrightarrow> \<not> legacy_enc_abort E flags sig pk \<Longrightarrow> legacy_sig_ok E sig pk code = CheckSig E sig pk code"
  by (auto simp: same_tests_def well_encoded_only_def legacy_enc_abort_def legacy_sig_ok_def)

lemma flags_or_0:
  "flags AND (a OR b OR c) = 0 \<longleftrightarrow> flags AND a = 0 \<and> flags AND b = 0 \<and> flags AND (c :: uint32) = 0"
  by (simp add: bit.conj_disj_distrib or_eq_0_iff)

lemma enc_checks_eq:
  assumes "sig_flags_agree flags"
  shows "rbind (CheckSignatureEncoding2 (CheckLowS E) sig flags) (\<lambda>_.
           rbind (CheckPubKeyEncoding2 pk flags) f) = r \<Longrightarrow>
         forget r = (if legacy_enc_abort E flags sig pk then None else forget (f ()))"
proof -
  have "forget (CheckSignatureEncoding2 (CheckLowS E) sig flags) =
      (if flags AND SCRIPT_VERIFY_STRICTENC \<noteq> 0 \<and> \<not> CheckSignatureEncoding (CheckLowS E) sig
       then None else Some ())"
    using assms
    by (auto simp: sig_flags_agree_def CheckSignatureEncoding2_def CheckSignatureEncoding_def
        IsLowDERSignature_def IsLowDERSignature2_def flags_or_0)
  moreover have "forget (CheckPubKeyEncoding2 pk flags) =
      (if flags AND SCRIPT_VERIFY_STRICTENC \<noteq> 0 \<and> \<not> CheckPubKeyEncoding pk then None else Some ())"
    by (auto simp: CheckPubKeyEncoding2_def CheckPubKeyEncoding_def)
  ultimately show "rbind (CheckSignatureEncoding2 (CheckLowS E) sig flags) (\<lambda>_.
           rbind (CheckPubKeyEncoding2 pk flags) f) = r \<Longrightarrow>
         forget r = (if legacy_enc_abort E flags sig pk then None else forget (f ()))"
    by (auto simp: legacy_enc_abort_def)
qed

lemmas enc_checks = enc_checks_eq[OF _ refl]

lemma same_tests_flags: "same_tests E flags \<Longrightarrow> sig_flags_agree flags"
  by (simp add: same_tests_def)

lemma checksig_eq:
  assumes "same_tests E flags"
  shows "legacy_checksig E flags opcode st = forget (eval_checksig E flags opcode st)"
  using sig_ok_eq[OF assms]
  by (simp add: legacy_checksig_def eval_checksig_def Let_def forget_case enc_checks[OF same_tests_flags[OF assms]]
      del: forget_rbind cong: if_cong list.case_cong)

lemma multisig_loop_eq:
  assumes "same_tests E flags"
  shows "legacy_multisig_loop E flags code stack isig ikey nSigs nKeys =
    forget (multisig_loop E flags code stack isig ikey nSigs nKeys)"
  using assms
proof (induction E flags code stack isig ikey nSigs nKeys rule: legacy_multisig_loop.induct)
  case (1 E flags code stack isig ikey nSigs nKeys)
  show ?case
    using 1 sig_ok_eq[OF 1(2)]
    by (subst legacy_multisig_loop.simps, subst multisig_loop.simps)
      (simp add: Let_def forget_case enc_checks[OF same_tests_flags[OF 1(2)]] del: forget_rbind cong: if_cong)
qed

lemma hash_eq: "legacy_hash E pc opcode st = forget (eval_hash E pc opcode st)"
  by (simp add: legacy_hash_def eval_hash_def forget_case cong: if_cong list.case_cong)

section \<open>The interpreters\<close>

context documented_bignum
begin

lemma multisig_eq:
  assumes "same_tests E flags"
  shows "legacy_multisig B E flags opcode st =
    forget (eval_multisig E flags False opcode st)"
  by (simp add: legacy_multisig_def eval_multisig_def multisig_args_eq multisig_loop_eq[OF assms]
      multisig_finish_eq Let_def split_def)

lemma opcode_eq:
  assumes "same_tests E flags" "flags AND SCRIPT_VERIFY_MINIMALDATA = 0" "\<not> is_disabled opcode"
  shows "legacy_opcode B E flags fExec opcode pc st =
    forget (eval_opcode E flags fExec opcode pc st)"
proof -
  have "\<not> ((opcode \<ge> OP_CAT \<and> opcode \<le> OP_RIGHT) \<or> (opcode \<ge> OP_INVERT \<and> opcode \<le> OP_XOR))"
    using assms(3) unfolding is_disabled_def by presburger
  then show ?thesis
    using assms(2)
    by (simp only: legacy_opcode_def eval_opcode_def Let_def forget_if forget_simps push_eq control_eq
        stackop_eq size_equal_eq numeric_eq[OF assms(3)] hash_eq checksig_eq[OF assms(1)]
        multisig_eq[OF assms(1)] if_False simp_thms)
qed

lemma exec_eq:
  assumes "same_tests E flags" "flags AND SCRIPT_VERIFY_MINIMALDATA = 0" "\<not> is_disabled opcode"
  shows "forget (eval_exec E flags fExec opcode v pc st) =
    (if fExec \<and> opcode \<le> OP_PUSHDATA4 then Some (with_stack st (v # es_stack st))
     else if fExec \<or> (OP_IF \<le> opcode \<and> opcode \<le> OP_ENDIF)
     then legacy_opcode B E flags fExec opcode pc st
     else Some st)"
  using assms(2) by (simp only: eval_exec_def opcode_eq[OF assms] forget_if forget_simps simp_thms if_False)

lemma step_eq:
  assumes "same_tests E flags" "flags AND SCRIPT_VERIFY_MINIMALDATA = 0"
  shows "legacy_step B E flags opcode v pc st =
    forget (eval_step E flags opcode v pc st)"
proof (cases "is_disabled opcode")
  case True
  then show ?thesis by (simp add: legacy_step_def eval_step_def Let_def)
next
  case False
  then show ?thesis
    by (simp only: legacy_step_def eval_step_def Let_def forget_if forget_simps forget_rbind
        exec_eq[OF assms False])
qed

lemma loop_eq:
  assumes "same_tests E flags" "flags AND SCRIPT_VERIFY_MINIMALDATA = 0"
  shows "legacy_loop B E flags pc st = forget (eval_loop E flags pc st)"
  using assms
proof (induction "length pc" arbitrary: pc st rule: less_induct)
  case less
  show ?case
  proof (cases "GetOp2 pc")
    case None
    then show ?thesis by (subst legacy_loop.simps, subst eval_loop.simps) simp
  next
    case (Some r)
    obtain opcode v pc' where r: "r = (opcode, v, pc')" by (cases r) auto
    have "length pc' < length pc" using Some r GetOp2_shorter by blast
    then have IH: "legacy_loop B E flags pc' st = forget (eval_loop E flags pc' st)" for st
      using less by blast
    then have "legacy_loop B E flags pc' = (\<lambda>st. forget (eval_loop E flags pc' st))"
      by blast
    then show ?thesis using Some r less.prems
      by (subst legacy_loop.simps, subst eval_loop.simps) (simp add: step_eq)
  qed
qed

lemma EvalScript_eq:
  assumes "same_tests E flags" "flags AND SCRIPT_VERIFY_MINIMALDATA = 0"
  shows "LegacyEvalScript B E flags stack script = forget (EvalScript E flags stack script)"
  by (simp only: LegacyEvalScript_def EvalScript_def loop_eq[OF assms] forget_if forget_simps forget_rbind)

end

text \<open>Without flags the interpreters differ on a signature that is accepted and not well encoded.\<close>

lemma checksig_differs:
  assumes "CheckSig E sig pk [0xac]" "snd (FindAndDelete [0xac] (push_data sig [])) = [0xac]"
    "\<not> (CheckSignatureEncoding (CheckLowS E) sig \<and> CheckPubKeyEncoding pk)"
  shows "LegacyEvalScript B E 0 [pk, sig] [0xac] = Some [bool_item False] \<and>
    EvalScript E 0 [pk, sig] [0xac] = Inr [bool_item True]"
proof -
  have op: "GetOp2 [0xac] = Some (OP_CHECKSIG, [], [])" by code_simp
  have l: "legacy_sig_ok E sig pk [0xac] = False" "\<not> legacy_enc_abort E 0 sig pk"
    using assms(3) by (auto simp: legacy_sig_ok_def legacy_enc_abort_def)
  have e: "CheckSignatureEncoding2 (CheckLowS E) sig 0 = Inr ()" "CheckPubKeyEncoding2 pk 0 = Inr ()"
    by (simp_all add: CheckSignatureEncoding2_def CheckPubKeyEncoding2_def)
  show ?thesis using assms(1,2) l e
    by (simp add: LegacyEvalScript_def EvalScript_def legacy_loop.simps[of _ _ _ "[0xac]"] eval_loop.simps[of _ _ "[0xac]"]
        legacy_loop.simps[of _ _ _ "[]"] eval_loop.simps[of _ _ "[]"] op eval_init_def)
      (simp add: legacy_step_def eval_step_def eval_exec_def count_op_def is_disabled_def MAX_SCRIPT_ELEMENT_SIZE_def
        legacy_opcode_def eval_opcode_def legacy_checksig_def eval_checksig_def Let_def legacy_loop.simps[of _ _ _ "[]"] eval_loop.simps[of _ _ "[]"])
qed

text \<open>A library that writes exactly the documented format.\<close>

definition reference_bn :: bn_lib where
  "reference_bn =
     \<lparr>bn2mpi = (\<lambda>n. let v = scriptnum_serialize n in mpi_length (length v) @ rev v),
      mpi2bn = (\<lambda>v. sm_val (rev (drop 4 v)))\<rparr>"

lemma reference_documented: "bn_documented reference_bn"
  unfolding bn_documented_def mpi_documented_def
proof (intro conjI allI impI)
  show "\<exists>body. bn2mpi reference_bn n = mpi_length (length body) @ body \<and>
      sm_val (rev body) = n \<and> sm_minimal (rev body)" for n
    by (rule exI[of _ "rev (scriptnum_serialize n)"])
      (simp add: reference_bn_def Let_def serialize_val serialize_minimal)
  show "mpi2bn reference_bn (mpi_length (length body) @ body) = sm_val (rev body)" for body
    by (simp add: reference_bn_def mpi_length_def)
qed

interpretation ref_bn: documented_bignum reference_bn
  by unfold_locales (rule reference_documented)

section \<open>Properties\<close>

text \<open> C10.
  The two script interpreters, run with the same signature checker, compute the same stacks in two cases:
  when the flags ask for strict encodings with low \<open>S\<close>, and when they ask for no test of encodings and the
  checker accepts only well-encoded signatures and keys.  Then, if no minimal encoding is demanded, the
  \<open>CBigNum\<close> interpreter returns \<open>false\<close> exactly when the flag-driven one fails, and otherwise leaves the same
  stack, for every script, initial stack and hash functions.  Without flags, a checker that accepts a badly
  encoded signature tells them apart: the first interpreter then leaves false, the second true.
\<close>

theorem interpreters_agree:
  assumes "bn_documented B" "flags AND SCRIPT_VERIFY_MINIMALDATA = 0"
  shows "(same_tests E flags \<longrightarrow> LegacyEvalScript B E flags stack script = forget (EvalScript E flags stack script)) \<and>
    (CheckSig E sig pk [0xac] \<and> snd (FindAndDelete [0xac] (push_data sig [])) = [0xac] \<and>
       \<not> (CheckSignatureEncoding (CheckLowS E) sig \<and> CheckPubKeyEncoding pk) \<longrightarrow>
     LegacyEvalScript B E 0 [pk, sig] [0xac] = Some [bool_item False] \<and>
     EvalScript E 0 [pk, sig] [0xac] = Inr [bool_item True])"
  using documented_bignum.EvalScript_eq[OF documented_bignum.intro[OF assms(1)] _ assms(2), of E stack script]
    checksig_differs[of E sig pk B] by blast

text \<open>\<open>2 3 ADD\<close> through both, and a signature without an encoding.\<close>

definition no_crypto :: script_env where
  "no_crypto = \<lparr>RIPEMD160 = id, SHA1 = id, SHA256 = id, HASH160 = id, HASH256 = id,
     CheckLowS = (\<lambda>_. True), CheckSig = (\<lambda>_ _ _. False)\<rparr>"

lemma interpreters_agree_witness:
  "LegacyEvalScript reference_bn no_crypto 0 [] [0x52, 0x53, 0x93] = Some [[5]] \<and>
   LegacyEvalScript reference_bn (no_crypto\<lparr>CheckSig := \<lambda>_ _ _. True\<rparr>) 0 [[3], [4]] [0xac] = Some [bool_item False]"
proof -
  have "EvalScript no_crypto 0 [] [0x52, 0x53, 0x93] = Inr [[5]]" by code_simp
  moreover have "same_tests no_crypto 0"
    by (simp add: same_tests_def sig_flags_agree_def well_encoded_only_def no_crypto_def)
  moreover have "snd (FindAndDelete [0xac] (push_data [4] [])) = [0xac]" by code_simp
  moreover have "\<not> CheckPubKeyEncoding [3]" by code_simp
  ultimately show ?thesis
    using interpreters_agree[OF reference_documented, of 0 no_crypto "[]" "[0x52, 0x53, 0x93]"]
      interpreters_agree[OF reference_documented, of 0 "no_crypto\<lparr>CheckSig := \<lambda>_ _ _. True\<rparr>" "[]" "[]" "[4]" "[3]"]
    by simp
qed

end
