(* ===== verification/ScriptFlags.thy ===== *)
theory ScriptFlags
  imports InterpInv
begin

text \<open>
  Verification flags only tighten the flag-driven interpreter: a run that succeeds under some
  flags leaves the same stack under any subset of them.  This is what makes a new flag a soft
  restriction of the rules.
\<close>

section \<open>Results that differ only by failing\<close>

definition tighter :: "'e + 'a \<Rightarrow> 'e + 'a \<Rightarrow> bool" where
  "tighter r r' \<longleftrightarrow> (case r of Inl e \<Rightarrow> True | Inr x \<Rightarrow> r' = Inr x)"

lemma tighter_simps [simp]: "tighter (Inl e) r" "tighter (Inr x) r = (r = Inr x)" "tighter r r"
  by (auto simp: tighter_def split: sum.splits)

lemma tighter_unit: "tighter r (Inr ())"
  by (cases r) auto

lemma tighter_rbind:
  "tighter r r' \<Longrightarrow> (\<And>x. r = Inr x \<Longrightarrow> tighter (f x) (f' x)) \<Longrightarrow> tighter (rbind r f) (rbind r' f')"
  by (cases r) (auto simp: tighter_def)

lemma tighter_if:
  "(c \<Longrightarrow> tighter a a') \<Longrightarrow> (\<not> c \<Longrightarrow> tighter b b') \<Longrightarrow>
   tighter (if c then a else b) (if c then a' else b')"
  by simp

lemma tighter_guard:
  "(c' \<Longrightarrow> c) \<Longrightarrow> (\<not> c \<Longrightarrow> tighter a a') \<Longrightarrow>
   tighter (if c then Inl e else a) (if c' then Inl e' else a')"
  by simp

definition flags_subset :: "uint32 \<Rightarrow> uint32 \<Rightarrow> bool" where
  "flags_subset f g \<longleftrightarrow> f AND g = f"

lemma flags_subset_bit: "flags_subset f g \<Longrightarrow> f AND m \<noteq> 0 \<Longrightarrow> g AND m \<noteq> 0"
  unfolding flags_subset_def by (metis and.assoc and_zero_eq)

lemma flags_subset_bit0: "flags_subset f g \<Longrightarrow> g AND m = 0 \<Longrightarrow> f AND m = 0"
  using flags_subset_bit by blast

section \<open>Instructions\<close>

lemma tighter_script_num: "(fReq' \<longrightarrow> fReq) \<Longrightarrow> tighter (script_num fReq v) (script_num fReq' v)"
  by (auto simp: script_num_def tighter_def CScriptNum_def)

lemma tighter_control:
  "flags_subset f g \<Longrightarrow> tighter (eval_control g fExec opcode st) (eval_control f fExec opcode st)"
  by (auto simp: eval_control_def flags_subset_bit0 split: if_splits)

lemma tighter_stackop:
  "(fReq' \<longrightarrow> fReq) \<Longrightarrow> tighter (eval_stackop fReq opcode st) (eval_stackop fReq' opcode st)"
  unfolding eval_stackop_def Let_def
  by (intro tighter_if tighter_rbind tighter_script_num tighter_simps(3)) auto

lemma tighter_numeric:
  "(fReq' \<longrightarrow> fReq) \<Longrightarrow> tighter (eval_numeric fReq opcode st) (eval_numeric fReq' opcode st)"
  unfolding eval_numeric_def Let_def
  by (intro tighter_if)
    (auto intro!: tighter_rbind tighter_script_num split: list.split)

lemma tighter_sigenc:
  "flags_subset f g \<Longrightarrow>
   tighter (CheckSignatureEncoding2 C sig g) (CheckSignatureEncoding2 C sig f)"
  unfolding CheckSignatureEncoding2_def
  by (intro tighter_guard tighter_rbind)
    (auto simp: flags_subset_bit0 dest: flags_subset_bit intro: tighter_unit)

lemma tighter_pkenc:
  "flags_subset f g \<Longrightarrow> tighter (CheckPubKeyEncoding2 pk g) (CheckPubKeyEncoding2 pk f)"
  by (auto simp: CheckPubKeyEncoding2_def flags_subset_bit0)

lemma tighter_checksig:
  "flags_subset f g \<Longrightarrow> tighter (eval_checksig E g opcode st) (eval_checksig E f opcode st)"
  unfolding eval_checksig_def Let_def
  by (auto intro!: tighter_rbind tighter_sigenc tighter_pkenc split: list.split)

lemma tighter_multisig_loop:
  "flags_subset f g \<Longrightarrow>
   tighter (multisig_loop E g code stack isig ikey nSigs nKeys)
     (multisig_loop E f code stack isig ikey nSigs nKeys)"
proof (induction E g code stack isig ikey nSigs nKeys rule: multisig_loop.induct)
  case (1 E g code stack isig ikey nSigs nKeys)
  show ?case
    by (subst multisig_loop.simps, subst (2) multisig_loop.simps, unfold Let_def)
      (rule tighter_if, rule tighter_rbind[OF tighter_sigenc[OF 1(2)]],
        rule tighter_rbind[OF tighter_pkenc[OF 1(2)]], rule tighter_if,
        simp, rule 1(1)[OF _ refl refl _ _ refl refl refl refl], simp_all add: 1(2))
qed

lemma tighter_multisig_args:
  "(fReq' \<longrightarrow> fReq) \<Longrightarrow> tighter (multisig_args fReq st) (multisig_args fReq' st)"
  unfolding multisig_args_def Let_def
  by (intro tighter_if tighter_rbind tighter_script_num tighter_simps(3)) auto

lemma tighter_multisig_finish:
  "flags_subset f g \<Longrightarrow> tighter (multisig_finish g opcode i b st) (multisig_finish f opcode i b st)"
  by (auto simp: multisig_finish_def flags_subset_bit0 split: list.split)

lemma tighter_multisig:
  assumes "flags_subset f g" "fReq' \<longrightarrow> fReq"
  shows "tighter (eval_multisig E g fReq opcode st) (eval_multisig E f fReq' opcode st)"
  unfolding eval_multisig_def Let_def split_def
  by (intro tighter_rbind tighter_multisig_args tighter_multisig_loop tighter_multisig_finish assms)

lemma tighter_opcode:
  assumes "flags_subset f g"
  shows "tighter (eval_opcode E g fExec opcode pc st) (eval_opcode E f fExec opcode pc st)"
proof -
  have "f AND SCRIPT_VERIFY_MINIMALDATA \<noteq> 0 \<longrightarrow> g AND SCRIPT_VERIFY_MINIMALDATA \<noteq> 0"
    using flags_subset_bit[OF assms] by blast
  then show ?thesis
    unfolding eval_opcode_def Let_def
    by (intro tighter_if tighter_simps(3) tighter_control tighter_stackop tighter_numeric
        tighter_checksig tighter_multisig assms)
qed

section \<open>Runs\<close>

lemma tighter_exec:
  "flags_subset f g \<Longrightarrow>
   tighter (eval_exec E g fExec opcode v pc st) (eval_exec E f fExec opcode v pc st)"
  by (auto simp: eval_exec_def flags_subset_bit0 intro: tighter_opcode)

lemma tighter_step:
  "flags_subset f g \<Longrightarrow> tighter (eval_step E g opcode v pc st) (eval_step E f opcode v pc st)"
  unfolding eval_step_def Let_def
  by (intro tighter_if tighter_rbind tighter_exec tighter_simps(3))

lemma tighter_loop:
  "flags_subset f g \<Longrightarrow> tighter (eval_loop E g pc st) (eval_loop E f pc st)"
proof (induction "length pc" arbitrary: pc st rule: less_induct)
  case less
  show ?case
  proof (cases "GetOp2 pc")
    case None
    then show ?thesis by (subst (1 2) eval_loop.simps) simp
  next
    case (Some r)
    obtain opcode v pc' where r: "r = (opcode, v, pc')" by (cases r) auto
    have "length pc' < length pc" using Some r GetOp2_shorter by blast
    then show ?thesis using Some r less
      by (subst (1 2) eval_loop.simps) (auto intro!: tighter_rbind tighter_step)
  qed
qed

lemma tighter_EvalScript:
  "flags_subset f g \<Longrightarrow> tighter (EvalScript E g stack script) (EvalScript E f stack script)"
  unfolding EvalScript_def
  by (intro tighter_if tighter_rbind tighter_loop tighter_simps(3))

end
