(* ===== verification/ScriptVerify.thy ===== *)
theory ScriptVerify
  imports InterpEquiv ScriptFlags
begin

text \<open>
  The two functions \<open>VerifyScript\<close> of \<open>src/src/script.cpp\<close>: the input script, the output
  script on the stack it leaves, and for pay-to-script-hash outputs the script that the input
  pushed last.  A read of \<open>stackCopy.back()\<close> on an empty vector (in one of them an assertion
  guards it) is the outcome \<open>None\<close>; \<open>VerifyScript_total\<close> shows that it cannot happen.
\<close>

section \<open>Verification\<close>

definition stack_true :: "bytes list \<Rightarrow> ScriptError + unit" where
  "stack_true stack =
     (case stack of
        [] \<Rightarrow> Inl SCRIPT_ERR_EVAL_FALSE
      | v # _ \<Rightarrow> if CastToBool v = False then Inl SCRIPT_ERR_EVAL_FALSE else Inr ())"

definition VerifyP2SH ::
  "'e script_env_scheme \<Rightarrow> uint32 \<Rightarrow> script \<Rightarrow> bytes list \<Rightarrow> (ScriptError + unit) option" where
  "VerifyP2SH E flags sSig stackCopy =
     (if \<not> IsPushOnly sSig then Some (Inl SCRIPT_ERR_SIG_PUSHONLY)
      else case stackCopy of
             [] \<Rightarrow> None
           | pubKey2 # stackCopy \<Rightarrow>
               Some (rbind (EvalScript E flags stackCopy pubKey2) stack_true))"

definition VerifyScript ::
  "'e script_env_scheme \<Rightarrow> uint32 \<Rightarrow> script \<Rightarrow> script \<Rightarrow> (ScriptError + unit) option" where
  "VerifyScript E flags sSig sPub =
     (if flags AND SCRIPT_VERIFY_SIGPUSHONLY \<noteq> 0 \<and> \<not> IsPushOnly sSig
      then Some (Inl SCRIPT_ERR_SIG_PUSHONLY)
      else case EvalScript E flags [] sSig of
             Inl e \<Rightarrow> Some (Inl e)
           | Inr stack \<Rightarrow>
               let stackCopy = (if flags AND SCRIPT_VERIFY_P2SH \<noteq> 0 then stack else [])
               in case rbind (EvalScript E flags stack sPub) stack_true of
                    Inl e \<Rightarrow> Some (Inl e)
                  | Inr _ \<Rightarrow>
                      if flags AND SCRIPT_VERIFY_P2SH \<noteq> 0 \<and> IsPayToScriptHash sPub
                      then VerifyP2SH E flags sSig stackCopy
                      else Some (Inr ()))"

definition LegacyStackTrue :: "bytes list \<Rightarrow> bool" where
  "LegacyStackTrue stack = (case stack of [] \<Rightarrow> False | v # _ \<Rightarrow> CastToBool v)"

definition LegacyVerifyScript ::
  "bn_lib \<Rightarrow> 'e script_env_scheme \<Rightarrow> uint32 \<Rightarrow> script \<Rightarrow> script \<Rightarrow> bool option" where
  "LegacyVerifyScript B E flags sSig sPub =
     (case LegacyEvalScript B E flags [] sSig of
        None \<Rightarrow> Some False
      | Some stackCopy \<Rightarrow>
          (case LegacyEvalScript B E flags stackCopy sPub of
             None \<Rightarrow> Some False
           | Some stack \<Rightarrow>
               if \<not> LegacyStackTrue stack then Some False
               else if IsPayToScriptHash sPub then
                 (if \<not> IsPushOnly sSig then Some False
                  else case stackCopy of
                         [] \<Rightarrow> None
                       | pubKey2 # stackCopy \<Rightarrow>
                           (case LegacyEvalScript B E flags stackCopy pubKey2 of
                              None \<Rightarrow> Some False
                            | Some stack2 \<Rightarrow> Some (LegacyStackTrue stack2)))
               else Some True))"

section \<open>The copy of the stack is not empty\<close>

lemma GetOp2_HASH160: "unat b = OP_HASH160 \<Longrightarrow> GetOp2 (b # pc) = Some (OP_HASH160, [], pc)"
  by (simp add: GetOp2_def)

lemma P2SH_empty_stack:
  assumes "IsPayToScriptHash s"
  shows "\<exists>e. EvalScript E flags [] s = Inl e"
proof -
  obtain b pc where s: "s = b # pc" and b: "unat b = OP_HASH160"
    using assms by (cases s) (auto simp: IsPayToScriptHash_def)
  have "eval_step E flags OP_HASH160 [] pc (eval_init [] s) = Inl SCRIPT_ERR_INVALID_STACK_OPERATION"
    by (simp add: eval_step_def eval_exec_def eval_opcode_def eval_hash_def count_op_def eval_init_def
        is_disabled_def Let_def)
  then show ?thesis
    using assms by (simp add: EvalScript_def IsPayToScriptHash_def, subst eval_loop.simps)
      (simp add: s GetOp2_HASH160[OF b])
qed

lemma VerifyScript_total: "VerifyScript E flags sSig sPub \<noteq> None"
proof -
  have "EvalScript E flags [] sPub \<noteq> Inr s" if "IsPayToScriptHash sPub" for s
    using P2SH_empty_stack[OF that, of E flags] by auto
  then show ?thesis
    by (auto simp: VerifyScript_def VerifyP2SH_def Let_def rbind_Inr_iff split: sum.splits list.splits)
qed

section \<open>The two functions agree\<close>

lemma LegacyStackTrue_eq: "LegacyStackTrue s = (stack_true s = Inr ())"
  by (simp add: LegacyStackTrue_def stack_true_def split: list.split)

lemma stack_true_legacy: "stack_true s = Inr u \<longleftrightarrow> LegacyStackTrue s"
  by (simp add: LegacyStackTrue_def stack_true_def split: list.split)

lemma stack_true_forget: "LegacyStackTrue s \<longleftrightarrow> forget (stack_true s) = Some ()"
  by (simp add: forget_Some_iff LegacyStackTrue_eq)

definition accepts :: "ScriptError + unit \<Rightarrow> bool" where
  "accepts r = (case r of Inl e \<Rightarrow> False | Inr _ \<Rightarrow> True)"

lemma accepts_simps [simp]: "\<not> accepts (Inl e)" "accepts (Inr u)" "accepts (stack_true s) = LegacyStackTrue s"
  by (auto simp: accepts_def LegacyStackTrue_def stack_true_def split: list.split)

lemma case_forget: "(case forget r of None \<Rightarrow> a | Some x \<Rightarrow> f x) = (case r of Inl e \<Rightarrow> a | Inr x \<Rightarrow> f x)"
  by (cases r) auto

lemma case_rbind: "(case rbind r f of Inl e \<Rightarrow> a e | Inr x \<Rightarrow> b x) =
  (case r of Inl e \<Rightarrow> a e | Inr y \<Rightarrow> (case f y of Inl e \<Rightarrow> a e | Inr x \<Rightarrow> b x))"
  by (cases r) auto

lemma case_stack_true:
  "(case stack_true s of Inl e \<Rightarrow> a e | Inr x \<Rightarrow> b x) =
   (if LegacyStackTrue s then b () else a SCRIPT_ERR_EVAL_FALSE)"
  by (auto simp: LegacyStackTrue_def stack_true_def split: list.split)

lemma accepts_rbind: "accepts (rbind r f) = (case r of Inl e \<Rightarrow> False | Inr x \<Rightarrow> accepts (f x))"
  by (cases r) auto

lemma Verify_legacy:
  assumes B: "bn_documented B" and f: "same_tests E flags" "flags AND SCRIPT_VERIFY_MINIMALDATA = 0"
    and p2sh: "flags AND SCRIPT_VERIFY_P2SH \<noteq> 0" and "flags AND SCRIPT_VERIFY_SIGPUSHONLY = 0"
  shows "LegacyVerifyScript B E flags sSig sPub =
    map_option accepts (VerifyScript E flags sSig sPub)"
proof -
  have ev: "LegacyEvalScript B E flags stack script = forget (EvalScript E flags stack script)"
    for stack script
    by (rule documented_bignum.EvalScript_eq[OF documented_bignum.intro[OF B] f])
  show ?thesis
    using p2sh assms(5)
    by (auto simp: LegacyVerifyScript_def VerifyScript_def VerifyP2SH_def ev Let_def case_forget
        case_rbind case_stack_true accepts_rbind split: sum.split list.split)
qed

section \<open>Flags only tighten verification\<close>

lemma tighter_verify:
  assumes fg: "flags_subset f g" and g: "VerifyScript E g sSig sPub = Some (Inr ())"
  shows "VerifyScript E f sSig sPub = Some (Inr ())"
proof -
  have up: "EvalScript E g stack script = Inr x \<Longrightarrow> EvalScript E f stack script = Inr x" for stack script x
    using tighter_EvalScript[OF fg, of E stack script] by simp
  show ?thesis
    using g
    by (auto simp: VerifyScript_def VerifyP2SH_def Let_def rbind_Inr_iff flags_subset_bit0[OF fg]
        dest!: up dest: flags_subset_bit[OF fg] split: if_splits sum.splits list.splits)
qed

section \<open>Spending to a public key hash\<close>

text \<open>The script \<open>DUP HASH160 h EQUALVERIFY CHECKSIG\<close> of an address.\<close>

definition p2pkh :: "bytes \<Rightarrow> script" where
  "p2pkh h = [0x76, 0xa9, 0x14] @ h @ [0x88, 0xac]"

lemma GetOp2_20: "length h = 20 \<Longrightarrow> GetOp2 (0x14 # h @ rest) = Some (20, h, rest)"
  by (simp add: GetOp2_def)

lemma push_data_not_op: "78 < unat b \<Longrightarrow> push_data v [] \<noteq> [b]"
  by (auto simp: push_data_def unat_small_byte)

lemma push_data_20: "push_data v [] = 0x14 # h \<Longrightarrow> length h = 20 \<Longrightarrow> v = h"
proof -
  assume p: "push_data v [] = 0x14 # h" and h: "length h = 20"
  show "v = h"
  proof (cases "length v < 76")
    case True
    then show ?thesis using p by (simp add: push_data_def)
  next
    case False
    then have "length (push_data v []) > 21" by (simp add: push_data_def)
    then show ?thesis using p h by simp
  qed
qed

lemma chunks_p2pkh: "length h = 20 \<Longrightarrow> chunks (p2pkh h) = ([[0x76], [0xa9], 0x14 # h, [0x88], [0xac]], [])"
  by (simp add: p2pkh_def chunks.simps GetOp2_nonpush GetOp2_20)

lemma FindAndDelete_p2pkh:
  assumes "length h = 20" "v \<noteq> h" "length v < 2 ^ 32"
  shows "FindAndDelete (p2pkh h) (push_data v []) = (0, p2pkh h)"
proof -
  have "push_data v [] \<noteq> 0x14 # h" using push_data_20 assms by blast
  moreover have "concat [[0x76], [0xa9], 0x14 # h, [0x88], [0xac]] = p2pkh h" by (simp add: p2pkh_def)
  ultimately show ?thesis
    using push_data_not_op[of "0x76" v] push_data_not_op[of "0xa9" v] push_data_not_op[of "0x88" v]
      push_data_not_op[of "0xac" v]
    by (simp add: FindAndDelete_instruction[OF push_data_instruction[OF assms(3)]]
        delete_instruction_def chunks_p2pkh[OF assms(1)])
qed

lemma eval_loop_step:
  "GetOp2 pc = Some (opcode, v, pc') \<Longrightarrow>
   eval_loop E flags pc st = rbind (eval_step E flags opcode v pc' st) (eval_loop E flags pc')"
  by (subst eval_loop.simps) auto

lemma eval_step_push:
  assumes "opcode \<le> OP_PUSHDATA4" "length v \<le> MAX_SCRIPT_ELEMENT_SIZE" "list_all id (es_vfExec st)"
    and "flags AND SCRIPT_VERIFY_MINIMALDATA = 0" "length (es_stack st) + length (es_altstack st) < 1000"
  shows "eval_step E flags opcode v pc st = Inr (with_stack st (v # es_stack st))"
  using assms by (simp add: eval_step_def eval_exec_def count_op_def is_disabled_def Let_def)

lemma push_data_nonempty: "push_data v s \<noteq> []"
  by (simp add: push_data_def)

lemma eval_loop_push_data:
  assumes "length v \<le> MAX_SCRIPT_ELEMENT_SIZE" "list_all id (es_vfExec st)"
    and "flags AND SCRIPT_VERIFY_MINIMALDATA = 0" "length (es_stack st) + length (es_altstack st) < 1000"
  shows "eval_loop E flags (push_data v [] @ pc) st = eval_loop E flags pc (with_stack st (v # es_stack st))"
proof -
  have "length v < 2 ^ 32" using assms(1) by (simp add: MAX_SCRIPT_ELEMENT_SIZE_def)
  then obtain opcode where o: "opcode \<le> OP_PUSHDATA4" "GetOp2 (push_data v [] @ pc) = Some (opcode, v, pc)"
    using GetOp2_push_data by blast
  show ?thesis
    by (subst eval_loop.simps) (simp add: o(2) eval_step_push[OF o(1) assms] push_data_nonempty)
qed

lemma push_data_append: "push_data v s = s @ push_data v []"
  by (simp add: push_data_def)

lemma eval_p2pkh_sig:
  assumes "length sig \<le> MAX_SCRIPT_ELEMENT_SIZE" "length pk \<le> MAX_SCRIPT_ELEMENT_SIZE"
    and "flags AND SCRIPT_VERIFY_MINIMALDATA = 0"
  shows "EvalScript E flags [] (push_data pk (push_data sig [])) = Inr [pk, sig]"
proof -
  have "length (push_data pk (push_data sig [])) \<le> 10000"
    using assms(1,2) by (simp add: push_data_def MAX_SCRIPT_ELEMENT_SIZE_def)
  then show ?thesis
    using eval_loop_push_data[OF assms(1) _ assms(3), of "eval_init [] s" E "push_data pk []" for s]
      eval_loop_push_data[OF assms(2) _ assms(3), of "with_stack (eval_init [] s) [sig]" E "[]" for s]
    by (simp add: EvalScript_def push_data_append[of pk "push_data sig []"] eval_init_def
        eval_loop.simps[of _ _ "[]"])
qed

lemma eval_p2pkh_pub:
  assumes "length sig \<le> MAX_SCRIPT_ELEMENT_SIZE" "sig \<noteq> h" "length h = 20"
    and "flags AND SCRIPT_VERIFY_MINIMALDATA = 0"
  shows "EvalScript E flags [pk, sig] (p2pkh h) =
    (if HASH160 E pk \<noteq> h then Inl SCRIPT_ERR_EQUALVERIFY
     else rbind (CheckSignatureEncoding2 (CheckLowS E) sig flags) (\<lambda>_.
          rbind (CheckPubKeyEncoding2 pk flags) (\<lambda>_.
            Inr [bool_item (CheckSig E sig pk (p2pkh h))])))"
proof -
  have l: "length sig < 2 ^ 32" using assms(1) by (simp add: MAX_SCRIPT_ELEMENT_SIZE_def)
  let ?st = "\<lambda>s n. \<lparr>es_stack = s, es_altstack = [], es_vfExec = [], es_nOpCount = n,
    es_codehash = p2pkh h\<rparr>"
  have 1: "eval_step E flags 0x76 [] pc (?st [pk, sig] 0) = Inr (?st [pk, pk, sig] 1)" for pc
    by (simp add: eval_step_def eval_exec_def eval_opcode_def eval_stackop_def count_op_def
        is_disabled_def MAX_SCRIPT_ELEMENT_SIZE_def)
  have 2: "eval_step E flags 0xa9 [] pc (?st [pk, pk, sig] 1) = Inr (?st [HASH160 E pk, pk, sig] 2)" for pc
    by (simp add: eval_step_def eval_exec_def eval_opcode_def eval_hash_def hash_item_def count_op_def
        is_disabled_def MAX_SCRIPT_ELEMENT_SIZE_def)
  have 3: "eval_step E flags 20 h pc (?st s 2) = Inr (?st (h # s) 2)" if "length s < 1000" for pc s
    using eval_step_push[of 20 h "?st s 2" flags E pc] assms(3,4) that
    by (simp add: MAX_SCRIPT_ELEMENT_SIZE_def)
  have 4: "eval_step E flags 0x88 [] pc (?st [h, HASH160 E pk, pk, sig] 2) =
      (if HASH160 E pk \<noteq> h then Inl SCRIPT_ERR_EQUALVERIFY else Inr (?st [pk, sig] 3))" for pc
    by (simp add: eval_step_def eval_exec_def eval_opcode_def eval_size_equal_def count_op_def
        is_disabled_def MAX_SCRIPT_ELEMENT_SIZE_def)
  have 5: "eval_step E flags 0xac [] pc (?st [pk, sig] 3) =
      rbind (CheckSignatureEncoding2 (CheckLowS E) sig flags) (\<lambda>_.
      rbind (CheckPubKeyEncoding2 pk flags) (\<lambda>_.
        Inr (?st [bool_item (CheckSig E sig pk (p2pkh h))] 4)))" for pc
    by (cases "CheckSignatureEncoding2 (CheckLowS E) sig flags"; cases "CheckPubKeyEncoding2 pk flags")
      (simp_all add: eval_step_def eval_exec_def eval_opcode_def eval_checksig_def count_op_def
        is_disabled_def MAX_SCRIPT_ELEMENT_SIZE_def FindAndDelete_p2pkh[OF assms(3,2) l])
  note at = eval_loop_step[OF GetOp2_nonpush]
  have run: "eval_loop E flags (p2pkh h) (?st [pk, sig] 0) =
      (if HASH160 E pk \<noteq> h then Inl SCRIPT_ERR_EQUALVERIFY
       else eval_loop E flags [0xac] (?st [pk, sig] 3))"
  proof -
    have "eval_loop E flags ([0x76, 0xa9, 0x14] @ h @ [0x88, 0xac]) (?st [pk, sig] 0) =
        eval_loop E flags (0xa9 # 0x14 # h @ [0x88, 0xac]) (?st [pk, pk, sig] 1)"
      using 1 by (simp add: at)
    also have "\<dots> = eval_loop E flags (0x14 # h @ [0x88, 0xac]) (?st [HASH160 E pk, pk, sig] 2)"
      using 2 by (simp add: at)
    also have "\<dots> = eval_loop E flags [0x88, 0xac] (?st [h, HASH160 E pk, pk, sig] 2)"
      using 3 by (simp add: eval_loop_step[OF GetOp2_20[OF assms(3)]])
    also have "\<dots> = (if HASH160 E pk \<noteq> h then Inl SCRIPT_ERR_EQUALVERIFY
        else eval_loop E flags [0xac] (?st [pk, sig] 3))"
      using 4 by (simp add: at)
    finally show ?thesis by (simp only: p2pkh_def[symmetric])
  qed
  have last: "eval_loop E flags [0xac] (?st [pk, sig] 3) =
      rbind (CheckSignatureEncoding2 (CheckLowS E) sig flags) (\<lambda>_.
      rbind (CheckPubKeyEncoding2 pk flags) (\<lambda>_.
        Inr (?st [bool_item (CheckSig E sig pk (p2pkh h))] 4)))"
    by (subst eval_loop.simps)
      (cases "CheckSignatureEncoding2 (CheckLowS E) sig flags"; cases "CheckPubKeyEncoding2 pk flags";
        simp add: GetOp2_nonpush 5 eval_loop.simps[of _ _ "[]"])
  show ?thesis
    by (cases "CheckSignatureEncoding2 (CheckLowS E) sig flags"; cases "CheckPubKeyEncoding2 pk flags")
      (simp_all add: EvalScript_def eval_init_def run last, simp_all add: p2pkh_def assms(3))
qed

lemma IsPushOnly_push_data:
  assumes "length v < 2 ^ 32"
  shows "IsPushOnly (push_data v [] @ pc) = IsPushOnly pc"
proof -
  obtain opcode where o: "opcode \<le> OP_PUSHDATA4" "GetOp2 (push_data v [] @ pc) = Some (opcode, v, pc)"
    using GetOp2_push_data assms by blast
  then show ?thesis by (subst IsPushOnly.simps) (simp add: push_data_nonempty)
qed

lemma IsPushOnly_p2pkh_sig:
  assumes "length sig \<le> MAX_SCRIPT_ELEMENT_SIZE" "length pk \<le> MAX_SCRIPT_ELEMENT_SIZE"
  shows "IsPushOnly (push_data pk (push_data sig []))"
  using assms IsPushOnly_push_data[of sig "push_data pk []"] IsPushOnly_push_data[of pk "[]"]
  by (simp add: push_data_append[of pk "push_data sig []"] MAX_SCRIPT_ELEMENT_SIZE_def IsPushOnly.simps[of "[]"])

lemma bool_item_true: "LegacyStackTrue [bool_item b] = b"
  by (simp add: LegacyStackTrue_def bool_item_def vchTrue_def vchFalse_def)

lemma stack_true_item: "stack_true [bool_item b] = (if b then Inr () else Inl SCRIPT_ERR_EVAL_FALSE)"
  by (simp add: stack_true_def bool_item_def vchTrue_def vchFalse_def)

lemma p2pkh_spend:
  assumes "length sig \<le> MAX_SCRIPT_ELEMENT_SIZE" "length pk \<le> MAX_SCRIPT_ELEMENT_SIZE"
    and "length h = 20" "sig \<noteq> h" "flags AND SCRIPT_VERIFY_MINIMALDATA = 0"
  shows "VerifyScript E flags (push_data pk (push_data sig [])) (p2pkh h) =
    Some (if HASH160 E pk \<noteq> h then Inl SCRIPT_ERR_EQUALVERIFY
          else rbind (CheckSignatureEncoding2 (CheckLowS E) sig flags) (\<lambda>_.
               rbind (CheckPubKeyEncoding2 pk flags) (\<lambda>_.
                 if CheckSig E sig pk (p2pkh h) then Inr () else Inl SCRIPT_ERR_EVAL_FALSE)))"
proof -
  have "\<not> IsPayToScriptHash (p2pkh h)" using assms(3) by (simp add: IsPayToScriptHash_def p2pkh_def)
  then show ?thesis
    by (simp add: VerifyScript_def eval_p2pkh_sig[OF assms(1,2,5)] eval_p2pkh_pub[OF assms(1,4,3,5)]
        IsPushOnly_p2pkh_sig[OF assms(1,2)] Let_def)
      (cases "CheckSignatureEncoding2 (CheckLowS E) sig flags"; cases "CheckPubKeyEncoding2 pk flags";
        simp add: stack_true_item)
qed

section \<open>Properties\<close>

text \<open>
  Neither assertion of script verification can fail: when a pay-to-script-hash output has been
  satisfied, the stack left by the input is not empty, so reading its top is defined.
\<close>

theorem VerifyScript_no_abort: "VerifyScript E flags sSig sPub \<noteq> None"
  by (rule VerifyScript_total)

text \<open>
  The two functions \<open>VerifyScript\<close> accept the same pairs of scripts with the same checker when the
  flags ask for pay-to-script-hash, under the conditions on signature tests of \<open>same_tests\<close>.
\<close>

theorem verify_functions_agree:
  assumes "bn_documented B" "same_tests E flags" "flags AND SCRIPT_VERIFY_MINIMALDATA = 0"
    and "flags AND SCRIPT_VERIFY_P2SH \<noteq> 0" "flags AND SCRIPT_VERIFY_SIGPUSHONLY = 0"
  shows "LegacyVerifyScript B E flags sSig sPub =
    map_option accepts (VerifyScript E flags sSig sPub)"
  by (rule Verify_legacy[OF assms])

lemma verify_functions_agree_witness:
  "LegacyVerifyScript reference_bn no_crypto SCRIPT_VERIFY_P2SH [0x51] [0x51] = Some True"
proof -
  have "VerifyScript no_crypto SCRIPT_VERIFY_P2SH [0x51] [0x51] = Some (Inr ())" by code_simp
  then show ?thesis
    using verify_functions_agree[OF reference_documented, of no_crypto SCRIPT_VERIFY_P2SH "[0x51]" "[0x51]"]
    by (simp add: same_tests_def well_encoded_only_def no_crypto_def sig_flags_agree_def SCRIPT_VERIFY_P2SH_def
        SCRIPT_VERIFY_DERSIG_def SCRIPT_VERIFY_LOW_S_def SCRIPT_VERIFY_STRICTENC_def SCRIPT_VERIFY_MINIMALDATA_def
        SCRIPT_VERIFY_SIGPUSHONLY_def)
qed

text \<open>
  Every verification flag is a soft restriction: an input accepted under some flags is accepted
  under any subset of them.
\<close>

theorem verify_flags_tighten:
  assumes "flags_subset f g" "VerifyScript E g sSig sPub = Some (Inr ())"
  shows "VerifyScript E f sSig sPub = Some (Inr ())"
  by (rule tighter_verify[OF assms])

lemma verify_flags_tighten_witness: "VerifyScript no_crypto 0 [0x51] [0x61] = Some (Inr ())"
proof (rule verify_flags_tighten)
  show "VerifyScript no_crypto 0x61 [0x51] [0x61] = Some (Inr ())" by code_simp
  show "flags_subset 0 0x61" by (simp add: flags_subset_def)
qed

text \<open>
  Spending an output that pays to the hash of a public key: with a signature and a public key as
  the two pushes of the input, verification succeeds exactly when the key hashes to the address,
  both encodings pass, and the checker accepts the signature for the unchanged output script.
\<close>

theorem p2pkh_verify:
  assumes "length sig \<le> MAX_SCRIPT_ELEMENT_SIZE" "length pk \<le> MAX_SCRIPT_ELEMENT_SIZE"
    and "length h = 20" "sig \<noteq> h" "flags AND SCRIPT_VERIFY_MINIMALDATA = 0"
  shows "VerifyScript E flags (push_data pk (push_data sig [])) (p2pkh h) =
    Some (if HASH160 E pk \<noteq> h then Inl SCRIPT_ERR_EQUALVERIFY
          else rbind (CheckSignatureEncoding2 (CheckLowS E) sig flags) (\<lambda>_.
               rbind (CheckPubKeyEncoding2 pk flags) (\<lambda>_.
                 if CheckSig E sig pk (p2pkh h) then Inr () else Inl SCRIPT_ERR_EVAL_FALSE)))"
  by (rule p2pkh_spend[OF assms])

lemma p2pkh_verify_witness:
  "VerifyScript (no_crypto\<lparr>HASH160 := \<lambda>v. replicate 20 7, CheckSig := \<lambda>_ _ _. True\<rparr>) 0
     (push_data [2, 3] (push_data [4, 5] [])) (p2pkh (replicate 20 7)) = Some (Inr ())"
  by (subst p2pkh_verify)
    (auto simp: MAX_SCRIPT_ELEMENT_SIZE_def CheckSignatureEncoding2_def CheckPubKeyEncoding2_def dest: arg_cong[of _ _ length])

text \<open>
  The standard flags do not contain \<open>SCRIPT_VERIFY_P2SH\<close>: under them verification is the
  input script followed by the output script, and the script that a pay-to-script-hash input pushes
  is never run.
\<close>

theorem standard_flags_skip_redeem_script:
  "VerifyScript E STANDARD_SCRIPT_VERIFY_FLAGS sSig sPub =
    (case EvalScript E STANDARD_SCRIPT_VERIFY_FLAGS [] sSig of
       Inl e \<Rightarrow> Some (Inl e)
     | Inr stack \<Rightarrow> Some (rbind (EvalScript E STANDARD_SCRIPT_VERIFY_FLAGS stack sPub) stack_true))"
proof -
  have "STANDARD_SCRIPT_VERIFY_FLAGS AND SCRIPT_VERIFY_P2SH = 0"
    "STANDARD_SCRIPT_VERIFY_FLAGS AND SCRIPT_VERIFY_SIGPUSHONLY = 0"
    by (simp_all add: STANDARD_SCRIPT_VERIFY_FLAGS_def MANDATORY_SCRIPT_VERIFY_FLAGS_def SCRIPT_VERIFY_NONE_def
        SCRIPT_VERIFY_STRICTENC_def SCRIPT_VERIFY_NULLDUMMY_def SCRIPT_VERIFY_P2SH_def
        SCRIPT_VERIFY_DISCOURAGE_UPGRADABLE_NOPS_def SCRIPT_VERIFY_SIGPUSHONLY_def)
  then show ?thesis by (simp add: VerifyScript_def Let_def split: sum.split)
qed

end
