(* ===== verification/SigHash.thy ===== *)
theory SigHash
  imports ScriptVerify
begin

text \<open>
  \<open>SignatureHash\<close> of \<open>src/src/script.cpp\<close>: the copy of the transaction that a signature
  signs, its serialised form with the hash type, and its hash.  \<open>None\<close> of \<open>sighash_tx\<close> is the
  early \<open>return 1\<close>.  The lemmas say what each hash type commits to and what it leaves open.
\<close>

definition sighash_blank_inputs :: "script \<Rightarrow> CTransaction \<Rightarrow> nat \<Rightarrow> CTxIn list" where
  "sighash_blank_inputs scriptCode txTo nIn =
     (map (\<lambda>i. i\<lparr>scriptSig := []\<rparr>) (vin txTo))
       [nIn := (vin txTo ! nIn)\<lparr>scriptSig := scriptCode\<rparr>]"

text \<open>\<open>Let the others update at will\<close>: the sequence numbers of the other inputs become zero.\<close>

definition sighash_zero_sequences :: "nat \<Rightarrow> CTxIn list \<Rightarrow> CTxIn list" where
  "sighash_zero_sequences nIn is =
     map (\<lambda>(k, i). if k \<noteq> nIn then i\<lparr>nSequence := 0\<rparr> else i) (zip [0..<length is] is)"

definition sighash_single_outputs :: "nat \<Rightarrow> CTxOut list \<Rightarrow> CTxOut list" where
  "sighash_single_outputs nOut outs =
     map (\<lambda>(k, out). if k < nOut then txout_null else out) (zip [0..<nOut + 1] (take (nOut + 1) outs))"

definition sighash_tx :: "script \<Rightarrow> CTransaction \<Rightarrow> nat \<Rightarrow> uint32 \<Rightarrow> CTransaction option" where
  "sighash_tx scriptCode txTo nIn nHashType =
     (if nIn \<ge> length (vin txTo) then None
      else
        let scriptCode = snd (FindAndDelete scriptCode (push_opcode OP_CODESEPARATOR []));
            txTmp = txTo\<lparr>vin := sighash_blank_inputs scriptCode txTo nIn\<rparr>;
            txTmp' =
              (if sint (nHashType AND 0x1f) = SIGHASH_NONE then
                 Some (txTmp\<lparr>vout := [], vin := sighash_zero_sequences nIn (vin txTmp)\<rparr>)
               else if sint (nHashType AND 0x1f) = SIGHASH_SINGLE then
                 (if nIn \<ge> length (vout txTmp) then None
                  else Some (txTmp\<lparr>vout := sighash_single_outputs nIn (vout txTmp),
                                   vin := sighash_zero_sequences nIn (vin txTmp)\<rparr>))
               else Some txTmp)
        in case txTmp' of
             None \<Rightarrow> None
           | Some txTmp \<Rightarrow>
               Some (if nHashType AND word_of_int SIGHASH_ANYONECANPAY \<noteq> 0
                     then txTmp\<lparr>vin := [vin txTmp ! nIn]\<rparr> else txTmp))"

definition sighash_preimage :: "script \<Rightarrow> CTransaction \<Rightarrow> nat \<Rightarrow> uint32 \<Rightarrow> bytes option" where
  "sighash_preimage scriptCode txTo nIn nHashType =
     map_option (\<lambda>txTmp. write_tx txTmp @ write_word 4 nHashType) (sighash_tx scriptCode txTo nIn nHashType)"

definition SignatureHash ::
  "(bytes \<Rightarrow> uint256) \<Rightarrow> script \<Rightarrow> CTransaction \<Rightarrow> nat \<Rightarrow> uint32 \<Rightarrow> uint256" where
  "SignatureHash H scriptCode txTo nIn nHashType =
     (case sighash_preimage scriptCode txTo nIn nHashType of None \<Rightarrow> 1 | Some b \<Rightarrow> H b)"

section \<open>What a hash type leaves open\<close>

text \<open>The parts of a transaction that a hash type signs, besides the script.\<close>

definition hash_none :: "uint32 \<Rightarrow> bool" where
  "hash_none t \<longleftrightarrow> sint (t AND 0x1f) = SIGHASH_NONE"

definition hash_single :: "uint32 \<Rightarrow> bool" where
  "hash_single t \<longleftrightarrow> sint (t AND 0x1f) = SIGHASH_SINGLE"

definition hash_anyone :: "uint32 \<Rightarrow> bool" where
  "hash_anyone t \<longleftrightarrow> t AND word_of_int SIGHASH_ANYONECANPAY \<noteq> 0"

definition hash_all :: "uint32 \<Rightarrow> bool" where
  "hash_all t \<longleftrightarrow> \<not> hash_none t \<and> \<not> hash_single t"

lemma none_not_single: "hash_none t \<Longrightarrow> \<not> hash_single t"
  by (simp add: hash_none_def hash_single_def SIGHASH_NONE_def SIGHASH_SINGLE_def)

text \<open>An input without its script: the outpoint and the sequence number.\<close>

type_synonym signed_view =
  "uint32 \<times> uint32 \<times> uint32 \<times> (COutPoint \<times> uint32) list \<times> nat option \<times> CTxOut list option"

definition input_ref :: "CTxIn \<Rightarrow> COutPoint \<times> uint32" where
  "input_ref i = (prevout i, nSequence i)"

definition signed_refs :: "CTransaction \<Rightarrow> nat \<Rightarrow> uint32 \<Rightarrow> (COutPoint \<times> uint32) list" where
  "signed_refs tx nIn t =
     (if hash_anyone t then [input_ref (vin tx ! nIn)]
      else if hash_all t then map input_ref (vin tx)
      else map (\<lambda>k. (prevout (vin tx ! k), if k = nIn then nSequence (vin tx ! k) else 0))
             [0..<length (vin tx)])"

definition signed_outs :: "CTransaction \<Rightarrow> nat \<Rightarrow> uint32 \<Rightarrow> CTxOut list option" where
  "signed_outs tx nIn t =
     (if hash_none t then Some []
      else if hash_single t then
        (if nIn < length (vout tx) then Some (replicate nIn txout_null @ [vout tx ! nIn]) else None)
      else Some (vout tx))"

definition signed_part :: "CTransaction \<Rightarrow> nat \<Rightarrow> uint32 \<Rightarrow> signed_view" where
  "signed_part tx nIn t =
     (tx_nVersion tx, tx_nTime tx, nLockTime tx, signed_refs tx nIn t,
      if hash_anyone t then None else Some nIn, signed_outs tx nIn t)"

text \<open>The preimage as a function of the signed part.\<close>

definition place_code :: "script \<Rightarrow> nat option \<Rightarrow> (COutPoint \<times> uint32) list \<Rightarrow> CTxIn list" where
  "place_code code n refs =
     map (\<lambda>(k, p, q). mk_txin p (if n = None \<or> n = Some k then code else []) q)
       (zip [0..<length refs] refs)"

definition clean_code :: "script \<Rightarrow> script" where
  "clean_code c = snd (FindAndDelete c (push_opcode OP_CODESEPARATOR []))"

definition view_preimage :: "script \<Rightarrow> signed_view \<Rightarrow> uint32 \<Rightarrow> bytes option" where
  "view_preimage code v t =
     (case v of (ver, time, lock, refs, n, outs) \<Rightarrow>
        map_option (\<lambda>os. write_tx \<lparr>tx_nVersion = ver, tx_nTime = time, vin = place_code code n refs,
            vout = os, nLockTime = lock, tx_nDoS = 0\<rparr> @ write_word 4 t) outs)"

definition no_pubkey :: "CTxIn \<Rightarrow> CTxIn" where
  "no_pubkey i = i\<lparr>prevPubKey := []\<rparr>"

lemma write_txin_no_pubkey: "write_txin (no_pubkey i) = write_txin i"
  by (simp add: no_pubkey_def write_txin_def)

lemma write_tx_cong:
  assumes "tx_nVersion a = tx_nVersion b" "tx_nTime a = tx_nTime b" "nLockTime a = nLockTime b"
    and "vout a = vout b" "map no_pubkey (vin a) = map no_pubkey (vin b)"
  shows "write_tx a = write_tx b"
proof -
  have m: "map write_txin is = map write_txin (map no_pubkey is)" for "is"
    by (simp add: write_txin_no_pubkey)
  have "map write_txin (vin a) = map write_txin (vin b)" by (subst (1 2) m) (simp add: assms(5))
  moreover have "length (vin a) = length (vin b)" using assms(5) by (rule map_eq_imp_length_eq)
  ultimately show ?thesis using assms(1-4) by (simp add: write_tx_def write_vec_def)
qed

lemma single_outputs_eq:
  "n < length outs \<Longrightarrow> sighash_single_outputs n outs = replicate n txout_null @ [outs ! n]"
  by (rule nth_equalityI) (auto simp: sighash_single_outputs_def nth_append less_Suc_eq)

lemma nth_zero_sequences:
  "k < length is \<Longrightarrow> sighash_zero_sequences n is ! k = (if k \<noteq> n then (is ! k)\<lparr>nSequence := 0\<rparr> else is ! k)"
  by (simp add: sighash_zero_sequences_def)

lemma length_zero_sequences [simp]: "length (sighash_zero_sequences n is) = length is"
  by (simp add: sighash_zero_sequences_def)

lemma length_blank [simp]: "length (sighash_blank_inputs c tx n) = length (vin tx)"
  by (simp add: sighash_blank_inputs_def)

lemma nth_blank:
  "k < length (vin tx) \<Longrightarrow> sighash_blank_inputs c tx n ! k =
     (if k = n then (vin tx ! k)\<lparr>scriptSig := c\<rparr> else (vin tx ! k)\<lparr>scriptSig := []\<rparr>)"
  by (simp add: sighash_blank_inputs_def nth_list_update)

lemmas inputs_simps = nth_zero_sequences nth_blank no_pubkey_def place_code_def signed_refs_def
  input_ref_def mk_txin_def

lemma place_code_refs:
  assumes "n < length (vin tx)"
  shows "map no_pubkey
     (if hash_anyone t then [(if hash_all t then id else sighash_zero_sequences n) (sighash_blank_inputs c tx n) ! n]
      else (if hash_all t then id else sighash_zero_sequences n) (sighash_blank_inputs c tx n)) =
   map no_pubkey (place_code c (if hash_anyone t then None else Some n) (signed_refs tx n t))"
proof (cases "hash_anyone t")
  case True
  then show ?thesis using assms by (simp add: inputs_simps)
next
  case False
  show ?thesis
    by (rule nth_equalityI) (use assms False in \<open>auto simp: inputs_simps\<close>)
qed

lemma preimage_view:
  assumes "n < length (vin tx)"
  shows "sighash_preimage c tx n t = view_preimage (clean_code c) (signed_part tx n t) t"
proof -
  consider "hash_all t" | "hash_none t" "\<not> hash_all t" | "hash_single t" "\<not> hash_none t" "\<not> hash_all t"
    unfolding hash_all_def by blast
  then show ?thesis
  proof cases
    case 1
    then show ?thesis
      using place_code_refs[OF assms, of t "clean_code c"] assms
      by (auto simp: sighash_preimage_def sighash_tx_def view_preimage_def signed_part_def signed_outs_def
          Let_def hash_all_def intro!: write_tx_cong simp flip: hash_none_def hash_single_def hash_anyone_def
          clean_code_def)
  next
    case 2
    then show ?thesis
      using place_code_refs[OF assms, of t "clean_code c"] assms
      by (auto simp: sighash_preimage_def sighash_tx_def view_preimage_def signed_part_def signed_outs_def
          Let_def intro!: write_tx_cong simp flip: hash_none_def hash_single_def hash_anyone_def
          clean_code_def)
  next
    case 3
    then show ?thesis
      using place_code_refs[OF assms, of t "clean_code c"] assms
      by (auto simp: sighash_preimage_def sighash_tx_def view_preimage_def signed_part_def signed_outs_def
          Let_def single_outputs_eq intro!: write_tx_cong
          simp flip: hash_none_def hash_single_def hash_anyone_def clean_code_def)
  qed
qed

section \<open>What a signature commits to\<close>

lemma sighash_preimage_in_range: "sighash_preimage c tx n t = Some b \<Longrightarrow> n < length (vin tx)"
  by (simp add: sighash_preimage_def sighash_tx_def split: if_splits)

definition view_ok :: "script \<Rightarrow> signed_view \<Rightarrow> bool" where
  "view_ok c v =
     (case v of (ver, time, lock, refs, n, outs) \<Rightarrow>
        bytevec_ok c \<and> length refs \<le> 33554432 \<and> (\<forall>os. outs = Some os \<longrightarrow> vec_ok txout_ok os))"

lemma place_code_ok: "bytevec_ok c \<Longrightarrow> length refs \<le> 33554432 \<Longrightarrow> vec_ok txin_ok (place_code c n refs)"
  by (auto simp: place_code_def vec_ok_def list_all_iff txin_ok_def mk_txin_def bytevec_ok_def)

lemma place_code_inj:
  assumes "place_code c n refs = place_code c' n' refs'"
  shows "refs = refs'"
proof -
  have "map (\<lambda>i. (prevout i, nSequence i)) (place_code c n refs) = refs" for c n and refs :: "(COutPoint \<times> uint32) list"
    by (rule nth_equalityI) (simp_all add: place_code_def mk_txin_def split_def)
  then show ?thesis using assms by metis
qed

lemma place_code_at:
  assumes "place_code c (Some n) refs = place_code c' (Some n') refs'" "n < length refs" "n' < length refs'"
    and "c \<noteq> []"
  shows "c = c' \<and> n = n'"
proof -
  have l: "length refs = length refs'" using place_code_inj[OF assms(1)] by simp
  have at: "scriptSig (place_code c (Some m) rs ! k) = (if m = k then c else [])"
    if "k < length rs" for k c m and rs :: "(COutPoint \<times> uint32) list"
    using that by (simp add: place_code_def mk_txin_def split_def)
  have "c = (if n' = n then c' else [])"
    using at[of n refs c n] at[of n refs' c' n'] assms(1-3) l by simp
  then show ?thesis using assms(4) by (auto split: if_splits)
qed

lemma view_preimage_inj:
  assumes "view_preimage c v t = Some b" "view_preimage c' v' t' = Some b" "view_ok c v" "view_ok c' v'"
  obtains ver time lock refs n outs n' where
    "v = (ver, time, lock, refs, n, outs)" "v' = (ver, time, lock, refs, n', outs)" "t = t'"
    "place_code c n refs = place_code c' n' refs"
proof -
  obtain ver time lock refs n outs where v: "v = (ver, time, lock, refs, n, Some outs)"
    using assms(1) by (cases v) (auto simp: view_preimage_def)
  obtain ver' time' lock' refs' n' outs' where v': "v' = (ver', time', lock', refs', n', Some outs')"
    using assms(2) by (cases v') (auto simp: view_preimage_def)
  let ?tx = "\<lambda>ver time is os lock. \<lparr>tx_nVersion = ver, tx_nTime = time, vin = is, vout = os,
    nLockTime = lock, tx_nDoS = 0\<rparr>"
  have e: "write_tx (?tx ver time (place_code c n refs) outs lock) @ write_word 4 t =
      write_tx (?tx ver' time' (place_code c' n' refs') outs' lock') @ write_word 4 t'"
    using assms(1,2) by (simp add: v v' view_preimage_def)
  have ok: "tx_ok (?tx ver time (place_code c n refs) outs lock)"
    "tx_ok (?tx ver' time' (place_code c' n' refs') outs' lock')"
    using assms(3,4) by (simp_all add: tx_ok_def view_ok_def v v' place_code_ok)
  have eq: "?tx ver time (place_code c n refs) outs lock = ?tx ver' time' (place_code c' n' refs') outs' lock'"
    "write_word 4 t = write_word 4 t'"
    using tx.wr_prefix_free[OF ok e] by simp_all
  have "t = t'" using u32.wr_inj[OF _ _ eq(2)] by simp
  moreover have p: "place_code c n refs = place_code c' n' refs'" using eq(1) by simp
  moreover have "refs = refs'" using place_code_inj[OF p] .
  ultimately show thesis using eq(1) that[of ver time lock refs n "Some outs" n'] by (simp add: v v')
qed

definition tx_sized :: "CTransaction \<Rightarrow> bool" where
  "tx_sized tx \<longleftrightarrow> length (vin tx) \<le> 33554432 \<and> vec_ok txout_ok (vout tx)"

lemma txout_null_ok: "txout_ok txout_null"
  by (simp add: txout_ok_def txout_null_def bytevec_ok_def)

lemma signed_view_ok:
  assumes "tx_sized tx" "bytevec_ok c" "n < length (vin tx)"
  shows "view_ok c (signed_part tx n t)"
proof -
  have "length (signed_refs tx n t) \<le> 33554432"
    using assms(1,3) by (auto simp: signed_refs_def tx_sized_def)
  moreover have "vec_ok txout_ok os" if "signed_outs tx n t = Some os" for os
    using that assms(1)
    by (auto simp: signed_outs_def tx_sized_def vec_ok_def list_all_iff txout_null_ok split: if_splits)
  ultimately show ?thesis using assms(2) by (simp add: signed_part_def view_ok_def)
qed

lemma length_signed_refs:
  "\<not> hash_anyone t \<Longrightarrow> length (signed_refs tx n t) = length (vin tx)"
  by (simp add: signed_refs_def)

lemma signature_commits:
  assumes "sighash_preimage c tx n t = Some b" "sighash_preimage c' tx' n' t' = Some b"
    and "tx_sized tx" "tx_sized tx'" "bytevec_ok (clean_code c)" "bytevec_ok (clean_code c')"
    and "clean_code c \<noteq> []"
  shows "t = t' \<and> clean_code c = clean_code c' \<and> signed_part tx n t = signed_part tx' n' t"
proof -
  have n: "n < length (vin tx)" "n' < length (vin tx')"
    using sighash_preimage_in_range assms(1,2) by blast+
  obtain ver time lock refs m outs m' where v: "signed_part tx n t = (ver, time, lock, refs, m, outs)"
    "signed_part tx' n' t' = (ver, time, lock, refs, m', outs)" and t: "t = t'"
    and p: "place_code (clean_code c) m refs = place_code (clean_code c') m' refs"
    using view_preimage_inj[OF assms(1)[unfolded preimage_view[OF n(1)]]
        assms(2)[unfolded preimage_view[OF n(2)]] signed_view_ok[OF assms(3,5) n(1)]
        signed_view_ok[OF assms(4,6) n(2)]] .
  show ?thesis
  proof (cases "hash_anyone t")
    case True
    then have m: "m = None" "m' = None" "length refs = 1"
      using v t by (auto simp: signed_part_def signed_refs_def)
    then obtain r where "refs = [r]" by (auto simp: length_Suc_conv)
    then show ?thesis using v t p m by (auto simp: place_code_def mk_txin_def split_def)
  next
    case False
    then have m: "m = Some n" "m' = Some n'" and r: "refs = signed_refs tx n t" "refs = signed_refs tx' n' t"
      using v t by (auto simp: signed_part_def)
    have l: "n < length refs" "n' < length refs"
      using n length_signed_refs[OF False] r by metis+
    show ?thesis using place_code_at[OF p[unfolded m] l assms(7)] v t m by simp
  qed
qed

section \<open>Properties\<close>

text \<open>
  A signature hash depends on no more than what its type signs: two transactions with the same
  version, time and lock time, the same signed inputs (without their scripts) and the same signed
  outputs have the same hash.  In particular the scripts of the inputs never matter, the outputs do
  not matter for \<open>SIGHASH_NONE\<close>, nor the other inputs for \<open>SIGHASH_ANYONECANPAY\<close>.
\<close>

theorem sighash_depends:
  assumes "signed_part tx n t = signed_part tx' n' t" "n < length (vin tx)" "n' < length (vin tx')"
  shows "SignatureHash H c tx n t = SignatureHash H c tx' n' t"
  by (simp add: SignatureHash_def preimage_view[OF assms(2)] preimage_view[OF assms(3)] assms(1))

definition sample_tx :: "int64 \<Rightarrow> CTransaction" where
  "sample_tx value = \<lparr>tx_nVersion = 1, tx_nTime = 2,
     vin = [mk_txin \<lparr>op_hash = 3, op_n = 0\<rparr> [] 5], vout = [txout_null\<lparr>nValue := value\<rparr>],
     nLockTime = 0, tx_nDoS = 0\<rparr>"

lemma sighash_depends_witness:
  "SignatureHash bytes_word [0xac] (sample_tx 7) 0 0x82 = SignatureHash bytes_word [0xac] (sample_tx 8) 0 0x82"
  by (rule sighash_depends)
    (simp_all add: sample_tx_def signed_part_def signed_refs_def signed_outs_def hash_none_def
      hash_anyone_def SIGHASH_NONE_def SIGHASH_ANYONECANPAY_def)

text \<open> C18.
  A signature hash commits to all that its type signs: when two preimages are equal, the hash
  types, the script codes and the signed parts of the two transactions are equal.
\<close>

theorem sighash_commits:
  assumes "sighash_preimage c tx n t = Some b" "sighash_preimage c' tx' n' t' = Some b"
    and "tx_sized tx" "tx_sized tx'" "bytevec_ok (clean_code c)" "bytevec_ok (clean_code c')"
    and "clean_code c \<noteq> []"
  shows "t = t' \<and> clean_code c = clean_code c' \<and> signed_part tx n t = signed_part tx' n' t"
  by (rule signature_commits[OF assms])

lemma sighash_commits_witness:
  "sighash_preimage [0xac] (sample_tx 7) 0 1 \<noteq> sighash_preimage [0xac] (sample_tx 8) 0 1"
proof
  assume e: "sighash_preimage [0xac] (sample_tx 7) 0 1 = sighash_preimage [0xac] (sample_tx 8) 0 1"
  have all: "hash_all 1" by (simp add: hash_all_def hash_none_def hash_single_def SIGHASH_NONE_def SIGHASH_SINGLE_def)
  have o: "signed_outs (sample_tx v) 0 1 = Some (vout (sample_tx v))" for v
    using all by (simp add: signed_outs_def hash_all_def)
  have c: "clean_code [0xac] = [0xac]" by code_simp
  have z: "tx_sized (sample_tx v)" for v
    by (simp add: tx_sized_def sample_tx_def vec_ok_def txout_ok_def txout_null_def bytevec_ok_def)
  obtain b where b: "sighash_preimage [0xac] (sample_tx 8) 0 1 = Some b"
    by (simp add: preimage_view sample_tx_def view_preimage_def signed_part_def)
      (use o[of 8] in \<open>simp add: sample_tx_def\<close>)
  have "signed_part (sample_tx 7) 0 1 = signed_part (sample_tx 8) 0 1"
    using sighash_commits[OF trans[OF e b] b z z] by (simp add: c bytevec_ok_def)
  then show False by (simp add: signed_part_def o) (simp add: sample_tx_def txout_null_def)
qed

end
