(* ===== verification/PubKey.thy ===== *)
theory PubKey
  imports SigHash
begin

text \<open>
  Public keys and the lax signature parser: \<open>CPubKey\<close> of \<open>src/src/pubkey.h\<close> and
  \<open>src/src/pubkey.cpp\<close>.  A key is the 65 bytes of its array, of which its first byte tells how
  many count.  The functions of libsecp256k1 are the record \<open>secp\<close>.  A read of the signature
  outside its bounds is the outcome \<open>Der_out_of_bounds\<close>; the parser never has it.
\<close>

section \<open>Public keys\<close>

type_synonym pubkey = bytes

definition pk_GetLen :: "byte \<Rightarrow> nat" where
  "pk_GetLen chHeader =
     (if chHeader = 2 \<or> chHeader = 3 then 33
      else if chHeader = 4 \<or> chHeader = 6 \<or> chHeader = 7 then 65 else 0)"

definition pk_Invalidate :: "pubkey \<Rightarrow> pubkey" where
  "pk_Invalidate vch = vch[0 := 0xFF]"

definition pk_Set :: "pubkey \<Rightarrow> bytes \<Rightarrow> pubkey" where
  "pk_Set vch b =
     (let len = (if b = [] then 0 else pk_GetLen (hd b))
      in if len \<noteq> 0 \<and> len = length b then b @ drop len vch else pk_Invalidate vch)"

definition pk_size :: "pubkey \<Rightarrow> nat" where
  "pk_size vch = pk_GetLen (vch ! 0)"

definition pk_Raw :: "pubkey \<Rightarrow> bytes" where
  "pk_Raw vch = take (pk_size vch) vch"

definition pk_IsValid :: "pubkey \<Rightarrow> bool" where
  "pk_IsValid vch \<longleftrightarrow> pk_size vch > 0"

definition pk_IsCompressed :: "pubkey \<Rightarrow> bool" where
  "pk_IsCompressed vch \<longleftrightarrow> pk_size vch = 33"

definition pk_eq :: "pubkey \<Rightarrow> pubkey \<Rightarrow> bool" where
  "pk_eq a b \<longleftrightarrow> a ! 0 = b ! 0 \<and> take (pk_size a) a = take (pk_size a) b"

text \<open>\<open>memcmp\<close> is negative when the first difference is.\<close>

fun memcmp_less :: "bytes \<Rightarrow> bytes \<Rightarrow> bool" where
  "memcmp_less (x # xs) (y # ys) = (x < y \<or> (x = y \<and> memcmp_less xs ys))"
| "memcmp_less _ _ = False"

definition pk_less :: "pubkey \<Rightarrow> pubkey \<Rightarrow> bool" where
  "pk_less a b \<longleftrightarrow>
     a ! 0 < b ! 0 \<or> (a ! 0 = b ! 0 \<and> memcmp_less (take (pk_size a) a) (take (pk_size a) b))"

definition pk_GetID :: "(bytes \<Rightarrow> uint160) \<Rightarrow> pubkey \<Rightarrow> uint160" where
  "pk_GetID Hash160 vch = Hash160 (pk_Raw vch)"

definition pk_GetHash :: "(bytes \<Rightarrow> uint256) \<Rightarrow> pubkey \<Rightarrow> uint256" where
  "pk_GetHash Hash vch = Hash (pk_Raw vch)"

text \<open>A key built in fresh memory; what the memory held does not matter.\<close>

definition mk_pubkey :: "bytes \<Rightarrow> pubkey" where
  "mk_pubkey b = pk_Set (replicate 65 0) b"

definition wf_pubkey :: "pubkey \<Rightarrow> bool" where
  "wf_pubkey vch \<longleftrightarrow> length vch = 65"

lemma pk_GetLen_le: "pk_GetLen b \<le> 65"
  by (simp add: pk_GetLen_def)

lemma wf_pk_Set: "wf_pubkey vch \<Longrightarrow> wf_pubkey (pk_Set vch b)"
  by (auto simp: wf_pubkey_def pk_Set_def pk_Invalidate_def Let_def pk_GetLen_def)

lemma wf_mk_pubkey: "wf_pubkey (mk_pubkey b)"
  using wf_pk_Set[of "replicate 65 0" b] by (simp add: mk_pubkey_def wf_pubkey_def)

text \<open>The shape of byte strings that are keys.\<close>

definition pubkey_bytes :: "bytes \<Rightarrow> bool" where
  "pubkey_bytes b \<longleftrightarrow> b \<noteq> [] \<and> pk_GetLen (hd b) = length b"

lemma pk_Set_valid:
  assumes "wf_pubkey vch"
  shows "pk_IsValid (pk_Set vch b) \<longleftrightarrow> pubkey_bytes b"
proof -
  have "vch \<noteq> []" using assms by (auto simp: wf_pubkey_def)
  then show ?thesis
    by (cases b) (auto simp: pk_Set_def pk_IsValid_def pk_size_def pubkey_bytes_def pk_Invalidate_def
        Let_def pk_GetLen_def)
qed

lemma pk_Set_Raw:
  assumes "wf_pubkey vch"
  shows "pk_Raw (pk_Set vch b) = (if pubkey_bytes b then b else [])"
proof -
  have "vch \<noteq> []" using assms by (auto simp: wf_pubkey_def)
  then show ?thesis
    by (cases b) (auto simp: pk_Set_def pk_Raw_def pk_size_def pubkey_bytes_def pk_Invalidate_def
        Let_def pk_GetLen_def)
qed

lemma pk_Raw_mk: "pk_Raw (mk_pubkey b) = (if pubkey_bytes b then b else [])"
  by (simp add: mk_pubkey_def pk_Set_Raw wf_pubkey_def)

lemma pk_IsValid_mk: "pk_IsValid (mk_pubkey b) \<longleftrightarrow> pubkey_bytes b"
  by (simp add: mk_pubkey_def pk_Set_valid wf_pubkey_def)

lemma pk_valid_Raw: "wf_pubkey a \<Longrightarrow> pk_IsValid a \<longleftrightarrow> pubkey_bytes (pk_Raw a)"
  by (cases a) (auto simp: pk_IsValid_def pk_Raw_def pk_size_def pubkey_bytes_def wf_pubkey_def
      pk_GetLen_def split: if_splits)

lemma pk_eq_Raw:
  assumes "wf_pubkey a" "wf_pubkey b" "pk_IsValid a"
  shows "pk_eq a b \<longleftrightarrow> pk_Raw a = pk_Raw b"
proof -
  obtain x xs y ys where ab: "a = x # xs" "b = y # ys"
    using assms by (cases a; cases b) (auto simp: wf_pubkey_def)
  show ?thesis
    using assms pk_GetLen_le[of y]
    by (auto simp: ab pk_eq_def pk_Raw_def pk_size_def pk_IsValid_def take_Cons' split: if_splits)
qed

section \<open>Serialised keys\<close>

definition write_pubkey :: "pubkey \<Rightarrow> bytes" where
  "write_pubkey vch = WriteCompactSize (of_nat (pk_size vch)) @ pk_Raw vch"

text \<open>Reading into the memory of an existing key; a longer string is skipped byte by byte.\<close>

fun read_skip :: "nat \<Rightarrow> bytes \<Rightarrow> ser_error + bytes" where
  "read_skip 0 s = Inr s"
| "read_skip (Suc len) s = rbind (read_data 1 s) (\<lambda>(d, s). read_skip len s)"

definition read_pubkey :: "pubkey \<Rightarrow> pubkey reader" where
  "read_pubkey vch s =
     rbind (ReadCompactSize s) (\<lambda>(len, s).
       if len \<le> 65 then
         rbind (read_data (unat len) s) (\<lambda>(d, s). Inr (d @ drop (unat len) vch, s))
       else rbind (read_skip (unat len) s) (\<lambda>s. Inr (pk_Invalidate vch, s)))"

lemma pubkey_round_trip:
  assumes "wf_pubkey a" "wf_pubkey vch" "pk_IsValid a"
  shows "\<exists>b. read_pubkey vch (write_pubkey a @ s) = Inr (b, s) \<and> pk_eq a b \<and> wf_pubkey b"
proof -
  let ?n = "of_nat (pk_size a) :: uint64"
  have sz: "pk_size a \<le> 65" by (simp add: pk_size_def pk_GetLen_le)
  then have u: "unat ?n = pk_size a" by (simp add: unsigned_of_nat take_bit_nat_eq_self)
  then have le: "?n \<le> 65" using sz by (simp add: word_le_nat_alt)
  then have ok: "?n \<le> MAX_SIZE" unfolding MAX_SIZE_def by (rule order_trans) simp
  have l: "length (pk_Raw a) = pk_size a" using sz assms(1) by (simp add: pk_Raw_def wf_pubkey_def)
  have "read_pubkey vch (write_pubkey a @ s) = Inr (pk_Raw a @ drop (pk_size a) vch, s)"
    using csize.rd_wr[OF ok, of "pk_Raw a @ s"] le l by (simp add: read_pubkey_def write_pubkey_def u)
  moreover have "wf_pubkey (pk_Raw a @ drop (pk_size a) vch)"
    using assms(2) l sz by (simp add: wf_pubkey_def)
  moreover have "pk_eq a (pk_Raw a @ drop (pk_size a) vch)"
    using assms(3) l by (auto simp: pk_eq_def pk_IsValid_def pk_Raw_def nth_append)
  ultimately show ?thesis by blast
qed

section \<open>The lax signature parser\<close>

datatype der_fail = Der_return0 | Der_out_of_bounds

definition der_at :: "bytes \<Rightarrow> nat \<Rightarrow> der_fail + byte" where
  "der_at input pos = (if pos < length input then Inr (input ! pos) else Inl Der_out_of_bounds)"

definition der_unless :: "bool \<Rightarrow> der_fail + unit" where
  "der_unless c = (if c then Inl Der_return0 else Inr ())"

text \<open>\<open>while (len > 0 && input[pos] == 0)\<close>: the remaining length and the new position.\<close>

fun der_skip_zeros :: "bytes \<Rightarrow> nat \<Rightarrow> nat \<Rightarrow> der_fail + nat \<times> nat" where
  "der_skip_zeros input 0 pos = Inr (0, pos)"
| "der_skip_zeros input (Suc len) pos =
     rbind (der_at input pos) (\<lambda>b.
       if b = 0 then der_skip_zeros input len (pos + 1) else Inr (Suc len, pos))"

fun der_len_bytes :: "bytes \<Rightarrow> nat \<Rightarrow> nat \<Rightarrow> nat \<Rightarrow> der_fail + nat \<times> nat" where
  "der_len_bytes input 0 pos rlen = Inr (rlen, pos)"
| "der_len_bytes input (Suc lenbyte) pos rlen =
     rbind (der_at input pos) (\<lambda>b. der_len_bytes input lenbyte (pos + 1) (rlen * 256 + unat b))"

text \<open>The length of an integer: short, or long with leading zeros ignored.\<close>

definition der_length :: "bytes \<Rightarrow> nat \<Rightarrow> der_fail + nat \<times> nat" where
  "der_length input pos =
     rbind (der_unless (pos = length input)) (\<lambda>_.
     rbind (der_at input pos) (\<lambda>lb.
       let pos = pos + 1; lenbyte = unat lb
       in if lb AND 0x80 \<noteq> 0 then
            let lenbyte = lenbyte - 0x80
            in rbind (der_unless (pos + lenbyte > length input)) (\<lambda>_.
               rbind (der_skip_zeros input lenbyte pos) (\<lambda>(lenbyte, pos).
               rbind (der_unless (lenbyte \<ge> 8)) (\<lambda>_. der_len_bytes input lenbyte pos 0)))
          else Inr (lenbyte, pos)))"

text \<open>Tag, length and extent of an integer: where it starts, its length, where it ends.\<close>

definition der_int :: "bytes \<Rightarrow> nat \<Rightarrow> der_fail + nat \<times> nat \<times> nat" where
  "der_int input pos =
     rbind (der_unless (pos = length input)) (\<lambda>_.
     rbind (der_at input pos) (\<lambda>tag.
     rbind (der_unless (tag \<noteq> 0x02)) (\<lambda>_.
     rbind (der_length input (pos + 1)) (\<lambda>(rlen, pos).
     rbind (der_unless (rlen > length input - pos)) (\<lambda>_. Inr (pos, rlen, pos + rlen))))))"

text \<open>The sequence tag and its length, which is not compared with anything.\<close>

definition der_header :: "bytes \<Rightarrow> der_fail + nat" where
  "der_header input =
     rbind (der_unless (0 = length input)) (\<lambda>_.
     rbind (der_at input 0) (\<lambda>tag.
     rbind (der_unless (tag \<noteq> 0x30)) (\<lambda>_.
     rbind (der_unless (1 = length input)) (\<lambda>_.
     rbind (der_at input 1) (\<lambda>lb.
       if lb AND 0x80 \<noteq> 0 then
         (let lenbyte = unat lb - 0x80
          in rbind (der_unless (2 + lenbyte > length input)) (\<lambda>_. Inr (2 + lenbyte)))
       else Inr 2)))))"

definition memcpy_at :: "bytes \<Rightarrow> nat \<Rightarrow> bytes \<Rightarrow> bytes" where
  "memcpy_at dst at src = take at dst @ src @ drop (at + length src) dst"

text \<open>One half of the compact signature; the flag is \<open>overflow\<close>.\<close>

definition der_copy :: "bytes \<Rightarrow> nat \<Rightarrow> nat \<Rightarrow> nat \<Rightarrow> bytes \<times> bool \<Rightarrow> der_fail + bytes \<times> bool" where
  "der_copy input half rpos rlen = (\<lambda>(tmpsig, overflow).
     rbind (der_skip_zeros input rlen rpos) (\<lambda>(rlen, rpos).
       if rlen > 32 then Inr (tmpsig, True)
       else if rpos + rlen \<le> length input
       then Inr (memcpy_at tmpsig (half - rlen) (take rlen (drop rpos input)), overflow)
       else Inl Der_out_of_bounds))"

record ('sig, 'pk) secp =
  parse_compact :: "bytes \<Rightarrow> 'sig \<times> bool"
  sig_normalize :: "'sig \<Rightarrow> 'sig \<times> bool"
  ec_pubkey_parse :: "bytes \<Rightarrow> 'pk option"
  ecdsa_verify :: "'sig \<Rightarrow> uint256 \<Rightarrow> 'pk \<Rightarrow> bool"

text \<open>A value that does not fit, or that the library refuses, is replaced by zeros.\<close>

definition der_finish :: "('sig, 'pk, 'e) secp_scheme \<Rightarrow> bytes \<Rightarrow> bool \<Rightarrow> 'sig" where
  "der_finish C tmpsig overflow =
     (let (sig, ok) = parse_compact C tmpsig
      in if \<not> overflow \<and> ok then sig else fst (parse_compact C (replicate 64 0)))"

definition ecdsa_signature_parse_der_lax ::
  "('sig, 'pk, 'e) secp_scheme \<Rightarrow> bytes \<Rightarrow> der_fail + 'sig" where
  "ecdsa_signature_parse_der_lax C input =
     rbind (der_header input) (\<lambda>pos.
     rbind (der_int input pos) (\<lambda>(rpos, rlen, pos).
     rbind (der_int input pos) (\<lambda>(spos, slen, pos).
     rbind (der_copy input 32 rpos rlen (replicate 64 0, False)) (\<lambda>r.
     rbind (der_copy input 64 spos slen r) (\<lambda>(tmpsig, overflow).
       Inr (der_finish C tmpsig overflow))))))"

definition pk_Verify :: "('sig, 'pk, 'e) secp_scheme \<Rightarrow> pubkey \<Rightarrow> uint256 \<Rightarrow> bytes \<Rightarrow> bool" where
  "pk_Verify C vch hash vchSig =
     (if \<not> pk_IsValid vch then False
      else case ec_pubkey_parse C (pk_Raw vch) of
             None \<Rightarrow> False
           | Some pk \<Rightarrow>
               if length vchSig = 0 then False
               else case ecdsa_signature_parse_der_lax C vchSig of
                      Inl _ \<Rightarrow> False
                    | Inr sig \<Rightarrow> ecdsa_verify C (fst (sig_normalize C sig)) hash pk)"

definition pk_IsFullyValid :: "('sig, 'pk, 'e) secp_scheme \<Rightarrow> pubkey \<Rightarrow> bool" where
  "pk_IsFullyValid C vch \<longleftrightarrow> pk_IsValid vch \<and> ec_pubkey_parse C (pk_Raw vch) \<noteq> None"

definition pk_CheckLowS :: "('sig, 'pk, 'e) secp_scheme \<Rightarrow> bytes \<Rightarrow> bool" where
  "pk_CheckLowS C vchSig =
     (case ecdsa_signature_parse_der_lax C vchSig of
        Inl _ \<Rightarrow> False | Inr sig \<Rightarrow> \<not> snd (sig_normalize C sig))"

section \<open>The parser reads within bounds\<close>

lemma der_at_iff [simp]: "der_at input pos = Inr b \<longleftrightarrow> pos < length input \<and> b = input ! pos"
  by (auto simp: der_at_def)

lemma der_unless_iff [simp]: "der_unless c = Inr u \<longleftrightarrow> \<not> c" "der_unless c \<noteq> Inl Der_out_of_bounds"
  by (auto simp: der_unless_def)

lemma rbind_Inl_iff: "rbind r f = Inl e \<longleftrightarrow> r = Inl e \<or> (\<exists>x. r = Inr x \<and> f x = Inl e)"
  by (cases r) auto

lemma der_at_bounds: "der_at input pos = Inl e \<longleftrightarrow> length input \<le> pos \<and> e = Der_out_of_bounds"
  by (auto simp: der_at_def)

lemma skip_zeros_safe:
  "pos + len \<le> length input \<Longrightarrow>
   \<exists>len' pos'. der_skip_zeros input len pos = Inr (len', pos') \<and> pos' + len' = pos + len"
proof (induction input len pos rule: der_skip_zeros.induct)
  case (2 input len pos)
  then show ?case by (auto simp: der_at_def)
qed simp

lemma len_bytes_safe:
  "pos + lenbyte \<le> length input \<Longrightarrow> \<exists>l. der_len_bytes input lenbyte pos rlen = Inr (l, pos + lenbyte)"
proof (induction input lenbyte pos rlen rule: der_len_bytes.induct)
  case (2 input lenbyte pos rlen)
  then show ?case by (auto simp: der_at_def)
qed simp

lemma der_length_safe:
  assumes "pos \<le> length input"
  shows "der_length input pos \<noteq> Inl Der_out_of_bounds"
    "der_length input pos = Inr (l, p) \<Longrightarrow> p \<le> length input"
proof -
  have *: "der_length input pos = Inl Der_return0 \<or>
      (\<exists>l p. der_length input pos = Inr (l, p) \<and> p \<le> length input)"
  proof (cases "pos = length input \<or> (input ! pos AND 0x80 \<noteq> 0 \<and> pos + 1 + (unat (input ! pos) - 0x80) > length input)")
    case True
    then show ?thesis using assms
      by (cases "pos = length input") (simp_all add: der_length_def der_unless_def der_at_def Let_def)
  next
    case False
    then have p: "pos < length input" using assms by simp
    show ?thesis
    proof (cases "input ! pos AND 0x80 = 0")
      case True
      then show ?thesis using p by (simp add: der_length_def der_unless_def der_at_def Let_def)
    next
      case long: False
      then have b: "pos + 1 + (unat (input ! pos) - 0x80) \<le> length input" using False by auto
      obtain l' p' where z: "der_skip_zeros input (unat (input ! pos) - 0x80) (pos + 1) = Inr (l', p')"
        "p' + l' = pos + 1 + (unat (input ! pos) - 0x80)"
        using skip_zeros_safe[OF b] by blast
      obtain m where "der_len_bytes input l' p' 0 = Inr (m, p' + l')"
        using len_bytes_safe[of p' l' input 0] z(2) b by auto
      then show ?thesis using p long z b
        by (simp add: der_length_def der_unless_def der_at_def Let_def)
    qed
  qed
  show "der_length input pos \<noteq> Inl Der_out_of_bounds" using * by auto
  show "der_length input pos = Inr (l, p) \<Longrightarrow> p \<le> length input" using * by auto
qed

lemma der_int_safe:
  assumes "pos \<le> length input"
  shows "der_int input pos \<noteq> Inl Der_out_of_bounds"
    "der_int input pos = Inr (rpos, rlen, q) \<Longrightarrow> rpos + rlen = q \<and> q \<le> length input"
  using assms der_length_safe[of "pos + 1" input]
  by (auto simp: der_int_def rbind_Inl_iff rbind_Inr_iff der_at_bounds)

lemma der_header_safe:
  "der_header input \<noteq> Inl Der_out_of_bounds" "der_header input = Inr pos \<Longrightarrow> pos \<le> length input"
  by (cases input; cases "tl input";
      auto simp: der_header_def rbind_Inl_iff rbind_Inr_iff der_at_bounds Let_def split: if_splits)+

lemma der_copy_safe:
  "rpos + rlen \<le> length input \<Longrightarrow> der_copy input half rpos rlen r \<noteq> Inl Der_out_of_bounds"
  using skip_zeros_safe[of rpos rlen input] by (cases r) (auto simp: der_copy_def split: if_splits)

lemma parse_der_lax_safe: "ecdsa_signature_parse_der_lax C input \<noteq> Inl Der_out_of_bounds"
proof
  assume "ecdsa_signature_parse_der_lax C input = Inl Der_out_of_bounds"
  then consider "der_header input = Inl Der_out_of_bounds"
    | pos where "der_header input = Inr pos" "der_int input pos = Inl Der_out_of_bounds"
    | pos rpos rlen q where "der_header input = Inr pos" "der_int input pos = Inr (rpos, rlen, q)"
        "der_int input q = Inl Der_out_of_bounds"
    | pos rpos rlen q spos slen q' r where "der_header input = Inr pos" "der_int input pos = Inr (rpos, rlen, q)"
        "der_int input q = Inr (spos, slen, q')" "der_copy input 32 rpos rlen r = Inl Der_out_of_bounds"
    | pos rpos rlen q spos slen q' r where "der_header input = Inr pos" "der_int input pos = Inr (rpos, rlen, q)"
        "der_int input q = Inr (spos, slen, q')" "der_copy input 64 spos slen r = Inl Der_out_of_bounds"
    unfolding ecdsa_signature_parse_der_lax_def rbind_Inl_iff
    by (auto simp: rbind_Inl_iff Let_def split: prod.splits if_splits)
  then show False
  proof cases
    case 4
    then show False using der_header_safe(2) der_int_safe(2) der_copy_safe by metis
  next
    case 5
    then show False using der_header_safe(2) der_int_safe(2) der_copy_safe by metis
  qed (use der_header_safe der_int_safe in metis)+
qed

section \<open>What it makes of a strict signature\<close>

definition der_body :: "bytes \<Rightarrow> bytes \<Rightarrow> bytes" where
  "der_body R S =
     [0x30, word_of_nat (4 + length R + length S), 0x02, word_of_nat (length R)] @ R @
     [0x02, word_of_nat (length S)] @ S"

lemma der_signature_body: "der_signature R S h = der_body R S @ [h]"
  by (simp add: der_signature_def der_body_def)

abbreviation strip :: "bytes \<Rightarrow> bytes" where
  "strip v \<equiv> dropWhile (\<lambda>b. b = 0) v"

definition pad32 :: "bytes \<Rightarrow> bytes" where
  "pad32 v = replicate (32 - length v) 0 @ v"

lemma skip_zeros_strip:
  "der_skip_zeros (pre @ v @ post) (length v) (length pre) =
     Inr (length (strip v), length pre + (length v - length (strip v)))"
proof (induction v arbitrary: pre)
  case (Cons b v)
  show ?case
  proof (cases "b = 0")
    case True
    have "length (strip v) \<le> length v" by (rule length_dropWhile_le)
    then show ?thesis using Cons.IH[of "pre @ [b]"] True by (simp add: der_at_def)
  next
    case False
    then show ?thesis by (simp add: der_at_def)
  qed
qed simp

lemma drop_strip: "drop (length v - length (strip v)) v = strip v"
  by (metis append_Nil append_eq_conv_conj diff_diff_cancel length_append length_dropWhile_le
      length_drop takeWhile_dropWhile_id add_diff_cancel_right' drop_append)

lemma der_copy_strip:
  "der_copy (pre @ v @ post) half (length pre) (length v) (tmpsig, overflow) =
     Inr (if length (strip v) > 32 then (tmpsig, True)
          else (memcpy_at tmpsig (half - length (strip v)) (strip v), overflow))"
proof -
  have le: "length (strip v) \<le> length v" by (rule length_dropWhile_le)
  have "take (length (strip v)) (drop (length pre + (length v - length (strip v))) (pre @ v @ post)) = strip v"
    using drop_strip[of v] le by simp
  then show ?thesis using le by (simp add: der_copy_def skip_zeros_strip)
qed

lemma der_int_short:
  assumes "length v < 128"
  shows "der_int (pre @ [0x02, word_of_nat (length v)] @ v @ post) (length pre) =
     Inr (length pre + 2, length v, length pre + 2 + length v)"
proof -
  have u: "unat (word_of_nat (length v) :: byte) = length v" using assms by (intro unat_small_byte) simp
  then have s: "(word_of_nat (length v) :: byte) AND 0x80 = 0" using assms by (simp add: and_80_eq_0_iff)
  show ?thesis
    by (simp add: der_int_def der_length_def der_unless_def der_at_def nth_append u s Let_def)
qed

lemma memcpy_pad:
  assumes "length R \<le> 32" "length S \<le> 32"
  shows "memcpy_at (memcpy_at (replicate 64 0) (32 - length R) R) (64 - length S) S = pad32 R @ pad32 S"
proof -
  have "memcpy_at (replicate 64 0) (32 - length R) R = pad32 R @ replicate 32 0"
    using assms(1) by (simp add: memcpy_at_def pad32_def)
  moreover have "length (pad32 R) = 32" using assms(1) by (simp add: pad32_def)
  ultimately show ?thesis using assms(2) by (simp add: memcpy_at_def pad32_def[of S])
qed

lemma parse_strict:
  assumes "length R + length S \<le> 66"
  shows "ecdsa_signature_parse_der_lax C (der_body R S) =
    Inr (if length (strip R) \<le> 32 \<and> length (strip S) \<le> 32
         then der_finish C (pad32 (strip R) @ pad32 (strip S)) False
         else fst (parse_compact C (replicate 64 0)))"
proof -
  let ?hd = "[0x30, word_of_nat (4 + length R + length S)] :: bytes"
  let ?rint = "?hd @ [0x02, word_of_nat (length R)]"
  let ?sint = "?rint @ R @ [0x02, word_of_nat (length S)]"
  have b: "der_body R S = ?hd @ [0x02, word_of_nat (length R)] @ R @ [0x02, word_of_nat (length S)] @ S"
    by (simp add: der_body_def)
  have u: "unat (word_of_nat (4 + length R + length S) :: byte) = 4 + length R + length S"
    using assms by (intro unat_small_byte) simp
  have s: "(word_of_nat (4 + length R + length S) :: byte) AND 0x80 = 0"
    unfolding and_80_eq_0_iff u using assms by simp
  have h: "der_header (der_body R S) = Inr 2"
    using s by (simp add: der_header_def b der_unless_def der_at_def)
  have i1: "der_int (der_body R S) 2 = Inr (4, length R, 4 + length R)"
    using der_int_short[of R ?hd "[0x02, word_of_nat (length S)] @ S"] assms by (simp add: b eval_nat_numeral)
  have i2: "der_int (der_body R S) (4 + length R) = Inr (6 + length R, length S, 6 + length R + length S)"
    using der_int_short[of S "?rint @ R" "[]"] assms by (simp add: b eval_nat_numeral)
  have c1: "der_copy (der_body R S) 32 4 (length R) (t, f) =
      Inr (if length (strip R) > 32 then (t, True) else (memcpy_at t (32 - length (strip R)) (strip R), f))" for t f
    using der_copy_strip[of ?rint R "[0x02, word_of_nat (length S)] @ S" 32 t f] by (simp add: b eval_nat_numeral)
  have c2: "der_copy (der_body R S) 64 (6 + length R) (length S) (t, f) =
      Inr (if length (strip S) > 32 then (t, True) else (memcpy_at t (64 - length (strip S)) (strip S), f))" for t f
    using der_copy_strip[of ?sint S "[]" 64 t f] by (simp add: b eval_nat_numeral)
  show ?thesis
    by (simp add: ecdsa_signature_parse_der_lax_def h i1 i2 c1 c2 memcpy_pad)
      (auto simp: der_finish_def Let_def split: prod.split)
qed

section \<open>Properties\<close>

text \<open>
  The lax parser of signatures never reads outside the signature, whatever bytes it is given.
\<close>

theorem der_parser_in_bounds: "ecdsa_signature_parse_der_lax C input \<noteq> Inl Der_out_of_bounds"
  by (rule parse_der_lax_safe)

text \<open>
  The lax parser agrees with strict DER: on every signature that \<open>IsDERSignature\<close> accepts, less its
  hash type byte, it hands the library the two integers of the signature, padded to 32 bytes each,
  or zeros when one of them is larger.
\<close>

theorem der_parser_strict:
  assumes "IsDERSignature v True"
  shows "\<exists>R S h. v = der_signature R S h \<and> der_integer R \<and> der_integer S \<and>
    ecdsa_signature_parse_der_lax C (butlast v) =
      Inr (if length (strip R) \<le> 32 \<and> length (strip S) \<le> 32
           then der_finish C (pad32 (strip R) @ pad32 (strip S)) False
           else fst (parse_compact C (replicate 64 0)))"
proof -
  obtain R S h where v: "v = der_signature R S h" "der_integer R" "der_integer S" "length R + length S \<le> 66"
    using assms IsDERSignature_iff by blast
  then show ?thesis using parse_strict[OF v(4)] by (auto simp: der_signature_body intro!: exI)
qed

text \<open>A library that keeps signatures and keys as their bytes.\<close>

definition plain_secp :: "(bytes, bytes) secp" where
  "plain_secp = \<lparr>parse_compact = \<lambda>b. (b, True), sig_normalize = \<lambda>s. (s, False),
     ec_pubkey_parse = Some, ecdsa_verify = \<lambda>s h p. True\<rparr>"

lemma der_parser_strict_witness:
  "\<exists>R S h. [0x30, 6, 2, 1, 5, 2, 1, 7, 1] = der_signature R S h \<and> der_integer R \<and> der_integer S \<and>
    ecdsa_signature_parse_der_lax plain_secp (butlast [0x30, 6, 2, 1, 5, 2, 1, 7, 1]) =
      Inr (if length (strip R) \<le> 32 \<and> length (strip S) \<le> 32
           then der_finish plain_secp (pad32 (strip R) @ pad32 (strip S)) False
           else fst (parse_compact plain_secp (replicate 64 0)))"
proof (rule der_parser_strict)
  show "IsDERSignature [0x30, 6, 2, 1, 5, 2, 1, 7, 1] True" by code_simp
qed

end
