(* ===== verification/SigCache.thy ===== *)
theory SigCache
  imports PubKey
begin

text \<open>
  Signature checking with its cache: \<open>CSignatureCache\<close>, \<open>CheckSig\<close> and
  \<open>SignatureChecker::CheckSig\<close> of \<open>src/src/script.cpp\<close>.  The \<open>std::set\<close> of the cache is
  the list of its elements in order; \<open>GetRandHash\<close> is a stream of hashes and the cache size
  option an argument.  The main result: with a cache of verified signatures the answer is that of
  the checker without one, and the cache stays of that kind and bounded.
\<close>

section \<open>The order of the set\<close>

type_synonym sigdata = "uint256 \<times> bytes \<times> pubkey"

fun vec_less :: "bytes \<Rightarrow> bytes \<Rightarrow> bool" where
  "vec_less _ [] = False"
| "vec_less [] (y # ys) = True"
| "vec_less (x # xs) (y # ys) = (x < y \<or> (\<not> y < x \<and> vec_less xs ys))"

definition sigdata_less :: "sigdata \<Rightarrow> sigdata \<Rightarrow> bool" where
  "sigdata_less a b =
     (case a of (h, s, p) \<Rightarrow> case b of (h', s', p') \<Rightarrow>
        h < h' \<or> (\<not> h' < h \<and> (vec_less s s' \<or> (\<not> vec_less s' s \<and> pk_less p p'))))"

definition sigdata_equiv :: "sigdata \<Rightarrow> sigdata \<Rightarrow> bool" where
  "sigdata_equiv a b \<longleftrightarrow> \<not> sigdata_less a b \<and> \<not> sigdata_less b a"

fun set_insert :: "sigdata \<Rightarrow> sigdata list \<Rightarrow> sigdata list" where
  "set_insert k [] = [k]"
| "set_insert k (x # xs) =
     (if sigdata_less k x then k # x # xs
      else if sigdata_less x k then x # set_insert k xs else x # xs)"

definition set_erase :: "sigdata \<Rightarrow> sigdata list \<Rightarrow> sigdata list" where
  "set_erase k xs = filter (\<lambda>x. \<not> sigdata_equiv x k) xs"

definition lower_bound :: "sigdata \<Rightarrow> sigdata list \<Rightarrow> sigdata list" where
  "lower_bound k xs = dropWhile (\<lambda>x. sigdata_less x k) xs"

lemma vec_less_irrefl: "\<not> vec_less s s"
  by (induction s) auto

lemma vec_less_total: "\<not> vec_less s t \<Longrightarrow> \<not> vec_less t s \<Longrightarrow> s = t"
  by (induction s t rule: vec_less.induct) (auto elim: vec_less.elims)

lemma memcmp_less_irrefl: "\<not> memcmp_less s s"
  by (induction s) auto

lemma memcmp_less_total:
  "length s = length t \<Longrightarrow> \<not> memcmp_less s t \<Longrightarrow> \<not> memcmp_less t s \<Longrightarrow> s = t"
  by (induction s t rule: memcmp_less.induct) (auto simp: not_less)

lemma pk_less_irrefl: "\<not> pk_less p p"
  by (simp add: pk_less_def memcmp_less_irrefl)

lemma pk_equiv_Raw:
  assumes "wf_pubkey p" "wf_pubkey q" "\<not> pk_less p q" "\<not> pk_less q p"
  shows "p ! 0 = q ! 0 \<and> pk_Raw p = pk_Raw q"
proof -
  have "p ! 0 = q ! 0" using assms(3,4) by (force simp: pk_less_def)
  moreover then have "pk_size p = pk_size q" by (simp add: pk_size_def)
  ultimately show ?thesis
    using assms memcmp_less_total[of "take (pk_size q) p" "take (pk_size q) q"]
    by (auto simp: pk_less_def pk_Raw_def wf_pubkey_def)
qed

lemma sigdata_equiv_refl: "sigdata_equiv k k"
  by (cases k) (auto simp: sigdata_equiv_def sigdata_less_def vec_less_irrefl pk_less_irrefl)

lemma sigdata_equivD:
  assumes "sigdata_equiv (h, s, p) (h', s', p')" "wf_pubkey p" "wf_pubkey p'"
  shows "h = h' \<and> s = s' \<and> p ! 0 = p' ! 0 \<and> pk_Raw p = pk_Raw p'"
proof -
  have h: "h = h'" using assms(1) by (force simp: sigdata_equiv_def sigdata_less_def)
  then have s: "s = s'" using assms(1) vec_less_total[of s s'] by (auto simp: sigdata_equiv_def sigdata_less_def)
  then have "\<not> pk_less p p' \<and> \<not> pk_less p' p"
    using assms(1) h vec_less_irrefl by (auto simp: sigdata_equiv_def sigdata_less_def)
  then show ?thesis using h s pk_equiv_Raw[OF assms(2,3)] by simp
qed

lemma set_insert_members: "set (set_insert k xs) \<subseteq> insert k (set xs)"
  by (induction k xs rule: set_insert.induct) auto

lemma length_set_insert: "length (set_insert k xs) \<le> length xs + 1"
  by (induction k xs rule: set_insert.induct) auto

lemma set_erase_subset: "set (set_erase k xs) \<subseteq> set xs"
  by (auto simp: set_erase_def)

lemma set_erase_shorter: "k \<in> set xs \<Longrightarrow> length (set_erase k xs) < length xs"
  unfolding set_erase_def by (rule length_filter_less) (auto simp: sigdata_equiv_refl)

lemma lower_bound_hd: "lower_bound k xs \<noteq> [] \<Longrightarrow> hd (lower_bound k xs) \<in> set xs"
  unfolding lower_bound_def using hd_in_set set_dropWhileD by metis

section \<open>The cache\<close>

definition cache_Get :: "sigdata list \<Rightarrow> uint256 \<Rightarrow> bytes \<Rightarrow> pubkey \<Rightarrow> bool" where
  "cache_Get setValid hash vchSig pubKey \<longleftrightarrow> list_ex (\<lambda>x. sigdata_equiv x (hash, vchSig, pubKey)) setValid"

text \<open>Evicting random entries; the \<open>i\<close>th random hash is \<open>rnd i\<close>.\<close>

definition evict_choice :: "uint256 \<Rightarrow> sigdata list \<Rightarrow> sigdata" where
  "evict_choice randomHash setValid =
     (let it = lower_bound (randomHash, [], mk_pubkey []) setValid
      in if it = [] then hd setValid else hd it)"

lemma evict_choice_member: "setValid \<noteq> [] \<Longrightarrow> evict_choice h setValid \<in> set setValid"
  by (simp add: evict_choice_def Let_def lower_bound_hd)

function cache_evict :: "nat \<Rightarrow> (nat \<Rightarrow> uint256) \<Rightarrow> nat \<Rightarrow> sigdata list \<Rightarrow> sigdata list" where
  "cache_evict nMaxCacheSize rnd i setValid =
     (if length setValid > nMaxCacheSize
      then cache_evict nMaxCacheSize rnd (i + 1) (set_erase (evict_choice (rnd i) setValid) setValid)
      else setValid)"
  by auto
termination
proof (relation "measure (\<lambda>(n, rnd, i, s). length s)")
  fix n i :: nat and rnd :: "nat \<Rightarrow> uint256" and s :: "sigdata list"
  assume "n < length s"
  then have "evict_choice (rnd i) s \<in> set s" by (intro evict_choice_member) auto
  then show "((n, rnd, i + 1, set_erase (evict_choice (rnd i) s) s), n, rnd, i, s)
      \<in> measure (\<lambda>(n, rnd, i, s). length s)"
    using set_erase_shorter by simp
qed simp

declare cache_evict.simps [simp del]

definition cache_Set ::
  "int \<Rightarrow> (nat \<Rightarrow> uint256) \<Rightarrow> sigdata list \<Rightarrow> uint256 \<Rightarrow> bytes \<Rightarrow> pubkey \<Rightarrow> sigdata list" where
  "cache_Set nMaxCacheSize rnd setValid hash vchSig pubKey =
     (if nMaxCacheSize \<le> 0 then setValid
      else set_insert (hash, vchSig, pubKey) (cache_evict (nat nMaxCacheSize) rnd 0 setValid))"

lemma cache_evict_bounds:
  "length (cache_evict n rnd i s) \<le> n \<and> set (cache_evict n rnd i s) \<subseteq> set s"
proof (induction n rnd i s rule: cache_evict.induct)
  case (1 n rnd i s)
  then show ?case
    using set_erase_subset[of "evict_choice (rnd i) s" s] by (subst (1 2) cache_evict.simps) auto
qed

lemma cache_Set_members: "set (cache_Set n rnd s h sig pk) \<subseteq> insert (h, sig, pk) (set s)"
  using set_insert_members[of "(h, sig, pk)" "cache_evict (nat n) rnd 0 s"]
    cache_evict_bounds[of "nat n" rnd 0 s]
  by (auto simp: cache_Set_def)

lemma cache_Set_length: "0 < n \<Longrightarrow> int (length (cache_Set n rnd s h sig pk)) \<le> n + 1"
  using length_set_insert[of "(h, sig, pk)" "cache_evict (nat n) rnd 0 s"] cache_evict_bounds[of "nat n" rnd 0 s]
  by (auto simp: cache_Set_def)

section \<open>Checking signatures\<close>

text \<open>What the checks take from outside: hashing, the curve library, the option and the random hashes.\<close>

record ('sig, 'pk) sig_env = "('sig, 'pk) secp" +
  Hash256 :: "bytes \<Rightarrow> uint256"
  maxsigcachesize :: int
  RandHash :: "nat \<Rightarrow> uint256"

definition CheckSig_cached ::
  "('sig, 'pk, 'e) sig_env_scheme \<Rightarrow> sigdata list \<Rightarrow> bytes \<Rightarrow> bytes \<Rightarrow> script \<Rightarrow> CTransaction \<Rightarrow> nat \<Rightarrow>
     uint32 \<Rightarrow> uint32 \<Rightarrow> bool \<times> sigdata list" where
  "CheckSig_cached V cache vchSig vchPubKey scriptCode txTo nIn nHashType flags =
     (let pubkey = mk_pubkey vchPubKey
      in if \<not> pk_IsValid pubkey then (False, cache)
         else if vchSig = [] then (False, cache)
         else if nHashType \<noteq> 0 \<and> nHashType \<noteq> ucast (last vchSig) then (False, cache)
         else
           let nHashType = (if nHashType = 0 then ucast (last vchSig) else nHashType);
               vchSig = butlast vchSig;
               sighash = SignatureHash (Hash256 V) scriptCode txTo nIn nHashType
           in if cache_Get cache sighash vchSig pubkey then (True, cache)
              else if \<not> pk_Verify V pubkey sighash vchSig then (False, cache)
              else if flags AND SCRIPT_VERIFY_NOCACHE = 0
              then (True, cache_Set (maxsigcachesize V) (RandHash V) cache sighash vchSig pubkey)
              else (True, cache))"

definition SignatureChecker_CheckSig ::
  "('sig, 'pk, 'e) sig_env_scheme \<Rightarrow> CTransaction \<Rightarrow> nat \<Rightarrow> bytes \<Rightarrow> bytes \<Rightarrow> script \<Rightarrow> bool" where
  "SignatureChecker_CheckSig V txTo nIn vchSigIn vchPubKey scriptCode =
     (let pubkey = mk_pubkey vchPubKey
      in if \<not> pk_IsValid pubkey then False
         else if vchSigIn = [] then False
         else
           let nHashType = ucast (last vchSigIn);
               vchSig = butlast vchSigIn;
               sighash = SignatureHash (Hash256 V) scriptCode txTo nIn nHashType
           in if \<not> pk_Verify V pubkey sighash vchSig then False else True)"

section \<open>The cache is transparent\<close>

definition cache_ok :: "('sig, 'pk, 'e) sig_env_scheme \<Rightarrow> sigdata list \<Rightarrow> bool" where
  "cache_ok V cache \<longleftrightarrow>
     list_all (\<lambda>(h, s, p). wf_pubkey p \<and> pk_Verify V p h s) cache \<and>
     int (length cache) \<le> max 0 (maxsigcachesize V) + 1"

lemma pk_Verify_Raw:
  assumes "p ! 0 = q ! 0" "pk_Raw p = pk_Raw q"
  shows "pk_Verify V p h s = pk_Verify V q h s"
  using assms by (simp add: pk_Verify_def pk_IsValid_def pk_size_def)

lemma cache_Get_verified:
  assumes "cache_ok V cache" "cache_Get cache h s p" "wf_pubkey p"
  shows "pk_Verify V p h s"
proof -
  obtain h' s' p' where m: "(h', s', p') \<in> set cache" and e: "sigdata_equiv (h', s', p') (h, s, p)"
    using assms(2) by (auto simp: cache_Get_def list_ex_iff)
  then have v: "wf_pubkey p'" "pk_Verify V p' h' s'" using assms(1) by (auto simp: cache_ok_def list_all_iff)
  then show ?thesis using sigdata_equivD[OF e v(1) assms(3)] pk_Verify_Raw by metis
qed

lemma cache_ok_Set:
  assumes "cache_ok V cache" "wf_pubkey p" "pk_Verify V p h s"
  shows "cache_ok V (cache_Set (maxsigcachesize V) rnd cache h s p)"
proof -
  have "list_all (\<lambda>(h, s, p). wf_pubkey p \<and> pk_Verify V p h s) (cache_Set (maxsigcachesize V) rnd cache h s p)"
    using cache_Set_members[of "maxsigcachesize V" rnd cache h s p] assms
    by (fastforce simp: cache_ok_def list_all_iff)
  moreover have "int (length (cache_Set (maxsigcachesize V) rnd cache h s p)) \<le> max 0 (maxsigcachesize V) + 1"
  proof (cases "maxsigcachesize V \<le> 0")
    case True
    then show ?thesis using assms(1) by (simp add: cache_Set_def cache_ok_def)
  next
    case False
    then show ?thesis using cache_Set_length[of "maxsigcachesize V" rnd cache h s p] by simp
  qed
  ultimately show ?thesis by (simp add: cache_ok_def)
qed

section \<open>Properties\<close>

text \<open> C29.
  The signature cache cannot be observed: with a cache that holds only verified signatures,
  \<open>CheckSig\<close> answers as the checker without a cache does (given that the hash type asked for is
  that of the signature), and the cache it leaves again holds only verified signatures and at most
  one more than the configured size.
\<close>

theorem signature_cache_transparent:
  assumes "cache_ok V cache"
  shows "fst (CheckSig_cached V cache vchSig vchPubKey code tx nIn nHashType flags) =
      ((if nHashType = 0 then True else vchSig \<noteq> [] \<and> nHashType = ucast (last vchSig)) \<and>
       SignatureChecker_CheckSig V tx nIn vchSig vchPubKey code) \<and>
    cache_ok V (snd (CheckSig_cached V cache vchSig vchPubKey code tx nIn nHashType flags))"
  using assms cache_Get_verified[OF assms _ wf_mk_pubkey] cache_ok_Set[OF assms wf_mk_pubkey]
  by (auto simp: CheckSig_cached_def SignatureChecker_CheckSig_def Let_def)

lemma signature_cache_transparent_witness:
  "cache_ok (secp.extend plain_secp (sig_env.fields (\<lambda>b. 0) 1 (\<lambda>i. 0)))
     (snd (CheckSig_cached (secp.extend plain_secp (sig_env.fields (\<lambda>b. 0) 1 (\<lambda>i. 0))) []
       [0x30, 6, 2, 1, 5, 2, 1, 7, 1] (2 # replicate 32 9) [0xac] (sample_tx 7) 0 0 0))"
  using signature_cache_transparent[of "secp.extend plain_secp (sig_env.fields (\<lambda>b. 0) 1 (\<lambda>i. 0))" "[]"
      "[0x30, 6, 2, 1, 5, 2, 1, 7, 1]" "2 # replicate 32 9" "[0xac]" "sample_tx 7" 0 0 0]
  by (simp add: cache_ok_def)

end
