(* ===== verification/Solver.thy ===== *)
theory Solver
  imports SigCache
begin

text \<open>
  Recognising standard scripts: the template matcher \<open>Solver\<close> of \<open>src/src/script.cpp\<close>,
  the scripts of destinations and of multiple signatures, and the functions that read a
  destination back.  The templates are in the order of the \<open>multimap\<close>: by type, and equal
  types in order of insertion.
\<close>

section \<open>Types and templates\<close>

datatype txnouttype =
    TX_NONSTANDARD
  | TX_PUBKEY
  | TX_PUBKEYHASH
  | TX_SCRIPTHASH
  | TX_MULTISIG
  | TX_NULL_DATA

definition GetTxnOutputType :: "txnouttype \<Rightarrow> string" where
  "GetTxnOutputType t =
     (case t of
        TX_NONSTANDARD \<Rightarrow> ''nonstandard''
      | TX_PUBKEY \<Rightarrow> ''pubkey''
      | TX_PUBKEYHASH \<Rightarrow> ''pubkeyhash''
      | TX_SCRIPTHASH \<Rightarrow> ''scripthash''
      | TX_MULTISIG \<Rightarrow> ''multisig''
      | TX_NULL_DATA \<Rightarrow> ''nulldata'')"

definition script_of_ops :: "nat list \<Rightarrow> script" where
  "script_of_ops ops = foldl (\<lambda>s opcode. push_opcode opcode s) [] ops"

definition mTemplates :: "(txnouttype \<times> script) list" where
  "mTemplates =
    [(TX_PUBKEY, script_of_ops [OP_PUBKEY, OP_CHECKSIG]),
     (TX_PUBKEYHASH, script_of_ops [OP_DUP, OP_HASH160, OP_PUBKEYHASH, OP_EQUALVERIFY, OP_CHECKSIG]),
     (TX_MULTISIG, script_of_ops [OP_SMALLINTEGER, OP_PUBKEYS, OP_SMALLINTEGER, OP_CHECKMULTISIG]),
     (TX_NULL_DATA, script_of_ops [OP_RETURN, OP_SMALLDATA]),
     (TX_NULL_DATA, script_of_ops [OP_RETURN])]"

section \<open>The matcher\<close>

text \<open>
  The inner loop on \<open>OP_PUBKEYS\<close>: the current instruction, the position after it and the
  solutions.  When \<open>GetOp\<close> fails it has cleared the data and set the invalid opcode.
\<close>

function match_pubkeys ::
  "nat \<Rightarrow> bytes \<Rightarrow> script \<Rightarrow> bytes list \<Rightarrow> nat \<times> bytes \<times> script \<times> bytes list" where
  "match_pubkeys opcode1 vch1 pc1 vSolutions =
     (if length vch1 \<ge> 33 \<and> length vch1 \<le> 120 then
        (let vSolutions = vSolutions @ [vch1]
         in case GetOp2 pc1 of
              None \<Rightarrow> (OP_INVALIDOPCODE, [], GetOp2_pc pc1, vSolutions)
            | Some (opcode1, vch1, pc1) \<Rightarrow> match_pubkeys opcode1 vch1 pc1 vSolutions)
      else (opcode1, vch1, pc1, vSolutions))"
  by auto
termination
  by (relation "measure (\<lambda>(op, v, pc, sols). length pc)") (auto dest: GetOp2_shorter)

declare match_pubkeys.simps [simp del]

text \<open>One instruction against a template instruction: the new solutions, or \<open>None\<close> for \<open>break\<close>.\<close>

definition match_op :: "nat \<Rightarrow> bytes \<Rightarrow> nat \<Rightarrow> bytes \<Rightarrow> bytes list \<Rightarrow> bytes list option" where
  "match_op opcode1 vch1 opcode2 vch2 vSolutions =
     (if opcode2 = OP_PUBKEY then
        (if length vch1 < 33 \<or> length vch1 > 120 then None else Some (vSolutions @ [vch1]))
      else if opcode2 = OP_PUBKEYHASH then
        (if length vch1 \<noteq> 20 then None else Some (vSolutions @ [vch1]))
      else if opcode2 = OP_SMALLINTEGER then
        (case DecodeOP_N opcode1 of
           None \<Rightarrow> None
         | Some n \<Rightarrow> Some (vSolutions @ [[word_of_nat n]]))
      else if opcode2 = OP_SMALLDATA then
        (if length vch1 > MAX_OP_RETURN_RELAY then None else Some vSolutions)
      else if opcode1 \<noteq> opcode2 \<or> vch1 \<noteq> vch2 then None
      else Some vSolutions)"

function match_template :: "script \<Rightarrow> script \<Rightarrow> bytes list \<Rightarrow> bytes list option" where
  "match_template pc1 pc2 vSolutions =
     (if pc1 = [] \<and> pc2 = [] then Some vSolutions
      else case GetOp2 pc1 of
             None \<Rightarrow> None
           | Some (opcode1, vch1, pc1) \<Rightarrow>
               (case GetOp2 pc2 of
                  None \<Rightarrow> None
                | Some (opcode2, vch2, pc2') \<Rightarrow>
                    if opcode2 = OP_PUBKEYS then
                      (case match_pubkeys opcode1 vch1 pc1 vSolutions of
                         (opcode1, vch1, pc1, vSolutions) \<Rightarrow>
                           (case GetOp2 pc2' of
                              None \<Rightarrow> None
                            | Some (opcode2, vch2, pc2) \<Rightarrow>
                                (case match_op opcode1 vch1 opcode2 vch2 vSolutions of
                                   None \<Rightarrow> None
                                 | Some vSolutions \<Rightarrow> match_template pc1 pc2 vSolutions)))
                    else
                      (case match_op opcode1 vch1 opcode2 vch2 vSolutions of
                         None \<Rightarrow> None
                       | Some vSolutions \<Rightarrow> match_template pc1 pc2' vSolutions)))"
  by pat_completeness auto
termination
  by (relation "measure (\<lambda>(pc1, pc2, sols). length pc2)") (auto dest!: GetOp2_shorter)

declare match_template.simps [simp del]

text \<open>The checks on a match; a failing one returns false but leaves type and solutions.\<close>

definition multisig_match_ok :: "bytes list \<Rightarrow> bool" where
  "multisig_match_ok vSolutions \<longleftrightarrow>
     (let m = hd (hd vSolutions); n = hd (last vSolutions)
      in \<not> (m < 1 \<or> n < 1 \<or> m > n \<or> length vSolutions - 2 \<noteq> unat n))"

fun scan_templates :: "(txnouttype \<times> script) list \<Rightarrow> script \<Rightarrow> bool \<times> txnouttype \<times> bytes list" where
  "scan_templates [] script1 = (False, TX_NONSTANDARD, [])"
| "scan_templates ((t, script2) # ts) script1 =
     (case match_template script1 script2 [] of
        None \<Rightarrow> scan_templates ts script1
      | Some vSolutions \<Rightarrow>
          if t = TX_MULTISIG \<and> \<not> multisig_match_ok vSolutions then (False, t, vSolutions)
          else (True, t, vSolutions))"

definition Solver :: "script \<Rightarrow> bool \<times> txnouttype \<times> bytes list" where
  "Solver s =
     (if IsPayToScriptHash s then (True, TX_SCRIPTHASH, [take 20 (drop 2 s)])
      else scan_templates mTemplates s)"

section \<open>Destinations\<close>

datatype 'st CTxDestination =
    CNoDestination
  | CKeyID uint160
  | CScriptID uint160
  | CStealthAddress 'st

text \<open>The result of the visitor and the script it leaves.\<close>

definition SetDestination :: "'st CTxDestination \<Rightarrow> bool \<times> script" where
  "SetDestination dest =
     (case dest of
        CNoDestination \<Rightarrow> (False, [])
      | CKeyID keyID \<Rightarrow>
          (True, push_opcode OP_CHECKSIG (push_opcode OP_EQUALVERIFY (push_uint160 keyID
             (push_opcode OP_HASH160 (push_opcode OP_DUP [])))))
      | CScriptID scriptID \<Rightarrow>
          (True, push_opcode OP_EQUAL (push_uint160 scriptID (push_opcode OP_HASH160 [])))
      | CStealthAddress _ \<Rightarrow> (False, []))"

definition GetScriptForDestination :: "'st CTxDestination \<Rightarrow> script" where
  "GetScriptForDestination dest = snd (SetDestination dest)"

text \<open>Pushing a key, with the assertion on its size; \<open>None\<close> is a failed assertion.\<close>

definition push_pubkey :: "pubkey \<Rightarrow> script \<Rightarrow> script option" where
  "push_pubkey key s =
     (if pk_size key < OP_PUSHDATA1 then Some (s @ [word_of_nat (pk_size key)] @ pk_Raw key) else None)"

fun push_pubkeys :: "pubkey list \<Rightarrow> script \<Rightarrow> script option" where
  "push_pubkeys [] s = Some s"
| "push_pubkeys (key # keys) s = Option.bind (push_pubkey key s) (push_pubkeys keys)"

definition SetMultisig :: "nat \<Rightarrow> pubkey list \<Rightarrow> script option" where
  "SetMultisig nRequired keys =
     Option.bind (EncodeOP_N nRequired) (\<lambda>m.
     Option.bind (push_pubkeys keys (push_opcode m [])) (\<lambda>s.
     Option.bind (EncodeOP_N (length keys)) (\<lambda>n.
       Some (push_opcode OP_CHECKMULTISIG (push_opcode n s)))))"

definition GetScriptForMultisig :: "nat \<Rightarrow> pubkey list \<Rightarrow> script option" where
  "GetScriptForMultisig nRequired keys =
     Option.bind (EncodeOP_N nRequired) (\<lambda>m.
     Option.bind (EncodeOP_N (length keys)) (\<lambda>n.
       Some (push_opcode OP_CHECKMULTISIG (push_opcode n
         (foldl (\<lambda>s key. push_data (pk_Raw key) s) (push_opcode m []) keys)))))"

definition ScriptSigArgsExpected :: "txnouttype \<Rightarrow> bytes list \<Rightarrow> int" where
  "ScriptSigArgsExpected t vSolutions =
     (case t of
        TX_NONSTANDARD \<Rightarrow> - 1
      | TX_NULL_DATA \<Rightarrow> - 1
      | TX_PUBKEY \<Rightarrow> 1
      | TX_PUBKEYHASH \<Rightarrow> 2
      | TX_MULTISIG \<Rightarrow>
          (if length vSolutions < 1 \<or> length (vSolutions ! 0) < 1 then - 1
           else int (unat (vSolutions ! 0 ! 0)) + 1)
      | TX_SCRIPTHASH \<Rightarrow> 1)"

definition IsStandard :: "script \<Rightarrow> bool \<times> txnouttype" where
  "IsStandard s =
     (case Solver s of
        (ok, whichType, vSolutions) \<Rightarrow>
          if \<not> ok then (False, whichType)
          else if whichType = TX_MULTISIG then
            let m = hd (hd vSolutions); n = hd (last vSolutions)
            in if n < 1 \<or> n > 3 then (False, whichType)
               else if m < 1 \<or> m > n then (False, whichType)
               else (whichType \<noteq> TX_NONSTANDARD, whichType)
          else (whichType \<noteq> TX_NONSTANDARD, whichType))"

text \<open>\<open>uint160(vector)\<close>, and the two readers of destinations.\<close>

definition uint160_of :: "bytes \<Rightarrow> uint160" where
  "uint160_of v = (if length v = 20 then bytes_word v else 0)"

definition ExtractDestination :: "(bytes \<Rightarrow> uint160) \<Rightarrow> script \<Rightarrow> 'st CTxDestination option" where
  "ExtractDestination H160 s =
     (case Solver s of
        (ok, whichType, vSolutions) \<Rightarrow>
          if \<not> ok then None
          else if whichType = TX_PUBKEY then Some (CKeyID (pk_GetID H160 (mk_pubkey (vSolutions ! 0))))
          else if whichType = TX_PUBKEYHASH then Some (CKeyID (uint160_of (vSolutions ! 0)))
          else if whichType = TX_SCRIPTHASH then Some (CScriptID (uint160_of (vSolutions ! 0)))
          else None)"

definition ExtractDestinations ::
  "(bytes \<Rightarrow> uint160) \<Rightarrow> script \<Rightarrow> (txnouttype \<times> 'st CTxDestination list \<times> nat) option" where
  "ExtractDestinations H160 s =
     (case Solver s of
        (ok, typeRet, vSolutions) \<Rightarrow>
          if \<not> ok then None
          else if typeRet = TX_NULL_DATA then None
          else if typeRet = TX_MULTISIG then
            Some (typeRet,
                  map (\<lambda>i. CKeyID (pk_GetID H160 (mk_pubkey (vSolutions ! i)))) [1..<length vSolutions - 1],
                  unat (hd (hd vSolutions)))
          else case ExtractDestination H160 s of
                 None \<Rightarrow> None
               | Some address \<Rightarrow> Some (typeRet, [address], 1))"

section \<open>Matching one instruction\<close>

lemma match_template_Nil: "match_template pc1 [] sols = (if pc1 = [] then Some sols else None)"
  by (subst match_template.simps) (auto split: option.splits)

lemma match_template_op:
  assumes "\<not> unat b \<le> OP_PUSHDATA4" "unat b \<noteq> OP_PUBKEYS"
  shows "match_template pc1 (b # pc2) sols =
    (case GetOp2 pc1 of
       None \<Rightarrow> None
     | Some (o1, v1, pc1) \<Rightarrow>
         (case match_op o1 v1 (unat b) [] sols of
            None \<Rightarrow> None | Some sols \<Rightarrow> match_template pc1 pc2 sols))"
  by (cases "GetOp2 pc1"; subst match_template.simps) (use assms in \<open>auto simp: GetOp2_nonpush split: prod.splits\<close>)

lemma match_template_keys:
  assumes "unat b = OP_PUBKEYS" "\<not> unat c \<le> OP_PUSHDATA4"
  shows "match_template pc1 (b # c # pc2) sols =
    (case GetOp2 pc1 of
       None \<Rightarrow> None
     | Some (o1, v1, pc1) \<Rightarrow>
         (case match_pubkeys o1 v1 pc1 sols of
            (o1, v1, pc1, sols) \<Rightarrow>
              (case match_op o1 v1 (unat c) [] sols of
                 None \<Rightarrow> None | Some sols \<Rightarrow> match_template pc1 pc2 sols)))"
  by (cases "GetOp2 pc1"; subst match_template.simps) (use assms in \<open>auto simp: GetOp2_nonpush split: prod.splits\<close>)

lemmas match_simps = match_template_Nil match_template_op match_template_keys

lemma match_template_Some:
  assumes "\<not> unat b \<le> OP_PUSHDATA4" "unat b \<noteq> OP_PUBKEYS"
  shows "match_template pc1 (b # pc2) sols = Some v \<longleftrightarrow>
    (\<exists>o1 v1 pc sols'. GetOp2 pc1 = Some (o1, v1, pc) \<and> match_op o1 v1 (unat b) [] sols = Some sols' \<and>
       match_template pc pc2 sols' = Some v)"
  unfolding match_template_op[OF assms] by (auto split: option.splits)

lemma match_template_keys_Some:
  assumes "unat b = OP_PUBKEYS" "\<not> unat c \<le> OP_PUSHDATA4"
  shows "match_template pc1 (b # c # pc2) sols = Some v \<longleftrightarrow>
    (\<exists>o1 v1 pc o2 v2 pc' sols' sols''. GetOp2 pc1 = Some (o1, v1, pc) \<and>
       match_pubkeys o1 v1 pc sols = (o2, v2, pc', sols') \<and>
       match_op o2 v2 (unat c) [] sols' = Some sols'' \<and> match_template pc' pc2 sols'' = Some v)"
  unfolding match_template_keys[OF assms] by (auto split: option.splits prod.splits)

lemma match_template_Nil_Some: "match_template pc1 [] sols = Some v \<longleftrightarrow> pc1 = [] \<and> v = sols"
  by (auto simp: match_template_Nil)

lemma match_op_iff:
  "match_op o1 v1 254 [] sols = Some v \<longleftrightarrow> 33 \<le> length v1 \<and> length v1 \<le> 120 \<and> v = sols @ [v1]"
  "match_op o1 v1 253 [] sols = Some v \<longleftrightarrow> length v1 = 20 \<and> v = sols @ [v1]"
  "match_op o1 v1 250 [] sols = Some v \<longleftrightarrow> (\<exists>n. DecodeOP_N o1 = Some n \<and> v = sols @ [[word_of_nat n]])"
  "match_op o1 v1 249 [] sols = Some v \<longleftrightarrow> length v1 \<le> 40 \<and> v = sols"
  by (auto simp: match_op_def MAX_OP_RETURN_RELAY_def split: option.splits if_splits)

lemma match_op_plain_iff:
  "k < 249 \<Longrightarrow> match_op o1 v1 k [] sols = Some v \<longleftrightarrow> o1 = k \<and> v1 = [] \<and> v = sols"
  by (auto simp: match_op_def split: if_splits)

lemmas match_iffs = match_template_Nil_Some match_template_Some match_template_keys_Some match_op_iff
  match_op_plain_iff

lemma template_scripts:
  "script_of_ops [OP_PUBKEY, OP_CHECKSIG] = [0xfe, 0xac]"
  "script_of_ops [OP_DUP, OP_HASH160, OP_PUBKEYHASH, OP_EQUALVERIFY, OP_CHECKSIG] = [0x76, 0xa9, 0xfd, 0x88, 0xac]"
  "script_of_ops [OP_SMALLINTEGER, OP_PUBKEYS, OP_SMALLINTEGER, OP_CHECKMULTISIG] = [0xfa, 0xfb, 0xfa, 0xae]"
  "script_of_ops [OP_RETURN, OP_SMALLDATA] = [0x6a, 0xf9]"
  "script_of_ops [OP_RETURN] = [0x6a]"
  by (simp_all add: script_of_ops_def push_opcode_def)

lemma Solver_templates:
  "\<not> IsPayToScriptHash s \<Longrightarrow> Solver s =
     (case match_template s [0xfe, 0xac] [] of
        Some v \<Rightarrow> (True, TX_PUBKEY, v)
      | None \<Rightarrow>
     (case match_template s [0x76, 0xa9, 0xfd, 0x88, 0xac] [] of
        Some v \<Rightarrow> (True, TX_PUBKEYHASH, v)
      | None \<Rightarrow>
     (case match_template s [0xfa, 0xfb, 0xfa, 0xae] [] of
        Some v \<Rightarrow> (multisig_match_ok v, TX_MULTISIG, v)
      | None \<Rightarrow>
     (case match_template s [0x6a, 0xf9] [] of
        Some v \<Rightarrow> (True, TX_NULL_DATA, v)
      | None \<Rightarrow>
     (case match_template s [0x6a] [] of
        Some v \<Rightarrow> (True, TX_NULL_DATA, v)
      | None \<Rightarrow> (False, TX_NONSTANDARD, []))))))"
  by (simp add: Solver_def mTemplates_def template_scripts split: option.split)

section \<open>What a match says of the solutions\<close>

definition key_sized :: "bytes \<Rightarrow> bool" where
  "key_sized v \<longleftrightarrow> 33 \<le> length v \<and> length v \<le> 120"

lemma match_pubkeys_solutions:
  "match_pubkeys o1 v1 pc1 sols = (o', v', pc', sols') \<Longrightarrow>
   \<exists>keys. sols' = sols @ keys \<and> list_all key_sized keys \<and> \<not> key_sized v'"
proof (induction "length pc1" arbitrary: o1 v1 pc1 sols rule: less_induct)
  case less
  show ?case
  proof (cases "key_sized v1")
    case False
    then have "match_pubkeys o1 v1 pc1 sols = (o1, v1, pc1, sols)"
      by (subst match_pubkeys.simps) (auto simp: key_sized_def)
    then show ?thesis using less.prems False by simp
  next
    case True
    show ?thesis
    proof (cases "GetOp2 pc1")
      case None
      then have "match_pubkeys o1 v1 pc1 sols = (OP_INVALIDOPCODE, [], GetOp2_pc pc1, sols @ [v1])"
        using True by (subst match_pubkeys.simps) (simp add: key_sized_def)
      then show ?thesis using less.prems True by (simp add: key_sized_def)
    next
      case (Some r)
      obtain o2 v2 pc2 where r: "r = (o2, v2, pc2)" by (cases r) auto
      have "match_pubkeys o1 v1 pc1 sols = match_pubkeys o2 v2 pc2 (sols @ [v1])"
        using True Some r by (subst match_pubkeys.simps) (simp add: key_sized_def)
      then obtain keys where "sols' = (sols @ [v1]) @ keys" "list_all key_sized keys" "\<not> key_sized v'"
        using less.hyps[of pc2 o2 v2 "sols @ [v1]"] less.prems GetOp2_shorter[of pc1 o2 v2 pc2] Some r by auto
      then show ?thesis using True by (intro exI[of _ "v1 # keys"]) simp
    qed
  qed
qed

lemma match_pubkey_solutions:
  "match_template s [0xfe, 0xac] [] = Some v \<Longrightarrow> \<exists>k. v = [k] \<and> key_sized k"
  by (auto simp: match_iffs key_sized_def)

lemma match_pubkeyhash_solutions:
  "match_template s [0x76, 0xa9, 0xfd, 0x88, 0xac] [] = Some v \<Longrightarrow> \<exists>h. v = [h] \<and> length h = 20"
  by (auto simp: match_iffs)

lemma match_null_solutions:
  "match_template s [0x6a, 0xf9] [] = Some v \<Longrightarrow> v = []" "match_template s [0x6a] [] = Some v \<Longrightarrow> v = []"
  by (auto simp: match_iffs)

lemma DecodeOP_N_le: "DecodeOP_N opcode = Some n \<Longrightarrow> n \<le> 16"
  by (auto simp: DecodeOP_N_def split: if_splits)

lemma match_multisig_solutions:
  assumes "match_template s [0xfa, 0xfb, 0xfa, 0xae] [] = Some v"
  shows "\<exists>m keys n. v = [word_of_nat m] # keys @ [[word_of_nat n]] \<and> m \<le> 16 \<and> n \<le> 16 \<and> list_all key_sized keys"
proof -
  obtain o1 m o1' v1 pc o2 v2 pc' sols n where m: "DecodeOP_N o1 = Some m"
    and k: "match_pubkeys o1' v1 pc [[word_of_nat m]] = (o2, v2, pc', sols)"
    and n: "DecodeOP_N o2 = Some n" and v: "v = sols @ [[word_of_nat n]]"
    using assms by (simp add: match_iffs) blast
  obtain keys where "sols = [[word_of_nat m]] @ keys" "list_all key_sized keys"
    using match_pubkeys_solutions[OF k] by blast
  then show ?thesis using v DecodeOP_N_le[OF m] DecodeOP_N_le[OF n] by auto
qed

text \<open>The shape of the solutions of each type.\<close>

fun solutions_ok :: "txnouttype \<Rightarrow> bytes list \<Rightarrow> bool" where
  "solutions_ok TX_NONSTANDARD v = False"
| "solutions_ok TX_PUBKEY v = (length v = 1 \<and> key_sized (v ! 0))"
| "solutions_ok TX_PUBKEYHASH v = (length v = 1 \<and> length (v ! 0) = 20)"
| "solutions_ok TX_SCRIPTHASH v = (length v = 1 \<and> length (v ! 0) = 20)"
| "solutions_ok TX_NULL_DATA v = (v = [])"
| "solutions_ok TX_MULTISIG v =
     (length v \<ge> 3 \<and> length (hd v) = 1 \<and> length (last v) = 1 \<and>
      1 \<le> unat (hd (hd v)) \<and> hd (hd v) \<le> hd (last v) \<and> unat (hd (last v)) \<le> 16 \<and>
      unat (hd (last v)) = length v - 2 \<and> list_all key_sized (butlast (tl v)))"

lemma Solver_solutions:
  assumes "Solver s = (True, t, v)"
  shows "solutions_ok t v"
proof (cases "IsPayToScriptHash s")
  case True
  then show ?thesis using assms by (auto simp: Solver_def IsPayToScriptHash_def)
next
  case False
  consider "t = TX_PUBKEY" "match_template s [0xfe, 0xac] [] = Some v"
    | "t = TX_PUBKEYHASH" "match_template s [0x76, 0xa9, 0xfd, 0x88, 0xac] [] = Some v"
    | "t = TX_MULTISIG" "match_template s [0xfa, 0xfb, 0xfa, 0xae] [] = Some v" "multisig_match_ok v"
    | "t = TX_NULL_DATA" "match_template s [0x6a, 0xf9] [] = Some v"
    | "t = TX_NULL_DATA" "match_template s [0x6a] [] = Some v"
    using assms unfolding Solver_templates[OF False] by (auto split: option.splits)
  then show ?thesis
  proof cases
    case 1
    then show ?thesis using match_pubkey_solutions by fastforce
  next
    case 2
    then show ?thesis using match_pubkeyhash_solutions by fastforce
  next
    case 3
    obtain m keys n where v: "v = [word_of_nat m] # keys @ [[word_of_nat n]]" "m \<le> 16" "n \<le> 16"
      "list_all key_sized keys"
      using match_multisig_solutions[OF 3(2)] by blast
    have u: "unat (word_of_nat m :: byte) = m" "unat (word_of_nat n :: byte) = n"
      using v(2,3) by (simp_all add: unat_small_byte)
    show ?thesis
      using 3(1,3) v u by (simp add: multisig_match_ok_def word_less_nat_alt word_le_nat_alt not_less)
  qed (use match_null_solutions in auto)
qed

section \<open>Recognising the scripts of destinations\<close>

lemma uint160_of_bytes: "uint160_of (word_bytes 20 w) = w"
  by (simp add: uint160_of_def bytes_word_word_bytes)

lemma script_KeyID: "GetScriptForDestination (CKeyID w) = p2pkh (word_bytes 20 w)"
  by (simp add: GetScriptForDestination_def SetDestination_def push_opcode_def push_uint160_def p2pkh_def)

lemma script_ScriptID: "GetScriptForDestination (CScriptID w) = [0xa9, 0x14] @ word_bytes 20 w @ [0x87]"
  by (simp add: GetScriptForDestination_def SetDestination_def push_opcode_def push_uint160_def)

lemma Solver_p2pkh:
  assumes "length h = 20"
  shows "Solver (p2pkh h) = (True, TX_PUBKEYHASH, [h])"
proof -
  have n: "\<not> IsPayToScriptHash (p2pkh h)" using assms by (simp add: IsPayToScriptHash_def p2pkh_def)
  have 1: "match_template (p2pkh h) [0xfe, 0xac] [] = None"
    by (simp add: p2pkh_def match_simps GetOp2_nonpush match_op_def)
  have 2: "match_template (p2pkh h) [0x76, 0xa9, 0xfd, 0x88, 0xac] [] = Some [h]"
    by (simp add: p2pkh_def match_simps GetOp2_nonpush GetOp2_20[OF assms] match_op_def assms)
  show ?thesis by (simp add: Solver_templates[OF n] 1 2)
qed

lemma Solver_p2sh:
  assumes "length h = 20"
  shows "Solver ([0xa9, 0x14] @ h @ [0x87]) = (True, TX_SCRIPTHASH, [h])"
proof -
  have "IsPayToScriptHash ([0xa9, 0x14] @ h @ [0x87])"
    using assms by (simp add: IsPayToScriptHash_def nth_append)
  then show ?thesis using assms by (simp add: Solver_def)
qed

lemma Solver_empty: "Solver [] = (False, TX_NONSTANDARD, [])"
  by (simp add: Solver_templates IsPayToScriptHash_def match_simps)

section \<open>Recognising multiple signature scripts\<close>

definition multisig_script :: "nat \<Rightarrow> bytes list \<Rightarrow> script" where
  "multisig_script m keys =
     [word_of_nat (80 + m)] @ concat (map (\<lambda>k. word_of_nat (length k) # k) keys) @
     [word_of_nat (80 + length keys), 0xae]"

definition key_pushed :: "bytes \<Rightarrow> bool" where
  "key_pushed k \<longleftrightarrow> 33 \<le> length k \<and> length k \<le> 75"

lemma GetOp2_small_push:
  assumes "length k \<le> 75"
  shows "GetOp2 (word_of_nat (length k) # k @ rest) = Some (length k, k, rest)"
proof -
  have "unat (word_of_nat (length k) :: byte) = length k" using assms by (intro unat_small_byte) simp
  then show ?thesis using assms by (simp add: GetOp2_def)
qed

abbreviation push_all :: "bytes list \<Rightarrow> script" where
  "push_all keys \<equiv> concat (map (\<lambda>k. word_of_nat (length k) # k) keys)"

lemma match_pubkeys_concat:
  assumes "list_all key_pushed keys" "key_pushed k" "unat nb = 80 + n" "1 \<le> n" "n \<le> 16"
  shows "match_pubkeys (length k) k (push_all keys @ [nb, 0xae]) sols = (80 + n, [], [0xae], sols @ k # keys)"
  using assms(1,2)
proof (induction keys arbitrary: k sols)
  case Nil
  have g: "GetOp2 [nb, 0xae] = Some (80 + n, [], [0xae])"
    using GetOp2_nonpush[of nb "[0xae]"] assms(3,4) by simp
  have "match_pubkeys (80 + n) [] [0xae] (sols @ [k]) = (80 + n, [], [0xae], sols @ [k])"
    by (subst match_pubkeys.simps) simp
  then show ?case using Nil g by (subst match_pubkeys.simps) (simp add: key_pushed_def)
next
  case (Cons k' keys)
  have "GetOp2 (word_of_nat (length k') # k' @ push_all keys @ [nb, 0xae]) =
      Some (length k', k', push_all keys @ [nb, 0xae])"
    using Cons.prems by (intro GetOp2_small_push) (simp add: key_pushed_def)
  then show ?case using Cons by (subst match_pubkeys.simps) (simp add: key_pushed_def)
qed

lemma Solver_multisig_bytes:
  assumes "1 \<le> m" "m \<le> length keys" "length keys \<le> 16" "list_all key_pushed keys"
    and mb: "unat mb = 80 + m" and nb: "unat nb = 80 + length keys"
  shows "Solver (mb # push_all keys @ [nb, 0xae]) =
    (True, TX_MULTISIG, [word_of_nat m] # keys @ [[word_of_nat (length keys)]])"
proof -
  obtain k ks where keys: "keys = k # ks" using assms(1,2) by (cases keys) auto
  have u: "unat (word_of_nat j :: byte) = j" if "j \<le> 16" for j
    using that by (intro unat_small_byte) simp
  have m: "1 \<le> m" "m \<le> 16" "1 \<le> length keys" using assms by simp_all
  have g: "GetOp2 (mb # r) = Some (80 + m, [], r)" for r
    using GetOp2_nonpush[of mb r] mb m by simp
  let ?s = "mb # push_all keys @ [nb, 0xae]"
  have n: "\<not> IsPayToScriptHash ?s" using mb m by (simp add: IsPayToScriptHash_def)
  have 1: "match_template ?s [0xfe, 0xac] [] = None" by (simp add: match_simps g match_op_def)
  have 2: "match_template ?s [0x76, 0xa9, 0xfd, 0x88, 0xac] [] = None"
    using m by (simp add: match_simps g match_op_def)
  have k: "GetOp2 (push_all keys @ [nb, 0xae]) = Some (length k, k, push_all ks @ [nb, 0xae])"
    using assms(4) GetOp2_small_push[of k] by (simp add: keys key_pushed_def)
  have p: "match_pubkeys (length k) k (push_all ks @ [nb, 0xae]) [[word_of_nat m]] =
      (80 + length keys, [], [0xae], [[word_of_nat m]] @ keys)"
    using match_pubkeys_concat[of ks k nb "length keys" "[[word_of_nat m]]"] nb assms(3,4) m(3)
    by (simp add: keys)
  have op: "match_op (80 + j) [] 250 [] sols = Some (sols @ [[word_of_nat j]])" if "1 \<le> j" "j \<le> 16" for j sols
    using that by (simp add: match_op_def DecodeOP_N_def)
  have 3: "match_template ?s [0xfa, 0xfb, 0xfa, 0xae] [] = Some ([word_of_nat m] # keys @ [[word_of_nat (length keys)]])"
    using op[OF m(1,2)] op[OF m(3) assms(3)] k p
    by (simp add: match_simps g GetOp2_nonpush match_op_def[of 174])
  have "multisig_match_ok ([word_of_nat m] # keys @ [[word_of_nat (length keys)]])"
    using u[of m] u[of "length keys"] m assms(2,3) keys
    by (auto simp: multisig_match_ok_def word_less_nat_alt not_less)
  then show ?thesis by (simp add: Solver_templates[OF n] 1 2 3)
qed

lemma Solver_multisig:
  assumes "1 \<le> m" "m \<le> length keys" "length keys \<le> 16" "list_all key_pushed keys"
  shows "Solver (multisig_script m keys) =
    (True, TX_MULTISIG, [word_of_nat m] # keys @ [[word_of_nat (length keys)]])"
proof -
  have u: "unat (word_of_nat (80 + j) :: byte) = 80 + j" if "j \<le> 16" for j
    using that by (intro unat_small_byte) simp
  show ?thesis
    unfolding multisig_script_def append_Cons append_Nil
    by (rule Solver_multisig_bytes[OF assms]) (rule u, use assms in simp)+
qed

definition key_ok :: "pubkey \<Rightarrow> bool" where
  "key_ok key \<longleftrightarrow> wf_pubkey key \<and> pk_IsValid key"

lemma key_ok_length: "key_ok key \<Longrightarrow> length (pk_Raw key) = pk_size key \<and> pk_size key \<in> {33, 65}"
  by (auto simp: key_ok_def pk_Raw_def pk_size_def wf_pubkey_def pk_IsValid_def pk_GetLen_def split: if_splits)

lemma key_ok_pushed: "list_all key_ok keys \<Longrightarrow> list_all key_pushed (map pk_Raw keys)"
  using key_ok_length by (fastforce simp: list_all_iff key_pushed_def)

lemma push_pubkeys_eq:
  "list_all key_ok keys \<Longrightarrow> push_pubkeys keys s = Some (s @ push_all (map pk_Raw keys))"
proof (induction keys arbitrary: s)
  case (Cons key keys)
  then have "push_pubkey key s = Some (s @ word_of_nat (length (pk_Raw key)) # pk_Raw key)"
    using key_ok_length[of key] by (auto simp: push_pubkey_def)
  then show ?case using Cons by simp
qed simp

lemma push_data_keys:
  "list_all key_ok keys \<Longrightarrow> foldl (\<lambda>s key. push_data (pk_Raw key) s) s keys = s @ push_all (map pk_Raw keys)"
proof (induction keys arbitrary: s)
  case (Cons key keys)
  then have "push_data (pk_Raw key) s = s @ word_of_nat (length (pk_Raw key)) # pk_Raw key"
    using key_ok_length[of key] by (auto simp: push_data_def)
  then show ?case using Cons by simp
qed simp

lemma EncodeOP_N_eq: "1 \<le> n \<Longrightarrow> n \<le> 16 \<Longrightarrow> EncodeOP_N n = Some (80 + n)"
  by (simp add: EncodeOP_N_def)

lemma multisig_scripts:
  assumes "1 \<le> m" "m \<le> 16" "1 \<le> length keys" "length keys \<le> 16" "list_all key_ok keys"
  shows "GetScriptForMultisig m keys = Some (multisig_script m (map pk_Raw keys))"
    "SetMultisig m keys = Some (multisig_script m (map pk_Raw keys))"
  using assms
  by (simp_all add: GetScriptForMultisig_def SetMultisig_def EncodeOP_N_eq push_data_keys push_pubkeys_eq
      multisig_script_def push_opcode_def)

section \<open>Properties\<close>

text \<open>
  What callers of the matcher rely on when they index the solutions: on success the solutions of
  every type have the shape of that type, with the counts of a multiple signature between one and
  sixteen, consistent with the number of keys, and every key of a plausible size.
\<close>

theorem solver_solutions_shape:
  assumes "Solver s = (True, t, v)"
  shows "solutions_ok t v"
  by (rule Solver_solutions[OF assms])

lemma solver_solutions_shape_witness:
  "Solver (p2pkh (replicate 20 1)) = (True, TX_PUBKEYHASH, [replicate 20 1]) \<and>
   solutions_ok TX_PUBKEYHASH [replicate 20 1]"
  using Solver_p2pkh[of "replicate 20 1"] solver_solutions_shape[of "p2pkh (replicate 20 1)"] by simp

text \<open>
  The script of a destination is read back as that destination; the two kinds of destination
  without a script are not read back at all.
\<close>

theorem destination_round_trip:
  "ExtractDestination H160 (GetScriptForDestination dest) =
    (case dest of CKeyID k \<Rightarrow> Some (CKeyID k) | CScriptID h \<Rightarrow> Some (CScriptID h) | _ \<Rightarrow> None)"
proof (cases dest)
  case (CKeyID k)
  then show ?thesis
    using Solver_p2pkh[of "word_bytes 20 k"] by (simp add: ExtractDestination_def script_KeyID uint160_of_bytes)
next
  case (CScriptID h)
  then show ?thesis
    using Solver_p2sh[of "word_bytes 20 h"] by (simp add: ExtractDestination_def script_ScriptID uint160_of_bytes)
qed (simp_all add: ExtractDestination_def GetScriptForDestination_def SetDestination_def Solver_empty)

text \<open>
  Multiple signature scripts: both writers produce the same script, without a failed assertion,
  for one to sixteen valid keys, and the matcher reads back the number of signatures and the keys
  in order; the script is standard exactly up to three keys.
\<close>

theorem multisig_round_trip:
  assumes "1 \<le> m" "m \<le> length keys" "length keys \<le> 16" "list_all key_ok keys"
  shows "\<exists>s. GetScriptForMultisig m keys = Some s \<and> SetMultisig m keys = Some s \<and>
    Solver s = (True, TX_MULTISIG, [word_of_nat m] # map pk_Raw keys @ [[word_of_nat (length keys)]]) \<and>
    IsStandard s = (length keys \<le> 3, TX_MULTISIG) \<and>
    ExtractDestinations H160 s = Some (TX_MULTISIG, map (\<lambda>k. CKeyID (H160 (pk_Raw k))) keys, m)"
proof -
  let ?s = "multisig_script m (map pk_Raw keys)"
  have solve: "Solver ?s = (True, TX_MULTISIG, [word_of_nat m] # map pk_Raw keys @ [[word_of_nat (length keys)]])"
    using Solver_multisig[of m "map pk_Raw keys"] assms key_ok_pushed by simp
  have u: "unat (word_of_nat m :: byte) = m" "unat (word_of_nat (length keys) :: byte) = length keys"
    using assms by (intro unat_small_byte; simp)+
  have std: "IsStandard ?s = (length keys \<le> 3, TX_MULTISIG)"
    using assms u by (auto simp: IsStandard_def solve word_less_nat_alt Let_def)
  have raw: "pk_GetID H160 (mk_pubkey (pk_Raw k)) = H160 (pk_Raw k)" if "k \<in> set keys" for k
    using that assms(4) pk_valid_Raw[of k]
    by (auto simp: list_all_iff key_ok_def pk_GetID_def pk_Raw_mk)
  have "map (\<lambda>i. CKeyID (pk_GetID H160 (mk_pubkey
      (([word_of_nat m] # map pk_Raw keys @ [[word_of_nat (length keys)]]) ! i)))) [1..<length keys + 1] =
      map (\<lambda>k. CKeyID (H160 (pk_Raw k))) keys"
    by (rule nth_equalityI) (simp_all add: nth_append raw del: upt_Suc)
  then have "ExtractDestinations H160 ?s = Some (TX_MULTISIG, map (\<lambda>k. CKeyID (H160 (pk_Raw k))) keys, m)"
    by (simp add: ExtractDestinations_def solve u del: upt_Suc)
  then show ?thesis using multisig_scripts[of m keys] assms solve std by auto
qed

lemma multisig_round_trip_witness:
  "\<exists>s. GetScriptForMultisig 1 [mk_pubkey (2 # replicate 32 5)] = Some s \<and> IsStandard s = (True, TX_MULTISIG)"
  using multisig_round_trip[of 1 "[mk_pubkey (2 # replicate 32 5)]" "\<lambda>b. 0"]
  by (auto simp: key_ok_def wf_mk_pubkey pk_IsValid_mk pubkey_bytes_def pk_GetLen_def)

end
