(* ===== verification/Uint256.thy ===== *)
theory Uint256
  imports Prelude
begin

text \<open>
  The multi-limb unsigned integers \<open>base_uint\<close> of \<open>src/src/uint256.h\<close> (of which
  \<open>uint160\<close>, \<open>uint256\<close> and \<open>uint512\<close> are the instances of 5, 8 and 16 limbs) as the list of
  their 32-bit limbs \<open>pn\<close>, least significant first, with every loop of the code written out.
  The other theories compute with the words \<open>160 word\<close> and \<open>256 word\<close>; the refinement theorem
  \<open>base_uint_refines_words\<close> is what allows that.  The text form goes through the table
  \<open>p_util_hexdigit\<close> of \<open>src/src/util.cpp\<close>.  The operators that only call others (the free
  operators on \<open>uint160\<close> and \<open>uint256\<close>) have no definition of their own; \<open>getdouble\<close> and the
  ad hoc test are not modelled.
\<close>

section \<open>The limbs\<close>

type_synonym limbs = "uint32 list"

text \<open>\<open>for (int i = 0; i < WIDTH; i++)\<close> over a state.\<close>

abbreviation each_limb :: "nat \<Rightarrow> (nat \<Rightarrow> 's \<Rightarrow> 's) \<Rightarrow> 's \<Rightarrow> 's" where
  "each_limb W f s \<equiv> fold f [0..<W] s"

definition uint_is_zero :: "limbs \<Rightarrow> bool" where
  "uint_is_zero pn = list_all (\<lambda>i. pn ! i = 0) [0..<length pn]"

definition uint_not :: "limbs \<Rightarrow> limbs" where
  "uint_not pn = map (\<lambda>i. NOT (pn ! i)) [0..<length pn]"

text \<open>\<open>while (++pn[i] == 0 && i < WIDTH-1) i++;\<close> and \<open>while (--pn[i] == -1 && i < WIDTH-1) i++;\<close>\<close>

function uint_inc_from :: "nat \<Rightarrow> limbs \<Rightarrow> limbs" where
  "uint_inc_from i pn =
     (let pn = pn[i := pn ! i + 1]
      in if pn ! i = 0 \<and> i < length pn - 1 then uint_inc_from (i + 1) pn else pn)"
  by auto
termination by (relation "measure (\<lambda>(i, pn). length pn - i)") auto

function uint_dec_from :: "nat \<Rightarrow> limbs \<Rightarrow> limbs" where
  "uint_dec_from i pn =
     (let pn = pn[i := pn ! i - 1]
      in if pn ! i = - 1 \<and> i < length pn - 1 then uint_dec_from (i + 1) pn else pn)"
  by auto
termination by (relation "measure (\<lambda>(i, pn). length pn - i)") auto

declare uint_inc_from.simps [simp del] uint_dec_from.simps [simp del]

definition uint_inc :: "limbs \<Rightarrow> limbs" where
  "uint_inc pn = uint_inc_from 0 pn"

definition uint_dec :: "limbs \<Rightarrow> limbs" where
  "uint_dec pn = uint_dec_from 0 pn"

definition uint_neg :: "limbs \<Rightarrow> limbs" where
  "uint_neg pn = uint_inc (map (\<lambda>i. NOT (pn ! i)) [0..<length pn])"

section \<open>Assignment and bitwise operators\<close>

definition uint_set64 :: "uint64 \<Rightarrow> limbs \<Rightarrow> limbs" where
  "uint_set64 b pn =
     fold (\<lambda>i pn. pn[i := 0]) [2..<length pn] (pn[0 := ucast b, 1 := ucast (drop_bit 32 b)])"

definition uint_xor :: "limbs \<Rightarrow> limbs \<Rightarrow> limbs" where
  "uint_xor pn b = each_limb (length pn) (\<lambda>i pn. pn[i := pn ! i XOR b ! i]) pn"

definition uint_and :: "limbs \<Rightarrow> limbs \<Rightarrow> limbs" where
  "uint_and pn b = each_limb (length pn) (\<lambda>i pn. pn[i := pn ! i AND b ! i]) pn"

definition uint_or :: "limbs \<Rightarrow> limbs \<Rightarrow> limbs" where
  "uint_or pn b = each_limb (length pn) (\<lambda>i pn. pn[i := pn ! i OR b ! i]) pn"

definition uint_xor64 :: "limbs \<Rightarrow> uint64 \<Rightarrow> limbs" where
  "uint_xor64 pn b =
     (let pn = pn[0 := pn ! 0 XOR ucast b] in pn[1 := pn ! 1 XOR ucast (drop_bit 32 b)])"

definition uint_or64 :: "limbs \<Rightarrow> uint64 \<Rightarrow> limbs" where
  "uint_or64 pn b =
     (let pn = pn[0 := pn ! 0 OR ucast b] in pn[1 := pn ! 1 OR ucast (drop_bit 32 b)])"

section \<open>Shifts\<close>

definition uint_shl_step :: "nat \<Rightarrow> nat \<Rightarrow> nat \<Rightarrow> limbs \<Rightarrow> nat \<Rightarrow> limbs \<Rightarrow> limbs" where
  "uint_shl_step W k shift a i pn =
     (let pn = (if i + k + 1 < W \<and> shift \<noteq> 0
                then pn[i + k + 1 := pn ! (i + k + 1) OR drop_bit (32 - shift) (a ! i)]
                else pn)
      in if i + k < W then pn[i + k := pn ! (i + k) OR push_bit shift (a ! i)] else pn)"

definition uint_shl :: "limbs \<Rightarrow> uint32 \<Rightarrow> limbs" where
  "uint_shl a n =
     (let W = length a; k = unat n div 32; shift = unat n mod 32
      in each_limb W (uint_shl_step W k shift a) (replicate W 0))"

definition uint_shr_step :: "nat \<Rightarrow> nat \<Rightarrow> nat \<Rightarrow> limbs \<Rightarrow> nat \<Rightarrow> limbs \<Rightarrow> limbs" where
  "uint_shr_step W k shift a i pn =
     (let pn = (if int i - int k - 1 \<ge> 0 \<and> shift \<noteq> 0
                then pn[i - k - 1 := pn ! (i - k - 1) OR push_bit (32 - shift) (a ! i)]
                else pn)
      in if int i - int k \<ge> 0 then pn[i - k := pn ! (i - k) OR drop_bit shift (a ! i)] else pn)"

definition uint_shr :: "limbs \<Rightarrow> uint32 \<Rightarrow> limbs" where
  "uint_shr a n =
     (let W = length a; k = unat n div 32; shift = unat n mod 32
      in each_limb W (uint_shr_step W k shift a) (replicate W 0))"

section \<open>Sums and differences\<close>

definition uint_add_step :: "limbs \<Rightarrow> nat \<Rightarrow> uint64 \<times> limbs \<Rightarrow> uint64 \<times> limbs" where
  "uint_add_step b i = (\<lambda>(carry, pn).
     (let n = carry + ucast (pn ! i) + ucast (b ! i)
      in (drop_bit 32 n, pn[i := ucast (n AND 0xffffffff)])))"

definition uint_add :: "limbs \<Rightarrow> limbs \<Rightarrow> limbs" where
  "uint_add pn b = snd (each_limb (length pn) (uint_add_step b) (0, pn))"

definition uint_sub :: "limbs \<Rightarrow> limbs \<Rightarrow> limbs" where
  "uint_sub pn b = uint_add pn (uint_neg b)"

definition uint_add64 :: "limbs \<Rightarrow> uint64 \<Rightarrow> limbs" where
  "uint_add64 pn b64 = uint_add pn (uint_set64 b64 (replicate (length pn) 0))"

definition uint_sub64 :: "limbs \<Rightarrow> uint64 \<Rightarrow> limbs" where
  "uint_sub64 pn b64 = uint_add pn (uint_neg (uint_set64 b64 (replicate (length pn) 0)))"

section \<open>Comparisons\<close>

text \<open>\<open>for (int i = WIDTH-1; i >= 0; i--)\<close>: the argument counts the limbs still to compare,
  \<open>d\<close> is the answer for equal numbers.\<close>

primrec uint_less_loop :: "bool \<Rightarrow> nat \<Rightarrow> limbs \<Rightarrow> limbs \<Rightarrow> bool" where
  "uint_less_loop d 0 a b = d"
| "uint_less_loop d (Suc i) a b =
     (if a ! i < b ! i then True else if a ! i > b ! i then False else uint_less_loop d i a b)"

primrec uint_greater_loop :: "bool \<Rightarrow> nat \<Rightarrow> limbs \<Rightarrow> limbs \<Rightarrow> bool" where
  "uint_greater_loop d 0 a b = d"
| "uint_greater_loop d (Suc i) a b =
     (if a ! i > b ! i then True else if a ! i < b ! i then False else uint_greater_loop d i a b)"

definition uint_less :: "limbs \<Rightarrow> limbs \<Rightarrow> bool" where
  "uint_less a b = uint_less_loop False (length a) a b"

definition uint_le :: "limbs \<Rightarrow> limbs \<Rightarrow> bool" where
  "uint_le a b = uint_less_loop True (length a) a b"

definition uint_greater :: "limbs \<Rightarrow> limbs \<Rightarrow> bool" where
  "uint_greater a b = uint_greater_loop False (length a) a b"

definition uint_ge :: "limbs \<Rightarrow> limbs \<Rightarrow> bool" where
  "uint_ge a b = uint_greater_loop True (length a) a b"

definition uint_eq :: "limbs \<Rightarrow> limbs \<Rightarrow> bool" where
  "uint_eq a b = list_all (\<lambda>i. a ! i = b ! i) [0..<length a]"

definition uint_eq64 :: "limbs \<Rightarrow> uint64 \<Rightarrow> bool" where
  "uint_eq64 a b =
     (if a ! 0 \<noteq> ucast b then False
      else if a ! 1 \<noteq> ucast (drop_bit 32 b) then False
      else list_all (\<lambda>i. a ! i = 0) [2..<length a])"

definition uint_Get64 :: "limbs \<Rightarrow> nat \<Rightarrow> uint64" where
  "uint_Get64 pn n = ucast (pn ! (2 * n)) OR push_bit 32 (ucast (pn ! (2 * n + 1)))"

section \<open>Bytes and text\<close>

text \<open>The object representation, from \<open>begin()\<close> to \<open>end()\<close>, which is also the serialised form,
  and the limbs of an object whose bytes have been written.\<close>

definition uint_bytes :: "limbs \<Rightarrow> bytes" where
  "uint_bytes pn = concat (map (word_bytes 4) pn)"

definition uint_of_bytes :: "nat \<Rightarrow> bytes \<Rightarrow> limbs" where
  "uint_of_bytes W bs = map (\<lambda>i. bytes_word (take 4 (drop (4 * i) bs))) [0..<W]"

text \<open>The constructors from a byte vector.\<close>

definition uint_of_vch :: "nat \<Rightarrow> bytes \<Rightarrow> limbs" where
  "uint_of_vch W vch =
     (if length vch = 4 * W then uint_of_bytes W vch else uint_set64 0 (replicate W 0))"

text \<open>\<open>trim256\<close> of a \<open>uint512\<close>.\<close>

definition uint_trim256 :: "limbs \<Rightarrow> limbs" where
  "uint_trim256 pn = map (\<lambda>i. pn ! i) [0..<8]"

definition p_util_hexdigit :: "int list" where
  "p_util_hexdigit =
     replicate 48 (- 1) @ [0, 1, 2, 3, 4, 5, 6, 7, 8, 9] @ replicate 7 (- 1) @
     [0xa, 0xb, 0xc, 0xd, 0xe, 0xf] @ replicate 26 (- 1) @
     [0xa, 0xb, 0xc, 0xd, 0xe, 0xf] @ replicate 153 (- 1)"

definition HexDigit :: "char \<Rightarrow> int" where
  "HexDigit c = p_util_hexdigit ! of_char c"

text \<open>\<open>isspace\<close> and \<open>tolower\<close> of the C locale, and \<open>sprintf\<close> with \<open>%02x\<close>.\<close>

definition isspace :: "char \<Rightarrow> bool" where
  "isspace c \<longleftrightarrow> (of_char c :: nat) = 32 \<or> 9 \<le> (of_char c :: nat) \<and> (of_char c :: nat) \<le> 13"

definition tolower :: "char \<Rightarrow> char" where
  "tolower c = (if 65 \<le> (of_char c :: nat) \<and> (of_char c :: nat) \<le> 90 then char_of (of_char c + 32 :: nat) else c)"

definition sprintf_02x :: "byte \<Rightarrow> string" where
  "sprintf_02x b =
     [''0123456789abcdef'' ! (unat b div 16), ''0123456789abcdef'' ! (unat b mod 16)]"

definition GetHex :: "limbs \<Rightarrow> string" where
  "GetHex pn =
     (let p = uint_bytes pn
      in concat (map (\<lambda>i. sprintf_02x (p ! (length p - i - 1))) [0..<length p]))"

text \<open>
  The loop that fills the bytes from the last digit back: \<open>p1\<close> is the offset of the byte,
  the last argument the digits still to read, last one first.  A C string is the list of its
  characters before the terminating zero, at which \<open>HexDigit\<close> is \<open>- 1\<close> and \<open>isspace\<close> false.
\<close>

fun SetHex_fill :: "nat \<Rightarrow> bytes \<Rightarrow> string \<Rightarrow> bytes" where
  "SetHex_fill p1 p [] = p"
| "SetHex_fill p1 p [c] = (if p1 < length p then p[p1 := word_of_int (HexDigit c)] else p)"
| "SetHex_fill p1 p (c # d # cs) =
     (if p1 < length p
      then SetHex_fill (p1 + 1)
             (let p = p[p1 := word_of_int (HexDigit c)]
              in p[p1 := p ! p1 OR push_bit 4 (word_of_int (HexDigit d))]) cs
      else p)"

definition c_str :: "string \<Rightarrow> string" where
  "c_str str = takeWhile (\<lambda>c. c \<noteq> CHR 0x00) str"

definition skip_0x :: "string \<Rightarrow> string" where
  "skip_0x psz =
     (case psz of
        c # d # cs \<Rightarrow> if c = CHR ''0'' \<and> tolower d = CHR ''x'' then cs else psz
      | _ \<Rightarrow> psz)"

definition hex_prefix :: "string \<Rightarrow> string" where
  "hex_prefix psz = takeWhile (\<lambda>c. HexDigit c \<noteq> - 1) (skip_0x (dropWhile isspace psz))"

definition SetHex :: "nat \<Rightarrow> string \<Rightarrow> limbs" where
  "SetHex W str =
     uint_of_bytes W (SetHex_fill 0 (replicate (4 * W) 0) (rev (hex_prefix (c_str str))))"

section \<open>The number of a list of limbs\<close>

primrec limbs_val :: "limbs \<Rightarrow> nat" where
  "limbs_val [] = 0"
| "limbs_val (x # xs) = unat x + 2 ^ 32 * limbs_val xs"

definition limbs_word :: "limbs \<Rightarrow> 'a::len word" where
  "limbs_word pn = word_of_nat (limbs_val pn)"

lemma unat_limb [simp]: "unat (x :: uint32) < 4294967296"
  using unsigned_less[of x, where ?'a=nat] by simp

lemma limbs_val_append: "limbs_val (xs @ ys) = limbs_val xs + 2 ^ (32 * length xs) * limbs_val ys"
  by (induction xs) (auto simp: algebra_simps power_add)

lemma limbs_val_less: "limbs_val pn < 2 ^ (32 * length pn)"
proof (induction pn)
  case (Cons x xs)
  have "unat x + 2 ^ 32 * limbs_val xs < 2 ^ 32 * Suc (limbs_val xs)" by simp
  also have "\<dots> \<le> 2 ^ 32 * 2 ^ (32 * length xs)" using Cons by (intro mult_le_mono2) simp
  finally show ?case by (simp add: power_add)
qed simp

lemma limbs_val_take_Suc:
  "i < length pn \<Longrightarrow> limbs_val (take (Suc i) pn) = limbs_val (take i pn) + 2 ^ (32 * i) * unat (pn ! i)"
  by (simp add: take_Suc_conv_app_nth limbs_val_append)

lemma limbs_val_inj: "length a = length b \<Longrightarrow> limbs_val a = limbs_val b \<longleftrightarrow> a = b"
proof (induction a b rule: list_induct2)
  case (Cons x xs y ys)
  have "x = y \<and> xs = ys" if e: "unat x + 2 ^ 32 * limbs_val xs = unat y + 2 ^ 32 * limbs_val ys"
  proof -
    have "(unat x + 2 ^ 32 * limbs_val xs) mod 2 ^ 32 = (unat y + 2 ^ 32 * limbs_val ys) mod 2 ^ 32"
      by (simp only: e)
    then have "unat x = unat y" by (simp only: mod_mult_self2) simp
    then show ?thesis using e Cons.IH by (simp add: word_unat_eq_iff)
  qed
  then show ?case by auto
qed simp

lemma bit_limbs_val:
  "bit (limbs_val pn) n \<longleftrightarrow> n div 32 < length pn \<and> bit (pn ! (n div 32)) (n mod 32)"
proof (induction pn arbitrary: n)
  case (Cons x xs)
  have "take_bit 32 (uint x) = uint x"
    using unsigned_less[of x, where ?'a=int] by (intro take_bit_int_eq_self) simp_all
  then have "int (limbs_val (x # xs)) = concat_bit 32 (int (unat x)) (int (limbs_val xs))"
    by (simp add: concat_bit_eq push_bit_eq_mult take_bit_of_nat)
  then have "bit (int (limbs_val (x # xs))) n \<longleftrightarrow>
      n < 32 \<and> bit x n \<or> 32 \<le> n \<and> bit (limbs_val xs) (n - 32)"
    by (auto simp: bit_concat_bit_iff bit_of_nat_iff_bit bit_unsigned_iff)
  then have b: "bit (limbs_val (x # xs)) n \<longleftrightarrow>
      n < 32 \<and> bit x n \<or> 32 \<le> n \<and> bit (limbs_val xs) (n - 32)"
    by (simp only: bit_of_nat_iff_bit)
  show ?case
  proof (cases "n < 32")
    case True
    then show ?thesis using b by (simp del: limbs_val.simps)
  next
    case False
    then have "n div 32 = Suc ((n - 32) div 32)" "n mod 32 = (n - 32) mod 32"
      by (simp_all add: le_div_geq le_mod_geq)
    then show ?thesis using b False Cons[of "n - 32"] by (simp del: limbs_val.simps)
  qed
qed simp

lemma bit_limbs_word:
  "bit (limbs_word pn :: 'a::len word) n \<longleftrightarrow>
     n < LENGTH('a) \<and> n div 32 < length pn \<and> bit (pn ! (n div 32)) (n mod 32)"
  by (simp add: limbs_word_def bit_word_of_nat bit_limbs_val)

lemma unat_limbs_word:
  "LENGTH('a) = 32 * length pn \<Longrightarrow> unat (limbs_word pn :: 'a::len word) = limbs_val pn"
  using limbs_val_less[of pn] by (simp add: limbs_word_def unsigned_of_nat take_bit_nat_eq_self)

lemma limbs_word_inj:
  "LENGTH('a) = 32 * length a \<Longrightarrow> length b = length a \<Longrightarrow>
    (limbs_word a :: 'a::len word) = limbs_word b \<longleftrightarrow> a = b"
  by (simp add: word_unat_eq_iff unat_limbs_word limbs_val_inj)

lemma limbs_val_replicate_0 [simp]: "limbs_val (replicate n 0) = 0"
  by (induction n) auto

lemma limbs_word_surj: "\<exists>pn. length pn = W \<and> limbs_val pn = n mod 2 ^ (32 * W)"
proof (induction W arbitrary: n)
  case (Suc W)
  obtain pn where pn: "length pn = W" "limbs_val pn = n div 2 ^ 32 mod 2 ^ (32 * W)" using Suc by blast
  have "limbs_val (word_of_nat n # pn) = n mod (2 ^ 32 * 2 ^ (32 * W))"
    by (simp only: mod_mult2_eq limbs_val.simps pn) (simp add: unsigned_of_nat take_bit_nat_def)
  then show ?case using pn(1) by (intro exI[of _ "word_of_nat n # pn"]) (simp add: power_add)
qed simp

section \<open>Loops over the limbs\<close>

lemma each_limb_update:
  "n \<le> length xs \<Longrightarrow>
    fold (\<lambda>i pn. pn[i := g i (pn ! i)]) [0..<n] xs = map (\<lambda>i. g i (xs ! i)) [0..<n] @ drop n xs"
proof (induction n)
  case (Suc n)
  then obtain x ys where "drop n xs = x # ys" by (metis Suc_le_lessD Cons_nth_drop_Suc)
  moreover from this have "xs ! n = x" "drop (Suc n) xs = ys"
    by (metis nth_via_drop, metis drop_Suc list.sel(3) tl_drop)
  ultimately show ?case using Suc by (simp add: nth_append list_update_append)
qed simp

lemma set_zeros: "fold (\<lambda>i pn. pn[i := 0]) [m..<n] xs = take m xs @ replicate (min n (length xs) - m) 0 @ drop n xs"
  if "m \<le> n" "n \<le> length xs"
  using that
proof (induction n)
  case (Suc n)
  show ?case
  proof (cases "m = Suc n")
    case False
    with Suc.prems have m: "m \<le> n" "n < length xs" by auto
    then obtain x ys where d: "drop n xs = x # ys" by (metis Cons_nth_drop_Suc)
    then have "drop (Suc n) xs = ys" by (metis drop_Suc list.sel(3) tl_drop)
    moreover have "n - m - (n - m) = 0" "Suc n - m = Suc (n - m)" using m by auto
    ultimately show ?thesis using Suc.IH m d
      by (simp add: min_def list_update_append replicate_append_same[symmetric])
  qed simp
qed simp

section \<open>Increment and decrement\<close>

lemma limbs_val_update:
  "i < length pn \<Longrightarrow>
    limbs_val (pn[i := v]) + 2 ^ (32 * i) * unat (pn ! i) = limbs_val pn + 2 ^ (32 * i) * unat v"
proof (induction pn arbitrary: i)
  case (Cons x xs)
  show ?case
  proof (cases i)
    case (Suc j)
    then have "2 ^ 32 * (limbs_val (xs[j := v]) + 2 ^ (32 * j) * unat (xs ! j)) =
      2 ^ 32 * (limbs_val xs + 2 ^ (32 * j) * unat v)" using Cons by simp
    then show ?thesis using Suc by (simp add: power_add algebra_simps)
  qed simp
qed simp

lemma limbs_word_update:
  assumes "i < length pn"
  shows "(limbs_word (pn[i := v]) :: 'a::len word) =
    limbs_word pn + 2 ^ (32 * i) * (word_of_nat (unat v) - word_of_nat (unat (pn ! i)))"
proof -
  have "(word_of_nat (limbs_val (pn[i := v]) + 2 ^ (32 * i) * unat (pn ! i)) :: 'a word) =
    word_of_nat (limbs_val pn + 2 ^ (32 * i) * unat v)" by (simp only: limbs_val_update[OF assms])
  then show ?thesis by (simp add: limbs_word_def algebra_simps)
qed

lemma power_word_zero: "LENGTH('a) = n \<Longrightarrow> (2 :: 'a::len word) ^ n = 0"
  by simp

lemma unat_inc: "unat (x + 1 :: uint32) = (if x = - 1 then 0 else unat x + 1)"
  using unatSuc[of x] by (auto simp: add_eq_0_iff add.commute)

lemma unat_max: "unat (- 1 :: uint32) = 4294967295"
  by (simp add: unsigned_minus_1_eq_mask mask_eq_exp_minus_1)

lemma unat_dec: "unat (x - 1 :: uint32) = (if x = 0 then 4294967295 else unat x - 1)"
  by (auto simp: unat_minus_one unat_max)

lemma inc_limb:
  "(word_of_nat (unat (x + 1 :: uint32)) :: 'a::len word) =
    word_of_nat (unat x) + 1 - (if x = - 1 then 2 ^ 32 else 0)"
  by (simp add: unat_inc unat_max del: of_nat_unat)

lemma dec_limb:
  "(word_of_nat (unat (x - 1 :: uint32)) :: 'a::len word) =
    word_of_nat (unat x) - 1 + (if x = 0 then 2 ^ 32 else 0)"
  using unat_gt_0[of x] by (simp add: unat_dec of_nat_diff Suc_le_eq del: of_nat_unat)

lemma uint_inc_from_word:
  assumes "i < length pn" "LENGTH('a) = 32 * length pn"
  shows "(limbs_word (uint_inc_from i pn) :: 'a::len word) = limbs_word pn + 2 ^ (32 * i) \<and>
    length (uint_inc_from i pn) = length pn"
  using assms
proof (induction i pn rule: uint_inc_from.induct)
  case (1 i pn)
  have u: "(limbs_word (pn[i := pn ! i + 1]) :: 'a word) =
      limbs_word pn + 2 ^ (32 * i) - (if pn ! i = - 1 then 2 ^ (32 * Suc i) else 0)"
    by (simp only: limbs_word_update[OF "1.prems"(1)] inc_limb) (simp add: power_add algebra_simps)
  let ?pn = "pn[i := pn ! i + 1]"
  have z: "?pn ! i = 0 \<longleftrightarrow> pn ! i = - 1" using "1.prems" by (simp add: eq_neg_iff_add_eq_0)
  show ?case
  proof (cases "pn ! i = - 1 \<and> i < length pn - 1")
    case True
    with z have c: "?pn ! i = 0 \<and> i < length ?pn - 1" by simp
    have e: "uint_inc_from i pn = uint_inc_from (i + 1) ?pn"
      by (subst uint_inc_from.simps, unfold Let_def, rule if_P[OF c])
    have "(limbs_word (uint_inc_from (i + 1) ?pn) :: 'a word) = limbs_word ?pn + 2 ^ (32 * (i + 1)) \<and>
        length (uint_inc_from (i + 1) ?pn) = length ?pn"
      using True z "1.prems" by (intro "1.IH"[OF refl]) auto
    then show ?thesis using e u True by simp
  next
    case False
    with z have c: "\<not> (?pn ! i = 0 \<and> i < length ?pn - 1)" by simp
    have e: "uint_inc_from i pn = ?pn"
      by (subst uint_inc_from.simps, unfold Let_def, rule if_not_P[OF c])
    have "(2 :: 'a word) ^ (32 * Suc i) = 0" if "pn ! i = - 1"
      using that False "1.prems" by (intro power_word_zero) auto
    then show ?thesis using e u by auto
  qed
qed

lemma uint_dec_from_word:
  assumes "i < length pn" "LENGTH('a) = 32 * length pn"
  shows "(limbs_word (uint_dec_from i pn) :: 'a::len word) = limbs_word pn - 2 ^ (32 * i) \<and>
    length (uint_dec_from i pn) = length pn"
  using assms
proof (induction i pn rule: uint_dec_from.induct)
  case (1 i pn)
  have u: "(limbs_word (pn[i := pn ! i - 1]) :: 'a word) =
      limbs_word pn - 2 ^ (32 * i) + (if pn ! i = 0 then 2 ^ (32 * Suc i) else 0)"
    by (simp only: limbs_word_update[OF "1.prems"(1)] dec_limb) (simp add: power_add algebra_simps)
  let ?pn = "pn[i := pn ! i - 1]"
  have z: "?pn ! i = - 1 \<longleftrightarrow> pn ! i = 0" using "1.prems" by simp
  show ?case
  proof (cases "pn ! i = 0 \<and> i < length pn - 1")
    case True
    with z have c: "?pn ! i = - 1 \<and> i < length ?pn - 1" by simp
    have e: "uint_dec_from i pn = uint_dec_from (i + 1) ?pn"
      by (subst uint_dec_from.simps, unfold Let_def, rule if_P[OF c])
    have "(limbs_word (uint_dec_from (i + 1) ?pn) :: 'a word) = limbs_word ?pn - 2 ^ (32 * (i + 1)) \<and>
        length (uint_dec_from (i + 1) ?pn) = length ?pn"
      using True z "1.prems" by (intro "1.IH"[OF refl]) auto
    then show ?thesis using e u True by simp
  next
    case False
    with z have c: "\<not> (?pn ! i = - 1 \<and> i < length ?pn - 1)" by simp
    have e: "uint_dec_from i pn = ?pn"
      by (subst uint_dec_from.simps, unfold Let_def, rule if_not_P[OF c])
    have "(2 :: 'a word) ^ (32 * Suc i) = 0" if "pn ! i = 0"
      using that False "1.prems" by (intro power_word_zero) auto
    then show ?thesis using e u by auto
  qed
qed

lemmas uint_inc_word = uint_inc_from_word[of 0, folded uint_inc_def, simplified]
lemmas uint_dec_word = uint_dec_from_word[of 0, folded uint_dec_def, simplified]

section \<open>Negation, sums and differences\<close>

lemma uint_not_word:
  "LENGTH('a) = 32 * length pn \<Longrightarrow> (limbs_word (uint_not pn) :: 'a::len word) = NOT (limbs_word pn)"
  by (rule bit_eqI) (auto simp: bit_limbs_word bit_not_iff uint_not_def)

lemma uint_neg_word:
  assumes "0 < length pn" "LENGTH('a) = 32 * length pn"
  shows "(limbs_word (uint_neg pn) :: 'a::len word) = - limbs_word pn \<and> length (uint_neg pn) = length pn"
proof -
  have "uint_neg pn = uint_inc (uint_not pn)" "length (uint_not pn) = length pn"
      "uint_not pn \<noteq> []"
    using assms(1) by (simp_all add: uint_neg_def uint_not_def)
  then show ?thesis using uint_inc_word[of "uint_not pn", where ?'a='a] assms
    by (simp add: uint_not_word minus_eq_not_plus_1)
qed

lemma add_carry:
  fixes c x y :: nat
  assumes "c \<le> 1" "x < 4294967296" "y < 4294967296"
  shows "(c + x + y) div 4294967296 \<le> 1"
  using assms by linarith

lemma unat_low_limb: "unat (ucast (m AND 0xffffffff :: uint64) :: uint32) = unat m mod 2 ^ 32"
proof -
  have "m AND 0xffffffff = take_bit 32 m" by (simp add: take_bit_eq_mask mask_eq_exp_minus_1)
  then show ?thesis by (simp only: unat_ucast_mod unsigned_take_bit_eq) (simp add: take_bit_nat_def)
qed

lemma uint_add_loop:
  assumes "n \<le> length pn" "length b = length pn"
  shows "\<exists>c r. fold (uint_add_step b) [0..<n] (0, pn) = (c, r) \<and>
    length r = length pn \<and> drop n r = drop n pn \<and> unat c \<le> 1 \<and>
    limbs_val (take n r) + 2 ^ (32 * n) * unat c = limbs_val (take n pn) + limbs_val (take n b)"
  using assms(1)
proof (induction n)
  case (Suc n)
  then obtain c r where IH: "fold (uint_add_step b) [0..<n] (0, pn) = (c, r)"
    "length r = length pn" "drop n r = drop n pn" "unat c \<le> 1"
    "limbs_val (take n r) + 2 ^ (32 * n) * unat c = limbs_val (take n pn) + limbs_val (take n b)"
    by auto
  have n: "n < length pn" using Suc.prems by simp
  have r: "r ! n = pn ! n" using IH(2,3) n by (metis nth_via_drop Cons_nth_drop_Suc)
  let ?m = "c + ucast (pn ! n) + ucast (b ! n) :: uint64"
  have m: "unat ?m = unat c + unat (pn ! n) + unat (b ! n)"
  proof -
    have "unat x mod 2 ^ 64 = unat x" for x :: uint32
      by (rule mod_less, rule less_le_trans[OF unat_limb]) simp
    moreover have "unat c + unat x + unat y < 2 ^ 64" for x y :: uint32
      using unat_limb[of x] unat_limb[of y] IH(4) by (simp del: unat_limb)
    then have "(unat c + unat x + unat y) mod 2 ^ 64 = unat c + unat x + unat y" for x y :: uint32
      by (rule mod_less)
    ultimately show ?thesis by (simp add: unat_word_ariths unat_ucast_mod mod_simps)
  qed
  have lo: "unat (ucast (?m AND 0xffffffff) :: uint32) = unat ?m mod 2 ^ 32" by (rule unat_low_limb)
  have hi: "unat (drop_bit 32 ?m) = unat ?m div 2 ^ 32" by (rule unat_drop_bit_div)
  let ?r = "r[n := ucast (?m AND 0xffffffff)]"
  have "limbs_val (take (Suc n) ?r) = limbs_val (take n r) + 2 ^ (32 * n) * (unat ?m mod 2 ^ 32)"
    using n IH(2) lo by (simp add: limbs_val_take_Suc)
  moreover have pw: "(2 :: nat) ^ (32 * Suc n) = 2 ^ (32 * n) * 2 ^ 32" by (simp add: power_add)
  ultimately have "limbs_val (take (Suc n) ?r) + 2 ^ (32 * Suc n) * unat (drop_bit 32 ?m) =
      limbs_val (take n r) + 2 ^ (32 * n) * (unat ?m mod 2 ^ 32 + 2 ^ 32 * (unat ?m div 2 ^ 32))"
    by (simp only: pw distrib_left mult.assoc) (simp only: hi add.assoc [of "limbs_val (take n r)"])
  also have "\<dots> = limbs_val (take n r) + 2 ^ (32 * n) * unat ?m" by (simp only: mod_mult_div_eq)
  also have "\<dots> = limbs_val (take (Suc n) pn) + limbs_val (take (Suc n) b)"
    using IH(5) n assms(2) by (simp only: m) (simp add: limbs_val_take_Suc algebra_simps)
  finally have v: "limbs_val (take (Suc n) ?r) + 2 ^ (32 * Suc n) * unat (drop_bit 32 ?m) =
      limbs_val (take (Suc n) pn) + limbs_val (take (Suc n) b)" .
  have "unat (drop_bit 32 ?m) \<le> 1"
    using add_carry[OF IH(4), of "unat (pn ! n)" "unat (b ! n)"] by (simp only: hi m) simp
  moreover have "drop (Suc n) ?r = drop (Suc n) pn"
    using arg_cong[OF IH(3), of tl] by (simp add: drop_update_cancel flip: tl_drop)
      (metis drop_Suc tl_drop)
  moreover have "fold (uint_add_step b) [0..<Suc n] (0, pn) = (drop_bit 32 ?m, ?r)"
    by (simp only: upt_Suc_append[OF le0] fold_append comp_apply IH(1) fold_simps)
      (simp only: uint_add_step_def prod.case Let_def r)
  moreover have "length ?r = length pn" using IH(2) by simp
  ultimately show ?case using v by blast
qed simp

lemma uint_add_word:
  assumes "length b = length pn" "LENGTH('a) = 32 * length pn"
  shows "(limbs_word (uint_add pn b) :: 'a::len word) = limbs_word pn + limbs_word b \<and>
    length (uint_add pn b) = length pn"
proof -
  obtain c r where f: "fold (uint_add_step b) [0..<length pn] (0, pn) = (c, r)"
    "length r = length pn"
    "limbs_val r + 2 ^ (32 * length pn) * unat c = limbs_val pn + limbs_val b"
    using uint_add_loop[of "length pn" pn b] assms(1) by auto
  have "(word_of_nat (limbs_val r + 2 ^ (32 * length pn) * unat c) :: 'a word) =
    word_of_nat (limbs_val pn + limbs_val b)" by (simp only: f(3))
  then show ?thesis using f(1,2) power_word_zero[OF assms(2)]
    by (simp add: uint_add_def limbs_word_def del: exp_eq_zero_iff)
qed

lemma uint_sub_word:
  assumes "length b = length pn" "0 < length pn" "LENGTH('a) = 32 * length pn"
  shows "(limbs_word (uint_sub pn b) :: 'a::len word) = limbs_word pn - limbs_word b \<and>
    length (uint_sub pn b) = length pn"
  using uint_neg_word[of b, where ?'a='a] uint_add_word[of "uint_neg b" pn, where ?'a='a] assms
  by (simp add: uint_sub_def)

section \<open>Assignment from \<open>uint64_t\<close>, bitwise operators\<close>

lemma uint_set64_eq:
  assumes "2 \<le> length pn"
  shows "uint_set64 b pn = ucast b # ucast (drop_bit 32 b) # replicate (length pn - 2) 0"
proof -
  obtain x y xs where "pn = x # y # xs" using assms by (metis Suc_le_length_iff numeral_2_eq_2)
  then have "take 2 (pn[0 := ucast b, 1 := ucast (drop_bit 32 b)]) = [ucast b, ucast (drop_bit 32 b)]"
    by (simp add: numeral_2_eq_2)
  then show ?thesis
    using assms set_zeros[of 2 "length pn" "pn[0 := ucast b, 1 := ucast (drop_bit 32 b)]"]
    by (simp add: uint_set64_def)
qed

lemma limbs_val_set64: "2 \<le> length pn \<Longrightarrow> limbs_val (uint_set64 b pn) = unat b"
proof -
  have "unat b div 4294967296 < 4294967296"
    using unsigned_less[of b, where ?'a=nat] by (simp add: less_mult_imp_div_less)
  then show "2 \<le> length pn \<Longrightarrow> limbs_val (uint_set64 b pn) = unat b"
    by (simp add: uint_set64_eq unat_ucast_mod unat_drop_bit_div)
qed

lemma length_uint_set64 [simp]: "2 \<le> length pn \<Longrightarrow> length (uint_set64 b pn) = length pn"
  by (simp add: uint_set64_eq)

lemma uint_set64_word:
  "2 \<le> length pn \<Longrightarrow> (limbs_word (uint_set64 b pn) :: 'a::len word) = word_of_nat (unat b)"
  by (simp add: limbs_word_def limbs_val_set64)

lemma uint_bitwise_eq:
  "uint_xor pn b = map (\<lambda>i. pn ! i XOR b ! i) [0..<length pn]"
  "uint_and pn b = map (\<lambda>i. pn ! i AND b ! i) [0..<length pn]"
  "uint_or pn b = map (\<lambda>i. pn ! i OR b ! i) [0..<length pn]"
  using each_limb_update[of "length pn" pn "\<lambda>i x. x XOR b ! i"]
    each_limb_update[of "length pn" pn "\<lambda>i x. x AND b ! i"]
    each_limb_update[of "length pn" pn "\<lambda>i x. x OR b ! i"]
  by (simp_all add: uint_xor_def uint_and_def uint_or_def)

lemma uint_bitwise_word:
  assumes "length b = length pn" "LENGTH('a) = 32 * length pn"
  shows "(limbs_word (uint_xor pn b) :: 'a::len word) = limbs_word pn XOR limbs_word b"
    and "(limbs_word (uint_and pn b) :: 'a::len word) = limbs_word pn AND limbs_word b"
    and "(limbs_word (uint_or pn b) :: 'a::len word) = limbs_word pn OR limbs_word b"
  by (rule bit_eqI; use assms in \<open>auto simp: bit_limbs_word bit_xor_iff bit_and_iff bit_or_iff
      uint_bitwise_eq\<close>)+

lemma length_uint_bitwise [simp]:
  "length (uint_xor pn b) = length pn" "length (uint_and pn b) = length pn" "length (uint_or pn b) = length pn"
  by (simp_all add: uint_bitwise_eq)

lemma map_limbs2: "length b = length a \<Longrightarrow> map (\<lambda>i. f (a ! i) (b ! i)) [0..<length a] = map2 f a b"
  by (rule nth_equalityI) auto

lemma map2_replicate_0:
  "map2 (XOR) xs (replicate (length xs) (0 :: uint32)) = xs" "map2 (OR) xs (replicate (length xs) (0 :: uint32)) = xs"
  by (induction xs) auto

lemma uint_bitwise64:
  assumes "2 \<le> length pn"
  shows "uint_xor64 pn b = uint_xor pn (uint_set64 b pn)" and "uint_or64 pn b = uint_or pn (uint_set64 b pn)"
proof -
  obtain x y xs where pn: "pn = x # y # xs" using assms by (metis Suc_le_length_iff numeral_2_eq_2)
  then have set: "uint_set64 b pn = ucast b # ucast (drop_bit 32 b) # replicate (length xs) 0"
    by (simp add: uint_set64_eq)
  have "uint_xor pn (uint_set64 b pn) = map2 (XOR) pn (uint_set64 b pn)"
    "uint_or pn (uint_set64 b pn) = map2 (OR) pn (uint_set64 b pn)"
    using assms by (simp_all only: uint_bitwise_eq map_limbs2 length_uint_set64)
  then show "uint_xor64 pn b = uint_xor pn (uint_set64 b pn)" "uint_or64 pn b = uint_or pn (uint_set64 b pn)"
    by (simp_all only: set) (simp_all add: pn map2_replicate_0 uint_xor64_def uint_or64_def)
qed

section \<open>Comparisons\<close>

lemma limbs_digit_less:
  fixes va vb P :: nat
  assumes "va < P" "vb < P"
  shows "va + P * x < vb + P * y \<longleftrightarrow> x < y \<or> x = y \<and> va < vb"
proof -
  have "va + P * x < vb + P * y" if "x < y" "va < P" for x y va vb
  proof -
    have "va + P * x < P * Suc x" using that by simp
    also have "\<dots> \<le> P * y" using that by (intro mult_le_mono2) simp
    finally show ?thesis by simp
  qed
  from this[of x y va vb] this[of y x vb va] show ?thesis using assms
    by (cases x y rule: linorder_cases) auto
qed

lemma uint_less_loop_val:
  "n \<le> length a \<Longrightarrow> n \<le> length b \<Longrightarrow>
    uint_less_loop d n a b \<longleftrightarrow> limbs_val (take n a) < limbs_val (take n b) \<or>
      limbs_val (take n a) = limbs_val (take n b) \<and> d"
proof (induction n)
  case (Suc n)
  let ?P = "2 ^ (32 * n) :: nat"
  have l: "limbs_val (take n a) < ?P" "limbs_val (take n b) < ?P"
    using limbs_val_less[of "take n a"] limbs_val_less[of "take n b"] Suc.prems by simp_all
  have "limbs_val (take n a) + ?P * x = limbs_val (take n b) + ?P * y \<longleftrightarrow>
      x = y \<and> limbs_val (take n a) = limbs_val (take n b)" for x y
    using limbs_digit_less[OF l, of x y] limbs_digit_less[OF l(2,1), of y x] by auto
  then show ?case using Suc limbs_digit_less[OF l]
    by (auto simp: limbs_val_take_Suc word_less_nat_alt word_unat_eq_iff)
qed simp

lemma uint_greater_loop_val:
  "uint_greater_loop d n a b \<longleftrightarrow> uint_less_loop d n b a"
  by (induction n) auto

lemma uint_compare_word:
  assumes "length b = length a" "LENGTH('a) = 32 * length a"
  shows "uint_less a b \<longleftrightarrow> (limbs_word a :: 'a::len word) < limbs_word b"
    and "uint_le a b \<longleftrightarrow> (limbs_word a :: 'a::len word) \<le> limbs_word b"
    and "uint_greater a b \<longleftrightarrow> (limbs_word a :: 'a::len word) > limbs_word b"
    and "uint_ge a b \<longleftrightarrow> (limbs_word a :: 'a::len word) \<ge> limbs_word b"
  using assms
  by (auto simp: uint_less_def uint_le_def uint_greater_def uint_ge_def uint_greater_loop_val
      uint_less_loop_val word_less_nat_alt word_le_nat_alt unat_limbs_word)

lemma uint_eq_iff: "length b = length a \<Longrightarrow> uint_eq a b \<longleftrightarrow> a = b"
  by (auto simp: uint_eq_def list_all_iff intro: nth_equalityI)

lemma all_zero_limbs: "list_all (\<lambda>i. a ! i = 0) [n..<length a] \<longleftrightarrow> drop n a = replicate (length a - n) (0 :: uint32)"
proof -
  have d: "map ((!) a) [n..<length a] = drop n a"
    using drop_map[of n "(!) a" "[0..<length a]"] by (simp add: map_nth)
  have "list_all (\<lambda>i. a ! i = 0) [n..<length a] \<longleftrightarrow> list_all (\<lambda>z. z = 0) (drop n a)"
    by (simp only: d[symmetric] list.pred_map comp_def)
  also have "\<dots> \<longleftrightarrow> drop n a = replicate (length (drop n a)) 0"
    by (auto simp: list_all_iff intro: replicate_eqI dest: in_set_replicate[THEN iffD1] arg_cong[of _ _ set])
  finally show ?thesis by simp
qed

lemma uint_eq64_iff: "2 \<le> length a \<Longrightarrow> uint_eq64 a b \<longleftrightarrow> a = uint_set64 b a"
proof -
  assume l: "2 \<le> length a"
  then obtain x y xs where a: "a = x # y # xs" by (metis Suc_le_length_iff numeral_2_eq_2)
  show ?thesis unfolding uint_eq64_def uint_set64_eq[OF l] all_zero_limbs using a by auto
qed

lemma uint_is_zero_iff: "uint_is_zero pn \<longleftrightarrow> pn = replicate (length pn) 0"
  using all_zero_limbs[of pn 0] by (simp add: uint_is_zero_def)

section \<open>Shifts\<close>

lemma uint_shl_loop:
  "n \<le> W \<Longrightarrow> length (fold (uint_shl_step W k s a) [0..<n] (replicate W 0)) = W \<and>
    (\<forall>j<W. fold (uint_shl_step W k s a) [0..<n] (replicate W 0) ! j =
      (if k < j \<and> j - k - 1 < n \<and> s \<noteq> 0 then drop_bit (32 - s) (a ! (j - k - 1)) else 0) OR
      (if k \<le> j \<and> j - k < n then push_bit s (a ! (j - k)) else 0))"
proof (induction n)
  case (Suc n)
  define r where "r = fold (uint_shl_step W k s a) [0..<n] (replicate W 0)"
  have IH: "length r = W"
    "\<And>j. j < W \<Longrightarrow> r ! j =
      (if k < j \<and> j - k - 1 < n \<and> s \<noteq> 0 then drop_bit (32 - s) (a ! (j - k - 1)) else 0) OR
      (if k \<le> j \<and> j - k < n then push_bit s (a ! (j - k)) else 0)"
    using Suc by (auto simp: r_def)
  have f: "fold (uint_shl_step W k s a) [0..<Suc n] (replicate W 0) = uint_shl_step W k s a n r"
    by (simp add: r_def)
  have len: "length (uint_shl_step W k s a n r) = W"
    by (simp add: uint_shl_step_def Let_def IH)
  have "uint_shl_step W k s a n r ! j =
      (if k < j \<and> j - k - 1 < Suc n \<and> s \<noteq> 0 then drop_bit (32 - s) (a ! (j - k - 1)) else 0) OR
      (if k \<le> j \<and> j - k < Suc n then push_bit s (a ! (j - k)) else 0)" if j: "j < W" for j
  proof -
    consider "j = n + k" | "j = n + k + 1" | "j \<noteq> n + k" "j \<noteq> n + k + 1" by blast
    then show ?thesis
    proof cases
      case 1
      then show ?thesis using j by (auto simp: uint_shl_step_def Let_def nth_list_update IH)
    next
      case 2
      then show ?thesis using j by (auto simp: uint_shl_step_def Let_def nth_list_update IH)
    next
      case 3
      then have "uint_shl_step W k s a n r ! j = r ! j"
        using j by (auto simp: uint_shl_step_def Let_def nth_list_update)
      moreover have "j - k < Suc n \<longleftrightarrow> j - k < n" if "k \<le> j" using 3 that by auto
      moreover have "j - k - 1 < Suc n \<longleftrightarrow> j - k - 1 < n" if "k < j" using 3 that by auto
      ultimately show ?thesis using IH(2)[OF j] by (auto split: if_splits)
    qed
  qed
  with f len show ?case by simp
qed simp

lemma uint_shr_loop:
  "n \<le> W \<Longrightarrow> length (fold (uint_shr_step W k s a) [0..<n] (replicate W 0)) = W \<and>
    (\<forall>j<W. fold (uint_shr_step W k s a) [0..<n] (replicate W 0) ! j =
      (if j + k + 1 < n \<and> s \<noteq> 0 then push_bit (32 - s) (a ! (j + k + 1)) else 0) OR
      (if j + k < n then drop_bit s (a ! (j + k)) else 0))"
proof (induction n)
  case (Suc n)
  define r where "r = fold (uint_shr_step W k s a) [0..<n] (replicate W 0)"
  have IH: "length r = W"
    "\<And>j. j < W \<Longrightarrow> r ! j =
      (if j + k + 1 < n \<and> s \<noteq> 0 then push_bit (32 - s) (a ! (j + k + 1)) else 0) OR
      (if j + k < n then drop_bit s (a ! (j + k)) else 0)"
    using Suc by (auto simp: r_def)
  have f: "fold (uint_shr_step W k s a) [0..<Suc n] (replicate W 0) = uint_shr_step W k s a n r"
    by (simp add: r_def)
  have len: "length (uint_shr_step W k s a n r) = W"
    by (simp add: uint_shr_step_def Let_def IH)
  have "uint_shr_step W k s a n r ! j =
      (if j + k + 1 < Suc n \<and> s \<noteq> 0 then push_bit (32 - s) (a ! (j + k + 1)) else 0) OR
      (if j + k < Suc n then drop_bit s (a ! (j + k)) else 0)" if j: "j < W" for j
  proof -
    consider "n = j + k" | "n = j + k + 1" | "n \<noteq> j + k" "n \<noteq> j + k + 1" by blast
    then show ?thesis
    proof cases
      case 1
      then show ?thesis using j by (auto simp: uint_shr_step_def Let_def nth_list_update IH)
    next
      case 2
      then show ?thesis using j by (auto simp: uint_shr_step_def Let_def nth_list_update IH or.commute)
    next
      case 3
      then have "uint_shr_step W k s a n r ! j = r ! j"
        using j by (auto simp: uint_shr_step_def Let_def nth_list_update)
      moreover have "j + k < Suc n \<longleftrightarrow> j + k < n" using 3 by auto
      moreover have "j + k + 1 < Suc n \<longleftrightarrow> j + k + 1 < n" using 3 by auto
      ultimately show ?thesis using IH(2)[OF j] by (auto split: if_splits)
    qed
  qed
  with f len show ?case by simp
qed simp

lemma div_mod_32:
  fixes m :: nat
  assumes "m = 32 * q + r" "r < 32"
  shows "m div 32 = q" "m mod 32 = r"
  by (simp add: assms) (simp add: assms(1) mod_less[OF assms(2)])

lemma uint_shl_word:
  assumes "LENGTH('a) = 32 * length a"
  shows "(limbs_word (uint_shl a n) :: 'a::len word) = push_bit (unat n) (limbs_word a) \<and>
    length (uint_shl a n) = length a"
proof -
  define W k s where "W = length a" and "k = unat n div 32" and "s = unat n mod 32"
  have n: "unat n = 32 * k + s" "s < 32" by (simp_all add: k_def s_def)
  let ?r = "uint_shl a n"
  have r: "length ?r = W" "\<And>j. j < W \<Longrightarrow> ?r ! j =
      (if k < j \<and> s \<noteq> 0 then drop_bit (32 - s) (a ! (j - k - 1)) else 0) OR
      (if k \<le> j then push_bit s (a ! (j - k)) else 0)"
    using uint_shl_loop[of W W k s a] by (auto simp: uint_shl_def Let_def W_def k_def s_def)
  have "bit (limbs_word ?r :: 'a word) m \<longleftrightarrow> bit (push_bit (unat n) (limbs_word a) :: 'a word) m"
    if m: "m < LENGTH('a)" for m
  proof -
    define j t where "j = m div 32" and "t = m mod 32"
    have mj: "m = 32 * j + t" "t < 32" by (simp_all add: j_def t_def)
    then have j: "j < W" using m assms by (simp add: W_def)
    have L: "bit (limbs_word ?r :: 'a word) m \<longleftrightarrow> bit (?r ! j) t"
      using m j by (simp add: bit_limbs_word r(1) j_def t_def)
    have R: "bit (push_bit (unat n) (limbs_word a) :: 'a word) m \<longleftrightarrow>
        unat n \<le> m \<and> (m - unat n) div 32 < W \<and> bit (a ! ((m - unat n) div 32)) ((m - unat n) mod 32)"
      using m by (auto simp: bit_push_bit_iff bit_limbs_word W_def)
    show ?thesis
    proof (cases "s \<le> t")
      case True
      have "m - unat n = 32 * (j - k) + (t - s)" if "k \<le> j" using mj n True that by simp
      then have "(m - unat n) div 32 = j - k" "(m - unat n) mod 32 = t - s" if "k \<le> j"
        using that mj by (simp_all add: div_mod_32[of _ "j - k" "t - s"])
      moreover have "unat n \<le> m \<longleftrightarrow> k \<le> j" using mj n True by linarith
      ultimately show ?thesis using True mj j
        unfolding L R r(2)[OF j]
        by (auto simp: bit_or_iff bit_push_bit_iff bit_drop_bit_eq dest: bit_imp_le_length)
    next
      case False
      have e: "m - unat n = 32 * (j - k - 1) + (32 + t - s)" if "k < j"
        using mj n False that by (simp add: diff_mult_distrib2)
      have "(m - unat n) div 32 = j - k - 1" "(m - unat n) mod 32 = 32 + t - s" if "k < j"
        using div_mod_32[OF e[OF that]] False n by simp_all
      moreover have "unat n \<le> m \<longleftrightarrow> k < j" using mj n False by linarith
      ultimately show ?thesis using False mj j n
        unfolding L R r(2)[OF j]
        by (auto simp: bit_or_iff bit_push_bit_iff bit_drop_bit_eq add.commute dest: bit_imp_le_length)
    qed
  qed
  then show ?thesis using r(1) by (simp add: W_def bit_word_eqI)
qed

lemma uint_shr_word:
  assumes "LENGTH('a) = 32 * length a"
  shows "(limbs_word (uint_shr a n) :: 'a::len word) = drop_bit (unat n) (limbs_word a) \<and>
    length (uint_shr a n) = length a"
proof -
  define W k s where "W = length a" and "k = unat n div 32" and "s = unat n mod 32"
  have n: "unat n = 32 * k + s" "s < 32" by (simp_all add: k_def s_def)
  let ?r = "uint_shr a n"
  have r: "length ?r = W" "\<And>j. j < W \<Longrightarrow> ?r ! j =
      (if j + k + 1 < W \<and> s \<noteq> 0 then push_bit (32 - s) (a ! (j + k + 1)) else 0) OR
      (if j + k < W then drop_bit s (a ! (j + k)) else 0)"
    using uint_shr_loop[of W W k s a] by (auto simp: uint_shr_def Let_def W_def k_def s_def)
  have "bit (limbs_word ?r :: 'a word) m \<longleftrightarrow> bit (drop_bit (unat n) (limbs_word a) :: 'a word) m"
    if m: "m < LENGTH('a)" for m
  proof -
    define j t where "j = m div 32" and "t = m mod 32"
    have mj: "m = 32 * j + t" "t < 32" by (simp_all add: j_def t_def)
    then have j: "j < W" using m assms by (simp add: W_def)
    have L: "bit (limbs_word ?r :: 'a word) m \<longleftrightarrow> bit (?r ! j) t"
      using m j by (simp add: bit_limbs_word r(1) j_def t_def)
    have R: "bit (drop_bit (unat n) (limbs_word a) :: 'a word) m \<longleftrightarrow>
        (unat n + m) div 32 < W \<and> bit (a ! ((unat n + m) div 32)) ((unat n + m) mod 32)"
      using assms by (auto simp: bit_drop_bit_eq bit_limbs_word W_def)
    show ?thesis
    proof (cases "s + t < 32")
      case True
      have e: "unat n + m = 32 * (j + k) + (s + t)" using mj n by simp
      have "(unat n + m) div 32 = j + k" "(unat n + m) mod 32 = s + t"
        by (rule div_mod_32[OF e True])+
      then show ?thesis using True mj j n
        unfolding L R r(2)[OF j]
        by (auto simp: bit_or_iff bit_push_bit_iff bit_drop_bit_eq dest: bit_imp_le_length)
    next
      case False
      have e: "unat n + m = 32 * (j + k + 1) + (s + t - 32)" using mj n False by simp
      have "(unat n + m) div 32 = j + k + 1" "(unat n + m) mod 32 = s + t - 32"
        using div_mod_32[OF e] False mj n by simp_all
      then show ?thesis using False mj j n
        unfolding L R r(2)[OF j]
        by (auto simp: bit_or_iff bit_push_bit_iff bit_drop_bit_eq add.commute[of t s] dest: bit_imp_le_length)
    qed
  qed
  then show ?thesis using r(1) by (simp add: W_def bit_word_eqI)
qed

lemma uint_Get64_word:
  assumes "LENGTH('a) = 32 * length pn" "2 * n + 1 < length pn"
  shows "uint_Get64 pn n = ucast (drop_bit (64 * n) (limbs_word pn :: 'a::len word))"
proof (rule bit_word_eqI)
  fix t assume t: "t < LENGTH(64)"
  have d: "(64 * n + t) div 32 = 2 * n + t div 32" "(64 * n + t) mod 32 = t mod 32"
    using div_mod_32[of "64 * n + t" "2 * n + t div 32" "t mod 32"] by simp_all
  have R: "bit (ucast (drop_bit (64 * n) (limbs_word pn :: 'a word)) :: uint64) t \<longleftrightarrow>
      2 * n + t div 32 < length pn \<and> bit (pn ! (2 * n + t div 32)) (t mod 32)"
    using t assms(1) by (auto simp: bit_ucast_iff bit_drop_bit_eq bit_limbs_word d)
  have "t div 32 = 0 \<and> t mod 32 = t" if "t < 32" using that by simp
  moreover have "t div 32 = 1 \<and> t mod 32 = t - 32" if "\<not> t < 32"
    using that t by (simp add: le_div_geq le_mod_geq)
  ultimately show "bit (uint_Get64 pn n) t \<longleftrightarrow>
      bit (ucast (drop_bit (64 * n) (limbs_word pn :: 'a word)) :: uint64) t"
    unfolding R using t assms(2)
    by (cases "t < 32") (auto simp: uint_Get64_def bit_or_iff bit_push_bit_iff bit_ucast_iff
        dest: bit_imp_le_length)
qed

section \<open>Bytes\<close>

lemma length_uint_bytes [simp]: "length (uint_bytes pn) = 4 * length pn"
  by (induction pn) (auto simp: uint_bytes_def)

lemma le_val_uint_bytes: "le_val (uint_bytes pn) = limbs_val pn"
proof (induction pn)
  case (Cons x xs)
  have "le_val (word_bytes 4 x) = unat x"
    by (simp add: word_bytes_def le_val_le_bytes)
  then show ?case using Cons by (simp add: uint_bytes_def le_val_append)
qed (simp add: uint_bytes_def)

lemma uint_bytes_eq: "uint_bytes pn = le_bytes (4 * length pn) (limbs_val pn)"
  using le_bytes_le_val[of "uint_bytes pn"] by (simp add: le_val_uint_bytes)

lemma uint_bytes_word:
  "LENGTH('a) = 32 * length pn \<Longrightarrow> uint_bytes pn = word_bytes (4 * length pn) (limbs_word pn :: 'a::len word)"
  by (simp add: uint_bytes_eq word_bytes_def unat_limbs_word)

lemma uint_of_bytes_Suc:
  "uint_of_bytes (Suc W) bs = bytes_word (take 4 bs) # uint_of_bytes W (drop 4 bs)"
  by (simp add: uint_of_bytes_def map_upt_Suc del: upt_Suc) (simp add: add.commute)

lemma length_uint_of_bytes [simp]: "length (uint_of_bytes W bs) = W"
  by (simp add: uint_of_bytes_def)

lemma limbs_val_of_bytes: "length bs = 4 * W \<Longrightarrow> limbs_val (uint_of_bytes W bs) = le_val bs"
proof (induction W arbitrary: bs)
  case (Suc W)
  have "le_val (take 4 bs) < 256 ^ length (take 4 bs)" by (rule le_val_less)
  then have "unat (bytes_word (take 4 bs) :: uint32) = le_val (take 4 bs)"
    using Suc.prems by (simp add: bytes_word_def unsigned_of_nat take_bit_nat_eq_self)
  moreover have "le_val bs = le_val (take 4 bs) + 256 ^ 4 * le_val (drop 4 bs)"
    using le_val_append[of "take 4 bs" "drop 4 bs"] Suc.prems by simp
  ultimately show ?case using Suc by (simp add: uint_of_bytes_Suc)
qed (simp add: uint_of_bytes_def)

lemma uint_of_uint_bytes [simp]: "length pn = W \<Longrightarrow> uint_of_bytes W (uint_bytes pn) = pn"
  using limbs_val_of_bytes[of "uint_bytes pn" W] limbs_val_inj[of "uint_of_bytes W (uint_bytes pn)" pn]
  by (simp add: le_val_uint_bytes)

lemma uint_of_vch_word:
  assumes "LENGTH('a) = 32 * W" "2 \<le> W"
  shows "(limbs_word (uint_of_vch W vch) :: 'a::len word) =
    (if length vch = 4 * W then bytes_word vch else 0)"
  using assms by (simp add: uint_of_vch_def limbs_word_def limbs_val_of_bytes limbs_val_set64 bytes_word_def)

section \<open>Text\<close>

text \<open>The number written by a list of hexadecimal digits, most significant first.\<close>

definition hex_number :: "string \<Rightarrow> nat" where
  "hex_number s = foldl (\<lambda>n c. 16 * n + nat (HexDigit c)) 0 s"

primrec hex_rev :: "string \<Rightarrow> nat" where
  "hex_rev [] = 0"
| "hex_rev (c # cs) = nat (HexDigit c) + 16 * hex_rev cs"

lemma hex_number_rev: "hex_number (rev cs) = hex_rev cs"
  by (induction cs) (simp_all add: hex_number_def)

lemma HexDigit_range: "HexDigit c \<noteq> - 1 \<Longrightarrow> 0 \<le> HexDigit c \<and> HexDigit c < 16"
proof -
  have "(of_char c :: nat) < 256" by (simp add: of_char_def) 
  then have "HexDigit c \<in> set p_util_hexdigit"
    unfolding HexDigit_def by (intro nth_mem) (simp add: p_util_hexdigit_def)
  then show "HexDigit c \<noteq> - 1 \<Longrightarrow> 0 \<le> HexDigit c \<and> HexDigit c < 16"
    by (auto simp: p_util_hexdigit_def)
qed

lemma nibbles:
  assumes "n < 16"
  shows "(word_of_nat n OR push_bit 4 (word_of_nat m) :: byte) = word_of_nat (n + 16 * m)"
proof -
  have "(word_of_nat n :: byte) + push_bit 4 (word_of_nat m) = word_of_nat n OR push_bit 4 (word_of_nat m)"
  proof (rule disjunctive_add)
    fix i
    have "\<not> bit (word_of_nat n :: byte) i" if "4 \<le> i"
    proof -
      have "n = take_bit 4 n" using assms by (simp add: take_bit_nat_eq_self)
      then have "\<not> bit n i" using that by (metis bit_take_bit_iff not_le)
      then show ?thesis by (simp add: bit_word_of_nat)
    qed
    then show "\<not> bit (word_of_nat n :: byte) i \<or> \<not> bit (push_bit 4 (word_of_nat m) :: byte) i"
      by (auto simp: bit_push_bit_iff)
  qed
  then show ?thesis by (simp add: push_bit_eq_mult algebra_simps)
qed

lemma hex_nat: "HexDigit c \<noteq> - 1 \<Longrightarrow> nat (HexDigit c) < 16"
  using HexDigit_range[of c] by linarith

lemma hex_byte: "HexDigit c \<noteq> - 1 \<Longrightarrow> (word_of_int (HexDigit c) :: byte) = word_of_nat (nat (HexDigit c))"
proof -
  assume "HexDigit c \<noteq> - 1"
  then have "int (nat (HexDigit c)) = HexDigit c" using HexDigit_range[of c] by simp
  then show ?thesis by (metis of_int_of_nat_eq)
qed

lemma le_bytes_0: "le_bytes k 0 = replicate k 0"
  by (induction k) auto

lemma le_bytes_digit: "n < 256 \<Longrightarrow> le_bytes (Suc k) (n + 256 * m) = word_of_nat n # le_bytes k m"
  by (simp del: of_nat_add of_nat_mult) (simp add: word_unat_eq_iff unsigned_of_nat take_bit_nat_def del: of_nat_add of_nat_mult)

lemma SetHex_fill_eq:
  assumes "\<forall>c \<in> set cs. HexDigit c \<noteq> - 1" "p1 \<le> length p" "drop p1 p = replicate (length p - p1) 0"
  shows "SetHex_fill p1 p cs = take p1 p @ le_bytes (length p - p1) (hex_rev cs)"
  using assms
proof (induction p1 p cs rule: SetHex_fill.induct)
  case (1 p1 p)
  show ?case using "1.prems"(3) append_take_drop_id[of p1 p] by (simp add: le_bytes_0)
next
  case (2 p1 p c)
  show ?case
  proof (cases "p1 < length p")
    case True
    then obtain k where k: "length p - p1 = Suc k" by (metis Suc_diff_Suc)
    have "drop (Suc p1) p = replicate k 0" using arg_cong[OF "2.prems"(3), of tl] k by (simp add: drop_Suc tl_drop)
    then have "SetHex_fill p1 p [c] = take p1 p @ word_of_int (HexDigit c) # replicate k 0"
      using True by (simp add: upd_conv_take_nth_drop)
    moreover have "HexDigit c \<noteq> - 1" using "2.prems"(1) by simp
    moreover from this have "nat (HexDigit c) < 256" by (rule less_trans[OF hex_nat]) simp
    then have "nat (HexDigit c) div 256 = 0" by (rule div_less)
    ultimately show ?thesis by (simp add: k le_bytes_0 hex_byte)
  qed (use 2 in simp)
next
  case (3 p1 p c d cs)
  show ?case
  proof (cases "p1 < length p")
    case True
    then obtain k where k: "length p - p1 = Suc k" by (metis Suc_diff_Suc)
    then have k': "length p - Suc p1 = k" by simp
    have h: "HexDigit c \<noteq> - 1" "HexDigit d \<noteq> - 1" using "3.prems"(1) by simp_all
    have tl: "drop (Suc p1) p = replicate k 0" using arg_cong[OF "3.prems"(3), of tl] k by (simp add: drop_Suc tl_drop)
    let ?b = "word_of_int (HexDigit c) OR push_bit 4 (word_of_int (HexDigit d)) :: byte"
    have b: "?b = word_of_nat (nat (HexDigit c) + 16 * nat (HexDigit d))"
      by (simp only: hex_byte[OF h(1)] hex_byte[OF h(2)] nibbles[OF hex_nat[OF h(1)]])
    have v: "hex_rev (c # d # cs) = nat (HexDigit c) + 16 * nat (HexDigit d) + 256 * hex_rev cs" by simp
    have lt: "nat (HexDigit c) + 16 * nat (HexDigit d) < 256"
      using hex_nat[OF h(1)] hex_nat[OF h(2)] by simp
    have e: "(let p = p[p1 := word_of_int (HexDigit c)]
        in p[p1 := p ! p1 OR push_bit 4 (word_of_int (HexDigit d))]) = p[p1 := ?b]"
      using True by (simp add: Let_def)
    have "SetHex_fill p1 p (c # d # cs) = SetHex_fill (p1 + 1) (p[p1 := ?b]) cs"
      by (simp only: SetHex_fill.simps True if_True e)
    also have "\<dots> = take (Suc p1) (p[p1 := ?b]) @ le_bytes k (hex_rev cs)"
      using 3(1)[OF True] "3.prems"(1) True tl k' unfolding e by simp
    also have "\<dots> = take p1 p @ ?b # le_bytes k (hex_rev cs)"
      using True by (simp add: take_Suc_conv_app_nth)
    also have "?b # le_bytes k (hex_rev cs) = le_bytes (Suc k) (hex_rev (c # d # cs))"
      unfolding v b by (rule le_bytes_digit[OF lt, symmetric])
    finally show ?thesis using k by simp
  qed (use 3 in simp)
qed

lemma SetHex_val:
  "limbs_val (SetHex W str) = hex_number (hex_prefix (c_str str)) mod 2 ^ (32 * W) \<and> length (SetHex W str) = W"
proof -
  let ?d = "hex_prefix (c_str str)"
  have "\<forall>c \<in> set (rev ?d). HexDigit c \<noteq> - 1" by (auto simp: hex_prefix_def dest: set_takeWhileD)
  then have "SetHex_fill 0 (replicate (4 * W) 0) (rev ?d) = le_bytes (4 * W) (hex_rev (rev ?d))"
    using SetHex_fill_eq[of "rev ?d" 0 "replicate (4 * W) 0"] by simp
  moreover have "hex_rev (rev ?d) = hex_number ?d" using hex_number_rev[of "rev ?d"] by simp
  moreover have "(256 :: nat) ^ (4 * W) = 2 ^ (32 * W)" by (simp add: power_mult)
  ultimately show ?thesis by (simp add: SetHex_def limbs_val_of_bytes le_val_le_bytes)
qed

lemma hex_digit_chars:
  "n < 16 \<Longrightarrow> HexDigit (''0123456789abcdef'' ! n) = int n \<and> \<not> isspace (''0123456789abcdef'' ! n) \<and>
    tolower (''0123456789abcdef'' ! n) \<noteq> CHR ''x'' \<and> ''0123456789abcdef'' ! n \<noteq> CHR 0x00"
proof -
  have "list_all (\<lambda>n. HexDigit (''0123456789abcdef'' ! n) = int n \<and> \<not> isspace (''0123456789abcdef'' ! n) \<and>
    tolower (''0123456789abcdef'' ! n) \<noteq> CHR ''x'' \<and> ''0123456789abcdef'' ! n \<noteq> CHR 0x00) [0..<16]"
    by code_simp
  then show "n < 16 \<Longrightarrow> ?thesis" by (simp add: list_all_iff)
qed

lemma concat_map_const: "(\<And>x. length (f x) = k) \<Longrightarrow> length (concat (map f xs)) = k * length xs"
  by (induction xs) auto

lemma GetHex_rev: "GetHex pn = concat (map sprintf_02x (rev (uint_bytes pn)))"
proof -
  have "map (\<lambda>i. p ! (length p - i - 1)) [0..<length p] = rev p" for p :: bytes
    by (rule nth_equalityI) (simp_all add: rev_nth)
  then have "map sprintf_02x (rev p) = map (\<lambda>i. sprintf_02x (p ! (length p - i - 1))) [0..<length p]" for p :: bytes
    by (metis (no_types, lifting) map_map comp_apply map_cong)
  then show ?thesis by (simp add: GetHex_def Let_def)
qed

lemma hex_text_val: "hex_number (concat (map sprintf_02x (rev bs))) = le_val bs"
proof (induction bs)
  case (Cons b bs)
  let ?s = "concat (map sprintf_02x (rev bs))"
  have "unat b div 16 < 16" "unat b mod 16 < 16" by (simp_all add: less_mult_imp_div_less)
  then have "hex_number (?s @ sprintf_02x b) = 16 * (16 * hex_number ?s + unat b div 16) + unat b mod 16"
    by (simp add: hex_number_def sprintf_02x_def hex_digit_chars)
  then show ?case using Cons by simp
qed (simp add: hex_number_def)

lemma hex_text_chars:
  "c \<in> set (concat (map sprintf_02x bs)) \<Longrightarrow>
    HexDigit c \<noteq> - 1 \<and> \<not> isspace c \<and> tolower c \<noteq> CHR ''x'' \<and> c \<noteq> CHR 0x00"
proof -
  assume "c \<in> set (concat (map sprintf_02x bs))"
  then obtain b :: byte where "c = ''0123456789abcdef'' ! (unat b div 16) \<or> c = ''0123456789abcdef'' ! (unat b mod 16)"
    by (auto simp: sprintf_02x_def)
  moreover have "unat b div 16 < 16" "unat b mod 16 < 16" for b :: byte
    by (simp_all add: less_mult_imp_div_less)
  ultimately obtain n where "n < 16" "c = ''0123456789abcdef'' ! n" by blast
  then show ?thesis using hex_digit_chars[of n] by simp
qed

lemma hex_prefix_digits:
  assumes "\<forall>c \<in> set s. HexDigit c \<noteq> - 1 \<and> \<not> isspace c \<and> tolower c \<noteq> CHR ''x'' \<and> c \<noteq> CHR 0x00"
  shows "hex_prefix (c_str s) = s"
proof -
  have "c_str s = s" using assms by (auto simp: c_str_def)
  moreover have "dropWhile isspace s = s" using assms by (cases s) auto
  moreover have "skip_0x s = s" using assms by (auto simp: skip_0x_def split: list.splits)
  ultimately show ?thesis using assms by (auto simp: hex_prefix_def)
qed

lemma SetHex_GetHex: "SetHex (length pn) (GetHex pn) = pn"
proof -
  have "hex_prefix (c_str (GetHex pn)) = GetHex pn"
    using hex_text_chars by (intro hex_prefix_digits) (auto simp only: GetHex_rev)
  then have "limbs_val (SetHex (length pn) (GetHex pn)) = limbs_val pn" "length (SetHex (length pn) (GetHex pn)) = length pn"
    using SetHex_val[of "length pn" "GetHex pn"] limbs_val_less[of pn]
    by (simp_all add: GetHex_rev hex_text_val le_val_uint_bytes)
  then show ?thesis by (simp add: limbs_val_inj)
qed

section \<open>Properties\<close>

text \<open> C28.
  The limb-wise class refines the machine words of its width.  On lists of \<open>W\<close> limbs every
  operator of \<open>base_uint\<close> keeps the width and computes what the corresponding operation of words of
  \<open>32 * W\<close> bits computes: increment and decrement with their wrap-around, complement and
  negation, sums with the carries, differences, the bitwise operators, the shifts by any count, the
  four orders, equality, the assignment from \<open>uint64_t\<close>, \<open>Get64\<close> and the bytes.
\<close>

theorem base_uint_refines_words:
  assumes "length a = W" "length b = W" "2 \<le> W" "LENGTH('a::len) = 32 * W"
  shows
   "(limbs_word (uint_inc a) :: 'a word) = limbs_word a + 1 \<and>
    (limbs_word (uint_dec a) :: 'a word) = limbs_word a - 1 \<and>
    (limbs_word (uint_not a) :: 'a word) = NOT (limbs_word a) \<and>
    (limbs_word (uint_neg a) :: 'a word) = - limbs_word a \<and>
    (limbs_word (uint_add a b) :: 'a word) = limbs_word a + limbs_word b \<and>
    (limbs_word (uint_sub a b) :: 'a word) = limbs_word a - limbs_word b \<and>
    (limbs_word (uint_add64 a c) :: 'a word) = limbs_word a + word_of_nat (unat c) \<and>
    (limbs_word (uint_sub64 a c) :: 'a word) = limbs_word a - word_of_nat (unat c) \<and>
    (limbs_word (uint_xor a b) :: 'a word) = limbs_word a XOR limbs_word b \<and>
    (limbs_word (uint_and a b) :: 'a word) = limbs_word a AND limbs_word b \<and>
    (limbs_word (uint_or a b) :: 'a word) = limbs_word a OR limbs_word b \<and>
    (limbs_word (uint_xor64 a c) :: 'a word) = limbs_word a XOR word_of_nat (unat c) \<and>
    (limbs_word (uint_or64 a c) :: 'a word) = limbs_word a OR word_of_nat (unat c) \<and>
    (limbs_word (uint_shl a n) :: 'a word) = push_bit (unat n) (limbs_word a) \<and>
    (limbs_word (uint_shr a n) :: 'a word) = drop_bit (unat n) (limbs_word a) \<and>
    (limbs_word (uint_set64 c a) :: 'a word) = word_of_nat (unat c) \<and>
    (uint_less a b \<longleftrightarrow> (limbs_word a :: 'a word) < limbs_word b) \<and>
    (uint_le a b \<longleftrightarrow> (limbs_word a :: 'a word) \<le> limbs_word b) \<and>
    (uint_greater a b \<longleftrightarrow> (limbs_word a :: 'a word) > limbs_word b) \<and>
    (uint_ge a b \<longleftrightarrow> (limbs_word a :: 'a word) \<ge> limbs_word b) \<and>
    (uint_eq a b \<longleftrightarrow> (limbs_word a :: 'a word) = limbs_word b) \<and>
    (uint_eq64 a c \<longleftrightarrow> (limbs_word a :: 'a word) = word_of_nat (unat c)) \<and>
    (uint_is_zero a \<longleftrightarrow> (limbs_word a :: 'a word) = 0) \<and>
    uint_bytes a = word_bytes (4 * W) (limbs_word a :: 'a word)"
proof -
  have len: "0 < length a" "length b = length a" "2 \<le> length a" "LENGTH('a) = 32 * length a"
    "LENGTH('a) = 32 * length b" "a \<noteq> []"
    using assms by auto
  have eq: "a = x \<longleftrightarrow> (limbs_word a :: 'a word) = limbs_word x" if "length x = length a" for x
    using limbs_word_inj[OF len(4) that] by simp
  have z: "(limbs_word (replicate k 0) :: 'a word) = 0" for k by (simp add: limbs_word_def)
  have 64: "(limbs_word (uint_add64 a c) :: 'a word) = limbs_word a + word_of_nat (unat c)"
    "(limbs_word (uint_sub64 a c) :: 'a word) = limbs_word a - word_of_nat (unat c)"
    using len uint_neg_word[of "uint_set64 c (replicate (length a) 0)", where ?'a='a]
    by (simp_all add: uint_add64_def uint_sub64_def uint_add_word uint_set64_word)
  show ?thesis
    using len uint_inc_word[of a, where ?'a='a] uint_dec_word[of a, where ?'a='a] uint_neg_word[of a, where ?'a='a]
      uint_compare_word[OF len(2,4)] uint_bytes_word[OF len(4)] 64 assms(1)
    by (intro conjI) (simp_all add: uint_not_word uint_add_word uint_sub_word uint_bitwise_word uint_bitwise64
        uint_shl_word uint_shr_word uint_set64_word uint_eq_iff eq uint_eq64_iff uint_is_zero_iff z)
qed

lemma base_uint_refines_words_witness:
  "(limbs_word (uint_add [0xffffffff, 0xffffffff, 0, 0, 0, 0, 0, 0] [1, 0, 0, 0, 0, 0, 0, 0]) :: uint256) =
     push_bit 64 1 \<and>
   uint_less [5, 0, 0, 0, 0, 0, 0, 1] [6, 0, 0, 0, 0, 0, 0, 1]"
proof -
  have "(limbs_word (uint_add [0xffffffff, 0xffffffff, 0, 0, 0, 0, 0, 0] [1, 0, 0, 0, 0, 0, 0, 0]) :: uint256) =
     limbs_word [0xffffffff, 0xffffffff, 0, 0, 0, 0, 0, 0] + limbs_word [1, 0, 0, 0, 0, 0, 0, 0]"
    using base_uint_refines_words[of "[0xffffffff, 0xffffffff, 0, 0, 0, 0, 0, 0]" 8 "[1, 0, 0, 0, 0, 0, 0, 0]",
        where ?'a=256] by simp
  moreover have "uint_less [5, 0, 0, 0, 0, 0, 0, 1] [6, 0, 0, 0, 0, 0, 0, 1] \<longleftrightarrow>
      (limbs_word [5, 0, 0, 0, 0, 0, 0, 1] :: uint256) < limbs_word [6, 0, 0, 0, 0, 0, 0, 1]"
    using base_uint_refines_words[of "[5, 0, 0, 0, 0, 0, 0, 1]" 8 "[6, 0, 0, 0, 0, 0, 0, 1]",
        where ?'a=256] by simp
  ultimately show ?thesis by (simp add: limbs_word_def push_bit_eq_mult)
qed

text \<open>
  The text form of a hash.  \<open>SetHex\<close> skips leading spaces and one prefix \<open>0x\<close>, reads
  the hexadecimal digits up to the first other character and keeps their number modulo the width (the
  first digits of a text that is too long are dropped); it reads back what \<open>GetHex\<close> writes, which is
  the number in \<open>8\<close> digits for each limb.
\<close>

theorem uint_hex_text:
  "limbs_val (SetHex W str) = hex_number (hex_prefix (c_str str)) mod 2 ^ (32 * W) \<and>
   length (SetHex W str) = W \<and>
   SetHex (length pn) (GetHex pn) = pn \<and>
   length (GetHex pn) = 8 * length pn \<and> hex_number (GetHex pn) = limbs_val pn"
proof -
  have "length (GetHex pn) = 2 * length (rev (uint_bytes pn))"
    unfolding GetHex_rev by (rule concat_map_const) (simp add: sprintf_02x_def)
  then show ?thesis
    by (simp add: SetHex_val SetHex_GetHex[unfolded GetHex_rev] GetHex_rev hex_text_val le_val_uint_bytes)
qed

end
