(* ===== verification/Base58.thy ===== *)
theory Base58
  imports InterpEquiv Solver Uint256
begin

text \<open>
  Base-58 text (\<open>src/src/base58.cpp\<close>, \<open>src/src/base58.h\<close>): the encoder with its digit
  vector, the decoder through \<open>CBigNum\<close>, the forms with a checksum, \<open>CBase58Data\<close>, addresses,
  secrets, and the version bytes of both networks (\<open>src/src/chainparams.cpp\<close>).  A C string is the list
  of its characters before the terminating zero; a function that sets its result through a reference
  returns the pair of its answer and that result; \<open>None\<close> is a failed assertion.  The code of
  \<open>DecodeBase58\<close> after its unconditional \<open>return true\<close> is never reached and not
  modelled.  \<open>Hash\<close> (double SHA-256), \<open>BN_bn2mpi\<close> and the check of a secret by libsecp256k1 are
  parameters.
\<close>

section \<open>The encoder\<close>

definition pszBase58 :: string where
  "pszBase58 = ''123456789ABCDEFGHJKLMNPQRSTUVWXYZabcdefghijkmnopqrstuvwxyz''"

text \<open>
  \<open>b58 = b58 * 256 + ch\<close>: the loop over the digits from the last one; the digits are given, and
  returned, last one first, with the carry that is left.
\<close>

fun encode_carry :: "nat \<Rightarrow> bytes \<Rightarrow> nat \<times> bytes" where
  "encode_carry carry [] = (carry, [])"
| "encode_carry carry (it # its) =
     (let carry = carry + 256 * unat it
      in case encode_carry (carry div 58) its of
           (carry', its') \<Rightarrow> (carry', word_of_nat (carry mod 58) # its'))"

fun encode_bytes :: "bytes \<Rightarrow> bytes \<Rightarrow> bytes option" where
  "encode_bytes b58 [] = Some b58"
| "encode_bytes b58 (ch # chs) =
     (case encode_carry (unat ch) (rev b58) of
        (carry, its) \<Rightarrow> if carry = 0 then encode_bytes (rev its) chs else None)"

definition EncodeBase58 :: "bytes \<Rightarrow> string option" where
  "EncodeBase58 vch =
     (let zeroes = length (takeWhile (\<lambda>b. b = 0) vch);
          p = dropWhile (\<lambda>b. b = 0) vch
      in case encode_bytes (replicate (length p * 138 div 100 + 1) 0) p of
           None \<Rightarrow> None
         | Some b58 \<Rightarrow>
             Some (replicate zeroes CHR ''1'' @
                   map (\<lambda>it. pszBase58 ! unat it) (dropWhile (\<lambda>it. it = 0) b58)))"

section \<open>The decoder\<close>

text \<open>\<open>strchr\<close> on a character that is not the terminating zero.\<close>

fun strchr :: "string \<Rightarrow> char \<Rightarrow> nat option" where
  "strchr [] c = None"
| "strchr (d # ds) c = (if d = c then Some 0 else map_option Suc (strchr ds c))"

fun decode_digits :: "int \<Rightarrow> string \<Rightarrow> int option" where
  "decode_digits bn [] = Some bn"
| "decode_digits bn (c # p) =
     (case strchr pszBase58 c of
        None \<Rightarrow> if dropWhile isspace (c # p) \<noteq> [] then None else Some bn
      | Some bnChar \<Rightarrow> decode_digits (bn * 58 + int bnChar) p)"

definition trim_sign :: "bytes \<Rightarrow> bytes" where
  "trim_sign vchTmp =
     (if length vchTmp \<ge> 2 \<and> vchTmp ! (length vchTmp - 1) = 0 \<and> vchTmp ! (length vchTmp - 2) \<ge> 0x80
      then butlast vchTmp else vchTmp)"

definition DecodeBase58 :: "(int \<Rightarrow> bytes) \<Rightarrow> string \<Rightarrow> bool \<times> bytes" where
  "DecodeBase58 tompi str =
     (let psz = dropWhile isspace (c_str str);
          psz = dropWhile (\<lambda>c. c = CHR ''1'') psz
      in case decode_digits 0 psz of
           None \<Rightarrow> (False, [])
         | Some bn \<Rightarrow>
             let vchTmp = trim_sign (bignum_getvch tompi bn);
                 nLeadingZeros = length (takeWhile (\<lambda>c. c = pszBase58 ! 0) psz)
             in (True, replicate nLeadingZeros 0 @ rev vchTmp))"

section \<open>With a checksum\<close>

definition EncodeBase58Check :: "(bytes \<Rightarrow> uint256) \<Rightarrow> bytes \<Rightarrow> string option" where
  "EncodeBase58Check Hash vchIn = EncodeBase58 (vchIn @ take 4 (word_bytes 32 (Hash vchIn)))"

definition DecodeBase58Check :: "(int \<Rightarrow> bytes) \<Rightarrow> (bytes \<Rightarrow> uint256) \<Rightarrow> string \<Rightarrow> bool \<times> bytes" where
  "DecodeBase58Check tompi Hash str =
     (case DecodeBase58 tompi str of
        (ok, vchRet) \<Rightarrow>
          if \<not> ok \<or> length vchRet < 4 then (False, [])
          else let hash = Hash (take (length vchRet - 4) vchRet)
               in if take 4 (word_bytes 32 hash) \<noteq> drop (length vchRet - 4) vchRet then (False, [])
                  else (True, take (length vchRet - 4) vchRet))"

section \<open>\<open>CBase58Data\<close>\<close>

record base58_data =
  vchVersion :: bytes
  vchData :: bytes

definition empty_base58 :: base58_data where
  "empty_base58 = \<lparr>vchVersion = [], vchData = []\<rparr>"

definition base58_SetData :: "bytes \<Rightarrow> bytes \<Rightarrow> base58_data" where
  "base58_SetData vchVersionIn data = \<lparr>vchVersion = vchVersionIn, vchData = data\<rparr>"

definition base58_SetString ::
  "(int \<Rightarrow> bytes) \<Rightarrow> (bytes \<Rightarrow> uint256) \<Rightarrow> string \<Rightarrow> nat \<Rightarrow> bool \<times> base58_data" where
  "base58_SetString tompi Hash psz nVersionBytes =
     (case DecodeBase58Check tompi Hash psz of
        (rc58, vchTemp) \<Rightarrow>
          if \<not> rc58 \<or> length vchTemp < nVersionBytes then (False, empty_base58)
          else (True, \<lparr>vchVersion = take nVersionBytes vchTemp, vchData = drop nVersionBytes vchTemp\<rparr>))"

definition base58_ToString :: "(bytes \<Rightarrow> uint256) \<Rightarrow> base58_data \<Rightarrow> string option" where
  "base58_ToString Hash d = EncodeBase58Check Hash (vchVersion d @ vchData d)"

text \<open>The order of \<open>vector<unsigned char>\<close>.\<close>

fun vector_less :: "bytes \<Rightarrow> bytes \<Rightarrow> bool" where
  "vector_less [] [] = False"
| "vector_less [] (y # ys) = True"
| "vector_less (x # xs) [] = False"
| "vector_less (x # xs) (y # ys) = (if x < y then True else if y < x then False else vector_less xs ys)"

definition base58_CompareTo :: "base58_data \<Rightarrow> base58_data \<Rightarrow> int" where
  "base58_CompareTo a b =
     (if vector_less (vchVersion a) (vchVersion b) then - 1
      else if vector_less (vchVersion b) (vchVersion a) then 1
      else if vector_less (vchData a) (vchData b) then - 1
      else if vector_less (vchData b) (vchData a) then 1
      else 0)"

section \<open>Version bytes\<close>

datatype Base58Type =
    PUBKEY_ADDRESS
  | SCRIPT_ADDRESS
  | SECRET_KEY
  | STEALTH_ADDRESS
  | EXT_PUBLIC_KEY
  | EXT_SECRET_KEY

text \<open>The numbering of the enumeration.\<close>

definition Base58Type_of :: "nat \<Rightarrow> Base58Type" where
  "Base58Type_of n =
     [PUBKEY_ADDRESS, SCRIPT_ADDRESS, SECRET_KEY, STEALTH_ADDRESS, EXT_PUBLIC_KEY, EXT_SECRET_KEY] ! n"

definition main_base58Prefixes :: "Base58Type \<Rightarrow> bytes" where
  "main_base58Prefixes t =
     (case t of
        PUBKEY_ADDRESS \<Rightarrow> [50]
      | SCRIPT_ADDRESS \<Rightarrow> [85]
      | SECRET_KEY \<Rightarrow> [83]
      | STEALTH_ADDRESS \<Rightarrow> [43]
      | EXT_PUBLIC_KEY \<Rightarrow> [0x04, 0x88, 0xB2, 0x1E]
      | EXT_SECRET_KEY \<Rightarrow> [0x04, 0x88, 0xAD, 0xE4])"

definition testnet_base58Prefixes :: "Base58Type \<Rightarrow> bytes" where
  "testnet_base58Prefixes t =
     (case t of
        PUBKEY_ADDRESS \<Rightarrow> [73]
      | SCRIPT_ADDRESS \<Rightarrow> [196]
      | SECRET_KEY \<Rightarrow> [83]
      | STEALTH_ADDRESS \<Rightarrow> [40]
      | EXT_PUBLIC_KEY \<Rightarrow> [0x04, 0x35, 0x87, 0xCF]
      | EXT_SECRET_KEY \<Rightarrow> [0x04, 0x35, 0x83, 0x94])"

section \<open>Addresses\<close>

text \<open>
  \<open>CPayDaycoinAddress\<close> and \<open>CBitcoinAddress\<close> are written twice in the code with different
  version types; each function takes the prefix table of the network in use.  A \<open>Set\<close> that
  answers false leaves the object as it is.
\<close>

definition address_Set_KeyID :: "(Base58Type \<Rightarrow> bytes) \<Rightarrow> uint160 \<Rightarrow> base58_data" where
  "address_Set_KeyID pfx ident = base58_SetData (pfx PUBKEY_ADDRESS) (word_bytes 20 ident)"

definition address_Set_ScriptID :: "(Base58Type \<Rightarrow> bytes) \<Rightarrow> uint160 \<Rightarrow> base58_data" where
  "address_Set_ScriptID pfx ident = base58_SetData (pfx SCRIPT_ADDRESS) (word_bytes 20 ident)"

definition address_Set ::
  "(Base58Type \<Rightarrow> bytes) \<Rightarrow> 'st CTxDestination \<Rightarrow> base58_data \<Rightarrow> bool \<times> base58_data" where
  "address_Set pfx dest addr =
     (case dest of
        CKeyID ident \<Rightarrow> (True, address_Set_KeyID pfx ident)
      | CScriptID ident \<Rightarrow> (True, address_Set_ScriptID pfx ident)
      | CNoDestination \<Rightarrow> (False, addr)
      | CStealthAddress _ \<Rightarrow> (False, addr))"

definition address_IsValid :: "(Base58Type \<Rightarrow> bytes) \<Rightarrow> base58_data \<Rightarrow> bool" where
  "address_IsValid pfx d =
     (let fCorrectSize = (length (vchData d) = 20);
          fKnownVersion = (vchVersion d = pfx PUBKEY_ADDRESS \<or> vchVersion d = pfx SCRIPT_ADDRESS)
      in fCorrectSize \<and> fKnownVersion)"

definition address_Get :: "(Base58Type \<Rightarrow> bytes) \<Rightarrow> base58_data \<Rightarrow> 'st CTxDestination" where
  "address_Get pfx d =
     (if \<not> address_IsValid pfx d then CNoDestination
      else let ident = bytes_word (take 20 (vchData d)) in
        if vchVersion d = pfx PUBKEY_ADDRESS then CKeyID ident
        else if vchVersion d = pfx SCRIPT_ADDRESS then CScriptID ident
        else CNoDestination)"

definition address_GetKeyID :: "(Base58Type \<Rightarrow> bytes) \<Rightarrow> base58_data \<Rightarrow> uint160 option" where
  "address_GetKeyID pfx d =
     (if \<not> address_IsValid pfx d \<or> vchVersion d \<noteq> pfx PUBKEY_ADDRESS then None
      else Some (bytes_word (take 20 (vchData d))))"

definition address_IsScript :: "(Base58Type \<Rightarrow> bytes) \<Rightarrow> base58_data \<Rightarrow> bool" where
  "address_IsScript pfx d \<longleftrightarrow> address_IsValid pfx d \<and> vchVersion d = pfx SCRIPT_ADDRESS"

text \<open>The version types of \<open>CBitcoinAddress\<close>.\<close>

definition pubkey_address :: Base58Type where
  "pubkey_address = Base58Type_of 0"

definition script_address :: Base58Type where
  "script_address = Base58Type_of 5"

definition bitcoin_Set_KeyID :: "(Base58Type \<Rightarrow> bytes) \<Rightarrow> uint160 \<Rightarrow> base58_data" where
  "bitcoin_Set_KeyID pfx ident = base58_SetData (pfx pubkey_address) (word_bytes 20 ident)"

definition bitcoin_Set_ScriptID :: "(Base58Type \<Rightarrow> bytes) \<Rightarrow> uint160 \<Rightarrow> base58_data" where
  "bitcoin_Set_ScriptID pfx ident = base58_SetData (pfx script_address) (word_bytes 20 ident)"

definition bitcoin_Set ::
  "(Base58Type \<Rightarrow> bytes) \<Rightarrow> 'st CTxDestination \<Rightarrow> base58_data \<Rightarrow> bool \<times> base58_data" where
  "bitcoin_Set pfx dest addr =
     (case dest of
        CKeyID ident \<Rightarrow> (True, bitcoin_Set_KeyID pfx ident)
      | CScriptID ident \<Rightarrow> (True, bitcoin_Set_ScriptID pfx ident)
      | CNoDestination \<Rightarrow> (False, addr)
      | CStealthAddress _ \<Rightarrow> (False, addr))"

definition bitcoin_IsValid :: "(Base58Type \<Rightarrow> bytes) \<Rightarrow> base58_data \<Rightarrow> bool" where
  "bitcoin_IsValid pfx d =
     (let fCorrectSize = (length (vchData d) = 20);
          fKnownVersion = (vchVersion d = pfx pubkey_address \<or> vchVersion d = pfx script_address)
      in fCorrectSize \<and> fKnownVersion)"

definition bitcoin_Get :: "(Base58Type \<Rightarrow> bytes) \<Rightarrow> base58_data \<Rightarrow> 'st CTxDestination" where
  "bitcoin_Get pfx d =
     (if \<not> bitcoin_IsValid pfx d then CNoDestination
      else let ident = bytes_word (take 20 (vchData d)) in
        if vchVersion d = pfx pubkey_address then CKeyID ident
        else if vchVersion d = pfx script_address then CScriptID ident
        else CNoDestination)"

definition bitcoin_GetKeyID :: "(Base58Type \<Rightarrow> bytes) \<Rightarrow> base58_data \<Rightarrow> uint160 option" where
  "bitcoin_GetKeyID pfx d =
     (if \<not> bitcoin_IsValid pfx d \<or> vchVersion d \<noteq> pfx pubkey_address then None
      else Some (bytes_word (take 20 (vchData d))))"

definition bitcoin_IsScript :: "(Base58Type \<Rightarrow> bytes) \<Rightarrow> base58_data \<Rightarrow> bool" where
  "bitcoin_IsScript pfx d \<longleftrightarrow> bitcoin_IsValid pfx d \<and> vchVersion d = pfx script_address"

section \<open>Secrets\<close>

text \<open>\<open>CKey\<close> of \<open>src/src/key.h\<close>; \<open>Check\<close> is the test of libsecp256k1.\<close>

record ckey =
  ck_fValid :: bool
  ck_fCompressed :: bool
  ck_vch :: bytes

definition ckey_Set :: "(bytes \<Rightarrow> bool) \<Rightarrow> bytes \<Rightarrow> bool \<Rightarrow> ckey \<Rightarrow> ckey" where
  "ckey_Set Check key_bytes fCompressedIn k =
     (if length key_bytes \<noteq> 32 then k\<lparr>ck_fValid := False\<rparr>
      else if Check key_bytes then k\<lparr>ck_vch := key_bytes, ck_fValid := True, ck_fCompressed := fCompressedIn\<rparr>
      else k\<lparr>ck_fValid := False\<rparr>)"

definition ckey_size :: "ckey \<Rightarrow> nat" where
  "ckey_size k = (if ck_fValid k then 32 else 0)"

definition ckey_eq :: "ckey \<Rightarrow> ckey \<Rightarrow> bool" where
  "ckey_eq a b \<longleftrightarrow> ck_fCompressed a = ck_fCompressed b \<and> ckey_size a = ckey_size b \<and>
     take (ckey_size a) (ck_vch a) = take (ckey_size a) (ck_vch b)"

definition secret_SetKey :: "(Base58Type \<Rightarrow> bytes) \<Rightarrow> ckey \<Rightarrow> base58_data option" where
  "secret_SetKey pfx vchSecret =
     (if \<not> ck_fValid vchSecret then None
      else let d = base58_SetData (pfx SECRET_KEY) (take (ckey_size vchSecret) (ck_vch vchSecret))
           in Some (if ck_fCompressed vchSecret then d\<lparr>vchData := vchData d @ [1]\<rparr> else d))"

text \<open>\<open>GetKey\<close> on a new key whose other fields are indeterminate (\<open>k\<close>); \<open>None\<close> when it
  reads beyond the data.\<close>

definition secret_GetKey :: "(bytes \<Rightarrow> bool) \<Rightarrow> ckey \<Rightarrow> base58_data \<Rightarrow> ckey option" where
  "secret_GetKey Check k d =
     (if length (vchData d) < 32 then None
      else Some (ckey_Set Check (take 32 (vchData d))
                   (length (vchData d) > 32 \<and> vchData d ! 32 = 1) (k\<lparr>ck_fValid := False\<rparr>)))"

definition secret_IsValid :: "(Base58Type \<Rightarrow> bytes) \<Rightarrow> base58_data \<Rightarrow> bool" where
  "secret_IsValid pfx d =
     (let fExpectedFormat = (length (vchData d) = 32 \<or> length (vchData d) = 33 \<and> vchData d ! 32 = 1);
          fCorrectVersion = (vchVersion d = pfx SECRET_KEY)
      in fExpectedFormat \<and> fCorrectVersion)"

definition secret_SetString ::
  "(int \<Rightarrow> bytes) \<Rightarrow> (bytes \<Rightarrow> uint256) \<Rightarrow> (Base58Type \<Rightarrow> bytes) \<Rightarrow> string \<Rightarrow> bool \<times> base58_data" where
  "secret_SetString tompi Hash pfx pszSecret =
     (case base58_SetString tompi Hash pszSecret 1 of
        (ok, d) \<Rightarrow> (ok \<and> secret_IsValid pfx d, d))"

section \<open>Numbers in base 58 and 256\<close>

primrec rval :: "nat \<Rightarrow> bytes \<Rightarrow> nat" where
  "rval B [] = 0"
| "rval B (d # ds) = unat d + B * rval B ds"

lemma rval_append: "rval B (xs @ ys) = rval B xs + B ^ length xs * rval B ys"
  by (induction xs) (auto simp: algebra_simps)

lemma rval_256: "rval 256 ds = le_val ds"
  by (induction ds) auto

lemma rval_zeros [simp]: "rval B (replicate n 0) = 0"
  by (induction n) auto

lemma rval_drop_zeros: "rval B (rev (dropWhile (\<lambda>d. d = 0) ds)) = rval B (rev ds)"
  by (induction ds) (auto simp: rval_append)

text \<open>Without a zero in the last place the digits are determined by the number.\<close>

definition stripped :: "bytes \<Rightarrow> bool" where
  "stripped u \<longleftrightarrow> u = [] \<or> last u \<noteq> 0"

lemma stripped_Cons: "stripped (b # u) \<Longrightarrow> stripped u"
  by (auto simp: stripped_def)

lemma stripped_zero: "stripped u \<Longrightarrow> le_val u = 0 \<Longrightarrow> u = []"
proof (induction u)
  case (Cons b u)
  then have "u = []" using stripped_Cons by simp
  then show ?case using Cons.prems by (simp add: stripped_def unat_eq_0)
qed simp

lemma stripped_unique: "stripped u \<Longrightarrow> stripped w \<Longrightarrow> le_val u = le_val w \<Longrightarrow> u = w"
proof (induction u arbitrary: w)
  case Nil
  then show ?case using stripped_zero[of w] by simp
next
  case (Cons b u)
  show ?case
  proof (cases w)
    case Nil
    then show ?thesis using stripped_zero[OF Cons.prems(1)] Cons.prems(3) by simp
  next
    case w: (Cons c w')
    have e: "unat b + 256 * le_val u = unat c + 256 * le_val w'" using Cons.prems(3) w by simp
    then have "(unat b + 256 * le_val u) mod 256 = (unat c + 256 * le_val w') mod 256" by (simp only:)
    then have "unat b = unat c" by (simp only: mod_mult_self2) simp
    then show ?thesis using e w Cons.IH[of w'] Cons.prems stripped_Cons by (auto simp: word_unat_eq_iff)
  qed
qed

lemma stripped_rev_dropWhile: "stripped (rev (dropWhile (\<lambda>d. d = 0) ds))"
  using hd_dropWhile[of "\<lambda>d. d = 0" ds]
  by (cases "dropWhile (\<lambda>d. d = 0) ds = []") (simp_all add: stripped_def last_rev del: dropWhile_eq_Nil_conv)

section \<open>The encoder does not abort\<close>

lemma encode_carry_val:
  "encode_carry c its = (c', its') \<Longrightarrow>
    length its' = length its \<and> (\<forall>d \<in> set its'. unat d < 58) \<and>
    rval 58 its' + 58 ^ length its * c' = c + 256 * rval 58 its"
proof (induction c its arbitrary: c' its' rule: encode_carry.induct)
  case (2 c it its)
  let ?c = "c + 256 * unat it"
  obtain its2 where r: "encode_carry (?c div 58) its = (c', its2)"
    and its': "its' = word_of_nat (?c mod 58) # its2"
    using "2.prems" by (auto simp: Let_def split: prod.splits)
  have IH: "length its2 = length its" "\<forall>d \<in> set its2. unat d < 58"
    "rval 58 its2 + 58 ^ length its * c' = ?c div 58 + 256 * rval 58 its"
    using "2.IH"[OF refl r] by auto
  have u: "unat (word_of_nat (?c mod 58) :: byte) = ?c mod 58"
    by (simp add: unsigned_of_nat take_bit_nat_eq_self)
  have "rval 58 its' + 58 ^ length (it # its) * c' = ?c mod 58 + 58 * (rval 58 its2 + 58 ^ length its * c')"
    by (simp only: its' rval.simps u) (simp add: algebra_simps)
  also have "\<dots> = ?c mod 58 + 58 * (?c div 58) + 58 * 256 * rval 58 its"
    by (simp only: IH(3)) (simp add: algebra_simps)
  also have "\<dots> = c + 256 * rval 58 (it # its)" by (simp only: mod_mult_div_eq) (simp add: algebra_simps)
  finally show ?case using IH its' u by simp
qed auto

lemma encode_bytes_val:
  assumes "rval 58 (rev b58) * 256 ^ length chs + le_val (rev chs) < 58 ^ length b58"
    "\<forall>d \<in> set b58. unat d < 58"
  shows "\<exists>r. encode_bytes b58 chs = Some r \<and> (\<forall>d \<in> set r. unat d < 58) \<and>
    rval 58 (rev r) = rval 58 (rev b58) * 256 ^ length chs + le_val (rev chs)"
  using assms
proof (induction b58 chs rule: encode_bytes.induct)
  case (2 b58 ch chs)
  obtain c its where r: "encode_carry (unat ch) (rev b58) = (c, its)" by fastforce
  let ?v = "rval 58 (rev b58)"
  have v: "length its = length b58" "\<forall>d \<in> set its. unat d < 58"
    "rval 58 its + 58 ^ length b58 * c = unat ch + 256 * ?v"
    using encode_carry_val[OF r] by auto
  have split: "?v * 256 ^ length (ch # chs) + le_val (rev (ch # chs)) =
      (unat ch + 256 * ?v) * 256 ^ length chs + le_val (rev chs)"
    by (simp add: le_val_append algebra_simps)
  have "unat ch + 256 * ?v \<le> (unat ch + 256 * ?v) * 256 ^ length chs" by simp
  then have lt: "unat ch + 256 * ?v < 58 ^ length b58" using "2.prems"(1) unfolding split by linarith
  have c: "c = 0"
  proof (rule ccontr)
    assume "c \<noteq> 0"
    then have "58 ^ length b58 * 1 \<le> 58 ^ length b58 * c" by (intro mult_le_mono2) simp
    then show False using v(3) lt by linarith
  qed
  show ?case using "2.IH"[OF r[symmetric] c] "2.prems" v r c unfolding split by simp
qed auto

lemma base58_capacity: "(256 :: nat) ^ n \<le> 58 ^ (n * 138 div 100 + 1)"
proof -
  let ?m = "n * 138 div 100 + 1"
  have "(256 ^ n) ^ 100 = (256 ^ 100 :: nat) ^ n" by (simp only: power_mult[symmetric] mult.commute)
  also have "\<dots> \<le> (58 ^ 138) ^ n" by (intro power_mono) simp_all
  also have "\<dots> = 58 ^ (n * 138)" by (simp only: power_mult[symmetric] mult.commute)
  also have "\<dots> \<le> 58 ^ (?m * 100)"
  proof (intro power_increasing)
    have "n * 138 = 100 * (n * 138 div 100) + n * 138 mod 100" by (rule mult_div_mod_eq[symmetric])
    also have "\<dots> \<le> 100 * (n * 138 div 100) + 100"
      using mod_less_divisor[of 100 "n * 138"] by (intro add_left_mono) linarith
    finally show "n * 138 \<le> ?m * 100" by simp
  qed simp
  also have "\<dots> = (58 ^ ?m) ^ 100" by (simp only: power_mult)
  finally show ?thesis by (subst (asm) power_mono_iff) simp_all
qed

lemma EncodeBase58_Some:
  "\<exists>ds. EncodeBase58 vch = Some (replicate (length (takeWhile (\<lambda>b. b = 0) vch)) CHR ''1'' @
      map (\<lambda>it. pszBase58 ! unat it) ds) \<and>
    (\<forall>d \<in> set ds. unat d < 58) \<and> stripped (rev ds) \<and> rval 58 (rev ds) = le_val (rev vch)"
proof -
  let ?p = "dropWhile (\<lambda>b. b = 0) vch"
  let ?b = "replicate (length ?p * 138 div 100 + 1) (0 :: byte)"
  have "le_val (rev ?p) < 256 ^ length ?p" using le_val_less[of "rev ?p"] by simp
  also have "\<dots> \<le> 58 ^ (length ?p * 138 div 100 + 1)" by (rule base58_capacity)
  finally have lt: "rval 58 (rev ?b) * 256 ^ length ?p + le_val (rev ?p) < 58 ^ length ?b"
    by (simp only: rev_replicate rval_zeros length_replicate mult_0 add_0)
  have "\<forall>d \<in> set ?b. unat d < 58" by simp
  from encode_bytes_val[OF lt this]
  have "\<exists>r. encode_bytes ?b ?p = Some r \<and> (\<forall>d \<in> set r. unat d < 58) \<and> rval 58 (rev r) = le_val (rev ?p)"
    by (simp only: rev_replicate rval_zeros mult_0 add_0)
  then obtain r where r: "encode_bytes ?b ?p = Some r" "\<forall>d \<in> set r. unat d < 58"
    "rval 58 (rev r) = le_val (rev ?p)" by blast
  have "rval 58 (rev (dropWhile (\<lambda>d. d = 0) r)) = le_val (rev vch)"
    by (simp only: rval_drop_zeros r(3) flip: rval_256)
  moreover have "\<forall>d \<in> set (dropWhile (\<lambda>d. d = 0) r). unat d < 58" using r(2) by (auto dest: set_dropWhileD)
  ultimately show ?thesis using r(1) stripped_rev_dropWhile[of r] by (auto simp: EncodeBase58_def Let_def)
qed

section \<open>The decoder\<close>

lemma base58_chars:
  "n < 58 \<Longrightarrow> strchr pszBase58 (pszBase58 ! n) = Some n \<and> \<not> isspace (pszBase58 ! n) \<and>
    pszBase58 ! n \<noteq> CHR 0x00 \<and> (pszBase58 ! n = CHR ''1'' \<longleftrightarrow> n = 0)"
proof -
  have "list_all (\<lambda>n. strchr pszBase58 (pszBase58 ! n) = Some n \<and> \<not> isspace (pszBase58 ! n) \<and>
    pszBase58 ! n \<noteq> CHR 0x00 \<and> (pszBase58 ! n = CHR ''1'' \<longleftrightarrow> n = 0)) [0..<58]"
    by code_simp
  then show "n < 58 \<Longrightarrow> ?thesis" by (simp add: list_all_iff)
qed

lemma decode_digits_val:
  "\<forall>d \<in> set ds. unat d < 58 \<Longrightarrow>
    decode_digits bn (map (\<lambda>it. pszBase58 ! unat it) ds) = Some (bn * 58 ^ length ds + int (rval 58 (rev ds)))"
proof (induction ds arbitrary: bn)
  case (Cons d ds)
  then show ?case by (simp add: base58_chars rval_append algebra_simps)
qed simp

lemma decode_digits_nonneg: "decode_digits bn p = Some n \<Longrightarrow> 0 \<le> bn \<Longrightarrow> 0 \<le> n"
  by (induction bn p rule: decode_digits.induct) (auto split: option.splits if_splits)

lemma trim_sign_serialize:
  assumes "0 \<le> n"
  shows "stripped (trim_sign (scriptnum_serialize n)) \<and> le_val (trim_sign (scriptnum_serialize n)) = nat n"
proof -
  let ?v = "scriptnum_serialize n"
  show ?thesis
  proof (cases "?v = []")
    case True
    then show ?thesis using serialize_val[of n] by (simp add: trim_sign_def stripped_def sm_val_def)
  next
    case False
    then obtain u l where v: "?v = u @ [l]" by (metis append_butlast_last_id)
    have "\<not> 128 \<le> unat (last ?v)"
      using sm_val_eq[OF False] assms sm_mag_bounds(3)[OF False serialize_minimal]
      by (simp add: serialize_val split: if_splits)
    moreover from this have "n = int (sm_mag ?v)"
      using sm_val_eq[OF False] by (simp add: serialize_val)
    moreover have "sm_mag ?v = le_val u + 256 ^ length u * (unat l mod 128)"
      using sm_mag_eq[OF False] by (simp add: v)
    moreover have "le_val ?v = le_val u + 256 ^ length u * unat l" by (simp add: v le_val_append)
    moreover have "last ?v = l" by (simp add: v)
    ultimately have val: "int (le_val ?v) = n \<and> unat l < 128" by simp
    have min: "l AND 0x7f \<noteq> 0 \<or> (u \<noteq> [] \<and> last u AND 0x80 \<noteq> 0)"
      using serialize_minimal[of n] v by (auto simp: sm_minimal_def nth_append last_conv_nth)
    show ?thesis
    proof (cases "l = 0")
      case True
      then have u: "u \<noteq> []" "128 \<le> unat (last u)" using min by (auto simp: byte_sign)
      then have "trim_sign ?v = u"
        using v True by (auto simp: trim_sign_def nth_append last_conv_nth word_le_nat_alt Suc_le_eq)
      moreover have "last u \<noteq> 0" using u by auto
      ultimately show ?thesis using val v True by (simp add: stripped_def le_val_append nat_eq_iff)
    next
      case False
      then have "trim_sign ?v = ?v" using v by (auto simp: trim_sign_def)
      then show ?thesis using False v val by (auto simp: stripped_def)
    qed
  qed
qed

lemma base58_string:
  assumes "\<forall>d \<in> set ds. unat d < 58" "stripped (rev ds)"
  shows "c_str (replicate z CHR ''1'' @ map (\<lambda>it. pszBase58 ! unat it) ds) =
      replicate z CHR ''1'' @ map (\<lambda>it. pszBase58 ! unat it) ds"
    and "dropWhile isspace (replicate z CHR ''1'' @ map (\<lambda>it. pszBase58 ! unat it) ds) =
      replicate z CHR ''1'' @ map (\<lambda>it. pszBase58 ! unat it) ds"
    and "dropWhile (\<lambda>c. c = CHR ''1'') (replicate z CHR ''1'' @ map (\<lambda>it. pszBase58 ! unat it) ds) =
      map (\<lambda>it. pszBase58 ! unat it) ds"
    and "takeWhile (\<lambda>c. c = pszBase58 ! 0) (map (\<lambda>it. pszBase58 ! unat it) ds) = []"
proof -
  have one: "\<not> isspace CHR ''1''" "CHR ''1'' = pszBase58 ! 0" by code_simp+
  have c: "\<forall>d \<in> set ds. \<not> isspace (pszBase58 ! unat d) \<and> pszBase58 ! unat d \<noteq> CHR 0x00"
    using assms(1) base58_chars by auto
  have hd: "ds = [] \<or> pszBase58 ! unat (hd ds) \<noteq> CHR ''1''"
    using assms base58_chars[of "unat (hd ds)"] by (cases ds) (auto simp: stripped_def unat_eq_0)
  show "c_str (replicate z CHR ''1'' @ map (\<lambda>it. pszBase58 ! unat it) ds) =
      replicate z CHR ''1'' @ map (\<lambda>it. pszBase58 ! unat it) ds"
    using c by (auto simp: c_str_def takeWhile_append)
  show "dropWhile isspace (replicate z CHR ''1'' @ map (\<lambda>it. pszBase58 ! unat it) ds) =
      replicate z CHR ''1'' @ map (\<lambda>it. pszBase58 ! unat it) ds"
    using one c by (cases z; cases ds) auto
  show "dropWhile (\<lambda>c. c = CHR ''1'') (replicate z CHR ''1'' @ map (\<lambda>it. pszBase58 ! unat it) ds) =
      map (\<lambda>it. pszBase58 ! unat it) ds"
    using hd by (cases ds) (auto simp: dropWhile_append)
  show "takeWhile (\<lambda>c. c = pszBase58 ! 0) (map (\<lambda>it. pszBase58 ! unat it) ds) = []"
    using hd one(2) by (cases ds) auto
qed

lemma base58_decode_encode:
  assumes "mpi_documented tompi frompi"
  shows "\<exists>s. EncodeBase58 vch = Some s \<and> DecodeBase58 tompi s = (True, dropWhile (\<lambda>b. b = 0) vch)"
proof -
  let ?z = "length (takeWhile (\<lambda>b. b = 0) vch)"
  obtain ds where ds: "EncodeBase58 vch = Some (replicate ?z CHR ''1'' @ map (\<lambda>it. pszBase58 ! unat it) ds)"
    "\<forall>d \<in> set ds. unat d < 58" "stripped (rev ds)" "rval 58 (rev ds) = le_val (rev vch)"
    using EncodeBase58_Some by blast
  let ?u = "trim_sign (scriptnum_serialize (int (le_val (rev vch))))"
  have "?u = rev (dropWhile (\<lambda>b. b = 0) vch)"
    using trim_sign_serialize[of "int (le_val (rev vch))"] rval_drop_zeros[of 256 vch]
    by (intro stripped_unique) (auto simp: stripped_rev_dropWhile rval_256)
  then have "DecodeBase58 tompi (replicate ?z CHR ''1'' @ map (\<lambda>it. pszBase58 ! unat it) ds) =
      (True, dropWhile (\<lambda>b. b = 0) vch)"
    using ds(4) by (simp add: DecodeBase58_def Let_def base58_string[OF ds(2,3)] decode_digits_val[OF ds(2)]
        mpi_getvch[OF assms])
  then show ?thesis using ds(1) by blast
qed

lemma base58check_decode_encode:
  assumes "mpi_documented tompi frompi" "vch \<noteq> []" "hd vch \<noteq> 0"
  shows "\<exists>s. EncodeBase58Check Hash vch = Some s \<and> DecodeBase58Check tompi Hash s = (True, vch)"
proof -
  let ?w = "vch @ take 4 (word_bytes 32 (Hash vch))"
  obtain s where s: "EncodeBase58 ?w = Some s" "DecodeBase58 tompi s = (True, dropWhile (\<lambda>b. b = 0) ?w)"
    using base58_decode_encode[OF assms(1)] by blast
  have "dropWhile (\<lambda>b. b = 0) ?w = ?w" using assms(2,3) by (cases vch) auto
  then show ?thesis using s by (auto simp: EncodeBase58Check_def DecodeBase58Check_def)
qed

lemma base58_data_round_trip:
  assumes "mpi_documented tompi frompi" "vchVersion d \<noteq> []" "hd (vchVersion d) \<noteq> 0"
  shows "\<exists>s. base58_ToString Hash d = Some s \<and>
    base58_SetString tompi Hash s n =
      (if length (vchVersion d @ vchData d) < n then (False, empty_base58)
       else (True, \<lparr>vchVersion = take n (vchVersion d @ vchData d), vchData = drop n (vchVersion d @ vchData d)\<rparr>))"
proof -
  obtain s where "EncodeBase58Check Hash (vchVersion d @ vchData d) = Some s"
    "DecodeBase58Check tompi Hash s = (True, vchVersion d @ vchData d)"
    using base58check_decode_encode[OF assms(1), of "vchVersion d @ vchData d" Hash] assms(2,3) by auto
  then show ?thesis by (auto simp: base58_ToString_def base58_SetString_def)
qed

lemma vector_less_antisym: "\<not> vector_less xs ys \<Longrightarrow> \<not> vector_less ys xs \<Longrightarrow> xs = ys"
  by (induction xs ys rule: vector_less.induct) (auto split: if_splits)

lemma base58_CompareTo_0: "base58_CompareTo a b = 0 \<longleftrightarrow> a = b"
proof -
  have "\<not> vector_less xs xs" for xs by (induction xs) auto
  then show ?thesis using vector_less_antisym by (auto simp: base58_CompareTo_def)
qed

text \<open>A secret that passes the check is read back as the same key with the same compression.\<close>

lemma secret_round_trip:
  assumes "mpi_documented tompi frompi" "pfx = main_base58Prefixes \<or> pfx = testnet_base58Prefixes"
    "ck_fValid key" "length (ck_vch key) = 32" "Check (ck_vch key)"
  shows "\<exists>d s k'. secret_SetKey pfx key = Some d \<and> base58_ToString Hash d = Some s \<and>
    secret_SetString tompi Hash pfx s = (True, d) \<and> secret_GetKey Check k d = Some k' \<and> ckey_eq k' key"
proof -
  have p: "pfx SECRET_KEY = [83]"
    using assms(2) by (auto simp: main_base58Prefixes_def testnet_base58Prefixes_def)
  define d where "d = \<lparr>vchVersion = [83], vchData = ck_vch key @ (if ck_fCompressed key then [1] else [])\<rparr>"
  have d: "secret_SetKey pfx key = Some d" "vchVersion d = [83]"
    "vchData d = ck_vch key @ (if ck_fCompressed key then [1] else [])"
    using assms(3,4) by (simp_all add: d_def secret_SetKey_def Let_def base58_SetData_def ckey_size_def p)
  obtain s where s: "base58_ToString Hash d = Some s"
    "base58_SetString tompi Hash s 1 = (True, \<lparr>vchVersion = [83], vchData = vchData d\<rparr>)"
    using base58_data_round_trip[OF assms(1), of d Hash 1] d(2) by auto
  have "\<lparr>vchVersion = [83], vchData = vchData d\<rparr> = d" using d(2) by simp
  then have "secret_SetString tompi Hash pfx s = (True, d)"
    using s(2) d assms(4) by (auto simp: secret_SetString_def secret_IsValid_def p nth_append)
  moreover have "\<exists>k'. secret_GetKey Check k d = Some k' \<and> ckey_eq k' key"
    using d(3) assms(3-5)
    by (auto simp: secret_GetKey_def ckey_Set_def ckey_eq_def ckey_size_def nth_append)
  ultimately show ?thesis using d(1) s(1) by blast
qed

section \<open>Properties\<close>

text \<open> C37.
  The base-58 encoder never fails its assertion (its digit vector is large enough), and what
  it writes is accepted by the decoder; but the decoder gives back the bytes without their leading
  zeros, since it counts the leading \<open>1\<close>s after it has skipped them.
\<close>

theorem base58_drops_leading_zeros:
  assumes "mpi_documented tompi frompi"
  shows "\<exists>s. EncodeBase58 vch = Some s \<and> DecodeBase58 tompi s = (True, dropWhile (\<lambda>b. b = 0) vch)"
  using base58_decode_encode[OF assms] .

lemma reference_mpi: "mpi_documented (bn2mpi reference_bn) (mpi2bn reference_bn)"
  using reference_documented by (simp add: bn_documented_def)

lemma base58_drops_leading_zeros_witness:
  "\<exists>s. EncodeBase58 [0, 0, 200, 0, 7] = Some s \<and> DecodeBase58 (bn2mpi reference_bn) s = (True, [200, 0, 7])"
  using base58_drops_leading_zeros[OF reference_mpi, of "[0, 0, 200, 0, 7]"] by simp

text \<open> C27.
  The address of a key or of a script, on either network, is a text that is read back as
  that address: the object is valid, has the kind it was made with and gives the destination.
\<close>

theorem address_round_trip:
  assumes "mpi_documented tompi frompi"
    "pfx = main_base58Prefixes \<or> pfx = testnet_base58Prefixes"
    "dest = CKeyID ident \<or> dest = CScriptID ident"
  shows "\<exists>addr s. address_Set pfx (dest :: 'st CTxDestination) d = (True, addr) \<and>
    base58_ToString Hash addr = Some s \<and> base58_SetString tompi Hash s 1 = (True, addr) \<and>
    address_IsValid pfx addr \<and> address_Get pfx addr = dest \<and>
    (address_IsScript pfx addr \<longleftrightarrow> dest = CScriptID ident) \<and>
    address_GetKeyID pfx addr = (if dest = CKeyID ident then Some ident else None)"
proof -
  have p: "length (pfx PUBKEY_ADDRESS) = 1" "hd (pfx PUBKEY_ADDRESS) \<noteq> 0"
    "length (pfx SCRIPT_ADDRESS) = 1" "hd (pfx SCRIPT_ADDRESS) \<noteq> 0"
    "pfx SCRIPT_ADDRESS \<noteq> pfx PUBKEY_ADDRESS" "pfx PUBKEY_ADDRESS \<noteq> pfx SCRIPT_ADDRESS"
    using assms(2) by (auto simp: main_base58Prefixes_def testnet_base58Prefixes_def)
  have ident: "bytes_word (word_bytes 20 ident) = ident" by (rule bytes_word_word_bytes) simp
  define addr where "addr = snd (address_Set pfx dest d)"
  have v: "length (vchVersion addr) = 1" "hd (vchVersion addr) \<noteq> 0" "vchVersion addr \<noteq> []"
    "vchData addr = word_bytes 20 ident"
    "vchVersion addr = (if dest = CKeyID ident then pfx PUBKEY_ADDRESS else pfx SCRIPT_ADDRESS)"
    using assms(3) p by (auto simp: addr_def address_Set_def address_Set_KeyID_def address_Set_ScriptID_def
        base58_SetData_def)
  obtain s where s: "base58_ToString Hash addr = Some s"
    "base58_SetString tompi Hash s 1 = (True, \<lparr>vchVersion = take 1 (vchVersion addr @ vchData addr),
       vchData = drop 1 (vchVersion addr @ vchData addr)\<rparr>)"
    using base58_data_round_trip[OF assms(1) v(3,2), of Hash 1] v(1) by auto
  have "take 1 (vchVersion addr @ vchData addr) = vchVersion addr" "drop 1 (vchVersion addr @ vchData addr) = vchData addr"
    using v(1) by simp_all
  then have "base58_SetString tompi Hash s 1 = (True, addr)" using s(2) by simp
  moreover have "address_Set pfx dest d = (True, addr)" using assms(3) by (auto simp: addr_def address_Set_def)
  ultimately show ?thesis
    using s(1) assms(3) p v(4,5) by (intro exI[of _ addr] exI[of _ s])
      (auto simp: address_IsValid_def address_Get_def address_IsScript_def address_GetKeyID_def ident)
qed

lemma address_round_trip_witness:
  "\<exists>addr s. address_Set main_base58Prefixes (CScriptID 7 :: unit CTxDestination) empty_base58 = (True, addr) \<and>
    base58_ToString (\<lambda>bs. word_of_nat (length bs)) addr = Some s \<and>
    base58_SetString (bn2mpi reference_bn) (\<lambda>bs. word_of_nat (length bs)) s 1 = (True, addr) \<and>
    address_Get main_base58Prefixes addr = (CScriptID 7 :: unit CTxDestination)"
  using address_round_trip[OF reference_mpi, of main_base58Prefixes "CScriptID 7 :: unit CTxDestination" 7
      empty_base58 "\<lambda>bs. word_of_nat (length bs)"] by auto

text \<open> C38.
  \<open>CBitcoinAddress\<close> takes the version type number 5 for scripts, which is that of extended
  secret keys and has four bytes.  A script address it makes is valid, but its text is not read back: the
  object read has one version byte, is invalid and gives no destination.  The script addresses of the
  network are invalid for it as well, while for keys both classes make the same address.
\<close>

theorem bitcoin_script_address_lost:
  assumes "mpi_documented tompi frompi"
    "pfx = main_base58Prefixes \<or> pfx = testnet_base58Prefixes"
  shows "\<exists>addr s addr'. bitcoin_Set pfx (CScriptID ident :: 'st CTxDestination) d = (True, addr) \<and>
    bitcoin_Get pfx addr = (CScriptID ident :: 'st CTxDestination) \<and>
    base58_ToString Hash addr = Some s \<and> base58_SetString tompi Hash s 1 = (True, addr') \<and>
    \<not> bitcoin_IsValid pfx addr' \<and> bitcoin_Get pfx addr' = (CNoDestination :: 'st CTxDestination) \<and>
    \<not> bitcoin_IsValid pfx (address_Set_ScriptID pfx ident) \<and>
    bitcoin_Set_KeyID pfx ident = address_Set_KeyID pfx ident"
proof -
  have t: "pubkey_address = PUBKEY_ADDRESS" "script_address = EXT_SECRET_KEY"
    by (simp_all add: pubkey_address_def script_address_def Base58Type_of_def)
  obtain b1 b2 b3 where e: "pfx EXT_SECRET_KEY = [4, b1, b2, b3]"
    using assms(2) by (auto simp: main_base58Prefixes_def testnet_base58Prefixes_def)
  have p: "length (pfx PUBKEY_ADDRESS) = 1" "length (pfx SCRIPT_ADDRESS) = 1"
    "pfx SCRIPT_ADDRESS \<noteq> pfx PUBKEY_ADDRESS"
    using assms(2) by (auto simp: main_base58Prefixes_def testnet_base58Prefixes_def)
  have ident: "bytes_word (word_bytes 20 ident) = ident" by (rule bytes_word_word_bytes) simp
  define addr where "addr = bitcoin_Set_ScriptID pfx ident"
  have v: "vchVersion addr = [4, b1, b2, b3]" "vchData addr = word_bytes 20 ident"
    by (simp_all add: addr_def bitcoin_Set_ScriptID_def base58_SetData_def t e)
  have ne: "[4, b1, b2, b3] \<noteq> pfx PUBKEY_ADDRESS" "[4] \<noteq> pfx EXT_SECRET_KEY"
    using p(1) e by (auto dest: arg_cong[of _ _ length])
  define addr' where "addr' = \<lparr>vchVersion = [4], vchData = b1 # b2 # b3 # word_bytes 20 ident\<rparr>"
  obtain s where s: "base58_ToString Hash addr = Some s" "base58_SetString tompi Hash s 1 = (True, addr')"
    using base58_data_round_trip[OF assms(1), of addr Hash 1] v by (auto simp: addr'_def)
  have "\<not> bitcoin_IsValid pfx addr'" by (simp add: bitcoin_IsValid_def addr'_def)
  moreover have "bitcoin_IsValid pfx addr" "bitcoin_Get pfx addr = (CScriptID ident :: 'st CTxDestination)"
    using v ne e by (simp_all add: bitcoin_IsValid_def bitcoin_Get_def t ident)
  moreover have "\<not> bitcoin_IsValid pfx (address_Set_ScriptID pfx ident)"
    using p e by (auto simp: bitcoin_IsValid_def address_Set_ScriptID_def base58_SetData_def t)
  ultimately show ?thesis using s
    by (intro exI[of _ addr] exI[of _ s] exI[of _ addr'])
      (simp add: bitcoin_Set_def addr_def bitcoin_Get_def bitcoin_Set_KeyID_def address_Set_KeyID_def t)
qed

lemma bitcoin_script_address_lost_witness:
  "\<exists>addr s addr'. bitcoin_Set main_base58Prefixes (CScriptID 7 :: unit CTxDestination) empty_base58 = (True, addr) \<and>
    base58_ToString (\<lambda>bs. word_of_nat (length bs)) addr = Some s \<and>
    base58_SetString (bn2mpi reference_bn) (\<lambda>bs. word_of_nat (length bs)) s 1 = (True, addr') \<and>
    bitcoin_Get main_base58Prefixes addr' = (CNoDestination :: unit CTxDestination)"
  using bitcoin_script_address_lost[OF reference_mpi, of main_base58Prefixes 7 empty_base58
      "\<lambda>bs. word_of_nat (length bs)", where ?'st=unit] by auto

end
