(* ===== verification/Digest.thy ===== *)
theory Digest
  imports Prelude
begin

text \<open>
  The part that the digest classes of \<open>src/src/crypto/\<close> share: \<open>CSHA1\<close>, \<open>CSHA256\<close>,
  \<open>CSHA512\<close> and \<open>CRIPEMD160\<close> have the same three members (chaining words, buffer, number of bytes
  written) and the same \<open>Write\<close>, which takes the data in blocks.  Here it has the size of a block and
  the transformation as arguments.  The locale \<open>block_digest\<close> says what \<open>Write\<close> promises: whatever the
  pieces, the chaining words are those of the whole message.  Each class interprets it.
\<close>

section \<open>State\<close>

record 'w hasher =
  h_s :: "'w list"
  h_buf :: bytes
  h_bytes :: uint64

text \<open>A constructor: the words are initialised, the buffer keeps what its memory holds.\<close>

definition new_hasher :: "'w list \<Rightarrow> bytes \<Rightarrow> 'w hasher" where
  "new_hasher init mem = \<lparr>h_s = init, h_buf = mem, h_bytes = 0\<rparr>"

definition hasher_Reset :: "'w list \<Rightarrow> 'w hasher \<Rightarrow> 'w hasher" where
  "hasher_Reset init h = h\<lparr>h_bytes := 0, h_s := init\<rparr>"

text \<open>\<open>memcpy(buf + off, data, n)\<close>.\<close>

definition buf_memcpy :: "nat \<Rightarrow> bytes \<Rightarrow> bytes \<Rightarrow> bytes" where
  "buf_memcpy off data buf = take off buf @ data @ drop (off + length data) buf"

section \<open>\<open>Write\<close>\<close>

text \<open>The loop over full chunks; the result is the state and the data left.\<close>

function write_chunks ::
  "nat \<Rightarrow> ('w list \<Rightarrow> bytes \<Rightarrow> 'w list) \<Rightarrow> 'w hasher \<Rightarrow> bytes \<Rightarrow> 'w hasher \<times> bytes" where
  "write_chunks B Transform h data =
     (if data \<noteq> [] \<and> B \<le> length data \<and> 0 < B
      then write_chunks B Transform
             (h\<lparr>h_s := Transform (h_s h) (take B data), h_bytes := h_bytes h + of_nat B\<rparr>)
             (drop B data)
      else (h, data))"
  by auto
termination by (relation "measure (\<lambda>(B, T, h, data). length data)") auto

declare write_chunks.simps [simp del]

definition hasher_Write ::
  "nat \<Rightarrow> ('w list \<Rightarrow> bytes \<Rightarrow> 'w list) \<Rightarrow> 'w hasher \<Rightarrow> bytes \<Rightarrow> 'w hasher" where
  "hasher_Write B Transform h data =
     (let bufsize = unat (h_bytes h) mod B;
          (h, data, bufsize) =
            (if bufsize \<noteq> 0 \<and> bufsize + length data \<ge> B
             then let buf = buf_memcpy bufsize (take (B - bufsize) data) (h_buf h)
                  in (h\<lparr>h_buf := buf, h_bytes := h_bytes h + of_nat (B - bufsize),
                        h_s := Transform (h_s h) buf\<rparr>, drop (B - bufsize) data, 0)
             else (h, data, bufsize));
          (h, data) = write_chunks B Transform h data
      in if data \<noteq> []
         then h\<lparr>h_buf := buf_memcpy bufsize data (h_buf h), h_bytes := h_bytes h + of_nat (length data)\<rparr>
         else h)"

section \<open>Words and bytes in big-endian order\<close>

text \<open>\<open>ReadBE32\<close>, \<open>ReadBE64\<close>, \<open>WriteBE32\<close>, \<open>WriteBE64\<close> and the little-endian ones of
  \<open>common.h\<close>, by shifts (what the branches of \<open>common.h\<close> for other machines compute with
  \<open>be32toh\<close> or a cast is the same); \<open>off\<close> is the offset of the word.\<close>

definition ReadBE32 :: "bytes \<Rightarrow> nat \<Rightarrow> uint32" where
  "ReadBE32 p off =
     push_bit 24 (ucast (p ! off)) OR push_bit 16 (ucast (p ! (off + 1))) OR
     push_bit 8 (ucast (p ! (off + 2))) OR ucast (p ! (off + 3))"

definition ReadBE64 :: "bytes \<Rightarrow> nat \<Rightarrow> uint64" where
  "ReadBE64 p off =
     push_bit 56 (ucast (p ! off)) OR push_bit 48 (ucast (p ! (off + 1))) OR
     push_bit 40 (ucast (p ! (off + 2))) OR push_bit 32 (ucast (p ! (off + 3))) OR
     push_bit 24 (ucast (p ! (off + 4))) OR push_bit 16 (ucast (p ! (off + 5))) OR
     push_bit 8 (ucast (p ! (off + 6))) OR ucast (p ! (off + 7))"

definition ReadLE32 :: "bytes \<Rightarrow> nat \<Rightarrow> uint32" where
  "ReadLE32 p off =
     push_bit 24 (ucast (p ! (off + 3))) OR push_bit 16 (ucast (p ! (off + 2))) OR
     push_bit 8 (ucast (p ! (off + 1))) OR ucast (p ! off)"

definition WriteBE32 :: "uint32 \<Rightarrow> bytes" where
  "WriteBE32 x = [ucast (drop_bit 24 x), ucast (drop_bit 16 x), ucast (drop_bit 8 x), ucast x]"

definition WriteBE64 :: "uint64 \<Rightarrow> bytes" where
  "WriteBE64 x =
     [ucast (drop_bit 56 x), ucast (drop_bit 48 x), ucast (drop_bit 40 x), ucast (drop_bit 32 x),
      ucast (drop_bit 24 x), ucast (drop_bit 16 x), ucast (drop_bit 8 x), ucast x]"

definition WriteLE32 :: "uint32 \<Rightarrow> bytes" where
  "WriteLE32 x = [ucast x, ucast (drop_bit 8 x), ucast (drop_bit 16 x), ucast (drop_bit 24 x)]"

definition WriteLE64 :: "uint64 \<Rightarrow> bytes" where
  "WriteLE64 x =
     [ucast x, ucast (drop_bit 8 x), ucast (drop_bit 16 x), ucast (drop_bit 24 x),
      ucast (drop_bit 32 x), ucast (drop_bit 40 x), ucast (drop_bit 48 x), ucast (drop_bit 56 x)]"

section \<open>Blocks of a message\<close>

function blocks :: "nat \<Rightarrow> bytes \<Rightarrow> bytes list" where
  "blocks B m = (if 0 < B \<and> B \<le> length m then take B m # blocks B (drop B m) else [])"
  by auto
termination by (relation "measure (\<lambda>(B, m). length m)") auto

declare blocks.simps [simp del]

lemma blocks_short: "length m < B \<Longrightarrow> blocks B m = []"
  by (simp add: blocks.simps)

lemma blocks_step: "0 < B \<Longrightarrow> length x = B \<Longrightarrow> blocks B (x @ m) = x # blocks B m"
  by (subst blocks.simps) simp

lemma blocks_append: "0 < B \<Longrightarrow> B dvd length x \<Longrightarrow> blocks B (x @ m) = blocks B x @ blocks B m"
proof (induction B x rule: blocks.induct)
  case (1 B x)
  show ?case
  proof (cases "B \<le> length x")
    case True
    then have d: "B dvd length (drop B x)" using "1.prems" by (simp add: dvd_minus_self)
    have "blocks B (x @ m) = take B x # blocks B (drop B x @ m)"
      using True "1.prems" by (subst blocks.simps) simp
    also have "\<dots> = take B x # blocks B (drop B x) @ blocks B m" using 1 True d by simp
    finally show ?thesis using True "1.prems" by (simp add: blocks.simps[of B x])
  next
    case False
    then have "x = []" using "1.prems"(2) by (metis dvd_imp_le length_greater_0_conv not_less)
    then show ?thesis using "1.prems"(1) by (simp add: blocks_short)
  qed
qed

lemma blocks_prefix: "0 < B \<Longrightarrow> blocks B (take (length m - length m mod B) m) = blocks B m"
proof -
  assume B: "0 < B"
  let ?k = "length m - length m mod B"
  have "blocks B m = blocks B (take ?k m @ drop ?k m)" by simp
  also have "\<dots> = blocks B (take ?k m) @ blocks B (drop ?k m)"
    using B by (intro blocks_append) (simp_all add: minus_mod_eq_mult_div)
  also have "blocks B (drop ?k m) = []" using B by (intro blocks_short) simp
  finally show ?thesis by simp
qed

section \<open>What the state stands for\<close>

text \<open>The state that has absorbed a message: its length, its blocks, and its last bytes in the buffer.\<close>

definition absorbed ::
  "nat \<Rightarrow> ('w list \<Rightarrow> bytes \<Rightarrow> 'w list) \<Rightarrow> 'w list \<Rightarrow> 'w hasher \<Rightarrow> bytes \<Rightarrow> bool" where
  "absorbed B Transform init h m \<longleftrightarrow>
     h_bytes h = word_of_nat (length m) \<and> length (h_buf h) = B \<and>
     h_s h = foldl Transform init (blocks B m) \<and>
     take (length m mod B) (h_buf h) = drop (length m - length m mod B) m"

lemma length_buf_memcpy: "off + length d \<le> length buf \<Longrightarrow> length (buf_memcpy off d buf) = length buf"
  by (simp add: buf_memcpy_def)

lemma write_chunks_result:
  assumes "0 < B"
  shows "\<exists>c r. write_chunks B T h d =
      (h\<lparr>h_s := foldl T (h_s h) (blocks B c), h_bytes := h_bytes h + word_of_nat (length c)\<rparr>, r) \<and>
    d = c @ r \<and> B dvd length c \<and> length r < B"
  using assms
proof (induction B T h d rule: write_chunks.induct)
  case (1 B T h d)
  show ?case
  proof (cases "d \<noteq> [] \<and> B \<le> length d \<and> 0 < B")
    case True
    let ?h = "h\<lparr>h_s := T (h_s h) (take B d), h_bytes := h_bytes h + word_of_nat B\<rparr>"
    obtain c r where IH: "write_chunks B T ?h (drop B d) =
        (?h\<lparr>h_s := foldl T (h_s ?h) (blocks B c), h_bytes := h_bytes ?h + word_of_nat (length c)\<rparr>, r)"
      "drop B d = c @ r" "B dvd length c" "length r < B"
      using "1.IH"[OF True] "1.prems" by blast
    have "blocks B (take B d @ c) = take B d # blocks B c"
      using True by (intro blocks_step) auto
    moreover have "d = (take B d @ c) @ r" using IH(2) by (metis append_assoc append_take_drop_id)
    moreover have "length (take B d @ c) = B + length c" using True by simp
    ultimately show ?thesis using IH True
      by (intro exI[of _ "take B d @ c"] exI[of _ r])
        (simp add: write_chunks.simps[of B T h d] add.assoc)
  next
    case False
    then show ?thesis using 1(2)
      by (intro exI[of _ "[]"] exI[of _ d])
        (auto simp: write_chunks.simps[of B T h d] blocks_short not_le)
  qed
qed

lemma mod_of_nat64: "B dvd 2 ^ 64 \<Longrightarrow> unat (word_of_nat n :: uint64) mod B = n mod B"
  by (simp add: unsigned_of_nat take_bit_eq_mod mod_mod_cancel)

lemma absorbed_rest:
  assumes a: "absorbed B T init h m" and B: "0 < B"
    and n: "length m mod B = 0 \<or> length m mod B + length d < B"
  shows "absorbed B T init
    (case write_chunks B T h d of (h, d) \<Rightarrow>
       if d \<noteq> [] then h\<lparr>h_buf := buf_memcpy (length m mod B) d (h_buf h), h_bytes := h_bytes h + word_of_nat (length d)\<rparr>
       else h) (m @ d)"
proof -
  obtain c r where w: "write_chunks B T h d =
      (h\<lparr>h_s := foldl T (h_s h) (blocks B c), h_bytes := h_bytes h + word_of_nat (length c)\<rparr>, r)"
    and d: "d = c @ r" "B dvd length c" "length r < B"
    using write_chunks_result[OF B] by blast
  let ?n = "length m mod B"
  let ?k = "length m - ?n"
  have c: "?n = 0 \<or> c = []"
    using n d by (cases c) (auto dest!: dvd_imp_le)
  have len: "?n + length r < B" using n d c by auto
  have k: "B dvd ?k" by (simp add: minus_mod_eq_mult_div)
  have bl: "blocks B (m @ d) = blocks B m @ blocks B c"
  proof (cases "c = []")
    case True
    have "m @ d = take ?k m @ (drop ?k m @ r)" using True d by simp
    moreover have "blocks B (take ?k m @ (drop ?k m @ r)) = blocks B (take ?k m)"
      using B k len by (simp add: blocks_append blocks_short)
    ultimately show ?thesis using True B by (simp add: blocks_short blocks_prefix)
  next
    case False
    then have "B dvd length m" using c by (simp add: dvd_eq_mod_eq_0)
    then have "blocks B (m @ c @ r) = blocks B m @ blocks B c @ blocks B r"
      using B d by (simp add: blocks_append)
    then show ?thesis using d B by (simp add: blocks_short)
  qed
  have m: "length (m @ d) mod B = ?n + length r"
  proof -
    have "length (m @ d) mod B = (length m + length r + length c) mod B" by (simp add: d(1) ac_simps)
    also have "\<dots> = (length m + length r) mod B" using d(2) by (metis dvd_eq_mod_eq_0 add.right_neutral mod_add_right_eq)
    also have "\<dots> = ?n + length r" using len by (metis mod_add_left_eq mod_less)
    finally show ?thesis .
  qed
  have tail: "drop (length (m @ d) - (?n + length r)) (m @ d) = drop ?k m @ r"
  proof (cases "c = []")
    case True
    have "length m + length r - (?n + length r) = ?k" by simp
    then show ?thesis using True d by simp
  next
    case False
    then have "?n = 0" using c by simp
    then show ?thesis using d by simp
  qed
  have buf: "take (?n + length r) (buf_memcpy ?n r (h_buf h)) = drop ?k m @ r"
    using a len by (simp add: buf_memcpy_def absorbed_def)
  show ?thesis
  proof (cases "r = []")
    case True
    then show ?thesis
      using a w bl m tail d by (simp add: absorbed_def)
  next
    case False
    then show ?thesis
      using a w bl m tail buf len d
      by (simp add: absorbed_def length_buf_memcpy add.assoc)
  qed
qed

locale block_digest =
  fixes B :: nat
    and Transform :: "'w list \<Rightarrow> bytes \<Rightarrow> 'w list"
    and init :: "'w list"
  assumes block_pos: "0 < B"
    and block_dvd: "B dvd 2 ^ 64"
begin

lemma absorbed_new: "length mem = B \<Longrightarrow> absorbed B Transform init (new_hasher init mem) []"
  using block_pos by (simp add: absorbed_def new_hasher_def blocks_short)

lemma absorbed_Reset: "absorbed B Transform init h m \<Longrightarrow> absorbed B Transform init (hasher_Reset init h) []"
  using block_pos by (simp add: absorbed_def hasher_Reset_def blocks_short)

lemma absorbed_Write:
  assumes "absorbed B Transform init h m"
  shows "absorbed B Transform init (hasher_Write B Transform h d) (m @ d)"
proof -
  let ?n = "length m mod B"
  have n: "unat (h_bytes h) mod B = ?n"
    using assms mod_of_nat64[OF block_dvd] by (simp add: absorbed_def)
  show ?thesis
  proof (cases "?n \<noteq> 0 \<and> ?n + length d \<ge> B")
    case False
    then have "absorbed B Transform init
      (case write_chunks B Transform h d of (h, d) \<Rightarrow>
         if d \<noteq> [] then h\<lparr>h_buf := buf_memcpy ?n d (h_buf h), h_bytes := h_bytes h + word_of_nat (length d)\<rparr>
         else h) (m @ d)"
      by (intro absorbed_rest[OF assms block_pos]) auto
    then show ?thesis
      unfolding hasher_Write_def Let_def n if_not_P[OF False] prod.case .
  next
    case True
    have nB: "?n < B" using block_pos by simp
    let ?x = "take (B - ?n) d"
    let ?buf = "buf_memcpy ?n ?x (h_buf h)"
    let ?k = "length m - ?n"
    let ?h = "h\<lparr>h_buf := ?buf, h_bytes := h_bytes h + word_of_nat (B - ?n), h_s := Transform (h_s h) ?buf\<rparr>"
    have lx: "length ?x = B - ?n" using True by auto
    have buf: "?buf = drop ?k m @ ?x"
      using assms lx nB by (simp add: buf_memcpy_def absorbed_def)
    have k: "B dvd ?k" by (simp add: minus_mod_eq_mult_div)
    have kl: "length (drop ?k m) = ?n" by simp
    have "blocks B (take ?k m @ (drop ?k m @ ?x)) = blocks B (take ?k m) @ [drop ?k m @ ?x]"
    proof -
      have "blocks B ((drop ?k m @ ?x) @ []) = (drop ?k m @ ?x) # blocks B []"
        using block_pos nB lx by (intro blocks_step) simp_all
      then show ?thesis using block_pos k by (simp add: blocks_append blocks_short)
    qed
    moreover have "take ?k m @ (drop ?k m @ ?x) = m @ ?x" by (simp only: append_assoc[symmetric] append_take_drop_id)
    ultimately have bl: "blocks B (m @ ?x) = blocks B m @ [?buf]"
      using buf block_pos by (simp add: blocks_prefix)
    have "(length m + (B - ?n)) mod B = 0"
    proof -
      have "length m + (B - ?n) = ?k + B" using nB by simp
      then have "(length m + (B - ?n)) mod B = (?k + B) mod B" by (simp only:)
      also have "\<dots> = 0" using k by (simp only: mod_add_self2 dvd_eq_mod_eq_0)
      finally show ?thesis .
    qed
    then have m0: "length (m @ ?x) mod B = 0" using lx by simp
    have "absorbed B Transform init ?h (m @ ?x)"
      using assms bl m0 lx nB by (simp add: absorbed_def length_buf_memcpy)
    from absorbed_rest[OF this block_pos disjI1[OF m0], of "drop (B - ?n) d"]
    have "absorbed B Transform init
      (case write_chunks B Transform ?h (drop (B - ?n) d) of (h, d) \<Rightarrow>
         if d \<noteq> [] then h\<lparr>h_buf := buf_memcpy 0 d (h_buf h), h_bytes := h_bytes h + word_of_nat (length d)\<rparr>
         else h) (m @ d)"
      by (simp only: m0 append_assoc append_take_drop_id)
    then show ?thesis
      unfolding hasher_Write_def Let_def n if_P[OF True] prod.case .
  qed
qed

lemma absorbed_pieces:
  assumes "absorbed B Transform init h m"
  shows "absorbed B Transform init (foldl (hasher_Write B Transform) h pieces) (m @ concat pieces)"
  using assms
proof (induction pieces arbitrary: h m)
  case (Cons d pieces)
  then show ?case using Cons.IH[OF absorbed_Write[OF Cons.prems, of d]] by simp
qed simp

text \<open>What \<open>Finalize\<close> relies on: after the padding, whose length completes a block, the words
  are those of the padded message.\<close>

lemma padded_words:
  assumes "absorbed B Transform init h m"
  shows "h_s (hasher_Write B Transform (hasher_Write B Transform h p) q) =
    foldl Transform init (blocks B (m @ p @ q))"
  using absorbed_Write[OF absorbed_Write[OF assms, of p], of q] by (simp add: absorbed_def)

end

end
