(* ===== verification/Sha2.thy ===== *)
theory Sha2
  imports Digest
begin

text \<open>
  \<open>CSHA256\<close> and \<open>CSHA512\<close> (\<open>src/src/crypto/sha256.cpp\<close>, \<open>sha512.cpp\<close>), the keyed digests
  \<open>CHMAC_SHA256\<close> and \<open>CHMAC_SHA512\<close>, and \<open>CHash256\<close> of \<open>src/src/hash.h\<close>.  Both transformations are
  written as one line of code per round.  The registers \<open>a\<close> to \<open>h\<close> stay where they are and the arguments of
  \<open>Round\<close> rotate by one place from line to line; the sixteen variables \<open>w0\<close> to \<open>w15\<close> are reused in
  turn.  \<open>sha2_line\<close> is the line of number \<open>t\<close>; the two files differ in the width of the words, the
  rotations, the constants and the number of lines, which are its arguments.  The second half states
  FIPS 180-4 as it is published, with shifting registers, a message schedule and the padding, and proves that the
  classes compute it.
\<close>

section \<open>The code\<close>

definition Ch :: "'w::len word \<Rightarrow> 'w word \<Rightarrow> 'w word \<Rightarrow> 'w word" where
  "Ch x y z = z XOR (x AND (y XOR z))"

definition Maj :: "'w::len word \<Rightarrow> 'w word \<Rightarrow> 'w word \<Rightarrow> 'w word" where
  "Maj x y z = (x AND y) OR (z AND (x OR y))"

definition sha256_Sigma0 :: "uint32 \<Rightarrow> uint32" where
  "sha256_Sigma0 x = (drop_bit 2 x OR push_bit 30 x) XOR (drop_bit 13 x OR push_bit 19 x) XOR (drop_bit 22 x OR push_bit 10 x)"

definition sha256_Sigma1 :: "uint32 \<Rightarrow> uint32" where
  "sha256_Sigma1 x = (drop_bit 6 x OR push_bit 26 x) XOR (drop_bit 11 x OR push_bit 21 x) XOR (drop_bit 25 x OR push_bit 7 x)"

definition sha256_sigma0 :: "uint32 \<Rightarrow> uint32" where
  "sha256_sigma0 x = (drop_bit 7 x OR push_bit 25 x) XOR (drop_bit 18 x OR push_bit 14 x) XOR drop_bit 3 x"

definition sha256_sigma1 :: "uint32 \<Rightarrow> uint32" where
  "sha256_sigma1 x = (drop_bit 17 x OR push_bit 15 x) XOR (drop_bit 19 x OR push_bit 13 x) XOR drop_bit 10 x"

definition sha512_Sigma0 :: "uint64 \<Rightarrow> uint64" where
  "sha512_Sigma0 x = (drop_bit 28 x OR push_bit 36 x) XOR (drop_bit 34 x OR push_bit 30 x) XOR (drop_bit 39 x OR push_bit 25 x)"

definition sha512_Sigma1 :: "uint64 \<Rightarrow> uint64" where
  "sha512_Sigma1 x = (drop_bit 14 x OR push_bit 50 x) XOR (drop_bit 18 x OR push_bit 46 x) XOR (drop_bit 41 x OR push_bit 23 x)"

definition sha512_sigma0 :: "uint64 \<Rightarrow> uint64" where
  "sha512_sigma0 x = (drop_bit 1 x OR push_bit 63 x) XOR (drop_bit 8 x OR push_bit 56 x) XOR drop_bit 7 x"

definition sha512_sigma1 :: "uint64 \<Rightarrow> uint64" where
  "sha512_sigma1 x = (drop_bit 19 x OR push_bit 45 x) XOR (drop_bit 61 x OR push_bit 3 x) XOR drop_bit 6 x"

text \<open>\<open>Round\<close>: the new values of the reference parameters \<open>d\<close> and \<open>h\<close>.\<close>

definition sha2_Round ::
  "('w word \<Rightarrow> 'w word) \<Rightarrow> ('w word \<Rightarrow> 'w word) \<Rightarrow> 'w word \<Rightarrow> 'w word \<Rightarrow> 'w word \<Rightarrow> 'w word \<Rightarrow>
   'w word \<Rightarrow> 'w word \<Rightarrow> 'w word \<Rightarrow> 'w word \<Rightarrow> 'w word \<Rightarrow> 'w::len word \<Rightarrow> 'w word \<times> 'w word" where
  "sha2_Round Sigma0 Sigma1 a b c d e f g h k w =
     (let t1 = h + Sigma1 e + Ch e f g + k + w;
          t2 = Sigma0 a + Maj a b c
      in (d + t1, t1 + t2))"

definition sha256_init :: "uint32 list" where
  "sha256_init =
     [0x6a09e667, 0xbb67ae85, 0x3c6ef372, 0xa54ff53a,
      0x510e527f, 0x9b05688c, 0x1f83d9ab, 0x5be0cd19]"

definition sha512_init :: "uint64 list" where
  "sha512_init =
     [0x6a09e667f3bcc908, 0xbb67ae8584caa73b, 0x3c6ef372fe94f82b, 0xa54ff53a5f1d36f1,
      0x510e527fade682d1, 0x9b05688c2b3e6c1f, 0x1f83d9abfb41bd6b, 0x5be0cd19137e2179]"

text \<open>The constants of the lines; after a row of eight lines the registers are back in their places.\<close>

definition sha256_K :: "uint32 list" where
  "sha256_K =
     concat
     [[0x428a2f98, 0x71374491, 0xb5c0fbcf, 0xe9b5dba5, 0x3956c25b, 0x59f111f1, 0x923f82a4, 0xab1c5ed5],
      [0xd807aa98, 0x12835b01, 0x243185be, 0x550c7dc3, 0x72be5d74, 0x80deb1fe, 0x9bdc06a7, 0xc19bf174],
      [0xe49b69c1, 0xefbe4786, 0x0fc19dc6, 0x240ca1cc, 0x2de92c6f, 0x4a7484aa, 0x5cb0a9dc, 0x76f988da],
      [0x983e5152, 0xa831c66d, 0xb00327c8, 0xbf597fc7, 0xc6e00bf3, 0xd5a79147, 0x06ca6351, 0x14292967],
      [0x27b70a85, 0x2e1b2138, 0x4d2c6dfc, 0x53380d13, 0x650a7354, 0x766a0abb, 0x81c2c92e, 0x92722c85],
      [0xa2bfe8a1, 0xa81a664b, 0xc24b8b70, 0xc76c51a3, 0xd192e819, 0xd6990624, 0xf40e3585, 0x106aa070],
      [0x19a4c116, 0x1e376c08, 0x2748774c, 0x34b0bcb5, 0x391c0cb3, 0x4ed8aa4a, 0x5b9cca4f, 0x682e6ff3],
      [0x748f82ee, 0x78a5636f, 0x84c87814, 0x8cc70208, 0x90befffa, 0xa4506ceb, 0xbef9a3f7, 0xc67178f2]]"

definition sha512_K :: "uint64 list" where
  "sha512_K =
     concat
     [[0x428a2f98d728ae22, 0x7137449123ef65cd, 0xb5c0fbcfec4d3b2f, 0xe9b5dba58189dbbc,
       0x3956c25bf348b538, 0x59f111f1b605d019, 0x923f82a4af194f9b, 0xab1c5ed5da6d8118],
      [0xd807aa98a3030242, 0x12835b0145706fbe, 0x243185be4ee4b28c, 0x550c7dc3d5ffb4e2,
       0x72be5d74f27b896f, 0x80deb1fe3b1696b1, 0x9bdc06a725c71235, 0xc19bf174cf692694],
      [0xe49b69c19ef14ad2, 0xefbe4786384f25e3, 0x0fc19dc68b8cd5b5, 0x240ca1cc77ac9c65,
       0x2de92c6f592b0275, 0x4a7484aa6ea6e483, 0x5cb0a9dcbd41fbd4, 0x76f988da831153b5],
      [0x983e5152ee66dfab, 0xa831c66d2db43210, 0xb00327c898fb213f, 0xbf597fc7beef0ee4,
       0xc6e00bf33da88fc2, 0xd5a79147930aa725, 0x06ca6351e003826f, 0x142929670a0e6e70],
      [0x27b70a8546d22ffc, 0x2e1b21385c26c926, 0x4d2c6dfc5ac42aed, 0x53380d139d95b3df,
       0x650a73548baf63de, 0x766a0abb3c77b2a8, 0x81c2c92e47edaee6, 0x92722c851482353b],
      [0xa2bfe8a14cf10364, 0xa81a664bbc423001, 0xc24b8b70d0f89791, 0xc76c51a30654be30,
       0xd192e819d6ef5218, 0xd69906245565a910, 0xf40e35855771202a, 0x106aa07032bbd1b8],
      [0x19a4c116b8d2d0c8, 0x1e376c085141ab53, 0x2748774cdf8eeb99, 0x34b0bcb5e19b48a8,
       0x391c0cb3c5c95a63, 0x4ed8aa4ae3418acb, 0x5b9cca4f7763e373, 0x682e6ff3d6b2b8a3],
      [0x748f82ee5defb2fc, 0x78a5636f43172f60, 0x84c87814a1f0ab72, 0x8cc702081a6439ec,
       0x90befffa23631e28, 0xa4506cebde82bde9, 0xbef9a3f7b2c67915, 0xc67178f2e372532b],
      [0xca273eceea26619c, 0xd186b8c721c0c207, 0xeada7dd6cde0eb1e, 0xf57d4f7fee6ed178,
       0x06f067aa72176fba, 0x0a637dc5a2c898a6, 0x113f9804bef90dae, 0x1b710b35131c471b],
      [0x28db77f523047d84, 0x32caab7b40c72493, 0x3c9ebe0a15c9bebc, 0x431d67c49c100d4c,
       0x4cc5d4becb3e42b6, 0x597f299cfc657e2a, 0x5fcb6fab3ad6faec, 0x6c44198c4a475817]]"

text \<open>The register that the line of number \<open>t\<close> names in place \<open>p\<close> of \<open>Round(a, b, c, d, e, f, g, h, ...)\<close>.\<close>

definition sha2_reg :: "nat \<Rightarrow> nat \<Rightarrow> nat" where
  "sha2_reg t p = (p + 8 - t mod 8) mod 8"

text \<open>
  The line of number \<open>t\<close> on the registers \<open>r\<close> and the variables \<open>w\<close>.  The first sixteen read the
  chunk, the others add to their variable; the last two use the sum without storing it.
\<close>

definition sha2_line ::
  "('w word \<Rightarrow> 'w word) \<Rightarrow> ('w word \<Rightarrow> 'w word) \<Rightarrow> ('w word \<Rightarrow> 'w word) \<Rightarrow> ('w word \<Rightarrow> 'w word) \<Rightarrow>
   (bytes \<Rightarrow> nat \<Rightarrow> 'w word) \<Rightarrow> 'w word list \<Rightarrow> bytes \<Rightarrow> nat \<Rightarrow>
   'w word list \<times> 'w::len word list \<Rightarrow> 'w word list \<times> 'w word list" where
  "sha2_line Sigma0 Sigma1 sigma0 sigma1 read_word K chunk t = (\<lambda>(r, w).
     (let x = (if t < 16 then read_word chunk t
               else w ! (t mod 16) +
                 (sigma1 (w ! ((t + 14) mod 16)) + w ! ((t + 9) mod 16) + sigma0 (w ! ((t + 1) mod 16))));
          w = (if t + 2 < length K then w[t mod 16 := x] else w);
          (d, h) = sha2_Round Sigma0 Sigma1
             (r ! sha2_reg t 0) (r ! sha2_reg t 1) (r ! sha2_reg t 2) (r ! sha2_reg t 3)
             (r ! sha2_reg t 4) (r ! sha2_reg t 5) (r ! sha2_reg t 6) (r ! sha2_reg t 7) (K ! t) x
      in (r[sha2_reg t 3 := d, sha2_reg t 7 := h], w)))"

definition sha2_Transform ::
  "('w word \<Rightarrow> 'w word) \<Rightarrow> ('w word \<Rightarrow> 'w word) \<Rightarrow> ('w word \<Rightarrow> 'w word) \<Rightarrow> ('w word \<Rightarrow> 'w word) \<Rightarrow>
   (bytes \<Rightarrow> nat \<Rightarrow> 'w word) \<Rightarrow> 'w word list \<Rightarrow> 'w word list \<Rightarrow> bytes \<Rightarrow> 'w::len word list" where
  "sha2_Transform Sigma0 Sigma1 sigma0 sigma1 read_word K s chunk =
     (case fold (sha2_line Sigma0 Sigma1 sigma0 sigma1 read_word K chunk) [0..<length K] (s, replicate 16 0) of
        (r, w) \<Rightarrow> map2 (+) s r)"

definition sha256_Transform :: "uint32 list \<Rightarrow> bytes \<Rightarrow> uint32 list" where
  "sha256_Transform =
     sha2_Transform sha256_Sigma0 sha256_Sigma1 sha256_sigma0 sha256_sigma1
       (\<lambda>chunk n. ReadBE32 chunk (4 * n)) sha256_K"

definition sha512_Transform :: "uint64 list \<Rightarrow> bytes \<Rightarrow> uint64 list" where
  "sha512_Transform =
     sha2_Transform sha512_Sigma0 sha512_Sigma1 sha512_sigma0 sha512_sigma1
       (\<lambda>chunk n. ReadBE64 chunk (8 * n)) sha512_K"

subsection \<open>The classes\<close>

definition CSHA256 :: "bytes \<Rightarrow> uint32 hasher" where
  "CSHA256 mem = new_hasher sha256_init mem"

definition CSHA256_Write :: "uint32 hasher \<Rightarrow> bytes \<Rightarrow> uint32 hasher" where
  "CSHA256_Write = hasher_Write 64 sha256_Transform"

text \<open>\<open>Finalize\<close> changes the object; the result is its new state and the digest.\<close>

definition CSHA256_Finalize :: "uint32 hasher \<Rightarrow> uint32 hasher \<times> bytes" where
  "CSHA256_Finalize h =
     (let pad = 0x80 # replicate 63 0;
          sizedesc = WriteBE64 (push_bit 3 (h_bytes h));
          h = CSHA256_Write h (take (1 + (119 - unat (h_bytes h) mod 64) mod 64) pad);
          h = CSHA256_Write h sizedesc
      in (h, concat (map (\<lambda>i. WriteBE32 (h_s h ! i)) [0..<8])))"

definition CSHA256_Reset :: "uint32 hasher \<Rightarrow> uint32 hasher" where
  "CSHA256_Reset = hasher_Reset sha256_init"

definition CSHA512 :: "bytes \<Rightarrow> uint64 hasher" where
  "CSHA512 mem = new_hasher sha512_init mem"

definition CSHA512_Write :: "uint64 hasher \<Rightarrow> bytes \<Rightarrow> uint64 hasher" where
  "CSHA512_Write = hasher_Write 128 sha512_Transform"

definition CSHA512_Finalize :: "uint64 hasher \<Rightarrow> uint64 hasher \<times> bytes" where
  "CSHA512_Finalize h =
     (let pad = 0x80 # replicate 127 0;
          sizedesc = replicate 8 0 @ WriteBE64 (push_bit 3 (h_bytes h));
          h = CSHA512_Write h (take (1 + (239 - unat (h_bytes h) mod 128) mod 128) pad);
          h = CSHA512_Write h sizedesc
      in (h, concat (map (\<lambda>i. WriteBE64 (h_s h ! i)) [0..<8])))"

definition CSHA512_Reset :: "uint64 hasher \<Rightarrow> uint64 hasher" where
  "CSHA512_Reset = hasher_Reset sha512_init"

text \<open>\<open>CHash256\<close>: a digest of the digest.\<close>

definition CHash256_Finalize :: "uint32 hasher \<Rightarrow> uint32 hasher \<times> bytes" where
  "CHash256_Finalize sha =
     (let (sha, buf) = CSHA256_Finalize sha
      in CSHA256_Finalize (CSHA256_Write (CSHA256_Reset sha) buf))"

subsection \<open>Keyed digests\<close>

record 'w hmac =
  hm_outer :: "'w hasher"
  hm_inner :: "'w hasher"

text \<open>The arguments \<open>m1\<close>, \<open>m2\<close> and \<open>m3\<close> are what the buffers of the new objects hold.\<close>

definition CHMAC_SHA256 :: "bytes \<Rightarrow> bytes \<Rightarrow> bytes \<Rightarrow> bytes \<Rightarrow> uint32 hmac" where
  "CHMAC_SHA256 m1 m2 m3 key =
     (let rkey = (if length key \<le> 64 then key @ replicate (64 - length key) 0
                  else snd (CSHA256_Finalize (CSHA256_Write (CSHA256 m3) key)) @ replicate 32 0);
          rkey = map (\<lambda>b. b XOR 0x5c) rkey;
          outer = CSHA256_Write (CSHA256 m1) rkey;
          rkey = map (\<lambda>b. b XOR (0x5c XOR 0x36)) rkey;
          inner = CSHA256_Write (CSHA256 m2) rkey
      in \<lparr>hm_outer = outer, hm_inner = inner\<rparr>)"

definition CHMAC_SHA256_Write :: "uint32 hmac \<Rightarrow> bytes \<Rightarrow> uint32 hmac" where
  "CHMAC_SHA256_Write hm data = hm\<lparr>hm_inner := CSHA256_Write (hm_inner hm) data\<rparr>"

definition CHMAC_SHA256_Finalize :: "uint32 hmac \<Rightarrow> bytes" where
  "CHMAC_SHA256_Finalize hm =
     (let temp = snd (CSHA256_Finalize (hm_inner hm))
      in snd (CSHA256_Finalize (CSHA256_Write (hm_outer hm) temp)))"

definition CHMAC_SHA512 :: "bytes \<Rightarrow> bytes \<Rightarrow> bytes \<Rightarrow> bytes \<Rightarrow> uint64 hmac" where
  "CHMAC_SHA512 m1 m2 m3 key =
     (let rkey = (if length key \<le> 128 then key @ replicate (128 - length key) 0
                  else snd (CSHA512_Finalize (CSHA512_Write (CSHA512 m3) key)) @ replicate 64 0);
          rkey = map (\<lambda>b. b XOR 0x5c) rkey;
          outer = CSHA512_Write (CSHA512 m1) rkey;
          rkey = map (\<lambda>b. b XOR (0x5c XOR 0x36)) rkey;
          inner = CSHA512_Write (CSHA512 m2) rkey
      in \<lparr>hm_outer = outer, hm_inner = inner\<rparr>)"

definition CHMAC_SHA512_Write :: "uint64 hmac \<Rightarrow> bytes \<Rightarrow> uint64 hmac" where
  "CHMAC_SHA512_Write hm data = hm\<lparr>hm_inner := CSHA512_Write (hm_inner hm) data\<rparr>"

definition CHMAC_SHA512_Finalize :: "uint64 hmac \<Rightarrow> bytes" where
  "CHMAC_SHA512_Finalize hm =
     (let temp = snd (CSHA512_Finalize (hm_inner hm))
      in snd (CSHA512_Finalize (CSHA512_Write (hm_outer hm) temp)))"

section \<open>FIPS 180-4\<close>

definition fips_Ch :: "'w::len word \<Rightarrow> 'w word \<Rightarrow> 'w word \<Rightarrow> 'w word" where
  "fips_Ch x y z = (x AND y) XOR (NOT x AND z)"

definition fips_Maj :: "'w::len word \<Rightarrow> 'w word \<Rightarrow> 'w word \<Rightarrow> 'w word" where
  "fips_Maj x y z = (x AND y) XOR (x AND z) XOR (y AND z)"

text \<open>The rotations of both widths: three amounts, the last one a shift in the lower-case functions.\<close>

definition fips_Sigma :: "nat \<Rightarrow> nat \<Rightarrow> nat \<Rightarrow> 'w::len word \<Rightarrow> 'w word" where
  "fips_Sigma a b c x = word_rotr a x XOR word_rotr b x XOR word_rotr c x"

definition fips_sigma :: "nat \<Rightarrow> nat \<Rightarrow> nat \<Rightarrow> 'w::len word \<Rightarrow> 'w word" where
  "fips_sigma a b c x = word_rotr a x XOR word_rotr b x XOR drop_bit c x"

text \<open>The message schedule of a block of sixteen words.\<close>

function fips_W :: "('w word \<Rightarrow> 'w word) \<Rightarrow> ('w word \<Rightarrow> 'w word) \<Rightarrow> (nat \<Rightarrow> 'w word) \<Rightarrow> nat \<Rightarrow> 'w::len word" where
  "fips_W s0 s1 M t =
     (if t < 16 then M t
      else s1 (fips_W s0 s1 M (t - 2)) + fips_W s0 s1 M (t - 7) +
        s0 (fips_W s0 s1 M (t - 15)) + fips_W s0 s1 M (t - 16))"
  by auto
termination by (relation "measure (\<lambda>(s0, s1, M, t). t)") auto

declare fips_W.simps [simp del]

text \<open>One step on the list of the eight working variables.\<close>

definition fips_step ::
  "('w word \<Rightarrow> 'w word) \<Rightarrow> ('w word \<Rightarrow> 'w word) \<Rightarrow> 'w word \<Rightarrow> 'w word \<Rightarrow> 'w word list \<Rightarrow> 'w::len word list" where
  "fips_step S0 S1 k w v =
     (let T1 = v ! 7 + S1 (v ! 4) + fips_Ch (v ! 4) (v ! 5) (v ! 6) + k + w;
          T2 = S0 (v ! 0) + fips_Maj (v ! 0) (v ! 1) (v ! 2)
      in [T1 + T2, v ! 0, v ! 1, v ! 2, v ! 3 + T1, v ! 4, v ! 5, v ! 6])"

definition fips_compress ::
  "('w word \<Rightarrow> 'w word) \<Rightarrow> ('w word \<Rightarrow> 'w word) \<Rightarrow> ('w word \<Rightarrow> 'w word) \<Rightarrow> ('w word \<Rightarrow> 'w word) \<Rightarrow>
   'w word list \<Rightarrow> 'w word list \<Rightarrow> (nat \<Rightarrow> 'w word) \<Rightarrow> 'w::len word list" where
  "fips_compress S0 S1 s0 s1 K H M =
     map2 (+) H (fold (\<lambda>t. fips_step S0 S1 (K ! t) (fips_W s0 s1 M t)) [0..<length K] H)"

text \<open>The words of \<open>n\<close> bytes of a block, in big-endian order, and the bytes of words.\<close>

definition be_word :: "nat \<Rightarrow> bytes \<Rightarrow> nat \<Rightarrow> 'w::len word" where
  "be_word n block t = bytes_word (rev (take n (drop (n * t) block)))"

definition be_bytes :: "nat \<Rightarrow> nat \<Rightarrow> bytes" where
  "be_bytes n x = rev (le_bytes n x)"

text \<open>
  The padding of a message of \<open>n\<close> bytes to blocks of \<open>B\<close> bytes whose last \<open>L\<close> are the number of bits:
  one bit, then the fewest zeros.
\<close>

definition fips_pad :: "nat \<Rightarrow> nat \<Rightarrow> nat \<Rightarrow> bytes" where
  "fips_pad B L n =
     0x80 # replicate (nat ((int B - int L - 1 - int n) mod int B)) 0 @ be_bytes L (8 * n)"

definition fips_block256 :: "uint32 list \<Rightarrow> bytes \<Rightarrow> uint32 list" where
  "fips_block256 H block =
     fips_compress (fips_Sigma 2 13 22) (fips_Sigma 6 11 25) (fips_sigma 7 18 3) (fips_sigma 17 19 10) sha256_K H (be_word 4 block)"

definition fips_sha256 :: "bytes \<Rightarrow> bytes" where
  "fips_sha256 m =
     concat (map (\<lambda>x. be_bytes 4 (unat x))
       (foldl fips_block256 sha256_init (blocks 64 (m @ fips_pad 64 8 (length m)))))"

definition fips_block512 :: "uint64 list \<Rightarrow> bytes \<Rightarrow> uint64 list" where
  "fips_block512 H block =
     fips_compress (fips_Sigma 28 34 39) (fips_Sigma 14 18 41) (fips_sigma 1 8 7) (fips_sigma 19 61 6) sha512_K H (be_word 8 block)"

definition fips_sha512 :: "bytes \<Rightarrow> bytes" where
  "fips_sha512 m =
     concat (map (\<lambda>x. be_bytes 8 (unat x))
       (foldl fips_block512 sha512_init (blocks 128 (m @ fips_pad 128 16 (length m)))))"

section \<open>The lines compute the steps\<close>

lemma Ch_fips: "Ch x y z = fips_Ch x y z"
  by (rule bit_word_eqI) (auto simp: Ch_def fips_Ch_def bit_xor_iff bit_and_iff bit_not_iff)

lemma Maj_fips: "Maj x y z = fips_Maj x y z"
  by (rule bit_word_eqI) (auto simp: Maj_def fips_Maj_def bit_xor_iff bit_and_iff bit_or_iff)

lemma rotate_right:
  assumes "n < LENGTH('w)" "k = LENGTH('w) - n"
  shows "drop_bit n (x :: 'w::len word) OR push_bit k x = word_rotr n x"
proof (rule bit_word_eqI)
  fix i assume i: "i < LENGTH('w)"
  show "bit (drop_bit n x OR push_bit k x) i \<longleftrightarrow> bit (word_rotr n x) i"
  proof (cases "i + n < LENGTH('w)")
    case True
    then show ?thesis using i assms
      by (auto simp: bit_or_iff bit_drop_bit_eq bit_push_bit_iff bit_word_rotr_iff add.commute)
  next
    case False
    then have "(i + n) mod LENGTH('w) = i + n - LENGTH('w)" using i assms by (simp add: le_mod_geq)
    moreover have "i - k = i + n - LENGTH('w)" "k \<le> i" using False assms by auto
    moreover have "\<not> bit x (i + n)" using False by (meson bit_imp_le_length)
    ultimately show ?thesis using i assms
      by (simp add: bit_or_iff bit_drop_bit_eq bit_push_bit_iff bit_word_rotr_iff add.commute)
  qed
qed

lemma sha256_functions:
  "sha256_Sigma0 = fips_Sigma 2 13 22" "sha256_Sigma1 = fips_Sigma 6 11 25"
  "sha256_sigma0 = fips_sigma 7 18 3" "sha256_sigma1 = fips_sigma 17 19 10"
  by (rule ext, simp add: sha256_Sigma0_def sha256_Sigma1_def sha256_sigma0_def sha256_sigma1_def
      fips_Sigma_def fips_sigma_def rotate_right)+

lemma sha512_functions:
  "sha512_Sigma0 = fips_Sigma 28 34 39" "sha512_Sigma1 = fips_Sigma 14 18 41"
  "sha512_sigma0 = fips_sigma 1 8 7" "sha512_sigma1 = fips_sigma 19 61 6"
  by (rule ext, simp add: sha512_Sigma0_def sha512_Sigma1_def sha512_sigma0_def sha512_sigma1_def
      fips_Sigma_def fips_sigma_def rotate_right)+

lemma sha2_reg_eq: "p < 8 \<Longrightarrow> sha2_reg t p = (if p < t mod 8 then p + 8 - t mod 8 else p - t mod 8)"
  by (auto simp: sha2_reg_def le_mod_geq)

lemma sha2_reg_less [simp]: "sha2_reg t p < 8"
  by (simp add: sha2_reg_def)

lemma sha2_reg_inj: "p < 8 \<Longrightarrow> p' < 8 \<Longrightarrow> sha2_reg t p = sha2_reg t p' \<longleftrightarrow> p = p'"
proof -
  have "t mod 8 < 8" by simp
  then show "p < 8 \<Longrightarrow> p' < 8 \<Longrightarrow> sha2_reg t p = sha2_reg t p' \<longleftrightarrow> p = p'"
    by (auto simp: sha2_reg_eq)
qed

lemma sha2_reg_next: "p < 7 \<Longrightarrow> sha2_reg (Suc t) (Suc p) = sha2_reg t p" "sha2_reg (Suc t) 0 = sha2_reg t 7"
proof -
  have t: "t mod 8 < 8" "Suc t mod 8 = (if t mod 8 = 7 then 0 else Suc (t mod 8))"
    by (simp_all add: mod_Suc)
  show "p < 7 \<Longrightarrow> sha2_reg (Suc t) (Suc p) = sha2_reg t p" "sha2_reg (Suc t) 0 = sha2_reg t 7"
    using t by (auto simp: sha2_reg_eq)
qed

text \<open>The working variables as the line of number \<open>t\<close> sees them.\<close>

definition sha2_view :: "nat \<Rightarrow> 'w word list \<Rightarrow> 'w::len word list" where
  "sha2_view t r = map (\<lambda>p. r ! sha2_reg t p) [0..<8]"

lemma nth_sha2_view: "p < 8 \<Longrightarrow> sha2_view t r ! p = r ! sha2_reg t p"
  by (simp add: sha2_view_def)

lemma upt_8: "[0..<8] = [0, 1, 2, 3, 4, 5, 6, 7]"
  by (simp add: upt_rec)

lemma sha2_view_step:
  assumes "length r = 8"
  shows "sha2_view (Suc t) (r[sha2_reg t 3 := d, sha2_reg t 7 := h]) =
    [h, r ! sha2_reg t 0, r ! sha2_reg t 1, r ! sha2_reg t 2, d, r ! sha2_reg t 4, r ! sha2_reg t 5, r ! sha2_reg t 6]"
proof -
  have n: "sha2_reg (Suc t) 1 = sha2_reg t 0" "sha2_reg (Suc t) 2 = sha2_reg t 1" "sha2_reg (Suc t) 3 = sha2_reg t 2"
    "sha2_reg (Suc t) 4 = sha2_reg t 3" "sha2_reg (Suc t) 5 = sha2_reg t 4" "sha2_reg (Suc t) 6 = sha2_reg t 5"
    "sha2_reg (Suc t) 7 = sha2_reg t 6"
    using sha2_reg_next(1)[of 0 t] sha2_reg_next(1)[of 1 t] sha2_reg_next(1)[of 2 t] sha2_reg_next(1)[of 3 t]
      sha2_reg_next(1)[of 4 t] sha2_reg_next(1)[of 5 t] sha2_reg_next(1)[of 6 t]
    by (simp_all add: eval_nat_numeral)
  show ?thesis
    unfolding sha2_view_def upt_8 list.map n sha2_reg_next(2)
    using assms by (simp add: nth_list_update sha2_reg_inj)
qed

lemma sha2_lines:
  fixes K :: "'w::len word list"
  assumes "length s = 8" "t \<le> length K" "16 \<le> length K - 2"
    "\<And>n. n < 16 \<Longrightarrow> rd chunk n = M n"
  shows "\<exists>r w. fold (sha2_line S0 S1 s0 s1 rd K chunk) [0..<t] (s, replicate 16 0) = (r, w) \<and>
    length r = 8 \<and> length w = 16 \<and>
    sha2_view t r = fold (\<lambda>t. fips_step S0 S1 (K ! t) (fips_W s0 s1 M t)) [0..<t] s \<and>
    (\<forall>i. i < t \<and> t \<le> i + 16 \<and> i + 2 < length K \<longrightarrow> w ! (i mod 16) = fips_W s0 s1 M i)"
  using assms(2)
proof (induction t)
  case 0
  have "sha2_view 0 s = s"
    using assms(1) by (intro nth_equalityI) (simp_all add: sha2_view_def sha2_reg_def)
  then show ?case using assms(1) by auto
next
  case (Suc t)
  then obtain r w where IH: "fold (sha2_line S0 S1 s0 s1 rd K chunk) [0..<t] (s, replicate 16 0) = (r, w)"
    "length r = 8" "length w = 16"
    "sha2_view t r = fold (\<lambda>t. fips_step S0 S1 (K ! t) (fips_W s0 s1 M t)) [0..<t] s"
    "\<And>i. i < t \<Longrightarrow> t \<le> i + 16 \<Longrightarrow> i + 2 < length K \<Longrightarrow> w ! (i mod 16) = fips_W s0 s1 M i"
    by auto
  define x where "x = (if t < 16 then rd chunk t
               else w ! (t mod 16) + (s1 (w ! ((t + 14) mod 16)) + w ! ((t + 9) mod 16) + s0 (w ! ((t + 1) mod 16))))"
  have x: "x = fips_W s0 s1 M t"
  proof (cases "t < 16")
    case True
    then show ?thesis using assms(4) by (simp add: x_def fips_W.simps[of s0 s1 M t])
  next
    case False
    have m: "t mod 16 = (t - 16) mod 16" "(t + 14) mod 16 = (t - 2) mod 16" "(t + 9) mod 16 = (t - 7) mod 16"
      "(t + 1) mod 16 = (t - 15) mod 16"
      using False mod_add_self2[of "t - 16" 16] mod_add_self2[of "t - 2" 16] mod_add_self2[of "t - 7" 16]
        mod_add_self2[of "t - 15" 16] by (simp_all add: add.commute[of t])
    have v: "w ! ((t - 16) mod 16) = fips_W s0 s1 M (t - 16)" "w ! ((t - 2) mod 16) = fips_W s0 s1 M (t - 2)"
      "w ! ((t - 7) mod 16) = fips_W s0 s1 M (t - 7)" "w ! ((t - 15) mod 16) = fips_W s0 s1 M (t - 15)"
      using False Suc.prems by (auto intro!: IH(5))
    show ?thesis
      using False unfolding x_def fips_W.simps[of s0 s1 M t] m v by (simp add: add.commute add.left_commute)
  qed
  define w' where "w' = (if t + 2 < length K then w[t mod 16 := x] else w)"
  obtain d h where dh: "sha2_Round S0 S1 (r ! sha2_reg t 0) (r ! sha2_reg t 1) (r ! sha2_reg t 2) (r ! sha2_reg t 3)
      (r ! sha2_reg t 4) (r ! sha2_reg t 5) (r ! sha2_reg t 6) (r ! sha2_reg t 7) (K ! t) x = (d, h)"
    by fastforce
  let ?r = "r[sha2_reg t 3 := d, sha2_reg t 7 := h]"
  have line: "sha2_line S0 S1 s0 s1 rd K chunk t (r, w) = (?r, w')"
    unfolding sha2_line_def prod.case Let_def x_def[symmetric] w'_def[symmetric] dh by simp
  have "fold (sha2_line S0 S1 s0 s1 rd K chunk) [0..<Suc t] (s, replicate 16 0) = (?r, w')"
    using IH(1) line by simp
  moreover have "sha2_view (Suc t) ?r = fips_step S0 S1 (K ! t) (fips_W s0 s1 M t) (sha2_view t r)"
    unfolding sha2_view_step[OF IH(2)] using dh
    by (auto simp: fips_step_def nth_sha2_view sha2_Round_def Let_def Ch_fips Maj_fips x add.commute add.left_commute)
  moreover have "w' ! (i mod 16) = fips_W s0 s1 M i" if i: "i < Suc t" "Suc t \<le> i + 16" "i + 2 < length K" for i
  proof (cases "i = t")
    case True
    then show ?thesis using i IH(3) x by (simp add: w'_def)
  next
    case False
    then have "i < t" using i by simp
    moreover have "i mod 16 \<noteq> t mod 16"
    proof
      assume "i mod 16 = t mod 16"
      then have "16 dvd t - i" using \<open>i < t\<close> mod_eq_dvd_iff_nat[of i t 16] by simp
      then show False using \<open>i < t\<close> i(2) by (auto dest!: dvd_imp_le)
    qed
    ultimately show ?thesis using i IH(5)[of i] by (simp add: w'_def)
  qed
  ultimately show ?case using IH(2,3,4) by (auto simp: w'_def)
qed

lemma sha2_Transform_fips:
  fixes K :: "'w::len word list"
  assumes "length s = 8" "length K mod 8 = 0" "18 \<le> length K" "\<And>n. n < 16 \<Longrightarrow> rd chunk n = M n"
  shows "sha2_Transform S0 S1 s0 s1 rd K s chunk = fips_compress S0 S1 s0 s1 K s M \<and>
    length (sha2_Transform S0 S1 s0 s1 rd K s chunk) = 8"
proof -
  have "16 \<le> length K - 2" using assms(3) by simp
  from sha2_lines[of s "length K" K rd chunk M, OF assms(1) order.refl this assms(4), of S0 S1 s0 s1]
  obtain r w where r: "fold (sha2_line S0 S1 s0 s1 rd K chunk) [0..<length K] (s, replicate 16 0) = (r, w)"
    "length r = 8"
    "sha2_view (length K) r = fold (\<lambda>t. fips_step S0 S1 (K ! t) (fips_W s0 s1 M t)) [0..<length K] s"
    by blast
  have "sha2_view (length K) r = r"
    using r(2) assms(2) by (intro nth_equalityI) (simp_all add: sha2_view_def sha2_reg_def)
  then show ?thesis using r assms(1) by (simp add: sha2_Transform_def fips_compress_def)
qed

section \<open>Words, padding and length\<close>

lemma or_byte:
  fixes w :: "'a::len word"
  assumes "8 \<le> LENGTH('a)"
  shows "(ucast (b :: byte) :: 'a word) OR push_bit 8 w = word_of_nat (unat b) + 256 * w"
proof -
  have "(ucast b :: 'a word) + push_bit 8 w = ucast b OR push_bit 8 w"
  proof (rule disjunctive_add)
    fix i
    show "\<not> bit (ucast b :: 'a word) i \<or> \<not> bit (push_bit 8 w) i"
      by (cases "i < 8") (auto simp: bit_ucast_iff bit_push_bit_iff dest: bit_imp_le_length)
  qed
  then show ?thesis by (simp add: push_bit_eq_mult mult.commute)
qed

lemma take_words: "n + 4 \<le> length p \<Longrightarrow> take 4 (drop n p) = [p ! n, p ! (n + 1), p ! (n + 2), p ! (n + 3)]"
  by (rule nth_equalityI) (auto simp: nth_Cons' less_Suc_eq numeral_eq_Suc)

lemma take_words8: "n + 8 \<le> length p \<Longrightarrow> take 8 (drop n p) =
    [p ! n, p ! (n + 1), p ! (n + 2), p ! (n + 3), p ! (n + 4), p ! (n + 5), p ! (n + 6), p ! (n + 7)]"
  by (rule nth_equalityI) (auto simp: nth_Cons' less_Suc_eq numeral_eq_Suc)

lemma ReadBE32_word: "4 * n + 4 \<le> length p \<Longrightarrow> ReadBE32 p (4 * n) = be_word 4 p n"
proof -
  assume l: "4 * n + 4 \<le> length p"
  have "ReadBE32 p (4 * n) = ucast (p ! (4 * n + 3)) OR push_bit 8 (ucast (p ! (4 * n + 2)) OR
      push_bit 8 (ucast (p ! (4 * n + 1)) OR push_bit 8 (ucast (p ! (4 * n)))))"
    by (simp add: ReadBE32_def push_bit_or or.commute or.left_commute or.assoc)
  also have "\<dots> = be_word 4 p n"
    by (simp add: be_word_def take_words[OF l] bytes_word_def or_byte)
  finally show ?thesis .
qed

lemma ReadBE64_word: "8 * n + 8 \<le> length p \<Longrightarrow> ReadBE64 p (8 * n) = be_word 8 p n"
proof -
  assume l: "8 * n + 8 \<le> length p"
  have "ReadBE64 p (8 * n) = ucast (p ! (8 * n + 7)) OR push_bit 8 (ucast (p ! (8 * n + 6)) OR
      push_bit 8 (ucast (p ! (8 * n + 5)) OR push_bit 8 (ucast (p ! (8 * n + 4)) OR
      push_bit 8 (ucast (p ! (8 * n + 3)) OR push_bit 8 (ucast (p ! (8 * n + 2)) OR
      push_bit 8 (ucast (p ! (8 * n + 1)) OR push_bit 8 (ucast (p ! (8 * n)))))))))"
    by (simp add: ReadBE64_def push_bit_or or.commute or.left_commute or.assoc)
  also have "\<dots> = be_word 8 p n"
    by (simp add: be_word_def take_words8[OF l] bytes_word_def or_byte)
  finally show ?thesis .
qed

lemma ucast_drop_bit_byte: "(ucast (drop_bit k x) :: byte) = word_of_nat (unat (x :: 'a::len word) div 2 ^ k)"
  by (simp add: word_unat_eq_iff unat_ucast_mod unat_drop_bit_div unsigned_of_nat take_bit_nat_def)

lemma WriteBE32_bytes: "WriteBE32 x = be_bytes 4 (unat x)"
proof -
  have "le_bytes 4 n = [word_of_nat n, word_of_nat (n div 2 ^ 8), word_of_nat (n div 2 ^ 16), word_of_nat (n div 2 ^ 24)]" for n
  proof -
    have "(4 :: nat) = Suc (Suc (Suc (Suc 0)))" by simp
    then show ?thesis by (subst (1) \<open>4 = _\<close>) (simp add: div_mult2_eq[symmetric])
  qed
  then show ?thesis using ucast_drop_bit_byte[of 0 x]
    by (simp add: WriteBE32_def be_bytes_def ucast_drop_bit_byte del: of_nat_unat)
qed

lemma WriteBE64_bytes: "WriteBE64 x = be_bytes 8 (unat x)"
proof -
  have "le_bytes 8 n = [word_of_nat n, word_of_nat (n div 2 ^ 8), word_of_nat (n div 2 ^ 16), word_of_nat (n div 2 ^ 24),
      word_of_nat (n div 2 ^ 32), word_of_nat (n div 2 ^ 40), word_of_nat (n div 2 ^ 48), word_of_nat (n div 2 ^ 56)]" for n
  proof -
    have "(8 :: nat) = Suc (Suc (Suc (Suc (Suc (Suc (Suc (Suc 0)))))))" by simp
    then show ?thesis by (subst (1) \<open>8 = _\<close>) (simp add: div_mult2_eq[symmetric])
  qed
  then show ?thesis using ucast_drop_bit_byte[of 0 x]
    by (simp add: WriteBE64_def be_bytes_def ucast_drop_bit_byte del: of_nat_unat)
qed

lemma le_bytes_mod: "le_bytes k (n mod 256 ^ k) = le_bytes k n"
  using le_bytes_le_val[of "le_bytes k n"] by (simp add: le_val_le_bytes)

lemma le_bytes_add: "le_bytes (j + k) n = le_bytes j n @ le_bytes k (n div 256 ^ j)"
  by (induction j arbitrary: n) (simp_all add: div_mult2_eq)

lemma le_bytes_zero: "le_bytes k 0 = replicate k 0"
  by (induction k) auto

lemma size_field: "WriteBE64 (push_bit 3 (word_of_nat n)) = be_bytes 8 (8 * n)"
proof -
  have "unat (push_bit 3 (word_of_nat n) :: uint64) = 8 * n mod 256 ^ 8"
    by (simp add: push_bit_eq_mult unat_word_ariths unsigned_of_nat take_bit_nat_def mod_simps mult.commute)
  then show ?thesis by (simp only: WriteBE64_bytes be_bytes_def le_bytes_mod)
qed

lemma size_field16: "n < 2 ^ 61 \<Longrightarrow> replicate 8 0 @ WriteBE64 (push_bit 3 (word_of_nat n)) = be_bytes 16 (8 * n)"
proof -
  assume n: "n < 2 ^ 61"
  then have "8 * n div 256 ^ 8 = 0" by simp
  then have "le_bytes (8 + 8) (8 * n) = le_bytes 8 (8 * n) @ replicate 8 0"
    by (simp only: le_bytes_add le_bytes_zero)
  then show ?thesis by (simp add: size_field be_bytes_def)
qed

lemma pad_zeros: "(119 - n mod 64) mod 64 = nat ((55 - int n) mod 64)" "(239 - n mod 128) mod 128 = nat ((111 - int n) mod 128)"
proof -
  have "n mod 64 \<le> 119" "n mod 128 \<le> 239"
    using mod_less_divisor[of 64 n] mod_less_divisor[of 128 n] by linarith+
  then have "int ((119 - n mod 64) mod 64) = (119 - int n mod 64) mod 64"
    "int ((239 - n mod 128) mod 128) = (239 - int n mod 128) mod 128"
    by (simp_all add: zmod_int of_nat_diff)
  moreover have "(119 - int n mod 64) mod 64 = (55 - int n) mod 64"
    using mod_add_self2[of "55 - int n" 64] by (simp add: mod_diff_right_eq algebra_simps)
  moreover have "(239 - int n mod 128) mod 128 = (111 - int n) mod 128"
    using mod_add_self2[of "111 - int n" 128] by (simp add: mod_diff_right_eq algebra_simps)
  ultimately show "(119 - n mod 64) mod 64 = nat ((55 - int n) mod 64)" "(239 - n mod 128) mod 128 = nat ((111 - int n) mod 128)"
    by (metis nat_int)+
qed

lemma take_pad: "k \<le> j \<Longrightarrow> take (1 + k) (x # replicate j z) = x # replicate k z"
  by (simp add: min_def)

lemma set_blocks: "b \<in> set (blocks B m) \<Longrightarrow> length b = B"
proof (induction B m rule: blocks.induct)
  case (1 B m)
  then show ?case by (cases "0 < B \<and> B \<le> length m") (auto simp: blocks.simps[of B m])
qed

lemma foldl_blocks_cong:
  assumes "\<And>s b. length s = n \<Longrightarrow> length b = B \<Longrightarrow> T s b = F s b \<and> length (T s b) = n" "length s = n"
  shows "foldl T s (blocks B m) = foldl F s (blocks B m) \<and> length (foldl T s (blocks B m)) = n"
proof -
  have "foldl T s bs = foldl F s bs \<and> length (foldl T s bs) = n" if "\<forall>b \<in> set bs. length b = B" for bs
    using that assms(2)
  proof (induction bs arbitrary: s)
    case (Cons b bs)
    have "T s b = F s b \<and> length (T s b) = n" by (rule assms(1)) (use Cons.prems in auto)
    then have "T s b = F s b" "length (T s b) = n" by blast+
    then show ?case using Cons.IH[of "T s b"] Cons.prems by auto
  qed simp
  then show ?thesis using set_blocks by blast
qed

lemma sha256_Transform_fips:
  assumes "length s = 8" "length b = 64"
  shows "sha256_Transform s b = fips_block256 s b \<and> length (sha256_Transform s b) = 8"
  unfolding sha256_Transform_def sha256_functions fips_block256_def
  by (rule sha2_Transform_fips) (use assms in \<open>auto simp: sha256_K_def ReadBE32_word\<close>)

lemma sha512_Transform_fips:
  assumes "length s = 8" "length b = 128"
  shows "sha512_Transform s b = fips_block512 s b \<and> length (sha512_Transform s b) = 8"
  unfolding sha512_Transform_def sha512_functions fips_block512_def
  by (rule sha2_Transform_fips) (use assms in \<open>auto simp: sha512_K_def ReadBE64_word\<close>)

lemma length_sha256_init: "length sha256_init = 8" and length_sha512_init: "length sha512_init = 8"
  by (simp_all add: sha256_init_def sha512_init_def)

lemma sha256_blocks:
  "foldl sha256_Transform sha256_init (blocks 64 m) = foldl fips_block256 sha256_init (blocks 64 m) \<and>
    length (foldl fips_block256 sha256_init (blocks 64 m)) = 8"
  using foldl_blocks_cong[where B=64 and n=8 and T=sha256_Transform and F=fips_block256 and s=sha256_init,
      OF _ length_sha256_init] sha256_Transform_fips by metis

lemma sha512_blocks:
  "foldl sha512_Transform sha512_init (blocks 128 m) = foldl fips_block512 sha512_init (blocks 128 m) \<and>
    length (foldl fips_block512 sha512_init (blocks 128 m)) = 8"
  using foldl_blocks_cong[where B=128 and n=8 and T=sha512_Transform and F=fips_block512 and s=sha512_init,
      OF _ length_sha512_init] sha512_Transform_fips by metis


section \<open>The classes compute FIPS 180-4\<close>

interpretation sha256: block_digest 64 sha256_Transform sha256_init
  by unfold_locales simp_all

interpretation sha512: block_digest 128 sha512_Transform sha512_init
  by unfold_locales simp_all

abbreviation sha256_holds :: "uint32 hasher \<Rightarrow> bytes \<Rightarrow> bool" where
  "sha256_holds \<equiv> absorbed 64 sha256_Transform sha256_init"

abbreviation sha512_holds :: "uint64 hasher \<Rightarrow> bytes \<Rightarrow> bool" where
  "sha512_holds \<equiv> absorbed 128 sha512_Transform sha512_init"

lemma output256:
  fixes v :: "uint32 list"
  assumes "length v = 8"
  shows "concat (map (\<lambda>i. WriteBE32 (v ! i)) [0..<8]) = concat (map (\<lambda>x. be_bytes 4 (unat x)) v)"
proof -
  have "map (\<lambda>i. WriteBE32 (v ! i)) [0..<8] = map WriteBE32 (map ((!) v) [0..<8])" by simp
  also have "map ((!) v) [0..<8] = v" using assms map_nth[of v] by simp
  finally show ?thesis by (simp add: WriteBE32_bytes[abs_def])
qed

lemma sha256_Finalize:
  assumes "sha256_holds h m"
  shows "snd (CSHA256_Finalize h) = fips_sha256 m \<and> sha256_holds (fst (CSHA256_Finalize h)) (m @ fips_pad 64 8 (length m))"
proof -
  let ?p = "0x80 # replicate (nat ((55 - int (length m)) mod 64)) (0 :: byte)"
  let ?q = "be_bytes 8 (8 * length m)"
  have b: "h_bytes h = word_of_nat (length m)" using assms by (simp add: absorbed_def)
  have "unat (h_bytes h) mod 64 = length m mod 64" unfolding b by (rule mod_of_nat64) simp
  then have p: "take (1 + (119 - unat (h_bytes h) mod 64) mod 64) (0x80 # replicate 63 (0 :: byte)) = ?p"
    using mod_less_divisor[of 64 "119 - length m mod 64"] by (simp add: pad_zeros[symmetric] min_def)
  have q: "WriteBE64 (push_bit 3 (h_bytes h)) = ?q" unfolding b by (rule size_field)
  let ?h = "CSHA256_Write (CSHA256_Write h ?p) ?q"
  have pad: "?p @ ?q = fips_pad 64 8 (length m)" by (simp add: fips_pad_def)
  have holds: "sha256_holds ?h (m @ fips_pad 64 8 (length m))"
    using sha256.absorbed_Write[OF sha256.absorbed_Write[OF assms, of ?p], of ?q]
    by (simp only: append_assoc pad CSHA256_Write_def)
  then have "h_s ?h = foldl sha256_Transform sha256_init (blocks 64 (m @ fips_pad 64 8 (length m)))"
    by (simp add: absorbed_def)
  then have "length (h_s ?h) = 8" "concat (map (\<lambda>x. be_bytes 4 (unat x)) (h_s ?h)) = fips_sha256 m"
    using sha256_blocks[of "m @ fips_pad 64 8 (length m)"] by (simp_all add: fips_sha256_def)
  then have "concat (map (\<lambda>i. WriteBE32 (h_s ?h ! i)) [0..<8]) = fips_sha256 m"
    by (simp only: output256)
  moreover have "CSHA256_Finalize h = (?h, concat (map (\<lambda>i. WriteBE32 (h_s ?h ! i)) [0..<8]))"
    unfolding CSHA256_Finalize_def Let_def p q by simp
  ultimately show ?thesis using holds by simp
qed

lemma output512:
  fixes v :: "uint64 list"
  assumes "length v = 8"
  shows "concat (map (\<lambda>i. WriteBE64 (v ! i)) [0..<8]) = concat (map (\<lambda>x. be_bytes 8 (unat x)) v)"
proof -
  have "map (\<lambda>i. WriteBE64 (v ! i)) [0..<8] = map WriteBE64 (map ((!) v) [0..<8])" by simp
  also have "map ((!) v) [0..<8] = v" using assms map_nth[of v] by simp
  finally show ?thesis by (simp add: WriteBE64_bytes[abs_def])
qed

lemma sha512_Finalize:
  assumes "sha512_holds h m" "length m < 2 ^ 61"
  shows "snd (CSHA512_Finalize h) = fips_sha512 m \<and> sha512_holds (fst (CSHA512_Finalize h)) (m @ fips_pad 128 16 (length m))"
proof -
  let ?p = "0x80 # replicate (nat ((111 - int (length m)) mod 128)) (0 :: byte)"
  let ?q = "be_bytes 16 (8 * length m)"
  have b: "h_bytes h = word_of_nat (length m)" using assms by (simp add: absorbed_def)
  have "unat (h_bytes h) mod 128 = length m mod 128" unfolding b by (rule mod_of_nat64) simp
  then have p: "take (1 + (239 - unat (h_bytes h) mod 128) mod 128) (0x80 # replicate 127 (0 :: byte)) = ?p"
    using mod_less_divisor[of 128 "239 - length m mod 128"] by (simp add: pad_zeros[symmetric] min_def)
  have q: "replicate 8 0 @ WriteBE64 (push_bit 3 (h_bytes h)) = ?q"
    unfolding b by (rule size_field16[OF assms(2)])
  let ?h = "CSHA512_Write (CSHA512_Write h ?p) ?q"
  have pad: "?p @ ?q = fips_pad 128 16 (length m)" by (simp add: fips_pad_def)
  have holds: "sha512_holds ?h (m @ fips_pad 128 16 (length m))"
    using sha512.absorbed_Write[OF sha512.absorbed_Write[OF assms(1), of ?p], of ?q]
    by (simp only: append_assoc pad CSHA512_Write_def)
  then have "h_s ?h = foldl sha512_Transform sha512_init (blocks 128 (m @ fips_pad 128 16 (length m)))"
    by (simp add: absorbed_def)
  then have "length (h_s ?h) = 8" "concat (map (\<lambda>x. be_bytes 8 (unat x)) (h_s ?h)) = fips_sha512 m"
    using sha512_blocks[of "m @ fips_pad 128 16 (length m)"] by (simp_all add: fips_sha512_def)
  then have "concat (map (\<lambda>i. WriteBE64 (h_s ?h ! i)) [0..<8]) = fips_sha512 m"
    by (simp only: output512)
  moreover have "CSHA512_Finalize h = (?h, concat (map (\<lambda>i. WriteBE64 (h_s ?h ! i)) [0..<8]))"
    unfolding CSHA512_Finalize_def Let_def p q by simp
  ultimately show ?thesis using holds by simp
qed

section \<open>Keyed digests\<close>

text \<open>RFC 2104 with a digest \<open>H\<close> of blocks of \<open>B\<close> bytes.\<close>

definition rfc2104 :: "nat \<Rightarrow> (bytes \<Rightarrow> bytes) \<Rightarrow> bytes \<Rightarrow> bytes \<Rightarrow> bytes" where
  "rfc2104 B H key m =
     (let k = (if length key \<le> B then key else H key);
          k = k @ replicate (B - length k) 0
      in H (map (\<lambda>b. b XOR 0x5c) k @ H (map (\<lambda>b. b XOR 0x36) k @ m)))"

lemma xor_pads: "map (\<lambda>b. b XOR (0x5c XOR 0x36)) (map (\<lambda>b. b XOR 0x5c) k) = map (\<lambda>b. b XOR (0x36 :: byte)) k"
proof -
  have "(b XOR 0x5c) XOR (0x5c XOR 0x36) = b XOR (0x36 :: byte)" for b
    by (simp only: xor.assoc xor_self_eq xor.left_commute xor.right_neutral)
      (simp add: xor.assoc[symmetric])
  then show ?thesis by simp
qed

lemma length_be_bytes [simp]: "length (be_bytes n x) = n"
  by (simp add: be_bytes_def)

lemma length_concat_const: "(\<And>x. x \<in> set xs \<Longrightarrow> length x = k) \<Longrightarrow> length (concat xs) = k * length xs"
  by (induction xs) auto

lemma length_fips_sha256 [simp]: "length (fips_sha256 m) = 32"
proof -
  note c = sha256_blocks[where m="m @ fips_pad 64 8 (length m)"]
  show ?thesis unfolding fips_sha256_def
    by (subst length_concat_const[where k=4]) (auto simp: conjunct2[OF c])
qed

lemma length_fips_sha512 [simp]: "length (fips_sha512 m) = 64"
proof -
  note c = sha512_blocks[where m="m @ fips_pad 128 16 (length m)"]
  show ?thesis unfolding fips_sha512_def
    by (subst length_concat_const[where k=8]) (auto simp: conjunct2[OF c])
qed

lemma sha256_new: "length mem = 64 \<Longrightarrow> sha256_holds (CSHA256 mem) []"
  unfolding CSHA256_def by (rule sha256.absorbed_new)

lemma sha512_new: "length mem = 128 \<Longrightarrow> sha512_holds (CSHA512 mem) []"
  unfolding CSHA512_def by (rule sha512.absorbed_new)

lemma sha256_write: "sha256_holds h m \<Longrightarrow> sha256_holds (CSHA256_Write h d) (m @ d)"
  unfolding CSHA256_Write_def by (rule sha256.absorbed_Write)

lemma sha512_write: "sha512_holds h m \<Longrightarrow> sha512_holds (CSHA512_Write h d) (m @ d)"
  unfolding CSHA512_Write_def by (rule sha512.absorbed_Write)

lemma sha256_pieces: "sha256_holds h m \<Longrightarrow> sha256_holds (foldl CSHA256_Write h pieces) (m @ concat pieces)"
  unfolding CSHA256_Write_def by (rule sha256.absorbed_pieces)

lemma sha512_pieces: "sha512_holds h m \<Longrightarrow> sha512_holds (foldl CSHA512_Write h pieces) (m @ concat pieces)"
  unfolding CSHA512_Write_def by (rule sha512.absorbed_pieces)

lemma hmac_sha256_pieces:
  "hm_outer (foldl CHMAC_SHA256_Write hm pieces) = hm_outer hm \<and>
   hm_inner (foldl CHMAC_SHA256_Write hm pieces) = foldl CSHA256_Write (hm_inner hm) pieces"
  by (induction pieces arbitrary: hm) (simp_all add: CHMAC_SHA256_Write_def)

lemma hmac_sha512_pieces:
  "hm_outer (foldl CHMAC_SHA512_Write hm pieces) = hm_outer hm \<and>
   hm_inner (foldl CHMAC_SHA512_Write hm pieces) = foldl CSHA512_Write (hm_inner hm) pieces"
  by (induction pieces arbitrary: hm) (simp_all add: CHMAC_SHA512_Write_def)

lemma hmac_sha256:
  assumes "length m1 = 64" "length m2 = 64" "length m3 = 64"
  shows "CHMAC_SHA256_Finalize (foldl CHMAC_SHA256_Write (CHMAC_SHA256 m1 m2 m3 key) pieces) =
    rfc2104 64 fips_sha256 key (concat pieces)"
proof -
  define k where "k = (if length key \<le> 64 then key else fips_sha256 key)"
  define rkey where "rkey = k @ replicate (64 - length k) 0"
  have "snd (CSHA256_Finalize (CSHA256_Write (CSHA256 m3) key)) = fips_sha256 key"
    using sha256_Finalize[OF sha256_write[OF sha256_new[OF assms(3)]]] by simp
  then have rk: "(if length key \<le> 64 then key @ replicate (64 - length key) 0
      else snd (CSHA256_Finalize (CSHA256_Write (CSHA256 m3) key)) @ replicate 32 0) = rkey"
    by (simp add: rkey_def k_def)
  let ?hm = "CHMAC_SHA256 m1 m2 m3 key"
  let ?o = "map (\<lambda>b. b XOR 0x5c) rkey" and ?i = "map (\<lambda>b. b XOR 0x36) rkey"
  have hm: "hm_outer ?hm = CSHA256_Write (CSHA256 m1) ?o" "hm_inner ?hm = CSHA256_Write (CSHA256 m2) ?i"
    unfolding CHMAC_SHA256_def Let_def rk xor_pads by simp_all
  have "sha256_holds (foldl CSHA256_Write (hm_inner ?hm) pieces) (?i @ concat pieces)"
    unfolding hm using sha256_pieces[OF sha256_write[OF sha256_new[OF assms(2)], of ?i]] by simp
  from sha256_Finalize[OF this]
  have i: "snd (CSHA256_Finalize (foldl CSHA256_Write (hm_inner ?hm) pieces)) = fips_sha256 (?i @ concat pieces)"
    by simp
  have "sha256_holds (CSHA256_Write (hm_outer ?hm) d) (?o @ d)" for d
    unfolding hm using sha256_write[OF sha256_write[OF sha256_new[OF assms(1)], of ?o], of d] by simp
  from sha256_Finalize[OF this]
  have o: "snd (CSHA256_Finalize (CSHA256_Write (hm_outer ?hm) d)) = fips_sha256 (?o @ d)" for d by simp
  show ?thesis
    using hmac_sha256_pieces[of ?hm pieces]
    by (simp add: CHMAC_SHA256_Finalize_def Let_def i o rfc2104_def rkey_def k_def)
qed

lemma hmac_sha512:
  assumes "length m1 = 128" "length m2 = 128" "length m3 = 128" "length key < 2 ^ 61" "length (concat pieces) + 128 < 2 ^ 61"
  shows "CHMAC_SHA512_Finalize (foldl CHMAC_SHA512_Write (CHMAC_SHA512 m1 m2 m3 key) pieces) =
    rfc2104 128 fips_sha512 key (concat pieces)"
proof -
  define k where "k = (if length key \<le> 128 then key else fips_sha512 key)"
  define rkey where "rkey = k @ replicate (128 - length k) 0"
  have "snd (CSHA512_Finalize (CSHA512_Write (CSHA512 m3) key)) = fips_sha512 key"
    using sha512_Finalize[OF sha512_write[OF sha512_new[OF assms(3)]], of key] assms(4) by simp
  then have rk: "(if length key \<le> 128 then key @ replicate (128 - length key) 0
      else snd (CSHA512_Finalize (CSHA512_Write (CSHA512 m3) key)) @ replicate 64 0) = rkey"
    by (simp add: rkey_def k_def)
  let ?hm = "CHMAC_SHA512 m1 m2 m3 key"
  let ?o = "map (\<lambda>b. b XOR 0x5c) rkey" and ?i = "map (\<lambda>b. b XOR 0x36) rkey"
  have hm: "hm_outer ?hm = CSHA512_Write (CSHA512 m1) ?o" "hm_inner ?hm = CSHA512_Write (CSHA512 m2) ?i"
    unfolding CHMAC_SHA512_def Let_def rk xor_pads by simp_all
  have "sha512_holds (foldl CSHA512_Write (hm_inner ?hm) pieces) (?i @ concat pieces)"
    unfolding hm using sha512_pieces[OF sha512_write[OF sha512_new[OF assms(2)], of ?i]] by simp
  moreover have "length rkey = 128" by (simp add: rkey_def k_def)
  ultimately have i: "snd (CSHA512_Finalize (foldl CSHA512_Write (hm_inner ?hm) pieces)) = fips_sha512 (?i @ concat pieces)"
    using sha512_Finalize assms(5) by simp
  have "sha512_holds (CSHA512_Write (hm_outer ?hm) d) (?o @ d)" for d
    unfolding hm using sha512_write[OF sha512_write[OF sha512_new[OF assms(1)], of ?o], of d] by simp
  then have o: "snd (CSHA512_Finalize (CSHA512_Write (hm_outer ?hm) d)) = fips_sha512 (?o @ d)" if "length d = 64" for d
    using sha512_Finalize[of "CSHA512_Write (hm_outer ?hm) d" "?o @ d"] that \<open>length rkey = 128\<close> by simp
  show ?thesis
    using hmac_sha512_pieces[of ?hm pieces]
    by (simp add: CHMAC_SHA512_Finalize_def Let_def i o rfc2104_def rkey_def k_def)
qed

section \<open>Properties\<close>

text \<open> C26.
  The digest classes compute FIPS 180-4.  Whatever the pieces a message is written in, \<open>CSHA256\<close> and
  \<open>CSHA512\<close> give the SHA-256 and SHA-512 of the whole message, \<open>CHash256\<close> the SHA-256 twice; after \<open>Reset\<close>
  a used object is as good as a new one; what the memory of a new object holds does not matter.
  The bound on the length is that of the standard for the field of 64 bits the code writes.
\<close>

theorem sha2_is_fips:
  assumes "length mem = 64" "length mem5 = 128" "length (concat pieces) < 2 ^ 61"
  shows "snd (CSHA256_Finalize (foldl CSHA256_Write (CSHA256 mem) pieces)) = fips_sha256 (concat pieces) \<and>
    snd (CSHA512_Finalize (foldl CSHA512_Write (CSHA512 mem5) pieces)) = fips_sha512 (concat pieces) \<and>
    snd (CHash256_Finalize (foldl CSHA256_Write (CSHA256 mem) pieces)) = fips_sha256 (fips_sha256 (concat pieces)) \<and>
    snd (CSHA256_Finalize (foldl CSHA256_Write
      (CSHA256_Reset (fst (CSHA256_Finalize (foldl CSHA256_Write (CSHA256 mem) other)))) pieces)) =
      fips_sha256 (concat pieces)"
proof -
  have h: "sha256_holds (foldl CSHA256_Write (CSHA256 mem) ps) (concat ps)" for ps
    using sha256_pieces[OF sha256_new[OF assms(1)]] by simp
  have h5: "sha512_holds (foldl CSHA512_Write (CSHA512 mem5) pieces) (concat pieces)"
    using sha512_pieces[OF sha512_new[OF assms(2)]] by simp
  have reset: "sha256_holds (CSHA256_Reset (fst (CSHA256_Finalize (foldl CSHA256_Write (CSHA256 mem) ps)))) []" for ps
    unfolding CSHA256_Reset_def using sha256_Finalize[OF h] by (blast intro: sha256.absorbed_Reset)
  have "snd (CHash256_Finalize (foldl CSHA256_Write (CSHA256 mem) pieces)) = fips_sha256 (fips_sha256 (concat pieces))"
    using sha256_Finalize[OF h, of pieces] sha256_Finalize[OF sha256_write[OF reset, of pieces "fips_sha256 (concat pieces)"]]
    by (simp add: CHash256_Finalize_def case_prod_unfold)
  moreover have "snd (CSHA256_Finalize (foldl CSHA256_Write
      (CSHA256_Reset (fst (CSHA256_Finalize (foldl CSHA256_Write (CSHA256 mem) other)))) pieces)) =
      fips_sha256 (concat pieces)"
    using sha256_Finalize[OF sha256_pieces[OF reset, of other pieces]] by simp
  ultimately show ?thesis
    using sha256_Finalize[OF h] sha512_Finalize[OF h5 assms(3)] by simp
qed

lemma sha2_is_fips_witness:
  "snd (CSHA256_Finalize (foldl CSHA256_Write (CSHA256 (replicate 64 7)) [[97], [98, 99]])) = fips_sha256 [97, 98, 99] \<and>
   snd (CSHA512_Finalize (foldl CSHA512_Write (CSHA512 (replicate 128 7)) [[97], [98, 99]])) = fips_sha512 [97, 98, 99]"
  using sha2_is_fips[of "replicate 64 7" "replicate 128 7" "[[97], [98, 99]]"] by simp

text \<open>
  The keyed digests are those of RFC 2104 over SHA-256 and SHA-512, for keys shorter and longer than a
  block and messages written in any pieces.
\<close>

theorem hmac_is_rfc2104:
  assumes "length m1 = 64" "length m2 = 64" "length m3 = 64"
    "length n1 = 128" "length n2 = 128" "length n3 = 128"
    "length key < 2 ^ 61" "length (concat pieces) + 128 < 2 ^ 61"
  shows "CHMAC_SHA256_Finalize (foldl CHMAC_SHA256_Write (CHMAC_SHA256 m1 m2 m3 key) pieces) =
      rfc2104 64 fips_sha256 key (concat pieces) \<and>
    CHMAC_SHA512_Finalize (foldl CHMAC_SHA512_Write (CHMAC_SHA512 n1 n2 n3 key) pieces) =
      rfc2104 128 fips_sha512 key (concat pieces)"
  using hmac_sha256[OF assms(1-3)] hmac_sha512[OF assms(4-8)] by blast

lemma hmac_is_rfc2104_witness:
  "CHMAC_SHA256_Finalize (foldl CHMAC_SHA256_Write
      (CHMAC_SHA256 (replicate 64 0) (replicate 64 0) (replicate 64 0) [1, 2, 3]) [[97], [98, 99]]) =
     rfc2104 64 fips_sha256 [1, 2, 3] [97, 98, 99] \<and>
   CHMAC_SHA512_Finalize (foldl CHMAC_SHA512_Write
      (CHMAC_SHA512 (replicate 128 0) (replicate 128 0) (replicate 128 0) [1, 2, 3]) [[97], [98, 99]]) =
     rfc2104 128 fips_sha512 [1, 2, 3] [97, 98, 99]"
  using hmac_is_rfc2104[of "replicate 64 0" "replicate 64 0" "replicate 64 0" "replicate 128 0"
      "replicate 128 0" "replicate 128 0" "[1, 2, 3]" "[[97], [98, 99]]"] by simp

end
