(* ===== verification/Digests.thy ===== *)
theory Digests
  imports Sha2
begin

text \<open>
  \<open>CSHA1\<close> and \<open>CRIPEMD160\<close> (\<open>src/src/crypto/sha1.cpp\<close>, \<open>ripemd160.cpp\<close>) and \<open>CHash160\<close> of
  \<open>src/src/hash.h\<close>.  As in \<open>Sha2\<close> a line of the unrolled code is a function of its number: the five
  registers stay and the arguments rotate by one place from line to line; RIPEMD-160 alternates between two such
  sequences, whose words and shifts are the two tables.  The second half states the published
  algorithms, with shifting variables, and proves that the classes compute them.
\<close>

section \<open>The code of SHA-1\<close>

definition sha1_f1 :: "uint32 \<Rightarrow> uint32 \<Rightarrow> uint32 \<Rightarrow> uint32" where
  "sha1_f1 b c d = d XOR (b AND (c XOR d))"

definition sha1_f2 :: "uint32 \<Rightarrow> uint32 \<Rightarrow> uint32 \<Rightarrow> uint32" where
  "sha1_f2 b c d = b XOR c XOR d"

definition sha1_f3 :: "uint32 \<Rightarrow> uint32 \<Rightarrow> uint32 \<Rightarrow> uint32" where
  "sha1_f3 b c d = (b AND c) OR (d AND (b OR c))"

definition sha1_left :: "uint32 \<Rightarrow> uint32" where
  "sha1_left x = push_bit 1 x OR drop_bit 31 x"

definition sha1_k :: "uint32 list" where
  "sha1_k = [0x5A827999, 0x6ED9EBA1, 0x8F1BBCDC, 0xCA62C1D6]"

definition digest5_init :: "uint32 list" where
  "digest5_init = [0x67452301, 0xEFCDAB89, 0x98BADCFE, 0x10325476, 0xC3D2E1F0]"

text \<open>\<open>Round\<close>: the new values of \<open>b\<close> and \<open>e\<close>.\<close>

definition sha1_Round ::
  "uint32 \<Rightarrow> uint32 \<Rightarrow> uint32 \<Rightarrow> uint32 \<Rightarrow> uint32 \<Rightarrow> uint32 \<Rightarrow> uint32 \<Rightarrow> uint32 \<Rightarrow> uint32 \<times> uint32" where
  "sha1_Round a b c d e f k w =
     (let e = e + ((push_bit 5 a OR drop_bit 27 a) + f + k + w);
          b = push_bit 30 b OR drop_bit 2 b
      in (b, e))"

text \<open>The register that the line of number \<open>t\<close> names in place \<open>p\<close>.\<close>

definition reg5 :: "nat \<Rightarrow> nat \<Rightarrow> nat" where
  "reg5 t p = (p + 5 - t mod 5) mod 5"

definition sha1_line :: "bytes \<Rightarrow> nat \<Rightarrow> uint32 list \<times> uint32 list \<Rightarrow> uint32 list \<times> uint32 list" where
  "sha1_line chunk t = (\<lambda>(r, w).
     (let x = (if t < 16 then ReadBE32 chunk (4 * t)
               else sha1_left (w ! (t mod 16) XOR w ! ((t + 13) mod 16) XOR w ! ((t + 8) mod 16) XOR w ! ((t + 2) mod 16)));
          w = (if t < 77 then w[t mod 16 := x] else w);
          f = [sha1_f1, sha1_f2, sha1_f3, sha1_f2] ! (t div 20);
          (b, e) = sha1_Round (r ! reg5 t 0) (r ! reg5 t 1) (r ! reg5 t 2) (r ! reg5 t 3) (r ! reg5 t 4)
             (f (r ! reg5 t 1) (r ! reg5 t 2) (r ! reg5 t 3)) (sha1_k ! (t div 20)) x
      in (r[reg5 t 1 := b, reg5 t 4 := e], w)))"

definition sha1_Transform :: "uint32 list \<Rightarrow> bytes \<Rightarrow> uint32 list" where
  "sha1_Transform s chunk =
     (case fold (sha1_line chunk) [0..<80] (s, replicate 16 0) of (r, w) \<Rightarrow> map2 (+) s r)"

definition CSHA1 :: "bytes \<Rightarrow> uint32 hasher" where
  "CSHA1 mem = new_hasher digest5_init mem"

definition CSHA1_Write :: "uint32 hasher \<Rightarrow> bytes \<Rightarrow> uint32 hasher" where
  "CSHA1_Write = hasher_Write 64 sha1_Transform"

definition CSHA1_Finalize :: "uint32 hasher \<Rightarrow> uint32 hasher \<times> bytes" where
  "CSHA1_Finalize h =
     (let pad = 0x80 # replicate 63 0;
          sizedesc = WriteBE64 (push_bit 3 (h_bytes h));
          h = CSHA1_Write h (take (1 + (119 - unat (h_bytes h) mod 64) mod 64) pad);
          h = CSHA1_Write h sizedesc
      in (h, concat (map (\<lambda>i. WriteBE32 (h_s h ! i)) [0..<5])))"

definition CSHA1_Reset :: "uint32 hasher \<Rightarrow> uint32 hasher" where
  "CSHA1_Reset = hasher_Reset digest5_init"

section \<open>The code of RIPEMD-160\<close>

definition rmd_f1 :: "uint32 \<Rightarrow> uint32 \<Rightarrow> uint32 \<Rightarrow> uint32" where
  "rmd_f1 x y z = x XOR y XOR z"

definition rmd_f2 :: "uint32 \<Rightarrow> uint32 \<Rightarrow> uint32 \<Rightarrow> uint32" where
  "rmd_f2 x y z = (x AND y) OR (NOT x AND z)"

definition rmd_f3 :: "uint32 \<Rightarrow> uint32 \<Rightarrow> uint32 \<Rightarrow> uint32" where
  "rmd_f3 x y z = (x OR NOT y) XOR z"

definition rmd_f4 :: "uint32 \<Rightarrow> uint32 \<Rightarrow> uint32 \<Rightarrow> uint32" where
  "rmd_f4 x y z = (x AND z) OR (y AND NOT z)"

definition rmd_f5 :: "uint32 \<Rightarrow> uint32 \<Rightarrow> uint32 \<Rightarrow> uint32" where
  "rmd_f5 x y z = x XOR (y OR NOT z)"

definition rmd_rol :: "uint32 \<Rightarrow> nat \<Rightarrow> uint32" where
  "rmd_rol x i = push_bit i x OR drop_bit (32 - i) x"

text \<open>\<open>Round\<close>: the new values of \<open>a\<close> and \<open>c\<close>.\<close>

definition rmd_Round ::
  "uint32 \<Rightarrow> uint32 \<Rightarrow> uint32 \<Rightarrow> uint32 \<Rightarrow> uint32 \<Rightarrow> uint32 \<Rightarrow> uint32 \<Rightarrow> uint32 \<Rightarrow> nat \<Rightarrow> uint32 \<times> uint32" where
  "rmd_Round a b c d e f x k r = (rmd_rol (a + f + x + k) r + e, rmd_rol c 10)"

text \<open>\<open>R11\<close> to \<open>R51\<close> and \<open>R12\<close> to \<open>R52\<close>: function and constant of each group of sixteen lines.\<close>

definition rmd_R1 :: "((uint32 \<Rightarrow> uint32 \<Rightarrow> uint32 \<Rightarrow> uint32) \<times> uint32) list" where
  "rmd_R1 = [(rmd_f1, 0), (rmd_f2, 0x5A827999), (rmd_f3, 0x6ED9EBA1), (rmd_f4, 0x8F1BBCDC), (rmd_f5, 0xA953FD4E)]"

definition rmd_R2 :: "((uint32 \<Rightarrow> uint32 \<Rightarrow> uint32 \<Rightarrow> uint32) \<times> uint32) list" where
  "rmd_R2 = [(rmd_f5, 0x50A28BE6), (rmd_f4, 0x5C4DD124), (rmd_f3, 0x6D703EF3), (rmd_f2, 0x7A6D76E9), (rmd_f1, 0)]"

text \<open>The word and the shift of every line, of the first and of the second sequence.\<close>

definition rmd_lines1 :: "(nat \<times> nat) list" where
  "rmd_lines1 =
     [(0, 11), (1, 14), (2, 15), (3, 12), (4, 5), (5, 8), (6, 7), (7, 9),
      (8, 11), (9, 13), (10, 14), (11, 15), (12, 6), (13, 7), (14, 9), (15, 8),
      (7, 7), (4, 6), (13, 8), (1, 13), (10, 11), (6, 9), (15, 7), (3, 15),
      (12, 7), (0, 12), (9, 15), (5, 9), (2, 11), (14, 7), (11, 13), (8, 12),
      (3, 11), (10, 13), (14, 6), (4, 7), (9, 14), (15, 9), (8, 13), (1, 15),
      (2, 14), (7, 8), (0, 13), (6, 6), (13, 5), (11, 12), (5, 7), (12, 5),
      (1, 11), (9, 12), (11, 14), (10, 15), (0, 14), (8, 15), (12, 9), (4, 8),
      (13, 9), (3, 14), (7, 5), (15, 6), (14, 8), (5, 6), (6, 5), (2, 12),
      (4, 9), (0, 15), (5, 5), (9, 11), (7, 6), (12, 8), (2, 13), (10, 12),
      (14, 5), (1, 12), (3, 13), (8, 14), (11, 11), (6, 8), (15, 5), (13, 6)]"

definition rmd_lines2 :: "(nat \<times> nat) list" where
  "rmd_lines2 =
     [(5, 8), (14, 9), (7, 9), (0, 11), (9, 13), (2, 15), (11, 15), (4, 5),
      (13, 7), (6, 7), (15, 8), (8, 11), (1, 14), (10, 14), (3, 12), (12, 6),
      (6, 9), (11, 13), (3, 15), (7, 7), (0, 12), (13, 8), (5, 9), (10, 11),
      (14, 7), (15, 7), (8, 12), (12, 7), (4, 6), (9, 15), (1, 13), (2, 11),
      (15, 9), (5, 7), (1, 15), (3, 11), (7, 8), (14, 6), (6, 6), (9, 14),
      (11, 12), (8, 13), (12, 5), (2, 14), (10, 13), (0, 13), (4, 7), (13, 5),
      (8, 15), (6, 5), (4, 8), (1, 11), (3, 14), (11, 14), (15, 6), (0, 14),
      (5, 6), (12, 9), (2, 12), (13, 9), (9, 12), (7, 5), (10, 15), (14, 8),
      (12, 8), (15, 5), (10, 12), (4, 9), (1, 12), (5, 5), (8, 14), (7, 6),
      (6, 8), (2, 13), (13, 6), (14, 5), (0, 15), (3, 13), (9, 11), (11, 11)]"

definition rmd_line ::
  "((uint32 \<Rightarrow> uint32 \<Rightarrow> uint32 \<Rightarrow> uint32) \<times> uint32) list \<Rightarrow> (nat \<times> nat) list \<Rightarrow> uint32 list \<Rightarrow> nat \<Rightarrow>
   uint32 list \<Rightarrow> uint32 list" where
  "rmd_line R lines w t r =
     (let (f, k) = R ! (t div 16);
          (x, s) = lines ! t;
          (a, c) = rmd_Round (r ! reg5 t 0) (r ! reg5 t 1) (r ! reg5 t 2) (r ! reg5 t 3) (r ! reg5 t 4)
             (f (r ! reg5 t 1) (r ! reg5 t 2) (r ! reg5 t 3)) (w ! x) k s
      in r[reg5 t 0 := a, reg5 t 2 := c])"

text \<open>The lines of the two sequences alternate and do not share a register.\<close>

definition rmd_Transform :: "uint32 list \<Rightarrow> bytes \<Rightarrow> uint32 list" where
  "rmd_Transform s chunk =
     (let w = map (\<lambda>i. ReadLE32 chunk (4 * i)) [0..<16];
          (r1, r2) = fold (\<lambda>t (r1, r2). (rmd_line rmd_R1 rmd_lines1 w t r1, rmd_line rmd_R2 rmd_lines2 w t r2))
             [0..<80] (s, s);
          t = s ! 0
      in [s ! 1 + r1 ! 2 + r2 ! 3, s ! 2 + r1 ! 3 + r2 ! 4, s ! 3 + r1 ! 4 + r2 ! 0,
          s ! 4 + r1 ! 0 + r2 ! 1, t + r1 ! 1 + r2 ! 2])"

definition CRIPEMD160 :: "bytes \<Rightarrow> uint32 hasher" where
  "CRIPEMD160 mem = new_hasher digest5_init mem"

definition CRIPEMD160_Write :: "uint32 hasher \<Rightarrow> bytes \<Rightarrow> uint32 hasher" where
  "CRIPEMD160_Write = hasher_Write 64 rmd_Transform"

definition CRIPEMD160_Finalize :: "uint32 hasher \<Rightarrow> uint32 hasher \<times> bytes" where
  "CRIPEMD160_Finalize h =
     (let pad = 0x80 # replicate 63 0;
          sizedesc = WriteLE64 (push_bit 3 (h_bytes h));
          h = CRIPEMD160_Write h (take (1 + (119 - unat (h_bytes h) mod 64) mod 64) pad);
          h = CRIPEMD160_Write h sizedesc
      in (h, concat (map (\<lambda>i. WriteLE32 (h_s h ! i)) [0..<5])))"

definition CRIPEMD160_Reset :: "uint32 hasher \<Rightarrow> uint32 hasher" where
  "CRIPEMD160_Reset = hasher_Reset digest5_init"

text \<open>\<open>CHash160\<close>; \<open>mem\<close> is what the buffer of the local \<open>CRIPEMD160\<close> holds.\<close>

definition CHash160_Finalize :: "bytes \<Rightarrow> uint32 hasher \<Rightarrow> uint32 hasher \<times> bytes" where
  "CHash160_Finalize mem sha =
     (let (sha, buf) = CSHA256_Finalize sha
      in (sha, snd (CRIPEMD160_Finalize (CRIPEMD160_Write (CRIPEMD160 mem) buf))))"

section \<open>The published algorithms\<close>

function fips_sha1_W :: "(nat \<Rightarrow> uint32) \<Rightarrow> nat \<Rightarrow> uint32" where
  "fips_sha1_W M t =
     (if t < 16 then M t
      else word_rotl 1 (fips_sha1_W M (t - 3) XOR fips_sha1_W M (t - 8) XOR fips_sha1_W M (t - 14) XOR
        fips_sha1_W M (t - 16)))"
  by auto
termination by (relation "measure (\<lambda>(M, t). t)") auto

declare fips_sha1_W.simps [simp del]

definition fips_Parity :: "uint32 \<Rightarrow> uint32 \<Rightarrow> uint32 \<Rightarrow> uint32" where
  "fips_Parity x y z = x XOR y XOR z"

definition fips_sha1_step :: "nat \<Rightarrow> uint32 \<Rightarrow> uint32 list \<Rightarrow> uint32 list" where
  "fips_sha1_step t w v =
     (let f = [fips_Ch, fips_Parity, fips_Maj, fips_Parity] ! (t div 20);
          T = word_rotl 5 (v ! 0) + f (v ! 1) (v ! 2) (v ! 3) + v ! 4 + sha1_k ! (t div 20) + w
      in [T, v ! 0, word_rotl 30 (v ! 1), v ! 2, v ! 3])"

definition fips_block1 :: "uint32 list \<Rightarrow> bytes \<Rightarrow> uint32 list" where
  "fips_block1 H block =
     map2 (+) H (fold (\<lambda>t. fips_sha1_step t (fips_sha1_W (be_word 4 block) t)) [0..<80] H)"

definition fips_sha1 :: "bytes \<Rightarrow> bytes" where
  "fips_sha1 m =
     concat (map (\<lambda>x. be_bytes 4 (unat x))
       (foldl fips_block1 digest5_init (blocks 64 (m @ fips_pad 64 8 (length m)))))"

text \<open>RIPEMD-160 of Dobbertin, Bosselaers and Preneel: two lines of eighty steps, little-endian.\<close>

definition rmd_step ::
  "((uint32 \<Rightarrow> uint32 \<Rightarrow> uint32 \<Rightarrow> uint32) \<times> uint32) list \<Rightarrow> (nat \<times> nat) list \<Rightarrow> (nat \<Rightarrow> uint32) \<Rightarrow> nat \<Rightarrow>
   uint32 list \<Rightarrow> uint32 list" where
  "rmd_step R lines X t v =
     (let T = word_rotl (snd (lines ! t))
            (v ! 0 + fst (R ! (t div 16)) (v ! 1) (v ! 2) (v ! 3) + X (fst (lines ! t)) + snd (R ! (t div 16))) + v ! 4
      in [v ! 4, T, v ! 1, word_rotl 10 (v ! 2), v ! 3])"

definition rmd_block :: "uint32 list \<Rightarrow> bytes \<Rightarrow> uint32 list" where
  "rmd_block H block =
     (let X = (\<lambda>i. bytes_word (take 4 (drop (4 * i) block)));
          A = fold (rmd_step rmd_R1 rmd_lines1 X) [0..<80] H;
          A' = fold (rmd_step rmd_R2 rmd_lines2 X) [0..<80] H
      in [H ! 1 + A ! 2 + A' ! 3, H ! 2 + A ! 3 + A' ! 4, H ! 3 + A ! 4 + A' ! 0,
          H ! 4 + A ! 0 + A' ! 1, H ! 0 + A ! 1 + A' ! 2])"

definition rmd_pad :: "nat \<Rightarrow> bytes" where
  "rmd_pad n = 0x80 # replicate (nat ((55 - int n) mod 64)) 0 @ le_bytes 8 (8 * n)"

definition ripemd160 :: "bytes \<Rightarrow> bytes" where
  "ripemd160 m =
     concat (map (word_bytes 4) (foldl rmd_block digest5_init (blocks 64 (m @ rmd_pad (length m)))))"

section \<open>Five rotating registers\<close>

definition view5 :: "nat \<Rightarrow> uint32 list \<Rightarrow> uint32 list" where
  "view5 t r = map (\<lambda>p. r ! reg5 t p) [0..<5]"

lemma reg5_eq: "p < 5 \<Longrightarrow> reg5 t p = (if p < t mod 5 then p + 5 - t mod 5 else p - t mod 5)"
  by (auto simp: reg5_def le_mod_geq)

lemma reg5_less [simp]: "reg5 t p < 5"
  by (simp add: reg5_def)

lemma reg5_inj: "p < 5 \<Longrightarrow> p' < 5 \<Longrightarrow> reg5 t p = reg5 t p' \<longleftrightarrow> p = p'"
proof -
  have "t mod 5 < 5" by simp
  then show "p < 5 \<Longrightarrow> p' < 5 \<Longrightarrow> reg5 t p = reg5 t p' \<longleftrightarrow> p = p'" by (auto simp: reg5_eq)
qed

lemma reg5_next: "p < 4 \<Longrightarrow> reg5 (Suc t) (Suc p) = reg5 t p" "reg5 (Suc t) 0 = reg5 t 4"
proof -
  have t: "t mod 5 < 5" "Suc t mod 5 = (if t mod 5 = 4 then 0 else Suc (t mod 5))"
    by (simp_all add: mod_Suc)
  show "p < 4 \<Longrightarrow> reg5 (Suc t) (Suc p) = reg5 t p" "reg5 (Suc t) 0 = reg5 t 4"
    using t by (auto simp: reg5_eq)
qed

lemma length_view5 [simp]: "length (view5 t r) = 5"
  by (simp add: view5_def)

lemma nth_view5: "p < 5 \<Longrightarrow> view5 t r ! p = r ! reg5 t p"
  by (simp add: view5_def)

lemma view5_list: "view5 t r = [r ! reg5 t 0, r ! reg5 t 1, r ! reg5 t 2, r ! reg5 t 3, r ! reg5 t 4]"
  by (simp add: view5_def upt_rec eval_nat_numeral)

lemma view5_next: "view5 (Suc t) r = [r ! reg5 t 4, r ! reg5 t 0, r ! reg5 t 1, r ! reg5 t 2, r ! reg5 t 3]"
  using reg5_next(1)[of 0 t] reg5_next(1)[of 1 t] reg5_next(1)[of 2 t] reg5_next(1)[of 3 t]
  by (simp add: view5_list reg5_next(2) eval_nat_numeral)

lemma nth_reg5_update:
  "length r = 5 \<Longrightarrow> p < 5 \<Longrightarrow> p' < 5 \<Longrightarrow> r[reg5 t p := x] ! reg5 t p' = (if p = p' then x else r ! reg5 t p')"
  by (simp add: nth_list_update reg5_inj)

lemma view5_home: "length r = 5 \<Longrightarrow> view5 0 r = r" "length r = 5 \<Longrightarrow> view5 80 r = r"
  by (rule nth_equalityI; simp add: view5_def reg5_def)+

lemma rotate_left:
  assumes "0 < k" "k < 32"
  shows "push_bit k (x :: uint32) OR drop_bit (32 - k) x = word_rotl k x"
proof -
  have "word_rotl k x = word_rotr (32 - k) x"
    using assms by (intro bit_word_eqI) (simp add: bit_word_rotl_iff bit_word_rotr_iff)
  then show ?thesis using rotate_right[of "32 - k" k x] assms by (simp add: or.commute)
qed

section \<open>SHA-1\<close>

lemma sha1_f_fips: "sha1_f1 x y z = fips_Ch x y z" "sha1_f2 x y z = fips_Parity x y z" "sha1_f3 x y z = fips_Maj x y z"
  by (rule bit_word_eqI; auto simp: sha1_f1_def sha1_f2_def sha1_f3_def fips_Parity_def fips_Ch_def fips_Maj_def
      bit_xor_iff bit_and_iff bit_or_iff bit_not_iff)+

lemma sha1_f_list:
  "t < 80 \<Longrightarrow> ([sha1_f1, sha1_f2, sha1_f3, sha1_f2] ! (t div 20)) x y z =
    ([fips_Ch, fips_Parity, fips_Maj, fips_Parity] ! (t div 20)) x y z"
proof -
  assume "t < 80"
  then have "t div 20 < 4" by simp
  then consider "t div 20 = 0" | "t div 20 = 1" | "t div 20 = 2" | "t div 20 = 3" by linarith
  then show ?thesis by cases (simp_all add: sha1_f_fips)
qed

lemma sha1_lines:
  assumes "length s = 5" "t \<le> 80" "\<And>n. n < 16 \<Longrightarrow> ReadBE32 chunk (4 * n) = M n"
  shows "\<exists>r w. fold (sha1_line chunk) [0..<t] (s, replicate 16 0) = (r, w) \<and> length r = 5 \<and> length w = 16 \<and>
    view5 t r = fold (\<lambda>t. fips_sha1_step t (fips_sha1_W M t)) [0..<t] s \<and>
    (\<forall>i. i < t \<and> t \<le> i + 16 \<and> i < 77 \<longrightarrow> w ! (i mod 16) = fips_sha1_W M i)"
  using assms(2)
proof (induction t)
  case 0
  then show ?case using assms(1) by (auto simp: view5_home)
next
  case (Suc t)
  then obtain r w where IH: "fold (sha1_line chunk) [0..<t] (s, replicate 16 0) = (r, w)"
    "length r = 5" "length w = 16"
    "view5 t r = fold (\<lambda>t. fips_sha1_step t (fips_sha1_W M t)) [0..<t] s"
    "\<And>i. i < t \<Longrightarrow> t \<le> i + 16 \<Longrightarrow> i < 77 \<Longrightarrow> w ! (i mod 16) = fips_sha1_W M i"
    by auto
  define x where "x = (if t < 16 then ReadBE32 chunk (4 * t)
               else sha1_left (w ! (t mod 16) XOR w ! ((t + 13) mod 16) XOR w ! ((t + 8) mod 16) XOR w ! ((t + 2) mod 16)))"
  have x: "x = fips_sha1_W M t"
  proof (cases "t < 16")
    case True
    then show ?thesis using assms(3) by (simp add: x_def fips_sha1_W.simps[of M t])
  next
    case False
    have m: "t mod 16 = (t - 16) mod 16" "(t + 13) mod 16 = (t - 3) mod 16" "(t + 8) mod 16 = (t - 8) mod 16"
      "(t + 2) mod 16 = (t - 14) mod 16"
      using False mod_add_self2[of "t - 16" 16] mod_add_self2[of "t - 3" 16] mod_add_self2[of "t - 8" 16]
        mod_add_self2[of "t - 14" 16] by (simp_all add: add.commute[of t])
    have v: "w ! ((t - 16) mod 16) = fips_sha1_W M (t - 16)" "w ! ((t - 3) mod 16) = fips_sha1_W M (t - 3)"
      "w ! ((t - 8) mod 16) = fips_sha1_W M (t - 8)" "w ! ((t - 14) mod 16) = fips_sha1_W M (t - 14)"
      using False Suc.prems by (auto intro!: IH(5))
    have l: "sha1_left y = word_rotl 1 y" for y
      using rotate_left[of 1 y] by (simp add: sha1_left_def)
    show ?thesis
      using False unfolding x_def fips_sha1_W.simps[of M t] m v l by (simp add: xor.commute xor.left_commute)
  qed
  define w' where "w' = (if t < 77 then w[t mod 16 := x] else w)"
  let ?f = "[sha1_f1, sha1_f2, sha1_f3, sha1_f2] ! (t div 20)"
  obtain b e where be: "sha1_Round (r ! reg5 t 0) (r ! reg5 t 1) (r ! reg5 t 2) (r ! reg5 t 3) (r ! reg5 t 4)
      (?f (r ! reg5 t 1) (r ! reg5 t 2) (r ! reg5 t 3)) (sha1_k ! (t div 20)) x = (b, e)"
    by fastforce
  let ?r = "r[reg5 t 1 := b, reg5 t 4 := e]"
  have line: "sha1_line chunk t (r, w) = (?r, w')"
    unfolding sha1_line_def prod.case Let_def x_def[symmetric] w'_def[symmetric] be by simp
  have rot: "push_bit 5 y OR drop_bit 27 y = word_rotl 5 y" "push_bit 30 y OR drop_bit 2 y = word_rotl 30 y" for y :: uint32
    using rotate_left[of 5 y] rotate_left[of 30 y] by simp_all
  have "fold (sha1_line chunk) [0..<Suc t] (s, replicate 16 0) = (?r, w')"
    using IH(1) line by simp
  moreover have "view5 (Suc t) ?r = fips_sha1_step t (fips_sha1_W M t) (view5 t r)"
    using be Suc.prems IH(2)
    by (auto simp: view5_next nth_reg5_update fips_sha1_step_def nth_view5 sha1_Round_def Let_def rot x sha1_f_list
        add.commute add.left_commute)
  moreover have "w' ! (i mod 16) = fips_sha1_W M i" if i: "i < Suc t" "Suc t \<le> i + 16" "i < 77" for i
  proof (cases "i = t")
    case True
    then show ?thesis using i IH(3) x by (simp add: w'_def)
  next
    case False
    then have "i < t" using i by simp
    moreover have "i mod 16 \<noteq> t mod 16"
    proof
      assume "i mod 16 = t mod 16"
      then have "16 dvd t - i" using \<open>i < t\<close> mod_eq_dvd_iff_nat[of i t 16] by simp
      then show False using \<open>i < t\<close> i(2) by (auto dest!: dvd_imp_le)
    qed
    ultimately show ?thesis using i IH(5)[of i] by (simp add: w'_def)
  qed
  ultimately show ?case using IH(2,3,4) by (auto simp: w'_def)
qed

lemma sha1_Transform_fips:
  assumes "length s = 5" "length b = 64"
  shows "sha1_Transform s b = fips_block1 s b \<and> length (sha1_Transform s b) = 5"
proof -
  have "\<And>n. n < 16 \<Longrightarrow> ReadBE32 b (4 * n) = be_word 4 b n" using assms(2) by (simp add: ReadBE32_word)
  from sha1_lines[of s 80 b "be_word 4 b", OF assms(1) order.refl this]
  obtain r w where r: "fold (sha1_line b) [0..<80] (s, replicate 16 0) = (r, w)" "length r = 5"
    "view5 80 r = fold (\<lambda>t. fips_sha1_step t (fips_sha1_W (be_word 4 b) t)) [0..<80] s" by blast
  then show ?thesis using assms(1) view5_home(2)[OF r(2)]
    by (simp add: sha1_Transform_def fips_block1_def del: upt_conv_Cons)
qed

section \<open>RIPEMD-160\<close>

lemma rmd_shifts: "t < 80 \<Longrightarrow> 0 < snd (rmd_lines1 ! t) \<and> snd (rmd_lines1 ! t) < 32 \<and> fst (rmd_lines1 ! t) < 16"
  "t < 80 \<Longrightarrow> 0 < snd (rmd_lines2 ! t) \<and> snd (rmd_lines2 ! t) < 32 \<and> fst (rmd_lines2 ! t) < 16"
proof -
  have "list_all (\<lambda>p. 0 < snd p \<and> snd p < 32 \<and> fst p < 16) rmd_lines1 \<and> length rmd_lines1 = 80"
    "list_all (\<lambda>p. 0 < snd p \<and> snd p < 32 \<and> fst p < 16) rmd_lines2 \<and> length rmd_lines2 = 80"
    by (simp_all add: rmd_lines1_def rmd_lines2_def)
  then show "t < 80 \<Longrightarrow> 0 < snd (rmd_lines1 ! t) \<and> snd (rmd_lines1 ! t) < 32 \<and> fst (rmd_lines1 ! t) < 16"
    "t < 80 \<Longrightarrow> 0 < snd (rmd_lines2 ! t) \<and> snd (rmd_lines2 ! t) < 32 \<and> fst (rmd_lines2 ! t) < 16"
    by (simp_all add: list_all_length)
qed

lemma rmd_line_step:
  assumes "length r = 5" "0 < snd (lines ! t)" "snd (lines ! t) < 32" "w ! fst (lines ! t) = X (fst (lines ! t))"
  shows "view5 (Suc t) (rmd_line R lines w t r) = rmd_step R lines X t (view5 t r) \<and> length (rmd_line R lines w t r) = 5"
proof -
  have rot: "rmd_rol y (snd (lines ! t)) = word_rotl (snd (lines ! t)) y" "rmd_rol y 10 = word_rotl 10 y" for y
    using rotate_left[OF assms(2,3), of y] rotate_left[of 10 y] by (simp_all add: rmd_rol_def)
  show ?thesis
    using assms(1,4)
    by (simp add: rmd_line_def rmd_Round_def rmd_step_def Let_def case_prod_unfold view5_next nth_reg5_update nth_view5 rot)
qed

lemma rmd_lines_fold:
  assumes "length s = 5" "t \<le> 80" "\<And>i. i < 16 \<Longrightarrow> w ! i = X i"
    "\<And>t. t < 80 \<Longrightarrow> 0 < snd (lines ! t) \<and> snd (lines ! t) < 32 \<and> fst (lines ! t) < 16"
  shows "view5 t (fold (rmd_line R lines w) [0..<t] s) = fold (rmd_step R lines X) [0..<t] s \<and>
    length (fold (rmd_line R lines w) [0..<t] s) = 5"
  using assms(2)
proof (induction t)
  case 0
  then show ?case using assms(1) by (simp add: view5_home)
next
  case (Suc t)
  let ?r = "fold (rmd_line R lines w) [0..<t] s"
  have "view5 (Suc t) (rmd_line R lines w t ?r) = rmd_step R lines X t (view5 t ?r) \<and> length (rmd_line R lines w t ?r) = 5"
    using Suc assms(3,4) by (intro rmd_line_step) auto
  then show ?case using Suc by simp
qed

lemma fold_pair: "fold (\<lambda>t (a, b). (f t a, g t b)) ts (a, b) = (fold f ts a, fold g ts b)"
  by (induction ts arbitrary: a b) auto

lemma ReadLE32_word: "n + 4 \<le> length p \<Longrightarrow> ReadLE32 p n = bytes_word (take 4 (drop n p))"
proof -
  assume l: "n + 4 \<le> length p"
  have "ReadLE32 p n = ucast (p ! n) OR push_bit 8 (ucast (p ! (n + 1)) OR
      push_bit 8 (ucast (p ! (n + 2)) OR push_bit 8 (ucast (p ! (n + 3)))))"
    by (simp add: ReadLE32_def push_bit_or or.commute or.left_commute or.assoc)
  also have "\<dots> = bytes_word (take 4 (drop n p))"
    by (simp add: take_words[OF l] bytes_word_def or_byte)
  finally show ?thesis .
qed

lemma rmd_Transform_block:
  assumes "length s = 5" "length b = 64"
  shows "rmd_Transform s b = rmd_block s b \<and> length (rmd_Transform s b) = 5"
proof -
  let ?X = "\<lambda>i. bytes_word (take 4 (drop (4 * i) b)) :: uint32"
  let ?w = "map (\<lambda>i. ReadLE32 b (4 * i)) [0..<16]"
  have w: "\<And>i. i < 16 \<Longrightarrow> ?w ! i = ?X i" using assms(2) by (simp add: ReadLE32_word)
  have "fold (rmd_line rmd_R1 rmd_lines1 ?w) [0..<80] s = fold (rmd_step rmd_R1 rmd_lines1 ?X) [0..<80] s"
    using rmd_lines_fold[of s 80 ?w ?X rmd_lines1 rmd_R1, OF assms(1) order.refl w rmd_shifts(1)] view5_home(2) by metis
  moreover have "fold (rmd_line rmd_R2 rmd_lines2 ?w) [0..<80] s = fold (rmd_step rmd_R2 rmd_lines2 ?X) [0..<80] s"
    using rmd_lines_fold[of s 80 ?w ?X rmd_lines2 rmd_R2, OF assms(1) order.refl w rmd_shifts(2)] view5_home(2) by metis
  ultimately show ?thesis
    unfolding rmd_Transform_def rmd_block_def Let_def fold_pair by (simp del: upt_conv_Cons)
qed

section \<open>The classes\<close>

lemma length_digest5_init: "length digest5_init = 5"
  by (simp add: digest5_init_def)

lemma sha1_blocks:
  "foldl sha1_Transform digest5_init (blocks 64 m) = foldl fips_block1 digest5_init (blocks 64 m) \<and>
    length (foldl fips_block1 digest5_init (blocks 64 m)) = 5"
  using foldl_blocks_cong[where B=64 and n=5 and T=sha1_Transform and F=fips_block1 and s=digest5_init,
      OF _ length_digest5_init] sha1_Transform_fips by metis

lemma rmd_blocks:
  "foldl rmd_Transform digest5_init (blocks 64 m) = foldl rmd_block digest5_init (blocks 64 m) \<and>
    length (foldl rmd_block digest5_init (blocks 64 m)) = 5"
  using foldl_blocks_cong[where B=64 and n=5 and T=rmd_Transform and F=rmd_block and s=digest5_init,
      OF _ length_digest5_init] rmd_Transform_block by metis

interpretation sha1: block_digest 64 sha1_Transform digest5_init
  by unfold_locales simp_all

interpretation rmd160: block_digest 64 rmd_Transform digest5_init
  by unfold_locales simp_all

lemma code_pad64:
  assumes "h_bytes h = word_of_nat n"
  shows "take (1 + (119 - unat (h_bytes h) mod 64) mod 64) (0x80 # replicate 63 (0 :: byte)) =
    0x80 # replicate (nat ((55 - int n) mod 64)) 0"
proof -
  have "unat (h_bytes h) mod 64 = n mod 64" unfolding assms by (rule mod_of_nat64) simp
  then show ?thesis
    using mod_less_divisor[of 64 "119 - n mod 64"] by (simp add: pad_zeros[symmetric] min_def)
qed

lemma map_nth_output: "length v = n \<Longrightarrow> concat (map (\<lambda>i. f (v ! i)) [0..<n]) = concat (map f v)"
proof -
  assume "length v = n"
  then have "map (\<lambda>i. f (v ! i)) [0..<n] = map f (map ((!) v) [0..<length v])" by simp
  then show ?thesis by (simp only: map_nth)
qed

abbreviation sha1_holds :: "uint32 hasher \<Rightarrow> bytes \<Rightarrow> bool" where
  "sha1_holds \<equiv> absorbed 64 sha1_Transform digest5_init"

abbreviation rmd_holds :: "uint32 hasher \<Rightarrow> bytes \<Rightarrow> bool" where
  "rmd_holds \<equiv> absorbed 64 rmd_Transform digest5_init"

lemma sha1_Finalize:
  assumes "sha1_holds h m"
  shows "snd (CSHA1_Finalize h) = fips_sha1 m"
proof -
  let ?p = "0x80 # replicate (nat ((55 - int (length m)) mod 64)) (0 :: byte)"
  let ?q = "be_bytes 8 (8 * length m)"
  have b: "h_bytes h = word_of_nat (length m)" using assms by (simp add: absorbed_def)
  have q: "WriteBE64 (push_bit 3 (h_bytes h)) = ?q" unfolding b by (rule size_field)
  let ?h = "CSHA1_Write (CSHA1_Write h ?p) ?q"
  have "h_s ?h = foldl sha1_Transform digest5_init (blocks 64 (m @ ?p @ ?q))"
    unfolding CSHA1_Write_def by (rule sha1.padded_words[OF assms])
  moreover have "?p @ ?q = fips_pad 64 8 (length m)" by (simp add: fips_pad_def)
  ultimately have "length (h_s ?h) = 5" "concat (map (\<lambda>x. be_bytes 4 (unat x)) (h_s ?h)) = fips_sha1 m"
    using sha1_blocks[of "m @ fips_pad 64 8 (length m)"] by (simp_all only: fips_sha1_def)
  moreover have "CSHA1_Finalize h = (?h, concat (map (\<lambda>i. WriteBE32 (h_s ?h ! i)) [0..<5]))"
    unfolding CSHA1_Finalize_def Let_def code_pad64[OF b] q by (rule refl)
  ultimately show ?thesis by (simp only: snd_conv map_nth_output) (simp add: WriteBE32_bytes[abs_def])
qed

lemma WriteLE32_bytes: "WriteLE32 x = word_bytes 4 x"
proof -
  have "WriteLE32 x = rev (WriteBE32 x)" by (simp add: WriteLE32_def WriteBE32_def)
  then show ?thesis by (simp only: WriteBE32_bytes be_bytes_def word_bytes_def rev_rev_ident)
qed

lemma WriteLE64_bytes: "WriteLE64 x = word_bytes 8 x"
proof -
  have "WriteLE64 x = rev (WriteBE64 x)" by (simp add: WriteLE64_def WriteBE64_def)
  then show ?thesis by (simp only: WriteBE64_bytes be_bytes_def word_bytes_def rev_rev_ident)
qed

lemma rmd_Finalize:
  assumes "rmd_holds h m"
  shows "snd (CRIPEMD160_Finalize h) = ripemd160 m"
proof -
  let ?p = "0x80 # replicate (nat ((55 - int (length m)) mod 64)) (0 :: byte)"
  let ?q = "le_bytes 8 (8 * length m)"
  have b: "h_bytes h = word_of_nat (length m)" using assms by (simp add: absorbed_def)
  have "rev (WriteLE64 (push_bit 3 (h_bytes h))) = rev ?q"
    using size_field[of "length m"] by (simp only: b WriteLE64_bytes WriteBE64_bytes be_bytes_def word_bytes_def)
  then have q: "WriteLE64 (push_bit 3 (h_bytes h)) = ?q" by simp
  let ?h = "CRIPEMD160_Write (CRIPEMD160_Write h ?p) ?q"
  have "h_s ?h = foldl rmd_Transform digest5_init (blocks 64 (m @ ?p @ ?q))"
    unfolding CRIPEMD160_Write_def by (rule rmd160.padded_words[OF assms])
  moreover have "?p @ ?q = rmd_pad (length m)" by (simp add: rmd_pad_def)
  ultimately have "length (h_s ?h) = 5" "concat (map (word_bytes 4) (h_s ?h)) = ripemd160 m"
    using rmd_blocks[of "m @ rmd_pad (length m)"] by (simp_all only: ripemd160_def)
  moreover have "CRIPEMD160_Finalize h = (?h, concat (map (\<lambda>i. WriteLE32 (h_s ?h ! i)) [0..<5]))"
    unfolding CRIPEMD160_Finalize_def Let_def code_pad64[OF b] q by (rule refl)
  ultimately show ?thesis by (simp only: snd_conv map_nth_output) (simp add: WriteLE32_bytes[abs_def])
qed

section \<open>Properties\<close>

text \<open>
  The five digests the script instructions compute.  Whatever the pieces a message is written in,
  \<open>CSHA1\<close> gives its SHA-1, \<open>CRIPEMD160\<close> its RIPEMD-160 and \<open>CHash160\<close> the RIPEMD-160 of its
  SHA-256, as published: the rotating registers and the reused variables of the unrolled lines compute the
  shifting variables and the message schedule.
\<close>

theorem sha1_ripemd160_are_published:
  assumes "length mem = 64" "length mem' = 64"
  shows "snd (CSHA1_Finalize (foldl CSHA1_Write (CSHA1 mem) pieces)) = fips_sha1 (concat pieces) \<and>
    snd (CRIPEMD160_Finalize (foldl CRIPEMD160_Write (CRIPEMD160 mem) pieces)) = ripemd160 (concat pieces) \<and>
    snd (CHash160_Finalize mem' (foldl CSHA256_Write (CSHA256 mem) pieces)) = ripemd160 (fips_sha256 (concat pieces))"
proof -
  have "sha1_holds (foldl CSHA1_Write (CSHA1 mem) pieces) ([] @ concat pieces)"
    unfolding CSHA1_def CSHA1_Write_def by (intro sha1.absorbed_pieces sha1.absorbed_new assms)
  moreover have "rmd_holds (foldl CRIPEMD160_Write (CRIPEMD160 mem) pieces) ([] @ concat pieces)"
    unfolding CRIPEMD160_def CRIPEMD160_Write_def by (intro rmd160.absorbed_pieces rmd160.absorbed_new assms)
  moreover have "rmd_holds (CRIPEMD160_Write (CRIPEMD160 mem') d) ([] @ d)" for d
    unfolding CRIPEMD160_def CRIPEMD160_Write_def by (intro rmd160.absorbed_Write rmd160.absorbed_new assms)
  moreover have "sha256_holds (foldl CSHA256_Write (CSHA256 mem) pieces) (concat pieces)"
    using sha256_pieces[OF sha256_new[OF assms(1)]] by simp
  ultimately show ?thesis
    using sha1_Finalize rmd_Finalize sha256_Finalize by (simp add: CHash160_Finalize_def case_prod_unfold)
qed

lemma sha1_ripemd160_are_published_witness:
  "snd (CSHA1_Finalize (foldl CSHA1_Write (CSHA1 (replicate 64 7)) [[97], [98, 99]])) = fips_sha1 [97, 98, 99] \<and>
   snd (CRIPEMD160_Finalize (foldl CRIPEMD160_Write (CRIPEMD160 (replicate 64 7)) [[97], [98, 99]])) = ripemd160 [97, 98, 99]"
  using sha1_ripemd160_are_published[of "replicate 64 7" "replicate 64 7" "[[97], [98, 99]]"] by simp

end
