(* ===== verification/ScriptDigests.thy ===== *)
theory ScriptDigests
  imports Digests ScriptVerify
begin

text \<open>
  The script interpreter on the digest classes: \<open>with_digests\<close> fills the five hash functions that
  \<open>EvalScript\<close> takes as arguments with \<open>CRIPEMD160\<close>, \<open>CSHA1\<close>, \<open>CSHA256\<close>, \<open>CHash160\<close> and
  \<open>CHash256\<close>, as the instructions do.  The sizes of the objects and of the digests hold for every input,
  so what \<open>Interp\<close> and \<open>ScriptVerify\<close> assume of the hash functions holds for the code's.
\<close>

section \<open>The digests of the instructions\<close>

text \<open>
  The environment \<open>E\<close> with the classes in place of its hash functions.  \<open>mem\<close> and \<open>mem'\<close> are what
  the memory of the temporary objects holds before they are written.
\<close>

definition with_digests :: "bytes \<Rightarrow> bytes \<Rightarrow> 'e script_env_scheme \<Rightarrow> 'e script_env_scheme" where
  "with_digests mem mem' E = E
     \<lparr>RIPEMD160 := \<lambda>vch. snd (CRIPEMD160_Finalize (CRIPEMD160_Write (CRIPEMD160 mem) vch)),
      SHA1 := \<lambda>vch. snd (CSHA1_Finalize (CSHA1_Write (CSHA1 mem) vch)),
      SHA256 := \<lambda>vch. snd (CSHA256_Finalize (CSHA256_Write (CSHA256 mem) vch)),
      HASH160 := \<lambda>vch. snd (CHash160_Finalize mem' (CSHA256_Write (CSHA256 mem) vch)),
      HASH256 := \<lambda>vch. snd (CHash256_Finalize (CSHA256_Write (CSHA256 mem) vch))\<rparr>"

text \<open>The size of the vector the instruction allocates for the digest.\<close>

definition vchHash_size :: "nat \<Rightarrow> nat" where
  "vchHash_size opcode =
     (if opcode = OP_RIPEMD160 \<or> opcode = OP_SHA1 \<or> opcode = OP_HASH160 then 20 else 32)"

section \<open>Sizes\<close>

text \<open>An object whose arrays have the sizes of their declarations.\<close>

definition well_sized :: "nat \<Rightarrow> nat \<Rightarrow> 'w hasher \<Rightarrow> bool" where
  "well_sized B N h \<longleftrightarrow> length (h_buf h) = B \<and> length (h_s h) = N"

lemma new_hasher_sized: "length mem = B \<Longrightarrow> length init = N \<Longrightarrow> well_sized B N (new_hasher init mem)"
  by (simp add: well_sized_def new_hasher_def)

lemma hasher_Reset_sized: "well_sized B N h \<Longrightarrow> length init = N \<Longrightarrow> well_sized B N (hasher_Reset init h)"
  by (simp add: well_sized_def hasher_Reset_def)

lemma foldl_sized: "(\<And>s c. length s = N \<Longrightarrow> length (T s c) = N) \<Longrightarrow> length s = N \<Longrightarrow> length (foldl T s cs) = N"
  by (induction cs arbitrary: s) simp_all

text \<open>No copy leaves the buffer: it keeps its length whatever was written before and is written now.\<close>

lemma hasher_Write_sized:
  assumes T: "\<And>s c. length s = N \<Longrightarrow> length (T s c) = N" and B: "0 < B" and h: "well_sized B N h"
  shows "well_sized B N (hasher_Write B T h data)"
proof -
  let ?n = "unat (h_bytes h) mod B"
  have n: "?n < B" using B by simp
  define h1 d1 n1 where "h1 = (if ?n \<noteq> 0 \<and> ?n + length data \<ge> B
      then let buf = buf_memcpy ?n (take (B - ?n) data) (h_buf h)
           in h\<lparr>h_buf := buf, h_bytes := h_bytes h + of_nat (B - ?n), h_s := T (h_s h) buf\<rparr> else h)"
    and "d1 = (if ?n \<noteq> 0 \<and> ?n + length data \<ge> B then drop (B - ?n) data else data)"
    and "n1 = (if ?n \<noteq> 0 \<and> ?n + length data \<ge> B then 0 else ?n)"
  have s1: "well_sized B N h1" using h n T by (simp add: h1_def well_sized_def Let_def length_buf_memcpy)
  have n1: "n1 = 0 \<or> n1 + length d1 < B" by (auto simp: n1_def d1_def)
  obtain c r where w: "write_chunks B T h1 d1 = (h1\<lparr>h_s := foldl T (h_s h1) (blocks B c),
      h_bytes := h_bytes h1 + word_of_nat (length c)\<rparr>, r)" and d: "d1 = c @ r" and r: "length r < B"
    using write_chunks_result[OF B] by blast
  have len: "n1 + length r \<le> B" using n1 d r by auto
  have "hasher_Write B T h data = (let (h, data) = write_chunks B T h1 d1
      in if data \<noteq> []
         then h\<lparr>h_buf := buf_memcpy n1 data (h_buf h), h_bytes := h_bytes h + of_nat (length data)\<rparr> else h)"
    unfolding hasher_Write_def h1_def d1_def n1_def Let_def
    by (cases "?n \<noteq> 0 \<and> ?n + length data \<ge> B") auto
  then show ?thesis using s1 len foldl_sized[of N T, OF T] by (auto simp: w well_sized_def length_buf_memcpy)
qed

lemma fold_sized:
  assumes "\<And>t r w. t \<in> set ts \<Longrightarrow> length r = N \<Longrightarrow> length (fst (f t (r, w))) = N" "length s = N"
  shows "length (fst (fold f ts (s, w))) = N"
  using assms by (induction ts arbitrary: s w) (simp_all, metis prod.collapse)

lemma sha2_Transform_sized: "length s = 8 \<Longrightarrow> length (sha2_Transform S0 S1 s0 s1 rd K s c) = 8"
  using fold_sized[of "[0..<length K]" 8 "sha2_line S0 S1 s0 s1 rd K c" s]
  by (simp add: sha2_Transform_def sha2_line_def Let_def case_prod_unfold)

lemma sha1_Transform_sized: "length s = 5 \<Longrightarrow> length (sha1_Transform s c) = 5"
  using fold_sized[of "[0..<80]" 5 "sha1_line c" s]
  by (simp add: sha1_Transform_def sha1_line_def Let_def case_prod_unfold)

lemma rmd_Transform_sized: "length s = 5 \<Longrightarrow> length (rmd_Transform s c) = 5"
  by (simp add: rmd_Transform_def Let_def case_prod_unfold)

lemmas Write_sized =
  hasher_Write_sized[where T = sha256_Transform and N = 8 and B = 64, folded CSHA256_Write_def]
  hasher_Write_sized[where T = sha512_Transform and N = 8 and B = 128, folded CSHA512_Write_def]
  hasher_Write_sized[where T = sha1_Transform and N = 5 and B = 64, folded CSHA1_Write_def]
  hasher_Write_sized[where T = rmd_Transform and N = 5 and B = 64, folded CRIPEMD160_Write_def]

lemma Write_keeps_sizes:
  "well_sized 64 8 h \<Longrightarrow> well_sized 64 8 (CSHA256_Write h data)"
  "well_sized 128 8 h5 \<Longrightarrow> well_sized 128 8 (CSHA512_Write h5 data)"
  "well_sized 64 5 g \<Longrightarrow> well_sized 64 5 (CSHA1_Write g data)"
  "well_sized 64 5 g \<Longrightarrow> well_sized 64 5 (CRIPEMD160_Write g data)"
  by (auto intro!: Write_sized sha1_Transform_sized rmd_Transform_sized
      simp: sha256_Transform_def sha512_Transform_def sha2_Transform_sized)

lemma Write_lengths:
  "length (WriteBE32 x) = 4" "length (WriteBE64 y) = 8" "length (WriteLE32 x) = 4"
  by (simp_all add: WriteBE32_def WriteBE64_def WriteLE32_def)

lemma output_lengths:
  "length (concat (map (\<lambda>i. WriteBE32 (f i)) ns)) = 4 * length ns"
  "length (concat (map (\<lambda>i. WriteBE64 (g i)) ns)) = 8 * length ns"
  "length (concat (map (\<lambda>i. WriteLE32 (f i)) ns)) = 4 * length ns"
  by (induction ns) (simp_all add: Write_lengths)

lemma Finalize_sizes:
  "well_sized 64 8 h \<Longrightarrow> well_sized 64 8 (fst (CSHA256_Finalize h)) \<and> length (snd (CSHA256_Finalize h)) = 32"
  "well_sized 128 8 h5 \<Longrightarrow> well_sized 128 8 (fst (CSHA512_Finalize h5)) \<and> length (snd (CSHA512_Finalize h5)) = 64"
  "well_sized 64 5 g \<Longrightarrow> well_sized 64 5 (fst (CSHA1_Finalize g)) \<and> length (snd (CSHA1_Finalize g)) = 20"
  "well_sized 64 5 g \<Longrightarrow> well_sized 64 5 (fst (CRIPEMD160_Finalize g)) \<and> length (snd (CRIPEMD160_Finalize g)) = 20"
  by (simp_all add: CSHA256_Finalize_def CSHA512_Finalize_def CSHA1_Finalize_def CRIPEMD160_Finalize_def Let_def
      Write_keeps_sizes output_lengths)

lemma CHash256_sizes:
  "well_sized 64 8 h \<Longrightarrow> well_sized 64 8 (fst (CHash256_Finalize h)) \<and> length (snd (CHash256_Finalize h)) = 32"
  using Finalize_sizes(1)[OF Write_keeps_sizes(1)[OF hasher_Reset_sized[of 64 8 _ sha256_init]]] Finalize_sizes(1)
  by (simp add: CHash256_Finalize_def Let_def case_prod_unfold CSHA256_Reset_def length_sha256_init)

lemma CHash160_sizes:
  "length mem' = 64 \<Longrightarrow> well_sized 64 8 h \<Longrightarrow>
   well_sized 64 8 (fst (CHash160_Finalize mem' h)) \<and> length (snd (CHash160_Finalize mem' h)) = 20"
  using Finalize_sizes(1) Finalize_sizes(4)[OF Write_keeps_sizes(4)[OF new_hasher_sized[of mem' 64 digest5_init 5]]]
  by (simp add: CHash160_Finalize_def Let_def case_prod_unfold CRIPEMD160_def length_digest5_init)

lemma new_sizes:
  "length mem = 64 \<Longrightarrow> well_sized 64 8 (CSHA256 mem)" "length mem = 64 \<Longrightarrow> well_sized 64 5 (CSHA1 mem)"
  "length mem = 64 \<Longrightarrow> well_sized 64 5 (CRIPEMD160 mem)"
  by (simp_all add: CSHA256_def CSHA1_def CRIPEMD160_def new_hasher_sized length_sha256_init length_digest5_init)

lemma hash_item_size:
  assumes "length mem = 64" "length mem' = 64"
  shows "length (hash_item (with_digests mem mem' E) opcode vch) = vchHash_size opcode"
  using Finalize_sizes(1,3,4) CHash256_sizes CHash160_sizes[OF assms(2)] Write_keeps_sizes new_sizes assms
  by (simp add: hash_item_def with_digests_def vchHash_size_def)

lemma digests_hashes_ok:
  assumes "length mem = 64" "length mem' = 64"
  shows "hashes_ok (with_digests mem mem' E)"
  using Finalize_sizes(1,3,4) CHash256_sizes CHash160_sizes[OF assms(2)] Write_keeps_sizes new_sizes assms
  by (simp add: hashes_ok_def with_digests_def MAX_SCRIPT_ELEMENT_SIZE_def)

text \<open>The published digests.\<close>

lemma with_digests_published:
  assumes "length mem = 64" "length mem' = 64"
  shows "RIPEMD160 (with_digests mem mem' E) vch = ripemd160 vch"
    "SHA1 (with_digests mem mem' E) vch = fips_sha1 vch"
    "SHA256 (with_digests mem mem' E) vch = fips_sha256 vch"
    "HASH160 (with_digests mem mem' E) vch = ripemd160 (fips_sha256 vch)"
    "HASH256 (with_digests mem mem' E) vch = fips_sha256 (fips_sha256 vch)"
proof -
  have one: "sha256_holds (CSHA256_Write (CSHA256 mem) vch) vch"
    "rmd_holds (CRIPEMD160_Write (CRIPEMD160 mem) vch) vch" "sha1_holds (CSHA1_Write (CSHA1 mem) vch) vch"
    using sha256_write[OF sha256_new[OF assms(1)]] rmd160.absorbed_Write[OF rmd160.absorbed_new[OF assms(1)]]
      sha1.absorbed_Write[OF sha1.absorbed_new[OF assms(1)]]
    by (simp_all add: CRIPEMD160_Write_def CRIPEMD160_def CSHA1_Write_def CSHA1_def)
  have two: "rmd_holds (CRIPEMD160_Write (CRIPEMD160 mem') d) d" for d
    using rmd160.absorbed_Write[OF rmd160.absorbed_new[OF assms(2)], of d]
    by (simp add: CRIPEMD160_Write_def CRIPEMD160_def)
  have again: "sha256_holds (CSHA256_Write (CSHA256_Reset (fst (CSHA256_Finalize (CSHA256_Write (CSHA256 mem) vch)))) d) d" for d
    unfolding CSHA256_Reset_def
    using sha256_Finalize[OF one(1)] sha256_write sha256.absorbed_Reset by (metis append_Nil)
  note fin = sha256_Finalize[OF one(1)] rmd_Finalize[OF one(2)] sha1_Finalize[OF one(3)]
  show "RIPEMD160 (with_digests mem mem' E) vch = ripemd160 vch" using fin by (simp add: with_digests_def)
  show "SHA1 (with_digests mem mem' E) vch = fips_sha1 vch" using fin by (simp add: with_digests_def)
  show "SHA256 (with_digests mem mem' E) vch = fips_sha256 vch" using fin by (simp add: with_digests_def)
  show "HASH160 (with_digests mem mem' E) vch = ripemd160 (fips_sha256 vch)"
    using fin rmd_Finalize[OF two, of "fips_sha256 vch"]
    by (simp add: with_digests_def CHash160_Finalize_def case_prod_unfold Let_def)
  show "HASH256 (with_digests mem mem' E) vch = fips_sha256 (fips_sha256 vch)"
    using fin sha256_Finalize[OF again, of "fips_sha256 vch"]
    by (simp add: with_digests_def CHash256_Finalize_def case_prod_unfold Let_def)
qed

section \<open>Properties\<close>

text \<open> C39.
  The types of the digest objects.  Whatever a write or a finalisation finds in an object and whatever the
  data, every copy stays inside the buffer and the chaining words keep their number; each digest has the size its
  class declares, and the digest of every instruction fills exactly the vector allocated for it.
\<close>

theorem digest_objects_keep_type:
  assumes "well_sized 64 8 h" "well_sized 128 8 h5" "well_sized 64 5 g" "length mem = 64" "length mem' = 64"
  shows "well_sized 64 8 (CSHA256_Write h data) \<and> well_sized 128 8 (CSHA512_Write h5 data) \<and>
    well_sized 64 5 (CSHA1_Write g data) \<and> well_sized 64 5 (CRIPEMD160_Write g data) \<and>
    well_sized 64 8 (fst (CSHA256_Finalize h)) \<and> length (snd (CSHA256_Finalize h)) = 32 \<and>
    well_sized 128 8 (fst (CSHA512_Finalize h5)) \<and> length (snd (CSHA512_Finalize h5)) = 64 \<and>
    well_sized 64 5 (fst (CSHA1_Finalize g)) \<and> length (snd (CSHA1_Finalize g)) = 20 \<and>
    well_sized 64 5 (fst (CRIPEMD160_Finalize g)) \<and> length (snd (CRIPEMD160_Finalize g)) = 20 \<and>
    length (hash_item (with_digests mem mem' E) opcode vch) = vchHash_size opcode"
  by (intro conjI Write_keeps_sizes hash_item_size assms Finalize_sizes[THEN conjunct1] Finalize_sizes[THEN conjunct2])

lemma digest_objects_keep_type_witness:
  "length (hash_item (with_digests (replicate 64 0) (replicate 64 0) null_env) OP_HASH160 [1, 2, 3]) = 20 \<and>
   length (snd (CSHA512_Finalize (new_hasher (replicate 8 0) (replicate 128 0)))) = 64"
  using digest_objects_keep_type[of "new_hasher (replicate 8 0) (replicate 64 0)"
      "new_hasher (replicate 8 0) (replicate 128 0)" "new_hasher (replicate 5 0) (replicate 64 0)"
      "replicate 64 0" "replicate 64 0" "[]" null_env OP_HASH160 "[1, 2, 3]"]
  by (simp add: vchHash_size_def new_hasher_sized)

text \<open> C12.
  Verification with the digest classes of the code, nothing assumed of the digests: spending an output
  that pays to an address asks for a public key whose SHA-256 has the RIPEMD-160 of the address, for
  well-formed encodings and for a signature that the checker accepts; a script that succeeds stays within the
  limits of the stack.
\<close>

theorem p2pkh_verify_digests:
  assumes "length sig \<le> MAX_SCRIPT_ELEMENT_SIZE" "length pk \<le> MAX_SCRIPT_ELEMENT_SIZE"
    and "length h = 20" "sig \<noteq> h" "flags AND SCRIPT_VERIFY_MINIMALDATA = 0"
    and "length mem = 64" "length mem' = 64"
    and "E' = with_digests mem mem' E"
  shows "VerifyScript E' flags (push_data pk (push_data sig [])) (p2pkh h) =
      Some (if ripemd160 (fips_sha256 pk) \<noteq> h then Inl SCRIPT_ERR_EQUALVERIFY
            else rbind (CheckSignatureEncoding2 (CheckLowS E) sig flags) (\<lambda>_.
                 rbind (CheckPubKeyEncoding2 pk flags) (\<lambda>_.
                   if CheckSig E sig pk (p2pkh h) then Inr () else Inl SCRIPT_ERR_EVAL_FALSE))) \<and>
    (case EvalScript E' flags [] script of
       Inr stack \<Rightarrow> length stack \<le> 1000 \<and> list_all item_ok stack
     | Inl e \<Rightarrow> True)"
proof -
  have "HASH160 E' pk = ripemd160 (fips_sha256 pk)" "CheckLowS E' = CheckLowS E" "CheckSig E' = CheckSig E"
    using with_digests_published(4)[OF assms(6,7)] by (simp_all add: assms(8) with_digests_def)
  then have "VerifyScript E' flags (push_data pk (push_data sig [])) (p2pkh h) =
      Some (if ripemd160 (fips_sha256 pk) \<noteq> h then Inl SCRIPT_ERR_EQUALVERIFY
            else rbind (CheckSignatureEncoding2 (CheckLowS E) sig flags) (\<lambda>_.
                 rbind (CheckPubKeyEncoding2 pk flags) (\<lambda>_.
                   if CheckSig E sig pk (p2pkh h) then Inr () else Inl SCRIPT_ERR_EVAL_FALSE)))"
    using p2pkh_spend[OF assms(1-5), of E'] by simp
  moreover have "length stack \<le> 1000 \<and> list_all item_ok stack" if "EvalScript E' flags [] script = Inr stack" for stack
    using EvalScript_limits[OF that] digests_hashes_ok[OF assms(6,7), of E] by (simp add: assms(8))
  ultimately show ?thesis by (auto split: sum.split)
qed

text \<open>A key of three bytes and its address.\<close>

lemma p2pkh_verify_digests_witness:
  "VerifyScript (with_digests (replicate 64 0) (replicate 64 0) (null_env\<lparr>CheckSig := \<lambda>_ _ _. True\<rparr>)) 0
     (push_data [1, 2, 3] (push_data [4, 5] [])) (p2pkh (ripemd160 (fips_sha256 [1, 2, 3]))) = Some (Inr ())"
proof -
  let ?h = "ripemd160 (fips_sha256 [1, 2, 3])"
  have l: "length ?h = 20"
    using hash_item_size[of "replicate 64 0" "replicate 64 0" null_env OP_HASH160 "[1, 2, 3]"]
      with_digests_published(4)[of "replicate 64 0" "replicate 64 0" null_env "[1, 2, 3]"]
    by (simp add: hash_item_def vchHash_size_def)
  then have "[4, 5] \<noteq> ?h" by (auto dest: arg_cong[of _ _ length])
  then show ?thesis
    using p2pkh_verify_digests[of "[4, 5]" "[1, 2, 3]" ?h 0 "replicate 64 0" "replicate 64 0"
        _ "null_env\<lparr>CheckSig := \<lambda>_ _ _. True\<rparr>", OF _ _ l _ _ _ _ refl]
    by (simp add: MAX_SCRIPT_ELEMENT_SIZE_def CheckSignatureEncoding2_def CheckPubKeyEncoding2_def)
qed

end
