(* ===== verification/DataStream.thy ===== *)
theory DataStream
  imports Serialize
begin

text \<open>
  The buffer \<open>CDataStream\<close> of \<open>src/src/serialize.h\<close>: a vector with a read
  position.  Its operations are those of the class; \<open>ds_rest\<close> is the abstract
  stream (the unread bytes), over which the readers of \<open>Serialize\<close> are written.
\<close>

section \<open>State\<close>

record CDataStream =
  vch :: bytes
  nReadPos :: uint32
  state :: "16 word"
  exceptmask :: "16 word"

definition badbit :: "16 word" where "badbit = 1"
definition failbit :: "16 word" where "failbit = 4"

definition ds_init :: "bytes \<Rightarrow> CDataStream" where
  "ds_init v = \<lparr>vch = v, nReadPos = 0, state = 0, exceptmask = badbit OR failbit\<rparr>"

abbreviation rpos :: "CDataStream \<Rightarrow> nat" where
  "rpos ds \<equiv> unat (nReadPos ds)"

text \<open>Unread bytes, and the invariant that the position is inside the buffer.\<close>

definition ds_rest :: "CDataStream \<Rightarrow> bytes" where
  "ds_rest ds = drop (rpos ds) (vch ds)"

definition ds_ok :: "CDataStream \<Rightarrow> bool" where
  "ds_ok ds \<longleftrightarrow> rpos ds \<le> length (vch ds) \<and> length (vch ds) < 2 ^ 31 \<and>
     exceptmask ds AND failbit \<noteq> 0"

section \<open>Operations\<close>

definition ds_size :: "CDataStream \<Rightarrow> nat" where
  "ds_size ds = length (vch ds) - rpos ds"

definition ds_empty :: "CDataStream \<Rightarrow> bool" where
  "ds_empty ds \<longleftrightarrow> length (vch ds) = rpos ds"

definition ds_clear :: "CDataStream \<Rightarrow> CDataStream" where
  "ds_clear ds = ds\<lparr>vch := [], nReadPos := 0\<rparr>"

definition ds_append :: "CDataStream \<Rightarrow> CDataStream \<Rightarrow> CDataStream" where
  "ds_append a b = a\<lparr>vch := vch a @ ds_rest b\<rparr>"

definition ds_setstate :: "16 word \<Rightarrow> CDataStream \<Rightarrow> (ser_error + unit) \<times> CDataStream" where
  "ds_setstate bits ds =
     (let ds' = ds\<lparr>state := state ds OR bits\<rparr>
      in (if state ds' AND exceptmask ds' \<noteq> 0 then Inl EndOfData else Inr (), ds'))"

text \<open>
  \<open>read(pch, nSize)\<close>.  The next position is computed in 32 bits.  When the buffer
  runs out, \<open>setstate\<close> throws unless the exception mask was cleared; without the
  exception the target is zero-filled and receives what is left.
\<close>

definition ds_read :: "nat \<Rightarrow> CDataStream \<Rightarrow> (ser_error + bytes) \<times> CDataStream" where
  "ds_read nSize ds =
     (let nReadPosNext = nReadPos ds + of_nat nSize
      in if unat nReadPosNext \<ge> length (vch ds) then
           (if unat nReadPosNext > length (vch ds) then
              (case ds_setstate failbit ds of
                 (Inl e, ds') \<Rightarrow> (Inl e, ds')
               | (Inr _, ds') \<Rightarrow>
                   (let left = length (vch ds') - rpos ds'
                    in (Inr (take left (ds_rest ds') @ replicate (nSize - left) 0),
                        ds'\<lparr>nReadPos := 0, vch := []\<rparr>)))
            else (Inr (take nSize (ds_rest ds)), ds\<lparr>nReadPos := 0, vch := []\<rparr>))
         else (Inr (take nSize (ds_rest ds)), ds\<lparr>nReadPos := nReadPosNext\<rparr>))"

definition ds_ignore :: "nat \<Rightarrow> CDataStream \<Rightarrow> (ser_error + unit) \<times> CDataStream" where
  "ds_ignore nSize ds =
     (let nReadPosNext = nReadPos ds + of_nat nSize
      in if unat nReadPosNext \<ge> length (vch ds) then
           (case (if unat nReadPosNext > length (vch ds) then ds_setstate failbit ds else (Inr (), ds)) of
              (Inl e, ds') \<Rightarrow> (Inl e, ds')
            | (Inr _, ds') \<Rightarrow> (Inr (), ds'\<lparr>nReadPos := 0, vch := []\<rparr>))
         else (Inr (), ds\<lparr>nReadPos := nReadPosNext\<rparr>))"

definition ds_write :: "bytes \<Rightarrow> CDataStream \<Rightarrow> CDataStream" where
  "ds_write d ds = ds\<lparr>vch := vch ds @ d\<rparr>"

text \<open>Iterators are positions in \<open>vch\<close>.\<close>

definition ds_insert :: "nat \<Rightarrow> bytes \<Rightarrow> CDataStream \<Rightarrow> CDataStream" where
  "ds_insert it d ds =
     (if it = rpos ds \<and> unat (of_nat (length d) :: uint32) \<le> rpos ds then
        (let p = nReadPos ds - of_nat (length d)
         in ds\<lparr>nReadPos := p,
               vch := take (unat p) (vch ds) @ d @ drop (unat p + length d) (vch ds)\<rparr>)
      else ds\<lparr>vch := take it (vch ds) @ d @ drop it (vch ds)\<rparr>)"

definition ds_erase1 :: "nat \<Rightarrow> CDataStream \<Rightarrow> CDataStream" where
  "ds_erase1 it ds =
     (if it = rpos ds then
        (let p = nReadPos ds + 1
         in if unat p \<ge> length (vch ds) then ds\<lparr>nReadPos := 0, vch := []\<rparr>
            else ds\<lparr>nReadPos := p\<rparr>)
      else ds\<lparr>vch := take it (vch ds) @ drop (it + 1) (vch ds)\<rparr>)"

definition ds_erase :: "nat \<Rightarrow> nat \<Rightarrow> CDataStream \<Rightarrow> CDataStream" where
  "ds_erase b e ds =
     (if b = rpos ds then
        (if e = length (vch ds) then ds\<lparr>nReadPos := 0, vch := []\<rparr>
         else ds\<lparr>nReadPos := of_nat e\<rparr>)
      else ds\<lparr>vch := take b (vch ds) @ drop e (vch ds)\<rparr>)"

definition ds_Compact :: "CDataStream \<Rightarrow> CDataStream" where
  "ds_Compact ds = ds\<lparr>vch := drop (rpos ds) (vch ds), nReadPos := 0\<rparr>"

definition ds_Rewind :: "nat \<Rightarrow> CDataStream \<Rightarrow> bool \<times> CDataStream" where
  "ds_Rewind n ds =
     (if n > rpos ds then (False, ds) else (True, ds\<lparr>nReadPos := nReadPos ds - of_nat n\<rparr>))"

definition ds_GetAndClear :: "bytes \<Rightarrow> CDataStream \<Rightarrow> bytes \<times> CDataStream" where
  "ds_GetAndClear data ds = (data @ ds_rest ds, ds_clear ds)"

section \<open>The buffer implements the abstract stream\<close>

lemma ds_rest_length: "ds_ok ds \<Longrightarrow> length (ds_rest ds) = ds_size ds"
  by (simp add: ds_rest_def ds_size_def)

lemma ds_empty_iff: "ds_ok ds \<Longrightarrow> ds_empty ds \<longleftrightarrow> ds_rest ds = []"
  by (auto simp: ds_empty_def ds_rest_def ds_ok_def)

lemma unat_pos_add:
  "unat (p :: uint32) + k < 2 ^ 32 \<Longrightarrow> unat (p + of_nat k) = unat p + k"
  by (simp add: unat_word_ariths(1) unsigned_of_nat take_bit_nat_eq_self)

lemma unat_pos_diff:
  "k \<le> unat (p :: uint32) \<Longrightarrow> unat (p - of_nat k) = unat p - k"
proof -
  assume k: "k \<le> unat p"
  have "k < 2 ^ 32" using k unsigned_less[of p, where ?'a=nat] by simp
  then have "unat (of_nat k :: uint32) = k" by (simp add: unsigned_of_nat take_bit_nat_eq_self)
  then show ?thesis using k by (simp add: unat_sub_if_size)
qed

lemma failbit_thrown: "exceptmask ds AND failbit \<noteq> 0 \<Longrightarrow> ds_setstate failbit ds = (Inl EndOfData, ds\<lparr>state := state ds OR failbit\<rparr>)"
proof -
  assume a: "exceptmask ds AND failbit \<noteq> 0"
  have "(state ds OR failbit) AND exceptmask ds \<noteq> 0"
  proof
    assume "(state ds OR failbit) AND exceptmask ds = 0"
    then have "failbit AND exceptmask ds = 0"
      by (simp add: bit.conj_disj_distrib2 or_eq_0_iff)
    with a show False by (simp add: and.commute)
  qed
  then show ?thesis by (simp add: ds_setstate_def Let_def)
qed

lemma ds_read_ok:
  assumes "ds_ok ds" "k < 2 ^ 31"
  shows "(case read_data k (ds_rest ds) of
            Inl e \<Rightarrow> fst (ds_read k ds) = Inl e \<and> ds_rest (snd (ds_read k ds)) = ds_rest ds
          | Inr (d, t) \<Rightarrow> fst (ds_read k ds) = Inr d \<and> ds_rest (snd (ds_read k ds)) = t)"
    and "ds_ok (snd (ds_read k ds))"
proof -
  have pos: "unat (nReadPos ds + of_nat k) = rpos ds + k"
    using assms by (intro unat_pos_add) (simp add: ds_ok_def)
  have fb: "exceptmask ds AND failbit \<noteq> 0" using assms by (simp add: ds_ok_def)
  have fit: "k \<le> length (ds_rest ds) \<longleftrightarrow> rpos ds + k \<le> length (vch ds)"
    using assms(1) by (auto simp: ds_rest_def ds_ok_def)
  show "(case read_data k (ds_rest ds) of
            Inl e \<Rightarrow> fst (ds_read k ds) = Inl e \<and> ds_rest (snd (ds_read k ds)) = ds_rest ds
          | Inr (d, t) \<Rightarrow> fst (ds_read k ds) = Inr d \<and> ds_rest (snd (ds_read k ds)) = t)"
    unfolding read_data_def fit ds_read_def Let_def pos failbit_thrown[OF fb]
    by (auto simp: ds_rest_def pos add.commute)
  show "ds_ok (snd (ds_read k ds))"
    using assms unfolding ds_read_def Let_def pos failbit_thrown[OF fb]
    by (auto simp: ds_ok_def pos)
qed

lemma ds_ignore_ok:
  assumes "ds_ok ds" "k < 2 ^ 31" "k \<le> length (ds_rest ds)"
  shows "fst (ds_ignore k ds) = Inr () \<and> ds_rest (snd (ds_ignore k ds)) = drop k (ds_rest ds)"
proof -
  have pos: "unat (nReadPos ds + of_nat k) = rpos ds + k"
    using assms by (intro unat_pos_add) (simp add: ds_ok_def)
  show ?thesis using assms unfolding ds_ignore_def Let_def pos
    by (auto simp: ds_rest_def pos ds_ok_def add.commute)
qed

lemma ds_write_rest: "ds_ok ds \<Longrightarrow> ds_rest (ds_write d ds) = ds_rest ds @ d"
  by (simp add: ds_rest_def ds_write_def ds_ok_def)

lemma ds_insert_front_rest:
  assumes "ds_ok ds" "length d < 2 ^ 31"
  shows "ds_rest (ds_insert (rpos ds) d ds) = d @ ds_rest ds"
proof -
  have l: "unat (of_nat (length d) :: uint32) = length d"
    using assms by (simp add: unsigned_of_nat take_bit_nat_eq_self)
  show ?thesis
  proof (cases "length d \<le> rpos ds")
    case True
    then show ?thesis using l assms
      by (simp add: ds_insert_def ds_rest_def unat_pos_diff ds_ok_def min_def)
  next
    case False
    then show ?thesis using l assms by (simp add: ds_insert_def ds_rest_def ds_ok_def)
  qed
qed

lemma ds_erase_front_rest:
  assumes "ds_ok ds" "rpos ds \<le> e" "e \<le> length (vch ds)"
  shows "ds_rest (ds_erase (rpos ds) e ds) = drop (e - rpos ds) (ds_rest ds)"
proof -
  have "unat (of_nat e :: uint32) = e"
    using assms by (simp add: ds_ok_def unsigned_of_nat take_bit_nat_eq_self)
  then show ?thesis using assms by (auto simp: ds_erase_def ds_rest_def)
qed

lemma ds_erase1_front_rest:
  assumes "ds_ok ds" "ds_rest ds \<noteq> []"
  shows "ds_rest (ds_erase1 (rpos ds) ds) = tl (ds_rest ds)"
proof -
  have pos: "unat (nReadPos ds + 1) = rpos ds + 1"
    using assms unat_pos_add[of "nReadPos ds" 1] by (simp add: ds_ok_def)
  then show ?thesis using assms
    by (auto simp: ds_erase1_def ds_rest_def Let_def pos tl_drop drop_Suc)
qed

lemma ds_Compact_rest: "ds_rest (ds_Compact ds) = ds_rest ds"
  by (simp add: ds_Compact_def ds_rest_def)

lemma ds_Rewind_read:
  assumes "ds_ok ds" "k < 2 ^ 31" "k < length (ds_rest ds)"
  shows "ds_Rewind k (snd (ds_read k ds)) = (True, ds)"
proof -
  have pos: "unat (nReadPos ds + of_nat k) = rpos ds + k"
    using assms by (intro unat_pos_add) (simp add: ds_ok_def)
  then show ?thesis using assms
    by (auto simp: ds_Rewind_def ds_read_def Let_def ds_rest_def ds_ok_def)
qed

end
