(* ===== verification/KeyStore.thy ===== *)
theory KeyStore
  imports Solver
begin

text \<open>
  Key stores, ownership and signing: \<open>src/src/keystore.h\<close> and \<open>src/src/keystore.cpp\<close>, and
  \<open>Sign1\<close>, \<open>SignN\<close>, the signing \<open>Solver\<close>, \<open>SignSignature\<close>, \<open>HaveKeys\<close> and \<open>IsMine\<close> of
  \<open>src/src/script.cpp\<close>.  The virtual base class is the locale \<open>key_store\<close>; \<open>CBasicKeyStore\<close>
  interprets it.  The secret keys and what they compute (public key, signature) are parameters, in
  the record \<open>sign_env\<close>.
\<close>

section \<open>The basic key store\<close>

record 'key CBasicKeyStore =
  mapKeys :: "uint160 \<rightharpoonup> 'key"
  mapScripts :: "uint160 \<rightharpoonup> script"
  setWatchOnly :: "script set"

definition empty_store :: "'key CBasicKeyStore" where
  "empty_store = \<lparr>mapKeys = Map.empty, mapScripts = Map.empty, setWatchOnly = {}\<rparr>"

definition AddKeyPubKey ::
  "(bytes \<Rightarrow> uint160) \<Rightarrow> 'key CBasicKeyStore \<Rightarrow> 'key \<Rightarrow> pubkey \<Rightarrow> bool \<times> 'key CBasicKeyStore" where
  "AddKeyPubKey H160 ks key pubkey = (True, ks\<lparr>mapKeys := (mapKeys ks)(pk_GetID H160 pubkey \<mapsto> key)\<rparr>)"

definition HaveKey :: "'key CBasicKeyStore \<Rightarrow> uint160 \<Rightarrow> bool" where
  "HaveKey ks address \<longleftrightarrow> mapKeys ks address \<noteq> None"

definition GetKeys :: "'key CBasicKeyStore \<Rightarrow> uint160 set" where
  "GetKeys ks = dom (mapKeys ks)"

definition GetKey :: "'key CBasicKeyStore \<Rightarrow> uint160 \<Rightarrow> 'key option" where
  "GetKey ks address = mapKeys ks address"

definition AddCScript ::
  "(bytes \<Rightarrow> uint160) \<Rightarrow> 'key CBasicKeyStore \<Rightarrow> script \<Rightarrow> bool \<times> 'key CBasicKeyStore" where
  "AddCScript H160 ks redeemScript =
     (if length redeemScript > MAX_SCRIPT_ELEMENT_SIZE then (False, ks)
      else (True, ks\<lparr>mapScripts := (mapScripts ks)(H160 redeemScript \<mapsto> redeemScript)\<rparr>))"

definition HaveCScript :: "'key CBasicKeyStore \<Rightarrow> uint160 \<Rightarrow> bool" where
  "HaveCScript ks hash \<longleftrightarrow> mapScripts ks hash \<noteq> None"

definition GetCScript :: "'key CBasicKeyStore \<Rightarrow> uint160 \<Rightarrow> script option" where
  "GetCScript ks hash = mapScripts ks hash"

definition AddWatchOnly :: "'key CBasicKeyStore \<Rightarrow> script \<Rightarrow> bool \<times> 'key CBasicKeyStore" where
  "AddWatchOnly ks dest = (True, ks\<lparr>setWatchOnly := insert dest (setWatchOnly ks)\<rparr>)"

definition RemoveWatchOnly :: "'key CBasicKeyStore \<Rightarrow> script \<Rightarrow> bool \<times> 'key CBasicKeyStore" where
  "RemoveWatchOnly ks dest = (True, ks\<lparr>setWatchOnly := setWatchOnly ks - {dest}\<rparr>)"

definition HaveWatchOnly :: "'key CBasicKeyStore \<Rightarrow> script \<Rightarrow> bool" where
  "HaveWatchOnly ks dest \<longleftrightarrow> dest \<in> setWatchOnly ks"

definition HaveAnyWatchOnly :: "'key CBasicKeyStore \<Rightarrow> bool" where
  "HaveAnyWatchOnly ks \<longleftrightarrow> setWatchOnly ks \<noteq> {}"

text \<open>The two functions of the base class, over the virtual ones.\<close>

definition CKeyStore_GetPubKey ::
  "('ks \<Rightarrow> uint160 \<Rightarrow> 'key option) \<Rightarrow> ('key \<Rightarrow> pubkey) \<Rightarrow> 'ks \<Rightarrow> uint160 \<Rightarrow> pubkey option" where
  "CKeyStore_GetPubKey get_key KeyPub ks address =
     (case get_key ks address of None \<Rightarrow> None | Some key \<Rightarrow> Some (KeyPub key))"

definition CKeyStore_AddKey ::
  "('ks \<Rightarrow> 'key \<Rightarrow> pubkey \<Rightarrow> bool \<times> 'ks) \<Rightarrow> ('key \<Rightarrow> pubkey) \<Rightarrow> 'ks \<Rightarrow> 'key \<Rightarrow> bool \<times> 'ks" where
  "CKeyStore_AddKey add_key KeyPub ks key = add_key ks key (KeyPub key)"

section \<open>The interface\<close>

text \<open>What a client of a key store relies on; \<open>key_id\<close> is the hash of a public key.\<close>

locale key_store =
  fixes have_key :: "'ks \<Rightarrow> uint160 \<Rightarrow> bool"
    and get_key :: "'ks \<Rightarrow> uint160 \<Rightarrow> 'key option"
    and add_key :: "'ks \<Rightarrow> 'key \<Rightarrow> pubkey \<Rightarrow> bool \<times> 'ks"
    and key_id :: "pubkey \<Rightarrow> uint160"
  assumes have_key_iff: "have_key ks a \<longleftrightarrow> get_key ks a \<noteq> None"
    and add_key_ok: "fst (add_key ks key pub)"
    and get_key_add: "get_key (snd (add_key ks key pub)) a = (if a = key_id pub then Some key else get_key ks a)"
begin

lemma have_added_key: "have_key (snd (add_key ks key pub)) (key_id pub)"
  by (simp add: have_key_iff get_key_add)

lemma have_key_kept: "have_key ks a \<Longrightarrow> have_key (snd (add_key ks key pub)) a"
  by (simp add: have_key_iff get_key_add)

lemma pubkey_of_added_key:
  "CKeyStore_GetPubKey get_key KeyPub (snd (CKeyStore_AddKey add_key KeyPub ks key)) (key_id (KeyPub key)) =
     Some (KeyPub key)"
  by (simp add: CKeyStore_GetPubKey_def CKeyStore_AddKey_def get_key_add)

text \<open>Every public key handed out belongs to its address, when all keys were added by \<open>AddKey\<close>.\<close>

definition consistent :: "('key \<Rightarrow> pubkey) \<Rightarrow> 'ks \<Rightarrow> bool" where
  "consistent KeyPub ks \<longleftrightarrow> (\<forall>a key. get_key ks a = Some key \<longrightarrow> key_id (KeyPub key) = a)"

lemma consistent_add: "consistent KeyPub ks \<Longrightarrow> consistent KeyPub (snd (CKeyStore_AddKey add_key KeyPub ks key))"
  by (simp add: consistent_def CKeyStore_AddKey_def get_key_add)

lemma consistent_pubkey:
  "consistent KeyPub ks \<Longrightarrow> CKeyStore_GetPubKey get_key KeyPub ks a = Some pub \<Longrightarrow> key_id pub = a"
  by (auto simp: consistent_def CKeyStore_GetPubKey_def split: option.splits)

end

interpretation basic: key_store HaveKey GetKey "AddKeyPubKey H160" "pk_GetID H160" for H160
  by unfold_locales (auto simp: HaveKey_def GetKey_def AddKeyPubKey_def)

section \<open>Signing\<close>

record ('sig, 'pk, 'key) sign_env = "('sig, 'pk) sig_env" +
  KeyPub :: "'key \<Rightarrow> pubkey"
  KeySign :: "'key \<Rightarrow> uint256 \<Rightarrow> bytes option"
  Hash160 :: "bytes \<Rightarrow> uint160"
  script_hashes :: script_env

text \<open>The environment of the interpreter for an input of a transaction.\<close>

definition checker_env :: "('sig, 'pk, 'key, 'e) sign_env_scheme \<Rightarrow> CTransaction \<Rightarrow> nat \<Rightarrow> script_env" where
  "checker_env V txTo nIn =
     (script_hashes V)\<lparr>HASH160 := \<lambda>b. word_bytes 20 (Hash160 V b), HASH256 := \<lambda>b. word_bytes 32 (Hash256 V b),
       CheckLowS := pk_CheckLowS V, CheckSig := SignatureChecker_CheckSig V txTo nIn\<rparr>"

definition Sign1 ::
  "('sig, 'pk, 'key, 'e) sign_env_scheme \<Rightarrow> uint160 \<Rightarrow> 'key CBasicKeyStore \<Rightarrow> uint256 \<Rightarrow> uint32 \<Rightarrow> script \<Rightarrow> bool \<times> script" where
  "Sign1 V address keystore hash nHashType sigRet =
     (case GetKey keystore address of
        None \<Rightarrow> (False, sigRet)
      | Some key \<Rightarrow>
          (case KeySign V key hash of
             None \<Rightarrow> (False, sigRet)
           | Some vchSig \<Rightarrow> (True, push_data (vchSig @ [ucast nHashType]) sigRet)))"

fun SignN_loop ::
  "('sig, 'pk, 'key, 'e) sign_env_scheme \<Rightarrow> bytes list \<Rightarrow> 'key CBasicKeyStore \<Rightarrow> uint256 \<Rightarrow> uint32 \<Rightarrow>
     nat \<Rightarrow> nat \<Rightarrow> script \<Rightarrow> nat \<times> script" where
  "SignN_loop V [] keystore hash nHashType nRequired nSigned sigRet = (nSigned, sigRet)"
| "SignN_loop V (pubkey # pubkeys) keystore hash nHashType nRequired nSigned sigRet =
     (if nSigned < nRequired then
        (case Sign1 V (pk_GetID (Hash160 V) (mk_pubkey pubkey)) keystore hash nHashType sigRet of
           (ok, sigRet) \<Rightarrow>
             SignN_loop V pubkeys keystore hash nHashType nRequired (if ok then nSigned + 1 else nSigned) sigRet)
      else (nSigned, sigRet))"

definition SignN ::
  "('sig, 'pk, 'key, 'e) sign_env_scheme \<Rightarrow> bytes list \<Rightarrow> 'key CBasicKeyStore \<Rightarrow> uint256 \<Rightarrow> uint32 \<Rightarrow> script \<Rightarrow> bool \<times> script" where
  "SignN V multisigdata keystore hash nHashType sigRet =
     (let nRequired = unat (hd (hd multisigdata))
      in case SignN_loop V (butlast (tl multisigdata)) keystore hash nHashType nRequired 0 sigRet of
           (nSigned, sigRet) \<Rightarrow> (nSigned = nRequired, sigRet))"

text \<open>\<open>None\<close> is the failed assertion on the size of a pushed public key.\<close>

definition SolverSign ::
  "('sig, 'pk, 'key, 'e) sign_env_scheme \<Rightarrow> 'key CBasicKeyStore \<Rightarrow> script \<Rightarrow> uint256 \<Rightarrow> uint32 \<Rightarrow>
     (bool \<times> script \<times> txnouttype) option" where
  "SolverSign V keystore s hash nHashType =
     (case Solver s of
        (ok, whichType, vSolutions) \<Rightarrow>
          if \<not> ok then Some (False, [], whichType)
          else case whichType of
            TX_NONSTANDARD \<Rightarrow> Some (False, [], whichType)
          | TX_NULL_DATA \<Rightarrow> Some (False, [], whichType)
          | TX_PUBKEY \<Rightarrow>
              (let (b, sigRet) = Sign1 V (pk_GetID (Hash160 V) (mk_pubkey (vSolutions ! 0))) keystore hash nHashType []
               in Some (b, sigRet, whichType))
          | TX_PUBKEYHASH \<Rightarrow>
              (let keyID = uint160_of (vSolutions ! 0);
                   (b, sigRet) = Sign1 V keyID keystore hash nHashType []
               in if \<not> b then Some (False, sigRet, whichType)
                  else
                    let vch = (case CKeyStore_GetPubKey GetKey (KeyPub V) keystore keyID of
                                 None \<Rightarrow> mk_pubkey [] | Some p \<Rightarrow> p)
                    in map_option (\<lambda>sigRet. (True, sigRet, whichType)) (push_pubkey vch sigRet))
          | TX_SCRIPTHASH \<Rightarrow>
              Some (case GetCScript keystore (uint160_of (vSolutions ! 0)) of
                      None \<Rightarrow> (False, [], whichType) | Some sub \<Rightarrow> (True, sub, whichType))
          | TX_MULTISIG \<Rightarrow>
              (let (b, sigRet) = SignN V vSolutions keystore hash nHashType (push_opcode OP_0 [])
               in Some (b, sigRet, whichType)))"

definition set_sig :: "CTransaction \<Rightarrow> nat \<Rightarrow> script \<Rightarrow> CTransaction" where
  "set_sig tx nIn sig = tx\<lparr>vin := (vin tx)[nIn := (vin tx ! nIn)\<lparr>scriptSig := sig\<rparr>]\<rparr>"

definition verifies ::
  "('sig, 'pk, 'key, 'e) sign_env_scheme \<Rightarrow> CTransaction \<Rightarrow> nat \<Rightarrow> script \<Rightarrow> script \<Rightarrow> bool" where
  "verifies V txTo nIn sig fromPubKey \<longleftrightarrow>
     VerifyScript (checker_env V txTo nIn) STANDARD_SCRIPT_VERIFY_FLAGS sig fromPubKey = Some (Inr ())"

definition SignSignature ::
  "('sig, 'pk, 'key, 'e) sign_env_scheme \<Rightarrow> 'key CBasicKeyStore \<Rightarrow> script \<Rightarrow> CTransaction \<Rightarrow> nat \<Rightarrow> uint32 \<Rightarrow>
     (bool \<times> CTransaction) option" where
  "SignSignature V keystore fromPubKey txTo nIn nHashType =
     (if \<not> nIn < length (vin txTo) then None
      else
        let hash = SignatureHash (Hash256 V) fromPubKey txTo nIn nHashType
        in Option.bind (SolverSign V keystore fromPubKey hash nHashType) (\<lambda>(ok, sig, whichType).
             if \<not> ok then Some (False, set_sig txTo nIn sig)
             else if whichType = TX_SCRIPTHASH then
               (let subscript = sig; txTo = set_sig txTo nIn sig;
                    hash2 = SignatureHash (Hash256 V) subscript txTo nIn nHashType
                in Option.bind (SolverSign V keystore subscript hash2 nHashType) (\<lambda>(ok2, sig2, subType).
                     let fSolved = ok2 \<and> subType \<noteq> TX_SCRIPTHASH;
                         sig = push_data subscript sig2;
                         txTo = set_sig txTo nIn sig
                     in if \<not> fSolved then Some (False, txTo)
                        else Some (verifies V txTo nIn sig fromPubKey, txTo)))
             else (let txTo = set_sig txTo nIn sig in Some (verifies V txTo nIn sig fromPubKey, txTo))))"

text \<open>The output is looked up in the transaction it comes from.\<close>

definition SignSignature_from ::
  "('sig, 'pk, 'key, 'e) sign_env_scheme \<Rightarrow> 'key CBasicKeyStore \<Rightarrow> CTransaction \<Rightarrow> CTransaction \<Rightarrow> nat \<Rightarrow> uint32 \<Rightarrow>
     (bool \<times> CTransaction) option" where
  "SignSignature_from V keystore txFrom txTo nIn nHashType =
     (if \<not> nIn < length (vin txTo) then None
      else if \<not> unat (op_n (prevout (vin txTo ! nIn))) < length (vout txFrom) then None
      else SignSignature V keystore
             (scriptPubKey (vout txFrom ! unat (op_n (prevout (vin txTo ! nIn))))) txTo nIn nHashType)"

section \<open>Ownership\<close>

datatype isminetype = ISMINE_NO | ISMINE_WATCH_ONLY | ISMINE_SPENDABLE | ISMINE_ALL

definition HaveKeys :: "(bytes \<Rightarrow> uint160) \<Rightarrow> bytes list \<Rightarrow> 'key CBasicKeyStore \<Rightarrow> nat" where
  "HaveKeys H160 pubkeys keystore =
     foldl (\<lambda>nResult pubkey. if HaveKey keystore (pk_GetID H160 (mk_pubkey pubkey)) then nResult + 1 else nResult)
       0 pubkeys"

definition not_mine :: "'key CBasicKeyStore \<Rightarrow> script \<Rightarrow> isminetype" where
  "not_mine keystore s = (if HaveWatchOnly keystore s then ISMINE_WATCH_ONLY else ISMINE_NO)"

text \<open>A cycle of scripts in the store would recurse without end; \<open>None\<close> is that.\<close>

partial_function (option) IsMine ::
  "(bytes \<Rightarrow> uint160) \<Rightarrow> 'key CBasicKeyStore \<Rightarrow> script \<Rightarrow> isminetype option" where
  "IsMine H160 keystore s =
     (case Solver s of
        (ok, whichType, vSolutions) \<Rightarrow>
          if \<not> ok then Some (not_mine keystore s)
          else if whichType = TX_PUBKEY then
            Some (if HaveKey keystore (pk_GetID H160 (mk_pubkey (vSolutions ! 0))) then ISMINE_SPENDABLE
                  else not_mine keystore s)
          else if whichType = TX_PUBKEYHASH then
            Some (if HaveKey keystore (uint160_of (vSolutions ! 0)) then ISMINE_SPENDABLE
                  else not_mine keystore s)
          else if whichType = TX_SCRIPTHASH then
            (case GetCScript keystore (uint160_of (vSolutions ! 0)) of
               None \<Rightarrow> Some (not_mine keystore s)
             | Some subscript \<Rightarrow>
                 Option.bind (IsMine H160 keystore subscript) (\<lambda>ret.
                   Some (if ret = ISMINE_SPENDABLE then ret else not_mine keystore s)))
          else if whichType = TX_MULTISIG then
            (let keys = butlast (tl vSolutions)
             in Some (if HaveKeys H160 keys keystore = length keys then ISMINE_SPENDABLE
                      else not_mine keystore s))
          else Some (not_mine keystore s))"

definition IsMine_dest ::
  "(bytes \<Rightarrow> uint160) \<Rightarrow> 'key CBasicKeyStore \<Rightarrow> 'st CTxDestination \<Rightarrow> isminetype option" where
  "IsMine_dest H160 keystore dest = IsMine H160 keystore (snd (SetDestination dest))"

section \<open>What ownership means\<close>

text \<open>The keys and scripts of the store satisfy the script.\<close>

inductive owns :: "(bytes \<Rightarrow> uint160) \<Rightarrow> 'key CBasicKeyStore \<Rightarrow> script \<Rightarrow> bool" for H160 keystore where
  own_key: "Solver s = (True, TX_PUBKEY, [k]) \<Longrightarrow> HaveKey keystore (pk_GetID H160 (mk_pubkey k)) \<Longrightarrow>
    owns H160 keystore s"
| own_hash: "Solver s = (True, TX_PUBKEYHASH, [h]) \<Longrightarrow> HaveKey keystore (uint160_of h) \<Longrightarrow>
    owns H160 keystore s"
| own_script: "Solver s = (True, TX_SCRIPTHASH, [h]) \<Longrightarrow> GetCScript keystore (uint160_of h) = Some sub \<Longrightarrow>
    owns H160 keystore sub \<Longrightarrow> owns H160 keystore s"
| own_multisig: "Solver s = (True, TX_MULTISIG, m # keys @ [n]) \<Longrightarrow>
    list_all (\<lambda>k. HaveKey keystore (pk_GetID H160 (mk_pubkey k))) keys \<Longrightarrow> owns H160 keystore s"

inductive_cases ownsE: "owns H160 keystore s"

text \<open>No script of the store leads back to itself: a rank on hashes decreases.\<close>

definition acyclic_scripts :: "(uint160 \<Rightarrow> nat) \<Rightarrow> 'key CBasicKeyStore \<Rightarrow> bool" where
  "acyclic_scripts rank keystore \<longleftrightarrow>
     (\<forall>h sub x. GetCScript keystore h = Some sub \<and> Solver sub = (True, TX_SCRIPTHASH, [x]) \<longrightarrow>
        rank (uint160_of x) < rank h)"

lemma HaveKeys_le: "HaveKeys H160 keys ks \<le> length keys"
  "HaveKeys H160 keys ks = length keys \<longleftrightarrow> list_all (\<lambda>k. HaveKey ks (pk_GetID H160 (mk_pubkey k))) keys"
proof -
  let ?f = "\<lambda>n pubkey. if HaveKey ks (pk_GetID H160 (mk_pubkey pubkey)) then n + 1 else (n :: nat)"
  have le: "foldl ?f n keys \<le> n + length keys" for n keys
  proof (induction keys arbitrary: n)
    case (Cons k keys)
    show ?case using Cons.IH[of n] Cons.IH[of "n + 1"] by simp
  qed simp
  have eq: "foldl ?f n keys = n + length keys \<longleftrightarrow> list_all (\<lambda>k. HaveKey ks (pk_GetID H160 (mk_pubkey k))) keys" for n keys
  proof (induction keys arbitrary: n)
    case (Cons k keys)
    show ?case using Cons.IH[of "n + 1"] le[of n keys] by auto
  qed simp
  show "HaveKeys H160 keys ks \<le> length keys"
    "HaveKeys H160 keys ks = length keys \<longleftrightarrow> list_all (\<lambda>k. HaveKey ks (pk_GetID H160 (mk_pubkey k))) keys"
    using le[of 0 keys] eq[of 0 keys] by (simp_all add: HaveKeys_def)
qed

lemma not_mine_cases [simp]: "not_mine ks s \<noteq> ISMINE_SPENDABLE"
  by (simp add: not_mine_def)

definition mine_result :: "'key CBasicKeyStore \<Rightarrow> bool \<Rightarrow> script \<Rightarrow> isminetype" where
  "mine_result ks own s = (if own then ISMINE_SPENDABLE else not_mine ks s)"

text \<open>One unfolding, for each kind of script but the one that recurses.\<close>

lemma IsMine_flat:
  assumes "Solver s = (ok, t, v)" "ok \<longrightarrow> t \<noteq> TX_SCRIPTHASH"
  shows "IsMine H160 ks s = Some (mine_result ks (owns H160 ks s) s)"
proof (cases ok)
  case False
  then have "\<not> owns H160 ks s" using assms(1) by (auto elim: ownsE)
  then show ?thesis using assms False by (subst IsMine.simps) (simp add: mine_result_def)
next
  case True
  have sol: "solutions_ok t v" using Solver_solutions assms(1) True by simp
  show ?thesis
  proof (cases t)
    case TX_NONSTANDARD
    then show ?thesis using sol by simp
  next
    case TX_PUBKEY
    then obtain k where v: "v = [k]" using sol by (cases v) auto
    have "owns H160 ks s \<longleftrightarrow> HaveKey ks (pk_GetID H160 (mk_pubkey k))"
      using assms(1) True TX_PUBKEY v by (auto elim: ownsE intro: own_key)
    then show ?thesis using assms True TX_PUBKEY v by (subst IsMine.simps) (simp add: mine_result_def)
  next
    case TX_PUBKEYHASH
    then obtain h where v: "v = [h]" using sol by (cases v) auto
    have "owns H160 ks s \<longleftrightarrow> HaveKey ks (uint160_of h)"
      using assms(1) True TX_PUBKEYHASH v by (auto elim: ownsE intro: own_hash)
    then show ?thesis using assms True TX_PUBKEYHASH v by (subst IsMine.simps) (simp add: mine_result_def)
  next
    case TX_SCRIPTHASH
    then show ?thesis using assms(2) True by simp
  next
    case TX_MULTISIG
    then obtain m keys n where v: "v = m # keys @ [n]"
      using sol by (cases v; cases "tl v" rule: rev_cases) auto
    have "owns H160 ks s \<longleftrightarrow> list_all (\<lambda>k. HaveKey ks (pk_GetID H160 (mk_pubkey k))) keys"
      using assms(1) True TX_MULTISIG v by (auto elim: ownsE intro: own_multisig)
    then show ?thesis using assms True TX_MULTISIG v
      by (subst IsMine.simps) (simp add: mine_result_def HaveKeys_le(2))
  next
    case TX_NULL_DATA
    then have "\<not> owns H160 ks s" using assms(1) by (auto elim: ownsE)
    then show ?thesis using assms True TX_NULL_DATA by (subst IsMine.simps) (simp add: mine_result_def)
  qed
qed

lemma IsMine_script:
  assumes "Solver s = (True, TX_SCRIPTHASH, [h])"
  shows "IsMine H160 ks s =
    (case GetCScript ks (uint160_of h) of
       None \<Rightarrow> Some (not_mine ks s)
     | Some sub \<Rightarrow> Option.bind (IsMine H160 ks sub) (\<lambda>ret.
         Some (if ret = ISMINE_SPENDABLE then ret else not_mine ks s)))"
  by (subst IsMine.simps) (simp add: assms)

lemma IsMine_total:
  assumes "acyclic_scripts rank ks"
  shows "IsMine H160 ks s = Some (mine_result ks (owns H160 ks s) s)"
proof (induction "case Solver s of (ok, t, v) \<Rightarrow> rank (uint160_of (v ! 0))" arbitrary: s rule: less_induct)
  case less
  obtain ok t v where so: "Solver s = (ok, t, v)" by (cases "Solver s") auto
  show ?case
  proof (cases "ok \<and> t = TX_SCRIPTHASH")
    case False
    then show ?thesis using IsMine_flat[OF so] by blast
  next
    case True
    then obtain h where sh: "Solver s = (True, TX_SCRIPTHASH, [h])"
      using so Solver_solutions[of s t v] by (cases v) auto
    show ?thesis
    proof (cases "GetCScript ks (uint160_of h)")
      case None
      then have "\<not> owns H160 ks s" using sh by (auto elim: ownsE)
      then show ?thesis using None by (simp add: IsMine_script[OF sh] mine_result_def)
    next
      case (Some sub)
      have own: "owns H160 ks s \<longleftrightarrow> owns H160 ks sub"
        using sh Some by (auto elim: ownsE[of H160 ks s] intro: own_script)
      have "IsMine H160 ks sub = Some (mine_result ks (owns H160 ks sub) sub)"
      proof (cases "\<exists>x. Solver sub = (True, TX_SCRIPTHASH, [x])")
        case True
        then obtain x where x: "Solver sub = (True, TX_SCRIPTHASH, [x])" by blast
        then have "rank (uint160_of x) < rank (uint160_of h)"
          using assms Some by (auto simp: acyclic_scripts_def)
        then show ?thesis using less[of sub] x sh by simp
      next
        case False
        obtain ok' t' v' where so': "Solver sub = (ok', t', v')" by (cases "Solver sub") auto
        have "ok' \<longrightarrow> t' \<noteq> TX_SCRIPTHASH"
          using False so' Solver_solutions[of sub t' v'] by (cases v') auto
        then show ?thesis by (rule IsMine_flat[OF so'])
      qed
      then show ?thesis using Some own by (simp add: IsMine_script[OF sh] mine_result_def)
    qed
  qed
qed

section \<open>A signature made with the key of an address verifies\<close>

text \<open>
  What the code relies on: the public key of a valid secret key is one, its signatures are strict DER
  (libsecp256k1 serialises them so) and verify under that key.
\<close>

definition sign_documented :: "('sig, 'pk, 'key, 'e) sign_env_scheme \<Rightarrow> bool" where
  "sign_documented V \<longleftrightarrow>
     (\<forall>key hash sig. KeySign V key hash = Some sig \<longrightarrow>
        key_ok (KeyPub V key) \<and> (KeyPub V key) ! 0 \<in> {2, 3, 4} \<and>
        (\<forall>b. IsDERSignature (sig @ [b]) True) \<and> pk_Verify V (KeyPub V key) hash sig)"

lemma signed_part_set_sig:
  assumes "nIn < length (vin tx)"
  shows "signed_part (set_sig tx nIn sig) n t = signed_part tx n t"
proof -
  let ?is = "(vin tx)[nIn := (vin tx ! nIn)\<lparr>scriptSig := sig\<rparr>]"
  have at: "prevout (?is ! k) = prevout (vin tx ! k)" "nSequence (?is ! k) = nSequence (vin tx ! k)" for k
    by (cases "k = nIn"; use assms in simp)+
  then have ref: "input_ref (?is ! k) = input_ref (vin tx ! k)" for k by (simp add: input_ref_def)
  have "map input_ref ?is = map input_ref (vin tx)"
    by (rule nth_equalityI) (simp_all add: ref)
  then show ?thesis
    by (simp add: signed_part_def signed_refs_def signed_outs_def set_sig_def at ref)
qed

lemma SignatureHash_set_sig:
  assumes "nIn < length (vin tx)"
  shows "SignatureHash H c (set_sig tx nIn sig) nIn t = SignatureHash H c tx nIn t"
proof -
  have "nIn < length (vin (set_sig tx nIn sig))" using assms by (simp add: set_sig_def)
  then show ?thesis
    by (simp add: SignatureHash_def preimage_view[OF assms] preimage_view signed_part_set_sig[OF assms])
qed

lemma checker_env_simps [simp]:
  "CheckSig (checker_env V tx n) = SignatureChecker_CheckSig V tx n"
  "HASH160 (checker_env V tx n) = (\<lambda>b. word_bytes 20 (Hash160 V b))"
  by (simp_all add: checker_env_def)

lemma pk_Raw_encoding:
  assumes "key_ok p" "p ! 0 \<in> {2, 3, 4}"
  shows "IsCompressedOrUncompressedPubKey (pk_Raw p)" "pubkey_bytes (pk_Raw p)" "length (pk_Raw p) \<le> 65"
    "mk_pubkey (pk_Raw p) ! 0 = p ! 0" "pk_Raw (mk_pubkey (pk_Raw p)) = pk_Raw p"
proof -
  obtain b bs where p: "p = b # bs" using assms(1) by (cases p) (auto simp: key_ok_def wf_pubkey_def)
  have l: "length bs = 64" using assms(1) p by (simp add: key_ok_def wf_pubkey_def)
  show "IsCompressedOrUncompressedPubKey (pk_Raw p)"
    using assms(2) l p by (auto simp: IsCompressedOrUncompressedPubKey_def pk_Raw_def pk_size_def pk_GetLen_def)
  show b: "pubkey_bytes (pk_Raw p)" using assms(1) pk_valid_Raw by (auto simp: key_ok_def)
  show "length (pk_Raw p) \<le> 65" using key_ok_length[OF assms(1)] by auto
  show "mk_pubkey (pk_Raw p) ! 0 = p ! 0"
    using b p assms(2) l by (auto simp: mk_pubkey_def pk_Set_def Let_def pubkey_bytes_def pk_Raw_def pk_size_def
        pk_GetLen_def)
  show "pk_Raw (mk_pubkey (pk_Raw p)) = pk_Raw p" using b by (simp add: pk_Raw_mk)
qed

lemma standard_flags:
  "STANDARD_SCRIPT_VERIFY_FLAGS AND SCRIPT_VERIFY_MINIMALDATA = 0"
  "STANDARD_SCRIPT_VERIFY_FLAGS AND SCRIPT_VERIFY_LOW_S = 0"
  "STANDARD_SCRIPT_VERIFY_FLAGS AND SCRIPT_VERIFY_P2SH = 0"
  by (simp_all add: STANDARD_SCRIPT_VERIFY_FLAGS_def MANDATORY_SCRIPT_VERIFY_FLAGS_def SCRIPT_VERIFY_NONE_def
      SCRIPT_VERIFY_STRICTENC_def SCRIPT_VERIFY_NULLDUMMY_def SCRIPT_VERIFY_DISCOURAGE_UPGRADABLE_NOPS_def
      SCRIPT_VERIFY_MINIMALDATA_def SCRIPT_VERIFY_LOW_S_def SCRIPT_VERIFY_P2SH_def)

lemma der_length_le: "IsDERSignature v True \<Longrightarrow> length v \<le> 73"
  by (auto simp: IsDERSignature_def split: if_splits)

lemma push_pubkey_data: "key_ok p \<Longrightarrow> push_pubkey p s = Some (push_data (pk_Raw p) s)"
  using key_ok_length[of p] by (auto simp: push_pubkey_def push_data_def)

definition plain_hash_type :: "uint32 \<Rightarrow> bool" where
  "plain_hash_type t \<longleftrightarrow> t \<in> {1, 2, 3, 0x81, 0x82, 0x83}"

lemma plain_hash_type_byte:
  assumes "plain_hash_type t"
  shows "ucast (ucast t :: byte) = t" "IsDefinedHashtypeSignature (v @ [ucast t])" "t \<noteq> 0"
  using assms by (auto simp: plain_hash_type_def IsDefinedHashtypeSignature_def Let_def)

lemma sign_p2pkh:
  assumes doc: "sign_documented V" and n: "nIn < length (vin txTo)"
    and key: "GetKey keystore a = Some key" "Hash160 V (pk_Raw (KeyPub V key)) = a"
    and sig: "KeySign V key (SignatureHash (Hash256 V) (p2pkh (word_bytes 20 a)) txTo nIn t) = Some sig"
    and t: "plain_hash_type t" and l: "length sig \<noteq> 19"
  shows "SignSignature V keystore (p2pkh (word_bytes 20 a)) txTo nIn t =
    Some (True, set_sig txTo nIn (push_data (pk_Raw (KeyPub V key)) (push_data (sig @ [ucast t]) [])))"
proof -
  let ?h = "word_bytes 20 a" and ?p = "KeyPub V key" and ?s = "sig @ [ucast t]"
  let ?in = "push_data (pk_Raw ?p) (push_data ?s [])"
  let ?tx = "set_sig txTo nIn ?in"
  have p: "key_ok ?p" "?p ! 0 \<in> {2, 3, 4}" and der: "IsDERSignature ?s True"
    and ver: "pk_Verify V ?p (SignatureHash (Hash256 V) (p2pkh ?h) txTo nIn t) sig"
    using doc sig unfolding sign_documented_def by blast+
  note raw = pk_Raw_encoding[OF p]
  have solve: "SolverSign V keystore (p2pkh ?h) (SignatureHash (Hash256 V) (p2pkh ?h) txTo nIn t) t =
      Some (True, ?in, TX_PUBKEYHASH)"
    using key sig push_pubkey_data[OF p(1)]
    by (simp add: SolverSign_def Solver_p2pkh uint160_of_bytes Sign1_def CKeyStore_GetPubKey_def)
  have sh: "SignatureHash (Hash256 V) (p2pkh ?h) ?tx nIn t = SignatureHash (Hash256 V) (p2pkh ?h) txTo nIn t"
    by (rule SignatureHash_set_sig[OF n])
  have "pk_Verify V (mk_pubkey (pk_Raw ?p)) (SignatureHash (Hash256 V) (p2pkh ?h) txTo nIn t) sig"
    using ver pk_Verify_Raw[of "mk_pubkey (pk_Raw ?p)" ?p V] raw(4,5) by metis
  then have chk: "SignatureChecker_CheckSig V ?tx nIn ?s (pk_Raw ?p) (p2pkh ?h)"
    using raw(2) sh plain_hash_type_byte(1)[OF t]
    by (simp add: SignatureChecker_CheckSig_def pk_IsValid_mk)
  have len: "length ?s \<le> MAX_SCRIPT_ELEMENT_SIZE" "length (pk_Raw ?p) \<le> MAX_SCRIPT_ELEMENT_SIZE"
    using der_length_le[OF der] raw(3) by (simp_all add: MAX_SCRIPT_ELEMENT_SIZE_def)
  have neq: "?s \<noteq> ?h" using l by (auto dest: arg_cong[of _ _ length])
  have "verifies V ?tx nIn ?in (p2pkh ?h)"
    unfolding verifies_def
    using p2pkh_spend[OF len _ neq standard_flags(1), of "checker_env V ?tx nIn"] key(2) chk raw(1)
      standard_flags(2) der plain_hash_type_byte(2)[OF t]
    by (simp add: CheckSignatureEncoding2_def CheckPubKeyEncoding2_def)
  then show ?thesis using n by (simp add: SignSignature_def solve Let_def)
qed

section \<open>Properties\<close>

text \<open> C17.
  Signing for an address whose key is in the store succeeds: \<open>SignSignature\<close> fills in the signature
  and the public key, and its own test of the result, the flag-driven \<open>VerifyScript\<close> on the signed
  transaction, accepts.
\<close>

theorem signed_input_verifies:
  assumes "sign_documented V" "nIn < length (vin txTo)" "GetKey keystore a = Some key"
    and "Hash160 V (pk_Raw (KeyPub V key)) = a"
    and "KeySign V key (SignatureHash (Hash256 V) (p2pkh (word_bytes 20 a)) txTo nIn t) = Some sig"
    and "plain_hash_type t" "length sig \<noteq> 19"
  shows "SignSignature V keystore (p2pkh (word_bytes 20 a)) txTo nIn t =
    Some (True, set_sig txTo nIn (push_data (pk_Raw (KeyPub V key)) (push_data (sig @ [ucast t]) [])))"
  by (rule sign_p2pkh[OF assms])

text \<open>One key, whose signatures are all the same.\<close>

definition demo_env :: "(bytes, bytes, unit) sign_env" where
  "demo_env = \<lparr>parse_compact = \<lambda>b. (b, True), sig_normalize = \<lambda>s. (s, False),
     ec_pubkey_parse = Some, ecdsa_verify = \<lambda>s h p. True, Hash256 = \<lambda>b. 0, maxsigcachesize = 1,
     RandHash = \<lambda>i. 0, KeyPub = \<lambda>k. 2 # replicate 64 9, KeySign = \<lambda>k h. Some [0x30, 6, 2, 1, 5, 2, 1, 7],
     Hash160 = \<lambda>b. 77, script_hashes = no_crypto\<rparr>"

lemma demo_documented: "sign_documented demo_env"
proof -
  have d: "IsDERSignature ([0x30, 6, 2, 1, 5, 2, 1, 7] @ [b]) True" for b
    using IsDERSignature_der[of "[5]" "[7]" b]
    by (simp add: der_signature_def der_integer_def)
  have v: "pk_Verify demo_env (2 # replicate 64 9) h [0x30, 6, 2, 1, 5, 2, 1, 7]" for h
  proof -
    have "ecdsa_signature_parse_der_lax demo_env [0x30, 6, 2, 1, 5, 2, 1, 7] \<noteq> Inl e" for e
      using parse_strict[of "[5]" "[7]" demo_env] by (simp add: der_body_def)
    then show ?thesis
      by (cases "ecdsa_signature_parse_der_lax demo_env [0x30, 6, 2, 1, 5, 2, 1, 7]")
        (simp_all add: pk_Verify_def pk_IsValid_def pk_size_def pk_GetLen_def demo_env_def)
  qed
  show ?thesis
    using d v by (simp add: sign_documented_def demo_env_def key_ok_def wf_pubkey_def pk_IsValid_def
        pk_size_def pk_GetLen_def)
qed

lemma signed_input_verifies_witness:
  "\<exists>tx. SignSignature demo_env (empty_store\<lparr>mapKeys := [77 \<mapsto> ()]\<rparr>) (p2pkh (word_bytes 20 (77 :: uint160))) (sample_tx 7) 0 1 =
     Some (True, tx)"
  using signed_input_verifies[OF demo_documented, of 0 "sample_tx 7" "empty_store\<lparr>mapKeys := [77 \<mapsto> ()]\<rparr>" 77 "()" 1
      "[0x30, 6, 2, 1, 5, 2, 1, 7]"]
  by (simp add: sample_tx_def GetKey_def demo_env_def plain_hash_type_def)

text \<open>
  Ownership of a script: when the scripts of the store do not lead back to themselves, \<open>IsMine\<close>
  returns, and it answers spendable exactly when the keys and scripts of the store satisfy the
  script (all keys, for a multiple signature), and watch-only exactly when they do not and the script
  is watched.
\<close>

theorem is_mine_spendable:
  assumes "acyclic_scripts rank keystore"
  shows "\<exists>r. IsMine H160 keystore s = Some r \<and> (r = ISMINE_SPENDABLE \<longleftrightarrow> owns H160 keystore s) \<and>
    (r = ISMINE_WATCH_ONLY \<longleftrightarrow> \<not> owns H160 keystore s \<and> HaveWatchOnly keystore s)"
  by (simp add: IsMine_total[OF assms] mine_result_def not_mine_def)

lemma is_mine_spendable_witness:
  "IsMine (\<lambda>b. 77) (empty_store\<lparr>mapKeys := [77 \<mapsto> ()]\<rparr>) (p2pkh (word_bytes 20 (77 :: uint160))) = Some ISMINE_SPENDABLE"
proof -
  let ?ks = "empty_store\<lparr>mapKeys := [77 \<mapsto> ()]\<rparr>"
  have "Solver (p2pkh (word_bytes 20 (77 :: uint160))) = (True, TX_PUBKEYHASH, [word_bytes 20 (77 :: uint160)])"
    by (rule Solver_p2pkh) simp
  then have "owns (\<lambda>b. 77) ?ks (p2pkh (word_bytes 20 (77 :: uint160)))"
    by (rule own_hash) (simp only: uint160_of_bytes HaveKey_def, simp)
  moreover have "acyclic_scripts (\<lambda>h. 0) ?ks" by (simp add: acyclic_scripts_def GetCScript_def empty_store_def)
  ultimately show ?thesis using is_mine_spendable[of "\<lambda>h. 0" ?ks "\<lambda>b. 77" "p2pkh (word_bytes 20 (77 :: uint160))"] by auto
qed

end
