(* ===== verification/AffectedKeys.thy ===== *)
theory AffectedKeys
  imports KeyStore
begin

text \<open>
  The keys a script concerns: \<open>CAffectedKeysVisitor\<close> and \<open>ExtractAffectedKeys\<close> of
  \<open>src/src/script.cpp\<close>, and the visitor \<open>CKeyStoreIsMineVisitor\<close>.
\<close>

section \<open>The visitors\<close>

definition ec_secret_size :: nat where "ec_secret_size = 32"

fun KeyStoreIsMine_visit :: "('st \<Rightarrow> bytes) \<Rightarrow> 'key CBasicKeyStore \<Rightarrow> 'st CTxDestination \<Rightarrow> bool" where
  "KeyStoreIsMine_visit scan_secret keystore CNoDestination = False"
| "KeyStoreIsMine_visit scan_secret keystore (CKeyID keyID) = HaveKey keystore keyID"
| "KeyStoreIsMine_visit scan_secret keystore (CScriptID scriptID) = HaveCScript keystore scriptID"
| "KeyStoreIsMine_visit scan_secret keystore (CStealthAddress stxAddr) =
     (length (scan_secret stxAddr) = ec_secret_size)"

text \<open>
  The visits of a list of destinations.  A cycle of scripts in the store would recurse without end;
  \<open>None\<close> is that.
\<close>

partial_function (option) affected_visits ::
  "(bytes \<Rightarrow> uint160) \<Rightarrow> 'key CBasicKeyStore \<Rightarrow> 'st CTxDestination list \<Rightarrow> uint160 list \<Rightarrow> uint160 list option" where
  "affected_visits H160 keystore vDest vKeys =
     (case vDest of
        [] \<Rightarrow> Some vKeys
      | dest # vDest \<Rightarrow>
          (case dest of
             CNoDestination \<Rightarrow> affected_visits H160 keystore vDest vKeys
           | CKeyID keyId \<Rightarrow>
               affected_visits H160 keystore vDest (if HaveKey keystore keyId then vKeys @ [keyId] else vKeys)
           | CScriptID scriptId \<Rightarrow>
               (case GetCScript keystore scriptId of
                  None \<Rightarrow> affected_visits H160 keystore vDest vKeys
                | Some script \<Rightarrow>
                    (case ExtractDestinations H160 script of
                       None \<Rightarrow> affected_visits H160 keystore vDest vKeys
                     | Some (type, subDest, nRequired) \<Rightarrow>
                         Option.bind (affected_visits H160 keystore subDest vKeys)
                           (affected_visits H160 keystore vDest)))
           | CStealthAddress stxAddr \<Rightarrow> affected_visits H160 keystore vDest vKeys))"

text \<open>No script stands for a stealth address, so their type does not matter here.\<close>

definition ExtractAffectedKeys ::
  "(bytes \<Rightarrow> uint160) \<Rightarrow> 'key CBasicKeyStore \<Rightarrow> script \<Rightarrow> uint160 list \<Rightarrow> uint160 list option" where
  "ExtractAffectedKeys H160 keystore s vKeys =
     (case (ExtractDestinations H160 s :: (_ \<times> unit CTxDestination list \<times> _) option) of
        None \<Rightarrow> Some vKeys
      | Some (type, vDest, nRequired) \<Rightarrow> affected_visits H160 keystore vDest vKeys)"

section \<open>What they collect\<close>

text \<open>The keys of the store a script names, itself or through a script of the store.\<close>

inductive names_key :: "(bytes \<Rightarrow> uint160) \<Rightarrow> 'key CBasicKeyStore \<Rightarrow> script \<Rightarrow> uint160 \<Rightarrow> bool"
  for H160 keystore where
  name_key: "Solver s = (True, TX_PUBKEY, [k]) \<Longrightarrow> a = pk_GetID H160 (mk_pubkey k) \<Longrightarrow> HaveKey keystore a \<Longrightarrow>
    names_key H160 keystore s a"
| name_hash: "Solver s = (True, TX_PUBKEYHASH, [h]) \<Longrightarrow> a = uint160_of h \<Longrightarrow> HaveKey keystore a \<Longrightarrow>
    names_key H160 keystore s a"
| name_multisig: "Solver s = (True, TX_MULTISIG, m # keys @ [n]) \<Longrightarrow>
    a \<in> (\<lambda>k. pk_GetID H160 (mk_pubkey k)) ` set keys \<Longrightarrow> HaveKey keystore a \<Longrightarrow> names_key H160 keystore s a"
| name_script: "Solver s = (True, TX_SCRIPTHASH, [h]) \<Longrightarrow> GetCScript keystore (uint160_of h) = Some sub \<Longrightarrow>
    names_key H160 keystore sub a \<Longrightarrow> names_key H160 keystore s a"

inductive_cases names_keyE: "names_key H160 keystore s a"
inductive_simps names_key_iff: "names_key H160 keystore s a"
inductive_simps owns_iff: "owns H160 keystore s"

text \<open>The destinations of a script are key hashes, or one script hash.\<close>

lemma multisig_split:
  assumes "solutions_ok TX_MULTISIG v"
  obtains m keys n where "v = m # keys @ [n]" "keys \<noteq> []"
proof -
  obtain m r where v: "v = m # r" "length r \<ge> 2" using assms by (cases v) auto
  then have r: "r = butlast r @ [last r]" by (intro append_butlast_last_id[symmetric]) auto
  have "butlast r \<noteq> []" using v(2) by (metis length_butlast length_0_conv diff_is_0_eq not_less_eq_eq One_nat_def numeral_2_eq_2)
  then show ?thesis using that[of m "butlast r" "last r"] v r by simp
qed

lemma middle_map: "map (\<lambda>i. f ((m # keys @ [n]) ! i)) [1..<length (m # keys @ [n]) - 1] = map f keys"
  by (rule nth_equalityI) (simp_all add: nth_append del: upt_Suc)

lemma ExtractDestinations_cases:
  fixes ds :: "'st CTxDestination list"
  assumes "ExtractDestinations H160 s = Some (t, ds, n)"
  obtains k where "Solver s = (True, TX_PUBKEY, [k])" "ds = [CKeyID (pk_GetID H160 (mk_pubkey k))]"
  | h where "Solver s = (True, TX_PUBKEYHASH, [h])" "ds = [CKeyID (uint160_of h)]"
  | h where "Solver s = (True, TX_SCRIPTHASH, [h])" "ds = [CScriptID (uint160_of h)]"
  | m keys e where "Solver s = (True, TX_MULTISIG, m # keys @ [e])" "keys \<noteq> []"
      "ds = map (\<lambda>k. CKeyID (pk_GetID H160 (mk_pubkey k))) keys"
proof -
  obtain ok t' v where so: "Solver s = (ok, t', v)" by (cases "Solver s") auto
  have ok: ok using assms by (simp add: ExtractDestinations_def so split: if_splits)
  have sol: "solutions_ok t' v" using Solver_solutions so ok by simp
  show ?thesis
  proof (cases t')
    case TX_PUBKEY
    then obtain k where "v = [k]" using sol by (cases v) auto
    then show ?thesis using assms that(1) so ok TX_PUBKEY
      by (simp add: ExtractDestinations_def ExtractDestination_def)
  next
    case TX_PUBKEYHASH
    then obtain h where "v = [h]" using sol by (cases v) auto
    then show ?thesis using assms that(2) so ok TX_PUBKEYHASH
      by (simp add: ExtractDestinations_def ExtractDestination_def)
  next
    case TX_SCRIPTHASH
    then obtain h where "v = [h]" using sol by (cases v) auto
    then show ?thesis using assms that(3) so ok TX_SCRIPTHASH
      by (simp add: ExtractDestinations_def ExtractDestination_def)
  next
    case TX_MULTISIG
    then obtain m keys e where v: "v = m # keys @ [e]" "keys \<noteq> []" using multisig_split sol by blast
    have "ds = map (\<lambda>k. CKeyID (pk_GetID H160 (mk_pubkey k))) keys"
      using assms middle_map[of "\<lambda>k. CKeyID (pk_GetID H160 (mk_pubkey k)) :: 'st CTxDestination" m keys e]
      by (simp add: ExtractDestinations_def so ok TX_MULTISIG v(1) del: upt_Suc)
    then show ?thesis using that(4) so ok TX_MULTISIG v by simp
  qed (use assms so ok sol in \<open>simp_all add: ExtractDestinations_def ExtractDestination_def\<close>)
qed

lemma ExtractDestinations_None:
  assumes "ExtractDestinations H160 s = (None :: (_ \<times> 'st CTxDestination list \<times> _) option)"
  shows "\<not> names_key H160 (keystore :: 'key CBasicKeyStore) s a" "\<not> owns H160 keystore s"
proof -
  have "\<not> (\<exists>t v. Solver s = (True, t, v) \<and> t \<noteq> TX_NULL_DATA)"
  proof
    assume "\<exists>t v. Solver s = (True, t, v) \<and> t \<noteq> TX_NULL_DATA"
    then obtain t v where "Solver s = (True, t, v)" "t \<noteq> TX_NULL_DATA" by blast
    moreover from this have "solutions_ok t v" by (intro Solver_solutions)
    ultimately show False using assms
      by (cases t) (simp_all add: ExtractDestinations_def ExtractDestination_def)
  qed
  then show "\<not> names_key H160 keystore s a" "\<not> owns H160 keystore s"
    by (auto elim: names_keyE ownsE)
qed

text \<open>Key hashes are collected one after the other.\<close>

lemma affected_keys:
  "affected_visits H160 ks (map (\<lambda>k. CKeyID (f k)) keys) v = Some (v @ filter (HaveKey ks) (map f keys))"
proof (induction keys arbitrary: v)
  case Nil
  show ?case by (subst affected_visits.simps) simp
next
  case (Cons k keys)
  show ?case by (subst affected_visits.simps) (simp add: Cons.IH)
qed

lemma affected_script:
  "affected_visits H160 ks [CScriptID h :: 'st CTxDestination] v =
     (case GetCScript ks h of
        None \<Rightarrow> Some v
      | Some script \<Rightarrow>
          (case ExtractDestinations H160 script :: (_ \<times> 'st CTxDestination list \<times> _) option of
             None \<Rightarrow> Some v | Some (t, ds, n) \<Rightarrow> affected_visits H160 ks ds v))"
proof -
  have n: "affected_visits H160 ks ([] :: 'st CTxDestination list) = Some"
    by (rule ext, subst affected_visits.simps) simp
  show ?thesis
    by (subst affected_visits.simps) (auto simp: n split: option.split)
qed

definition collects :: "(bytes \<Rightarrow> uint160) \<Rightarrow> 'key CBasicKeyStore \<Rightarrow> script \<Rightarrow> uint160 list \<Rightarrow> uint160 list option \<Rightarrow> bool" where
  "collects H160 ks s v r \<longleftrightarrow>
     (\<exists>keys. r = Some (v @ keys) \<and> set keys = {a. names_key H160 ks s a} \<and> (owns H160 ks s \<longrightarrow> keys \<noteq> []))"

lemma collects_flat:
  assumes "ExtractDestinations H160 s = Some (t, ds :: unit CTxDestination list, n)"
    and "\<nexists>h. Solver s = (True, TX_SCRIPTHASH, [h])"
  shows "collects H160 ks s v (affected_visits H160 ks ds v)"
  using assms(1)
proof (cases rule: ExtractDestinations_cases)
  case (1 k)
  then have "affected_visits H160 ks ds v = Some (v @ filter (HaveKey ks) [pk_GetID H160 (mk_pubkey k)])"
    using affected_keys[of H160 ks id "[pk_GetID H160 (mk_pubkey k)]" v] by simp
  then show ?thesis unfolding collects_def names_key_iff[of H160 ks s] owns_iff[of H160 ks s] by (auto simp: 1(1))
next
  case (2 h)
  then have "affected_visits H160 ks ds v = Some (v @ filter (HaveKey ks) [uint160_of h])"
    using affected_keys[of H160 ks id "[uint160_of h]" v] by simp
  then show ?thesis unfolding collects_def names_key_iff[of H160 ks s] owns_iff[of H160 ks s] by (auto simp: 2(1))
next
  case 3
  then show ?thesis using assms(2) by blast
next
  case (4 m keys e)
  let ?id = "\<lambda>k. pk_GetID H160 (mk_pubkey k)"
  have r: "affected_visits H160 ks ds v = Some (v @ filter (HaveKey ks) (map ?id keys))"
    unfolding 4(3) by (rule affected_keys)
  have "names_key H160 ks s a \<longleftrightarrow> a \<in> ?id ` set keys \<and> HaveKey ks a" for a
    by (subst names_key_iff) (simp add: 4(1))
  moreover have "owns H160 ks s \<longrightarrow> filter (HaveKey ks) (map ?id keys) \<noteq> []"
    using 4(2) by (subst owns_iff, cases keys) (simp_all add: 4(1))
  ultimately show ?thesis using r by (auto simp: collects_def)
qed

lemma collects_total:
  assumes "acyclic_scripts rank ks"
  shows "collects H160 ks s v (ExtractAffectedKeys H160 ks s v)"
proof (induction "case Solver s of (ok, t, v) \<Rightarrow> rank (uint160_of (v ! 0))" arbitrary: s rule: less_induct)
  case less
  show ?case
  proof (cases "ExtractDestinations H160 s :: (_ \<times> unit CTxDestination list \<times> _) option")
    case None
    then show ?thesis using ExtractDestinations_None[OF None, of ks]
      by (simp add: collects_def ExtractAffectedKeys_def)
  next
    case (Some d)
    then obtain t ds n where d: "ExtractDestinations H160 s = Some (t, ds :: unit CTxDestination list, n)"
      by (cases d) auto
    show ?thesis
    proof (cases "\<exists>h. Solver s = (True, TX_SCRIPTHASH, [h])")
      case False
      then show ?thesis using collects_flat[OF d] d by (simp add: ExtractAffectedKeys_def)
    next
      case True
      then obtain h where sh: "Solver s = (True, TX_SCRIPTHASH, [h])" by blast
      have ds: "ds = [CScriptID (uint160_of h)]" using d by (cases rule: ExtractDestinations_cases) (use sh in auto)
      show ?thesis
      proof (cases "GetCScript ks (uint160_of h)")
        case None
        then show ?thesis using d unfolding collects_def names_key_iff[of H160 ks s] owns_iff[of H160 ks s]
          by (simp add: ExtractAffectedKeys_def ds affected_script sh)
      next
        case (Some sub)
        have sub: "names_key H160 ks s a \<longleftrightarrow> names_key H160 ks sub a" "owns H160 ks s \<longleftrightarrow> owns H160 ks sub" for a
          using Some unfolding names_key_iff[of H160 ks s] owns_iff[of H160 ks s] by (simp_all add: sh)
        have r: "ExtractAffectedKeys H160 ks s v = ExtractAffectedKeys H160 ks sub v"
          using Some d by (simp add: ExtractAffectedKeys_def ds affected_script)
        have "collects H160 ks sub v (ExtractAffectedKeys H160 ks sub v)"
        proof (cases "\<exists>x. Solver sub = (True, TX_SCRIPTHASH, [x])")
          case True
          then obtain x where x: "Solver sub = (True, TX_SCRIPTHASH, [x])" by blast
          then have "rank (uint160_of x) < rank (uint160_of h)"
            using assms Some by (auto simp: acyclic_scripts_def)
          then show ?thesis using less[of sub] x sh by simp
        next
          case False
          show ?thesis
          proof (cases "ExtractDestinations H160 sub :: (_ \<times> unit CTxDestination list \<times> _) option")
            case None
            then show ?thesis using ExtractDestinations_None[OF None, of ks]
              by (simp add: collects_def ExtractAffectedKeys_def)
          next
            case (Some e)
            then obtain t ds n where e: "ExtractDestinations H160 sub = Some (t, ds :: unit CTxDestination list, n)"
              by (cases e) auto
            then show ?thesis using collects_flat[OF e False] by (simp add: ExtractAffectedKeys_def)
          qed
        qed
        then show ?thesis using sub r by (simp add: collects_def)
      qed
    qed
  qed
qed

section \<open>Properties\<close>

text \<open>
  When the scripts of the store do not lead back to themselves, \<open>ExtractAffectedKeys\<close> returns; it
  appends to the keys it is given exactly the keys of the store that the script names, itself or
  through scripts of the store, and at least one when the script is spendable.
\<close>

theorem affected_keys_exact:
  assumes "acyclic_scripts rank keystore"
  shows "\<exists>keys. ExtractAffectedKeys H160 keystore s v = Some (v @ keys) \<and>
    set keys = {a. names_key H160 keystore s a} \<and> (if owns H160 keystore s then keys \<noteq> [] else True)"
  using collects_total[OF assms] unfolding collects_def by fastforce

lemma affected_keys_exact_witness:
  "\<exists>keys. ExtractAffectedKeys (\<lambda>b. 77) (empty_store\<lparr>mapKeys := [77 \<mapsto> ()]\<rparr>)
      (p2pkh (word_bytes 20 (77 :: uint160))) [5] = Some ([5] @ keys) \<and> 77 \<in> set keys"
proof -
  let ?ks = "empty_store\<lparr>mapKeys := [77 \<mapsto> ()]\<rparr>" and ?s = "p2pkh (word_bytes 20 (77 :: uint160))"
  have "Solver ?s = (True, TX_PUBKEYHASH, [word_bytes 20 (77 :: uint160)])"
    by (rule Solver_p2pkh) simp
  then have "names_key (\<lambda>b. 77) ?ks ?s 77"
    by (rule name_hash) (simp_all only: uint160_of_bytes HaveKey_def, simp)
  moreover have "acyclic_scripts (\<lambda>h. 0) ?ks" by (simp add: acyclic_scripts_def GetCScript_def empty_store_def)
  ultimately show ?thesis using affected_keys_exact[of "\<lambda>h. 0" ?ks "\<lambda>b. 77" ?s "[5]"] by auto
qed

end
