(* ===== verification/ScriptComp.thy ===== *)
theory ScriptComp
  imports Solver
begin

text \<open>
  The compact serialiser of scripts, \<open>CScriptCompressor\<close> of \<open>src/src/script.h\<close> and
  \<open>src/src/script.cpp\<close>, and \<open>CPubKey::Decompress\<close>.  The three special forms and the general
  one are read back as written; the sizes are those the comment of the class gives.
\<close>

section \<open>The curve library\<close>

record ('sig, 'pk) secp_ser = "('sig, 'pk) secp" +
  ec_pubkey_serialize :: "'pk \<Rightarrow> bool \<Rightarrow> bytes"

definition pk_Decompress :: "('sig, 'pk, 'e) secp_ser_scheme \<Rightarrow> pubkey \<Rightarrow> bool \<times> pubkey" where
  "pk_Decompress C vch =
     (if \<not> pk_IsValid vch then (False, vch)
      else case ec_pubkey_parse C (pk_Raw vch) of
             None \<Rightarrow> (False, vch)
           | Some pk \<Rightarrow> (True, pk_Set vch (ec_pubkey_serialize C pk False)))"

text \<open>
  What the library documents: an uncompressed key that parses is the uncompressed form of the
  point that its compressed form, with the parity of the last byte, parses to.
\<close>

definition compression_documented :: "('sig, 'pk, 'e) secp_ser_scheme \<Rightarrow> bool" where
  "compression_documented C \<longleftrightarrow>
     (\<forall>k. length k = 65 \<and> hd k = 4 \<and> ec_pubkey_parse C k \<noteq> None \<longrightarrow>
        (\<exists>pk. ec_pubkey_parse C ((2 + (k ! 64 AND 1)) # take 32 (drop 1 k)) = Some pk \<and>
           ec_pubkey_serialize C pk False = k))"

section \<open>The compressor\<close>

definition nSpecialScripts :: uint32 where "nSpecialScripts = 6"

definition IsToKeyID :: "script \<Rightarrow> uint160 option" where
  "IsToKeyID s =
     (if length s = 25 \<and> unat (s ! 0) = OP_DUP \<and> unat (s ! 1) = OP_HASH160 \<and> s ! 2 = 20 \<and>
         unat (s ! 23) = OP_EQUALVERIFY \<and> unat (s ! 24) = OP_CHECKSIG
      then Some (bytes_word (take 20 (drop 3 s))) else None)"

definition IsToScriptID :: "script \<Rightarrow> uint160 option" where
  "IsToScriptID s =
     (if length s = 23 \<and> unat (s ! 0) = OP_HASH160 \<and> s ! 1 = 20 \<and> unat (s ! 22) = OP_EQUAL
      then Some (bytes_word (take 20 (drop 2 s))) else None)"

definition IsToPubKey :: "('sig, 'pk, 'e) secp_ser_scheme \<Rightarrow> script \<Rightarrow> pubkey option" where
  "IsToPubKey C s =
     (if length s = 35 \<and> s ! 0 = 33 \<and> unat (s ! 34) = OP_CHECKSIG \<and> (s ! 1 = 0x02 \<or> s ! 1 = 0x03)
      then Some (mk_pubkey (take 33 (drop 1 s)))
      else if length s = 67 \<and> s ! 0 = 65 \<and> unat (s ! 66) = OP_CHECKSIG \<and> s ! 1 = 0x04
      then (let pubkey = mk_pubkey (take 65 (drop 1 s))
            in if pk_IsFullyValid C pubkey then Some pubkey else None)
      else None)"

definition Compress :: "('sig, 'pk, 'e) secp_ser_scheme \<Rightarrow> script \<Rightarrow> bytes option" where
  "Compress C s =
     (case IsToKeyID s of
        Some keyID \<Rightarrow> Some (0x00 # word_bytes 20 keyID)
      | None \<Rightarrow>
     (case IsToScriptID s of
        Some scriptID \<Rightarrow> Some (0x01 # word_bytes 20 scriptID)
      | None \<Rightarrow>
     (case IsToPubKey C s of
        None \<Rightarrow> None
      | Some pubkey \<Rightarrow>
          let rest = take 32 (drop 1 pubkey)
          in if pubkey ! 0 = 0x02 \<or> pubkey ! 0 = 0x03 then Some (pubkey ! 0 # rest)
             else if pubkey ! 0 = 0x04 then Some ((0x04 OR (pubkey ! 64 AND 0x01)) # rest)
             else None)))"

definition GetSpecialSize :: "uint32 \<Rightarrow> nat" where
  "GetSpecialSize nSize =
     (if nSize = 0 \<or> nSize = 1 then 20
      else if nSize = 2 \<or> nSize = 3 \<or> nSize = 4 \<or> nSize = 5 then 32 else 0)"

text \<open>The new script, unchanged where the code returns false; \<open>None\<close> is the failed assertion.\<close>

definition Decompress ::
  "('sig, 'pk, 'e) secp_ser_scheme \<Rightarrow> script \<Rightarrow> uint32 \<Rightarrow> bytes \<Rightarrow> (bool \<times> script) option" where
  "Decompress C s nSize inp =
     (if nSize = 0x00 then
        Some (True, [word_of_nat OP_DUP, word_of_nat OP_HASH160, 20] @ take 20 inp @
          [word_of_nat OP_EQUALVERIFY, word_of_nat OP_CHECKSIG])
      else if nSize = 0x01 then
        Some (True, [word_of_nat OP_HASH160, 20] @ take 20 inp @ [word_of_nat OP_EQUAL])
      else if nSize = 0x02 \<or> nSize = 0x03 then
        Some (True, [33, ucast nSize] @ take 32 inp @ [word_of_nat OP_CHECKSIG])
      else if nSize = 0x04 \<or> nSize = 0x05 then
        (case pk_Decompress C (mk_pubkey (ucast (nSize - 2) # take 32 inp)) of
           (ok, pubkey) \<Rightarrow>
             if \<not> ok then Some (False, s)
             else if pk_size pubkey \<noteq> 65 then None
             else Some (True, [65] @ take 65 pubkey @ [word_of_nat OP_CHECKSIG]))
      else Some (False, s))"

definition write_script :: "('sig, 'pk, 'e) secp_ser_scheme \<Rightarrow> script \<Rightarrow> bytes" where
  "write_script C s =
     (case Compress C s of
        Some compr \<Rightarrow> compr
      | None \<Rightarrow> WriteVarInt (word_of_nat (length s) + nSpecialScripts) @ s)"

definition GetSerializeSize_script :: "('sig, 'pk, 'e) secp_ser_scheme \<Rightarrow> script \<Rightarrow> nat" where
  "GetSerializeSize_script C s =
     (case Compress C s of
        Some compr \<Rightarrow> length compr
      | None \<Rightarrow> length s + GetSizeOfVarInt (word_of_nat (length s) + nSpecialScripts))"

text \<open>Reading into a script that holds \<open>old\<close>; the result of \<open>Decompress\<close> is not looked at.\<close>

definition read_script ::
  "('sig, 'pk, 'e) secp_ser_scheme \<Rightarrow> script \<Rightarrow> bytes \<Rightarrow> (ser_error + script \<times> bytes) option" where
  "read_script C old s =
     (case ReadVarInt s of
        Inl e \<Rightarrow> Some (Inl e)
      | Inr (nSize, s) \<Rightarrow>
          if nSize < nSpecialScripts then
            (case read_data (GetSpecialSize nSize) s of
               Inl e \<Rightarrow> Some (Inl e)
             | Inr (vch, s) \<Rightarrow> map_option (\<lambda>(ok, script). Inr (script, s)) (Decompress C old nSize vch))
          else Some (read_data (unat (nSize - nSpecialScripts)) s))"

section \<open>The special forms\<close>

lemma byte_eq_unat: "unat (b :: byte) = n \<Longrightarrow> b = word_of_nat n"
  by auto

lemma and_one_cases: "(b :: byte) AND 1 = 0 \<or> b AND 1 = 1"
  by (simp add: and_one_eq mod2_eq_if)

lemma word_bytes_20: "length v = 20 \<Longrightarrow> word_bytes 20 (bytes_word v :: uint160) = v"
  using word_bytes_bytes_word[of v, where 'a = 160] by simp

text \<open>A byte string cut in three.\<close>

lemma split3:
  assumes "length s = a + n + b"
  obtains x y z where "s = x @ y @ z" "length x = a" "length y = n" "length z = b"
proof
  show "s = take a s @ take n (drop a s) @ drop n (drop a s)" by (simp only: append_take_drop_id)
qed (use assms in simp_all)

lemma length_2: "length x = 2 \<longleftrightarrow> (\<exists>a b. x = [a, b])"
  by (auto simp: length_Suc_conv numeral_2_eq_2)

lemma length_3: "length x = 3 \<longleftrightarrow> (\<exists>a b c. x = [a, b, c])"
  by (auto simp: length_Suc_conv numeral_3_eq_3)

lemma length_1: "length x = 1 \<longleftrightarrow> (\<exists>a. x = [a])"
  by (auto simp: length_Suc_conv)

lemma IsToKeyID_shape:
  assumes "IsToKeyID s = Some k"
  shows "s = [0x76, 0xa9, 20] @ word_bytes 20 k @ [0x88, 0xac]"
proof -
  have "length s = 3 + 20 + 2" using assms by (simp add: IsToKeyID_def split: if_splits)
  then obtain x y z where s: "s = x @ y @ z" and l: "length x = 3" "length y = 20" "length z = 2"
    by (rule split3)
  obtain x0 x1 x2 z0 z1 where xz: "x = [x0, x1, x2]" "z = [z0, z1]" using l length_2 length_3 by metis
  show ?thesis
    using assms l(2) by (auto simp: IsToKeyID_def s xz nth_append word_bytes_20 dest!: byte_eq_unat split: if_splits)
qed

lemma IsToScriptID_shape:
  assumes "IsToScriptID s = Some k"
  shows "s = [0xa9, 20] @ word_bytes 20 k @ [0x87]"
proof -
  have "length s = 2 + 20 + 1" using assms by (simp add: IsToScriptID_def split: if_splits)
  then obtain x y z where s: "s = x @ y @ z" and l: "length x = 2" "length y = 20" "length z = 1"
    by (rule split3)
  obtain x0 x1 z0 where xz: "x = [x0, x1]" "z = [z0]" using l length_2 length_1 by metis
  show ?thesis
    using assms l(2) by (auto simp: IsToScriptID_def s xz nth_append word_bytes_20 dest!: byte_eq_unat split: if_splits)
qed

text \<open>A compressed or an uncompressed key, pushed.\<close>

lemma IsToPubKey_shape:
  assumes "IsToPubKey C s = Some p"
  obtains h r where "h = 2 \<or> h = 3" "length r = 32" "s = [33] @ (h # r) @ [0xac]" "p = mk_pubkey (h # r)"
  | r q where "length r = 32" "length q = 32" "s = [65] @ (4 # r @ q) @ [0xac]" "p = mk_pubkey (4 # r @ q)"
      "ec_pubkey_parse C (4 # r @ q) \<noteq> None"
proof (cases "length s = 35 \<and> s ! 0 = 33 \<and> unat (s ! 34) = OP_CHECKSIG \<and> (s ! 1 = 0x02 \<or> s ! 1 = 0x03)")
  case True
  then have "length s = 2 + 32 + 1" by simp
  then obtain x y z where s: "s = x @ y @ z" and l: "length x = 2" "length y = 32" "length z = 1"
    by (rule split3)
  obtain x0 x1 z0 where xz: "x = [x0, x1]" "z = [z0]" using l length_2 length_1 by metis
  show ?thesis
    using that(1)[of x1 y] True l(2) assms
    by (auto simp: IsToPubKey_def s xz nth_append dest!: byte_eq_unat)
next
  case False
  then have c: "length s = 67" "s ! 0 = 65" "unat (s ! 66) = OP_CHECKSIG" "s ! 1 = 0x04"
    and p: "p = mk_pubkey (take 65 (drop 1 s))" "pk_IsFullyValid C p"
    using assms by (auto simp: IsToPubKey_def Let_def split: if_splits)
  then have "length s = 2 + 32 + 33" by simp
  then obtain x y z where s: "s = x @ y @ z" and l: "length x = 2" "length y = 32" "length z = 33"
    by (rule split3)
  obtain x0 x1 where x: "x = [x0, x1]" using l length_2 by metis
  have "length z = 32 + 0 + 1" using l by simp
  then obtain q n e where z: "z = q @ n @ e" "length q = 32" "length n = 0" "length e = 1" by (rule split3)
  then obtain e0 where e: "e = [e0]" using length_1 by metis
  note e = e z(3)[unfolded length_0_conv]
  have k: "take 65 (drop 1 s) = 4 # y @ q" using c l z e by (simp add: s x)
  have "pubkey_bytes (4 # y @ q)" using l z by (simp add: pubkey_bytes_def pk_GetLen_def)
  then have parse: "ec_pubkey_parse C (4 # y @ q) \<noteq> None"
    using p unfolding k by (simp add: pk_IsFullyValid_def pk_Raw_mk)
  have "s = [65] @ (4 # y @ q) @ [0xac]"
    using c l z e by (auto simp: s x nth_append dest!: byte_eq_unat)
  then show ?thesis using that(2)[of y q] l z parse p(1) unfolding k by simp
qed

section \<open>Reading back\<close>

lemma WriteVarInt_short: "n \<le> 0x7F \<Longrightarrow> WriteVarInt (n :: uint32) = [ucast n]"
proof -
  assume n: "n \<le> 0x7F"
  have "(0x7F :: uint32) = mask 7" by (simp add: mask_eq_exp_minus_1)
  then have "n AND 0x7F = take_bit 7 n" by (simp only: take_bit_eq_mask)
  also have "\<dots> = n"
    using n by (simp add: word_unat_eq_iff unsigned_take_bit_eq take_bit_nat_eq_self_iff word_le_nat_alt)
  finally have "n AND 0x7F = n" .
  then show ?thesis using n by (simp add: WriteVarInt_def varint_tmp.simps)
qed

lemma ReadVarInt_special:
  "b \<le> 5 \<Longrightarrow> ReadVarInt (b # t) = Inr (ucast b :: uint32, t)"
proof -
  assume b: "b \<le> (5 :: byte)"
  have le: "(ucast b :: uint32) \<le> 0x7F"
    using b by (simp add: word_le_nat_alt unat_ucast_mod)
  have "ucast (ucast b :: uint32) = b" by (simp add: ucast_ucast_up)
  then show ?thesis using ReadVarInt_WriteVarInt[of "ucast b :: uint32" t] le by (simp add: WriteVarInt_short)
qed

lemma parity_byte: "(0x04 OR (b AND 1) :: byte) = 4 + (b AND 1) \<and> 4 + (b AND 1) \<le> 5"
  using and_one_cases[of b] by auto

lemma read_general:
  assumes "length s + 6 < 2 ^ 32"
  shows "read_script C old (WriteVarInt (word_of_nat (length s) + nSpecialScripts) @ s @ t) = Some (Inr (s, t))"
proof -
  let ?n = "word_of_nat (length s) + nSpecialScripts"
  have u: "unat ?n = length s + 6"
    using assms by (simp add: nSpecialScripts_def unat_word_ariths unsigned_of_nat take_bit_nat_eq_self)
  then have ge: "\<not> ?n < nSpecialScripts" by (simp add: word_less_nat_alt nSpecialScripts_def)
  have "unat (?n - nSpecialScripts) = length s" using assms by (simp add: unsigned_of_nat take_bit_nat_eq_self)
  then show ?thesis using ge by (simp add: read_script_def ReadVarInt_WriteVarInt)
qed

lemma decompress_key:
  assumes "compression_documented C" "length r = 32" "length q = 32" "ec_pubkey_parse C (4 # r @ q) \<noteq> None"
  shows "pk_Decompress C (mk_pubkey ((2 + (last q AND 1)) # r)) = (True, 4 # r @ q)"
proof -
  let ?k = "4 # r @ q" and ?h = "(2 + (last q AND 1)) # r"
  have "q \<noteq> []" using assms(3) by auto
  then have l: "?k ! 64 = last q" using assms(2,3) by (simp add: nth_append last_conv_nth)
  obtain pk where pk: "ec_pubkey_parse C ?h = Some pk" "ec_pubkey_serialize C pk False = ?k"
    using assms(1)[unfolded compression_documented_def, rule_format, of ?k] assms(2,3,4) l by auto
  have h: "pubkey_bytes ?h"
    using and_one_cases[of "last q"] assms(2) by (auto simp: pubkey_bytes_def pk_GetLen_def)
  have "pk_Set (mk_pubkey ?h) ?k = ?k"
    using assms(2,3) wf_mk_pubkey[of ?h] by (simp add: pk_Set_def pk_GetLen_def wf_pubkey_def)
  then show ?thesis using h pk by (simp add: pk_Decompress_def pk_IsValid_mk pk_Raw_mk)
qed

lemma read_write_script:
  assumes doc: "compression_documented C" and len: "length s + 6 < 2 ^ 32"
  shows "read_script C old (write_script C s @ t) = Some (Inr (s, t))"
proof (cases "IsToKeyID s")
  case (Some k)
  then show ?thesis using IsToKeyID_shape[OF Some] ReadVarInt_special[of 0 "word_bytes 20 k @ t"]
    by (simp add: write_script_def Compress_def read_script_def nSpecialScripts_def GetSpecialSize_def
        Decompress_def)
next
  case key: None
  show ?thesis
  proof (cases "IsToScriptID s")
    case (Some k)
    then show ?thesis using key IsToScriptID_shape[OF Some] ReadVarInt_special[of 1 "word_bytes 20 k @ t"]
      by (simp add: write_script_def Compress_def read_script_def nSpecialScripts_def GetSpecialSize_def
          Decompress_def)
  next
    case sc: None
    show ?thesis
    proof (cases "IsToPubKey C s")
      case None
      then show ?thesis using read_general[OF len] by (simp add: write_script_def Compress_def key sc)
    next
      case (Some p)
      then show ?thesis
      proof (cases rule: IsToPubKey_shape)
        case (1 h r)
        have pk: "mk_pubkey (h # r) = h # r @ replicate 32 0"
          using 1 by (auto simp: mk_pubkey_def pk_Set_def pk_GetLen_def)
        have sp: "GetSpecialSize 2 = 32" "GetSpecialSize 3 = 32" by (simp_all add: GetSpecialSize_def)
        have "Compress C s = Some (h # r)"
          unfolding Compress_def key sc Some using 1(1,2) by (auto simp: 1(4) pk Let_def)
        then show ?thesis using 1 ReadVarInt_special[of h "r @ t"]
          by (auto simp: write_script_def read_script_def nSpecialScripts_def sp Decompress_def)
      next
        case (2 r q)
        have q: "q \<noteq> []" using 2(2) by auto
        have pk: "p = 4 # r @ q" using 2 by (simp add: mk_pubkey_def pk_Set_def pk_GetLen_def)
        have l: "p ! 64 = last q" using 2 q by (simp add: pk nth_append last_conv_nth)
        have cp: "Compress C s = Some ((4 + (last q AND 1)) # r)"
          unfolding Compress_def key sc Some using parity_byte[of "last q"] l 2(1) by (simp add: pk Let_def)
        have sp: "GetSpecialSize 4 = 32" "GetSpecialSize 5 = 32" by (simp_all add: GetSpecialSize_def)
        note dk = decompress_key[OF doc 2(1,2,5)]
        have sz: "pk_size (4 # r @ q) = 65" by (simp add: pk_size_def pk_GetLen_def)
        consider "last q AND 1 = 0" | "last q AND 1 = 1" using and_one_cases by blast
        then show ?thesis
        proof cases
          case e: 1
          then show ?thesis using 2 cp dk sz ReadVarInt_special[of 4 "r @ t"]
            by (simp add: write_script_def read_script_def nSpecialScripts_def sp Decompress_def)
        next
          case e: 2
          then show ?thesis using 2 cp dk sz ReadVarInt_special[of 5 "r @ t"]
            by (simp add: write_script_def read_script_def nSpecialScripts_def sp Decompress_def)
        qed
      qed
    qed
  qed
qed


section \<open>Sizes\<close>

lemma length_word_bytes_20: "length (word_bytes 20 (k :: uint160)) = 20"
  by simp

lemma length_Compress:
  "Compress C s \<noteq> None \<longleftrightarrow> IsToKeyID s \<noteq> None \<or> IsToScriptID s \<noteq> None \<or> IsToPubKey C s \<noteq> None"
  "Compress C s = Some b \<Longrightarrow> length b = (if IsToKeyID s \<noteq> None \<or> IsToScriptID s \<noteq> None then 21 else 33)"
proof -
  have h: "take 32 (drop 1 p) \<noteq> [] \<and> length (take 32 (drop 1 p)) = 32 \<and>
      (p ! 0 = 2 \<or> p ! 0 = 3 \<or> p ! 0 = 4)" if "IsToPubKey C s = Some p" for p
  proof -
    have m: "mk_pubkey (h # r) ! 0 = h \<and> length (mk_pubkey (h # r)) = 65"
      if "h = 2 \<or> h = 3" "length r = 32" for h r
      using that by (auto simp: mk_pubkey_def pk_Set_def pk_GetLen_def)
    have u: "mk_pubkey (4 # r @ q) = 4 # r @ q" if "length r = 32" "length q = 32" for r q
      using that by (simp add: mk_pubkey_def pk_Set_def pk_GetLen_def)
    show ?thesis using that by (cases rule: IsToPubKey_shape) (use m u in fastforce)+
  qed
  show "Compress C s \<noteq> None \<longleftrightarrow> IsToKeyID s \<noteq> None \<or> IsToScriptID s \<noteq> None \<or> IsToPubKey C s \<noteq> None"
    using h by (auto simp: Compress_def Let_def split: option.split)
  show "length b = (if IsToKeyID s \<noteq> None \<or> IsToScriptID s \<noteq> None then 21 else 33)"
    if "Compress C s = Some b"
    using h that by (auto simp: Compress_def Let_def split: option.splits if_splits)
qed

lemma GetSizeOfVarInt_small:
  "unat (n :: uint32) < 128 \<Longrightarrow> GetSizeOfVarInt n = 1"
  "128 \<le> unat n \<Longrightarrow> unat n < 16512 \<Longrightarrow> GetSizeOfVarInt n = 2"
proof -
  assume "unat n < 128"
  then show "GetSizeOfVarInt n = 1"
    by (subst GetSizeOfVarInt_def, subst GetSizeOfVarInt_loop.simps) (simp add: word_le_nat_alt)
next
  assume n: "128 \<le> unat n" "unat n < 16512"
  have d: "unat (drop_bit 7 n) = unat n div 128"
    by (simp add: unat_drop_bit_eq) (simp add: drop_bit_eq_div)
  have "1 \<le> unat n div 128" "unat n div 128 < 129" using n by auto
  then have "unat (drop_bit 7 n - 1) < 128"
    by (subst unat_sub) (auto simp: word_le_nat_alt d)
  then show "GetSizeOfVarInt n = 2"
    using n by (simp add: GetSizeOfVarInt_def GetSizeOfVarInt_loop.simps[of n] word_le_nat_alt)
      (subst GetSizeOfVarInt_loop.simps, simp add: word_le_nat_alt)
qed

lemma compressed_size:
  "GetSerializeSize_script C s = length (write_script C s)"
  "length (write_script C s) =
     (if IsToKeyID s \<noteq> None \<or> IsToScriptID s \<noteq> None then 21
      else if IsToPubKey C s \<noteq> None then 33
      else if length s \<le> 121 then length s + 1
      else if length s \<le> 16505 then length s + 2
      else length s + GetSizeOfVarInt (word_of_nat (length s) + nSpecialScripts))"
proof -
  show sz: "GetSerializeSize_script C s = length (write_script C s)"
    by (simp add: GetSerializeSize_script_def write_script_def GetSizeOfVarInt_length split: option.split)
  show "length (write_script C s) =
     (if IsToKeyID s \<noteq> None \<or> IsToScriptID s \<noteq> None then 21
      else if IsToPubKey C s \<noteq> None then 33
      else if length s \<le> 121 then length s + 1
      else if length s \<le> 16505 then length s + 2
      else length s + GetSizeOfVarInt (word_of_nat (length s) + nSpecialScripts))"
  proof (cases "Compress C s")
    case (Some b)
    then show ?thesis using length_Compress[of C s] by (auto simp: write_script_def)
  next
    case None
    have u: "unat (word_of_nat (length s) + nSpecialScripts) = length s + 6" if "length s \<le> 16505"
      using that by (simp add: nSpecialScripts_def unat_word_ariths unsigned_of_nat take_bit_nat_eq_self)
    show ?thesis
      using None length_Compress(1)[of C s] u GetSizeOfVarInt_small
      by (simp flip: sz) (simp add: GetSerializeSize_script_def)
  qed
qed

section \<open>Properties\<close>

text \<open>
  A script written by the compact serialiser is read back, whatever script the reader held before
  and whatever follows in the stream, for every script short enough that its length and the six
  special codes fit the 32-bit size.
\<close>

theorem script_compression_round_trip:
  assumes "compression_documented C" "length s + 6 < 2 ^ 32"
  shows "read_script C old (write_script C s @ t) = Some (Inr (s, t))"
  using assms by (rule read_write_script)

text \<open>A curve whose points are their compressed keys.\<close>

definition toy_expand :: "bytes \<Rightarrow> bytes" where
  "toy_expand c = 4 # tl c @ replicate 31 0 @ [hd c - 2]"

definition toy_compress :: "bytes \<Rightarrow> bytes" where
  "toy_compress k = (2 + (k ! 64 AND 1)) # take 32 (drop 1 k)"

definition toy_parse :: "bytes \<Rightarrow> bytes option" where
  "toy_parse k =
     (if length k = 33 \<and> (hd k = 2 \<or> hd k = 3) then Some k
      else if length k = 65 \<and> hd k = 4 \<and> k = toy_expand (toy_compress k) then Some (toy_compress k)
      else None)"

definition toy_curve :: "(bytes, bytes) secp_ser" where
  "toy_curve = \<lparr>parse_compact = \<lambda>b. (b, True), sig_normalize = \<lambda>s. (s, False),
     ec_pubkey_parse = toy_parse, ecdsa_verify = \<lambda>s h p. True,
     ec_pubkey_serialize = \<lambda>c short. if short then c else toy_expand c\<rparr>"

lemma toy_curve_documented: "compression_documented toy_curve"
proof -
  have "toy_parse (toy_compress k) = Some (toy_compress k) \<and> toy_expand (toy_compress k) = k"
    if k: "length k = 65" "hd k = 4" "toy_parse k \<noteq> None" for k
  proof -
    have "length (toy_compress k) = 33" "hd (toy_compress k) = 2 \<or> hd (toy_compress k) = 3"
      using k(1) and_one_cases[of "k ! 64"] by (auto simp: toy_compress_def)
    moreover have "toy_expand (toy_compress k) = k"
      using k by (auto simp: toy_parse_def split: if_splits)
    ultimately show ?thesis by (simp add: toy_parse_def)
  qed
  then show ?thesis
    unfolding compression_documented_def toy_compress_def[symmetric] by (auto simp: toy_curve_def)
qed

lemma script_compression_round_trip_witness:
  "read_script toy_curve [] (write_script toy_curve ([65] @ (4 # replicate 63 0 @ [1]) @ [0xac]) @ [7]) =
     Some (Inr ([65] @ (4 # replicate 63 0 @ [1]) @ [0xac], [7]))
   \<and> length (write_script toy_curve ([65] @ (4 # replicate 63 0 @ [1]) @ [0xac])) = 33"
proof
  show "read_script toy_curve [] (write_script toy_curve ([65] @ (4 # replicate 63 0 @ [1]) @ [0xac]) @ [7]) =
     Some (Inr ([65] @ (4 # replicate 63 0 @ [1]) @ [0xac], [7]))"
    by (rule script_compression_round_trip[OF toy_curve_documented]) simp
  show "length (write_script toy_curve ([65] @ (4 # replicate 63 0 @ [1]) @ [0xac])) = 33"
    by code_simp
qed

text \<open>
  The sizes are those the class documents: 21 bytes for a key hash or a script hash, 33 for a key,
  one byte more than the script up to 121 bytes and two more up to 16505; and the size announced is
  the number of bytes written.
\<close>

theorem script_compressed_size:
  "GetSerializeSize_script C s = length (write_script C s) \<and>
   length (write_script C s) =
     (if IsToKeyID s = None \<and> IsToScriptID s = None
      then (if IsToPubKey C s = None
            then (if length s \<le> 121 then length s + 1
                  else if length s \<le> 16505 then length s + 2
                  else length s + GetSizeOfVarInt (word_of_nat (length s) + nSpecialScripts))
            else 33)
      else 21)"
  using compressed_size[of C s] by auto

end
