(* ===== verification/Loops.thy ===== *)
theory Loops
  imports Prelude
begin

text \<open>
  A loop over a list whose body may fail to return: \<open>ofold\<close> threads a state through the body and
  stops at the first \<open>None\<close>.  The monotonicity rule lets a \<open>partial_function\<close> call itself in the
  body of such a loop.
\<close>

primrec ofold :: "('a \<Rightarrow> 's \<Rightarrow> 's option) \<Rightarrow> 'a list \<Rightarrow> 's \<Rightarrow> 's option" where
  "ofold f [] s = Some s"
| "ofold f (x # xs) s = Option.bind (f x s) (ofold f xs)"

lemma ofold_append: "ofold f (xs @ ys) s = Option.bind (ofold f xs s) (ofold f ys)"
  by (induction xs arbitrary: s) (auto split: bind_splits)

lemma ofold_mono [partial_function_mono]:
  fixes B :: "('b \<Rightarrow> 'c option) \<Rightarrow> 'a \<Rightarrow> 's \<Rightarrow> 's option"
  assumes "\<And>x s. mono_option (\<lambda>f. B f x s)"
  shows "mono_option (\<lambda>f. ofold (B f) xs s)"
proof (induction xs arbitrary: s)
  case Nil
  show ?case by simp (rule option.const_mono)
next
  case (Cons x xs)
  show ?case using assms Cons.IH by simp (rule bind_mono)
qed

text \<open>A loop that returns keeps what each turn keeps.\<close>

lemma ofold_invariant:
  assumes "P s" and "\<And>x s. x \<in> set xs \<Longrightarrow> P s \<Longrightarrow> \<exists>s'. f x s = Some s' \<and> P s'"
  shows "\<exists>s'. ofold f xs s = Some s' \<and> P s'"
  using assms
proof (induction xs arbitrary: s)
  case (Cons x xs)
  then obtain s' where "f x s = Some s'" "P s'" by (meson list.set_intros(1))
  then show ?case using Cons by simp
qed simp

text \<open>The same with an invariant of the turns done.\<close>

lemma ofold_prefix_invariant:
  assumes "P [] s"
    and "\<And>pre x post s. xs = pre @ x # post \<Longrightarrow> P pre s \<Longrightarrow> \<exists>s'. f x s = Some s' \<and> P (pre @ [x]) s'"
  shows "\<exists>s'. ofold f xs s = Some s' \<and> P xs s'"
proof -
  have "\<exists>s'. ofold f ys s = Some s' \<and> P (pre @ ys) s'" if "xs = pre @ ys" "P pre s" for pre ys s
    using that
  proof (induction ys arbitrary: pre s)
    case (Cons y ys)
    then obtain s' where "f y s = Some s'" "P (pre @ [y]) s'" using assms(2) by blast
    then show ?case using Cons.IH[of "pre @ [y]" s'] Cons.prems(1) by simp
  qed simp
  from this[of "[]" xs s] assms(1) show ?thesis by simp
qed

text \<open>A loop that is known to return.\<close>

lemma ofold_result:
  assumes "ofold f xs s = Some s'" "P [] s"
    and "\<And>pre x post s s'. xs = pre @ x # post \<Longrightarrow> P pre s \<Longrightarrow> f x s = Some s' \<Longrightarrow> P (pre @ [x]) s'"
  shows "P xs s'"
proof -
  have "P (pre @ ys) s'" if "xs = pre @ ys" "P pre s" "ofold f ys s = Some s'" for pre ys s
    using that
  proof (induction ys arbitrary: pre s)
    case (Cons y ys)
    then obtain s1 where "f y s = Some s1" "ofold f ys s1 = Some s'" by (auto split: bind_splits)
    then show ?case using Cons.IH[of "pre @ [y]" s1] Cons.prems assms(3) by simp
  qed simp
  from this[of "[]" xs s] assms show ?thesis by simp
qed

end
