(* ===== verification/Mempool.thy ===== *)
theory Mempool
  imports Core Loops
begin

text \<open>
  The memory pool, \<open>CTxMemPool\<close> of \<open>src/src/txmempool.h\<close> and \<open>src/src/txmempool.cpp\<close>.  A pointer
  into \<open>mapTx\<close> is the key of the element it points to; following one whose element is gone is
  \<open>None\<close>, and so is a recursion that does not return.  The invariant \<open>pool_ok\<close> ties the two maps
  together; removal with its descendants is specified by the relation \<open>spends\<close> between the
  transactions of the pool.
\<close>

section \<open>The pool\<close>

record CInPoint =
  ptx :: "uint256 option"
  in_n :: uint32

definition inpoint_null :: CInPoint where
  "inpoint_null = \<lparr>ptx = None, in_n = - 1\<rparr>"

definition inpoint_IsNull :: "CInPoint \<Rightarrow> bool" where
  "inpoint_IsNull p \<longleftrightarrow> ptx p = None \<and> in_n p = - 1"

record CTxMemPool =
  nTransactionsUpdated :: uint32
  mapTx :: "uint256 \<rightharpoonup> CTransaction"
  mapNextTx :: "COutPoint \<rightharpoonup> CInPoint"

definition GetTransactionsUpdated :: "CTxMemPool \<Rightarrow> uint32" where
  "GetTransactionsUpdated P = nTransactionsUpdated P"

definition AddTransactionsUpdated :: "uint32 \<Rightarrow> CTxMemPool \<Rightarrow> CTxMemPool" where
  "AddTransactionsUpdated n P = P\<lparr>nTransactionsUpdated := nTransactionsUpdated P + n\<rparr>"

definition next_entries :: "uint256 \<Rightarrow> CTransaction \<Rightarrow> (COutPoint \<times> CInPoint) list" where
  "next_entries hash tx =
     map (\<lambda>i. (prevout (vin tx ! i), \<lparr>ptx = Some hash, in_n = word_of_nat i\<rparr>)) [0..<length (vin tx)]"

definition addUnchecked :: "uint256 \<Rightarrow> CTransaction \<Rightarrow> CTxMemPool \<Rightarrow> bool \<times> CTxMemPool" where
  "addUnchecked hash tx P =
     (True, P\<lparr>mapTx := (mapTx P)(hash \<mapsto> tx),
              mapNextTx := foldl (\<lambda>m (k, v). m(k \<mapsto> v)) (mapNextTx P) (next_entries hash tx),
              nTransactionsUpdated := nTransactionsUpdated P + 1\<rparr>)"

text \<open>The end of \<open>remove\<close>: the inputs, then the transaction.\<close>

definition erase_tx :: "uint256 \<Rightarrow> CTransaction \<Rightarrow> CTxMemPool \<Rightarrow> CTxMemPool" where
  "erase_tx hash tx P =
     P\<lparr>mapNextTx := foldl (\<lambda>m txin. m(prevout txin := None)) (mapNextTx P) (vin tx),
       mapTx := (mapTx P)(hash := None),
       nTransactionsUpdated := nTransactionsUpdated P + 1\<rparr>"

partial_function (option) mp_remove ::
  "(bytes \<Rightarrow> uint256) \<Rightarrow> CTransaction \<Rightarrow> bool \<Rightarrow> CTxMemPool \<Rightarrow> CTxMemPool option" where
  "mp_remove H tx fRecursive P =
     (let hash = tx_GetHash H tx
      in if mapTx P hash = None then Some P
         else Option.bind
           (if fRecursive then
              ofold (\<lambda>i P.
                case mapNextTx P \<lparr>op_hash = hash, op_n = word_of_nat i\<rparr> of
                  None \<Rightarrow> Some P
                | Some it \<Rightarrow>
                    Option.bind (ptx it) (\<lambda>key.
                    Option.bind (mapTx P key) (\<lambda>txChild.
                      mp_remove H txChild True P)))
                [0..<length (vout tx)] P
            else Some P)
           (\<lambda>P. Some (erase_tx hash tx P)))"

definition removeConflicts ::
  "(bytes \<Rightarrow> uint256) \<Rightarrow> CTransaction \<Rightarrow> CTxMemPool \<Rightarrow> CTxMemPool option" where
  "removeConflicts H tx P =
     ofold (\<lambda>txin P.
       case mapNextTx P (prevout txin) of
         None \<Rightarrow> Some P
       | Some it \<Rightarrow>
           Option.bind (ptx it) (\<lambda>key.
           Option.bind (mapTx P key) (\<lambda>txConflict.
             if \<not> tx_eq txConflict tx then mp_remove H txConflict True P else Some P)))
       (vin tx) P"

definition mp_clear :: "CTxMemPool \<Rightarrow> CTxMemPool" where
  "mp_clear P = P\<lparr>mapTx := Map.empty, mapNextTx := Map.empty, nTransactionsUpdated := nTransactionsUpdated P + 1\<rparr>"

text \<open>The keys in the order of the map.\<close>

definition queryHashes :: "CTxMemPool \<Rightarrow> uint256 list" where
  "queryHashes P = sorted_list_of_set (dom (mapTx P))"

definition mp_size :: "CTxMemPool \<Rightarrow> nat" where
  "mp_size P = card (dom (mapTx P))"

definition mp_exists :: "uint256 \<Rightarrow> CTxMemPool \<Rightarrow> bool" where
  "mp_exists hash P \<longleftrightarrow> mapTx P hash \<noteq> None"

definition mp_lookup :: "uint256 \<Rightarrow> CTxMemPool \<Rightarrow> CTransaction option" where
  "mp_lookup hash P = mapTx P hash"

section \<open>The invariant\<close>

text \<open>
  Every transaction is under its hash, and the inputs of the transactions of the pool are exactly the
  keys of \<open>mapNextTx\<close>, each with the input that spends it.
\<close>

definition pool_ok :: "(bytes \<Rightarrow> uint256) \<Rightarrow> CTxMemPool \<Rightarrow> bool" where
  "pool_ok H P \<longleftrightarrow>
     finite (dom (mapTx P)) \<and>
     (\<forall>h tx. mapTx P h = Some tx \<longrightarrow>
        tx_GetHash H tx = h \<and> length (vin tx) < 2 ^ 32 \<and> length (vout tx) < 2 ^ 32 \<and>
        (\<forall>i < length (vin tx).
           mapNextTx P (prevout (vin tx ! i)) = Some \<lparr>ptx = Some h, in_n = word_of_nat i\<rparr>)) \<and>
     (\<forall>p it. mapNextTx P p = Some it \<longrightarrow>
        (\<exists>h tx. ptx it = Some h \<and> mapTx P h = Some tx \<and> p \<in> prevout ` set (vin tx)))"

text \<open>A transaction of the pool, and one that spends an output of it.\<close>

definition spends :: "CTxMemPool \<Rightarrow> uint256 \<Rightarrow> uint256 \<Rightarrow> bool" where
  "spends P h c \<longleftrightarrow>
     (\<exists>tx i it. mapTx P h = Some tx \<and> i < length (vout tx) \<and>
        mapNextTx P \<lparr>op_hash = h, op_n = word_of_nat i\<rparr> = Some it \<and> ptx it = Some c)"

definition ranked :: "(uint256 \<Rightarrow> nat) \<Rightarrow> CTxMemPool \<Rightarrow> bool" where
  "ranked rank P \<longleftrightarrow> (\<forall>h c. spends P h c \<longrightarrow> rank h < rank c)"

definition descendants :: "CTxMemPool \<Rightarrow> uint256 \<Rightarrow> uint256 set" where
  "descendants P h = {c. (spends P)\<^sup>*\<^sup>* h c}"

text \<open>The pool without the transactions of a set, whatever its counter.\<close>

definition without :: "CTxMemPool \<Rightarrow> uint256 set \<Rightarrow> CTxMemPool \<Rightarrow> bool" where
  "without P D P' \<longleftrightarrow>
     mapTx P' = mapTx P |` (- D) \<and>
     mapNextTx P' = (\<lambda>p. case mapNextTx P p of
        None \<Rightarrow> None | Some it \<Rightarrow> (if ptx it \<in> Some ` D then None else Some it))"

lemma pool_okD:
  assumes "pool_ok H P" "mapTx P h = Some tx"
  shows "tx_GetHash H tx = h" "length (vin tx) < 2 ^ 32" "length (vout tx) < 2 ^ 32"
    "i < length (vin tx) \<Longrightarrow> mapNextTx P (prevout (vin tx ! i)) = Some \<lparr>ptx = Some h, in_n = word_of_nat i\<rparr>"
  using assms unfolding pool_ok_def by blast+

lemma pool_ok_next:
  assumes "pool_ok H P" "mapNextTx P p = Some it"
  obtains h tx where "ptx it = Some h" "mapTx P h = Some tx" "p \<in> prevout ` set (vin tx)"
  using assms unfolding pool_ok_def by blast

lemma pool_ok_input:
  assumes "pool_ok H P" "mapTx P h = Some tx" "p \<in> prevout ` set (vin tx)"
  obtains it where "mapNextTx P p = Some it" "ptx it = Some h"
  using assms pool_okD(4)[OF assms(1,2)] by (fastforce simp: in_set_conv_nth)

lemma without_pool_ok:
  assumes "pool_ok H P" "without P D P'"
  shows "pool_ok H P'"
  unfolding pool_ok_def
proof (intro conjI allI impI)
  have "dom (mapTx P') \<subseteq> dom (mapTx P)" using assms(2) by (auto simp: without_def restrict_map_def split: if_splits)
  then show "finite (dom (mapTx P'))" using assms(1) finite_subset unfolding pool_ok_def by blast
next
  fix h tx assume a: "mapTx P' h = Some tx"
  then have h: "mapTx P h = Some tx" "h \<notin> D" using assms(2) by (auto simp: without_def restrict_map_def split: if_splits)
  note b = pool_okD[OF assms(1) h(1)]
  show "tx_GetHash H tx = h" "length (vin tx) < 2 ^ 32" "length (vout tx) < 2 ^ 32" using b by simp_all
  show "mapNextTx P' (prevout (vin tx ! i)) = Some \<lparr>ptx = Some h, in_n = word_of_nat i\<rparr>" if "i < length (vin tx)" for i
    using b(4)[OF that] assms(2) h(2) by (auto simp: without_def)
next
  fix p it assume "mapNextTx P' p = Some it"
  then have p: "mapNextTx P p = Some it" "ptx it \<notin> Some ` D"
    using assms(2) by (auto simp: without_def split: option.splits if_splits)
  obtain h tx where h: "ptx it = Some h" "mapTx P h = Some tx" "p \<in> prevout ` set (vin tx)"
    using pool_ok_next[OF assms(1) p(1)] .
  then show "\<exists>h tx. ptx it = Some h \<and> mapTx P' h = Some tx \<and> p \<in> prevout ` set (vin tx)"
    using p(2) assms(2) by (auto simp: without_def restrict_map_def)
qed

lemma without_empty: "without P {} P"
  by (auto simp: without_def split: option.split)

lemma without_trans: "without P D P' \<Longrightarrow> without P' E P'' \<Longrightarrow> without P (D \<union> E) P''"
  by (auto simp: without_def restrict_map_def fun_eq_iff split: option.splits if_splits)

lemma without_iff:
  assumes "without P D P'"
  shows "mapTx P' h = Some tx \<longleftrightarrow> mapTx P h = Some tx \<and> h \<notin> D"
    "mapNextTx P' p = Some it \<longleftrightarrow> mapNextTx P p = Some it \<and> ptx it \<notin> Some ` D"
  using assms by (auto simp: without_def restrict_map_def split: option.splits)

lemma spends_without:
  assumes "without P D P'"
  shows "spends P' h c \<longleftrightarrow> spends P h c \<and> h \<notin> D \<and> c \<notin> D"
  unfolding spends_def without_iff[OF assms] by force

lemma without_ranked: "ranked rank P \<Longrightarrow> without P D P' \<Longrightarrow> ranked rank P'"
  by (simp add: ranked_def spends_without)

lemma spends_pool:
  assumes "pool_ok H P" "spends P h c"
  shows "h \<in> dom (mapTx P)" "c \<in> dom (mapTx P)"
  using assms by (auto simp: spends_def elim: pool_ok_next)

text \<open>
  If no transaction of the pool spends itself through others, which would take a cycle of hashes, there is
  a rank: how many it spends, directly or through others.
\<close>

lemma acyclic_ranked:
  assumes "pool_ok H P" "acyclicP (spends P)"
  shows "\<exists>rank. ranked rank P"
proof -
  let ?r = "{(x, y). spends P x y}"
  let ?below = "\<lambda>c. {h. (h, c) \<in> ?r\<^sup>+}"
  have fin: "finite (?below c)" for c
  proof (rule finite_subset)
    show "?below c \<subseteq> dom (mapTx P)" using spends_pool(1)[OF assms(1)] by (fastforce dest: tranclD)
    show "finite (dom (mapTx P))" using assms(1) by (simp add: pool_ok_def)
  qed
  have "card (?below h) < card (?below c)" if "spends P h c" for h c
  proof (rule psubset_card_mono[OF fin])
    have "(h, c) \<in> ?r" using that by simp
    moreover have "(h, h) \<notin> ?r\<^sup>+" using assms(2) by (simp add: acyclic_def)
    ultimately show "?below h \<subset> ?below c" by (auto intro: trancl_into_trancl)
  qed
  then show ?thesis unfolding ranked_def by (intro exI[of _ "\<lambda>c. card (?below c)"]) blast
qed

lemma ranked_acyclic: "ranked rank P \<Longrightarrow> acyclicP (spends P)"
proof -
  assume r: "ranked rank P"
  have "rank x < rank y" if "(x, y) \<in> {(x, y). spends P x y}\<^sup>+" for x y
    using that by induction (use r in \<open>fastforce simp: ranked_def\<close>)+
  then show ?thesis unfolding acyclic_def by blast
qed

section \<open>Removal\<close>

lemma foldl_erase:
  "foldl (\<lambda>m txin. m(prevout txin := None)) m ins p = (if p \<in> prevout ` set ins then None else m p)"
  by (induction ins arbitrary: m) auto

text \<open>Erasing one transaction leaves the pool without it, also when it was lost before.\<close>

lemma erase_tx_more:
  assumes "pool_ok H P" "mapTx P h = Some tx" "without P D Q"
  shows "without P (insert h D) (erase_tx h tx Q)"
proof -
  have e: "(\<exists>it. mapNextTx P p = Some it \<and> ptx it = Some h) \<longleftrightarrow> p \<in> prevout ` set (vin tx)" for p
    using assms by (auto elim: pool_ok_next pool_ok_input)
  have "p \<in> prevout ` set (vin tx) \<longleftrightarrow> (case mapNextTx P p of None \<Rightarrow> False | Some it \<Rightarrow> ptx it = Some h)" for p
    using e[of p] by (cases "mapNextTx P p") simp_all
  then show ?thesis using assms(3)
    by (auto simp: without_def erase_tx_def foldl_erase fun_eq_iff restrict_map_def split: option.split)
qed

lemma erase_tx_without: "pool_ok H P \<Longrightarrow> mapTx P h = Some tx \<Longrightarrow> without P {h} (erase_tx h tx P)"
  by (rule erase_tx_more[OF _ _ without_empty])

lemma descendants_self [simp]: "h \<in> descendants P h"
  by (simp add: descendants_def)

definition spend_closed :: "CTxMemPool \<Rightarrow> uint256 set \<Rightarrow> bool" where
  "spend_closed P D \<longleftrightarrow> (\<forall>a b. a \<in> D \<and> spends P a b \<longrightarrow> b \<in> D)"

lemma descendants_closed: "spend_closed P (descendants P h)"
  unfolding spend_closed_def descendants_def by (auto intro: rtranclp.rtrancl_into_rtrancl)

lemma closed_descendants: "spend_closed P D \<Longrightarrow> a \<in> D \<Longrightarrow> descendants P a \<subseteq> D"
proof
  fix x assume D: "spend_closed P D" "a \<in> D" and "x \<in> descendants P a"
  then have "(spends P)\<^sup>*\<^sup>* a x" by (simp add: descendants_def)
  then show "x \<in> D" by (induction rule: rtranclp_induct) (use D in \<open>auto simp: spend_closed_def\<close>)
qed

text \<open>What a pool loses does not change which transactions remain to be lost.\<close>

lemma descendants_without:
  assumes "without P D Q" "spend_closed P D"
  shows "D \<union> descendants Q c = D \<union> descendants P c"
proof (intro equalityI subsetI)
  fix x assume "x \<in> D \<union> descendants Q c"
  moreover have "(spends P)\<^sup>*\<^sup>* c x" if "(spends Q)\<^sup>*\<^sup>* c x"
    using that by (induction rule: rtranclp_induct)
      (auto simp: spends_without[OF assms(1)] intro: rtranclp.rtrancl_into_rtrancl)
  ultimately show "x \<in> D \<union> descendants P c" by (auto simp: descendants_def)
next
  fix x assume "x \<in> D \<union> descendants P c"
  moreover have "x \<in> D \<or> (spends Q)\<^sup>*\<^sup>* c x" if "(spends P)\<^sup>*\<^sup>* c x"
    using that
  proof (induction rule: rtranclp_induct)
    case (step y z)
    show ?case
    proof (cases "z \<in> D")
      case False
      then have "y \<notin> D" using step.hyps(2) assms(2) by (auto simp: spend_closed_def)
      then have "spends Q y z" using False step.hyps(2) by (simp add: spends_without[OF assms(1)])
      then show ?thesis using step.IH \<open>y \<notin> D\<close> by (auto intro: rtranclp.rtrancl_into_rtrancl)
    qed simp
  qed simp
  ultimately show "x \<in> D \<union> descendants Q c" by (auto simp: descendants_def)
qed

text \<open>The transactions that spend one of some outputs.\<close>

definition spenders :: "CTxMemPool \<Rightarrow> uint256 \<Rightarrow> nat list \<Rightarrow> uint256 set" where
  "spenders P h is =
     {c. \<exists>i it. i \<in> set is \<and> mapNextTx P \<lparr>op_hash = h, op_n = word_of_nat i\<rparr> = Some it \<and> ptx it = Some c}"

lemma spenders_spends: "mapTx P h = Some tx \<Longrightarrow> c \<in> spenders P h [0..<length (vout tx)] \<longleftrightarrow> spends P h c"
  unfolding spenders_def spends_def by auto

lemma descendants_step: "descendants P h = {h} \<union> (\<Union>c \<in> {c. spends P h c}. descendants P c)"
proof -
  have "(spends P)\<^sup>*\<^sup>* h x \<longleftrightarrow> x = h \<or> (\<exists>c. spends P h c \<and> (spends P)\<^sup>*\<^sup>* c x)" for x
    by (metis converse_rtranclp_into_rtranclp rtranclp.rtrancl_refl converse_rtranclpE)
  then show ?thesis by (auto simp: descendants_def)
qed

lemma closed_Union: "spend_closed P (\<Union>c \<in> S. descendants P c)"
  using descendants_closed[of P] unfolding spend_closed_def by blast

lemma without_absent:
  assumes "pool_ok H P" "mapTx P h = None"
  shows "without P (descendants P h) P"
proof -
  have "\<not> spends P h c" for c using assms(2) by (auto simp: spends_def)
  then have "descendants P h = {h}" using descendants_step[of P h] by simp
  moreover have "ptx it \<noteq> Some h" if "mapNextTx P p = Some it" for p it
    by (rule pool_ok_next[OF assms(1) that]) (use assms(2) in auto)
  ultimately show ?thesis
    using assms(2) unfolding without_def by (intro conjI ext) (auto simp: restrict_map_def split: option.split)
qed

text \<open>One turn of the loop over the outputs, with the recursive call as a parameter.\<close>

definition remove_child ::
  "(CTransaction \<Rightarrow> CTxMemPool \<Rightarrow> CTxMemPool option) \<Rightarrow> uint256 \<Rightarrow> nat \<Rightarrow> CTxMemPool \<Rightarrow> CTxMemPool option" where
  "remove_child rem h i P =
     (case mapNextTx P \<lparr>op_hash = h, op_n = word_of_nat i\<rparr> of
        None \<Rightarrow> Some P
      | Some it \<Rightarrow> Option.bind (ptx it) (\<lambda>key. Option.bind (mapTx P key) (\<lambda>txChild. rem txChild P)))"

lemma mp_remove_rec:
  "mp_remove H tx True P =
     (if mapTx P (tx_GetHash H tx) = None then Some P
      else Option.bind (ofold (remove_child (\<lambda>t. mp_remove H t True) (tx_GetHash H tx)) [0..<length (vout tx)] P)
        (\<lambda>P. Some (erase_tx (tx_GetHash H tx) tx P)))"
  by (subst mp_remove.simps) (simp add: Let_def remove_child_def[abs_def])

abbreviation gone :: "CTxMemPool \<Rightarrow> uint256 \<Rightarrow> nat list \<Rightarrow> uint256 set" where
  "gone P h is \<equiv> \<Union>c \<in> spenders P h is. descendants P c"

text \<open>Losing a descendant of what remains.\<close>

lemma without_descendants:
  assumes "without P D Q" "spend_closed P D" "without Q (descendants Q c) Q'"
  shows "without P (D \<union> descendants P c) Q'"
  using without_trans[OF assms(1,3)] descendants_without[OF assms(1,2), of c] by simp

lemma remove_child_cases:
  assumes ok: "pool_ok H P" and tx: "mapTx P h = Some tx" "i < length (vout tx)" and Q: "without P (gone P h pre) Q"
  obtains "remove_child rem h i Q = Some Q" "without P (gone P h (pre @ [i])) Q"
    | c ctx where "spends P h c" "mapTx Q c = Some ctx" "remove_child rem h i Q = rem ctx Q"
      "\<And>Q'. without Q (descendants Q c) Q' \<Longrightarrow> without P (gone P h (pre @ [i])) Q'"
proof (cases "mapNextTx P \<lparr>op_hash = h, op_n = word_of_nat i\<rparr>")
  case None
  then have "spenders P h (pre @ [i]) = spenders P h pre" by (auto simp: spenders_def)
  moreover have "remove_child rem h i Q = Some Q" using None Q by (simp add: remove_child_def without_def)
  ultimately show ?thesis using that(1) Q by simp
next
  case (Some it)
  obtain c ctx where c: "ptx it = Some c" "mapTx P c = Some ctx" using pool_ok_next[OF ok Some] .
  then have sp: "spends P h c" using Some tx by (auto simp: spends_def)
  have more: "gone P h (pre @ [i]) = gone P h pre \<union> descendants P c" using Some c by (auto simp: spenders_def)
  show ?thesis
  proof (cases "c \<in> gone P h pre")
    case True
    then have "gone P h (pre @ [i]) = gone P h pre"
      unfolding more using closed_descendants[OF closed_Union True] by blast
    moreover have "remove_child rem h i Q = Some Q" using True Q Some c by (auto simp: remove_child_def without_def)
    ultimately show ?thesis using that(1) Q by simp
  next
    case False
    have Qc: "mapTx Q c = Some ctx" "mapNextTx Q \<lparr>op_hash = h, op_n = word_of_nat i\<rparr> = Some it"
      using False Some c by (auto simp: without_iff[OF Q])
    then have "remove_child rem h i Q = rem ctx Q" using c by (simp add: remove_child_def)
    then show ?thesis using that(2)[OF sp Qc(1)] without_descendants[OF Q closed_Union] more by simp
  qed
qed

lemma spenders_all: "mapTx P h = Some tx \<Longrightarrow> spenders P h [0..<length (vout tx)] = {c. spends P h c}"
  using spenders_spends by blast

lemma without_nothing: "without P (gone P h []) P"
  by (simp add: spenders_def without_empty)

text \<open>What a recursive removal that returns has removed.\<close>

lemma remove_loop_removes:
  assumes ok: "pool_ok H P" and tx: "mapTx P (tx_GetHash H tx) = Some tx"
    and IH: "\<And>t Q Q'. rem H t True Q = Some Q' \<Longrightarrow>
      pool_ok H Q \<longrightarrow> mapTx Q (tx_GetHash H t) = Some t \<longrightarrow> without Q (descendants Q (tx_GetHash H t)) Q'"
    and r: "Option.bind (ofold (remove_child (\<lambda>t. rem H t True) (tx_GetHash H tx)) [0..<length (vout tx)] P)
      (\<lambda>P. Some (erase_tx (tx_GetHash H tx) tx P)) = Some P'"
  shows "without P (descendants P (tx_GetHash H tx)) P'"
proof -
  let ?h = "tx_GetHash H tx" and ?is = "[0..<length (vout tx)]"
  obtain Q where Q: "ofold (remove_child (\<lambda>t. rem H t True) ?h) ?is P = Some Q" "P' = erase_tx ?h tx Q"
    using r by (auto split: bind_splits)
  have "without P (gone P ?h ?is) Q"
  proof (rule ofold_result[where P = "\<lambda>pre. without P (gone P ?h pre)", OF Q(1) without_nothing])
    fix pre i post S S'
    assume a: "?is = pre @ i # post" "without P (gone P ?h pre) S" "remove_child (\<lambda>t. rem H t True) ?h i S = Some S'"
    have "i \<in> set ?is" unfolding a(1) by simp
    then have i: "i < length (vout tx)" by simp
    show "without P (gone P ?h (pre @ [i])) S'"
    proof (rule remove_child_cases[OF ok tx i a(2), of "\<lambda>t. rem H t True"])
      assume "remove_child (\<lambda>t. rem H t True) ?h i S = Some S" "without P (gone P ?h (pre @ [i])) S"
      then show ?thesis using a(3) by simp
    next
      fix c ctx
      assume c: "mapTx S c = Some ctx" "remove_child (\<lambda>t. rem H t True) ?h i S = rem H ctx True S"
        "\<And>Q'. without S (descendants S c) Q' \<Longrightarrow> without P (gone P ?h (pre @ [i])) Q'"
      have S: "pool_ok H S" by (rule without_pool_ok[OF ok a(2)])
      have "tx_GetHash H ctx = c" by (rule pool_okD(1)[OF S c(1)])
      then show ?thesis using IH[of ctx S S'] a(3) c S by simp
    qed
  qed
  then show ?thesis using erase_tx_more[OF ok tx] Q(2) descendants_step[of P ?h] spenders_all[OF tx] by simp
qed

text \<open>The induction of a call that returns.\<close>

lemma mp_remove_induct:
  assumes "mp_remove H tx r P = Some P'"
    and "\<And>rem H tx r P P'.
      \<lbrakk>\<And>H tx r P P'. rem H tx r P = Some P' \<Longrightarrow> G H tx r P P';
       (let hash = tx_GetHash H tx
        in if mapTx P hash = None then Some P
           else Option.bind
             (if r then ofold (remove_child (\<lambda>t. rem H t True) hash) [0..<length (vout tx)] P else Some P)
             (\<lambda>P. Some (erase_tx hash tx P))) = Some P'\<rbrakk> \<Longrightarrow> G H tx r P P'"
  shows "G H tx r P P'"
proof -
  let ?G = "\<lambda>(((H, tx), r), P) P'. G H tx r P P'"
  have "?G (((H, tx), r), P) P'"
  proof (rule mp_remove.raw_induct[of ?G, OF _ assms(1)])
    fix rem :: "(bytes \<Rightarrow> uint256) \<Rightarrow> CTransaction \<Rightarrow> bool \<Rightarrow> CTxMemPool \<Rightarrow> CTxMemPool option" and H tx r P P'
    assume IH: "\<And>H tx r P y. rem H tx r P = Some y \<Longrightarrow> ?G (((H, tx), r), P) y"
      and eq: "(let hash = tx_GetHash H tx
        in if mapTx P hash = None then Some P
           else Option.bind
             (if r then ofold (\<lambda>i P. case mapNextTx P \<lparr>op_hash = hash, op_n = word_of_nat i\<rparr> of
                   None \<Rightarrow> Some P
                 | Some it \<Rightarrow> Option.bind (ptx it) (\<lambda>key. Option.bind (mapTx P key) (\<lambda>txChild. rem H txChild True P)))
                 [0..<length (vout tx)] P
              else Some P)
             (\<lambda>P. Some (erase_tx hash tx P))) = Some P'"
    have "G H tx r P P'"
      by (rule assms(2)[of rem, unfolded remove_child_def[abs_def]]) (use IH in simp, rule eq)
    then show "?G (((H, tx), r), P) P'" by simp
  qed
  then show ?thesis by simp
qed

lemma remove_removes:
  assumes "mp_remove H tx r P = Some P'" "r" "pool_ok H P" "mapTx P (tx_GetHash H tx) = Some tx"
  shows "without P (descendants P (tx_GetHash H tx)) P'"
proof -
  let ?G = "\<lambda>H tx r P P'. r \<longrightarrow> pool_ok H P \<longrightarrow> mapTx P (tx_GetHash H tx) = Some tx \<longrightarrow>
    without P (descendants P (tx_GetHash H tx)) P'"
  have "?G H tx r P P'"
  proof (rule mp_remove_induct[where G = ?G, OF assms(1)], intro impI)
    fix rem :: "(bytes \<Rightarrow> uint256) \<Rightarrow> CTransaction \<Rightarrow> bool \<Rightarrow> CTxMemPool \<Rightarrow> CTxMemPool option" and H tx r P P'
    let ?h = "tx_GetHash H tx"
    assume IH: "\<And>H tx r P P'. rem H tx r P = Some P' \<Longrightarrow> ?G H tx r P P'"
      and eq: "(let hash = ?h in if mapTx P hash = None then Some P
        else Option.bind (if r then ofold (remove_child (\<lambda>t. rem H t True) hash) [0..<length (vout tx)] P else Some P)
          (\<lambda>P. Some (erase_tx hash tx P))) = Some P'"
      and prems: "r" "pool_ok H P" "mapTx P ?h = Some tx"
    show "without P (descendants P ?h) P'" by (rule remove_loop_removes[OF prems(2,3), of rem]) (use IH eq prems in \<open>simp_all add: Let_def\<close>)
  qed
  then show ?thesis using assms by blast
qed

text \<open>It returns when the transactions of the pool are ranked.\<close>

lemma remove_returns:
  assumes "pool_ok H P" "ranked rank P" "\<forall>c tx. mapTx P c = Some tx \<longrightarrow> rank c < M" "mapTx P h = Some tx"
  shows "\<exists>P'. mp_remove H tx True P = Some P'"
  using assms
proof (induction "M - rank h" arbitrary: P h tx rule: less_induct)
  case less
  note ok = less.prems(1) and rk = less.prems(2)
  let ?rem = "\<lambda>t. mp_remove H t True" and ?is = "[0..<length (vout tx)]"
  have hash: "tx_GetHash H tx = h" using pool_okD[OF ok less.prems(4)] by simp
  have "\<exists>Q. ofold (remove_child ?rem h) ?is P = Some Q \<and> without P (gone P h ?is) Q"
  proof (rule ofold_prefix_invariant[where P = "\<lambda>pre. without P (gone P h pre)", OF without_nothing])
    fix pre i post S
    assume a: "?is = pre @ i # post" "without P (gone P h pre) S"
    have "i \<in> set ?is" unfolding a(1) by simp
    then have i: "i < length (vout tx)" by simp
    show "\<exists>S'. remove_child ?rem h i S = Some S' \<and> without P (gone P h (pre @ [i])) S'"
    proof (rule remove_child_cases[OF ok less.prems(4) i a(2), of ?rem])
      fix c ctx
      assume c: "spends P h c" "mapTx S c = Some ctx" "remove_child ?rem h i S = mp_remove H ctx True S"
        "\<And>Q'. without S (descendants S c) Q' \<Longrightarrow> without P (gone P h (pre @ [i])) Q'"
      have S: "pool_ok H S" "ranked rank S" "\<forall>c tx. mapTx S c = Some tx \<longrightarrow> rank c < M"
        using without_pool_ok[OF ok a(2)] without_ranked[OF rk a(2)] less.prems(3) without_iff(1)[OF a(2)] by blast+
      have "rank h < rank c" "rank c < M" using rk c(1,2) S(3) by (auto simp: ranked_def)
      then have "M - rank c < M - rank h" by simp
      then obtain S' where S': "mp_remove H ctx True S = Some S'" using less.hyps[OF _ S c(2)] by blast
      have "tx_GetHash H ctx = c" by (rule pool_okD(1)[OF S(1) c(2)])
      then show ?thesis using remove_removes[OF S' TrueI S(1)] S' c by auto
    qed blast
  qed
  then show ?case using less.prems(4) by (auto simp: mp_remove_rec hash)
qed

text \<open>The bound on the ranks comes from the pool being finite.\<close>

lemma rank_bound: "pool_ok H P \<Longrightarrow> \<exists>M. \<forall>c tx. mapTx P c = Some tx \<longrightarrow> rank c < (M :: nat)"
proof -
  assume "pool_ok H P"
  then have f: "finite (rank ` dom (mapTx P))" by (simp add: pool_ok_def)
  have "rank c < Suc (Max (rank ` dom (mapTx P)))" if "mapTx P c = Some tx" for c tx
    using Max_ge[OF f imageI[OF domI[of "mapTx P" c tx]]] that by (simp add: less_Suc_eq_le)
  then show ?thesis by blast
qed

lemma remove_pool_returns:
  assumes "pool_ok H P" "ranked rank P" "mapTx P h = Some tx"
  shows "\<exists>P'. mp_remove H tx True P = Some P'"
  using rank_bound[OF assms(1)] remove_returns[OF assms(1,2) _ assms(3)] by blast

lemma remove_pool_removes:
  assumes "pool_ok H P" "mapTx P h = Some tx" "mp_remove H tx True P = Some P'"
  shows "without P (descendants P h) P'"
  using remove_removes[OF assms(3) TrueI assms(1)] pool_okD(1)[OF assms(1,2)] assms(2) by simp

lemma remove_one:
  assumes "pool_ok H P" "mapTx P h = Some tx"
  shows "mp_remove H tx False P = Some (erase_tx h tx P)"
  using assms pool_okD(1)[OF assms] by (subst mp_remove.simps) (simp add: Let_def)

text \<open>The transactions of the pool, other than the given one, that spend one of its inputs.\<close>

definition conflicts :: "CTxMemPool \<Rightarrow> CTransaction \<Rightarrow> CTxIn list \<Rightarrow> uint256 set" where
  "conflicts P tx ins =
     {c. \<exists>ctx. mapTx P c = Some ctx \<and> \<not> tx_eq ctx tx \<and> prevout ` set (vin ctx) \<inter> prevout ` set ins \<noteq> {}}"

lemma conflicts_snoc:
  assumes "pool_ok H P"
  shows "conflicts P tx (pre @ [i]) = conflicts P tx pre \<union>
    {c. \<exists>ctx it. mapNextTx P (prevout i) = Some it \<and> ptx it = Some c \<and> mapTx P c = Some ctx \<and> \<not> tx_eq ctx tx}"
proof -
  have k: "(mapTx P c = Some ctx \<and> prevout i \<in> prevout ` set (vin ctx)) \<longleftrightarrow>
      (\<exists>it. mapNextTx P (prevout i) = Some it \<and> ptx it = Some c \<and> mapTx P c = Some ctx)" for c ctx
  proof
    assume "mapTx P c = Some ctx \<and> prevout i \<in> prevout ` set (vin ctx)"
    then show "\<exists>it. mapNextTx P (prevout i) = Some it \<and> ptx it = Some c \<and> mapTx P c = Some ctx"
      using pool_ok_input[OF assms] by metis
  next
    assume "\<exists>it. mapNextTx P (prevout i) = Some it \<and> ptx it = Some c \<and> mapTx P c = Some ctx"
    then show "mapTx P c = Some ctx \<and> prevout i \<in> prevout ` set (vin ctx)"
      using pool_ok_next[OF assms] by (metis option.inject)
  qed
  have e: "{c. \<exists>ctx it. mapNextTx P (prevout i) = Some it \<and> ptx it = Some c \<and> mapTx P c = Some ctx \<and> \<not> tx_eq ctx tx} =
      {c. \<exists>ctx. (mapTx P c = Some ctx \<and> prevout i \<in> prevout ` set (vin ctx)) \<and> \<not> tx_eq ctx tx}"
    unfolding k by blast
  have u: "A \<inter> prevout ` set (pre @ [i]) \<noteq> {} \<longleftrightarrow> A \<inter> prevout ` set pre \<noteq> {} \<or> prevout i \<in> A" for A
    by auto
  show ?thesis unfolding e unfolding conflicts_def u by (simp only: Un_def mem_Collect_eq) (rule Collect_cong, blast)
qed

text \<open>One turn of \<open>removeConflicts\<close>.\<close>

definition conflict_turn :: "(bytes \<Rightarrow> uint256) \<Rightarrow> CTransaction \<Rightarrow> CTxIn \<Rightarrow> CTxMemPool \<Rightarrow> CTxMemPool option" where
  "conflict_turn H tx txin P =
     (case mapNextTx P (prevout txin) of
        None \<Rightarrow> Some P
      | Some it \<Rightarrow> Option.bind (ptx it) (\<lambda>key. Option.bind (mapTx P key) (\<lambda>txConflict.
          if \<not> tx_eq txConflict tx then mp_remove H txConflict True P else Some P)))"

lemma removeConflicts_turns: "removeConflicts H tx P = ofold (conflict_turn H tx) (vin tx) P"
  by (simp add: removeConflicts_def conflict_turn_def[abs_def])

abbreviation conflicts_gone :: "CTxMemPool \<Rightarrow> CTransaction \<Rightarrow> CTxIn list \<Rightarrow> uint256 set" where
  "conflicts_gone P tx ins \<equiv> \<Union>c \<in> conflicts P tx ins. descendants P c"

lemma conflict_turn_cases:
  assumes ok: "pool_ok H P" and Q: "without P (conflicts_gone P tx pre) Q"
  obtains "conflict_turn H tx i Q = Some Q" "without P (conflicts_gone P tx (pre @ [i])) Q"
    | c ctx where "mapTx Q c = Some ctx" "conflict_turn H tx i Q = mp_remove H ctx True Q"
      "\<And>Q'. without Q (descendants Q c) Q' \<Longrightarrow> without P (conflicts_gone P tx (pre @ [i])) Q'"
proof (cases "mapNextTx P (prevout i)")
  case None
  then have "conflict_turn H tx i Q = Some Q" "conflicts P tx (pre @ [i]) = conflicts P tx pre"
    using Q conflicts_snoc[OF ok, of tx pre i] by (simp_all add: conflict_turn_def without_def)
  then show ?thesis using that(1) Q by simp
next
  case (Some it)
  obtain c ctx where c: "ptx it = Some c" "mapTx P c = Some ctx" using pool_ok_next[OF ok Some] .
  have grow: "conflicts P tx (pre @ [i]) = conflicts P tx pre \<union> (if tx_eq ctx tx then {} else {c})"
    using conflicts_snoc[OF ok, of tx pre i] Some c by auto
  show ?thesis
  proof (cases "c \<in> conflicts_gone P tx pre")
    case True
    then have "conflicts_gone P tx (pre @ [i]) = conflicts_gone P tx pre"
      unfolding grow using closed_descendants[OF closed_Union True] by auto
    moreover have "conflict_turn H tx i Q = Some Q" using True Q Some c by (auto simp: conflict_turn_def without_def)
    ultimately show ?thesis using that(1) Q by simp
  next
    case False
    then have Qc: "mapTx Q c = Some ctx" "mapNextTx Q (prevout i) = Some it" using Some c by (auto simp: without_iff[OF Q])
    show ?thesis
    proof (cases "tx_eq ctx tx")
      case True
      then show ?thesis using that(1) Qc c Q grow by (simp add: conflict_turn_def)
    next
      case ne: False
      then have "conflicts_gone P tx (pre @ [i]) = conflicts_gone P tx pre \<union> descendants P c" using grow by auto
      then show ?thesis using that(2)[OF Qc(1)] without_descendants[OF Q closed_Union] Qc c ne by (simp add: conflict_turn_def)
    qed
  qed
qed

lemma conflicts_nothing: "without P (conflicts_gone P tx []) P"
  by (simp add: conflicts_def without_empty)

lemma conflicts_removed:
  assumes ok: "pool_ok H P" and r: "removeConflicts H tx P = Some P'"
  shows "without P (conflicts_gone P tx (vin tx)) P'"
proof (rule ofold_result[where P = "\<lambda>pre. without P (conflicts_gone P tx pre)", OF r[unfolded removeConflicts_turns] conflicts_nothing])
  fix pre i post Q Q'
  assume a: "without P (conflicts_gone P tx pre) Q" "conflict_turn H tx i Q = Some Q'"
  show "without P (conflicts_gone P tx (pre @ [i])) Q'"
    by (rule conflict_turn_cases[OF ok a(1), of i]) (use a(2) remove_pool_removes[OF without_pool_ok[OF ok a(1)]] in auto)
qed

lemma conflicts_return:
  assumes ok: "pool_ok H P" and rk: "ranked rank P"
  shows "\<exists>P'. removeConflicts H tx P = Some P'"
proof -
  have "\<exists>P'. ofold (conflict_turn H tx) (vin tx) P = Some P' \<and> without P (conflicts_gone P tx (vin tx)) P'"
  proof (rule ofold_prefix_invariant[where P = "\<lambda>pre. without P (conflicts_gone P tx pre)", OF conflicts_nothing])
    fix pre i post Q
    assume Q: "without P (conflicts_gone P tx pre) Q"
    note q = without_pool_ok[OF ok Q] without_ranked[OF rk Q]
    show "\<exists>Q'. conflict_turn H tx i Q = Some Q' \<and> without P (conflicts_gone P tx (pre @ [i])) Q'"
      by (rule conflict_turn_cases[OF ok Q, of i]) (use remove_pool_returns[OF q] remove_pool_removes[OF q(1)] in fastforce)+
  qed
  then show ?thesis unfolding removeConflicts_turns by blast
qed

section \<open>Insertion\<close>

lemma foldl_next_entries:
  assumes "distinct (map fst kvs)"
  shows "foldl (\<lambda>m (k, v). m(k \<mapsto> v)) m kvs p = (case map_of kvs p of None \<Rightarrow> m p | Some v \<Rightarrow> Some v)"
  using assms
proof (induction kvs arbitrary: m)
  case (Cons kv kvs)
  obtain k v where kv: "kv = (k, v)" by (cases kv) auto
  have "map_of kvs k = None" using Cons.prems kv by (simp add: map_of_eq_None_iff)
  then show ?case using Cons kv by (auto split: option.split)
qed simp

text \<open>What \<open>AcceptToMemoryPool\<close> has established when it adds a transaction.\<close>

definition addable :: "(bytes \<Rightarrow> uint256) \<Rightarrow> CTxMemPool \<Rightarrow> uint256 \<Rightarrow> CTransaction \<Rightarrow> bool" where
  "addable H P hash tx \<longleftrightarrow>
     tx_GetHash H tx = hash \<and> mapTx P hash = None \<and>
     length (vin tx) < 2 ^ 32 \<and> length (vout tx) < 2 ^ 32 \<and>
     distinct (map prevout (vin tx)) \<and>
     list_all (\<lambda>i. mapNextTx P (prevout i) = None \<and> op_hash (prevout i) \<noteq> hash) (vin tx)"

lemma add_maps:
  assumes "addable H P hash tx" "addUnchecked hash tx P = (b, P')"
  shows "mapTx P' = (mapTx P)(hash \<mapsto> tx)"
    "i < length (vin tx) \<Longrightarrow> mapNextTx P' (prevout (vin tx ! i)) = Some \<lparr>ptx = Some hash, in_n = word_of_nat i\<rparr>"
    "p \<notin> prevout ` set (vin tx) \<Longrightarrow> mapNextTx P' p = mapNextTx P p"
proof -
  have fst: "map fst (next_entries hash tx) = map prevout (vin tx)"
    by (rule nth_equalityI) (simp_all add: next_entries_def)
  then have d: "distinct (map fst (next_entries hash tx))" using assms(1) by (simp add: addable_def)
  have next': "mapNextTx P' p = (case map_of (next_entries hash tx) p of None \<Rightarrow> mapNextTx P p | Some v \<Rightarrow> Some v)" for p
    using assms(2) foldl_next_entries[OF d] by (auto simp: addUnchecked_def)
  show "mapTx P' = (mapTx P)(hash \<mapsto> tx)" using assms(2) by (auto simp: addUnchecked_def)
  show "mapNextTx P' (prevout (vin tx ! i)) = Some \<lparr>ptx = Some hash, in_n = word_of_nat i\<rparr>" if "i < length (vin tx)"
  proof -
    have "(prevout (vin tx ! i), \<lparr>ptx = Some hash, in_n = word_of_nat i\<rparr>) \<in> set (next_entries hash tx)"
      using that by (auto simp: next_entries_def)
    then show ?thesis using map_of_is_SomeI[OF d] by (simp add: next')
  qed
  show "mapNextTx P' p = mapNextTx P p" if "p \<notin> prevout ` set (vin tx)"
  proof -
    have "p \<notin> set (map fst (next_entries hash tx))" using that unfolding fst by simp
    then have "map_of (next_entries hash tx) p = None" by (simp add: map_of_eq_None_iff)
    then show ?thesis by (simp add: next')
  qed
qed

lemma add_pool_ok:
  assumes ok: "pool_ok H P" and fr: "addable H P hash tx" and add: "addUnchecked hash tx P = (b, P')"
  shows "pool_ok H P'"
  unfolding pool_ok_def
proof (intro conjI allI impI)
  note m = add_maps[OF fr add]
  show "finite (dom (mapTx P'))" using ok m(1) by (simp add: pool_ok_def)
  fix h tx' assume h: "mapTx P' h = Some tx'"
  show "tx_GetHash H tx' = h" "length (vin tx') < 2 ^ 32" "length (vout tx') < 2 ^ 32"
    using h ok fr m(1) by (auto simp: pool_ok_def addable_def split: if_splits)
  show "mapNextTx P' (prevout (vin tx' ! i)) = Some \<lparr>ptx = Some h, in_n = word_of_nat i\<rparr>" if i: "i < length (vin tx')" for i
  proof (cases "h = hash")
    case True
    then show ?thesis using h m i by simp
  next
    case False
    then have "mapTx P h = Some tx'" using h m(1) by simp
    then have old: "mapNextTx P (prevout (vin tx' ! i)) = Some \<lparr>ptx = Some h, in_n = word_of_nat i\<rparr>"
      using pool_okD(4)[OF ok] i by blast
    then have "prevout (vin tx' ! i) \<notin> prevout ` set (vin tx)" using fr by (auto simp: addable_def list_all_iff)
    then show ?thesis using old m(3) by simp
  qed
next
  note m = add_maps[OF fr add]
  fix p it assume p: "mapNextTx P' p = Some it"
  show "\<exists>h tx. ptx it = Some h \<and> mapTx P' h = Some tx \<and> p \<in> prevout ` set (vin tx)"
  proof (cases "p \<in> prevout ` set (vin tx)")
    case True
    then show ?thesis using p m by (fastforce simp: in_set_conv_nth)
  next
    case False
    then have "mapNextTx P p = Some it" using p m(3) by simp
    then obtain h tx' where h: "ptx it = Some h" "mapTx P h = Some tx'" "p \<in> prevout ` set (vin tx')"
      using pool_ok_next[OF ok] by blast
    then have "h \<noteq> hash" using fr by (auto simp: addable_def)
    then show ?thesis using h m(1) by simp
  qed
qed

lemma queryHashes_keys:
  "pool_ok H P \<Longrightarrow> set (queryHashes P) = dom (mapTx P) \<and> length (queryHashes P) = mp_size P"
  by (simp add: queryHashes_def mp_size_def pool_ok_def)

section \<open>Every pool the program reaches\<close>

text \<open>
  A transaction as it comes with a block: the pool has none with its hash, or one with the same inputs and
  outputs.
\<close>

definition as_in_pool :: "(bytes \<Rightarrow> uint256) \<Rightarrow> CTxMemPool \<Rightarrow> CTransaction \<Rightarrow> bool" where
  "as_in_pool H P tx \<longleftrightarrow>
     (case mapTx P (tx_GetHash H tx) of None \<Rightarrow> True | Some tx' \<Rightarrow> vin tx' = vin tx \<and> vout tx' = vout tx)"

lemma mp_remove_same:
  assumes "tx_GetHash H tx' = tx_GetHash H tx" "vin tx' = vin tx" "vout tx' = vout tx"
  shows "mp_remove H tx r P = mp_remove H tx' r P"
  by (subst mp_remove.simps, subst mp_remove.simps[of H tx']) (simp add: assms Let_def erase_tx_def)

text \<open>
  Transactions are added after the checks of \<open>addable\<close>, whether or not something in the pool spends them
  already, as when a reorganisation brings back a transaction whose child stayed; they are removed, alone or
  with what spends them, or because they conflict with one that was confirmed.
\<close>

inductive pool_reachable :: "(bytes \<Rightarrow> uint256) \<Rightarrow> CTxMemPool \<Rightarrow> bool" for H where
  start: "pool_reachable H \<lparr>nTransactionsUpdated = n, mapTx = Map.empty, mapNextTx = Map.empty\<rparr>"
| add: "pool_reachable H P \<Longrightarrow> addable H P hash tx \<Longrightarrow> pool_reachable H (snd (addUnchecked hash tx P))"
| remove: "pool_reachable H P \<Longrightarrow> as_in_pool H P tx \<Longrightarrow> mp_remove H tx fRecursive P = Some P' \<Longrightarrow>
    pool_reachable H P'"
| conflict: "pool_reachable H P \<Longrightarrow> removeConflicts H tx P = Some P' \<Longrightarrow> pool_reachable H P'"
| clear: "pool_reachable H P \<Longrightarrow> pool_reachable H (mp_clear P)"
| updated: "pool_reachable H P \<Longrightarrow> pool_reachable H (AddTransactionsUpdated n P)"

lemma same_maps_ok: "mapTx P' = mapTx P \<Longrightarrow> mapNextTx P' = mapNextTx P \<Longrightarrow> pool_ok H P' = pool_ok H P"
  by (simp add: pool_ok_def)

lemma remove_pool_ok:
  assumes "pool_ok H P" "as_in_pool H P tx" "mp_remove H tx r P = Some P'"
  shows "pool_ok H P'"
proof (cases "mapTx P (tx_GetHash H tx)")
  case None
  then have "P' = P" using assms(3) by (subst (asm) mp_remove.simps) (simp add: Let_def)
  then show ?thesis using assms(1) by simp
next
  case (Some tx')
  note h = pool_okD(1)[OF assms(1) Some]
  have "mp_remove H tx' r P = Some P'"
    using assms(2,3) Some mp_remove_same[OF h] by (simp add: as_in_pool_def)
  then have "\<exists>D. without P D P'"
    using remove_pool_removes[OF assms(1) Some] remove_one[OF assms(1) Some] erase_tx_without[OF assms(1) Some]
    by (cases r) auto
  then show ?thesis using without_pool_ok[OF assms(1)] by blast
qed

lemma reachable_ok: "pool_reachable H P \<Longrightarrow> pool_ok H P"
proof (induction rule: pool_reachable.induct)
  case (add P hash tx)
  then show ?case using add_pool_ok by (metis prod.collapse)
next
  case (remove P tx fRecursive P')
  then show ?case using remove_pool_ok by blast
next
  case (conflict P tx P')
  then show ?case using conflicts_removed without_pool_ok by blast
qed (simp_all add: pool_ok_def mp_clear_def AddTransactionsUpdated_def)

text \<open>A spent output has one spender.\<close>

lemma one_spender:
  assumes "pool_ok H P" "mapTx P h = Some tx" "mapTx P h' = Some tx'" "p \<in> prevout ` set (vin tx)" "p \<in> prevout ` set (vin tx')"
  shows "h = h'"
  using pool_ok_input[OF assms(1,2,4)] pool_ok_input[OF assms(1,3,5)] by (metis option.inject)

lemma without_mapTx: "without P D P' \<Longrightarrow> mapTx P' = mapTx P |` (- D)"
  by (simp add: without_def)

lemma no_conflicts_left:
  "without P (\<Union>c \<in> conflicts P tx (vin tx). descendants P c) P' \<Longrightarrow> conflicts P' tx (vin tx) = {}"
proof -
  let ?D = "\<Union>c \<in> conflicts P tx (vin tx). descendants P c"
  assume w: "without P ?D P'"
  have "c \<in> ?D" if "c \<in> conflicts P tx (vin tx)" for c
    using that by (auto intro!: bexI[of _ c])
  then show ?thesis using without_iff(1)[OF w] unfolding conflicts_def by blast
qed

section \<open>Properties\<close>

text \<open> C9.
  The two maps of the memory pool agree in every state it reaches, also when a transaction is added that one
  of the pool spends: each transaction is under its hash, the outputs marked as spent are exactly the inputs
  of the transactions of the pool, each with its spender, and no two of them spend one output.
\<close>

theorem mempool_invariant:
  assumes "pool_reachable H P"
  shows "pool_ok H P \<and> (\<forall>h h' tx tx'. mapTx P h = Some tx \<and> mapTx P h' = Some tx' \<and>
    prevout ` set (vin tx) \<inter> prevout ` set (vin tx') \<noteq> {} \<longrightarrow> h = h')"
  using reachable_ok[OF assms] one_spender[OF reachable_ok[OF assms]] by blast

text \<open>A pool with a transaction and one that spends its first output, which was there before.\<close>

definition demo_tx :: "COutPoint \<Rightarrow> CTxOut list \<Rightarrow> CTransaction" where
  "demo_tx p outs = \<lparr>tx_nVersion = 1, tx_nTime = 0, vin = [mk_txin p [] 0], vout = outs, nLockTime = 0, tx_nDoS = 0\<rparr>"

definition demo_parent :: CTransaction where
  "demo_parent = demo_tx \<lparr>op_hash = 7, op_n = 0\<rparr> [\<lparr>nValue = 5, nRounds = 0, scriptPubKey = []\<rparr>]"

definition demo_child :: CTransaction where
  "demo_child = demo_tx \<lparr>op_hash = 1, op_n = 0\<rparr> []"

definition demo_hash :: "bytes \<Rightarrow> uint256" where
  "demo_hash b = (if b = write_tx demo_parent then 1 else 2)"

definition demo_pool :: CTxMemPool where
  "demo_pool = snd (addUnchecked 1 demo_parent (snd (addUnchecked 2 demo_child
     \<lparr>nTransactionsUpdated = 0, mapTx = Map.empty, mapNextTx = Map.empty\<rparr>)))"

lemma demo_hashes: "tx_GetHash demo_hash demo_parent = 1" "tx_GetHash demo_hash demo_child = 2"
proof -
  have "length (write_tx demo_child) < length (write_tx demo_parent)" by code_simp
  then have "write_tx demo_child \<noteq> write_tx demo_parent" by force
  then show "tx_GetHash demo_hash demo_parent = 1" "tx_GetHash demo_hash demo_child = 2"
    by (simp_all add: tx_GetHash_def demo_hash_def)
qed

lemmas demo_defs = demo_parent_def demo_child_def demo_tx_def mk_txin_def addUnchecked_def next_entries_def

lemma demo_reachable: "pool_reachable demo_hash demo_pool"
  unfolding demo_pool_def
  by (intro pool_reachable.add pool_reachable.start)
    (auto simp: addable_def demo_hashes, auto simp: demo_defs)

lemma demo_maps:
  "mapTx demo_pool = [1 \<mapsto> demo_parent, 2 \<mapsto> demo_child]"
  "spends demo_pool 1 2"
  by (auto simp: demo_pool_def spends_def addUnchecked_def) (auto simp: demo_defs)

lemma demo_acyclic: "acyclicP (spends demo_pool)"
proof (rule ranked_acyclic)
  show "ranked (\<lambda>h. if h = 2 then 1 else 0) demo_pool"
    by (auto simp: ranked_def spends_def demo_pool_def addUnchecked_def split: if_splits) (auto simp: demo_defs split: if_splits)
qed

lemma mempool_invariant_witness:
  "pool_ok demo_hash demo_pool \<and> mp_size demo_pool = 2"
  using mempool_invariant[OF demo_reachable] by (simp add: mp_size_def demo_maps)

text \<open> C20.
  A recursive removal that returns has removed the transaction with everything that spends it directly or
  through others, and nothing else, and the pool that is left is again one the program reaches, so no pointer
  to an erased transaction is left behind.  It returns unless transactions of the pool spend each other in a
  cycle, which would take a cycle of hashes.
\<close>

theorem mempool_remove_descendants:
  assumes "pool_reachable H P" "mapTx P h = Some tx"
  shows "(\<forall>P'. mp_remove H tx True P = Some P' \<longrightarrow> mapTx P' = mapTx P |` (- descendants P h) \<and> pool_reachable H P') \<and>
    (acyclicP (spends P) \<longrightarrow> mp_remove H tx True P \<noteq> None)"
proof -
  note ok = reachable_ok[OF assms(1)]
  have "as_in_pool H P tx" using pool_okD(1)[OF ok assms(2)] assms(2) by (simp add: as_in_pool_def)
  then have "mapTx P' = mapTx P |` (- descendants P h) \<and> pool_reachable H P'" if "mp_remove H tx True P = Some P'" for P'
    using that without_mapTx remove_pool_removes[OF ok assms(2)] pool_reachable.remove[OF assms(1)] by blast
  moreover have "mp_remove H tx True P \<noteq> None" if "acyclicP (spends P)"
    using acyclic_ranked[OF ok that] remove_pool_returns[OF ok _ assms(2)] by auto
  ultimately show ?thesis by blast
qed

lemma mempool_remove_descendants_witness:
  "\<exists>P'. mp_remove demo_hash demo_parent True demo_pool = Some P' \<and> mapTx P' 1 = None \<and> mapTx P' 2 = None"
proof -
  have "2 \<in> descendants demo_pool 1" using demo_maps(2) by (auto simp: descendants_def)
  then show ?thesis
    using mempool_remove_descendants[OF demo_reachable, of 1 demo_parent] demo_acyclic by (auto simp: demo_maps)
qed

text \<open>
  The same for \<open>removeConflicts\<close>: it removes exactly the transactions of the pool, other than the given
  one, that spend one of its inputs, with everything that spends them; none is left in conflict.
\<close>

theorem mempool_remove_conflicts:
  assumes "pool_reachable H P"
  shows "(\<forall>P'. removeConflicts H tx P = Some P' \<longrightarrow>
      mapTx P' = mapTx P |` (- conflicts_gone P tx (vin tx)) \<and> conflicts P' tx (vin tx) = {} \<and> pool_reachable H P') \<and>
    (acyclicP (spends P) \<longrightarrow> removeConflicts H tx P \<noteq> None)"
proof -
  note ok = reachable_ok[OF assms]
  have "removeConflicts H tx P \<noteq> None" if "acyclicP (spends P)"
    using acyclic_ranked[OF ok that] conflicts_return[OF ok] by auto
  then show ?thesis
    using conflicts_removed[OF ok] without_mapTx no_conflicts_left pool_reachable.conflict[OF assms] by blast
qed

lemma mempool_remove_conflicts_witness:
  "\<exists>P'. removeConflicts demo_hash (demo_tx \<lparr>op_hash = 7, op_n = 0\<rparr> []) demo_pool = Some P' \<and>
     mapTx P' 1 = None \<and> mapTx P' 2 = None"
proof -
  let ?t = "demo_tx \<lparr>op_hash = 7, op_n = 0\<rparr> []"
  have "1 \<in> conflicts demo_pool ?t (vin ?t)"
    by (auto simp: conflicts_def demo_maps demo_parent_def demo_tx_def tx_eq_def mk_txin_def)
  moreover have "1 \<in> descendants demo_pool 1" "2 \<in> descendants demo_pool 1"
    using demo_maps(2) by (auto simp: descendants_def)
  ultimately have "{1, 2} \<subseteq> conflicts_gone demo_pool ?t (vin ?t)" by blast
  then show ?thesis using mempool_remove_conflicts[OF demo_reachable, of ?t] demo_acyclic by (auto simp: restrict_map_def)
qed

end
