(* ===== verification/Translations.thy ===== *)
theory Translations
  imports Prelude
begin

text \<open>
  Translated messages.  A translation source file of \<open>src/src/qt/locale\<close> is a list of contexts
  with their messages; its content is the type \<open>catalogue\<close>.  The program reads it through
  \<open>Translate\<close> of \<open>src/src/qt/bitcoin.cpp\<close> and \<open>_\<close> of \<open>src/src/ui_interface.h\<close>.  What Qt's tools
  and \<open>QCoreApplication::translate\<close> do with the file is a parameter, with their documented
  behaviour as the hypothesis \<open>qt_documented\<close>.  Text is UTF-8, a byte per character.
\<close>

section \<open>Translation source files\<close>

text \<open>The element \<open>translation\<close>, with its attribute \<open>type\<close> and its plural forms.\<close>

datatype translation =
    Finished string
  | Unfinished string
  | Plural "string list"
  | PluralUnfinished "string list"

text \<open>A location is a file, the one before when it is left out, and a line relative to the one before.\<close>

datatype message =
  Message (msg_locations: "(string option \<times> int) list") (msg_source: string) (msg_translation: translation)

type_synonym catalogue = "(string \<times> message list) list"

fun forms :: "translation \<Rightarrow> string list" where
  "forms (Finished t) = [t]"
| "forms (Unfinished t) = [t]"
| "forms (Plural ts) = ts"
| "forms (PluralUnfinished ts) = ts"

definition catalogue_get :: "catalogue \<Rightarrow> string \<Rightarrow> string \<Rightarrow> message option" where
  "catalogue_get cat ctx source =
     (case map_of cat ctx of None \<Rightarrow> None | Some ms \<Rightarrow> List.find (\<lambda>m. msg_source m = source) ms)"

section \<open>What the program does with them\<close>

text \<open>
  \<open>QCoreApplication::translate\<close> returns the translation in the installed file, or the source text
  when there is none; a message without text is not put into the installed file.  For a message
  with plural forms it returns one of the forms.
\<close>

definition qt_documented :: "catalogue \<Rightarrow> (string \<Rightarrow> string \<Rightarrow> string) \<Rightarrow> bool" where
  "qt_documented cat translate \<longleftrightarrow>
     (\<forall>ctx source. translate ctx source \<in>
        (case catalogue_get cat ctx source of
           None \<Rightarrow> {source}
         | Some m \<Rightarrow>
             (if list_all (\<lambda>t. t = []) (forms (msg_translation m)) then {source}
              else set (forms (msg_translation m)))))"

definition Translate :: "(string \<Rightarrow> string \<Rightarrow> string) \<Rightarrow> string \<Rightarrow> string" where
  "Translate translate psz = translate ''bitcoin-core'' psz"

text \<open>The slot connected to the signal of the user interface, if there is one.\<close>

definition underscore :: "(string \<Rightarrow> string) option \<Rightarrow> string \<Rightarrow> string" where
  "underscore slot psz = (case slot of Some f \<Rightarrow> f psz | None \<Rightarrow> psz)"

section \<open>What a translation must keep\<close>

text \<open>The conversions of a format string of \<open>strprintf\<close>, in order.\<close>

definition printf_flag :: "char \<Rightarrow> bool" where
  "printf_flag c \<longleftrightarrow> List.member ''-+ #.0123456789lh'' c"

fun printf_conversion :: "string \<Rightarrow> string \<Rightarrow> string" where
  "printf_conversion acc [] = rev acc"
| "printf_conversion acc (c # s) = (if printf_flag c then printf_conversion (c # acc) s else rev (c # acc))"

fun printf_specs :: "string \<Rightarrow> string list" where
  "printf_specs [] = []"
| "printf_specs (c # s) =
     (if c = CHR ''%'' then printf_conversion [] s # printf_specs (tl s) else printf_specs s)"

text \<open>The place markers \<open>%1\<close>, \<open>%2\<close>, \<dots>, \<open>%n\<close> of a message of the user interface, in order.\<close>

fun qt_markers :: "string \<Rightarrow> char list" where
  "qt_markers [] = []"
| "qt_markers (c # s) =
     (if c = CHR ''%'' \<and> s \<noteq> [] \<and> List.member ''123456789n'' (hd s) then hd s # qt_markers s else qt_markers s)"

text \<open>The shortcut marks of a label.\<close>

definition shortcuts :: "string \<Rightarrow> nat" where
  "shortcuts s = length (filter (\<lambda>c. c = CHR ''&'') s)"

definition blank :: "char \<Rightarrow> bool" where
  "blank c \<longleftrightarrow> c = CHR '' '' \<or> c = CHR 0x0A"

definition edges :: "string \<Rightarrow> bool \<times> bool" where
  "edges s = (s \<noteq> [] \<and> blank (hd s), s \<noteq> [] \<and> blank (last s))"

text \<open>A translation that has text in all its forms has in each what the source text has.\<close>

definition keeps :: "(string \<Rightarrow> 'a) \<Rightarrow> message \<Rightarrow> bool" where
  "keeps f m \<longleftrightarrow>
     (let ts = forms (msg_translation m)
      in list_all (\<lambda>t. t = []) ts \<or> list_all (\<lambda>t. t \<noteq> [] \<and> f t = f (msg_source m)) ts)"

definition label_ok :: "message \<Rightarrow> bool" where
  "label_ok m \<longleftrightarrow> keeps qt_markers m \<and> keeps shortcuts m"

section \<open>From the messages to what is displayed\<close>

lemma translate_cases:
  assumes "qt_documented cat translate"
  obtains "translate ctx source = source"
  | ms m where "map_of cat ctx = Some ms" "m \<in> set ms" "msg_source m = source"
      "\<not> list_all (\<lambda>t. t = []) (forms (msg_translation m))"
      "translate ctx source \<in> set (forms (msg_translation m))"
proof (cases "catalogue_get cat ctx source")
  case None
  then show ?thesis using assms[unfolded qt_documented_def, rule_format, of ctx source] that(1) by simp
next
  case (Some m)
  then obtain ms where ms: "map_of cat ctx = Some ms" "m \<in> set ms" "msg_source m = source"
    by (auto simp: catalogue_get_def find_Some_iff split: option.splits)
  have "translate ctx source \<in>
      (if list_all (\<lambda>t. t = []) (forms (msg_translation m)) then {source} else set (forms (msg_translation m)))"
    using assms[unfolded qt_documented_def, rule_format, of ctx source] Some by simp
  then show ?thesis using that ms by (auto split: if_splits)
qed

lemma translate_keeps:
  assumes "qt_documented cat translate"
    and "\<And>ms m. map_of cat ctx = Some ms \<Longrightarrow> m \<in> set ms \<Longrightarrow> msg_source m = source \<Longrightarrow> keeps f m"
  shows "f (translate ctx source) = f source"
  using assms(1)
proof (cases rule: translate_cases[of _ _ ctx source])
  case (2 ms m)
  then have "keeps f m" using assms(2) by blast
  then show ?thesis using 2 by (auto simp: keeps_def Let_def list_all_iff)
qed simp

text \<open>A lookup that serves the first form, for the witnesses.\<close>

definition first_form :: "catalogue \<Rightarrow> string \<Rightarrow> string \<Rightarrow> string" where
  "first_form cat ctx source =
     (case catalogue_get cat ctx source of
        None \<Rightarrow> source
      | Some m \<Rightarrow> (if list_all (\<lambda>t. t = []) (forms (msg_translation m)) then source else hd (forms (msg_translation m))))"

lemma first_form_documented: "qt_documented cat (first_form cat)"
  unfolding qt_documented_def first_form_def by (auto split: option.split simp: list_all_iff intro!: hd_in_set)

text \<open>
  Texts that differ in chosen bits of chosen characters are distinct; that is quicker to evaluate
  than comparing all pairs of texts.
\<close>

definition probe :: "string \<Rightarrow> nat \<times> (char \<Rightarrow> bool) \<Rightarrow> bool" where
  "probe s p = (case drop (fst p) s of [] \<Rightarrow> False | c # _ \<Rightarrow> snd p c)"

definition told_apart :: "(nat \<times> (char \<Rightarrow> bool)) list \<Rightarrow> message list \<Rightarrow> bool" where
  "told_apart ps ms = distinct (map (\<lambda>m. map (probe (msg_source m)) ps) ms)"

lemma told_apart_distinct: "told_apart ps ms \<Longrightarrow> distinct (map msg_source ms)"
  unfolding told_apart_def distinct_map inj_on_def by metis

text \<open>Distinct contexts and distinct source texts: every message is the one its key finds.\<close>

lemma find_distinct: "distinct (map msg_source ms) \<Longrightarrow> m \<in> set ms \<Longrightarrow> List.find (\<lambda>x. msg_source x = msg_source m) ms = Some m"
  by (induction ms) (auto simp: image_iff)

lemma catalogue_get_distinct:
  assumes "distinct (map fst cat)" "list_all (\<lambda>c. distinct (map msg_source (snd c))) cat"
  shows "list_all (\<lambda>(ctx, ms). list_all (\<lambda>m. catalogue_get cat ctx (msg_source m) = Some m) ms) cat"
  using assms find_distinct by (fastforce simp: list_all_iff catalogue_get_def)

end
