(* ===== verification/LocaleNbA.thy ===== *)
theory LocaleNbA
  imports Translations
begin

text \<open>
  The Norwegian translation \<open>src/src/qt/locale/bitcoin_nb.ts\<close>: the contexts from \<open>AboutDialog\<close> to \<open>OptionsDialog\<close>.
  Line breaks are \<open>CHR 0x0A\<close>, quotes \<open>CHR 0x22\<close> and \<open>CHR 0x27\<close>, other bytes are UTF-8.
\<close>

section \<open>The messages\<close>

definition nb_AboutDialog :: "message list" where
  "nb_AboutDialog =
    [Message [(Some ''../forms/aboutdialog.ui'', 14)] ''About PayDay'' (Finished ''Om PayDay''),
     Message [(None, 39)] ''<b>PayDay</b> version'' (Finished ''<b>PayDay</b> versjon''),
     Message [(None, 41)] (''Copyright '' @ [CHR 0xC2, CHR 0xA9] @
      '' 2009-2014 The Bitcoin developers'' @ [CHR 0x0A] @ ''Copyright '' @ [CHR 0xC2, CHR 0xA9]
      @ '' 2012-2014 The NovaCoin developers'' @ [CHR 0x0A] @ ''Copyright '' @ [CHR 0xC2, CHR
      0xA9] @ '' 2014 The PayDay developers'') (Finished (''Copyright '' @ [CHR 0xC2, CHR 0xA9]
      @ '' 2009-2014 The Bitcoin developers'' @ [CHR 0x0A] @ ''Copyright '' @ [CHR 0xC2, CHR
      0xA9] @ '' 2012-2014 The NovaCoin developers'' @ [CHR 0x0A] @ ''Copyright '' @ [CHR 0xC2,
      CHR 0xA9] @ '' 2014 The PayDay developers'')),
     Message [(None, 15)] ([CHR 0x0A] @ ''This is experimental software.'' @ [CHR 0x0A, CHR 0x0A] @
      ''Distributed under the MIT/X11 software license, see the accompanying file COPYING or <a href=''
      @ [CHR 0x22] @ ''http://www.opensource.org/licenses/mit-license.php'' @ [CHR 0x22] @
      ''>http://www.opensource.org/licenses/mit-license.php</a>.'' @ [CHR 0x0A, CHR 0x0A] @
      ''This product includes software developed by the OpenSSL Project for use in the OpenSSL Toolkit (<a href=''
      @ [CHR 0x22] @ ''https://www.openssl.org/'' @ [CHR 0x22] @
      ''>https://www.openssl.org/</a>) and cryptographic software written by Eric Young (<a href=''
      @ [CHR 0x22] @ ''mailto:eay@cryptsoft.com'' @ [CHR 0x22] @
      ''>eay@cryptsoft.com</a>) and UPnP software written by Thomas Bernard.'') (Unfinished [])]"

definition nb_AddressBookPage :: "message list" where
  "nb_AddressBookPage =
    [Message [(Some ''../forms/addressbookpage.ui'', 14)] ''Address Book'' (Finished ''Adressebok''),
     Message [(None, 22)] ''Double-click to edit address or label'' (Finished (''Dobbeltklikk for ''
      @ [CHR 0xC3, CHR 0xA5] @ '' redigere adresse eller merkelapp'')),
     Message [(None, 24)] ''Create a new address'' (Finished ''Lag en ny adresse''),
     Message [(None, 10)] ''Copy the currently selected address to the system clipboard'' (Finished
      ''Kopier den valgte adressen til systemets utklippstavle''),
     Message [(None, -7)] ''&New Address'' (Finished ''&Ny Adresse''),
     Message [(None, -43)]
      ''These are your PayDay addresses for receiving payments. You may want to give a different one to each sender so you can keep track of who is paying you.''
      (Finished (''Dette er adressene for '' @ [CHR 0xC3, CHR 0xA5] @ '' motta betalinger. Du ''
      @ [CHR 0xC3, CHR 0xB8] @ ''nsker kanskje '' @ [CHR 0xC3, CHR 0xA5] @
      '' gi ulike adresser til hver avsender s'' @ [CHR 0xC3, CHR 0xA5] @
      '' du lettere kan holde '' @ [CHR 0xC3, CHR 0xB8] @ ''ye med hvem som betaler deg.'')),
     Message [(None, 53)] ''&Copy Address'' (Finished ''&Kopier Adresse''),
     Message [(None, 7)] ''Show &QR Code'' (Finished ''Vis &QR Kode''),
     Message [(None, 7)] ''Sign a message to prove you own a PayDay address'' (Finished (
      ''Signer en melding for '' @ [CHR 0xC3, CHR 0xA5] @ '' bevise din egen PayDay adresse.'')),
     Message [(None, 3)] ''Sign &Message'' (Finished ''Signer &Melding''),
     Message [(None, 17)] ''Delete the currently selected address from the list'' (Finished
      ''Slett den valgte adressen fra listen.''),
     Message [(None, -10)]
      ''Verify a message to ensure it was signed with a specified PayDay address'' (Finished (
      ''Verifiser en melding f'' @ [CHR 0xC3, CHR 0xA5] @ ''r '' @ [CHR 0xC3, CHR 0xA5] @
      '' forsikre deg om at den er signert med en spesifikk PayDay adresse'')),
     Message [(None, 3)] ''&Verify Message'' (Finished ''&Verifiser en melding''),
     Message [(None, 10)] ''&Delete'' (Finished ''&Slett''),
     Message [(Some ''../addressbookpage.cpp'', 65)] ''Copy &Label'' (Finished ''Kopier &Merkelapp''),
     Message [(None, 2)] ''&Edit'' (Finished ''&Rediger''),
     Message [(None, 250)] ''Export Address Book Data'' (Finished ''Eksporter Adressebok''),
     Message [(None, 1)] ''Comma separated file (*.csv)'' (Finished ''Kommaseparert fil (*.csv)''),
     Message [(None, 13)] ''Error exporting'' (Finished ''Feil under eksportering''),
     Message [(None, 0)] ''Could not write to file %1.'' (Finished ''Kunne ikke skrive til filen %1''
      )]"

definition nb_AddressTableModel :: "message list" where
  "nb_AddressTableModel =
    [Message [(Some ''../addresstablemodel.cpp'', 145)] ''Label'' (Finished ''Merkelapp''),
     Message [(None, 0)] ''Address'' (Finished ''Adresse''),
     Message [(None, 36)] ''(no label)'' (Finished ''(ingen merkelapp)'')]"

definition nb_AskPassphraseDialog_1 :: "message list" where
  "nb_AskPassphraseDialog_1 =
    [Message [(Some ''../forms/askpassphrasedialog.ui'', 26)] ''Passphrase Dialog'' (Finished
      ''Dialog for Adgangsfrase''),
     Message [(None, 21)] ''Enter passphrase'' (Finished ''Angi adgangsfrase''),
     Message [(None, 14)] ''New passphrase'' (Finished ''Ny adgangsfrase''),
     Message [(None, 14)] ''Repeat new passphrase'' (Finished ''Gjenta ny adgangsfrase''),
     Message [(None, 33)]
      ''Serves to disable the trivial sendmoney when OS account compromised. Provides no real security.''
      (Unfinished []),
     Message [(None, 3)] ''For staking only'' (Unfinished []),
     Message [(Some ''../askpassphrasedialog.cpp'', 38)] ''Encrypt wallet'' (Finished
      ''Krypter lommebok''),
     Message [(None, 7)] ''This operation needs your wallet passphrase to unlock the wallet.''
      (Finished (''Denne operasjonen krever adgangsfrasen til lommeboken for '' @ [CHR 0xC3, CHR
      0xA5] @ '' l'' @ [CHR 0xC3, CHR 0xA5] @ ''se den opp.'')),
     Message [(None, 5)] ''Unlock wallet'' (Finished (''L'' @ [CHR 0xC3, CHR 0xA5] @
      ''s opp lommebok'')),
     Message [(None, 3)] ''This operation needs your wallet passphrase to decrypt the wallet.''
      (Finished (''Denne operasjonen krever adgangsfrasen til lommeboken for '' @ [CHR 0xC3, CHR
      0xA5] @ '' dekryptere den.'')),
     Message [(None, 5)] ''Decrypt wallet'' (Finished ''Dekrypter lommebok''),
     Message [(None, 3)] ''Change passphrase'' (Finished ''Endre adgangsfrase''),
     Message [(None, 1)] ''Enter the old and new passphrase to the wallet.'' (Finished
      ''Skriv inn gammel og ny adgangsfrase for lommeboken.''),
     Message [(None, 45)] ''Confirm wallet encryption'' (Finished ''Bekreft kryptering av lommebok''),
     Message [(None, 1)]
      ''Warning: If you encrypt your wallet and lose your passphrase, you will <b>LOSE ALL OF YOUR COINS</b>!''
      (Finished
      ''Advarsel: Viss du krypterer lommeboken og mister passordet vil du <b>MISTE ALLE MYNTENE DINE</b>!''
      ),
     Message [(None, 0)] ''Are you sure you wish to encrypt your wallet?'' (Finished (
      ''Er du sikker p'' @ [CHR 0xC3, CHR 0xA5] @ '' at du vil kryptere lommeboken?'')),
     Message [(None, 15)]
      ''IMPORTANT: Any previous backups you have made of your wallet file should be replaced with the newly generated, encrypted wallet file. For security reasons, previous backups of the unencrypted wallet file will become useless as soon as you start using the new, encrypted wallet.''
      (Finished (''VIKTIG: Tidligere sikkerhetskopier av din lommebok-fil, b'' @ [CHR 0xC3, CHR
      0xB8] @
      ''r erstattes med den nylig genererte, krypterte filen, da de blir ugyldiggjort av sikkerhetshensyn s''
      @ [CHR 0xC3, CHR 0xA5] @ '' snart du begynner '' @ [CHR 0xC3, CHR 0xA5] @
      '' bruke den nye krypterte lommeboken.'')),
     Message [(None, 103), (None, 24)] ''Warning: The Caps Lock key is on!'' (Finished (
      ''Advarsel: Caps Lock er p'' @ [CHR 0xC3, CHR 0xA5] @ '' !'')),
     Message [(None, -133), (None, 60)] ''Wallet encrypted'' (Finished ''Lommebok kryptert''),
     Message [(None, -140)]
      ''Enter the new passphrase to the wallet.<br/>Please use a passphrase of <b>ten or more random characters</b>, or <b>eight or more words</b>.''
      (Unfinished []),
     Message [(None, 82)]
      ''PayDay will close now to finish the encryption process. Remember that encrypting your wallet cannot fully protect your coins from being stolen by malware infecting your computer.''
      (Unfinished []),
     Message [(None, 13), (None, 7), (None, 44), (None, 6)] ''Wallet encryption failed'' (Finished
      ''Kryptering av lommebok feilet''),
     Message [(None, -56)]
      ''Wallet encryption failed due to an internal error. Your wallet was not encrypted.''
      (Finished (''Kryptering av lommebok feilet p'' @ [CHR 0xC3, CHR 0xA5] @
      '' grunn av en intern feil. Din lommebok ble ikke kryptert.'')),
     Message [(None, 7), (None, 50)] ''The supplied passphrases do not match.'' (Finished
      ''De angitte adgangsfrasene er ulike.''),
     Message [(None, -38)] ''Wallet unlock failed'' (Finished (''Oppl'' @ [CHR 0xC3, CHR 0xA5] @
      ''sing av lommebok feilet'')),
     Message [(None, 1), (None, 12), (None, 19)]
      ''The passphrase entered for the wallet decryption was incorrect.'' (Finished
      ''Adgangsfrasen angitt for dekryptering av lommeboken var feil.''),
     Message [(None, -20)] ''Wallet decryption failed'' (Finished ''Dekryptering av lommebok feilet''
      )]"

definition nb_AskPassphraseDialog_2 :: "message list" where
  "nb_AskPassphraseDialog_2 =
    [Message [(None, 14)] ''Wallet passphrase was successfully changed.'' (Finished
      ''Adgangsfrase for lommebok endret.'')]"

definition nb_BitcoinGUI_1 :: "message list" where
  "nb_BitcoinGUI_1 =
    [Message [(Some ''../bitcoingui.cpp'', 297)] ''Sign &message...'' (Finished
      ''Signer &melding...''),
     Message [(None, -64)] ''Show general overview of wallet'' (Finished
      ''Vis generell oversikt over lommeboken''),
     Message [(None, 17)] ''&Transactions'' (Finished ''&Transaksjoner''),
     Message [(None, 1)] ''Browse transaction history'' (Finished ''Vis transaksjonshistorikk''),
     Message [(None, 5)] ''&Address Book'' (Finished ''&Adressebok''),
     Message [(None, 1)] ''Edit the list of stored addresses and labels'' (Finished
      ''Endre listen med lagrede adresser og merkelapper''),
     Message [(None, -18)] ''Show the list of addresses for receiving payments'' (Finished (
      ''Vis listen med adresser for '' @ [CHR 0xC3, CHR 0xA5] @ '' motta betalinger'')),
     Message [(None, 34)] ''E&xit'' (Finished ''&Avslutt''),
     Message [(None, 1)] ''Quit application'' (Finished ''Avslutt applikasjonen''),
     Message [(None, 4)] ''Show information about PayDay'' (Finished ''Vis info om PayDay''),
     Message [(None, 2)] ''About &Qt'' (Finished ''Om &Qt''),
     Message [(None, 1)] ''Show information about Qt'' (Finished ''Vis informasjon om Qt''),
     Message [(None, 2)] ''&Options...'' (Finished ''&Innstillinger...''),
     Message [(None, 4)] ''&Encrypt Wallet...'' (Finished ''&Krypter Lommebok...''),
     Message [(None, 2)] ''&Backup Wallet...'' (Finished ''Lag &Sikkerhetskopi av Lommebok...''),
     Message [(None, 2)] ''&Change Passphrase...'' (Finished ''&Endre Adgangsfrase...''),
     Message [(None, 9)] ''&Export...'' (Finished ''&Eksporter...''),
     Message [(None, -55)] ''Send coins to a PayDay address'' (Finished
      ''Send coins til en PayDay adresse''),
     Message [(None, 39)] ''Modify configuration options for PayDay'' (Finished
      ''Endre innstillingene til PayDay''),
     Message [(None, 17)] ''Export the data in the current tab to a file'' (Finished (
      ''Eksporter dataene i n'' @ [CHR 0xC3, CHR 0xA5] @ ''v'' @ [CHR 0xC3, CHR 0xA6] @
      ''rende fane til en fil'')),
     Message [(None, -13)] ''Encrypt or decrypt wallet'' (Finished
      ''Krypter eller dekrypter lommeboken''),
     Message [(None, 2)] ''Backup wallet to another location'' (Finished (''Sikkerhetskopi'' @ [CHR
      0xC3, CHR 0xA9] @ ''r lommebok til annet sted'')),
     Message [(None, 2)] ''Change the passphrase used for wallet encryption'' (Finished
      ''Endre adgangsfrasen brukt for kryptering av lommebok''),
     Message [(None, 10)] ''&Debug window'' (Finished (''&Feils'' @ [CHR 0xC3, CHR 0xB8] @
      ''kingsvindu'')),
     Message [(None, 1)] ''Open debugging and diagnostic console'' (Finished ([CHR 0xC3, CHR 0x85] @
      ''pne konsoll for feils'' @ [CHR 0xC3, CHR 0xB8] @ ''k og diagnostikk'')),
     Message [(None, -5)] ''&Verify message...'' (Finished ''&Verifiser melding...''),
     Message [(None, -214), (None, 551)] ''PayDay'' (Finished ''PayDay''),
     Message [(None, -551)] ''Wallet'' (Finished ''Lommebok'')]"

definition nb_BitcoinGUI_2 :: "message list" where
  "nb_BitcoinGUI_2 =
    [Message [(None, 193)] ''&About PayDay'' (Finished ''&Om PayDay''),
     Message [(None, 9)] ''&Show / Hide'' (Finished ''&Gjem / vis''),
     Message [(None, 8)] ''Unlock wallet'' (Finished (''L'' @ [CHR 0xC3, CHR 0xA5] @
      ''s opp lommebok'')),
     Message [(None, 1)] ''&Lock Wallet'' (Finished (''&L'' @ [CHR 0xC3, CHR 0xA5] @ ''s Lommeboken''
      )),
     Message [(None, 1)] ''Lock wallet'' (Finished (''L'' @ [CHR 0xC3, CHR 0xA5] @ ''s lommeboken'')),
     Message [(None, 28)] ''&File'' (Finished ''&Fil''),
     Message [(None, 8)] ''&Settings'' (Finished ''&Innstillinger''),
     Message [(None, 8)] ''&Help'' (Finished ''&Hjelp''),
     Message [(None, 17)] ''Tabs toolbar'' (Finished (''Verkt'' @ [CHR 0xC3, CHR 0xB8] @
      ''ylinje for faner'')),
     Message [(None, 46), (None, 9)] ''[testnet]'' (Finished ''[testnett]''),
     Message [(None, 0), (None, 58)] ''PayDay client'' (Finished ''PayDay klient''),
     Message [(None, 70)] ''%n active connection(s) to PayDay network'' (Plural [
      ''%n aktiv tilkobling til PayDay nettverket'',
      ''%n aktive tilkoblinger til PayDay nettverket'']),
     Message [(None, 488)]
      ''Staking.<br>Your weight is %1<br>Network weight is %2<br>Expected time to earn reward is %3''
      (Unfinished []),
     Message [(None, 6)] ''Not staking because wallet is locked'' (Unfinished []),
     Message [(None, 2)] ''Not staking because wallet is offline'' (Unfinished []),
     Message [(None, 2)] ''Not staking because wallet is syncing'' (Unfinished []),
     Message [(None, 2)] (''Not staking because you don'' @ [CHR 0x27] @ ''t have mature coins'')
      (Unfinished []),
     Message [(None, -808)] ''&Dashboard'' (Unfinished []),
     Message [(None, 6)] ''&Receive'' (Unfinished []),
     Message [(None, 6)] ''&Send'' (Unfinished []),
     Message [(None, 49)] ''&Unlock Wallet...'' (Finished (''&L'' @ [CHR 0xC3, CHR 0xA5] @
      ''s opp lommeboken'')),
     Message [(None, 273)] ''Up to date'' (Finished ''Ajour''),
     Message [(None, 43)] ''Catching up...'' (Finished ''Kommer ajour...''),
     Message [(None, 113)] ''Confirm transaction fee'' (Unfinished []),
     Message [(None, 27)] ''Sent transaction'' (Finished ''Sendt transaksjon''),
     Message [(None, 1)] ''Incoming transaction'' (Finished ''Innkommende transaksjon''),
     Message [(None, 1)] (''Date: %1'' @ [CHR 0x0A] @ ''Amount: %2'' @ [CHR 0x0A] @ ''Type: %3'' @
      [CHR 0x0A] @ ''Address: %4'' @ [CHR 0x0A]) (Finished (''Dato: %1'' @ [CHR 0x0A] @ ''Bel''
      @ [CHR 0xC3, CHR 0xB8] @ ''p: %2'' @ [CHR 0x0A] @ ''Type: %3'' @ [CHR 0x0A] @
      ''Adresse: %4'' @ [CHR 0x0A]))]"

definition nb_BitcoinGUI_3 :: "message list" where
  "nb_BitcoinGUI_3 =
    [Message [(None, 100), (None, 15)] ''URI handling'' (Unfinished []),
     Message [(None, -15), (None, 15)]
      ''URI can not be parsed! This can be caused by an invalid PayDay address or malformed URI parameters.''
      (Unfinished []),
     Message [(None, 9)] ''Wallet is <b>not encrypted</b>'' (Unfinished []),
     Message [(None, 8)] ''Wallet is <b>encrypted</b> and currently <b>unlocked</b>'' (Finished (
      ''Lommeboken er <b>kryptert</b> og for tiden <b>ul'' @ [CHR 0xC3, CHR 0xA5] @ ''st</b>'')),
     Message [(None, 8)] ''Wallet is <b>encrypted</b> and currently <b>locked</b>'' (Finished (
      ''Lommeboken er <b>kryptert</b> og for tiden <b>l'' @ [CHR 0xC3, CHR 0xA5] @ ''st</b>'')),
     Message [(None, 24)] ''Backup Wallet'' (Finished ''Sikkerhetskopier Lommeboken''),
     Message [(None, 0)] ''Wallet Data (*.dat)'' (Finished ''Lommebokdata (*.dat)''),
     Message [(None, 3)] ''Backup Failed'' (Finished ''Sikkerhetskopiering feilet''),
     Message [(None, 0)] ''There was an error trying to save the wallet data to the new location.''
      (Unfinished []),
     Message [(None, 91)] ''%n second(s)'' (Plural [''%n sekund'', ''%n sekunder'']),
     Message [(None, 4)] ''%n minute(s)'' (Plural [''%n minutt'', ''%n minutter'']),
     Message [(None, -429), (None, 433)] ''%n hour(s)'' (Plural [''%n time'', ''%n timer'']),
     Message [(None, -456)] ''Processed %1 blocks of transaction history.'' (Unfinished []),
     Message [(None, 27), (None, 433)] ''%n day(s)'' (Plural [''%n dag'', ''%n dager'']),
     Message [(None, -429), (None, 6)] ''%n week(s)'' (PluralUnfinished [[], []]),
     Message [(None, 0)] ''%1 and %2'' (Unfinished []),
     Message [(None, 0)] ''%n year(s)'' (PluralUnfinished [[], []]),
     Message [(None, 5)] ''%1 behind'' (Unfinished []),
     Message [(None, 15)] ''Last received block was generated %1 ago.'' (Unfinished []),
     Message [(None, 2)] ''Transactions after this will not yet be visible.'' (Unfinished []),
     Message [(None, 23)] ''Error'' (Unfinished []),
     Message [(None, 3)] ''Warning'' (Unfinished []),
     Message [(None, 3)] ''Information'' (Unfinished []),
     Message [(None, 69)]
      ''This transaction is over the size limit. You can still send it for a fee of %1, which goes to the nodes that process your transaction and helps to support the network. Do you want to pay the fee?''
      (Unfinished []),
     Message [(None, 324)] ''Not staking'' (Unfinished []),
     Message [(Some ''../bitcoin.cpp'', 104)]
      ''A fatal error occurred. PayDay can no longer continue safely and will quit.''
      (Unfinished [])]"

definition nb_ClientModel :: "message list" where
  "nb_ClientModel =
    [Message [(Some ''../clientmodel.cpp'', 110)] ''Network Alert'' (Finished ''Nettverksvarsel'')]"

definition nb_CoinControlDialog_1 :: "message list" where
  "nb_CoinControlDialog_1 =
    [Message [(Some ''../forms/coincontroldialog.ui'', 14)] ''Coin Control'' (Unfinished []),
     Message [(None, 31)] ''Quantity:'' (Finished ''Mengde:''),
     Message [(None, 32)] ''Bytes:'' (Finished ''Bytes:''),
     Message [(None, 48)] ''Amount:'' (Finished (''Bel'' @ [CHR 0xC3, CHR 0xB8] @ ''p:'')),
     Message [(None, 32)] ''Priority:'' (Finished ''Prioritet:''),
     Message [(None, 48)] ''Fee:'' (Finished ''Avgift:''),
     Message [(None, 35)] ''Low Output:'' (Finished ''Lav Utdata:''),
     Message [(Some ''../coincontroldialog.cpp'', 552)] ''no'' (Finished ''nei''),
     Message [(Some ''../forms/coincontroldialog.ui'', 51)] ''After Fee:'' (Finished
      ''Etter Avgift:''),
     Message [(None, 35)] ''Change:'' (Finished ''Endring:''),
     Message [(None, 69)] ''(un)select all'' (Finished ''Fjern alt valgt''),
     Message [(None, 13)] ''Tree mode'' (Finished ''Tre modus''),
     Message [(None, 16)] ''List mode'' (Finished ''Liste modus''),
     Message [(None, 45)] ''Amount'' (Finished (''Bel'' @ [CHR 0xC3, CHR 0xB8] @ ''p'')),
     Message [(None, 5)] ''Label'' (Finished ''Merkelapp''),
     Message [(None, 5)] ''Address'' (Finished ''Adresse''),
     Message [(None, 5)] ''Date'' (Finished ''Dato''),
     Message [(None, 5)] ''Confirmations'' (Finished ''Bekreftelser''),
     Message [(None, 3)] ''Confirmed'' (Finished ''Bekreftet''),
     Message [(None, 5)] ''Priority'' (Finished ''Prioritet''),
     Message [(Some ''../coincontroldialog.cpp'', -515)] ''Copy address'' (Finished
      ''Kopier adresse''),
     Message [(None, 1)] ''Copy label'' (Finished ''Kopier merkelapp''),
     Message [(None, 1), (None, 26)] ''Copy amount'' (Finished (''Kopi'' @ [CHR 0xC3, CHR 0xA9] @
      ''r bel'' @ [CHR 0xC3, CHR 0xB8] @ ''p'')),
     Message [(None, -25)] ''Copy transaction ID'' (Finished ''Kopier transaksjons-ID''),
     Message [(None, 24)] ''Copy quantity'' (Finished ''Kopier mengde''),
     Message [(None, 2)] ''Copy fee'' (Finished ''Kopier gebyr''),
     Message [(None, 1)] ''Copy after fee'' (Finished ''Kopier etter gebyr''),
     Message [(None, 1)] ''Copy bytes'' (Unfinished [])]"

definition nb_CoinControlDialog_2 :: "message list" where
  "nb_CoinControlDialog_2 =
    [Message [(None, 1)] ''Copy priority'' (Finished ''Kopier prioritet''),
     Message [(None, 1)] ''Copy low output'' (Unfinished []),
     Message [(None, 1)] ''Copy change'' (Finished ''Kopier veksel''),
     Message [(None, 317)] ''highest'' (Finished (''h'' @ [CHR 0xC3, CHR 0xB8] @ ''yest'')),
     Message [(None, 1)] ''high'' (Finished (''h'' @ [CHR 0xC3, CHR 0xB8] @ ''y'')),
     Message [(None, 1)] ''medium-high'' (Finished (''medium-h'' @ [CHR 0xC3, CHR 0xB8] @ ''y'')),
     Message [(None, 1)] ''medium'' (Finished ''medium''),
     Message [(None, 4)] ''low-medium'' (Finished ''lav-medium''),
     Message [(None, 1)] ''low'' (Finished ''lav''),
     Message [(None, 1)] ''lowest'' (Finished ''lavest''),
     Message [(None, 155)] ''DUST'' (Unfinished []),
     Message [(None, 0)] ''yes'' (Finished ''ja''),
     Message [(None, 10)] (
      ''This label turns red, if the transaction size is bigger than 10000 bytes.'' @ [CHR 0x0A,
      CHR 0x0A] @ '' This means a fee of at least %1 per kb is required.'' @ [CHR 0x0A, CHR
      0x0A] @ '' Can vary +/- 1 Byte per input.'') (Unfinished []),
     Message [(None, 1)] (''Transactions with higher priority get more likely into a block.'' @ [CHR
      0x0A, CHR 0x0A] @ ''This label turns red, if the priority is smaller than '' @ [CHR 0x22]
      @ ''medium'' @ [CHR 0x22] @ ''.'' @ [CHR 0x0A, CHR 0x0A] @
      '' This means a fee of at least %1 per kb is required.'') (Unfinished []),
     Message [(None, 1)] (
      ''This label turns red, if any recipient receives an amount smaller than %1.'' @ [CHR
      0x0A, CHR 0x0A] @ '' This means a fee of at least %2 is required. '' @ [CHR 0x0A, CHR
      0x0A] @ '' Amounts below 0.546 times the minimum relay fee are shown as DUST.'')
      (Unfinished []),
     Message [(None, 1)] (''This label turns red, if the change is smaller than %1.'' @ [CHR 0x0A,
      CHR 0x0A] @ '' This means a fee of at least %2 is required.'') (Finished (
      ''Denne merkelappen blir r'' @ [CHR 0xC3, CHR 0xB8] @
      ''d, viss endringen er mindre enn %1'' @ [CHR 0x0A, CHR 0x0A] @
      ''Dette betyr at det trengs en avgift p'' @ [CHR 0xC3, CHR 0xA5] @ '' minimum %2.'')),
     Message [(None, 36), (None, 66)] ''(no label)'' (Finished ''(ingen merkelapp)''),
     Message [(None, -9)] ''change from %1 (%2)'' (Finished ''endring fra %1 (%2)''),
     Message [(None, 1)] ''(change)'' (Finished ''(endring)'')]"

definition nb_EditAddressDialog :: "message list" where
  "nb_EditAddressDialog =
    [Message [(Some ''../forms/editaddressdialog.ui'', 14)] ''Edit Address'' (Finished
      ''Rediger adresse''),
     Message [(None, 11)] ''&Label'' (Finished ''&Merkelapp''),
     Message [(None, 10)] ''The label associated with this address book entry'' (Finished
      ''Merkelappen assosiert med denne adressen''),
     Message [(None, 7)] ''&Address'' (Finished ''&Adresse''),
     Message [(None, 10)]
      ''The address associated with this address book entry. This can only be modified for sending addresses.''
      (Unfinished []),
     Message [(Some ''../editaddressdialog.cpp'', 21)] ''New receiving address'' (Finished
      ''Ny mottaksadresse''),
     Message [(None, 4)] ''New sending address'' (Finished ''Ny utsendingsadresse''),
     Message [(None, 3)] ''Edit receiving address'' (Finished ''Rediger mottaksadresse''),
     Message [(None, 4)] ''Edit sending address'' (Finished ''Rediger utsendingsadresse''),
     Message [(None, 76)] (''The entered address '' @ [CHR 0x22] @ ''%1'' @ [CHR 0x22] @
      '' is already in the address book.'') (Finished (''Den oppgitte adressen '' @ [CHR 0x22] @
      ''%1'' @ [CHR 0x22] @ '' er allerede i adresseboken.'')),
     Message [(None, -5)] (''The entered address '' @ [CHR 0x22] @ ''%1'' @ [CHR 0x22] @
      '' is not a valid PayDay address.'') (Finished (''Den angitte adressen '' @ [CHR 0x22] @
      ''%1'' @ [CHR 0x22] @ '' er ikke en gyldig PayDay adresse.'')),
     Message [(None, 10)] ''Could not unlock wallet.'' (Finished (''Kunne ikke l'' @ [CHR 0xC3, CHR
      0xA5] @ ''se opp lommeboken.'')),
     Message [(None, 5)] ''New key generation failed.'' (Finished (''Generering av ny n'' @ [CHR
      0xC3, CHR 0xB8] @ ''kkel feilet.''))]"

definition nb_GUIUtil_HelpMessageBox :: "message list" where
  "nb_GUIUtil_HelpMessageBox =
    [Message [(Some ''../guiutil.cpp'', 426), (None, 12)] ''PayDay-Qt'' (Finished ''PayDay-Qt''),
     Message [(None, -12)] ''version'' (Finished ''versjon''),
     Message [(None, 2)] ''Usage:'' (Finished ''Bruk:''),
     Message [(None, 1)] ''command-line options'' (Unfinished []),
     Message [(None, 4)] ''UI options'' (Unfinished []),
     Message [(None, 1)] (''Set language, for example '' @ [CHR 0x22] @ ''de_DE'' @ [CHR 0x22] @
      '' (default: system locale)'') (Unfinished []),
     Message [(None, 1)] ''Start minimized'' (Finished ''Start Minimert''),
     Message [(None, 1)] ''Show splash screen on startup (default: 1)'' (Unfinished [])]"

definition nb_OptionsDialog_1 :: "message list" where
  "nb_OptionsDialog_1 =
    [Message [(Some ''../forms/optionsdialog.ui'', 14)] ''Options'' (Finished ''Innstillinger''),
     Message [(None, 16)] ''&Main'' (Finished ''&Hoved''),
     Message [(None, 6)]
      ''Optional transaction fee per kB that helps make sure your transactions are processed quickly. Most transactions are 1 kB. Fee 0.01 recommended.''
      (Unfinished []),
     Message [(None, 15)] ''Pay transaction &fee'' (Finished ''Betal transaksjons&gebyr''),
     Message [(None, 31)]
      ''Reserved amount does not participate in staking and is therefore spendable at any time.''
      (Unfinished []),
     Message [(None, 15)] ''Reserve'' (Unfinished []),
     Message [(None, 31)] ''Automatically start PayDay after logging in to the system.'' (Finished
      ''Start PayDay automatisk ved hver innlogging.''),
     Message [(None, 3)] ''&Start PayDay on system login'' (Finished ''&Start PayDay ved innlogging''
      ),
     Message [(None, 21)] ''&Network'' (Finished ''&Nettverk''),
     Message [(None, 6)]
      ''Automatically open the PayDay client port on the router. This only works when your router supports UPnP and it is enabled.''
      (Unfinished []),
     Message [(None, 3)] ''Map port using &UPnP'' (Finished ''Sett opp port vha. &UPnP''),
     Message [(None, 7)]
      ''Connect to the PayDay network through a SOCKS proxy (e.g. when connecting through Tor).''
      (Unfinished []),
     Message [(None, 3)] ''&Connect through SOCKS proxy:'' (Finished
      ''&Koble til via en SOCKS proxy:''),
     Message [(None, 9)] ''Proxy &IP:'' (Finished ''Proxy &IP:''),
     Message [(None, 19)] ''IP address of the proxy (e.g. 127.0.0.1)'' (Unfinished []),
     Message [(None, 7)] ''&Port:'' (Finished ''&Port:''),
     Message [(None, 19)] ''Port of the proxy (e.g. 9050)'' (Finished ''Proxyens port (f.eks. 9050)''
      ),
     Message [(None, 7)] ''SOCKS &Version:'' (Finished ''SOCKS &Versjon:''),
     Message [(None, 13)] ''SOCKS version of the proxy (e.g. 5)'' (Finished
      ''Proxyens SOCKS versjon (f.eks. 5)''),
     Message [(None, 36)] ''&Window'' (Finished ''&Vindu''),
     Message [(None, 6)] ''Show only a tray icon after minimizing the window.'' (Finished
      ''Vis kun ikon i systemkurv etter minimering av vinduet.''),
     Message [(None, 3)] ''&Minimize to the tray instead of the taskbar'' (Finished
      ''&Minimer til systemkurv istedenfor oppgavelinjen''),
     Message [(None, 7)]
      ''Minimize instead of exit the application when the window is closed. When this option is enabled, the application will be closed only after selecting Quit in the menu.''
      (Finished (''Minimerer vinduet istedenfor '' @ [CHR 0xC3, CHR 0xA5] @
      '' avslutte applikasjonen n'' @ [CHR 0xC3, CHR 0xA5] @ ''r vinduet lukkes. N'' @ [CHR
      0xC3, CHR 0xA5] @ ''r dette er sl'' @ [CHR 0xC3, CHR 0xA5] @ ''tt p'' @ [CHR 0xC3, CHR
      0xA5] @ '' avsluttes applikasjonen kun ved '' @ [CHR 0xC3, CHR 0xA5] @
      '' velge avslutt i menyen.'')),
     Message [(None, 3)] ''M&inimize on close'' (Finished ''M&inimer ved lukking''),
     Message [(None, 21)] ''&Display'' (Finished ''&Visning''),
     Message [(None, 8)] ''User Interface &language:'' (Finished (''&Spr'' @ [CHR 0xC3, CHR 0xA5] @
      ''k for brukergrensesnitt'')),
     Message [(None, 13)]
      ''The user interface language can be set here. This setting will take effect after restarting PayDay.''
      (Unfinished []),
     Message [(None, 11)] ''&Unit to show amounts in:'' (Finished (''&Enhet for visning av bel'' @
      [CHR 0xC3, CHR 0xB8] @ ''per:'')),
     Message [(None, 13)]
      ''Choose the default subdivision unit to show in the interface and when sending coins.''
      (Finished
      ''Velg standard delt enhet for visning i grensesnittet og for sending av PayDays.'')]"

definition nb_OptionsDialog_2 :: "message list" where
  "nb_OptionsDialog_2 =
    [Message [(None, 9)] ''Whether to show coin control features or not.'' (Finished
      ''Skal mynt kontroll funksjoner vises eller ikke.''),
     Message [(None, 3)] ''Display coin &control features (experts only!)'' (Unfinished []),
     Message [(None, 7)] ''Whether to select the coin outputs randomly or with minimal coin age.''
      (Unfinished []),
     Message [(None, 3)] ''Minimize weight consumption (experimental)'' (Unfinished []),
     Message [(None, 7)] ''Use black visual theme (requires restart)'' (Unfinished []),
     Message [(None, 71)] ''&OK'' (Finished ''&OK''),
     Message [(None, 7)] ''&Cancel'' (Finished ''&Avbryt''),
     Message [(None, 10)] ''&Apply'' (Finished ''&Bruk''),
     Message [(Some ''../optionsdialog.cpp'', 53)] ''default'' (Finished ''standardverdi''),
     Message [(None, 149), (None, 9)] ''Warning'' (Finished ''Advarsel''),
     Message [(None, -9), (None, 9)] ''This setting will take effect after restarting PayDay.''
      (Finished (''Denne innstillingen vil tre i kraft etter PayDay er blitt startet p'' @ [CHR
      0xC3, CHR 0xA5] @ '' nytt.'')),
     Message [(None, 29)] ''The supplied proxy address is invalid.'' (Finished
      ''Angitt proxyadresse er ugyldig.'')]"

section \<open>What each part keeps\<close>

lemma labels_nb_AboutDialog: "list_all label_ok nb_AboutDialog"
  by code_simp

lemma edges_nb_AboutDialog: "list_all (keeps edges) nb_AboutDialog"
  by code_simp

lemma labels_nb_AddressBookPage: "list_all label_ok nb_AddressBookPage"
  by code_simp

lemma edges_nb_AddressBookPage: "list_all (keeps edges) nb_AddressBookPage"
  by code_simp

lemma labels_nb_AddressTableModel: "list_all label_ok nb_AddressTableModel"
  by code_simp

lemma edges_nb_AddressTableModel: "list_all (keeps edges) nb_AddressTableModel"
  by code_simp

lemma labels_nb_AskPassphraseDialog_1: "list_all label_ok nb_AskPassphraseDialog_1"
  by code_simp

lemma edges_nb_AskPassphraseDialog_1: "list_all (keeps edges) nb_AskPassphraseDialog_1"
  by code_simp

lemma labels_nb_AskPassphraseDialog_2: "list_all label_ok nb_AskPassphraseDialog_2"
  by code_simp

lemma edges_nb_AskPassphraseDialog_2: "list_all (keeps edges) nb_AskPassphraseDialog_2"
  by code_simp

lemma labels_nb_BitcoinGUI_1: "list_all label_ok nb_BitcoinGUI_1"
  by code_simp

lemma edges_nb_BitcoinGUI_1: "list_all (keeps edges) nb_BitcoinGUI_1"
  by code_simp

lemma labels_nb_BitcoinGUI_2: "list_all label_ok nb_BitcoinGUI_2"
  by code_simp

lemma edges_nb_BitcoinGUI_2: "list_all (keeps edges) nb_BitcoinGUI_2"
  by code_simp

lemma labels_nb_BitcoinGUI_3: "list_all label_ok nb_BitcoinGUI_3"
  by code_simp

lemma edges_nb_BitcoinGUI_3: "list_all (keeps edges) nb_BitcoinGUI_3"
  by code_simp

lemma labels_nb_ClientModel: "list_all label_ok nb_ClientModel"
  by code_simp

lemma edges_nb_ClientModel: "list_all (keeps edges) nb_ClientModel"
  by code_simp

lemma labels_nb_CoinControlDialog_1: "list_all label_ok nb_CoinControlDialog_1"
  by code_simp

lemma edges_nb_CoinControlDialog_1: "list_all (keeps edges) nb_CoinControlDialog_1"
  by code_simp

lemma labels_nb_CoinControlDialog_2: "list_all label_ok nb_CoinControlDialog_2"
  by code_simp

lemma edges_nb_CoinControlDialog_2: "list_all (keeps edges) nb_CoinControlDialog_2"
  by code_simp

lemma labels_nb_EditAddressDialog: "list_all label_ok nb_EditAddressDialog"
  by code_simp

lemma edges_nb_EditAddressDialog: "list_all (keeps edges) nb_EditAddressDialog"
  by code_simp

lemma labels_nb_GUIUtil_HelpMessageBox: "list_all label_ok nb_GUIUtil_HelpMessageBox"
  by code_simp

lemma edges_nb_GUIUtil_HelpMessageBox: "list_all (keeps edges) nb_GUIUtil_HelpMessageBox"
  by code_simp

lemma labels_nb_OptionsDialog_1: "list_all label_ok nb_OptionsDialog_1"
  by code_simp

lemma edges_nb_OptionsDialog_1: "list_all (keeps edges) nb_OptionsDialog_1"
  by code_simp

lemma labels_nb_OptionsDialog_2: "list_all label_ok nb_OptionsDialog_2"
  by code_simp

lemma edges_nb_OptionsDialog_2: "list_all (keeps edges) nb_OptionsDialog_2"
  by code_simp

section \<open>No source text twice\<close>

lemma distinct_nb_AboutDialog: "distinct (map msg_source (nb_AboutDialog))"
  by (rule told_apart_distinct
      [of "[(0, digit0), (0, digit1)]"])
    code_simp

lemma distinct_nb_AddressBookPage: "distinct (map msg_source (nb_AddressBookPage))"
  by (rule told_apart_distinct
      [of "[(1, digit1), (5, digit2), (0, digit0), (1, digit0), (10, digit0)]"])
    code_simp

lemma distinct_nb_AddressTableModel: "distinct (map msg_source (nb_AddressTableModel))"
  by (rule told_apart_distinct
      [of "[(0, digit0), (0, digit2)]"])
    code_simp

lemma distinct_nb_AskPassphraseDialog: "distinct (map msg_source (nb_AskPassphraseDialog_1 @ nb_AskPassphraseDialog_2))"
  by (rule told_apart_distinct
      [of "[(0, digit1), (2, digit2), (21, digit6), (7, digit0), (9, digit0), (0, digit0), (0, digit2), (47, digit0)]"])
    code_simp

lemma distinct_nb_BitcoinGUI: "distinct (map msg_source (nb_BitcoinGUI_1 @ nb_BitcoinGUI_2 @ nb_BitcoinGUI_3))"
  by (rule told_apart_distinct
      [of "[(2, digit2), (3, digit1), (0, digit0), (5, digit2), (16, digit5), (1, digit2), (7, digit0), (20, digit2), (3, digit2), (0, digit5), (23, digit0), (30, digit4), (30, digit0), (44, digit0)]"])
    code_simp

lemma distinct_nb_ClientModel: "distinct (map msg_source (nb_ClientModel))"
  by (rule told_apart_distinct
      [of "[]"])
    code_simp

lemma distinct_nb_CoinControlDialog: "distinct (map msg_source (nb_CoinControlDialog_1 @ nb_CoinControlDialog_2))"
  by (rule told_apart_distinct
      [of "[(0, digit0), (5, digit0), (3, digit2), (5, digit2), (7, digit2), (1, digit3), (6, digit3), (1, digit2), (8, digit1), (2, digit1), (25, digit4), (29, digit0)]"])
    code_simp

lemma distinct_nb_EditAddressDialog: "distinct (map msg_source (nb_EditAddressDialog))"
  by (rule told_apart_distinct
      [of "[(0, digit1), (3, digit6), (8, digit2), (7, digit0), (28, digit3)]"])
    code_simp

lemma distinct_nb_GUIUtil_HelpMessageBox: "distinct (map msg_source (nb_GUIUtil_HelpMessageBox))"
  by (rule told_apart_distinct
      [of "[(1, digit2), (4, digit0), (5, digit0)]"])
    code_simp

lemma distinct_nb_OptionsDialog: "distinct (map msg_source (nb_OptionsDialog_1 @ nb_OptionsDialog_2))"
  by (rule told_apart_distinct
      [of "[(8, digit6), (4, digit0), (3, digit0), (2, digit1), (23, digit6), (6, digit4), (4, digit2), (14, digit4)]"])
    code_simp

end
