(* ===== verification/LocaleNbB.thy ===== *)
theory LocaleNbB
  imports Translations
begin

text \<open>
  The Norwegian translation \<open>src/src/qt/locale/bitcoin_nb.ts\<close>: the contexts from \<open>OverviewPage\<close> to \<open>WalletModel\<close>.
  Line breaks are \<open>CHR 0x0A\<close>, quotes \<open>CHR 0x22\<close> and \<open>CHR 0x27\<close>, other bytes are UTF-8.
\<close>

section \<open>The messages\<close>

definition nb_OverviewPage :: "message list" where
  "nb_OverviewPage =
    [Message [(Some ''../forms/overviewpage.ui'', 14)] ''Form'' (Finished ''Skjema''),
     Message [(None, 46), (None, 247)]
      ''The displayed information may be out of date. Your wallet automatically synchronizes with the PayDay network after a connection is established, but this process has not completed yet.''
      (Unfinished []),
     Message [(None, -173)] ''Stake:'' (Unfinished []),
     Message [(None, 32)] ''Unconfirmed:'' (Finished ''Ubekreftet:''),
     Message [(None, -113)] ''Wallet'' (Finished ''Lommebok''),
     Message [(None, 49)] ''Spendable:'' (Finished ''Disponibelt:''),
     Message [(None, 16)] ''Your current spendable balance'' (Finished (''Din n'' @ [CHR 0xC3, CHR
      0xA5] @ ''v'' @ [CHR 0xC3, CHR 0xA6] @ ''rende saldo'')),
     Message [(None, 80)] ''Immature:'' (Finished ''Umoden:''),
     Message [(None, 13)] ''Mined balance that has not yet matured'' (Finished
      ''Minet saldo har ikke modnet enda''),
     Message [(None, 23)] ''Total:'' (Finished ''Totalt:''),
     Message [(None, 16)] ''Your current total balance'' (Finished (''Din n'' @ [CHR 0xC3, CHR 0xA5]
      @ ''v'' @ [CHR 0xC3, CHR 0xA6] @ ''rende saldo'')),
     Message [(None, 50)] ''<b>Recent transactions</b>'' (Finished ''<b>Siste transaksjoner</b>''),
     Message [(None, -118)]
      ''Total of transactions that have yet to be confirmed, and do not yet count toward the current balance''
      (Unfinished []),
     Message [(None, -32)]
      ''Total of coins that was staked, and do not yet count toward the current balance''
      (Unfinished []),
     Message [(Some ''../overviewpage.cpp'', 116), (None, 1)] ''out of sync'' (Finished
      ''ute av synk'')]"

definition nb_PaymentServer :: "message list" where
  "nb_PaymentServer =
    [Message [(Some ''../paymentserver.cpp'', 107)] ''Cannot start transfer: click-to-pay handler''
      (Unfinished [])]"

definition nb_QRCodeDialog :: "message list" where
  "nb_QRCodeDialog =
    [Message [(Some ''../forms/qrcodedialog.ui'', 14)] ''QR Code Dialog'' (Unfinished []),
     Message [(None, 59)] ''Request Payment'' (Unfinished []),
     Message [(None, 56)] ''Amount:'' (Finished (''Bel'' @ [CHR 0xC3, CHR 0xB8] @ ''p:'')),
     Message [(None, -44)] ''Label:'' (Finished ''Merkelapp:''),
     Message [(None, 19)] ''Message:'' (Finished ''Melding:''),
     Message [(None, 71)] ''&Save As...'' (Finished ''&Lagre som...''),
     Message [(Some ''../qrcodedialog.cpp'', 62)] ''Error encoding URI into QR Code.'' (Unfinished
      []),
     Message [(None, 40)] ''The entered amount is invalid, please check.'' (Unfinished []),
     Message [(None, 23)] ''Resulting URI too long, try to reduce the text for label / message.''
      (Unfinished []),
     Message [(None, 25)] ''Save QR Code'' (Unfinished []),
     Message [(None, 0)] ''PNG Images (*.png)'' (Finished ''PNG Bilder (*.png)'')]"

definition nb_RPCConsole_1 :: "message list" where
  "nb_RPCConsole_1 =
    [Message [(Some ''../forms/rpcconsole.ui'', 46)] ''Client name'' (Finished ''Klientnavn''),
     Message [(None, 10), (None, 23), (None, 26), (None, 23), (None, 23), (None, 36), (None, 53),
      (None, 23)] ''N/A'' (Finished ''-''),
     Message [(None, -194)] ''Client version'' (Finished ''Klientversjon''),
     Message [(None, -45)] ''&Information'' (Finished ''&Informasjon''),
     Message [(None, 68)] ''Using OpenSSL version'' (Finished ''Bruker OpenSSL versjon''),
     Message [(None, 49)] ''Startup time'' (Finished ''Oppstartstidspunkt''),
     Message [(None, 29)] ''Network'' (Finished ''Nettverk''),
     Message [(None, 7)] ''Number of connections'' (Finished ''Antall tilkoblinger''),
     Message [(None, 23)] ''On testnet'' (Unfinished []),
     Message [(None, 23)] ''Block chain'' (Finished ''Blokkjeden''),
     Message [(None, 7)] ''Current number of blocks'' (Finished (''N'' @ [CHR 0xC3, CHR 0xA5] @ ''v''
      @ [CHR 0xC3, CHR 0xA6] @ ''rende antall blokker'')),
     Message [(None, 197)] ''&Network Traffic'' (Unfinished []),
     Message [(None, 52)] ''&Clear'' (Unfinished []),
     Message [(None, 13)] ''Totals'' (Unfinished []),
     Message [(None, 64)] ''In:'' (Unfinished []),
     Message [(None, 80)] ''Out:'' (Unfinished []),
     Message [(None, -383)] ''Last block time'' (Finished ''Tidspunkt for siste blokk''),
     Message [(None, 52)] ''&Open'' (Finished (''&'' @ [CHR 0xC3, CHR 0x85] @ ''pne'')),
     Message [(None, 16)] ''Command-line options'' (Unfinished []),
     Message [(None, 7)]
      ''Show the PayDay-Qt help message to get a list with possible PayDay command-line options.''
      (Unfinished []),
     Message [(None, 3)] ''&Show'' (Finished ''&Vis''),
     Message [(None, 24)] ''&Console'' (Finished ''&Konsoll''),
     Message [(None, -237)] ''Build date'' (Finished ''Byggedato''),
     Message [(None, -104)] ''PayDay - Debug window'' (Unfinished []),
     Message [(None, 25)] ''PayDay Core'' (Unfinished []),
     Message [(None, 256)] ''Debug log file'' (Finished (''Loggfil for feils'' @ [CHR 0xC3, CHR 0xB8]
      @ ''k'')),
     Message [(None, 7)]
      ''Open the PayDay debug log file from the current data directory. This can take a few seconds for large log files.''
      (Unfinished [])]"

definition nb_RPCConsole_2 :: "message list" where
  "nb_RPCConsole_2 =
    [Message [(None, 102)] ''Clear console'' (Finished (''T'' @ [CHR 0xC3, CHR 0xB8] @ ''m konsoll''
      )),
     Message [(Some ''../rpcconsole.cpp'', 325)] ''Welcome to the PayDay RPC console.'' (Unfinished
      []),
     Message [(None, 1)]
      ''Use up and down arrows to navigate history, and <b>Ctrl-L</b> to clear screen.''
      (Finished (''Bruk opp og ned pil for '' @ [CHR 0xC3, CHR 0xA5] @
      '' navigere historikken, og <b>Ctrl-L</b> for '' @ [CHR 0xC3, CHR 0xA5] @ '' t'' @ [CHR
      0xC3, CHR 0xB8] @ ''mme skjermen.'')),
     Message [(None, 1)] ''Type <b>help</b> for an overview of available commands.'' (Finished
      ''Skriv <b>help</b> for en oversikt over kommandoer.''),
     Message [(None, 127)] ''%1 B'' (Unfinished []),
     Message [(None, 2)] ''%1 KB'' (Unfinished []),
     Message [(None, 2)] ''%1 MB'' (Unfinished []),
     Message [(None, 2)] ''%1 GB'' (Unfinished []),
     Message [(None, 7)] ''%1 m'' (Unfinished []),
     Message [(None, 5)] ''%1 h'' (Unfinished []),
     Message [(None, 2)] ''%1 h %2 m'' (Unfinished [])]"

definition nb_SendCoinsDialog_1 :: "message list" where
  "nb_SendCoinsDialog_1 =
    [Message [(Some ''../forms/sendcoinsdialog.ui'', 14), (Some ''../sendcoinsdialog.cpp'', 181),
      (None, 5), (None, 5), (None, 5), (None, 6), (None, 5), (None, 5)] ''Send Coins'' (Finished
      ''Send PayDays''),
     Message [(None, 76)] ''Coin Control Features'' (Finished ''Mynt Kontroll Funksjoner''),
     Message [(None, 20)] ''Inputs...'' (Finished ''Inndata...''),
     Message [(None, 7)] ''automatically selected'' (Finished ''automatisk valgte''),
     Message [(None, 19)] ''Insufficient funds!'' (Finished ''Utilstrekkelige midler!''),
     Message [(None, 77)] ''Quantity:'' (Finished ''Mengde:''),
     Message [(None, 22), (None, 35)] ''0'' (Unfinished []),
     Message [(None, -19)] ''Bytes:'' (Finished ''Bytes:''),
     Message [(None, 51)] ''Amount:'' (Finished (''Bel'' @ [CHR 0xC3, CHR 0xB8] @ ''p:'')),
     Message [(None, 22), (None, 86), (None, 86), (None, 32)] ''0.00 MIE'' (Finished
      ''123.456 MIE {0.00 ?}''),
     Message [(None, -191)] ''Priority:'' (Finished ''Prioritet:''),
     Message [(None, 19)] ''medium'' (Unfinished []),
     Message [(None, 32)] ''Fee:'' (Finished ''Avgift:''),
     Message [(None, 35)] ''Low Output:'' (Finished ''Lav Utdata:''),
     Message [(None, 19)] ''no'' (Finished ''nei''),
     Message [(None, 32)] ''After Fee:'' (Finished ''Etter Avgift:''),
     Message [(None, 35)] ''Change'' (Unfinished []),
     Message [(None, 50)] ''custom change address'' (Unfinished []),
     Message [(None, 106)] ''Send to multiple recipients at once'' (Finished (''Send til flere enn ''
      @ [CHR 0xC3, CHR 0xA9] @ ''n mottaker'')),
     Message [(None, 3)] ''Add &Recipient'' (Finished ''&Legg til Mottaker''),
     Message [(None, 16)] ''Remove all transaction fields'' (Unfinished []),
     Message [(None, 3)] ''Clear &All'' (Finished ''Fjern &Alt''),
     Message [(None, 24)] ''Balance:'' (Finished ''Saldo:''),
     Message [(None, 16)] ''123.456 MIE'' (Finished ''123.456 MIE''),
     Message [(None, 31)] ''Confirm the send action'' (Finished ''Bekreft sending''),
     Message [(None, 3)] ''S&end'' (Finished ''S&end'')]"

definition nb_SendCoinsDialog_2 :: "message list" where
  "nb_SendCoinsDialog_2 =
    [Message [(Some ''../sendcoinsdialog.cpp'', -173)]
      ''Enter a PayDay address (e.g. M8gZqgY4r2RoEdqYk3QsAqFckyf9pRHN6i)'' (Unfinished []),
     Message [(None, 15)] ''Copy quantity'' (Finished ''Kopier mengde''),
     Message [(None, 1)] ''Copy amount'' (Finished (''Kopi'' @ [CHR 0xC3, CHR 0xA9] @ ''r bel'' @
      [CHR 0xC3, CHR 0xB8] @ ''p'')),
     Message [(None, 1)] ''Copy fee'' (Finished ''Kopier gebyr''),
     Message [(None, 1)] ''Copy after fee'' (Unfinished []),
     Message [(None, 1)] ''Copy bytes'' (Unfinished []),
     Message [(None, 1)] ''Copy priority'' (Unfinished []),
     Message [(None, 1)] ''Copy low output'' (Unfinished []),
     Message [(None, 1)] ''Copy change'' (Unfinished []),
     Message [(None, 86)] ''<b>%1</b> to %2 (%3)'' (Finished ''<b>%1</b> til %2 (%3)''),
     Message [(None, 5)] ''Confirm send coins'' (Finished ''Bekreft sending av bitcoins''),
     Message [(None, 1)] ''Are you sure you want to send %1?'' (Finished (''Er du sikker p'' @ [CHR
      0xC3, CHR 0xA5] @ '' du '' @ [CHR 0xC3, CHR 0xB8] @ ''nsker '' @ [CHR 0xC3, CHR 0xA5] @
      '' sende %1?'')),
     Message [(None, 0)] '' and '' (Finished ''og''),
     Message [(None, 29)] ''The recipient address is not valid, please recheck.'' (Finished
      ''Adresse for mottaker er ugyldig.''),
     Message [(None, 5)] ''The amount to pay must be larger than 0.'' (Finished (''Bel'' @ [CHR 0xC3,
      CHR 0xB8] @ ''pen som skal betales m'' @ [CHR 0xC3, CHR 0xA5] @ '' v'' @ [CHR 0xC3, CHR
      0xA6] @ ''re over 0.'')),
     Message [(None, 5)] ''The amount exceeds your balance.'' (Finished (''Bel'' @ [CHR 0xC3, CHR
      0xB8] @ ''pet overstiger saldo.'')),
     Message [(None, 5)] ''The total exceeds your balance when the %1 transaction fee is included.''
      (Finished (''Totalbel'' @ [CHR 0xC3, CHR 0xB8] @
      ''pet overstiger saldo etter at %1 transaksjonsgebyr er lagt til.'')),
     Message [(None, 6)]
      ''Duplicate address found, can only send to each address once per send operation.''
      (Finished (''Duplikate adresser funnet. Kan bare sende '' @ [CHR 0xC3, CHR 0xA9] @
      ''n gang til hver adresse per operasjon.'')),
     Message [(None, 5)] ''Error: Transaction creation failed!'' (Unfinished []),
     Message [(None, 5)]
      ''Error: The transaction was rejected. This might happen if some of the coins in your wallet were already spent, such as if you used a copy of wallet.dat and coins were spent in the copy but not marked as spent here.''
      (Unfinished []),
     Message [(None, 247)] ''WARNING: Invalid PayDay address'' (Finished
      ''ADVARSEL: Ugyldig PayDay adresse''),
     Message [(None, 13)] ''(no label)'' (Finished ''(ingen merkelapp)''),
     Message [(None, 4)] ''WARNING: unknown change address'' (Unfinished [])]"

definition nb_SendCoinsEntry :: "message list" where
  "nb_SendCoinsEntry =
    [Message [(Some ''../forms/sendcoinsentry.ui'', 14)] ''Form'' (Unfinished []),
     Message [(None, 15)] ''A&mount:'' (Finished (''&Bel'' @ [CHR 0xC3, CHR 0xB8] @ ''p:'')),
     Message [(None, 13)] ''Pay &To:'' (Finished ''Betal &Til:''),
     Message [(None, 34)]
      ''The address to send the payment to (e.g. M8gZqgY4r2RoEdqYk3QsAqFckyf9pRHN6i)''
      (Unfinished []),
     Message [(None, 60), (Some ''../sendcoinsentry.cpp'', 26)]
      ''Enter a label for this address to add it to your address book'' (Finished (
      ''Skriv inn en merkelapp for denne adressen for '' @ [CHR 0xC3, CHR 0xA5] @
      '' legge den til i din adressebok'')),
     Message [(None, -78)] ''&Label:'' (Finished ''&Merkelapp:''),
     Message [(None, 28)] ''Choose address from address book'' (Finished
      ''Velg adresse fra adresseboken''),
     Message [(None, 10)] ''Alt+A'' (Finished ''Alt+A''),
     Message [(None, 7)] ''Paste address from clipboard'' (Finished
      ''Lim inn adresse fra utklippstavlen''),
     Message [(None, 10)] ''Alt+P'' (Finished ''Alt+P''),
     Message [(None, 7)] ''Remove this recipient'' (Finished ''Fjern denne mottakeren''),
     Message [(Some ''../sendcoinsentry.cpp'', 1)]
      ''Enter a PayDay address (e.g. M8gZqgY4r2RoEdqYk3QsAqFckyf9pRHN6i)'' (Unfinished [])]"

definition nb_SignVerifyMessageDialog_1 :: "message list" where
  "nb_SignVerifyMessageDialog_1 =
    [Message [(Some ''../forms/signverifymessagedialog.ui'', 14)]
      ''Signatures - Sign / Verify a Message'' (Finished
      ''Signaturer - Signer / Verifiser en melding''),
     Message [(None, 13), (None, 124)] ''&Sign Message'' (Finished (''&Sign'' @ [CHR 0xC3, CHR 0xA9]
      @ ''r Melding'')),
     Message [(None, -118)]
      ''You can sign messages with your addresses to prove you own them. Be careful not to sign anything vague, as phishing attacks may try to trick you into signing your identity over to them. Only sign fully-detailed statements you agree to.''
      (Finished (''Du kan signere meldinger med dine adresser for '' @ [CHR 0xC3, CHR 0xA5] @
      '' bevise at du eier dem. Ikke sign'' @ [CHR 0xC3, CHR 0xA9] @
      ''r vage meldinger da phishing-angrep kan pr'' @ [CHR 0xC3, CHR 0xB8] @ ''ve '' @ [CHR
      0xC3, CHR 0xA5] @ '' lure deg til '' @ [CHR 0xC3, CHR 0xA5] @
      '' signere din identitet over til andre. Sign'' @ [CHR 0xC3, CHR 0xA9] @
      ''r kun fullt detaljerte utsagn som du er enig i.'')),
     Message [(None, 18)]
      ''The address to sign the message with (e.g. M8gZqgY4r2RoEdqYk3QsAqFckyf9pRHN6i)''
      (Unfinished []),
     Message [(None, 10), (None, 203)] ''Choose an address from the address book'' (Finished
      ''Velg en adresse fra adresseboken''),
     Message [(None, -193), (None, 203)] ''Alt+A'' (Finished ''Alt+A''),
     Message [(None, -193)] ''Paste address from clipboard'' (Finished
      ''Lim inn adresse fra utklippstavlen''),
     Message [(None, 10)] ''Alt+P'' (Finished ''Alt+P''),
     Message [(None, 12)] ''Enter the message you want to sign here'' (Finished
      ''Skriv inn meldingen du vil signere her''),
     Message [(None, 24)] ''Copy the current signature to the system clipboard'' (Finished
      ''Kopier valgt signatur til utklippstavle''),
     Message [(None, 21)] ''Sign the message to prove you own this PayDay address'' (Unfinished []),
     Message [(None, 17)] ''Reset all sign message fields'' (Finished
      ''Tilbakestill alle felter for meldingssignering''),
     Message [(None, 3), (None, 146)] ''Clear &All'' (Finished ''Fjern &Alt''),
     Message [(None, -87), (None, 70)] ''&Verify Message'' (Finished ''&Verifiser Melding''),
     Message [(None, -64)]
      ''Enter the signing address, message (ensure you copy line breaks, spaces, tabs, etc. exactly) and signature below to verify the message. Be careful not to read more into the signature than what is in the signed message itself, to avoid being tricked by a man-in-the-middle attack.''
      (Finished (''Angi adresse for signering, melding (v'' @ [CHR 0xC3, CHR 0xA6] @
      ''r sikker p'' @ [CHR 0xC3, CHR 0xA5] @
      '' at du kopierer linjeskift, mellomrom, tab, etc. helt n'' @ [CHR 0xC3, CHR 0xB8] @
      ''yaktig) og signatur under for '' @ [CHR 0xC3, CHR 0xA5] @ '' verifisere meldingen. V'' @
      [CHR 0xC3, CHR 0xA6] @
      ''r forsiktig med at du ikke gir signaturen mer betydning enn det som faktisk st'' @ [CHR
      0xC3, CHR 0xA5] @ ''r i meldingen, for '' @ [CHR 0xC3, CHR 0xA5] @ '' unng'' @ [CHR 0xC3,
      CHR 0xA5] @ '' '' @ [CHR 0xC3, CHR 0xA5] @ '' bli lurt av s'' @ [CHR 0xC3, CHR 0xA5] @
      ''kalte '' @ [CHR 0x22] @ ''man-in-the-middle'' @ [CHR 0x22] @ '' angrep.'')),
     Message [(None, 21)]
      ''The address the message was signed with (e.g. M8gZqgY4r2RoEdqYk3QsAqFckyf9pRHN6i)''
      (Unfinished []),
     Message [(None, 40)]
      ''Verify the message to ensure it was signed with the specified PayDay address''
      (Unfinished []),
     Message [(None, 17)] ''Reset all verify message fields'' (Finished
      ''Tilbakestill alle felter for meldingsverifikasjon''),
     Message [(Some ''../signverifymessagedialog.cpp'', 27), (None, 3)]
      ''Enter a PayDay address (e.g. M8gZqgY4r2RoEdqYk3QsAqFckyf9pRHN6i)'' (Unfinished []),
     Message [(None, -2)] (''Click '' @ [CHR 0x22] @ ''Sign Message'' @ [CHR 0x22] @
      '' to generate signature'') (Finished (''Klikk '' @ [CHR 0x22] @ ''Signer Melding'' @ [CHR
      0x22] @ '' for '' @ [CHR 0xC3, CHR 0xA5] @ '' generere signatur'')),
     Message [(None, 3)] ''Enter PayDay signature'' (Finished ''Skriv inn PayDay signatur''),
     Message [(None, 82), (None, 81)] ''The entered address is invalid.'' (Finished
      ''Angitt adresse er ugyldig.''),
     Message [(None, -81), (None, 8), (None, 73), (None, 8)]
      ''Please check the address and try again.'' (Finished (''Vennligst sjekk adressen og pr''
      @ [CHR 0xC3, CHR 0xB8] @ ''v igjen.'')),
     Message [(None, -81), (None, 81)] ''The entered address does not refer to a key.'' (Finished (
      ''Angitt adresse refererer ikke til en n'' @ [CHR 0xC3, CHR 0xB8] @ ''kkel.'')),
     Message [(None, -73)] ''Wallet unlock was cancelled.'' (Finished (''Oppl'' @ [CHR 0xC3, CHR
      0xA5] @ ''sing av lommebok ble avbrutt.'')),
     Message [(None, 8)] ''Private key for the entered address is not available.'' (Finished (
      ''Privat n'' @ [CHR 0xC3, CHR 0xB8] @
      ''kkel for den angitte adressen er ikke tilgjengelig.''))]"

definition nb_SignVerifyMessageDialog_2 :: "message list" where
  "nb_SignVerifyMessageDialog_2 =
    [Message [(None, 12)] ''Message signing failed.'' (Finished ''Signering av melding feilet.''),
     Message [(None, 5)] ''Message signed.'' (Finished ''Melding signert.''),
     Message [(None, 59)] ''The signature could not be decoded.'' (Finished
      ''Signaturen kunne ikke dekodes.''),
     Message [(None, 0), (None, 13)] ''Please check the signature and try again.'' (Finished (
      ''Vennligst sjekk signaturen og pr'' @ [CHR 0xC3, CHR 0xB8] @ ''v igjen.'')),
     Message [(None, 0)] ''The signature did not match the message digest.'' (Finished
      ''Signaturen passer ikke til meldingen.''),
     Message [(None, 7)] ''Message verification failed.'' (Finished
      ''Verifikasjon av melding feilet.''),
     Message [(None, 5)] ''Message verified.'' (Finished ''Melding verifisert.'')]"

definition nb_TrafficGraphWidget :: "message list" where
  "nb_TrafficGraphWidget =
    [Message [(Some ''../trafficgraphwidget.cpp'', 75)] ''KB/s'' (Unfinished [])]"

definition nb_TransactionDesc_1 :: "message list" where
  "nb_TransactionDesc_1 =
    [Message [(Some ''../transactiondesc.cpp'', 25)] ''Open until %1'' (Finished ([CHR 0xC3, CHR
      0x85] @ ''pen til %1'')),
     Message [(None, 6)] ''conflicted'' (Unfinished []),
     Message [(None, 2)] ''%1/offline'' (Finished ''%1/frakoblet''),
     Message [(None, 2)] ''%1/unconfirmed'' (Finished ''%1/ubekreftet''),
     Message [(None, 2)] ''%1 confirmations'' (Finished ''%1 bekreftelser''),
     Message [(None, 17)] ''Status'' (Finished ''Status''),
     Message [(None, 7)] '', broadcast through %n node(s)'' (Plural ['', kringkast gjennom %n node'',
      '', kringkast gjennom %n noder'']),
     Message [(None, 4)] ''Date'' (Finished ''Dato''),
     Message [(None, 7)] ''Source'' (Finished ''Kilde''),
     Message [(None, 0)] ''Generated'' (Finished ''Generert''),
     Message [(None, 5), (None, 17)] ''From'' (Finished ''Fra''),
     Message [(None, 1), (None, 22), (None, 58)] ''To'' (Finished ''Til''),
     Message [(None, -77), (None, 2)] ''own address'' (Finished ''egen adresse''),
     Message [(None, -2)] ''label'' (Finished ''merkelapp''),
     Message [(None, 37), (None, 12), (None, 45), (None, 17), (None, 30)] ''Credit'' (Finished
      ''Kredit''),
     Message [(None, -102)] ''matures in %n more block(s)'' (Plural [''blir moden om %n blokk'',
      ''blir moden om %n blokker'']),
     Message [(None, 2)] ''not accepted'' (Finished ''ikke akseptert''),
     Message [(None, 44), (None, 8), (None, 15), (None, 30)] ''Debit'' (Finished ''Debet''),
     Message [(None, -39)] ''Transaction fee'' (Finished ''Transaksjonsgebyr''),
     Message [(None, 16)] ''Net amount'' (Finished (''Nettobel'' @ [CHR 0xC3, CHR 0xB8] @ ''p'')),
     Message [(None, 6)] ''Message'' (Finished ''Melding''),
     Message [(None, 2)] ''Comment'' (Finished ''Kommentar''),
     Message [(None, 2)] ''Transaction ID'' (Finished ''Transaksjons-ID''),
     Message [(None, 3)] (
      ''Generated coins must mature 63 blocks before they can be spent. When you generated this block, it was broadcast to the network to be added to the block chain. If it fails to get into the chain, its state will change to ''
      @ [CHR 0x22] @ ''not accepted'' @ [CHR 0x22] @ '' and it won'' @ [CHR 0x27] @
      ''t be spendable. This may occasionally happen if another node generates a block within a few seconds of yours.''
      ) (Unfinished []),
     Message [(None, 7)] ''Debug information'' (Finished (''Informasjon for feils'' @ [CHR 0xC3, CHR
      0xB8] @ ''k'')),
     Message [(None, 8)] ''Transaction'' (Finished ''Transaksjon'')]"

definition nb_TransactionDesc_2 :: "message list" where
  "nb_TransactionDesc_2 =
    [Message [(None, 5)] ''Inputs'' (Finished ''Inndata''),
     Message [(None, 21)] ''Amount'' (Finished (''Bel'' @ [CHR 0xC3, CHR 0xB8] @ ''p'')),
     Message [(None, 1)] ''true'' (Finished ''sann''),
     Message [(None, 0)] ''false'' (Finished ''usann''),
     Message [(None, -209)] '', has not been successfully broadcast yet'' (Finished
      '', har ikke blitt kringkastet uten problemer enda.''),
     Message [(None, -36)] ''Open for %n more block(s)'' (PluralUnfinished [[], []]),
     Message [(None, 71)] ''unknown'' (Finished ''ukjent'')]"

definition nb_TransactionDescDialog :: "message list" where
  "nb_TransactionDescDialog =
    [Message [(Some ''../forms/transactiondescdialog.ui'', 14)] ''Transaction details'' (Finished
      ''Transaksjonsdetaljer''),
     Message [(None, 6)] ''This pane shows a detailed description of the transaction'' (Finished
      ''Her vises en detaljert beskrivelse av transaksjonen'')]"

definition nb_TransactionTableModel :: "message list" where
  "nb_TransactionTableModel =
    [Message [(Some ''../transactiontablemodel.cpp'', 231)] ''Date'' (Finished ''Dato''),
     Message [(None, 0)] ''Type'' (Finished ''Type''),
     Message [(None, 0)] ''Address'' (Finished ''Adresse''),
     Message [(None, 0)] ''Amount'' (Finished (''Bel'' @ [CHR 0xC3, CHR 0xB8] @ ''p'')),
     Message [(None, 52)] ''Open until %1'' (Finished ([CHR 0xC3, CHR 0x85] @ ''pen til %1'')),
     Message [(None, 12)] ''Confirmed (%1 confirmations)'' (Finished ''Bekreftet (%1 bekreftelser)''),
     Message [(None, -15)] ''Open for %n more block(s)'' (Plural [[CHR 0xC3, CHR 0x85] @
      ''pen for %n blokk til'', [CHR 0xC3, CHR 0x85] @ ''pen for %n blokker til'']),
     Message [(None, 6)] ''Offline'' (Unfinished []),
     Message [(None, 3)] ''Unconfirmed'' (Finished ''Ubekreftet''),
     Message [(None, 3)] ''Confirming (%1 of %2 recommended confirmations)'' (Finished
      ''Bekrefter (%1 av %2 anbefalte bekreftelser)''),
     Message [(None, 6)] ''Conflicted'' (Unfinished []),
     Message [(None, 3)] ''Immature (%1 confirmations, will be available after %2)'' (Unfinished []),
     Message [(None, 3)]
      ''This block was not received by any other nodes and will probably not be accepted!''
      (Finished
      ''Denne blokken har ikke blitt mottatt av noen andre noder og vil sannsynligvis ikke bli akseptert!''
      ),
     Message [(None, 3)] ''Generated but not accepted'' (Finished ''Generert men ikke akseptert''),
     Message [(None, 42)] ''Received with'' (Finished ''Mottatt med''),
     Message [(None, 2)] ''Received from'' (Finished ''Mottatt fra''),
     Message [(None, 3)] ''Sent to'' (Finished ''Sendt til''),
     Message [(None, 2)] ''Payment to yourself'' (Finished ''Betaling til deg selv''),
     Message [(None, 2)] ''Mined'' (Finished ''Utvunnet''),
     Message [(None, 38)] ''(n/a)'' (Finished ''-''),
     Message [(None, 194)]
      ''Transaction status. Hover over this field to show number of confirmations.'' (Finished (
      ''Transaksjonsstatus. Hold muspekeren over dette feltet for '' @ [CHR 0xC3, CHR 0xA5] @
      '' se antall bekreftelser.'')),
     Message [(None, 2)] ''Date and time that the transaction was received.'' (Finished
      ''Dato og tid for da transaksjonen ble mottat.''),
     Message [(None, 2)] ''Type of transaction.'' (Finished ''Type transaksjon.''),
     Message [(None, 2)] ''Destination address of transaction.'' (Finished
      ''Mottaksadresse for transaksjonen''),
     Message [(None, 2)] ''Amount removed from or added to balance.'' (Finished (''Bel'' @ [CHR 0xC3,
      CHR 0xB8] @ ''p fjernet eller lagt til saldo.''))]"

definition nb_TransactionView_1 :: "message list" where
  "nb_TransactionView_1 =
    [Message [(Some ''../transactionview.cpp'', 54), (None, 17)] ''All'' (Finished ''Alle''),
     Message [(None, -16)] ''Today'' (Finished ''I dag''),
     Message [(None, 1)] ''This week'' (Finished ''Denne uken''),
     Message [(None, 1)] ''This month'' (Finished (''Denne m'' @ [CHR 0xC3, CHR 0xA5] @ ''neden'')),
     Message [(None, 1)] ''Last month'' (Finished (''Forrige m'' @ [CHR 0xC3, CHR 0xA5] @ ''ned'')),
     Message [(None, 1)] ''This year'' (Finished (''Dette '' @ [CHR 0xC3, CHR 0xA5] @ ''ret'')),
     Message [(None, 1)] ''Range...'' (Finished ''Intervall...''),
     Message [(None, 12)] ''Received with'' (Finished ''Mottatt med''),
     Message [(None, 2)] ''Sent to'' (Finished ''Sendt til''),
     Message [(None, 2)] ''To yourself'' (Finished ''Til deg selv''),
     Message [(None, 1)] ''Mined'' (Finished ''Utvunnet''),
     Message [(None, 1)] ''Other'' (Finished ''Andre''),
     Message [(None, 7)] ''Enter address or label to search'' (Finished (
      ''Skriv inn adresse eller merkelapp for s'' @ [CHR 0xC3, CHR 0xB8] @ ''k'')),
     Message [(None, 7)] ''Min amount'' (Finished (''Minimumsbel'' @ [CHR 0xC3, CHR 0xB8] @ ''p'')),
     Message [(None, 34)] ''Copy address'' (Finished ''Kopier adresse''),
     Message [(None, 1)] ''Copy label'' (Finished ''Kopier merkelapp''),
     Message [(None, 1)] ''Copy amount'' (Finished (''Kopi'' @ [CHR 0xC3, CHR 0xA9] @ ''r bel'' @
      [CHR 0xC3, CHR 0xB8] @ ''p'')),
     Message [(None, 1)] ''Copy transaction ID'' (Finished ''Kopier transaksjons-ID''),
     Message [(None, 1)] ''Edit label'' (Finished ''Rediger merkelapp''),
     Message [(None, 1)] ''Show transaction details'' (Finished ''Vis transaksjonsdetaljer''),
     Message [(None, 138)] ''Export Transaction Data'' (Unfinished []),
     Message [(None, 1)] ''Comma separated file (*.csv)'' (Finished ''Kommaseparert fil (*.csv)''),
     Message [(None, 8)] ''Confirmed'' (Finished ''Bekreftet''),
     Message [(None, 1)] ''Date'' (Finished ''Dato''),
     Message [(None, 1)] ''Type'' (Finished ''Type''),
     Message [(None, 1)] ''Label'' (Finished ''Merkelapp''),
     Message [(None, 1)] ''Address'' (Finished ''Adresse''),
     Message [(None, 1)] ''Amount'' (Finished (''Bel'' @ [CHR 0xC3, CHR 0xB8] @ ''p''))]"

definition nb_TransactionView_2 :: "message list" where
  "nb_TransactionView_2 =
    [Message [(None, 1)] ''ID'' (Finished ''ID''),
     Message [(None, 4)] ''Error exporting'' (Unfinished []),
     Message [(None, 0)] ''Could not write to file %1.'' (Finished ''Kunne ikke skrive til filen %1''
      ),
     Message [(None, 100)] ''Range:'' (Finished ''Intervall:''),
     Message [(None, 8)] ''to'' (Finished ''til'')]"

definition nb_WalletModel :: "message list" where
  "nb_WalletModel =
    [Message [(Some ''../walletmodel.cpp'', 208)] ''Sending...'' (Finished ''Sender...'')]"

section \<open>What each part keeps\<close>

lemma labels_nb_OverviewPage: "list_all label_ok nb_OverviewPage"
  by code_simp

lemma edges_nb_OverviewPage: "list_all (keeps edges) nb_OverviewPage"
  by code_simp

lemma labels_nb_PaymentServer: "list_all label_ok nb_PaymentServer"
  by code_simp

lemma edges_nb_PaymentServer: "list_all (keeps edges) nb_PaymentServer"
  by code_simp

lemma labels_nb_QRCodeDialog: "list_all label_ok nb_QRCodeDialog"
  by code_simp

lemma edges_nb_QRCodeDialog: "list_all (keeps edges) nb_QRCodeDialog"
  by code_simp

lemma labels_nb_RPCConsole_1: "list_all label_ok nb_RPCConsole_1"
  by code_simp

lemma edges_nb_RPCConsole_1: "list_all (keeps edges) nb_RPCConsole_1"
  by code_simp

lemma labels_nb_RPCConsole_2: "list_all label_ok nb_RPCConsole_2"
  by code_simp

lemma edges_nb_RPCConsole_2: "list_all (keeps edges) nb_RPCConsole_2"
  by code_simp

lemma labels_nb_SendCoinsDialog_1: "list_all label_ok nb_SendCoinsDialog_1"
  by code_simp

lemma edges_nb_SendCoinsDialog_1: "list_all (keeps edges) nb_SendCoinsDialog_1"
  by code_simp

lemma labels_nb_SendCoinsDialog_2: "list_all label_ok nb_SendCoinsDialog_2"
  by code_simp

lemma edges_nb_SendCoinsDialog_2: "list_all (\<lambda>m. msg_source m = '' and '' \<or> keeps edges m) nb_SendCoinsDialog_2"
  by code_simp

lemma labels_nb_SendCoinsEntry: "list_all label_ok nb_SendCoinsEntry"
  by code_simp

lemma edges_nb_SendCoinsEntry: "list_all (keeps edges) nb_SendCoinsEntry"
  by code_simp

lemma labels_nb_SignVerifyMessageDialog_1: "list_all label_ok nb_SignVerifyMessageDialog_1"
  by code_simp

lemma edges_nb_SignVerifyMessageDialog_1: "list_all (keeps edges) nb_SignVerifyMessageDialog_1"
  by code_simp

lemma labels_nb_SignVerifyMessageDialog_2: "list_all label_ok nb_SignVerifyMessageDialog_2"
  by code_simp

lemma edges_nb_SignVerifyMessageDialog_2: "list_all (keeps edges) nb_SignVerifyMessageDialog_2"
  by code_simp

lemma labels_nb_TrafficGraphWidget: "list_all label_ok nb_TrafficGraphWidget"
  by code_simp

lemma edges_nb_TrafficGraphWidget: "list_all (keeps edges) nb_TrafficGraphWidget"
  by code_simp

lemma labels_nb_TransactionDesc_1: "list_all label_ok nb_TransactionDesc_1"
  by code_simp

lemma edges_nb_TransactionDesc_1: "list_all (keeps edges) nb_TransactionDesc_1"
  by code_simp

lemma labels_nb_TransactionDesc_2: "list_all label_ok nb_TransactionDesc_2"
  by code_simp

lemma edges_nb_TransactionDesc_2: "list_all (keeps edges) nb_TransactionDesc_2"
  by code_simp

lemma labels_nb_TransactionDescDialog: "list_all label_ok nb_TransactionDescDialog"
  by code_simp

lemma edges_nb_TransactionDescDialog: "list_all (keeps edges) nb_TransactionDescDialog"
  by code_simp

lemma labels_nb_TransactionTableModel: "list_all label_ok nb_TransactionTableModel"
  by code_simp

lemma edges_nb_TransactionTableModel: "list_all (keeps edges) nb_TransactionTableModel"
  by code_simp

lemma labels_nb_TransactionView_1: "list_all label_ok nb_TransactionView_1"
  by code_simp

lemma edges_nb_TransactionView_1: "list_all (keeps edges) nb_TransactionView_1"
  by code_simp

lemma labels_nb_TransactionView_2: "list_all label_ok nb_TransactionView_2"
  by code_simp

lemma edges_nb_TransactionView_2: "list_all (keeps edges) nb_TransactionView_2"
  by code_simp

lemma labels_nb_WalletModel: "list_all label_ok nb_WalletModel"
  by code_simp

lemma edges_nb_WalletModel: "list_all (keeps edges) nb_WalletModel"
  by code_simp

section \<open>No source text twice\<close>

lemma distinct_nb_OverviewPage: "distinct (map msg_source (nb_OverviewPage))"
  by (rule told_apart_distinct
      [of "[(1, digit1), (8, digit6), (3, digit2), (7, digit2), (14, digit0)]"])
    code_simp

lemma distinct_nb_PaymentServer: "distinct (map msg_source (nb_PaymentServer))"
  by (rule told_apart_distinct
      [of "[]"])
    code_simp

lemma distinct_nb_QRCodeDialog: "distinct (map msg_source (nb_QRCodeDialog))"
  by (rule told_apart_distinct
      [of "[(0, digit0), (0, digit2), (1, digit0), (4, digit3)]"])
    code_simp

lemma distinct_nb_RPCConsole: "distinct (map msg_source (nb_RPCConsole_1 @ nb_RPCConsole_2))"
  by (rule told_apart_distinct
      [of "[(1, digit2), (0, digit0), (3, digit0), (3, digit1), (5, digit4), (12, digit2), (3, digit2), (3, digit5), (4, digit5)]"])
    code_simp

lemma distinct_nb_SendCoinsDialog: "distinct (map msg_source (nb_SendCoinsDialog_1 @ nb_SendCoinsDialog_2))"
  by (rule told_apart_distinct
      [of "[(0, digit1), (2, digit4), (6, digit2), (1, digit3), (11, digit2), (5, digit0), (3, digit2), (11, digit4), (0, digit0)]"])
    code_simp

lemma distinct_nb_SendCoinsEntry: "distinct (map msg_source (nb_SendCoinsEntry))"
  by (rule told_apart_distinct
      [of "[(0, digit0), (4, digit0), (3, digit2), (8, digit5)]"])
    code_simp

lemma distinct_nb_SignVerifyMessageDialog: "distinct (map msg_source (nb_SignVerifyMessageDialog_1 @ nb_SignVerifyMessageDialog_2))"
  by (rule told_apart_distinct
      [of "[(0, digit4), (6, digit2), (14, digit0), (14, digit2), (20, digit4), (9, digit2), (4, digit0), (20, digit0)]"])
    code_simp

lemma distinct_nb_TrafficGraphWidget: "distinct (map msg_source (nb_TrafficGraphWidget))"
  by (rule told_apart_distinct
      [of "[]"])
    code_simp

lemma distinct_nb_TransactionDesc: "distinct (map msg_source (nb_TransactionDesc_1 @ nb_TransactionDesc_2))"
  by (rule told_apart_distinct
      [of "[(1, digit2), (4, digit0), (4, digit2), (5, digit0), (0, digit1), (11, digit5), (2, digit0), (12, digit0)]"])
    code_simp

lemma distinct_nb_TransactionDescDialog: "distinct (map msg_source (nb_TransactionDescDialog))"
  by (rule told_apart_distinct
      [of "[(1, digit1)]"])
    code_simp

lemma distinct_nb_TransactionTableModel: "distinct (map msg_source (nb_TransactionTableModel))"
  by (rule told_apart_distinct
      [of "[(0, digit2), (5, digit1), (16, digit6), (2, digit0), (4, digit6), (9, digit0), (0, digit4)]"])
    code_simp

lemma distinct_nb_TransactionView: "distinct (map msg_source (nb_TransactionView_1 @ nb_TransactionView_2))"
  by (rule told_apart_distinct
      [of "[(0, digit2), (4, digit6), (7, digit6), (0, digit4), (6, digit1), (1, digit2), (5, digit2), (2, digit3), (6, digit0)]"])
    code_simp

lemma distinct_nb_WalletModel: "distinct (map msg_source (nb_WalletModel))"
  by (rule told_apart_distinct
      [of "[]"])
    code_simp

end
