(* ===== verification/LocaleNbC.thy ===== *)
theory LocaleNbC
  imports Translations
begin

text \<open>
  The Norwegian translation \<open>src/src/qt/locale/bitcoin_nb.ts\<close>: the context \<open>bitcoin-core\<close> of the messages of the core.
  Line breaks are \<open>CHR 0x0A\<close>, quotes \<open>CHR 0x22\<close> and \<open>CHR 0x27\<close>, other bytes are UTF-8.
\<close>

section \<open>The messages\<close>

definition nb_bitcoin_core_1 :: "message list" where
  "nb_bitcoin_core_1 =
    [Message [(Some ''../bitcoinstrings.cpp'', 173)] ''PayDay version'' (Finished ''PayDay versjon''),
     Message [(None, 1)] ''Usage:'' (Finished ''Bruk:''),
     Message [(None, 1)] ''Send command to -server or PayDayd'' (Unfinished []),
     Message [(None, 1)] ''List commands'' (Finished ''List opp kommandoer''),
     Message [(None, 1)] ''Get help for a command'' (Finished ''Vis hjelpetekst for en kommando''),
     Message [(None, -147)] ''Options:'' (Finished ''Innstillinger:''),
     Message [(None, 2)] ''Specify configuration file (default: PayDay.conf)'' (Unfinished []),
     Message [(None, 1)] ''Specify pid file (default: PayDayd.pid)'' (Unfinished []),
     Message [(None, 2)] ''Specify wallet file (within data directory)'' (Finished
      ''Angi lommebok fil (inne i data mappe)''),
     Message [(None, -1)] ''Specify data directory'' (Finished ''Angi mappe for datafiler''),
     Message [(None, -25)] (''%s, you must set a rpcpassword in the configuration file:'' @ [CHR
      0x0A] @ ''%s'' @ [CHR 0x0A] @ ''It is recommended you use the following random password:''
      @ [CHR 0x0A] @ ''rpcuser=PayDayrpc'' @ [CHR 0x0A] @ ''rpcpassword=%s'' @ [CHR 0x0A] @
      ''(you do not need to remember this password)'' @ [CHR 0x0A] @
      ''The username and password MUST NOT be the same.'' @ [CHR 0x0A] @
      ''If the file does not exist, create it with owner-readable-only file permissions.'' @
      [CHR 0x0A] @
      ''It is also recommended to set alertnotify so you are notified of problems;'' @ [CHR
      0x0A] @ ''for example: alertnotify=echo %%s | mail -s '' @ [CHR 0x22] @ ''PayDay Alert'' @
      [CHR 0x22] @ '' admin@foo.com'' @ [CHR 0x0A]) (Unfinished []),
     Message [(None, 27)] ''Set database cache size in megabytes (default: 25)'' (Finished (
      ''Sett st'' @ [CHR 0xC3, CHR 0xB8] @ ''rrelse p'' @ [CHR 0xC3, CHR 0xA5] @
      '' mellomlager for database i megabytes (standardverdi: 25)'')),
     Message [(None, 1)] ''Set database disk log size in megabytes (default: 100)'' (Unfinished []),
     Message [(None, 6)] ''Listen for connections on <port> (default: 15714 or testnet: 25714)''
      (Unfinished []),
     Message [(None, 1)] ''Maintain at most <n> connections to peers (default: 125)'' (Finished (
      ''Hold maks <n> koblinger '' @ [CHR 0xC3, CHR 0xA5] @
      ''pne til andre noder (standardverdi: 125)'')),
     Message [(None, 3)] ''Connect to a node to retrieve peer addresses, and disconnect'' (Finished (
      ''Koble til node for '' @ [CHR 0xC3, CHR 0xA5] @
      '' hente adresser til andre noder, koble s'' @ [CHR 0xC3, CHR 0xA5] @ '' fra igjen'')),
     Message [(None, 1)] ''Specify your own public address'' (Finished
      ''Angi din egen offentlige adresse''),
     Message [(None, 4)] ''Bind to given address. Use [host]:port notation for IPv6'' (Unfinished []),
     Message [(None, 1)]
      ''Query for peer addresses via DNS lookup, if low on addresses (default: 1 unless -connect)''
      (Unfinished []),
     Message [(None, 3)] ''Always query for peer addresses via DNS lookup (default: 0)'' (Unfinished
      []),
     Message [(None, 5)] ''Threshold for disconnecting misbehaving peers (default: 100)'' (Finished (
      ''Grenseverdi for '' @ [CHR 0xC3, CHR 0xA5] @ '' koble fra noder med d'' @ [CHR 0xC3, CHR
      0xA5] @ ''rlig oppf'' @ [CHR 0xC3, CHR 0xB8] @ ''rsel (standardverdi: 100)'')),
     Message [(None, 1)]
      ''Number of seconds to keep misbehaving peers from reconnecting (default: 86400)''
      (Finished (''Antall sekunder noder med d'' @ [CHR 0xC3, CHR 0xA5] @ ''rlig oppf'' @ [CHR
      0xC3, CHR 0xB8] @ ''rsel hindres fra '' @ [CHR 0xC3, CHR 0xA5] @ '' koble til p'' @ [CHR
      0xC3, CHR 0xA5] @ '' nytt (standardverdi: 86400)'')),
     Message [(None, -37)]
      ''An error occurred while setting up the RPC port %u for listening on IPv4: %s'' (Finished
      ''En feil oppstod ved opprettelse av RPC port %u for lytting: %s''),
     Message [(None, 65)]
      ''Listen for JSON-RPC connections on <port> (default: 15715 or testnet: 25715)''
      (Unfinished []),
     Message [(None, -17)] ''Accept command line and JSON-RPC commands'' (Finished
      ''Ta imot kommandolinje- og JSON-RPC-kommandoer''),
     Message [(None, 1)] ''Run in the background as a daemon and accept commands'' (Finished (''Kj''
      @ [CHR 0xC3, CHR 0xB8] @ ''r i bakgrunnen som daemon og ta imot kommandoer'')),
     Message [(None, 1)] ''Use the test network'' (Finished ''Bruk testnettverket'')]"

definition nb_bitcoin_core_2 :: "message list" where
  "nb_bitcoin_core_2 =
    [Message [(None, -24)] ''Accept connections from outside (default: 1 if no -proxy or -connect)''
      (Finished
      ''Ta imot tilkoblinger fra utsiden (standardverdi: 1 hvis uten -proxy eller -connect)''),
     Message [(None, -29)]
      ''An error occurred while setting up the RPC port %u for listening on IPv6, falling back to IPv4: %s''
      (Finished
      ''En feil oppstod under oppsettet av RPC port %u for IPv6, tilbakestilles til IPv4: %s''),
     Message [(None, 96)]
      ''Set maximum size of high-priority/low-fee transactions in bytes (default: 27000)''
      (Unfinished []),
     Message [(None, 12)]
      ''Warning: -paytxfee is set very high! This is the transaction fee you will pay if you send a transaction.''
      (Finished (''Advarsel: -paytxfee er satt veldig h'' @ [CHR 0xC3, CHR 0xB8] @
      ''yt! Dette er transaksjonsgebyret du betaler n'' @ [CHR 0xC3, CHR 0xA5] @
      ''r du sender transaksjoner.'')),
     Message [(None, -103)] (''Warning: Please check that your computer'' @ [CHR 0x27] @
      ''s date and time are correct! If your clock is wrong PayDay will not work properly.'')
      (Unfinished []),
     Message [(None, 132)]
      ''Warning: error reading wallet.dat! All keys read correctly, but transaction data or address book entries might be missing or incorrect.''
      (Finished
      ''Advarsel: Feil ved lesing av wallet.dat! Alle taster lest riktig, men transaksjon dataene eller adresse innlegg er kanskje manglende eller feil.''
      ),
     Message [(None, -18)]
      ''Warning: wallet.dat corrupt, data salvaged! Original wallet.dat saved as wallet.{timestamp}.bak in %s; if your balance or transactions are incorrect you should restore from a backup.''
      (Finished (
      ''Advarsel: wallet.dat korrupt, data reddet! Original wallet.dat lagret som wallet.{timestamp}.bak i %s; hvis din saldo eller dine transaksjoner ikke er korrekte b''
      @ [CHR 0xC3, CHR 0xB8] @ ''r du gjenopprette fra en backup.'')),
     Message [(None, -31)] ''Attempt to recover private keys from a corrupt wallet.dat'' (Finished (
      ''Fors'' @ [CHR 0xC3, CHR 0xB8] @ ''k '' @ [CHR 0xC3, CHR 0xA5] @ '' berge private n'' @
      [CHR 0xC3, CHR 0xB8] @ ''kler fra en korrupt wallet.dat'')),
     Message [(None, 5)] ''Block creation options:'' (Finished ''Valg for opprettelse av blokker:''),
     Message [(None, -69)] ''Connect only to the specified node(s)'' (Finished
      ''Koble kun til angitt(e) node(r)''),
     Message [(None, 4)] ''Discover own IP address (default: 1 when listening and no -externalip)''
      (Finished ''Oppdag egen IP-adresse (standardverdi: 1 ved lytting og uten -externalip)''),
     Message [(None, 101)] ''Failed to listen on any port. Use -listen=0 if you want this.''
      (Finished (''Kunne ikke lytte p'' @ [CHR 0xC3, CHR 0xA5] @
      '' noen port. Bruk -listen=0 hvis det er dette du vil.'')),
     Message [(None, -91)] ''Sync checkpoints policy (default: strict)'' (Unfinished []),
     Message [(None, 89)] (''Invalid -tor address: '' @ [CHR 0x27] @ ''%s'' @ [CHR 0x27]) (Unfinished
      []),
     Message [(None, 4)] ''Invalid amount for -reservebalance=<amount>'' (Unfinished []),
     Message [(None, -88)] ''Maximum per-connection receive buffer, <n>*1000 bytes (default: 5000)''
      (Finished ''Maks mottaksbuffer per forbindelse, <n>*1000 bytes (standardverdi: 5000)''),
     Message [(None, 1)] ''Maximum per-connection send buffer, <n>*1000 bytes (default: 1000)''
      (Finished ''Maks sendebuffer per forbindelse, <n>*1000 bytes (standardverdi: 1000)''),
     Message [(None, -17)] ''Only connect to nodes in network <net> (IPv4, IPv6 or Tor)'' (Finished
      ''Koble kun til noder i nettverket <nett> (IPv4, IPv6 eller Tor)''),
     Message [(None, 31)] ''Prepend debug output with timestamp'' (Unfinished []),
     Message [(None, 41)] ''SSL options: (see the Bitcoin Wiki for SSL setup instructions)''
      (Finished ''SSL valg: (se Bitcoin Wiki for instruksjoner for oppsett av SSL)''),
     Message [(None, -81)] ''Select the version of socks proxy to use (4-5, default: 5)'' (Unfinished
      []),
     Message [(None, 42)] ''Send trace/debug info to console instead of debug.log file'' (Finished
      ''Send spor/debug informasjon til konsollet istedenfor debug.log filen''),
     Message [(None, 5)] ''Send trace/debug info to debugger'' (Unfinished []),
     Message [(None, 30)] ''Set maximum block size in bytes (default: 250000)'' (Unfinished []),
     Message [(None, -1)] ''Set minimum block size in bytes (default: 0)'' (Finished (
      ''Sett minimum blokkst'' @ [CHR 0xC3, CHR 0xB8] @ ''rrelse i bytes (standardverdi: 0)'')),
     Message [(None, -35)] ''Shrink debug.log file on client startup (default: 1 when no -debug)''
      (Finished (''Krymp debug.log filen n'' @ [CHR 0xC3, CHR 0xA5] @
      ''r klienten starter (standardverdi: 1 hvis uten -debug)'')),
     Message [(None, -43)] ''Specify connection timeout in milliseconds (default: 5000)'' (Finished
      ''Angi tidsavbrudd for forbindelse i millisekunder (standardverdi: 5000)''),
     Message [(None, 116)] (''Unable to sign checkpoint, wrong checkpointkey?'' @ [CHR 0x0A])
      (Unfinished []),
     Message [(None, -86)] ''Use UPnP to map the listening port (default: 0)'' (Finished
      ''Bruk UPnP for lytteport (standardverdi: 0)'')]"

definition nb_bitcoin_core_3 :: "message list" where
  "nb_bitcoin_core_3 =
    [Message [(None, -1)] ''Use UPnP to map the listening port (default: 1 when listening)''
      (Finished ''Bruk UPnP for lytteport (standardverdi: 1 ved lytting)''),
     Message [(None, -26)] ''Use proxy to reach tor hidden services (default: same as -proxy)''
      (Unfinished []),
     Message [(None, 47)] ''Username for JSON-RPC connections'' (Finished
      ''Brukernavn for JSON-RPC forbindelser''),
     Message [(None, 51)] ''Verifying database integrity...'' (Finished
      ''Verifiserer databasens integritet...''),
     Message [(None, 44)] ''Error: Wallet locked, unable to create transaction!'' (Unfinished []),
     Message [(None, 2)]
      ''Error: This transaction requires a transaction fee of at least %s because of its amount, complexity, or use of recently received funds!''
      (Unfinished []),
     Message [(None, 3)] ''Error: Transaction creation failed!'' (Unfinished []),
     Message [(None, 2)]
      ''Error: The transaction was rejected! This might happen if some of the coins in your wallet were already spent, such as if you used a copy of wallet.dat and coins were spent in the copy but not marked as spent here.''
      (Unfinished []),
     Message [(None, 7)] ''Warning'' (Unfinished []),
     Message [(None, 1)] ''Information'' (Unfinished []),
     Message [(None, 2)] ''WARNING: syncronized checkpoint violation detected, but skipped!''
      (Unfinished []),
     Message [(None, -1)] ''Warning: This version is obsolete, upgrade required!'' (Finished
      ''Advarsel: Denne versjonen er foreldet, oppgradering kreves!''),
     Message [(None, -54)] ''wallet.dat corrupt, salvage failed'' (Finished
      ''wallet.dat korrupt, bergning feilet''),
     Message [(None, -56)] ''Password for JSON-RPC connections'' (Finished
      ''Passord for JSON-RPC forbindelser''),
     Message [(None, -32)]
      ''Sync time with other nodes. Disable if time on your system is precise e.g. syncing with NTP (default: 1)''
      (Unfinished []),
     Message [(None, 13)]
      ''When creating transactions, ignore inputs with value less than this (default: 0.01)''
      (Unfinished []),
     Message [(None, 6)]
      ''Output debugging information (default: 0, supplying <category> is optional)''
      (Unfinished []),
     Message [(None, 2)] ''If <category> is not supplied, output all debugging information.''
      (Unfinished []),
     Message [(None, 1)] ''<category> can be:'' (Unfinished []),
     Message [(None, 4)]
      ''Enter regression test mode, which uses a special chain in which blocks can be solved instantly. This is intended for regression testing tools and app development.''
      (Unfinished []),
     Message [(None, 9)] ''Allow JSON-RPC connections from specified IP address'' (Finished
      ''Tillat JSON-RPC tilkoblinger fra angitt IP-adresse''),
     Message [(None, 1)] ''Send commands to node running on <ip> (default: 127.0.0.1)'' (Finished (
      ''Send kommandoer til node p'' @ [CHR 0xC3, CHR 0xA5] @
      '' <ip> (standardverdi: 127.0.0.1)'')),
     Message [(None, 1)] ''Wait for RPC server to start'' (Unfinished []),
     Message [(None, 1)] ''Set the number of threads to service RPC calls (default: 4)'' (Unfinished
      []),
     Message [(None, 1)]
      ''Execute command when the best block changes (%s in cmd is replaced by block hash)''
      (Finished (''Eksekv'' @ [CHR 0xC3, CHR 0xA9] @ ''r kommando n'' @ [CHR 0xC3, CHR 0xA5] @
      ''r beste blokk endrer seg (%s i kommandoen erstattes med blokkens hash)'')),
     Message [(None, 3)]
      ''Execute command when a wallet transaction changes (%s in cmd is replaced by TxID)''
      (Finished (''Kj'' @ [CHR 0xC3, CHR 0xB8] @ ''r kommando n'' @ [CHR 0xC3, CHR 0xA5] @
      ''r en lommeboktransaksjon endres (%s i cmd er erstattet med TxID)'')),
     Message [(None, 3)] ''Require a confirmations for change (default: 0)'' (Unfinished []),
     Message [(None, 2)]
      ''Execute command when a relevant alert is received (%s in cmd is replaced by message)''
      (Unfinished []),
     Message [(None, 3)] ''Upgrade wallet to latest format'' (Finished (''Oppgrad'' @ [CHR 0xC3, CHR
      0xA9] @ ''r lommebok til nyeste format''))]"

definition nb_bitcoin_core_4 :: "message list" where
  "nb_bitcoin_core_4 =
    [Message [(None, 1)] ''Set key pool size to <n> (default: 100)'' (Finished (''Angi st'' @ [CHR
      0xC3, CHR 0xB8] @ ''rrelse p'' @ [CHR 0xC3, CHR 0xA5] @ '' n'' @ [CHR 0xC3, CHR 0xB8] @
      ''kkel-lager til <n> (standardverdi: 100)'')),
     Message [(None, 1)] ''Rescan the block chain for missing wallet transactions'' (Finished
      ''Se gjennom blokk-kjeden etter manglende lommeboktransaksjoner''),
     Message [(None, 3)] ''How thorough the block verification is (0-6, default: 1)'' (Unfinished []),
     Message [(None, 1)] ''Imports blocks from external blk000?.dat file'' (Unfinished []),
     Message [(None, 9)] ''Use OpenSSL (https) for JSON-RPC connections'' (Finished
      ''Bruk OpenSSL (https) for JSON-RPC forbindelser''),
     Message [(None, 1)] ''Server certificate file (default: server.cert)'' (Finished
      ''Servers sertifikat (standardverdi: server.cert)''),
     Message [(None, 1)] ''Server private key (default: server.pem)'' (Finished (
      ''Servers private n'' @ [CHR 0xC3, CHR 0xB8] @ ''kkel (standardverdi: server.pem)'')),
     Message [(None, 10)] ''Initialization sanity check failed. PayDay is shutting down.''
      (Unfinished []),
     Message [(None, 50)] ''Error: Wallet unlocked for staking only, unable to create transaction.''
      (Unfinished []),
     Message [(None, 17)] ''Error: Disk space is low!'' (Unfinished []),
     Message [(None, 1)]
      ''This is a pre-release test build - use at your own risk - do not use for mining or merchant applications''
      (Unfinished []),
     Message [(None, 3)]
      ''WARNING: Invalid checkpoint found! Displayed transactions may not be correct! You may need to upgrade, or notify developers.''
      (Unfinished []),
     Message [(None, -174)] ''This help message'' (Finished ''Denne hjelpemeldingen''),
     Message [(None, 104)] ''Wallet %s resides outside data directory %s.'' (Finished
      ''Lommeboken %s holder til utenfor data mappen %s.''),
     Message [(None, 37)] ''Unable to bind to %s on this computer (bind returned error %d, %s)''
      (Finished (''Kan ikke binde til %s p'' @ [CHR 0xC3, CHR 0xA5] @
      '' denne datamaskinen (bind returnerte feil %d, %s)'')),
     Message [(None, -133)] ''Connect through socks proxy'' (Unfinished []),
     Message [(None, 3)] ''Allow DNS lookups for -addnode, -seednode and -connect'' (Finished
      ''Tillat DNS oppslag for -addnode, -seednode og -connect''),
     Message [(None, 126)] ''Loading addresses...'' (Finished ''Laster adresser...''),
     Message [(None, -12)] ''Error loading blkindex.dat'' (Unfinished []),
     Message [(None, 2)] ''Error loading wallet.dat: Wallet corrupted'' (Finished
      ''Feil ved lasting av wallet.dat: Lommeboken er skadet''),
     Message [(None, 4)] ''Error loading wallet.dat: Wallet requires newer version of PayDay''
      (Unfinished []),
     Message [(None, 1)] ''Wallet needed to be rewritten: restart PayDay to complete'' (Unfinished
      []),
     Message [(None, 1)] ''Error loading wallet.dat'' (Finished ''Feil ved lasting av wallet.dat''),
     Message [(None, -16)] (''Invalid -proxy address: '' @ [CHR 0x27] @ ''%s'' @ [CHR 0x27])
      (Finished (''Ugyldig -proxy adresse: '' @ [CHR 0x27] @ ''%s'' @ [CHR 0x27])),
     Message [(None, -1)] (''Unknown network specified in -onlynet: '' @ [CHR 0x27] @ ''%s'' @ [CHR
      0x27]) (Finished (''Ukjent nettverk angitt i -onlynet '' @ [CHR 0x27] @ ''%s'' @ [CHR
      0x27])),
     Message [(None, -1)] ''Unknown -socks proxy version requested: %i'' (Finished
      ''Ukjent -socks proxy versjon angitt: %i''),
     Message [(None, 4)] (''Cannot resolve -bind address: '' @ [CHR 0x27] @ ''%s'' @ [CHR 0x27])
      (Finished (''Kunne ikke sl'' @ [CHR 0xC3, CHR 0xA5] @ '' opp -bind adresse: '' @ [CHR
      0x27] @ ''%s'' @ [CHR 0x27])),
     Message [(None, 2)] (''Cannot resolve -externalip address: '' @ [CHR 0x27] @ ''%s'' @ [CHR
      0x27]) (Finished (''Kunne ikke sl'' @ [CHR 0xC3, CHR 0xA5] @
      '' opp -externalip adresse: '' @ [CHR 0x27] @ ''%s'' @ [CHR 0x27])),
     Message [(None, -23)] (''Invalid amount for -paytxfee=<amount>: '' @ [CHR 0x27] @ ''%s'' @ [CHR
      0x27]) (Finished (''Ugyldig bel'' @ [CHR 0xC3, CHR 0xB8] @ ''p for -paytxfee=<bel'' @ [CHR
      0xC3, CHR 0xB8] @ ''p>: '' @ [CHR 0x27] @ ''%s'' @ [CHR 0x27]))]"

definition nb_bitcoin_core_5 :: "message list" where
  "nb_bitcoin_core_5 =
    [Message [(None, 60)] ''Sending...'' (Finished ''Sender...''),
     Message [(None, 5)] ''Invalid amount'' (Finished (''Ugyldig bel'' @ [CHR 0xC3, CHR 0xB8] @ ''p''
      )),
     Message [(None, 1)] ''Insufficient funds'' (Finished ''Utilstrekkelige midler''),
     Message [(None, -40)] ''Loading block index...'' (Finished ''Laster blokkindeks...''),
     Message [(None, -110)] ''Add a node to connect to and attempt to keep the connection open''
      (Finished (''Legg til node for tilkobling og hold forbindelsen '' @ [CHR 0xC3, CHR 0xA5] @
      ''pen'')),
     Message [(None, 125)]
      ''Unable to bind to %s on this computer. PayDay is probably already running.'' (Unfinished
      []),
     Message [(None, -101)] ''Fee per KB to add to transactions you send'' (Finished
      ''Gebyr per KB som skal legges til transaksjoner du sender''),
     Message [(None, 34)] ''Minimize weight consumption (experimental) (default: 0)'' (Unfinished []),
     Message [(None, 8)] ''How many blocks to check at startup (default: 500, 0 = all)'' (Unfinished
      []),
     Message [(None, 3)] ''Keep at most <n> unconnectable blocks in memory (default: %u)''
      (Unfinished []),
     Message [(None, 11)] (
      ''Acceptable ciphers (default: TLSv1.2+HIGH:TLSv1+HIGH:!SSLv2:!aNULL:!eNULL:!3DES:@STRENGTH)''
      ) (Unfinished []),
     Message [(None, 3)] ''Warning: Deprecated argument -debugnet ignored, use -debug=net''
      (Unfinished []),
     Message [(None, 5)] (''Invalid amount for -mininput=<amount>: '' @ [CHR 0x27] @ ''%s'' @ [CHR
      0x27]) (Unfinished []),
     Message [(None, 3)]
      ''Cannot obtain a lock on data directory %s. PayDay is probably already running.''
      (Unfinished []),
     Message [(None, 4)] ''Error initializing wallet database environment %s!'' (Unfinished []),
     Message [(None, 17)] ''Loading wallet...'' (Finished ''Laster lommebok...''),
     Message [(None, 8)] ''Cannot downgrade wallet'' (Finished ''Kan ikke nedgradere lommebok''),
     Message [(None, 1)] ''Cannot write default address'' (Finished
      ''Kan ikke skrive standardadresse''),
     Message [(None, 1)] ''Rescanning...'' (Finished ''Leser gjennom...''),
     Message [(None, 2)] ''Done loading'' (Finished ''Ferdig med lasting''),
     Message [(None, -161)] ''To use the %s option'' (Finished (''For '' @ [CHR 0xC3, CHR 0xA5] @
      '' bruke %s opsjonen'')),
     Message [(None, 188)] ''Error'' (Finished ''Feil''),
     Message [(None, -18)] (''You must set rpcpassword=<password> in the configuration file:'' @ [CHR
      0x0A] @ ''%s'' @ [CHR 0x0A] @
      ''If the file does not exist, create it with owner-readable-only file permissions.'')
      (Finished (''Du m'' @ [CHR 0xC3, CHR 0xA5] @
      '' sette rpcpassword=<passord> i konfigurasjonsfilen:'' @ [CHR 0x0A] @ ''%s'' @ [CHR 0x0A]
      @ ''Hvis filen ikke finnes, opprett den med leserettighet kun for eier av filen.''))]"

section \<open>What each part keeps\<close>

lemma formats_nb_bitcoin_core_1: "list_all (keeps printf_specs) nb_bitcoin_core_1"
  by code_simp

lemma labels_nb_bitcoin_core_1: "list_all label_ok nb_bitcoin_core_1"
  by code_simp

lemma edges_nb_bitcoin_core_1: "list_all (keeps edges) nb_bitcoin_core_1"
  by code_simp

lemma formats_nb_bitcoin_core_2: "list_all (keeps printf_specs) nb_bitcoin_core_2"
  by code_simp

lemma labels_nb_bitcoin_core_2: "list_all label_ok nb_bitcoin_core_2"
  by code_simp

lemma edges_nb_bitcoin_core_2: "list_all (keeps edges) nb_bitcoin_core_2"
  by code_simp

lemma formats_nb_bitcoin_core_3: "list_all (keeps printf_specs) nb_bitcoin_core_3"
  by code_simp

lemma labels_nb_bitcoin_core_3: "list_all label_ok nb_bitcoin_core_3"
  by code_simp

lemma edges_nb_bitcoin_core_3: "list_all (keeps edges) nb_bitcoin_core_3"
  by code_simp

lemma formats_nb_bitcoin_core_4: "list_all (keeps printf_specs) nb_bitcoin_core_4"
  by code_simp

lemma labels_nb_bitcoin_core_4: "list_all label_ok nb_bitcoin_core_4"
  by code_simp

lemma edges_nb_bitcoin_core_4: "list_all (keeps edges) nb_bitcoin_core_4"
  by code_simp

lemma formats_nb_bitcoin_core_5: "list_all (keeps printf_specs) nb_bitcoin_core_5"
  by code_simp

lemma labels_nb_bitcoin_core_5: "list_all label_ok nb_bitcoin_core_5"
  by code_simp

lemma edges_nb_bitcoin_core_5: "list_all (keeps edges) nb_bitcoin_core_5"
  by code_simp

section \<open>No source text twice\<close>

lemma distinct_nb_bitcoin_core: "distinct (map msg_source (nb_bitcoin_core_1 @ nb_bitcoin_core_2 @ nb_bitcoin_core_3 @ nb_bitcoin_core_4 @ nb_bitcoin_core_5))"
  by (rule told_apart_distinct
      [of "[(0, digit2), (11, digit2), (11, digit0), (15, digit2), (16, digit2), (2, digit1), (10, digit0), (21, digit2), (21, digit0), (0, digit1), (23, digit0), (1, digit0), (5, digit3), (45, digit0), (24, digit1), (71, digit1)]"])
    code_simp

end
