(* ===== verification/LocaleNb.thy ===== *)
theory LocaleNb
  imports LocaleNbA LocaleNbB LocaleNbC
begin

text \<open>
  The Norwegian translation \<open>src/src/qt/locale/bitcoin_nb.ts\<close> as a whole, and what the program can
  rely on when it shows its messages: the conversions of format strings, the place markers, the
  shortcut marks and the outer blanks.
\<close>

definition nb_catalogue :: catalogue where
  "nb_catalogue =
    [(''AboutDialog'', nb_AboutDialog),
     (''AddressBookPage'', nb_AddressBookPage),
     (''AddressTableModel'', nb_AddressTableModel),
     (''AskPassphraseDialog'', nb_AskPassphraseDialog_1 @ nb_AskPassphraseDialog_2),
     (''BitcoinGUI'', nb_BitcoinGUI_1 @ nb_BitcoinGUI_2 @ nb_BitcoinGUI_3),
     (''ClientModel'', nb_ClientModel),
     (''CoinControlDialog'', nb_CoinControlDialog_1 @ nb_CoinControlDialog_2),
     (''EditAddressDialog'', nb_EditAddressDialog),
     (''GUIUtil::HelpMessageBox'', nb_GUIUtil_HelpMessageBox),
     (''OptionsDialog'', nb_OptionsDialog_1 @ nb_OptionsDialog_2),
     (''OverviewPage'', nb_OverviewPage),
     (''PaymentServer'', nb_PaymentServer),
     (''QRCodeDialog'', nb_QRCodeDialog),
     (''RPCConsole'', nb_RPCConsole_1 @ nb_RPCConsole_2),
     (''SendCoinsDialog'', nb_SendCoinsDialog_1 @ nb_SendCoinsDialog_2),
     (''SendCoinsEntry'', nb_SendCoinsEntry),
     (''SignVerifyMessageDialog'', nb_SignVerifyMessageDialog_1 @ nb_SignVerifyMessageDialog_2),
     (''TrafficGraphWidget'', nb_TrafficGraphWidget),
     (''TransactionDesc'', nb_TransactionDesc_1 @ nb_TransactionDesc_2),
     (''TransactionDescDialog'', nb_TransactionDescDialog),
     (''TransactionTableModel'', nb_TransactionTableModel),
     (''TransactionView'', nb_TransactionView_1 @ nb_TransactionView_2),
     (''WalletModel'', nb_WalletModel),
     (''bitcoin-core'', nb_bitcoin_core_1 @ nb_bitcoin_core_2 @ nb_bitcoin_core_3 @ nb_bitcoin_core_4 @ nb_bitcoin_core_5)]"

section \<open>The checks, put together\<close>

lemmas nb_labels =
  labels_nb_AboutDialog
  labels_nb_AddressBookPage
  labels_nb_AddressTableModel
  labels_nb_AskPassphraseDialog_1
  labels_nb_AskPassphraseDialog_2
  labels_nb_BitcoinGUI_1
  labels_nb_BitcoinGUI_2
  labels_nb_BitcoinGUI_3
  labels_nb_ClientModel
  labels_nb_CoinControlDialog_1
  labels_nb_CoinControlDialog_2
  labels_nb_EditAddressDialog
  labels_nb_GUIUtil_HelpMessageBox
  labels_nb_OptionsDialog_1
  labels_nb_OptionsDialog_2
  labels_nb_OverviewPage
  labels_nb_PaymentServer
  labels_nb_QRCodeDialog
  labels_nb_RPCConsole_1
  labels_nb_RPCConsole_2
  labels_nb_SendCoinsDialog_1
  labels_nb_SendCoinsDialog_2
  labels_nb_SendCoinsEntry
  labels_nb_SignVerifyMessageDialog_1
  labels_nb_SignVerifyMessageDialog_2
  labels_nb_TrafficGraphWidget
  labels_nb_TransactionDesc_1
  labels_nb_TransactionDesc_2
  labels_nb_TransactionDescDialog
  labels_nb_TransactionTableModel
  labels_nb_TransactionView_1
  labels_nb_TransactionView_2
  labels_nb_WalletModel
  labels_nb_bitcoin_core_1
  labels_nb_bitcoin_core_2
  labels_nb_bitcoin_core_3
  labels_nb_bitcoin_core_4
  labels_nb_bitcoin_core_5

lemmas nb_formats =
  formats_nb_bitcoin_core_1
  formats_nb_bitcoin_core_2
  formats_nb_bitcoin_core_3
  formats_nb_bitcoin_core_4
  formats_nb_bitcoin_core_5

lemmas nb_edges_parts =
  edges_nb_AboutDialog
  edges_nb_AddressBookPage
  edges_nb_AddressTableModel
  edges_nb_AskPassphraseDialog_1
  edges_nb_AskPassphraseDialog_2
  edges_nb_BitcoinGUI_1
  edges_nb_BitcoinGUI_2
  edges_nb_BitcoinGUI_3
  edges_nb_ClientModel
  edges_nb_CoinControlDialog_1
  edges_nb_CoinControlDialog_2
  edges_nb_EditAddressDialog
  edges_nb_GUIUtil_HelpMessageBox
  edges_nb_OptionsDialog_1
  edges_nb_OptionsDialog_2
  edges_nb_OverviewPage
  edges_nb_PaymentServer
  edges_nb_QRCodeDialog
  edges_nb_RPCConsole_1
  edges_nb_RPCConsole_2
  edges_nb_SendCoinsDialog_1
  edges_nb_SendCoinsDialog_2
  edges_nb_SendCoinsEntry
  edges_nb_SignVerifyMessageDialog_1
  edges_nb_SignVerifyMessageDialog_2
  edges_nb_TrafficGraphWidget
  edges_nb_TransactionDesc_1
  edges_nb_TransactionDesc_2
  edges_nb_TransactionDescDialog
  edges_nb_TransactionTableModel
  edges_nb_TransactionView_1
  edges_nb_TransactionView_2
  edges_nb_WalletModel
  edges_nb_bitcoin_core_1
  edges_nb_bitcoin_core_2
  edges_nb_bitcoin_core_3
  edges_nb_bitcoin_core_4
  edges_nb_bitcoin_core_5

lemma nb_contexts: "distinct (map fst nb_catalogue)"
  by (simp add: nb_catalogue_def)

lemma nb_sources: "list_all (\<lambda>c. distinct (map msg_source (snd c))) nb_catalogue"
  unfolding nb_catalogue_def list.pred_inject snd_conv
  by (intro conjI list.pred_inject(1) distinct_nb_AboutDialog
      distinct_nb_AddressBookPage
      distinct_nb_AddressTableModel
      distinct_nb_AskPassphraseDialog
      distinct_nb_BitcoinGUI
      distinct_nb_ClientModel
      distinct_nb_CoinControlDialog
      distinct_nb_EditAddressDialog
      distinct_nb_GUIUtil_HelpMessageBox
      distinct_nb_OptionsDialog
      distinct_nb_OverviewPage
      distinct_nb_PaymentServer
      distinct_nb_QRCodeDialog
      distinct_nb_RPCConsole
      distinct_nb_SendCoinsDialog
      distinct_nb_SendCoinsEntry
      distinct_nb_SignVerifyMessageDialog
      distinct_nb_TrafficGraphWidget
      distinct_nb_TransactionDesc
      distinct_nb_TransactionDescDialog
      distinct_nb_TransactionTableModel
      distinct_nb_TransactionView
      distinct_nb_WalletModel
      distinct_nb_bitcoin_core)

lemma nb_in: "map_of nb_catalogue ctx = Some ms \<Longrightarrow> (ctx, ms) \<in> set nb_catalogue"
  by (rule map_of_SomeD)

lemma nb_all_labels: "list_all (\<lambda>c. list_all label_ok (snd c)) nb_catalogue"
  unfolding nb_catalogue_def list.pred_inject snd_conv list_all_append
  by (intro conjI list.pred_inject(1) nb_labels)

lemma nb_label_ok: "map_of nb_catalogue ctx = Some ms \<Longrightarrow> m \<in> set ms \<Longrightarrow> label_ok m"
  using nb_all_labels nb_in unfolding list_all_iff by fastforce

lemma nb_core_context: "(''bitcoin-core'', ms) \<in> set nb_catalogue \<longleftrightarrow>
    ms = nb_bitcoin_core_1 @ nb_bitcoin_core_2 @ nb_bitcoin_core_3 @ nb_bitcoin_core_4 @ nb_bitcoin_core_5"
  by (simp add: nb_catalogue_def)

lemma nb_core_formats_ok: "map_of nb_catalogue ''bitcoin-core'' = Some ms \<Longrightarrow> list_all (keeps printf_specs) ms"
  by (drule nb_in, unfold nb_core_context) (simp only: list_all_append, intro conjI nb_formats)

definition blanks_ok :: "string \<Rightarrow> message \<Rightarrow> bool" where
  "blanks_ok ctx m \<longleftrightarrow> (if ctx = ''SendCoinsDialog'' \<and> msg_source m = '' and '' then True else keeps edges m)"

lemma blanks_okI:
  "list_all (keeps edges) ms \<Longrightarrow> list_all (blanks_ok ctx) ms"
  "list_all (\<lambda>m. msg_source m = '' and '' \<or> keeps edges m) ms \<Longrightarrow> list_all (blanks_ok ''SendCoinsDialog'') ms"
  by (auto simp: list_all_iff blanks_ok_def)

lemma nb_all_blanks: "list_all (\<lambda>c. list_all (blanks_ok (fst c)) (snd c)) nb_catalogue"
  unfolding nb_catalogue_def list.pred_inject snd_conv fst_conv list_all_append
  by (intro conjI list.pred_inject(1))
    ((rule blanks_okI(1), rule nb_edges_parts) | (rule blanks_okI(2), rule nb_edges_parts))+

lemma nb_blanks_ok: "map_of nb_catalogue ctx = Some ms \<Longrightarrow> m \<in> set ms \<Longrightarrow> blanks_ok ctx m"
  using nb_all_blanks nb_in unfolding list_all_iff by fastforce

section \<open>Properties\<close>

text \<open>
  No message hides another: looking up the context and the source text of any message of the
  Norwegian file finds that message.
\<close>

theorem nb_no_shadowed_message:
  "list_all (\<lambda>(ctx, ms). list_all (\<lambda>m. catalogue_get nb_catalogue ctx (msg_source m) = Some m) ms) nb_catalogue"
  by (rule catalogue_get_distinct[OF nb_contexts nb_sources])

text \<open> C32.
  Messages of the core keep their conversions in translation: whatever text the core passes through
  \<open>_\<close>, the Norwegian text has the same \<open>strprintf\<close> conversions in the same order, so a call that is
  right for the source text is right for the translation.
\<close>

theorem nb_core_formats:
  assumes "qt_documented nb_catalogue translate"
  shows "printf_specs (underscore (Some (Translate translate)) psz) = printf_specs psz"
proof -
  have "keeps printf_specs m" if "map_of nb_catalogue ''bitcoin-core'' = Some ms" "m \<in> set ms" for ms m
    using nb_core_formats_ok that unfolding list_all_iff by blast
  then show ?thesis
    by (simp add: underscore_def Translate_def translate_keeps[OF assms])
qed

lemma nb_core_formats_witness:
  "printf_specs (underscore (Some (Translate (first_form nb_catalogue))) ''Invalid -proxy address: %s'') =
     printf_specs ''Invalid -proxy address: %s''"
  by (rule nb_core_formats[OF first_form_documented])

text \<open> C33.
  Every text of the user interface keeps its place markers, in order, and the number of its shortcut
  marks in the Norwegian translation, whatever the context.
\<close>

theorem nb_labels_keep_markers:
  assumes "qt_documented nb_catalogue translate"
  shows "qt_markers (translate ctx source) = qt_markers source \<and> shortcuts (translate ctx source) = shortcuts source"
  using translate_keeps[OF assms, where f = qt_markers] translate_keeps[OF assms, where f = shortcuts] nb_label_ok
  by (auto simp: list_all_iff label_ok_def)

lemma nb_labels_keep_markers_witness:
  "first_form nb_catalogue ''AddressBookPage'' ''&New Address'' = ''&Ny Adresse'' \<and>
   shortcuts ''&Ny Adresse'' = shortcuts ''&New Address''"
proof -
  have "first_form nb_catalogue ''AddressBookPage'' ''&New Address'' = ''&Ny Adresse''" by code_simp
  then show ?thesis
    using nb_labels_keep_markers[OF first_form_documented, of "''AddressBookPage''" "''&New Address''"] by simp
qed

text \<open>
  The Norwegian texts begin and end with a blank where the source texts do, with one exception: the
  word \<open>and\<close> that joins the recipients of a payment loses the blanks on both sides.
\<close>

theorem nb_outer_blanks:
  assumes "qt_documented nb_catalogue translate"
  shows "if ctx = ''SendCoinsDialog'' \<and> source = '' and '' then translate ctx source = ''og''
    else edges (translate ctx source) = edges source"
proof (cases "ctx = ''SendCoinsDialog'' \<and> source = '' and ''")
  case True
  have "catalogue_get nb_catalogue ''SendCoinsDialog'' '' and '' =
      Some (Message [(None, 0)] '' and '' (Finished ''og''))"
    by code_simp
  then have "translate ctx source = ''og''"
    using assms[unfolded qt_documented_def, rule_format, of ctx source] True by simp
  then show ?thesis using True by simp
next
  case False
  then have "edges (translate ctx source) = edges source"
    using translate_keeps[OF assms, where f = edges] nb_blanks_ok unfolding blanks_ok_def by metis
  then show ?thesis by (simp only: False if_False)
qed

lemma nb_outer_blanks_witness:
  "first_form nb_catalogue ''SendCoinsDialog'' '' and '' = ''og'' \<and>
   edges (first_form nb_catalogue ''BitcoinGUI'' '' and '') = (True, True)"
  using nb_outer_blanks[OF first_form_documented, of "''SendCoinsDialog''" "'' and ''"]
    nb_outer_blanks[OF first_form_documented, of "''BitcoinGUI''" "'' and ''"]
  by (simp add: edges_def blank_def)

end
