(* ===== verification/Containers.thy ===== *)
theory Containers
  imports Loops
begin

text \<open>
  The two bounded containers, \<open>src/src/mruset.h\<close> and \<open>src/src/limitedmap.h\<close>.  An iterator into
  the map of a \<open>limitedmap\<close> is its key; the multimap from values to iterators is the list of its
  entries, in its order: ascending values, and entries of equal value as they were inserted.
\<close>

section \<open>mruset\<close>

record 'a mruset =
  mru_set :: "'a set"
  mru_queue :: "'a list"
  mru_nMaxSize :: nat

definition mru_new :: "nat \<Rightarrow> 'a mruset" where
  "mru_new n = \<lparr>mru_set = {}, mru_queue = [], mru_nMaxSize = n\<rparr>"

definition mru_size :: "'a mruset \<Rightarrow> nat" where
  "mru_size m = card (mru_set m)"

definition mru_count :: "'a mruset \<Rightarrow> 'a \<Rightarrow> nat" where
  "mru_count m k = (if k \<in> mru_set m then 1 else 0)"

definition mru_clear :: "'a mruset \<Rightarrow> 'a mruset" where
  "mru_clear m = m\<lparr>mru_set := {}, mru_queue := []\<rparr>"

definition mru_eq :: "'a mruset \<Rightarrow> 'a mruset \<Rightarrow> bool" where
  "mru_eq a b \<longleftrightarrow> mru_set a = mru_set b"

definition mru_pop :: "'a mruset \<Rightarrow> 'a mruset" where
  "mru_pop m = m\<lparr>mru_set := mru_set m - {hd (mru_queue m)}, mru_queue := tl (mru_queue m)\<rparr>"

definition mru_insert :: "'a mruset \<Rightarrow> 'a \<Rightarrow> bool \<times> 'a mruset" where
  "mru_insert m x =
     (if x \<in> mru_set m then (False, m)
      else
        let m = m\<lparr>mru_set := insert x (mru_set m)\<rparr>;
            m = (if mru_nMaxSize m \<noteq> 0 \<and> length (mru_queue m) = mru_nMaxSize m then mru_pop m else m)
        in (True, m\<lparr>mru_queue := mru_queue m @ [x]\<rparr>))"

function mru_shrink :: "nat \<Rightarrow> 'a mruset \<Rightarrow> 'a mruset" where
  "mru_shrink s m = (if length (mru_queue m) > s then mru_shrink s (mru_pop m) else m)"
  by pat_completeness auto
termination
  by (relation "measure (\<lambda>(s, m). length (mru_queue m))") (auto simp: mru_pop_def)

declare mru_shrink.simps [simp del]

definition mru_max_size :: "nat \<Rightarrow> 'a mruset \<Rightarrow> 'a mruset" where
  "mru_max_size s m = (if s \<noteq> 0 then mru_shrink s m else m)\<lparr>mru_nMaxSize := s\<rparr>"

text \<open>The set is what the queue holds, each element once, within the bound.\<close>

definition mru_ok :: "'a mruset \<Rightarrow> bool" where
  "mru_ok m \<longleftrightarrow> mru_set m = set (mru_queue m) \<and> distinct (mru_queue m) \<and>
     (mru_nMaxSize m \<noteq> 0 \<longrightarrow> length (mru_queue m) \<le> mru_nMaxSize m)"

text \<open>The last \<open>n\<close> elements; all of them for the bound 0.\<close>

definition newest :: "nat \<Rightarrow> 'a list \<Rightarrow> 'a list" where
  "newest n xs = (if n = 0 then xs else drop (length xs - n) xs)"

lemma mru_ok_new: "mru_ok (mru_new n)"
  by (simp add: mru_ok_def mru_new_def)

lemma mru_ok_clear: "mru_ok m \<Longrightarrow> mru_ok (mru_clear m)"
  by (simp add: mru_ok_def mru_clear_def)

lemma mru_insert_new:
  assumes "x \<notin> mru_set m"
  shows "mru_insert m x = (True,
    (if mru_nMaxSize m \<noteq> 0 \<and> length (mru_queue m) = mru_nMaxSize m
     then m\<lparr>mru_set := insert x (mru_set m) - {hd (mru_queue m)}, mru_queue := tl (mru_queue m) @ [x]\<rparr>
     else m\<lparr>mru_set := insert x (mru_set m), mru_queue := mru_queue m @ [x]\<rparr>))"
  using assms by (simp add: mru_insert_def mru_pop_def Let_def)

lemma newest_full: "n \<noteq> 0 \<Longrightarrow> length q = n \<Longrightarrow> newest n (q @ [x]) = tl q @ [x]"
  by (cases q) (simp_all add: newest_def)

lemma newest_room: "n = 0 \<or> length q < n \<Longrightarrow> newest n (q @ [x]) = q @ [x]"
  by (auto simp: newest_def)

lemma mru_insert_ok:
  assumes ok: "mru_ok m"
  shows "mru_nMaxSize (snd (mru_insert m x)) = mru_nMaxSize m"
    "mru_queue (snd (mru_insert m x)) =
       (if x \<in> set (mru_queue m) then mru_queue m else newest (mru_nMaxSize m) (mru_queue m @ [x]))"
    "mru_ok (snd (mru_insert m x))"
proof -
  have s: "mru_set m = set (mru_queue m)" using ok by (simp add: mru_ok_def)
  show "mru_nMaxSize (snd (mru_insert m x)) = mru_nMaxSize m"
    by (simp add: mru_insert_def mru_pop_def Let_def)
  consider "x \<in> set (mru_queue m)"
    | "x \<notin> set (mru_queue m)" "mru_nMaxSize m \<noteq> 0 \<and> length (mru_queue m) = mru_nMaxSize m"
    | "x \<notin> set (mru_queue m)" "\<not> (mru_nMaxSize m \<noteq> 0 \<and> length (mru_queue m) = mru_nMaxSize m)"
    by blast
  then have "mru_queue (snd (mru_insert m x)) =
       (if x \<in> set (mru_queue m) then mru_queue m else newest (mru_nMaxSize m) (mru_queue m @ [x])) \<and>
      mru_ok (snd (mru_insert m x))"
  proof cases
    case 1
    then show ?thesis using ok s by (simp add: mru_insert_def)
  next
    case 2
    obtain a q where q: "mru_queue m = a # q" using 2(2) by (cases "mru_queue m") auto
    have "distinct (a # q)" using ok q by (simp add: mru_ok_def)
    then show ?thesis using 2 newest_full[of "mru_nMaxSize m" "mru_queue m" x] s q
      by (auto simp: mru_insert_new mru_ok_def)
  next
    case 3
    have "mru_nMaxSize m = 0 \<or> length (mru_queue m) < mru_nMaxSize m" using 3(2) ok by (auto simp: mru_ok_def)
    note room = newest_room[OF this, of x]
    have "mru_insert m x = (True, m\<lparr>mru_set := insert x (mru_set m), mru_queue := mru_queue m @ [x]\<rparr>)"
      by (subst mru_insert_new) (use 3(1) s in simp, simp only: 3(2) if_False)
    then show ?thesis using 3 ok room \<open>mru_nMaxSize m = 0 \<or> length (mru_queue m) < mru_nMaxSize m\<close>
      by (simp add: mru_ok_def) linarith
  qed
  then show "mru_queue (snd (mru_insert m x)) =
       (if x \<in> set (mru_queue m) then mru_queue m else newest (mru_nMaxSize m) (mru_queue m @ [x]))"
    "mru_ok (snd (mru_insert m x))" by simp_all
qed

lemma mru_shrink_ok:
  assumes "mru_set m = set (mru_queue m)" "distinct (mru_queue m)"
  shows "mru_set (mru_shrink s m) = set (mru_queue (mru_shrink s m))"
    "mru_queue (mru_shrink s m) = drop (length (mru_queue m) - s) (mru_queue m)"
  using assms
proof (induction s m rule: mru_shrink.induct)
  case (1 s m)
  case 1
  show ?case
  proof (cases "length (mru_queue m) > s")
    case True
    then obtain a q where q: "mru_queue m = a # q" by (cases "mru_queue m") auto
    then show ?thesis using "1.IH"(1)[OF True] 1 True by (subst (1 2) mru_shrink.simps) (auto simp: mru_pop_def)
  qed (subst (1 2) mru_shrink.simps, use 1 in simp)
next
  case (1 s m)
  case 2
  show ?case
  proof (cases "length (mru_queue m) > s")
    case True
    then obtain a q where q: "mru_queue m = a # q" by (cases "mru_queue m") auto
    then show ?thesis using "1.IH"(2)[OF True] 2 True
      by (subst mru_shrink.simps) (auto simp: mru_pop_def Suc_diff_le)
  qed (subst mru_shrink.simps, simp)
qed

lemma mru_max_size_ok:
  assumes "mru_ok m"
  shows "mru_ok (mru_max_size s m)" "mru_queue (mru_max_size s m) = newest s (mru_queue m)"
  using assms mru_shrink_ok[of m s] by (auto simp: mru_ok_def mru_max_size_def newest_def)

section \<open>limitedmap\<close>

record ('k, 'v) limitedmap =
  lm_map :: "'k \<rightharpoonup> 'v"
  lm_rmap :: "('v \<times> 'k) list"
  lm_nMaxSize :: nat

definition lm_new :: "nat \<Rightarrow> ('k, 'v) limitedmap" where
  "lm_new n = \<lparr>lm_map = Map.empty, lm_rmap = [], lm_nMaxSize = n\<rparr>"

definition lm_size :: "('k, 'v) limitedmap \<Rightarrow> nat" where
  "lm_size m = card (dom (lm_map m))"

fun rmap_insert :: "'v::linorder \<Rightarrow> 'k \<Rightarrow> ('v \<times> 'k) list \<Rightarrow> ('v \<times> 'k) list" where
  "rmap_insert v k [] = [(v, k)]"
| "rmap_insert v k ((w, l) # r) = (if v < w then (v, k) # (w, l) # r else (w, l) # rmap_insert v k r)"

text \<open>The entry of least value; \<open>None\<close> where the multimap is empty, which the code does not test.\<close>

definition lm_evict :: "('k, 'v) limitedmap \<Rightarrow> ('k, 'v) limitedmap option" where
  "lm_evict m =
     (case lm_rmap m of
        [] \<Rightarrow> None
      | (v, k) # r \<Rightarrow> Some (m\<lparr>lm_map := (lm_map m)(k := None), lm_rmap := r\<rparr>))"

definition lm_insert :: "'k \<times> 'v::linorder \<Rightarrow> ('k, 'v) limitedmap \<Rightarrow> ('k, 'v) limitedmap option" where
  "lm_insert x m =
     (if lm_map m (fst x) \<noteq> None then Some m
      else
        let m = m\<lparr>lm_map := (lm_map m)(fst x \<mapsto> snd x)\<rparr>
        in Option.bind (if lm_nMaxSize m \<noteq> 0 \<and> lm_size m = lm_nMaxSize m then lm_evict m else Some m)
             (\<lambda>m. Some (m\<lparr>lm_rmap := rmap_insert (snd x) (fst x) (lm_rmap m)\<rparr>)))"

text \<open>The entry of an iterator among those of its value; \<open>None\<close> is the failed assertion.\<close>

fun rmap_remove :: "'v::linorder \<Rightarrow> 'k \<Rightarrow> ('v \<times> 'k) list \<Rightarrow> ('v \<times> 'k) list option" where
  "rmap_remove v k [] = None"
| "rmap_remove v k ((w, l) # r) =
     (if w = v \<and> l = k then Some r else map_option ((#) (w, l)) (rmap_remove v k r))"

definition lm_erase :: "'k \<Rightarrow> ('k, 'v::linorder) limitedmap \<Rightarrow> ('k, 'v) limitedmap option" where
  "lm_erase k m =
     (case lm_map m k of
        None \<Rightarrow> Some m
      | Some v \<Rightarrow> map_option (\<lambda>r. m\<lparr>lm_map := (lm_map m)(k := None), lm_rmap := r\<rparr>) (rmap_remove v k (lm_rmap m)))"

definition lm_update :: "'k \<Rightarrow> 'v::linorder \<Rightarrow> ('k, 'v) limitedmap \<Rightarrow> ('k, 'v) limitedmap option" where
  "lm_update k v m =
     (case lm_map m k of
        None \<Rightarrow> Some m
      | Some w \<Rightarrow> map_option (\<lambda>r. m\<lparr>lm_map := (lm_map m)(k \<mapsto> v), lm_rmap := rmap_insert v k r\<rparr>)
          (rmap_remove w k (lm_rmap m)))"

function lm_shrink :: "nat \<Rightarrow> ('k, 'v) limitedmap \<Rightarrow> ('k, 'v) limitedmap option" where
  "lm_shrink s m =
     (if lm_size m > s then (case lm_evict m of None \<Rightarrow> None | Some m \<Rightarrow> lm_shrink s m) else Some m)"
  by pat_completeness auto
termination
  by (relation "measure (\<lambda>(s, m). length (lm_rmap m))") (auto simp: lm_evict_def split: list.splits)

declare lm_shrink.simps [simp del]

definition lm_max_size :: "nat \<Rightarrow> ('k, 'v) limitedmap \<Rightarrow> ('k, 'v) limitedmap option" where
  "lm_max_size s m =
     map_option (\<lambda>m. m\<lparr>lm_nMaxSize := s\<rparr>) (if s \<noteq> 0 then lm_shrink s m else Some m)"

text \<open>The multimap holds the entries of the map, each once and in order.\<close>

definition lm_ok :: "('k, 'v::linorder) limitedmap \<Rightarrow> bool" where
  "lm_ok m \<longleftrightarrow> sorted (map fst (lm_rmap m)) \<and> distinct (map snd (lm_rmap m)) \<and>
     (\<forall>k v. lm_map m k = Some v \<longleftrightarrow> (v, k) \<in> set (lm_rmap m))"

lemma set_rmap_insert: "set (rmap_insert v k r) = insert (v, k) (set r)"
  by (induction v k r rule: rmap_insert.induct) auto

lemma sorted_rmap_insert: "sorted (map fst r) \<Longrightarrow> sorted (map fst (rmap_insert v k r))"
  by (induction v k r rule: rmap_insert.induct) (auto simp: set_rmap_insert less_imp_le)

lemma distinct_rmap_insert:
  "distinct (map snd (rmap_insert v k r)) \<longleftrightarrow> distinct (map snd r) \<and> k \<notin> snd ` set r"
  by (induction v k r rule: rmap_insert.induct) (auto simp: set_rmap_insert)

lemma rmap_remove_ok:
  "distinct (map snd r) \<Longrightarrow> (v, k) \<in> set r \<Longrightarrow>
    \<exists>r'. rmap_remove v k r = Some r' \<and> set r' = set r - {(v, k)} \<and>
      (sorted (map fst r) \<longrightarrow> sorted (map fst r')) \<and> distinct (map snd r')"
proof (induction v k r rule: rmap_remove.induct)
  case (2 v k w l r)
  show ?case
  proof (cases "w = v \<and> l = k")
    case True
    then show ?thesis using 2(2) by (auto simp: rev_image_eqI)
  next
    case False
    then obtain r' where "rmap_remove v k r = Some r'" "set r' = set r - {(v, k)}"
        "sorted (map fst r) \<longrightarrow> sorted (map fst r')" "distinct (map snd r')"
      using 2 by auto
    then show ?thesis using False 2(2) by auto
  qed
qed simp

lemma lm_ok_dom: "lm_ok m \<Longrightarrow> dom (lm_map m) = snd ` set (lm_rmap m)"
  by (auto simp: lm_ok_def rev_image_eqI)

lemma lm_ok_size: "lm_ok m \<Longrightarrow> lm_size m = length (lm_rmap m)"
proof -
  assume ok: "lm_ok m"
  have "card (snd ` set (lm_rmap m)) = length (map snd (lm_rmap m))"
    using ok distinct_card[of "map snd (lm_rmap m)"] by (simp add: lm_ok_def)
  then show ?thesis using lm_ok_dom[OF ok] by (simp add: lm_size_def)
qed

lemma lm_evict_ok:
  assumes "lm_ok m" "lm_rmap m \<noteq> []"
  shows "\<exists>m'. lm_evict m = Some m' \<and> lm_ok m' \<and> lm_size m' = lm_size m - 1 \<and> dom (lm_map m') \<subseteq> dom (lm_map m)"
proof -
  obtain v k r where r: "lm_rmap m = (v, k) # r" using assms(2) by (cases "lm_rmap m") auto
  let ?m = "m\<lparr>lm_map := (lm_map m)(k := None), lm_rmap := r\<rparr>"
  have ok: "lm_ok ?m" using assms(1) r by (auto simp: lm_ok_def rev_image_eqI)
  then have "lm_size ?m = lm_size m - 1" using lm_ok_size[OF ok] lm_ok_size[OF assms(1)] r by simp
  then show ?thesis using ok r by (auto simp: lm_evict_def)
qed

lemma lm_ok_new: "lm_ok (lm_new n)"
  by (simp add: lm_ok_def lm_new_def)

lemma lm_ok_notin: "lm_ok m \<Longrightarrow> lm_map m k = None \<Longrightarrow> k \<notin> snd ` set (lm_rmap m)"
  using lm_ok_dom[of m] by blast

lemma lm_add_ok:
  assumes "lm_ok m" "lm_map m k = None"
  shows "lm_ok (m\<lparr>lm_map := (lm_map m)(k \<mapsto> v), lm_rmap := rmap_insert v k (lm_rmap m)\<rparr>)"
  using assms lm_ok_notin[OF assms]
  by (auto simp: lm_ok_def set_rmap_insert sorted_rmap_insert distinct_rmap_insert rev_image_eqI)

text \<open>
  Insertion evicts when the element makes the map exactly full, and then leaves it one below the
  bound; above the bound it never evicts.
\<close>

lemma lm_insert_ok:
  assumes ok: "lm_ok m" and new: "lm_map m k = None"
  shows "if lm_nMaxSize m \<noteq> 0 \<and> Suc (lm_size m) = lm_nMaxSize m
    then (if lm_rmap m = [] then lm_insert (k, v) m = None
          else \<exists>m'. lm_insert (k, v) m = Some m' \<and> lm_ok m' \<and> lm_nMaxSize m' = lm_nMaxSize m \<and>
            lm_map m' = ((lm_map m)(snd (hd (lm_rmap m)) := None))(k \<mapsto> v) \<and> lm_size m' = lm_size m)
    else \<exists>m'. lm_insert (k, v) m = Some m' \<and> lm_ok m' \<and> lm_nMaxSize m' = lm_nMaxSize m \<and>
            lm_map m' = (lm_map m)(k \<mapsto> v) \<and> lm_size m' = Suc (lm_size m)"
proof -
  have fin: "finite (dom (lm_map m))" using lm_ok_dom[OF ok] by simp
  have sz: "lm_size (m\<lparr>lm_map := (lm_map m)(k \<mapsto> v)\<rparr>) = Suc (lm_size m)"
    using fin new by (simp add: lm_size_def domIff)
  show ?thesis
  proof (cases "lm_nMaxSize m \<noteq> 0 \<and> Suc (lm_size m) = lm_nMaxSize m")
    case False
    let ?m = "m\<lparr>lm_map := (lm_map m)(k \<mapsto> v), lm_rmap := rmap_insert v k (lm_rmap m)\<rparr>"
    have "lm_insert (k, v) m = Some ?m" using False new sz by (auto simp: lm_insert_def Let_def)
    moreover have "lm_size ?m = Suc (lm_size m)" using sz by (simp add: lm_size_def)
    ultimately show ?thesis using False lm_add_ok[OF ok new, of v] by auto
  next
    case full: True
    show ?thesis
    proof (cases "lm_rmap m")
      case Nil
      then show ?thesis using full new sz by (simp add: lm_insert_def lm_evict_def Let_def)
    next
      case (Cons e r)
      obtain w l where e: "e = (w, l)" by (cases e)
      let ?e = "m\<lparr>lm_map := (lm_map m)(l := None), lm_rmap := r\<rparr>"
      have ev: "lm_ok ?e" "lm_size ?e = lm_size m - 1"
        using lm_evict_ok[OF ok] Cons e by (auto simp: lm_evict_def)
      have kl: "k \<noteq> l" using lm_ok_notin[OF ok new] Cons e by auto
      let ?m = "?e\<lparr>lm_map := (lm_map ?e)(k \<mapsto> v), lm_rmap := rmap_insert v k r\<rparr>"
      have ok': "lm_ok ?m" using lm_add_ok[OF ev(1), of k v] new by simp
      have "lm_insert (k, v) m = Some ?m"
        using full new sz Cons e kl by (simp add: lm_insert_def lm_evict_def Let_def fun_upd_twist)
      moreover have "lm_size ?m = lm_size m"
      proof -
        have "length (rmap_insert v k r) = Suc (length r)" by (induction v k r rule: rmap_insert.induct) auto
        then show ?thesis using lm_ok_size[OF ok'] lm_ok_size[OF ok] Cons by simp
      qed
      ultimately show ?thesis using full Cons e ok' by auto
    qed
  qed
qed

lemma lm_erase_ok:
  assumes ok: "lm_ok m"
  shows "\<exists>m'. lm_erase k m = Some m' \<and> lm_ok m' \<and> lm_map m' = (lm_map m)(k := None) \<and> lm_nMaxSize m' = lm_nMaxSize m"
proof (cases "lm_map m k")
  case None
  then show ?thesis using ok by (auto simp: lm_erase_def)
next
  case (Some v)
  then obtain r where r: "rmap_remove v k (lm_rmap m) = Some r" "set r = set (lm_rmap m) - {(v, k)}"
      "sorted (map fst r)" "distinct (map snd r)"
    using rmap_remove_ok[of "lm_rmap m" v k] ok by (auto simp: lm_ok_def)
  have "(v', k') \<in> set (lm_rmap m) \<longleftrightarrow> lm_map m k' = Some v'" for v' k' using ok by (simp add: lm_ok_def)
  then have "lm_ok (m\<lparr>lm_map := (lm_map m)(k := None), lm_rmap := r\<rparr>)"
    using r(3,4) Some by (auto simp: lm_ok_def r(2))
  then show ?thesis using Some r by (simp add: lm_erase_def)
qed

lemma lm_update_ok:
  assumes ok: "lm_ok m"
  shows "\<exists>m'. lm_update k v m = Some m' \<and> lm_ok m' \<and> lm_nMaxSize m' = lm_nMaxSize m \<and>
    lm_map m' = (if lm_map m k = None then lm_map m else (lm_map m)(k \<mapsto> v))"
proof (cases "lm_map m k")
  case None
  then show ?thesis using ok by (auto simp: lm_update_def)
next
  case (Some w)
  then obtain m1 where m1: "lm_erase k m = Some m1" "lm_ok m1" "lm_map m1 = (lm_map m)(k := None)"
    using lm_erase_ok[OF ok] by blast
  then obtain r where r: "rmap_remove w k (lm_rmap m) = Some r" "m1 = m\<lparr>lm_map := (lm_map m)(k := None), lm_rmap := r\<rparr>"
    using Some by (auto simp: lm_erase_def)
  have "lm_ok (m1\<lparr>lm_map := (lm_map m1)(k \<mapsto> v), lm_rmap := rmap_insert v k (lm_rmap m1)\<rparr>)"
    by (rule lm_add_ok[OF m1(2)]) (simp add: m1(3))
  then show ?thesis using Some r by (simp add: lm_update_def)
qed

lemma lm_shrink_ok:
  "lm_ok m \<Longrightarrow> \<exists>m'. lm_shrink s m = Some m' \<and> lm_ok m' \<and> lm_size m' = min s (lm_size m) \<and> dom (lm_map m') \<subseteq> dom (lm_map m)"
proof (induction s m rule: lm_shrink.induct)
  case (1 s m)
  show ?case
  proof (cases "lm_size m > s")
    case True
    then have "lm_rmap m \<noteq> []" using lm_ok_size[OF 1(2)] by auto
    then obtain m' where m': "lm_evict m = Some m'" "lm_ok m'" "lm_size m' = lm_size m - 1" "dom (lm_map m') \<subseteq> dom (lm_map m)"
      using lm_evict_ok[OF 1(2)] by blast
    then obtain m'' where "lm_shrink s m' = Some m''" "lm_ok m''" "lm_size m'' = min s (lm_size m')"
        "dom (lm_map m'') \<subseteq> dom (lm_map m')"
      using 1(1)[OF True m'(1)] by blast
    moreover from this have "dom (lm_map m'') \<subseteq> dom (lm_map m)" using m'(4) by blast
    ultimately show ?thesis using True m' by (subst lm_shrink.simps) (simp add: min_def)
  next
    case False
    then show ?thesis using 1(2) by (subst lm_shrink.simps) auto
  qed
qed

section \<open>Sequences of operations\<close>

text \<open>What an insertion does to the elements kept, oldest first.\<close>

definition recent :: "nat \<Rightarrow> 'a list \<Rightarrow> 'a \<Rightarrow> 'a list" where
  "recent n q x = (if x \<in> set q then q else newest n (q @ [x]))"

lemma mru_fold:
  "mru_ok m \<Longrightarrow> mru_nMaxSize m = n \<Longrightarrow>
    mru_ok (foldl (\<lambda>m x. snd (mru_insert m x)) m xs) \<and>
    mru_queue (foldl (\<lambda>m x. snd (mru_insert m x)) m xs) = foldl (recent n) (mru_queue m) xs \<and>
    mru_nMaxSize (foldl (\<lambda>m x. snd (mru_insert m x)) m xs) = n"
proof (induction xs arbitrary: m)
  case (Cons x xs)
  have "mru_queue (snd (mru_insert m x)) = recent n (mru_queue m) x"
    using mru_insert_ok(2)[OF Cons.prems(1), of x] Cons.prems(2) by (simp add: recent_def)
  then show ?case using Cons.IH[of "snd (mru_insert m x)"] mru_insert_ok(1,3)[OF Cons.prems(1), of x] Cons.prems(2) by simp
qed simp

datatype ('k, 'v) lm_op = Lm_insert 'k 'v | Lm_erase 'k | Lm_update 'k 'v

fun lm_do :: "('k, 'v::linorder) lm_op \<Rightarrow> ('k, 'v) limitedmap \<Rightarrow> ('k, 'v) limitedmap option" where
  "lm_do (Lm_insert k v) m = lm_insert (k, v) m"
| "lm_do (Lm_erase k) m = lm_erase k m"
| "lm_do (Lm_update k v) m = lm_update k v m"

definition lm_below :: "nat \<Rightarrow> ('k, 'v::linorder) limitedmap \<Rightarrow> bool" where
  "lm_below n m \<longleftrightarrow> lm_ok m \<and> lm_nMaxSize m = n \<and> lm_size m < n"

lemma lm_size_shrinks: "lm_ok m \<Longrightarrow> dom (lm_map m') \<subseteq> dom (lm_map m) \<Longrightarrow> lm_size m' \<le> lm_size m"
  unfolding lm_size_def by (rule card_mono) (simp_all add: lm_ok_dom)

lemma lm_do_below:
  assumes n: "2 \<le> n" and b: "lm_below n m"
  shows "\<exists>m'. lm_do oper m = Some m' \<and> lm_below n m'"
proof (cases oper)
  case (Lm_insert k v)
  show ?thesis
  proof (cases "lm_map m k")
    case None
    have "lm_rmap m \<noteq> []" if "Suc (lm_size m) = n" using lm_ok_size[of m] b n that by (auto simp: lm_below_def)
    then show ?thesis using lm_insert_ok[of m k v] None b Lm_insert
      by (cases "Suc (lm_size m) = n") (auto simp: lm_below_def)
  qed (use b Lm_insert in \<open>simp add: lm_insert_def\<close>)
next
  case (Lm_erase k)
  obtain m' where m': "lm_erase k m = Some m'" "lm_ok m'" "lm_map m' = (lm_map m)(k := None)" "lm_nMaxSize m' = lm_nMaxSize m"
    using lm_erase_ok[of m k] b by (auto simp: lm_below_def)
  then have "lm_size m' \<le> lm_size m" using b by (intro lm_size_shrinks) (auto simp: lm_below_def)
  then show ?thesis using m' b Lm_erase by (auto simp: lm_below_def)
next
  case (Lm_update k v)
  obtain m' where m': "lm_update k v m = Some m'" "lm_ok m'" "lm_nMaxSize m' = lm_nMaxSize m"
      "lm_map m' = (if lm_map m k = None then lm_map m else (lm_map m)(k \<mapsto> v))"
    using lm_update_ok[of m k v] b by (auto simp: lm_below_def)
  then have "lm_size m' \<le> lm_size m" using b by (intro lm_size_shrinks) (auto simp: lm_below_def split: if_splits)
  then show ?thesis using m' b Lm_update by (auto simp: lm_below_def)
qed

section \<open>Properties\<close>

text \<open>
  A bounded set that elements are inserted into holds, whatever the elements, those that a list of the
  most recent ones holds: an element it has is left where it is, a new one goes to the end, and the
  oldest leaves when there are too many; with the bound 0 nothing leaves.
\<close>

theorem mruset_keeps_recent:
  "mru_set (foldl (\<lambda>m x. snd (mru_insert m x)) (mru_new n) xs) = set (foldl (recent n) [] xs) \<and>
   (if n = 0 then True else mru_size (foldl (\<lambda>m x. snd (mru_insert m x)) (mru_new n) xs) \<le> n)"
proof -
  let ?m = "foldl (\<lambda>m x. snd (mru_insert m x)) (mru_new n) xs"
  have "mru_ok ?m" "mru_queue ?m = foldl (recent n) [] xs" "mru_nMaxSize ?m = n"
    using mru_fold[OF mru_ok_new, of n n xs] by (auto simp: mru_new_def)
  then show ?thesis by (auto simp: mru_ok_def mru_size_def distinct_card)
qed

text \<open>
  A limited map with a bound of at least two, put through any sequence of insertions, erasures and
  updates, never runs into the failing assertions nor an empty multimap, keeps its multimap in step
  with the map, and holds fewer elements than its bound.
\<close>

theorem limitedmap_bounded:
  assumes "2 \<le> n"
  shows "\<exists>m. ofold lm_do ops (lm_new n) = Some m \<and> lm_ok m \<and> lm_size m < n"
proof -
  have "lm_below n (lm_new n)" using lm_ok_new[of n] assms by (auto simp: lm_below_def lm_new_def lm_size_def)
  then show ?thesis
    using ofold_invariant[of "lm_below n" "lm_new n" ops lm_do] lm_do_below[OF assms] by (auto simp: lm_below_def)
qed

lemma limitedmap_bounded_witness:
  "\<exists>m. ofold lm_do [Lm_insert (1 :: nat) (5 :: nat), Lm_insert 2 4, Lm_update 2 9, Lm_insert 3 1, Lm_erase 3] (lm_new 2) = Some m \<and>
     lm_size m < 2"
  using limitedmap_bounded[of 2 "[Lm_insert (1 :: nat) (5 :: nat), Lm_insert 2 4, Lm_update 2 9, Lm_insert 3 1, Lm_erase 3]"]
  by auto

text \<open>
  Outside that use the limit fails: with the bound 1 the first insertion erases from the empty
  multimap, and a map lowered to exactly its size by \<open>max_size\<close> grows beyond it with the next new
  element.
\<close>

theorem limitedmap_limit_fails:
  assumes "lm_ok m" "s \<noteq> 0" "s < lm_size m" "lm_map m k = None"
  shows "lm_insert (k, v) (lm_new 1) = None \<and>
    (\<exists>m1 m2. lm_max_size s m = Some m1 \<and> lm_nMaxSize m1 = s \<and> lm_insert (k, v) m1 = Some m2 \<and> lm_size m2 = s + 1)"
proof
  have "lm_size (lm_new 1\<lparr>lm_map := [k \<mapsto> v]\<rparr>) = 1" by (simp add: lm_size_def)
  then show "lm_insert (k, v) (lm_new 1) = None"
    by (simp add: lm_insert_def lm_evict_def lm_new_def Let_def lm_size_def)
  obtain m1 where m1: "lm_shrink s m = Some m1" "lm_ok m1" "lm_size m1 = s" "dom (lm_map m1) \<subseteq> dom (lm_map m)"
    using lm_shrink_ok[OF assms(1), of s] assms(3) by auto
  let ?m = "m1\<lparr>lm_nMaxSize := s\<rparr>"
  have "lm_ok ?m" "lm_size ?m = s" using m1 by (simp_all add: lm_ok_def lm_size_def)
  moreover have "lm_map ?m k = None" using m1(4) assms(4) by auto
  ultimately have "\<exists>m2. lm_insert (k, v) ?m = Some m2 \<and> lm_size m2 = s + 1"
    using lm_insert_ok[of ?m k v] by auto
  then show "\<exists>m1 m2. lm_max_size s m = Some m1 \<and> lm_nMaxSize m1 = s \<and> lm_insert (k, v) m1 = Some m2 \<and> lm_size m2 = s + 1"
    using m1(1) assms(2) by (auto simp: lm_max_size_def)
qed

lemma limitedmap_limit_fails_witness:
  "\<exists>m m1 m2. ofold lm_do [Lm_insert (1 :: nat) (5 :: nat), Lm_insert 2 4] (lm_new 0) = Some m \<and>
     lm_max_size 1 m = Some m1 \<and> lm_insert (3, 7) m1 = Some m2 \<and> lm_size m2 = 2"
proof -
  let ?m = "\<lparr>lm_map = [1 \<mapsto> (5 :: nat), 2 \<mapsto> 4], lm_rmap = [(4, 2), (5, 1 :: nat)], lm_nMaxSize = 0\<rparr>"
  have "ofold lm_do [Lm_insert 1 5, Lm_insert 2 4] (lm_new 0) = Some ?m"
    by (auto simp: lm_insert_def lm_new_def lm_size_def Let_def)
  moreover have "lm_ok ?m" by (auto simp: lm_ok_def)
  moreover have "lm_size ?m = 2" by (simp add: lm_size_def)
  ultimately show ?thesis using limitedmap_limit_fails[of ?m 1 3 7] by auto
qed

end
