(* ===== verification/Orphans.thy ===== *)
theory Orphans
  imports Core
begin

text \<open>
  Transactions whose parents are missing: the maps \<open>mapOrphanTransactions\<close> and
  \<open>mapOrphanTransactionsByPrev\<close> of \<open>src/src/main.cpp\<close> with \<open>AddOrphanTx\<close>, \<open>EraseOrphanTx\<close> and
  \<open>LimitOrphanTxSize\<close>.  The random hashes are a parameter, one for each turn of the loop.
\<close>

record orphans =
  mapOrphanTransactions :: "uint256 \<rightharpoonup> CTransaction"
  mapOrphanTransactionsByPrev :: "uint256 \<rightharpoonup> uint256 set"

definition insert_prev :: "uint256 \<Rightarrow> (uint256 \<rightharpoonup> uint256 set) \<Rightarrow> CTxIn \<Rightarrow> (uint256 \<rightharpoonup> uint256 set)" where
  "insert_prev hash m txin =
     m(op_hash (prevout txin) \<mapsto>
       insert hash (case m (op_hash (prevout txin)) of None \<Rightarrow> {} | Some S \<Rightarrow> S))"

definition AddOrphanTx :: "(bytes \<Rightarrow> uint256) \<Rightarrow> CTransaction \<Rightarrow> orphans \<Rightarrow> bool \<times> orphans" where
  "AddOrphanTx H tx st =
     (let hash = tx_GetHash H tx
      in if mapOrphanTransactions st hash \<noteq> None then (False, st)
         else if length (write_tx tx) > 5000 then (False, st)
         else (True, st\<lparr>mapOrphanTransactions := (mapOrphanTransactions st)(hash \<mapsto> tx),
                mapOrphanTransactionsByPrev := foldl (insert_prev hash) (mapOrphanTransactionsByPrev st) (vin tx)\<rparr>))"

definition erase_prev :: "uint256 \<Rightarrow> (uint256 \<rightharpoonup> uint256 set) \<Rightarrow> CTxIn \<Rightarrow> (uint256 \<rightharpoonup> uint256 set)" where
  "erase_prev hash m txin =
     (let h = op_hash (prevout txin)
      in case m h of
           None \<Rightarrow> m
         | Some S \<Rightarrow> (if S - {hash} = {} then m(h := None) else m(h \<mapsto> S - {hash})))"

definition EraseOrphanTx :: "uint256 \<Rightarrow> orphans \<Rightarrow> orphans" where
  "EraseOrphanTx hash st =
     (case mapOrphanTransactions st hash of
        None \<Rightarrow> st
      | Some tx \<Rightarrow>
          st\<lparr>mapOrphanTransactionsByPrev := foldl (erase_prev hash) (mapOrphanTransactionsByPrev st) (vin tx),
             mapOrphanTransactions := (mapOrphanTransactions st)(hash := None)\<rparr>)"

text \<open>The element at \<open>lower_bound\<close>, or the first one at the end.\<close>

definition orphan_choice :: "uint256 \<Rightarrow> orphans \<Rightarrow> uint256" where
  "orphan_choice randomhash st =
     (let keys = dom (mapOrphanTransactions st); later = {k \<in> keys. randomhash \<le> k}
      in if later = {} then Min keys else Min later)"

lemma EraseOrphanTx_map: "mapOrphanTransactions (EraseOrphanTx h st) = (mapOrphanTransactions st)(h := None)"
  by (auto simp: EraseOrphanTx_def split: option.split)

lemma orphan_choice_dom:
  assumes "n < card (dom (mapOrphanTransactions st))"
  shows "orphan_choice r st \<in> dom (mapOrphanTransactions st)"
proof -
  have "0 < card (dom (mapOrphanTransactions st))" using assms by linarith
  then have fin: "finite (dom (mapOrphanTransactions st))" "dom (mapOrphanTransactions st) \<noteq> {}"
    unfolding card_gt_0_iff by simp_all
  show ?thesis
  proof (cases "{k \<in> dom (mapOrphanTransactions st). r \<le> k} = {}")
    case True
    then show ?thesis using Min_in[OF fin] by (simp add: orphan_choice_def Let_def)
  next
    case False
    then have "Min {k \<in> dom (mapOrphanTransactions st). r \<le> k} \<in> {k \<in> dom (mapOrphanTransactions st). r \<le> k}"
      using fin(1) by (intro Min_in) auto
    then show ?thesis using False by (auto simp: orphan_choice_def Let_def)
  qed
qed

lemma erase_choice_card:
  assumes "n < card (dom (mapOrphanTransactions st))"
  shows "Suc (card (dom (mapOrphanTransactions (EraseOrphanTx (orphan_choice r st) st)))) =
    card (dom (mapOrphanTransactions st))"
proof -
  have "0 < card (dom (mapOrphanTransactions st))" using assms by linarith
  moreover from this have "finite (dom (mapOrphanTransactions st))" unfolding card_gt_0_iff by simp
  ultimately show ?thesis using orphan_choice_dom[OF assms, of r]
    by (simp add: EraseOrphanTx_map dom_fun_upd)
qed

function limit_orphans :: "(nat \<Rightarrow> uint256) \<Rightarrow> nat \<Rightarrow> nat \<Rightarrow> orphans \<Rightarrow> nat \<times> orphans" where
  "limit_orphans rand nMaxOrphans nEvicted st =
     (if card (dom (mapOrphanTransactions st)) > nMaxOrphans
      then limit_orphans rand nMaxOrphans (nEvicted + 1) (EraseOrphanTx (orphan_choice (rand nEvicted) st) st)
      else (nEvicted, st))"
  by pat_completeness auto
termination
proof (relation "measure (\<lambda>(r, n, e, st). card (dom (mapOrphanTransactions st)))")
  fix rand :: "nat \<Rightarrow> uint256" and n e :: nat and st :: orphans
  assume "n < card (dom (mapOrphanTransactions st))"
  then show "((rand, n, e + 1, EraseOrphanTx (orphan_choice (rand e) st) st), (rand, n, e, st))
      \<in> measure (\<lambda>(r, n, e, st). card (dom (mapOrphanTransactions st)))"
    using erase_choice_card[of n st "rand e"] by simp
qed simp

declare limit_orphans.simps [simp del]

definition LimitOrphanTxSize :: "(nat \<Rightarrow> uint256) \<Rightarrow> nat \<Rightarrow> orphans \<Rightarrow> nat \<times> orphans" where
  "LimitOrphanTxSize rand nMaxOrphans st = limit_orphans rand nMaxOrphans 0 st"

section \<open>The invariant\<close>

text \<open>Each parent has the set of the orphans that spend it, and only such parents are there.\<close>

definition waiting :: "orphans \<Rightarrow> uint256 \<Rightarrow> uint256 set" where
  "waiting st p = {h. \<exists>tx. mapOrphanTransactions st h = Some tx \<and> p \<in> (\<lambda>i. op_hash (prevout i)) ` set (vin tx)}"

definition orphans_ok :: "(bytes \<Rightarrow> uint256) \<Rightarrow> orphans \<Rightarrow> bool" where
  "orphans_ok H st \<longleftrightarrow> finite (dom (mapOrphanTransactions st)) \<and>
     (\<forall>h tx. mapOrphanTransactions st h = Some tx \<longrightarrow> tx_GetHash H tx = h \<and> length (write_tx tx) \<le> 5000) \<and>
     (\<forall>p. mapOrphanTransactionsByPrev st p = (if waiting st p = {} then None else Some (waiting st p)))"

abbreviation in_hashes :: "CTxIn list \<Rightarrow> uint256 set" where
  "in_hashes ins \<equiv> (\<lambda>i. op_hash (prevout i)) ` set ins"

lemma foldl_insert_prev:
  "foldl (insert_prev hash) m ins p =
     (if p \<in> in_hashes ins then Some (insert hash (case m p of None \<Rightarrow> {} | Some S \<Rightarrow> S)) else m p)"
  by (induction ins arbitrary: m) (auto simp: insert_prev_def)

lemma foldl_erase_prev:
  "foldl (erase_prev hash) m ins p =
     (if p \<in> in_hashes ins
      then (case m p of None \<Rightarrow> None | Some S \<Rightarrow> (if S - {hash} = {} then None else Some (S - {hash})))
      else m p)"
proof (induction ins arbitrary: m)
  case (Cons i ins)
  have e: "erase_prev hash m i p =
      (if p = op_hash (prevout i)
       then (case m p of None \<Rightarrow> None | Some S \<Rightarrow> (if S - {hash} = {} then None else Some (S - {hash})))
       else m p)"
    by (simp add: erase_prev_def Let_def split: option.split)
  show ?case unfolding foldl_Cons Cons.IH e by (auto split: option.splits if_splits)
qed simp

lemma AddOrphanTx_ok:
  assumes ok: "orphans_ok H st"
  shows "orphans_ok H (snd (AddOrphanTx H tx st))"
proof (cases "mapOrphanTransactions st (tx_GetHash H tx) \<noteq> None \<or> length (write_tx tx) > 5000")
  case True
  then show ?thesis using ok by (auto simp: AddOrphanTx_def Let_def)
next
  case False
  let ?h = "tx_GetHash H tx"
  let ?st = "st\<lparr>mapOrphanTransactions := (mapOrphanTransactions st)(?h \<mapsto> tx),
      mapOrphanTransactionsByPrev := foldl (insert_prev ?h) (mapOrphanTransactionsByPrev st) (vin tx)\<rparr>"
  have st: "snd (AddOrphanTx H tx st) = ?st" using False by (simp add: AddOrphanTx_def Let_def)
  have w: "waiting ?st p = (if p \<in> in_hashes (vin tx) then insert ?h (waiting st p) else waiting st p)" for p
    using False by (auto simp: waiting_def)
  have "mapOrphanTransactionsByPrev ?st p = (if waiting ?st p = {} then None else Some (waiting ?st p))" for p
    using ok unfolding w by (simp add: foldl_insert_prev orphans_ok_def)
  moreover have "finite (dom (mapOrphanTransactions ?st))" using ok by (simp add: orphans_ok_def)
  moreover have "\<forall>h t. mapOrphanTransactions ?st h = Some t \<longrightarrow> tx_GetHash H t = h \<and> length (write_tx t) \<le> 5000"
    using ok False by (simp add: orphans_ok_def)
  ultimately show ?thesis unfolding st orphans_ok_def by blast
qed

lemma EraseOrphanTx_ok:
  assumes ok: "orphans_ok H st"
  shows "orphans_ok H (EraseOrphanTx h st)"
proof (cases "mapOrphanTransactions st h")
  case None
  then show ?thesis using ok by (simp add: EraseOrphanTx_def)
next
  case (Some tx)
  let ?st = "EraseOrphanTx h st"
  have w: "waiting ?st p = waiting st p - {h}" for p by (auto simp: waiting_def EraseOrphanTx_map)
  have h: "h \<in> waiting st p \<longleftrightarrow> p \<in> in_hashes (vin tx)" for p using Some by (auto simp: waiting_def)
  have "mapOrphanTransactionsByPrev ?st p = (if waiting ?st p = {} then None else Some (waiting ?st p))" for p
  proof -
    have p: "mapOrphanTransactionsByPrev st p = (if waiting st p = {} then None else Some (waiting st p))"
      using ok by (simp add: orphans_ok_def)
    have "mapOrphanTransactionsByPrev ?st p = foldl (erase_prev h) (mapOrphanTransactionsByPrev st) (vin tx) p"
      using Some by (simp add: EraseOrphanTx_def)
    then show ?thesis using h[of p] unfolding w foldl_erase_prev p by auto
  qed
  moreover have "finite (dom (mapOrphanTransactions ?st))" using ok by (simp add: orphans_ok_def EraseOrphanTx_map)
  moreover have "\<forall>k t. mapOrphanTransactions ?st k = Some t \<longrightarrow> tx_GetHash H t = k \<and> length (write_tx t) \<le> 5000"
    using ok by (simp add: orphans_ok_def EraseOrphanTx_map)
  ultimately show ?thesis unfolding orphans_ok_def by blast
qed

lemma limit_orphans_ok:
  "orphans_ok H st \<Longrightarrow>
    (\<exists>st'. limit_orphans rand n e st = (e + (card (dom (mapOrphanTransactions st)) - n), st') \<and> orphans_ok H st' \<and>
      card (dom (mapOrphanTransactions st')) = min n (card (dom (mapOrphanTransactions st))) \<and>
      mapOrphanTransactions st' \<subseteq>\<^sub>m mapOrphanTransactions st)"
proof (induction rand n e st rule: limit_orphans.induct)
  case (1 rand n e st)
  show ?case
  proof (cases "card (dom (mapOrphanTransactions st)) > n")
    case False
    then show ?thesis using 1(2) by (subst limit_orphans.simps) simp
  next
    case True
    let ?st = "EraseOrphanTx (orphan_choice (rand e) st) st"
    have c: "Suc (card (dom (mapOrphanTransactions ?st))) = card (dom (mapOrphanTransactions st))"
      using True by (rule erase_choice_card)
    have sub: "mapOrphanTransactions ?st \<subseteq>\<^sub>m mapOrphanTransactions st"
      by (simp add: EraseOrphanTx_map map_le_def)
    obtain st' where st': "limit_orphans rand n (e + 1) ?st = (e + 1 + (card (dom (mapOrphanTransactions ?st)) - n), st')"
        "orphans_ok H st'" "card (dom (mapOrphanTransactions st')) = min n (card (dom (mapOrphanTransactions ?st)))"
        "mapOrphanTransactions st' \<subseteq>\<^sub>m mapOrphanTransactions ?st"
      using 1(1)[OF True EraseOrphanTx_ok[OF 1(2)]] by blast
    have "limit_orphans rand n e st = limit_orphans rand n (e + 1) ?st" using True by (subst limit_orphans.simps) simp
    then show ?thesis using st' c True map_le_trans[OF st'(4) sub] by (auto simp: min_def)
  qed
qed

section \<open>Reachable states and their property\<close>

inductive orphans_reachable :: "(bytes \<Rightarrow> uint256) \<Rightarrow> orphans \<Rightarrow> bool" for H where
  start: "orphans_reachable H \<lparr>mapOrphanTransactions = Map.empty, mapOrphanTransactionsByPrev = Map.empty\<rparr>"
| add: "orphans_reachable H st \<Longrightarrow> orphans_reachable H (snd (AddOrphanTx H tx st))"
| erase: "orphans_reachable H st \<Longrightarrow> orphans_reachable H (EraseOrphanTx h st)"
| limit: "orphans_reachable H st \<Longrightarrow> orphans_reachable H (snd (LimitOrphanTxSize rand n st))"

lemma orphans_reachable_ok: "orphans_reachable H st \<Longrightarrow> orphans_ok H st"
proof (induction rule: orphans_reachable.induct)
  case start
  then show ?case by (simp add: orphans_ok_def waiting_def)
next
  case (limit st rand n)
  then show ?case using limit_orphans_ok[of H st rand n 0] by (auto simp: LimitOrphanTxSize_def)
qed (simp_all add: AddOrphanTx_ok EraseOrphanTx_ok)

text \<open> C31.
  In every state the orphans reach, both maps agree (each missing parent has exactly the orphans that
  wait for it, and no parent without one is left), and limiting them, whatever the random hashes,
  ends with at most the given number, evicting no more than needed and adding nothing.
\<close>

theorem orphans_consistent_and_limited:
  assumes "orphans_reachable H st"
  shows "orphans_ok H st \<and>
    (\<exists>st'. LimitOrphanTxSize rand n st = (card (dom (mapOrphanTransactions st)) - n, st') \<and> orphans_ok H st' \<and>
       card (dom (mapOrphanTransactions st')) = min n (card (dom (mapOrphanTransactions st))) \<and>
       mapOrphanTransactions st' \<subseteq>\<^sub>m mapOrphanTransactions st)"
  using orphans_reachable_ok[OF assms] limit_orphans_ok[of H st rand n 0] by (simp add: LimitOrphanTxSize_def)

definition orphan_tx :: CTransaction where
  "orphan_tx = \<lparr>tx_nVersion = 1, tx_nTime = 0, vin = [mk_txin \<lparr>op_hash = 7, op_n = 0\<rparr> [] 0], vout = [],
     nLockTime = 0, tx_nDoS = 0\<rparr>"

lemma orphans_consistent_and_limited_witness:
  "\<exists>st st'. AddOrphanTx (\<lambda>b. 3) orphan_tx
      \<lparr>mapOrphanTransactions = Map.empty, mapOrphanTransactionsByPrev = Map.empty\<rparr> = (True, st) \<and>
     mapOrphanTransactionsByPrev st 7 = Some {3} \<and> LimitOrphanTxSize (\<lambda>i. 9) 0 st = (1, st') \<and>
     mapOrphanTransactions st' = Map.empty"
proof -
  have len: "length (write_tx orphan_tx) \<le> 5000" by code_simp
  let ?st0 = "\<lparr>mapOrphanTransactions = Map.empty, mapOrphanTransactionsByPrev = Map.empty\<rparr> :: orphans"
  obtain st where st: "AddOrphanTx (\<lambda>b. 3) orphan_tx ?st0 = (True, st)"
      "mapOrphanTransactions st = [3 \<mapsto> orphan_tx]" "mapOrphanTransactionsByPrev st 7 = Some {3}"
    using len by (auto simp: AddOrphanTx_def tx_GetHash_def Let_def foldl_insert_prev)
      (simp add: orphan_tx_def mk_txin_def)
  have "orphans_reachable (\<lambda>b. 3) st"
    using orphans_reachable.add[OF orphans_reachable.start, of "\<lambda>b. 3" orphan_tx] st(1) by simp
  from orphans_consistent_and_limited[OF this, of "\<lambda>i. 9" 0]
  obtain st' where "LimitOrphanTxSize (\<lambda>i. 9) 0 st = (1, st')" "card (dom (mapOrphanTransactions st')) = 0"
      "finite (dom (mapOrphanTransactions st'))"
    using st(2) by (auto simp: orphans_ok_def)
  then show ?thesis using st by auto
qed

end
