(* ===== verification/TxIndex.thy ===== *)
theory TxIndex
  imports Core
begin

text \<open>
  Positions of transactions on disk and the index of their spent outputs, \<open>CDiskTxPos\<close> and
  \<open>CTxIndex\<close> of \<open>src/src/main.h\<close>, and the readers of a transaction's inputs in \<open>src/src/main.cpp\<close>.
  Block heights are \<open>int\<close>, well within 32 bits.
\<close>

section \<open>Disk positions and the index\<close>

record CDiskTxPos =
  nFile :: uint32
  nBlockPos :: uint32
  nTxPos :: uint32

definition pos_null :: CDiskTxPos where
  "pos_null = \<lparr>nFile = - 1, nBlockPos = 0, nTxPos = 0\<rparr>"

definition pos_IsNull :: "CDiskTxPos \<Rightarrow> bool" where
  "pos_IsNull p \<longleftrightarrow> nFile p = - 1"

definition pos_eq :: "CDiskTxPos \<Rightarrow> CDiskTxPos \<Rightarrow> bool" where
  "pos_eq a b \<longleftrightarrow> nFile a = nFile b \<and> nBlockPos a = nBlockPos b \<and> nTxPos a = nTxPos b"

record CTxIndex =
  txi_pos :: CDiskTxPos
  vSpent :: "CDiskTxPos list"

definition mk_txindex :: "CDiskTxPos \<Rightarrow> nat \<Rightarrow> CTxIndex" where
  "mk_txindex posIn nOutputs = \<lparr>txi_pos = posIn, vSpent = replicate nOutputs pos_null\<rparr>"

definition txindex_null :: CTxIndex where
  "txindex_null = \<lparr>txi_pos = pos_null, vSpent = []\<rparr>"

definition txindex_IsNull :: "CTxIndex \<Rightarrow> bool" where
  "txindex_IsNull i \<longleftrightarrow> pos_IsNull (txi_pos i)"

definition txindex_eq :: "CTxIndex \<Rightarrow> CTxIndex \<Rightarrow> bool" where
  "txindex_eq a b \<longleftrightarrow> pos_eq (txi_pos a) (txi_pos b) \<and> list_all2 pos_eq (vSpent a) (vSpent b)"

lemma pos_eq_iff: "pos_eq a b \<longleftrightarrow> a = b"
  by (cases a; cases b) (auto simp: pos_eq_def)

lemma txindex_eq_iff: "txindex_eq a b \<longleftrightarrow> a = b"
  by (cases a; cases b) (auto simp: txindex_eq_def pos_eq_iff list_all2_conv_all_nth intro: nth_equalityI)

definition write_pos :: "CDiskTxPos \<Rightarrow> bytes" where
  "write_pos p = write_word 4 (nFile p) @ write_word 4 (nBlockPos p) @ write_word 4 (nTxPos p)"

definition read_pos :: "CDiskTxPos reader" where
  "read_pos s =
     rbind (read_word 4 s) (\<lambda>(f, s).
     rbind (read_word 4 s) (\<lambda>(b, s).
     rbind (read_word 4 s) (\<lambda>(t, s). Inr (\<lparr>nFile = f, nBlockPos = b, nTxPos = t\<rparr>, s))))"

interpretation disk_pos: canonical_codec write_pos read_pos "\<lambda>_. True"
  by (rule canonical_codecI, rename_tac s x t, case_tac x)
    (auto simp: read_pos_def write_pos_def rbind_Inr_iff u32.rd_iff)

section \<open>The inputs of a transaction\<close>

type_synonym MapPrevTx = "uint256 \<rightharpoonup> CTxIndex \<times> CTransaction"

datatype input_exn = PrevHashNotFound | PrevOutOfRange

definition GetOutputFor :: "CTxIn \<Rightarrow> MapPrevTx \<Rightarrow> input_exn + CTxOut" where
  "GetOutputFor txin inputs =
     (case inputs (op_hash (prevout txin)) of
        None \<Rightarrow> Inl PrevHashNotFound
      | Some (txindex, txPrev) \<Rightarrow>
          (if \<not> unat (op_n (prevout txin)) < length (vout txPrev) then Inl PrevOutOfRange
           else Inr (vout txPrev ! unat (op_n (prevout txin)))))"

fun GetValueIn_loop :: "CTxIn list \<Rightarrow> MapPrevTx \<Rightarrow> int64 \<Rightarrow> input_exn + int64" where
  "GetValueIn_loop [] inputs nResult = Inr nResult"
| "GetValueIn_loop (txin # rest) inputs nResult =
     (case GetOutputFor txin inputs of
        Inl e \<Rightarrow> Inl e
      | Inr prev \<Rightarrow> GetValueIn_loop rest inputs (nResult + nValue prev))"

definition GetValueIn :: "CTransaction \<Rightarrow> MapPrevTx \<Rightarrow> input_exn + int64" where
  "GetValueIn tx inputs = (if IsCoinBase tx then Inr 0 else GetValueIn_loop (vin tx) inputs 0)"

text \<open>A block index and its ancestors, itself first.\<close>

record block_pos =
  bp_nFile :: uint32
  bp_nBlockPos :: uint32
  bp_nHeight :: int

fun confirmed_loop :: "CTxIndex \<Rightarrow> int \<Rightarrow> int \<Rightarrow> block_pos list \<Rightarrow> int option" where
  "confirmed_loop txindex nFrom nMaxDepth [] = None"
| "confirmed_loop txindex nFrom nMaxDepth (pindex # pprev) =
     (if nFrom - bp_nHeight pindex < nMaxDepth then
        if bp_nBlockPos pindex = nBlockPos (txi_pos txindex) \<and> bp_nFile pindex = nFile (txi_pos txindex)
        then Some (nFrom - bp_nHeight pindex)
        else confirmed_loop txindex nFrom nMaxDepth pprev
      else None)"

definition IsConfirmedInNPrevBlocks :: "CTxIndex \<Rightarrow> block_pos list \<Rightarrow> int \<Rightarrow> int option" where
  "IsConfirmedInNPrevBlocks txindex pindexFrom nMaxDepth =
     (case pindexFrom of [] \<Rightarrow> None | p # _ \<Rightarrow> confirmed_loop txindex (bp_nHeight p) nMaxDepth pindexFrom)"

text \<open>In a chain, a block is found exactly when it is one of the last ones, at its depth.\<close>

lemma confirmed_loop_iff:
  assumes "list_all2 (\<lambda>p i. bp_nHeight p = h - int i) ps [0..<length ps]" "int k \<le> d" "nFrom = h + int k"
  shows "confirmed_loop txindex nFrom d ps = Some r \<longleftrightarrow>
    (\<exists>i < length ps. int (k + i) < d \<and> r = int (k + i) \<and>
       bp_nBlockPos (ps ! i) = nBlockPos (txi_pos txindex) \<and> bp_nFile (ps ! i) = nFile (txi_pos txindex) \<and>
       (\<forall>j < i. \<not> (bp_nBlockPos (ps ! j) = nBlockPos (txi_pos txindex) \<and> bp_nFile (ps ! j) = nFile (txi_pos txindex))))"
  using assms
proof (induction ps arbitrary: h k)
  case (Cons p ps)
  have ph: "bp_nHeight p = h" using Cons.prems(1) by (simp add: upt_conv_Cons list_all2_Cons del: upt_Suc)
  have rest: "list_all2 (\<lambda>p i. bp_nHeight p = h - 1 - int i) ps [0..<length ps]"
    using Cons.prems(1) by (auto simp: list_all2_conv_all_nth nth_Cons' simp del: upt_Suc split: if_splits)
  let ?hit = "\<lambda>p. bp_nBlockPos p = nBlockPos (txi_pos txindex) \<and> bp_nFile p = nFile (txi_pos txindex)"
  have ex: "(\<exists>i < length (p # ps). Q i) \<longleftrightarrow> Q 0 \<or> (\<exists>i < length ps. Q (Suc i))" for Q
    by (auto simp: less_Suc_eq_0_disj)
  have all: "(\<forall>j < Suc i. Q j) \<longleftrightarrow> Q 0 \<and> (\<forall>j < i. Q (Suc j))" for Q i
    by (auto simp: less_Suc_eq_0_disj)
  show ?case
  proof (cases "int k < d")
    case False
    then show ?thesis using Cons.prems(3) ph by auto
  next
    case True
    show ?thesis
    proof (cases "?hit p")
      case hit: True
      then show ?thesis using True Cons.prems(3) ph unfolding ex all by auto
    next
      case False
      then have "confirmed_loop txindex nFrom d (p # ps) = confirmed_loop txindex nFrom d ps"
        using True Cons.prems(3) ph by auto
      then show ?thesis
        using Cons.IH[OF rest, of "Suc k"] False True Cons.prems(3) unfolding ex all by auto
    qed
  qed
qed simp

end
