(* ===== verification/TxCheck.thy ===== *)
theory TxCheck
  imports TxIndex Solver
begin

text \<open>
  The checks of a single transaction in \<open>src/src/main.cpp\<close>: \<open>CheckTransaction\<close>, \<open>IsFinalTx\<close>,
  \<open>IsStandardTx\<close>, \<open>AreInputsStandard\<close>, the signature operation counts and \<open>GetMinFee\<close>.  A failure
  is a value of \<open>check_error\<close>; \<open>dos_score\<close> is what it adds to the penalty of the peer.  The
  serialised size of a transaction is the length of its serialised form.
\<close>

section \<open>Limits\<close>

definition MAX_BLOCK_SIZE :: nat where "MAX_BLOCK_SIZE = 3000000"
definition MAX_BLOCK_SIZE_GEN :: nat where "MAX_BLOCK_SIZE_GEN = MAX_BLOCK_SIZE div 2"
definition DEFAULT_BLOCK_PRIORITY_SIZE :: nat where "DEFAULT_BLOCK_PRIORITY_SIZE = 50000"
definition MAX_STANDARD_TX_SIZE :: nat where "MAX_STANDARD_TX_SIZE = MAX_BLOCK_SIZE_GEN div 5"
definition MAX_P2SH_SIGOPS :: nat where "MAX_P2SH_SIGOPS = 15"
definition MIN_TX_FEE :: int where "MIN_TX_FEE = 10000"
definition MIN_RELAY_TX_FEE :: int where "MIN_RELAY_TX_FEE = MIN_TX_FEE"
definition LOCKTIME_THRESHOLD :: int where "LOCKTIME_THRESHOLD = 500000000"
definition DRIFT :: int where "DRIFT = 600"
definition FutureDrift :: "int \<Rightarrow> int" where "FutureDrift t = t + DRIFT"
definition CURRENT_VERSION :: int where "CURRENT_VERSION = 1"

section \<open>Checks without context\<close>

datatype check_error =
    Vin_empty | Vout_empty | Size_limits | Txout_empty | Value_negative | Value_too_high
  | Total_out_of_range | Duplicate_inputs | Coinbase_script_size | Prevout_null

fun dos_score :: "check_error \<Rightarrow> uint32" where
  "dos_score Vin_empty = 10"
| "dos_score Vout_empty = 10"
| "dos_score Duplicate_inputs = 0"
| "dos_score Prevout_null = 10"
| "dos_score _ = 100"

fun check_outputs :: "bool \<Rightarrow> int64 \<Rightarrow> CTxOut list \<Rightarrow> check_error + unit" where
  "check_outputs fUser nValueOut [] = Inr ()"
| "check_outputs fUser nValueOut (txout # rest) =
     (if txout_IsEmpty txout \<and> fUser then Inl Txout_empty
      else if sint (nValue txout) < 0 then Inl Value_negative
      else if sint (nValue txout) > MAX_MONEY then Inl Value_too_high
      else
        let nValueOut = nValueOut + nValue txout
        in if \<not> MoneyRange nValueOut then Inl Total_out_of_range
           else check_outputs fUser nValueOut rest)"

fun check_duplicates :: "COutPoint set \<Rightarrow> CTxIn list \<Rightarrow> check_error + unit" where
  "check_duplicates vInOutPoints [] = Inr ()"
| "check_duplicates vInOutPoints (txin # rest) =
     (if prevout txin \<in> vInOutPoints then Inl Duplicate_inputs
      else check_duplicates (insert (prevout txin) vInOutPoints) rest)"

definition CheckTransaction :: "CTransaction \<Rightarrow> check_error + unit" where
  "CheckTransaction tx =
     (if vin tx = [] then Inl Vin_empty
      else if vout tx = [] then Inl Vout_empty
      else if length (write_tx tx) > MAX_BLOCK_SIZE then Inl Size_limits
      else rbind (check_outputs (\<not> IsCoinBase tx \<and> \<not> IsCoinStake tx) 0 (vout tx)) (\<lambda>_.
           rbind (check_duplicates {} (vin tx)) (\<lambda>_.
           if IsCoinBase tx then
             (if length (scriptSig (vin tx ! 0)) < 2 \<or> length (scriptSig (vin tx ! 0)) > 100
              then Inl Coinbase_script_size else Inr ())
           else if list_ex (\<lambda>txin. outpoint_IsNull (prevout txin)) (vin tx) then Inl Prevout_null
           else Inr ())))"

section \<open>Checks with context\<close>

definition IsFinalTx :: "int \<Rightarrow> int \<Rightarrow> CTransaction \<Rightarrow> int \<Rightarrow> int \<Rightarrow> bool" where
  "IsFinalTx nBestHeight adjusted tx nBlockHeight nBlockTime =
     (if nLockTime tx = 0 then True
      else
        let nBlockHeight = (if nBlockHeight = 0 then nBestHeight else nBlockHeight);
            nBlockTime = (if nBlockTime = 0 then adjusted else nBlockTime);
            lock = int (unat (nLockTime tx))
        in if lock < (if lock < LOCKTIME_THRESHOLD then nBlockHeight else nBlockTime) then True
           else list_all txin_IsFinal (vin tx))"

datatype reason =
    R_version | R_non_final | R_time_too_new | R_tx_size | R_scriptsig_size | R_scriptsig_not_pushonly
  | R_scriptsig_non_canonical_push | R_scriptpubkey | R_dust | R_scriptpubkey_non_canonical_push
  | R_multi_op_return

fun standard_inputs :: "CTxIn list \<Rightarrow> reason + unit" where
  "standard_inputs [] = Inr ()"
| "standard_inputs (txin # rest) =
     (if length (scriptSig txin) > 1650 then Inl R_scriptsig_size
      else if \<not> IsPushOnly (scriptSig txin) then Inl R_scriptsig_not_pushonly
      else if \<not> HasCanonicalPushes (scriptSig txin) then Inl R_scriptsig_non_canonical_push
      else standard_inputs rest)"

fun standard_outputs :: "nat \<Rightarrow> CTxOut list \<Rightarrow> reason + nat" where
  "standard_outputs nDataOut [] = Inr nDataOut"
| "standard_outputs nDataOut (txout # rest) =
     (case IsStandard (scriptPubKey txout) of
        (ok, whichType) \<Rightarrow>
          if \<not> ok then Inl R_scriptpubkey
          else if whichType \<noteq> TX_NULL_DATA \<and> nValue txout = 0 then Inl R_dust
          else if \<not> HasCanonicalPushes (scriptPubKey txout) then Inl R_scriptpubkey_non_canonical_push
          else standard_outputs (if whichType = TX_NULL_DATA then nDataOut + 1 else nDataOut) rest)"

definition IsStandardTx :: "int \<Rightarrow> int \<Rightarrow> CTransaction \<Rightarrow> reason + unit" where
  "IsStandardTx nBestHeight adjusted tx =
     (if sint (tx_nVersion tx) > CURRENT_VERSION \<or> sint (tx_nVersion tx) < 1 then Inl R_version
      else if \<not> IsFinalTx nBestHeight adjusted tx (nBestHeight + 1) 0 then Inl R_non_final
      else if int (unat (tx_nTime tx)) > FutureDrift adjusted then Inl R_time_too_new
      else if length (write_tx tx) \<ge> MAX_STANDARD_TX_SIZE then Inl R_tx_size
      else rbind (standard_inputs (vin tx)) (\<lambda>_.
           rbind (standard_outputs 0 (vout tx)) (\<lambda>nDataOut.
           if nDataOut > 1 \<and> nDataOut > length (vout tx) div 2 then Inl R_multi_op_return
           else Inr ())))"

text \<open>
  One input of \<open>AreInputsStandard\<close>: \<open>Inl\<close> is the answer of the whole function, \<open>Inr\<close> goes on with
  the next input.  The interpreter for an input is the parameter \<open>run\<close>.
\<close>

definition input_standard :: "(nat \<Rightarrow> script \<Rightarrow> bytes list option) \<Rightarrow> nat \<Rightarrow> script \<Rightarrow> CTxOut \<Rightarrow> bool + unit" where
  "input_standard run i sig prev =
     (case Solver (scriptPubKey prev) of
        (ok, whichType, vSolutions) \<Rightarrow>
          if \<not> ok then Inl False
          else
            let nArgsExpected = ScriptSigArgsExpected whichType vSolutions
            in if nArgsExpected < 0 then Inl False
               else case run i sig of
                 None \<Rightarrow> Inl False
               | Some stack \<Rightarrow>
                   if whichType = TX_SCRIPTHASH then
                     (case stack of
                        [] \<Rightarrow> Inl False
                      | subscript # _ \<Rightarrow>
                          (case Solver subscript of
                             (ok2, whichType2, vSolutions2) \<Rightarrow>
                               if ok2 then
                                 let tmpExpected = ScriptSigArgsExpected whichType2 vSolutions2
                                 in if whichType2 = TX_SCRIPTHASH then Inl False
                                    else if tmpExpected < 0 then Inl False
                                    else if int (length stack) \<noteq> nArgsExpected + tmpExpected then Inl False
                                    else Inr ()
                               else Inl (GetSigOpCount True subscript \<le> MAX_P2SH_SIGOPS)))
                   else if int (length stack) \<noteq> nArgsExpected then Inl False
                   else Inr ())"

fun inputs_standard ::
  "(nat \<Rightarrow> script \<Rightarrow> bytes list option) \<Rightarrow> MapPrevTx \<Rightarrow> nat \<Rightarrow> CTxIn list \<Rightarrow> input_exn + bool" where
  "inputs_standard run mapInputs i [] = Inr True"
| "inputs_standard run mapInputs i (txin # rest) =
     (case GetOutputFor txin mapInputs of
        Inl e \<Rightarrow> Inl e
      | Inr prev \<Rightarrow>
          (case input_standard run i (scriptSig txin) prev of
             Inl b \<Rightarrow> Inr b
           | Inr _ \<Rightarrow> inputs_standard run mapInputs (i + 1) rest))"

definition AreInputsStandard ::
  "(nat \<Rightarrow> script \<Rightarrow> bytes list option) \<Rightarrow> CTransaction \<Rightarrow> MapPrevTx \<Rightarrow> input_exn + bool" where
  "AreInputsStandard run tx mapInputs =
     (if IsCoinBase tx then Inr True else inputs_standard run mapInputs 0 (vin tx))"

definition GetLegacySigOpCount :: "CTransaction \<Rightarrow> nat" where
  "GetLegacySigOpCount tx =
     foldl (\<lambda>n txout. n + GetSigOpCount False (scriptPubKey txout))
       (foldl (\<lambda>n txin. n + GetSigOpCount False (scriptSig txin)) 0 (vin tx)) (vout tx)"

fun P2SHSigOps_loop :: "MapPrevTx \<Rightarrow> nat \<Rightarrow> CTxIn list \<Rightarrow> input_exn + nat" where
  "P2SHSigOps_loop inputs nSigOps [] = Inr nSigOps"
| "P2SHSigOps_loop inputs nSigOps (txin # rest) =
     (case GetOutputFor txin inputs of
        Inl e \<Rightarrow> Inl e
      | Inr prev \<Rightarrow>
          P2SHSigOps_loop inputs
            (if IsPayToScriptHash (scriptPubKey prev)
             then nSigOps + GetSigOpCount_P2SH (scriptPubKey prev) (scriptSig txin) else nSigOps) rest)"

definition GetP2SHSigOpCount :: "CTransaction \<Rightarrow> MapPrevTx \<Rightarrow> input_exn + nat" where
  "GetP2SHSigOpCount tx inputs = (if IsCoinBase tx then Inr 0 else P2SHSigOps_loop inputs 0 (vin tx))"

datatype GetMinFee_mode = GMF_BLOCK | GMF_RELAY | GMF_SEND

definition GetMinFee :: "CTransaction \<Rightarrow> uint32 \<Rightarrow> bool \<Rightarrow> GetMinFee_mode \<Rightarrow> int" where
  "GetMinFee tx nBytes fAllowFree mode =
     (let nBaseFee = (if mode = GMF_RELAY then MIN_RELAY_TX_FEE else MIN_TX_FEE);
          nMinFee = (1 + int (unat nBytes) div 1000) * nBaseFee;
          nMinFee = (if fAllowFree \<and>
              unat nBytes < (if mode = GMF_SEND then 1000 else DEFAULT_BLOCK_PRIORITY_SIZE - 1000)
            then 0 else nMinFee);
          nMinFee = (if nMinFee < nBaseFee \<and> mode = GMF_SEND \<and>
              list_ex (\<lambda>txout. sint (nValue txout) < CENT) (vout tx)
            then nBaseFee else nMinFee)
      in if \<not> (0 \<le> nMinFee \<and> nMinFee \<le> MAX_MONEY) then MAX_MONEY else nMinFee)"

section \<open>What a checked transaction satisfies\<close>

lemma check_outputs_iff:
  "MoneyRange acc \<Longrightarrow>
    check_outputs fUser acc outs = Inr () \<longleftrightarrow>
      (fUser \<longrightarrow> list_all (\<lambda>out. \<not> txout_IsEmpty out) outs) \<and> (\<exists>v. GetValueOut_loop acc outs = Inr v)"
proof (induction outs arbitrary: acc)
  case (Cons out outs)
  have m: "MoneyRange (nValue out) \<longleftrightarrow> \<not> sint (nValue out) < 0 \<and> \<not> sint (nValue out) > MAX_MONEY"
    by (auto simp: MoneyRange_def)
  show ?case
    by (cases "MoneyRange (acc + nValue out)") (use Cons.IH in \<open>auto simp: m Let_def\<close>)
qed simp

lemma check_duplicates_iff:
  "check_duplicates S ins = Inr () \<longleftrightarrow> distinct (map prevout ins) \<and> prevout ` set ins \<inter> S = {}"
  by (induction ins arbitrary: S) auto

text \<open>The amounts as integers, without overflow.\<close>

definition total_out :: "CTransaction \<Rightarrow> int" where
  "total_out tx = sum_list (map (\<lambda>out. sint (nValue out)) (vout tx))"

definition tx_valid :: "CTransaction \<Rightarrow> bool" where
  "tx_valid tx \<longleftrightarrow>
     vin tx \<noteq> [] \<and> vout tx \<noteq> [] \<and> length (write_tx tx) \<le> MAX_BLOCK_SIZE \<and>
     list_all (\<lambda>out. 0 \<le> sint (nValue out)) (vout tx) \<and> total_out tx \<le> MAX_MONEY \<and>
     distinct (map prevout (vin tx)) \<and>
     (if IsCoinBase tx then length (scriptSig (vin tx ! 0)) \<in> {2..100}
      else list_all (\<lambda>i. prevout i \<noteq> outpoint_null) (vin tx) \<and>
        (IsCoinStake tx \<or> list_all (\<lambda>out. \<not> txout_IsEmpty out) (vout tx)))"

lemma sum_nonneg_each:
  "list_all (\<lambda>x. 0 \<le> f x) xs \<Longrightarrow> sum_list (map f xs) \<le> (m :: int) \<Longrightarrow> list_all (\<lambda>x. f x \<le> m) xs"
proof (induction xs)
  case (Cons x xs)
  have "0 \<le> sum_list (map f xs)" using Cons.prems by (intro sum_list_nonneg) (auto simp: list_all_iff)
  then have "list_all (\<lambda>x. f x \<le> m) xs" "f x \<le> m" using Cons by auto
  then show ?case by simp
qed simp

lemma GetValueOut_iff:
  "(\<exists>v. GetValueOut_loop 0 (vout tx) = Inr v) \<longleftrightarrow>
     list_all (\<lambda>out. 0 \<le> sint (nValue out)) (vout tx) \<and> total_out tx \<le> MAX_MONEY"
proof
  assume "\<exists>v. GetValueOut_loop 0 (vout tx) = Inr v"
  then show "list_all (\<lambda>out. 0 \<le> sint (nValue out)) (vout tx) \<and> total_out tx \<le> MAX_MONEY"
    by (auto simp: GetValueOut_loop_iff[OF MoneyRange_0] total_out_def MoneyRange_def list_all_iff)
next
  assume a: "list_all (\<lambda>out. 0 \<le> sint (nValue out)) (vout tx) \<and> total_out tx \<le> MAX_MONEY"
  then have r: "list_all (\<lambda>out. MoneyRange (nValue out)) (vout tx)"
    using sum_nonneg_each[of "\<lambda>out. sint (nValue out)" "vout tx" MAX_MONEY]
    by (auto simp: total_out_def MoneyRange_def list_all_iff)
  have "0 \<le> total_out tx" using a unfolding total_out_def by (intro sum_list_nonneg) (auto simp: list_all_iff)
  then have "sint (word_of_int (total_out tx) :: int64) = total_out tx"
    using a by (simp add: signed_of_int signed_take_bit_int_eq_self MAX_MONEY_def COIN_def)
  then have "GetValueOut_loop 0 (vout tx) = Inr (word_of_int (total_out tx))"
    using a r by (auto simp: GetValueOut_loop_iff[OF MoneyRange_0] total_out_def)
  then show "\<exists>v. GetValueOut_loop 0 (vout tx) = Inr v" ..
qed

lemma CheckTransaction_iff: "CheckTransaction tx = Inr () \<longleftrightarrow> tx_valid tx"
proof -
  have null: "list_ex (\<lambda>txin. outpoint_IsNull (prevout txin)) (vin tx) \<longleftrightarrow>
      \<not> list_all (\<lambda>i. prevout i \<noteq> outpoint_null) (vin tx)"
    by (simp add: list_ex_iff list_all_iff outpoint_IsNull_iff)
  show ?thesis
    unfolding CheckTransaction_def tx_valid_def null
    by (auto simp: rbind_Inr_iff check_outputs_iff[OF MoneyRange_0] check_duplicates_iff GetValueOut_iff split: if_splits)
qed

text \<open>The values of a valid transaction add up without overflow.\<close>

lemma valid_GetValueOut: "tx_valid tx \<Longrightarrow> \<exists>v. GetValueOut tx = Inr v \<and> sint v = total_out tx \<and> MoneyRange v"
proof -
  assume v: "tx_valid tx"
  then obtain v where "GetValueOut_loop 0 (vout tx) = Inr v" using GetValueOut_iff[of tx] by (auto simp: tx_valid_def)
  moreover from this have "sint v = total_out tx" by (auto simp: GetValueOut_loop_iff[OF MoneyRange_0] total_out_def)
  moreover have "0 \<le> total_out tx"
    using v unfolding total_out_def tx_valid_def by (intro sum_list_nonneg) (auto simp: list_all_iff)
  ultimately show ?thesis using v by (auto simp: GetValueOut_def tx_valid_def MoneyRange_def)
qed

lemma GetMinFee_bounds: "0 \<le> GetMinFee tx nBytes fAllowFree mode \<and> GetMinFee tx nBytes fAllowFree mode \<le> MAX_MONEY"
  by (simp add: GetMinFee_def Let_def MAX_MONEY_def COIN_def)

lemma GetMinFee_paid:
  "\<not> fAllowFree \<Longrightarrow> MIN_TX_FEE \<le> GetMinFee tx nBytes fAllowFree mode"
proof -
  assume a: "\<not> fAllowFree"
  have "0 \<le> int (unat nBytes) div 1000" by (rule pos_imp_zdiv_nonneg_iff[THEN iffD2]) simp_all
  then show ?thesis
    using a by (cases mode) (auto simp: GetMinFee_def Let_def MIN_TX_FEE_def MIN_RELAY_TX_FEE_def MAX_MONEY_def COIN_def)
qed

section \<open>An early answer\<close>

text \<open>An input whose redeem script is of no known type, with few signature operations.\<close>

definition odd_redeem_script :: "(nat \<Rightarrow> script \<Rightarrow> bytes list option) \<Rightarrow> MapPrevTx \<Rightarrow> nat \<Rightarrow> CTxIn \<Rightarrow> bool" where
  "odd_redeem_script run mapInputs i txin \<longleftrightarrow>
     (\<exists>prev h sub rest. GetOutputFor txin mapInputs = Inr prev \<and>
        Solver (scriptPubKey prev) = (True, TX_SCRIPTHASH, h) \<and>
        run i (scriptSig txin) = Some (sub # rest) \<and>
        \<not> fst (Solver sub) \<and> GetSigOpCount True sub \<le> MAX_P2SH_SIGOPS)"

lemma inputs_standard_stops:
  "odd_redeem_script run mapInputs i txin \<Longrightarrow> inputs_standard run mapInputs i (txin # rest) = Inr True"
  by (auto simp: odd_redeem_script_def input_standard_def ScriptSigArgsExpected_def Let_def split: prod.split)

section \<open>Properties\<close>

text \<open> C25.
  \<open>CheckTransaction\<close> accepts exactly the transactions that have inputs and outputs, fit into a block,
  have no negative output and no total above \<open>MAX_MONEY\<close> (as integers, so no sum overflows), spend
  no outpoint twice, and have a coinbase script of 2 to 100 bytes or else no null outpoint and, unless
  they are coinstakes, no empty output.
\<close>

theorem check_transaction_accepts: "CheckTransaction tx = Inr () \<longleftrightarrow> tx_valid tx"
  by (rule CheckTransaction_iff)

text \<open>
  \<open>AreInputsStandard\<close> answers with the first pay-to-script-hash input whose redeem script is of no
  known type and has at most 15 signature operations: the inputs after it are not looked at,
  whatever they are.
\<close>

theorem standard_inputs_stop_early:
  assumes "\<not> IsCoinBase tx" "vin tx = txin # rest" "odd_redeem_script run mapInputs 0 txin"
  shows "AreInputsStandard run tx mapInputs = Inr True"
  using assms inputs_standard_stops by (simp add: AreInputsStandard_def)

definition p2sh_prev :: "script \<Rightarrow> CTransaction" where
  "p2sh_prev s = \<lparr>tx_nVersion = 1, tx_nTime = 0, vin = [],
     vout = [\<lparr>nValue = 5, nRounds = - 10, scriptPubKey = s\<rparr>], nLockTime = 0, tx_nDoS = 0\<rparr>"

lemma standard_inputs_stop_early_witness:
  "AreInputsStandard (\<lambda>i s. Some [[0x51]])
     (p2sh_prev []\<lparr>vin := [mk_txin \<lparr>op_hash = 1, op_n = 0\<rparr> [] 0, mk_txin \<lparr>op_hash = 9, op_n = 0\<rparr> [] 0]\<rparr>)
     [1 \<mapsto> (txindex_null, p2sh_prev ([0xa9, 0x14] @ replicate 20 3 @ [0x87]))] = Inr True"
proof (rule standard_inputs_stop_early)
  show "\<not> IsCoinBase (p2sh_prev []\<lparr>vin := [mk_txin \<lparr>op_hash = 1, op_n = 0\<rparr> [] 0, mk_txin \<lparr>op_hash = 9, op_n = 0\<rparr> [] 0]\<rparr>)"
    by (simp add: IsCoinBase_def p2sh_prev_def)
  show "vin (p2sh_prev []\<lparr>vin := [mk_txin \<lparr>op_hash = 1, op_n = 0\<rparr> [] 0, mk_txin \<lparr>op_hash = 9, op_n = 0\<rparr> [] 0]\<rparr>) =
      mk_txin \<lparr>op_hash = 1, op_n = 0\<rparr> [] 0 # [mk_txin \<lparr>op_hash = 9, op_n = 0\<rparr> [] 0]" by simp
  have s: "Solver ([0xa9, 0x14] @ replicate 20 3 @ [0x87]) = (True, TX_SCRIPTHASH, [replicate 20 3])" by code_simp
  have n: "\<not> fst (Solver [0x51])" by code_simp
  have c: "GetSigOpCount True [0x51] \<le> MAX_P2SH_SIGOPS" by code_simp
  show "odd_redeem_script (\<lambda>i s. Some [[0x51]])
      [1 \<mapsto> (txindex_null, p2sh_prev ([0xa9, 0x14] @ replicate 20 3 @ [0x87]))] 0 (mk_txin \<lparr>op_hash = 1, op_n = 0\<rparr> [] 0)"
    unfolding odd_redeem_script_def
    by (intro exI[of _ "\<lparr>nValue = 5, nRounds = - 10, scriptPubKey = [0xa9, 0x14] @ replicate 20 3 @ [0x87]\<rparr>"]
        exI[of _ "[replicate 20 3]"] exI[of _ "[0x51]"] exI[of _ "[]"])
      (use s n c in \<open>simp add: GetOutputFor_def p2sh_prev_def mk_txin_def\<close>)
qed

end
