(* ===== verification/Block.thy ===== *)
theory Block
  imports Core
begin

text \<open>
  The class \<open>CBlock\<close> of \<open>src/src/main.h\<close>: the block record with its header
  predicates and serialised forms, and the Merkle tree (\<open>BuildMerkleTree\<close>,
  \<open>GetMerkleBranch\<close>, \<open>CheckMerkleBranch\<close>) in the array layout of the code,
  shown to implement the level-by-level tree.  \<open>H\<close> (double SHA-256) and \<open>H9\<close>
  (\<open>Hash9\<close>) are parameters.
\<close>

section \<open>Blocks\<close>

record CBlock =
  blk_nVersion :: uint32
  hashPrevBlock :: uint256
  hashMerkleRoot :: uint256
  blk_nTime :: uint32
  nBits :: uint32
  nNonce :: uint32
  vtx :: "CTransaction list"
  vchBlockSig :: bytes
  vMerkleTree :: "uint256 list"
  blk_nDoS :: uint32

definition block_null :: CBlock where
  "block_null =
     \<lparr>blk_nVersion = 7, hashPrevBlock = 0, hashMerkleRoot = 0, blk_nTime = 0, nBits = 0,
      nNonce = 0, vtx = [], vchBlockSig = [], vMerkleTree = [], blk_nDoS = 0\<rparr>"

definition block_IsNull :: "CBlock \<Rightarrow> bool" where
  "block_IsNull b \<longleftrightarrow> nBits b = 0"

definition block_header :: "CBlock \<Rightarrow> bytes" where
  "block_header b =
     write_word 4 (blk_nVersion b) @ write_word 32 (hashPrevBlock b) @
     write_word 32 (hashMerkleRoot b) @ write_word 4 (blk_nTime b) @
     write_word 4 (nBits b) @ write_word 4 (nNonce b)"

text \<open>\<open>BEGIN(nVersion)\<close> to \<open>END(nNonce)\<close> are the 80 bytes of the header.\<close>

definition block_GetPoWHash :: "(bytes \<Rightarrow> uint256) \<Rightarrow> CBlock \<Rightarrow> uint256" where
  "block_GetPoWHash H9 b = H9 (block_header b)"

definition block_GetHash :: "(bytes \<Rightarrow> uint256) \<Rightarrow> (bytes \<Rightarrow> uint256) \<Rightarrow> CBlock \<Rightarrow> uint256" where
  "block_GetHash H H9 b =
     (if sint (blk_nVersion b) > 6 then H (block_header b) else block_GetPoWHash H9 b)"

definition block_GetBlockTime :: "CBlock \<Rightarrow> int64" where
  "block_GetBlockTime b = ucast (blk_nTime b)"

definition block_GetStakeEntropyBit :: "uint256 \<Rightarrow> uint32" where
  "block_GetStakeEntropyBit hash = ucast ((ucast hash :: uint64) AND 1)"

definition block_IsProofOfStake :: "CBlock \<Rightarrow> bool" where
  "block_IsProofOfStake b \<longleftrightarrow> length (vtx b) > 1 \<and> IsCoinStake (vtx b ! 1)"

definition block_IsProofOfWork :: "CBlock \<Rightarrow> bool" where
  "block_IsProofOfWork b \<longleftrightarrow> \<not> block_IsProofOfStake b"

definition block_GetProofOfStake :: "CBlock \<Rightarrow> COutPoint \<times> uint32" where
  "block_GetProofOfStake b =
     (if block_IsProofOfStake b then (prevout (vin (vtx b ! 1) ! 0), tx_nTime (vtx b ! 1))
      else (outpoint_null, 0))"

definition block_GetMaxTransactionTime :: "CBlock \<Rightarrow> int64" where
  "block_GetMaxTransactionTime b =
     fold (\<lambda>tx m. if sint m < sint (ucast (tx_nTime tx) :: int64) then ucast (tx_nTime tx) else m)
       (vtx b) 0"

section \<open>Serialised forms of a block\<close>

definition SER_NETWORK :: uint32 where "SER_NETWORK = push_bit 0 1"
definition SER_DISK :: uint32 where "SER_DISK = push_bit 1 1"
definition SER_GETHASH :: uint32 where "SER_GETHASH = push_bit 2 1"
definition SER_BLOCKHEADERONLY :: uint32 where "SER_BLOCKHEADERONLY = push_bit 17 1"

definition write_block :: "uint32 \<Rightarrow> CBlock \<Rightarrow> bytes" where
  "write_block nType b =
     block_header b @
     (if nType AND (SER_GETHASH OR SER_BLOCKHEADERONLY) = 0
      then write_vec write_tx (vtx b) @ write_bytevec (vchBlockSig b) else [])"

definition read_header :: "CBlock reader" where
  "read_header s =
     rbind (read_word 4 s) (\<lambda>(ver, s).
     rbind (read_word 32 s) (\<lambda>(prv, s).
     rbind (read_word 32 s) (\<lambda>(mr, s).
     rbind (read_word 4 s) (\<lambda>(t, s).
     rbind (read_word 4 s) (\<lambda>(bits, s).
     rbind (read_word 4 s) (\<lambda>(nonce, s).
       Inr (block_null\<lparr>blk_nVersion := ver, hashPrevBlock := prv, hashMerkleRoot := mr,
              blk_nTime := t, nBits := bits, nNonce := nonce\<rparr>, s)))))))"

definition read_block :: "uint32 \<Rightarrow> CBlock reader" where
  "read_block nType s =
     rbind (read_header s) (\<lambda>(b, s).
       if nType AND (SER_GETHASH OR SER_BLOCKHEADERONLY) = 0 then
         rbind (read_list read_tx s) (\<lambda>(txs, s).
         rbind (read_bytevec s) (\<lambda>(sig, s). Inr (b\<lparr>vtx := txs, vchBlockSig := sig\<rparr>, s)))
       else Inr (b\<lparr>vtx := [], vchBlockSig := []\<rparr>, s))"

definition block_ok :: "uint32 \<Rightarrow> CBlock \<Rightarrow> bool" where
  "block_ok nType b \<longleftrightarrow>
     vMerkleTree b = [] \<and> blk_nDoS b = 0 \<and>
     (if nType AND (SER_GETHASH OR SER_BLOCKHEADERONLY) = 0
      then vec_ok tx_ok (vtx b) \<and> bytevec_ok (vchBlockSig b)
      else vtx b = [] \<and> vchBlockSig b = [])"

lemma read_header_iff:
  "read_header s = Inr (b, t) \<longleftrightarrow>
     vtx b = [] \<and> vchBlockSig b = [] \<and> vMerkleTree b = [] \<and> blk_nDoS b = 0 \<and> s = block_header b @ t"
  by (cases b)
    (auto simp: read_header_def block_header_def block_null_def rbind_Inr_iff u32.rd_iff u256.rd_iff)

lemma block_header_cong:
  "block_header (b\<lparr>vtx := txs, vchBlockSig := sig\<rparr>) = block_header b"
  by (simp add: block_header_def)

lemma read_block_iff:
  "read_block nType s = Inr (b, t) \<longleftrightarrow> block_ok nType b \<and> s = write_block nType b @ t"
proof (cases "nType AND (SER_GETHASH OR SER_BLOCKHEADERONLY) = 0")
  case True
  have "read_block nType s = Inr (b, t) \<longleftrightarrow>
      (\<exists>h s1 txs s2 sig. read_header s = Inr (h, s1) \<and> read_list read_tx s1 = Inr (txs, s2) \<and>
         read_bytevec s2 = Inr (sig, t) \<and> b = h\<lparr>vtx := txs, vchBlockSig := sig\<rparr>)"
    using True by (auto simp: read_block_def rbind_Inr_iff)
  also have "\<dots> \<longleftrightarrow> block_ok nType b \<and> s = write_block nType b @ t" (is "?l \<longleftrightarrow> ?r")
  proof
    assume ?l then show ?r using True
      by (auto simp: read_header_iff txs.vec.rd_iff bytevec.rd_iff block_ok_def write_block_def
          block_header_cong)
  next
    assume ?r
    then show ?l using True
      by (intro exI[of _ "b\<lparr>vtx := [], vchBlockSig := []\<rparr>"] exI[of _ "vtx b"] exI[of _ "vchBlockSig b"] exI)
        (auto simp: read_header_iff txs.vec.rd_iff bytevec.rd_iff block_ok_def write_block_def
          block_header_cong)
  qed
  finally show ?thesis .
next
  case False
  then have "read_block nType s = Inr (b, t) \<longleftrightarrow>
      (\<exists>h. read_header s = Inr (h, t) \<and> b = h\<lparr>vtx := [], vchBlockSig := []\<rparr>)"
    by (auto simp: read_block_def rbind_Inr_iff)
  also have "\<dots> \<longleftrightarrow> read_header s = Inr (b, t)"
  proof -
    have "h\<lparr>vtx := [], vchBlockSig := []\<rparr> = h" if "read_header s = Inr (h, t)" for h
      using that by (cases h) (simp add: read_header_iff)
    then show ?thesis by auto
  qed
  finally show ?thesis using False
    by (auto simp: write_block_def block_ok_def read_header_iff)
qed

interpretation block: canonical_codec "write_block nType" "read_block nType" "block_ok nType" for nType
  by (rule canonical_codecI) (rule read_block_iff)

lemma length_block_header: "length (block_header b) = 80"
  by (simp add: block_header_def)

section \<open>The Merkle tree\<close>

text \<open>The hash of two adjacent nodes.\<close>

definition merkle_node :: "(bytes \<Rightarrow> uint256) \<Rightarrow> uint256 \<Rightarrow> uint256 \<Rightarrow> uint256" where
  "merkle_node H a b = H (word_bytes 32 a @ word_bytes 32 b)"

text \<open>The two loops of \<open>BuildMerkleTree\<close> over the array \<open>vMerkleTree\<close>.\<close>

function merkle_row ::
  "(uint256 \<Rightarrow> uint256 \<Rightarrow> uint256) \<Rightarrow> nat \<Rightarrow> nat \<Rightarrow> nat \<Rightarrow> uint256 list \<Rightarrow> uint256 list" where
  "merkle_row h j nSize i tree =
     (if i < nSize then
        (let i2 = min (i + 1) (nSize - 1)
         in merkle_row h j nSize (i + 2) (tree @ [h (tree ! (j + i)) (tree ! (j + i2))]))
      else tree)"
  by auto
termination by (relation "measure (\<lambda>(h, j, nSize, i, tree). nSize - i)") auto

function merkle_rows ::
  "(uint256 \<Rightarrow> uint256 \<Rightarrow> uint256) \<Rightarrow> nat \<Rightarrow> nat \<Rightarrow> uint256 list \<Rightarrow> uint256 list" where
  "merkle_rows h j nSize tree =
     (if nSize > 1 then merkle_rows h (j + nSize) ((nSize + 1) div 2) (merkle_row h j nSize 0 tree)
      else tree)"
  by auto
termination by (relation "measure (\<lambda>(h, j, nSize, tree). nSize)") auto

declare merkle_row.simps [simp del] merkle_rows.simps [simp del]

definition BuildMerkleTree :: "(bytes \<Rightarrow> uint256) \<Rightarrow> CBlock \<Rightarrow> uint256 \<times> CBlock" where
  "BuildMerkleTree H b =
     (let tree = merkle_rows (merkle_node H) 0 (length (vtx b)) (map (tx_GetHash H) (vtx b))
      in (if tree = [] then 0 else last tree, b\<lparr>vMerkleTree := tree\<rparr>))"

function merkle_branch_loop :: "uint256 list \<Rightarrow> nat \<Rightarrow> nat \<Rightarrow> nat \<Rightarrow> uint256 list" where
  "merkle_branch_loop tree j nSize nIndex =
     (if nSize > 1 then
        tree ! (j + min (nIndex XOR 1) (nSize - 1)) #
        merkle_branch_loop tree (j + nSize) ((nSize + 1) div 2) (drop_bit 1 nIndex)
      else [])"
  by auto
termination by (relation "measure (\<lambda>(tree, j, nSize, nIndex). nSize)") auto

declare merkle_branch_loop.simps [simp del]

definition GetMerkleBranch :: "(bytes \<Rightarrow> uint256) \<Rightarrow> nat \<Rightarrow> CBlock \<Rightarrow> uint256 list \<times> CBlock" where
  "GetMerkleBranch H nIndex b =
     (let b = (if vMerkleTree b = [] then snd (BuildMerkleTree H b) else b)
      in (merkle_branch_loop (vMerkleTree b) 0 (length (vtx b)) nIndex, b))"

fun check_branch_loop ::
  "(uint256 \<Rightarrow> uint256 \<Rightarrow> uint256) \<Rightarrow> uint256 \<Rightarrow> uint256 list \<Rightarrow> int \<Rightarrow> uint256" where
  "check_branch_loop h hash [] nIndex = hash"
| "check_branch_loop h hash (otherside # branch) nIndex =
     check_branch_loop h (if nIndex AND 1 \<noteq> 0 then h otherside hash else h hash otherside)
       branch (drop_bit 1 nIndex)"

definition CheckMerkleBranch ::
  "(bytes \<Rightarrow> uint256) \<Rightarrow> uint256 \<Rightarrow> uint256 list \<Rightarrow> int \<Rightarrow> uint256" where
  "CheckMerkleBranch H hash vMerkleBranch nIndex =
     (if nIndex = - 1 then 0 else check_branch_loop (merkle_node H) hash vMerkleBranch nIndex)"

subsection \<open>The tree level by level\<close>

fun pair_up :: "('a \<Rightarrow> 'a \<Rightarrow> 'a) \<Rightarrow> 'a list \<Rightarrow> 'a list" where
  "pair_up h (x # y # zs) = h x y # pair_up h zs"
| "pair_up h [x] = [h x x]"
| "pair_up h [] = []"

lemma length_pair_up: "length (pair_up h xs) = (length xs + 1) div 2"
  by (induction h xs rule: pair_up.induct) auto

lemma nth_pair_up:
  "i < (length xs + 1) div 2 \<Longrightarrow>
     pair_up h xs ! i = h (xs ! (2 * i)) (xs ! min (2 * i + 1) (length xs - 1))"
proof (induction h xs arbitrary: i rule: pair_up.induct)
  case (1 h x y zs)
  show ?case
  proof (cases i)
    case (Suc k)
    then have "min (2 * i + 1) (length (x # y # zs) - 1) = Suc (Suc (min (2 * k + 1) (length zs - 1)))"
      using 1(2) by (cases zs) auto
    then show ?thesis using 1 Suc by simp
  qed simp
qed auto

function merkle_root :: "('a \<Rightarrow> 'a \<Rightarrow> 'a) \<Rightarrow> 'a list \<Rightarrow> 'a list" where
  "merkle_root h xs = (if length xs \<le> 1 then xs else merkle_root h (pair_up h xs))"
  by auto
termination by (relation "measure (\<lambda>(h, xs). length xs)") (auto simp: length_pair_up)

declare merkle_root.simps [simp del]

lemma merkle_row_eq:
  assumes "length tree = j + nSize + i div 2" "even i" "take nSize (drop j tree) = xs"
    "length xs = nSize" "i \<le> nSize + 1"
    "drop (j + nSize) tree = take (i div 2) (pair_up h xs)"
  shows "merkle_row h j nSize i tree = take (j + nSize) tree @ pair_up h xs"
  using assms
proof (induction h j nSize i tree rule: merkle_row.induct)
  case (1 h j nSize i tree)
  show ?case
  proof (cases "i < nSize")
    case True
    define k where "k = i div 2"
    have i: "i = 2 * k" using 1 by (simp add: k_def)
    have k: "k < (length xs + 1) div 2" using True 1 i by linarith
    have nx: "tree ! (j + m) = xs ! m" if "m < nSize" for m
      using that 1(2,4) by auto
    have "min (i + 1) (nSize - 1) < nSize" using True by simp
    from nx[OF this] nx[OF True]
    have node: "h (tree ! (j + i)) (tree ! (j + min (i + 1) (nSize - 1))) = pair_up h xs ! k"
      using nth_pair_up[OF k, of h] i 1(5) by simp
    have new: "take nSize (drop j (tree @ [v])) = xs"
      "take (j + nSize) (tree @ [v]) = take (j + nSize) tree" for v
      using 1(2,4) by auto
    have d: "drop (j + nSize) (tree @ [pair_up h xs ! k]) = take ((i + 2) div 2) (pair_up h xs)"
      using 1(2,7) k by (simp add: i take_Suc_conv_app_nth length_pair_up)
    have "merkle_row h j nSize i tree
        = merkle_row h j nSize (i + 2) (tree @ [pair_up h xs ! k])"
      by (subst merkle_row.simps) (simp only: Let_def node True if_True)
    also have "\<dots> = take (j + nSize) (tree @ [pair_up h xs ! k]) @ pair_up h xs"
      using 1(1)[OF True refl] node 1 True d new by (auto simp: Let_def)
    finally show ?thesis using new by simp
  next
    case False
    then have "i div 2 = (nSize + 1) div 2" using 1 by (auto elim!: evenE)
    then have "drop (j + nSize) tree = pair_up h xs"
      using 1 by (simp add: length_pair_up)
    then show ?thesis using False
      by (subst merkle_row.simps) (metis append_take_drop_id)
  qed
qed

lemma merkle_row_level:
  assumes "length tree = j + nSize" "drop j tree = xs"
  shows "merkle_row h j nSize 0 tree = tree @ pair_up h xs"
  using merkle_row_eq[of tree j nSize 0 xs h] assms by auto

lemma merkle_rows_prefix:
  "length tree = j + nSize \<Longrightarrow> \<exists>ys. merkle_rows h j nSize tree = tree @ ys"
proof (induction h j nSize tree rule: merkle_rows.induct)
  case (1 h j nSize tree)
  show ?case
  proof (cases "nSize > 1")
    case True
    have r: "merkle_row h j nSize 0 tree = tree @ pair_up h (drop j tree)"
      using 1(2) by (intro merkle_row_level) auto
    have "\<exists>ys. merkle_rows h (j + nSize) ((nSize + 1) div 2) (merkle_row h j nSize 0 tree)
        = merkle_row h j nSize 0 tree @ ys"
      using 1(1)[OF True] 1(2) by (simp add: r length_pair_up)
    then show ?thesis using True r by (subst merkle_rows.simps) auto
  next
    case False
    then show ?thesis by (subst merkle_rows.simps) auto
  qed
qed

lemma merkle_rows_last:
  "length tree = j + nSize \<Longrightarrow> drop j tree = xs \<Longrightarrow> nSize \<noteq> 0 \<Longrightarrow>
     [last (merkle_rows h j nSize tree)] = merkle_root h xs"
proof (induction h j nSize tree arbitrary: xs rule: merkle_rows.induct)
  case (1 h j nSize tree)
  have len: "length xs = nSize" using 1 by auto
  show ?case
  proof (cases "nSize > 1")
    case True
    have r: "merkle_row h j nSize 0 tree = tree @ pair_up h xs"
      using 1 by (intro merkle_row_level) auto
    show ?thesis
      using 1(1)[OF True, of "pair_up h xs"] 1(2) True len
      by (subst merkle_rows.simps, subst merkle_root.simps) (simp add: r length_pair_up)
  next
    case False
    then have "nSize = 1" using 1 by simp
    then obtain x where "xs = [x]" using len by (cases xs) auto
    then show ?thesis using False 1 last_drop[of j tree]
      by (subst merkle_rows.simps, subst merkle_root.simps) (auto simp: \<open>nSize = 1\<close>)
  qed
qed

lemma xor_1_even_odd: "(n::nat) XOR Suc 0 = (if even n then n + 1 else n - 1)"
  by (simp add: xor_Suc_0_eq)

lemma check_branch_level:
  assumes "i < length xs" "length xs > 1"
  shows "(if odd i then h (xs ! min (i XOR 1) (length xs - 1)) (xs ! i)
          else h (xs ! i) (xs ! min (i XOR 1) (length xs - 1))) = pair_up h xs ! (i div 2)"
proof -
  have i: "i div 2 < (length xs + 1) div 2" using assms by linarith
  show ?thesis
  proof (cases "even i")
    case True
    then show ?thesis using nth_pair_up[OF i, of h] assms by (simp add: xor_1_even_odd)
  next
    case False
    then obtain k where k: "i = 2 * k + 1" by (elim oddE)
    then have "min (i XOR 1) (length xs - 1) = 2 * k" using assms by (simp add: xor_1_even_odd)
    then show ?thesis using nth_pair_up[OF i, of h] assms k by simp
  qed
qed

lemma check_branch_tree:
  "length tree = j + nSize \<Longrightarrow> drop j tree = xs \<Longrightarrow> nIndex < nSize \<Longrightarrow>
     [check_branch_loop h (xs ! nIndex)
        (merkle_branch_loop (merkle_rows h j nSize tree) j nSize nIndex) (int nIndex)]
       = merkle_root h xs"
proof (induction h j nSize tree arbitrary: xs nIndex rule: merkle_rows.induct)
  case (1 h j nSize tree)
  have len: "length xs = nSize" using 1 by auto
  show ?case
  proof (cases "nSize > 1")
    case True
    have r: "merkle_row h j nSize 0 tree = tree @ pair_up h xs"
      using 1 by (intro merkle_row_level) auto
    have rows: "merkle_rows h j nSize tree
        = merkle_rows h (j + nSize) ((nSize + 1) div 2) (tree @ pair_up h xs)"
      using True by (subst merkle_rows.simps) (simp add: r)
    obtain ys where ys: "merkle_rows h (j + nSize) ((nSize + 1) div 2) (tree @ pair_up h xs)
        = (tree @ pair_up h xs) @ ys"
      using merkle_rows_prefix[of "tree @ pair_up h xs" "j + nSize" "(nSize + 1) div 2" h] 1 len
      by (auto simp: length_pair_up)
    define full where "full = merkle_rows h (j + nSize) ((nSize + 1) div 2) (tree @ pair_up h xs)"
    define i2 where "i2 = min (nIndex XOR 1) (nSize - 1)"
    have "i2 < nSize" using True by (simp add: i2_def)
    then have other: "full ! (j + i2) = xs ! i2"
      unfolding full_def ys using 1(2,3) by (auto simp: nth_append)
    have br: "merkle_branch_loop full j nSize nIndex
        = xs ! i2 # merkle_branch_loop full (j + nSize) ((nSize + 1) div 2) (nIndex div 2)"
      using True other by (subst merkle_branch_loop.simps) (simp add: i2_def drop_bit_Suc)
    have bit: "int nIndex AND 1 \<noteq> 0 \<longleftrightarrow> odd nIndex" by (simp add: and_one_eq mod_2_eq_odd)
    have half: "drop_bit 1 (int nIndex) = int (nIndex div 2)" by (simp add: drop_bit_Suc zdiv_int)
    have lvl: "(if odd nIndex then h (xs ! i2) (xs ! nIndex) else h (xs ! nIndex) (xs ! i2))
        = pair_up h xs ! (nIndex div 2)"
      using check_branch_level[of nIndex xs h, unfolded len, OF 1(4) True] by (simp only: i2_def)
    have step: "check_branch_loop h (xs ! nIndex) (merkle_branch_loop full j nSize nIndex) (int nIndex)
      = check_branch_loop h (pair_up h xs ! (nIndex div 2))
         (merkle_branch_loop full (j + nSize) ((nSize + 1) div 2) (nIndex div 2)) (int (nIndex div 2))"
      by (simp only: br check_branch_loop.simps bit half lvl)
    have "[check_branch_loop h (pair_up h xs ! (nIndex div 2))
         (merkle_branch_loop full (j + nSize) ((nSize + 1) div 2) (nIndex div 2)) (int (nIndex div 2))]
        = merkle_root h (pair_up h xs)"
      using 1(1)[OF True, of "pair_up h xs" "nIndex div 2"] 1(2,4) len True
      by (simp add: r length_pair_up full_def)
    then show ?thesis using True len
      by (subst merkle_root.simps) (simp only: rows full_def[symmetric] step, simp)
  next
    case False
    then have "nSize = 1" "nIndex = 0" using 1 by auto
    then obtain x where "xs = [x]" using len by (cases xs) auto
    then show ?thesis using False \<open>nIndex = 0\<close>
      by (subst merkle_branch_loop.simps, subst merkle_root.simps) simp
  qed
qed

section \<open>Properties\<close>

text \<open>
  A Merkle branch proves membership: for every position of a block, checking the
  branch that \<open>GetMerkleBranch\<close> returns for it, from the hash of the transaction at
  that position, gives the root \<open>BuildMerkleTree\<close> computes; and building the tree
  leaves the rest of the block as it was.
\<close>

theorem merkle_branch_checks:
  assumes "nIndex < length (vtx b)" "vMerkleTree b = []"
  shows "CheckMerkleBranch H (tx_GetHash H (vtx b ! nIndex)) (fst (GetMerkleBranch H nIndex b)) (int nIndex)
      = fst (BuildMerkleTree H b)
    \<and> snd (GetMerkleBranch H nIndex b) = snd (BuildMerkleTree H b)"
proof -
  let ?xs = "map (tx_GetHash H) (vtx b)"
  let ?tree = "merkle_rows (merkle_node H) 0 (length (vtx b)) ?xs"
  have ne: "?tree \<noteq> []"
    using merkle_rows_prefix[of ?xs 0 "length (vtx b)" "merkle_node H"] assms(1) by auto
  have "vtx b \<noteq> []" using assms(1) by auto
  then have "[check_branch_loop (merkle_node H) (?xs ! nIndex)
      (merkle_branch_loop ?tree 0 (length (vtx b)) nIndex) (int nIndex)] = [last ?tree]"
    using check_branch_tree[of ?xs 0 "length (vtx b)" ?xs nIndex "merkle_node H"]
      merkle_rows_last[of ?xs 0 "length (vtx b)" ?xs "merkle_node H"] assms(1) by simp
  then show ?thesis using assms ne
    by (simp add: CheckMerkleBranch_def GetMerkleBranch_def BuildMerkleTree_def Let_def)
qed

lemma merkle_branch_checks_witness:
  "let tx = (\<lambda>n. (tx_SetNull n));
       b = block_null\<lparr>vtx := [tx 1, tx 2, tx 3]\<rparr>
   in CheckMerkleBranch bytes_word (tx_GetHash bytes_word (tx 3))
        (fst (GetMerkleBranch bytes_word 2 b)) 2 = fst (BuildMerkleTree bytes_word b)"
  using merkle_branch_checks[of 2 "block_null\<lparr>vtx := [tx_SetNull 1, tx_SetNull 2, tx_SetNull 3]\<rparr>" bytes_word]
  by (simp add: block_null_def)

text \<open>
  C30.  Blocks are parsed canonically: for the serialisation flags \<open>nType\<close>, a byte
  string parses to the block \<open>b\<close> with \<open>t\<close> left over exactly if it is the
  serialised form of \<open>b\<close> followed by \<open>t\<close>.  In particular parsing inverts
  writing, and no other byte string stands for the same block.
\<close>

theorem block_parse_iff:
  "read_block nType s = Inr (b, t) \<longleftrightarrow> block_ok nType b \<and> s = write_block nType b @ t"
  by (rule block.rd_iff)

end
