(* ===== verification/Target.thy ===== *)
theory Target
  imports Bignum "HOL-Library.Signed_Division"
begin

text \<open>
  Proof-of-work targets: the compact form of a target (\<open>src/src/bignum.h\<close>) read back, and
  \<open>CheckProofOfWork\<close>, \<open>GetBlockTrust\<close> and the arithmetic of \<open>GetNextTargetRequired\<close> of
  \<open>src/src/main.cpp\<close>.  A \<open>CBigNum\<close> is an integer; division truncates as \<open>BN_div\<close> does.
\<close>

section \<open>Machine integers from big integers\<close>

definition bignum_low_bytes :: "(int \<Rightarrow> bytes) \<Rightarrow> nat \<Rightarrow> int \<Rightarrow> bytes" where
  "bignum_low_bytes bn2mpi nbytes n =
     (let vch = bn2mpi n;
          vch = (if length vch > 4 then vch[4 := vch ! 4 AND 0x7f] else vch)
      in take nbytes (rev (drop 4 vch)))"

definition bignum_getuint256 :: "(int \<Rightarrow> bytes) \<Rightarrow> int \<Rightarrow> uint256" where
  "bignum_getuint256 bn2mpi n = bytes_word (bignum_low_bytes bn2mpi 32 n)"

definition bignum_getuint64 :: "(int \<Rightarrow> bytes) \<Rightarrow> int \<Rightarrow> uint64" where
  "bignum_getuint64 bn2mpi n = bytes_word (bignum_low_bytes bn2mpi 8 n)"

lemma le_val_take: "le_val (take k v) = le_val v mod 256 ^ k"
proof (cases "k \<le> length v")
  case True
  have "le_val v = le_val (take k v) + 256 ^ k * le_val (drop k v)"
    using True by (metis append_take_drop_id le_val_append length_take min.absorb2)
  moreover have "le_val (take k v) < 256 ^ k" using le_val_less[of "take k v"] True by simp
  ultimately show ?thesis by simp
next
  case False
  then have "256 ^ length v \<le> (256 :: nat) ^ k" by (intro power_increasing) auto
  then have "le_val v < 256 ^ k" using le_val_less[of v] by linarith
  then show ?thesis using False by simp
qed

lemma length_mpi_length [simp]: "length (mpi_length n) = 4"
  by (simp add: mpi_length_def)

lemma sm_val_abs: "v \<noteq> [] \<Longrightarrow> nat \<bar>sm_val v\<bar> = sm_mag v"
  by (simp add: sm_val_eq)

lemma bignum_low_bytes_val:
  assumes "mpi_documented bn2mpi mpi2bn"
  shows "le_val (bignum_low_bytes bn2mpi nbytes n) = nat \<bar>n\<bar> mod 256 ^ nbytes"
proof -
  obtain body where b: "bn2mpi n = mpi_length (length body) @ body" "sm_val (rev body) = n"
    using assms by (auto simp: mpi_documented_def)
  show ?thesis
  proof (cases body)
    case Nil
    then show ?thesis using b by (simp add: bignum_low_bytes_def sm_val_def)
  next
    case (Cons x xs)
    have "bignum_low_bytes bn2mpi nbytes n = take nbytes (rev xs @ [x AND 0x7f])"
      by (simp add: bignum_low_bytes_def b Cons list_update_append nth_append Let_def)
    moreover have "le_val (rev xs @ [x AND 0x7f]) = sm_mag (rev body)"
      by (simp add: Cons sm_mag_def)
    moreover have "sm_mag (rev body) = nat \<bar>n\<bar>" using b sm_val_abs[of "rev body"] Cons by simp
    ultimately show ?thesis by (simp only: le_val_take)
  qed
qed

lemma mpi_getuint256:
  assumes "mpi_documented bn2mpi mpi2bn"
  shows "bignum_getuint256 bn2mpi n = word_of_int \<bar>n\<bar>"
proof -
  have "(256 :: nat) ^ 32 = 2 ^ 256" by simp
  then have "bignum_getuint256 bn2mpi n = word_of_nat (nat \<bar>n\<bar> mod 2 ^ 256)"
    by (simp only: bignum_getuint256_def bytes_word_def bignum_low_bytes_val[OF assms])
  also have "\<dots> = (word_of_nat (nat \<bar>n\<bar>) :: uint256)"
    by (rule word_unat_eq_iff[THEN iffD2]) (simp add: unsigned_of_nat take_bit_eq_mod del: of_nat_nat)
  finally show ?thesis by simp
qed

section \<open>The compact form\<close>

lemma compact_fields:
  fixes l b0 b1 b2 :: byte
  defines "c \<equiv> push_bit 24 (ucast l :: uint32) OR push_bit 16 (ucast b0) OR push_bit 8 (ucast b1) OR ucast b2"
  shows "drop_bit 24 c = ucast l" "ucast (drop_bit 16 c AND 0xff) = b0"
    "ucast (drop_bit 8 c AND 0xff) = b1" "ucast (c AND 0xff) = b2"
proof -
  have m: "(0xff :: uint32) = mask 8" by (simp add: mask_eq_exp_minus_1)
  have hi: "\<not> bit b k" if "8 \<le> k" for b :: byte and k
    using that bit_imp_le_length[of b k] by auto
  show "drop_bit 24 c = ucast l"
    by (rule bit_word_eqI) (auto simp: c_def bit_simps hi dest: bit_imp_le_length)
  show "ucast (drop_bit 16 c AND 0xff) = b0" "ucast (drop_bit 8 c AND 0xff) = b1" "ucast (c AND 0xff) = b2"
    unfolding m by (rule bit_word_eqI; auto simp: c_def bit_simps hi)+
qed

text \<open>The vector that \<open>SetCompact\<close> fills.\<close>

lemma compact_vector:
  "(let vch = replicate (4 + m) 0; vch = vch[3 := l];
        vch = (if m \<ge> 1 then vch[4 := b0] else vch);
        vch = (if m \<ge> 2 then vch[5 := b1] else vch);
        vch = (if m \<ge> 3 then vch[6 := b2] else vch)
    in vch) = [0, 0, 0, l :: byte] @ take m [b0, b1, b2] @ replicate (m - 3) 0"
proof -
  have n: "4 + m = Suc (Suc (Suc (Suc m)))" "(3 :: nat) = Suc (Suc (Suc 0))" "(2 :: nat) = Suc (Suc 0)"
    "(4 :: nat) = Suc (Suc (Suc (Suc 0)))" "(5 :: nat) = Suc (Suc (Suc (Suc (Suc 0))))"
    "(6 :: nat) = Suc (Suc (Suc (Suc (Suc (Suc 0)))))" by simp_all
  consider "m = 0" | "m = Suc 0" | "m = Suc (Suc 0)" | k where "m = Suc (Suc (Suc k))"
    by (cases m; cases "m - 1"; cases "m - 2") auto
  then show ?thesis by cases (simp_all add: n Let_def)
qed

text \<open>Reading a compact form keeps the three leading bytes, the rest is zero.\<close>

lemma SetCompact_GetCompact_bytes:
  assumes d: "mpi_documented bn2mpi mpi2bn"
    and b: "bn2mpi n = mpi_length (length body) @ body" and len: "length body < 256"
  shows "bignum_SetCompact mpi2bn (bignum_GetCompact bn2mpi n) =
    sm_val (replicate (length body - 3) 0 @ rev (take 3 body))"
proof -
  define l :: byte where "l = word_of_nat (length body)"
  define B :: "nat \<Rightarrow> byte" where "B i = (if i < length body then body ! i else 0)" for i
  have ul: "unat l = length body" using len by (simp add: l_def unsigned_of_nat take_bit_nat_eq_self)
  have of: "(of_nat (length body) :: uint32) = ucast l"
    using len by (simp add: l_def word_unat_eq_iff unsigned_of_nat unat_ucast_mod take_bit_nat_eq_self)
  have "le_bytes (Suc (Suc (Suc (Suc 0)))) (length body) = [l, 0, 0, 0]"
    using len by (simp add: l_def)
  moreover have "Suc (Suc (Suc (Suc 0))) = 4" by simp
  ultimately have ml: "mpi_length (length body) = [0, 0, 0, l]"
    unfolding mpi_length_def by (simp only: rev.simps append.simps)
  have c: "bignum_GetCompact bn2mpi n =
      push_bit 24 (ucast l) OR push_bit 16 (ucast (B 0)) OR push_bit 8 (ucast (B 1)) OR ucast (B 2)"
    unfolding bignum_GetCompact_def b Let_def
    by (auto simp: of[symmetric] B_def nth_append not_le less_Suc_eq numeral_3_eq_3 numeral_2_eq_2 or.assoc)
  note f = compact_fields[of l "B 0" "B 1" "B 2", folded c]
  have tk: "take (length body) [B 0, B 1, B 2] = take 3 body"
    by (rule nth_equalityI) (auto simp: B_def less_Suc_eq nth_Cons' numeral_3_eq_3 numeral_2_eq_2)
  have u: "unat (ucast l :: uint32) = length body" "word_of_nat (length body) = l"
    using len by (simp add: ul unat_ucast_mod, simp add: l_def)
  have v: "bignum_SetCompact mpi2bn (bignum_GetCompact bn2mpi n) =
      mpi2bn (mpi_length (length body) @ take 3 body @ replicate (length body - 3) 0)"
    unfolding bignum_SetCompact_def f u ml Let_def
    by (simp only: compact_vector[unfolded Let_def] tk append.simps)
  have "mpi2bn (mpi_length (length body') @ body') = sm_val (rev body')" if "length body' < 2 ^ 32" for body'
    using d that by (auto simp: mpi_documented_def)
  note this[of "take 3 body @ replicate (length body - 3) 0"]
  moreover have "length (take 3 body @ replicate (length body - 3) (0 :: byte)) = length body" by simp
  ultimately show ?thesis using v len by (simp only: rev_append rev_replicate) simp
qed

text \<open>The number of low bytes a compact form drops, and what is left of a number.\<close>

definition compact_drop :: "int \<Rightarrow> nat" where
  "compact_drop n = length (scriptnum_serialize n) - 3"

definition compact_trunc :: "int \<Rightarrow> int" where
  "compact_trunc n = n div 256 ^ compact_drop n * 256 ^ compact_drop n"

lemma le_val_replicate_0: "le_val (replicate k 0 @ v) = 256 ^ k * le_val v"
  by (induction k) auto

lemma SetCompact_GetCompact:
  assumes d: "mpi_documented bn2mpi mpi2bn" and n: "0 \<le> n" "length (scriptnum_serialize n) < 256"
  shows "bignum_SetCompact mpi2bn (bignum_GetCompact bn2mpi n) = compact_trunc n"
proof -
  obtain body where b: "bn2mpi n = mpi_length (length body) @ body" "sm_val (rev body) = n" "sm_minimal (rev body)"
    using d by (auto simp: mpi_documented_def)
  have ser: "rev body = scriptnum_serialize n"
    by (rule sm_unique) (simp_all add: b serialize_minimal serialize_val)
  then have len: "length body = length (scriptnum_serialize n)" by (metis length_rev)
  let ?k = "length body - 3"
  have "bignum_SetCompact mpi2bn (bignum_GetCompact bn2mpi n) = sm_val (replicate ?k 0 @ rev (take 3 body))"
    by (rule SetCompact_GetCompact_bytes[OF d b(1)]) (simp add: len n)
  also have "\<dots> = n div 256 ^ ?k * 256 ^ ?k"
  proof (cases body)
    case Nil
    then show ?thesis using b by (simp add: sm_val_def)
  next
    case (Cons x xs)
    have x: "unat x < 128"
    proof (rule ccontr)
      assume "\<not> unat x < 128"
      then have "n = - int (sm_mag (rev body))" using b(2) Cons by (simp add: sm_val_eq)
      moreover have "0 < sm_mag (rev body)" using sm_mag_bounds(3)[OF _ b(3)] Cons by simp
      ultimately show False using n by simp
    qed
    then have lx: "x AND 0x80 = 0" by (simp add: and_80_eq_0_iff)
    have nv: "n = int (le_val (rev body))" using b(2) lx Cons by (simp add: sm_val_def)
    have "rev body = rev (drop 3 body) @ rev (take 3 body)"
      by (metis append_take_drop_id rev_append)
    then have split: "le_val (rev body) = le_val (rev (drop 3 body)) + 256 ^ ?k * le_val (rev (take 3 body))"
      by (metis le_val_append length_rev length_drop)
    moreover have "le_val (rev (drop 3 body)) < 256 ^ ?k"
      using le_val_less[of "rev (drop 3 body)"] by simp
    ultimately have "le_val (rev body) div 256 ^ ?k = le_val (rev (take 3 body))" by simp
    then have nd: "n div 256 ^ ?k = int (le_val (rev (take 3 body)))"
      unfolding nv by (metis of_nat_numeral of_nat_power zdiv_int)
    have last: "last (rev (take 3 body)) = x" and ne: "rev (take 3 body) \<noteq> []" using Cons by simp_all
    have "sm_val (replicate ?k 0 @ rev (take 3 body)) = int (256 ^ ?k * le_val (rev (take 3 body)))"
      using last ne lx by (simp add: sm_val_def le_val_replicate_0)
    then show ?thesis unfolding nd by simp
  qed
  finally show ?thesis by (simp add: compact_trunc_def compact_drop_def len)
qed

lemma serialize_mag:
  assumes "0 < n"
  shows "256 ^ (length (scriptnum_serialize n) - 1) \<le> 2 * n" "length (scriptnum_serialize n) > 0"
proof -
  let ?v = "scriptnum_serialize n"
  have v: "sm_val ?v = n" by (rule serialize_val)
  then have ne: "?v \<noteq> []" using assms by (auto simp: sm_val_def)
  have "nat n = sm_mag ?v" using sm_val_abs[OF ne] v assms by simp
  then have "256 ^ (length ?v - 1) \<le> 2 * nat n" using sm_mag_bounds(1)[OF ne serialize_minimal] by simp
  then have "int (256 ^ (length ?v - 1)) \<le> int (2 * nat n)" by (simp only: of_nat_le_iff)
  then show "256 ^ (length ?v - 1) \<le> 2 * n" using assms by simp
  show "length ?v > 0" using ne by simp
qed

lemma serialize_length_256:
  assumes "0 \<le> n" "n < 2 ^ 256"
  shows "length (scriptnum_serialize n) < 256"
proof (cases "n = 0")
  case True
  then show ?thesis by (simp add: scriptnum_serialize_def)
next
  case False
  then have "256 ^ (length (scriptnum_serialize n) - 1) \<le> 2 * n" using assms by (intro serialize_mag) simp
  also have "2 * n < 256 ^ 33" using assms(2) by simp
  finally have "length (scriptnum_serialize n) - 1 < 33" by (rule power_less_imp_less_exp[rotated]) simp
  then show ?thesis by simp
qed

lemma compact_trunc_bounds:
  assumes "0 < n"
  shows "0 < compact_trunc n" "compact_trunc n \<le> n"
proof -
  let ?L = "length (scriptnum_serialize n)" and ?k = "compact_drop n"
  have "0 \<le> n mod 256 ^ ?k" by simp
  then show "compact_trunc n \<le> n"
    unfolding compact_trunc_def using div_mult_mod_eq[of n "256 ^ ?k"] by linarith
  have "256 ^ ?k \<le> n"
  proof (cases "?L \<le> 3")
    case True
    then show ?thesis using assms by (simp add: compact_drop_def)
  next
    case False
    then have "?L - 1 = ?k + 2" by (simp add: compact_drop_def)
    then have "256 ^ ?k * 65536 \<le> 2 * n" using serialize_mag(1)[OF assms] by (simp add: power_add)
    moreover have "(0 :: int) < 256 ^ ?k" by simp
    ultimately show ?thesis by linarith
  qed
  then have "0 < n div 256 ^ ?k" by (simp add: pos_imp_zdiv_pos_iff)
  then show "0 < compact_trunc n" by (simp add: compact_trunc_def)
qed

section \<open>Proof of work\<close>

definition CheckProofOfWork :: "(int \<Rightarrow> bytes) \<Rightarrow> (bytes \<Rightarrow> int) \<Rightarrow> int \<Rightarrow> uint256 \<Rightarrow> uint32 \<Rightarrow> bool" where
  "CheckProofOfWork bn2mpi mpi2bn ProofOfWorkLimit hash nBits =
     (let bnTarget = bignum_SetCompact mpi2bn nBits
      in if bnTarget \<le> 0 \<or> bnTarget > ProofOfWorkLimit then False
         else if hash > bignum_getuint256 bn2mpi bnTarget then False
         else True)"

definition GetBlockTrust :: "(int \<Rightarrow> bytes) \<Rightarrow> (bytes \<Rightarrow> int) \<Rightarrow> uint32 \<Rightarrow> uint256" where
  "GetBlockTrust bn2mpi mpi2bn nBits =
     (let bnTarget = bignum_SetCompact mpi2bn nBits
      in if bnTarget \<le> 0 then 0
         else bignum_getuint256 bn2mpi (push_bit 256 1 sdiv (bnTarget + 1)))"

lemma CheckProofOfWork_iff:
  assumes "mpi_documented bn2mpi mpi2bn" "limit < 2 ^ 256"
  shows "CheckProofOfWork bn2mpi mpi2bn limit hash nBits \<longleftrightarrow>
    0 < bignum_SetCompact mpi2bn nBits \<and> bignum_SetCompact mpi2bn nBits \<le> limit \<and>
    uint hash \<le> bignum_SetCompact mpi2bn nBits"
proof -
  let ?t = "bignum_SetCompact mpi2bn nBits"
  have "uint (word_of_int \<bar>?t\<bar> :: uint256) = ?t" if "0 < ?t" "?t \<le> limit"
    using that assms(2) by (simp add: unsigned_of_int take_bit_int_eq_self)
  then show ?thesis
    by (auto simp: CheckProofOfWork_def Let_def mpi_getuint256[OF assms(1)] word_le_def word_less_def not_less)
qed

text \<open>The trust of a block is its number of expected attempts, at least one for a target below \<open>2^256\<close>.\<close>

lemma GetBlockTrust_eq:
  assumes "mpi_documented bn2mpi mpi2bn" "0 < bignum_SetCompact mpi2bn nBits"
  shows "uint (GetBlockTrust bn2mpi mpi2bn nBits) = 2 ^ 256 div (bignum_SetCompact mpi2bn nBits + 1)"
proof -
  let ?t = "bignum_SetCompact mpi2bn nBits"
  have q: "(2 ^ 256 :: int) sdiv (?t + 1) = 2 ^ 256 div (?t + 1)"
    using assms(2) by (simp add: signed_divide_int_def)
  have "2 ^ 256 div (?t + 1) < (2 ^ 256 :: int)" using assms(2) by (intro int_div_less_self) auto
  moreover have "0 \<le> 2 ^ 256 div (?t + 1)" using assms(2) by (intro pos_imp_zdiv_nonneg_iff[THEN iffD2]) auto
  ultimately show ?thesis
    using assms(2) q by (simp add: GetBlockTrust_def Let_def mpi_getuint256[OF assms(1)] push_bit_eq_mult
      unsigned_of_int take_bit_int_eq_self del: power_numeral)
qed

text \<open>Library functions that write and read exactly the documented format.\<close>

definition doc_bn2mpi :: "int \<Rightarrow> bytes" where
  "doc_bn2mpi n = (let v = scriptnum_serialize n in mpi_length (length v) @ rev v)"

definition doc_mpi2bn :: "bytes \<Rightarrow> int" where
  "doc_mpi2bn v = sm_val (rev (drop 4 v))"

lemma doc_mpi: "mpi_documented doc_bn2mpi doc_mpi2bn"
  unfolding mpi_documented_def
proof (intro conjI allI impI)
  show "\<exists>body. doc_bn2mpi n = mpi_length (length body) @ body \<and> sm_val (rev body) = n \<and> sm_minimal (rev body)" for n
    by (rule exI[of _ "rev (scriptnum_serialize n)"])
      (simp add: doc_bn2mpi_def Let_def serialize_val serialize_minimal)
qed (simp add: doc_mpi2bn_def)

end
