(* ===== verification/ChainIndex.thy ===== *)
theory ChainIndex
  imports TxIndex Block Target
begin

text \<open>
  The block index and the rules that read it: \<open>CBlockIndex\<close> of \<open>src/src/main.h\<close>, the rewards and
  \<open>GetNextTargetRequired\<close> of \<open>src/src/main.cpp\<close>.  A pointer to a \<open>CBlockIndex\<close> is the list of the
  index and its ancestors, itself first; \<open>NULL\<close> is the empty list.  The fields that change after
  the index is made (\<open>pnext\<close>, \<open>nMint\<close>, \<open>nMoneySupply\<close>) are not in the record.
\<close>

section \<open>The block index\<close>

record CBlockIndex = block_pos +
  bi_hashBlock :: uint256
  bi_nChainTrust :: uint256
  bi_nFlags :: uint32
  bi_nStakeModifier :: uint64
  bi_bnStakeModifierV2 :: uint256
  bi_prevoutStake :: COutPoint
  bi_nStakeTime :: uint32
  bi_hashProof :: uint256
  bi_nVersion :: uint32
  bi_hashMerkleRoot :: uint256
  bi_nTime :: uint32
  bi_nBits :: uint32
  bi_nNonce :: uint32

type_synonym pindex = "CBlockIndex list"

definition BLOCK_PROOF_OF_STAKE :: uint32 where "BLOCK_PROOF_OF_STAKE = push_bit 0 1"
definition BLOCK_STAKE_ENTROPY :: uint32 where "BLOCK_STAKE_ENTROPY = push_bit 1 1"
definition BLOCK_STAKE_MODIFIER :: uint32 where "BLOCK_STAKE_MODIFIER = push_bit 2 1"

definition SetProofOfStake :: "CBlockIndex \<Rightarrow> CBlockIndex" where
  "SetProofOfStake p = p\<lparr>bi_nFlags := bi_nFlags p OR BLOCK_PROOF_OF_STAKE\<rparr>"

definition bi_IsProofOfStake :: "CBlockIndex \<Rightarrow> bool" where
  "bi_IsProofOfStake p \<longleftrightarrow> bi_nFlags p AND BLOCK_PROOF_OF_STAKE \<noteq> 0"

definition bi_IsProofOfWork :: "CBlockIndex \<Rightarrow> bool" where
  "bi_IsProofOfWork p \<longleftrightarrow> \<not> (bi_nFlags p AND BLOCK_PROOF_OF_STAKE \<noteq> 0)"

definition bi_GetStakeEntropyBit :: "CBlockIndex \<Rightarrow> uint32" where
  "bi_GetStakeEntropyBit p = drop_bit 1 (bi_nFlags p AND BLOCK_STAKE_ENTROPY)"

definition SetStakeEntropyBit :: "uint32 \<Rightarrow> CBlockIndex \<Rightarrow> bool \<times> CBlockIndex" where
  "SetStakeEntropyBit nEntropyBit p =
     (if nEntropyBit > 1 then (False, p)
      else (True, p\<lparr>bi_nFlags := bi_nFlags p OR (if nEntropyBit \<noteq> 0 then BLOCK_STAKE_ENTROPY else 0)\<rparr>))"

definition GeneratedStakeModifier :: "CBlockIndex \<Rightarrow> bool" where
  "GeneratedStakeModifier p \<longleftrightarrow> bi_nFlags p AND BLOCK_STAKE_MODIFIER \<noteq> 0"

definition SetStakeModifier :: "uint64 \<Rightarrow> bool \<Rightarrow> CBlockIndex \<Rightarrow> CBlockIndex" where
  "SetStakeModifier nModifier fGenerated p =
     (let p = p\<lparr>bi_nStakeModifier := nModifier\<rparr>
      in if fGenerated then p\<lparr>bi_nFlags := bi_nFlags p OR BLOCK_STAKE_MODIFIER\<rparr> else p)"

text \<open>The index of a new block; \<open>AddToBlockIndex\<close> sets the hash, height and trust.\<close>

definition mk_block_index :: "uint32 \<Rightarrow> uint32 \<Rightarrow> CBlock \<Rightarrow> CBlockIndex" where
  "mk_block_index nFileIn nBlockPosIn block =
     (let p = \<lparr>bp_nFile = nFileIn, bp_nBlockPos = nBlockPosIn, bp_nHeight = 0, bi_hashBlock = 0,
        bi_nChainTrust = 0, bi_nFlags = 0, bi_nStakeModifier = 0, bi_bnStakeModifierV2 = 0,
        bi_prevoutStake = outpoint_null, bi_nStakeTime = 0, bi_hashProof = 0,
        bi_nVersion = blk_nVersion block, bi_hashMerkleRoot = hashMerkleRoot block,
        bi_nTime = blk_nTime block, bi_nBits = nBits block, bi_nNonce = nNonce block\<rparr>
      in if block_IsProofOfStake block then
           (SetProofOfStake p)\<lparr>bi_prevoutStake := prevout (vin (vtx block ! 1) ! 0),
              bi_nStakeTime := tx_nTime (vtx block ! 1)\<rparr>
         else p)"

definition bi_GetBlockTime :: "CBlockIndex \<Rightarrow> int" where
  "bi_GetBlockTime p = int (unat (bi_nTime p))"

definition GetBlockHeader :: "pindex \<Rightarrow> CBlock" where
  "GetBlockHeader p =
     block_null\<lparr>blk_nVersion := bi_nVersion (hd p),
       hashPrevBlock := (if tl p \<noteq> [] then bi_hashBlock (hd (tl p)) else 0),
       hashMerkleRoot := bi_hashMerkleRoot (hd p), blk_nTime := bi_nTime (hd p),
       nBits := bi_nBits (hd p), nNonce := bi_nNonce (hd p)\<rparr>"

definition nMedianTimeSpan :: nat where "nMedianTimeSpan = 11"

definition GetMedianTimePast :: "pindex \<Rightarrow> int" where
  "GetMedianTimePast p =
     (let times = sort (map bi_GetBlockTime (take nMedianTimeSpan p)) in times ! (length times div 2))"

definition GetPastTimeLimit :: "CBlockIndex \<Rightarrow> int" where
  "GetPastTimeLimit p = bi_GetBlockTime p - 600"

section \<open>Rewards\<close>

definition STATIC_REWARD :: int where "STATIC_REWARD = 280 * COIN"
definition TARGET_SPACING :: int where "TARGET_SPACING = 120"
definition STAKE_MIN_CONFIRMATIONS :: int where "STAKE_MIN_CONFIRMATIONS = 370"
definition PREMINE_AMOUNT :: int where "PREMINE_AMOUNT = 11773400"

text \<open>The products with 0.75, 0.50 and 0.25 are exact in floating point.\<close>

definition GetRewardByHeight :: "int \<Rightarrow> int" where
  "GetRewardByHeight nHeight =
     (let YEARLY_BLOCKCOUNT = 263000
      in if nHeight < YEARLY_BLOCKCOUNT then STATIC_REWARD
         else if nHeight < 2 * YEARLY_BLOCKCOUNT then STATIC_REWARD * 3 div 4
         else if nHeight < 3 * YEARLY_BLOCKCOUNT then STATIC_REWARD * 2 div 4
         else if nHeight < 4 * YEARLY_BLOCKCOUNT then STATIC_REWARD * 1 div 4
         else 1 * COIN)"

definition GetProofOfWorkReward :: "int \<Rightarrow> int64 \<Rightarrow> int64" where
  "GetProofOfWorkReward nHeight nFees =
     (let nLastPremineBlock = 2 * STAKE_MIN_CONFIRMATIONS;
          nSubsidy = (if nHeight < nLastPremineBlock + 1
                      then (PREMINE_AMOUNT sdiv nLastPremineBlock) * COIN else 0 * COIN)
      in of_int nSubsidy + nFees)"

definition GetProofOfStakeReward :: "pindex \<Rightarrow> uint64 \<Rightarrow> int64 \<Rightarrow> int64" where
  "GetProofOfStakeReward pindexPrev nCoinAge nFees =
     (let nHeight = bp_nHeight (hd pindexPrev) + 1
      in of_int (GetRewardByHeight nHeight) + nFees)"

lemma GetRewardByHeight_range: "COIN \<le> GetRewardByHeight h \<and> GetRewardByHeight h \<le> STATIC_REWARD"
  by (simp add: GetRewardByHeight_def STATIC_REWARD_def COIN_def)

lemma GetRewardByHeight_antimono: "h \<le> h' \<Longrightarrow> GetRewardByHeight h' \<le> GetRewardByHeight h"
  by (simp add: GetRewardByHeight_def STATIC_REWARD_def COIN_def)

section \<open>The next target\<close>

definition bnProofOfStakeLimit :: int where "bnProofOfStakeLimit = uint (drop_bit 20 (NOT 0) :: uint256)"
definition bnProofOfWorkLimit :: int where "bnProofOfWorkLimit = uint (drop_bit 16 (NOT 0) :: uint256)"

definition GetProofOfStakeLimit :: "int \<Rightarrow> int" where
  "GetProofOfStakeLimit nHeight = bnProofOfStakeLimit"

fun GetLastBlockIndex :: "pindex \<Rightarrow> bool \<Rightarrow> pindex" where
  "GetLastBlockIndex [] fProofOfStake = []"
| "GetLastBlockIndex [p] fProofOfStake = [p]"
| "GetLastBlockIndex (p # pprev # rest) fProofOfStake =
     (if bi_IsProofOfStake p \<noteq> fProofOfStake then GetLastBlockIndex (pprev # rest) fProofOfStake
      else p # pprev # rest)"

definition nTargetTimespan :: int where "nTargetTimespan = 10 * 60"

definition retarget :: "int \<Rightarrow> int \<Rightarrow> int \<Rightarrow> int" where
  "retarget bnTargetLimit bnNew nActualSpacing =
     (let nInterval = nTargetTimespan sdiv TARGET_SPACING;
          bnNew = bnNew * ((nInterval - 1) * TARGET_SPACING + nActualSpacing + nActualSpacing);
          bnNew = bnNew sdiv ((nInterval + 1) * TARGET_SPACING)
      in if bnNew \<le> 0 \<or> bnNew > bnTargetLimit then bnTargetLimit else bnNew)"

text \<open>\<open>None\<close> is the access through \<open>NULL\<close> that the limit for proof of stake makes.\<close>

definition GetNextTargetRequired ::
  "(int \<Rightarrow> bytes) \<Rightarrow> (bytes \<Rightarrow> int) \<Rightarrow> pindex \<Rightarrow> bool \<Rightarrow> uint32 option" where
  "GetNextTargetRequired bn2mpi mpi2bn pindexLast fProofOfStake =
     (if fProofOfStake \<and> pindexLast = [] then None
      else
        let bnTargetLimit = (if fProofOfStake then GetProofOfStakeLimit (bp_nHeight (hd pindexLast)) else bnProofOfWorkLimit)
        in if pindexLast = [] then Some (bignum_GetCompact bn2mpi bnTargetLimit)
           else
             let pindexPrev = GetLastBlockIndex pindexLast fProofOfStake
             in if tl pindexPrev = [] then Some (bignum_GetCompact bn2mpi bnTargetLimit)
                else
                  let pindexPrevPrev = GetLastBlockIndex (tl pindexPrev) fProofOfStake
                  in if tl pindexPrevPrev = [] then Some (bignum_GetCompact bn2mpi bnTargetLimit)
                     else
                       let nActualSpacing = bi_GetBlockTime (hd pindexPrev) - bi_GetBlockTime (hd pindexPrevPrev);
                           nActualSpacing = (if nActualSpacing < 0 then TARGET_SPACING else nActualSpacing)
                       in Some (bignum_GetCompact bn2mpi
                            (retarget bnTargetLimit (bignum_SetCompact mpi2bn (bi_nBits (hd pindexPrev))) nActualSpacing)))"

text \<open>A walk back ends at the last block of the kind, or at the first of the chain.\<close>

lemma GetLastBlockIndex_ne: "p \<noteq> [] \<Longrightarrow> GetLastBlockIndex p f \<noteq> []"
  by (induction p f rule: GetLastBlockIndex.induct) auto

lemma GetLastBlockIndex_drop: "\<exists>k. GetLastBlockIndex p f = drop k p \<and> (\<forall>q \<in> set (take k p). bi_IsProofOfStake q \<noteq> f)"
proof (induction p f rule: GetLastBlockIndex.induct)
  case (3 p pprev rest f)
  show ?case
  proof (cases "bi_IsProofOfStake p \<noteq> f")
    case True
    then obtain k where k: "GetLastBlockIndex (pprev # rest) f = drop k (pprev # rest)"
      "\<forall>q \<in> set (take k (pprev # rest)). bi_IsProofOfStake q \<noteq> f" using 3 by blast
    show ?thesis using True k by (intro exI[of _ "Suc k"]) auto
  qed (auto intro: exI[of _ 0])
qed (auto intro: exI[of _ 0])

lemma GetLastBlockIndex_kind:
  "tl (GetLastBlockIndex p f) \<noteq> [] \<Longrightarrow> bi_IsProofOfStake (hd (GetLastBlockIndex p f)) = f"
  by (induction p f rule: GetLastBlockIndex.induct) auto

definition target_limit :: "bool \<Rightarrow> int" where
  "target_limit f = (if f then bnProofOfStakeLimit else bnProofOfWorkLimit)"

lemma target_limit_val: "target_limit f = (if f then 2 ^ 236 - 1 else 2 ^ 240 - 1)"
proof -
  have "unat (NOT 0 :: uint256) = 2 ^ 256 - 1"
    by (simp add: unsigned_minus_1_eq_mask mask_eq_exp_minus_1)
  then have "int (unat (drop_bit k (NOT 0) :: uint256)) = (2 ^ 256 - 1) div 2 ^ k" for k
    unfolding unat_drop_bit_div by (simp add: zdiv_int)
  then have lim: "uint (drop_bit k (NOT 0) :: uint256) = (2 ^ 256 - 1) div 2 ^ k" for k
    by (metis int_nat_eq uint_nat unsigned_greater_eq)
  show ?thesis unfolding target_limit_def bnProofOfStakeLimit_def bnProofOfWorkLimit_def lim by simp
qed

lemma retarget_bounds: "0 < limit \<Longrightarrow> 0 < retarget limit b s \<and> retarget limit b s \<le> limit"
  by (auto simp: retarget_def Let_def)

text \<open>Blocks at the target spacing keep the target.\<close>

lemma retarget_steady: "0 < b \<Longrightarrow> b \<le> limit \<Longrightarrow> retarget limit b TARGET_SPACING = b"
  by (simp add: retarget_def Let_def nTargetTimespan_def TARGET_SPACING_def signed_divide_int_def)

text \<open>The result, decoded as the next block's check of its work decodes it.\<close>

lemma GetNextTargetRequired_decoded:
  assumes d: "mpi_documented bn2mpi mpi2bn" and p: "p \<noteq> []"
  shows "\<exists>c t. GetNextTargetRequired bn2mpi mpi2bn p f = Some c \<and>
    bignum_SetCompact mpi2bn c = compact_trunc t \<and> 0 < t \<and> t \<le> target_limit f"
proof -
  have lim: "0 < target_limit f" "target_limit f < 2 ^ 256" by (simp_all add: target_limit_val)
  have dec: "bignum_SetCompact mpi2bn (bignum_GetCompact bn2mpi t) = compact_trunc t"
    if "0 < t" "t \<le> target_limit f" for t
    using that lim by (intro SetCompact_GetCompact[OF d] serialize_length_256) auto
  have l: "(if f then GetProofOfStakeLimit (bp_nHeight (hd p)) else bnProofOfWorkLimit) = target_limit f"
    by (simp add: target_limit_def GetProofOfStakeLimit_def)
  have "\<exists>t. GetNextTargetRequired bn2mpi mpi2bn p f = Some (bignum_GetCompact bn2mpi t) \<and>
      0 < t \<and> t \<le> target_limit f"
    unfolding GetNextTargetRequired_def l Let_def using p lim retarget_bounds[OF lim(1)] by auto
  then show ?thesis using dec by blast
qed

section \<open>Properties\<close>

text \<open> C24.
  The target that the next block must meet always exists, is positive and no easier than the limit of
  its kind, however the blocks before it are timed and whatever bits they carry; so the hash 0 passes
  the check of work against it on the main network.
\<close>

theorem next_target_bounds:
  assumes "mpi_documented bn2mpi mpi2bn" "p \<noteq> []"
  shows "\<exists>c. GetNextTargetRequired bn2mpi mpi2bn p f = Some c \<and>
    0 < bignum_SetCompact mpi2bn c \<and> bignum_SetCompact mpi2bn c \<le> target_limit f \<and>
    CheckProofOfWork bn2mpi mpi2bn bnProofOfWorkLimit 0 c"
proof -
  obtain c t where c: "GetNextTargetRequired bn2mpi mpi2bn p f = Some c"
    "bignum_SetCompact mpi2bn c = compact_trunc t" "0 < t" "t \<le> target_limit f"
    using GetNextTargetRequired_decoded[OF assms] by blast
  have b: "0 < compact_trunc t" "compact_trunc t \<le> target_limit f"
    using compact_trunc_bounds[OF c(3)] c(4) by auto
  moreover have "target_limit f \<le> target_limit False" "target_limit False < 2 ^ 256"
    by (simp_all add: target_limit_val)
  ultimately have "CheckProofOfWork bn2mpi mpi2bn (target_limit False) 0 c"
    using c(2) by (simp add: CheckProofOfWork_iff[OF assms(1)])
  then show ?thesis using b c by (auto simp: target_limit_def)
qed

definition demo_index :: "uint32 \<Rightarrow> CBlockIndex" where
  "demo_index t = mk_block_index 1 0 (block_null\<lparr>blk_nTime := t, nBits := 0x1e0fffff\<rparr>)"

lemma next_target_bounds_witness:
  "\<exists>c. GetNextTargetRequired doc_bn2mpi doc_mpi2bn [demo_index 400, demo_index 300, demo_index 100] False = Some c \<and>
    0 < bignum_SetCompact doc_mpi2bn c \<and> bignum_SetCompact doc_mpi2bn c \<le> target_limit False \<and>
    CheckProofOfWork doc_bn2mpi doc_mpi2bn bnProofOfWorkLimit 0 c"
  by (rule next_target_bounds[OF doc_mpi]) simp

end
