(* ===== verification/BlockCheck.thy ===== *)
theory BlockCheck
  imports TxCheck ChainIndex
begin

text \<open>
  The checks of a block by itself, \<open>CheckBlock\<close> and \<open>CheckBlockSignature\<close> of \<open>src/src/main.cpp\<close>.
  What they ask outside is in the record \<open>check_env\<close>: the hash functions, the big integers of
  OpenSSL, the clock, the verification of signatures, the locks of instant transactions and the
  masternode that is to be paid.  A failure is a value of \<open>block_check_error\<close>; \<open>block_dos\<close> is what it
  adds to the penalty of the peer.
\<close>

section \<open>What a check depends on\<close>

record check_env =
  HashBytes :: "bytes \<Rightarrow> uint256"
  Hash9 :: "bytes \<Rightarrow> uint256"
  HashKey :: "bytes \<Rightarrow> uint160"
  bn_bn2mpi :: "int \<Rightarrow> bytes"
  bn_mpi2bn :: "bytes \<Rightarrow> int"
  ProofOfWorkLimit :: int
  VerifyKey :: "bytes \<Rightarrow> uint256 \<Rightarrow> bytes \<Rightarrow> bool"
  AdjustedTime :: int
  InitialBlockDownload :: bool
  InstantXFiltering :: bool
  LockedInputs :: "COutPoint \<rightharpoonup> uint256"
  BlockPayee :: "int \<Rightarrow> script option"
  CurrentMasterNode :: "(pubkey \<times> script) option"
  WalletGracePeriod :: bool
  check_best :: pindex

abbreviation block_hash :: "'a check_env_scheme \<Rightarrow> CBlock \<Rightarrow> uint256" where
  "block_hash E block \<equiv> block_GetHash (HashBytes E) (Hash9 E) block"

definition START_MASTERNODE_PAYMENTS :: uint32 where "START_MASTERNODE_PAYMENTS = 1521072000"
definition MAX_BLOCK_SIGOPS :: nat where "MAX_BLOCK_SIGOPS = MAX_BLOCK_SIZE div 50"

datatype block_check_error =
    K_size | K_work | K_time | K_first_not_coinbase | K_more_coinbases | K_coinbase_not_empty
  | K_no_coinstake | K_more_coinstakes | K_signature | K_locked | K_payee | K_transaction check_error
  | K_tx_time | K_duplicate | K_sigops | K_merkle

fun block_dos :: "block_check_error \<Rightarrow> uint32" where
  "block_dos K_work = 50"
| "block_dos K_time = 0"
| "block_dos K_locked = 0"
| "block_dos (K_transaction e) = dos_score e"
| "block_dos K_tx_time = 50"
| "block_dos _ = 100"

section \<open>The signature of a block\<close>

definition CheckBlockSignature :: "'a check_env_scheme \<Rightarrow> CBlock \<Rightarrow> bool" where
  "CheckBlockSignature E block =
     (if block_IsProofOfWork block then vchBlockSig block = []
      else if vchBlockSig block = [] then False
      else
        case Solver (scriptPubKey (vout (vtx block ! 1) ! 1)) of
          (ok, whichType, vSolutions) \<Rightarrow>
            if \<not> ok then False
            else if whichType = TX_PUBKEY then VerifyKey E (vSolutions ! 0) (block_hash E block) (vchBlockSig block)
            else False)"

section \<open>Locked inputs\<close>

definition locks_respected :: "'a check_env_scheme \<Rightarrow> CTransaction \<Rightarrow> bool" where
  "locks_respected E tx \<longleftrightarrow>
     IsCoinBase tx \<or>
     list_all (\<lambda>txin. case LockedInputs E (prevout txin) of
         None \<Rightarrow> True | Some h \<Rightarrow> h = tx_GetHash (HashBytes E) tx) (vin tx)"

section \<open>The payment of a masternode\<close>

text \<open>The payee, the payee of rewards, and whether neither is asked for.\<close>

definition expected_payees :: "'a check_env_scheme \<Rightarrow> int \<Rightarrow> script \<times> script \<times> bool" where
  "expected_payees E nHeight =
     (case BlockPayee E nHeight of
        Some payee \<Rightarrow> (payee, [], False)
      | None \<Rightarrow>
          (case CurrentMasterNode E of
             Some (pubkey, donationAddress) \<Rightarrow>
               (GetScriptForDestination (CKeyID (pk_GetID (HashKey E) pubkey) :: unit CTxDestination), donationAddress, False)
           | None \<Rightarrow> ([], [], True)))"

text \<open>The scan of the outputs; each output counts for one of the two.\<close>

fun find_payees :: "script \<Rightarrow> script \<Rightarrow> bool \<times> bool \<Rightarrow> CTxOut list \<Rightarrow> bool \<times> bool" where
  "find_payees masternodepayee payeerewardaddress found [] = found"
| "find_payees masternodepayee payeerewardaddress (foundMasternodeAmount, foundRewardAmount) (txout # rest) =
     find_payees masternodepayee payeerewardaddress
       (if scriptPubKey txout = masternodepayee then (True, foundRewardAmount)
        else if scriptPubKey txout = payeerewardaddress then (foundMasternodeAmount, True)
        else (foundMasternodeAmount, foundRewardAmount)) rest"

definition payees_paid :: "'a check_env_scheme \<Rightarrow> CBlock \<Rightarrow> bool" where
  "payees_paid E block =
     (if InitialBlockDownload E \<or> \<not> blk_nTime block > START_MASTERNODE_PAYMENTS then True
      else if \<not> (block_IsProofOfStake block \<and> check_best E \<noteq> []) then True
      else if bi_hashBlock (hd (check_best E)) \<noteq> hashPrevBlock block then True
      else
        case expected_payees E (bp_nHeight (hd (check_best E)) + 1) of
          (masternodepayee, payeerewardaddress, none) \<Rightarrow>
            (case find_payees masternodepayee payeerewardaddress (none, none) (vout (vtx block ! 1)) of
               (foundMasternodeAmount, foundRewardAmount) \<Rightarrow>
                 WalletGracePeriod E \<or> (foundMasternodeAmount \<and> foundRewardAmount)))"

section \<open>The block\<close>

fun check_txs :: "CBlock \<Rightarrow> CTransaction list \<Rightarrow> block_check_error + unit" where
  "check_txs block [] = Inr ()"
| "check_txs block (tx # rest) =
     (case CheckTransaction tx of
        Inl e \<Rightarrow> Inl (K_transaction e)
      | Inr _ \<Rightarrow>
          if int (unat (blk_nTime block)) < int (unat (tx_nTime tx)) then Inl K_tx_time
          else check_txs block rest)"

text \<open>The coinbase and the coinstake are where they belong.\<close>

definition check_positions :: "CBlock \<Rightarrow> block_check_error + unit" where
  "check_positions block =
     (if vtx block = [] \<or> \<not> IsCoinBase (vtx block ! 0) then Inl K_first_not_coinbase
      else if list_ex IsCoinBase (drop 1 (vtx block)) then Inl K_more_coinbases
      else if block_IsProofOfStake block then
        (if length (vout (vtx block ! 0)) \<noteq> 1 \<or> \<not> txout_IsEmpty (vout (vtx block ! 0) ! 0)
         then Inl K_coinbase_not_empty
         else if vtx block = [] \<or> \<not> IsCoinStake (vtx block ! 1) then Inl K_no_coinstake
         else if list_ex IsCoinStake (drop 2 (vtx block)) then Inl K_more_coinstakes
         else Inr ())
      else Inr ())"

definition CheckBlock :: "'a check_env_scheme \<Rightarrow> bool \<Rightarrow> bool \<Rightarrow> bool \<Rightarrow> CBlock \<Rightarrow> block_check_error + unit" where
  "CheckBlock E fCheckPOW fCheckMerkleRoot fCheckSig block =
     (if vtx block = [] \<or> length (vtx block) > MAX_BLOCK_SIZE \<or> length (write_block SER_NETWORK block) > MAX_BLOCK_SIZE
      then Inl K_size
      else if fCheckPOW \<and> block_IsProofOfWork block \<and>
        \<not> CheckProofOfWork (bn_bn2mpi E) (bn_mpi2bn E) (ProofOfWorkLimit E) (block_GetPoWHash (Hash9 E) block) (nBits block)
      then Inl K_work
      else if int (unat (blk_nTime block)) > FutureDrift (AdjustedTime E) then Inl K_time
      else
        rbind (check_positions block) (\<lambda>_.
        if fCheckSig \<and> \<not> CheckBlockSignature E block then Inl K_signature
        else if InstantXFiltering E \<and> \<not> list_all (locks_respected E) (vtx block) then Inl K_locked
        else if \<not> payees_paid E block then Inl K_payee
        else
          rbind (check_txs block (vtx block)) (\<lambda>_.
          if card (set (map (tx_GetHash (HashBytes E)) (vtx block))) \<noteq> length (vtx block) then Inl K_duplicate
          else if foldl (\<lambda>n tx. n + GetLegacySigOpCount tx) 0 (vtx block) > MAX_BLOCK_SIGOPS then Inl K_sigops
          else if fCheckMerkleRoot \<and> hashMerkleRoot block \<noteq> fst (BuildMerkleTree (HashBytes E) block) then Inl K_merkle
          else Inr ())))"


text \<open>Fields that other records add to the environment do not matter.\<close>

lemma check_env_truncate:
  "HashBytes (check_env.truncate E) = HashBytes E" "Hash9 (check_env.truncate E) = Hash9 E"
  "HashKey (check_env.truncate E) = HashKey E" "bn_bn2mpi (check_env.truncate E) = bn_bn2mpi E"
  "bn_mpi2bn (check_env.truncate E) = bn_mpi2bn E" "ProofOfWorkLimit (check_env.truncate E) = ProofOfWorkLimit E"
  "VerifyKey (check_env.truncate E) = VerifyKey E" "AdjustedTime (check_env.truncate E) = AdjustedTime E"
  "InitialBlockDownload (check_env.truncate E) = InitialBlockDownload E"
  "InstantXFiltering (check_env.truncate E) = InstantXFiltering E"
  "LockedInputs (check_env.truncate E) = LockedInputs E" "BlockPayee (check_env.truncate E) = BlockPayee E"
  "CurrentMasterNode (check_env.truncate E) = CurrentMasterNode E"
  "WalletGracePeriod (check_env.truncate E) = WalletGracePeriod E" "check_best (check_env.truncate E) = check_best E"
  by (cases E; simp add: check_env.defs)+

lemma CheckBlock_truncate: "CheckBlock (check_env.truncate E) = CheckBlock E"
  unfolding fun_eq_iff CheckBlock_def CheckBlockSignature_def locks_respected_def[abs_def] payees_paid_def
    expected_payees_def check_env_truncate by simp

section \<open>What a block that passes satisfies\<close>

lemma find_payees_iff:
  "find_payees p r (a, b) outs =
    (a \<or> p \<in> scriptPubKey ` set outs, b \<or> (\<exists>txout \<in> set outs. scriptPubKey txout = r \<and> r \<noteq> p))"
  by (induction outs arbitrary: a b) auto

lemma check_txs_iff:
  "check_txs block txs = Inr () \<longleftrightarrow>
    list_all (\<lambda>tx. tx_valid tx \<and> tx_nTime tx \<le> blk_nTime block) txs"
proof (induction txs)
  case (Cons tx txs)
  then show ?case
    using CheckTransaction_iff[of tx] by (cases "CheckTransaction tx") (auto simp: word_le_def word_less_def not_less)
qed simp

lemma BuildMerkleTree_root:
  assumes "vtx b \<noteq> []"
  shows "[fst (BuildMerkleTree H b)] = merkle_root (merkle_node H) (map (tx_GetHash H) (vtx b))"
proof -
  let ?xs = "map (tx_GetHash H) (vtx b)"
  have "merkle_rows (merkle_node H) 0 (length (vtx b)) ?xs \<noteq> []"
    using merkle_rows_prefix[of ?xs 0 "length (vtx b)" "merkle_node H"] assms by auto
  then show ?thesis
    using merkle_rows_last[of ?xs 0 "length (vtx b)" ?xs "merkle_node H"] assms by (simp add: BuildMerkleTree_def Let_def)
qed

lemma sigops_sum: "foldl (\<lambda>n tx. n + f tx) a txs = a + sum_list (map f txs)" for f :: "'a \<Rightarrow> nat"
  by (induction txs arbitrary: a) auto

text \<open>The one coinbase and, in a block with stake, the one coinstake.\<close>

definition positions_ok :: "CTransaction list \<Rightarrow> bool" where
  "positions_ok txs \<longleftrightarrow>
     (\<exists>cb rest. txs = cb # rest \<and> IsCoinBase cb \<and> list_all (\<lambda>tx. \<not> IsCoinBase tx) rest \<and>
        ((\<exists>cs more. rest = cs # more \<and> IsCoinStake cs \<and> list_all (\<lambda>tx. \<not> IsCoinStake tx) more \<and>
            (\<exists>out. vout cb = [out] \<and> txout_IsEmpty out)) \<or>
         (\<nexists>cs more. rest = cs # more \<and> IsCoinStake cs)))"

lemma check_positions_iff: "check_positions block = Inr () \<longleftrightarrow> positions_ok (vtx block)"
proof (cases "vtx block")
  case (Cons cb rest)
  show ?thesis
  proof (cases rest)
    case Nil
    then show ?thesis using Cons
      by (auto simp: check_positions_def positions_ok_def block_IsProofOfStake_def)
  next
    case (Cons cs more)
    then show ?thesis using \<open>vtx block = cb # rest\<close>
      by (auto simp: check_positions_def positions_ok_def block_IsProofOfStake_def list_ex_iff list_all_iff
          length_Suc_conv)
  qed
qed (simp add: check_positions_def positions_ok_def)

definition block_valid :: "'a check_env_scheme \<Rightarrow> bool \<Rightarrow> bool \<Rightarrow> bool \<Rightarrow> CBlock \<Rightarrow> bool" where
  "block_valid E fCheckPOW fCheckMerkleRoot fCheckSig b \<longleftrightarrow>
     positions_ok (vtx b) \<and> length (write_block SER_NETWORK b) \<le> MAX_BLOCK_SIZE \<and>
     int (unat (blk_nTime b)) \<le> AdjustedTime E + DRIFT \<and>
     list_all (\<lambda>tx. tx_valid tx \<and> tx_nTime tx \<le> blk_nTime b) (vtx b) \<and>
     distinct (map (tx_GetHash (HashBytes E)) (vtx b)) \<and>
     sum_list (map GetLegacySigOpCount (vtx b)) \<le> MAX_BLOCK_SIGOPS \<and>
     (InstantXFiltering E \<longrightarrow> list_all (locks_respected E) (vtx b)) \<and> payees_paid E b \<and>
     (fCheckPOW \<and> block_IsProofOfWork b \<longrightarrow>
        CheckProofOfWork (bn_bn2mpi E) (bn_mpi2bn E) (ProofOfWorkLimit E) (block_GetPoWHash (Hash9 E) b) (nBits b)) \<and>
     (fCheckMerkleRoot \<longrightarrow>
        merkle_root (merkle_node (HashBytes E)) (map (tx_GetHash (HashBytes E)) (vtx b)) = [hashMerkleRoot b]) \<and>
     (fCheckSig \<longrightarrow> CheckBlockSignature E b)"

lemma length_concat_ge: "(\<And>x. x \<in> set xs \<Longrightarrow> 1 \<le> length (f x)) \<Longrightarrow> length xs \<le> length (concat (map f xs))"
proof (induction xs)
  case (Cons x xs)
  have "1 \<le> length (f x)" using Cons.prems by simp
  moreover have "length xs \<le> length (concat (map f xs))" using Cons by simp
  ultimately show ?case by simp
qed simp

lemma block_txs_small: "length (vtx b) \<le> length (write_block SER_NETWORK b)"
proof -
  have "length (vtx b) \<le> length (concat (map write_tx (vtx b)))"
    by (rule length_concat_ge) (simp add: write_tx_def write_word_def)
  then show ?thesis
    by (simp add: write_block_def write_vec_def SER_NETWORK_def SER_GETHASH_def SER_BLOCKHEADERONLY_def)
qed

lemma unless_Inr: "(if c then Inl e else r) = Inr x \<longleftrightarrow> \<not> c \<and> r = Inr x"
  by simp

lemma rbind_unit: "rbind r (\<lambda>_. k) = Inr x \<longleftrightarrow> r = Inr () \<and> k = Inr x"
  by (cases r) (auto simp: rbind_def)

lemma CheckBlock_iff: "CheckBlock E pow mr sig b = Inr () \<longleftrightarrow> block_valid E pow mr sig b"
proof (cases "vtx b = []")
  case False
  let ?xs = "map (tx_GetHash (HashBytes E)) (vtx b)"
  have size: "length (vtx b) > MAX_BLOCK_SIZE \<or> length (write_block SER_NETWORK b) > MAX_BLOCK_SIZE \<longleftrightarrow>
      \<not> length (write_block SER_NETWORK b) \<le> MAX_BLOCK_SIZE"
    using block_txs_small[of b] by linarith
  have dup: "card (set ?xs) = length (vtx b) \<longleftrightarrow> distinct ?xs"
    using card_distinct[of ?xs] distinct_card[of ?xs] by auto
  have root: "hashMerkleRoot b = fst (BuildMerkleTree (HashBytes E) b) \<longleftrightarrow>
      merkle_root (merkle_node (HashBytes E)) ?xs = [hashMerkleRoot b]"
    using BuildMerkleTree_root[OF False, of "HashBytes E"] by auto
  have time: "int (unat (blk_nTime b)) > FutureDrift (AdjustedTime E) \<longleftrightarrow>
      \<not> int (unat (blk_nTime b)) \<le> AdjustedTime E + DRIFT"
    by (simp add: FutureDrift_def not_le)
  show ?thesis
    unfolding CheckBlock_def block_valid_def unless_Inr rbind_unit size time root dup sigops_sum
      check_positions_iff check_txs_iff
    using False by (simp only: simp_thms de_Morgan_conj de_Morgan_disj not_not not_less not_le add_0) blast
qed (simp add: CheckBlock_def block_valid_def positions_ok_def)


section \<open>Properties\<close>

text \<open> C6.
  \<open>CheckBlock\<close> accepts exactly the blocks whose first transaction is the only coinbase, with an empty
  output and one coinstake after it in a block with stake, whose transactions are each valid, not
  later than the block, of pairwise distinct hashes and few enough signature operations, which fit
  the size and are not from the future, pay the masternode, and, where asked for, carry the work, the
  root of the Merkle tree level by level and the signature.
\<close>

theorem check_block_accepts: "CheckBlock E pow mr sig b = Inr () \<longleftrightarrow> block_valid E pow mr sig b"
  by (rule CheckBlock_iff)

text \<open> C36.
  The payee of rewards is never checked against a voted masternode: when the payee of the height is
  known, the empty first output that makes a coinstake counts as the payment to it, so the block
  passes as soon as one output pays the masternode, whatever the amount.
\<close>

theorem reward_payee_unchecked:
  assumes "block_IsProofOfStake b" "BlockPayee E (bp_nHeight (hd (check_best E)) + 1) = Some payee" "payee \<noteq> []"
    and "txout \<in> set (vout (vtx b ! 1))" "scriptPubKey txout = payee"
  shows "payees_paid E b"
proof -
  have cs: "IsCoinStake (vtx b ! 1)" using assms(1) by (simp add: block_IsProofOfStake_def)
  then have "vout (vtx b ! 1) ! 0 \<in> set (vout (vtx b ! 1))" "scriptPubKey (vout (vtx b ! 1) ! 0) = []"
    by (auto simp: IsCoinStake_def txout_IsEmpty_def intro!: nth_mem)
  then have "find_payees payee [] (False, False) (vout (vtx b ! 1)) = (True, True)"
    using assms(3-5) unfolding find_payees_iff by auto
  then show ?thesis
    using assms(2) by (simp add: payees_paid_def expected_payees_def)
qed

definition demo_check :: check_env where
  "demo_check = \<lparr>HashBytes = (\<lambda>b. word_of_nat (length b)), Hash9 = (\<lambda>_. 0), HashKey = (\<lambda>_. 0),
     bn_bn2mpi = doc_bn2mpi, bn_mpi2bn = doc_mpi2bn, ProofOfWorkLimit = bnProofOfWorkLimit,
     VerifyKey = (\<lambda>_ _ _. True), AdjustedTime = 1000, InitialBlockDownload = True,
     InstantXFiltering = False, LockedInputs = Map.empty, BlockPayee = (\<lambda>_. None),
     CurrentMasterNode = None, WalletGracePeriod = False, check_best = []\<rparr>"

text \<open>The easiest target, in compact form; the hash 0 meets it.\<close>

definition demo_bits :: uint32 where "demo_bits = bignum_GetCompact doc_bn2mpi bnProofOfWorkLimit"

lemma demo_work: "CheckProofOfWork doc_bn2mpi doc_mpi2bn bnProofOfWorkLimit 0 demo_bits"
proof -
  obtain c t where c: "GetNextTargetRequired doc_bn2mpi doc_mpi2bn [demo_index 0] False = Some c"
    "bignum_SetCompact doc_mpi2bn c = compact_trunc t" "0 < t" "t \<le> target_limit False"
    using GetNextTargetRequired_decoded[OF doc_mpi, of "[demo_index 0]" False] by blast
  have "c = demo_bits" using c(1) by (simp add: GetNextTargetRequired_def demo_bits_def)
  moreover have "0 < compact_trunc t" "compact_trunc t \<le> target_limit False" "target_limit False < 2 ^ 256"
    using compact_trunc_bounds[OF c(3)] c(4) by (auto simp: target_limit_val)
  ultimately show ?thesis
    using c(2) by (simp add: CheckProofOfWork_iff[OF doc_mpi] target_limit_def)
qed

text \<open>When a block with work and no locks passes during the initial download.\<close>

lemma demo_check_passes:
  assumes "vtx b = cb # rest" "IsCoinBase cb" "list_all (\<lambda>tx. \<not> IsCoinBase tx \<and> \<not> IsCoinStake tx) rest"
    and "nBits b = demo_bits" "blk_nTime b = 0" "list_all (\<lambda>tx. tx_valid tx \<and> tx_nTime tx = 0) (vtx b)"
    and "distinct (map (tx_GetHash (HashBytes demo_check)) (vtx b))"
    and "sum_list (map GetLegacySigOpCount (vtx b)) \<le> MAX_BLOCK_SIGOPS" "length (write_block SER_NETWORK b) \<le> MAX_BLOCK_SIZE"
    and "merkle_root (merkle_node (HashBytes demo_check)) (map (tx_GetHash (HashBytes demo_check)) (vtx b)) = [hashMerkleRoot b]"
  shows "CheckBlock demo_check True True False b = Inr ()"
proof -
  have "positions_ok (vtx b)" using assms(1-3) by (cases rest) (auto simp: positions_ok_def list_all_iff)
  moreover have "list_all (\<lambda>tx. tx_valid tx \<and> tx_nTime tx \<le> blk_nTime b) (vtx b)"
    using assms(5,6) by (auto simp: list_all_iff)
  moreover have "payees_paid demo_check b" by (simp add: payees_paid_def demo_check_def)
  moreover have "CheckProofOfWork doc_bn2mpi doc_mpi2bn bnProofOfWorkLimit (block_GetPoWHash (Hash9 demo_check) b) (nBits b)"
    using demo_work assms(4) by (simp add: block_GetPoWHash_def demo_check_def)
  ultimately show ?thesis
    unfolding CheckBlock_iff block_valid_def
    using assms(5,7-) by (simp add: demo_check_def DRIFT_def)
qed

definition demo_stake_block :: "CTransaction list \<Rightarrow> CBlock" where
  "demo_stake_block outs = block_null\<lparr>blk_nTime := - 1, hashPrevBlock := 7, vtx := outs\<rparr>"

definition demo_coinstake :: CTransaction where
  "demo_coinstake = p2sh_prev []\<lparr>vin := [mk_txin \<lparr>op_hash = 1, op_n = 0\<rparr> [] 0],
     vout := [txout_null\<lparr>nValue := 0\<rparr>, txout_null\<lparr>nValue := 0, scriptPubKey := [0x51]\<rparr>]\<rparr>"

lemma reward_payee_unchecked_witness:
  "payees_paid (demo_check\<lparr>InitialBlockDownload := False, BlockPayee := \<lambda>_. Some [0x51],
     check_best := [(demo_index 100)\<lparr>bi_hashBlock := 7\<rparr>]\<rparr>)
   (demo_stake_block [p2sh_prev [], demo_coinstake])"
  by (rule reward_payee_unchecked[where payee = "[0x51]" and txout = "txout_null\<lparr>nValue := 0, scriptPubKey := [0x51]\<rparr>"])
    (simp_all add: block_IsProofOfStake_def demo_stake_block_def demo_coinstake_def IsCoinStake_def mk_txin_def
      outpoint_IsNull_def txout_IsEmpty_def txout_null_def p2sh_prev_def demo_check_def)

end
