(* ===== verification/TxConnect.thy ===== *)
theory TxConnect
  imports BlockCheck
begin

text \<open>
  Connecting the inputs of a transaction to the index of spent outputs and disconnecting them,
  \<open>ConnectInputs\<close> and \<open>DisconnectInputs\<close> of \<open>src/src/main.cpp\<close>.  The database of the index is a
  map, whose reads and writes of existing entries succeed (\<open>src/src/txdb-leveldb.cpp\<close> over
  LevelDB); signature verification, the chain and its state are in the record \<open>connect_env\<close>.
\<close>

section \<open>Connecting\<close>

definition STANDARD_NOT_MANDATORY_VERIFY_FLAGS :: uint32 where
  "STANDARD_NOT_MANDATORY_VERIFY_FLAGS = STANDARD_SCRIPT_VERIFY_FLAGS AND NOT MANDATORY_SCRIPT_VERIFY_FLAGS"

record connect_env = check_env +
  VerifySig :: "CTransaction \<Rightarrow> CTransaction \<Rightarrow> nat \<Rightarrow> uint32 \<Rightarrow> bool"
  nCoinbaseMaturity :: int

datatype connect_error =
    C_assert | C_out_of_range | C_immature | C_timestamp | C_values | C_already_used
  | C_non_mandatory | C_signature | C_value_in | C_fee_negative | C_fee_range | C_value_out

fun connect_values ::
  "connect_env \<Rightarrow> CTransaction \<Rightarrow> block_pos list \<Rightarrow> MapPrevTx \<Rightarrow> int64 \<Rightarrow> CTxIn list \<Rightarrow> connect_error + int64" where
  "connect_values E tx pindexBlock inputs nValueIn [] = Inr nValueIn"
| "connect_values E tx pindexBlock inputs nValueIn (txin # rest) =
     (case inputs (op_hash (prevout txin)) of
        None \<Rightarrow> Inl C_assert
      | Some (txindex, txPrev) \<Rightarrow>
          let n = unat (op_n (prevout txin))
          in if n \<ge> length (vout txPrev) \<or> n \<ge> length (vSpent txindex) then Inl C_out_of_range
             else if (IsCoinBase txPrev \<or> IsCoinStake txPrev) \<and>
               IsConfirmedInNPrevBlocks txindex pindexBlock (nCoinbaseMaturity E) \<noteq> None then Inl C_immature
             else if tx_nTime txPrev > tx_nTime tx then Inl C_timestamp
             else
               let v = nValue (vout txPrev ! n); nValueIn = nValueIn + v
               in if \<not> MoneyRange v \<or> \<not> MoneyRange nValueIn then Inl C_values
                  else connect_values E tx pindexBlock inputs nValueIn rest)"

definition set_spent :: "nat \<Rightarrow> CDiskTxPos \<Rightarrow> CTxIndex \<Rightarrow> CTxIndex" where
  "set_spent n pos txindex = txindex\<lparr>vSpent := (vSpent txindex)[n := pos]\<rparr>"

text \<open>The test of the signature of an input.\<close>

definition connect_signature ::
  "connect_env \<Rightarrow> CTransaction \<Rightarrow> bool \<Rightarrow> uint32 \<Rightarrow> bool \<Rightarrow> CTransaction \<Rightarrow> nat \<Rightarrow> connect_error + unit" where
  "connect_signature E tx fBlock flags fValidateSig txPrev i =
     (if fValidateSig \<and> \<not> (fBlock \<and> \<not> InitialBlockDownload E) \<and> \<not> VerifySig E txPrev tx i flags then
        if flags AND STANDARD_NOT_MANDATORY_VERIFY_FLAGS \<noteq> 0 \<and>
           VerifySig E txPrev tx i (flags AND NOT STANDARD_NOT_MANDATORY_VERIFY_FLAGS)
        then Inl C_non_mandatory else Inl C_signature
      else Inr ())"

fun connect_spend ::
  "connect_env \<Rightarrow> CTransaction \<Rightarrow> CDiskTxPos \<Rightarrow> bool \<Rightarrow> bool \<Rightarrow> uint32 \<Rightarrow> bool \<Rightarrow> nat \<Rightarrow>
     MapPrevTx \<Rightarrow> (uint256 \<rightharpoonup> CTxIndex) \<Rightarrow> CTxIn list \<Rightarrow> connect_error + (uint256 \<rightharpoonup> CTxIndex)" where
  "connect_spend E tx posThisTx fBlock fMiner flags fValidateSig i inputs mapTestPool [] = Inr mapTestPool"
| "connect_spend E tx posThisTx fBlock fMiner flags fValidateSig i inputs mapTestPool (txin # rest) =
     (let h = op_hash (prevout txin); n = unat (op_n (prevout txin))
      in case inputs h of
           None \<Rightarrow> Inl C_assert
         | Some (txindex, txPrev) \<Rightarrow>
             if \<not> pos_IsNull (vSpent txindex ! n) then Inl C_already_used
             else rbind (connect_signature E tx fBlock flags fValidateSig txPrev i) (\<lambda>_.
               let txindex = set_spent n posThisTx txindex
               in connect_spend E tx posThisTx fBlock fMiner flags fValidateSig (i + 1)
                    (inputs(h \<mapsto> (txindex, txPrev)))
                    (if fBlock \<or> fMiner then mapTestPool(h \<mapsto> txindex) else mapTestPool) rest))"

definition connect_fees :: "CTransaction \<Rightarrow> int64 \<Rightarrow> connect_error + unit" where
  "connect_fees tx nValueIn =
     (if IsCoinStake tx then Inr ()
      else case GetValueOut tx of
        Inl e \<Rightarrow> Inl C_value_out
      | Inr nValueOut \<Rightarrow>
          if sint nValueIn < sint nValueOut then Inl C_value_in
          else if sint (nValueIn - nValueOut) < 0 then Inl C_fee_negative
          else if \<not> MoneyRange (0 + (nValueIn - nValueOut)) then Inl C_fee_range
          else Inr ())"

definition ConnectInputs ::
  "connect_env \<Rightarrow> CTransaction \<Rightarrow> MapPrevTx \<Rightarrow> (uint256 \<rightharpoonup> CTxIndex) \<Rightarrow> CDiskTxPos \<Rightarrow> block_pos list \<Rightarrow>
     bool \<Rightarrow> bool \<Rightarrow> uint32 \<Rightarrow> bool \<Rightarrow> connect_error + (uint256 \<rightharpoonup> CTxIndex)" where
  "ConnectInputs E tx inputs mapTestPool posThisTx pindexBlock fBlock fMiner flags fValidateSig =
     (if IsCoinBase tx then Inr mapTestPool
      else
        rbind (connect_values E tx pindexBlock inputs 0 (vin tx)) (\<lambda>nValueIn.
        rbind (connect_spend E tx posThisTx fBlock fMiner flags fValidateSig 0 inputs mapTestPool (vin tx)) (\<lambda>mapTestPool.
        rbind (connect_fees tx nValueIn) (\<lambda>_. Inr mapTestPool))))"

section \<open>Disconnecting\<close>

datatype disconnect_error = D_read_failed | D_out_of_range

fun disconnect_loop :: "(uint256 \<rightharpoonup> CTxIndex) \<Rightarrow> CTxIn list \<Rightarrow> disconnect_error + (uint256 \<rightharpoonup> CTxIndex)" where
  "disconnect_loop txdb [] = Inr txdb"
| "disconnect_loop txdb (txin # rest) =
     (let h = op_hash (prevout txin); n = unat (op_n (prevout txin))
      in case txdb h of
           None \<Rightarrow> Inl D_read_failed
         | Some txindex \<Rightarrow>
             if n \<ge> length (vSpent txindex) then Inl D_out_of_range
             else disconnect_loop (txdb(h \<mapsto> set_spent n pos_null txindex)) rest)"

definition DisconnectInputs ::
  "(bytes \<Rightarrow> uint256) \<Rightarrow> CTransaction \<Rightarrow> (uint256 \<rightharpoonup> CTxIndex) \<Rightarrow> disconnect_error + (uint256 \<rightharpoonup> CTxIndex)" where
  "DisconnectInputs H tx txdb =
     rbind (if IsCoinBase tx then Inr txdb else disconnect_loop txdb (vin tx)) (\<lambda>txdb.
     Inr (txdb(tx_GetHash H tx := None)))"

section \<open>Sets of spent outputs\<close>

text \<open>The outputs of a transaction that some inputs name, and an index with a set of outputs changed.\<close>

definition outs_of :: "uint256 \<Rightarrow> CTxIn list \<Rightarrow> nat set" where
  "outs_of h ins = {unat (op_n (prevout i)) | i. i \<in> set ins \<and> op_hash (prevout i) = h}"

definition spent_with :: "CDiskTxPos \<Rightarrow> nat set \<Rightarrow> CTxIndex \<Rightarrow> CTxIndex" where
  "spent_with pos S txindex =
     txindex\<lparr>vSpent := map (\<lambda>k. if k \<in> S then pos else vSpent txindex ! k) [0..<length (vSpent txindex)]\<rparr>"

lemma outs_of_Nil [simp]: "outs_of h [] = {}"
  by (simp add: outs_of_def)

lemma outs_of_Cons:
  "outs_of h (i # ins) = (if op_hash (prevout i) = h then insert (unat (op_n (prevout i))) (outs_of h ins) else outs_of h ins)"
  by (auto simp: outs_of_def)

lemma outs_of_append: "outs_of h (xs @ ys) = outs_of h xs \<union> outs_of h ys"
  by (auto simp: outs_of_def)

lemma spent_with_empty [simp]: "spent_with pos {} t = t"
  by (simp add: spent_with_def map_nth)

lemma length_spent_with [simp]: "length (vSpent (spent_with pos S t)) = length (vSpent t)"
  by (simp add: spent_with_def)

lemma nth_spent_with: "k < length (vSpent t) \<Longrightarrow> vSpent (spent_with pos S t) ! k = (if k \<in> S then pos else vSpent t ! k)"
  by (simp add: spent_with_def)

lemma txindex_eqI:
  "txi_pos a = txi_pos b \<Longrightarrow> length (vSpent a) = length (vSpent b) \<Longrightarrow>
    (\<And>k. k < length (vSpent b) \<Longrightarrow> vSpent a ! k = vSpent b ! k) \<Longrightarrow> a = (b :: CTxIndex)"
  by (cases a; cases b) (auto intro: nth_equalityI)

lemma txi_pos_spent_with [simp]: "txi_pos (spent_with pos S t) = txi_pos t"
  by (simp add: spent_with_def)

lemma spent_with_twice: "spent_with p S (spent_with q T t) = spent_with p S (spent_with q (T - S) t)"
  by (rule txindex_eqI) (auto simp: nth_spent_with)

lemma spent_with_Un: "spent_with p S (spent_with p T t) = spent_with p (S \<union> T) t"
  by (rule txindex_eqI) (auto simp: nth_spent_with)

lemma set_spent_with: "set_spent n pos t = spent_with pos {n} t"
  by (rule txindex_eqI) (auto simp: nth_spent_with set_spent_def nth_list_update spent_with_def[of pos "{n}" t])

text \<open>Entries that are null are the null position, as the constructors and \<open>SetNull\<close> leave them.\<close>

definition index_ok :: "CTxIndex \<Rightarrow> bool" where
  "index_ok t \<longleftrightarrow> list_all (\<lambda>p. pos_IsNull p \<longrightarrow> p = pos_null) (vSpent t)"

lemma unspend:
  assumes "\<And>k. k \<in> S \<Longrightarrow> k < length (vSpent t) \<Longrightarrow> vSpent t ! k = pos_null"
  shows "spent_with pos_null S (spent_with pos S t) = t"
  using assms by (intro txindex_eqI) (auto simp: nth_spent_with)

section \<open>What connecting does\<close>

text \<open>The outputs named are there and unspent.\<close>

definition unspent :: "(uint256 \<rightharpoonup> CTxIndex) \<Rightarrow> CTxIn list \<Rightarrow> bool" where
  "unspent idx ins \<longleftrightarrow>
     list_all (\<lambda>i. \<exists>t. idx (op_hash (prevout i)) = Some t \<and> unat (op_n (prevout i)) < length (vSpent t) \<and>
       pos_IsNull (vSpent t ! unat (op_n (prevout i)))) ins"

abbreviation indexes :: "MapPrevTx \<Rightarrow> (uint256 \<rightharpoonup> CTxIndex)" where
  "indexes inputs \<equiv> \<lambda>h. map_option fst (inputs h)"

definition in_range :: "(uint256 \<rightharpoonup> CTxIndex) \<Rightarrow> CTxIn list \<Rightarrow> bool" where
  "in_range idx ins \<longleftrightarrow>
     list_all (\<lambda>i. \<exists>t. idx (op_hash (prevout i)) = Some t \<and> unat (op_n (prevout i)) < length (vSpent t)) ins"

text \<open>The index entries of the spent transactions with their outputs marked, over an older map.\<close>

definition marked ::
  "CDiskTxPos \<Rightarrow> (uint256 \<rightharpoonup> CTxIndex) \<Rightarrow> CTxIn list \<Rightarrow> (uint256 \<rightharpoonup> CTxIndex) \<Rightarrow> (uint256 \<rightharpoonup> CTxIndex)" where
  "marked pos idx ins pool =
     (\<lambda>h. if outs_of h ins = {} then pool h else map_option (spent_with pos (outs_of h ins)) (idx h))"

text \<open>Every input passes the test of its signature, in its place.\<close>

definition signatures_ok ::
  "connect_env \<Rightarrow> CTransaction \<Rightarrow> bool \<Rightarrow> uint32 \<Rightarrow> bool \<Rightarrow> MapPrevTx \<Rightarrow> nat \<Rightarrow> CTxIn list \<Rightarrow> bool" where
  "signatures_ok E tx fBlock flags fValidateSig inputs i ins \<longleftrightarrow>
     list_all (\<lambda>(k, txin). if fValidateSig \<and> \<not> (fBlock \<and> \<not> InitialBlockDownload E)
       then VerifySig E (snd (the (inputs (op_hash (prevout txin))))) tx k flags else True) (enumerate i ins)"

lemma connect_signature_iff:
  "connect_signature E tx fBlock flags fVal prev k = Inr () \<longleftrightarrow>
    (if fVal \<and> \<not> (fBlock \<and> \<not> InitialBlockDownload E) then VerifySig E prev tx k flags else True)"
  by (simp add: connect_signature_def)

lemma signatures_ok_Cons:
  "signatures_ok E tx fBlock flags fVal inputs i (txin # ins) \<longleftrightarrow>
    connect_signature E tx fBlock flags fVal (snd (the (inputs (op_hash (prevout txin))))) i = Inr () \<and>
    signatures_ok E tx fBlock flags fVal inputs (i + 1) ins"
  by (simp add: signatures_ok_def connect_signature_iff)

lemma signatures_ok_cong:
  "(\<And>h. map_option snd (inputs h) = map_option snd (inputs' h)) \<Longrightarrow>
    in_range (indexes inputs) ins \<Longrightarrow>
    signatures_ok E tx fBlock flags fVal inputs i ins \<longleftrightarrow> signatures_ok E tx fBlock flags fVal inputs' i ins"
proof (induction ins arbitrary: i)
  case (Cons txin ins)
  let ?h = "op_hash (prevout txin)"
  have "map_option snd (inputs ?h) = map_option snd (inputs' ?h)" by (rule Cons.prems(1))
  then have "snd (the (inputs ?h)) = snd (the (inputs' ?h))"
    by (cases "inputs ?h"; cases "inputs' ?h") auto
  moreover have "in_range (indexes inputs) ins" using Cons.prems(2) by (simp add: in_range_def)
  ultimately show ?case using Cons.IH[OF Cons.prems(1)] by (simp add: signatures_ok_Cons)
qed (simp add: signatures_ok_def)

text \<open>After an output is marked, the others named must be others, and unspent as before.\<close>

lemma unspent_after_mark:
  assumes t: "inputs h = Some (t, prev)" "n < length (vSpent t)" "\<not> pos_IsNull pos"
    and h: "h = op_hash (prevout txin)" "n = unat (op_n (prevout txin))"
  shows "unspent (indexes (inputs(h \<mapsto> (set_spent n pos t, prev)))) ins \<longleftrightarrow>
    prevout txin \<notin> prevout ` set ins \<and> unspent (indexes inputs) ins"
proof -
  have mark: "(\<exists>t'. indexes (inputs(h \<mapsto> (set_spent n pos t, prev))) (op_hash p) = Some t' \<and>
        unat (op_n p) < length (vSpent t') \<and> pos_IsNull (vSpent t' ! unat (op_n p))) \<longleftrightarrow>
      p \<noteq> prevout txin \<and> (\<exists>t'. indexes inputs (op_hash p) = Some t' \<and>
        unat (op_n p) < length (vSpent t') \<and> pos_IsNull (vSpent t' ! unat (op_n p)))" for p
  proof (cases "op_hash p = h")
    case True
    then have "p = prevout txin \<longleftrightarrow> unat (op_n p) = n" using h by (cases p; cases "prevout txin") (auto simp: word_unat_eq_iff)
    then show ?thesis using t True by (cases "unat (op_n p) = n") (auto simp: set_spent_def)
  next
    case False
    then show ?thesis using h by auto
  qed
  have fresh: "prevout txin \<notin> prevout ` set ins \<longleftrightarrow> (\<forall>i \<in> set ins. prevout i \<noteq> prevout txin)"
    by (metis image_iff)
  show ?thesis unfolding unspent_def list_all_iff mark fresh by (simp only: ball_conj_distrib)
qed

lemma marked_Cons:
  assumes "inputs h = Some (t, prev)" "h = op_hash (prevout txin)" "n = unat (op_n (prevout txin))"
  shows "marked pos (indexes (inputs(h \<mapsto> (set_spent n pos t, prev)))) ins (pool(h \<mapsto> set_spent n pos t)) =
    marked pos (indexes inputs) (txin # ins) pool"
proof
  fix k
  show "marked pos (indexes (inputs(h \<mapsto> (set_spent n pos t, prev)))) ins (pool(h \<mapsto> set_spent n pos t)) k =
      marked pos (indexes inputs) (txin # ins) pool k"
    using assms by (cases "k = h") (simp_all add: marked_def outs_of_Cons set_spent_with spent_with_Un)
qed

lemma in_range_mark:
  assumes "in_range (indexes inputs) (txin # ins)" "inputs h = Some (t, prev)"
  shows "in_range (indexes (inputs(h \<mapsto> (set_spent n pos t, prev)))) ins"
  using assms by (auto simp: in_range_def list_all_iff set_spent_def)

lemma connect_spend_iff:
  assumes "in_range (indexes inputs) ins" "\<not> pos_IsNull pos"
  shows "connect_spend E tx pos fBlock fMiner flags fVal i inputs pool ins = Inr pool' \<longleftrightarrow>
    distinct (map prevout ins) \<and> unspent (indexes inputs) ins \<and>
    signatures_ok E tx fBlock flags fVal inputs i ins \<and>
    pool' = (if fBlock \<or> fMiner then marked pos (indexes inputs) ins pool else pool)"
  using assms
proof (induction ins arbitrary: i inputs pool)
  case Nil
  show ?case by (auto simp: unspent_def signatures_ok_def marked_def)
next
  case (Cons txin ins)
  let ?h = "op_hash (prevout txin)" and ?n = "unat (op_n (prevout txin))"
  obtain t prev where t: "inputs ?h = Some (t, prev)" "?n < length (vSpent t)"
    using Cons.prems(1) by (auto simp: in_range_def)
  let ?inputs = "inputs(?h \<mapsto> (set_spent ?n pos t, prev))"
  let ?pool = "if fBlock \<or> fMiner then pool(?h \<mapsto> set_spent ?n pos t) else pool"
  have r: "in_range (indexes ?inputs) ins" "in_range (indexes inputs) ins"
    using in_range_mark[OF Cons.prems(1) t(1)] Cons.prems(1) by (simp_all add: in_range_def)
  have sigs: "signatures_ok E tx fBlock flags fVal ?inputs k ins = signatures_ok E tx fBlock flags fVal inputs k ins" for k
    using t by (intro signatures_ok_cong r) simp
  have head: "unspent (indexes inputs) (txin # ins) \<longleftrightarrow> pos_IsNull (vSpent t ! ?n) \<and> unspent (indexes inputs) ins"
    using t by (simp add: unspent_def)
  have step: "connect_spend E tx pos fBlock fMiner flags fVal i inputs pool (txin # ins) = Inr pool' \<longleftrightarrow>
      pos_IsNull (vSpent t ! ?n) \<and> connect_signature E tx fBlock flags fVal prev i = Inr () \<and>
      connect_spend E tx pos fBlock fMiner flags fVal (i + 1) ?inputs ?pool ins = Inr pool'"
    using t(1) by (simp add: Let_def rbind_Inr_iff)
  show ?case
    unfolding step Cons.IH[OF r(1) Cons.prems(2)] sigs head signatures_ok_Cons
      unspent_after_mark[where inputs = inputs, OF t(1,2) Cons.prems(2) refl refl]
    using t(1) marked_Cons[where inputs = inputs, OF t(1) refl refl, of pos ins pool] by auto
qed

text \<open>The amounts, as integers.\<close>

definition prev_value :: "MapPrevTx \<Rightarrow> CTxIn \<Rightarrow> int" where
  "prev_value inputs i =
     (case inputs (op_hash (prevout i)) of
        None \<Rightarrow> 0 | Some (t, prev) \<Rightarrow> sint (nValue (vout prev ! unat (op_n (prevout i)))))"

definition total_in :: "MapPrevTx \<Rightarrow> CTxIn list \<Rightarrow> int" where
  "total_in inputs ins = sum_list (map (prev_value inputs) ins)"

text \<open>An input is there, mature, not younger than the transaction, and not negative.\<close>

definition prev_ok :: "connect_env \<Rightarrow> CTransaction \<Rightarrow> block_pos list \<Rightarrow> MapPrevTx \<Rightarrow> CTxIn \<Rightarrow> bool" where
  "prev_ok E tx chain inputs i \<longleftrightarrow>
     (\<exists>t prev. inputs (op_hash (prevout i)) = Some (t, prev) \<and>
       unat (op_n (prevout i)) < length (vout prev) \<and> unat (op_n (prevout i)) < length (vSpent t) \<and>
       tx_nTime prev \<le> tx_nTime tx \<and> 0 \<le> sint (nValue (vout prev ! unat (op_n (prevout i)))) \<and>
       (if IsCoinBase prev \<or> IsCoinStake prev
        then IsConfirmedInNPrevBlocks t chain (nCoinbaseMaturity E) = None else True))"

lemma prev_value_nonneg: "prev_ok E tx chain inputs i \<Longrightarrow> 0 \<le> prev_value inputs i"
  by (auto simp: prev_ok_def prev_value_def)

lemma total_in_nonneg: "list_all (prev_ok E tx chain inputs) ins \<Longrightarrow> 0 \<le> total_in inputs ins"
  unfolding total_in_def by (intro sum_list_nonneg) (auto simp: list_all_iff intro: prev_value_nonneg)

lemma connect_values_iff:
  assumes "MoneyRange acc"
  shows "connect_values E tx chain inputs acc ins = Inr v \<longleftrightarrow>
    list_all (prev_ok E tx chain inputs) ins \<and> sint acc + total_in inputs ins \<le> MAX_MONEY \<and>
    sint v = sint acc + total_in inputs ins"
  using assms
proof (induction ins arbitrary: acc)
  case Nil
  then show ?case by (auto simp: total_in_def MoneyRange_def simp flip: word_eq_iff_signed)
next
  case (Cons i ins)
  show ?case
  proof (cases "inputs (op_hash (prevout i))")
    case None
    then show ?thesis by (simp add: prev_ok_def)
  next
    case (Some tp)
    obtain t prev where tp: "tp = (t, prev)" by (cases tp)
    let ?v = "nValue (vout prev ! unat (op_n (prevout i)))"
    have pv: "prev_value inputs i = sint ?v" using Some tp by (simp add: prev_value_def)
    show ?thesis
    proof (cases "MoneyRange ?v \<and> prev_ok E tx chain inputs i")
      case True
      have add: "sint (acc + ?v) = sint acc + sint ?v" using Cons.prems True by (intro MoneyRange_add) simp_all
      have m: "MoneyRange (acc + ?v) \<longleftrightarrow> sint acc + sint ?v \<le> MAX_MONEY"
        using True Cons.prems by (auto simp: MoneyRange_def add)
      have step: "connect_values E tx chain inputs acc (i # ins) =
          (if MoneyRange (acc + ?v) then connect_values E tx chain inputs (acc + ?v) ins else Inl C_values)"
        using True Some tp by (auto simp: prev_ok_def Let_def)
      show ?thesis
      proof (cases "MoneyRange (acc + ?v)")
        case True
        show ?thesis unfolding step using True Cons.IH[OF True] \<open>MoneyRange ?v \<and> prev_ok E tx chain inputs i\<close>
          by (simp add: add total_in_def pv algebra_simps)
      next
        case False
        then show ?thesis unfolding step using m total_in_nonneg[of E tx chain inputs ins]
          by (auto simp: total_in_def pv)
      qed
    next
      case False
      have "\<exists>e. connect_values E tx chain inputs acc (i # ins) = Inl e"
      proof (cases "prev_ok E tx chain inputs i")
        case True
        then have "\<not> MoneyRange ?v" using False by simp
        then show ?thesis using True Some tp by (auto simp: prev_ok_def Let_def)
      next
        case no: False
        then show ?thesis using Some tp by (auto simp: prev_ok_def Let_def MoneyRange_def split: if_splits)
      qed
      moreover have "\<not> (list_all (prev_ok E tx chain inputs) (i # ins) \<and>
          sint acc + total_in inputs (i # ins) \<le> MAX_MONEY)"
        using False Cons.prems total_in_nonneg[of E tx chain inputs ins] prev_value_nonneg[of E tx chain inputs i]
        by (auto simp: MoneyRange_def total_in_def pv)
      ultimately show ?thesis by auto
    qed
  qed
qed

lemma prevs_in_range: "list_all (prev_ok E tx chain inputs) ins \<Longrightarrow> in_range (indexes inputs) ins"
  by (auto simp: prev_ok_def in_range_def list_all_iff)

text \<open>The test of the fee: nothing is created, except by a coinstake.\<close>

definition balanced :: "CTransaction \<Rightarrow> int \<Rightarrow> bool" where
  "balanced tx v \<longleftrightarrow>
     (if IsCoinStake tx then True
      else list_all (\<lambda>out. 0 \<le> sint (nValue out)) (vout tx) \<and> total_out tx \<le> v)"

lemma connect_fees_iff:
  assumes "MoneyRange v"
  shows "connect_fees tx v = Inr () \<longleftrightarrow> balanced tx (sint v)"
proof (cases "\<exists>w. GetValueOut tx = Inr w")
  case False
  then have "\<nexists>w. GetValueOut_loop 0 (vout tx) = Inr w" by (simp add: GetValueOut_def)
  moreover have "\<exists>e. GetValueOut tx = Inl e" using False by (cases "GetValueOut tx") auto
  ultimately show ?thesis using GetValueOut_iff[of tx] assms
    by (auto simp: connect_fees_def balanced_def MoneyRange_def)
next
  case True
  then obtain w where w: "GetValueOut tx = Inr w" by blast
  then have l: "GetValueOut_loop 0 (vout tx) = Inr w" by (simp add: GetValueOut_def)
  then have sw: "sint w = total_out tx" "list_all (\<lambda>out. 0 \<le> sint (nValue out)) (vout tx)" "total_out tx \<le> MAX_MONEY"
    using GetValueOut_iff[of tx] by (auto simp: GetValueOut_loop_iff[OF MoneyRange_0] total_out_def)
  have "0 \<le> total_out tx" using sw unfolding total_out_def by (intro sum_list_nonneg) (auto simp: list_all_iff)
  then have "sint (v - w) = sint v - sint w"
    using assms sw by (simp add: sint_word_ariths(2) signed_take_bit_int_eq_self MoneyRange_def MAX_MONEY_def COIN_def)
  then show ?thesis using w sw assms \<open>0 \<le> total_out tx\<close>
    by (auto simp: connect_fees_def balanced_def MoneyRange_def)
qed

lemma ConnectInputs_iff:
  assumes "\<not> IsCoinBase tx" "\<not> pos_IsNull pos"
  shows "ConnectInputs E tx inputs pool pos chain fBlock fMiner flags fVal = Inr pool' \<longleftrightarrow>
    list_all (prev_ok E tx chain inputs) (vin tx) \<and> total_in inputs (vin tx) \<le> MAX_MONEY \<and>
    balanced tx (total_in inputs (vin tx)) \<and>
    distinct (map prevout (vin tx)) \<and> unspent (indexes inputs) (vin tx) \<and>
    signatures_ok E tx fBlock flags fVal inputs 0 (vin tx) \<and>
    pool' = (if fBlock \<or> fMiner then marked pos (indexes inputs) (vin tx) pool else pool)"
proof (cases "\<exists>v. connect_values E tx chain inputs 0 (vin tx) = Inr v")
  case False
  then obtain e where e: "connect_values E tx chain inputs 0 (vin tx) = Inl e"
    by (cases "connect_values E tx chain inputs 0 (vin tx)") auto
  have "\<not> (list_all (prev_ok E tx chain inputs) (vin tx) \<and> total_in inputs (vin tx) \<le> MAX_MONEY)"
  proof
    assume a: "list_all (prev_ok E tx chain inputs) (vin tx) \<and> total_in inputs (vin tx) \<le> MAX_MONEY"
    then have "0 \<le> total_in inputs (vin tx)" using total_in_nonneg by blast
    then have "sint (word_of_int (total_in inputs (vin tx)) :: int64) = total_in inputs (vin tx)"
      using a by (simp add: signed_of_int signed_take_bit_int_eq_self MAX_MONEY_def COIN_def)
    then show False using False a connect_values_iff[OF MoneyRange_0, of E tx chain inputs "vin tx"] by auto
  qed
  then show ?thesis using e assms by (auto simp: ConnectInputs_def)
next
  case True
  then obtain v where v: "connect_values E tx chain inputs 0 (vin tx) = Inr v" by blast
  note vi = iffD1[OF connect_values_iff[OF MoneyRange_0] v]
  have mr: "MoneyRange v" using vi total_in_nonneg[of E tx chain inputs "vin tx"] by (auto simp: MoneyRange_def)
  have "ConnectInputs E tx inputs pool pos chain fBlock fMiner flags fVal = Inr pool' \<longleftrightarrow>
      connect_spend E tx pos fBlock fMiner flags fVal 0 inputs pool (vin tx) = Inr pool' \<and> connect_fees tx v = Inr ()"
    using assms v by (auto simp: ConnectInputs_def rbind_Inr_iff)
  then show ?thesis
    using vi connect_fees_iff[OF mr] connect_spend_iff[OF prevs_in_range assms(2)] by auto
qed

section \<open>What disconnecting undoes\<close>

lemma disconnect_loop_ok:
  assumes "in_range db ins"
  shows "disconnect_loop db ins = Inr (\<lambda>h. map_option (spent_with pos_null (outs_of h ins)) (db h))"
  using assms
proof (induction ins arbitrary: db)
  case (Cons i ins)
  let ?h = "op_hash (prevout i)" and ?n = "unat (op_n (prevout i))"
  obtain t where t: "db ?h = Some t" "?n < length (vSpent t)" using Cons.prems by (auto simp: in_range_def)
  let ?db = "db(?h \<mapsto> set_spent ?n pos_null t)"
  have "in_range ?db ins" using Cons.prems t by (auto simp: in_range_def list_all_iff set_spent_def)
  then have "disconnect_loop ?db ins = Inr (\<lambda>h. map_option (spent_with pos_null (outs_of h ins)) (?db h))"
    by (rule Cons.IH)
  moreover have "disconnect_loop db (i # ins) = disconnect_loop ?db ins" using t by (simp add: Let_def)
  ultimately have "disconnect_loop db (i # ins) = Inr (\<lambda>h. map_option (spent_with pos_null (outs_of h ins)) (?db h))"
    by simp
  also have "(\<lambda>h. map_option (spent_with pos_null (outs_of h ins)) (?db h)) =
      (\<lambda>h. map_option (spent_with pos_null (outs_of h (i # ins))) (db h))"
    using t by (auto simp: outs_of_Cons set_spent_with spent_with_Un fun_eq_iff)
  finally show ?case .
next
  case Nil
  show ?case by (simp add: map_option_case fun_eq_iff split: option.split)
qed

text \<open>The verifier is not asked when a block is connected to a chain that is up to date.\<close>

lemma connect_signature_unchecked:
  "\<not> InitialBlockDownload E \<Longrightarrow> connect_signature (E\<lparr>VerifySig := V\<rparr>) tx True flags fVal prev i =
    connect_signature E tx True flags fVal prev i"
  by (simp add: connect_signature_def)

lemma connect_values_unchecked:
  "connect_values (E\<lparr>VerifySig := V\<rparr>) tx chain inputs acc ins = connect_values E tx chain inputs acc ins"
  by (induction ins arbitrary: acc) (auto simp: Let_def split: option.splits)

lemma connect_spend_unchecked:
  "\<not> InitialBlockDownload E \<Longrightarrow>
    connect_spend (E\<lparr>VerifySig := V\<rparr>) tx pos True fMiner flags fVal i inputs pool ins =
    connect_spend E tx pos True fMiner flags fVal i inputs pool ins"
  by (induction ins arbitrary: i inputs pool)
    (auto simp: Let_def connect_signature_unchecked rbind_def split: option.splits sum.splits)

section \<open>Properties\<close>

text \<open> C5.
  \<open>ConnectInputs\<close> accepts a transaction exactly when each input is there, in range, mature, not younger
  than the transaction and not negative, the inputs add up to at most \<open>MAX_MONEY\<close> and to at least the
  outputs (as integers; a coinstake may create value), no output is spent twice or was spent before,
  and the signatures verify where they are checked.  The index entries of the spent transactions are
  then the old ones with exactly the outputs spent marked with the position of the transaction.
\<close>

theorem connect_inputs_accepts:
  assumes "\<not> IsCoinBase tx" "\<not> pos_IsNull pos"
  shows "ConnectInputs E tx inputs pool pos chain fBlock fMiner flags fVal = Inr pool' \<longleftrightarrow>
    list_all (prev_ok E tx chain inputs) (vin tx) \<and> total_in inputs (vin tx) \<le> MAX_MONEY \<and>
    balanced tx (total_in inputs (vin tx)) \<and>
    distinct (map prevout (vin tx)) \<and> unspent (indexes inputs) (vin tx) \<and>
    signatures_ok E tx fBlock flags fVal inputs 0 (vin tx) \<and>
    pool' = (if fBlock \<or> fMiner then marked pos (indexes inputs) (vin tx) pool else pool)"
  using assms by (rule ConnectInputs_iff)

definition demo_pos :: "uint32 \<Rightarrow> CDiskTxPos" where
  "demo_pos k = \<lparr>nFile = 1, nBlockPos = 2, nTxPos = k\<rparr>"

definition demo_env :: "bool \<Rightarrow> connect_env" where
  "demo_env b = check_env.extend (demo_check\<lparr>InitialBlockDownload := b\<rparr>) (connect_env.fields (\<lambda>_ _ _ _. True) 370)"

lemma demo_env_simps [simp]:
  "VerifySig (demo_env b) = (\<lambda>_ _ _ _. True)" "nCoinbaseMaturity (demo_env b) = 370"
  "InitialBlockDownload (demo_env b) = b" "HashBytes (demo_env b) v = word_of_nat (length v)"
  by (simp_all add: demo_env_def check_env.defs connect_env.defs demo_check_def)

definition demo_spender :: CTransaction where
  "demo_spender = p2sh_prev []\<lparr>vin := [mk_txin \<lparr>op_hash = 1, op_n = 0\<rparr> [] 0]\<rparr>"

definition demo_inputs :: MapPrevTx where
  "demo_inputs = [1 \<mapsto> (mk_txindex (demo_pos 3) 1, p2sh_prev [])]"

lemmas demo_connect = demo_pos_def demo_spender_def demo_inputs_def p2sh_prev_def mk_txin_def
  mk_txindex_def

lemma connect_inputs_accepts_witness:
  "ConnectInputs (demo_env True) demo_spender demo_inputs Map.empty (demo_pos 9) [] True False 0 True =
    Inr [1 \<mapsto> \<lparr>txi_pos = demo_pos 3, vSpent = [demo_pos 9]\<rparr>]"
proof (subst connect_inputs_accepts, goal_cases)
  case 1
  show ?case by (simp add: demo_connect IsCoinBase_def outpoint_IsNull_def)
next
  case 2
  show ?case by (simp add: demo_connect pos_IsNull_def)
next
  case 3
  have "marked (demo_pos 9) (indexes demo_inputs) (vin demo_spender) Map.empty =
      [1 \<mapsto> \<lparr>txi_pos = demo_pos 3, vSpent = [demo_pos 9]\<rparr>]"
    by (rule ext) (simp add: marked_def demo_connect outs_of_Cons spent_with_def)
  moreover have "list_all (prev_ok (demo_env True) demo_spender [] demo_inputs) (vin demo_spender)"
    by (simp add: prev_ok_def demo_connect IsConfirmedInNPrevBlocks_def)
  moreover have "total_in demo_inputs (vin demo_spender) = 5"
    by (simp add: total_in_def prev_value_def demo_connect)
  moreover have "balanced demo_spender 5"
    by (simp add: balanced_def demo_connect total_out_def)
  moreover have "unspent (indexes demo_inputs) (vin demo_spender)"
    by (simp add: unspent_def demo_connect pos_IsNull_def pos_null_def)
  moreover have "signatures_ok (demo_env True) demo_spender True 0 True demo_inputs 0 (vin demo_spender)"
    by (simp add: signatures_ok_def demo_connect)
  moreover have "distinct (map prevout (vin demo_spender))" by (simp add: demo_spender_def)
  ultimately show ?case by (simp add: MAX_MONEY_def COIN_def)
qed

text \<open> C34.
  When a block is connected outside the initial download, which is when the chain is up to date,
  \<open>ConnectInputs\<close> never consults the signature verifier: the result is the same for any other one,
  even if the flag to validate signatures is set.
\<close>

theorem block_signatures_unchecked:
  assumes "\<not> InitialBlockDownload E"
  shows "ConnectInputs (E\<lparr>VerifySig := V\<rparr>) tx inputs pool pos chain True fMiner flags fVal =
    ConnectInputs E tx inputs pool pos chain True fMiner flags fVal"
  using assms by (simp add: ConnectInputs_def connect_values_unchecked connect_spend_unchecked)

lemma block_signatures_unchecked_witness:
  "ConnectInputs (demo_env False\<lparr>VerifySig := \<lambda>_ _ _ _. False\<rparr>) demo_spender demo_inputs Map.empty (demo_pos 9) [] True False 0 True =
    ConnectInputs (demo_env False) demo_spender demo_inputs Map.empty (demo_pos 9) [] True False 0 True"
  by (rule block_signatures_unchecked) simp

end
