(* ===== verification/BlockConnect.thy ===== *)
theory BlockConnect
  imports TxConnect ChainIndex Mempool
begin

text \<open>
  Connecting and disconnecting blocks, in \<open>src/src/main.cpp\<close>: \<open>FetchInputs\<close>, \<open>GetCoinAge\<close>,
  \<open>ConnectBlock\<close> and \<open>DisconnectBlock\<close>.  The index of spent outputs is a map; the record
  \<open>block_env\<close> holds the transactions on disk and the memory pool besides what the checks of a block depend on.
  The optional address index, the entries of the block index on disk and the wallets are left out.
\<close>

section \<open>Fetching the inputs\<close>

record block_env = connect_env +
  ReadTx :: "CDiskTxPos \<Rightarrow> CTransaction option"
  tx_pool :: CTxMemPool

datatype fetch_error = F_not_found | F_mempool | F_disk | F_assert | F_out_of_range

definition pos_memory :: CDiskTxPos where
  "pos_memory = \<lparr>nFile = 1, nBlockPos = 1, nTxPos = 1\<rparr>"

text \<open>One input: the entry of the index, from the changes or the database, and the transaction.\<close>

definition fetch_one ::
  "block_env \<Rightarrow> (uint256 \<rightharpoonup> CTxIndex) \<Rightarrow> (uint256 \<rightharpoonup> CTxIndex) \<Rightarrow> bool \<Rightarrow> bool \<Rightarrow>
     uint256 \<Rightarrow> fetch_error + CTxIndex \<times> CTransaction" where
  "fetch_one E txdb mapTestPool fBlock fMiner hash =
     (let found = (if (fBlock \<or> fMiner) \<and> mapTestPool hash \<noteq> None then mapTestPool hash else txdb hash)
      in case found of
           None \<Rightarrow>
             if fBlock \<or> fMiner then Inl F_not_found
             else (case mp_lookup hash (tx_pool E) of
                     None \<Rightarrow> Inl F_mempool
                   | Some txPrev \<Rightarrow> Inr (txindex_null\<lparr>vSpent := replicate (length (vout txPrev)) pos_null\<rparr>, txPrev))
         | Some txindex \<Rightarrow>
             if pos_eq (txi_pos txindex) pos_memory then
               (case mp_lookup hash (tx_pool E) of
                  None \<Rightarrow> Inl F_mempool
                | Some txPrev \<Rightarrow> Inr (txindex, txPrev))
             else (case ReadTx E (txi_pos txindex) of
                     None \<Rightarrow> Inl F_disk
                   | Some txPrev \<Rightarrow> Inr (txindex, txPrev)))"

fun fetch_loop ::
  "block_env \<Rightarrow> (uint256 \<rightharpoonup> CTxIndex) \<Rightarrow> (uint256 \<rightharpoonup> CTxIndex) \<Rightarrow> bool \<Rightarrow> bool \<Rightarrow>
     MapPrevTx \<Rightarrow> CTxIn list \<Rightarrow> fetch_error + MapPrevTx" where
  "fetch_loop E txdb mapTestPool fBlock fMiner inputsRet [] = Inr inputsRet"
| "fetch_loop E txdb mapTestPool fBlock fMiner inputsRet (txin # rest) =
     (let hash = op_hash (prevout txin)
      in if inputsRet hash \<noteq> None then fetch_loop E txdb mapTestPool fBlock fMiner inputsRet rest
         else rbind (fetch_one E txdb mapTestPool fBlock fMiner hash) (\<lambda>r.
              fetch_loop E txdb mapTestPool fBlock fMiner (inputsRet(hash \<mapsto> r)) rest))"

fun fetch_range :: "MapPrevTx \<Rightarrow> CTxIn list \<Rightarrow> fetch_error + unit" where
  "fetch_range inputsRet [] = Inr ()"
| "fetch_range inputsRet (txin # rest) =
     (case inputsRet (op_hash (prevout txin)) of
        None \<Rightarrow> Inl F_assert
      | Some (txindex, txPrev) \<Rightarrow>
          let n = unat (op_n (prevout txin))
          in if n \<ge> length (vout txPrev) \<or> n \<ge> length (vSpent txindex) then Inl F_out_of_range
             else fetch_range inputsRet rest)"

text \<open>The flag \<open>fInvalid\<close> is set for \<open>F_out_of_range\<close> only.\<close>

definition FetchInputs ::
  "block_env \<Rightarrow> CTransaction \<Rightarrow> (uint256 \<rightharpoonup> CTxIndex) \<Rightarrow> (uint256 \<rightharpoonup> CTxIndex) \<Rightarrow> bool \<Rightarrow> bool \<Rightarrow>
     fetch_error + MapPrevTx" where
  "FetchInputs E tx txdb mapTestPool fBlock fMiner =
     (if IsCoinBase tx then Inr Map.empty
      else rbind (fetch_loop E txdb mapTestPool fBlock fMiner Map.empty (vin tx)) (\<lambda>inputsRet.
           rbind (fetch_range inputsRet (vin tx)) (\<lambda>_. Inr inputsRet)))"

section \<open>Coin age\<close>

definition ReadFromDisk_prevout ::
  "block_env \<Rightarrow> (uint256 \<rightharpoonup> CTxIndex) \<Rightarrow> COutPoint \<Rightarrow> (CTransaction \<times> CTxIndex) option" where
  "ReadFromDisk_prevout E txdb p =
     (case txdb (op_hash p) of
        None \<Rightarrow> None
      | Some txindex \<Rightarrow>
          (case ReadTx E (txi_pos txindex) of
             None \<Rightarrow> None
           | Some tx \<Rightarrow> if unat (op_n p) \<ge> length (vout tx) then None else Some (tx, txindex)))"

abbreviation positions :: "pindex \<Rightarrow> block_pos list" where
  "positions p \<equiv> map block_pos.truncate p"

fun coin_age_loop ::
  "block_env \<Rightarrow> (uint256 \<rightharpoonup> CTxIndex) \<Rightarrow> pindex \<Rightarrow> uint32 \<Rightarrow> int \<Rightarrow> CTxIn list \<Rightarrow> int option" where
  "coin_age_loop E txdb pindexPrev nTime bnCentSecond [] = Some bnCentSecond"
| "coin_age_loop E txdb pindexPrev nTime bnCentSecond (txin # rest) =
     (case ReadFromDisk_prevout E txdb (prevout txin) of
        None \<Rightarrow> coin_age_loop E txdb pindexPrev nTime bnCentSecond rest
      | Some (txPrev, txindex) \<Rightarrow>
          if nTime < tx_nTime txPrev then None
          else if IsConfirmedInNPrevBlocks txindex (positions pindexPrev) (STAKE_MIN_CONFIRMATIONS - 1) \<noteq> None
          then coin_age_loop E txdb pindexPrev nTime bnCentSecond rest
          else
            let nValueIn = nValue (vout txPrev ! unat (op_n (prevout txin)))
            in coin_age_loop E txdb pindexPrev nTime
                 (bnCentSecond + (sint nValueIn * uint (nTime - tx_nTime txPrev)) sdiv CENT) rest)"

definition GetCoinAge :: "block_env \<Rightarrow> CTransaction \<Rightarrow> (uint256 \<rightharpoonup> CTxIndex) \<Rightarrow> pindex \<Rightarrow> uint64 option" where
  "GetCoinAge E tx txdb pindexPrev =
     (if IsCoinBase tx then Some 0
      else case coin_age_loop E txdb pindexPrev (tx_nTime tx) 0 (vin tx) of
        None \<Rightarrow> None
      | Some bnCentSecond \<Rightarrow>
          Some (bignum_getuint64 (bn_bn2mpi E) (((bnCentSecond * CENT) sdiv COIN) sdiv (24 * 60 * 60))))"

section \<open>Connecting a block\<close>

record connect_state =
  cs_nTxPos :: uint32
  mapQueuedChanges :: "uint256 \<rightharpoonup> CTxIndex"
  cs_nFees :: int64
  cs_nValueIn :: int64
  cs_nValueOut :: int64
  cs_nStakeReward :: int64
  cs_nSigOps :: nat

datatype block_error =
    B_check block_check_error | B_sigops | B_fetch fetch_error | B_connect connect_error | B_throw
  | B_reward | B_coin_age | B_stake_reward | B_null

definition connect_env_of :: "block_env \<Rightarrow> connect_env" where
  "connect_env_of E = connect_env.truncate E"

definition lift_error :: "('e \<Rightarrow> 'f) \<Rightarrow> 'e + 'a \<Rightarrow> 'f + 'a" where
  "lift_error f r = (case r of Inl e \<Rightarrow> Inl (f e) | Inr x \<Rightarrow> Inr x)"

text \<open>The turn of the loop for one transaction.\<close>

definition connect_tx ::
  "block_env \<Rightarrow> (uint256 \<rightharpoonup> CTxIndex) \<Rightarrow> pindex \<Rightarrow> bool \<Rightarrow> uint32 \<Rightarrow> CTransaction \<Rightarrow> connect_state \<Rightarrow>
     block_error + connect_state" where
  "connect_tx E txdb p fJustCheck flags tx s =
     (let hashTx = tx_GetHash (HashBytes E) tx;
          nSigOps = cs_nSigOps s + GetLegacySigOpCount tx;
          posThisTx = \<lparr>nFile = bp_nFile (hd p), nBlockPos = bp_nBlockPos (hd p), nTxPos = cs_nTxPos s\<rparr>;
          s = s\<lparr>cs_nSigOps := nSigOps,
                cs_nTxPos := (if \<not> fJustCheck then cs_nTxPos s + of_nat (length (write_tx tx)) else cs_nTxPos s)\<rparr>
      in if nSigOps > MAX_BLOCK_SIGOPS then Inl B_sigops
         else
           rbind
             (if IsCoinBase tx then
                rbind (lift_error (\<lambda>_. B_throw) (GetValueOut tx)) (\<lambda>v.
                Inr (s\<lparr>cs_nValueOut := cs_nValueOut s + v\<rparr>))
              else
                rbind (lift_error B_fetch (FetchInputs E tx txdb (mapQueuedChanges s) True False)) (\<lambda>mapInputs.
                rbind (lift_error (\<lambda>_. B_throw) (GetP2SHSigOpCount tx mapInputs)) (\<lambda>n.
                if nSigOps + n > MAX_BLOCK_SIGOPS then Inl B_sigops
                else
                rbind (lift_error (\<lambda>_. B_throw) (GetValueIn tx mapInputs)) (\<lambda>nTxValueIn.
                rbind (lift_error (\<lambda>_. B_throw) (GetValueOut tx)) (\<lambda>nTxValueOut.
                let s = s\<lparr>cs_nSigOps := nSigOps + n,
                          cs_nValueIn := cs_nValueIn s + nTxValueIn,
                          cs_nValueOut := cs_nValueOut s + nTxValueOut,
                          cs_nFees := (if \<not> IsCoinStake tx then cs_nFees s + (nTxValueIn - nTxValueOut) else cs_nFees s),
                          cs_nStakeReward := (if IsCoinStake tx then nTxValueOut - nTxValueIn else cs_nStakeReward s)\<rparr>
                in rbind (lift_error B_connect
                     (ConnectInputs (connect_env_of E) tx mapInputs (mapQueuedChanges s) posThisTx (positions p)
                        True False flags True)) (\<lambda>pool.
                   Inr (s\<lparr>mapQueuedChanges := pool\<rparr>)))))))
             (\<lambda>s. Inr (s\<lparr>mapQueuedChanges := (mapQueuedChanges s)(hashTx \<mapsto> mk_txindex posThisTx (length (vout tx)))\<rparr>)))"

fun connect_txs ::
  "block_env \<Rightarrow> (uint256 \<rightharpoonup> CTxIndex) \<Rightarrow> pindex \<Rightarrow> bool \<Rightarrow> uint32 \<Rightarrow> CTransaction list \<Rightarrow> connect_state \<Rightarrow>
     block_error + connect_state" where
  "connect_txs E txdb p fJustCheck flags [] s = Inr s"
| "connect_txs E txdb p fJustCheck flags (tx # rest) s =
     rbind (connect_tx E txdb p fJustCheck flags tx s) (connect_txs E txdb p fJustCheck flags rest)"

definition first_tx_pos :: "pindex \<Rightarrow> bool \<Rightarrow> CBlock \<Rightarrow> uint32" where
  "first_tx_pos p fJustCheck block =
     (if fJustCheck then 1
      else bp_nBlockPos (hd p) + of_nat (length (write_block SER_DISK block_null)) -
        (2 * of_nat (GetSizeOfCompactSize 0)) + of_nat (GetSizeOfCompactSize (of_nat (length (vtx block)))))"

definition check_rewards :: "block_env \<Rightarrow> (uint256 \<rightharpoonup> CTxIndex) \<Rightarrow> pindex \<Rightarrow> CBlock \<Rightarrow> connect_state \<Rightarrow> block_error + unit" where
  "check_rewards E txdb p block s =
     (if block_IsProofOfWork block then
        let nReward = GetProofOfWorkReward (bp_nHeight (hd p)) (cs_nFees s)
        in case vtx block of
             [] \<Rightarrow> Inl B_null
           | tx # _ \<Rightarrow>
               rbind (lift_error (\<lambda>_. B_throw) (GetValueOut tx)) (\<lambda>v.
               if sint v > sint nReward then Inl B_reward else Inr ())
      else
        case GetCoinAge E (vtx block ! 1) txdb (tl p) of
          None \<Rightarrow> Inl B_coin_age
        | Some nCoinAge \<Rightarrow>
            if tl p = [] then Inl B_null
            else if sint (cs_nStakeReward s) > sint (GetProofOfStakeReward (tl p) nCoinAge (cs_nFees s))
            then Inl B_stake_reward else Inr ())"

definition init_state :: "uint32 \<Rightarrow> connect_state" where
  "init_state pos = \<lparr>cs_nTxPos = pos, mapQueuedChanges = Map.empty, cs_nFees = 0, cs_nValueIn = 0,
     cs_nValueOut = 0, cs_nStakeReward = 0, cs_nSigOps = 0\<rparr>"

text \<open>
  The result is what the code writes: the amounts minted and in circulation after the block, and the
  index.  \<open>supply\<close> is the \<open>nMoneySupply\<close> of the block before.
\<close>

definition ConnectBlock ::
  "block_env \<Rightarrow> (uint256 \<rightharpoonup> CTxIndex) \<Rightarrow> int64 \<Rightarrow> pindex \<Rightarrow> bool \<Rightarrow> CBlock \<Rightarrow>
     block_error + (int64 \<times> int64) \<times> (uint256 \<rightharpoonup> CTxIndex)" where
  "ConnectBlock E txdb supply p fJustCheck block =
     rbind (lift_error B_check (CheckBlock E (\<not> fJustCheck) (\<not> fJustCheck) False block)) (\<lambda>_.
        rbind (connect_txs E txdb p fJustCheck SCRIPT_VERIFY_NOCACHE (vtx block)
                 (init_state (first_tx_pos p fJustCheck block))) (\<lambda>s.
        rbind (check_rewards E txdb p block s) (\<lambda>_.
        let nMint = cs_nValueOut s - cs_nValueIn s + cs_nFees s;
            nMoneySupply = (if tl p \<noteq> [] then supply else 0) + cs_nValueOut s - cs_nValueIn s
        in Inr ((nMint, nMoneySupply), if fJustCheck then txdb else txdb ++ mapQueuedChanges s))))"

text \<open>The pool is not looked at by the checks of the block.\<close>

lemma CheckBlock_pool: "CheckBlock (E\<lparr>tx_pool := P\<rparr>) = CheckBlock E"
proof -
  have "check_env.truncate (E\<lparr>tx_pool := P\<rparr>) = check_env.truncate E"
    by (cases E) (simp add: check_env.defs)
  then show ?thesis using CheckBlock_truncate[of "E\<lparr>tx_pool := P\<rparr>"] CheckBlock_truncate[of E] by simp
qed

section \<open>Disconnecting a block\<close>

fun disconnect_txs ::
  "(bytes \<Rightarrow> uint256) \<Rightarrow> CTransaction list \<Rightarrow> (uint256 \<rightharpoonup> CTxIndex) \<Rightarrow> disconnect_error + (uint256 \<rightharpoonup> CTxIndex)" where
  "disconnect_txs H [] txdb = Inr txdb"
| "disconnect_txs H (tx # rest) txdb = rbind (DisconnectInputs H tx txdb) (disconnect_txs H rest)"

definition DisconnectBlock ::
  "(bytes \<Rightarrow> uint256) \<Rightarrow> CBlock \<Rightarrow> (uint256 \<rightharpoonup> CTxIndex) \<Rightarrow> disconnect_error + (uint256 \<rightharpoonup> CTxIndex)" where
  "DisconnectBlock H block txdb = disconnect_txs H (rev (vtx block)) txdb"

section \<open>The index behind the queue\<close>

text \<open>What the loop sees: the database under the queued changes.\<close>

lemma fetch_one_view:
  "fetch_one E txdb pool True m h = Inr (t, prev) \<Longrightarrow> (txdb ++ pool) h = Some t"
  by (auto simp: fetch_one_def Let_def map_add_def split: option.splits if_splits)

lemma fetch_loop_view:
  assumes "fetch_loop E txdb pool True m inputs ins = Inr inputs'"
    and "\<And>h t prev. inputs h = Some (t, prev) \<Longrightarrow> (txdb ++ pool) h = Some t"
    and "inputs' h = Some (t, prev)"
  shows "(txdb ++ pool) h = Some t"
  using assms
proof (induction ins arbitrary: inputs)
  case (Cons i ins)
  let ?h = "op_hash (prevout i)"
  show ?case
  proof (cases "inputs ?h")
    case None
    then obtain r where r: "fetch_one E txdb pool True m ?h = Inr r"
      "fetch_loop E txdb pool True m (inputs(?h \<mapsto> r)) ins = Inr inputs'"
      using Cons.prems(1) by (auto simp: Let_def rbind_Inr_iff)
    show ?thesis
    proof (rule Cons.IH[OF r(2) _ Cons.prems(3)])
      fix h t prev
      assume "(inputs(?h \<mapsto> r)) h = Some (t, prev)"
      then show "(txdb ++ pool) h = Some t"
        using Cons.prems(2) fetch_one_view[of E txdb pool m ?h t prev] r(1) by (auto split: if_splits)
    qed
  next
    case (Some r)
    then show ?thesis using Cons by (auto simp: Let_def)
  qed
qed simp

lemma fetch_range_ok: "fetch_range inputs ins = Inr () \<Longrightarrow> in_range (indexes inputs) ins"
proof (induction ins)
  case (Cons i ins)
  then show ?case by (cases "inputs (op_hash (prevout i))") (auto simp: Let_def in_range_def split: prod.splits if_splits)
qed (simp add: in_range_def)

lemma FetchInputs_view:
  assumes "FetchInputs E tx txdb pool True m = Inr inputs" "\<not> IsCoinBase tx"
  shows "in_range (indexes inputs) (vin tx)" "\<And>h t prev. inputs h = Some (t, prev) \<Longrightarrow> (txdb ++ pool) h = Some t"
  using assms fetch_range_ok fetch_loop_view[of E txdb pool m Map.empty "vin tx" inputs]
  by (auto simp: FetchInputs_def rbind_Inr_iff)

text \<open>A transaction's change of the index.\<close>

definition index_step :: "CDiskTxPos \<Rightarrow> uint256 \<Rightarrow> CTransaction \<Rightarrow> (uint256 \<rightharpoonup> CTxIndex) \<Rightarrow> (uint256 \<rightharpoonup> CTxIndex)" where
  "index_step pos hashTx tx V =
     (if IsCoinBase tx then V else marked pos V (vin tx) V)(hashTx \<mapsto> mk_txindex pos (length (vout tx)))"

definition spendable :: "CTransaction \<Rightarrow> (uint256 \<rightharpoonup> CTxIndex) \<Rightarrow> bool" where
  "spendable tx V \<longleftrightarrow> IsCoinBase tx \<or> (distinct (map prevout (vin tx)) \<and> unspent V (vin tx))"

lemma unspent_cong:
  "in_range idx ins \<Longrightarrow> (\<And>h t. idx h = Some t \<Longrightarrow> V h = Some t) \<Longrightarrow> unspent idx ins \<longleftrightarrow> unspent V ins"
  unfolding unspent_def in_range_def list_all_iff by (intro ball_cong refl) (metis option.inject)

lemma in_range_outs: "in_range idx ins \<Longrightarrow> outs_of h ins \<noteq> {} \<Longrightarrow> idx h \<noteq> None"
  by (auto simp: in_range_def list_all_iff outs_of_def)

lemma marked_view:
  assumes "in_range idx ins" "\<And>h t. idx h = Some t \<Longrightarrow> (db ++ pool) h = Some t"
  shows "db ++ marked pos idx ins pool = marked pos (db ++ pool) ins (db ++ pool)"
proof
  fix h
  show "(db ++ marked pos idx ins pool) h = marked pos (db ++ pool) ins (db ++ pool) h"
  proof (cases "outs_of h ins = {}")
    case True
    then show ?thesis by (simp add: marked_def map_add_def)
  next
    case False
    then obtain t where "idx h = Some t" using in_range_outs[OF assms(1)] by blast
    then show ?thesis using False assms(2) by (simp add: marked_def map_add_def)
  qed
qed

definition tx_pos :: "pindex \<Rightarrow> connect_state \<Rightarrow> CDiskTxPos" where
  "tx_pos p s = \<lparr>nFile = bp_nFile (hd p), nBlockPos = bp_nBlockPos (hd p), nTxPos = cs_nTxPos s\<rparr>"

lemma lift_error_Inr [simp]: "lift_error f r = Inr x \<longleftrightarrow> r = Inr x"
  by (cases r) (simp_all add: lift_error_def)

lemma connect_tx_view:
  assumes c: "connect_tx E txdb p fJustCheck flags tx s = Inr s'" and f: "bp_nFile (hd p) \<noteq> - 1"
  shows "spendable tx (txdb ++ mapQueuedChanges s) \<and>
    txdb ++ mapQueuedChanges s' =
      index_step (tx_pos p s) (tx_GetHash (HashBytes E) tx) tx (txdb ++ mapQueuedChanges s)"
proof (cases "IsCoinBase tx")
  case True
  then show ?thesis using c
    by (auto simp: connect_tx_def Let_def rbind_Inr_iff index_step_def spendable_def tx_pos_def split: if_splits)
next
  case False
  have np: "\<not> pos_IsNull (tx_pos p s)" using f by (simp add: pos_IsNull_def tx_pos_def)
  obtain inputs pool where fe: "FetchInputs E tx txdb (mapQueuedChanges s) True False = Inr inputs"
    and ci: "ConnectInputs (connect_env_of E) tx inputs (mapQueuedChanges s) (tx_pos p s) (positions p)
        True False flags True = Inr pool"
    and s': "mapQueuedChanges s' = pool(tx_GetHash (HashBytes E) tx \<mapsto> mk_txindex (tx_pos p s) (length (vout tx)))"
    using c False by (auto simp: connect_tx_def Let_def rbind_Inr_iff tx_pos_def split: if_splits)
  note v = FetchInputs_view[OF fe False]
  have ix: "\<And>h t. indexes inputs h = Some t \<Longrightarrow> (txdb ++ mapQueuedChanges s) h = Some t"
    using v(2) by auto
  note ok = iffD1[OF ConnectInputs_iff[OF False np] ci]
  have "unspent (txdb ++ mapQueuedChanges s) (vin tx)"
    using ok unspent_cong[OF v(1) ix] by simp
  moreover have "txdb ++ pool = marked (tx_pos p s) (txdb ++ mapQueuedChanges s) (vin tx) (txdb ++ mapQueuedChanges s)"
    using ok marked_view[OF v(1) ix] by simp
  ultimately show ?thesis using False ok by (simp add: spendable_def index_step_def s')
qed

lemma connect_tx_nTxPos_file: "tx_pos p s = tx_pos p s\<lparr>nTxPos := cs_nTxPos s\<rparr>"
  by (simp add: tx_pos_def)

section \<open>Disconnecting what was connected\<close>

definition entries_ok :: "(uint256 \<rightharpoonup> CTxIndex) \<Rightarrow> bool" where
  "entries_ok V \<longleftrightarrow> (\<forall>t \<in> ran V. index_ok t)"

lemma entries_okD: "entries_ok V \<Longrightarrow> V h = Some t \<Longrightarrow> index_ok t"
  by (auto simp: entries_ok_def ran_def)

lemma index_ok_spent: "index_ok t \<Longrightarrow> \<not> pos_IsNull pos \<Longrightarrow> index_ok (spent_with pos S t)"
  by (auto simp: index_ok_def list_all_length nth_spent_with)

lemma index_ok_new: "index_ok (mk_txindex pos n)"
  by (simp add: index_ok_def mk_txindex_def list_all_iff)

lemma entries_ok_step:
  assumes "entries_ok V" "\<not> pos_IsNull pos"
  shows "entries_ok (index_step pos hashTx tx V)"
proof -
  have "index_ok t" if "marked pos V ins V h = Some t" for h t ins
    using that assms by (auto simp: marked_def intro: index_ok_spent dest: entries_okD split: if_splits)
  then show ?thesis
    using assms(1) unfolding entries_ok_def index_step_def ran_def
    by (auto intro: index_ok_new split: if_splits)
qed

lemma DisconnectInputs_step:
  assumes e: "entries_ok V" and n: "\<not> pos_IsNull pos" and s: "spendable tx V" and new: "V (tx_GetHash H tx) = None"
  shows "DisconnectInputs H tx (index_step pos (tx_GetHash H tx) tx V) = Inr V"
proof (cases "IsCoinBase tx")
  case True
  then show ?thesis using new by (auto simp: DisconnectInputs_def index_step_def fun_eq_iff)
next
  case False
  let ?h = "tx_GetHash H tx" and ?S = "\<lambda>h. outs_of h (vin tx)"
  let ?V = "index_step pos ?h tx V"
  have u: "unspent V (vin tx)" using s False by (simp add: spendable_def)
  then have rV: "in_range V (vin tx)" by (auto simp: unspent_def in_range_def list_all_iff)
  have empty: "?S ?h = {}" using in_range_outs[OF rV, of ?h] new by auto
  have Vh: "?V h = map_option (spent_with pos (?S h)) (V h)" if "h \<noteq> ?h" for h
    using that False by (simp add: index_step_def marked_def map_option_case split: option.split)
  have ne: "op_hash (prevout i) \<noteq> ?h" if "i \<in> set (vin tx)" for i
    using that empty by (auto simp: outs_of_def)
  have r: "in_range ?V (vin tx)"
    unfolding in_range_def list_all_iff
  proof
    fix i
    assume i: "i \<in> set (vin tx)"
    then obtain t where "V (op_hash (prevout i)) = Some t" "unat (op_n (prevout i)) < length (vSpent t)"
      using rV by (auto simp: in_range_def list_all_iff)
    then show "\<exists>t. ?V (op_hash (prevout i)) = Some t \<and> unat (op_n (prevout i)) < length (vSpent t)"
      using Vh[OF ne[OF i]] by simp
  qed
  have restored: "spent_with pos_null (?S h) (spent_with pos (?S h) t) = t" if "V h = Some t" for h t
  proof (rule unspend)
    fix k
    assume k: "k \<in> ?S h" "k < length (vSpent t)"
    then obtain i where "i \<in> set (vin tx)" "op_hash (prevout i) = h" "k = unat (op_n (prevout i))"
      by (auto simp: outs_of_def)
    then have "pos_IsNull (vSpent t ! k)" using u that by (auto simp: unspent_def list_all_iff)
    then show "vSpent t ! k = pos_null"
      using entries_okD[OF e that] k by (simp add: index_ok_def list_all_length)
  qed
  have "(\<lambda>h. map_option (spent_with pos_null (?S h)) (?V h))(?h := None) = V"
  proof
    fix h
    show "((\<lambda>h. map_option (spent_with pos_null (?S h)) (?V h))(?h := None)) h = V h"
      using new Vh[of h] restored by (cases "h = ?h"; cases "V h") auto
  qed
  then show ?thesis using False disconnect_loop_ok[OF r] by (simp add: DisconnectInputs_def)
qed

lemma disconnect_txs_append:
  "disconnect_txs H (xs @ ys) db = rbind (disconnect_txs H xs db) (disconnect_txs H ys)"
  by (induction xs arbitrary: db) (simp_all add: rbind_def split: sum.splits)

text \<open>The transactions are new, and no two of them have the same hash.\<close>

definition new_txs :: "(bytes \<Rightarrow> uint256) \<Rightarrow> CTransaction list \<Rightarrow> (uint256 \<rightharpoonup> CTxIndex) \<Rightarrow> bool" where
  "new_txs H txs V \<longleftrightarrow> distinct (map (tx_GetHash H) txs) \<and> tx_GetHash H ` set txs \<inter> dom V = {}"

lemma index_step_dom:
  "spendable tx V \<Longrightarrow> dom (index_step pos h tx V) = insert h (dom V)"
proof -
  assume s: "spendable tx V"
  have "dom (marked pos V (vin tx) V) = dom V" by (auto simp: marked_def split: if_splits)
  then show ?thesis by (auto simp: index_step_def)
qed

text \<open>What the transactions of a block do to the index, one after the other.\<close>

fun index_txs :: "(bytes \<Rightarrow> uint256) \<Rightarrow> pindex \<Rightarrow> uint32 \<Rightarrow> CTransaction list \<Rightarrow> (uint256 \<rightharpoonup> CTxIndex) \<Rightarrow> (uint256 \<rightharpoonup> CTxIndex)" where
  "index_txs H p pos [] V = V"
| "index_txs H p pos (tx # txs) V =
     index_txs H p (pos + of_nat (length (write_tx tx))) txs
       (index_step \<lparr>nFile = bp_nFile (hd p), nBlockPos = bp_nBlockPos (hd p), nTxPos = pos\<rparr> (tx_GetHash H tx) tx V)"

fun txs_spendable :: "(bytes \<Rightarrow> uint256) \<Rightarrow> pindex \<Rightarrow> uint32 \<Rightarrow> CTransaction list \<Rightarrow> (uint256 \<rightharpoonup> CTxIndex) \<Rightarrow> bool" where
  "txs_spendable H p pos [] V = True"
| "txs_spendable H p pos (tx # txs) V =
     (spendable tx V \<and>
      txs_spendable H p (pos + of_nat (length (write_tx tx))) txs
       (index_step \<lparr>nFile = bp_nFile (hd p), nBlockPos = bp_nBlockPos (hd p), nTxPos = pos\<rparr> (tx_GetHash H tx) tx V))"

lemma connect_tx_pos:
  "connect_tx E txdb p False flags tx s = Inr s' \<Longrightarrow> cs_nTxPos s' = cs_nTxPos s + of_nat (length (write_tx tx))"
  by (auto simp: connect_tx_def Let_def rbind_Inr_iff split: if_splits)

lemma connect_txs_index:
  assumes "connect_txs E txdb p False flags txs s = Inr s'" "bp_nFile (hd p) \<noteq> - 1"
  shows "txdb ++ mapQueuedChanges s' = index_txs (HashBytes E) p (cs_nTxPos s) txs (txdb ++ mapQueuedChanges s) \<and>
    txs_spendable (HashBytes E) p (cs_nTxPos s) txs (txdb ++ mapQueuedChanges s)"
  using assms
proof (induction txs arbitrary: s)
  case (Cons tx txs)
  obtain s1 where s1: "connect_tx E txdb p False flags tx s = Inr s1"
    "connect_txs E txdb p False flags txs s1 = Inr s'"
    using Cons.prems(1) by (auto simp: rbind_Inr_iff)
  show ?case
    using connect_tx_view[OF s1(1) Cons.prems(2)] connect_tx_pos[OF s1(1)] Cons.IH[OF s1(2) Cons.prems(2)]
    by (simp add: tx_pos_def)
qed simp

lemma index_txs_dom:
  "txs_spendable H p pos txs V \<Longrightarrow> dom (index_txs H p pos txs V) = tx_GetHash H ` set txs \<union> dom V"
  by (induction txs arbitrary: pos V) (auto simp: index_step_dom)

lemma index_txs_disconnect:
  assumes "txs_spendable H p pos txs V" "bp_nFile (hd p) \<noteq> - 1" "entries_ok V" "new_txs H txs V"
  shows "disconnect_txs H (rev txs) (index_txs H p pos txs V) = Inr V \<and> entries_ok (index_txs H p pos txs V)"
  using assms
proof (induction txs arbitrary: pos V)
  case (Cons tx txs)
  let ?pos = "\<lparr>nFile = bp_nFile (hd p), nBlockPos = bp_nBlockPos (hd p), nTxPos = pos\<rparr>"
  let ?h = "tx_GetHash H tx"
  let ?V = "index_step ?pos ?h tx V"
  have np: "\<not> pos_IsNull ?pos" using Cons.prems(2) by (simp add: pos_IsNull_def)
  have sp: "spendable tx V" using Cons.prems(1) by simp
  have n1: "new_txs H txs ?V" and new: "V ?h = None"
    using Cons.prems(4) unfolding new_txs_def index_step_dom[OF sp] by auto
  have "txs_spendable H p (pos + of_nat (length (write_tx tx))) txs ?V" using Cons.prems(1) by simp
  note ih = Cons.IH[OF this Cons.prems(2) entries_ok_step[OF Cons.prems(3) np] n1]
  show ?case
    using ih DisconnectInputs_step[OF Cons.prems(3) np sp new] by (simp add: disconnect_txs_append)
qed simp

section \<open>No output is spent twice\<close>

definition spent :: "(uint256 \<rightharpoonup> CTxIndex) \<Rightarrow> COutPoint \<Rightarrow> bool" where
  "spent V p \<longleftrightarrow> (\<exists>t. V (op_hash p) = Some t \<and> unat (op_n p) < length (vSpent t) \<and>
     \<not> pos_IsNull (vSpent t ! unat (op_n p)))"

definition spends_of :: "CTransaction \<Rightarrow> COutPoint list" where
  "spends_of tx = (if IsCoinBase tx then [] else map prevout (vin tx))"

lemma unspent_not_spent: "unspent V ins \<Longrightarrow> i \<in> set ins \<Longrightarrow> \<not> spent V (prevout i)"
  by (auto simp: unspent_def spent_def list_all_iff)

lemma spends_of_spendable: "spendable tx V \<Longrightarrow> distinct (spends_of tx) \<and> list_all (\<lambda>p. \<not> spent V p) (spends_of tx)"
  by (auto simp: spendable_def spends_of_def list_all_iff dest: unspent_not_spent)

lemma spent_step:
  assumes s: "spendable tx V" and np: "\<not> pos_IsNull pos" and new: "V h = None"
    and p: "spent V p \<or> p \<in> set (spends_of tx)"
  shows "spent (index_step pos h tx V) p"
proof -
  obtain t where t: "V (op_hash p) = Some t" "unat (op_n p) < length (vSpent t)"
    and c: "\<not> pos_IsNull (vSpent t ! unat (op_n p)) \<or> (\<not> IsCoinBase tx \<and> unat (op_n p) \<in> outs_of (op_hash p) (vin tx))"
    using p s by (auto simp: spent_def spends_of_def spendable_def unspent_def list_all_iff outs_of_def split: if_splits)
  have "op_hash p \<noteq> h" using t new by auto
  then show ?thesis
    using t c np by (auto simp: spent_def index_step_def marked_def nth_spent_with)
qed

lemma connect_txs_spends:
  assumes "connect_txs E txdb p fJustCheck flags txs s = Inr s'" "bp_nFile (hd p) \<noteq> - 1"
    and "new_txs (HashBytes E) txs (txdb ++ mapQueuedChanges s)"
  shows "distinct (concat (map spends_of txs)) \<and>
    list_all (\<lambda>p. \<not> spent (txdb ++ mapQueuedChanges s) p \<and> spent (txdb ++ mapQueuedChanges s') p) (concat (map spends_of txs)) \<and>
    (\<forall>p. spent (txdb ++ mapQueuedChanges s) p \<longrightarrow> spent (txdb ++ mapQueuedChanges s') p)"
  using assms
proof (induction txs arbitrary: s)
  case (Cons tx txs)
  let ?V = "txdb ++ mapQueuedChanges s"
  let ?h = "tx_GetHash (HashBytes E) tx"
  obtain s1 where s1: "connect_tx E txdb p fJustCheck flags tx s = Inr s1"
    "connect_txs E txdb p fJustCheck flags txs s1 = Inr s'"
    using Cons.prems(1) by (auto simp: rbind_Inr_iff)
  note v = connect_tx_view[OF s1(1) Cons.prems(2)]
  have np: "\<not> pos_IsNull (tx_pos p s)" using Cons.prems(2) by (simp add: pos_IsNull_def tx_pos_def)
  have dom1: "dom (txdb ++ mapQueuedChanges s1) = insert ?h (dom ?V)"
    using v index_step_dom by metis
  have n1: "new_txs (HashBytes E) txs (txdb ++ mapQueuedChanges s1)" and new: "?V ?h = None"
    using Cons.prems(3) unfolding new_txs_def dom1 by auto
  note ih = Cons.IH[OF s1(2) Cons.prems(2) n1]
  have step: "spent (txdb ++ mapQueuedChanges s1) q" if "spent ?V q \<or> q \<in> set (spends_of tx)" for q
    using spent_step[OF _ np new that] v by simp
  have own: "distinct (spends_of tx)" "list_all (\<lambda>p. \<not> spent ?V p) (spends_of tx)"
    using spends_of_spendable v by blast+
  have "set (spends_of tx) \<inter> set (concat (map spends_of txs)) = {}"
    using ih step by (auto simp: list_all_iff)
  then show ?case
    using ih own by (auto simp: list_all_iff intro: step dest: step[OF disjI1])
qed simp

section \<open>Properties\<close>

text \<open>The facts a successful \<open>ConnectBlock\<close> rests on.\<close>

lemma ConnectBlock_run:
  assumes "ConnectBlock E db supply p False blk = Inr (amounts, db')"
  shows "\<exists>s. connect_txs E db p False SCRIPT_VERIFY_NOCACHE (vtx blk) (init_state (first_tx_pos p False blk)) = Inr s \<and>
    db' = db ++ mapQueuedChanges s"
  using assms by (auto simp: ConnectBlock_def Let_def rbind_Inr_iff split: if_splits)

definition index_block :: "(bytes \<Rightarrow> uint256) \<Rightarrow> pindex \<Rightarrow> CBlock \<Rightarrow> (uint256 \<rightharpoonup> CTxIndex) \<Rightarrow> (uint256 \<rightharpoonup> CTxIndex)" where
  "index_block H p blk V = index_txs H p (first_tx_pos p False blk) (vtx blk) V"

definition block_spendable :: "(bytes \<Rightarrow> uint256) \<Rightarrow> pindex \<Rightarrow> CBlock \<Rightarrow> (uint256 \<rightharpoonup> CTxIndex) \<Rightarrow> bool" where
  "block_spendable H p blk V \<longleftrightarrow> txs_spendable H p (first_tx_pos p False blk) (vtx blk) V"

lemma ConnectBlock_index:
  assumes "ConnectBlock E db supply p False blk = Inr (amounts, db')" "bp_nFile (hd p) \<noteq> - 1"
  shows "db' = index_block (HashBytes E) p blk db \<and> block_spendable (HashBytes E) p blk db"
proof -
  obtain s where s: "connect_txs E db p False SCRIPT_VERIFY_NOCACHE (vtx blk) (init_state (first_tx_pos p False blk)) = Inr s"
    "db' = db ++ mapQueuedChanges s" using ConnectBlock_run[OF assms(1)] by blast
  show ?thesis
    using connect_txs_index[OF s(1) assms(2)] s(2) by (simp add: init_state_def index_block_def block_spendable_def)
qed

lemma DisconnectBlock_index:
  assumes "block_spendable H p blk db" "bp_nFile (hd p) \<noteq> - 1" "entries_ok db" "new_txs H (vtx blk) db"
  shows "DisconnectBlock H blk (index_block H p blk db) = Inr db \<and> entries_ok (index_block H p blk db)"
  using index_txs_disconnect[OF _ assms(2-4)] assms(1)
  by (simp add: DisconnectBlock_def index_block_def block_spendable_def)

text \<open> C4.
  Disconnecting a block that was connected restores the index of spent outputs exactly, whatever its
  transactions spend, including each other, provided their hashes are new and the free entries of
  the index are the null position.
\<close>

theorem disconnect_undoes_connect:
  assumes "ConnectBlock E db supply p False blk = Inr (amounts, db')" "bp_nFile (hd p) \<noteq> - 1"
    and "entries_ok db" "new_txs (HashBytes E) (vtx blk) db"
  shows "DisconnectBlock (HashBytes E) blk db' = Inr db \<and> entries_ok db'"
  using ConnectBlock_index[OF assms(1,2)] DisconnectBlock_index[OF _ assms(2-4)] by blast

text \<open> C3.
  A block that connects spends no output twice, neither within itself nor again: the outpoints its
  transactions name are pairwise distinct over the whole block, none was spent in the index before,
  and all are spent in the index after, as is all that was spent before.
\<close>

theorem connected_block_spends_once:
  assumes "ConnectBlock E db supply p False blk = Inr (amounts, db')" "bp_nFile (hd p) \<noteq> - 1"
    and "new_txs (HashBytes E) (vtx blk) db"
  shows "distinct (concat (map spends_of (vtx blk))) \<and>
    list_all (\<lambda>q. \<not> spent db q \<and> spent db' q) (concat (map spends_of (vtx blk))) \<and>
    (\<forall>q. spent db q \<longrightarrow> spent db' q)"
proof -
  obtain s where s: "connect_txs E db p False SCRIPT_VERIFY_NOCACHE (vtx blk) (init_state (first_tx_pos p False blk)) = Inr s"
    "db' = db ++ mapQueuedChanges s" using ConnectBlock_run[OF assms(1)] by blast
  show ?thesis
    using connect_txs_spends[OF s(1) assms(2)] assms(3) s(2) by (simp add: init_state_def)
qed

definition demo_coinbase :: CTransaction where
  "demo_coinbase = p2sh_prev []\<lparr>vin := [mk_txin outpoint_null [1, 2] 0]\<rparr>"

definition demo_spend :: CTransaction where
  "demo_spend = p2sh_prev []\<lparr>vin := [mk_txin \<lparr>op_hash = 1000, op_n = 0\<rparr> [] 0]\<rparr>"

definition demo_block_env :: block_env where
  "demo_block_env = connect_env.extend (demo_env True)
     (block_env.fields (\<lambda>_. Some (p2sh_prev [])) \<lparr>nTransactionsUpdated = 0, mapTx = Map.empty, mapNextTx = Map.empty\<rparr>)"

definition demo_blk :: CBlock where
  "demo_blk = block_null\<lparr>nBits := demo_bits, hashMerkleRoot := 64, vtx := [demo_coinbase, demo_spend]\<rparr>"

definition demo_db :: "uint256 \<rightharpoonup> CTxIndex" where
  "demo_db = [1000 \<mapsto> mk_txindex (demo_pos 3) 1]"

definition demo_chain :: pindex where
  "demo_chain = [mk_block_index 1 100 block_null\<lparr>bp_nHeight := 1\<rparr>, mk_block_index 1 0 block_null]"

lemma demo_lengths: "length (write_tx demo_coinbase) = 66" "length (write_tx demo_spend) = 64"
  by (simp_all add: write_tx_def demo_coinbase_def demo_spend_def p2sh_prev_def mk_txin_def write_vec_def
      write_txin_def write_txout_def write_outpoint_def write_bytevec_def write_word_def length_WriteCompactSize
      GetSizeOfCompactSize_def)

lemma demo_block_env_simps [simp]:
  "HashBytes demo_block_env b = word_of_nat (length b)"
  "ReadTx demo_block_env q = Some (p2sh_prev [])" "connect_env_of demo_block_env = demo_env True"
  by (simp_all add: demo_block_env_def demo_env_def demo_check_def check_env.defs connect_env.defs block_env.defs connect_env_of_def)

lemma CheckBlock_demo: "CheckBlock (demo_block_env\<lparr>tx_pool := P\<rparr>) = CheckBlock demo_check"
proof -
  have "check_env.truncate (demo_block_env\<lparr>tx_pool := P\<rparr>) = demo_check"
    by (simp add: demo_block_env_def demo_env_def demo_check_def check_env.defs connect_env.defs block_env.defs)
  then show ?thesis using CheckBlock_truncate[of "demo_block_env\<lparr>tx_pool := P\<rparr>"] by simp
qed

lemma demo_chain_simps [simp]:
  "bp_nFile (hd demo_chain) = 1" "bp_nBlockPos (hd demo_chain) = 100" "bp_nHeight (hd demo_chain) = 1"
  by (simp_all add: demo_chain_def mk_block_index_def block_null_def block_IsProofOfStake_def Let_def)

lemma demo_start: "first_tx_pos demo_chain False demo_blk = 181"
  by (simp add: first_tx_pos_def write_block_def block_header_def block_null_def
      demo_blk_def SER_DISK_def SER_GETHASH_def SER_BLOCKHEADERONLY_def write_vec_def write_bytevec_def write_word_def
      length_WriteCompactSize GetSizeOfCompactSize_def)

lemma demo_sigops: "GetSigOpCount False [] = 0" "GetSigOpCount False [1, 2] = 0"
  by code_simp+

lemma demo_values [simp]:
  "GetValueOut demo_coinbase = Inr 5" "GetValueOut demo_spend = Inr 5"
  "GetLegacySigOpCount demo_coinbase = 0" "GetLegacySigOpCount demo_spend = 0"
  by (simp_all add: GetValueOut_def MoneyRange_def demo_coinbase_def demo_spend_def p2sh_prev_def MAX_MONEY_def COIN_def
      GetLegacySigOpCount_def demo_sigops mk_txin_def)

lemma demo_kinds [simp]: "IsCoinBase demo_coinbase" "\<not> IsCoinBase demo_spend" "\<not> IsCoinStake demo_spend"
  by (simp_all add: IsCoinBase_def IsCoinStake_def demo_coinbase_def demo_spend_def p2sh_prev_def mk_txin_def
      outpoint_IsNull_def outpoint_null_def)

definition demo_fetched :: MapPrevTx where
  "demo_fetched = [1000 \<mapsto> (mk_txindex (demo_pos 3) 1, p2sh_prev [])]"

lemma demo_fetch:
  "pool 1000 = None \<Longrightarrow> FetchInputs demo_block_env demo_spend demo_db pool True False = Inr demo_fetched"
  by (simp add: FetchInputs_def fetch_one_def demo_db_def demo_pos_def pos_memory_def pos_eq_def mk_txindex_def
      rbind_def Let_def demo_fetched_def demo_kinds(2))
    (simp add: demo_spend_def mk_txin_def fetch_one_def demo_db_def demo_pos_def pos_memory_def pos_eq_def mk_txindex_def
      rbind_def Let_def demo_fetched_def p2sh_prev_def)

lemma demo_in: "GetValueIn demo_spend demo_fetched = Inr 5" "GetP2SHSigOpCount demo_spend demo_fetched = Inr 0"
  by (simp_all add: GetValueIn_def GetP2SHSigOpCount_def)
    (simp_all add: demo_spend_def demo_fetched_def GetOutputFor_def p2sh_prev_def mk_txin_def IsPayToScriptHash_def)

lemma demo_connects:
  "\<not> pos_IsNull pos \<Longrightarrow>
    ConnectInputs (demo_env True) demo_spend demo_fetched pool pos chain True False flags True =
      Inr (pool(1000 \<mapsto> \<lparr>txi_pos = demo_pos 3, vSpent = [pos]\<rparr>))"
  by (simp add: ConnectInputs_def demo_kinds(2))
    (simp add: demo_spend_def mk_txin_def demo_fetched_def mk_txindex_def p2sh_prev_def IsCoinBase_def
      IsCoinStake_def MoneyRange_def MAX_MONEY_def COIN_def rbind_def Let_def pos_IsNull_def pos_null_def
      connect_signature_def set_spent_def connect_fees_def GetValueOut_def)

definition demo_pos1 :: CDiskTxPos where "demo_pos1 = \<lparr>nFile = 1, nBlockPos = 100, nTxPos = 181\<rparr>"
definition demo_pos2 :: CDiskTxPos where "demo_pos2 = \<lparr>nFile = 1, nBlockPos = 100, nTxPos = 247\<rparr>"

lemma demo_tx1:
  "connect_tx demo_block_env demo_db demo_chain False f demo_coinbase (init_state 181) =
    Inr ((init_state 247)\<lparr>mapQueuedChanges := [66 \<mapsto> mk_txindex demo_pos1 1], cs_nValueOut := 5\<rparr>)"
proof -
  have "tx_GetHash (HashBytes demo_block_env) demo_coinbase = 66" "length (vout demo_coinbase) = 1"
    by (simp_all add: tx_GetHash_def demo_lengths) (simp add: demo_coinbase_def p2sh_prev_def)
  then show ?thesis
    by (simp add: connect_tx_def Let_def init_state_def rbind_def lift_error_def demo_lengths demo_pos1_def
        MAX_BLOCK_SIGOPS_def)
qed

lemma demo_tx2:
  "\<exists>s. connect_tx demo_block_env demo_db demo_chain False f demo_spend
      ((init_state 247)\<lparr>mapQueuedChanges := [66 \<mapsto> mk_txindex demo_pos1 1], cs_nValueOut := 5\<rparr>) = Inr s \<and> cs_nFees s = 0"
proof -
  have "\<not> pos_IsNull \<lparr>nFile = 1, nBlockPos = 100, nTxPos = 247\<rparr>" by (simp add: pos_IsNull_def)
  note c = demo_connects[OF this]
  show ?thesis
    by (simp add: connect_tx_def Let_def init_state_def rbind_def lift_error_def demo_fetch demo_in c
        MAX_BLOCK_SIGOPS_def MAX_BLOCK_SIZE_def)
qed

lemma demo_txs_valid: "tx_valid demo_coinbase" "tx_valid demo_spend"
  unfolding tx_valid_def
  by (simp_all add: demo_lengths MAX_BLOCK_SIZE_def)
    (simp_all add: demo_coinbase_def demo_spend_def p2sh_prev_def mk_txin_def total_out_def outpoint_null_def
      MAX_MONEY_def COIN_def txout_IsEmpty_def)

lemma demo_blk_checks: "CheckBlock demo_block_env True True False demo_blk = Inr ()"
proof -
  let ?H = "HashBytes demo_check"
  have H: "tx_GetHash ?H demo_coinbase = 66" "tx_GetHash ?H demo_spend = 64" "merkle_node ?H a b = 64" for a b
    by (simp_all add: tx_GetHash_def demo_lengths merkle_node_def write_word_def demo_check_def)
  have "CheckBlock demo_check True True False demo_blk = Inr ()"
  proof (rule demo_check_passes)
    show "vtx demo_blk = demo_coinbase # [demo_spend]" "IsCoinBase demo_coinbase"
      "list_all (\<lambda>tx. \<not> IsCoinBase tx \<and> \<not> IsCoinStake tx) [demo_spend]" "nBits demo_blk = demo_bits"
      "blk_nTime demo_blk = 0"
      by (simp_all add: demo_blk_def block_null_def)
    show "list_all (\<lambda>tx. tx_valid tx \<and> tx_nTime tx = 0) (vtx demo_blk)"
      by (simp add: demo_blk_def demo_txs_valid) (simp add: demo_coinbase_def demo_spend_def p2sh_prev_def)
    show "distinct (map (tx_GetHash ?H) (vtx demo_blk))"
      "sum_list (map GetLegacySigOpCount (vtx demo_blk)) \<le> MAX_BLOCK_SIGOPS"
      by (simp_all add: demo_blk_def H)
    show "length (write_block SER_NETWORK demo_blk) \<le> MAX_BLOCK_SIZE"
      by (simp add: write_block_def length_block_header demo_blk_def write_vec_def write_bytevec_def demo_lengths
          block_null_def length_WriteCompactSize GetSizeOfCompactSize_def MAX_BLOCK_SIZE_def)
    show "merkle_root (merkle_node ?H) (map (tx_GetHash ?H) (vtx demo_blk)) = [hashMerkleRoot demo_blk]"
      by (simp add: demo_blk_def merkle_root.simps H)
  qed
  then show ?thesis using CheckBlock_demo[of "tx_pool demo_block_env"] by simp
qed

lemma demo_run: "\<exists>amounts db'. ConnectBlock demo_block_env demo_db 0 demo_chain False demo_blk = Inr (amounts, db')"
proof -
  obtain s where s: "connect_tx demo_block_env demo_db demo_chain False SCRIPT_VERIFY_NOCACHE demo_spend
      ((init_state 247)\<lparr>mapQueuedChanges := [66 \<mapsto> mk_txindex demo_pos1 1], cs_nValueOut := 5\<rparr>) = Inr s" "cs_nFees s = 0"
    using demo_tx2 by blast
  have "connect_txs demo_block_env demo_db demo_chain False SCRIPT_VERIFY_NOCACHE (vtx demo_blk)
      (init_state (first_tx_pos demo_chain False demo_blk)) = Inr s"
    by (simp add: demo_blk_def demo_start[unfolded demo_blk_def] demo_tx1 s(1)[unfolded One_nat_def] rbind_def)
  moreover have "check_rewards demo_block_env demo_db demo_chain demo_blk s = Inr ()"
    using s(2) by (simp add: check_rewards_def block_IsProofOfWork_def block_IsProofOfStake_def demo_blk_def Let_def
        rbind_def lift_error_def GetProofOfWorkReward_def STAKE_MIN_CONFIRMATIONS_def PREMINE_AMOUNT_def COIN_def
        signed_divide_int_def)
  ultimately show ?thesis using demo_blk_checks by (simp add: ConnectBlock_def rbind_def lift_error_def Let_def)
qed

lemma demo_fresh: "new_txs (HashBytes demo_block_env) (vtx demo_blk) demo_db"
  by (simp add: new_txs_def demo_blk_def tx_GetHash_def demo_lengths demo_db_def)

lemma disconnect_undoes_connect_witness:
  "\<exists>amounts db'. ConnectBlock demo_block_env demo_db 0 demo_chain False demo_blk = Inr (amounts, db') \<and>
    DisconnectBlock (HashBytes demo_block_env) demo_blk db' = Inr demo_db \<and> entries_ok db'"
proof -
  have "entries_ok demo_db" by (simp add: entries_ok_def demo_db_def index_ok_new)
  then show ?thesis
    using demo_run disconnect_undoes_connect[OF _ _ _ demo_fresh] by fastforce
qed

lemma connected_block_spends_once_witness:
  "\<exists>amounts db'. ConnectBlock demo_block_env demo_db 0 demo_chain False demo_blk = Inr (amounts, db') \<and>
    \<not> spent demo_db \<lparr>op_hash = 1000, op_n = 0\<rparr> \<and> spent db' \<lparr>op_hash = 1000, op_n = 0\<rparr>"
proof -
  obtain amounts db' where r: "ConnectBlock demo_block_env demo_db 0 demo_chain False demo_blk = Inr (amounts, db')"
    using demo_run by blast
  have "concat (map spends_of (vtx demo_blk)) = [\<lparr>op_hash = 1000, op_n = 0\<rparr>]"
    by (simp add: demo_blk_def spends_of_def) (simp add: demo_spend_def mk_txin_def)
  then show ?thesis using connected_block_spends_once[OF r _ demo_fresh] r by simp
qed

end
