(* ===== verification/Accept.thy ===== *)
theory Accept
  imports BlockConnect
begin

text \<open>
  \<open>AcceptToMemoryPool\<close> of \<open>src/src/main.cpp\<close>: the checks of a transaction that comes in, in their
  order, and the pool after it.  The record \<open>accept_env\<close> has what the checks ask outside: the height
  and time, the network, the locks of instant transactions, the broadcasts of the mixing protocol, the
  state of the limiter of free transactions and the interpreter for the scripts of the inputs.
\<close>

section \<open>The checks\<close>

definition MAX_TX_SIGOPS :: nat where "MAX_TX_SIGOPS = MAX_BLOCK_SIGOPS div 5"

record accept_env =
  ae_block_env :: block_env
  run_input :: "nat \<Rightarrow> script \<Rightarrow> bytes list option"
  TestNet :: bool
  nBestHeight :: int
  adjustedTime :: int
  ae_pindexBest :: pindex
  mapLockedInputs :: "COutPoint \<rightharpoonup> uint256"
  mapDarksendBroadcastTxes :: "uint256 set"
  free_limited :: bool

datatype accept_error =
    A_check check_error | A_coinbase | A_coinstake | A_nonstandard reason | A_known | A_locked
  | A_pool_conflict | A_confirmed | A_missing_inputs | A_fetch fetch_error | A_throw
  | A_inputs_nonstandard | A_sigops | A_fees | A_free_limited | A_insane_fees
  | A_connect connect_error | A_mandatory connect_error

definition check_locks :: "accept_env \<Rightarrow> uint256 \<Rightarrow> CTransaction \<Rightarrow> bool" where
  "check_locks A hash tx \<longleftrightarrow>
     list_all (\<lambda>txin. case mapLockedInputs A (prevout txin) of None \<Rightarrow> True | Some h \<Rightarrow> h = hash) (vin tx)"

text \<open>The fees; \<open>nFees\<close> is a difference of sums of 64 bits.\<close>

definition check_fees ::
  "accept_env \<Rightarrow> uint256 \<Rightarrow> CTransaction \<Rightarrow> bool \<Rightarrow> bool \<Rightarrow> bool \<Rightarrow> int64 \<Rightarrow> accept_error + unit" where
  "check_fees A hash tx fLimitFree fRejectInsaneFee ignoreFees nFees =
     (if hash \<notin> mapDarksendBroadcastTxes A \<and> \<not> ignoreFees \<and> fLimitFree \<and>
         sint nFees < GetMinFee tx (of_nat (length (write_tx tx))) True GMF_RELAY then Inl A_fees
      else if hash \<notin> mapDarksendBroadcastTxes A \<and> \<not> ignoreFees \<and> fLimitFree \<and>
         sint nFees < MIN_RELAY_TX_FEE \<and> free_limited A then Inl A_free_limited
      else if fRejectInsaneFee \<and> sint nFees > MIN_RELAY_TX_FEE * 10000 then Inl A_insane_fees
      else Inr ())"

text \<open>The checks against the inputs.\<close>

definition accept_inputs ::
  "accept_env \<Rightarrow> uint256 \<Rightarrow> CTransaction \<Rightarrow> (uint256 \<rightharpoonup> CTxIndex) \<Rightarrow> CTxMemPool \<Rightarrow> bool \<Rightarrow> bool \<Rightarrow> bool \<Rightarrow>
     accept_error + unit" where
  "accept_inputs A hash tx txdb pool fLimitFree fRejectInsaneFee ignoreFees =
     (let E = (ae_block_env A)\<lparr>tx_pool := pool\<rparr>
      in rbind (lift_error A_fetch (FetchInputs E tx txdb Map.empty False False)) (\<lambda>mapInputs.
         rbind (if TestNet A then Inr True else lift_error (\<lambda>_. A_throw) (AreInputsStandard (run_input A) tx mapInputs)) (\<lambda>std.
         if \<not> std then Inl A_inputs_nonstandard
         else
         rbind (lift_error (\<lambda>_. A_throw) (GetP2SHSigOpCount tx mapInputs)) (\<lambda>n.
         if GetLegacySigOpCount tx + n > MAX_TX_SIGOPS then Inl A_sigops
         else
         rbind (lift_error (\<lambda>_. A_throw) (GetValueIn tx mapInputs)) (\<lambda>vIn.
         rbind (lift_error (\<lambda>_. A_throw) (GetValueOut tx)) (\<lambda>vOut.
         rbind (check_fees A hash tx fLimitFree fRejectInsaneFee ignoreFees (vIn - vOut)) (\<lambda>_.
         rbind (lift_error A_connect (ConnectInputs (connect_env_of E) tx mapInputs Map.empty pos_memory
           (positions (ae_pindexBest A)) False False STANDARD_SCRIPT_VERIFY_FLAGS True)) (\<lambda>_.
         rbind (lift_error A_mandatory (ConnectInputs (connect_env_of E) tx mapInputs Map.empty pos_memory
           (positions (ae_pindexBest A)) False False MANDATORY_SCRIPT_VERIFY_FLAGS True)) (\<lambda>_.
         Inr ())))))))))"

definition AcceptToMemoryPool ::
  "accept_env \<Rightarrow> CTransaction \<Rightarrow> (uint256 \<rightharpoonup> CTxIndex) \<Rightarrow> CTxMemPool \<Rightarrow> bool \<Rightarrow> bool \<Rightarrow> bool \<Rightarrow>
     accept_error + CTxMemPool" where
  "AcceptToMemoryPool A tx txdb pool fLimitFree fRejectInsaneFee ignoreFees =
     rbind (lift_error A_check (CheckTransaction tx)) (\<lambda>_.
     if IsCoinBase tx then Inl A_coinbase
     else if IsCoinStake tx then Inl A_coinstake
     else
       rbind (if TestNet A then Inr () else lift_error A_nonstandard (IsStandardTx (nBestHeight A) (adjustedTime A) tx)) (\<lambda>_.
       let hash = tx_GetHash (HashBytes (ae_block_env A)) tx
       in if mp_exists hash pool then Inl A_known
          else if \<not> check_locks A hash tx then Inl A_locked
          else if list_ex (\<lambda>txin. mapNextTx pool (prevout txin) \<noteq> None) (vin tx) then Inl A_pool_conflict
          else if txdb hash \<noteq> None then Inl A_confirmed
          else if list_ex (\<lambda>txin. txdb (op_hash (prevout txin)) = None) (vin tx) then Inl A_missing_inputs
          else rbind (accept_inputs A hash tx txdb pool fLimitFree fRejectInsaneFee ignoreFees) (\<lambda>_.
               Inr (snd (addUnchecked hash tx pool)))))"

section \<open>What an accepted transaction satisfies\<close>

lemma fetch_one_db:
  "fetch_one E txdb pool False False h = Inr (t, prev) \<Longrightarrow> txdb h \<noteq> None \<Longrightarrow> txdb h = Some t"
  by (auto simp: fetch_one_def Let_def split: option.splits if_splits)

lemma fetch_loop_db:
  assumes "fetch_loop E txdb pool False False inputs ins = Inr inputs'"
    and "list_all (\<lambda>i. txdb (op_hash (prevout i)) \<noteq> None) ins"
    and "\<And>h t prev. inputs h = Some (t, prev) \<Longrightarrow> txdb h = Some t"
    and "inputs' h = Some (t, prev)"
  shows "txdb h = Some t"
  using assms
proof (induction ins arbitrary: inputs)
  case (Cons i ins)
  let ?h = "op_hash (prevout i)"
  show ?case
  proof (cases "inputs ?h")
    case None
    then obtain r where r: "fetch_one E txdb pool False False ?h = Inr r"
      "fetch_loop E txdb pool False False (inputs(?h \<mapsto> r)) ins = Inr inputs'"
      using Cons.prems(1) by (auto simp: Let_def rbind_Inr_iff)
    show ?thesis
    proof (rule Cons.IH[OF r(2) _ _ Cons.prems(4)])
      show "list_all (\<lambda>i. txdb (op_hash (prevout i)) \<noteq> None) ins" using Cons.prems(2) by simp
      fix h t prev
      assume "(inputs(?h \<mapsto> r)) h = Some (t, prev)"
      then show "txdb h = Some t"
        using Cons.prems(2,3) fetch_one_db[of E txdb pool ?h t prev] r(1) by (auto split: if_splits)
    qed
  next
    case (Some r)
    then show ?thesis using Cons by (auto simp: Let_def)
  qed
qed simp

lemma FetchInputs_db:
  assumes "FetchInputs E tx txdb pool False False = Inr inputs" "\<not> IsCoinBase tx"
    and "list_all (\<lambda>i. txdb (op_hash (prevout i)) \<noteq> None) (vin tx)"
  shows "in_range (indexes inputs) (vin tx)" "\<And>h t. indexes inputs h = Some t \<Longrightarrow> txdb h = Some t"
proof -
  have f: "fetch_loop E txdb pool False False Map.empty (vin tx) = Inr inputs" "fetch_range inputs (vin tx) = Inr ()"
    using assms(1,2) by (auto simp: FetchInputs_def rbind_Inr_iff)
  show "in_range (indexes inputs) (vin tx)" by (rule fetch_range_ok[OF f(2)])
  show "txdb h = Some t" if "indexes inputs h = Some t" for h t
    using that fetch_loop_db[OF f(1) assms(3)] by auto
qed

text \<open>A transaction that fits into a block has few inputs and outputs.\<close>

lemma tx_small: "length (write_tx tx) \<le> MAX_BLOCK_SIZE \<Longrightarrow> length (vin tx) < 2 ^ 32 \<and> length (vout tx) < 2 ^ 32"
proof -
  assume "length (write_tx tx) \<le> MAX_BLOCK_SIZE"
  moreover have "length (vin tx) \<le> length (concat (map write_txin (vin tx)))"
    by (rule length_concat_ge) (simp add: write_txin_def write_outpoint_def write_word_def)
  moreover have "length (vout tx) \<le> length (concat (map write_txout (vout tx)))"
    by (rule length_concat_ge) (simp add: write_txout_def write_word_def)
  ultimately show ?thesis by (simp add: write_tx_def write_vec_def MAX_BLOCK_SIZE_def)
qed

text \<open>The amounts: what the inputs bring is at least what goes out, and the fee is their difference.\<close>

definition fee_ok :: "accept_env \<Rightarrow> CTransaction \<Rightarrow> bool \<Rightarrow> bool \<Rightarrow> bool \<Rightarrow> int \<Rightarrow> bool" where
  "fee_ok A tx fLimitFree fRejectInsaneFee ignoreFees fee \<longleftrightarrow>
     0 \<le> fee \<and>
     (if tx_GetHash (HashBytes (ae_block_env A)) tx \<notin> mapDarksendBroadcastTxes A \<and> \<not> ignoreFees \<and> fLimitFree
      then GetMinFee tx (of_nat (length (write_tx tx))) True GMF_RELAY \<le> fee else True) \<and>
     (if fRejectInsaneFee then fee \<le> MIN_RELAY_TX_FEE * 10000 else True)"

lemma GetValueIn_loop_total:
  assumes "GetValueIn_loop ins inputs acc = Inr v" "list_all (prev_ok E tx chain inputs) ins"
    and "0 \<le> sint acc" "sint acc + total_in inputs ins \<le> MAX_MONEY"
  shows "sint v = sint acc + total_in inputs ins"
  using assms
proof (induction ins arbitrary: acc)
  case (Cons i ins)
  obtain t prev where t: "inputs (op_hash (prevout i)) = Some (t, prev)"
    "unat (op_n (prevout i)) < length (vout prev)" "0 \<le> sint (nValue (vout prev ! unat (op_n (prevout i))))"
    using Cons.prems(2) by (auto simp: prev_ok_def)
  let ?v = "nValue (vout prev ! unat (op_n (prevout i)))"
  have tot: "total_in inputs (i # ins) = sint ?v + total_in inputs ins"
    using t(1) by (simp add: total_in_def prev_value_def)
  have pos: "0 \<le> total_in inputs ins" using Cons.prems(2) total_in_nonneg by auto
  have add: "sint (acc + ?v) = sint acc + sint ?v"
    using Cons.prems(3,4) tot t(3) pos by (intro sint64_add) (auto simp: MAX_MONEY_def COIN_def)
  have "GetValueIn_loop ins inputs (acc + ?v) = Inr v"
    using Cons.prems(1) t by (simp add: GetOutputFor_def)
  then have "sint v = sint (acc + ?v) + total_in inputs ins"
    using Cons.prems tot t(3) pos add by (intro Cons.IH) auto
  then show ?case using add tot by simp
qed (simp add: total_in_def)

abbreviation accept_hash :: "accept_env \<Rightarrow> CTransaction \<Rightarrow> uint256" where
  "accept_hash A tx \<equiv> tx_GetHash (HashBytes (ae_block_env A)) tx"

text \<open>What the checks against the inputs establish.\<close>

definition inputs_good ::
  "accept_env \<Rightarrow> CTransaction \<Rightarrow> bool \<Rightarrow> bool \<Rightarrow> bool \<Rightarrow> MapPrevTx \<Rightarrow> bool" where
  "inputs_good A tx fLimitFree fRejectInsaneFee ignoreFees inputs \<longleftrightarrow>
     list_all (prev_ok (connect_env_of (ae_block_env A)) tx (positions (ae_pindexBest A)) inputs) (vin tx) \<and>
     fee_ok A tx fLimitFree fRejectInsaneFee ignoreFees (total_in inputs (vin tx) - total_out tx) \<and>
     signatures_ok (connect_env_of (ae_block_env A)) tx False STANDARD_SCRIPT_VERIFY_FLAGS True inputs 0 (vin tx) \<and>
     signatures_ok (connect_env_of (ae_block_env A)) tx False MANDATORY_SCRIPT_VERIFY_FLAGS True inputs 0 (vin tx)"

lemma pos_memory_not_null: "\<not> pos_IsNull pos_memory"
  by (simp add: pos_IsNull_def pos_memory_def)

lemma connect_env_of_pool [simp]: "connect_env_of (E\<lparr>tx_pool := P\<rparr>) = connect_env_of E"
  by (cases E) (simp add: connect_env_of_def connect_env.defs)

lemma check_fees_ok:
  assumes "check_fees A (accept_hash A tx) tx fL fR ig nFees = Inr ()" "0 \<le> sint nFees"
  shows "fee_ok A tx fL fR ig (sint nFees)"
  using assms by (auto simp: check_fees_def fee_ok_def split: if_splits)

lemma accept_inputs_good:
  assumes a: "accept_inputs A (accept_hash A tx) tx txdb P fL fR ig = Inr ()" and tx: "tx_valid tx" "\<not> IsCoinBase tx" "\<not> IsCoinStake tx"
    and db: "list_all (\<lambda>i. txdb (op_hash (prevout i)) \<noteq> None) (vin tx)"
  shows "unspent txdb (vin tx) \<and>
    (\<exists>inputs. FetchInputs ((ae_block_env A)\<lparr>tx_pool := P\<rparr>) tx txdb Map.empty False False = Inr inputs \<and>
      inputs_good A tx fL fR ig inputs)"
proof -
  let ?E = "(ae_block_env A)\<lparr>tx_pool := P\<rparr>" and ?C = "connect_env_of (ae_block_env A)" and ?pp = "positions (ae_pindexBest A)"
  obtain inputs vIn vOut p1 p2 where fe: "FetchInputs ?E tx txdb Map.empty False False = Inr inputs"
    and vals: "GetValueIn tx inputs = Inr vIn" "GetValueOut tx = Inr vOut"
    and fees: "check_fees A (accept_hash A tx) tx fL fR ig (vIn - vOut) = Inr ()"
    and c1: "ConnectInputs ?C tx inputs Map.empty pos_memory ?pp False False STANDARD_SCRIPT_VERIFY_FLAGS True = Inr p1"
    and c2: "ConnectInputs ?C tx inputs Map.empty pos_memory ?pp False False MANDATORY_SCRIPT_VERIFY_FLAGS True = Inr p2"
    using a by (auto simp: accept_inputs_def Let_def rbind_Inr_iff split: if_splits)
  note f = FetchInputs_db[OF fe tx(2) db]
  note o1 = iffD1[OF ConnectInputs_iff[OF tx(2) pos_memory_not_null] c1]
  note o2 = iffD1[OF ConnectInputs_iff[OF tx(2) pos_memory_not_null] c2]
  have "unspent txdb (vin tx)" using o1 unspent_cong[OF f(1) f(2)] by simp
  moreover have "inputs_good A tx fL fR ig inputs"
  proof -
    obtain w where w: "GetValueOut tx = Inr w" "sint w = total_out tx" "MoneyRange w"
      using valid_GetValueOut[OF tx(1)] by blast
    have sOut: "sint vOut = total_out tx" using vals(2) w by simp
    have "GetValueIn_loop (vin tx) inputs 0 = Inr vIn" using vals(1) tx(2) by (simp add: GetValueIn_def)
    then have sIn: "sint vIn = total_in inputs (vin tx)"
      using GetValueIn_loop_total[of "vin tx" inputs 0 vIn ?C tx ?pp] o1 by simp
    have bal: "0 \<le> total_out tx" "total_out tx \<le> total_in inputs (vin tx)" "total_in inputs (vin tx) \<le> MAX_MONEY"
      using o1 tx(3) w by (auto simp: balanced_def MoneyRange_def)
    then have "sint (vIn - vOut) = total_in inputs (vin tx) - total_out tx"
      using sIn sOut by (simp add: sint_word_ariths(2) signed_take_bit_int_eq_self MAX_MONEY_def COIN_def)
    then have "fee_ok A tx fL fR ig (total_in inputs (vin tx) - total_out tx)"
      using check_fees_ok[OF fees] bal by simp
    then show ?thesis using o1 o2 by (simp add: inputs_good_def)
  qed
  ultimately show ?thesis using fe by blast
qed

lemma accepted_checks:
  assumes "AcceptToMemoryPool A tx txdb P fL fR ig = Inr P'"
  shows "tx_valid tx \<and> \<not> IsCoinBase tx \<and> \<not> IsCoinStake tx \<and> mapTx P (accept_hash A tx) = None \<and>
    check_locks A (accept_hash A tx) tx \<and> txdb (accept_hash A tx) = None \<and>
    list_all (\<lambda>i. mapNextTx P (prevout i) = None) (vin tx) \<and>
    list_all (\<lambda>i. txdb (op_hash (prevout i)) \<noteq> None) (vin tx) \<and>
    accept_inputs A (accept_hash A tx) tx txdb P fL fR ig = Inr () \<and>
    P' = snd (addUnchecked (accept_hash A tx) tx P)"
  using assms
  by (auto simp: AcceptToMemoryPool_def rbind_Inr_iff CheckTransaction_iff Let_def mp_exists_def
      list_ex_iff list_all_iff split: if_splits)

section \<open>Properties\<close>

text \<open> C8.
  A transaction that \<open>AcceptToMemoryPool\<close> takes is valid, new, no coinbase nor coinstake, and respects
  the locks; every output it spends is of a confirmed transaction, unspent there and by the pool (so
  nothing that spends an unconfirmed output is ever taken); its fee, as an integer, is what was asked,
  and its signatures verify under the standard and under the mandatory flags.  The pool is the old
  one with the transaction added, and keeps its invariant.
\<close>

theorem accepted_transaction:
  assumes "AcceptToMemoryPool A tx txdb P fLimitFree fRejectInsaneFee ignoreFees = Inr P'"
  shows "tx_valid tx \<and> \<not> IsCoinBase tx \<and> \<not> IsCoinStake tx \<and> check_locks A (accept_hash A tx) tx \<and>
    mapTx P (accept_hash A tx) = None \<and> txdb (accept_hash A tx) = None \<and>
    list_all (\<lambda>i. mapNextTx P (prevout i) = None) (vin tx) \<and> unspent txdb (vin tx) \<and>
    (\<exists>inputs. FetchInputs ((ae_block_env A)\<lparr>tx_pool := P\<rparr>) tx txdb Map.empty False False = Inr inputs \<and>
      inputs_good A tx fLimitFree fRejectInsaneFee ignoreFees inputs) \<and>
    P' = snd (addUnchecked (accept_hash A tx) tx P) \<and>
    (pool_ok (HashBytes (ae_block_env A)) P \<longrightarrow> pool_ok (HashBytes (ae_block_env A)) P')"
proof -
  note c = accepted_checks[OF assms]
  note g = accept_inputs_good[of A tx txdb P fLimitFree fRejectInsaneFee ignoreFees]
  have "addable (HashBytes (ae_block_env A)) P (accept_hash A tx) tx"
    using c tx_small[of tx] by (auto simp: addable_def tx_valid_def list_all_iff)
  then have "pool_ok (HashBytes (ae_block_env A)) P'" if "pool_ok (HashBytes (ae_block_env A)) P"
    using add_pool_ok[OF that] c by (metis prod.collapse)
  then show ?thesis using c g by blast
qed

definition demo_accept :: accept_env where
  "demo_accept = \<lparr>ae_block_env = demo_block_env, run_input = (\<lambda>_ _. None), TestNet = True, nBestHeight = 2,
     adjustedTime = 0, ae_pindexBest = demo_chain, mapLockedInputs = Map.empty, mapDarksendBroadcastTxes = {},
     free_limited = False\<rparr>"

definition demo_empty_pool :: CTxMemPool where
  "demo_empty_pool = \<lparr>nTransactionsUpdated = 0, mapTx = Map.empty, mapNextTx = Map.empty\<rparr>"

lemma demo_spend_valid: "CheckTransaction demo_spend = Inr ()"
  using demo_txs_valid by (simp add: CheckTransaction_iff)

lemma demo_fetch_db:
  "FetchInputs (demo_block_env\<lparr>tx_pool := P\<rparr>) demo_spend demo_db Map.empty False False = Inr demo_fetched"
  by (simp add: FetchInputs_def demo_kinds(2))
    (simp add: demo_spend_def mk_txin_def fetch_one_def demo_db_def demo_pos_def pos_memory_def pos_eq_def mk_txindex_def
      rbind_def Let_def demo_fetched_def p2sh_prev_def)

lemma demo_connects_pool:
  "ConnectInputs (demo_env True) demo_spend demo_fetched pool pos chain False False flags True = Inr pool"
  by (simp add: ConnectInputs_def demo_kinds(2))
    (simp add: demo_spend_def mk_txin_def demo_fetched_def mk_txindex_def p2sh_prev_def IsCoinBase_def
      IsCoinStake_def MoneyRange_def MAX_MONEY_def COIN_def rbind_def Let_def pos_IsNull_def pos_null_def
      connect_signature_def set_spent_def connect_fees_def GetValueOut_def)

lemma demo_accepts:
  "AcceptToMemoryPool demo_accept demo_spend demo_db demo_empty_pool False True False =
    Inr (snd (addUnchecked 64 demo_spend demo_empty_pool))"
proof -
  have h: "accept_hash demo_accept demo_spend = 64"
    by (simp add: demo_accept_def tx_GetHash_def demo_lengths)
  have v: "vin demo_spend = [mk_txin \<lparr>op_hash = 1000, op_n = 0\<rparr> [] 0]" by (simp add: demo_spend_def)
  have "accept_inputs demo_accept 64 demo_spend demo_db demo_empty_pool False True False = Inr ()"
    by (simp add: accept_inputs_def Let_def demo_accept_def demo_fetch_db demo_in demo_connects_pool rbind_def lift_error_def
        check_fees_def MAX_TX_SIGOPS_def MIN_RELAY_TX_FEE_def MIN_TX_FEE_def)
  then show ?thesis
    by (simp add: AcceptToMemoryPool_def demo_spend_valid h Let_def rbind_def lift_error_def)
      (simp add: demo_accept_def demo_empty_pool_def mp_exists_def check_locks_def v mk_txin_def demo_db_def)
qed

lemma accepted_transaction_witness:
  "tx_valid demo_spend \<and> unspent demo_db (vin demo_spend) \<and>
    pool_ok (HashBytes (ae_block_env demo_accept)) (snd (addUnchecked 64 demo_spend demo_empty_pool))"
proof -
  have "pool_ok (HashBytes (ae_block_env demo_accept)) demo_empty_pool"
    by (simp add: pool_ok_def demo_empty_pool_def)
  then show ?thesis using accepted_transaction[OF demo_accepts] by blast
qed

end
