(* ===== verification/Chain.thy ===== *)
theory Chain
  imports Accept
begin

text \<open>
  The best chain, in \<open>src/src/main.cpp\<close>: \<open>Reorganize\<close>, \<open>SetBestChainInner\<close> and \<open>SetBestChain\<close>.
  The database is the index of spent outputs and the hash of the best block, as the open transaction
  sees them; \<open>TxnAbort\<close> goes back to what \<open>TxnBegin\<close> found.  Blocks on disk, the environment in
  which blocks and transactions are checked (time, scripts) are in \<open>chain_env\<close>.
  Log messages, wallet signals and the version warning are left out.
\<close>

section \<open>State\<close>

record chain_env =
  env_at :: "pindex \<Rightarrow> block_env"
  HashFn :: "bytes \<Rightarrow> uint256"
  BlockHash :: "CBlock \<Rightarrow> uint256"
  ReadBlock :: "pindex \<Rightarrow> CBlock option"
  accept_env_at :: accept_env
  nTotalBlocksEstimate :: int
  hashGenesis :: uint256

record chain_state =
  st_txdb :: "uint256 \<rightharpoonup> CTxIndex"
  st_dbBest :: uint256
  st_pnext :: "uint256 \<rightharpoonup> uint256"
  st_nMoneySupply :: "uint256 \<Rightarrow> int64"
  st_mempool :: CTxMemPool
  pindexGenesisBlock :: pindex
  pindexBest :: pindex
  hashBestChain :: uint256

abbreviation index_hash :: "pindex \<Rightarrow> uint256" where
  "index_hash p \<equiv> bi_hashBlock (hd p)"

abbreviation index_height :: "pindex \<Rightarrow> int" where
  "index_height p \<equiv> bp_nHeight (hd p)"

section \<open>The fork\<close>

text \<open>\<open>None\<close> is the error that an ancestor is missing.\<close>

fun shorten :: "pindex \<Rightarrow> int \<Rightarrow> pindex option" where
  "shorten [] h = None"
| "shorten (p # pprev) h =
     (if bp_nHeight p > h then (if pprev = [] then None else shorten pprev h) else Some (p # pprev))"

lemma shorten_length: "shorten p h = Some q \<Longrightarrow> length q \<le> length p"
  by (induction p h rule: shorten.induct) (auto split: if_splits)

function find_fork :: "pindex \<Rightarrow> pindex \<Rightarrow> pindex option" where
  "find_fork pfork plonger =
     (if pfork = plonger then Some pfork
      else case shorten plonger (index_height pfork) of
        None \<Rightarrow> None
      | Some plonger \<Rightarrow>
          if pfork = plonger then Some pfork
          else if tl pfork = [] then None
          else find_fork (tl pfork) plonger)"
  by auto
termination
  by (relation "measure (\<lambda>(f, l). length f)") (auto simp: neq_Nil_conv, case_tac pfork, auto)

declare find_fork.simps [simp del]

text \<open>The blocks from \<open>p\<close> back to the fork, which is not among them.\<close>

fun down_to :: "pindex \<Rightarrow> pindex \<Rightarrow> pindex list" where
  "down_to [] pfork = []"
| "down_to (p # pprev) pfork = (if p # pprev = pfork then [] else (p # pprev) # down_to pprev pfork)"

section \<open>Reorganisation\<close>

text \<open>Disconnecting the shorter branch; the second result are the transactions to bring back.\<close>

definition resurrected :: "chain_env \<Rightarrow> pindex \<Rightarrow> CBlock \<Rightarrow> CTransaction list" where
  "resurrected C p block =
     filter (\<lambda>tx. \<not> (IsCoinBase tx \<or> IsCoinStake tx) \<and> index_height p > nTotalBlocksEstimate C) (vtx block)"

fun disconnect_branch ::
  "chain_env \<Rightarrow> pindex list \<Rightarrow> (uint256 \<rightharpoonup> CTxIndex) \<Rightarrow> CTransaction list \<Rightarrow>
     ((uint256 \<rightharpoonup> CTxIndex) \<times> CTransaction list) option" where
  "disconnect_branch C [] txdb vResurrect = Some (txdb, vResurrect)"
| "disconnect_branch C (p # rest) txdb vResurrect =
     (case ReadBlock C p of
        None \<Rightarrow> None
      | Some block \<Rightarrow>
          (case DisconnectBlock (HashFn C) block txdb of
             Inl _ \<Rightarrow> None
           | Inr txdb \<Rightarrow> disconnect_branch C rest txdb (resurrected C p block @ vResurrect)))"

text \<open>
  Connecting a block; \<open>nMoneySupply\<close> is written in memory and stays when the database is rolled back.
\<close>

definition connect_at ::
  "chain_env \<Rightarrow> CTxMemPool \<Rightarrow> pindex \<Rightarrow> CBlock \<Rightarrow> (uint256 \<Rightarrow> int64) \<Rightarrow> (uint256 \<rightharpoonup> CTxIndex) \<Rightarrow>
     (uint256 \<Rightarrow> int64) \<times> (uint256 \<rightharpoonup> CTxIndex) option" where
  "connect_at C pool p block supply txdb =
     (case ConnectBlock ((env_at C p)\<lparr>tx_pool := pool\<rparr>) txdb (supply (index_hash (tl p))) p False block of
        Inl _ \<Rightarrow> (supply, None)
      | Inr ((nMint, nMoneySupply), txdb) \<Rightarrow> (supply(index_hash p := nMoneySupply), Some txdb))"

fun connect_branch ::
  "chain_env \<Rightarrow> CTxMemPool \<Rightarrow> pindex list \<Rightarrow> (uint256 \<Rightarrow> int64) \<Rightarrow> (uint256 \<rightharpoonup> CTxIndex) \<Rightarrow> CTransaction list \<Rightarrow>
     (uint256 \<Rightarrow> int64) \<times> ((uint256 \<rightharpoonup> CTxIndex) \<times> CTransaction list) option" where
  "connect_branch C pool [] supply txdb vDelete = (supply, Some (txdb, vDelete))"
| "connect_branch C pool (p # rest) supply txdb vDelete =
     (case ReadBlock C p of
        None \<Rightarrow> (supply, None)
      | Some block \<Rightarrow>
          (case connect_at C pool p block supply txdb of
             (supply, None) \<Rightarrow> (supply, None)
           | (supply, Some txdb) \<Rightarrow> connect_branch C pool rest supply txdb (vDelete @ vtx block)))"

definition unlink :: "pindex list \<Rightarrow> (uint256 \<rightharpoonup> uint256) \<Rightarrow> (uint256 \<rightharpoonup> uint256)" where
  "unlink ps pnext = foldl (\<lambda>m p. if tl p \<noteq> [] then m(index_hash (tl p) := None) else m) pnext ps"

definition link :: "pindex list \<Rightarrow> (uint256 \<rightharpoonup> uint256) \<Rightarrow> (uint256 \<rightharpoonup> uint256)" where
  "link ps pnext = foldl (\<lambda>m p. if tl p \<noteq> [] then m(index_hash (tl p) \<mapsto> index_hash p) else m) pnext ps"

definition delete_txs :: "(bytes \<Rightarrow> uint256) \<Rightarrow> CTransaction list \<Rightarrow> CTxMemPool \<Rightarrow> CTxMemPool option" where
  "delete_txs H vDelete pool =
     ofold (\<lambda>tx P. Option.bind (mp_remove H tx False P) (removeConflicts H tx)) vDelete pool"

text \<open>Bringing transactions back; \<open>pindexBest\<close> is still the old best block.\<close>

definition resurrect_txs :: "chain_env \<Rightarrow> pindex \<Rightarrow> (uint256 \<rightharpoonup> CTxIndex) \<Rightarrow> CTransaction list \<Rightarrow> CTxMemPool \<Rightarrow> CTxMemPool" where
  "resurrect_txs C best txdb vResurrect pool =
     foldl (\<lambda>P tx. case AcceptToMemoryPool ((accept_env_at C)\<lparr>ae_pindexBest := best\<rparr>) tx txdb P False False False of
              Inl _ \<Rightarrow> P | Inr P' \<Rightarrow> P') pool vResurrect"

text \<open>\<open>None\<close>: a call does not return.  The database of a failed call is the caller's to roll back.\<close>

definition Reorganize :: "chain_env \<Rightarrow> pindex \<Rightarrow> chain_state \<Rightarrow> (bool \<times> chain_state) option" where
  "Reorganize C pindexNew st =
     (case find_fork (pindexBest st) pindexNew of
        None \<Rightarrow> Some (False, st)
      | Some pfork \<Rightarrow>
          let vDisconnect = down_to (pindexBest st) pfork;
              vConnect = rev (down_to pindexNew pfork)
          in case disconnect_branch C vDisconnect (st_txdb st) [] of
               None \<Rightarrow> Some (False, st)
             | Some (txdb, vResurrect) \<Rightarrow>
                 (case connect_branch C (st_mempool st) vConnect (st_nMoneySupply st) txdb [] of
                    (supply, None) \<Rightarrow> Some (False, st\<lparr>st_nMoneySupply := supply\<rparr>)
                  | (supply, Some (txdb, vDelete)) \<Rightarrow>
                      let pool = resurrect_txs C (pindexBest st) txdb vResurrect (st_mempool st)
                      in Option.bind (delete_txs (HashFn C) vDelete pool) (\<lambda>pool.
                         Some (True, st\<lparr>st_txdb := txdb, st_dbBest := index_hash pindexNew,
                           st_nMoneySupply := supply, st_pnext := link vConnect (unlink vDisconnect (st_pnext st)),
                           st_mempool := pool\<rparr>))))"

section \<open>The new best block\<close>

definition SetBestChainInner :: "chain_env \<Rightarrow> pindex \<Rightarrow> CBlock \<Rightarrow> chain_state \<Rightarrow> (bool \<times> chain_state) option" where
  "SetBestChainInner C pindexNew block st =
     (case connect_at C (st_mempool st) pindexNew block (st_nMoneySupply st) (st_txdb st) of
        (supply, None) \<Rightarrow> Some (False, st\<lparr>st_nMoneySupply := supply\<rparr>)
      | (supply, Some txdb) \<Rightarrow>
          Option.bind (ofold (\<lambda>tx P. mp_remove (HashFn C) tx False P) (vtx block) (st_mempool st)) (\<lambda>pool.
          Some (True, st\<lparr>st_txdb := txdb, st_dbBest := BlockHash C block, st_nMoneySupply := supply,
            st_pnext := (st_pnext st)(index_hash (tl pindexNew) \<mapsto> index_hash pindexNew), st_mempool := pool\<rparr>)))"

text \<open>The first block of the new chain that has more trust than the best one, and those after it.\<close>

fun intermediate :: "uint256 \<Rightarrow> pindex \<Rightarrow> pindex list \<Rightarrow> pindex \<times> pindex list" where
  "intermediate trust (p # q # rest) vpindexSecondary =
     (if bi_nChainTrust q > trust then intermediate trust (q # rest) (vpindexSecondary @ [p # q # rest])
      else (p # q # rest, vpindexSecondary))"
| "intermediate trust p vpindexSecondary = (p, vpindexSecondary)"

text \<open>Errors end the loop and nothing else.\<close>

fun connect_secondary :: "chain_env \<Rightarrow> pindex list \<Rightarrow> chain_state \<Rightarrow> chain_state option" where
  "connect_secondary C [] st = Some st"
| "connect_secondary C (p # rest) st =
     (case ReadBlock C p of
        None \<Rightarrow> Some st
      | Some block \<Rightarrow>
          Option.bind (SetBestChainInner C p block st) (\<lambda>(ok, st).
          if ok then connect_secondary C rest st else Some st))"

definition new_best :: "CBlock \<Rightarrow> chain_env \<Rightarrow> pindex \<Rightarrow> chain_state \<Rightarrow> chain_state" where
  "new_best block C pindexNew st =
     st\<lparr>hashBestChain := BlockHash C block, pindexBest := pindexNew,
        st_mempool := AddTransactionsUpdated 1 (st_mempool st)\<rparr>"

definition SetBestChain :: "chain_env \<Rightarrow> pindex \<Rightarrow> CBlock \<Rightarrow> chain_state \<Rightarrow> (bool \<times> chain_state) option" where
  "SetBestChain C pindexNew block st =
     (let hash = BlockHash C block
      in if pindexGenesisBlock st = [] \<and> hash = hashGenesis C then
           Some (True, new_best block C pindexNew (st\<lparr>st_dbBest := hash, pindexGenesisBlock := pindexNew\<rparr>))
         else if hashPrevBlock block = hashBestChain st then
           Option.bind (SetBestChainInner C pindexNew block st) (\<lambda>(ok, st).
           Some (if ok then (True, new_best block C pindexNew st) else (False, st)))
         else
           case intermediate (bi_nChainTrust (hd (pindexBest st))) pindexNew [] of
             (pindexIntermediate, vpindexSecondary) \<Rightarrow>
               Option.bind (Reorganize C pindexIntermediate st) (\<lambda>(ok, st).
               if \<not> ok then Some (False, st)
               else Option.bind (connect_secondary C (rev vpindexSecondary) st) (\<lambda>st.
                 Some (True, new_best block C pindexNew st))))"

end
