(* ===== verification/ChainInv.thy ===== *)
theory ChainInv
  imports Chain "HOL-Library.Sublist"
begin

text \<open>
  What holds of the best chain: the fork of two chains is their longest common part, the index of
  spent outputs is a function of the best chain however the chain was reached, and where the
  bookkeeping of \<open>SetBestChain\<close> departs from that.
\<close>

section \<open>The fork of two chains\<close>

text \<open>Heights count the ancestors.\<close>

fun heights_ok :: "pindex \<Rightarrow> bool" where
  "heights_ok [] = True"
| "heights_ok (p # pprev) = (bp_nHeight p = int (length pprev) \<and> heights_ok pprev)"

lemma heights_ok_suffix: "heights_ok a \<Longrightarrow> suffix g a \<Longrightarrow> heights_ok g"
  by (induction a) (auto simp: suffix_Cons)

lemma index_height_eq: "heights_ok p \<Longrightarrow> p \<noteq> [] \<Longrightarrow> index_height p = int (length p) - 1"
  by (cases p) auto

lemma shorten_eq:
  "heights_ok p \<Longrightarrow> p \<noteq> [] \<Longrightarrow> shorten p (int h) = Some (drop (length p - Suc h) p)"
proof (induction p "int h" rule: shorten.induct)
  case (2 p pprev)
  show ?case
  proof (cases "int h < bp_nHeight p")
    case True
    then have "pprev \<noteq> []" using 2(2) by auto
    moreover have "length (p # pprev) - Suc h = Suc (length pprev - Suc h)" using True 2(2) by auto
    ultimately show ?thesis using True 2 by simp
  next
    case False
    then show ?thesis using 2(2) by simp
  qed
qed simp

lemma suffix_same_length: "suffix g b \<Longrightarrow> suffix h b \<Longrightarrow> length g = length h \<Longrightarrow> g = h"
  by (metis suffix_length_suffix suffix_order.antisym order_refl)

text \<open>The longest common suffix.\<close>

definition is_fork :: "pindex \<Rightarrow> pindex \<Rightarrow> pindex \<Rightarrow> bool" where
  "is_fork a b f \<longleftrightarrow> f \<noteq> [] \<and> suffix f a \<and> suffix f b \<and> (\<forall>g. suffix g a \<and> suffix g b \<longrightarrow> suffix g f)"

lemma find_fork_is_fork:
  assumes "heights_ok a" "heights_ok b" "a \<noteq> []" "b \<noteq> []" "last a = last b"
  shows "\<exists>f. find_fork a b = Some f \<and> is_fork a b f"
  using assms
proof (induction a arbitrary: b)
  case (Cons x a)
  let ?a = "x # a"
  show ?case
  proof (cases "?a = b")
    case True
    then show ?thesis by (subst find_fork.simps) (auto simp: is_fork_def)
  next
    case ne: False
    define b' where "b' = drop (length b - Suc (length a)) b"
    have sh: "shorten b (index_height ?a) = Some b'"
      using shorten_eq[of b "length a"] Cons.prems by (simp add: b'_def)
    have sb: "suffix b' b" by (simp add: b'_def suffix_drop)
    have len: "length b' = min (length b) (length ?a)" by (simp add: b'_def)
    have "0 < length b'" using len Cons.prems(4) by (cases b) simp_all
    then have b'ne: "b' \<noteq> []" by auto
    have last: "last b' = last b" using sb b'ne by (metis suffix_def last_appendR)
    have common: "suffix g b'" if "suffix g ?a" "suffix g b" for g
    proof (rule suffix_length_suffix[OF that(2) sb])
      show "length g \<le> length b'" using that suffix_length_le len by (metis min.bounded_iff)
    qed
    show ?thesis
    proof (cases "?a = b'")
      case True
      then have "find_fork ?a b = Some ?a" using ne sh by (subst find_fork.simps) simp
      moreover have "is_fork ?a b ?a" using True sb by (auto simp: is_fork_def)
      ultimately show ?thesis by blast
    next
      case False
      have a: "a \<noteq> []"
      proof
        assume "a = []"
        then have "length b' = Suc 0" using len Cons.prems(4) by (cases b) simp_all
        then obtain y where "b' = [y]" by (auto simp: length_Suc_conv)
        then show False using False last Cons.prems(5) \<open>a = []\<close> by simp
      qed
      have "\<exists>f. find_fork a b' = Some f \<and> is_fork a b' f"
      proof (rule Cons.IH)
        show "heights_ok a" "heights_ok b'" using Cons.prems heights_ok_suffix[OF _ sb] by auto
        show "last a = last b'" using last Cons.prems(5) a by simp
      qed fact+
      then obtain f where f: "find_fork a b' = Some f" "is_fork a b' f" by blast
      have "find_fork ?a b = Some f"
        using ne sh False a f(1) by (subst find_fork.simps) simp
      moreover have "is_fork ?a b f"
        unfolding is_fork_def
      proof (intro conjI allI impI)
        show "f \<noteq> []" "suffix f ?a" using f(2) by (auto simp: is_fork_def suffix_ConsI)
        show "suffix f b" using f(2) sb by (auto simp: is_fork_def intro: suffix_order.trans)
        fix g
        assume g: "suffix g ?a \<and> suffix g b"
        then have gb: "suffix g b'" using common by blast
        have "g \<noteq> ?a"
        proof
          assume "g = ?a"
          then have "?a = b'" using gb len suffix_same_length[OF gb, of b'] suffix_length_le[OF gb] by simp
          then show False using False by blast
        qed
        then have "suffix g a" using g by (auto simp: suffix_Cons)
        then show "suffix g f" using gb f(2) by (auto simp: is_fork_def)
      qed
      ultimately show ?thesis by blast
    qed
  qed
qed simp

section \<open>The branches\<close>

lemma down_to_self [simp]: "down_to f f = []"
  by (cases f) auto

lemma down_to_suffix:
  "suffix f a \<Longrightarrow> down_to a f = map (\<lambda>k. drop k a) [0..<length a - length f]"
proof (induction a)
  case (Cons x a)
  show ?case
  proof (cases "x # a = f")
    case False
    then have s: "suffix f a" using Cons.prems by (auto simp: suffix_Cons)
    then have "length f \<le> length a" by (rule suffix_length_le)
    then have "[0..<length (x # a) - length f] = 0 # map Suc [0..<length a - length f]"
      by (simp add: Suc_diff_le upt_conv_Cons map_Suc_upt del: upt_Suc)
    then show ?thesis using False Cons.IH[OF s] by simp
  qed simp
qed simp

section \<open>The index of a chain\<close>

text \<open>The index from scratch: the first block is not indexed, the others one after the other.\<close>

fun index_chain :: "chain_env \<Rightarrow> pindex \<Rightarrow> (uint256 \<rightharpoonup> CTxIndex)" where
  "index_chain C [] = Map.empty"
| "index_chain C [g] = Map.empty"
| "index_chain C (p # q # rest) =
     (case ReadBlock C (p # q # rest) of
        None \<Rightarrow> index_chain C (q # rest)
      | Some b \<Rightarrow> index_block (HashFn C) (p # q # rest) b (index_chain C (q # rest)))"

text \<open>Each block has one coinbase, valid transactions, and could be connected where it is.\<close>

definition block_sound :: "CBlock \<Rightarrow> bool" where
  "block_sound b \<longleftrightarrow> positions_ok (vtx b) \<and> list_all tx_valid (vtx b)"

fun chain_valid :: "chain_env \<Rightarrow> pindex \<Rightarrow> bool" where
  "chain_valid C [] = False"
| "chain_valid C [g] = True"
| "chain_valid C (p # q # rest) =
     (chain_valid C (q # rest) \<and>
      (case ReadBlock C (p # q # rest) of
         None \<Rightarrow> False
       | Some b \<Rightarrow> block_sound b \<and> block_spendable (HashFn C) (p # q # rest) b (index_chain C (q # rest))))"

fun chain_txs :: "chain_env \<Rightarrow> pindex \<Rightarrow> CTransaction list" where
  "chain_txs C (p # q # rest) =
     (case ReadBlock C (p # q # rest) of None \<Rightarrow> [] | Some b \<Rightarrow> vtx b) @ chain_txs C (q # rest)"
| "chain_txs C p = []"

text \<open>What is assumed of a chain: real files and right heights; and no two transactions with one hash.\<close>

definition chain_shape :: "pindex \<Rightarrow> bool" where
  "chain_shape p \<longleftrightarrow> heights_ok p \<and> list_all (\<lambda>q. bp_nFile q \<noteq> - 1) p"

definition chain_fits :: "chain_env \<Rightarrow> pindex \<Rightarrow> bool" where
  "chain_fits C p \<longleftrightarrow> chain_shape p \<and> distinct (map (tx_GetHash (HashFn C)) (chain_txs C p))"

lemma chain_shape_suffix: "chain_shape p \<Longrightarrow> suffix q p \<Longrightarrow> chain_shape q"
  using heights_ok_suffix by (auto simp: chain_shape_def suffix_def)

lemmas chain_fits_simps = chain_fits_def chain_shape_def

lemma chain_fits_suffix: "chain_fits C p \<Longrightarrow> suffix q p \<Longrightarrow> chain_fits C q"
proof (induction p)
  case (Cons x p)
  show ?case
  proof (cases "q = x # p")
    case False
    then have s: "suffix q p" using Cons.prems(2) by (simp add: suffix_Cons)
    have "chain_fits C p" using Cons.prems(1) by (cases p) (auto simp: chain_fits_simps)
    then show ?thesis using Cons.IH s by blast
  qed (use Cons.prems in simp)
qed simp

lemma chain_valid_suffix: "chain_valid C p \<Longrightarrow> suffix q p \<Longrightarrow> q \<noteq> [] \<Longrightarrow> chain_valid C q"
proof (induction p)
  case (Cons x p)
  show ?case
  proof (cases "q = x # p")
    case False
    then have s: "suffix q p" using Cons.prems(2) by (simp add: suffix_Cons)
    then have "p \<noteq> []" using Cons.prems(3) by auto
    then have "chain_valid C p" using Cons.prems(1) by (cases p) auto
    then show ?thesis using Cons.IH s Cons.prems(3) by blast
  qed (use Cons.prems in simp)
qed simp

lemma index_block_dom:
  "block_spendable H p b V \<Longrightarrow> dom (index_block H p b V) = tx_GetHash H ` set (vtx b) \<union> dom V"
  by (simp add: block_spendable_def index_block_def index_txs_dom)

lemma index_chain_dom: "chain_valid C p \<Longrightarrow> dom (index_chain C p) = tx_GetHash (HashFn C) ` set (chain_txs C p)"
  by (induction C p rule: chain_valid.induct) (auto simp: index_block_dom image_Un split: option.splits)

text \<open>Undoing the last block of a valid chain.\<close>

lemma chain_step:
  assumes v: "chain_valid C (p # q)" "q \<noteq> []" and f: "chain_fits C (p # q)"
  shows "\<exists>b. ReadBlock C (p # q) = Some b \<and> chain_valid C q \<and>
    index_chain C (p # q) = index_block (HashFn C) (p # q) b (index_chain C q) \<and>
    block_spendable (HashFn C) (p # q) b (index_chain C q) \<and>
    new_txs (HashFn C) (vtx b) (index_chain C q) \<and> bp_nFile p \<noteq> - 1"
proof -
  obtain q1 q2 where q: "q = q1 # q2" using v(2) by (cases q) auto
  then obtain b where b: "ReadBlock C (p # q) = Some b" using v(1) by (auto split: option.splits)
  have vq: "chain_valid C q" using v(1) q by simp
  have "new_txs (HashFn C) (vtx b) (index_chain C q)"
    unfolding new_txs_def index_chain_dom[OF vq] using f b q by (auto simp: chain_fits_simps)
  then show ?thesis using b v(1) q f by (auto simp: chain_fits_simps)
qed

lemma chain_entries_ok: "chain_valid C p \<Longrightarrow> chain_fits C p \<Longrightarrow> entries_ok (index_chain C p)"
proof (induction p)
  case (Cons p q)
  show ?case
  proof (cases "q = []")
    case True
    then show ?thesis by (simp add: entries_ok_def)
  next
    case False
    note st = chain_step[OF Cons.prems(1) False Cons.prems(2)]
    have "chain_fits C q" using chain_fits_suffix[OF Cons.prems(2)] by (simp add: suffix_ConsI)
    then have "entries_ok (index_chain C q)" using Cons.IH st by blast
    then show ?thesis
      using st DisconnectBlock_index[of "HashFn C" "p # q" _ "index_chain C q"] by auto
  qed
qed simp

lemma chain_disconnect:
  assumes v: "chain_valid C (p # q)" "q \<noteq> []" and f: "chain_fits C (p # q)" and b: "ReadBlock C (p # q) = Some b"
  shows "DisconnectBlock (HashFn C) b (index_chain C (p # q)) = Inr (index_chain C q)"
proof -
  note st = chain_step[OF v f]
  have "chain_fits C q" using chain_fits_suffix[OF f] by (simp add: suffix_ConsI)
  then have "entries_ok (index_chain C q)" using chain_entries_ok st by blast
  then show ?thesis
    using st b DisconnectBlock_index[of "HashFn C" "p # q" b "index_chain C q"] by auto
qed

text \<open>Disconnecting a branch goes back to the index of the fork.\<close>

lemma disconnect_branch_index:
  assumes "chain_valid C a" "chain_fits C a" "suffix f a" "f \<noteq> []"
  shows "\<exists>r. disconnect_branch C (down_to a f) (index_chain C a) txs = Some (index_chain C f, r)"
  using assms
proof (induction a arbitrary: txs)
  case (Cons p q)
  show ?case
  proof (cases "p # q = f")
    case True
    then show ?thesis by simp
  next
    case False
    then have s: "suffix f q" using Cons.prems(3) by (simp add: suffix_Cons)
    then have q: "q \<noteq> []" using Cons.prems(4) by auto
    obtain b where b: "ReadBlock C (p # q) = Some b" "chain_valid C q"
      using chain_step[OF Cons.prems(1) q Cons.prems(2)] by blast
    have "chain_fits C q" using chain_fits_suffix[OF Cons.prems(2)] by (simp add: suffix_ConsI)
    then obtain r where "disconnect_branch C (down_to q f) (index_chain C q) (resurrected C (p # q) b @ txs) = Some (index_chain C f, r)"
      using Cons.IH[OF b(2) _ s Cons.prems(4)] by blast
    then show ?thesis using False b chain_disconnect[OF Cons.prems(1) q Cons.prems(2) b(1)] by simp
  qed
qed simp

section \<open>Connecting a branch\<close>

text \<open>Each index follows the one before.\<close>

fun ascending :: "pindex \<Rightarrow> pindex list \<Rightarrow> bool" where
  "ascending p [] = True"
| "ascending p (r # rs) = (r \<noteq> [] \<and> tl r = p \<and> ascending r rs)"

lemma ascending_append:
  "ascending p (xs @ ys) \<longleftrightarrow> ascending p xs \<and> ascending (last (p # xs)) ys"
  by (induction p xs rule: ascending.induct) auto

lemma ascending_down_to:
  "suffix f a \<Longrightarrow> ascending f (rev (down_to a f)) \<and> last (f # rev (down_to a f)) = a"
proof (induction a)
  case (Cons p q)
  show ?case
  proof (cases "p # q = f")
    case False
    then have s: "suffix f q" using Cons.prems by (simp add: suffix_Cons)
    show ?thesis using False Cons.IH[OF s] by (simp add: ascending_append)
  qed simp
qed simp

lemma ascending_suffix: "ascending p ps \<Longrightarrow> q \<in> set (p # ps) \<Longrightarrow> suffix q (last (p # ps)) \<and> suffix p q"
proof (induction p ps arbitrary: q rule: ascending.induct)
  case (2 p r rs)
  have "suffix p r" using 2(2) suffix_tl[of r] by simp
  moreover have "suffix r (last (r # rs))" using 2(1)[of r] 2(2) by simp
  ultimately show ?case using 2 by (auto intro: suffix_order.trans)
qed simp

lemma intermediate_split:
  "\<exists>p' vs. intermediate trust p acc = (p', acc @ vs) \<and> ascending p' (rev vs) \<and> last (p' # rev vs) = p \<and> (p \<noteq> [] \<longrightarrow> p' \<noteq> [])"
proof (induction trust p acc rule: intermediate.induct)
  case (1 trust p q rest acc)
  show ?case
  proof (cases "bi_nChainTrust q > trust")
    case True
    then obtain p' vs where r: "intermediate trust (q # rest) (acc @ [p # q # rest]) = (p', (acc @ [p # q # rest]) @ vs)"
      "ascending p' (rev vs)" "last (p' # rev vs) = q # rest" "p' \<noteq> []"
      using 1 by auto
    have "intermediate trust (p # q # rest) acc = (p', acc @ (p # q # rest) # vs)" using r(1) True by simp
    moreover have "ascending p' (rev ((p # q # rest) # vs))" using r by (simp add: ascending_append)
    ultimately show ?thesis using r(4) by (intro exI[of _ p'] exI[of _ "(p # q # rest) # vs"]) simp
  qed auto
qed auto

text \<open>The environments agree on the hash; a block on disk has the hash of its index.\<close>

definition env_ok :: "chain_env \<Rightarrow> bool" where
  "env_ok C \<longleftrightarrow> (\<forall>p. HashBytes (env_at C p) = HashFn C) \<and>
     (\<forall>p b. ReadBlock C p = Some b \<longrightarrow> BlockHash C b = index_hash p)"

lemma ConnectBlock_sound: "ConnectBlock E db supply p False b = Inr r \<Longrightarrow> block_sound b"
  by (auto simp: ConnectBlock_def rbind_Inr_iff CheckBlock_iff block_valid_def block_sound_def list_all_iff)

lemma connect_at_index:
  assumes e: "env_ok C" and c: "connect_at C pool p b money (index_chain C (tl p)) = (money', Some db')"
    and b: "ReadBlock C p = Some b" and p: "p \<noteq> []" "chain_valid C (tl p)" "bp_nFile (hd p) \<noteq> - 1"
  shows "db' = index_chain C p \<and> chain_valid C p"
proof -
  obtain x q where pq: "p = x # q" using p(1) by (cases p) auto
  then obtain q1 q2 where q: "q = q1 # q2" using p(2) by (cases q) auto
  obtain amounts where r: "ConnectBlock ((env_at C p)\<lparr>tx_pool := pool\<rparr>) (index_chain C (tl p)) (money (index_hash (tl p))) p False b = Inr (amounts, db')"
    using c by (auto simp: connect_at_def split: sum.splits prod.splits)
  have "HashBytes ((env_at C p)\<lparr>tx_pool := pool\<rparr>) = HashFn C" using e by (simp add: env_ok_def)
  then show ?thesis using ConnectBlock_index[OF r p(3)] ConnectBlock_sound[OF r] p(2) b pq q by simp
qed

lemma connect_branch_index:
  assumes e: "env_ok C"
    and "connect_branch C pool ps money (index_chain C p) dels = (money', Some (db', dels'))"
    and "ascending p ps" "chain_valid C p" "list_all (\<lambda>q. bp_nFile (hd q) \<noteq> - 1) ps"
  shows "db' = index_chain C (last (p # ps)) \<and> chain_valid C (last (p # ps))"
  using assms(2-)
proof (induction ps arbitrary: p money dels)
  case (Cons r ps)
  obtain b where b: "ReadBlock C r = Some b" using Cons.prems(1) by (auto split: option.splits)
  obtain s1 db1 where c: "connect_at C pool r b money (index_chain C p) = (s1, Some db1)"
    using Cons.prems(1) b by (auto split: prod.splits option.splits)
  have "db1 = index_chain C r \<and> chain_valid C r"
    using Cons.prems c by (intro connect_at_index[OF e _ b]) auto
  moreover from this have "connect_branch C pool ps s1 (index_chain C r) (dels @ vtx b) = (money', Some (db', dels'))"
    using Cons.prems(1) b c by simp
  ultimately show ?case using Cons.IH[of s1 r "dels @ vtx b"] Cons.prems(2,4) by auto
qed simp

lemma SetBestChainInner_index:
  assumes e: "env_ok C" and s: "SetBestChainInner C p b st = Some (ok, st')"
    and b: "ReadBlock C p = Some b" and p: "p \<noteq> []" "chain_valid C (tl p)" "bp_nFile (hd p) \<noteq> - 1"
    and db: "st_txdb st = index_chain C (tl p)"
  shows "if ok then st_txdb st' = index_chain C p \<and> chain_valid C p \<and> st_dbBest st' = index_hash p
    else st_txdb st' = st_txdb st \<and> st_dbBest st' = st_dbBest st"
    and "pindexBest st' = pindexBest st" "hashBestChain st' = hashBestChain st"
proof -
  obtain money r where c: "connect_at C (st_mempool st) p b (st_nMoneySupply st) (index_chain C (tl p)) = (money, r)"
    by (cases "connect_at C (st_mempool st) p b (st_nMoneySupply st) (index_chain C (tl p))")
  have h: "BlockHash C b = index_hash p" using e b by (simp add: env_ok_def)
  show "if ok then st_txdb st' = index_chain C p \<and> chain_valid C p \<and> st_dbBest st' = index_hash p
      else st_txdb st' = st_txdb st \<and> st_dbBest st' = st_dbBest st"
    using s c h connect_at_index[OF e _ b p]
    by (cases r) (auto simp: SetBestChainInner_def db split: bind_splits)
  show "pindexBest st' = pindexBest st" "hashBestChain st' = hashBestChain st"
    using s c by (cases r; auto simp: SetBestChainInner_def db split: bind_splits)+
qed

text \<open>A block that cannot be read, or not be connected to the index of its parent.\<close>

definition cannot_connect :: "chain_env \<Rightarrow> pindex \<Rightarrow> bool" where
  "cannot_connect C r \<longleftrightarrow>
     (case ReadBlock C r of
        None \<Rightarrow> True
      | Some b \<Rightarrow> \<exists>pool supply. snd (connect_at C pool r b supply (index_chain C (tl r))) = None)"

lemma SetBestChainInner_fails:
  assumes "SetBestChainInner C p b st = Some (False, st')"
  shows "snd (connect_at C (st_mempool st) p b (st_nMoneySupply st) (st_txdb st)) = None" "\<exists>supply. st' = st\<lparr>st_nMoneySupply := supply\<rparr>"
  using assms by (auto simp: SetBestChainInner_def split: prod.splits option.splits bind_splits)

text \<open>The postponed blocks are connected up to the first that cannot be.\<close>

lemma connect_secondary_index:
  assumes e: "env_ok C" and "connect_secondary C ps st = Some st'" "ascending p ps"
    and "chain_valid C p" "list_all (\<lambda>q. bp_nFile (hd q) \<noteq> - 1) ps"
    and "st_txdb st = index_chain C p" "st_dbBest st = index_hash p"
  shows "(\<exists>q \<in> set (p # ps). st_txdb st' = index_chain C q \<and> chain_valid C q \<and> st_dbBest st' = index_hash q \<and>
      (q = last (p # ps) \<or> (\<exists>r \<in> set ps. r \<noteq> [] \<and> tl r = q \<and> cannot_connect C r))) \<and>
    pindexBest st' = pindexBest st"
  using assms(2-)
proof (induction ps arbitrary: p st)
  case (Cons r ps)
  have r: "r \<noteq> []" "tl r = p" "chain_valid C (tl r)" "bp_nFile (hd r) \<noteq> - 1" "st_txdb st = index_chain C (tl r)"
    using Cons.prems by auto
  show ?case
  proof (cases "ReadBlock C r")
    case None
    then have "cannot_connect C r" by (simp add: cannot_connect_def)
    then show ?thesis using None Cons.prems r by (intro conjI bexI[of _ p]) auto
  next
    case (Some b)
    obtain ok st1 where s: "SetBestChainInner C r b st = Some (ok, st1)"
      using Cons.prems(1) Some by (auto split: bind_splits)
    note i = SetBestChainInner_index[OF e s Some r(1,3,4,5)]
    show ?thesis
    proof (cases ok)
      case True
      then show ?thesis using i Cons.IH[of st1 r] Cons.prems Some s by auto
    next
      case False
      then have "cannot_connect C r"
        using SetBestChainInner_fails(1)[of C r b st st1] s Some r(5) by (auto simp: cannot_connect_def)
      then show ?thesis using False i Cons.prems Some s r by (intro conjI bexI[of _ p]) auto
    qed
  qed
qed auto

section \<open>The best chain\<close>

lemma fits_file: "chain_shape p \<Longrightarrow> suffix q p \<Longrightarrow> q \<noteq> [] \<Longrightarrow> bp_nFile (hd q) \<noteq> - 1"
  by (drule (1) chain_shape_suffix) (cases q; simp add: chain_shape_def)

lemma ascending_files:
  assumes "chain_shape (last (p # ps))" "ascending p ps"
  shows "list_all (\<lambda>q. bp_nFile (hd q) \<noteq> - 1) ps"
proof -
  have "q \<noteq> []" if "q \<in> set ps" for q
    using that assms(2) by (induction p ps rule: ascending.induct) auto
  then show ?thesis
    using fits_file[OF assms(1)] ascending_suffix[OF assms(2)] by (auto simp: list_all_iff)
qed

text \<open>Database and memory agree on the best chain, and the index is that of the best chain.\<close>

definition consistent :: "chain_env \<Rightarrow> chain_state \<Rightarrow> bool" where
  "consistent C st \<longleftrightarrow>
     chain_valid C (pindexBest st) \<and> st_txdb st = index_chain C (pindexBest st) \<and>
     st_dbBest st = hashBestChain st \<and> hashBestChain st = index_hash (pindexBest st)"

lemma chain_valid_ne: "chain_valid C p \<Longrightarrow> p \<noteq> []"
  by auto

lemma Reorganize_index:
  assumes e: "env_ok C" and st: "consistent C st"
    and fits: "chain_fits C (pindexBest st)" "chain_shape p" "p \<noteq> []" "last p = last (pindexBest st)"
    and r: "Reorganize C p st = Some (ok, st')"
  shows "pindexBest st' = pindexBest st \<and> hashBestChain st' = hashBestChain st \<and>
    (if ok then st_txdb st' = index_chain C p \<and> chain_valid C p \<and> st_dbBest st' = index_hash p
     else consistent C st')"
proof -
  let ?a = "pindexBest st"
  have a: "chain_valid C ?a" "st_txdb st = index_chain C ?a" using st by (simp_all add: consistent_def)
  obtain f where f: "find_fork ?a p = Some f" "is_fork ?a p f"
    using find_fork_is_fork[of ?a p] fits chain_valid_ne[OF a(1)] by (auto simp: chain_fits_simps)
  have sf: "suffix f ?a" "suffix f p" "f \<noteq> []" using f(2) by (auto simp: is_fork_def)
  obtain res where d: "disconnect_branch C (down_to ?a f) (index_chain C ?a) [] = Some (index_chain C f, res)"
    using disconnect_branch_index[OF a(1) fits(1) sf(1,3)] by blast
  have asc: "ascending f (rev (down_to p f))" "last (f # rev (down_to p f)) = p"
    using ascending_down_to[OF sf(2)] by auto
  have files: "list_all (\<lambda>q. bp_nFile (hd q) \<noteq> - 1) (rev (down_to p f))"
    by (rule ascending_files[where p = f]) (simp_all only: asc fits)
  have vf: "chain_valid C f" by (rule chain_valid_suffix[OF a(1) sf(1,3)])
  obtain money c where c: "connect_branch C (st_mempool st) (rev (down_to p f)) (st_nMoneySupply st) (index_chain C f) [] = (money, c)"
    by (cases "connect_branch C (st_mempool st) (rev (down_to p f)) (st_nMoneySupply st) (index_chain C f) []")
  show ?thesis
  proof (cases c)
    case None
    then show ?thesis using r f(1) d c a(2) st by (auto simp: Reorganize_def Let_def consistent_def)
  next
    case (Some dd)
    obtain db dels where dd: "dd = (db, dels)" by (cases dd)
    have "db = index_chain C p \<and> chain_valid C p"
      using connect_branch_index[OF e c[unfolded Some dd] asc(1) vf files] asc(2) by simp
    then show ?thesis using r f(1) d c a(2) Some dd by (auto simp: Reorganize_def Let_def split: bind_splits)
  qed
qed

text \<open>The outcome of \<open>SetBestChain\<close> when it answers true: the block \<open>q\<close> is where the database is.\<close>

definition best_chain_set :: "chain_env \<Rightarrow> pindex \<Rightarrow> chain_state \<Rightarrow> pindex \<Rightarrow> bool" where
  "best_chain_set C p st q \<longleftrightarrow>
     pindexBest st = p \<and> hashBestChain st = index_hash p \<and>
     q \<noteq> [] \<and> suffix q p \<and> chain_valid C q \<and> st_txdb st = index_chain C q \<and> st_dbBest st = index_hash q"

text \<open>
  Why the database may be at a block \<open>q\<close> before the new best block \<open>p\<close>: the parent of \<open>p\<close> had more trust
  than the old best block, and the block after \<open>q\<close> could not be connected.
\<close>

definition stopped_at :: "chain_env \<Rightarrow> pindex \<Rightarrow> chain_state \<Rightarrow> pindex \<Rightarrow> bool" where
  "stopped_at C p st q \<longleftrightarrow>
     bi_nChainTrust (hd (tl p)) > bi_nChainTrust (hd (pindexBest st)) \<and>
     (\<exists>r. r \<noteq> [] \<and> suffix r p \<and> tl r = q \<and> cannot_connect C r)"

lemma SetBestChain_extend:
  assumes e: "env_ok C" and st: "consistent C st" "pindexGenesisBlock st \<noteq> []"
    and h: "BlockHash C block = index_hash p" and b: "ok \<Longrightarrow> ReadBlock C p = Some block"
    and fits: "chain_shape p" "p \<noteq> []"
    and link: "hashPrevBlock block = hashBestChain st" "tl p = pindexBest st"
    and r: "SetBestChain C p block st = Some (ok, st')"
  shows "if ok then best_chain_set C p st' p else consistent C st'"
proof -
  obtain ok1 st1 where i: "SetBestChainInner C p block st = Some (ok1, st1)"
    and o: "(ok, st') = (if ok1 then (True, new_best block C p st1) else (False, st1))"
    using r link(1) st(2) by (auto simp: SetBestChain_def Let_def split: bind_splits if_splits)
  have v: "chain_valid C (tl p)" "st_txdb st = index_chain C (tl p)" using st link by (auto simp: consistent_def)
  show ?thesis
  proof (cases ok1)
    case True
    then have "ReadBlock C p = Some block" using b o by simp
    note s = SetBestChainInner_index[OF e i this fits(2) v(1) fits_file[OF fits(1) suffix_order.refl fits(2)] v(2)]
    show ?thesis using s o st h fits(2) True by (auto simp: best_chain_set_def new_best_def)
  next
    case False
    then obtain money where "st1 = st\<lparr>st_nMoneySupply := money\<rparr>"
      using i by (auto simp: SetBestChainInner_def split: prod.splits option.splits bind_splits)
    then show ?thesis using False o st(1) by (simp add: consistent_def)
  qed
qed

lemma SetBestChain_reorganize:
  assumes e: "env_ok C" and st: "consistent C st" "pindexGenesisBlock st \<noteq> []"
    and h: "BlockHash C block = index_hash p"
    and fits: "chain_fits C (pindexBest st)" "chain_shape p" "p \<noteq> []" "last p = last (pindexBest st)"
    and link: "hashPrevBlock block \<noteq> hashBestChain st"
    and r: "SetBestChain C p block st = Some (ok, st')"
  shows "if ok then \<exists>q. best_chain_set C p st' q \<and> (q = p \<or> stopped_at C p st q) else consistent C st'"
proof -
  let ?t = "bi_nChainTrust (hd (pindexBest st))"
  obtain p1 vs where i: "intermediate ?t p [] = (p1, vs)" "ascending p1 (rev vs)" "last (p1 # rev vs) = p" "p1 \<noteq> []"
    using intermediate_split[of ?t p "[]"] fits(3) by auto
  have short: "vs = [] \<and> p1 = p" if "\<not> bi_nChainTrust (hd (tl p)) > ?t"
    using that i(1) by (cases "(?t, p, []) :: _ \<times> _ \<times> pindex list" rule: intermediate.cases) auto
  have sp1: "suffix p1 p" using ascending_suffix[OF i(2), of p1] i(3) by simp
  have f1: "chain_shape p1" by (rule chain_shape_suffix[OF fits(2) sp1])
  have l1: "last p1 = last (pindexBest st)" using sp1 i(4) fits(4) by (metis suffix_def last_appendR)
  obtain ok1 st1 where ro: "Reorganize C p1 st = Some (ok1, st1)"
    using r link st(2) i(1) by (auto simp: SetBestChain_def Let_def split: bind_splits)
  note re = Reorganize_index[OF e st(1) fits(1) f1 i(4) l1 ro]
  show ?thesis
  proof (cases ok1)
    case False
    then have "ok = False" "st' = st1" using r link st(2) i(1) ro by (auto simp: SetBestChain_def Let_def)
    then show ?thesis using re False by simp
  next
    case True
    obtain st2 where c: "connect_secondary C (rev vs) st1 = Some st2" and o: "ok = True" "st' = new_best block C p st2"
      using r link st(2) i(1) ro True by (auto simp: SetBestChain_def Let_def split: bind_splits)
    have files: "list_all (\<lambda>q. bp_nFile (hd q) \<noteq> - 1) (rev vs)"
      by (rule ascending_files[where p = p1]) (simp_all only: i fits)
    obtain q where q: "q \<in> set (p1 # rev vs)" "st_txdb st2 = index_chain C q" "chain_valid C q" "st_dbBest st2 = index_hash q"
      and stop: "q = last (p1 # rev vs) \<or> (\<exists>r \<in> set (rev vs). r \<noteq> [] \<and> tl r = q \<and> cannot_connect C r)"
      using connect_secondary_index[OF e c i(2) _ files] re True by auto
    have "suffix q p" using ascending_suffix[OF i(2) q(1)] i(3) by simp
    then have "best_chain_set C p st' q"
      using q h o chain_valid_ne[OF q(3)] by (simp add: best_chain_set_def new_best_def)
    moreover have "q = p \<or> stopped_at C p st q"
    proof (cases "q = p")
      case False
      then obtain r where r: "r \<in> set (rev vs)" "r \<noteq> []" "tl r = q" "cannot_connect C r" using stop i(3) by auto
      have "suffix r p" using ascending_suffix[OF i(2), of r] r(1) i(3) by simp
      moreover have "bi_nChainTrust (hd (tl p)) > ?t" using short r(1) by (cases vs) auto
      ultimately show ?thesis using r unfolding stopped_at_def by blast
    qed simp
    ultimately show ?thesis using o by auto
  qed
qed

text \<open>A call that fails.\<close>

lemma Reorganize_fails: "Reorganize C p st = Some (False, st') \<Longrightarrow> \<exists>supply. st' = st\<lparr>st_nMoneySupply := supply\<rparr>"
  by (auto simp: Reorganize_def Let_def split: option.splits prod.splits bind_splits intro: exI[of _ "st_nMoneySupply st"])

lemma SetBestChain_fails:
  assumes "SetBestChain C p block st = Some (False, st')"
  shows "\<exists>supply. st' = st\<lparr>st_nMoneySupply := supply\<rparr>"
proof (cases "hashPrevBlock block = hashBestChain st")
  case True
  then have "SetBestChainInner C p block st = Some (False, st')"
    using assms by (auto simp: SetBestChain_def Let_def split: bind_splits if_splits)
  then show ?thesis by (rule SetBestChainInner_fails)
next
  case False
  obtain p1 vs where i: "intermediate (bi_nChainTrust (hd (pindexBest st))) p [] = (p1, vs)" by fastforce
  have "Reorganize C p1 st = Some (False, st')"
    using assms False i by (auto simp: SetBestChain_def Let_def split: bind_splits if_splits)
  then show ?thesis by (rule Reorganize_fails)
qed

section \<open>Properties\<close>

text \<open> C21.
  The search of \<open>Reorganize\<close> for the fork of two chains from the same first block ends and returns
  their longest common part.
\<close>

theorem fork_is_longest_common_chain:
  assumes "heights_ok a" "heights_ok b" "a \<noteq> []" "b \<noteq> []" "last a = last b"
  shows "\<exists>f. find_fork a b = Some f \<and> f \<noteq> [] \<and> suffix f a \<and> suffix f b \<and>
    (\<forall>g. suffix g a \<and> suffix g b \<longrightarrow> suffix g f)"
  using find_fork_is_fork[OF assms] by (auto simp: is_fork_def)


text \<open> C35.
  When the reorganisation to the first block with more trust succeeds and the next postponed block
  fails its checks, \<open>SetBestChain\<close> still answers true and makes the new block the best block in
  memory, with the database at the earlier block.
\<close>

theorem postponed_failure_unnoticed:
  assumes "pindexGenesisBlock st \<noteq> []" "hashPrevBlock block \<noteq> hashBestChain st"
    and "intermediate (bi_nChainTrust (hd (pindexBest st))) p [] = (p1, vs @ [r])"
    and "Reorganize C p1 st = Some (True, st1)" "ReadBlock C r = Some b" "CheckBlock (env_at C r) True True False b = Inl e"
  shows "\<exists>st'. SetBestChain C p block st = Some (True, st') \<and> pindexBest st' = p \<and>
    hashBestChain st' = BlockHash C block \<and> st_dbBest st' = index_hash p1 \<and> st_txdb st' = st_txdb st1"
proof -
  have "st_dbBest st1 = index_hash p1"
    using assms(4) by (auto simp: Reorganize_def Let_def split: option.splits bind_splits prod.splits)
  moreover have "SetBestChainInner C r b st1 = Some (False, st1\<lparr>st_nMoneySupply := st_nMoneySupply st1\<rparr>)"
    using assms(6) CheckBlock_pool[of "st_mempool st1" "env_at C r"]
    by (simp add: SetBestChainInner_def connect_at_def ConnectBlock_def rbind_def lift_error_def)
  ultimately show ?thesis
    using assms by (simp add: SetBestChain_def Let_def new_best_def)
qed

section \<open>A small reorganisation\<close>

text \<open>
  Blocks 11 and 12 follow the first block 10, block 13 follows 12; the best chain ends in 11, and
  12 and 13 have more trust.  Block 13 fails its checks.
\<close>

definition demo_cb :: "bytes \<Rightarrow> CTransaction" where
  "demo_cb sig = p2sh_prev []\<lparr>vin := [mk_txin outpoint_null sig 0]\<rparr>"

definition demo_block :: "uint32 \<Rightarrow> uint256 \<Rightarrow> bytes \<Rightarrow> CBlock" where
  "demo_block n prv sig = block_null\<lparr>nNonce := n, nBits := demo_bits, hashPrevBlock := prv,
     hashMerkleRoot := word_of_nat (64 + length sig), vtx := [demo_cb sig]\<rparr>"

definition demo_node :: "uint256 \<Rightarrow> int \<Rightarrow> uint256 \<Rightarrow> CBlockIndex" where
  "demo_node h n t = mk_block_index 1 100 block_null\<lparr>bp_nHeight := n, bi_hashBlock := h, bi_nChainTrust := t\<rparr>"

definition demo_10 :: pindex where "demo_10 = [demo_node 10 0 0]"
definition demo_11 :: pindex where "demo_11 = [demo_node 11 1 1, demo_node 10 0 0]"
definition demo_12 :: pindex where "demo_12 = [demo_node 12 1 2, demo_node 10 0 0]"
definition demo_13 :: pindex where "demo_13 = [demo_node 13 2 3, demo_node 12 1 2, demo_node 10 0 0]"

definition demo_read :: "pindex \<Rightarrow> CBlock option" where
  "demo_read p =
     (if p = [] then None
      else if index_hash p = 11 then Some (demo_block 11 10 [1, 2])
      else if index_hash p = 12 then Some (demo_block 12 10 [1, 2, 0])
      else if index_hash p = 13 then Some (demo_block 13 12 [1])
      else None)"

definition demo_C :: chain_env where
  "demo_C = \<lparr>env_at = (\<lambda>p. demo_block_env),
     HashFn = (\<lambda>b. word_of_nat (length b)), BlockHash = (\<lambda>b. ucast (nNonce b)), ReadBlock = demo_read,
     accept_env_at = demo_accept, nTotalBlocksEstimate = 0, hashGenesis = 10\<rparr>"

definition demo_st :: chain_state where
  "demo_st = \<lparr>st_txdb = index_chain demo_C demo_11, st_dbBest = 11, st_pnext = Map.empty,
     st_nMoneySupply = (\<lambda>_. 0),
     st_mempool = \<lparr>nTransactionsUpdated = 0, mapTx = Map.empty, mapNextTx = Map.empty\<rparr>,
     pindexGenesisBlock = demo_10, pindexBest = demo_11, hashBestChain = 11\<rparr>"

lemma demo_node_simps [simp]:
  "bp_nHeight (demo_node h n t) = n" "bi_hashBlock (demo_node h n t) = h" "bi_nChainTrust (demo_node h n t) = t"
  "bp_nFile (demo_node h n t) = 1" "bp_nBlockPos (demo_node h n t) = 100"
  "demo_node h n t = demo_node h' n' t' \<longleftrightarrow> h = h' \<and> n = n' \<and> t = t'"
  by (auto simp: demo_node_def mk_block_index_def block_null_def block_IsProofOfStake_def Let_def)

lemma demo_cb_simps [simp]:
  "IsCoinBase (demo_cb sig)" "\<not> IsCoinStake (demo_cb sig)" "GetValueOut (demo_cb sig) = Inr 5"
  "vin (demo_cb sig) = [mk_txin outpoint_null sig 0]" "length (vout (demo_cb sig)) = 1"
  by (simp_all add: IsCoinBase_def IsCoinStake_def demo_cb_def p2sh_prev_def mk_txin_def
      outpoint_IsNull_def outpoint_null_def GetValueOut_def MoneyRange_def MAX_MONEY_def COIN_def)

lemma demo_cb_sigops: "GetLegacySigOpCount (demo_cb [1, 2]) = 0" "GetLegacySigOpCount (demo_cb [1, 2, 0]) = 0"
  by code_simp+

lemma demo_cb_length: "sig = [1, 2] \<or> sig = [1, 2, 0] \<Longrightarrow> length (write_tx (demo_cb sig)) = 64 + length sig"
  by (auto simp: write_tx_def demo_cb_def p2sh_prev_def mk_txin_def write_vec_def
      write_txin_def write_txout_def write_outpoint_def write_bytevec_def write_word_def length_WriteCompactSize
      GetSizeOfCompactSize_def)

lemma demo_cb_hash:
  "tx_GetHash (\<lambda>b. word_of_nat (length b)) (demo_cb [1, 2]) = 66"
  "tx_GetHash (\<lambda>b. word_of_nat (length b)) (demo_cb [1, 2, 0]) = 67"
  by (simp_all add: tx_GetHash_def demo_cb_length)

lemma demo_cb_valid: "sig = [1, 2] \<or> sig = [1, 2, 0] \<Longrightarrow> tx_valid (demo_cb sig)"
  using demo_cb_length[of sig] unfolding tx_valid_def
  by (auto simp: MAX_BLOCK_SIZE_def) (auto simp: demo_cb_def p2sh_prev_def mk_txin_def total_out_def MAX_MONEY_def COIN_def)

lemma demo_block_checks:
  assumes "sig = [1, 2] \<or> sig = [1, 2, 0]"
  shows "CheckBlock demo_check True True False (demo_block n prv sig) = Inr ()"
proof (rule demo_check_passes)
  let ?b = "demo_block n prv sig" and ?H = "HashBytes demo_check"
  show "vtx ?b = demo_cb sig # []" "nBits ?b = demo_bits" "blk_nTime ?b = 0"
    by (simp_all add: demo_block_def block_null_def)
  show "list_all (\<lambda>tx. tx_valid tx \<and> tx_nTime tx = 0) (vtx ?b)"
    using demo_cb_valid[OF assms] by (simp add: demo_block_def) (simp add: demo_cb_def p2sh_prev_def)
  show "distinct (map (tx_GetHash ?H) (vtx ?b))" by (simp add: demo_block_def)
  show "sum_list (map GetLegacySigOpCount (vtx ?b)) \<le> MAX_BLOCK_SIGOPS"
    using assms demo_cb_sigops by (auto simp: demo_block_def)
  show "length (write_block SER_NETWORK ?b) \<le> MAX_BLOCK_SIZE"
    using assms demo_cb_length[OF assms]
    by (auto simp: write_block_def length_block_header demo_block_def write_vec_def write_bytevec_def
        block_null_def length_WriteCompactSize GetSizeOfCompactSize_def MAX_BLOCK_SIZE_def)
  show "merkle_root (merkle_node ?H) (map (tx_GetHash ?H) (vtx ?b)) = [hashMerkleRoot ?b]"
    using assms demo_cb_length[OF assms] by (auto simp: demo_block_def merkle_root.simps tx_GetHash_def demo_check_def)
qed simp_all

lemma demo_13_fails: "\<exists>e. CheckBlock (env_at demo_C p) True True False (demo_block 13 12 [1]) = Inl e"
proof -
  have "\<not> tx_valid (demo_cb [1])" by (simp add: tx_valid_def mk_txin_def)
  then have "CheckBlock (env_at demo_C p) True True False (demo_block 13 12 [1]) \<noteq> Inr ()"
    by (simp add: CheckBlock_iff block_valid_def demo_block_def)
  then show ?thesis by (cases "CheckBlock (env_at demo_C p) True True False (demo_block 13 12 [1])") auto
qed

lemma demo_env_ok: "env_ok demo_C"
  by (auto simp: env_ok_def demo_C_def demo_read_def demo_block_def block_null_def demo_block_env_def
      connect_env.defs block_env.defs demo_env_def demo_check_def check_env.defs fun_eq_iff split: if_splits)

lemma demo_read_simps [simp]:
  "ReadBlock demo_C demo_11 = Some (demo_block 11 10 [1, 2])"
  "ReadBlock demo_C demo_12 = Some (demo_block 12 10 [1, 2, 0])"
  "ReadBlock demo_C demo_13 = Some (demo_block 13 12 [1])"
  by (simp_all add: demo_C_def demo_read_def demo_11_def demo_12_def demo_13_def)

lemma demo_fits: "chain_fits demo_C demo_11" "chain_shape demo_12"
  using demo_read_simps(1) by (simp_all add: chain_fits_simps demo_11_def demo_12_def demo_block_def)

lemma demo_valid: "chain_valid demo_C demo_11"
  using demo_read_simps(1)
  demo_cb_valid[of "[1, 2]"]
  by (simp add: demo_11_def demo_block_def block_spendable_def spendable_def block_sound_def positions_ok_def)

lemma demo_consistent: "consistent demo_C demo_st"
  using demo_valid by (simp add: consistent_def demo_st_def) (simp add: demo_11_def)

lemma demo_connect_12:
  "\<exists>money db. connect_at demo_C pool demo_12 (demo_block 12 10 [1, 2, 0]) supply V = (money, Some db)"
proof -
  let ?E = "(env_at demo_C demo_12)\<lparr>tx_pool := pool\<rparr>"
  have "CheckBlock ?E True True False (demo_block 12 10 [1, 2, 0]) = Inr ()"
    by (simp add: demo_C_def CheckBlock_demo demo_block_checks)
  moreover have "\<exists>s. connect_txs ?E V demo_12 False f (vtx (demo_block 12 10 [1, 2, 0])) (init_state q) = Inr s \<and> cs_nFees s = 0" for f q
    by (simp add: demo_block_def connect_tx_def Let_def rbind_def init_state_def lift_error_def demo_cb_sigops MAX_BLOCK_SIGOPS_def)
  then obtain s where "connect_txs ?E V demo_12 False SCRIPT_VERIFY_NOCACHE (vtx (demo_block 12 10 [1, 2, 0]))
      (init_state (first_tx_pos demo_12 False (demo_block 12 10 [1, 2, 0]))) = Inr s" "cs_nFees s = 0" by blast
  moreover have "check_rewards ?E V demo_12 (demo_block 12 10 [1, 2, 0]) s = Inr ()" if "cs_nFees s = 0" for s
    using that by (simp add: check_rewards_def block_IsProofOfWork_def block_IsProofOfStake_def demo_block_def Let_def
        rbind_def lift_error_def GetProofOfWorkReward_def STAKE_MIN_CONFIRMATIONS_def PREMINE_AMOUNT_def COIN_def
        signed_divide_int_def demo_12_def)
  ultimately show ?thesis by (auto simp: connect_at_def ConnectBlock_def rbind_def lift_error_def Let_def)
qed

lemma demo_fork: "find_fork demo_11 demo_12 = Some demo_10"
  unfolding demo_11_def demo_12_def demo_10_def
  by (subst find_fork.simps, simp, subst find_fork.simps, simp)

lemma delete_txs_empty:
  assumes "mapTx P = Map.empty" "mapNextTx P = Map.empty"
  shows "delete_txs H txs P = Some P"
proof -
  have keep: "ofold f xs P = Some P" if "\<And>x. f x P = Some P" for f and xs :: "'a list"
    by (induction xs) (simp_all add: that)
  have "mp_remove H tx False P = Some P" for tx
    by (subst mp_remove.simps) (simp add: Let_def assms(1))
  moreover have "removeConflicts H tx P = Some P" for tx
    unfolding removeConflicts_def by (rule keep) (simp add: assms(2))
  ultimately show ?thesis unfolding delete_txs_def by (intro keep) simp
qed

lemma demo_reorganize: "\<exists>st1. Reorganize demo_C demo_12 demo_st = Some (True, st1)"
proof -
  have st: "pindexBest demo_st = demo_11" "st_txdb demo_st = index_chain demo_C demo_11"
    by (simp_all add: demo_st_def)
  have "DisconnectBlock (HashFn demo_C) (demo_block 11 10 [1, 2]) (index_chain demo_C demo_11) = Inr (index_chain demo_C demo_10)"
    using chain_disconnect[of demo_C "demo_node 11 1 1" demo_10] demo_valid demo_fits(1) demo_read_simps(1)
    unfolding demo_11_def demo_10_def by blast
  moreover have "down_to demo_11 demo_10 = [demo_11]" by (simp add: demo_10_def demo_11_def)
  moreover have "resurrected demo_C demo_11 (demo_block 11 10 [1, 2]) = []"
    by (simp add: resurrected_def demo_block_def)
  ultimately have d: "disconnect_branch demo_C (down_to demo_11 demo_10) (index_chain demo_C demo_11) [] =
      Some (index_chain demo_C demo_10, [])"
    by simp
  have up: "rev (down_to demo_12 demo_10) = [demo_12]" by (simp add: demo_10_def demo_12_def)
  obtain money db where c: "connect_at demo_C (st_mempool demo_st) demo_12 (demo_block 12 10 [1, 2, 0])
      (st_nMoneySupply demo_st) (index_chain demo_C demo_10) = (money, Some db)"
    using demo_connect_12 by blast
  have acc: "resurrect_txs demo_C demo_11 V [] P = P" for V P
    by (simp add: resurrect_txs_def)
  have dl: "delete_txs H txs (st_mempool demo_st) = Some (st_mempool demo_st)" for H txs
    by (rule delete_txs_empty) (simp_all add: demo_st_def)
  show ?thesis
    by (simp add: Reorganize_def st demo_fork Let_def d up c acc dl)
qed

lemma fork_is_longest_common_chain_witness:
  "\<exists>f. find_fork demo_11 demo_13 = Some f \<and> f \<noteq> [] \<and> suffix f demo_11 \<and> suffix f demo_13 \<and>
    (\<forall>g. suffix g demo_11 \<and> suffix g demo_13 \<longrightarrow> suffix g f)"
  by (rule fork_is_longest_common_chain) (simp_all add: demo_11_def demo_13_def)


lemma postponed_failure_unnoticed_witness:
  "\<exists>st'. SetBestChain demo_C demo_13 (demo_block 13 12 [1]) demo_st = Some (True, st') \<and>
    hashBestChain st' = 13 \<and> st_dbBest st' = 12"
proof -
  obtain st1 where st1: "Reorganize demo_C demo_12 demo_st = Some (True, st1)" using demo_reorganize by blast
  obtain e where e: "CheckBlock (env_at demo_C demo_13) True True False (demo_block 13 12 [1]) = Inl e"
    using demo_13_fails by blast
  have "\<exists>st'. SetBestChain demo_C demo_13 (demo_block 13 12 [1]) demo_st = Some (True, st') \<and>
      pindexBest st' = demo_13 \<and> hashBestChain st' = BlockHash demo_C (demo_block 13 12 [1]) \<and>
      st_dbBest st' = index_hash demo_12 \<and> st_txdb st' = st_txdb st1"
  proof (rule postponed_failure_unnoticed[OF _ _ _ st1 demo_read_simps(3) e])
    show "intermediate (bi_nChainTrust (hd (pindexBest demo_st))) demo_13 [] = (demo_12, [] @ [demo_13])"
      by (simp add: demo_st_def demo_11_def demo_12_def demo_13_def)
  qed (simp_all add: demo_st_def demo_10_def demo_block_def demo_C_def)
  then show ?thesis by (auto simp: demo_C_def demo_block_def demo_12_def)
qed

end
