(* ===== verification/StakeModifier.thy ===== *)
theory StakeModifier
  imports ChainIndex "HOL-Library.Product_Lexorder" "HOL-Library.Sublist" "HOL-Library.Multiset"
begin

text \<open>
  The stake modifier of \<open>src/src/kernel.cpp\<close>: \<open>GetLastStakeModifier\<close>, the selection intervals,
  \<open>SelectBlockFromCandidates\<close>, \<open>ComputeNextStakeModifier\<close> and \<open>ComputeStakeModifierV2\<close>, with the map
  \<open>mapBlockIndex\<close> that the selection looks its blocks up in.  \<open>H\<close> is the double SHA-256.  The printed
  selection map is left out.
\<close>

section \<open>Intervals\<close>

type_synonym block_map = "uint256 \<rightharpoonup> pindex"

definition nModifierInterval :: int where "nModifierInterval = 2 * 60"
definition MODIFIER_INTERVAL_RATIO :: int where "MODIFIER_INTERVAL_RATIO = 3"
definition nStakeMinAge :: int where "nStakeMinAge = 24 * 60 * 60"
definition nStakeMaxAge :: int where "nStakeMaxAge = 48 * 24 * 60 * 60"

definition GetWeight :: "int \<Rightarrow> int \<Rightarrow> int" where
  "GetWeight nIntervalBeginning nIntervalEnd = nIntervalEnd - nIntervalBeginning - nStakeMinAge"

definition GetStakeModifierSelectionIntervalSection :: "nat \<Rightarrow> int" where
  "GetStakeModifierSelectionIntervalSection nSection =
     nModifierInterval * 63 div (63 + (63 - int nSection) * (MODIFIER_INTERVAL_RATIO - 1))"

definition GetStakeModifierSelectionInterval :: int where
  "GetStakeModifierSelectionInterval =
     foldl (\<lambda>s nSection. s + GetStakeModifierSelectionIntervalSection nSection) 0 [0..<64]"

section \<open>The last modifier\<close>

fun last_generated :: "pindex \<Rightarrow> pindex" where
  "last_generated (p # q # rest) =
     (if \<not> GeneratedStakeModifier p then last_generated (q # rest) else p # q # rest)"
| "last_generated p = p"

definition GetLastStakeModifier :: "pindex \<Rightarrow> (uint64 \<times> int) option" where
  "GetLastStakeModifier pindex =
     (if pindex = [] then None
      else
        let p = hd (last_generated pindex)
        in if \<not> GeneratedStakeModifier p then None else Some (bi_nStakeModifier p, bi_GetBlockTime p))"

section \<open>Selecting a block\<close>

text \<open>The selection hash of a block; work is favoured less, by 32 bits.\<close>

definition selection_hash :: "(bytes \<Rightarrow> uint256) \<Rightarrow> uint64 \<Rightarrow> CBlockIndex \<Rightarrow> uint256" where
  "selection_hash H nStakeModifierPrev p =
     (let hashSelection = H (write_word 32 (bi_hashProof p) @ write_word 8 nStakeModifierPrev)
      in if bi_IsProofOfStake p then drop_bit 32 hashSelection else hashSelection)"

text \<open>
  The loop over the candidates; the state is the best hash and block so far, if one is selected.
  \<open>None\<close> is the error that a candidate is not in the map.
\<close>

fun select_loop ::
  "(bytes \<Rightarrow> uint256) \<Rightarrow> block_map \<Rightarrow> uint256 set \<Rightarrow> int \<Rightarrow> uint64 \<Rightarrow> (uint256 \<times> pindex) option \<Rightarrow>
     (int \<times> uint256) list \<Rightarrow> (uint256 \<times> pindex) option option" where
  "select_loop H mapBlockIndex selected stop modifier best [] = Some best"
| "select_loop H mapBlockIndex selected stop modifier best (item # rest) =
     (case mapBlockIndex (snd item) of
        None \<Rightarrow> None
      | Some pindex \<Rightarrow>
          let p = hd pindex
          in if best \<noteq> None \<and> bi_GetBlockTime p > stop then Some best
             else if bi_hashBlock p \<in> selected then select_loop H mapBlockIndex selected stop modifier best rest
             else
               let hashSelection = selection_hash H modifier p
               in (case best of
                     None \<Rightarrow> select_loop H mapBlockIndex selected stop modifier (Some (hashSelection, pindex)) rest
                   | Some (hashBest, b) \<Rightarrow>
                       select_loop H mapBlockIndex selected stop modifier
                         (if hashSelection < hashBest then Some (hashSelection, pindex) else Some (hashBest, b)) rest))"

definition SelectBlockFromCandidates ::
  "(bytes \<Rightarrow> uint256) \<Rightarrow> block_map \<Rightarrow> (int \<times> uint256) list \<Rightarrow> uint256 set \<Rightarrow> int \<Rightarrow> uint64 \<Rightarrow> pindex option" where
  "SelectBlockFromCandidates H mapBlockIndex vSortedByTimestamp selected stop modifier =
     (case select_loop H mapBlockIndex selected stop modifier None vSortedByTimestamp of
        Some (Some (hashBest, pindex)) \<Rightarrow> Some pindex
      | _ \<Rightarrow> None)"

section \<open>The next modifier\<close>

text \<open>The rounds from \<open>nRound\<close> on, \<open>n\<close> of them.\<close>

fun select_rounds ::
  "(bytes \<Rightarrow> uint256) \<Rightarrow> block_map \<Rightarrow> (int \<times> uint256) list \<Rightarrow> uint64 \<Rightarrow> nat \<Rightarrow> nat \<Rightarrow> uint256 set \<Rightarrow> int \<Rightarrow>
     uint64 \<Rightarrow> uint64 option" where
  "select_rounds H mapBlockIndex cands modifier 0 nRound selected stop nStakeModifierNew = Some nStakeModifierNew"
| "select_rounds H mapBlockIndex cands modifier (Suc n) nRound selected stop nStakeModifierNew =
     (let stop = stop + GetStakeModifierSelectionIntervalSection nRound
      in case SelectBlockFromCandidates H mapBlockIndex cands selected stop modifier of
           None \<Rightarrow> None
         | Some pindex \<Rightarrow>
             select_rounds H mapBlockIndex cands modifier n (Suc nRound) (insert (bi_hashBlock (hd pindex)) selected) stop
               (nStakeModifierNew OR push_bit nRound (ucast (bi_GetStakeEntropyBit (hd pindex)))))"

definition selection_start :: "int \<Rightarrow> int" where
  "selection_start nTime = (nTime div nModifierInterval) * nModifierInterval - GetStakeModifierSelectionInterval"

definition candidates :: "pindex \<Rightarrow> (int \<times> uint256) list" where
  "candidates pindexPrev =
     map (\<lambda>p. (bi_GetBlockTime p, bi_hashBlock p))
       (takeWhile (\<lambda>p. bi_GetBlockTime p \<ge> selection_start (bi_GetBlockTime (hd pindexPrev))) pindexPrev)"

definition ComputeNextStakeModifier :: "(bytes \<Rightarrow> uint256) \<Rightarrow> block_map \<Rightarrow> pindex \<Rightarrow> (uint64 \<times> bool) option" where
  "ComputeNextStakeModifier H mapBlockIndex pindexPrev =
     (if pindexPrev = [] then Some (0, True)
      else case GetLastStakeModifier pindexPrev of
        None \<Rightarrow> None
      | Some (nStakeModifier, nModifierTime) \<Rightarrow>
          let nTime = bi_GetBlockTime (hd pindexPrev)
          in if nModifierTime div nModifierInterval \<ge> nTime div nModifierInterval then Some (nStakeModifier, False)
             else
               let vSortedByTimestamp = sort (rev (candidates pindexPrev))
               in case select_rounds H mapBlockIndex vSortedByTimestamp nStakeModifier
                         (min 64 (length vSortedByTimestamp)) 0 {} (selection_start nTime) 0 of
                    None \<Rightarrow> None
                  | Some nStakeModifierNew \<Rightarrow> Some (nStakeModifierNew, True))"

definition ComputeStakeModifierV2 :: "(bytes \<Rightarrow> uint256) \<Rightarrow> pindex \<Rightarrow> uint256 \<Rightarrow> uint256" where
  "ComputeStakeModifierV2 H pindexPrev hashKernel =
     (if pindexPrev = [] then 0
      else H (write_word 32 hashKernel @ write_word 32 (bi_bnStakeModifierV2 (hd pindexPrev))))"


section \<open>The modifier as a function of the chain\<close>

text \<open>The candidates in order of time, then hash.\<close>

definition candidate_order :: "CBlockIndex \<Rightarrow> int \<times> uint256" where
  "candidate_order p = (bi_GetBlockTime p, bi_hashBlock p)"

lemma candidate_order_simps [simp]:
  "fst (candidate_order p) = bi_GetBlockTime p" "snd (candidate_order p) = bi_hashBlock p"
  by (simp_all add: candidate_order_def)

definition sorted_candidates :: "pindex \<Rightarrow> CBlockIndex list" where
  "sorted_candidates pindexPrev =
     sort_key candidate_order
       (takeWhile (\<lambda>p. bi_GetBlockTime p \<ge> selection_start (bi_GetBlockTime (hd pindexPrev))) pindexPrev)"

text \<open>
  The choice of a round: among the blocks not yet selected, the first one and those up to the end of
  the interval, the least selection hash, the earlier one if equal.
\<close>

definition pick :: "(bytes \<Rightarrow> uint256) \<Rightarrow> uint64 \<Rightarrow> uint256 set \<Rightarrow> int \<Rightarrow> CBlockIndex list \<Rightarrow> CBlockIndex option" where
  "pick H modifier selected stop cs =
     (case filter (\<lambda>p. bi_hashBlock p \<notin> selected) cs of
        [] \<Rightarrow> None
      | u # us \<Rightarrow> Some (arg_min_list (selection_hash H modifier) (u # filter (\<lambda>p. bi_GetBlockTime p \<le> stop) us)))"

fun picks :: "(bytes \<Rightarrow> uint256) \<Rightarrow> uint64 \<Rightarrow> CBlockIndex list \<Rightarrow> nat \<Rightarrow> nat \<Rightarrow> uint256 set \<Rightarrow> int \<Rightarrow> CBlockIndex list" where
  "picks H modifier cs 0 i selected stop = []"
| "picks H modifier cs (Suc n) i selected stop =
     (let stop = stop + GetStakeModifierSelectionIntervalSection i
      in case pick H modifier selected stop cs of
           None \<Rightarrow> []
         | Some p \<Rightarrow> p # picks H modifier cs n (Suc i) (insert (bi_hashBlock p) selected) stop)"

definition selected_blocks :: "(bytes \<Rightarrow> uint256) \<Rightarrow> pindex \<Rightarrow> CBlockIndex list" where
  "selected_blocks H p =
     (let cs = sorted_candidates p
      in picks H (bi_nStakeModifier (hd (last_generated p))) cs (min 64 (length cs)) 0 {}
           (selection_start (bi_GetBlockTime (hd p))))"

fun entropy_bits :: "nat \<Rightarrow> CBlockIndex list \<Rightarrow> uint64" where
  "entropy_bits i [] = 0"
| "entropy_bits i (p # ps) = push_bit i (ucast (bi_GetStakeEntropyBit p)) OR entropy_bits (Suc i) ps"

text \<open>Every block of the chain is in the map under its hash.\<close>

definition in_map :: "block_map \<Rightarrow> pindex \<Rightarrow> bool" where
  "in_map T p \<longleftrightarrow> (\<forall>q. suffix q p \<and> q \<noteq> [] \<longrightarrow> T (bi_hashBlock (hd q)) = Some q)"

lemma in_map_suffix: "in_map T p \<Longrightarrow> suffix q p \<Longrightarrow> in_map T q"
  by (auto simp: in_map_def intro: suffix_order.trans)

lemma in_map_member: "in_map T p \<Longrightarrow> x \<in> set p \<Longrightarrow> \<exists>q. T (bi_hashBlock x) = Some (x # q)"
  by (auto simp: in_map_def in_set_conv_decomp) (metis list.distinct(1) list.sel(1) suffixI)

lemma in_map_distinct: "in_map T p \<Longrightarrow> distinct (map bi_hashBlock p)"
proof (induction p)
  case (Cons x p)
  have ne: "bi_hashBlock y \<noteq> bi_hashBlock x" if y: "y \<in> set p" for y
  proof
    assume e: "bi_hashBlock y = bi_hashBlock x"
    obtain a b where p: "p = a @ y # b" using y by (auto simp: in_set_conv_decomp)
    have "suffix (y # b) (x # p)" by (simp add: p suffix_def)
    then have "T (bi_hashBlock y) = Some (y # b)"
      using Cons.prems[unfolded in_map_def, THEN spec, of "y # b"] by simp
    moreover have "T (bi_hashBlock x) = Some (x # p)"
      using Cons.prems[unfolded in_map_def, THEN spec, of "x # p"] by simp
    ultimately have "length (y # b) = length (x # p)" by (metis e option.inject)
    then show False using p by simp
  qed
  have "distinct (map bi_hashBlock p)"
    by (rule Cons.IH, rule in_map_suffix[OF Cons.prems]) (simp add: suffix_ConsI)
  then show ?case using ne by force
qed simp

section \<open>A round\<close>

lemma arg_min_list_Cons2:
  "arg_min_list f (b # x # xs) = arg_min_list f ((if f x < f b then x else b) # xs)" for f :: "'a \<Rightarrow> 'b::linorder"
  by (cases xs) (auto simp: Let_def)

lemma arg_min_list_member: "xs \<noteq> [] \<Longrightarrow> arg_min_list f xs \<in> set xs" for f :: "'a \<Rightarrow> 'b::linorder"
  by (rule arg_min_list_in)

text \<open>The loop once a block is selected.\<close>

lemma select_loop_best:
  assumes "list_all (\<lambda>p. \<exists>q. T (bi_hashBlock p) = Some (p # q)) cs"
    and "sorted (map candidate_order cs)"
    and "T (bi_hashBlock (hd b)) = Some b" "b \<noteq> []"
  shows "\<exists>b'. select_loop H T selected stop m (Some (selection_hash H m (hd b), b)) (map candidate_order cs) =
      Some (Some (selection_hash H m (hd b'), b')) \<and> b' \<noteq> [] \<and>
      hd b' = arg_min_list (selection_hash H m)
        (hd b # filter (\<lambda>p. bi_GetBlockTime p \<le> stop) (filter (\<lambda>p. bi_hashBlock p \<notin> selected) cs))"
  using assms
proof (induction cs arbitrary: b)
  case (Cons c cs)
  obtain q where q: "T (bi_hashBlock c) = Some (c # q)" using Cons.prems(1) by auto
  note IH = Cons.IH[of b] Cons.IH[of "c # q"]
  show ?case
  proof (cases "bi_GetBlockTime c > stop")
    case True
    have "\<forall>p\<in>set cs. bi_GetBlockTime c \<le> bi_GetBlockTime p"
      using Cons.prems(2) by (auto simp: candidate_order_def less_eq_prod_def)
    then have "filter (\<lambda>p. bi_GetBlockTime p \<le> stop) (filter (\<lambda>p. bi_hashBlock p \<notin> selected) (c # cs)) = []"
      using True by (auto simp: filter_empty_conv)
    then show ?thesis using True q Cons.prems(4) by (simp del: filter.simps)
  next
    case False
    show ?thesis
    proof (cases "bi_hashBlock c \<in> selected")
      case True
      then show ?thesis using False q IH(1) Cons.prems by simp
    next
      case ns: False
      show ?thesis
        using False ns q IH Cons.prems
        by (cases "selection_hash H m c < selection_hash H m (hd b)")
          (simp_all add: arg_min_list_Cons2 del: arg_min_list.simps)
    qed
  qed
qed (auto)

lemma select_is_pick:
  assumes "list_all (\<lambda>p. \<exists>q. T (bi_hashBlock p) = Some (p # q)) cs" "sorted (map candidate_order cs)"
  shows "map_option hd (SelectBlockFromCandidates H T (map candidate_order cs) selected stop m) = pick H m selected stop cs"
  using assms
proof (induction cs)
  case Nil
  then show ?case by (simp add: SelectBlockFromCandidates_def pick_def)
next
  case (Cons c cs)
  obtain q where q: "T (bi_hashBlock c) = Some (c # q)" using Cons.prems(1) by auto
  show ?case
  proof (cases "bi_hashBlock c \<in> selected")
    case True
    then show ?thesis using Cons q by (simp add: SelectBlockFromCandidates_def pick_def)
  next
    case False
    obtain b' where "select_loop H T selected stop m (Some (selection_hash H m c, c # q)) (map candidate_order cs) =
        Some (Some (selection_hash H m (hd b'), b'))"
      "hd b' = arg_min_list (selection_hash H m)
        (c # filter (\<lambda>p. bi_GetBlockTime p \<le> stop) (filter (\<lambda>p. bi_hashBlock p \<notin> selected) cs))"
      using select_loop_best[of T cs "c # q" H selected stop m] Cons.prems q by auto
    then show ?thesis using False q by (simp add: SelectBlockFromCandidates_def pick_def)
  qed
qed


lemma pick_some:
  assumes "filter (\<lambda>p. bi_hashBlock p \<notin> S) cs \<noteq> []"
  shows "\<exists>p. pick H m S stop cs = Some p \<and> p \<in> set cs \<and> bi_hashBlock p \<notin> S"
proof -
  obtain u us where u: "filter (\<lambda>p. bi_hashBlock p \<notin> S) cs = u # us" using assms by (cases "filter (\<lambda>p. bi_hashBlock p \<notin> S) cs") auto
  have "arg_min_list (selection_hash H m) (u # filter (\<lambda>p. bi_GetBlockTime p \<le> stop) us) \<in> set (u # us)"
    using arg_min_list_member[of "u # filter (\<lambda>p. bi_GetBlockTime p \<le> stop) us" "selection_hash H m"] by auto
  moreover have "set (u # us) = {p \<in> set cs. bi_hashBlock p \<notin> S}" by (metis u set_filter)
  ultimately show ?thesis using u by (auto simp: pick_def simp del: arg_min_list.simps)
qed

lemma filter_one_less:
  "distinct (map f cs) \<Longrightarrow> p \<in> set cs \<Longrightarrow> f p \<notin> S \<Longrightarrow>
    length (filter (\<lambda>x. f x \<notin> S) cs) = Suc (length (filter (\<lambda>x. f x \<notin> insert (f p) S) cs))"
proof (induction cs)
  case (Cons c cs)
  have "filter (\<lambda>x. f x \<noteq> f p \<and> f x \<notin> S) cs = filter (\<lambda>x. f x \<notin> S) cs" if "f p \<notin> f ` set cs"
    using that by (intro filter_cong refl) (metis imageI)
  then show ?case using Cons by (auto simp: image_iff)
qed simp

section \<open>All rounds\<close>

lemma select_rounds_picks:
  assumes t: "list_all (\<lambda>p. \<exists>q. T (bi_hashBlock p) = Some (p # q)) cs" "sorted (map candidate_order cs)"
    and d: "distinct (map bi_hashBlock cs)" and n: "n \<le> length (filter (\<lambda>p. bi_hashBlock p \<notin> S) cs)"
  shows "select_rounds H T (map candidate_order cs) m n i S stop acc =
      Some (acc OR entropy_bits i (picks H m cs n i S stop)) \<and>
    length (picks H m cs n i S stop) = n \<and> distinct (map bi_hashBlock (picks H m cs n i S stop)) \<and>
    set (picks H m cs n i S stop) \<subseteq> {c \<in> set cs. bi_hashBlock c \<notin> S}"
  using n
proof (induction n arbitrary: i S stop acc)
  case (Suc n)
  let ?stop = "stop + GetStakeModifierSelectionIntervalSection i"
  have "filter (\<lambda>p. bi_hashBlock p \<notin> S) cs \<noteq> []" using Suc.prems by auto
  then obtain p where p: "pick H m S ?stop cs = Some p" "p \<in> set cs" "bi_hashBlock p \<notin> S"
    using pick_some by blast
  then obtain b where b: "SelectBlockFromCandidates H T (map candidate_order cs) S ?stop m = Some b" "hd b = p"
    using select_is_pick[OF t, of H S ?stop m] by auto
  have n': "n \<le> length (filter (\<lambda>x. bi_hashBlock x \<notin> insert (bi_hashBlock p) S) cs)"
    using Suc.prems filter_one_less[of bi_hashBlock cs p S, OF d p(2,3)] by simp
  show ?case
    using Suc.IH[OF n', of "Suc i" ?stop "acc OR push_bit i (ucast (bi_GetStakeEntropyBit p))"] p b
    by (auto simp: Let_def or.assoc)
qed simp

lemma entropy_bit: "bit (bi_GetStakeEntropyBit p) j \<longleftrightarrow> j = 0 \<and> bit (bi_nFlags p) 1"
  by (auto simp: bi_GetStakeEntropyBit_def BLOCK_STAKE_ENTROPY_def bit_simps)

lemma bit_entropy_bits:
  "bit (entropy_bits i ps) k \<longleftrightarrow> k < 64 \<and> i \<le> k \<and> k - i < length ps \<and> bit (bi_nFlags (ps ! (k - i))) 1"
proof (induction i ps rule: entropy_bits.induct)
  case (2 i p ps)
  then show ?case
    by (cases "k = i") (auto simp: bit_simps entropy_bit nth_Cons' Suc_diff_Suc not_less_eq_eq le_Suc_eq)
qed simp

text \<open>The candidates of a chain whose blocks are in the map.\<close>

lemma sort_map_key: "sort (map f (rev xs)) = map f (sort_key f xs)" for f :: "'a \<Rightarrow> 'b::linorder"
  by (rule properties_for_sort) simp_all

lemma candidates_sorted: "sort (rev (candidates p)) = map candidate_order (sorted_candidates p)"
proof -
  have "candidates p = map candidate_order
      (takeWhile (\<lambda>q. bi_GetBlockTime q \<ge> selection_start (bi_GetBlockTime (hd p))) p)"
    by (simp add: candidates_def candidate_order_def)
  then show ?thesis by (simp add: sorted_candidates_def rev_map sort_map_key)
qed

lemma sorted_candidates_subset: "set (sorted_candidates p) \<subseteq> set p"
  by (auto simp: sorted_candidates_def dest: set_takeWhileD)

lemma sorted_candidates_distinct:
  assumes "distinct (map bi_hashBlock p)"
  shows "distinct (map bi_hashBlock (sorted_candidates p))"
proof -
  let ?t = "takeWhile (\<lambda>q. bi_GetBlockTime q \<ge> selection_start (bi_GetBlockTime (hd p))) p"
  have "distinct (map bi_hashBlock ?t)"
    using assms by (metis distinct_append map_append takeWhile_dropWhile_id)
  then have "distinct ?t \<and> inj_on bi_hashBlock (set ?t)" by (simp only: distinct_map)
  then show ?thesis by (simp add: sorted_candidates_def distinct_map)
qed

lemma rounds_of_chain:
  assumes "in_map T p"
  defines "cs \<equiv> sorted_candidates p"
  shows "select_rounds H T (map candidate_order cs) (bi_nStakeModifier (hd (last_generated p)))
      (min 64 (length cs)) 0 {} (selection_start (bi_GetBlockTime (hd p))) 0 =
      Some (entropy_bits 0 (selected_blocks H p)) \<and>
    length (selected_blocks H p) = min 64 (length cs) \<and> distinct (map bi_hashBlock (selected_blocks H p)) \<and>
    set (selected_blocks H p) \<subseteq> set cs"
proof -
  have t: "list_all (\<lambda>c. \<exists>q. T (bi_hashBlock c) = Some (c # q)) cs"
    using in_map_member[OF assms(1)] sorted_candidates_subset[of p] by (auto simp: list_all_iff cs_def)
  have s: "sorted (map candidate_order cs)" by (simp add: cs_def sorted_candidates_def)
  have d: "distinct (map bi_hashBlock cs)"
    unfolding cs_def by (rule sorted_candidates_distinct[OF in_map_distinct[OF assms(1)]])
  show ?thesis
    using select_rounds_picks[OF t s d, of "min 64 (length cs)" "{}" H "bi_nStakeModifier (hd (last_generated p))" 0
        "selection_start (bi_GetBlockTime (hd p))" 0]
    by (auto simp: selected_blocks_def Let_def simp flip: cs_def)
qed


lemma last_generated_ok:
  "p \<noteq> [] \<Longrightarrow> GeneratedStakeModifier (last p) \<Longrightarrow> last_generated p \<noteq> [] \<and> GeneratedStakeModifier (hd (last_generated p))"
  by (induction p rule: last_generated.induct) auto

text \<open>The computation succeeds, with the last modifier or a new one.\<close>

lemma ComputeNextStakeModifier_eq:
  assumes "in_map T p" "p \<noteq> []" "GeneratedStakeModifier (last p)"
  shows "ComputeNextStakeModifier H T p =
      Some (let g = hd (last_generated p)
            in if bi_GetBlockTime g div nModifierInterval \<ge> bi_GetBlockTime (hd p) div nModifierInterval
               then (bi_nStakeModifier g, False) else (entropy_bits 0 (selected_blocks H p), True))"
  using last_generated_ok[OF assms(2,3)] rounds_of_chain[OF assms(1), of H] assms(2)
  by (simp add: ComputeNextStakeModifier_def GetLastStakeModifier_def candidates_sorted Let_def)

section \<open>Properties\<close>

text \<open> C7.
  The next stake modifier is a function of the chain alone, whatever other branches the node knows:
  if the blocks of the chain are in the map of blocks, the computation succeeds and returns the last
  modifier while its interval lasts, and after it the entropy bits of up to 64 distinct blocks of the
  chain, one for each round, each of the least selection hash in its round.
\<close>

theorem stake_modifier_reference:
  assumes "in_map T p" "p \<noteq> []" "GeneratedStakeModifier (last p)"
  shows "ComputeNextStakeModifier H T p =
      Some (let g = hd (last_generated p)
            in if bi_GetBlockTime g div nModifierInterval \<ge> bi_GetBlockTime (hd p) div nModifierInterval
               then (bi_nStakeModifier g, False) else (entropy_bits 0 (selected_blocks H p), True)) \<and>
    length (selected_blocks H p) = min 64 (length (sorted_candidates p)) \<and>
    distinct (map bi_hashBlock (selected_blocks H p)) \<and> set (selected_blocks H p) \<subseteq> set p"
  using ComputeNextStakeModifier_eq[OF assms] rounds_of_chain[OF assms(1), of H] sorted_candidates_subset[of p] by auto

definition stake_demo :: pindex where
  "stake_demo =
     [(demo_index 400)\<lparr>bi_hashBlock := 2\<rparr>, SetStakeModifier 7 True ((demo_index 100)\<lparr>bi_hashBlock := 1\<rparr>)]"

lemma stake_modifier_reference_witness:
  "\<exists>m. ComputeNextStakeModifier (\<lambda>_. 0) [1 \<mapsto> tl stake_demo, 2 \<mapsto> stake_demo] stake_demo = Some (m, True)"
proof -
  have "in_map [1 \<mapsto> tl stake_demo, 2 \<mapsto> stake_demo] stake_demo"
    by (auto simp: in_map_def stake_demo_def suffix_Cons SetStakeModifier_def Let_def)
  moreover have "GeneratedStakeModifier (last stake_demo)" "stake_demo \<noteq> []"
    by (simp_all add: stake_demo_def SetStakeModifier_def GeneratedStakeModifier_def BLOCK_STAKE_MODIFIER_def
        demo_index_def mk_block_index_def block_IsProofOfStake_def block_null_def Let_def)
  moreover have "\<not> bi_GetBlockTime (hd (last_generated stake_demo)) div nModifierInterval \<ge>
      bi_GetBlockTime (hd stake_demo) div nModifierInterval"
    by (simp add: stake_demo_def SetStakeModifier_def GeneratedStakeModifier_def BLOCK_STAKE_MODIFIER_def
        demo_index_def mk_block_index_def block_IsProofOfStake_def block_null_def Let_def
        nModifierInterval_def bi_GetBlockTime_def)
  ultimately show ?thesis using stake_modifier_reference[of _ stake_demo "\<lambda>_. 0"] by (simp add: Let_def)
qed

end
