(* ===== verification/Kernel.thy ===== *)
theory Kernel
  imports BlockConnect StakeModifier
begin

text \<open>
  The proof of stake of \<open>src/src/kernel.cpp\<close>: \<open>CheckStakeKernelHash\<close>, \<open>CheckProofOfStake\<close>,
  \<open>CheckKernel\<close>, with which the miner looks for a kernel, and \<open>CheckCoinStakeTimestamp\<close>.  Reading the
  header of a block from disk is the argument \<open>ReadHeader\<close>; a result is \<open>None\<close> when the check fails.
\<close>

section \<open>Definitions\<close>

definition STAKE_TIMESTAMP_MASK :: int where "STAKE_TIMESTAMP_MASK = 15"

definition kernel_bytes :: "uint64 \<Rightarrow> uint32 \<Rightarrow> uint32 \<Rightarrow> COutPoint \<Rightarrow> uint32 \<Rightarrow> bytes" where
  "kernel_bytes nStakeModifier nTimeBlockFrom nTimePrev pout nTimeTx =
     write_word 8 nStakeModifier @ write_word 4 nTimeBlockFrom @ write_word 4 nTimePrev @
     write_word 32 (op_hash pout) @ write_word 4 (op_n pout) @ write_word 4 nTimeTx"

text \<open>The results are \<open>hashProofOfStake\<close> and \<open>targetProofOfStake\<close>; the ages are sums of 32 bits.\<close>

definition CheckStakeKernelHash ::
  "'a check_env_scheme \<Rightarrow> pindex \<Rightarrow> uint32 \<Rightarrow> uint32 \<Rightarrow> CTransaction \<Rightarrow> COutPoint \<Rightarrow> uint32 \<Rightarrow> (uint256 \<times> uint256) option" where
  "CheckStakeKernelHash E pindexPrev bits nTimeBlockFrom txPrev pout nTimeTx =
     (if nTimeTx < tx_nTime txPrev then None
      else if nTimeBlockFrom + word_of_int nStakeMinAge > nTimeTx then None
      else if nTimeBlockFrom + word_of_int nStakeMaxAge < nTimeTx then None
      else
        let bnTarget = bignum_SetCompact (bn_mpi2bn E) bits * sint (nValue (vout txPrev ! unat (op_n pout)));
            targetProofOfStake = bignum_getuint256 (bn_bn2mpi E) bnTarget;
            hashProofOfStake = HashBytes E (kernel_bytes (bi_nStakeModifier (hd pindexPrev)) nTimeBlockFrom
              (tx_nTime txPrev) pout nTimeTx)
        in if uint hashProofOfStake > bnTarget then None else Some (hashProofOfStake, targetProofOfStake))"

definition CheckProofOfStake ::
  "block_env \<Rightarrow> (uint32 \<Rightarrow> uint32 \<Rightarrow> CBlock option) \<Rightarrow> (uint256 \<rightharpoonup> CTxIndex) \<Rightarrow> pindex \<Rightarrow> CTransaction \<Rightarrow> uint32 \<Rightarrow>
     (uint256 \<times> uint256) option" where
  "CheckProofOfStake E ReadHeader txdb pindexPrev tx bits =
     (if \<not> IsCoinStake tx then None
      else
        let txin = vin tx ! 0
        in case ReadFromDisk_prevout E txdb (prevout txin) of
             None \<Rightarrow> None
           | Some (txPrev, txindex) \<Rightarrow>
               if \<not> VerifySig E txPrev tx 0 SCRIPT_VERIFY_NONE then None
               else
                 case ReadHeader (nFile (txi_pos txindex)) (nBlockPos (txi_pos txindex)) of
                   None \<Rightarrow> None
                 | Some block \<Rightarrow>
                     CheckStakeKernelHash E pindexPrev bits (blk_nTime block) txPrev (prevout txin) (tx_nTime tx))"

definition CheckCoinStakeTimestamp :: "int \<Rightarrow> int \<Rightarrow> int \<Rightarrow> bool" where
  "CheckCoinStakeTimestamp nHeight nTimeBlock nTimeTx \<longleftrightarrow>
     nTimeBlock = nTimeTx \<and> nTimeTx AND STAKE_TIMESTAMP_MASK = 0"

text \<open>The miner's check; here the ages are sums of 64 bits, and the input has to be confirmed.\<close>

definition CheckKernel ::
  "block_env \<Rightarrow> (uint32 \<Rightarrow> uint32 \<Rightarrow> CBlock option) \<Rightarrow> (uint256 \<rightharpoonup> CTxIndex) \<Rightarrow> pindex \<Rightarrow> uint32 \<Rightarrow> int \<Rightarrow> COutPoint \<Rightarrow>
     (uint256 \<times> uint256) option" where
  "CheckKernel E ReadHeader txdb pindexPrev bits nTime pout =
     (case ReadFromDisk_prevout E txdb pout of
        None \<Rightarrow> None
      | Some (txPrev, txindex) \<Rightarrow>
          (case ReadHeader (nFile (txi_pos txindex)) (nBlockPos (txi_pos txindex)) of
             None \<Rightarrow> None
           | Some block \<Rightarrow>
               let nTimeBlock = int (unat (blk_nTime block))
               in if nTimeBlock + nStakeMinAge > nTime \<or> nTimeBlock + nStakeMaxAge < nTime then None
                  else if IsConfirmedInNPrevBlocks txindex (positions pindexPrev) (STAKE_MIN_CONFIRMATIONS - 1) \<noteq> None
                  then None
                  else CheckStakeKernelHash E pindexPrev bits (blk_nTime block) txPrev pout (word_of_int nTime)))"

section \<open>Properties\<close>

text \<open>What a kernel has to satisfy, in integers: the hash is at most the target times the value.\<close>

definition kernel_meets :: "'a check_env_scheme \<Rightarrow> pindex \<Rightarrow> uint32 \<Rightarrow> uint32 \<Rightarrow> uint32 \<Rightarrow> int \<Rightarrow> COutPoint \<Rightarrow> uint32 \<Rightarrow> bool" where
  "kernel_meets E p bits nTimeBlockFrom nTimePrev v pout nTimeTx \<longleftrightarrow>
     nTimePrev \<le> nTimeTx \<and> nTimeBlockFrom + 86400 \<le> nTimeTx \<and> nTimeTx \<le> nTimeBlockFrom + 4147200 \<and>
     uint (HashBytes E (kernel_bytes (bi_nStakeModifier (hd p)) nTimeBlockFrom nTimePrev pout nTimeTx))
       \<le> bignum_SetCompact (bn_mpi2bn E) bits * v"

lemma CheckStakeKernelHash_iff:
  "CheckStakeKernelHash E p bits nTimeBlockFrom txPrev pout nTimeTx \<noteq> None \<longleftrightarrow>
    kernel_meets E p bits nTimeBlockFrom (tx_nTime txPrev) (sint (nValue (vout txPrev ! unat (op_n pout)))) pout nTimeTx"
  by (simp add: CheckStakeKernelHash_def kernel_meets_def nStakeMinAge_def nStakeMaxAge_def Let_def not_le not_less)

text \<open> C23.
  The kernel that a miner finds is accepted by the nodes: when \<open>CheckKernel\<close> passes for an outpoint and
  a time, the coinstake of that time whose first input spends the outpoint with a valid signature
  passes \<open>CheckProofOfStake\<close> with the same hash, and the hash of the kernel is at most the target times
  the value of the output, so a larger output is never worse.
\<close>

theorem found_kernel_is_accepted:
  assumes "CheckKernel E R txdb p bits nTime (prevout (vin tx ! 0)) = Some r"
    and "IsCoinStake tx" "int (unat (tx_nTime tx)) = nTime"
    and "ReadFromDisk_prevout E txdb (prevout (vin tx ! 0)) = Some (txPrev, txindex)"
    and "VerifySig E txPrev tx 0 SCRIPT_VERIFY_NONE"
  shows "CheckProofOfStake E R txdb p tx bits = Some r \<and>
    (\<exists>block. R (nFile (txi_pos txindex)) (nBlockPos (txi_pos txindex)) = Some block \<and>
       (\<forall>v \<ge> sint (nValue (vout txPrev ! unat (op_n (prevout (vin tx ! 0))))).
          if bignum_SetCompact (bn_mpi2bn E) bits < 0 then True
          else kernel_meets E p bits (blk_nTime block) (tx_nTime txPrev) v (prevout (vin tx ! 0)) (tx_nTime tx)))"
proof -
  have t: "(word_of_int nTime :: uint32) = tx_nTime tx" using assms(3) by auto
  obtain block where b: "R (nFile (txi_pos txindex)) (nBlockPos (txi_pos txindex)) = Some block"
    and k: "CheckStakeKernelHash E p bits (blk_nTime block) txPrev (prevout (vin tx ! 0)) (tx_nTime tx) = Some r"
    using assms(1,4) t by (auto simp: CheckKernel_def Let_def split: option.splits if_splits)
  let ?t = "bignum_SetCompact (bn_mpi2bn E) bits"
  have m: "kernel_meets E p bits (blk_nTime block) (tx_nTime txPrev)
      (sint (nValue (vout txPrev ! unat (op_n (prevout (vin tx ! 0)))))) (prevout (vin tx ! 0)) (tx_nTime tx)"
    using k by (simp flip: CheckStakeKernelHash_iff)
  have "kernel_meets E p bits (blk_nTime block) (tx_nTime txPrev) v (prevout (vin tx ! 0)) (tx_nTime tx)"
    if "0 \<le> ?t" "sint (nValue (vout txPrev ! unat (op_n (prevout (vin tx ! 0))))) \<le> v" for v
    using m mult_left_mono[OF that(2,1)] by (auto simp: kernel_meets_def)
  then show ?thesis using assms(2,4,5) b k by (auto simp: CheckProofOfStake_def Let_def not_less)
qed

definition kernel_env :: block_env where
  "kernel_env = demo_block_env\<lparr>HashBytes := \<lambda>_. 0\<rparr>"

definition kernel_stake :: CTransaction where
  "kernel_stake = demo_coinstake\<lparr>tx_nTime := 100000, vin := [mk_txin \<lparr>op_hash = 1000, op_n = 0\<rparr> [] 0]\<rparr>"

lemma demo_target_pos: "0 < bignum_SetCompact doc_mpi2bn demo_bits"
  using demo_work by (simp add: CheckProofOfWork_def Let_def split: if_splits)

lemma kernel_env_simps [simp]:
  "ReadTx kernel_env q = Some (p2sh_prev [])" "HashBytes kernel_env v = 0" "bn_mpi2bn kernel_env = doc_mpi2bn"
  "VerifySig kernel_env = (\<lambda>_ _ _ _. True)"
  by (simp_all add: kernel_env_def demo_block_env_def demo_env_def demo_check_def check_env.defs connect_env.defs block_env.defs)

lemma found_kernel_is_accepted_witness:
  "CheckProofOfStake kernel_env (\<lambda>_ _. Some block_null) demo_db [] kernel_stake demo_bits \<noteq> None"
proof -
  let ?p = "prevout (vin kernel_stake ! 0)"
  have p: "?p = \<lparr>op_hash = 1000, op_n = 0\<rparr>" by (simp add: kernel_stake_def mk_txin_def)
  have r: "ReadFromDisk_prevout kernel_env demo_db ?p = Some (p2sh_prev [], mk_txindex (demo_pos 3) 1)"
    unfolding p by (simp add: ReadFromDisk_prevout_def demo_db_def mk_txindex_def) (simp add: p2sh_prev_def)
  have "CheckStakeKernelHash kernel_env [] demo_bits 0 (p2sh_prev []) ?p 100000 \<noteq> None"
    unfolding CheckStakeKernelHash_iff p kernel_meets_def using demo_target_pos by (simp add: p2sh_prev_def)
  then obtain r where "CheckStakeKernelHash kernel_env [] demo_bits 0 (p2sh_prev []) ?p 100000 = Some r" by blast
  then have k: "CheckKernel kernel_env (\<lambda>_ _. Some block_null) demo_db [] demo_bits 100000 ?p = Some r"
    using r by (simp add: CheckKernel_def Let_def nStakeMinAge_def nStakeMaxAge_def block_null_def IsConfirmedInNPrevBlocks_def)
  have "IsCoinStake kernel_stake"
    by (simp add: IsCoinStake_def kernel_stake_def demo_coinstake_def mk_txin_def outpoint_IsNull_def txout_IsEmpty_def
        txout_null_def)
  moreover have "int (unat (tx_nTime kernel_stake)) = 100000" by (simp add: kernel_stake_def)
  ultimately show ?thesis using found_kernel_is_accepted[OF k _ _ r] by simp
qed

end
