(* ===== verification/BlockTree.thy ===== *)
theory BlockTree
  imports ChainInv Kernel
begin

text \<open>
  The tree of known blocks, in \<open>src/src/main.cpp\<close>: blocks on disk (\<open>ReadFromDisk\<close>, \<open>WriteToDisk\<close>),
  \<open>AddToBlockIndex\<close>, \<open>AcceptBlock\<close> and the start from the first block in \<open>LoadBlockIndex\<close>; and the
  checkpoints of \<open>src/src/checkpoints.cpp\<close>.  The files of blocks are a map from a file and a position
  to the bytes there.  The writes of the block index to the database succeed; the relay of the block
  to peers is left out.
\<close>

section \<open>State\<close>

type_synonym disk = "uint32 \<times> uint32 \<rightharpoonup> bytes"

text \<open>What a call sees besides the state; \<open>ReadBlock\<close> of \<open>ne_chain\<close> is replaced by the disk.\<close>

record node_env =
  ne_chain :: chain_env
  ne_env :: block_env
  ne_TestNet :: bool
  LastPOWBlock :: int
  POSStartBlock :: int
  DiskSpace :: "nat \<Rightarrow> bool"
  AppendBlockFile :: "disk \<Rightarrow> (uint32 \<times> uint32) option"

record node_state =
  nd_chain :: chain_state
  mapBlockIndex :: block_map
  nBestChainTrust :: uint256
  setStakeSeen :: "(COutPoint \<times> uint32) set"
  nd_disk :: disk

section \<open>Blocks on disk\<close>

definition ReadFromDisk :: "'a check_env_scheme \<Rightarrow> disk \<Rightarrow> uint32 \<Rightarrow> uint32 \<Rightarrow> bool \<Rightarrow> CBlock option" where
  "ReadFromDisk E D fileNo filePos fReadTransactions =
     (if fileNo < 1 \<or> fileNo = - 1 then None
      else case D (fileNo, filePos) of
        None \<Rightarrow> None
      | Some filein \<Rightarrow>
          (case read_block (if fReadTransactions then SER_DISK else SER_DISK OR SER_BLOCKHEADERONLY) filein of
             Inl _ \<Rightarrow> None
           | Inr (block, _) \<Rightarrow>
               if fReadTransactions \<and> block_IsProofOfWork block \<and>
                 \<not> CheckProofOfWork (bn_bn2mpi E) (bn_mpi2bn E) (ProofOfWorkLimit E)
                    (block_GetPoWHash (Hash9 E) block) (nBits block)
               then None else Some block))"

definition ReadFromDisk_index :: "'a check_env_scheme \<Rightarrow> disk \<Rightarrow> pindex \<Rightarrow> CBlock option" where
  "ReadFromDisk_index E D p =
     (if p = [] then None
      else case ReadFromDisk E D (bp_nFile (hd p)) (bp_nBlockPos (hd p)) True of
        None \<Rightarrow> None
      | Some block \<Rightarrow> if block_hash E block \<noteq> index_hash p then None else Some block)"

definition WriteToDisk :: "node_env \<Rightarrow> disk \<Rightarrow> CBlock \<Rightarrow> ((uint32 \<times> uint32) \<times> disk) option" where
  "WriteToDisk N D block =
     (case AppendBlockFile N D of
        None \<Rightarrow> None
      | Some pos \<Rightarrow> Some (pos, D(pos \<mapsto> write_block SER_DISK block)))"

definition chain_at :: "node_env \<Rightarrow> disk \<Rightarrow> chain_env" where
  "chain_at N D = (ne_chain N)\<lparr>ReadBlock := ReadFromDisk_index (ne_env N) D\<rparr>"

section \<open>Checkpoints\<close>

definition nCheckpointSpan :: int where "nCheckpointSpan = 5000"

definition mapCheckpoints :: "uint256 \<Rightarrow> bool \<Rightarrow> (int \<times> uint256) list" where
  "mapCheckpoints genesis testnet =
     (if testnet then []
      else [(0, genesis),
            (7001, 0xfe0d1cde580fa188297374a408e08c2c124f9eff7cea9bec74560bfd631c812b),
            (82013, 0xbd9048e19376fc9c2a147b4d003a3cca378e6c25cfa4eeabc51e003e6a775dd4)])"

definition CheckHardened :: "(int \<times> uint256) list \<Rightarrow> int \<Rightarrow> uint256 \<Rightarrow> bool" where
  "CheckHardened checkpoints nHeight hash =
     (case map_of checkpoints nHeight of None \<Rightarrow> True | Some h \<Rightarrow> hash = h)"

definition GetTotalBlocksEstimate :: "(int \<times> uint256) list \<Rightarrow> int" where
  "GetTotalBlocksEstimate checkpoints = (if checkpoints = [] then 0 else fst (last checkpoints))"

definition GetLastCheckpoint :: "(int \<times> uint256) list \<Rightarrow> block_map \<Rightarrow> pindex" where
  "GetLastCheckpoint checkpoints T =
     (case find (\<lambda>i. T (snd i) \<noteq> None) (rev checkpoints) of None \<Rightarrow> [] | Some i \<Rightarrow> the (T (snd i)))"

fun sync_checkpoint :: "int \<Rightarrow> pindex \<Rightarrow> pindex" where
  "sync_checkpoint nHeight (p # q # rest) =
     (if bp_nHeight p + nCheckpointSpan > nHeight then sync_checkpoint nHeight (q # rest) else p # q # rest)"
| "sync_checkpoint nHeight p = p"

definition AutoSelectSyncCheckpoint :: "pindex \<Rightarrow> pindex" where
  "AutoSelectSyncCheckpoint best = sync_checkpoint (index_height best) best"

definition CheckSync :: "pindex \<Rightarrow> int \<Rightarrow> bool" where
  "CheckSync best nHeight \<longleftrightarrow> \<not> nHeight \<le> index_height (AutoSelectSyncCheckpoint best)"

section \<open>Adding a block to the tree\<close>

text \<open>The index of a new block; \<open>None\<close> is a failure of the entropy bit or of the stake modifier.\<close>

definition new_index ::
  "block_env \<Rightarrow> block_map \<Rightarrow> uint32 \<Rightarrow> uint32 \<Rightarrow> uint256 \<Rightarrow> CBlock \<Rightarrow> pindex option" where
  "new_index E T fileNo filePos hashProof block =
     (let hash = block_hash E block;
          pprev = (case T (hashPrevBlock block) of None \<Rightarrow> [] | Some q \<Rightarrow> q);
          p = (mk_block_index fileNo filePos block)\<lparr>bi_hashBlock := hash\<rparr>;
          p = (if pprev \<noteq> [] then p\<lparr>bp_nHeight := index_height pprev + 1\<rparr> else p);
          p = p\<lparr>bi_nChainTrust := (if pprev \<noteq> [] then bi_nChainTrust (hd pprev) else 0) +
                  GetBlockTrust (bn_bn2mpi E) (bn_mpi2bn E) (bi_nBits p)\<rparr>
      in case SetStakeEntropyBit (block_GetStakeEntropyBit hash) p of
           (ok, p) \<Rightarrow>
             if \<not> ok then None
             else
               let p = p\<lparr>bi_hashProof := hashProof\<rparr>
               in (case ComputeNextStakeModifier (HashBytes E) T pprev of
                     None \<Rightarrow> None
                   | Some (nStakeModifier, fGenerated) \<Rightarrow>
                       let p = SetStakeModifier nStakeModifier fGenerated p;
                           p = p\<lparr>bi_bnStakeModifierV2 := ComputeStakeModifierV2 (HashBytes E) pprev
                                  (if block_IsProofOfWork block then hash else op_hash (prevout (vin (vtx block ! 1) ! 0)))\<rparr>
                       in Some (p # pprev)))"

text \<open>\<open>None\<close>: a call does not return.\<close>

definition AddToBlockIndex ::
  "node_env \<Rightarrow> uint32 \<Rightarrow> uint32 \<Rightarrow> uint256 \<Rightarrow> CBlock \<Rightarrow> node_state \<Rightarrow> (bool \<times> node_state) option" where
  "AddToBlockIndex N fileNo filePos hashProof block nd =
     (let hash = block_hash (ne_env N) block
      in if mapBlockIndex nd hash \<noteq> None then Some (False, nd)
         else case new_index (ne_env N) (mapBlockIndex nd) fileNo filePos hashProof block of
           None \<Rightarrow> Some (False, nd)
         | Some pindexNew \<Rightarrow>
             let p = hd pindexNew;
                 nd = nd\<lparr>mapBlockIndex := (mapBlockIndex nd)(hash \<mapsto> pindexNew),
                   setStakeSeen := (if bi_IsProofOfStake p then insert (bi_prevoutStake p, bi_nStakeTime p) (setStakeSeen nd)
                     else setStakeSeen nd)\<rparr>
             in if bi_nChainTrust p > nBestChainTrust nd then
                  Option.bind (SetBestChain (chain_at N (nd_disk nd)) pindexNew block (nd_chain nd)) (\<lambda>(ok, st).
                  Some (ok, nd\<lparr>nd_chain := st, nBestChainTrust := (if ok then bi_nChainTrust p else nBestChainTrust nd)\<rparr>))
                else Some (True, nd))"

section \<open>Accepting a block\<close>

datatype accept_block_error =
    N_version | N_duplicate | N_no_prev | N_work_height | N_stake_height | N_coinbase_time | N_coinstake_time
  | N_bits | N_time | N_not_final | N_hardened | N_stake | N_sync | N_height_mismatch | N_disk_space
  | N_write | N_index

fun accept_block_dos :: "accept_block_error \<Rightarrow> uint32" where
  "accept_block_dos N_no_prev = 10"
| "accept_block_dos N_coinbase_time = 50"
| "accept_block_dos N_coinstake_time = 50"
| "accept_block_dos N_not_final = 10"
| "accept_block_dos N_duplicate = 0"
| "accept_block_dos N_time = 0"
| "accept_block_dos N_stake = 0"
| "accept_block_dos N_sync = 0"
| "accept_block_dos N_disk_space = 0"
| "accept_block_dos N_write = 0"
| "accept_block_dos N_index = 0"
| "accept_block_dos _ = 100"

definition block_time :: "CBlock \<Rightarrow> int" where
  "block_time block = int (unat (blk_nTime block))"

text \<open>The checks against the block before; the result is the proof hash.\<close>

definition accept_checks :: "node_env \<Rightarrow> node_state \<Rightarrow> pindex \<Rightarrow> CBlock \<Rightarrow> accept_block_error + uint256" where
  "accept_checks N nd pindexPrev block =
     (let E = ne_env N; best = pindexBest (nd_chain nd); stake = block_IsProofOfStake block;
          nHeight = index_height pindexPrev + 1;
          checkpoints = mapCheckpoints (hashGenesis (ne_chain N)) (ne_TestNet N);
          expect = push_int64 (bn_bn2mpi E) nHeight [];
          scriptSig0 = scriptSig (vin (vtx block ! 0) ! 0)
      in if \<not> stake \<and> nHeight > LastPOWBlock N then Inl N_work_height
         else if stake \<and> nHeight < POSStartBlock N then Inl N_stake_height
         else if block_time block > FutureDrift (int (unat (tx_nTime (vtx block ! 0)))) \<and> stake then Inl N_coinbase_time
         else if stake \<and> \<not> CheckCoinStakeTimestamp nHeight (block_time block) (int (unat (tx_nTime (vtx block ! 1))))
         then Inl N_coinstake_time
         else if GetNextTargetRequired (bn_bn2mpi E) (bn_mpi2bn E) pindexPrev stake \<noteq> Some (nBits block) then Inl N_bits
         else if block_time block \<le> GetPastTimeLimit (hd pindexPrev) \<or>
           FutureDrift (block_time block) < bi_GetBlockTime (hd pindexPrev) then Inl N_time
         else if \<not> list_all (\<lambda>tx. IsFinalTx (index_height best) (AdjustedTime E) tx nHeight (block_time block)) (vtx block)
         then Inl N_not_final
         else if \<not> CheckHardened checkpoints nHeight (block_hash E block) then Inl N_hardened
         else
           rbind (if stake then
                    (case CheckProofOfStake E (\<lambda>f n. ReadFromDisk E (nd_disk nd) f n False) (st_txdb (nd_chain nd))
                            pindexPrev (vtx block ! 1) (nBits block) of
                       None \<Rightarrow> Inl N_stake
                     | Some (hashProof, target) \<Rightarrow> Inr hashProof)
                  else Inr (block_GetPoWHash (Hash9 E) block)) (\<lambda>hashProof.
           if \<not> CheckSync best nHeight then Inl N_sync
           else if length scriptSig0 < length expect \<or> take (length expect) scriptSig0 \<noteq> expect then Inl N_height_mismatch
           else Inr hashProof))"

definition AcceptBlock ::
  "node_env \<Rightarrow> CBlock \<Rightarrow> node_state \<Rightarrow> ((accept_block_error + unit) \<times> node_state) option" where
  "AcceptBlock N block nd =
     (if sint (blk_nVersion block) > 7 then Some (Inl N_version, nd)
      else if mapBlockIndex nd (block_hash (ne_env N) block) \<noteq> None then Some (Inl N_duplicate, nd)
      else case mapBlockIndex nd (hashPrevBlock block) of
        None \<Rightarrow> Some (Inl N_no_prev, nd)
      | Some pindexPrev \<Rightarrow>
          (case accept_checks N nd pindexPrev block of
             Inl e \<Rightarrow> Some (Inl e, nd)
           | Inr hashProof \<Rightarrow>
               if \<not> DiskSpace N (length (write_block SER_DISK block)) then Some (Inl N_disk_space, nd)
               else case WriteToDisk N (nd_disk nd) block of
                 None \<Rightarrow> Some (Inl N_write, nd)
               | Some ((fileNo, filePos), D) \<Rightarrow>
                   Option.bind (AddToBlockIndex N fileNo filePos hashProof block (nd\<lparr>nd_disk := D\<rparr>)) (\<lambda>(ok, nd).
                   Some (if ok then Inr () else Inl N_index, nd))))"

section \<open>The start\<close>

text \<open>Before the first block is there.\<close>

definition empty_node :: node_state where
  "empty_node = \<lparr>nd_chain = \<lparr>st_txdb = Map.empty, st_dbBest = 0, st_pnext = Map.empty, st_nMoneySupply = (\<lambda>_. 0),
     st_mempool = \<lparr>nTransactionsUpdated = 0, mapTx = Map.empty, mapNextTx = Map.empty\<rparr>,
     pindexGenesisBlock = [], pindexBest = [], hashBestChain = 0\<rparr>,
     mapBlockIndex = Map.empty, nBestChainTrust = 0, setStakeSeen = {}, nd_disk = Map.empty\<rparr>"

definition LoadGenesis :: "node_env \<Rightarrow> CBlock \<Rightarrow> node_state \<Rightarrow> (bool \<times> node_state) option" where
  "LoadGenesis N genesis nd =
     (case WriteToDisk N (nd_disk nd) genesis of
        None \<Rightarrow> Some (False, nd)
      | Some ((fileNo, filePos), D) \<Rightarrow>
          AddToBlockIndex N fileNo filePos (hashGenesis (ne_chain N)) genesis (nd\<lparr>nd_disk := D\<rparr>))"

end
