(* ===== verification/ChainTxs.thy ===== *)
theory ChainTxs
  imports ChainInv
begin

text \<open>
  No transaction occurs twice on a valid chain, although \<open>ConnectBlock\<close> does not look for the hashes
  it is about to overwrite: coinbases carry the height of their block, which \<open>AcceptBlock\<close> demands,
  and another transaction would spend its inputs a second time.
\<close>

section \<open>Heights in coinbases\<close>

definition height_tagged :: "(int \<Rightarrow> bytes) \<Rightarrow> int \<Rightarrow> CBlock \<Rightarrow> bool" where
  "height_tagged tompi nHeight block \<longleftrightarrow>
     prefix (push_int64 tompi nHeight []) (scriptSig (vin (vtx block ! 0) ! 0))"

text \<open>The instruction that pushes a height tells the height.\<close>

lemma push_height_first:
  assumes "mpi_documented tompi frompi" "0 \<le> h" "length (push_int64 tompi h []) < 2 ^ 32"
  shows "if 1 \<le> h \<and> h \<le> 16 then GetOp2 (push_int64 tompi h [] @ t) = Some (nat h + 80, [], t)
    else \<exists>opcode \<le> OP_PUSHDATA4. GetOp2 (push_int64 tompi h [] @ t) = Some (opcode, scriptnum_serialize h, t)"
proof (cases "1 \<le> h \<and> h \<le> 16")
  case True
  then have "unat (word_of_int (h + 80) :: byte) = nat h + 80"
    by (simp add: unsigned_of_int take_bit_int_eq_self nat_add_distrib del: of_int_add)
  then show ?thesis using True by (simp add: push_int64_def GetOp2_nonpush)
next
  case False
  then have p: "push_int64 tompi h [] = push_data (scriptnum_serialize h) []"
    using assms(2) by (auto simp: push_int64_def mpi_getvch[OF assms(1)])
  moreover have "length (scriptnum_serialize h) \<le> length (push_data (scriptnum_serialize h) [])"
    by (simp add: push_data_def)
  ultimately have "length (scriptnum_serialize h) < 2 ^ 32" using assms(3) by simp
  then show ?thesis using GetOp2_push_data[of "scriptnum_serialize h" t] False p by (simp only: if_False)
qed

lemma push_height_unique:
  assumes d: "mpi_documented tompi frompi" and "0 \<le> h" "0 \<le> h'"
    and "prefix (push_int64 tompi h []) s" "prefix (push_int64 tompi h' []) s" "length s < 2 ^ 32"
  shows "h = h'"
proof -
  obtain t where t1: "s = push_int64 tompi h [] @ t" using assms(4) by (auto simp: prefix_def)
  obtain t' where t2: "s = push_int64 tompi h' [] @ t'" using assms(5) by (auto simp: prefix_def)
  note t = t1 t2
  have l: "length (push_int64 tompi h []) < 2 ^ 32" "length (push_int64 tompi h' []) < 2 ^ 32"
    using assms(6) t by (metis length_append trans_less_add1 add_lessD1)+
  note a = push_height_first[OF d assms(2) l(1), of t, folded t(1)]
  note b = push_height_first[OF d assms(3) l(2), of t', folded t(2)]
  show ?thesis
  proof (cases "1 \<le> h \<and> h \<le> 16")
    case True
    then have a: "GetOp2 s = Some (nat h + 80, [], t)" using a by (simp only: if_True)
    show ?thesis
    proof (cases "1 \<le> h' \<and> h' \<le> 16")
      case t': True
      then have "GetOp2 s = Some (nat h' + 80, [], t')" using b by (simp only: if_True)
      then have "nat h = nat h'" using a by simp
      then show ?thesis using True t' by linarith
    next
      case False
      then obtain opcode where "opcode \<le> OP_PUSHDATA4" "GetOp2 s = Some (opcode, scriptnum_serialize h', t')"
        using b by (auto simp only: if_False)
      then show ?thesis using a by simp
    qed
  next
    case False
    then obtain opcode where a: "opcode \<le> OP_PUSHDATA4" "GetOp2 s = Some (opcode, scriptnum_serialize h, t)"
      using a by (auto simp only: if_False)
    show ?thesis
    proof (cases "1 \<le> h' \<and> h' \<le> 16")
      case True
      then have "GetOp2 s = Some (nat h' + 80, [], t')" using b by (simp only: if_True)
      then show ?thesis using a by simp
    next
      case False
      then obtain opcode' where "GetOp2 s = Some (opcode', scriptnum_serialize h', t')"
        using b by (auto simp only: if_False)
      then have "scriptnum_serialize h = scriptnum_serialize h'" using a by simp
      then show ?thesis by (metis serialize_val)
    qed
  qed
qed

section \<open>Transactions that spend\<close>

lemma spends_ne: "tx_valid tx \<Longrightarrow> \<not> IsCoinBase tx \<Longrightarrow> spends_of tx \<noteq> []"
  by (simp add: spends_of_def tx_valid_def)

text \<open>All that the transactions of \<open>S\<close> spend is spent.\<close>

definition all_spent :: "CTransaction set \<Rightarrow> (uint256 \<rightharpoonup> CTxIndex) \<Rightarrow> bool" where
  "all_spent S V \<longleftrightarrow> (\<forall>tx \<in> S. \<forall>o' \<in> set (spends_of tx). spent V o')"

lemma all_spent_step:
  assumes s: "spendable tx V" and "all_spent S V" "\<not> pos_IsNull pos" "V (tx_GetHash H tx) = None"
  shows "all_spent (insert tx S) (index_step pos (tx_GetHash H tx) tx V)"
  using assms spent_step[OF s assms(3,4)] by (auto simp: all_spent_def)

lemma txs_fresh:
  assumes "txs_spendable H p pos txs V" "bp_nFile (hd p) \<noteq> - 1" "all_spent S V" "dom V = tx_GetHash H ` S"
    and "inj_on (tx_GetHash H) (S \<union> set txs)" "list_all (\<lambda>tx. tx \<notin> S \<or> spends_of tx \<noteq> []) txs"
    and "distinct (filter (\<lambda>tx. spends_of tx = []) txs)"
  shows "distinct txs \<and> S \<inter> set txs = {} \<and> all_spent (S \<union> set txs) (index_txs H p pos txs V)"
  using assms
proof (induction txs arbitrary: pos V S)
  case (Cons tx txs)
  let ?pos = "\<lparr>nFile = bp_nFile (hd p), nBlockPos = bp_nBlockPos (hd p), nTxPos = pos\<rparr>"
  let ?V = "index_step ?pos (tx_GetHash H tx) tx V"
  have sp: "spendable tx V" using Cons.prems(1) by simp
  have np: "\<not> pos_IsNull ?pos" using Cons.prems(2) by (simp add: pos_IsNull_def)
  have notin: "tx \<notin> S"
  proof
    assume "tx \<in> S"
    then obtain o' where o': "o' \<in> set (spends_of tx)" using Cons.prems(6) by (cases "spends_of tx") auto
    then have "spent V o'" using Cons.prems(3) \<open>tx \<in> S\<close> by (auto simp: all_spent_def)
    moreover have "\<not> spent V o'" using spends_of_spendable[OF sp] o' by (auto simp: list_all_iff)
    ultimately show False by blast
  qed
  then have "tx_GetHash H tx \<notin> tx_GetHash H ` S" using Cons.prems(5) by (auto simp: inj_on_def)
  then have new: "V (tx_GetHash H tx) = None" using Cons.prems(4) by (metis domIff)
  have "distinct txs \<and> insert tx S \<inter> set txs = {} \<and>
      all_spent (insert tx S \<union> set txs) (index_txs H p (pos + of_nat (length (write_tx tx))) txs ?V)"
  proof (rule Cons.IH)
    show "txs_spendable H p (pos + of_nat (length (write_tx tx))) txs ?V" using Cons.prems(1) by simp
    show "bp_nFile (hd p) \<noteq> - 1" by (rule Cons.prems(2))
    show "all_spent (insert tx S) ?V" by (rule all_spent_step[OF sp Cons.prems(3) np new])
    show "dom ?V = tx_GetHash H ` insert tx S" using index_step_dom[OF sp] Cons.prems(4) by simp
    show "inj_on (tx_GetHash H) (insert tx S \<union> set txs)"
      by (rule inj_on_subset[OF Cons.prems(5)]) auto
    show "list_all (\<lambda>t. t \<notin> insert tx S \<or> spends_of t \<noteq> []) txs"
      using Cons.prems(6,7) by (auto simp: list_all_iff)
    show "distinct (filter (\<lambda>tx. spends_of tx = []) txs)" using Cons.prems(7) by (simp split: if_splits)
  qed
  then show ?case using notin by simp
qed simp

section \<open>A chain\<close>

text \<open>The blocks of the chain carry their heights.\<close>

definition chain_tagged :: "chain_env \<Rightarrow> (int \<Rightarrow> bytes) \<Rightarrow> pindex \<Rightarrow> bool" where
  "chain_tagged C tompi p \<longleftrightarrow>
     (\<forall>q b. suffix q p \<and> tl q \<noteq> [] \<and> ReadBlock C q = Some b \<longrightarrow> height_tagged tompi (index_height q) b)"

lemma chain_tagged_suffix: "chain_tagged C bn p \<Longrightarrow> suffix q p \<Longrightarrow> chain_tagged C bn q"
  by (auto simp: chain_tagged_def intro: suffix_order.trans)

lemma chain_tagged_last:
  assumes "chain_tagged C bn p" "ReadBlock C p = Some b" "tl p \<noteq> []"
  shows "height_tagged bn (index_height p) b"
  using assms(1)[unfolded chain_tagged_def, THEN spec[of _ p], THEN spec[of _ b]] assms(2,3) by simp

text \<open>The coinbases of a valid chain are those of its blocks.\<close>

lemma chain_coinbase:
  assumes "chain_valid C p" "chain_tagged C bn p" "heights_ok p" "tx \<in> set (chain_txs C p)" "spends_of tx = []"
  shows "\<exists>h. 0 \<le> h \<and> h < int (length p) \<and> prefix (push_int64 bn h []) (scriptSig (vin tx ! 0)) \<and>
    length (scriptSig (vin tx ! 0)) \<le> 100"
  using assms
proof (induction p)
  case (Cons x q)
  show ?case
  proof (cases q)
    case (Cons q1 q2)
    obtain b where b: "ReadBlock C (x # q) = Some b" "block_sound b" "chain_valid C q"
      using Cons.prems(1) Cons by (auto split: option.splits)
    have tg: "chain_tagged C bn q" using chain_tagged_suffix[OF Cons.prems(2)] by (simp add: suffix_ConsI)
    have hq: "heights_ok q" "index_height (x # q) = int (length q)" using Cons.prems(3) by auto
    show ?thesis
    proof (cases "tx \<in> set (chain_txs C q)")
      case True
      then show ?thesis using Cons.IH[OF b(3) tg hq(1) True Cons.prems(5)] by force
    next
      case False
      then have m: "tx \<in> set (vtx b)" using Cons.prems(4) b(1) Cons by auto
      obtain cb rest where v: "vtx b = cb # rest" "IsCoinBase cb" "list_all (\<lambda>t. \<not> IsCoinBase t) rest" "list_all tx_valid (vtx b)"
        using b(2) by (auto simp: block_sound_def positions_ok_def)
      have "tx = cb" using m v Cons.prems(5) spends_ne[of tx] by (auto simp: list_all_iff)
      moreover have "height_tagged bn (index_height (x # q)) b"
        using chain_tagged_last[OF Cons.prems(2) b(1)] Cons by simp
      moreover have "length (scriptSig (vin cb ! 0)) \<le> 100" using v by (simp add: tx_valid_def)
      ultimately show ?thesis using v hq by (intro exI[of _ "int (length q)"]) (simp add: height_tagged_def)
    qed
  qed (use Cons.prems in simp)
qed simp

lemma chain_distinct:
  assumes d: "mpi_documented bn frompi"
  shows "chain_valid C p \<Longrightarrow> chain_tagged C bn p \<Longrightarrow> chain_shape p \<Longrightarrow>
    inj_on (tx_GetHash (HashFn C)) (set (chain_txs C p)) \<Longrightarrow>
    distinct (chain_txs C p) \<and> all_spent (set (chain_txs C p)) (index_chain C p)"
proof (induction p)
  case (Cons x q)
  show ?case
  proof (cases q)
    case (Cons q1 q2)
    let ?H = "HashFn C" and ?S = "set (chain_txs C q)"
    obtain b where b: "ReadBlock C (x # q) = Some b" "block_sound b" "chain_valid C q"
        "block_spendable ?H (x # q) b (index_chain C q)"
      using Cons.prems(1) Cons by (auto split: option.splits)
    have tg: "chain_tagged C bn q" using chain_tagged_suffix[OF Cons.prems(2)] by (simp add: suffix_ConsI)
    have sh: "chain_shape q" "heights_ok q" "bp_nFile x \<noteq> - 1" "bp_nHeight x = int (length q)"
      using Cons.prems(3) by (auto simp: chain_shape_def)
    have txs: "chain_txs C (x # q) = vtx b @ chain_txs C q" using b(1) Cons by simp
    have ih: "distinct (chain_txs C q) \<and> all_spent ?S (index_chain C q)"
      using Cons.IH[OF b(3) tg sh(1)] Cons.prems(4) txs by (auto intro: inj_on_subset)
    obtain cb rest where v: "vtx b = cb # rest" "IsCoinBase cb" "list_all (\<lambda>t. \<not> IsCoinBase t) rest" "list_all tx_valid (vtx b)"
      using b(2) by (auto simp: block_sound_def positions_ok_def)
    have cb: "cb \<notin> ?S"
    proof
      assume "cb \<in> ?S"
      then obtain h where h: "0 \<le> h" "h < int (length q)" "prefix (push_int64 bn h []) (scriptSig (vin cb ! 0))"
          "length (scriptSig (vin cb ! 0)) \<le> 100"
        using chain_coinbase[OF b(3) tg sh(2) \<open>cb \<in> ?S\<close>] v(2) by (auto simp: spends_of_def)
      have "height_tagged bn (index_height (x # q)) b"
        using chain_tagged_last[OF Cons.prems(2) b(1)] Cons by simp
      then have "prefix (push_int64 bn (int (length q)) []) (scriptSig (vin cb ! 0))"
        using sh(4) v(1) by (simp add: height_tagged_def)
      moreover have "length (scriptSig (vin cb ! 0)) < 2 ^ 32" using h(4) by simp
      ultimately have "h = int (length q)" using push_height_unique[OF d h(1) _ h(3)] by simp
      then show False using h(2) by simp
    qed
    have rest: "filter (\<lambda>tx. spends_of tx = []) rest = []"
      using v spends_ne by (auto simp: filter_empty_conv list_all_iff)
    have "distinct (vtx b) \<and> ?S \<inter> set (vtx b) = {} \<and>
        all_spent (?S \<union> set (vtx b)) (index_txs ?H (x # q) (first_tx_pos (x # q) False b) (vtx b) (index_chain C q))"
    proof (rule txs_fresh)
      show "txs_spendable ?H (x # q) (first_tx_pos (x # q) False b) (vtx b) (index_chain C q)"
        using b(4) by (simp add: block_spendable_def)
      show "bp_nFile (hd (x # q)) \<noteq> - 1" "all_spent ?S (index_chain C q)" using sh ih by simp_all
      show "dom (index_chain C q) = tx_GetHash ?H ` ?S" by (rule index_chain_dom[OF b(3)])
      show "inj_on (tx_GetHash ?H) (?S \<union> set (vtx b))" using Cons.prems(4) txs by (simp add: Un_commute)
      show "list_all (\<lambda>tx. tx \<notin> ?S \<or> spends_of tx \<noteq> []) (vtx b)"
        using v cb spends_ne by (auto simp: list_all_iff)
      show "distinct (filter (\<lambda>tx. spends_of tx = []) (vtx b))" using v rest by simp
    qed
    then show ?thesis using ih b Cons txs by (auto simp: index_block_def Un_commute)
  qed (simp add: all_spent_def)
qed simp

end
