(* ===== verification/NodeInv.thy ===== *)
theory NodeInv
  imports BlockTree ChainTxs
begin

text \<open>
  What holds of the tree of blocks and of the best chain while blocks come in: the blocks known form a
  tree over the first block, each with the sum of the trust below it; the best block is one of them;
  no transaction is twice on a chain; and the index of spent outputs is that of the best chain.
\<close>

section \<open>What setting the best chain touches\<close>

definition same_best :: "chain_state \<Rightarrow> chain_state \<Rightarrow> bool" where
  "same_best st st' \<longleftrightarrow> pindexBest st' = pindexBest st \<and> hashBestChain st' = hashBestChain st \<and>
     pindexGenesisBlock st' = pindexGenesisBlock st"

lemma SetBestChainInner_same: "SetBestChainInner C p b st = Some (ok, st') \<Longrightarrow> same_best st st'"
  by (auto simp: SetBestChainInner_def same_best_def split: prod.splits option.splits bind_splits)

lemma Reorganize_same: "Reorganize C p st = Some (ok, st') \<Longrightarrow> same_best st st'"
  by (auto simp: Reorganize_def Let_def same_best_def split: option.splits prod.splits bind_splits)

lemma connect_secondary_same: "connect_secondary C ps st = Some st' \<Longrightarrow> same_best st st'"
proof (induction ps arbitrary: st)
  case (Cons p ps)
  show ?case
  proof (cases "ReadBlock C p")
    case (Some b)
    then obtain ok st1 where s: "SetBestChainInner C p b st = Some (ok, st1)" using Cons.prems by (auto split: bind_splits)
    then have "same_best st1 st'" using Cons Some by (cases ok) (auto simp: same_best_def)
    then show ?thesis using SetBestChainInner_same[OF s] by (simp add: same_best_def)
  qed (use Cons.prems in \<open>simp add: same_best_def\<close>)
qed (simp add: same_best_def)

lemma SetBestChain_best:
  assumes "SetBestChain C p b st = Some (ok, st')" "pindexGenesisBlock st \<noteq> []"
  shows "pindexGenesisBlock st' = pindexGenesisBlock st \<and>
    (if ok then pindexBest st' = p \<and> hashBestChain st' = BlockHash C b
     else pindexBest st' = pindexBest st \<and> hashBestChain st' = hashBestChain st)"
proof (cases "hashPrevBlock b = hashBestChain st")
  case True
  then obtain ok1 st1 where "SetBestChainInner C p b st = Some (ok1, st1)"
    "(ok, st') = (if ok1 then (True, new_best b C p st1) else (False, st1))"
    using assms by (auto simp: SetBestChain_def Let_def split: bind_splits if_splits)
  then show ?thesis using SetBestChainInner_same[of C p b st ok1 st1]
    by (cases ok1) (simp_all add: same_best_def new_best_def)
next
  case False
  obtain p1 vs where i: "intermediate (bi_nChainTrust (hd (pindexBest st))) p [] = (p1, vs)" by fastforce
  obtain ok1 st1 where r: "Reorganize C p1 st = Some (ok1, st1)"
    using assms False i by (auto simp: SetBestChain_def Let_def split: bind_splits)
  note s1 = Reorganize_same[OF r]
  show ?thesis
  proof (cases ok1)
    case True
    then obtain st2 where "connect_secondary C (rev vs) st1 = Some st2" "ok = True" "st' = new_best b C p st2"
      using assms False i r by (auto simp: SetBestChain_def Let_def split: bind_splits)
    then show ?thesis using s1 connect_secondary_same[of C "rev vs" st1 st2] by (simp add: same_best_def new_best_def)
  next
    case no: False
    then show ?thesis using assms False i r s1 by (simp add: SetBestChain_def Let_def same_best_def)
  qed
qed

section \<open>Reading back what was written\<close>

lemma disk_flag: "SER_DISK AND (SER_GETHASH OR SER_BLOCKHEADERONLY) = 0"
  by (simp add: SER_DISK_def SER_GETHASH_def SER_BLOCKHEADERONLY_def)

lemma read_written: "block_ok SER_DISK b \<Longrightarrow> read_block SER_DISK (write_block SER_DISK b) = Inr (b, [])"
  by (simp add: read_block_iff)

text \<open>The environments of a node agree on the hashes and on the proof of work.\<close>

definition same_rules :: "'a check_env_scheme \<Rightarrow> 'b check_env_scheme \<Rightarrow> bool" where
  "same_rules E E' \<longleftrightarrow> HashBytes E' = HashBytes E \<and> Hash9 E' = Hash9 E \<and> bn_bn2mpi E' = bn_bn2mpi E \<and>
     bn_mpi2bn E' = bn_mpi2bn E \<and> ProofOfWorkLimit E' = ProofOfWorkLimit E"

lemma same_rules_eqs:
  assumes "same_rules E E'"
  shows "HashBytes E' = HashBytes E" "Hash9 E' = Hash9 E" "bn_bn2mpi E' = bn_bn2mpi E"
    "bn_mpi2bn E' = bn_mpi2bn E" "ProofOfWorkLimit E' = ProofOfWorkLimit E"
  using assms by (simp_all add: same_rules_def)

lemma same_rules_read:
  assumes "same_rules E E'"
  shows "ReadFromDisk E' D f n r = ReadFromDisk E D f n r"
  unfolding ReadFromDisk_def same_rules_eqs[OF assms] by (rule refl)

lemma same_rules_read_index:
  assumes "same_rules E E'"
  shows "ReadFromDisk_index E' D p = ReadFromDisk_index E D p"
  unfolding ReadFromDisk_index_def same_rules_read[OF assms] same_rules_eqs[OF assms] by (rule refl)

text \<open>The block \<open>b\<close> is on disk where the index \<open>p\<close> says.\<close>

definition stored_at :: "disk \<Rightarrow> pindex \<Rightarrow> CBlock \<Rightarrow> bool" where
  "stored_at D p b \<longleftrightarrow>
     D (bp_nFile (hd p), bp_nBlockPos (hd p)) = Some (write_block SER_DISK b) \<and> block_ok SER_DISK b"

lemma stored_read: "stored_at D p b \<Longrightarrow> ReadFromDisk_index E D p = Some b' \<Longrightarrow> b' = b"
  by (auto simp: stored_at_def ReadFromDisk_index_def ReadFromDisk_def read_written split: option.splits if_splits)

lemma stored_reads:
  assumes "stored_at D p b" "p \<noteq> []" "bp_nFile (hd p) \<ge> 1" "bp_nFile (hd p) \<noteq> - 1" "block_hash E b = index_hash p"
    and "block_IsProofOfWork b \<Longrightarrow> CheckProofOfWork (bn_bn2mpi E) (bn_mpi2bn E) (ProofOfWorkLimit E) (block_GetPoWHash (Hash9 E) b) (nBits b)"
  shows "ReadFromDisk_index E D p = Some b"
  using assms by (auto simp: stored_at_def ReadFromDisk_index_def ReadFromDisk_def read_written)

lemma stored_more: "stored_at D p b \<Longrightarrow> D pos = None \<Longrightarrow> stored_at (D(pos \<mapsto> v)) p b"
  by (auto simp: stored_at_def)

lemma stored_read_more:
  assumes "stored_at D p b" "D pos = None"
  shows "ReadFromDisk_index E (D(pos \<mapsto> v)) p = ReadFromDisk_index E D p"
proof -
  have "(bp_nFile (hd p), bp_nBlockPos (hd p)) \<noteq> pos" using assms by (auto simp: stored_at_def)
  then show ?thesis by (simp add: ReadFromDisk_index_def ReadFromDisk_def)
qed

section \<open>A chain does not depend on blocks elsewhere\<close>

lemma chain_cong:
  assumes "HashFn C' = HashFn C" "\<And>q. suffix q p \<Longrightarrow> tl q \<noteq> [] \<Longrightarrow> ReadBlock C' q = ReadBlock C q"
  shows "index_chain C' p = index_chain C p" "chain_valid C' p = chain_valid C p" "chain_txs C' p = chain_txs C p"
proof -
  have "index_chain C' p = index_chain C p \<and> chain_valid C' p = chain_valid C p \<and> chain_txs C' p = chain_txs C p"
    using assms(2)
  proof (induction p)
    case (Cons x p)
    have r: "p \<noteq> [] \<Longrightarrow> ReadBlock C' (x # p) = ReadBlock C (x # p)" by (rule Cons.prems) simp_all
    have "index_chain C' p = index_chain C p \<and> chain_valid C' p = chain_valid C p \<and> chain_txs C' p = chain_txs C p"
      by (rule Cons.IH, rule Cons.prems) (simp_all add: suffix_ConsI)
    then show ?case using r assms(1) by (cases p) (simp_all split: option.split)
  qed simp
  then show "index_chain C' p = index_chain C p" "chain_valid C' p = chain_valid C p" "chain_txs C' p = chain_txs C p"
    by blast+
qed


section \<open>Blocks without the tree in memory\<close>

abbreviation bare :: "CBlock \<Rightarrow> CBlock" where
  "bare b \<equiv> b\<lparr>vMerkleTree := []\<rparr>"

lemma block_header_bare [simp]: "block_header (bare b) = block_header b"
  by (simp add: block_header_def)

lemma block_hash_bare [simp]: "block_GetHash H H9 (bare b) = block_GetHash H H9 b"
  by (simp add: block_GetHash_def block_GetPoWHash_def)

lemma block_kind_bare [simp]:
  "block_IsProofOfStake (bare b) = block_IsProofOfStake b" "block_IsProofOfWork (bare b) = block_IsProofOfWork b"
  "block_GetPoWHash H9 (bare b) = block_GetPoWHash H9 b" "write_block t (bare b) = write_block t b"
  by (simp_all add: block_IsProofOfStake_def block_IsProofOfWork_def block_GetPoWHash_def write_block_def)

lemma CheckBlock_bare: "CheckBlock E pow mr sig (bare b) = CheckBlock E pow mr sig b"
proof -
  have "check_txs (bare b) txs = check_txs b txs" for txs
    by (induction txs) (simp_all split: sum.split)
  moreover have "check_positions (bare b) = check_positions b" by (simp add: check_positions_def)
  moreover have "CheckBlockSignature E (bare b) = CheckBlockSignature E b" by (simp add: CheckBlockSignature_def)
  moreover have "payees_paid E (bare b) = payees_paid E b" by (simp add: payees_paid_def)
  moreover have "fst (BuildMerkleTree H (bare b)) = fst (BuildMerkleTree H b)" for H by (simp add: BuildMerkleTree_def Let_def)
  ultimately show ?thesis by (simp add: CheckBlock_def)
qed

lemma connect_at_bare: "connect_at C pool p (bare b) supply db = connect_at C pool p b supply db"
proof -
  have "check_rewards E db p (bare b) s = check_rewards E db p b s" for E s by (simp add: check_rewards_def)
  moreover have "first_tx_pos p f (bare b) = first_tx_pos p f b" for f by (simp add: first_tx_pos_def)
  ultimately show ?thesis by (simp add: connect_at_def ConnectBlock_def CheckBlock_bare)
qed

lemma SetBestChain_bare:
  assumes "BlockHash C (bare b) = BlockHash C b"
  shows "SetBestChain C p (bare b) st = SetBestChain C p b st"
proof -
  have n: "new_best (bare b) C p = new_best b C p" by (rule ext) (simp add: new_best_def assms)
  have v: "vtx (bare b) = vtx b" by simp
  have i: "SetBestChainInner C p (bare b) = SetBestChainInner C p b"
    unfolding SetBestChainInner_def[abs_def] connect_at_bare assms v by (rule refl)
  have h: "hashPrevBlock (bare b) = hashPrevBlock b" by simp
  show ?thesis unfolding SetBestChain_def assms n i h by (rule refl)
qed

section \<open>The tree of blocks\<close>

text \<open>The environments of a node agree; block files are appended to.\<close>

definition env_good :: "node_env \<Rightarrow> bool" where
  "env_good N \<longleftrightarrow>
     HashFn (ne_chain N) = HashBytes (ne_env N) \<and> (\<forall>p. same_rules (ne_env N) (env_at (ne_chain N) p)) \<and>
     (\<forall>b. BlockHash (ne_chain N) b = block_hash (ne_env N) b) \<and>
     mpi_documented (bn_bn2mpi (ne_env N)) (bn_mpi2bn (ne_env N)) \<and>
     (\<forall>D pos. AppendBlockFile N D = Some pos \<longrightarrow> D pos = None \<and> 1 \<le> fst pos \<and> fst pos \<noteq> - 1)"

fun chain_trust :: "block_env \<Rightarrow> pindex \<Rightarrow> uint256" where
  "chain_trust E [] = 0"
| "chain_trust E (p # pprev) = chain_trust E pprev + GetBlockTrust (bn_bn2mpi E) (bn_mpi2bn E) (bi_nBits p)"

text \<open>A block other than the first is on disk, with the hash of its index, and carries its height.\<close>

definition block_known :: "block_env \<Rightarrow> disk \<Rightarrow> pindex \<Rightarrow> bool" where
  "block_known E D p \<longleftrightarrow>
     (\<exists>b. stored_at D p b \<and> block_hash E b = index_hash p \<and> hashPrevBlock b = index_hash (tl p) \<and>
        height_tagged (bn_bn2mpi E) (index_height p) b)"

definition known_index :: "block_env \<Rightarrow> block_map \<Rightarrow> disk \<Rightarrow> CBlockIndex \<Rightarrow> pindex \<Rightarrow> bool" where
  "known_index E T D genesis p \<longleftrightarrow>
     p \<noteq> [] \<and> in_map T p \<and> chain_shape p \<and> last p = genesis \<and> 1 \<le> bp_nFile (hd p) \<and>
     bi_nChainTrust (hd p) = chain_trust E p \<and> (if tl p = [] then True else block_known E D p)"

definition tree_ok :: "node_env \<Rightarrow> node_state \<Rightarrow> bool" where
  "tree_ok N nd \<longleftrightarrow>
     (\<forall>h p. mapBlockIndex nd h = Some p \<longrightarrow>
        index_hash p = h \<and> known_index (ne_env N) (mapBlockIndex nd) (nd_disk nd) (last (pindexBest (nd_chain nd))) p) \<and>
     GeneratedStakeModifier (last (pindexBest (nd_chain nd))) \<and>
     mapBlockIndex nd (hashBestChain (nd_chain nd)) = Some (pindexBest (nd_chain nd)) \<and>
     nBestChainTrust nd = bi_nChainTrust (hd (pindexBest (nd_chain nd))) \<and>
     pindexGenesisBlock (nd_chain nd) \<noteq> []"

lemma tree_okD:
  assumes "tree_ok N nd" "mapBlockIndex nd h = Some p"
  shows "index_hash p = h" "p \<noteq> []" "in_map (mapBlockIndex nd) p" "chain_shape p"
    "last p = last (pindexBest (nd_chain nd))" "bi_nChainTrust (hd p) = chain_trust (ne_env N) p"
    "tl p \<noteq> [] \<Longrightarrow> block_known (ne_env N) (nd_disk nd) p" "GeneratedStakeModifier (last p)"
  using assms by (auto simp: tree_ok_def known_index_def)

lemma tree_best:
  assumes "tree_ok N nd"
  shows "mapBlockIndex nd (hashBestChain (nd_chain nd)) = Some (pindexBest (nd_chain nd))"
    "nBestChainTrust nd = bi_nChainTrust (hd (pindexBest (nd_chain nd)))" "pindexGenesisBlock (nd_chain nd) \<noteq> []"
  using assms by (auto simp: tree_ok_def)

text \<open>Two blocks of the tree with one hash are one.\<close>

lemma tree_best_iff:
  "tree_ok N nd \<Longrightarrow> mapBlockIndex nd h = Some q \<Longrightarrow> h = hashBestChain (nd_chain nd) \<longleftrightarrow> q = pindexBest (nd_chain nd)"
  using tree_okD(1)[of N nd] tree_best(1)[of N nd] by (metis option.inject)

lemma tree_suffix:
  "tree_ok N nd \<Longrightarrow> mapBlockIndex nd h = Some p \<Longrightarrow> suffix q p \<Longrightarrow> q \<noteq> [] \<Longrightarrow> mapBlockIndex nd (index_hash q) = Some q"
  using tree_okD(3)[of N nd h p] by (auto simp: in_map_def)

lemma tree_stored:
  assumes "tree_ok N nd" "mapBlockIndex nd h = Some p" "suffix q p" "tl q \<noteq> []"
  obtains b where "stored_at (nd_disk nd) q b" "block_hash (ne_env N) b = index_hash q"
    "hashPrevBlock b = index_hash (tl q)" "height_tagged (bn_bn2mpi (ne_env N)) (index_height q) b"
proof -
  have "mapBlockIndex nd (index_hash q) = Some q" using tree_suffix[OF assms(1-3)] assms(4) by (cases q) auto
  then show ?thesis using tree_okD(7)[OF assms(1) _ assms(4)] that by (auto simp: block_known_def)
qed

lemma tree_tagged:
  assumes "tree_ok N nd" "mapBlockIndex nd h = Some p"
  shows "chain_tagged (chain_at N (nd_disk nd)) (bn_bn2mpi (ne_env N)) p"
  unfolding chain_tagged_def
proof (intro allI impI)
  fix q b
  assume a: "suffix q p \<and> tl q \<noteq> [] \<and> ReadBlock (chain_at N (nd_disk nd)) q = Some b"
  then obtain b' where b': "stored_at (nd_disk nd) q b'" "height_tagged (bn_bn2mpi (ne_env N)) (index_height q) b'"
    using tree_stored[OF assms] by metis
  then show "height_tagged (bn_bn2mpi (ne_env N)) (index_height q) b"
    using stored_read[OF b'(1), of "ne_env N" b] a by (simp add: chain_at_def)
qed


section \<open>The index of a new block\<close>

lemma new_index_facts:
  assumes "new_index E T f n proof b = Some p" "pprev = (case T (hashPrevBlock b) of None \<Rightarrow> [] | Some q \<Rightarrow> q)"
  shows "\<exists>x. p = x # pprev \<and> bi_hashBlock x = block_hash E b \<and> bp_nFile x = f \<and> bp_nBlockPos x = n \<and>
    bp_nHeight x = (if pprev \<noteq> [] then index_height pprev + 1 else 0) \<and> bi_nBits x = nBits b \<and> bi_nTime x = blk_nTime b \<and>
    bi_nChainTrust x = (if pprev \<noteq> [] then bi_nChainTrust (hd pprev) else 0) +
      GetBlockTrust (bn_bn2mpi E) (bn_mpi2bn E) (nBits b) \<and>
    (pprev = [] \<longrightarrow> GeneratedStakeModifier x)"
  using assms unfolding new_index_def Let_def
  by (auto simp: mk_block_index_def Let_def SetStakeEntropyBit_def SetStakeModifier_def SetProofOfStake_def
      ComputeNextStakeModifier_def GeneratedStakeModifier_def BLOCK_STAKE_MODIFIER_def bit_simps
      split: option.splits prod.splits if_splits)

lemma block_entropy_bit: "\<not> block_GetStakeEntropyBit h > 1"
  by (simp add: block_GetStakeEntropyBit_def and_one_eq mod2_eq_if not_less)

text \<open>The index of a child of a known block can be made, and that of a first block.\<close>

lemma new_index_exists:
  assumes t: "tree_ok N nd" and q: "mapBlockIndex nd (hashPrevBlock b) = Some q"
  shows "\<exists>p. new_index (ne_env N) (mapBlockIndex nd) f n pr b = Some p"
proof -
  have q': "q \<noteq> []" "in_map (mapBlockIndex nd) q" "GeneratedStakeModifier (last q)"
    using tree_okD(2,3,5,8)[OF t q] by simp_all
  show ?thesis
    using ComputeNextStakeModifier_eq[OF q'(2,1,3), of "HashBytes (ne_env N)"] q q'(1)
    by (auto simp: new_index_def Let_def SetStakeEntropyBit_def block_entropy_bit split: prod.splits)
qed

lemma new_index_first: "T (hashPrevBlock b) = None \<Longrightarrow> \<exists>p. new_index E T f n pr b = Some p"
  by (simp add: new_index_def Let_def SetStakeEntropyBit_def block_entropy_bit ComputeNextStakeModifier_def)

lemma block_known_more: "block_known E D p \<Longrightarrow> D pos = None \<Longrightarrow> block_known E (D(pos \<mapsto> v)) p"
  unfolding block_known_def using stored_more[of D p _ pos v] by blast

lemma in_map_more: "in_map T p \<Longrightarrow> T h = None \<Longrightarrow> in_map (T(h \<mapsto> r)) p"
  by (auto simp: in_map_def)

lemma known_index_map: "known_index E T D g p \<Longrightarrow> T h = None \<Longrightarrow> known_index E (T(h \<mapsto> r)) D g p"
  using in_map_more[of T p h r] by (auto simp: known_index_def)

lemma known_index_disk: "known_index E T D g p \<Longrightarrow> D pos = None \<Longrightarrow> known_index E T (D(pos \<mapsto> v)) g p"
  using block_known_more[of E D p pos v] by (auto simp: known_index_def)

text \<open>A child of a known block.\<close>

lemma known_index_child:
  assumes q: "known_index E T D g q" and "T h = None" "bi_hashBlock x = h" "1 \<le> bp_nFile x" "bp_nFile x \<noteq> - 1"
    "bp_nHeight x = index_height q + 1" "block_known E D (x # q)"
    "bi_nChainTrust x = bi_nChainTrust (hd q) + GetBlockTrust (bn_bn2mpi E) (bn_mpi2bn E) (bi_nBits x)"
  shows "known_index E (T(h \<mapsto> x # q)) D g (x # q)"
proof -
  have "in_map (T(h \<mapsto> x # q)) (x # q)"
    using q assms(2,3) by (auto simp: in_map_def known_index_def suffix_Cons)
  moreover have "chain_shape (x # q)"
    using q assms(5,6) index_height_eq[of q] by (auto simp: known_index_def chain_shape_def)
  ultimately show ?thesis using assms by (auto simp: known_index_def)
qed

section \<open>The best chain of a node\<close>

definition chain_ok :: "node_env \<Rightarrow> node_state \<Rightarrow> bool" where
  "chain_ok N nd \<longleftrightarrow> consistent (chain_at N (nd_disk nd)) (nd_chain nd)"

lemma chain_at_simps [simp]:
  "HashFn (chain_at N D) = HashFn (ne_chain N)" "env_at (chain_at N D) = env_at (ne_chain N)"
  "BlockHash (chain_at N D) = BlockHash (ne_chain N)" "hashGenesis (chain_at N D) = hashGenesis (ne_chain N)"
  "ReadBlock (chain_at N D) = ReadFromDisk_index (ne_env N) D"
  by (simp_all add: chain_at_def)

lemma read_index_hash: "ReadFromDisk_index E D p = Some b \<Longrightarrow> block_hash E b = index_hash p"
  by (auto simp: ReadFromDisk_index_def split: if_splits option.splits)

lemma chain_at_env_ok: "env_good N \<Longrightarrow> env_ok (chain_at N D)"
  using read_index_hash by (auto simp: env_good_def env_ok_def same_rules_def)

text \<open>More blocks on disk do not change the chain.\<close>

lemma consistent_more:
  assumes "tree_ok N nd" "chain_ok N nd" "nd_disk nd pos = None"
  shows "consistent (chain_at N ((nd_disk nd)(pos \<mapsto> v))) (nd_chain nd)"
    "chain_txs (chain_at N ((nd_disk nd)(pos \<mapsto> v))) (pindexBest (nd_chain nd)) =
      chain_txs (chain_at N (nd_disk nd)) (pindexBest (nd_chain nd))"
proof -
  let ?D = "(nd_disk nd)(pos \<mapsto> v)" and ?p = "pindexBest (nd_chain nd)"
  have r: "ReadBlock (chain_at N ?D) q = ReadBlock (chain_at N (nd_disk nd)) q" if q: "suffix q ?p" "tl q \<noteq> []" for q
  proof -
    obtain b where "stored_at (nd_disk nd) q b" using tree_stored[OF assms(1) tree_best(1)[OF assms(1)] q] by blast
    then show ?thesis using stored_read_more[of "nd_disk nd" q b pos "ne_env N" v] assms(3) by simp
  qed
  note c = chain_cong[of "chain_at N ?D" "chain_at N (nd_disk nd)" ?p, OF _ r]
  show "consistent (chain_at N ?D) (nd_chain nd)" using assms(2) by (simp add: chain_ok_def consistent_def c)
  show "chain_txs (chain_at N ?D) ?p = chain_txs (chain_at N (nd_disk nd)) ?p" by (simp add: c)
qed

text \<open>On a chain without hash collisions no transaction is repeated.\<close>

definition no_collision :: "node_env \<Rightarrow> node_state \<Rightarrow> bool" where
  "no_collision N nd \<longleftrightarrow>
     inj_on (tx_GetHash (HashBytes (ne_env N))) (set (chain_txs (chain_at N (nd_disk nd)) (pindexBest (nd_chain nd))))"

lemma chain_ok_distinct:
  assumes "env_good N" "tree_ok N nd" "chain_ok N nd" "no_collision N nd"
  shows "distinct (chain_txs (chain_at N (nd_disk nd)) (pindexBest (nd_chain nd)))"
    "chain_fits (chain_at N (nd_disk nd)) (pindexBest (nd_chain nd))"
proof -
  let ?C = "chain_at N (nd_disk nd)" and ?p = "pindexBest (nd_chain nd)"
  have h: "HashFn (ne_chain N) = HashBytes (ne_env N)" and m: "mpi_documented (bn_bn2mpi (ne_env N)) (bn_mpi2bn (ne_env N))"
    using assms(1) by (simp_all add: env_good_def)
  have sh: "chain_shape ?p" by (rule tree_okD(4)[OF assms(2) tree_best(1)[OF assms(2)]])
  have inj: "inj_on (tx_GetHash (HashFn ?C)) (set (chain_txs ?C ?p))" using assms(4) by (simp add: no_collision_def h)
  show d: "distinct (chain_txs ?C ?p)"
    using chain_distinct[OF m _ tree_tagged[OF assms(2) tree_best(1)[OF assms(2)]] sh inj] assms(3)
    by (simp add: chain_ok_def consistent_def)
  show "chain_fits ?C ?p" using d sh inj by (simp add: chain_fits_def distinct_map)
qed

section \<open>A new best block\<close>

lemma SetBestChain_checked:
  assumes "SetBestChain C p b st = Some (True, st')" "pindexGenesisBlock st \<noteq> []" "hashPrevBlock b = hashBestChain st"
  shows "CheckBlock (env_at C p) True True False b = Inr ()"
proof -
  obtain ok1 st1 where "SetBestChainInner C p b st = Some (ok1, st1)" "ok1"
    using assms by (auto simp: SetBestChain_def Let_def split: bind_splits if_splits)
  then obtain r where "ConnectBlock ((env_at C p)\<lparr>tx_pool := st_mempool st\<rparr>) (st_txdb st)
      (st_nMoneySupply st (index_hash (tl p))) p False b = Inr r"
    by (auto simp: SetBestChainInner_def connect_at_def split: prod.splits option.splits sum.splits bind_splits)
  then show ?thesis by (auto simp: ConnectBlock_def rbind_Inr_iff CheckBlock_pool)
qed

lemma new_best_chain:
  assumes e: "env_good N" and c: "consistent (chain_at N D) st" "pindexGenesisBlock st \<noteq> []"
    and f: "chain_fits (chain_at N D) (pindexBest st)" "chain_shape p" "tl p \<noteq> []" "last p = last (pindexBest st)"
    and b: "stored_at D p (bare b)" "block_hash (ne_env N) b = index_hash p" "1 \<le> bp_nFile (hd p)"
    and l: "hashPrevBlock b = hashBestChain st \<longleftrightarrow> tl p = pindexBest st"
    and t: "\<not> bi_nChainTrust (hd (tl p)) > bi_nChainTrust (hd (pindexBest st)) \<or> st_dbBest st' = hashBestChain st'"
      "\<And>q. suffix q p \<Longrightarrow> q \<noteq> [] \<Longrightarrow> index_hash q = index_hash p \<Longrightarrow> q = p"
    and r: "SetBestChain (chain_at N D) p b st = Some (ok, st')"
  shows "consistent (chain_at N D) st' \<and> pindexGenesisBlock st' = pindexGenesisBlock st \<and>
    (if ok then pindexBest st' = p \<and> hashBestChain st' = index_hash p
     else pindexBest st' = pindexBest st \<and> hashBestChain st' = hashBestChain st)"
proof -
  let ?C = "chain_at N D"
  have p: "p \<noteq> []" using f(3) by auto
  have h: "BlockHash ?C (bare b) = index_hash p" "BlockHash ?C b = index_hash p"
    using e b(2) by (simp_all add: env_good_def)
  have r': "SetBestChain ?C p (bare b) st = Some (ok, st')" using SetBestChain_bare[of ?C b] h r by simp
  note best = SetBestChain_best[OF r c(2)]
  have env: "env_ok ?C" by (rule chain_at_env_ok[OF e])
  show ?thesis
  proof (cases "tl p = pindexBest st")
    case True
    have read: "ReadBlock ?C p = Some (bare b)" if ok
    proof -
      have "CheckBlock (env_at ?C p) True True False b = Inr ()"
        using SetBestChain_checked[of ?C p b st st'] c(2) r that l True by simp
      moreover have "same_rules (ne_env N) (env_at ?C p)" using e by (simp add: env_good_def)
      ultimately have "block_IsProofOfWork b \<Longrightarrow> CheckProofOfWork (bn_bn2mpi (ne_env N)) (bn_mpi2bn (ne_env N))
          (ProofOfWorkLimit (ne_env N)) (block_GetPoWHash (Hash9 (ne_env N)) b) (nBits b)"
        by (simp add: CheckBlock_iff block_valid_def same_rules_eqs)
      then show ?thesis
        using stored_reads[OF b(1) p b(3), of "ne_env N"] fits_file[OF f(2) suffix_order.refl p] b(2) by simp
    qed
    have "hashPrevBlock (bare b) = hashBestChain st" using l True by simp
    note x = SetBestChain_extend[OF env c h(1) read f(2) p this True r']
    show ?thesis using x best h by (cases ok) (simp_all add: best_chain_set_def consistent_def)
  next
    case False
    have "hashPrevBlock (bare b) \<noteq> hashBestChain st" using l False by simp
    note x = SetBestChain_reorganize[OF env c h(1) f(1,2) p f(4) this r']
    show ?thesis
    proof (cases ok)
      case True
      then obtain q where q: "best_chain_set ?C p st' q" "q = p \<or> stopped_at ?C p st q" using x by auto
      have "q = p"
        using q t(1) t(2)[of q] by (cases "q = p") (simp_all add: best_chain_set_def stopped_at_def)
      then show ?thesis using q(1) best True h by (simp add: best_chain_set_def consistent_def)
    qed (use x best in simp)
  qed
qed

lemma tree_ok_disk:
  assumes "tree_ok N nd" "nd_disk nd pos = None"
  shows "tree_ok N (nd\<lparr>nd_disk := (nd_disk nd)(pos \<mapsto> v)\<rparr>)"
  using assms(1) known_index_disk[of _ _ "nd_disk nd" _ _ pos v] assms(2) by (simp add: tree_ok_def)

text \<open>A new block in the tree, before and after the choice of the best one.\<close>

lemma tree_ok_child:
  assumes t: "tree_ok N nd" and q: "mapBlockIndex nd h' = Some q" and h: "mapBlockIndex nd h = None"
    and x: "bi_hashBlock x = h" "1 \<le> bp_nFile x" "bp_nFile x \<noteq> - 1" "bp_nHeight x = index_height q + 1"
      "block_known (ne_env N) (nd_disk nd) (x # q)"
      "bi_nChainTrust x = bi_nChainTrust (hd q) +
        GetBlockTrust (bn_bn2mpi (ne_env N)) (bn_mpi2bn (ne_env N)) (bi_nBits x)"
    and n: "mapBlockIndex nd' = (mapBlockIndex nd)(h \<mapsto> x # q)" "nd_disk nd' = nd_disk nd"
      "pindexGenesisBlock (nd_chain nd') = pindexGenesisBlock (nd_chain nd)"
      "if new then pindexBest (nd_chain nd') = x # q \<and> hashBestChain (nd_chain nd') = h \<and> nBestChainTrust nd' = bi_nChainTrust x
       else pindexBest (nd_chain nd') = pindexBest (nd_chain nd) \<and>
         hashBestChain (nd_chain nd') = hashBestChain (nd_chain nd) \<and> nBestChainTrust nd' = nBestChainTrust nd"
  shows "tree_ok N nd' \<and> chain_shape (x # q) \<and> last (x # q) = last (pindexBest (nd_chain nd))"
proof -
  let ?g = "last (pindexBest (nd_chain nd))" and ?T = "mapBlockIndex nd"
  have known: "known_index (ne_env N) ?T (nd_disk nd) ?g p" if "?T k = Some p" for k p
    using t that by (simp add: tree_ok_def)
  note c = known_index_child[OF known[OF q] h x]
  have lx: "last (x # q) = ?g" using c by (simp add: known_index_def)
  have best: "?T (hashBestChain (nd_chain nd)) = Some (pindexBest (nd_chain nd))" by (rule tree_best(1)[OF t])
  then have hb: "hashBestChain (nd_chain nd) \<noteq> h" using h by auto
  have "last (pindexBest (nd_chain nd')) = ?g" using n(4) lx by (cases new) auto
  moreover have "index_hash p = k \<and> known_index (ne_env N) (mapBlockIndex nd') (nd_disk nd') ?g p"
    if "mapBlockIndex nd' k = Some p" for k p
    using that n(1,2) c x(1) known[of k p] known_index_map[OF known[of k p] h, of "x # q"] tree_okD(1)[OF t, of k p]
    by (cases "k = h") auto
  moreover have "GeneratedStakeModifier ?g" "pindexGenesisBlock (nd_chain nd') \<noteq> []" "nBestChainTrust nd = bi_nChainTrust (hd (pindexBest (nd_chain nd)))"
    using t n(3) by (simp_all add: tree_ok_def)
  ultimately have "tree_ok N nd'" using n best hb by (cases new) (auto simp: tree_ok_def)
  then show ?thesis using lx c by (simp add: known_index_def)
qed

section \<open>Adding and accepting a block\<close>

text \<open>The database is at the best block; it is not after a postponed block failed to connect.\<close>

definition db_follows :: "node_state \<Rightarrow> bool" where
  "db_follows nd \<longleftrightarrow> st_dbBest (nd_chain nd) = hashBestChain (nd_chain nd)"

lemma AddToBlockIndex_ok:
  assumes e: "env_good N" and t: "tree_ok N nd"
    and d: "nd_disk nd pos = None" "1 \<le> fst pos" "fst pos \<noteq> - 1" "block_ok SER_DISK (bare block)"
    and q: "mapBlockIndex nd (hashPrevBlock block) = Some q"
      "height_tagged (bn_bn2mpi (ne_env N)) (index_height q + 1) block"
    and r: "AddToBlockIndex N (fst pos) (snd pos) pr block
      (nd\<lparr>nd_disk := (nd_disk nd)(pos \<mapsto> write_block SER_DISK block)\<rparr>) = Some (ok, nd')"
  shows "tree_ok N nd'"
    and "chain_ok N nd \<Longrightarrow> no_collision N nd \<Longrightarrow>
      \<not> bi_nChainTrust (hd q) > nBestChainTrust nd \<or> db_follows nd' \<Longrightarrow> chain_ok N nd'"
proof -
  let ?D = "(nd_disk nd)(pos \<mapsto> write_block SER_DISK block)" and ?h = "block_hash (ne_env N) block"
    and ?E = "ne_env N" and ?st = "nd_chain nd"
  let ?nd = "nd\<lparr>nd_disk := ?D\<rparr>"
  have t1: "tree_ok N ?nd" by (rule tree_ok_disk[OF t d(1)])
  have qne: "q \<noteq> []" using tree_okD(2)[OF t q(1)] .
  have chain: "consistent (chain_at N ?D) ?st \<and> chain_fits (chain_at N ?D) (pindexBest ?st)"
    if c: "chain_ok N nd" and n: "no_collision N nd"
  proof -
    have c1: "consistent (chain_at N ?D) ?st" by (rule consistent_more(1)[OF t c d(1)])
    have n1: "no_collision N ?nd" using n by (simp add: no_collision_def consistent_more(2)[OF t c d(1)])
    show ?thesis using chain_ok_distinct(2)[OF e t1 _ n1] c1 by (simp add: chain_ok_def)
  qed
  let ?parent = "\<not> bi_nChainTrust (hd q) > nBestChainTrust nd"
  have "tree_ok N nd' \<and> (chain_ok N nd \<longrightarrow> no_collision N nd \<longrightarrow> ?parent \<or> db_follows nd' \<longrightarrow> chain_ok N nd')"
  proof (cases "mapBlockIndex nd ?h = None \<and> new_index ?E (mapBlockIndex nd) (fst pos) (snd pos) pr block \<noteq> None")
    case False
    then have "nd' = ?nd" using r by (auto simp: AddToBlockIndex_def Let_def split: if_splits)
    then show ?thesis using t1 chain by (simp add: chain_ok_def)
  next
    case True
    then obtain p where p: "new_index ?E (mapBlockIndex nd) (fst pos) (snd pos) pr block = Some p" by auto
    obtain x where x: "p = x # q" "bi_hashBlock x = ?h" "bp_nFile x = fst pos" "bp_nBlockPos x = snd pos"
        "bp_nHeight x = index_height q + 1" "bi_nBits x = nBits block"
        "bi_nChainTrust x = bi_nChainTrust (hd q) + GetBlockTrust (bn_bn2mpi ?E) (bn_mpi2bn ?E) (nBits block)"
      using new_index_facts[OF p, of q] q(1) qne by auto
    have stored: "stored_at ?D (x # q) (bare block)" using d(4) x(3,4) by (simp add: stored_at_def)
    have prev: "hashPrevBlock block = index_hash q" using tree_okD(1)[OF t q(1)] by simp
    have known: "block_known ?E ?D (x # q)"
      unfolding block_known_def using stored x(2,5) prev q(2) by (intro exI[of _ "bare block"]) (simp add: height_tagged_def)
    define seen where "seen = (if bi_IsProofOfStake x then insert (bi_prevoutStake x, bi_nStakeTime x) (setStakeSeen nd) else setStakeSeen nd)"
    let ?nd1 = "?nd\<lparr>mapBlockIndex := (mapBlockIndex nd)(?h \<mapsto> x # q), setStakeSeen := seen\<rparr>"
    have child: "tree_ok N nd2 \<and> chain_shape (x # q) \<and> last (x # q) = last (pindexBest ?st)"
      if "mapBlockIndex nd2 = (mapBlockIndex nd)(?h \<mapsto> x # q)" "nd_disk nd2 = ?D"
        "pindexGenesisBlock (nd_chain nd2) = pindexGenesisBlock ?st"
        "if new then pindexBest (nd_chain nd2) = x # q \<and> hashBestChain (nd_chain nd2) = ?h \<and> nBestChainTrust nd2 = bi_nChainTrust x
         else pindexBest (nd_chain nd2) = pindexBest ?st \<and>
           hashBestChain (nd_chain nd2) = hashBestChain ?st \<and> nBestChainTrust nd2 = nBestChainTrust nd" for nd2 new
      using tree_ok_child[OF t1, of "hashPrevBlock block" q ?h x nd2 new] that q(1) True x d known by simp
    have shape: "chain_shape (x # q)" "last (x # q) = last (pindexBest ?st)" using child[of ?nd1 False] by simp_all
    show ?thesis
    proof (cases "bi_nChainTrust x > nBestChainTrust nd")
      case False
      then have "nd' = ?nd1" using r p True x(1) by (auto simp: AddToBlockIndex_def Let_def seen_def)
      then show ?thesis using child[of ?nd1 False] chain by (simp add: chain_ok_def)
    next
      case more: True
      obtain st' where b: "SetBestChain (chain_at N ?D) (x # q) block ?st = Some (ok, st')"
        and nd': "nd' = ?nd1\<lparr>nd_chain := st', nBestChainTrust := (if ok then bi_nChainTrust x else nBestChainTrust nd)\<rparr>"
        using r p True x(1) more by (auto simp: AddToBlockIndex_def Let_def seen_def split: bind_splits)
      have bh: "BlockHash (chain_at N ?D) block = ?h" using e by (simp add: env_good_def)
      have tree: "tree_ok N nd'"
        using child[of nd' ok] nd' SetBestChain_best[OF b tree_best(3)[OF t]] bh by (cases ok) simp_all
      have one: "s = x # q" if s: "suffix s (x # q)" "s \<noteq> []" "index_hash s = index_hash (x # q)" for s
      proof -
        have m: "mapBlockIndex nd' ?h = Some (x # q)" using nd' by simp
        show ?thesis using tree_suffix[OF tree m s(1,2)] s(3) x(2) m by simp
      qed
      have "chain_ok N nd'" if c: "chain_ok N nd" "no_collision N nd" "?parent \<or> db_follows nd'"
      proof -
        have "consistent (chain_at N ?D) st' \<and> pindexGenesisBlock st' = pindexGenesisBlock ?st \<and>
            (if ok then pindexBest st' = x # q \<and> hashBestChain st' = index_hash (x # q)
             else pindexBest st' = pindexBest ?st \<and> hashBestChain st' = hashBestChain ?st)"
        proof (rule new_best_chain[OF e _ tree_best(3)[OF t] _ shape(1) _ shape(2) stored _ _ _ _ one b])
          show "consistent (chain_at N ?D) ?st" "chain_fits (chain_at N ?D) (pindexBest ?st)" using chain c(1,2) by simp_all
          show "tl (x # q) \<noteq> []" "block_hash ?E block = index_hash (x # q)" "1 \<le> bp_nFile (hd (x # q))"
            using qne x d(2) by simp_all
          show "hashPrevBlock block = hashBestChain ?st \<longleftrightarrow> tl (x # q) = pindexBest ?st"
            using tree_best_iff[OF t q(1)] by simp
          show "\<not> bi_nChainTrust (hd (tl (x # q))) > bi_nChainTrust (hd (pindexBest ?st)) \<or> st_dbBest st' = hashBestChain st'"
            using c(3) tree_best(2)[OF t] nd' by (auto simp: db_follows_def)
        qed
        then show ?thesis using nd' by (simp add: chain_ok_def)
      qed
      then show ?thesis using tree by blast
    qed
  qed
  then show "tree_ok N nd'" "chain_ok N nd \<Longrightarrow> no_collision N nd \<Longrightarrow>
      \<not> bi_nChainTrust (hd q) > nBestChainTrust nd \<or> db_follows nd' \<Longrightarrow> chain_ok N nd'" by blast+
qed

text \<open>\<open>AcceptBlock\<close> asks for the height in the coinbase and for the block before.\<close>

lemma accept_checks_height:
  assumes "accept_checks N nd q block = Inr pr"
  shows "height_tagged (bn_bn2mpi (ne_env N)) (index_height q + 1) block"
proof -
  let ?s = "scriptSig (vin (vtx block ! 0) ! 0)" and ?e = "push_int64 (bn_bn2mpi (ne_env N)) (index_height q + 1) []"
  have "\<not> length ?s < length ?e" "take (length ?e) ?s = ?e"
    using assms by (auto simp: accept_checks_def Let_def rbind_Inr_iff split: if_splits)
  then show ?thesis using take_is_prefix[of "length ?e" ?s] by (simp add: height_tagged_def)
qed

lemma AcceptBlock_ok:
  assumes e: "env_good N" and t: "tree_ok N nd" and b: "block_ok SER_DISK (bare block)"
    and r: "AcceptBlock N block nd = Some (res, nd')"
  shows "tree_ok N nd'" and "chain_ok N nd \<Longrightarrow> no_collision N nd \<Longrightarrow> db_follows nd' \<Longrightarrow> chain_ok N nd'"
    and "chain_ok N nd \<Longrightarrow> no_collision N nd \<Longrightarrow>
      (case mapBlockIndex nd (hashPrevBlock block) of
         None \<Rightarrow> True | Some q \<Rightarrow> \<not> bi_nChainTrust (hd q) > nBestChainTrust nd) \<Longrightarrow> db_follows nd'"
proof -
  have "nd' = nd \<or> (\<exists>q. mapBlockIndex nd (hashPrevBlock block) = Some q \<and> tree_ok N nd' \<and>
    (chain_ok N nd \<longrightarrow> no_collision N nd \<longrightarrow>
      \<not> bi_nChainTrust (hd q) > nBestChainTrust nd \<or> db_follows nd' \<longrightarrow> chain_ok N nd'))"
  proof (cases "nd' = nd")
    case False
    then obtain q pr where q: "mapBlockIndex nd (hashPrevBlock block) = Some q" "accept_checks N nd q block = Inr pr"
      using r by (auto simp: AcceptBlock_def split: if_splits option.splits sum.splits)
    then obtain pos ok where a: "AppendBlockFile N (nd_disk nd) = Some pos"
        "AddToBlockIndex N (fst pos) (snd pos) pr block
          (nd\<lparr>nd_disk := (nd_disk nd)(pos \<mapsto> write_block SER_DISK block)\<rparr>) = Some (ok, nd')"
      using r False by (auto simp: AcceptBlock_def WriteToDisk_def split: if_splits option.splits bind_splits)
    then have "nd_disk nd pos = None" "1 \<le> fst pos" "fst pos \<noteq> - 1" using e unfolding env_good_def by blast+
    note ok = AddToBlockIndex_ok[OF e t this b q(1) accept_checks_height[OF q(2)] a(2)]
    show ?thesis using q(1) ok by blast
  qed simp
  moreover have "chain_ok N nd \<Longrightarrow> db_follows nd" for nd by (simp add: chain_ok_def consistent_def db_follows_def)
  ultimately show "tree_ok N nd'" "chain_ok N nd \<Longrightarrow> no_collision N nd \<Longrightarrow> db_follows nd' \<Longrightarrow> chain_ok N nd'"
      "chain_ok N nd \<Longrightarrow> no_collision N nd \<Longrightarrow>
      (case mapBlockIndex nd (hashPrevBlock block) of
         None \<Rightarrow> True | Some q \<Rightarrow> \<not> bi_nChainTrust (hd q) > nBestChainTrust nd) \<Longrightarrow> db_follows nd'"
    using t by auto
qed

section \<open>The first block\<close>

lemma LoadGenesis_ok:
  assumes e: "env_good N" and h: "block_hash (ne_env N) genesis = hashGenesis (ne_chain N)"
    and p: "0 < GetBlockTrust (bn_bn2mpi (ne_env N)) (bn_mpi2bn (ne_env N)) (nBits genesis)"
    and r: "LoadGenesis N genesis empty_node = Some (True, nd)"
  shows "tree_ok N nd \<and> chain_ok N nd"
proof -
  let ?E = "ne_env N" and ?h = "block_hash (ne_env N) genesis"
  obtain pos where pos: "AppendBlockFile N Map.empty = Some pos" and a: "AddToBlockIndex N (fst pos) (snd pos)
      (hashGenesis (ne_chain N)) genesis (empty_node\<lparr>nd_disk := [pos \<mapsto> write_block SER_DISK genesis]\<rparr>) = Some (True, nd)"
    using r by (auto simp: LoadGenesis_def WriteToDisk_def empty_node_def split: option.splits)
  have f: "1 \<le> fst pos" "fst pos \<noteq> - 1" using e pos unfolding env_good_def by blast+
  have a': "(case new_index ?E Map.empty (fst pos) (snd pos) (hashGenesis (ne_chain N)) genesis of
      None \<Rightarrow> Some (False, empty_node\<lparr>nd_disk := [pos \<mapsto> write_block SER_DISK genesis]\<rparr>) | Some p \<Rightarrow> Some (True, nd)) = Some (True, nd)"
    using a by (auto simp: AddToBlockIndex_def Let_def empty_node_def split: option.splits if_splits)
  obtain p where p': "new_index ?E Map.empty (fst pos) (snd pos) (hashGenesis (ne_chain N)) genesis = Some p"
    using a' by (auto split: option.splits)
  obtain x where x: "p = [x]" "bi_hashBlock x = ?h" "bp_nFile x = fst pos" "bp_nHeight x = 0" "bi_nBits x = nBits genesis"
      "bi_nChainTrust x = GetBlockTrust (bn_bn2mpi ?E) (bn_mpi2bn ?E) (nBits genesis)" "GeneratedStakeModifier x"
    using new_index_facts[OF p', of "[]"] by auto
  have bh: "BlockHash (ne_chain N) genesis = ?h" using e by (simp add: env_good_def)
  have nd: "mapBlockIndex nd = [?h \<mapsto> [x]]" "nBestChainTrust nd = bi_nChainTrust x" "pindexBest (nd_chain nd) = [x]"
      "hashBestChain (nd_chain nd) = ?h" "st_txdb (nd_chain nd) = Map.empty" "st_dbBest (nd_chain nd) = ?h"
      "pindexGenesisBlock (nd_chain nd) = [x]"
    using a p' x p h bh by (auto simp: AddToBlockIndex_def Let_def empty_node_def SetBestChain_def new_best_def)
  have "known_index ?E [?h \<mapsto> [x]] (nd_disk nd) x [x]"
    using x f by (auto simp: known_index_def in_map_def chain_shape_def suffix_Cons)
  then show ?thesis using nd x by (simp add: tree_ok_def chain_ok_def consistent_def)
qed

section \<open>A node at work\<close>

text \<open>Time, peers and the pool change between two blocks; the rules do not.\<close>

definition same_node :: "node_env \<Rightarrow> node_env \<Rightarrow> bool" where
  "same_node N N' \<longleftrightarrow> env_good N \<and> env_good N' \<and> same_rules (ne_env N) (ne_env N') \<and> HashFn (ne_chain N') = HashFn (ne_chain N)"

lemma same_rules_chain:
  assumes "same_rules E E'"
  shows "chain_trust E' p = chain_trust E p" "block_known E' D p = block_known E D p"
  using same_rules_eqs[OF assms] by (induction p) (simp_all add: block_known_def)

lemma same_node_ok:
  assumes "same_node N N'"
  shows "tree_ok N' nd = tree_ok N nd" "chain_ok N' nd = chain_ok N nd" "no_collision N' nd = no_collision N nd"
proof -
  have s: "same_rules (ne_env N) (ne_env N')" and f: "HashFn (ne_chain N') = HashFn (ne_chain N)"
    using assms by (simp_all add: same_node_def)
  have "known_index (ne_env N') T D g p = known_index (ne_env N) T D g p" for T D g p
    by (simp add: known_index_def same_rules_chain[OF s])
  then show "tree_ok N' nd = tree_ok N nd" by (simp add: tree_ok_def)
  note c = chain_cong[of "chain_at N' (nd_disk nd)" "chain_at N (nd_disk nd)" "pindexBest (nd_chain nd)"]
  show "chain_ok N' nd = chain_ok N nd" "no_collision N' nd = no_collision N nd"
    using c f by (simp_all add: chain_ok_def no_collision_def consistent_def same_rules_read_index[OF s] same_rules_eqs[OF s])
qed

text \<open>
  The runs of a node, the last state first: from the first block, by accepting blocks that came off the wire
  and by any changes of the pool.
\<close>

inductive node_run :: "node_env \<Rightarrow> node_state list \<Rightarrow> bool" for N0 where
  node_start: "\<lbrakk>same_node N0 N; block_hash (ne_env N) genesis = hashGenesis (ne_chain N);
    0 < GetBlockTrust (bn_bn2mpi (ne_env N)) (bn_mpi2bn (ne_env N)) (nBits genesis);
    LoadGenesis N genesis empty_node = Some (True, nd)\<rbrakk> \<Longrightarrow> node_run N0 [nd]"
| node_block: "\<lbrakk>node_run N0 (nd # nds); same_node N0 N; block_ok SER_DISK (bare block);
    AcceptBlock N block nd = Some (res, nd')\<rbrakk> \<Longrightarrow> node_run N0 (nd' # nd # nds)"
| node_pool: "node_run N0 (nd # nds) \<Longrightarrow>
    node_run N0 (nd\<lparr>nd_chain := (nd_chain nd)\<lparr>st_mempool := pool\<rparr>\<rparr> # nd # nds)"

lemma node_run_env: "node_run N0 nds \<Longrightarrow> env_good N0"
  by (induction rule: node_run.induct) (simp_all add: same_node_def)

text \<open>No two transactions of the best chain had one hash, and the database was at the best block.\<close>

definition undisturbed :: "node_env \<Rightarrow> node_state list \<Rightarrow> bool" where
  "undisturbed N nds \<longleftrightarrow> (\<forall>nd \<in> set nds. no_collision N nd \<and> db_follows nd)"

lemma node_run_ok: "node_run N0 nds \<Longrightarrow> tree_ok N0 (hd nds) \<and> (undisturbed N0 nds \<longrightarrow> chain_ok N0 (hd nds))"
proof (induction rule: node_run.induct)
  case (node_start N genesis nd)
  then show ?case using LoadGenesis_ok[of N genesis nd] same_node_ok[OF node_start(1)] by (simp add: same_node_def)
next
  case (node_block nd nds N block res nd')
  have e: "env_good N" using node_block by (simp add: same_node_def)
  note same = same_node_ok[OF node_block(2)]
  have t: "tree_ok N nd" using node_block.IH same by simp
  note ok = AcceptBlock_ok[OF e t node_block(3,4)]
  show ?case using ok(1,2) node_block.IH same by (auto simp: undisturbed_def)
next
  case (node_pool nd nds pool)
  let ?nd = "nd\<lparr>nd_chain := (nd_chain nd)\<lparr>st_mempool := pool\<rparr>\<rparr>"
  have "tree_ok N0 ?nd = tree_ok N0 nd" "chain_ok N0 ?nd = chain_ok N0 nd"
    by (simp_all add: tree_ok_def chain_ok_def consistent_def)
  then show ?case using node_pool.IH by (auto simp: undisturbed_def)
qed

end
