(* ===== verification/NodeProcess.thy ===== *)
theory NodeProcess
  imports NodeInv
begin

text \<open>
  Blocks from peers, in \<open>src/src/main.cpp\<close>: \<open>ProcessBlock\<close> with the blocks whose parent is missing
  (\<open>mapOrphanBlocks\<close>, \<open>mapOrphanBlocksByPrev\<close>, \<open>setStakeSeenOrphan\<close>), \<open>PruneOrphanBlocks\<close>,
  \<open>GetOrphanRoot\<close> and \<open>WantedByOrphan\<close>.  The maps hold pointers to one \<open>COrphanBlock\<close>, which does not
  change; here they hold its value.  A multimap is the list of its values in the order of iteration.
  The payments to masternodes after the last block are left out.
\<close>

section \<open>State\<close>

record COrphanBlock =
  ob_hashBlock :: uint256
  ob_hashPrev :: uint256
  ob_stake :: "COutPoint \<times> uint32"
  vchBlock :: bytes

record orphan_state =
  mapOrphanBlocks :: "uint256 \<rightharpoonup> COrphanBlock"
  mapOrphanBlocksByPrev :: "COrphanBlock list"
  setStakeSeenOrphan :: "(COutPoint \<times> uint32) set"

text \<open>A call: the rules and the time, the peer if there is one, the limit and the random number.\<close>

record process_env =
  pe_node :: node_env
  fReindex :: bool
  fImporting :: bool
  pfrom :: bool
  nMaxOrphanBlocks :: int
  insecure_rand :: nat

datatype process_error =
    P_have | P_have_orphan | P_duplicate_stake | P_before_checkpoint | P_signature_encoding
  | P_check block_check_error | P_duplicate_stake_orphan | P_accept accept_block_error | P_orphan_data

text \<open>What the node asks its peer for.\<close>

datatype request = GetBlocks uint256 | AskFor uint256

section \<open>The multimap\<close>

definition multimap_find :: "uint256 \<Rightarrow> COrphanBlock list \<Rightarrow> COrphanBlock option" where
  "multimap_find key m = find (\<lambda>ob. ob_hashPrev ob = key) m"

definition multimap_insert :: "COrphanBlock \<Rightarrow> COrphanBlock list \<Rightarrow> COrphanBlock list" where
  "multimap_insert ob m =
     takeWhile (\<lambda>x. ob_hashPrev x \<le> ob_hashPrev ob) m @ ob # dropWhile (\<lambda>x. ob_hashPrev x \<le> ob_hashPrev ob) m"

definition multimap_range :: "uint256 \<Rightarrow> COrphanBlock list \<Rightarrow> COrphanBlock list" where
  "multimap_range key m = filter (\<lambda>ob. ob_hashPrev ob = key) m"

definition multimap_erase :: "uint256 \<Rightarrow> COrphanBlock list \<Rightarrow> COrphanBlock list" where
  "multimap_erase key m = filter (\<lambda>ob. ob_hashPrev ob \<noteq> key) m"

section \<open>Walking along orphans\<close>

partial_function (option) orphan_root :: "(uint256 \<rightharpoonup> COrphanBlock) \<Rightarrow> COrphanBlock \<Rightarrow> uint256 option" where
  "orphan_root m ob =
     (case m (ob_hashPrev ob) of None \<Rightarrow> Some (ob_hashBlock ob) | Some ob2 \<Rightarrow> orphan_root m ob2)"

definition GetOrphanRoot :: "(uint256 \<rightharpoonup> COrphanBlock) \<Rightarrow> uint256 \<Rightarrow> uint256 option" where
  "GetOrphanRoot m hash = (case m hash of None \<Rightarrow> Some hash | Some ob \<Rightarrow> orphan_root m ob)"

partial_function (option) WantedByOrphan :: "(uint256 \<rightharpoonup> COrphanBlock) \<Rightarrow> COrphanBlock \<Rightarrow> uint256 option" where
  "WantedByOrphan m ob =
     (case m (ob_hashPrev ob) of None \<Rightarrow> Some (ob_hashPrev ob) | Some ob2 \<Rightarrow> WantedByOrphan m ob2)"

partial_function (option) prune_walk :: "COrphanBlock list \<Rightarrow> COrphanBlock \<Rightarrow> COrphanBlock option" where
  "prune_walk m ob =
     (case multimap_find (ob_hashBlock ob) m of None \<Rightarrow> Some ob | Some ob2 \<Rightarrow> prune_walk m ob2)"

definition PruneOrphanBlocks :: "int \<Rightarrow> nat \<Rightarrow> orphan_state \<Rightarrow> orphan_state option" where
  "PruneOrphanBlocks nMax rand os =
     (let m = mapOrphanBlocksByPrev os
      in if int (length m) \<le> max 0 nMax then Some os
         else map_option (\<lambda>ob. os\<lparr>setStakeSeenOrphan := setStakeSeenOrphan os - {ob_stake ob},
                mapOrphanBlocksByPrev := remove1 ob m,
                mapOrphanBlocks := (mapOrphanBlocks os)(ob_hashBlock ob := None)\<rparr>)
              (prune_walk m (m ! (rand mod length m))))"

section \<open>Processing a block\<close>

definition IsCanonicalBlockSignature :: "CBlock \<Rightarrow> bool" where
  "IsCanonicalBlockSignature block =
     (if block_IsProofOfWork block then vchBlockSig block = [] else IsDERSignature (vchBlockSig block) False)"

definition mk_orphan :: "uint256 \<Rightarrow> CBlock \<Rightarrow> COrphanBlock" where
  "mk_orphan hash block =
     \<lparr>ob_hashBlock = hash, ob_hashPrev = hashPrevBlock block, ob_stake = block_GetProofOfStake block,
      vchBlock = write_block SER_DISK block\<rparr>"

text \<open>Holding back a block whose parent is missing.\<close>

definition hold_orphan ::
  "process_env \<Rightarrow> uint256 \<Rightarrow> CBlock \<Rightarrow> orphan_state \<Rightarrow> ((process_error + request list) \<times> orphan_state) option" where
  "hold_orphan P hash block os =
     (if \<not> pfrom P then Some (Inr [], os)
      else if block_IsProofOfStake block \<and> block_GetProofOfStake block \<in> setStakeSeenOrphan os \<and>
        multimap_find hash (mapOrphanBlocksByPrev os) = None
      then Some (Inl P_duplicate_stake_orphan, os)
      else
        Option.bind (PruneOrphanBlocks (nMaxOrphanBlocks P) (insecure_rand P) os) (\<lambda>os.
        let ob = mk_orphan hash block;
            os = os\<lparr>mapOrphanBlocks := (mapOrphanBlocks os)(hash \<mapsto> ob),
                   mapOrphanBlocksByPrev := multimap_insert ob (mapOrphanBlocksByPrev os),
                   setStakeSeenOrphan := (if block_IsProofOfStake block
                     then insert (block_GetProofOfStake block) (setStakeSeenOrphan os) else setStakeSeenOrphan os)\<rparr>
        in Option.bind (GetOrphanRoot (mapOrphanBlocks os) hash) (\<lambda>root.
           if InitialBlockDownload (ne_env (pe_node P)) then Some (Inr [GetBlocks root], os)
           else Option.bind (WantedByOrphan (mapOrphanBlocks os) ob) (\<lambda>wanted.
                Some (Inr [GetBlocks root, AskFor wanted], os)))))"

text \<open>
  The orphans that wait for one block, in order; the result are those accepted.  Data that does not
  parse ends the call with an exception.
\<close>

fun accept_orphans ::
  "node_env \<Rightarrow> COrphanBlock list \<Rightarrow> uint256 list \<Rightarrow> node_state \<Rightarrow> orphan_state \<Rightarrow>
     ((process_error + uint256 list) \<times> node_state \<times> orphan_state) option" where
  "accept_orphans N [] accepted nd os = Some (Inr accepted, nd, os)"
| "accept_orphans N (ob # rest) accepted nd os =
     (case read_block SER_DISK (vchBlock ob) of
        Inl _ \<Rightarrow> Some (Inl P_orphan_data, nd, os)
      | Inr (block, _) \<Rightarrow>
          Option.bind (AcceptBlock N (snd (BuildMerkleTree (HashBytes (ne_env N)) block)) nd) (\<lambda>(res, nd).
          accept_orphans N rest (case res of Inr _ \<Rightarrow> accepted @ [ob_hashBlock ob] | Inl _ \<Rightarrow> accepted) nd
            (os\<lparr>mapOrphanBlocks := (mapOrphanBlocks os)(ob_hashBlock ob := None),
                setStakeSeenOrphan := setStakeSeenOrphan os - {block_GetProofOfStake block}\<rparr>)))"

text \<open>The work queue: each block accepted lets those waiting for it in.\<close>

lemma accept_orphans_Cons:
  assumes "accept_orphans N (ob # rest) acc nd os = Some r"
  shows "(\<exists>e. read_block SER_DISK (vchBlock ob) = Inl e \<and> r = (Inl P_orphan_data, nd, os)) \<or>
    (\<exists>block t res nd1. read_block SER_DISK (vchBlock ob) = Inr (block, t) \<and>
       AcceptBlock N (snd (BuildMerkleTree (HashBytes (ne_env N)) block)) nd = Some (res, nd1) \<and>
       accept_orphans N rest (case res of Inr _ \<Rightarrow> acc @ [ob_hashBlock ob] | Inl _ \<Rightarrow> acc) nd1
         (os\<lparr>mapOrphanBlocks := (mapOrphanBlocks os)(ob_hashBlock ob := None),
             setStakeSeenOrphan := setStakeSeenOrphan os - {block_GetProofOfStake block}\<rparr>) = Some r)"
  using assms by (cases "read_block SER_DISK (vchBlock ob)") (auto split: bind_splits)

lemma accept_orphans_length:
  "accept_orphans N obs acc nd os = Some (Inr acc', nd', os') \<Longrightarrow>
    length acc' \<le> length acc + length obs \<and> mapOrphanBlocksByPrev os' = mapOrphanBlocksByPrev os"
proof (induction obs arbitrary: acc nd os)
  case (Cons ob rest)
  obtain block nd1 and res :: "accept_block_error + unit" where r: "accept_orphans N rest (case res of Inr _ \<Rightarrow> acc @ [ob_hashBlock ob] | Inl _ \<Rightarrow> acc) nd1
      (os\<lparr>mapOrphanBlocks := (mapOrphanBlocks os)(ob_hashBlock ob := None),
          setStakeSeenOrphan := setStakeSeenOrphan os - {block_GetProofOfStake block}\<rparr>) = Some (Inr acc', nd', os')"
    using accept_orphans_Cons[OF Cons.prems] by blast
  show ?case using Cons.IH[OF r] by (cases res) auto
qed simp

function accept_queue ::
  "node_env \<Rightarrow> uint256 list \<Rightarrow> node_state \<Rightarrow> orphan_state \<Rightarrow> ((process_error + unit) \<times> node_state \<times> orphan_state) option" where
  "accept_queue N [] nd os = Some (Inr (), nd, os)"
| "accept_queue N (hashPrev # queue) nd os =
     (case accept_orphans N (multimap_range hashPrev (mapOrphanBlocksByPrev os)) [] nd os of
        None \<Rightarrow> None
      | Some (Inl e, nd, os) \<Rightarrow> Some (Inl e, nd, os)
      | Some (Inr accepted, nd, os) \<Rightarrow>
          accept_queue N (queue @ accepted) nd
            (os\<lparr>mapOrphanBlocksByPrev := multimap_erase hashPrev (mapOrphanBlocksByPrev os)\<rparr>))"
  by pat_completeness auto
termination
proof (relation "measure (\<lambda>(N, queue, nd, os). length queue + length (mapOrphanBlocksByPrev os))", goal_cases)
  case (2 N hashPrev queue nd os x2 x y b xa ya)
  then have "accept_orphans N (multimap_range hashPrev (mapOrphanBlocksByPrev os)) [] nd os = Some (Inr b, xa, ya)" by simp
  then show ?case
    using accept_orphans_length[of N "multimap_range hashPrev (mapOrphanBlocksByPrev os)" "[]" nd os b xa ya]
      sum_length_filter_compl[of "\<lambda>ob. ob_hashPrev ob = hashPrev" "mapOrphanBlocksByPrev os"]
    by (simp add: multimap_range_def multimap_erase_def)
qed simp

declare accept_queue.simps(2) [simp del]

text \<open>What is looked at before the block is kept or held back.\<close>

definition process_checks :: "process_env \<Rightarrow> uint256 \<Rightarrow> CBlock \<Rightarrow> node_state \<Rightarrow> orphan_state \<Rightarrow> process_error + unit" where
  "process_checks P hash block nd os =
     (let best = pindexBest (nd_chain nd)
      in if mapBlockIndex nd hash \<noteq> None then Inl P_have
         else if mapOrphanBlocks os hash \<noteq> None then Inl P_have_orphan
         else if \<not> fReindex P \<and> \<not> fImporting P \<and> block_IsProofOfStake block \<and>
           block_GetProofOfStake block \<in> setStakeSeen nd \<and> multimap_find hash (mapOrphanBlocksByPrev os) = None
         then Inl P_duplicate_stake
         else if hashPrevBlock block \<noteq> hashBestChain (nd_chain nd) \<and>
           block_time block - bi_GetBlockTime (hd (AutoSelectSyncCheckpoint best)) < 0
         then Inl P_before_checkpoint
         else if \<not> IsCanonicalBlockSignature block then Inl P_signature_encoding
         else lift_error P_check (CheckBlock ((ne_env (pe_node P))\<lparr>check_best := best\<rparr>) True True True block))"

text \<open>\<open>None\<close>: a call does not return.\<close>

definition ProcessBlock ::
  "process_env \<Rightarrow> CBlock \<Rightarrow> node_state \<Rightarrow> orphan_state \<Rightarrow>
     ((process_error + request list) \<times> node_state \<times> orphan_state) option" where
  "ProcessBlock P block nd os =
     (let N = pe_node P; hash = block_hash (ne_env N) block
      in case process_checks P hash block nd os of
           Inl e \<Rightarrow> Some (Inl e, nd, os)
         | Inr _ \<Rightarrow>
             if mapBlockIndex nd (hashPrevBlock block) = None then
               map_option (\<lambda>(res, os). (res, nd, os)) (hold_orphan P hash block os)
             else
               Option.bind (AcceptBlock N block nd) (\<lambda>(res, nd).
               case res of
                 Inl e \<Rightarrow> Some (Inl (P_accept e), nd, os)
               | Inr _ \<Rightarrow>
                   map_option (\<lambda>(res, nd, os). (case res of Inl e \<Rightarrow> Inl e | Inr _ \<Rightarrow> Inr [], nd, os))
                     (accept_queue N [hash] nd os)))"

lemma ProcessBlock_checked:
  assumes "process_checks P (block_hash (ne_env (pe_node P)) block) block nd os = Inr ()"
  shows "mapBlockIndex nd (hashPrevBlock block) = None \<Longrightarrow> ProcessBlock P block nd os =
      map_option (\<lambda>(res, os). (res, nd, os)) (hold_orphan P (block_hash (ne_env (pe_node P)) block) block os)"
    "mapBlockIndex nd (hashPrevBlock block) \<noteq> None \<Longrightarrow> ProcessBlock P block nd os =
      Option.bind (AcceptBlock (pe_node P) block nd) (\<lambda>(res, nd).
        case res of
          Inl e \<Rightarrow> Some (Inl (P_accept e), nd, os)
        | Inr _ \<Rightarrow> map_option (\<lambda>(res, nd, os). (case res of Inl e \<Rightarrow> Inl e | Inr _ \<Rightarrow> Inr [], nd, os))
            (accept_queue (pe_node P) [block_hash (ne_env (pe_node P)) block] nd os))"
  by (simp_all only: ProcessBlock_def Let_def assms sum.case if_True if_False simp_thms)

section \<open>Walks that end\<close>

text \<open>No block comes before itself: the orphans can be ranked.\<close>

definition ranked :: "(uint256 \<Rightarrow> nat) \<Rightarrow> COrphanBlock set \<Rightarrow> bool" where
  "ranked rank S \<longleftrightarrow> (\<forall>ob \<in> S. rank (ob_hashPrev ob) < rank (ob_hashBlock ob))"

lemma orphan_walks_end:
  assumes "ranked rank (insert ob (ran m))" "\<And>h ob. m h = Some ob \<Longrightarrow> ob_hashBlock ob = h"
  shows "orphan_root m ob \<noteq> None \<and> WantedByOrphan m ob \<noteq> None"
  using assms(1)
proof (induction "rank (ob_hashBlock ob)" arbitrary: ob rule: less_induct)
  case less
  show ?case
  proof (cases "m (ob_hashPrev ob)")
    case None
    then show ?thesis by (subst orphan_root.simps, subst WantedByOrphan.simps) simp
  next
    case (Some ob2)
    then have "ranked rank (insert ob2 (ran m))" "rank (ob_hashBlock ob2) < rank (ob_hashBlock ob)"
      using less.prems assms(2)[OF Some] by (auto simp: ranked_def ran_def)
    then show ?thesis using Some less.hyps[of ob2] by (subst orphan_root.simps, subst WantedByOrphan.simps) simp
  qed
qed

lemma multimap_find_Some: "multimap_find k m = Some ob \<Longrightarrow> ob \<in> set m \<and> ob_hashPrev ob = k"
  by (auto simp: multimap_find_def find_Some_iff)

lemma multimap_find_None: "multimap_find k m = None \<longleftrightarrow> (\<forall>ob \<in> set m. ob_hashPrev ob \<noteq> k)"
  by (auto simp: multimap_find_def find_None_iff)

lemma prune_walk_ends:
  assumes r: "ranked rank (set m)"
  shows "ob \<in> set m \<Longrightarrow> prune_walk m ob \<noteq> None"
proof (induction "Max (rank ` ob_hashBlock ` set m) - rank (ob_hashBlock ob)" arbitrary: ob rule: less_induct)
  case less
  show ?case
  proof (cases "multimap_find (ob_hashBlock ob) m")
    case None
    then show ?thesis by (subst prune_walk.simps) simp
  next
    case (Some ob2)
    have ob2: "ob2 \<in> set m" "ob_hashPrev ob2 = ob_hashBlock ob" using multimap_find_Some[OF Some] by simp_all
    then have "rank (ob_hashBlock ob) < rank (ob_hashBlock ob2)" using r by (auto simp: ranked_def)
    moreover have "rank (ob_hashBlock ob2) \<le> Max (rank ` ob_hashBlock ` set m)" using ob2(1) by simp
    ultimately show ?thesis using Some less.hyps[OF _ ob2(1)] by (subst prune_walk.simps) simp
  qed
qed

text \<open>The orphan dropped is one that no other waits for.\<close>

lemma prune_walk_leaf: "prune_walk m ob = Some r \<Longrightarrow> ob \<in> set m \<Longrightarrow> r \<in> set m \<and> multimap_find (ob_hashBlock r) m = None"
proof (induction m ob r rule: prune_walk.raw_induct[rotated, consumes 1])
  case (1 walk m ob r)
  then show ?case using multimap_find_Some[of "ob_hashBlock ob" m] by (auto split: option.splits)
qed

section \<open>The orphans in order\<close>

text \<open>
  The two maps hold the same blocks; each is the data of its block, with its hash, its parent and its
  stake; the stakes seen are stakes of orphans.
\<close>

definition orphan_ok :: "'a check_env_scheme \<Rightarrow> COrphanBlock \<Rightarrow> bool" where
  "orphan_ok E ob \<longleftrightarrow>
     (\<exists>b. read_block SER_DISK (vchBlock ob) = Inr (b, []) \<and> block_hash E b = ob_hashBlock ob \<and>
        hashPrevBlock b = ob_hashPrev ob \<and> block_GetProofOfStake b = ob_stake ob)"

definition orphans_ok :: "'a check_env_scheme \<Rightarrow> orphan_state \<Rightarrow> bool" where
  "orphans_ok E os \<longleftrightarrow>
     sorted (map ob_hashPrev (mapOrphanBlocksByPrev os)) \<and> distinct (map ob_hashBlock (mapOrphanBlocksByPrev os)) \<and>
     (\<forall>h ob. mapOrphanBlocks os h = Some ob \<longleftrightarrow> ob \<in> set (mapOrphanBlocksByPrev os) \<and> ob_hashBlock ob = h) \<and>
     (\<forall>ob \<in> set (mapOrphanBlocksByPrev os). orphan_ok E ob) \<and>
     setStakeSeenOrphan os \<subseteq> ob_stake ` set (mapOrphanBlocksByPrev os)"

lemma multimap_insert_set [simp]: "set (multimap_insert ob m) = insert ob (set m)"
proof -
  have "set m = set (takeWhile (\<lambda>x. ob_hashPrev x \<le> ob_hashPrev ob) m @ dropWhile (\<lambda>x. ob_hashPrev x \<le> ob_hashPrev ob) m)"
    by simp
  then show ?thesis by (simp add: multimap_insert_def del: takeWhile_dropWhile_id)
qed

lemma multimap_insert_length [simp]: "length (multimap_insert ob m) = Suc (length m)"
proof -
  let ?f = "\<lambda>x. ob_hashPrev x \<le> ob_hashPrev ob"
  have "length m = length (takeWhile ?f m) + length (dropWhile ?f m)" by (metis length_append takeWhile_dropWhile_id)
  then show ?thesis by (simp add: multimap_insert_def)
qed

lemma multimap_insert_distinct:
  "distinct (map f m) \<Longrightarrow> f ob \<notin> f ` set m \<Longrightarrow> distinct (map f (multimap_insert ob m))"
  by (induction m) (auto simp: multimap_insert_def dest: set_takeWhileD set_dropWhileD)

lemma multimap_insert_sorted:
  "sorted (map ob_hashPrev m) \<Longrightarrow> sorted (map ob_hashPrev (multimap_insert ob m))"
  by (induction m) (auto simp: multimap_insert_def dest: set_takeWhileD set_dropWhileD)

text \<open>Taking one orphan, or those of one parent, out of all three.\<close>

lemma distinct_hash: "distinct (map f m) \<Longrightarrow> x \<in> set m \<Longrightarrow> y \<in> set m \<Longrightarrow> f x = f y \<Longrightarrow> x = y"
  by (auto simp: distinct_map dest: inj_onD)

definition drop_orphans :: "(COrphanBlock \<Rightarrow> bool) \<Rightarrow> orphan_state \<Rightarrow> orphan_state" where
  "drop_orphans Q os =
     (let gone = {ob \<in> set (mapOrphanBlocksByPrev os). Q ob}
      in os\<lparr>mapOrphanBlocks := mapOrphanBlocks os |` (- (ob_hashBlock ` gone)),
            mapOrphanBlocksByPrev := filter (\<lambda>ob. \<not> Q ob) (mapOrphanBlocksByPrev os),
            setStakeSeenOrphan := setStakeSeenOrphan os - ob_stake ` gone\<rparr>)"

lemma drop_orphans_ok:
  assumes "orphans_ok E os"
  shows "orphans_ok E (drop_orphans Q os)"
proof -
  let ?m = "mapOrphanBlocksByPrev os" and ?gone = "{ob \<in> set (mapOrphanBlocksByPrev os). Q ob}"
  have d: "distinct (map ob_hashBlock ?m)" "sorted (map ob_hashPrev ?m)"
      "\<And>h ob. mapOrphanBlocks os h = Some ob \<longleftrightarrow> ob \<in> set ?m \<and> ob_hashBlock ob = h"
    using assms by (simp_all add: orphans_ok_def)
  have "ob_hashBlock ob \<in> ob_hashBlock ` ?gone \<longleftrightarrow> Q ob" if "ob \<in> set ?m" for ob
    using distinct_hash[OF d(1) that] that by auto
  then have "(mapOrphanBlocks os |` (- (ob_hashBlock ` ?gone))) h = Some ob \<longleftrightarrow> (ob \<in> set ?m \<and> \<not> Q ob) \<and> ob_hashBlock ob = h" for h ob
    using d(3)[of h ob] by (auto simp: restrict_map_def)
  moreover have "setStakeSeenOrphan os - ob_stake ` ?gone \<subseteq> ob_stake ` {ob \<in> set ?m. \<not> Q ob}"
    using assms unfolding orphans_ok_def by blast
  ultimately show ?thesis
    using assms d(1,2) by (simp add: orphans_ok_def drop_orphans_def Let_def distinct_map_filter sorted_filter)
qed

lemma PruneOrphanBlocks_drop:
  assumes o: "orphans_ok E os" and p: "PruneOrphanBlocks nMax rand os = Some os'"
  shows "os' = os \<and> int (length (mapOrphanBlocksByPrev os)) \<le> max 0 nMax \<or>
    (\<exists>r \<in> set (mapOrphanBlocksByPrev os). os' = drop_orphans (\<lambda>ob. ob = r) os \<and>
      multimap_find (ob_hashBlock r) (mapOrphanBlocksByPrev os) = None \<and>
      Suc (length (mapOrphanBlocksByPrev os')) = length (mapOrphanBlocksByPrev os))"
proof (cases "int (length (mapOrphanBlocksByPrev os)) \<le> max 0 nMax")
  case True
  then show ?thesis using p by (simp add: PruneOrphanBlocks_def)
next
  case False
  let ?m = "mapOrphanBlocksByPrev os"
  have ne: "?m ! (rand mod length ?m) \<in> set ?m" using False by (intro nth_mem mod_less_divisor) auto
  obtain r where w: "prune_walk ?m (?m ! (rand mod length ?m)) = Some r"
    and os': "os' = os\<lparr>setStakeSeenOrphan := setStakeSeenOrphan os - {ob_stake r},
        mapOrphanBlocksByPrev := remove1 r ?m, mapOrphanBlocks := (mapOrphanBlocks os)(ob_hashBlock r := None)\<rparr>"
    using p False by (auto simp: PruneOrphanBlocks_def Let_def)
  have r: "r \<in> set ?m" "multimap_find (ob_hashBlock r) ?m = None" using prune_walk_leaf[OF w ne] by simp_all
  have "distinct ?m" using o by (simp add: orphans_ok_def distinct_map)
  then have rm: "remove1 r ?m = filter (\<lambda>ob. ob \<noteq> r) ?m" 
    by (simp only: distinct_remove1_removeAll removeAll_filter_not_eq) (intro filter_cong refl, auto)
  have "{ob \<in> set ?m. ob = r} = {r}" using r(1) by auto
  then have d: "os' = drop_orphans (\<lambda>ob. ob = r) os"
    using rm by (simp add: os' drop_orphans_def Let_def restrict_map_def fun_eq_iff)
  have "Suc (length (mapOrphanBlocksByPrev os')) = length ?m"
    using r(1) length_pos_if_in_set[OF r(1)] by (simp add: os' length_remove1)
  then show ?thesis using r d by blast
qed

text \<open>A new orphan.\<close>

lemma add_orphan_ok:
  assumes o: "orphans_ok E os" and n: "mapOrphanBlocks os hash = None" "hash = block_hash E block"
    and b: "block_ok SER_DISK (bare block)"
  shows "orphans_ok E (os\<lparr>mapOrphanBlocks := (mapOrphanBlocks os)(hash \<mapsto> mk_orphan hash block),
      mapOrphanBlocksByPrev := multimap_insert (mk_orphan hash block) (mapOrphanBlocksByPrev os),
      setStakeSeenOrphan := (if block_IsProofOfStake block
        then insert (block_GetProofOfStake block) (setStakeSeenOrphan os) else setStakeSeenOrphan os)\<rparr>)"
proof -
  let ?ob = "mk_orphan hash block" and ?m = "mapOrphanBlocksByPrev os"
  have "block_GetProofOfStake (bare block) = block_GetProofOfStake block" by (simp add: block_GetProofOfStake_def)
  then have ok: "orphan_ok E ?ob"
    using read_written[OF b] n(2) by (auto simp: orphan_ok_def mk_orphan_def)
  have h: "ob_hashBlock ?ob = hash" "ob_stake ?ob = block_GetProofOfStake block" by (simp_all add: mk_orphan_def)
  have "mapOrphanBlocks os (ob_hashBlock x) = Some x" if "x \<in> set ?m" for x using o that by (simp add: orphans_ok_def)
  then have fresh: "hash \<notin> ob_hashBlock ` set ?m" using n(1) by fastforce
  then show ?thesis
    using o ok h multimap_insert_distinct[of ob_hashBlock ?m ?ob] multimap_insert_sorted[of ?m ?ob]
    by (auto simp: orphans_ok_def)
qed

section \<open>The queue\<close>

text \<open>Calls of \<open>AcceptBlock\<close> one after the other, for blocks as they come off the wire.\<close>

inductive accept_steps :: "node_env \<Rightarrow> node_state \<Rightarrow> node_state \<Rightarrow> bool" for N where
  accept_steps_none: "accept_steps N nd nd"
| accept_steps_block: "\<lbrakk>AcceptBlock N block nd = Some (res, nd1); block_ok SER_DISK (bare block); accept_steps N nd1 nd2\<rbrakk>
    \<Longrightarrow> accept_steps N nd nd2"

inductive_cases accept_steps_cases: "accept_steps N nd nd'"

lemma accept_steps_trans: "accept_steps N nd nd1 \<Longrightarrow> accept_steps N nd1 nd2 \<Longrightarrow> accept_steps N nd nd2"
  by (induction rule: accept_steps.induct) (auto intro: accept_steps_block)

lemma bare_tree: "bare (snd (BuildMerkleTree H b)) = bare b"
  by (simp add: BuildMerkleTree_def Let_def)

lemma parsed_bare: "read_block SER_DISK s = Inr (b, t) \<Longrightarrow> block_ok SER_DISK (bare b)"
  by (simp add: read_block_iff block_ok_def)

lemma accept_orphans_result:
  assumes "accept_orphans N obs acc nd os = Some (r, nd', os')" "\<forall>ob \<in> set obs. orphan_ok E ob"
  shows "accept_steps N nd nd' \<and> (\<exists>acc'. r = Inr acc') \<and>
    os' = os\<lparr>mapOrphanBlocks := mapOrphanBlocks os |` (- (ob_hashBlock ` set obs)),
             setStakeSeenOrphan := setStakeSeenOrphan os - ob_stake ` set obs\<rparr>"
  using assms
proof (induction obs arbitrary: acc nd os)
  case Nil
  then show ?case by (auto intro: accept_steps_none simp: restrict_map_def fun_eq_iff)
next
  case (Cons ob rest)
  obtain b where b: "read_block SER_DISK (vchBlock ob) = Inr (b, [])" "block_GetProofOfStake b = ob_stake ob"
    using Cons.prems(2) by (auto simp: orphan_ok_def)
  obtain nd1 and res :: "accept_block_error + unit" where
    a: "AcceptBlock N (snd (BuildMerkleTree (HashBytes (ne_env N)) b)) nd = Some (res, nd1)" and
    rest: "accept_orphans N rest (case res of Inr _ \<Rightarrow> acc @ [ob_hashBlock ob] | Inl _ \<Rightarrow> acc) nd1
      (os\<lparr>mapOrphanBlocks := (mapOrphanBlocks os)(ob_hashBlock ob := None),
          setStakeSeenOrphan := setStakeSeenOrphan os - {ob_stake ob}\<rparr>) = Some (r, nd', os')"
    using accept_orphans_Cons[OF Cons.prems(1)] b by auto
  have "\<forall>ob \<in> set rest. orphan_ok E ob" using Cons.prems(2) by simp
  note ih = Cons.IH[OF rest this]
  have "accept_steps N nd nd'" using accept_steps_block[OF a _ conjunct1[OF ih]] parsed_bare[OF b(1)] by (simp add: bare_tree)
  moreover have "os' = os\<lparr>mapOrphanBlocks := mapOrphanBlocks os |` (- (ob_hashBlock ` set (ob # rest))),
      setStakeSeenOrphan := setStakeSeenOrphan os - ob_stake ` set (ob # rest)\<rparr>"
    by (rule orphan_state.equality) (auto simp: conjunct2[OF conjunct2[OF ih]] restrict_map_def fun_eq_iff)
  ultimately show ?case using ih by blast
qed

lemma accept_queue_result:
  assumes "accept_queue N queue nd os = Some (r, nd', os')" "orphans_ok E os"
  shows "r = Inr () \<and> accept_steps N nd nd' \<and> orphans_ok E os' \<and>
    set (mapOrphanBlocksByPrev os') \<subseteq> {ob \<in> set (mapOrphanBlocksByPrev os). ob_hashPrev ob \<notin> set queue} \<and>
    length (mapOrphanBlocksByPrev os') \<le> length (mapOrphanBlocksByPrev os)"
  using assms
proof (induction N queue nd os rule: accept_queue.induct)
  case (1 N nd os)
  then show ?case by (auto intro: accept_steps_none)
next
  case (2 N hashPrev queue nd os)
  let ?m = "mapOrphanBlocksByPrev os" and ?range = "multimap_range hashPrev (mapOrphanBlocksByPrev os)"
  obtain r1 nd1 os1 where a: "accept_orphans N ?range [] nd os = Some (r1, nd1, os1)"
    using "2.prems"(1) by (auto simp: accept_queue.simps(2) split: option.splits)
  have ok: "\<forall>ob \<in> set ?range. orphan_ok E ob" using "2.prems"(2) by (simp add: orphans_ok_def multimap_range_def)
  obtain acc where acc: "r1 = Inr acc" "accept_steps N nd nd1" and
    os1: "os1 = os\<lparr>mapOrphanBlocks := mapOrphanBlocks os |` (- (ob_hashBlock ` set ?range)),
        setStakeSeenOrphan := setStakeSeenOrphan os - ob_stake ` set ?range\<rparr>"
    using accept_orphans_result[OF a ok] by auto
  let ?os2 = "os1\<lparr>mapOrphanBlocksByPrev := multimap_erase hashPrev (mapOrphanBlocksByPrev os1)\<rparr>"
  have q: "accept_queue N (queue @ acc) nd1 ?os2 = Some (r, nd', os')"
    using "2.prems"(1) a acc(1) by (simp add: accept_queue.simps(2))
  have drop: "?os2 = drop_orphans (\<lambda>ob. ob_hashPrev ob = hashPrev) os"
    by (simp add: os1 drop_orphans_def Let_def multimap_range_def multimap_erase_def)
  have "orphans_ok E ?os2" unfolding drop by (rule drop_orphans_ok[OF "2.prems"(2)])
  from "2.IH"[OF a _ _ _ q this] acc
  have ih: "r = Inr () \<and> accept_steps N nd1 nd' \<and> orphans_ok E os' \<and>
      set (mapOrphanBlocksByPrev os') \<subseteq> {ob \<in> set (mapOrphanBlocksByPrev ?os2). ob_hashPrev ob \<notin> set (queue @ acc)} \<and>
      length (mapOrphanBlocksByPrev os') \<le> length (mapOrphanBlocksByPrev ?os2)"
    by blast
  have m2: "mapOrphanBlocksByPrev ?os2 = filter (\<lambda>ob. ob_hashPrev ob \<noteq> hashPrev) ?m"
    by (simp add: os1 multimap_erase_def)
  have "length (mapOrphanBlocksByPrev os') \<le> length ?m"
    using ih unfolding m2 by (meson length_filter_le order_trans)
  then show ?case using ih accept_steps_trans[OF acc(2)] unfolding m2 by auto
qed

section \<open>Holding a block back\<close>

lemma drop_orphans_simps [simp]:
  "set (mapOrphanBlocksByPrev (drop_orphans Q os)) = {ob \<in> set (mapOrphanBlocksByPrev os). \<not> Q ob}"
  "mapOrphanBlocks os h = None \<Longrightarrow> mapOrphanBlocks (drop_orphans Q os) h = None"
  by (auto simp: drop_orphans_def Let_def restrict_map_def)

lemma PruneOrphanBlocks_ok:
  assumes "orphans_ok E os" "PruneOrphanBlocks nMax rand os = Some os'" "int (length (mapOrphanBlocksByPrev os)) \<le> max 0 nMax + 1"
  shows "orphans_ok E os' \<and> set (mapOrphanBlocksByPrev os') \<subseteq> set (mapOrphanBlocksByPrev os) \<and>
    (mapOrphanBlocks os h = None \<longrightarrow> mapOrphanBlocks os' h = None) \<and> int (length (mapOrphanBlocksByPrev os')) \<le> max 0 nMax"
proof -
  from PruneOrphanBlocks_drop[OF assms(1,2)] show ?thesis
  proof
    assume "\<exists>r\<in>set (mapOrphanBlocksByPrev os). os' = drop_orphans (\<lambda>ob. ob = r) os \<and>
      multimap_find (ob_hashBlock r) (mapOrphanBlocksByPrev os) = None \<and>
      Suc (length (mapOrphanBlocksByPrev os')) = length (mapOrphanBlocksByPrev os)"
    then obtain r where r: "os' = drop_orphans (\<lambda>ob. ob = r) os"
      "Suc (length (mapOrphanBlocksByPrev os')) = length (mapOrphanBlocksByPrev os)" by blast
    have "orphans_ok E os'" using drop_orphans_ok[OF assms(1)] r(1) by simp
    moreover have "int (length (mapOrphanBlocksByPrev os')) \<le> max 0 nMax" using r(2) assms(3) by linarith
    ultimately show ?thesis by (auto simp: r(1))
  qed (use assms(1) in auto)
qed

lemma hold_orphan_ok:
  assumes o: "orphans_ok E os" and n: "mapOrphanBlocks os hash = None" "hash = block_hash E block"
    and b: "block_ok SER_DISK (bare block)" and l: "int (length (mapOrphanBlocksByPrev os)) \<le> max 0 (nMaxOrphanBlocks P) + 1"
    and h: "hold_orphan P hash block os = Some (res, os')"
  shows "orphans_ok E os' \<and> int (length (mapOrphanBlocksByPrev os')) \<le> max 0 (nMaxOrphanBlocks P) + 1 \<and>
    res \<noteq> Inl P_orphan_data"
proof (cases "os' = os")
  case True
  have "res \<noteq> Inl P_orphan_data" using h by (auto simp: hold_orphan_def Let_def split: if_splits bind_splits)
  then show ?thesis using True o l by simp
next
  case False
  then obtain os1 where p: "PruneOrphanBlocks (nMaxOrphanBlocks P) (insecure_rand P) os = Some os1"
    and os': "os' = os1\<lparr>mapOrphanBlocks := (mapOrphanBlocks os1)(hash \<mapsto> mk_orphan hash block),
      mapOrphanBlocksByPrev := multimap_insert (mk_orphan hash block) (mapOrphanBlocksByPrev os1),
      setStakeSeenOrphan := (if block_IsProofOfStake block
        then insert (block_GetProofOfStake block) (setStakeSeenOrphan os1) else setStakeSeenOrphan os1)\<rparr>"
    and res: "res \<noteq> Inl P_orphan_data"
    using h by (auto simp: hold_orphan_def Let_def split: if_splits bind_splits)
  note s = PruneOrphanBlocks_ok[OF o p l, of hash]
  have "orphans_ok E os'" unfolding os' using s n b by (intro add_orphan_ok) simp_all
  then show ?thesis using s res by (simp add: os')
qed

text \<open>Nothing on the way runs in circles.\<close>

lemma hold_orphan_returns:
  assumes o: "orphans_ok E os" and r: "ranked rank (insert (mk_orphan hash block) (set (mapOrphanBlocksByPrev os)))"
  shows "hold_orphan P hash block os \<noteq> None"
proof (cases "\<not> pfrom P \<or> (block_IsProofOfStake block \<and> block_GetProofOfStake block \<in> setStakeSeenOrphan os \<and>
    multimap_find hash (mapOrphanBlocksByPrev os) = None)")
  case True
  then show ?thesis by (auto simp: hold_orphan_def)
next
  case False
  let ?ob = "mk_orphan hash block"
  have "PruneOrphanBlocks (nMaxOrphanBlocks P) (insecure_rand P) os \<noteq> None"
  proof (cases "int (length (mapOrphanBlocksByPrev os)) \<le> max 0 (nMaxOrphanBlocks P)")
    case more: False
    have "mapOrphanBlocksByPrev os ! (insecure_rand P mod length (mapOrphanBlocksByPrev os)) \<in> set (mapOrphanBlocksByPrev os)"
      using more by (intro nth_mem mod_less_divisor) auto
    then show ?thesis using prune_walk_ends[of rank "mapOrphanBlocksByPrev os"] r more
      by (auto simp: PruneOrphanBlocks_def Let_def ranked_def)
  qed (simp add: PruneOrphanBlocks_def)
  then obtain os1 where p: "PruneOrphanBlocks (nMaxOrphanBlocks P) (insecure_rand P) os = Some os1" by auto
  have os1: "orphans_ok E os1" "set (mapOrphanBlocksByPrev os1) \<subseteq> set (mapOrphanBlocksByPrev os)"
    using PruneOrphanBlocks_drop[OF o p] o by (auto intro: drop_orphans_ok)
  let ?m = "(mapOrphanBlocks os1)(hash \<mapsto> ?ob)"
  have keys: "ob_hashBlock ob = h" if "?m h = Some ob" for h ob
    using that os1(1) by (auto simp: orphans_ok_def mk_orphan_def split: if_splits)
  have "ran ?m \<subseteq> insert ?ob (set (mapOrphanBlocksByPrev os1))"
    using os1(1) by (auto simp: ran_def orphans_ok_def)
  then have "ranked rank (insert ?ob (ran ?m))" using r os1(2) by (auto simp: ranked_def)
  note w = orphan_walks_end[OF this keys]
  obtain root wanted where "orphan_root ?m ?ob = Some root" "WantedByOrphan ?m ?ob = Some wanted" using w by blast
  then show ?thesis using False p by (auto simp: hold_orphan_def Let_def GetOrphanRoot_def)
qed

end
