(* ===== verification/Node.thy ===== *)
theory Node
  imports NodeProcess
begin

text \<open>
  Properties of a node at work: what holds of its tree of blocks and best chain in every state, which
  blocks it refuses for their depth, and what becomes of blocks that come before their parents.
\<close>

section \<open>Forks\<close>

lemma sync_checkpoint_height:
  assumes "heights_ok p" "p \<noteq> []" "index_height p \<le> h"
  shows "index_height (sync_checkpoint h p) = max 0 (min (index_height p) (h - nCheckpointSpan))"
  using assms
proof (induction h p rule: sync_checkpoint.induct)
  case (1 h p q rest)
  then show ?case by (cases "bp_nHeight p + nCheckpointSpan > h") (auto simp: nCheckpointSpan_def)
qed (auto simp: nCheckpointSpan_def)

lemma AcceptBlock_checked:
  assumes "AcceptBlock N block nd = Some (Inr (), nd')"
  shows "\<exists>q proof_hash. mapBlockIndex nd (hashPrevBlock block) = Some q \<and> accept_checks N nd q block = Inr proof_hash"
  using assms by (auto simp: AcceptBlock_def split: if_splits option.splits sum.splits)

text \<open>
  A block that is accepted lies at most 5000 blocks below the best one: whatever its trust, a chain
  that forks off more than 5000 blocks back is refused.
\<close>

theorem deep_fork_refused:
  assumes "heights_ok (pindexBest (nd_chain nd))" "pindexBest (nd_chain nd) \<noteq> []"
    and "AcceptBlock N block nd = Some (Inr (), nd')"
  shows "\<exists>q. mapBlockIndex nd (hashPrevBlock block) = Some q \<and>
    index_height q + 1 > max 0 (index_height (pindexBest (nd_chain nd)) - 5000)"
proof -
  obtain q pr where q: "mapBlockIndex nd (hashPrevBlock block) = Some q" "accept_checks N nd q block = Inr pr"
    using AcceptBlock_checked[OF assms(3)] by blast
  have "CheckSync (pindexBest (nd_chain nd)) (index_height q + 1)"
    using q(2) by (auto simp: accept_checks_def Let_def rbind_Inr_iff split: if_splits)
  moreover have "index_height (AutoSelectSyncCheckpoint (pindexBest (nd_chain nd))) =
      max 0 (index_height (pindexBest (nd_chain nd)) - 5000)"
    using sync_checkpoint_height[OF assms(1,2) order_refl] by (simp add: AutoSelectSyncCheckpoint_def nCheckpointSpan_def)
  ultimately show ?thesis using q(1) by (simp only: CheckSync_def not_le) blast
qed

section \<open>Orphans\<close>

text \<open> C22.
  The blocks held back stay in order whatever comes in: the two maps hold the same blocks under their
  hashes, each is the data of its block, there are at most one more than the limit, and once a block
  is accepted none waits for it.  The tree of blocks and the chain change by calls of \<open>AcceptBlock\<close> only.
\<close>

theorem orphan_blocks_consistent:
  assumes "orphans_ok (ne_env (pe_node P)) os" "int (length (mapOrphanBlocksByPrev os)) \<le> max 0 (nMaxOrphanBlocks P) + 1"
    and "block_ok SER_DISK (bare block)" "ProcessBlock P block nd os = Some (res, nd', os')"
  shows "orphans_ok (ne_env (pe_node P)) os' \<and> int (length (mapOrphanBlocksByPrev os')) \<le> max 0 (nMaxOrphanBlocks P) + 1 \<and>
    accept_steps (pe_node P) nd nd' \<and> res \<noteq> Inl P_orphan_data \<and>
    (if isl res \<or> mapBlockIndex nd (hashPrevBlock block) = None then True
     else multimap_find (block_hash (ne_env (pe_node P)) block) (mapOrphanBlocksByPrev os') = None)"
proof -
  let ?N = "pe_node P" and ?hash = "block_hash (ne_env (pe_node P)) block"
  consider e where "res = Inl e" "e \<noteq> P_orphan_data" "nd' = nd" "os' = os"
    | "mapBlockIndex nd (hashPrevBlock block) = None" "mapOrphanBlocks os ?hash = None" "nd' = nd"
      "hold_orphan P ?hash block os = Some (res, os')"
    | e where "AcceptBlock ?N block nd = Some (Inl e, nd')" "os' = os" "res = Inl (P_accept e)"
    | nd1 r where "AcceptBlock ?N block nd = Some (Inr (), nd1)" "accept_queue ?N [?hash] nd1 os = Some (r, nd', os')"
      "res = (case r of Inl e \<Rightarrow> Inl e | Inr _ \<Rightarrow> Inr [])"
  proof (cases "process_checks P ?hash block nd os")
    case (Inl e)
    then have "res = Inl e" "nd' = nd" "os' = os" using assms(4) by (simp_all add: ProcessBlock_def Let_def)
    moreover have "e \<noteq> P_orphan_data" using Inl by (auto simp: process_checks_def Let_def lift_error_def split: if_splits sum.splits)
    ultimately show ?thesis using that(1) by blast
  next
    case (Inr u)
    then have checked: "process_checks P ?hash block nd os = Inr ()" by simp
    note eq = ProcessBlock_checked[OF checked]
    show ?thesis
    proof (cases "mapBlockIndex nd (hashPrevBlock block)")
      case None
      have "mapOrphanBlocks os ?hash = None" using Inr by (auto simp: process_checks_def Let_def split: if_splits)
      moreover have "nd' = nd" "hold_orphan P ?hash block os = Some (res, os')"
        using trans[OF eq(1)[OF None, symmetric] assms(4)] by auto
      ultimately show ?thesis using that(2) None by blast
    next
      case (Some q)
      then have ne: "mapBlockIndex nd (hashPrevBlock block) \<noteq> None" by simp
      then obtain res1 nd1 where a: "AcceptBlock ?N block nd = Some (res1, nd1)"
        using eq(2)[OF ne] assms(4) by (auto split: bind_splits)
      show ?thesis
      proof (cases res1)
        case (Inl e)
        then show ?thesis using that(3)[of e] a eq(2)[OF ne] assms(4) by simp
      next
        case (Inr v)
        then have "map_option (\<lambda>(res, nd, os). (case res of Inl e \<Rightarrow> Inl e | Inr _ \<Rightarrow> Inr [], nd, os))
            (accept_queue ?N [?hash] nd1 os) = Some (res, nd', os')"
          using a eq(2)[OF ne] assms(4) by simp
        then obtain r where "accept_queue ?N [?hash] nd1 os = Some (r, nd', os')"
          "res = (case r of Inl e \<Rightarrow> Inl e | Inr _ \<Rightarrow> Inr [])" by auto
        then show ?thesis using that(4)[of nd1 r] a Inr by simp
      qed
    qed
  qed
  then show ?thesis
  proof cases
    case 1
    then show ?thesis using assms(1,2) by (simp add: accept_steps_none)
  next
    case 2
    then show ?thesis using hold_orphan_ok[OF assms(1) 2(2) refl assms(3,2) 2(4)] by (simp add: accept_steps_none)
  next
    case 3
    then show ?thesis using assms(1,2) accept_steps_block[OF 3(1) assms(3) accept_steps_none] by simp
  next
    case 4
    note q = accept_queue_result[OF 4(2) assms(1)]
    then have "\<forall>ob \<in> set (mapOrphanBlocksByPrev os'). ob_hashPrev ob \<noteq> ?hash" by auto
    then show ?thesis using 4(3) q assms(2) accept_steps_block[OF 4(1) assms(3)] by (auto simp: multimap_find_None)
  qed
qed

text \<open>
  Holding back a block always ends, with the search for the orphan to drop, the root to ask for and
  the block wanted, if no block of the orphans comes before itself.
\<close>

theorem orphan_is_held:
  assumes "orphans_ok (ne_env (pe_node P)) os" "mapBlockIndex nd (hashPrevBlock block) = None"
    and "ranked rank (insert (mk_orphan (block_hash (ne_env (pe_node P)) block) block) (set (mapOrphanBlocksByPrev os)))"
  shows "\<exists>res os'. ProcessBlock P block nd os = Some (res, nd, os')"
proof -
  obtain r where "hold_orphan P (block_hash (ne_env (pe_node P)) block) block os = Some r"
    using hold_orphan_returns[OF assms(1,3), of P] by blast
  then have h: "map_option (\<lambda>(res, os). (res, nd, os)) (hold_orphan P (block_hash (ne_env (pe_node P)) block) block os) =
      Some (fst r, nd, snd r)"
    by (cases r) simp
  show ?thesis
  proof (cases "process_checks P (block_hash (ne_env (pe_node P)) block) block nd os")
    case (Inl e)
    then show ?thesis by (simp add: ProcessBlock_def Let_def)
  next
    case (Inr u)
    then have "process_checks P (block_hash (ne_env (pe_node P)) block) block nd os = Inr ()" by simp
    from ProcessBlock_checked(1)[OF this assms(2)] h show ?thesis by metis
  qed
qed

section \<open>Every state\<close>

text \<open> C1.
  In every state of a node, from the first block on, whichever blocks come in order or out of order,
  fork, fail or overtake: the blocks known form a tree over the first block, each under its hash with
  its height and the sum of the trust below it, and the best block is one of them.  If so far no two
  transactions of the best chain had one hash, and the database was at the best block after each step
  (\<open>undisturbed\<close>; it is not when a postponed block fails to connect, C35), then the index of spent outputs
  is that of the best chain, which is valid from block to block, no transaction is in it twice, and its
  transactions spend no output twice.
\<close>

theorem node_invariant:
  assumes "node_run N (nd # nds)"
  shows "mapBlockIndex nd (hashBestChain (nd_chain nd)) = Some (pindexBest (nd_chain nd)) \<and>
    nBestChainTrust nd = chain_trust (ne_env N) (pindexBest (nd_chain nd)) \<and>
    (\<forall>h p. mapBlockIndex nd h = Some p \<longrightarrow> index_hash p = h \<and> in_map (mapBlockIndex nd) p \<and> heights_ok p \<and>
       last p = last (pindexBest (nd_chain nd)) \<and> bi_nChainTrust (hd p) = chain_trust (ne_env N) p) \<and>
    (undisturbed N (nd # nds) \<longrightarrow>
       st_txdb (nd_chain nd) = index_chain (chain_at N (nd_disk nd)) (pindexBest (nd_chain nd)) \<and>
       chain_valid (chain_at N (nd_disk nd)) (pindexBest (nd_chain nd)) \<and>
       distinct (chain_txs (chain_at N (nd_disk nd)) (pindexBest (nd_chain nd))))"
proof -
  have t: "tree_ok N nd" and c: "undisturbed N (nd # nds) \<Longrightarrow> chain_ok N nd" using node_run_ok[OF assms] by simp_all
  note best = tree_best[OF t] tree_okD(6)[OF t tree_best(1)[OF t]]
  have chain: "st_txdb (nd_chain nd) = index_chain (chain_at N (nd_disk nd)) (pindexBest (nd_chain nd)) \<and>
      chain_valid (chain_at N (nd_disk nd)) (pindexBest (nd_chain nd)) \<and>
      distinct (chain_txs (chain_at N (nd_disk nd)) (pindexBest (nd_chain nd)))" if u: "undisturbed N (nd # nds)"
    using c[OF u] chain_ok_distinct(1)[OF node_run_env[OF assms] t c[OF u]] u
    by (simp add: chain_ok_def consistent_def undisturbed_def)
  have "index_hash p = h \<and> in_map (mapBlockIndex nd) p \<and> heights_ok p \<and>
      last p = last (pindexBest (nd_chain nd)) \<and> bi_nChainTrust (hd p) = chain_trust (ne_env N) p"
    if "mapBlockIndex nd h = Some p" for h p
    using tree_okD(1,3-6)[OF t that] by (simp add: chain_shape_def)
  then show ?thesis using best(1) best(2)[unfolded best(4)] chain by blast
qed

text \<open>The database leaves the best block only at a block whose parent had more trust than the best block.\<close>

lemma undisturbed_step:
  assumes "node_run N0 (nd # nds)" "undisturbed N0 (nd # nds)" "same_node N0 N" "block_ok SER_DISK (bare block)"
    and "AcceptBlock N block nd = Some (res, nd')" "no_collision N0 nd'"
    and "\<And>q. mapBlockIndex nd (hashPrevBlock block) = Some q \<Longrightarrow> \<not> bi_nChainTrust (hd q) > nBestChainTrust nd"
  shows "undisturbed N0 (nd' # nd # nds)"
proof -
  have t: "tree_ok N nd" and c: "chain_ok N nd" and n: "no_collision N nd"
    using node_run_ok[OF assms(1)] assms(2) same_node_ok[OF assms(3)] by (simp_all add: undisturbed_def)
  have e: "env_good N" using assms(3) by (simp add: same_node_def)
  have "db_follows nd'"
    using AcceptBlock_ok(3)[OF e t assms(4,5) c n] assms(7) by (auto split: option.split)
  then show ?thesis using assms(2,6) by (simp add: undisturbed_def)
qed

section \<open>A small node\<close>

text \<open>Block hashes are the nonces, other hashes the lengths.  Block 2 follows the first block 1.\<close>

definition node_hash :: "bytes \<Rightarrow> uint256" where
  "node_hash b = (if length b = 80 then ucast (b ! 76) else word_of_nat (length b))"

definition node_E :: block_env where "node_E = demo_block_env\<lparr>HashBytes := node_hash\<rparr>"

definition node_N :: node_env where
  "node_N = \<lparr>ne_chain = demo_C\<lparr>env_at := (\<lambda>p. node_E), HashFn := node_hash,
       BlockHash := block_GetHash node_hash (\<lambda>_. 0), hashGenesis := 1\<rparr>,
     ne_env = node_E, ne_TestNet = True, LastPOWBlock = 100, POSStartBlock = 100, DiskSpace = (\<lambda>_. True),
     AppendBlockFile = (\<lambda>D. if D (1, 0) = None then Some (1, 0) else if D (1, 1) = None then Some (1, 1) else None)\<rparr>"

definition node_1 :: CBlock where "node_1 = demo_block 1 0 [1, 2]"
definition node_2 :: CBlock where "node_2 = demo_block 2 1 [0x51, 0]"

lemma node_E_simps [simp]:
  "HashBytes node_E = node_hash" "Hash9 node_E = (\<lambda>_. 0)" "bn_bn2mpi node_E = doc_bn2mpi" "bn_mpi2bn node_E = doc_mpi2bn"
  "ProofOfWorkLimit node_E = bnProofOfWorkLimit" "AdjustedTime node_E = 1000" "InstantXFiltering node_E = False"
  "InitialBlockDownload node_E = True"
  by (simp_all add: node_E_def demo_block_env_def demo_env_def demo_check_def check_env.defs connect_env.defs block_env.defs)

lemma node_env_good: "env_good node_N"
  by (auto simp: env_good_def node_N_def demo_C_def same_rules_def doc_mpi split: if_splits)

lemma node_same: "same_node node_N node_N"
  using node_env_good by (simp add: same_node_def same_rules_def)

lemma word_bytes_first: "0 < k \<Longrightarrow> word_bytes k w ! 0 = ucast w"
  by (cases k) (simp_all add: word_bytes_def)

lemma demo_block_hash: "block_GetHash node_hash H9 (demo_block n prv sig) = ucast (ucast n :: byte)"
  by (simp add: block_GetHash_def node_hash_def length_block_header)
    (simp add: block_header_def demo_block_def block_null_def nth_append write_word_def word_bytes_first)

lemma node_hashes: "block_hash node_E node_1 = 1" "block_hash node_E node_2 = 2"
  by (simp_all add: node_1_def node_2_def demo_block_hash)

lemma demo_target: "bignum_SetCompact doc_mpi2bn demo_bits \<ge> 2 ^ 239 \<and> bignum_SetCompact doc_mpi2bn demo_bits < 2 ^ 240"
proof -
  have l: "bnProofOfWorkLimit = 2 ^ 240 - 1" using target_limit_val[of False] by (simp add: target_limit_def)
  have len: "length (scriptnum_serialize bnProofOfWorkLimit) \<le> 31"
    using serialize_length[of bnProofOfWorkLimit 30] by (simp add: l)
  let ?k = "compact_drop bnProofOfWorkLimit"
  define R where "R = bnProofOfWorkLimit mod 256 ^ ?k"
  have "(256::int) ^ ?k \<le> 256 ^ 28" using len by (intro power_increasing) (simp_all add: compact_drop_def)
  moreover have "R < 256 ^ ?k" "0 \<le> R" by (simp_all add: R_def)
  ultimately have R: "R < 256 ^ 28" "0 \<le> R" by linarith+
  have "compact_trunc bnProofOfWorkLimit = bnProofOfWorkLimit - R"
    by (simp add: compact_trunc_def minus_mod_eq_div_mult R_def)
  moreover have "bignum_SetCompact doc_mpi2bn demo_bits = compact_trunc bnProofOfWorkLimit"
    unfolding demo_bits_def using len by (intro SetCompact_GetCompact[OF doc_mpi]) (simp_all add: l)
  ultimately have "bignum_SetCompact doc_mpi2bn demo_bits = 2 ^ 240 - 1 - R" by (simp only: l)
  then show ?thesis using R by simp
qed

lemma demo_trust:
  "0 < uint (GetBlockTrust doc_bn2mpi doc_mpi2bn demo_bits) \<and> uint (GetBlockTrust doc_bn2mpi doc_mpi2bn demo_bits) \<le> 2 ^ 17"
proof -
  let ?t = "bignum_SetCompact doc_mpi2bn demo_bits"
  have "(2::int) ^ 256 div (?t + 1) \<le> 2 ^ 256 div 2 ^ 239" using demo_target by (intro zdiv_mono2) simp_all
  moreover have "(2::int) ^ 256 div 2 ^ 240 \<le> 2 ^ 256 div (?t + 1)" using demo_target by (intro zdiv_mono2) simp_all
  ultimately show ?thesis using GetBlockTrust_eq[OF doc_mpi, of demo_bits] demo_target by simp
qed

section \<open>The first block\<close>

lemma demo_bits_of [simp]: "nBits (demo_block n prv sig) = demo_bits" "hashPrevBlock (demo_block n prv sig) = prv"
  "vtx (demo_block n prv sig) = [demo_cb sig]" "blk_nTime (demo_block n prv sig) = 0" "vchBlockSig (demo_block n prv sig) = []"
  "blk_nVersion (demo_block n prv sig) = 7"
  "block_IsProofOfStake (demo_block n prv sig) = False" "block_IsProofOfWork (demo_block n prv sig) = True"
  by (simp_all add: demo_block_def block_null_def block_IsProofOfStake_def block_IsProofOfWork_def)

lemma node_N_simps [simp]:
  "ne_env node_N = node_E" "hashGenesis (ne_chain node_N) = 1" "BlockHash (ne_chain node_N) b = block_hash node_E b"
  "env_at (ne_chain node_N) p = node_E" "HashFn (ne_chain node_N) = node_hash"
  "AppendBlockFile node_N D = (if D (1, 0) = None then Some (1, 0) else if D (1, 1) = None then Some (1, 1) else None)"
  "DiskSpace node_N n" "ne_TestNet node_N" "LastPOWBlock node_N = 100"
  by (simp_all add: node_N_def)

lemma node_1_loaded:
  "\<exists>nd x. LoadGenesis node_N node_1 empty_node = Some (True, nd) \<and> mapBlockIndex nd = [1 \<mapsto> [x]] \<and>
     pindexBest (nd_chain nd) = [x] \<and> hashBestChain (nd_chain nd) = 1 \<and> bi_hashBlock x = 1 \<and> bp_nHeight x = 0 \<and>
     bi_nTime x = 0 \<and> bi_nChainTrust x = GetBlockTrust doc_bn2mpi doc_mpi2bn demo_bits \<and>
     nBestChainTrust nd = bi_nChainTrust x \<and> nd_disk nd = [(1, 0) \<mapsto> write_block SER_DISK node_1] \<and>
     mapTx (st_mempool (nd_chain nd)) = Map.empty \<and> mapNextTx (st_mempool (nd_chain nd)) = Map.empty \<and>
     pindexGenesisBlock (nd_chain nd) = [x] \<and> st_txdb (nd_chain nd) = Map.empty"
proof -
  have "0 < GetBlockTrust doc_bn2mpi doc_mpi2bn demo_bits" using demo_trust by (simp add: word_less_def)
  moreover obtain p where p: "new_index node_E Map.empty 1 0 1 node_1 = Some p"
    using new_index_first[of Map.empty node_1 node_E 1 0 1] by auto
  moreover obtain x where "p = [x]" "bi_hashBlock x = 1" "bp_nHeight x = 0" "bi_nTime x = 0"
      "bi_nChainTrust x = GetBlockTrust doc_bn2mpi doc_mpi2bn demo_bits"
    using new_index_facts[OF p, of "[]"] node_hashes(1) by (auto simp: node_1_def)
  ultimately show ?thesis
    using node_hashes(1)
    by (simp add: LoadGenesis_def WriteToDisk_def AddToBlockIndex_def Let_def empty_node_def SetBestChain_def new_best_def
        AddTransactionsUpdated_def)
qed

section \<open>The second block\<close>

lemma node_cb_length: "length (write_tx (demo_cb [0x51, 0])) = 66"
  by (simp add: write_tx_def demo_cb_def p2sh_prev_def mk_txin_def write_vec_def
      write_txin_def write_txout_def write_outpoint_def write_bytevec_def write_word_def length_WriteCompactSize
      GetSizeOfCompactSize_def)

lemma node_cb_valid: "tx_valid (demo_cb [0x51, 0])"
  using node_cb_length unfolding tx_valid_def
  by (simp add: MAX_BLOCK_SIZE_def) (simp add: demo_cb_def p2sh_prev_def mk_txin_def total_out_def MAX_MONEY_def COIN_def)

lemma node_cb_sigops: "GetLegacySigOpCount (demo_cb [0x51, 0]) = 0"
  by code_simp

lemma node_block_checks:
  assumes "HashBytes E = node_hash" "Hash9 E = (\<lambda>_. 0)" "bn_bn2mpi E = doc_bn2mpi" "bn_mpi2bn E = doc_mpi2bn"
    "ProofOfWorkLimit E = bnProofOfWorkLimit" "AdjustedTime E = 1000" "\<not> InstantXFiltering E" "InitialBlockDownload E"
  shows "CheckBlock E True True sig (demo_block n prv [0x51, 0]) = Inr ()"
proof -
  let ?b = "demo_block n prv [0x51, 0]"
  have "positions_ok (vtx ?b)" by (simp add: positions_ok_def)
  moreover have "length (write_block SER_NETWORK ?b) \<le> MAX_BLOCK_SIZE"
    using node_cb_length
    by (simp add: write_block_def length_block_header write_vec_def write_bytevec_def
        length_WriteCompactSize GetSizeOfCompactSize_def MAX_BLOCK_SIZE_def)
  moreover have "list_all (\<lambda>tx. tx_valid tx \<and> tx_nTime tx \<le> blk_nTime ?b) (vtx ?b)"
    using node_cb_valid by simp (simp add: demo_cb_def p2sh_prev_def)
  moreover have "payees_paid E ?b" using assms(8) by (simp add: payees_paid_def)
  moreover have "CheckProofOfWork doc_bn2mpi doc_mpi2bn bnProofOfWorkLimit (block_GetPoWHash (\<lambda>_. 0) ?b) (nBits ?b)"
    using demo_work by (simp add: block_GetPoWHash_def)
  moreover have "merkle_root (merkle_node node_hash) (map (tx_GetHash node_hash) (vtx ?b)) = [hashMerkleRoot ?b]"
    using node_cb_length by (simp add: merkle_root.simps tx_GetHash_def node_hash_def) (simp add: demo_block_def)
  ultimately show ?thesis
    unfolding CheckBlock_iff block_valid_def
    by (simp add: assms DRIFT_def node_cb_sigops CheckBlockSignature_def)
qed

lemma node_2_connects:
  assumes "index_height p = 1" "tl p \<noteq> []"
  shows "\<exists>money db. connect_at (chain_at node_N D) pool p node_2 supply V = (money, Some db)"
proof -
  let ?E = "node_E\<lparr>tx_pool := pool\<rparr>"
  have "\<exists>s. connect_txs ?E V p False f (vtx node_2) (init_state q) = Inr s \<and> cs_nFees s = 0" for f q
    by (simp add: node_2_def connect_tx_def Let_def rbind_def init_state_def lift_error_def node_cb_sigops MAX_BLOCK_SIGOPS_def)
  then obtain s where s: "connect_txs ?E V p False SCRIPT_VERIFY_NOCACHE (vtx node_2)
      (init_state (first_tx_pos p False node_2)) = Inr s" "cs_nFees s = 0" by blast
  moreover have "check_rewards ?E V p node_2 s = Inr ()"
    using assms s(2) by (simp add: check_rewards_def node_2_def Let_def
        rbind_def lift_error_def GetProofOfWorkReward_def STAKE_MIN_CONFIRMATIONS_def PREMINE_AMOUNT_def COIN_def
        signed_divide_int_def)
  moreover have "CheckBlock ?E True True False node_2 = Inr ()" unfolding node_2_def by (rule node_block_checks) simp_all
  ultimately show ?thesis
    by (simp add: connect_at_def ConnectBlock_def rbind_def lift_error_def Let_def)
qed

lemma mp_remove_empty:
  assumes "mapTx P = Map.empty"
  shows "ofold (\<lambda>tx P. mp_remove H tx f P) txs P = Some P"
proof -
  have "mp_remove H tx f P = Some P" for tx
    by (subst mp_remove.simps) (simp add: Let_def assms)
  then show ?thesis by (induction txs) simp_all
qed

lemma demo_push_height: "push_int64 doc_bn2mpi 1 [] = [0x51]"
  by (simp add: push_int64_def)

lemma node_block_ok: "block_ok SER_DISK (bare (demo_block n prv [0x51, 0]))"
  by (simp add: block_ok_def disk_flag) (simp add: demo_block_def block_null_def demo_cb_def p2sh_prev_def mk_txin_def
      tx_ok_def vec_ok_def bytevec_ok_def txin_ok_def txout_ok_def)

lemma node_2_block_ok: "block_ok SER_DISK (bare node_2)"
  unfolding node_2_def by (rule node_block_ok)

text \<open>A state with the first block, and one with the second.\<close>

lemma node_2_accepted:
  "\<exists>nd nd' x y. LoadGenesis node_N node_1 empty_node = Some (True, nd) \<and>
     AcceptBlock node_N node_2 nd = Some (Inr (), nd') \<and> mapBlockIndex nd = [1 \<mapsto> [x]] \<and> nBestChainTrust nd = bi_nChainTrust x \<and>
     pindexBest (nd_chain nd) = [x] \<and> pindexBest (nd_chain nd') = [y, x] \<and> bi_hashBlock y = 2 \<and>
     nd_disk nd' (bp_nFile y, bp_nBlockPos y) = Some (write_block SER_DISK node_2)"
proof -
  obtain nd x where nd: "LoadGenesis node_N node_1 empty_node = Some (True, nd)" "mapBlockIndex nd = [1 \<mapsto> [x]]"
      "pindexBest (nd_chain nd) = [x]" "hashBestChain (nd_chain nd) = 1"
    and x: "bi_hashBlock x = 1" "bp_nHeight x = 0" "bi_nTime x = 0" "bi_nChainTrust x = GetBlockTrust doc_bn2mpi doc_mpi2bn demo_bits"
    and nd2: "nBestChainTrust nd = bi_nChainTrust x" "nd_disk nd = [(1, 0) \<mapsto> write_block SER_DISK node_1]"
      "mapTx (st_mempool (nd_chain nd)) = Map.empty" "pindexGenesisBlock (nd_chain nd) = [x]"
    using node_1_loaded by blast
  have prev: "hashPrevBlock node_2 = 1" by (simp add: node_2_def)
  have ok: "tree_ok node_N nd"
    using LoadGenesis_ok[OF node_env_good _ _ nd(1)] node_hashes(1) demo_trust by (simp add: node_1_def word_less_def)
  obtain p where p: "new_index node_E (mapBlockIndex nd) 1 1 0 node_2 = Some p"
    using new_index_exists[OF ok, of node_2 "[x]" 1 1 0] nd(2) prev by auto
  obtain y where y: "p = [y, x]" "bi_hashBlock y = 2" "bp_nHeight y = 1" "bp_nFile y = 1" "bp_nBlockPos y = 1"
      "bi_nChainTrust y = bi_nChainTrust x + GetBlockTrust doc_bn2mpi doc_mpi2bn demo_bits"
    using new_index_facts[OF p, of "[x]"] nd(2) prev x(2) node_hashes(2) by (auto simp: node_2_def)
  let ?t = "GetBlockTrust doc_bn2mpi doc_mpi2bn demo_bits"
  have "t < t + t" if "0 < uint t" "uint t \<le> 2 ^ 17" for t :: uint256
    unfolding word_less_def uint_plus_if' using that by simp
  then have more: "bi_nChainTrust y > bi_nChainTrust x" unfolding y(6) x(4) using demo_trust by blast
  have checks: "accept_checks node_N nd [x] node_2 = Inr 0"
    using x nd(3) demo_push_height
    by (simp add: accept_checks_def Let_def rbind_def node_2_def GetNextTargetRequired_def demo_bits_def
        block_time_def GetPastTimeLimit_def bi_GetBlockTime_def FutureDrift_def DRIFT_def CheckHardened_def mapCheckpoints_def
        CheckSync_def AutoSelectSyncCheckpoint_def block_GetPoWHash_def mk_txin_def IsFinalTx_def)
      (simp add: demo_cb_def p2sh_prev_def IsFinalTx_def)
  let ?D = "[(1, 0) \<mapsto> write_block SER_DISK node_1, (1, 1) \<mapsto> write_block SER_DISK node_2]"
  obtain money db where c: "connect_at (chain_at node_N ?D) (st_mempool (nd_chain nd)) [y, x] node_2
      (st_nMoneySupply (nd_chain nd)) (st_txdb (nd_chain nd)) = (money, Some db)"
    using node_2_connects[of "[y, x]" ?D "st_mempool (nd_chain nd)" "st_nMoneySupply (nd_chain nd)" "st_txdb (nd_chain nd)"] y(3)
    by auto
  have best: "\<exists>st. SetBestChain (chain_at node_N ?D) [y, x] node_2 (nd_chain nd) = Some (True, st) \<and> pindexBest st = [y, x]"
    using c prev nd(4) nd2(4) mp_remove_empty[OF nd2(3)]
    by (simp add: SetBestChain_def SetBestChainInner_def Let_def new_best_def)
  then obtain st where st: "SetBestChain (chain_at node_N ?D) [y, x] node_2 (nd_chain nd) = Some (True, st)" "pindexBest st = [y, x]"
    by blast
  have v: "blk_nVersion node_2 = 7" by (simp add: node_2_def)
  obtain nd' where "AcceptBlock node_N node_2 nd = Some (Inr (), nd')" "pindexBest (nd_chain nd') = [y, x]"
      "nd_disk nd' (1, 1) = Some (write_block SER_DISK node_2)"
    using st nd(2) nd2(1,2) p y(1) more checks prev node_hashes(2)
    by (simp add: AcceptBlock_def AddToBlockIndex_def WriteToDisk_def Let_def v)
  then show ?thesis using nd nd2(1) y(1,2,4,5) by (intro exI[of _ nd] exI[of _ nd'] exI[of _ x] exI[of _ y]) simp
qed


lemma node_1_reachable:
  assumes "LoadGenesis node_N node_1 empty_node = Some (True, nd)"
  shows "node_run node_N [nd]"
  by (rule node_start[OF node_same _ _ assms])
    (use node_hashes(1) demo_trust in \<open>simp_all add: node_1_def word_less_def\<close>)

lemma one_block_no_collision: "tl (pindexBest (nd_chain nd)) = [] \<Longrightarrow> no_collision N nd"
  by (cases "pindexBest (nd_chain nd)") (simp_all add: no_collision_def)

lemma node_2_run:
  "\<exists>nd nds. node_run node_N (nd # nds) \<and> undisturbed node_N (nd # nds) \<and> length (pindexBest (nd_chain nd)) = 2"
proof -
  obtain nd nd' x y where n: "LoadGenesis node_N node_1 empty_node = Some (True, nd)"
      "AcceptBlock node_N node_2 nd = Some (Inr (), nd')" "mapBlockIndex nd = [1 \<mapsto> [x]]" "nBestChainTrust nd = bi_nChainTrust x"
      "pindexBest (nd_chain nd) = [x]" "pindexBest (nd_chain nd') = [y, x]"
      "nd_disk nd' (bp_nFile y, bp_nBlockPos y) = Some (write_block SER_DISK node_2)"
    using node_2_accepted by blast
  have prev: "hashPrevBlock node_2 = 1" by (simp add: node_2_def)
  note r1 = node_1_reachable[OF n(1)]
  have r2: "node_run node_N [nd', nd]" by (rule node_block[OF r1 node_same node_2_block_ok n(2)])
  have "stored_at (nd_disk nd') [y, x] (bare node_2)"
    using n(7) node_2_block_ok by (simp add: stored_at_def)
  then have "vtx b = [demo_cb [0x51, 0]]" if "ReadFromDisk_index node_E (nd_disk nd') [y, x] = Some b" for b
    using stored_read[of "nd_disk nd'" "[y, x]" "bare node_2" node_E b] that by (simp add: node_2_def)
  then have "set (chain_txs (chain_at node_N (nd_disk nd')) [y, x]) \<subseteq> {demo_cb [0x51, 0]}"
    by (auto split: option.split)
  then have n2: "no_collision node_N nd'" using n(6) by (auto simp: no_collision_def inj_on_def)
  have "chain_ok node_N nd"
    using LoadGenesis_ok[OF node_env_good _ _ n(1)] node_hashes(1) demo_trust by (simp add: node_1_def word_less_def)
  then have u1: "undisturbed node_N [nd]"
    using one_block_no_collision n(5) by (simp add: undisturbed_def chain_ok_def consistent_def db_follows_def)
  have "undisturbed node_N [nd', nd]"
    using undisturbed_step[OF r1 u1 node_same node_2_block_ok n(2) n2] prev n(3,4) by simp
  then show ?thesis using r2 n(6) by (intro exI[of _ nd'] exI[of _ "[nd]"]) simp
qed

text \<open>Block 3 comes before its parent 5.\<close>

definition node_P :: process_env where
  "node_P = \<lparr>pe_node = node_N, fReindex = False, fImporting = False, pfrom = True, nMaxOrphanBlocks = 100, insecure_rand = 0\<rparr>"

definition node_3 :: CBlock where "node_3 = demo_block 3 5 [0x51, 0]"

definition no_orphans :: orphan_state where
  "no_orphans = \<lparr>mapOrphanBlocks = Map.empty, mapOrphanBlocksByPrev = [], setStakeSeenOrphan = {}\<rparr>"

lemma node_3_held:
  assumes "LoadGenesis node_N node_1 empty_node = Some (True, nd)"
  shows "\<exists>os. ProcessBlock node_P node_3 nd no_orphans = Some (Inr [GetBlocks 3], nd, os) \<and> mapOrphanBlocks os 3 \<noteq> None"
proof -
  obtain x where x: "mapBlockIndex nd = [1 \<mapsto> [x]]" "pindexBest (nd_chain nd) = [x]" "bi_nTime x = 0"
    using assms node_1_loaded by auto
  have h: "block_hash node_E node_3 = 3" "hashPrevBlock node_3 = 5" by (simp_all add: node_3_def demo_block_hash)
  have k: "pe_node node_P = node_N" "block_time node_3 = 0" "IsCanonicalBlockSignature node_3" "\<not> block_IsProofOfStake node_3"
    by (simp_all add: node_P_def node_3_def block_time_def IsCanonicalBlockSignature_def)
  have "CheckBlock (node_E\<lparr>check_best := [x]\<rparr>) True True True node_3 = Inr ()"
    unfolding node_3_def by (rule node_block_checks) simp_all
  then have "process_checks node_P (block_hash (ne_env (pe_node node_P)) node_3) node_3 nd no_orphans = Inr ()"
    using x h k by (simp add: process_checks_def lift_error_def no_orphans_def Let_def AutoSelectSyncCheckpoint_def bi_GetBlockTime_def)
  from ProcessBlock_checked(1)[OF this] show ?thesis
    using x h by (simp add: node_P_def hold_orphan_def no_orphans_def Let_def PruneOrphanBlocks_def GetOrphanRoot_def)
      (simp add: orphan_root.simps mk_orphan_def node_3_def)
qed


section \<open>The properties at the small node\<close>

lemma node_invariant_witness:
  "\<exists>nd nds. node_run node_N (nd # nds) \<and> length (pindexBest (nd_chain nd)) = 2 \<and>
    st_txdb (nd_chain nd) = index_chain (chain_at node_N (nd_disk nd)) (pindexBest (nd_chain nd))"
proof -
  obtain nd nds where nd: "node_run node_N (nd # nds)" "undisturbed node_N (nd # nds)" "length (pindexBest (nd_chain nd)) = 2"
    using node_2_run by blast
  then show ?thesis using node_invariant[OF nd(1)] by blast
qed

lemma deep_fork_refused_witness:
  "\<exists>nd nd' q. AcceptBlock node_N node_2 nd = Some (Inr (), nd') \<and>
    mapBlockIndex nd (hashPrevBlock node_2) = Some q \<and> index_height q + 1 > max 0 (index_height (pindexBest (nd_chain nd)) - 5000)"
proof -
  obtain nd nd' x where n: "AcceptBlock node_N node_2 nd = Some (Inr (), nd')" "pindexBest (nd_chain nd) = [x]"
      "LoadGenesis node_N node_1 empty_node = Some (True, nd)"
    using node_2_accepted by blast
  have "heights_ok (pindexBest (nd_chain nd))" "pindexBest (nd_chain nd) \<noteq> []"
    using n(2,3) node_1_loaded by auto
  then show ?thesis using deep_fork_refused[OF _ _ n(1)] n(1) by blast
qed

lemma no_orphans_ok: "orphans_ok E no_orphans"
  by (simp add: orphans_ok_def no_orphans_def)

lemma node_3_block_ok: "block_ok SER_DISK (bare node_3)"
  unfolding node_3_def by (rule node_block_ok)

lemma orphan_blocks_consistent_witness:
  "\<exists>nd os. ProcessBlock node_P node_3 nd no_orphans = Some (Inr [GetBlocks 3], nd, os) \<and> mapOrphanBlocks os 3 \<noteq> None \<and>
    orphans_ok node_E os"
proof -
  obtain nd where nd: "LoadGenesis node_N node_1 empty_node = Some (True, nd)" using node_1_loaded by blast
  obtain os where os: "ProcessBlock node_P node_3 nd no_orphans = Some (Inr [GetBlocks 3], nd, os)" "mapOrphanBlocks os 3 \<noteq> None"
    using node_3_held[OF nd] by blast
  have "orphans_ok (ne_env (pe_node node_P)) os"
    using orphan_blocks_consistent[OF no_orphans_ok _ node_3_block_ok os(1)] by (simp add: no_orphans_def)
  then show ?thesis using os by (auto simp: node_P_def)
qed

lemma orphan_is_held_witness:
  "\<exists>nd res os. ProcessBlock node_P node_3 nd no_orphans = Some (res, nd, os)"
proof -
  obtain nd x where nd: "LoadGenesis node_N node_1 empty_node = Some (True, nd)" "mapBlockIndex nd = [1 \<mapsto> [x]]"
    using node_1_loaded by blast
  have h: "block_hash (ne_env (pe_node node_P)) node_3 = 3" "hashPrevBlock node_3 = 5"
    by (simp_all add: node_P_def node_3_def demo_block_hash)
  have "ranked (\<lambda>h. if h = 3 then 1 else 0)
      (insert (mk_orphan (block_hash (ne_env (pe_node node_P)) node_3) node_3) (set (mapOrphanBlocksByPrev no_orphans)))"
    using h by (simp add: ranked_def mk_orphan_def no_orphans_def)
  moreover have "mapBlockIndex nd (hashPrevBlock node_3) = None" using nd(2) h(2) by simp
  ultimately show ?thesis using orphan_is_held[OF no_orphans_ok] by blast
qed

end
