(* ===== verification/Coins.thy ===== *)
theory Coins
  imports TxCheck KeyStore StakeModifier
begin

text \<open>
  Coin selection of \<open>src/src/wallet.cpp\<close>: which outputs the wallet can spend (\<open>AvailableCoins\<close>,
  \<open>AvailableCoinsForStaking\<close>) and which of them it picks for an amount (\<open>SelectCoins\<close> with the
  stochastic approximation of a best subset, \<open>SelectCoinsForStaking\<close>).  Amounts are integers: sums of
  amounts in the range of money stay far below \<open>2 ^ 63\<close>.  Random draws are arguments.
\<close>

section \<open>The wallet\<close>

text \<open>
  \<open>CWalletTx\<close> with its base \<open>CMerkleTx\<close>; \<open>wt_hash\<close> is the key under which the wallet has it.  A pointer
  to an entry is the entry: no two have the same key.
\<close>

record CWalletTx =
  wt_hash :: uint256
  wt_tx :: CTransaction
  wt_hashBlock :: uint256
  wt_vMerkleBranch :: "uint256 list"
  wt_nIndex :: int
  fMerkleVerified :: bool
  vfSpent :: "bool list"

text \<open>
  What the wallet reads: \<open>mapWallet\<close> in the order of its keys, \<open>setLockedCoins\<close>, ownership of an output,
  whether a transaction debits the wallet; of the chain, the blocks of the main chain with height and
  Merkle root, the pool, the votes of InstantX; options; and how often an output was mixed.
\<close>

record wallet_env =
  mapWallet :: "CWalletTx list"
  setLockedCoins :: "COutPoint set"
  txout_IsMine :: "CTxOut \<Rightarrow> isminetype"
  IsFromMe :: "CWalletTx \<Rightarrow> bool"
  main_block :: "uint256 \<Rightarrow> (int \<times> uint256) option"
  we_nBestHeight :: int
  we_AdjustedTime :: int
  pool_exists :: "uint256 \<Rightarrow> bool"
  LockSignatures :: "uint256 \<Rightarrow> int"
  nInstantXDepth :: int
  we_Hash :: "bytes \<Rightarrow> uint256"
  fMasterNode :: bool
  fMasternodeSoftLock :: bool
  fConfChange :: bool
  nMinimumInputValue :: int
  InputDarksendRounds :: "uint256 \<times> nat \<Rightarrow> int"
  nDarksendRounds :: int

abbreviation may_spend :: "isminetype \<Rightarrow> bool" where
  "may_spend mine \<equiv> mine = ISMINE_SPENDABLE \<or> mine = ISMINE_ALL"

definition INSTANTX_SIGNATURES_REQUIRED :: int where "INSTANTX_SIGNATURES_REQUIRED = 10"
definition wallet_nCoinbaseMaturity :: int where "wallet_nCoinbaseMaturity = 63"

section \<open>Depth and maturity\<close>

text \<open>\<open>fMerkleVerified\<close> only spares the test; that the first success sets it is left out.\<close>

definition GetDepthInMainChainINTERNAL :: "wallet_env \<Rightarrow> CWalletTx \<Rightarrow> int" where
  "GetDepthInMainChainINTERNAL E w =
     (if wt_hashBlock w = 0 \<or> wt_nIndex w = - 1 then 0
      else case main_block E (wt_hashBlock w) of
             None \<Rightarrow> 0
           | Some (height, root) \<Rightarrow>
               if \<not> fMerkleVerified w \<and>
                  CheckMerkleBranch (we_Hash E) (tx_GetHash (we_Hash E) (wt_tx w)) (wt_vMerkleBranch w) (wt_nIndex w) \<noteq>
                    root
               then 0
               else we_nBestHeight E - height + 1)"

definition GetDepthInMainChain :: "wallet_env \<Rightarrow> CWalletTx \<Rightarrow> bool \<Rightarrow> int" where
  "GetDepthInMainChain E w enableIX =
     (let nResult = GetDepthInMainChainINTERNAL E w; hash = tx_GetHash (we_Hash E) (wt_tx w)
      in if nResult = 0 \<and> \<not> pool_exists E hash then - 1
         else if enableIX \<and> nResult < 10 \<and> LockSignatures E hash \<ge> INSTANTX_SIGNATURES_REQUIRED
         then nInstantXDepth E + nResult
         else nResult)"

definition GetBlocksToMaturity :: "wallet_env \<Rightarrow> CWalletTx \<Rightarrow> int" where
  "GetBlocksToMaturity E w =
     (if \<not> (IsCoinBase (wt_tx w) \<or> IsCoinStake (wt_tx w)) then 0
      else max 0 ((wallet_nCoinbaseMaturity + 1) - GetDepthInMainChain E w True))"

text \<open>The entry of an input's transaction.\<close>

definition GetWalletTx :: "wallet_env \<Rightarrow> uint256 \<Rightarrow> CWalletTx option" where
  "GetWalletTx E hash = List.find (\<lambda>w. wt_hash w = hash) (mapWallet E)"

definition wallet_IsFinal :: "wallet_env \<Rightarrow> CWalletTx \<Rightarrow> bool" where
  "wallet_IsFinal E w = IsFinalTx (we_nBestHeight E) (we_AdjustedTime E) (wt_tx w) 0 0"

definition IsTrusted :: "wallet_env \<Rightarrow> CWalletTx \<Rightarrow> bool" where
  "IsTrusted E w =
     (if \<not> wallet_IsFinal E w then False
      else
        let nDepth = GetDepthInMainChain E w True
        in if nDepth \<ge> 1 then True
           else if nDepth < 0 then False
           else if fConfChange E \<or> \<not> IsFromMe E w then False
           else list_all (\<lambda>txin.
             case GetWalletTx E (op_hash (prevout txin)) of
               None \<Rightarrow> False
             | Some parent \<Rightarrow>
                 txout_IsMine E (vout (wt_tx parent) ! unat (op_n (prevout txin))) = ISMINE_SPENDABLE) (vin (wt_tx w)))"

text \<open>Only asked for outputs that exist.\<close>

definition IsSpent :: "CWalletTx \<Rightarrow> nat \<Rightarrow> bool" where
  "IsSpent w nOut = (if nOut \<ge> length (vfSpent w) then False else vfSpent w ! nOut)"

section \<open>Amounts with a meaning\<close>

definition darkSendDenominations :: "int list" where
  "darkSendDenominations =
     [1000 * COIN + 1000000, 100 * COIN + 100000, 10 * COIN + 10000, 1 * COIN + 1000, COIN div 10 + 100]"

definition IsDenominatedAmount :: "int \<Rightarrow> bool" where
  "IsDenominatedAmount nInputAmount = list_ex (\<lambda>d. nInputAmount = d) darkSendDenominations"

definition DARKSEND_COLLATERAL :: int where "DARKSEND_COLLATERAL = COIN div 100"

definition IsCollateralAmount :: "int \<Rightarrow> bool" where
  "IsCollateralAmount a \<longleftrightarrow>
     a \<noteq> 0 \<and> a mod DARKSEND_COLLATERAL = 0 \<and> a < DARKSEND_COLLATERAL * 5 \<and> a > DARKSEND_COLLATERAL"

definition GetMNCollateral :: "int \<Rightarrow> int" where
  "GetMNCollateral nHeight = 20000"

section \<open>Available coins\<close>

record COutput =
  co_tx :: CWalletTx
  co_i :: nat
  co_nDepth :: int
  fSpendable :: bool

definition coin_value :: "COutput \<Rightarrow> int" where
  "coin_value out = sint (nValue (vout (wt_tx (co_tx out)) ! co_i out))"

definition coin_id :: "COutput \<Rightarrow> CWalletTx \<times> nat" where
  "coin_id out = (co_tx out, co_i out)"

datatype AvailableCoinsType = ALL_COINS | ONLY_DENOMINATED | ONLY_NOT10000IFMN | ONLY_NONDENOMINATED_NOT10000IFMN

text \<open>The outputs chosen with coin control; no coin control is as none chosen.\<close>

type_synonym coin_control = "COutPoint set"

definition mk_outpoint :: "uint256 \<Rightarrow> nat \<Rightarrow> COutPoint" where
  "mk_outpoint h n = \<lparr>op_hash = h, op_n = of_nat n\<rparr>"

definition coin_type_found :: "wallet_env \<Rightarrow> AvailableCoinsType \<Rightarrow> int \<Rightarrow> bool" where
  "coin_type_found E coin_type v =
     (case coin_type of
        ONLY_DENOMINATED \<Rightarrow> IsDenominatedAmount v
      | ONLY_NOT10000IFMN \<Rightarrow> \<not> (fMasterNode E \<and> v = GetMNCollateral (we_nBestHeight E) * COIN)
      | ONLY_NONDENOMINATED_NOT10000IFMN \<Rightarrow>
          if IsCollateralAmount v then False
          else let found = \<not> IsDenominatedAmount v
               in if found \<and> fMasterNode E then v \<noteq> GetMNCollateral (we_nBestHeight E) * COIN else found
      | ALL_COINS \<Rightarrow> True)"

definition available_outputs ::
  "wallet_env \<Rightarrow> coin_control \<Rightarrow> AvailableCoinsType \<Rightarrow> CWalletTx \<Rightarrow> int \<Rightarrow> COutput list" where
  "available_outputs E coinControl coin_type pcoin nDepth =
     concat (map (\<lambda>i.
       let out = vout (wt_tx pcoin) ! i; v = sint (nValue out); mine = txout_IsMine E out
       in if \<not> coin_type_found E coin_type v then []
          else if \<not> IsSpent pcoin i \<and> mine \<noteq> ISMINE_NO \<and> mk_outpoint (wt_hash pcoin) i \<notin> setLockedCoins E \<and> v > 0 \<and>
               (coinControl = {} \<or> mk_outpoint (wt_hash pcoin) i \<in> coinControl)
          then [\<lparr>co_tx = pcoin, co_i = i, co_nDepth = nDepth, fSpendable = may_spend mine\<rparr>]
          else []) [0..<length (vout (wt_tx pcoin))])"

definition AvailableCoins ::
  "wallet_env \<Rightarrow> bool \<Rightarrow> coin_control \<Rightarrow> AvailableCoinsType \<Rightarrow> bool \<Rightarrow> COutput list" where
  "AvailableCoins E fOnlyConfirmed coinControl coin_type useIX =
     concat (map (\<lambda>pcoin.
       if \<not> wallet_IsFinal E pcoin then []
       else if fOnlyConfirmed \<and> \<not> IsTrusted E pcoin then []
       else if IsCoinBase (wt_tx pcoin) \<and> GetBlocksToMaturity E pcoin > 0 then []
       else if IsCoinStake (wt_tx pcoin) \<and> GetBlocksToMaturity E pcoin > 0 then []
       else let nDepth = GetDepthInMainChain E pcoin False
            in if nDepth \<le> 0 then []
               else if useIX \<and> nDepth < 10 then []
               else available_outputs E coinControl coin_type pcoin nDepth) (mapWallet E))"

text \<open>The sums of times are unsigned and wrap around.\<close>

definition AvailableCoinsForStaking :: "wallet_env \<Rightarrow> uint32 \<Rightarrow> COutput list" where
  "AvailableCoinsForStaking E nSpendTime =
     concat (map (\<lambda>pcoin.
       let nDepth = GetDepthInMainChain E pcoin True; values = map (\<lambda>out. sint (nValue out)) (vout (wt_tx pcoin))
       in if nDepth < 1 then []
          else if nDepth < STAKE_MIN_CONFIRMATIONS then []
          else if tx_nTime (wt_tx pcoin) + of_int nStakeMinAge > nSpendTime then []
          else if tx_nTime (wt_tx pcoin) + of_int nStakeMaxAge < nSpendTime then []
          else if GetBlocksToMaturity E pcoin > 0 then []
          else if list_ex (\<lambda>v. IsDenominatedAmount v \<or> v = GetMNCollateral (we_nBestHeight E) * COIN \<or>
                    IsCollateralAmount v) values then []
          else concat (map (\<lambda>i.
                 let mine = txout_IsMine E (vout (wt_tx pcoin) ! i)
                 in if \<not> IsSpent pcoin i \<and> mine \<noteq> ISMINE_NO \<and> values ! i \<ge> nMinimumInputValue E
                    then [\<lparr>co_tx = pcoin, co_i = i, co_nDepth = nDepth, fSpendable = may_spend mine\<rparr>]
                    else []) [0..<length values])) (mapWallet E))"

section \<open>Random numbers and orders\<close>

text \<open>\<open>insecure_rand\<close> on its two words of state.\<close>

definition insecure_rand :: "uint32 \<times> uint32 \<Rightarrow> uint32 \<times> (uint32 \<times> uint32)" where
  "insecure_rand = (\<lambda>(Rz, Rw).
     (let Rz = 36969 * (Rz AND 65535) + drop_bit 16 Rz;
          Rw = 18000 * (Rw AND 65535) + drop_bit 16 Rw
      in (push_bit 16 Rw + Rz, (Rz, Rw))))"

text \<open>
  What one run of \<open>SelectCoinsMinConf\<close> draws from the random pool: the numbers of the shuffle (as they
  come, before \<open>GetRandInt\<close> reduces them) and the seeds of \<open>insecure_rand\<close> for its two approximations.
\<close>

record coin_draws =
  cd_shuffle :: "nat \<Rightarrow> nat"
  cd_seed1 :: "uint32 \<times> uint32"
  cd_seed2 :: "uint32 \<times> uint32"

text \<open>\<open>random_shuffle\<close> of the standard library: each element changes places with one before it or itself.\<close>

definition swap_at :: "nat \<Rightarrow> nat \<Rightarrow> 'a list \<Rightarrow> 'a list" where
  "swap_at i j xs = xs[i := xs ! j, j := xs ! i]"

definition random_shuffle :: "(nat \<Rightarrow> nat) \<Rightarrow> 'a list \<Rightarrow> 'a list" where
  "random_shuffle draw xs = fold (\<lambda>i. swap_at i (draw i mod (i + 1))) [1..<length xs] xs"

text \<open>
  The two calls of \<open>sort\<close>.  They may leave equal elements in any order; here they keep it, and the
  shuffle before them gives every order that another implementation could leave.
\<close>

definition sort_denoms_down :: "COutput list \<Rightarrow> COutput list" where
  "sort_denoms_down = sort_key (\<lambda>out. IsDenominatedAmount (coin_value out))"

type_synonym coin = "int \<times> CWalletTx \<times> nat"

definition sort_values_down :: "coin list \<Rightarrow> coin list" where
  "sort_values_down v = rev (sort_key fst (rev v))"

section \<open>The best subset\<close>

text \<open>The variables of \<open>ApproximateBestSubset\<close>.\<close>

record subset_state =
  ss_rand :: "uint32 \<times> uint32"
  nTotal :: int
  fReachedTarget :: bool
  vfIncluded :: "bool list"
  nBest :: int
  vfBest :: "bool list"

text \<open>The body of the loop over the coins, in one of its two passes.\<close>

definition subset_step :: "int \<Rightarrow> coin list \<Rightarrow> nat \<Rightarrow> nat \<Rightarrow> subset_state \<Rightarrow> subset_state" where
  "subset_step nTargetValue vValue nPass i s =
     (let (take_it, s) =
            (if nPass = 0
             then let (r, rand) = insecure_rand (ss_rand s) in (r AND 1 \<noteq> 0, s\<lparr>ss_rand := rand\<rparr>)
             else (\<not> vfIncluded s ! i, s))
      in if take_it
         then let s = s\<lparr>nTotal := nTotal s + fst (vValue ! i), vfIncluded := (vfIncluded s)[i := True]\<rparr>
              in if nTotal s \<ge> nTargetValue
                 then let s = s\<lparr>fReachedTarget := True\<rparr>;
                          s = (if nTotal s < nBest s then s\<lparr>nBest := nTotal s, vfBest := vfIncluded s\<rparr> else s)
                      in s\<lparr>nTotal := nTotal s - fst (vValue ! i), vfIncluded := (vfIncluded s)[i := False]\<rparr>
                 else s
         else s)"

definition subset_pass :: "int \<Rightarrow> coin list \<Rightarrow> nat \<Rightarrow> subset_state \<Rightarrow> subset_state" where
  "subset_pass nTargetValue vValue nPass s =
     (if fReachedTarget s then s else fold (subset_step nTargetValue vValue nPass) [0..<length vValue] s)"

definition subset_rep :: "int \<Rightarrow> coin list \<Rightarrow> subset_state \<Rightarrow> subset_state" where
  "subset_rep nTargetValue vValue s =
     (if nBest s = nTargetValue then s
      else let s = s\<lparr>vfIncluded := replicate (length vValue) False, nTotal := 0, fReachedTarget := False\<rparr>
           in subset_pass nTargetValue vValue 1 (subset_pass nTargetValue vValue 0 s))"

definition ApproximateBestSubset ::
  "uint32 \<times> uint32 \<Rightarrow> coin list \<Rightarrow> int \<Rightarrow> int \<Rightarrow> nat \<Rightarrow> bool list \<times> int" where
  "ApproximateBestSubset seed vValue nTotalLower nTargetValue iterations =
     (let s = (subset_rep nTargetValue vValue ^^ iterations)
            \<lparr>ss_rand = seed, nTotal = 0, fReachedTarget = False, vfIncluded = [],
             nBest = nTotalLower, vfBest = replicate (length vValue) True\<rparr>
      in (vfBest s, nBest s))"

section \<open>Selecting coins\<close>

text \<open>The arguments of \<open>SelectCoinsMinConf\<close> that do not change.\<close>

record coin_request =
  nTargetValue :: int
  nSpendTime :: uint32
  nConfMine :: int
  nConfTheirs :: int

text \<open>
  The loop over the coins: an exact match (\<open>Inl\<close>), or the smallest coin of at least the target and a
  cent (none: the greatest amount and a null pointer), the smaller coins and their sum.
\<close>

fun collect_coins ::
  "wallet_env \<Rightarrow> coin_request \<Rightarrow> nat \<Rightarrow> COutput list \<Rightarrow>
   (int \<times> (CWalletTx \<times> nat) option) \<times> coin list \<times> int \<Rightarrow>
   coin + (int \<times> (CWalletTx \<times> nat) option) \<times> coin list \<times> int" where
  "collect_coins E Q tryDenom [] st = Inr st"
| "collect_coins E Q tryDenom (out # rest) (coinLowestLarger, vValue, nTotalLower) =
     (let st = (coinLowestLarger, vValue, nTotalLower); pcoin = co_tx out; n = coin_value out
      in if \<not> fSpendable out then collect_coins E Q tryDenom rest st
         else if co_nDepth out < (if IsFromMe E pcoin then nConfMine Q else nConfTheirs Q)
         then collect_coins E Q tryDenom rest st
         else if tx_nTime (wt_tx pcoin) > nSpendTime Q then collect_coins E Q tryDenom rest st
         else if tryDenom = 0 \<and> IsDenominatedAmount n then collect_coins E Q tryDenom rest st
         else if n = nTargetValue Q then Inl (n, coin_id out)
         else if n < nTargetValue Q + CENT
         then collect_coins E Q tryDenom rest (coinLowestLarger, vValue @ [(n, coin_id out)], nTotalLower + n)
         else if n < fst coinLowestLarger
         then collect_coins E Q tryDenom rest ((n, Some (coin_id out)), vValue, nTotalLower)
         else collect_coins E Q tryDenom rest st)"

type_synonym selection = "bool \<times> (CWalletTx \<times> nat) set \<times> int"

definition take_coins :: "coin list \<Rightarrow> selection" where
  "take_coins coins = (True, snd ` set coins, sum_list (map fst coins))"

definition chosen_coins :: "coin list \<Rightarrow> bool list \<Rightarrow> coin list" where
  "chosen_coins vValue vf = map fst (filter snd (zip vValue vf))"

text \<open>\<open>std::numeric_limits<int64_t>::max()\<close>.\<close>

definition int64_max :: int where "int64_max = 2 ^ 63 - 1"

text \<open>
  The rest of the body of the loop over \<open>tryDenom\<close>; \<open>None\<close> would be that the loop goes on.
\<close>

definition try_coins ::
  "wallet_env \<Rightarrow> coin_draws \<Rightarrow> coin_request \<Rightarrow> COutput list \<Rightarrow> nat \<Rightarrow> selection option" where
  "try_coins E D Q vCoins tryDenom =
     (case collect_coins E Q tryDenom vCoins ((int64_max, None), [], 0) of
        Inl coin \<Rightarrow> Some (take_coins [coin])
      | Inr ((lowest, larger), vValue, nTotalLower) \<Rightarrow>
          if nTotalLower = nTargetValue Q then Some (take_coins vValue)
          else if nTotalLower < nTargetValue Q then
            (case larger of
               None \<Rightarrow> Some (False, {}, 0)
             | Some p \<Rightarrow> Some (take_coins [(lowest, p)]))
          else
            let vValue = sort_values_down vValue;
                (vf, best) = ApproximateBestSubset (cd_seed1 D) vValue nTotalLower (nTargetValue Q) 1000;
                (vf, best) =
                  (if best \<noteq> nTargetValue Q \<and> nTotalLower \<ge> nTargetValue Q + CENT
                   then ApproximateBestSubset (cd_seed2 D) vValue nTotalLower (nTargetValue Q + CENT) 1000
                   else (vf, best))
            in case larger of
                 Some p \<Rightarrow>
                   if (best \<noteq> nTargetValue Q \<and> best < nTargetValue Q + CENT) \<or> lowest \<le> best
                   then Some (take_coins [(lowest, p)])
                   else Some (take_coins (chosen_coins vValue vf))
               | None \<Rightarrow> Some (take_coins (chosen_coins vValue vf)))"

fun try_loop :: "(nat \<Rightarrow> selection option) \<Rightarrow> nat list \<Rightarrow> selection" where
  "try_loop body [] = (False, {}, 0)"
| "try_loop body (tryDenom # rest) = (case body tryDenom of Some r \<Rightarrow> r | None \<Rightarrow> try_loop body rest)"

definition SelectCoinsMinConf :: "wallet_env \<Rightarrow> coin_draws \<Rightarrow> coin_request \<Rightarrow> COutput list \<Rightarrow> selection" where
  "SelectCoinsMinConf E D Q vCoins =
     (let vCoins = sort_denoms_down (random_shuffle (cd_shuffle D) vCoins)
      in try_loop (try_coins E D Q vCoins) [0, 1])"

text \<open>
  \<open>SelectCoins\<close>; the draws are those of its three calls.  The caller passes an empty set and the
  amount 0.  The bound on denominations is a sum in floating point, exact for these amounts.
\<close>

definition add_coins :: "(COutput \<Rightarrow> int \<Rightarrow> bool) \<Rightarrow> COutput list \<Rightarrow> COutput list \<times> int \<Rightarrow> COutput list \<times> int" where
  "add_coins wanted = fold (\<lambda>out (chosen, nValueRet).
     if wanted out nValueRet then (chosen @ [out], nValueRet + coin_value out) else (chosen, nValueRet))"

definition SelectCoins ::
  "wallet_env \<Rightarrow> (nat \<Rightarrow> coin_draws) \<Rightarrow> int \<Rightarrow> uint32 \<Rightarrow> coin_control \<Rightarrow> AvailableCoinsType \<Rightarrow> bool \<Rightarrow> selection" where
  "SelectCoins E D target time coinControl coin_type useIX =
     (let vCoins = AvailableCoins E True coinControl coin_type useIX;
          mixed = (\<lambda>out. InputDarksendRounds E (tx_GetHash (we_Hash E) (wt_tx (co_tx out)), co_i out) \<ge> nDarksendRounds E)
      in if coinControl \<noteq> {} then
           (case add_coins (\<lambda>out _. fSpendable out \<and> (coin_type = ONLY_DENOMINATED \<longrightarrow> mixed out)) vCoins ([], 0) of
              (chosen, nValueRet) \<Rightarrow> (nValueRet \<ge> target, coin_id ` set chosen, nValueRet))
         else
           let vCoins = (if coin_type = ALL_COINS \<and> fMasternodeSoftLock E
                         then AvailableCoins E True coinControl ONLY_NONDENOMINATED_NOT10000IFMN useIX else vCoins)
           in if coin_type = ONLY_DENOMINATED then
                (case fold (\<lambda>v. add_coins (\<lambda>out nValueRet. coin_value out = v \<and>
                        nValueRet + coin_value out < target + COIN div 10 + 100 \<and> mixed out) vCoins)
                      darkSendDenominations ([], 0) of
                   (chosen, nValueRet) \<Rightarrow> (nValueRet \<ge> target, coin_id ` set chosen, nValueRet))
              else
                let f = (\<lambda>k mine theirs. SelectCoinsMinConf E (D k)
                      \<lparr>nTargetValue = target, nSpendTime = time, nConfMine = mine, nConfTheirs = theirs\<rparr> vCoins)
                in if fst (f 0 1 10) then f 0 1 10
                   else if fst (f 1 1 1) then f 1 1 1
                   else f 2 0 1)"

text \<open>\<open>SelectCoinsForStaking\<close>, which always returns true: the coins chosen and their sum.\<close>

fun staking_loop :: "int \<Rightarrow> COutput list \<Rightarrow> COutput list \<Rightarrow> int \<Rightarrow> COutput list \<times> int" where
  "staking_loop target [] chosen nValueRet = (chosen, nValueRet)"
| "staking_loop target (out # rest) chosen nValueRet =
     (if \<not> fSpendable out then staking_loop target rest chosen nValueRet
      else if nValueRet \<ge> target then (chosen, nValueRet)
      else let n = coin_value out
           in if n \<ge> target then (chosen @ [out], nValueRet + n)
              else if n < target + CENT then staking_loop target rest (chosen @ [out]) (nValueRet + n)
              else staking_loop target rest chosen nValueRet)"

definition SelectCoinsForStaking :: "wallet_env \<Rightarrow> int \<Rightarrow> uint32 \<Rightarrow> (CWalletTx \<times> nat) set \<times> int" where
  "SelectCoinsForStaking E target time =
     (case staking_loop target (AvailableCoinsForStaking E time) [] 0 of
        (chosen, nValueRet) \<Rightarrow> (coin_id ` set chosen, nValueRet))"

section \<open>Shuffling and sorting\<close>

lemma distinct_submset:
  assumes "distinct ys" "mset xs \<subseteq># mset ys"
  shows "distinct xs"
proof -
  obtain M where "mset ys = mset xs + M" using assms(2) by (auto simp: mset_subset_eq_exists_conv)
  moreover obtain zs where "M = mset zs" using ex_mset by metis
  ultimately have "mset ys = mset (xs @ zs)" by simp
  then show ?thesis using assms(1) mset_eq_imp_distinct_iff by fastforce
qed

lemma mset_random_shuffle [simp]: "mset (random_shuffle draw xs) = mset xs"
proof -
  have "mset (fold (\<lambda>i. swap_at i (draw i mod (i + 1))) is ys) = mset ys \<and>
    length (fold (\<lambda>i. swap_at i (draw i mod (i + 1))) is ys) = length ys"
    if "\<forall>i\<in>set is. i < length ys" for "is" and ys :: "'a list"
    using that
  proof (induction "is" arbitrary: ys)
    case (Cons i "is")
    have "draw i mod (i + 1) < i + 1" "i < length ys" using Cons.prems by simp_all
    then have j: "draw i mod (i + 1) < length ys" by linarith
    have "mset (swap_at i (draw i mod (i + 1)) ys) = mset ys"
      using mset_swap[OF j, of i] Cons.prems by (simp add: swap_at_def list_update_swap)
    moreover have "length (swap_at i (draw i mod (i + 1)) ys) = length ys" by (simp add: swap_at_def)
    ultimately show ?case using Cons.IH[of "swap_at i (draw i mod (i + 1)) ys"] Cons.prems by simp
  qed simp
  then show ?thesis by (simp add: random_shuffle_def)
qed

lemma mset_sort_denoms [simp]: "mset (sort_denoms_down xs) = mset xs"
  by (simp add: sort_denoms_down_def)

lemma mset_sort_values [simp]: "mset (sort_values_down v) = mset v"
  by (simp add: sort_values_down_def)

section \<open>The subset is what it is said to be\<close>

text \<open>The sum of the coins a vector of flags includes.\<close>

definition included_sum :: "coin list \<Rightarrow> bool list \<Rightarrow> int" where
  "included_sum v f = (\<Sum>i<length v. if f ! i then fst (v ! i) else 0)"

lemma included_update:
  assumes "i < length v" "length f = length v"
  shows "included_sum v (f[i := b]) = included_sum v f + (of_bool b - of_bool (f ! i)) * fst (v ! i)"
proof -
  have rest: "(\<Sum>j\<in>{..<length v} - {i}. if f[i := b] ! j then fst (v ! j) else 0) =
      (\<Sum>j\<in>{..<length v} - {i}. if f ! j then fst (v ! j) else 0)"
    by (rule sum.cong) auto
  show ?thesis using assms rest
    sum.remove[of "{..<length v}" i "\<lambda>j. if f[i := b] ! j then fst (v ! j) else 0"]
    sum.remove[of "{..<length v}" i "\<lambda>j. if f ! j then fst (v ! j) else 0"]
    by (simp add: included_sum_def)
qed

lemma included_chosen: "length f = length v \<Longrightarrow> included_sum v f = sum_list (map fst (chosen_coins v f))"
proof (induction v arbitrary: f)
  case Nil
  then show ?case by (simp add: included_sum_def chosen_coins_def)
next
  case (Cons c v)
  then obtain b g where f: "f = b # g" "length g = length v" by (cases f) auto
  have "{..<length (c # v)} = insert 0 (Suc ` {..<length v})" using lessThan_Suc_eq_insert_0 by simp
  then have "included_sum (c # v) f = (if b then fst c else 0) + included_sum v g"
    by (simp add: included_sum_def f sum.reindex cong: if_cong)
  then show ?case using Cons.IH[OF f(2)] by (simp add: chosen_coins_def f)
qed

lemma included_all: "included_sum v (replicate (length v) True) = sum_list (map fst v)"
  by (subst included_chosen) (simp_all add: chosen_coins_def zip_replicate2 comp_def filter_True map_idI)

lemma chosen_subset: "set (chosen_coins v f) \<subseteq> set v"
  by (auto simp: chosen_coins_def dest: set_zip_leftD)

lemma chosen_distinct: "distinct (map snd v) \<Longrightarrow> distinct (map snd (chosen_coins v f))"
proof (induction v arbitrary: f)
  case (Cons c v)
  then show ?case
  proof (cases f)
    case (Cons b g)
    then show ?thesis using Cons.IH[of g] Cons.prems chosen_subset[of v g]
      by (auto simp: chosen_coins_def)
  qed (simp add: chosen_coins_def)
qed (simp add: chosen_coins_def)

text \<open>What the loops keep.\<close>

definition subset_ok :: "int \<Rightarrow> int \<Rightarrow> coin list \<Rightarrow> subset_state \<Rightarrow> bool" where
  "subset_ok target most v s \<longleftrightarrow>
     length (vfIncluded s) = length v \<and> nTotal s = included_sum v (vfIncluded s) \<and>
     length (vfBest s) = length v \<and> nBest s = included_sum v (vfBest s) \<and> target \<le> nBest s \<and> nBest s \<le> most"

lemma subset_step_ok:
  assumes "subset_ok target most v s" "i < length v" "nPass = 0 \<Longrightarrow> \<not> vfIncluded s ! i"
  shows "subset_ok target most v (subset_step target v nPass i s) \<and>
    (\<forall>j. j \<noteq> i \<longrightarrow> vfIncluded (subset_step target v nPass i s) ! j = vfIncluded s ! j)"
proof -
  define s' where "s' = (if nPass = 0 then s\<lparr>ss_rand := snd (insecure_rand (ss_rand s))\<rparr> else s)"
  define taken where "taken = (if nPass = 0 then fst (insecure_rand (ss_rand s)) AND 1 \<noteq> 0 else \<not> vfIncluded s ! i)"
  have ok: "subset_ok target most v s'" using assms(1) by (simp add: s'_def subset_ok_def)
  have inc: "vfIncluded s' = vfIncluded s" by (simp add: s'_def)
  have free: "taken \<Longrightarrow> \<not> vfIncluded s ! i" using assms(3) by (auto simp: taken_def split: if_splits)
  have step: "subset_step target v nPass i s =
    (if taken
     then let s = s'\<lparr>nTotal := nTotal s' + fst (v ! i), vfIncluded := (vfIncluded s')[i := True]\<rparr>
          in if nTotal s \<ge> target
             then let s = s\<lparr>fReachedTarget := True\<rparr>;
                      s = (if nTotal s < nBest s then s\<lparr>nBest := nTotal s, vfBest := vfIncluded s\<rparr> else s)
                  in s\<lparr>nTotal := nTotal s - fst (v ! i), vfIncluded := (vfIncluded s)[i := False]\<rparr>
             else s
     else s')"
    unfolding subset_step_def s'_def taken_def by (cases "nPass = 0") (simp_all add: case_prod_unfold Let_def)
  show ?thesis
  proof (cases taken)
    case True
    then show ?thesis using ok free inc assms(2) unfolding step
      by (simp add: subset_ok_def Let_def included_update)
  next
    case False
    then show ?thesis using ok inc by (simp add: step)
  qed
qed

lemma subset_fold_ok:
  assumes "subset_ok target most v s" "n \<le> length v" "nPass = 0 \<Longrightarrow> \<forall>j<length v. \<not> vfIncluded s ! j"
  shows "subset_ok target most v (fold (subset_step target v nPass) [0..<n] s) \<and>
    (nPass = 0 \<longrightarrow> (\<forall>j. n \<le> j \<and> j < length v \<longrightarrow> \<not> vfIncluded (fold (subset_step target v nPass) [0..<n] s) ! j))"
  using assms(2)
proof (induction n)
  case 0
  then show ?case using assms by simp
next
  case (Suc n)
  let ?s = "fold (subset_step target v nPass) [0..<n] s"
  have IH: "subset_ok target most v ?s" "nPass = 0 \<Longrightarrow> n \<le> j \<Longrightarrow> j < length v \<Longrightarrow> \<not> vfIncluded ?s ! j" for j
    using Suc by auto
  have "subset_ok target most v (subset_step target v nPass n ?s)"
    "\<And>j. j \<noteq> n \<Longrightarrow> vfIncluded (subset_step target v nPass n ?s) ! j = vfIncluded ?s ! j"
    using subset_step_ok[OF IH(1), of n nPass] IH(2)[of n] Suc.prems by auto
  then show ?case using IH(2) by auto
qed

text \<open>The best subset so far; the flags of the running one start anew in each repetition.\<close>

definition best_ok :: "int \<Rightarrow> int \<Rightarrow> coin list \<Rightarrow> subset_state \<Rightarrow> bool" where
  "best_ok target most v s \<longleftrightarrow>
     length (vfBest s) = length v \<and> nBest s = included_sum v (vfBest s) \<and> target \<le> nBest s \<and> nBest s \<le> most"

lemma subset_rep_best: "best_ok target most v s \<Longrightarrow> best_ok target most v (subset_rep target v s)"
proof -
  assume best: "best_ok target most v s"
  let ?s = "s\<lparr>vfIncluded := replicate (length v) False, nTotal := 0, fReachedTarget := False\<rparr>"
  have "subset_ok target most v ?s" using best by (simp add: best_ok_def subset_ok_def included_sum_def)
  then have "subset_ok target most v (subset_pass target v 0 ?s)"
    using subset_fold_ok[of target most v ?s "length v" 0] by (simp add: subset_pass_def)
  then have "subset_ok target most v (subset_pass target v 1 (subset_pass target v 0 ?s))"
    using subset_fold_ok[of target most v "subset_pass target v 0 ?s" "length v" 1]
    unfolding subset_pass_def[of target v 1] by simp
  then show ?thesis using best by (simp add: subset_rep_def Let_def subset_ok_def best_ok_def)
qed

lemma ApproximateBestSubset_ok:
  assumes "target \<le> sum_list (map fst v)"
  shows "\<exists>vf best. ApproximateBestSubset seed v (sum_list (map fst v)) target n = (vf, best) \<and>
    length vf = length v \<and> best = sum_list (map fst (chosen_coins v vf)) \<and> target \<le> best"
proof -
  let ?s = "\<lparr>ss_rand = seed, nTotal = 0, fReachedTarget = False, vfIncluded = [],
             nBest = sum_list (map fst v), vfBest = replicate (length v) True\<rparr>"
  have start: "best_ok target (sum_list (map fst v)) v ?s" using assms by (simp add: best_ok_def included_all)
  have "best_ok target (sum_list (map fst v)) v ((subset_rep target v ^^ n) ?s)"
    by (induction n) (simp_all add: start subset_rep_best)
  moreover define s where "s = (subset_rep target v ^^ n) ?s"
  ultimately have "best_ok target (sum_list (map fst v)) v s" by simp
  then show ?thesis
    unfolding ApproximateBestSubset_def Let_def s_def[symmetric] by (auto simp: best_ok_def included_chosen)
qed

section \<open>The coins an amount may be paid with\<close>

definition eligible :: "wallet_env \<Rightarrow> coin_request \<Rightarrow> COutput \<Rightarrow> bool" where
  "eligible E Q out \<longleftrightarrow>
     fSpendable out \<and> co_nDepth out \<ge> (if IsFromMe E (co_tx out) then nConfMine Q else nConfTheirs Q) \<and>
     tx_nTime (wt_tx (co_tx out)) \<le> nSpendTime Q \<and> \<not> IsDenominatedAmount (coin_value out)"

abbreviation as_coin :: "COutput \<Rightarrow> coin" where
  "as_coin out \<equiv> (coin_value out, coin_id out)"

abbreviation smaller_coins :: "wallet_env \<Rightarrow> coin_request \<Rightarrow> COutput list \<Rightarrow> COutput list" where
  "smaller_coins E Q \<equiv> filter (\<lambda>out. eligible E Q out \<and> coin_value out < nTargetValue Q + CENT)"

lemma collect_coins_first_run:
  "collect_coins E Q 0 (out # rest) (low, v, t) =
     (if \<not> eligible E Q out then collect_coins E Q 0 rest (low, v, t)
      else if coin_value out = nTargetValue Q then Inl (as_coin out)
      else if coin_value out < nTargetValue Q + CENT
      then collect_coins E Q 0 rest (low, v @ [as_coin out], t + coin_value out)
      else collect_coins E Q 0 rest
        (if coin_value out < fst low then (coin_value out, Some (coin_id out)) else low, v, t))"
  by (auto simp: eligible_def Let_def not_less)

declare collect_coins.simps(2) [simp del]

lemma collect_coins_Inl:
  "collect_coins E Q 0 coins (low, v, t) = Inl c \<Longrightarrow>
   \<exists>out\<in>set coins. eligible E Q out \<and> coin_value out = nTargetValue Q \<and> c = as_coin out"
  by (induction coins arbitrary: low v t) (auto simp: collect_coins_first_run split: if_splits)

lemma collect_coins_small:
  "collect_coins E Q 0 coins (low, v, t) = Inr (low', v', t') \<Longrightarrow>
   v' = v @ map as_coin (smaller_coins E Q coins) \<and> t' = t + sum_list (map coin_value (smaller_coins E Q coins))"
  by (induction coins arbitrary: low v t) (simp, fastforce simp: collect_coins_first_run split: if_splits)

lemma collect_coins_large:
  "collect_coins E Q 0 coins (low, v, t) = Inr (low', v', t') \<Longrightarrow>
   (low' = low \<or> (\<exists>out\<in>set coins. eligible E Q out \<and> nTargetValue Q + CENT \<le> coin_value out \<and>
      low' = (coin_value out, Some (coin_id out)))) \<and> fst low' \<le> fst low \<and>
   (\<forall>out\<in>set coins. eligible E Q out \<and> nTargetValue Q + CENT \<le> coin_value out \<longrightarrow> fst low' \<le> coin_value out)"
proof (induction coins arbitrary: low v t)
  case (Cons out rest)
  define low1 where "low1 = (if coin_value out < fst low then (coin_value out, Some (coin_id out)) else low)"
  have low1: "fst low1 \<le> coin_value out" "fst low1 \<le> fst low" by (simp_all add: low1_def)
  consider "\<not> eligible E Q out" "collect_coins E Q 0 rest (low, v, t) = Inr (low', v', t')"
    | "eligible E Q out" "coin_value out < nTargetValue Q + CENT"
      "collect_coins E Q 0 rest (low, v @ [as_coin out], t + coin_value out) = Inr (low', v', t')"
    | "eligible E Q out" "nTargetValue Q + CENT \<le> coin_value out"
      "collect_coins E Q 0 rest (low1, v, t) = Inr (low', v', t')"
    using Cons.prems by (auto simp: collect_coins_first_run low1_def split: if_splits)
  then show ?case
  proof cases
    case 1
    then show ?thesis using Cons.IH[OF 1(2)] by auto
  next
    case 2
    then show ?thesis using Cons.IH[OF 2(3)] by auto
  next
    case 3
    have "low' = low1 \<Longrightarrow> low' = low \<or> low' = (coin_value out, Some (coin_id out))"
      by (simp add: low1_def split: if_splits)
    then show ?thesis using Cons.IH[OF 3(3)] low1 3(1,2) by auto
  qed
qed simp

text \<open>What a selection may be, and when there is one.\<close>

definition coin_ref_value :: "CWalletTx \<times> nat \<Rightarrow> int" where
  "coin_ref_value = (\<lambda>(w, i). sint (nValue (vout (wt_tx w) ! i)))"

definition good_selection :: "int \<Rightarrow> COutput set \<Rightarrow> selection \<Rightarrow> bool" where
  "good_selection target coins = (\<lambda>(ok, chosen, nValueRet).
     ok \<and> target \<le> nValueRet \<and> chosen \<subseteq> coin_id ` coins \<and> nValueRet = (\<Sum>c\<in>chosen. coin_ref_value c))"

lemma coin_ref_value_id [simp]: "coin_ref_value (coin_id out) = coin_value out"
  by (simp add: coin_ref_value_def coin_id_def coin_value_def)

lemma good_selection_mono: "good_selection target A r \<Longrightarrow> A \<subseteq> B \<Longrightarrow> good_selection target B r"
  using image_mono[of A B coin_id] by (fastforce simp: good_selection_def)

lemma take_coins_good:
  assumes "distinct (map snd coins)" "set coins \<subseteq> as_coin ` S" "target \<le> sum_list (map fst coins)"
  shows "good_selection target S (take_coins coins)"
proof -
  have v: "fst c = coin_ref_value (snd c)" if "c \<in> set coins" for c using that assms(2) by auto
  have "sum_list (map fst coins) = sum_list (map coin_ref_value (map snd coins))"
    using v by (induction coins) auto
  also have "\<dots> = (\<Sum>c\<in>set (map snd coins). coin_ref_value c)"
    using assms(1) by (simp only: sum_list_distinct_conv_sum_set)
  finally show ?thesis using assms(2,3) by (auto simp: good_selection_def take_coins_def)
qed

definition coins_ok :: "COutput list \<Rightarrow> bool" where
  "coins_ok coins \<longleftrightarrow>
     distinct (map coin_id coins) \<and> list_all (\<lambda>out. 0 \<le> coin_value out \<and> coin_value out \<le> MAX_MONEY) coins"

lemma coins_ok_mset: "mset xs = mset ys \<Longrightarrow> coins_ok xs \<longleftrightarrow> coins_ok ys"
  unfolding coins_ok_def list_all_iff
  by (metis mset_eq_imp_distinct_iff mset_map set_mset_mset)

lemma eligible_sum_mset:
  assumes "mset xs = mset ys"
  shows "sum_list (map coin_value (filter P xs)) = sum_list (map coin_value (filter P ys))"
proof -
  have "mset (map coin_value (filter P xs)) = mset (map coin_value (filter P ys))" using assms by simp
  then show ?thesis by (metis sum_mset_sum_list)
qed

lemma sum_filter_le:
  assumes "list_all (\<lambda>out. 0 \<le> coin_value out) coins" "\<And>out. out \<in> set coins \<Longrightarrow> P out \<Longrightarrow> Q out"
  shows "sum_list (map coin_value (filter P coins)) \<le> sum_list (map coin_value (filter Q coins))"
  using assms by (induction coins) (auto simp: add_increasing)

lemma member_le_sum:
  assumes "list_all (\<lambda>out. 0 \<le> coin_value out) coins" "out \<in> set coins" "P out"
  shows "coin_value out \<le> sum_list (map coin_value (filter P coins))"
proof -
  have n: "0 \<le> sum_list (map coin_value (filter P xs))" if "list_all (\<lambda>out. 0 \<le> coin_value out) xs" for xs
    using that by (induction xs) auto
  show ?thesis using assms by (induction coins) (auto simp: n add_increasing)
qed

lemma smaller_as_coin:
  "coins_ok coins \<Longrightarrow> distinct (map snd (map as_coin (smaller_coins E Q coins)))"
  by (simp add: coins_ok_def comp_def distinct_map_filter)

text \<open>The first run of the loop over \<open>tryDenom\<close> always ends the call.\<close>

lemma try_coins_result:
  assumes ok: "coins_ok coins" and S_def: "S = {out \<in> set coins. eligible E Q out}"
  shows "\<exists>r. try_coins E D Q coins 0 = Some r \<and>
    (if nTargetValue Q \<le> sum_list (map coin_value (filter (eligible E Q) coins))
     then good_selection (nTargetValue Q) S r else r = (False, {}, 0))"
proof -
  let ?T = "nTargetValue Q" and ?small = "smaller_coins E Q coins"
  let ?sum = "sum_list (map coin_value (filter (eligible E Q) coins))"
  have nonneg: "list_all (\<lambda>out. 0 \<le> coin_value out) coins" and big: "\<And>out. out \<in> set coins \<Longrightarrow> coin_value out < int64_max"
    using ok by (auto simp: coins_ok_def list_all_iff MAX_MONEY_def COIN_def int64_max_def)
  have one: "good_selection ?T S (take_coins [as_coin out])"
    if "out \<in> set coins" "eligible E Q out" "?T \<le> coin_value out" for out
    by (rule take_coins_good) (use that in \<open>auto simp: S_def\<close>)
  have reach: "?T \<le> ?sum" if "out \<in> set coins" "eligible E Q out" "?T \<le> coin_value out" for out
    using member_le_sum[of coins out "eligible E Q", OF nonneg that(1,2)] that(3) by linarith
  have cent: "0 < CENT" by (simp add: CENT_def)
  show ?thesis
  proof (cases "collect_coins E Q 0 coins ((int64_max, None), [], 0)")
    case (Inl c)
    then obtain out where "out \<in> set coins" "eligible E Q out" "coin_value out = ?T" "c = as_coin out"
      using collect_coins_Inl by blast
    then show ?thesis using one[of out] reach[of out] by (simp add: try_coins_def Inl)
  next
    case (Inr st)
    then obtain lowest larger v t where st: "st = ((lowest, larger), v, t)" by (metis prod.collapse)
    note run = Inr[unfolded st]
    have v: "v = map as_coin ?small" and t: "t = sum_list (map coin_value ?small)"
      using collect_coins_small[OF run] by simp_all
    have vt: "t = sum_list (map fst v)" by (simp add: v t comp_def)
    have dist: "distinct (map snd v)" using smaller_as_coin[OF ok] by (simp add: v)
    have sub: "set v \<subseteq> as_coin ` S" by (auto simp: v S_def)
    have low: "(lowest, larger) = (int64_max, None) \<or> (\<exists>out\<in>set coins. eligible E Q out \<and> ?T + CENT \<le> coin_value out \<and>
        (lowest, larger) = (coin_value out, Some (coin_id out)))"
      "\<And>out. out \<in> set coins \<Longrightarrow> eligible E Q out \<Longrightarrow> ?T + CENT \<le> coin_value out \<Longrightarrow> lowest \<le> coin_value out"
      using collect_coins_large[OF run] by auto
    have none: "?sum = t" if "larger = None"
    proof -
      have "lowest = int64_max" using low(1) that by auto
      then have "eligible E Q out \<Longrightarrow> coin_value out < ?T + CENT" if "out \<in> set coins" for out
        using low(2)[of out] big[OF that] that by (auto simp: not_less[symmetric])
      then have "filter (eligible E Q) coins = ?small" by (intro filter_cong) auto
      then show ?thesis by (simp add: t)
    qed
    have some: "good_selection ?T S (take_coins [(lowest, p)]) \<and> ?T \<le> ?sum" if "larger = Some p" for p
      using low(1) that one reach cent by fastforce
    have small_le: "t \<le> ?sum" unfolding t by (rule sum_filter_le[OF nonneg]) auto
    consider "t = ?T" | "t < ?T" | "?T < t" by linarith
    then show ?thesis
    proof cases
      case 1
      have "good_selection ?T S (take_coins v)" by (rule take_coins_good[OF dist sub]) (simp add: 1 flip: vt)
      then show ?thesis using 1 small_le by (simp add: try_coins_def run)
    next
      case 2
      then show ?thesis using none some by (cases larger) (auto simp: try_coins_def run)
    next
      case 3
      let ?v = "sort_values_down v"
      have sv: "sum_list (map fst ?v) = t" "set ?v = set v" "distinct (map snd ?v)"
        using dist unfolding vt
        by (metis mset_map mset_sort_values sum_mset_sum_list, metis mset_sort_values set_mset_mset,
            metis mset_eq_imp_distinct_iff mset_map mset_sort_values)
      obtain vf1 b1 where a1: "ApproximateBestSubset (cd_seed1 D) ?v t ?T 1000 = (vf1, b1)"
        "b1 = sum_list (map fst (chosen_coins ?v vf1))" "?T \<le> b1"
        using ApproximateBestSubset_ok[of ?T ?v "cd_seed1 D" 1000] 3 by (auto simp: sv(1))
      obtain vf2 b2 where a2: "?T + CENT \<le> t \<Longrightarrow> ApproximateBestSubset (cd_seed2 D) ?v t (?T + CENT) 1000 = (vf2, b2) \<and>
        b2 = sum_list (map fst (chosen_coins ?v vf2)) \<and> ?T + CENT \<le> b2"
        using ApproximateBestSubset_ok[of "?T + CENT" ?v "cd_seed2 D" 1000] by (auto simp: sv(1))
      have chosen: "good_selection ?T S (take_coins (chosen_coins ?v vf))" if "?T \<le> sum_list (map fst (chosen_coins ?v vf))" for vf
        by (rule take_coins_good[OF chosen_distinct[OF sv(3)]]) (use chosen_subset[of ?v vf] sub sv(2) that in auto)
      obtain vf b where ab: "(if b1 \<noteq> ?T \<and> t \<ge> ?T + CENT
           then ApproximateBestSubset (cd_seed2 D) ?v t (?T + CENT) 1000 else (vf1, b1)) = (vf, b)"
        and good: "good_selection ?T S (take_coins (chosen_coins ?v vf))"
        using a1 a2 chosen cent by (cases "b1 \<noteq> ?T \<and> t \<ge> ?T + CENT") auto
      have "\<exists>r. try_coins E D Q coins 0 = Some r \<and> good_selection ?T S r"
        using 3 good some by (cases larger) (auto simp: try_coins_def run a1(1) ab Let_def simp del: split_paired_Ex)
      then show ?thesis using 3 small_le by auto
    qed
  qed
qed

lemma SelectCoinsMinConf_result:
  assumes "coins_ok coins"
  shows "if nTargetValue Q \<le> sum_list (map coin_value (filter (eligible E Q) coins))
     then good_selection (nTargetValue Q) {out \<in> set coins. eligible E Q out} (SelectCoinsMinConf E D Q coins)
     else SelectCoinsMinConf E D Q coins = (False, {}, 0)"
proof -
  let ?c = "sort_denoms_down (random_shuffle (cd_shuffle D) coins)"
  have m: "mset ?c = mset coins" by simp
  have "coins_ok ?c" using assms coins_ok_mset[OF m] by simp
  then show ?thesis
    using try_coins_result[of ?c "{out \<in> set coins. eligible E Q out}" E Q D] eligible_sum_mset[OF m, of "eligible E Q"] mset_eq_setD[OF m]
    by (auto simp: SelectCoinsMinConf_def Let_def split: if_splits)
qed

section \<open>The available coins\<close>

lemma concat_if: "concat (map (\<lambda>i. if P i then [g i] else []) xs) = map g (filter P xs)"
  by (induction xs) auto

lemma concat_wallet: "concat (map (\<lambda>w. if P w then f w else []) ws) = concat (map f (filter P ws))"
  by (induction ws) auto

text \<open>An output that the wallet lists, of a transaction that passes a test.\<close>

definition listed_output :: "wallet_env \<Rightarrow> coin_control \<Rightarrow> AvailableCoinsType \<Rightarrow> CWalletTx \<Rightarrow> nat \<Rightarrow> bool" where
  "listed_output E coinControl coin_type w i \<longleftrightarrow>
     coin_type_found E coin_type (coin_ref_value (w, i)) \<and> \<not> IsSpent w i \<and>
     txout_IsMine E (vout (wt_tx w) ! i) \<noteq> ISMINE_NO \<and> mk_outpoint (wt_hash w) i \<notin> setLockedCoins E \<and>
     0 < coin_ref_value (w, i) \<and> (coinControl = {} \<or> mk_outpoint (wt_hash w) i \<in> coinControl)"

definition listed_tx :: "wallet_env \<Rightarrow> bool \<Rightarrow> bool \<Rightarrow> CWalletTx \<Rightarrow> bool" where
  "listed_tx E fOnlyConfirmed useIX w \<longleftrightarrow>
     wallet_IsFinal E w \<and> (fOnlyConfirmed \<longrightarrow> IsTrusted E w) \<and>
     (IsCoinBase (wt_tx w) \<or> IsCoinStake (wt_tx w) \<longrightarrow> GetBlocksToMaturity E w \<le> 0) \<and>
     0 < GetDepthInMainChain E w False \<and> (useIX \<longrightarrow> 10 \<le> GetDepthInMainChain E w False)"

abbreviation wallet_coin :: "wallet_env \<Rightarrow> int \<Rightarrow> CWalletTx \<Rightarrow> nat \<Rightarrow> COutput" where
  "wallet_coin E depth w i \<equiv>
     \<lparr>co_tx = w, co_i = i, co_nDepth = depth, fSpendable = may_spend (txout_IsMine E (vout (wt_tx w) ! i))\<rparr>"

lemma available_outputs_eq:
  "available_outputs E cc ty w depth =
     map (wallet_coin E depth w) (filter (listed_output E cc ty w) [0..<length (vout (wt_tx w))])"
  unfolding concat_if[symmetric] available_outputs_def
  by (rule arg_cong[of _ _ concat], rule map_cong) (auto simp: listed_output_def coin_ref_value_def Let_def)

lemma AvailableCoins_eq:
  "AvailableCoins E conf cc ty ix =
     concat (map (\<lambda>w. available_outputs E cc ty w (GetDepthInMainChain E w False)) (filter (listed_tx E conf ix) (mapWallet E)))"
  unfolding concat_wallet[symmetric] AvailableCoins_def
  by (rule arg_cong[of _ _ concat], rule map_cong) (auto simp: listed_tx_def Let_def not_less)

lemma map_coin_id: "map coin_id (map (wallet_coin E depth w) is) = map (Pair w) is"
  by (simp add: coin_id_def)

text \<open>Lists of coins, transaction by transaction.\<close>

lemma coins_by_tx:
  assumes "\<And>w. map coin_id (f w) = map (Pair w) (g w)" "\<And>w. distinct (g w)" "distinct ws"
  shows "distinct (map coin_id (concat (map f ws)))"
proof -
  have "map coin_id (concat (map f ws)) = concat (map (\<lambda>w. map (Pair w) (g w)) ws)"
    by (induction ws) (simp_all add: assms(1))
  moreover have "distinct (concat (map (\<lambda>w. map (Pair w) (g w)) ws))"
    using assms(3) by (induction ws) (auto simp: distinct_map assms(2) inj_on_def)
  ultimately show ?thesis by simp
qed

lemma AvailableCoins_set:
  "out \<in> set (AvailableCoins E conf cc ty ix) \<longleftrightarrow>
     (\<exists>w i. out = wallet_coin E (GetDepthInMainChain E w False) w i \<and> w \<in> set (mapWallet E) \<and> listed_tx E conf ix w \<and>
        i < length (vout (wt_tx w)) \<and> listed_output E cc ty w i)"
  by (auto simp: AvailableCoins_eq available_outputs_eq)

definition wallet_ok :: "wallet_env \<Rightarrow> bool" where
  "wallet_ok E \<longleftrightarrow> distinct (mapWallet E) \<and>
     list_all (\<lambda>w. list_all (\<lambda>out. 0 \<le> sint (nValue out) \<and> sint (nValue out) \<le> MAX_MONEY) (vout (wt_tx w))) (mapWallet E)"

lemma AvailableCoins_ok:
  assumes "wallet_ok E"
  shows "coins_ok (AvailableCoins E conf cc ty ix)"
proof -
  have "distinct (map coin_id (AvailableCoins E conf cc ty ix))"
    unfolding AvailableCoins_eq
    by (rule coins_by_tx[where g = "\<lambda>w. filter (listed_output E cc ty w) [0..<length (vout (wt_tx w))]"])
      (use assms in \<open>simp_all add: available_outputs_eq map_coin_id wallet_ok_def del: map_map\<close>)
  moreover have "0 \<le> coin_value out \<and> coin_value out \<le> MAX_MONEY" if "out \<in> set (AvailableCoins E conf cc ty ix)" for out
    using that assms unfolding AvailableCoins_set
    by (auto simp: listed_output_def coin_ref_value_def coin_value_def wallet_ok_def list_all_iff)
  ultimately show ?thesis by (simp add: coins_ok_def list_all_iff)
qed

section \<open>What the wallet pays with\<close>

text \<open>
  The outputs a payment may spend, whatever the kind of coins asked for: no denominated amount is one.
\<close>

definition payable :: "wallet_env \<Rightarrow> AvailableCoinsType \<Rightarrow> bool \<Rightarrow> uint32 \<Rightarrow> CWalletTx \<times> nat \<Rightarrow> bool" where
  "payable E coin_type useIX time = (\<lambda>(w, i).
     w \<in> set (mapWallet E) \<and> i < length (vout (wt_tx w)) \<and> listed_tx E True useIX w \<and>
     listed_output E {} coin_type w i \<and> may_spend (txout_IsMine E (vout (wt_tx w) ! i)) \<and>
     tx_nTime (wt_tx w) \<le> time \<and> \<not> IsDenominatedAmount (coin_ref_value (w, i)))"

definition effective_type :: "wallet_env \<Rightarrow> AvailableCoinsType \<Rightarrow> AvailableCoinsType" where
  "effective_type E ty = (if ty = ALL_COINS \<and> fMasternodeSoftLock E then ONLY_NONDENOMINATED_NOT10000IFMN else ty)"

lemma eligible_payable:
  assumes "nConfMine Q \<le> 1" "nConfTheirs Q \<le> 1"
  shows "coin_id ` {out \<in> set (AvailableCoins E True {} ty ix). eligible E Q out} = {c. payable E ty ix (nSpendTime Q) c}"
  using assms by (fastforce simp: AvailableCoins_set payable_def eligible_def coin_id_def coin_value_def coin_ref_value_def
      listed_tx_def image_iff)

lemma eligible_deeper:
  "eligible E Q out \<Longrightarrow> nConfMine Q' \<le> nConfMine Q \<Longrightarrow> nConfTheirs Q' \<le> nConfTheirs Q \<Longrightarrow> nSpendTime Q' = nSpendTime Q \<Longrightarrow>
   eligible E Q' out"
  by (auto simp: eligible_def split: if_splits)

lemma coins_sum:
  assumes "distinct (map coin_id xs)"
  shows "sum_list (map coin_value xs) = (\<Sum>c\<in>coin_id ` set xs. coin_ref_value c)"
proof -
  have "sum_list (map coin_value xs) = sum_list (map coin_ref_value (map coin_id xs))" by (simp add: comp_def)
  also have "\<dots> = (\<Sum>c\<in>set (map coin_id xs). coin_ref_value c)"
    using assms by (simp only: sum_list_distinct_conv_sum_set)
  finally show ?thesis by simp
qed

lemma eligible_total:
  assumes "coins_ok coins"
  shows "sum_list (map coin_value (filter P coins)) = (\<Sum>c\<in>coin_id ` {out \<in> set coins. P out}. coin_ref_value c)"
  using coins_sum[of "filter P coins"] assms by (simp add: coins_ok_def distinct_map_filter)

lemma SelectCoins_payment:
  assumes "wallet_ok E" "ty \<noteq> ONLY_DENOMINATED"
    and r_def: "r = SelectCoins E D target time {} ty ix" and P_def: "P = {c. payable E (effective_type E ty) ix time c}"
  shows "if target \<le> (\<Sum>c\<in>P. coin_ref_value c)
     then fst r \<and> target \<le> snd (snd r) \<and> fst (snd r) \<subseteq> P \<and> snd (snd r) = (\<Sum>c\<in>fst (snd r). coin_ref_value c)
     else r = (False, {}, 0)"
proof -
  let ?coins = "AvailableCoins E True {} (effective_type E ty) ix"
  let ?Q = "\<lambda>mine theirs. \<lparr>nTargetValue = target, nSpendTime = time, nConfMine = mine, nConfTheirs = theirs\<rparr>"
  let ?f = "\<lambda>k mine theirs. SelectCoinsMinConf E (D k) (?Q mine theirs) ?coins"
  have ok: "coins_ok ?coins" by (rule AvailableCoins_ok[OF assms(1)])
  have P: "coin_id ` {out \<in> set ?coins. eligible E (?Q m 1) out} = P" if "m \<le> 1" for m
    using eligible_payable[of "?Q m 1" E "effective_type E ty" ix] that by (simp add: P_def)
  have total: "sum_list (map coin_value (filter (eligible E (?Q m 1)) ?coins)) = (\<Sum>c\<in>P. coin_ref_value c)" if "m \<le> 1" for m
    using eligible_total[OF ok] P[OF that] by simp
  have run: "if target \<le> (\<Sum>c\<in>P. coin_ref_value c)
      then good_selection target {out \<in> set ?coins. eligible E (?Q m 1) out} (?f k m 1) else ?f k m 1 = (False, {}, 0)"
    if "m \<le> 1" for k m
    using SelectCoinsMinConf_result[OF ok, of "?Q m 1" E "D k"] total[OF that] by (auto split: if_splits)
  have sub: "{out \<in> set ?coins. eligible E (?Q 1 10) out} \<subseteq> {out \<in> set ?coins. eligible E (?Q 1 1) out}"
    using eligible_deeper[of E "?Q 1 10" _ "?Q 1 1"] by auto
  have "sum_list (map coin_value (filter (eligible E (?Q 1 10)) ?coins)) \<le> (\<Sum>c\<in>P. coin_ref_value c)"
    unfolding total[of 1, simplified, symmetric]
    by (rule sum_filter_le) (use ok sub in \<open>auto simp: coins_ok_def list_all_iff\<close>)
  then have first: "target \<le> (\<Sum>c\<in>P. coin_ref_value c) \<and>
      good_selection target {out \<in> set ?coins. eligible E (?Q 1 1) out} (?f 0 1 10)" if "fst (?f 0 1 10)"
    using SelectCoinsMinConf_result[OF ok, of "?Q 1 10" E "D 0"] good_selection_mono[OF _ sub] that
    by (cases "target \<le> sum_list (map coin_value (filter (eligible E (?Q 1 10)) ?coins))") simp_all
  have good: "fst r \<and> target \<le> snd (snd r) \<and> fst (snd r) \<subseteq> P \<and> snd (snd r) = (\<Sum>c\<in>fst (snd r). coin_ref_value c)"
    if "good_selection target {out \<in> set ?coins. eligible E (?Q m 1) out} r" "m \<le> 1" for m
    using that(1) P[OF that(2)] by (simp add: good_selection_def case_prod_unfold)
  have r: "r = (if fst (?f 0 1 10) then ?f 0 1 10 else if fst (?f 1 1 1) then ?f 1 1 1 else ?f 2 0 1)"
    using assms(2) by (simp add: r_def SelectCoins_def effective_type_def Let_def)
  show ?thesis
  proof (cases "fst (?f 0 1 10)")
    case True
    then show ?thesis using first good[of 1] r by simp
  next
    case False
    then show ?thesis using run[of 1 1] run[of 0 2] good[of 1] good[of 0] r by (auto split: if_splits)
  qed
qed

section \<open>Coins to stake\<close>

definition staking_tx :: "wallet_env \<Rightarrow> uint32 \<Rightarrow> CWalletTx \<Rightarrow> bool" where
  "staking_tx E time w \<longleftrightarrow>
     STAKE_MIN_CONFIRMATIONS \<le> GetDepthInMainChain E w True \<and>
     tx_nTime (wt_tx w) + of_int nStakeMinAge \<le> time \<and> time \<le> tx_nTime (wt_tx w) + of_int nStakeMaxAge \<and>
     GetBlocksToMaturity E w \<le> 0 \<and>
     \<not> list_ex (\<lambda>v. IsDenominatedAmount v \<or> v = GetMNCollateral (we_nBestHeight E) * COIN \<or> IsCollateralAmount v)
         (map (\<lambda>out. sint (nValue out)) (vout (wt_tx w)))"

definition staking_output :: "wallet_env \<Rightarrow> CWalletTx \<Rightarrow> nat \<Rightarrow> bool" where
  "staking_output E w i \<longleftrightarrow>
     \<not> IsSpent w i \<and> txout_IsMine E (vout (wt_tx w) ! i) \<noteq> ISMINE_NO \<and> nMinimumInputValue E \<le> coin_ref_value (w, i)"

lemma staking_outputs_eq:
  "concat (map (\<lambda>i. let mine = txout_IsMine E (vout (wt_tx w) ! i)
      in if \<not> IsSpent w i \<and> mine \<noteq> ISMINE_NO \<and> map (\<lambda>out. sint (nValue out)) (vout (wt_tx w)) ! i \<ge> nMinimumInputValue E
         then [\<lparr>co_tx = w, co_i = i, co_nDepth = depth, fSpendable = may_spend mine\<rparr>] else [])
      [0..<length (vout (wt_tx w))]) =
   map (wallet_coin E depth w) (filter (staking_output E w) [0..<length (vout (wt_tx w))])"
  unfolding concat_if[symmetric]
  by (rule arg_cong[of _ _ concat], rule map_cong) (auto simp: staking_output_def coin_ref_value_def Let_def)

lemma AvailableCoinsForStaking_eq:
  "AvailableCoinsForStaking E time =
     concat (map (\<lambda>w. map (wallet_coin E (GetDepthInMainChain E w True) w)
       (filter (staking_output E w) [0..<length (vout (wt_tx w))])) (filter (staking_tx E time) (mapWallet E)))"
proof -
  have "AvailableCoinsForStaking E time = concat (map (\<lambda>w.
    if staking_tx E time w
    then map (wallet_coin E (GetDepthInMainChain E w True) w) (filter (staking_output E w) [0..<length (vout (wt_tx w))])
    else []) (mapWallet E))"
    unfolding AvailableCoinsForStaking_def staking_outputs_eq[symmetric]
    by (rule arg_cong[of _ _ concat], rule map_cong)
      (auto simp: staking_tx_def Let_def not_less STAKE_MIN_CONFIRMATIONS_def)
  then show ?thesis by (simp only: concat_wallet)
qed

text \<open>The outputs that may be staked.\<close>

definition stakeable :: "wallet_env \<Rightarrow> uint32 \<Rightarrow> CWalletTx \<times> nat \<Rightarrow> bool" where
  "stakeable E time = (\<lambda>(w, i).
     w \<in> set (mapWallet E) \<and> staking_tx E time w \<and> i < length (vout (wt_tx w)) \<and> staking_output E w i \<and>
     may_spend (txout_IsMine E (vout (wt_tx w) ! i)))"

lemma stakeable_set: "coin_id ` {out \<in> set (AvailableCoinsForStaking E time). fSpendable out} = {c. stakeable E time c}"
  by (fastforce simp: AvailableCoinsForStaking_eq stakeable_def coin_id_def image_iff)

lemma staking_coins_distinct:
  assumes "wallet_ok E"
  shows "distinct (map coin_id (AvailableCoinsForStaking E time))"
  unfolding AvailableCoinsForStaking_eq
  by (rule coins_by_tx[where g = "\<lambda>w. filter (staking_output E w) [0..<length (vout (wt_tx w))]"])
    (use assms in \<open>simp_all add: map_coin_id wallet_ok_def del: map_map\<close>)

lemma staking_loop_result:
  assumes "staking_loop target coins chosen v = (chosen', v')" "v = sum_list (map coin_value chosen)"
    "chosen \<noteq> [] \<Longrightarrow> sum_list (map coin_value (butlast chosen)) < target"
    "0 \<le> v" "list_all (\<lambda>out. 0 \<le> coin_value out) coins"
  shows "\<exists>picked. chosen' = chosen @ picked \<and> mset picked \<subseteq># mset (filter fSpendable coins) \<and>
    v' = sum_list (map coin_value chosen') \<and> (target \<le> v' \<or> picked = filter fSpendable coins) \<and>
    (chosen' \<noteq> [] \<longrightarrow> sum_list (map coin_value (butlast chosen')) < target)"
  using assms
proof (induction target coins chosen v rule: staking_loop.induct)
  case (2 target out rest chosen v)
  have cent: "0 < CENT" by (simp add: CENT_def)
  consider "\<not> fSpendable out" | "fSpendable out" "v \<ge> target"
    | "fSpendable out" "\<not> v \<ge> target" "coin_value out \<ge> target"
    | "fSpendable out" "\<not> v \<ge> target" "coin_value out < target" by linarith
  then show ?case
  proof cases
    case 1
    then show ?thesis using 2 by simp
  next
    case 2: 2
    then show ?thesis using "2.prems" by (intro exI[of _ "[]"]) auto
  next
    case 3
    then show ?thesis
      using "2.prems" cent by (intro exI[of _ "[out]"]) (auto simp: butlast_append)
  next
    case 4
    have "staking_loop target rest (chosen @ [out]) (v + coin_value out) = (chosen', v')"
      using "2.prems"(1) 4 cent by simp
    then obtain picked where "chosen' = (chosen @ [out]) @ picked" "mset picked \<subseteq># mset (filter fSpendable rest)"
      "v' = sum_list (map coin_value chosen')" "target \<le> v' \<or> picked = filter fSpendable rest"
      "chosen' \<noteq> [] \<longrightarrow> sum_list (map coin_value (butlast chosen')) < target"
      using "2.IH"(2) 4 cent "2.prems"(2,4,5) by (fastforce simp: butlast_append)
    then show ?thesis using 4(1) by (intro exI[of _ "out # picked"]) auto
  qed
qed auto

lemma SelectCoinsForStaking_result:
  assumes "wallet_ok E" "SelectCoinsForStaking E target time = (chosen, v)"
  shows "chosen \<subseteq> {c. stakeable E time c} \<and> v = (\<Sum>c\<in>chosen. coin_ref_value c) \<and>
    (target \<le> v \<or> chosen = {c. stakeable E time c}) \<and>
    (chosen \<noteq> {} \<longrightarrow> (\<exists>c\<in>chosen. (\<Sum>c\<in>chosen - {c}. coin_ref_value c) < target))"
proof -
  let ?coins = "AvailableCoinsForStaking E time"
  obtain outs where run: "staking_loop target ?coins [] 0 = (outs, v)" and ids: "chosen = coin_id ` set outs"
    using assms(2) by (auto simp: SelectCoinsForStaking_def split: prod.splits)
  have nonneg: "list_all (\<lambda>out. 0 \<le> coin_value out) ?coins"
    using assms(1) by (auto simp: AvailableCoinsForStaking_eq list_all_iff wallet_ok_def coin_value_def)
  have picked: "mset outs \<subseteq># mset (filter fSpendable ?coins)" "v = sum_list (map coin_value outs)"
    "target \<le> v \<or> outs = filter fSpendable ?coins"
    "outs \<noteq> [] \<longrightarrow> sum_list (map coin_value (butlast outs)) < target"
    using staking_loop_result[OF run _ _ _ nonneg] by auto
  have "distinct (map coin_id (filter fSpendable ?coins))"
    using staking_coins_distinct[OF assms(1)] by (simp add: distinct_map_filter)
  moreover have "mset (map coin_id outs) \<subseteq># mset (map coin_id (filter fSpendable ?coins))"
    using image_mset_subseteq_mono[OF picked(1), of coin_id] by simp
  ultimately have d: "distinct (map coin_id outs)" by (rule distinct_submset)
  have sub: "chosen \<subseteq> {c. stakeable E time c}"
    using set_mset_mono[OF picked(1)] by (auto simp: ids stakeable_set[symmetric])
  have all: "target \<le> v \<or> chosen = {c. stakeable E time c}"
    using picked(3) by (auto simp: ids stakeable_set[symmetric])
  have last: "\<exists>c\<in>chosen. (\<Sum>c\<in>chosen - {c}. coin_ref_value c) < target" if ne: "chosen \<noteq> {}"
  proof -
    obtain init out where o: "outs = init @ [out]" using ne by (cases outs rule: rev_cases) (auto simp: ids)
    have rest: "coin_id ` set init = chosen - {coin_id out}" and di: "distinct (map coin_id init)"
      using d by (auto simp: ids o)
    have "(\<Sum>c\<in>chosen - {coin_id out}. coin_ref_value c) < target"
      using picked(4) coins_sum[OF di] by (simp add: o rest)
    then show ?thesis by (intro bexI[of _ "coin_id out"]) (simp_all add: ids o)
  qed
  show ?thesis using sub all last picked(2) coins_sum[OF d] by (simp add: ids)
qed

text \<open>A wallet with one transaction: an output of five coins and one of the denomination of a coin.\<close>

definition demo_wallet_tx :: CWalletTx where
  "demo_wallet_tx = \<lparr>wt_hash = 7,
     wt_tx = \<lparr>tx_nVersion = 1, tx_nTime = 10, vin = [],
       vout = [\<lparr>nValue = 500000000, nRounds = - 10, scriptPubKey = []\<rparr>,
               \<lparr>nValue = 100001000, nRounds = - 10, scriptPubKey = []\<rparr>], nLockTime = 0, tx_nDoS = 0\<rparr>,
     wt_hashBlock = 3, wt_vMerkleBranch = [], wt_nIndex = 0, fMerkleVerified = True, vfSpent = [False, False]\<rparr>"

definition demo_wallet :: wallet_env where
  "demo_wallet = \<lparr>mapWallet = [demo_wallet_tx], setLockedCoins = {}, txout_IsMine = \<lambda>_. ISMINE_SPENDABLE,
     IsFromMe = \<lambda>_. False, main_block = \<lambda>_. Some (100, 0), we_nBestHeight = 1000, we_AdjustedTime = 0,
     pool_exists = \<lambda>_. False, LockSignatures = \<lambda>_. 0, nInstantXDepth = 0, we_Hash = \<lambda>_. 7, fMasterNode = False,
     fMasternodeSoftLock = False, fConfChange = False, nMinimumInputValue = 0, InputDarksendRounds = \<lambda>_. 0,
     nDarksendRounds = 2\<rparr>"

definition demo_draws :: coin_draws where
  "demo_draws = \<lparr>cd_shuffle = \<lambda>i. i, cd_seed1 = (11, 11), cd_seed2 = (12, 12)\<rparr>"

lemma demo_wallet_simps [simp]:
  "mapWallet demo_wallet = [demo_wallet_tx]" "wallet_ok demo_wallet" "fMasternodeSoftLock demo_wallet = False"
  "nMinimumInputValue demo_wallet = 0"
  "txout_IsMine demo_wallet = (\<lambda>_. ISMINE_SPENDABLE)" "tx_nTime (wt_tx demo_wallet_tx) = 10"
  "length (vout (wt_tx demo_wallet_tx)) = 2" "vout (wt_tx demo_wallet_tx) \<noteq> []" "coin_ref_value (demo_wallet_tx, 0) = 500000000"
  "coin_ref_value (demo_wallet_tx, Suc 0) = 100001000"
  by (simp_all add: demo_wallet_def demo_wallet_tx_def wallet_ok_def coin_ref_value_def MAX_MONEY_def COIN_def)

lemma demo_listed: "listed_tx demo_wallet True False demo_wallet_tx"
  by (simp add: listed_tx_def IsTrusted_def wallet_IsFinal_def IsFinalTx_def GetDepthInMainChain_def
      GetDepthInMainChainINTERNAL_def IsCoinBase_def IsCoinStake_def demo_wallet_def demo_wallet_tx_def)

lemma demo_listed_output: "i < 2 \<Longrightarrow> listed_output demo_wallet {} ALL_COINS demo_wallet_tx i"
  by (auto simp: listed_output_def coin_type_found_def IsSpent_def demo_wallet_def demo_wallet_tx_def less_2_cases_iff
      coin_ref_value_def)

lemma demo_payable: "{c. payable demo_wallet ALL_COINS False 20 c} = {(demo_wallet_tx, 0)}"
  using demo_listed demo_listed_output
  by (auto simp: payable_def less_2_cases_iff IsDenominatedAmount_def darkSendDenominations_def COIN_def)

text \<open>The same wallet with the first output only.\<close>

definition demo_stake_tx :: CWalletTx where
  "demo_stake_tx = demo_wallet_tx\<lparr>wt_tx := (wt_tx demo_wallet_tx)\<lparr>vout := [vout (wt_tx demo_wallet_tx) ! 0]\<rparr>\<rparr>"

definition demo_staker :: wallet_env where
  "demo_staker = demo_wallet\<lparr>mapWallet := [demo_stake_tx]\<rparr>"

lemma demo_staker_ok: "wallet_ok demo_staker"
  by (simp add: demo_staker_def demo_stake_tx_def wallet_ok_def demo_wallet_tx_def MAX_MONEY_def COIN_def)

lemma demo_staking_tx: "staking_tx demo_staker 100000 demo_stake_tx"
  by (simp add: staking_tx_def demo_staker_def demo_wallet_def demo_stake_tx_def demo_wallet_tx_def IsDenominatedAmount_def
      darkSendDenominations_def IsCollateralAmount_def DARKSEND_COLLATERAL_def COIN_def GetMNCollateral_def
      STAKE_MIN_CONFIRMATIONS_def nStakeMinAge_def nStakeMaxAge_def GetBlocksToMaturity_def IsCoinBase_def IsCoinStake_def
      GetDepthInMainChain_def GetDepthInMainChainINTERNAL_def)

lemma demo_stake_value: "coin_ref_value (demo_stake_tx, 0) = 500000000"
  by (simp add: coin_ref_value_def demo_stake_tx_def demo_wallet_tx_def)

lemma demo_stakeable: "{c. stakeable demo_staker 100000 c} = {(demo_stake_tx, 0)}"
  using demo_staking_tx demo_stake_value
  by (auto simp: stakeable_def staking_output_def IsSpent_def)
    (simp_all add: demo_staker_def demo_wallet_def demo_stake_tx_def demo_wallet_tx_def)

section \<open>Properties\<close>

text \<open> C13.
  What the wallet pays with.  Without coin control, and for every kind of coins but denominated ones,
  \<open>SelectCoins\<close> succeeds exactly when all that is payable together reaches the amount, whatever the
  shuffle and the random subsets; then the coins it picks are payable, their sum is the value it reports and
  reaches the amount; otherwise it picks nothing.  Payable is: confirmed, mature, final, trusted, unspent,
  unlocked, ours to spend - and of no denomination, even when all coins are asked for: the run that would
  take denominated coins is never reached.
\<close>

theorem coin_selection_exact:
  assumes "wallet_ok E" "ty \<noteq> ONLY_DENOMINATED"
  shows "case SelectCoins E D target time {} ty useIX of (ok, chosen, nValueRet) \<Rightarrow>
     let P = {c. payable E (effective_type E ty) useIX time c}
     in if target \<le> (\<Sum>c\<in>P. coin_ref_value c)
        then ok \<and> target \<le> nValueRet \<and> chosen \<subseteq> P \<and> nValueRet = (\<Sum>c\<in>chosen. coin_ref_value c)
        else \<not> ok \<and> chosen = {} \<and> nValueRet = 0"
  using SelectCoins_payment[OF assms refl refl, where D = D and target = target and time = time and ix = useIX]
  by (auto simp: case_prod_unfold Let_def split: if_splits)

text \<open>Two coins can be paid, six cannot, although the wallet has more than six.\<close>

lemma coin_selection_exact_witness:
  "fst (SelectCoins demo_wallet (\<lambda>_. demo_draws) 200000000 20 {} ALL_COINS False) \<and>
   \<not> fst (SelectCoins demo_wallet (\<lambda>_. demo_draws) 600000000 20 {} ALL_COINS False)"
  using coin_selection_exact[where E = demo_wallet and ty = ALL_COINS and D = "\<lambda>_. demo_draws" and target = 200000000 and time = 20 and useIX = False]
    coin_selection_exact[where E = demo_wallet and ty = ALL_COINS and D = "\<lambda>_. demo_draws" and target = 600000000 and time = 20 and useIX = False]
  by (simp add: effective_type_def demo_payable Let_def case_prod_unfold)

text \<open>
  The coins to stake.  What \<open>SelectCoinsForStaking\<close> picks may be staked: spendable, deep, old and
  mature enough, of a transaction with no denominated amount, collateral or masternode amount.  The sum
  is that of the coins; it reaches the target or every coin that may be staked is picked; and some coin picked
  is needed to reach the target.
\<close>

theorem staking_selection:
  assumes "wallet_ok E"
  shows "case SelectCoinsForStaking E target time of (chosen, nValueRet) \<Rightarrow>
     chosen \<subseteq> {c. stakeable E time c} \<and> nValueRet = (\<Sum>c\<in>chosen. coin_ref_value c) \<and>
     (\<not> target \<le> nValueRet \<longrightarrow> chosen = {c. stakeable E time c}) \<and>
     (chosen \<noteq> {} \<longrightarrow> (\<exists>c\<in>chosen. (\<Sum>c\<in>chosen - {c}. coin_ref_value c) < target))"
  using SelectCoinsForStaking_result[OF assms] by (auto split: prod.split)

lemma staking_selection_witness:
  "SelectCoinsForStaking demo_staker 100 100000 = ({(demo_stake_tx, 0)}, 500000000)"
proof -
  obtain chosen v where r: "SelectCoinsForStaking demo_staker 100 100000 = (chosen, v)" by (cases "SelectCoinsForStaking demo_staker 100 100000")
  have "chosen \<subseteq> {(demo_stake_tx, 0)}" "v = (\<Sum>c\<in>chosen. coin_ref_value c)" "\<not> 100 \<le> v \<longrightarrow> chosen = {(demo_stake_tx, 0)}"
    using staking_selection[OF demo_staker_ok, where target = 100 and time = 100000]
    unfolding r demo_stakeable prod.case by blast+
  then have "chosen = {(demo_stake_tx, 0)}" by (cases "chosen = {}") (simp, blast)
  then show ?thesis using \<open>v = _\<close> unfolding r by (simp add: demo_stake_value)
qed

end
