(* ===== verification/CryptoStore.thy ===== *)
theory CryptoStore
  imports KeyStore Base58
begin

text \<open>
  Encrypted key stores: \<open>CCrypter\<close>, \<open>EncryptSecret\<close>, \<open>DecryptSecret\<close> and \<open>CCryptoKeyStore\<close> of
  \<open>src/src/crypter.h\<close> and \<open>src/src/crypter.cpp\<close>.  The store is in one of three states: not encrypted,
  locked, unlocked.  AES and the derivation of keys are OpenSSL's, public keys the curve's: parameters.
\<close>

section \<open>Secrets\<close>

text \<open>
  AES-256 in CBC mode with key and initial vector (of which it reads the first half), as the \<open>EVP\<close> calls do
  it; \<open>EVP_BytesToKey\<close> gives the size of the key, the key and the vector.
\<close>

record crypt_env =
  aes_encrypt :: "bytes \<Rightarrow> bytes \<Rightarrow> bytes \<Rightarrow> bytes option"
  aes_decrypt :: "bytes \<Rightarrow> bytes \<Rightarrow> bytes \<Rightarrow> bytes option"
  EVP_BytesToKey :: "bytes \<Rightarrow> bytes \<Rightarrow> nat \<Rightarrow> nat \<times> bytes \<times> bytes"
  scrypt_hash :: "bytes \<Rightarrow> bytes \<Rightarrow> nat \<Rightarrow> bytes"
  key_PubKey :: "ckey \<Rightarrow> pubkey"
  key_Check :: "bytes \<Rightarrow> bool"
  ce_Hash160 :: "bytes \<Rightarrow> uint160"
  ce_Hash :: "bytes \<Rightarrow> uint256"

definition WALLET_CRYPTO_KEY_SIZE :: nat where "WALLET_CRYPTO_KEY_SIZE = 32"
definition WALLET_CRYPTO_SALT_SIZE :: nat where "WALLET_CRYPTO_SALT_SIZE = 8"

record CCrypter =
  chKey :: bytes
  chIV :: bytes
  fKeySet :: bool

text \<open>A crypter in fresh memory; no operation reads what the memory held.\<close>

definition new_crypter :: CCrypter where
  "new_crypter = \<lparr>chKey = replicate WALLET_CRYPTO_KEY_SIZE 0, chIV = replicate WALLET_CRYPTO_KEY_SIZE 0, fKeySet = False\<rparr>"

definition SetKeyFromPassphrase ::
  "crypt_env \<Rightarrow> CCrypter \<Rightarrow> bytes \<Rightarrow> bytes \<Rightarrow> nat \<Rightarrow> nat \<Rightarrow> bool \<times> CCrypter" where
  "SetKeyFromPassphrase E c strKeyData chSalt rounds nDerivationMethod =
     (if rounds < 1 \<or> length chSalt \<noteq> WALLET_CRYPTO_SALT_SIZE then (False, c)
      else
        let (i, key, iv) =
              (if nDerivationMethod = 0 then EVP_BytesToKey E strKeyData chSalt rounds
               else if nDerivationMethod = 1
               then EVP_BytesToKey E (scrypt_hash E strKeyData chSalt rounds) chSalt rounds
               else (0, chKey c, chIV c))
        in if i \<noteq> WALLET_CRYPTO_KEY_SIZE
           then (False, c\<lparr>chKey := replicate (length (chKey c)) 0, chIV := replicate (length (chIV c)) 0\<rparr>)
           else (True, c\<lparr>chKey := key, chIV := iv @ drop (length iv) (chIV c), fKeySet := True\<rparr>))"

definition SetKey :: "CCrypter \<Rightarrow> bytes \<Rightarrow> bytes \<Rightarrow> bool \<times> CCrypter" where
  "SetKey c chNewKey chNewIV =
     (if length chNewKey \<noteq> WALLET_CRYPTO_KEY_SIZE \<or> length chNewIV \<noteq> WALLET_CRYPTO_KEY_SIZE then (False, c)
      else (True, c\<lparr>chKey := chNewKey, chIV := chNewIV, fKeySet := True\<rparr>))"

definition Encrypt :: "crypt_env \<Rightarrow> CCrypter \<Rightarrow> bytes \<Rightarrow> bytes option" where
  "Encrypt E c vchPlaintext = (if \<not> fKeySet c then None else aes_encrypt E (chKey c) (chIV c) vchPlaintext)"

definition Decrypt :: "crypt_env \<Rightarrow> CCrypter \<Rightarrow> bytes \<Rightarrow> bytes option" where
  "Decrypt E c vchCiphertext = (if \<not> fKeySet c then None else aes_decrypt E (chKey c) (chIV c) vchCiphertext)"

definition EncryptSecret :: "crypt_env \<Rightarrow> bytes \<Rightarrow> bytes \<Rightarrow> uint256 \<Rightarrow> bytes option" where
  "EncryptSecret E vMasterKey vchPlaintext nIV =
     (case SetKey new_crypter vMasterKey (word_bytes 32 nIV) of
        (ok, cKeyCrypter) \<Rightarrow> if \<not> ok then None else Encrypt E cKeyCrypter vchPlaintext)"

definition DecryptSecret :: "crypt_env \<Rightarrow> bytes \<Rightarrow> bytes \<Rightarrow> uint256 \<Rightarrow> bytes option" where
  "DecryptSecret E vMasterKey vchCiphertext nIV =
     (case SetKey new_crypter vMasterKey (word_bytes 32 nIV) of
        (ok, cKeyCrypter) \<Rightarrow> if \<not> ok then None else Decrypt E cKeyCrypter vchCiphertext)"

text \<open>The general routines take a vector of one block.\<close>

definition AES_BLOCK_SIZE :: nat where "AES_BLOCK_SIZE = 16"

definition EncryptAES256 :: "crypt_env \<Rightarrow> bytes \<Rightarrow> bytes \<Rightarrow> bytes \<Rightarrow> bytes option" where
  "EncryptAES256 E sKey sPlaintext sIV =
     (if length sKey \<noteq> 32 \<or> length sIV \<noteq> AES_BLOCK_SIZE then None else aes_encrypt E sKey sIV sPlaintext)"

definition DecryptAES256 :: "crypt_env \<Rightarrow> bytes \<Rightarrow> bytes \<Rightarrow> bytes \<Rightarrow> bytes option" where
  "DecryptAES256 E sKey sCiphertext sIV =
     (if length sKey \<noteq> 32 \<or> length sIV \<noteq> AES_BLOCK_SIZE then None else aes_decrypt E sKey sIV sCiphertext)"

section \<open>The store\<close>

text \<open>\<open>mapCryptedKeys\<close> is the list of its entries in the order of their addresses.\<close>

type_synonym crypted_map = "(uint160 \<times> pubkey \<times> bytes) list"

record CCryptoKeyStore = "ckey CBasicKeyStore" +
  fUseCrypto :: bool
  mapCryptedKeys :: crypted_map
  vMasterKey :: bytes

definition new_crypto_store :: CCryptoKeyStore where
  "new_crypto_store = \<lparr>mapKeys = Map.empty, mapScripts = Map.empty, setWatchOnly = {},
     fUseCrypto = False, mapCryptedKeys = [], vMasterKey = []\<rparr>"

fun crypted_insert :: "uint160 \<Rightarrow> pubkey \<times> bytes \<Rightarrow> crypted_map \<Rightarrow> crypted_map" where
  "crypted_insert a x [] = [(a, x)]"
| "crypted_insert a x ((b, y) # m) =
     (if a < b then (a, x) # (b, y) # m else if a = b then (a, x) # m else (b, y) # crypted_insert a x m)"

definition IsCrypted :: "CCryptoKeyStore \<Rightarrow> bool" where
  "IsCrypted st = fUseCrypto st"

definition IsLocked :: "CCryptoKeyStore \<Rightarrow> bool" where
  "IsLocked st = (if \<not> IsCrypted st then False else vMasterKey st = [])"

definition SetCrypted :: "CCryptoKeyStore \<Rightarrow> bool \<times> CCryptoKeyStore" where
  "SetCrypted st =
     (if fUseCrypto st then (True, st)
      else if mapKeys st \<noteq> Map.empty then (False, st)
      else (True, st\<lparr>fUseCrypto := True\<rparr>))"

definition LockKeyStore :: "CCryptoKeyStore \<Rightarrow> bool \<times> CCryptoKeyStore" where
  "LockKeyStore st =
     (case SetCrypted st of (ok, st) \<Rightarrow> if \<not> ok then (False, st) else (True, st\<lparr>vMasterKey := []\<rparr>))"

text \<open>A key set from a secret; the new key is invalid until then.\<close>

definition key_of_secret :: "crypt_env \<Rightarrow> bytes \<Rightarrow> pubkey \<Rightarrow> ckey" where
  "key_of_secret E vchSecret vchPubKey =
     ckey_Set (key_Check E) vchSecret (pk_IsCompressed vchPubKey)
       \<lparr>ck_fValid = False, ck_fCompressed = False, ck_vch = replicate 32 0\<rparr>"

text \<open>The loop of \<open>Unlock\<close> leaves at its first key, by \<open>break\<close> or by returning false.\<close>

fun unlock_check :: "crypt_env \<Rightarrow> bytes \<Rightarrow> crypted_map \<Rightarrow> bool" where
  "unlock_check E vMasterKeyIn [] = True"
| "unlock_check E vMasterKeyIn ((a, vchPubKey, vchCryptedSecret) # m) =
     (case DecryptSecret E vMasterKeyIn vchCryptedSecret (pk_GetHash (ce_Hash E) vchPubKey) of
        None \<Rightarrow> False
      | Some vchSecret \<Rightarrow>
          if length vchSecret \<noteq> 32 then False
          else if pk_eq (key_PubKey E (key_of_secret E vchSecret vchPubKey)) vchPubKey then True
          else False)"

definition Unlock :: "crypt_env \<Rightarrow> bytes \<Rightarrow> CCryptoKeyStore \<Rightarrow> bool \<times> CCryptoKeyStore" where
  "Unlock E vMasterKeyIn st =
     (case SetCrypted st of
        (ok, st) \<Rightarrow>
          if \<not> ok then (False, st)
          else if \<not> unlock_check E vMasterKeyIn (mapCryptedKeys st) then (False, st)
          else (True, st\<lparr>vMasterKey := vMasterKeyIn\<rparr>))"

definition AddCryptedKey ::
  "crypt_env \<Rightarrow> pubkey \<Rightarrow> bytes \<Rightarrow> CCryptoKeyStore \<Rightarrow> bool \<times> CCryptoKeyStore" where
  "AddCryptedKey E vchPubKey vchCryptedSecret st =
     (case SetCrypted st of
        (ok, st) \<Rightarrow>
          if \<not> ok then (False, st)
          else (True, st\<lparr>mapCryptedKeys :=
            crypted_insert (pk_GetID (ce_Hash160 E) vchPubKey) (vchPubKey, vchCryptedSecret) (mapCryptedKeys st)\<rparr>))"

text \<open>The bytes from \<open>begin\<close> to \<open>end\<close> of a key.\<close>

definition key_bytes :: "ckey \<Rightarrow> bytes" where
  "key_bytes key = take (ckey_size key) (ck_vch key)"

definition crypto_AddKeyPubKey ::
  "crypt_env \<Rightarrow> ckey \<Rightarrow> pubkey \<Rightarrow> CCryptoKeyStore \<Rightarrow> bool \<times> CCryptoKeyStore" where
  "crypto_AddKeyPubKey E key pubkey st =
     (if \<not> IsCrypted st then (True, st\<lparr>mapKeys := (mapKeys st)(pk_GetID (ce_Hash160 E) pubkey \<mapsto> key)\<rparr>)
      else if IsLocked st then (False, st)
      else case EncryptSecret E (vMasterKey st) (key_bytes key) (pk_GetHash (ce_Hash E) pubkey) of
             None \<Rightarrow> (False, st)
           | Some vchCryptedSecret \<Rightarrow> AddCryptedKey E pubkey vchCryptedSecret st)"

definition crypto_HaveKey :: "CCryptoKeyStore \<Rightarrow> uint160 \<Rightarrow> bool" where
  "crypto_HaveKey st address =
     (if \<not> IsCrypted st then mapKeys st address \<noteq> None else map_of (mapCryptedKeys st) address \<noteq> None)"

definition crypto_GetKey :: "crypt_env \<Rightarrow> CCryptoKeyStore \<Rightarrow> uint160 \<Rightarrow> ckey option" where
  "crypto_GetKey E st address =
     (if \<not> IsCrypted st then mapKeys st address
      else case map_of (mapCryptedKeys st) address of
             None \<Rightarrow> None
           | Some (vchPubKey, vchCryptedSecret) \<Rightarrow>
               (case DecryptSecret E (vMasterKey st) vchCryptedSecret (pk_GetHash (ce_Hash E) vchPubKey) of
                  None \<Rightarrow> None
                | Some vchSecret \<Rightarrow>
                    if length vchSecret \<noteq> 32 then None else Some (key_of_secret E vchSecret vchPubKey)))"

definition crypto_GetPubKey :: "crypt_env \<Rightarrow> CCryptoKeyStore \<Rightarrow> uint160 \<Rightarrow> pubkey option" where
  "crypto_GetPubKey E st address =
     (if \<not> IsCrypted st then CKeyStore_GetPubKey (crypto_GetKey E) (key_PubKey E) st address
      else map_option fst (map_of (mapCryptedKeys st) address))"

definition crypto_GetKeys :: "CCryptoKeyStore \<Rightarrow> uint160 set" where
  "crypto_GetKeys st = (if \<not> IsCrypted st then dom (mapKeys st) else set (map fst (mapCryptedKeys st)))"

text \<open>The keys in the order of their addresses.\<close>

fun encrypt_loop ::
  "crypt_env \<Rightarrow> bytes \<Rightarrow> uint160 list \<Rightarrow> CCryptoKeyStore \<Rightarrow> bool \<times> CCryptoKeyStore" where
  "encrypt_loop E vMasterKeyIn [] st = (True, st)"
| "encrypt_loop E vMasterKeyIn (a # as) st =
     (let key = the (mapKeys st a);
          vchPubKey = key_PubKey E key
      in case EncryptSecret E vMasterKeyIn (key_bytes key) (pk_GetHash (ce_Hash E) vchPubKey) of
           None \<Rightarrow> (False, st)
         | Some vchCryptedSecret \<Rightarrow>
             (case AddCryptedKey E vchPubKey vchCryptedSecret st of
                (ok, st) \<Rightarrow> if \<not> ok then (False, st) else encrypt_loop E vMasterKeyIn as st))"

definition EncryptKeys :: "crypt_env \<Rightarrow> bytes \<Rightarrow> CCryptoKeyStore \<Rightarrow> bool \<times> CCryptoKeyStore" where
  "EncryptKeys E vMasterKeyIn st =
     (if mapCryptedKeys st \<noteq> [] \<or> IsCrypted st then (False, st)
      else case encrypt_loop E vMasterKeyIn (sorted_list_of_set (dom (mapKeys st))) (st\<lparr>fUseCrypto := True\<rparr>) of
             (ok, st) \<Rightarrow> if \<not> ok then (False, st) else (True, st\<lparr>mapKeys := Map.empty\<rparr>))"

section \<open>What the store relies on\<close>

text \<open>Decryption undoes encryption.\<close>

definition aes_documented :: "crypt_env \<Rightarrow> bool" where
  "aes_documented E \<longleftrightarrow> (\<forall>k iv p. length k = 32 \<and> length iv \<ge> AES_BLOCK_SIZE \<longrightarrow>
     (\<exists>c. aes_encrypt E k iv p = Some c \<and> aes_decrypt E k iv c = Some p))"

text \<open>A valid key, whose public key is compressed as it is.\<close>

definition good_key :: "crypt_env \<Rightarrow> ckey \<Rightarrow> bool" where
  "good_key E key \<longleftrightarrow> ck_fValid key \<and> length (ck_vch key) = 32 \<and> key_Check E (ck_vch key) \<and>
     pk_IsCompressed (key_PubKey E key) = ck_fCompressed key"

text \<open>The entry of a key under a master key.\<close>

definition sealed :: "crypt_env \<Rightarrow> bytes \<Rightarrow> pubkey \<times> bytes \<Rightarrow> ckey \<Rightarrow> bool" where
  "sealed E M x key \<longleftrightarrow> fst x = key_PubKey E key \<and>
     DecryptSecret E M (snd x) (pk_GetHash (ce_Hash E) (fst x)) = Some (ck_vch key)"

section \<open>The keys a store holds\<close>

abbreviation key_id :: "crypt_env \<Rightarrow> ckey \<Rightarrow> uint160" where
  "key_id E key \<equiv> pk_GetID (ce_Hash160 E) (key_PubKey E key)"

definition sealed_by :: "crypt_env \<Rightarrow> bytes \<Rightarrow> (uint160 \<rightharpoonup> ckey) \<Rightarrow> crypted_map \<Rightarrow> bool" where
  "sealed_by E M ks m \<longleftrightarrow> (\<forall>a x key. map_of m a = Some x \<longrightarrow> ks a = Some key \<longrightarrow> sealed E M x key)"

definition keys_ok :: "crypt_env \<Rightarrow> (uint160 \<rightharpoonup> ckey) \<Rightarrow> bool" where
  "keys_ok E ks \<longleftrightarrow> finite (dom ks) \<and> (\<forall>a key. ks a = Some key \<longrightarrow> good_key E key \<and> key_id E key = a)"

text \<open>
  The store \<open>st\<close> holds the keys \<open>ks\<close>: in clear, or each sealed with one master key, which is the one
  in memory when the store is unlocked.
\<close>

definition store_holds :: "crypt_env \<Rightarrow> CCryptoKeyStore \<Rightarrow> (uint160 \<rightharpoonup> ckey) \<Rightarrow> bool" where
  "store_holds E st ks \<longleftrightarrow>
     keys_ok E ks \<and>
     (if fUseCrypto st
      then mapKeys st = Map.empty \<and> dom (map_of (mapCryptedKeys st)) = dom ks \<and>
        (\<exists>M. sealed_by E M ks (mapCryptedKeys st) \<and>
             (vMasterKey st = [] \<or> mapCryptedKeys st = [] \<or> vMasterKey st = M))
      else mapKeys st = ks \<and> mapCryptedKeys st = [] \<and> vMasterKey st = [])"

text \<open>
  The runs of a store and the keys added so far: keys added, keys loaded from the wallet (sealed as the
  others are, before the store is unlocked), encryption with a master key of 32 bytes, locking, and
  attempts to unlock with any key.  \<open>Unlock\<close> tries a master key on the first entry only; \<open>right\<close> tells
  whether every master key it has accepted opens all the entries there were.
\<close>

inductive store_run :: "crypt_env \<Rightarrow> bool \<Rightarrow> CCryptoKeyStore \<Rightarrow> (uint160 \<rightharpoonup> ckey) \<Rightarrow> bool" for E where
  run_new: "store_run E True new_crypto_store Map.empty"
| run_add: "store_run E right st ks \<Longrightarrow> good_key E key \<Longrightarrow> crypto_AddKeyPubKey E key (key_PubKey E key) st = (ok, st') \<Longrightarrow>
    store_run E right st' (if ok then ks(key_id E key \<mapsto> key) else ks)"
| run_load: "store_run E right st ks \<Longrightarrow> good_key E key \<Longrightarrow> vMasterKey st = [] \<Longrightarrow>
    sealed_by E M ks (mapCryptedKeys st) \<Longrightarrow> sealed E M (key_PubKey E key, c) key \<Longrightarrow>
    AddCryptedKey E (key_PubKey E key) c st = (ok, st') \<Longrightarrow>
    store_run E right st' (if ok then ks(key_id E key \<mapsto> key) else ks)"
| run_encrypt: "store_run E right st ks \<Longrightarrow> length M = 32 \<Longrightarrow> EncryptKeys E M st = (ok, st') \<Longrightarrow> store_run E right st' ks"
| run_lock: "store_run E right st ks \<Longrightarrow> LockKeyStore st = (ok, st') \<Longrightarrow> store_run E right st' ks"
| run_unlock: "store_run E right st ks \<Longrightarrow> Unlock E M st = (ok, st') \<Longrightarrow>
    store_run E (right \<and> (\<not> ok \<or> sealed_by E M ks (mapCryptedKeys st))) st' ks"

lemma map_of_crypted_insert: "map_of (crypted_insert a x m) = (map_of m)(a \<mapsto> x)"
  by (induction a x m rule: crypted_insert.induct) (auto simp: fun_upd_twist)

lemma crypted_insert_not_Nil: "crypted_insert a x m \<noteq> []"
  by (cases "(a, x, m)" rule: crypted_insert.cases) simp_all

lemma key_of_own_secret:
  assumes "good_key E key"
  shows "key_of_secret E (ck_vch key) (key_PubKey E key) = key"
  using assms by (cases key) (auto simp: good_key_def key_of_secret_def ckey_Set_def)

lemma DecryptSecret_eq:
  "DecryptSecret E M c iv = (if length M = 32 then aes_decrypt E M (word_bytes 32 iv) c else None)"
  by (simp add: DecryptSecret_def SetKey_def Decrypt_def WALLET_CRYPTO_KEY_SIZE_def)

lemma seal_key:
  assumes "aes_documented E" "good_key E key"
  shows "length M = 32 \<Longrightarrow> \<exists>c. EncryptSecret E M (key_bytes key) (pk_GetHash (ce_Hash E) (key_PubKey E key)) = Some c"
    and "EncryptSecret E M (key_bytes key) (pk_GetHash (ce_Hash E) (key_PubKey E key)) = Some c \<Longrightarrow>
      sealed E M (key_PubKey E key, c) key"
proof -
  have b: "key_bytes key = ck_vch key" using assms(2) by (simp add: key_bytes_def good_key_def ckey_size_def)
  have enc: "EncryptSecret E M p iv = (if length M = 32 then aes_encrypt E M (word_bytes 32 iv) p else None)" for p iv
    by (simp add: EncryptSecret_def SetKey_def Encrypt_def WALLET_CRYPTO_KEY_SIZE_def)
  have doc: "length M = 32 \<Longrightarrow> \<exists>c. aes_encrypt E M (word_bytes 32 iv) p = Some c \<and> aes_decrypt E M (word_bytes 32 iv) c = Some p" for iv p
    using assms(1) by (simp add: aes_documented_def AES_BLOCK_SIZE_def)
  show "length M = 32 \<Longrightarrow> \<exists>c. EncryptSecret E M (key_bytes key) (pk_GetHash (ce_Hash E) (key_PubKey E key)) = Some c"
    using doc by (auto simp: enc)
  show "EncryptSecret E M (key_bytes key) (pk_GetHash (ce_Hash E) (key_PubKey E key)) = Some c \<Longrightarrow>
      sealed E M (key_PubKey E key, c) key"
    using doc[of "pk_GetHash (ce_Hash E) (key_PubKey E key)" "key_bytes key"]
    by (auto simp: enc b sealed_def DecryptSecret_eq split: if_splits)
qed

section \<open>Every operation keeps the keys\<close>

lemma holds_cryptedI:
  "fUseCrypto st \<Longrightarrow> keys_ok E ks \<Longrightarrow> mapKeys st = Map.empty \<Longrightarrow> dom (map_of (mapCryptedKeys st)) = dom ks \<Longrightarrow>
   sealed_by E M ks (mapCryptedKeys st) \<Longrightarrow> vMasterKey st = [] \<or> mapCryptedKeys st = [] \<or> vMasterKey st = M \<Longrightarrow>
   store_holds E st ks"
  by (auto simp: store_holds_def)

lemma holds_cryptedE:
  assumes "store_holds E st ks" "fUseCrypto st"
  obtains M where "keys_ok E ks" "mapKeys st = Map.empty" "dom (map_of (mapCryptedKeys st)) = dom ks"
    "sealed_by E M ks (mapCryptedKeys st)" "vMasterKey st = [] \<or> mapCryptedKeys st = [] \<or> vMasterKey st = M"
  using assms by (auto simp: store_holds_def)

lemma holds_plain:
  "\<not> fUseCrypto st \<Longrightarrow>
   store_holds E st ks \<longleftrightarrow> keys_ok E ks \<and> mapKeys st = ks \<and> mapCryptedKeys st = [] \<and> vMasterKey st = []"
  by (simp add: store_holds_def)

lemma keys_ok_add: "keys_ok E ks \<Longrightarrow> good_key E key \<Longrightarrow> keys_ok E (ks(key_id E key \<mapsto> key))"
  by (simp add: keys_ok_def)

lemma sealed_by_insert:
  "sealed_by E M ks m \<Longrightarrow> sealed E M x key \<Longrightarrow> sealed_by E M (ks(a \<mapsto> key)) (crypted_insert a x m)"
  by (cases x) (auto simp: sealed_by_def map_of_crypted_insert)

lemma sealed_by_Nil [simp]: "sealed_by E M ks []"
  by (simp add: sealed_by_def)

lemma holds_insert:
  assumes "store_holds E st ks" "fUseCrypto st" "good_key E key" "sealed E M (key_PubKey E key, c) key"
    "sealed_by E M ks (mapCryptedKeys st)" "vMasterKey st = [] \<or> vMasterKey st = M"
  shows "store_holds E (st\<lparr>mapCryptedKeys := crypted_insert (key_id E key) (key_PubKey E key, c) (mapCryptedKeys st)\<rparr>)
    (ks(key_id E key \<mapsto> key))"
proof -
  obtain M' where h: "keys_ok E ks" "mapKeys st = Map.empty" "dom (map_of (mapCryptedKeys st)) = dom ks"
    using holds_cryptedE[OF assms(1,2)] by blast
  show ?thesis
    by (rule holds_cryptedI[where M = M]) (use assms h in \<open>auto simp: map_of_crypted_insert keys_ok_add intro!: sealed_by_insert\<close>)
qed

lemma holds_SetCrypted:
  assumes "store_holds E st ks" "SetCrypted st = (ok, st')"
  shows "store_holds E st' ks \<and> (ok \<longrightarrow> fUseCrypto st') \<and> (\<not> ok \<longrightarrow> st' = st) \<and>
    mapCryptedKeys st' = mapCryptedKeys st \<and> vMasterKey st' = vMasterKey st"
proof (cases "fUseCrypto st \<or> mapKeys st \<noteq> Map.empty")
  case True
  then show ?thesis using assms by (auto simp: SetCrypted_def split: if_splits)
next
  case False
  then have p: "keys_ok E ks" "ks = Map.empty" "mapCryptedKeys st = []" "vMasterKey st = []"
    using assms(1) holds_plain[of st E ks] by auto
  have st': "ok" "st' = st\<lparr>fUseCrypto := True\<rparr>" using assms(2) False by (simp_all add: SetCrypted_def)
  have "store_holds E st' ks" unfolding st' by (rule holds_cryptedI) (use p False in simp_all)
  then show ?thesis by (simp add: st')
qed

lemma holds_lock:
  assumes "store_holds E st ks" "LockKeyStore st = (ok, st')"
  shows "store_holds E st' ks"
proof -
  obtain ok1 st1 where s: "SetCrypted st = (ok1, st1)" by fastforce
  note h = holds_SetCrypted[OF assms(1) s]
  show ?thesis
  proof (cases ok1)
    case True
    then have "store_holds E st1 ks" and c1: "fUseCrypto st1" using h by simp_all
    then obtain M where M: "keys_ok E ks" "mapKeys st1 = Map.empty" "dom (map_of (mapCryptedKeys st1)) = dom ks"
      "sealed_by E M ks (mapCryptedKeys st1)"
      by (rule holds_cryptedE)
    have st': "st' = st1\<lparr>vMasterKey := []\<rparr>" using assms(2) True by (simp add: LockKeyStore_def s)
    show ?thesis unfolding st' by (rule holds_cryptedI[where M = M]) (use M c1 in simp_all)
  next
    case False
    then show ?thesis using assms h by (simp add: LockKeyStore_def s)
  qed
qed

lemma holds_unlock:
  assumes "store_holds E st ks" "Unlock E M st = (ok, st')" "\<not> ok \<or> sealed_by E M ks (mapCryptedKeys st)"
  shows "store_holds E st' ks"
proof -
  obtain ok1 st1 where s: "SetCrypted st = (ok1, st1)" by fastforce
  note h = holds_SetCrypted[OF assms(1) s]
  show ?thesis
  proof (cases "ok1 \<and> unlock_check E M (mapCryptedKeys st1)")
    case False
    then show ?thesis using h assms(2) by (auto simp: Unlock_def s split: if_splits)
  next
    case True
    then have "store_holds E st1 ks" and c1: "fUseCrypto st1" using h by simp_all
    then have M: "keys_ok E ks" "mapKeys st1 = Map.empty" "dom (map_of (mapCryptedKeys st1)) = dom ks"
      by (elim holds_cryptedE; simp)+
    have st': "ok" "st' = st1\<lparr>vMasterKey := M\<rparr>" using assms(2) True by (simp_all add: Unlock_def s)
    then have "sealed_by E M ks (mapCryptedKeys st1)" using assms(3) h by simp
    then show ?thesis unfolding st' by (intro holds_cryptedI[where M = M]) (use M c1 in auto)
  qed
qed

lemma encrypt_loop_result:
  assumes "aes_documented E" "length M = 32" "fUseCrypto st" "keys_ok E ks" "mapKeys st = ks"
    "set as \<subseteq> dom ks" "sealed_by E M ks (mapCryptedKeys st)"
  shows "\<exists>m. encrypt_loop E M as st = (True, st\<lparr>mapCryptedKeys := m\<rparr>) \<and>
    dom (map_of m) = dom (map_of (mapCryptedKeys st)) \<union> set as \<and> sealed_by E M ks m"
  using assms(3,5-7)
proof (induction as arbitrary: st)
  case Nil
  then show ?case by (intro exI[of _ "mapCryptedKeys st"]) simp
next
  case (Cons a as)
  then obtain key where k: "ks a = Some key" by auto
  then have good: "good_key E key" and a: "key_id E key = a" using assms(4) by (auto simp: keys_ok_def)
  obtain c where c: "EncryptSecret E M (key_bytes key) (pk_GetHash (ce_Hash E) (key_PubKey E key)) = Some c"
    using seal_key(1)[OF assms(1) good assms(2)] by blast
  let ?st = "st\<lparr>mapCryptedKeys := crypted_insert a (key_PubKey E key, c) (mapCryptedKeys st)\<rparr>"
  have "AddCryptedKey E (key_PubKey E key) c st = (True, ?st)"
    using Cons.prems(1) by (simp add: AddCryptedKey_def SetCrypted_def a)
  then have step: "encrypt_loop E M (a # as) st = encrypt_loop E M as ?st"
    using Cons.prems(2) k c by (simp add: Let_def)
  have same: "ks(a \<mapsto> key) = ks" using k by auto
  have "sealed_by E M ks (mapCryptedKeys ?st)"
    using sealed_by_insert[OF Cons.prems(4) seal_key(2)[OF assms(1) good c], of a] by (simp add: same)
  then obtain m where "encrypt_loop E M as ?st = (True, ?st\<lparr>mapCryptedKeys := m\<rparr>)"
    "dom (map_of m) = dom (map_of (mapCryptedKeys ?st)) \<union> set as" "sealed_by E M ks m"
    using Cons.IH[of ?st] Cons.prems by auto
  then show ?case unfolding step by (intro exI[of _ m]) (auto simp: map_of_crypted_insert)
qed

lemma holds_encrypt:
  assumes "store_holds E st ks" "aes_documented E" "length M = 32" "EncryptKeys E M st = (ok, st')"
  shows "store_holds E st' ks"
proof (cases "mapCryptedKeys st \<noteq> [] \<or> IsCrypted st")
  case True
  then show ?thesis using assms(1,4) by (auto simp: EncryptKeys_def)
next
  case False
  then have h: "keys_ok E ks" "mapKeys st = ks" "mapCryptedKeys st = []" "vMasterKey st = []"
    using assms(1) holds_plain[of st E ks] by (auto simp: IsCrypted_def)
  have fin: "set (sorted_list_of_set (dom ks)) = dom ks" using h(1) by (simp add: keys_ok_def)
  obtain m where m: "encrypt_loop E M (sorted_list_of_set (dom ks)) (st\<lparr>fUseCrypto := True\<rparr>) =
      (True, st\<lparr>fUseCrypto := True, mapCryptedKeys := m\<rparr>)" "dom (map_of m) = dom ks" "sealed_by E M ks m"
    using encrypt_loop_result[OF assms(2,3) _ h(1), of "st\<lparr>fUseCrypto := True\<rparr>" "sorted_list_of_set (dom ks)"] h fin by auto
  have st': "st' = st\<lparr>fUseCrypto := True, mapCryptedKeys := m, mapKeys := Map.empty\<rparr>"
    using assms(4) False m(1) h(2) by (simp add: EncryptKeys_def)
  show ?thesis unfolding st' by (rule holds_cryptedI) (use h m in simp_all)
qed

lemma holds_add_crypted:
  assumes "store_holds E st ks" "good_key E key" "sealed_by E M ks (mapCryptedKeys st)"
    "vMasterKey st = [] \<or> vMasterKey st = M" "sealed E M (key_PubKey E key, c) key"
    "AddCryptedKey E (key_PubKey E key) c st = (ok, st')"
  shows "store_holds E st' (if ok then ks(key_id E key \<mapsto> key) else ks)"
proof -
  obtain ok1 st1 where s: "SetCrypted st = (ok1, st1)" by fastforce
  note h = holds_SetCrypted[OF assms(1) s]
  show ?thesis
  proof (cases ok1)
    case True
    then show ?thesis using h holds_insert[of E st1 ks key M c] assms(2-6) by (simp add: AddCryptedKey_def s)
  next
    case False
    then show ?thesis using h assms(1,6) by (simp add: AddCryptedKey_def s)
  qed
qed

lemma holds_add:
  assumes "store_holds E st ks" "aes_documented E" "good_key E key"
    "crypto_AddKeyPubKey E key (key_PubKey E key) st = (ok, st')"
  shows "store_holds E st' (if ok then ks(key_id E key \<mapsto> key) else ks)"
proof -
  consider "\<not> fUseCrypto st" | "IsLocked st" | "fUseCrypto st" "vMasterKey st \<noteq> []"
    by (cases "fUseCrypto st"; cases "vMasterKey st = []") (auto simp: IsLocked_def IsCrypted_def)
  then show ?thesis
  proof cases
    case 1
    then have "ok" "st' = st\<lparr>mapKeys := (mapKeys st)(key_id E key \<mapsto> key)\<rparr>"
      using assms(4) by (auto simp: crypto_AddKeyPubKey_def IsCrypted_def)
    then show ?thesis using 1 assms(1,3) by (simp add: holds_plain keys_ok_add)
  next
    case 2
    then have "\<not> ok" "st' = st"
      using assms(4) by (auto simp: crypto_AddKeyPubKey_def IsLocked_def split: if_splits)
    then show ?thesis using assms(1) by simp
  next
    case 3
    then have u: "IsCrypted st" "\<not> IsLocked st" by (simp_all add: IsLocked_def IsCrypted_def)
    from assms(1) 3(1) obtain M where "sealed_by E M ks (mapCryptedKeys st)"
      "vMasterKey st = [] \<or> mapCryptedKeys st = [] \<or> vMasterKey st = M"
      by (rule holds_cryptedE)
    then have by_master: "sealed_by E (vMasterKey st) ks (mapCryptedKeys st)" using 3(2) by auto
    show ?thesis
    proof (cases "EncryptSecret E (vMasterKey st) (key_bytes key) (pk_GetHash (ce_Hash E) (key_PubKey E key))")
      case None
      then show ?thesis using assms(1,4) u by (auto simp: crypto_AddKeyPubKey_def)
    next
      case (Some c)
      then show ?thesis
        using holds_add_crypted[OF assms(1,3) by_master _ seal_key(2)[OF assms(2,3) Some]] assms(4) u
        by (simp add: crypto_AddKeyPubKey_def)
    qed
  qed
qed

lemma store_run_holds:
  assumes "store_run E right st ks" "aes_documented E" "right"
  shows "store_holds E st ks"
  using assms(1,3)
proof induction
  case run_new
  show ?case by (simp add: store_holds_def new_crypto_store_def keys_ok_def)
next
  case (run_add right st ks key ok st')
  then show ?case using holds_add[OF _ assms(2)] by blast
next
  case (run_load right st ks key M c ok st')
  then show ?case using holds_add_crypted by blast
next
  case (run_encrypt right st ks M ok st')
  then show ?case using holds_encrypt[OF _ assms(2)] by blast
next
  case (run_lock right st ks ok st')
  then show ?case using holds_lock by blast
next
  case (run_unlock right st ks M ok st')
  then show ?case using holds_unlock by blast
qed

section \<open>What a store gives\<close>

lemma DecryptSecret_locked [simp]: "DecryptSecret E [] c iv = None"
  by (simp add: DecryptSecret_eq)

lemma crypted_entry:
  assumes "keys_ok E ks" "dom (map_of m) = dom ks" "sealed_by E M ks m" "map_of m a = Some (pub, c)"
  obtains key where "ks a = Some key" "pub = key_PubKey E key"
    "DecryptSecret E M c (pk_GetHash (ce_Hash E) pub) = Some (ck_vch key)" "length (ck_vch key) = 32"
    "key_of_secret E (ck_vch key) pub = key"
proof -
  obtain key where k: "ks a = Some key" using assms(2,4) by (metis domD domI)
  then have good: "good_key E key" using assms(1) by (simp add: keys_ok_def)
  have "sealed E M (pub, c) key" using assms(3,4) k unfolding sealed_by_def by blast
  then show ?thesis using that[OF k] key_of_own_secret[OF good] good by (auto simp: sealed_def good_key_def)
qed

lemma unlock_check_right:
  assumes "keys_ok E ks" "dom (map_of m) = dom ks" "sealed_by E M ks m"
  shows "unlock_check E M m"
proof (cases m)
  case (Cons e n)
  obtain a pub c where e: "e = (a, pub, c)" by (cases e)
  have "map_of m a = Some (pub, c)" by (simp add: Cons e)
  then obtain key where "pub = key_PubKey E key" "DecryptSecret E M c (pk_GetHash (ce_Hash E) pub) = Some (ck_vch key)"
    "length (ck_vch key) = 32" "key_of_secret E (ck_vch key) pub = key"
    using crypted_entry[OF assms] by metis
  then show ?thesis by (simp add: Cons e pk_eq_def)
qed simp

lemma store_gives:
  assumes "store_holds E st ks"
  shows "(IsCrypted st \<longrightarrow> mapKeys st = Map.empty) \<and> (crypto_HaveKey st a \<longleftrightarrow> ks a \<noteq> None) \<and>
    crypto_GetKeys st = dom ks \<and> crypto_GetPubKey E st a = map_option (key_PubKey E) (ks a) \<and>
    crypto_GetKey E st a = (if IsLocked st then None else ks a)"
proof (cases "fUseCrypto st")
  case False
  then show ?thesis using assms
    by (auto simp: holds_plain crypto_HaveKey_def crypto_GetKeys_def crypto_GetPubKey_def crypto_GetKey_def IsCrypted_def
        IsLocked_def CKeyStore_GetPubKey_def split: option.split)
next
  case True
  with assms obtain M where M: "keys_ok E ks" "mapKeys st = Map.empty" "dom (map_of (mapCryptedKeys st)) = dom ks"
    "sealed_by E M ks (mapCryptedKeys st)" "vMasterKey st = [] \<or> mapCryptedKeys st = [] \<or> vMasterKey st = M"
    by (rule holds_cryptedE)
  have "crypto_GetPubKey E st a = map_option (key_PubKey E) (ks a) \<and>
    crypto_GetKey E st a = (if IsLocked st then None else ks a) \<and> (crypto_HaveKey st a \<longleftrightarrow> ks a \<noteq> None)"
  proof (cases "map_of (mapCryptedKeys st) a")
    case None
    then have "ks a = None" using M(3) by (metis domIff)
    then show ?thesis using None True
      by (simp add: crypto_GetPubKey_def crypto_GetKey_def crypto_HaveKey_def IsCrypted_def)
  next
    case (Some x)
    obtain pub c where x: "x = (pub, c)" by (cases x)
    obtain key where k: "ks a = Some key" "pub = key_PubKey E key"
      "DecryptSecret E M c (pk_GetHash (ce_Hash E) pub) = Some (ck_vch key)" "length (ck_vch key) = 32"
      "key_of_secret E (ck_vch key) pub = key"
      using crypted_entry[OF M(1,3,4)] Some x by metis
    have "vMasterKey st = [] \<or> vMasterKey st = M" using M(5) Some by auto
    then have "crypto_GetKey E st a = (if IsLocked st then None else ks a)"
      using True Some k by (auto simp: crypto_GetKey_def IsCrypted_def IsLocked_def x)
    then show ?thesis using True Some k by (simp add: crypto_GetPubKey_def crypto_HaveKey_def IsCrypted_def x)
  qed
  then show ?thesis using M(2,3) True by (simp add: IsCrypted_def crypto_GetKeys_def dom_map_of_conv_image_fst)
qed

lemma lock_unlock:
  assumes "store_holds E st ks" "IsCrypted st" "\<not> IsLocked st"
  shows "Unlock E (vMasterKey st) (snd (LockKeyStore st)) = (True, st)"
proof -
  have c: "fUseCrypto st" "vMasterKey st \<noteq> []" using assms(2,3) by (simp_all add: IsCrypted_def IsLocked_def)
  from assms(1) c(1) obtain M where M: "keys_ok E ks" "mapKeys st = Map.empty"
    "dom (map_of (mapCryptedKeys st)) = dom ks" "sealed_by E M ks (mapCryptedKeys st)"
    "vMasterKey st = [] \<or> mapCryptedKeys st = [] \<or> vMasterKey st = M"
    by (rule holds_cryptedE)
  then have "unlock_check E (vMasterKey st) (mapCryptedKeys st)"
    using c(2) unlock_check_right[OF M(1,3,4)] by auto
  then show ?thesis using c(1) by (simp add: LockKeyStore_def Unlock_def SetCrypted_def)
qed

lemma encrypt_works:
  assumes "store_holds E st ks" "aes_documented E" "length M = 32" "\<not> IsCrypted st"
  shows "\<exists>st'. EncryptKeys E M st = (True, st') \<and> IsLocked st' \<and> fst (Unlock E M st') \<and>
    sealed_by E M ks (mapCryptedKeys st')"
proof -
  have h: "keys_ok E ks" "mapKeys st = ks" "mapCryptedKeys st = []" "vMasterKey st = []"
    using assms(1,4) holds_plain[of st E ks] by (auto simp: IsCrypted_def)
  have fin: "set (sorted_list_of_set (dom ks)) = dom ks" using h(1) by (simp add: keys_ok_def)
  obtain m where m: "encrypt_loop E M (sorted_list_of_set (dom ks)) (st\<lparr>fUseCrypto := True\<rparr>) =
      (True, st\<lparr>fUseCrypto := True, mapCryptedKeys := m\<rparr>)" "dom (map_of m) = dom ks" "sealed_by E M ks m"
    using encrypt_loop_result[OF assms(2,3) _ h(1), of "st\<lparr>fUseCrypto := True\<rparr>" "sorted_list_of_set (dom ks)"] h fin by auto
  show ?thesis using m(1,3) assms(4) h unlock_check_right[OF h(1) m(2,3)]
    by (simp add: EncryptKeys_def IsLocked_def IsCrypted_def Unlock_def SetCrypted_def)
qed

text \<open>
  When encryption fails, here for a master key of another size, the store counts as encrypted while its
  keys stay in clear, and finds none of them.
\<close>

lemma failed_encryption:
  assumes "mapKeys st \<noteq> Map.empty" "finite (dom (mapKeys st))" "\<not> IsCrypted st" "mapCryptedKeys st = []" "length M \<noteq> 32"
  shows "\<exists>st'. EncryptKeys E M st = (False, st') \<and> IsCrypted st' \<and> mapKeys st' = mapKeys st \<and> \<not> crypto_HaveKey st' a"
proof -
  obtain a1 as where "sorted_list_of_set (dom (mapKeys st)) = a1 # as"
    using assms(1,2) by (cases "sorted_list_of_set (dom (mapKeys st))") auto
  then have "EncryptKeys E M st = (False, st\<lparr>fUseCrypto := True\<rparr>)"
    using assms(3-5) by (simp add: EncryptKeys_def EncryptSecret_def SetKey_def WALLET_CRYPTO_KEY_SIZE_def Let_def)
  then show ?thesis using assms(4) by (simp add: IsCrypted_def crypto_HaveKey_def)
qed

section \<open>Example\<close>

text \<open>A cipher under which every key decrypts every text: the exclusive or with the key.\<close>

definition xor_key :: "bytes \<Rightarrow> bytes \<Rightarrow> bytes" where
  "xor_key k p = map (\<lambda>i. p ! i XOR k ! (i mod 32)) [0..<length p]"

definition demo_crypt :: crypt_env where
  "demo_crypt = \<lparr>aes_encrypt = \<lambda>k iv p. Some (xor_key k p), aes_decrypt = \<lambda>k iv c. Some (xor_key k c),
     EVP_BytesToKey = \<lambda>k salt n. (32, replicate 32 1, replicate 16 0), scrypt_hash = \<lambda>p salt n. replicate 32 0,
     key_PubKey = \<lambda>key. (if ck_fCompressed key then 2 else 4) # ck_vch key @ replicate 32 0,
     key_Check = \<lambda>_. True, ce_Hash160 = bytes_word, ce_Hash = bytes_word\<rparr>"

definition demo_secret_key :: ckey where
  "demo_secret_key = \<lparr>ck_fValid = True, ck_fCompressed = True, ck_vch = replicate 32 7\<rparr>"

lemma xor_key_twice: "xor_key k (xor_key k p) = p"
  by (rule nth_equalityI) (simp_all add: xor_key_def xor.assoc)

lemma demo_crypt_ok: "aes_documented demo_crypt" "good_key demo_crypt demo_secret_key"
proof -
  show "aes_documented demo_crypt" by (simp add: aes_documented_def demo_crypt_def xor_key_twice)
  show "good_key demo_crypt demo_secret_key"
    by (simp add: good_key_def demo_crypt_def demo_secret_key_def pk_IsCompressed_def pk_size_def pk_GetLen_def)
qed

section \<open>Properties\<close>

text \<open> C14.
  A store gives back the keys it was given, whatever the order of adding, loading, encrypting, locking and
  attempts to unlock, as long as the master keys that \<open>Unlock\<close> has accepted open all the entries: it tries
  them on the first entry only, and nothing is assumed of the cipher but that decryption undoes encryption.
  Once the store is encrypted no key is in clear; addresses and public keys are known in every state, secrets
  in every state but the locked one.  Locking an unlocked store and unlocking it with its master key gives the
  same store, and encrypting a store succeeds, locks it, and lets its master key unlock it and open every entry.
\<close>

theorem crypto_store_keeps_keys:
  assumes "aes_documented E" "store_run E True st ks" "length M = 32"
  shows "(IsCrypted st \<longrightarrow> mapKeys st = Map.empty) \<and> (crypto_HaveKey st a \<longleftrightarrow> ks a \<noteq> None) \<and>
    crypto_GetKeys st = dom ks \<and> crypto_GetPubKey E st a = map_option (key_PubKey E) (ks a) \<and>
    crypto_GetKey E st a = (if IsLocked st then None else ks a) \<and>
    (IsCrypted st \<and> \<not> IsLocked st \<longrightarrow> Unlock E (vMasterKey st) (snd (LockKeyStore st)) = (True, st)) \<and>
    (\<not> IsCrypted st \<longrightarrow> (\<exists>st'. EncryptKeys E M st = (True, st') \<and> IsLocked st' \<and> fst (Unlock E M st') \<and>
       sealed_by E M ks (mapCryptedKeys st')))"
proof -
  note h = store_run_holds[OF assms(2,1) TrueI]
  show ?thesis using store_gives[OF h] lock_unlock[OF h] encrypt_works[OF h assms(1,3)] by blast
qed

text \<open>A key is added, the store encrypted and unlocked: the key is there.\<close>

lemma crypto_store_keeps_keys_witness:
  "\<exists>st. IsCrypted st \<and> \<not> IsLocked st \<and>
     crypto_GetKey demo_crypt st (key_id demo_crypt demo_secret_key) = Some demo_secret_key"
proof -
  let ?M = "replicate 32 1 :: bytes" and ?a = "key_id demo_crypt demo_secret_key"
  note keeps = crypto_store_keeps_keys[OF demo_crypt_ok(1), where M = ?M and a = ?a, simplified length_replicate]
  obtain st1 where "crypto_AddKeyPubKey demo_crypt demo_secret_key (key_PubKey demo_crypt demo_secret_key) new_crypto_store =
      (True, st1)" and "\<not> IsCrypted st1"
    by (simp add: crypto_AddKeyPubKey_def IsCrypted_def new_crypto_store_def)
  moreover from this(1) have r1: "store_run demo_crypt True st1 [?a \<mapsto> demo_secret_key]"
    using run_add[OF run_new demo_crypt_ok(2)] by fastforce
  ultimately obtain st2 where st2: "EncryptKeys demo_crypt ?M st1 = (True, st2)" "IsLocked st2" "fst (Unlock demo_crypt ?M st2)"
      "sealed_by demo_crypt ?M [?a \<mapsto> demo_secret_key] (mapCryptedKeys st2)"
    using keeps[OF r1] by auto
  then obtain st3 where st3: "Unlock demo_crypt ?M st2 = (True, st3)" by (metis prod.collapse)
  have r2: "store_run demo_crypt True st2 [?a \<mapsto> demo_secret_key]" by (rule run_encrypt[OF r1 _ st2(1)]) simp
  have r3: "store_run demo_crypt True st3 [?a \<mapsto> demo_secret_key]" using run_unlock[OF r2 st3] st2(4) by simp
  have "IsCrypted st3" "\<not> IsLocked st3"
    using st3 st2(2) by (auto simp: Unlock_def SetCrypted_def IsLocked_def IsCrypted_def split: if_splits)
  then show ?thesis using keeps[OF r3] by auto
qed

end
