(* ===== verification/Base32.thy ===== *)
theory Base32
  imports Prelude
begin

text \<open>
  Base-32 text: \<open>EncodeBase32\<close> and \<open>DecodeBase32\<close> of \<open>src/src/util.cpp\<close>, which
  write and read the names of Tor addresses.  Both are loops over modes: how many bits are left over.
  A C string is the list of its characters before the terminating zero.
\<close>

section \<open>Writing\<close>

definition pbase32 :: string where
  "pbase32 = ''abcdefghijklmnopqrstuvwxyz234567''"

definition nPadding :: "nat list" where
  "nPadding = [0, 6, 4, 3, 1]"

fun encode32_loop :: "nat \<Rightarrow> nat \<Rightarrow> bytes \<Rightarrow> string" where
  "encode32_loop mode left [] =
     (if mode \<noteq> 0 then pbase32 ! left # replicate (nPadding ! mode) CHR ''='' else [])"
| "encode32_loop mode left (b # pch) =
     (let enc = unat b
      in if mode = 0 then pbase32 ! drop_bit 3 enc # encode32_loop 1 (push_bit 2 (enc AND 7)) pch
         else if mode = 1
         then pbase32 ! (left OR drop_bit 6 enc) # pbase32 ! (drop_bit 1 enc AND 31) #
              encode32_loop 2 (push_bit 4 (enc AND 1)) pch
         else if mode = 2 then pbase32 ! (left OR drop_bit 4 enc) # encode32_loop 3 (push_bit 1 (enc AND 15)) pch
         else if mode = 3
         then pbase32 ! (left OR drop_bit 7 enc) # pbase32 ! (drop_bit 2 enc AND 31) #
              encode32_loop 4 (push_bit 3 (enc AND 3)) pch
         else pbase32 ! (left OR drop_bit 5 enc) # pbase32 ! (enc AND 31) # encode32_loop 0 left pch)"

definition EncodeBase32 :: "bytes \<Rightarrow> string" where
  "EncodeBase32 pch = encode32_loop 0 0 pch"

section \<open>Reading\<close>

text \<open>The table, for the code of a character; the \<open>-1\<close> entries are \<open>None\<close>.\<close>

definition decode32_table :: "nat option list" where
  "decode32_table =
     replicate 50 None @ map Some [26, 27, 28, 29, 30, 31] @ replicate 9 None @
     map Some [0, 1, 2, 3, 4, 5, 6, 7, 8, 9, 10, 11, 12, 13, 14, 15, 16, 17, 18, 19, 20, 21, 22, 23, 24, 25] @
     replicate 6 None @
     map Some [0, 1, 2, 3, 4, 5, 6, 7, 8, 9, 10, 11, 12, 13, 14, 15, 16, 17, 18, 19, 20, 21, 22, 23, 24, 25] @
     replicate 133 None"

definition decode32_digit :: "char \<Rightarrow> nat option" where
  "decode32_digit c = decode32_table ! of_char c"

text \<open>The loop: the bytes read, and the mode, the bits and the text that are left when it stops.\<close>

fun decode32_loop :: "nat \<Rightarrow> nat \<Rightarrow> string \<Rightarrow> bytes \<times> nat \<times> nat \<times> string" where
  "decode32_loop mode left [] = ([], mode, left, [])"
| "decode32_loop mode left (c # p) =
     (case decode32_digit c of
        None \<Rightarrow> ([], mode, left, c # p)
      | Some dec \<Rightarrow>
          if mode = 0 then decode32_loop 1 dec p
          else if mode = 1
          then apfst ((#) (word_of_nat (push_bit 3 left OR drop_bit 2 dec))) (decode32_loop 2 (dec AND 3) p)
          else if mode = 2 then decode32_loop 3 (push_bit 5 left OR dec) p
          else if mode = 3
          then apfst ((#) (word_of_nat (push_bit 1 left OR drop_bit 4 dec))) (decode32_loop 4 (dec AND 15) p)
          else if mode = 4
          then apfst ((#) (word_of_nat (push_bit 4 left OR drop_bit 1 dec))) (decode32_loop 5 (dec AND 1) p)
          else if mode = 5 then decode32_loop 6 (push_bit 5 left OR dec) p
          else if mode = 6
          then apfst ((#) (word_of_nat (push_bit 2 left OR drop_bit 3 dec))) (decode32_loop 7 (dec AND 7) p)
          else apfst ((#) (word_of_nat (push_bit 5 left OR dec))) (decode32_loop 0 left p))"

text \<open>What follows the digits must be the padding of the mode, and then no digit.\<close>

definition padded :: "nat \<Rightarrow> string \<Rightarrow> bool" where
  "padded k p \<longleftrightarrow> take k p = replicate k CHR ''='' \<and>
     (case drop k p of [] \<Rightarrow> True | c # _ \<Rightarrow> decode32_digit c = None)"

definition decode32_invalid :: "nat \<Rightarrow> nat \<Rightarrow> string \<Rightarrow> bool" where
  "decode32_invalid mode left p =
     (if mode = 0 then False
      else if mode = 1 \<or> mode = 3 \<or> mode = 6 then True
      else if mode = 2 then left \<noteq> 0 \<or> \<not> padded 6 p
      else if mode = 4 then left \<noteq> 0 \<or> \<not> padded 4 p
      else if mode = 5 then left \<noteq> 0 \<or> \<not> padded 3 p
      else left \<noteq> 0 \<or> \<not> padded 1 p)"

definition DecodeBase32 :: "string \<Rightarrow> bytes \<times> bool" where
  "DecodeBase32 p =
     (case decode32_loop 0 0 p of (vchRet, mode, left, rest) \<Rightarrow> (vchRet, decode32_invalid mode left rest))"

section \<open>Reading what was written\<close>

lemma decode32_digit_written: "k < 32 \<Longrightarrow> decode32_digit (pbase32 ! k) = Some k"
proof -
  have "list_all (\<lambda>k. decode32_digit (pbase32 ! k) = Some k) [0..<32]" by code_simp
  then show "k < 32 \<Longrightarrow> decode32_digit (pbase32 ! k) = Some k" by (simp add: list_all_iff)
qed

lemma decode32_digit_pad: "decode32_digit CHR ''='' = None"
  by code_simp

text \<open>Shifts and masks as arithmetic: the digits are quotients and remainders.\<close>

lemma push_or:
  assumes "y < 2 ^ k"
  shows "push_bit k x OR y = x * 2 ^ k + (y :: nat)"
proof -
  have y: "take_bit k y = y" using assms by (simp add: take_bit_nat_eq_self)
  have "\<not> bit (push_bit k x) n \<or> \<not> bit (take_bit k y) n" for n
    by (auto simp: bit_push_bit_iff_nat bit_take_bit_iff)
  then show ?thesis using disjunctive_add[of "push_bit k x" y] by (simp add: push_bit_eq_mult y)
qed

lemma low_and:
  "(n AND 1) = n mod (2 :: nat)" "(n AND 3) = n mod (4 :: nat)" "(n AND 7) = n mod (8 :: nat)"
  "(n AND 15) = n mod (16 :: nat)" "(n AND 31) = n mod (32 :: nat)"
  using take_bit_eq_mask[of 1 n] take_bit_eq_mask[of 2 n] take_bit_eq_mask[of 3 n]
    take_bit_eq_mask[of 4 n] take_bit_eq_mask[of 5 n]
  by (simp_all add: mask_eq_exp_minus_1 take_bit_eq_mod)

lemma encode_digits:
  assumes "a < 256" "b < 256" "c < 256" "d < 256" "e < (256 :: nat)"
  shows "push_bit 2 (a AND 7) OR drop_bit 6 b = a mod 8 * 4 + b div 64"
    "drop_bit 1 b AND 31 = b div 2 mod 32"
    "push_bit 4 (b AND 1) OR drop_bit 4 c = b mod 2 * 16 + c div 16"
    "push_bit 1 (c AND 15) OR drop_bit 7 d = c mod 16 * 2 + d div 128"
    "drop_bit 2 d AND 31 = d div 4 mod 32"
    "push_bit 3 (d AND 3) OR drop_bit 5 e = d mod 4 * 8 + e div 32"
  using assms push_or[of "d div 128" 1 "c mod 16"] by (simp_all add: push_or low_and drop_bit_eq_div)

lemma quot_rem: "y < k \<Longrightarrow> (x * k + y) div k = (x :: nat)" "y < k \<Longrightarrow> (x * k + y) mod k = y"
  by simp_all

lemma decode_bytes:
  assumes "b < 256" "c < 256" "d < 256" "e < (256 :: nat)"
  shows "a div 8 * 8 + (a mod 8 * 4 + b div 64) div 4 = a"
    "((a mod 8 * 4 + b div 64) mod 4 * 32 + b div 2 mod 32) * 2 + (b mod 2 * 16 + c div 16) div 16 = b"
    "(b mod 2 * 16 + c div 16) mod 16 * 16 + (c mod 16 * 2 + d div 128) div 2 = c"
    "((c mod 16 * 2 + d div 128) mod 2 * 32 + d div 4 mod 32) * 4 + (d mod 4 * 8 + e div 32) div 8 = d"
    "(d mod 4 * 8 + e div 32) mod 8 * 32 + e mod 32 = e"
proof -
  have small: "b div 64 < 4" "c div 16 < 16" "d div 128 < 2" "e div 32 < 8" using assms by auto
  note q = quot_rem[OF small(1)] quot_rem[OF small(2)] quot_rem[OF small(3)] quot_rem[OF small(4)]
  show "a div 8 * 8 + (a mod 8 * 4 + b div 64) div 4 = a" unfolding q by simp
  show "((a mod 8 * 4 + b div 64) mod 4 * 32 + b div 2 mod 32) * 2 + (b mod 2 * 16 + c div 16) div 16 = b"
    unfolding q using div_mult2_eq[of b 2 32] by simp
  show "(b mod 2 * 16 + c div 16) mod 16 * 16 + (c mod 16 * 2 + d div 128) div 2 = c" unfolding q by simp
  show "((c mod 16 * 2 + d div 128) mod 2 * 32 + d div 4 mod 32) * 4 + (d mod 4 * 8 + e div 32) div 8 = d"
    unfolding q using div_mult2_eq[of d 4 32] by simp
  show "(d mod 4 * 8 + e div 32) mod 8 * 32 + e mod 32 = e" unfolding q by simp
qed

text \<open>Five bytes at a time, and the padded end.\<close>

lemma encode_block:
  "encode32_loop 0 l (a # b # c # d # e # pch) =
     map ((!) pbase32)
       [unat a div 8, unat a mod 8 * 4 + unat b div 64, unat b div 2 mod 32, unat b mod 2 * 16 + unat c div 16,
        unat c mod 16 * 2 + unat d div 128, unat d div 4 mod 32, unat d mod 4 * 8 + unat e div 32, unat e mod 32]
     @ encode32_loop 0 0 pch"
proof -
  have l: "encode32_loop 0 l pch = encode32_loop 0 0 pch" for l pch by (cases pch) simp_all
  have s: "unat x < 256" for x :: byte by simp
  note e = encode_digits[OF s[of a] s[of b] s[of c] s[of d] s[of e]]
  show ?thesis
    by (subst l) (simp only: encode32_loop.simps Let_def e, simp add: drop_bit_eq_div low_and l[of "push_bit 3 (unat d mod 4)"])
qed

lemma decode_steps:
  assumes "k < 32"
  shows "decode32_loop 0 l (pbase32 ! k # p) = decode32_loop 1 k p"
    "decode32_loop 1 l (pbase32 ! k # p) =
       apfst ((#) (word_of_nat (l * 8 + k div 4))) (decode32_loop 2 (k mod 4) p)"
    "decode32_loop 2 l (pbase32 ! k # p) = decode32_loop 3 (l * 32 + k) p"
    "decode32_loop 3 l (pbase32 ! k # p) =
       apfst ((#) (word_of_nat (l * 2 + k div 16))) (decode32_loop 4 (k mod 16) p)"
    "decode32_loop 4 l (pbase32 ! k # p) =
       apfst ((#) (word_of_nat (l * 16 + k div 2))) (decode32_loop 5 (k mod 2) p)"
    "decode32_loop 5 l (pbase32 ! k # p) = decode32_loop 6 (l * 32 + k) p"
    "decode32_loop 6 l (pbase32 ! k # p) =
       apfst ((#) (word_of_nat (l * 4 + k div 8))) (decode32_loop 7 (k mod 8) p)"
    "decode32_loop 7 l (pbase32 ! k # p) = apfst ((#) (word_of_nat (l * 32 + k))) (decode32_loop 0 l p)"
  using assms push_or[of "k div 16" 1 l]
  by (simp_all add: decode32_digit_written push_or low_and drop_bit_eq_div del: of_nat_add of_nat_mult)

fun five_at_a_time :: "bytes \<Rightarrow> bool" where
  "five_at_a_time (a # b # c # d # e # bs) = five_at_a_time bs"
| "five_at_a_time bs = True"

lemma digit_bounds:
  assumes "a < 256" "b < (256 :: nat)"
  shows "a div 8 < 32" "a mod 8 * 4 + b div 64 < 32" "a mod 2 * 16 + b div 16 < 32"
    "a mod 16 * 2 + b div 128 < 32" "a mod 4 * 8 + b div 32 < 32"
proof -
  have "a mod 8 < 8" "a mod 2 < 2" "a mod 16 < 16" "a mod 4 < 4"
    "b div 64 < 4" "b div 16 < 16" "b div 128 < 2" "b div 32 < 8" "a div 8 < 32" using assms by auto
  then show "a div 8 < 32" "a mod 8 * 4 + b div 64 < 32" "a mod 2 * 16 + b div 16 < 32"
    "a mod 16 * 2 + b div 128 < 32" "a mod 4 * 8 + b div 32 < 32" by linarith+
qed

lemma digits_of_bytes:
  fixes a b :: byte
  shows "unat a div 8 < 32" "unat a mod 8 * 4 + unat b div 64 < 32" "unat a mod 2 * 16 + unat b div 16 < 32"
    "unat a mod 16 * 2 + unat b div 128 < 32" "unat a mod 4 * 8 + unat b div 32 < 32"
    "unat a div 2 mod 32 < 32" "unat a div 4 mod 32 < 32" "unat a mod 32 < 32"
  using digit_bounds[of "unat a" "unat b"] by simp_all

lemma bytes_of_digits:
  fixes a b c d e :: byte
  shows "unat a div 8 * 8 + (unat a mod 8 * 4 + unat b div 64) div 4 = unat a"
    "((unat a mod 8 * 4 + unat b div 64) mod 4 * 32 + unat b div 2 mod 32) * 2 + (unat b mod 2 * 16 + unat c div 16) div 16 = unat b"
    "(unat b mod 2 * 16 + unat c div 16) mod 16 * 16 + (unat c mod 16 * 2 + unat d div 128) div 2 = unat c"
    "((unat c mod 16 * 2 + unat d div 128) mod 2 * 32 + unat d div 4 mod 32) * 4 + (unat d mod 4 * 8 + unat e div 32) div 8 = unat d"
    "(unat d mod 4 * 8 + unat e div 32) mod 8 * 32 + unat e mod 32 = unat e"
  by (rule decode_bytes unat_byte_less)+

lemma byte_of_unat: "word_of_nat (unat b) = (b :: byte)"
  by (simp add: of_nat_unat)

lemma decode_block:
  "\<exists>l'. decode32_loop 0 l (encode32_loop 0 l0 (a # b # c # d # e # pch)) =
        apfst ((@) [a, b, c, d, e]) (decode32_loop 0 l' (encode32_loop 0 0 pch))"
  by (rule exI[of _ "(unat d mod 4 * 8 + unat e div 32) mod 8"])
     (simp only: encode_block list.map append.simps decode_steps digits_of_bytes bytes_of_digits
        byte_of_unat, simp add: apfst_def map_prod_def split_beta)

text \<open>The padded ends.\<close>

lemmas encode_byte_digits =
  encode_digits[OF unat_byte_less unat_byte_less unat_byte_less unat_byte_less unat_byte_less]

lemma pads:
  "replicate 6 CHR ''='' = ''======''" "replicate 4 CHR ''='' = ''====''"
  "replicate 3 CHR ''='' = ''===''" "replicate 1 CHR ''='' = ''=''"
  by (simp_all add: numeral_eq_Suc)

lemma encode_end:
  "encode32_loop 0 l [a] = map ((!) pbase32) [unat a div 8, unat a mod 8 * 4 + unat (0 :: byte) div 64] @ ''======''"
  "encode32_loop 0 l [a, b] =
     map ((!) pbase32)
       [unat a div 8, unat a mod 8 * 4 + unat b div 64, unat b div 2 mod 32, unat b mod 2 * 16 + unat (0 :: byte) div 16]
     @ ''====''"
  "encode32_loop 0 l [a, b, c] =
     map ((!) pbase32)
       [unat a div 8, unat a mod 8 * 4 + unat b div 64, unat b div 2 mod 32, unat b mod 2 * 16 + unat c div 16,
        unat c mod 16 * 2 + unat (0 :: byte) div 128] @ ''===''"
  "encode32_loop 0 l [a, b, c, d] =
     map ((!) pbase32)
       [unat a div 8, unat a mod 8 * 4 + unat b div 64, unat b div 2 mod 32, unat b mod 2 * 16 + unat c div 16,
        unat c mod 16 * 2 + unat d div 128, unat d div 4 mod 32, unat d mod 4 * 8 + unat (0 :: byte) div 32] @ ''=''"
  by (simp only: encode32_loop.simps Let_def encode_byte_digits list.map,
      simp add: drop_bit_eq_div low_and nPadding_def pads push_bit_eq_mult)+

lemma decode_pad: "decode32_loop mode l (CHR ''='' # p) = ([], mode, l, CHR ''='' # p)"
  by (simp add: decode32_digit_pad)

lemma invalid_ends:
  "\<not> decode32_invalid 0 l p" "\<not> decode32_invalid 2 0 ''======''" "\<not> decode32_invalid 4 0 ''====''"
  "\<not> decode32_invalid 5 0 ''===''" "\<not> decode32_invalid 7 0 ''=''"
  by (simp_all add: decode32_invalid_def padded_def pads numeral_eq_Suc)

lemma decode_encode_loop:
  "\<exists>mode left rest. decode32_loop 0 l (encode32_loop 0 l0 bs) = (bs, mode, left, rest) \<and>
     \<not> decode32_invalid mode left rest"
proof (induction bs arbitrary: l l0 rule: five_at_a_time.induct)
  case (1 a b c d e bs)
  obtain l' where l': "decode32_loop 0 l (encode32_loop 0 l0 (a # b # c # d # e # bs)) =
      apfst ((@) [a, b, c, d, e]) (decode32_loop 0 l' (encode32_loop 0 0 bs))"
    using decode_block by blast
  show ?case unfolding l' using 1[of l' 0] by (auto simp: invalid_ends)
qed (simp_all only: encode_end list.map append.simps decode_steps digits_of_bytes bytes_of_digits byte_of_unat decode_pad,
     auto simp: invalid_ends)

lemma base32_round_trip: "DecodeBase32 (EncodeBase32 bs) = (bs, False)"
  using decode_encode_loop[of 0 0 bs] by (auto simp: DecodeBase32_def EncodeBase32_def)

text \<open>The characters of a text.\<close>

lemma length_pbase32: "length pbase32 = 32"
  by (simp add: pbase32_def)

lemma digits_chars: "list_all (\<lambda>k. k < 32) ds \<Longrightarrow> set (map ((!) pbase32) ds) \<subseteq> set pbase32"
  by (auto simp: list_all_iff length_pbase32 intro!: nth_mem)

lemma encode_chars: "set (encode32_loop 0 l bs) \<subseteq> insert CHR ''='' (set pbase32)"
proof (induction bs arbitrary: l rule: five_at_a_time.induct)
  case (1 a b c d e bs)
  show ?case unfolding encode_block set_append
    by (rule Un_least[OF subset_insertI2[OF digits_chars] 1]) (simp add: digits_of_bytes)
qed ((simp only: encode_end set_append, rule Un_least[OF subset_insertI2[OF digits_chars]],
      simp only: list.pred_inject digits_of_bytes simp_thms, simp) | simp)+

end
