(* ===== verification/NetAddr.thy ===== *)
theory NetAddr
  imports Base32 Uint256
begin

text \<open>
  Addresses of peers: \<open>CNetAddr\<close>, \<open>CService\<close> and \<open>CSubNet\<close> of \<open>src/src/netbase.h\<close> and
  \<open>src/src/netbase.cpp\<close>, and the bans of \<open>src/src/net.cpp\<close>.  The classes that inherit from each other are
  records that extend each other.  Name resolution (\<open>getaddrinfo\<close>, \<open>getnameinfo\<close>) is a parameter.
\<close>

section \<open>Addresses\<close>

datatype Network = NET_UNROUTABLE | NET_IPV4 | NET_IPV6 | NET_TOR | NET_I2P

definition network_code :: "Network \<Rightarrow> nat" where
  "network_code n =
     (case n of NET_UNROUTABLE \<Rightarrow> 0 | NET_IPV4 \<Rightarrow> 1 | NET_IPV6 \<Rightarrow> 2 | NET_TOR \<Rightarrow> 3 | NET_I2P \<Rightarrow> 4)"

text \<open>The sixteen bytes in network order.\<close>

record CNetAddr =
  ip :: bytes

definition pchIPv4 :: bytes where
  "pchIPv4 = [0, 0, 0, 0, 0, 0, 0, 0, 0, 0, 0xff, 0xff]"

definition pchOnionCat :: bytes where
  "pchOnionCat = [0xFD, 0x87, 0xD8, 0x7E, 0xEB, 0x43]"

definition pchGarliCat :: bytes where
  "pchGarliCat = [0xFD, 0x60, 0xDB, 0x4D, 0xDD, 0xB5]"

definition addr_none :: CNetAddr where
  "addr_none = \<lparr>ip = replicate 16 0\<rparr>"

definition SetRaw :: "Network \<Rightarrow> bytes \<Rightarrow> CNetAddr \<Rightarrow> CNetAddr option" where
  "SetRaw net ip_in a =
     (case net of
        NET_IPV4 \<Rightarrow> Some (a\<lparr>ip := pchIPv4 @ take 4 ip_in\<rparr>)
      | NET_IPV6 \<Rightarrow> Some (a\<lparr>ip := take 16 ip_in\<rparr>)
      | _ \<Rightarrow> None)"

definition GetByte :: "'a CNetAddr_scheme \<Rightarrow> nat \<Rightarrow> byte" where
  "GetByte a n = ip a ! (15 - n)"

definition starts :: "bytes \<Rightarrow> bytes \<Rightarrow> bool" where
  "starts pre s \<longleftrightarrow> take (length pre) s = pre"

definition IsIPv4 :: "'a CNetAddr_scheme \<Rightarrow> bool" where
  "IsIPv4 a \<longleftrightarrow> starts pchIPv4 (ip a)"

definition IsTor :: "'a CNetAddr_scheme \<Rightarrow> bool" where
  "IsTor a \<longleftrightarrow> starts pchOnionCat (ip a)"

definition IsI2P :: "'a CNetAddr_scheme \<Rightarrow> bool" where
  "IsI2P a \<longleftrightarrow> starts pchGarliCat (ip a)"

definition IsIPv6 :: "'a CNetAddr_scheme \<Rightarrow> bool" where
  "IsIPv6 a \<longleftrightarrow> \<not> IsIPv4 a \<and> \<not> IsTor a \<and> \<not> IsI2P a"

definition IsRFC1918 :: "'a CNetAddr_scheme \<Rightarrow> bool" where
  "IsRFC1918 a \<longleftrightarrow> IsIPv4 a \<and>
     (GetByte a 3 = 10 \<or> GetByte a 3 = 192 \<and> GetByte a 2 = 168 \<or>
      GetByte a 3 = 172 \<and> GetByte a 2 \<ge> 16 \<and> GetByte a 2 \<le> 31)"

definition IsRFC3927 :: "'a CNetAddr_scheme \<Rightarrow> bool" where
  "IsRFC3927 a \<longleftrightarrow> IsIPv4 a \<and> GetByte a 3 = 169 \<and> GetByte a 2 = 254"

definition IsRFC3849 :: "'a CNetAddr_scheme \<Rightarrow> bool" where
  "IsRFC3849 a \<longleftrightarrow> 
     GetByte a 15 = 0x20 \<and> GetByte a 14 = 0x01 \<and> GetByte a 13 = 0x0D \<and> GetByte a 12 = 0xB8"

definition IsRFC3964 :: "'a CNetAddr_scheme \<Rightarrow> bool" where
  "IsRFC3964 a \<longleftrightarrow> GetByte a 15 = 0x20 \<and> GetByte a 14 = 0x02"

definition IsRFC6052 :: "'a CNetAddr_scheme \<Rightarrow> bool" where
  "IsRFC6052 a \<longleftrightarrow> starts [0, 0x64, 0xFF, 0x9B, 0, 0, 0, 0, 0, 0, 0, 0] (ip a)"

definition IsRFC4380 :: "'a CNetAddr_scheme \<Rightarrow> bool" where
  "IsRFC4380 a \<longleftrightarrow> 
     GetByte a 15 = 0x20 \<and> GetByte a 14 = 0x01 \<and> GetByte a 13 = 0 \<and> GetByte a 12 = 0"

definition IsRFC4862 :: "'a CNetAddr_scheme \<Rightarrow> bool" where
  "IsRFC4862 a \<longleftrightarrow> starts [0xFE, 0x80, 0, 0, 0, 0, 0, 0] (ip a)"

definition IsRFC4193 :: "'a CNetAddr_scheme \<Rightarrow> bool" where
  "IsRFC4193 a \<longleftrightarrow> GetByte a 15 AND 0xFE = 0xFC"

definition IsRFC6145 :: "'a CNetAddr_scheme \<Rightarrow> bool" where
  "IsRFC6145 a \<longleftrightarrow> starts [0, 0, 0, 0, 0, 0, 0, 0, 0xFF, 0xFF, 0, 0] (ip a)"

definition IsRFC4843 :: "'a CNetAddr_scheme \<Rightarrow> bool" where
  "IsRFC4843 a \<longleftrightarrow> 
     GetByte a 15 = 0x20 \<and> GetByte a 14 = 0x01 \<and> GetByte a 13 = 0 \<and> GetByte a 12 AND 0xF0 = 0x10"

definition addr_IsLocal :: "'a CNetAddr_scheme \<Rightarrow> bool" where
  "addr_IsLocal a \<longleftrightarrow> 
     IsIPv4 a \<and> (GetByte a 3 = 127 \<or> GetByte a 3 = 0) \<or>
     starts [0, 0, 0, 0, 0, 0, 0, 0, 0, 0, 0, 0, 0, 0, 0, 1] (ip a)"

definition IsMulticast :: "'a CNetAddr_scheme \<Rightarrow> bool" where
  "IsMulticast a \<longleftrightarrow> IsIPv4 a \<and> GetByte a 3 AND 0xF0 = 0xE0 \<or> GetByte a 15 = 0xFF"

definition addr_IsValid :: "'a CNetAddr_scheme \<Rightarrow> bool" where
  "addr_IsValid a \<longleftrightarrow> 
     \<not> starts (drop 3 pchIPv4) (ip a) \<and> ip a \<noteq> replicate 16 0 \<and> \<not> IsRFC3849 a \<and>
     (IsIPv4 a \<longrightarrow> take 4 (drop 12 (ip a)) \<noteq> [0xFF, 0xFF, 0xFF, 0xFF] \<and> take 4 (drop 12 (ip a)) \<noteq> [0, 0, 0, 0])"

definition IsRoutable :: "'a CNetAddr_scheme \<Rightarrow> bool" where
  "IsRoutable a \<longleftrightarrow> 
     addr_IsValid a \<and>
     \<not> (IsRFC1918 a \<or> IsRFC3927 a \<or> IsRFC4862 a \<or> IsRFC4193 a \<and> \<not> IsTor a \<and> \<not> IsI2P a \<or>
        IsRFC4843 a \<or> addr_IsLocal a)"

definition GetNetwork :: "'a CNetAddr_scheme \<Rightarrow> Network" where
  "GetNetwork a =
     (if \<not> IsRoutable a then NET_UNROUTABLE
      else if IsIPv4 a then NET_IPV4
      else if IsTor a then NET_TOR
      else if IsI2P a then NET_I2P
      else NET_IPV6)"

text \<open>
  The group of an address: its class, then the bytes of the prefix, the last one with its low bits set when
  the prefix ends inside it.
\<close>

definition group_bytes :: "'a CNetAddr_scheme \<Rightarrow> nat \<Rightarrow> nat \<Rightarrow> nat \<Rightarrow> bytes" where
  "group_bytes a nClass nStartByte nBits =
     (word_of_nat nClass :: byte) # map (\<lambda>k. GetByte a (15 - (nStartByte + k))) [0..<nBits div 8] @
     (if nBits mod 8 > 0
      then [GetByte a (15 - (nStartByte + nBits div 8)) OR (push_bit (nBits mod 8) 1 - 1)] else [])"

definition GetGroup :: "'a CNetAddr_scheme \<Rightarrow> bytes" where
  "GetGroup a =
     (let (nClass, nBits) = (if addr_IsLocal a then (255, 0) else (network_code NET_IPV6, 16))
      in if \<not> IsRoutable a then group_bytes a (network_code NET_UNROUTABLE) 0 0
         else if IsIPv4 a \<or> IsRFC6145 a \<or> IsRFC6052 a then group_bytes a (network_code NET_IPV4) 12 nBits
         else if IsRFC3964 a then group_bytes a (network_code NET_IPV4) 2 nBits
         else if IsRFC4380 a
         then [word_of_nat (network_code NET_IPV4), GetByte a 3 XOR 0xFF, GetByte a 2 XOR 0xFF]
         else if IsTor a then group_bytes a (network_code NET_TOR) 6 4
         else if IsI2P a then group_bytes a (network_code NET_I2P) 6 4
         else if GetByte a 15 = 0x20 \<and> GetByte a 14 = 0x01 \<and> GetByte a 13 = 0x04 \<and> GetByte a 12 = 0x70
         then group_bytes a nClass 0 36
         else group_bytes a nClass 0 32)"

text \<open>How reachable an address is from a partner; \<open>None\<close> is the null pointer.\<close>

datatype Reachability =
  REACH_UNREACHABLE | REACH_DEFAULT | REACH_TEREDO | REACH_IPV6_WEAK | REACH_IPV4 | REACH_IPV6_STRONG | REACH_PRIVATE

datatype ExtNetwork = Net Network | NET_UNKNOWN | NET_TEREDO

definition GetExtNetwork :: "'a CNetAddr_scheme option \<Rightarrow> ExtNetwork" where
  "GetExtNetwork addr =
     (case addr of
        None \<Rightarrow> NET_UNKNOWN
      | Some a \<Rightarrow> if IsRFC4380 a then NET_TEREDO else Net (GetNetwork a))"

definition GetReachabilityFrom :: "'a CNetAddr_scheme \<Rightarrow> 'b CNetAddr_scheme option \<Rightarrow> Reachability" where
  "GetReachabilityFrom a paddrPartner =
     (if \<not> IsRoutable a then REACH_UNREACHABLE
      else
        let ourNet = GetExtNetwork (Some a); fTunnel = IsRFC3964 a \<or> IsRFC6052 a \<or> IsRFC6145 a
        in case GetExtNetwork paddrPartner of
             Net NET_IPV4 \<Rightarrow> if ourNet = Net NET_IPV4 then REACH_IPV4 else REACH_DEFAULT
           | Net NET_IPV6 \<Rightarrow>
               (case ourNet of
                  NET_TEREDO \<Rightarrow> REACH_TEREDO
                | Net NET_IPV4 \<Rightarrow> REACH_IPV4
                | Net NET_IPV6 \<Rightarrow> if fTunnel then REACH_IPV6_WEAK else REACH_IPV6_STRONG
                | _ \<Rightarrow> REACH_DEFAULT)
           | Net NET_TOR \<Rightarrow>
               (case ourNet of Net NET_IPV4 \<Rightarrow> REACH_IPV4 | Net NET_TOR \<Rightarrow> REACH_PRIVATE | _ \<Rightarrow> REACH_DEFAULT)
           | Net NET_I2P \<Rightarrow> if ourNet = Net NET_I2P then REACH_PRIVATE else REACH_DEFAULT
           | NET_TEREDO \<Rightarrow>
               (case ourNet of
                  NET_TEREDO \<Rightarrow> REACH_TEREDO
                | Net NET_IPV6 \<Rightarrow> REACH_IPV6_WEAK
                | Net NET_IPV4 \<Rightarrow> REACH_IPV4
                | _ \<Rightarrow> REACH_DEFAULT)
           | _ \<Rightarrow>
               (case ourNet of
                  NET_TEREDO \<Rightarrow> REACH_TEREDO
                | Net NET_IPV6 \<Rightarrow> REACH_IPV6_WEAK
                | Net NET_IPV4 \<Rightarrow> REACH_IPV4
                | Net NET_I2P \<Rightarrow> REACH_PRIVATE
                | Net NET_TOR \<Rightarrow> REACH_PRIVATE
                | _ \<Rightarrow> REACH_DEFAULT))"

section \<open>Names\<close>

text \<open>A name that ends like those of Tor and I2P is the text of an address.\<close>

definition ends_in :: "string \<Rightarrow> string \<Rightarrow> bool" where
  "ends_in suf s \<longleftrightarrow> length s > length suf \<and> drop (length s - length suf) s = suf"

definition SetSpecial :: "string \<Rightarrow> CNetAddr \<Rightarrow> bool \<times> CNetAddr" where
  "SetSpecial strName a =
     (if ends_in ''.onion'' strName then
        let vchAddr = fst (DecodeBase32 (take (length strName - 6) strName))
        in if length vchAddr \<noteq> 16 - length pchOnionCat then (False, a)
           else (True, a\<lparr>ip := pchOnionCat @ vchAddr\<rparr>)
      else if ends_in ''.oc.b32.i2p'' strName then
        let vchAddr = fst (DecodeBase32 (take (length strName - 11) strName))
        in if length vchAddr \<noteq> 16 - length pchGarliCat then (False, a)
           else (True, a\<lparr>ip := take (length pchGarliCat) pchOnionCat @ vchAddr\<rparr>)
      else (False, a))"

text \<open>Decimal and hexadecimal numbers as \<open>strprintf\<close> writes them.\<close>

definition digit_char :: "nat \<Rightarrow> char" where
  "digit_char d = ''0123456789abcdef'' ! d"

fun show_base :: "nat \<Rightarrow> nat \<Rightarrow> string" where
  "show_base k n = (if n < k \<or> k < 2 then [digit_char n] else show_base k (n div k) @ [digit_char (n mod k)])"

declare show_base.simps [simp del]

fun join_with :: "char \<Rightarrow> string list \<Rightarrow> string" where
  "join_with c [] = []"
| "join_with c [x] = x"
| "join_with c (x # xs) = x @ c # join_with c xs"

definition show_quad :: "bytes \<Rightarrow> string" where
  "show_quad bs = join_with CHR ''.'' (map (\<lambda>b. show_base 10 (unat b)) bs)"

fun byte_pairs :: "bytes \<Rightarrow> nat list" where
  "byte_pairs (a # b # bs) = (push_bit 8 (unat a) OR unat b) # byte_pairs bs"
| "byte_pairs _ = []"

definition show_groups :: "bytes \<Rightarrow> string" where
  "show_groups bs = join_with CHR '':'' (map (show_base 16) (byte_pairs bs))"

text \<open>
  Resolution: the addresses \<open>getaddrinfo\<close> finds for a name, numeric or not, and the text \<open>getnameinfo\<close> has
  for an address, if any.
\<close>

datatype sockaddr = AF_INET bytes | AF_INET6 bytes | AF_OTHER

record net_env =
  getaddrinfo :: "string \<Rightarrow> bool \<Rightarrow> sockaddr list option"
  getnameinfo :: "CNetAddr \<Rightarrow> string option"

definition ToStringIP :: "net_env \<Rightarrow> 'a CNetAddr_scheme \<Rightarrow> string" where
  "ToStringIP E a =
     (if IsTor a then EncodeBase32 (take 10 (drop 6 (ip a))) @ ''.onion''
      else if IsI2P a then EncodeBase32 (take 10 (drop 6 (ip a))) @ ''.oc.b32.i2p''
      else
        case getnameinfo E (CNetAddr.truncate a) of
          Some name \<Rightarrow> name
        | None \<Rightarrow> if IsIPv4 a then show_quad (take 4 (drop 12 (ip a))) else show_groups (ip a))"

fun lookup_results :: "nat \<Rightarrow> CNetAddr list \<Rightarrow> sockaddr list \<Rightarrow> CNetAddr list" where
  "lookup_results nMax vIP [] = vIP"
| "lookup_results nMax vIP (s # ss) =
     (if nMax = 0 \<or> length vIP < nMax then
        lookup_results nMax
          (case s of
             AF_INET b \<Rightarrow> vIP @ [\<lparr>ip = pchIPv4 @ take 4 b\<rparr>]
           | AF_INET6 b \<Rightarrow> vIP @ [\<lparr>ip = take 16 b\<rparr>]
           | AF_OTHER \<Rightarrow> vIP) ss
      else vIP)"

definition LookupIntern :: "net_env \<Rightarrow> string \<Rightarrow> nat \<Rightarrow> bool \<Rightarrow> bool \<times> CNetAddr list" where
  "LookupIntern E pszName nMax fAllowLookup =
     (case SetSpecial pszName addr_none of
        (True, addr) \<Rightarrow> (True, [addr])
      | (False, _) \<Rightarrow>
          (case getaddrinfo E pszName fAllowLookup of
             None \<Rightarrow> (False, [])
           | Some aiRes \<Rightarrow> let vIP = lookup_results nMax [] aiRes in (length vIP > 0, vIP)))"

definition LookupHost :: "net_env \<Rightarrow> string \<Rightarrow> nat \<Rightarrow> bool \<Rightarrow> bool \<times> CNetAddr list" where
  "LookupHost E pszName nMax fAllowLookup =
     (if pszName = [] then (False, [])
      else if hd pszName = CHR ''['' \<and> last pszName = CHR '']''
      then LookupIntern E (take (length pszName - 2) (drop 1 pszName)) nMax fAllowLookup
      else LookupIntern E pszName nMax fAllowLookup)"

section \<open>Services\<close>

record CService = CNetAddr +
  port :: "16 word"

definition CService_GetKey :: "'a CService_scheme \<Rightarrow> bytes" where
  "CService_GetKey s = take 16 (ip s) @ [ucast (drop_bit 8 (port s)), ucast (port s AND 0xFF)]"

definition service_eq :: "'a CService_scheme \<Rightarrow> 'b CService_scheme \<Rightarrow> bool" where
  "service_eq s t \<longleftrightarrow> CNetAddr.truncate s = CNetAddr.truncate t \<and> port s = port t"

section \<open>Subnets\<close>

record CSubNet =
  network :: CNetAddr
  netmask :: bytes
  valid :: bool

text \<open>
  \<open>strtol\<close> in base ten: white space, a sign, digits; the number and what follows.  Out of the range of a
  \<open>long\<close> it gives the nearest limit, which \<open>ParseInt32\<close> refuses as it refuses the number itself.
\<close>

definition isdigit :: "char \<Rightarrow> bool" where
  "isdigit c \<longleftrightarrow> 48 \<le> (of_char c :: nat) \<and> (of_char c :: nat) \<le> 57"

definition strtol10 :: "string \<Rightarrow> int \<times> string" where
  "strtol10 str =
     (let t = dropWhile isspace str;
          u = (if t \<noteq> [] \<and> (hd t = CHR ''-'' \<or> hd t = CHR ''+'') then tl t else t);
          ds = takeWhile isdigit u;
          n = foldl (\<lambda>n c. 10 * n + (of_char c - 48)) 0 ds
      in if ds = [] then (0, str)
         else (if t \<noteq> [] \<and> hd t = CHR ''-'' then - n else n, dropWhile isdigit u))"

definition ParseInt32 :: "string \<Rightarrow> int option" where
  "ParseInt32 str =
     (case strtol10 (c_str str) of
        (n, endp) \<Rightarrow> if endp = [] \<and> - (2 ^ 31) \<le> n \<and> n < 2 ^ 31 then Some n else None)"

text \<open>\<open>for (; n < 128; ++n) netmask[n>>3] &= ~(1<<(n&7));\<close>\<close>

definition clear_bit :: "nat \<Rightarrow> bytes \<Rightarrow> bytes" where
  "clear_bit n msk = msk[n div 8 := msk ! (n div 8) AND NOT (push_bit (n mod 8) 1)]"

definition clear_bits_from :: "nat \<Rightarrow> bytes \<Rightarrow> bytes" where
  "clear_bits_from n msk = foldl (\<lambda>msk n. clear_bit n msk) msk [n..<128]"

fun copy_mask :: "nat \<Rightarrow> CNetAddr \<Rightarrow> bytes \<Rightarrow> bytes" where
  "copy_mask 0 a msk = msk"
| "copy_mask (Suc x) a msk = (copy_mask x a msk)[15 - x := GetByte a x]"

text \<open>The text before and after the last slash.\<close>

definition split_slash :: "string \<Rightarrow> string \<times> string option" where
  "split_slash str =
     (if CHR ''/'' \<in> set str
      then (rev (tl (dropWhile (\<lambda>c. c \<noteq> CHR ''/'') (rev str))), Some (rev (takeWhile (\<lambda>c. c \<noteq> CHR ''/'') (rev str))))
      else (str, None))"

definition subnet_of :: "net_env \<Rightarrow> string \<Rightarrow> bool \<Rightarrow> CSubNet" where
  "subnet_of E strSubnet fAllowLookup =
     (let (strAddress, msk) = split_slash strSubnet; ones = replicate 16 0xFF
      in case LookupHost E (c_str strAddress) 1 fAllowLookup of
           (False, _) \<Rightarrow> \<lparr>network = addr_none, netmask = ones, valid = False\<rparr>
         | (True, vIP) \<Rightarrow>
             let net = hd vIP; s = \<lparr>network = net, netmask = ones, valid = True\<rparr>
             in case msk of
                  None \<Rightarrow> s
                | Some strNetmask \<Rightarrow>
                    let noffset = (if IsIPv4 net then 12 * 8 else 0)
                    in case ParseInt32 strNetmask of
                         Some n \<Rightarrow>
                           if 0 \<le> n \<and> n \<le> 128 - noffset
                           then s\<lparr>netmask := clear_bits_from (nat (n + noffset)) ones\<rparr>
                           else s\<lparr>valid := False\<rparr>
                       | None \<Rightarrow>
                           (case LookupHost E (c_str strNetmask) 1 False of
                              (True, vIP) \<Rightarrow> s\<lparr>netmask := copy_mask (if IsIPv4 net then 4 else 16) (hd vIP) ones\<rparr>
                            | (False, _) \<Rightarrow> s\<lparr>valid := False\<rparr>))"

definition subnet_Match :: "CSubNet \<Rightarrow> 'a CNetAddr_scheme \<Rightarrow> bool" where
  "subnet_Match s a \<longleftrightarrow> valid s \<and> addr_IsValid a \<and>
     list_all (\<lambda>x. GetByte a x AND netmask s ! (15 - x) = GetByte (network s) x) [0..<16]"

definition NetmaskBits :: "byte \<Rightarrow> nat option" where
  "NetmaskBits x = map_of (zip [0, 0x80, 0xc0, 0xe0, 0xf0, 0xf8, 0xfc, 0xfe, 0xff] [0..<9]) x"

definition cidr_of :: "bytes \<Rightarrow> nat option" where
  "cidr_of msk =
     (let full = takeWhile (\<lambda>b. b = 0xff) msk; rest = drop (length full) msk
      in case rest of
           [] \<Rightarrow> Some (8 * length full)
         | b # bs \<Rightarrow>
             (case NetmaskBits b of
                None \<Rightarrow> None
              | Some bits \<Rightarrow> if list_all (\<lambda>b. b = 0) bs then Some (8 * length full + bits) else None))"

definition subnet_ToString :: "net_env \<Rightarrow> CSubNet \<Rightarrow> string" where
  "subnet_ToString E s =
     (let n = (if IsIPv4 (network s) then 12 else 0)
      in ToStringIP E (network s) @ ''/'' @
         (case cidr_of (drop n (netmask s)) of
            Some cidr \<Rightarrow> show_base 10 cidr
          | None \<Rightarrow> if IsIPv4 (network s) then show_quad (drop 12 (netmask s)) else show_groups (netmask s)))"

text \<open>Equality, and the equivalence of \<open>operator<\<close>, which does not look at \<open>valid\<close>.\<close>

definition subnet_eq :: "CSubNet \<Rightarrow> CSubNet \<Rightarrow> bool" where
  "subnet_eq a b \<longleftrightarrow> valid a = valid b \<and> network a = network b \<and> netmask a = netmask b"

definition subnet_key :: "CSubNet \<Rightarrow> bytes \<times> bytes" where
  "subnet_key s = (ip (network s), netmask s)"

section \<open>Bans\<close>

text \<open>
  \<open>CNode::setBanned\<close> as the list of its entries, one for each network and mask; no operation depends on their
  order.  Time and the \<open>-bantime\<close> option are arguments.
\<close>

datatype BanReason = BanReasonUnknown | BanReasonNodeMisbehaving | BanReasonManuallyAdded

record CBanEntry =
  ban_nVersion :: int
  nCreateTime :: int
  nBanUntil :: int
  banReason :: BanReason

definition mk_ban :: "int \<Rightarrow> CBanEntry" where
  "mk_ban nCreateTimeIn = \<lparr>ban_nVersion = 1, nCreateTime = nCreateTimeIn, nBanUntil = 0, banReason = BanReasonUnknown\<rparr>"

record ban_state =
  setBanned :: "(CSubNet \<times> CBanEntry) list"
  setBannedIsDirty :: bool

fun ban_find :: "CSubNet \<Rightarrow> (CSubNet \<times> CBanEntry) list \<Rightarrow> CBanEntry option" where
  "ban_find s [] = None"
| "ban_find s ((t, e) # es) = (if subnet_key t = subnet_key s then Some e else ban_find s es)"

fun ban_put :: "CSubNet \<Rightarrow> CBanEntry \<Rightarrow> (CSubNet \<times> CBanEntry) list \<Rightarrow> (CSubNet \<times> CBanEntry) list" where
  "ban_put s e [] = [(s, e)]"
| "ban_put s e ((t, e') # es) = (if subnet_key t = subnet_key s then (t, e) # es else (t, e') # ban_put s e es)"

definition ClearBanned :: "ban_state \<Rightarrow> ban_state" where
  "ClearBanned st = st\<lparr>setBanned := [], setBannedIsDirty := True\<rparr>"

definition IsBanned :: "ban_state \<Rightarrow> int \<Rightarrow> 'a CNetAddr_scheme \<Rightarrow> bool" where
  "IsBanned st GetTime a \<longleftrightarrow> list_ex (\<lambda>(s, e). subnet_Match s a \<and> GetTime < nBanUntil e) (setBanned st)"

definition IsBanned_subnet :: "ban_state \<Rightarrow> int \<Rightarrow> CSubNet \<Rightarrow> bool" where
  "IsBanned_subnet st GetTime s \<longleftrightarrow>
     (case ban_find s (setBanned st) of None \<Rightarrow> False | Some e \<Rightarrow> GetTime < nBanUntil e)"

definition Ban_subnet :: "int \<Rightarrow> int \<Rightarrow> CSubNet \<Rightarrow> BanReason \<Rightarrow> int \<Rightarrow> bool \<Rightarrow> ban_state \<Rightarrow> ban_state" where
  "Ban_subnet bantime GetTime s reason bantimeoffset sinceUnixEpoch st =
     (let (offset, since) = (if bantimeoffset \<le> 0 then (bantime, False) else (bantimeoffset, sinceUnixEpoch));
          entry = (mk_ban GetTime)\<lparr>banReason := reason, nBanUntil := (if since then 0 else GetTime) + offset\<rparr>;
          old = (case ban_find s (setBanned st) of None \<Rightarrow> mk_ban 0 | Some e \<Rightarrow> e)
      in st\<lparr>setBanned := ban_put s (if nBanUntil old < nBanUntil entry then entry else old) (setBanned st),
            setBannedIsDirty := True\<rparr>)"

definition addr_subnet :: "net_env \<Rightarrow> 'a CNetAddr_scheme \<Rightarrow> CSubNet" where
  "addr_subnet E a = subnet_of E (ToStringIP E a @ (if IsIPv4 a then ''/32'' else ''/128'')) False"

definition Ban ::
  "net_env \<Rightarrow> int \<Rightarrow> int \<Rightarrow> 'a CNetAddr_scheme \<Rightarrow> BanReason \<Rightarrow> int \<Rightarrow> bool \<Rightarrow> ban_state \<Rightarrow> ban_state" where
  "Ban E bantime GetTime a reason bantimeoffset sinceUnixEpoch st =
     Ban_subnet bantime GetTime (addr_subnet E a) reason bantimeoffset sinceUnixEpoch st"

definition Unban_subnet :: "CSubNet \<Rightarrow> ban_state \<Rightarrow> bool \<times> ban_state" where
  "Unban_subnet s st =
     (if ban_find s (setBanned st) \<noteq> None
      then (True, st\<lparr>setBanned := filter (\<lambda>(t, _). subnet_key t \<noteq> subnet_key s) (setBanned st), setBannedIsDirty := True\<rparr>)
      else (False, st))"

definition Unban :: "net_env \<Rightarrow> 'a CNetAddr_scheme \<Rightarrow> ban_state \<Rightarrow> bool \<times> ban_state" where
  "Unban E a st = Unban_subnet (addr_subnet E a) st"

definition SweepBanned :: "int \<Rightarrow> ban_state \<Rightarrow> ban_state" where
  "SweepBanned now st =
     (let kept = filter (\<lambda>(_, e). \<not> now > nBanUntil e) (setBanned st)
      in st\<lparr>setBanned := kept,
            setBannedIsDirty := (setBannedIsDirty st \<or> length kept < length (setBanned st))\<rparr>)"

section \<open>Names of Tor and I2P addresses\<close>

lemma starts_append: "starts pre s \<Longrightarrow> s = pre @ drop (length pre) s"
  using append_take_drop_id[of "length pre" s] by (simp add: starts_def)

lemma starts_hd: "starts (x # pre) s \<Longrightarrow> hd s = x"
  by (cases s) (auto simp: starts_def)

lemma ends_in_append: "x \<noteq> [] \<Longrightarrow> ends_in suf (x @ suf)"
  by (simp add: ends_in_def)

lemma EncodeBase32_not_Nil: "bs \<noteq> [] \<Longrightarrow> EncodeBase32 bs \<noteq> []"
  by (cases bs) (simp_all add: EncodeBase32_def Let_def)

lemma ends_in_i2p_onion: "\<not> ends_in ''.onion'' (x @ ''.oc.b32.i2p'')"
proof -
  have "drop (length x + 5) (x @ ''.oc.b32.i2p'') = drop 5 ''.oc.b32.i2p''" by (simp only: drop_append) simp
  moreover have "drop 5 ''.oc.b32.i2p'' = ''32.i2p''" "length ''.onion'' = 6" "length ''.oc.b32.i2p'' = 11"
    "''32.i2p'' \<noteq> ''.onion''" by code_simp+
  ultimately show ?thesis unfolding ends_in_def length_append by simp
qed

lemma SetSpecial_tor:
  assumes "IsTor a" "length (ip a) = 16"
  shows "SetSpecial (ToStringIP E a) b = (True, b\<lparr>ip := ip a\<rparr>)"
proof -
  let ?e = "EncodeBase32 (drop 6 (ip a))"
  have "drop 6 (ip a) \<noteq> []" using assms(2) by auto
  then have ne: "?e \<noteq> []" by (rule EncodeBase32_not_Nil)
  have "ip a = pchOnionCat @ drop 6 (ip a)"
    using starts_append[of pchOnionCat "ip a"] assms(1) by (simp add: IsTor_def pchOnionCat_def eval_nat_numeral)
  then show ?thesis
    using assms ends_in_append[OF ne, of "''.onion''"]
    by (simp add: SetSpecial_def ToStringIP_def base32_round_trip pchOnionCat_def)
qed

lemma not_tor_i2p: "IsI2P a \<Longrightarrow> \<not> IsTor a"
  by (auto simp: IsTor_def IsI2P_def starts_def pchOnionCat_def pchGarliCat_def)

lemma SetSpecial_i2p:
  assumes "IsI2P a" "length (ip a) = 16"
  shows "SetSpecial (ToStringIP E a) b = (True, b\<lparr>ip := pchOnionCat @ drop 6 (ip a)\<rparr>)"
proof -
  let ?e = "EncodeBase32 (drop 6 (ip a))"
  have "drop 6 (ip a) \<noteq> []" using assms(2) by auto
  then have ne: "?e \<noteq> []" by (rule EncodeBase32_not_Nil)
  show ?thesis
    using assms(2) ends_in_append[OF ne, of "''.oc.b32.i2p''"] not_tor_i2p[OF assms(1)] assms(1) ends_in_i2p_onion[of ?e]
    by (simp add: SetSpecial_def ToStringIP_def base32_round_trip pchOnionCat_def pchGarliCat_def)
qed

section \<open>What a subnet matches\<close>

text \<open>
  \<open>addr_bit a j\<close>: bit \<open>j mod 8\<close>, from the low end, of byte \<open>j div 8\<close>.  That is the order in which the code
  clears bits of a mask; a prefix of a network counts the bits of a byte from the high end.
\<close>

definition addr_bit :: "bytes \<Rightarrow> nat \<Rightarrow> bool" where
  "addr_bit b j \<longleftrightarrow> bit (b ! (j div 8)) (j mod 8)"

definition prefix_bit :: "bytes \<Rightarrow> nat \<Rightarrow> bool" where
  "prefix_bit b j \<longleftrightarrow> bit (b ! (j div 8)) (7 - j mod 8)"

lemma bytes_eq_bits:
  assumes "length b = 16" "length c = 16"
  shows "b = c \<longleftrightarrow> (\<forall>j<128. addr_bit b j = addr_bit c j)"
proof
  assume bits: "\<forall>j<128. addr_bit b j = addr_bit c j"
  show "b = c"
  proof (rule nth_equalityI)
    fix i assume i: "i < length b"
    show "b ! i = c ! i"
    proof (rule bit_eqI)
      fix n assume n: "possible_bit TYPE(byte) n"
      then have "n < 8" by simp
      then have "8 * i + n < 128" "(8 * i + n) div 8 = i" "(8 * i + n) mod 8 = n" using i assms(1) by auto
      then show "bit (b ! i) n = bit (c ! i) n" using bits[rule_format, of "8 * i + n"] by (simp add: addr_bit_def)
    qed
  qed (use assms in simp)
qed simp

lemma length_clear_bits [simp]: "length (clear_bits_from n m) = length m"
proof -
  have "length (foldl (\<lambda>m n. clear_bit n m) m ns) = length m" for ns
    by (induction ns arbitrary: m) (simp_all add: clear_bit_def)
  then show ?thesis by (simp add: clear_bits_from_def)
qed

lemma addr_bit_clear:
  assumes "length m = 16" "j < 128" "k < 128"
  shows "addr_bit (clear_bit k m) j \<longleftrightarrow> addr_bit m j \<and> j \<noteq> k"
proof (cases "k div 8 = j div 8")
  case True
  have "j div 8 < 16" using assms(2) by simp
  moreover have "j = k \<longleftrightarrow> j mod 8 = k mod 8" using True by (metis div_mult_mod_eq)
  ultimately show ?thesis
    using True assms(1)
    by (auto simp: addr_bit_def clear_bit_def bit_and_iff bit_not_iff bit_exp_iff)
next
  case False
  then show ?thesis by (auto simp: addr_bit_def clear_bit_def)
qed

lemma addr_bit_clear_bits:
  assumes "length m = 16" "j < 128"
  shows "addr_bit (clear_bits_from n m) j \<longleftrightarrow> addr_bit m j \<and> j < n"
proof -
  have "addr_bit (foldl (\<lambda>m n. clear_bit n m) m ns) j \<longleftrightarrow> addr_bit m j \<and> j \<notin> set ns"
    if "length m = 16" "set ns \<subseteq> {..<128}" for ns m
    using that
  proof (induction ns arbitrary: m)
    case (Cons k ns)
    have "length (clear_bit k m) = 16" using Cons.prems by (simp add: clear_bit_def)
    then show ?case using Cons addr_bit_clear[of m j k] assms(2) by auto
  qed simp
  moreover have "set [n..<128] \<subseteq> {..<128}" by auto
  ultimately show ?thesis using assms by (auto simp: clear_bits_from_def)
qed

lemma addr_bit_ones [simp]: "j < 128 \<Longrightarrow> addr_bit (replicate 16 0xFF) j"
proof -
  have "list_all (\<lambda>j. addr_bit (replicate 16 0xFF) j) [0..<128]" by code_simp
  then show "j < 128 \<Longrightarrow> addr_bit (replicate 16 0xFF) j" by (simp add: list_all_iff)
qed

text \<open>The loop of \<open>Match\<close> compares the masked address with the network.\<close>

lemma from_the_end: "(\<forall>x<16. P (15 - x)) \<longleftrightarrow> (\<forall>i<16. P (i :: nat))"
proof
  assume P: "\<forall>x<16. P (15 - x)"
  have "P i" if "i < 16" for i using P[rule_format, of "15 - i"] that by simp
  then show "\<forall>i<16. P i" by blast
qed simp

lemma subnet_Match_bits:
  assumes "length (ip a) = 16" "length (netmask s) = 16" "length (ip (network s)) = 16"
  shows "subnet_Match s a \<longleftrightarrow> valid s \<and> addr_IsValid a \<and>
    (\<forall>j<128. (addr_bit (ip a) j \<and> addr_bit (netmask s) j) = addr_bit (ip (network s)) j)"
proof -
  let ?masked = "map2 (AND) (ip a) (netmask s)"
  have "list_all (\<lambda>x. GetByte a x AND netmask s ! (15 - x) = GetByte (network s) x) [0..<16] \<longleftrightarrow>
      (\<forall>x<16. ?masked ! (15 - x) = ip (network s) ! (15 - x))"
    using assms by (auto simp: list_all_iff GetByte_def)
  also have "\<dots> \<longleftrightarrow> (\<forall>i<16. ?masked ! i = ip (network s) ! i)"
    by (rule from_the_end)
  also have "\<dots> \<longleftrightarrow> ?masked = ip (network s)" using assms by (auto simp: list_eq_iff_nth_eq)
  also have "\<dots> \<longleftrightarrow> (\<forall>j<128. addr_bit ?masked j = addr_bit (ip (network s)) j)"
    using assms by (intro bytes_eq_bits) simp_all
  also have "\<dots> \<longleftrightarrow> (\<forall>j<128. (addr_bit (ip a) j \<and> addr_bit (netmask s) j) = addr_bit (ip (network s)) j)"
    using assms by (auto simp: addr_bit_def bit_and_iff)
  finally show ?thesis by (simp add: subnet_Match_def)
qed

lemma split_slash_last:
  assumes "CHR ''/'' \<notin> set num"
  shows "split_slash (txt @ CHR ''/'' # num) = (txt, Some num)"
proof -
  have rev: "rev (txt @ CHR ''/'' # num) = rev num @ CHR ''/'' # rev txt" by simp
  have "dropWhile (\<lambda>c. c \<noteq> CHR ''/'') (rev num @ CHR ''/'' # rev txt) = CHR ''/'' # rev txt"
    using assms by (subst dropWhile_append2) auto
  moreover have "takeWhile (\<lambda>c. c \<noteq> CHR ''/'') (rev num @ CHR ''/'' # rev txt) = rev num"
    using assms by (subst takeWhile_append2) auto
  ultimately show ?thesis by (simp only: split_slash_def rev) simp
qed

lemma subnet_of_number:
  assumes "LookupHost E (c_str txt) 1 fl = (True, net # r)" "CHR ''/'' \<notin> set num" "ParseInt32 num = Some (int n)"
    and "n \<le> 128 - (if IsIPv4 net then 96 else 0)"
  shows "subnet_of E (txt @ CHR ''/'' # num) fl =
    \<lparr>network = net, netmask = clear_bits_from (n + (if IsIPv4 net then 96 else 0)) (replicate 16 0xFF), valid = True\<rparr>"
  using assms by (auto simp: subnet_of_def split_slash_last nat_add_distrib)

lemma masked_prefix:
  assumes "8 dvd k" "\<forall>j<128. prefix_bit net j \<longrightarrow> j < k"
  shows "(\<forall>j<128. (addr_bit b j \<and> j < k) = addr_bit net j) \<longleftrightarrow> (\<forall>j<128. j < k \<longrightarrow> prefix_bit b j = prefix_bit net j)"
proof -
  define r where "r j = j div 8 * 8 + (7 - j mod 8)" for j :: nat
  have r: "r j div 8 = j div 8" "r j mod 8 = 7 - j mod 8" for j
    unfolding r_def by (intro quot_rem; simp)+
  have "7 - (7 - j mod 8) = j mod 8" for j :: nat using mod_less_divisor[of 8 j] by linarith
  then have rr: "r (r j) = j" for j by (subst r_def) (simp add: r mult_div_mod_eq mult.commute)
  have small: "r j < k' \<longleftrightarrow> j < k'" if d: "8 dvd k'" for j k'
  proof -
    from d obtain c where "k' = 8 * c" by (rule dvdE)
    then have c: "k' = c * 8" by simp
    have "x < c * 8 \<longleftrightarrow> x div 8 < c" for x :: nat by (simp add: div_less_iff_less_mult)
    then show ?thesis unfolding c by (simp only: r(1))
  qed
  have flip: "prefix_bit c j = addr_bit c (r j)" for c j by (simp add: prefix_bit_def addr_bit_def r)
  have s128: "r j < 128 \<longleftrightarrow> j < 128" for j by (rule small) simp
  have all: "(\<forall>j<128. P j) \<longleftrightarrow> (\<forall>j<128. P (r j))" for P
  proof
    assume P: "\<forall>j<128. P (r j)"
    show "\<forall>j<128. P j"
    proof (intro allI impI)
      fix j :: nat assume "j < 128"
      then show "P j" using P[rule_format, of "r j"] s128[of j] rr[of j] by simp
    qed
  qed (use s128 in blast)
  show ?thesis
    unfolding all[of "\<lambda>j. (addr_bit b j \<and> j < k) = addr_bit net j"]
    using assms(2) by (auto simp: flip small[OF assms(1)])
qed

text \<open>
  C16. A subnet written with a number \<open>n\<close> matches a valid address exactly when the bits of the address below
  \<open>n\<close>, counted from the low end of each byte, are those of the network, and the network has no others.  So it
  is the prefix of length \<open>n\<close> only when \<open>n\<close> is a multiple of eight.
\<close>

theorem subnet_matches:
  assumes "LookupHost E (c_str txt) 1 fl = (True, net # r)" "CHR ''/'' \<notin> set num" "ParseInt32 num = Some (int n)"
    and "n \<le> 128 - (if IsIPv4 net then 96 else 0)" "k = n + (if IsIPv4 net then 96 else 0)"
    and "length (ip net) = 16" "length (ip a) = 16"
  shows "(subnet_Match (subnet_of E (txt @ CHR ''/'' # num) fl) a \<longleftrightarrow>
      addr_IsValid a \<and> (\<forall>j<128. (addr_bit (ip a) j \<and> j < k) = addr_bit (ip net) j)) \<and>
    (8 dvd n \<and> (\<forall>j<128. prefix_bit (ip net) j \<longrightarrow> j < k) \<longrightarrow>
      (subnet_Match (subnet_of E (txt @ CHR ''/'' # num) fl) a \<longleftrightarrow>
        addr_IsValid a \<and> (\<forall>j<128. j < k \<longrightarrow> prefix_bit (ip a) j = prefix_bit (ip net) j)))"
proof -
  let ?s = "subnet_of E (txt @ CHR ''/'' # num) fl"
  have s: "?s = \<lparr>network = net, netmask = clear_bits_from k (replicate 16 0xFF), valid = True\<rparr>"
    using subnet_of_number[OF assms(1-4)] assms(5) by simp
  have bits: "subnet_Match ?s a \<longleftrightarrow> addr_IsValid a \<and> (\<forall>j<128. (addr_bit (ip a) j \<and> j < k) = addr_bit (ip net) j)"
    using subnet_Match_bits[of a ?s] assms(6,7) by (auto simp: s addr_bit_clear_bits)
  have "8 dvd n \<Longrightarrow> 8 dvd k" using assms(5) by (auto intro: dvd_add)
  then show ?thesis using bits masked_prefix[of k "ip net" "ip a"] by blast
qed

text \<open>Resolution of one dotted address.\<close>

definition quad_env :: "string \<Rightarrow> bytes \<Rightarrow> net_env" where
  "quad_env name b =
     \<lparr>getaddrinfo = \<lambda>s _. if s = name then Some [AF_INET b] else None, getnameinfo = \<lambda>_. None\<rparr>"

abbreviation quad :: "byte \<Rightarrow> byte \<Rightarrow> byte \<Rightarrow> byte \<Rightarrow> CNetAddr" where
  "quad a b c d \<equiv> \<lparr>ip = [0, 0, 0, 0, 0, 0, 0, 0, 0, 0, 0xff, 0xff, a, b, c, d]\<rparr>"

lemma below_128: "(\<forall>j<128. P j) \<longleftrightarrow> list_all P [0..<128]"
  by (auto simp: list_all_iff)

lemma subnet_matches_witness:
  "subnet_Match (subnet_of (quad_env ''10.0.0.0'' [10, 0, 0, 0]) (''10.0.0.0'' @ CHR ''/'' # ''12'') False) (quad 10 16 0 1) \<and>
   \<not> subnet_Match (subnet_of (quad_env ''10.0.0.0'' [10, 0, 0, 0]) (''10.0.0.0'' @ CHR ''/'' # ''12'') False) (quad 10 1 0 1)"
proof -
  let ?E = "quad_env ''10.0.0.0'' [10, 0, 0, 0]"
  have "LookupHost ?E (c_str ''10.0.0.0'') 1 False = (True, [quad 10 0 0 0])" by code_simp
  moreover have "ParseInt32 ''12'' = Some (int 12)" "CHR ''/'' \<notin> set ''12''" "IsIPv4 (quad 10 0 0 0)" by code_simp+
  ultimately have m: "subnet_Match (subnet_of ?E (''10.0.0.0'' @ CHR ''/'' # ''12'') False) (quad 10 x 0 1) \<longleftrightarrow>
      addr_IsValid (quad 10 x 0 1) \<and> (\<forall>j<128. (addr_bit (ip (quad 10 x 0 1)) j \<and> j < 108) = addr_bit (ip (quad 10 0 0 0)) j)"
    for x using subnet_matches[of ?E "''10.0.0.0''" False "quad 10 0 0 0" "[]" "''12''" 12 108 "quad 10 x 0 1"] by simp
  have "addr_IsValid (quad 10 16 0 1)"
    "list_all (\<lambda>j. (addr_bit (ip (quad 10 16 0 1)) j \<and> j < 108) = addr_bit (ip (quad 10 0 0 0)) j) [0..<128]"
    "\<not> list_all (\<lambda>j. (addr_bit (ip (quad 10 1 0 1)) j \<and> j < 108) = addr_bit (ip (quad 10 0 0 0)) j) [0..<128]"
    by code_simp+
  then show ?thesis unfolding m below_128 by blast
qed

section \<open>Who is banned\<close>

text \<open>Resolution of the text of an address, as the manual pages describe it.\<close>

definition resolves :: "net_env \<Rightarrow> CNetAddr \<Rightarrow> bool" where
  "resolves E a \<longleftrightarrow>
     (let t = ToStringIP E a
      in t \<noteq> [] \<and> CHR 0x00 \<notin> set t \<and> hd t \<noteq> CHR ''['' \<and> \<not> ends_in ''.onion'' t \<and> \<not> ends_in ''.oc.b32.i2p'' t \<and>
         getaddrinfo E t False = Some [if IsIPv4 a then AF_INET (drop 12 (ip a)) else AF_INET6 (ip a)])"

definition host_subnet :: "bytes \<Rightarrow> CSubNet" where
  "host_subnet b = \<lparr>network = \<lparr>ip = b\<rparr>, netmask = replicate 16 0xFF, valid = True\<rparr>"

lemma host_subnet_Match:
  assumes "length b = 16" "length (ip a) = 16"
  shows "subnet_Match (host_subnet b) a \<longleftrightarrow> addr_IsValid a \<and> ip a = b"
  using subnet_Match_bits[of a "host_subnet b"] assms bytes_eq_bits[of "ip a" b] by (auto simp: host_subnet_def)

lemma full_mask_number:
  assumes "LookupHost E (c_str t) 1 False = (True, [n])" "length (ip n) = 16"
  shows "subnet_of E (t @ (if IsIPv4 n then ''/32'' else ''/128'')) False = host_subnet (ip n)"
proof -
  have num: "ParseInt32 ''32'' = Some (int 32)" "ParseInt32 ''128'' = Some (int 128)"
    "CHR ''/'' \<notin> set ''32''" "CHR ''/'' \<notin> set ''128''" by code_simp+
  have "clear_bits_from 128 m = m" for m by (simp add: clear_bits_from_def)
  then show ?thesis
    using subnet_of_number[OF assms(1) num(3) num(1)] subnet_of_number[OF assms(1) num(4) num(2)]
    by (simp add: host_subnet_def)
qed

lemma c_str_whole: "CHR 0x00 \<notin> set t \<Longrightarrow> c_str t = t"
  by (simp add: c_str_def takeWhile_eq_all_conv) (metis (full_types))

lemma LookupHost_special:
  assumes "CHR 0x00 \<notin> set t" "t \<noteq> []" "hd t \<noteq> CHR ''[''" "SetSpecial t addr_none = (True, n)"
  shows "LookupHost E (c_str t) m fl = (True, [n])"
  using assms by (simp add: c_str_whole LookupHost_def LookupIntern_def)

lemma base32_name:
  assumes "bs \<noteq> []" "CHR 0x00 \<notin> set suf"
  shows "CHR 0x00 \<notin> set (EncodeBase32 bs @ suf)" "EncodeBase32 bs @ suf \<noteq> []"
    "hd (EncodeBase32 bs @ suf) \<noteq> CHR ''[''"
proof -
  have "CHR 0x00 \<notin> insert CHR ''='' (set pbase32)" "CHR ''['' \<notin> insert CHR ''='' (set pbase32)" by code_simp+
  then have "CHR 0x00 \<notin> set (EncodeBase32 bs)" "CHR ''['' \<notin> set (EncodeBase32 bs)"
    using encode_chars[of 0 bs] by (auto simp: EncodeBase32_def)
  then show "CHR 0x00 \<notin> set (EncodeBase32 bs @ suf)" "EncodeBase32 bs @ suf \<noteq> []"
    "hd (EncodeBase32 bs @ suf) \<noteq> CHR ''[''"
    using assms EncodeBase32_not_Nil[OF assms(1)] by (auto simp: hd_append) (metis hd_in_set)
qed

text \<open>The subnet that stands for one address when it is banned.\<close>

lemma addr_subnet_tor:
  assumes "IsTor a" "length (ip a) = 16"
  shows "addr_subnet E a = host_subnet (ip a)"
proof -
  have t: "ToStringIP E a = EncodeBase32 (drop 6 (ip a)) @ ''.onion''" using assms by (simp add: ToStringIP_def)
  have "drop 6 (ip a) \<noteq> []" "CHR 0x00 \<notin> set ''.onion''" using assms(2) by auto
  note name = base32_name[OF this]
  have v4: "\<not> IsIPv4 a" using assms(1) by (auto simp: IsTor_def IsIPv4_def pchOnionCat_def pchIPv4_def dest!: starts_hd)
  have "LookupHost E (c_str (ToStringIP E a)) 1 False = (True, [\<lparr>ip = ip a\<rparr>])"
    using LookupHost_special[OF name(1,2,3), of "addr_none\<lparr>ip := ip a\<rparr>"] SetSpecial_tor[OF assms, of E addr_none] t
    by (simp add: addr_none_def)
  from full_mask_number[OF this] show ?thesis using assms v4 by (simp add: addr_subnet_def IsIPv4_def)
qed

lemma addr_subnet_i2p:
  assumes "IsI2P a" "length (ip a) = 16"
  shows "addr_subnet E a = host_subnet (pchOnionCat @ drop 6 (ip a))"
proof -
  let ?b = "pchOnionCat @ drop 6 (ip a)"
  have t: "ToStringIP E a = EncodeBase32 (drop 6 (ip a)) @ ''.oc.b32.i2p''"
    using assms not_tor_i2p[OF assms(1)] by (simp add: ToStringIP_def)
  have "drop 6 (ip a) \<noteq> []" "CHR 0x00 \<notin> set ''.oc.b32.i2p''" using assms(2) by auto
  note name = base32_name[OF this]
  have v4: "\<not> IsIPv4 a" using assms(1) by (auto simp: IsI2P_def IsIPv4_def pchGarliCat_def pchIPv4_def dest!: starts_hd)
  have v4': "\<not> IsIPv4 \<lparr>ip = ?b\<rparr>" by (auto simp: IsIPv4_def pchOnionCat_def pchIPv4_def dest!: starts_hd)
  have "LookupHost E (c_str (ToStringIP E a)) 1 False = (True, [\<lparr>ip = ?b\<rparr>])"
    using LookupHost_special[OF name(1,2,3), of "addr_none\<lparr>ip := ?b\<rparr>"] SetSpecial_i2p[OF assms, of E addr_none] t
    by (simp add: addr_none_def)
  from full_mask_number[OF this] show ?thesis using assms v4 v4' by (simp add: addr_subnet_def pchOnionCat_def)
qed

lemma addr_subnet_numeric:
  assumes "resolves E (CNetAddr.truncate a)" "length (ip a) = 16"
  shows "addr_subnet E a = host_subnet (ip a)"
proof -
  let ?a = "CNetAddr.truncate a" and ?t = "ToStringIP E a"
  have [simp]: "ip ?a = ip a" "ToStringIP E ?a = ?t" "IsIPv4 ?a = IsIPv4 a"
    by (simp_all add: CNetAddr.truncate_def ToStringIP_def IsTor_def IsI2P_def IsIPv4_def split: option.split)
  have special: "SetSpecial ?t addr_none = (False, addr_none)"
    using assms(1) by (simp add: resolves_def Let_def SetSpecial_def)
  have v4: "pchIPv4 @ drop 12 (ip a) = ip a" if "IsIPv4 a"
    using starts_append[of pchIPv4 "ip a"] that by (simp add: IsIPv4_def pchIPv4_def eval_nat_numeral)
  have "LookupHost E (c_str ?t) 1 False = (True, [\<lparr>ip = ip a\<rparr>])"
    using assms special v4 by (auto simp: resolves_def Let_def LookupHost_def LookupIntern_def c_str_whole split: if_splits)
  from full_mask_number[OF this] show ?thesis using assms(2) by (simp add: addr_subnet_def IsIPv4_def)
qed

text \<open>Bans and sweeps that come later; every list of bans they make has valid subnets.\<close>

datatype ban_op = OpBan CSubNet BanReason int bool int | OpSweep int

fun ban_op_run :: "int \<Rightarrow> ban_op \<Rightarrow> ban_state \<Rightarrow> ban_state" where
  "ban_op_run bantime (OpBan s reason offset since now) st = Ban_subnet bantime now s reason offset since st"
| "ban_op_run bantime (OpSweep now) st = SweepBanned now st"

definition bans_valid :: "ban_state \<Rightarrow> bool" where
  "bans_valid st \<longleftrightarrow> (\<forall>(s, e) \<in> set (setBanned st). valid s)"

text \<open>The network and mask are banned until a time.\<close>

definition banned_until :: "ban_state \<Rightarrow> bytes \<times> bytes \<Rightarrow> int \<Rightarrow> bool" where
  "banned_until st k t \<longleftrightarrow> (\<exists>s e. (s, e) \<in> set (setBanned st) \<and> valid s \<and> subnet_key s = k \<and> t \<le> nBanUntil e)"

lemma ban_put_other: "(t, e) \<in> set es \<Longrightarrow> subnet_key t \<noteq> subnet_key s \<Longrightarrow> (t, e) \<in> set (ban_put s x es)"
  by (induction es) (auto split: prod.splits)

lemma ban_put_same:
  "ban_find s es = Some e \<Longrightarrow> \<exists>t. (t, e) \<in> set es \<and> subnet_key t = subnet_key s \<and> (t, x) \<in> set (ban_put s x es)"
  by (induction es) (auto split: prod.splits if_splits)

lemma ban_put_new: "ban_find s es = None \<Longrightarrow> (s, x) \<in> set (ban_put s x es)"
  by (induction es) (auto split: prod.splits if_splits)

lemma ban_put_subset: "(t, e) \<in> set (ban_put s x es) \<Longrightarrow> (t, e) \<in> set es \<or> (\<exists>e'. (t, e') \<in> set es) \<or> t = s"
  by (induction es) (auto split: prod.splits if_splits)

lemma bans_valid_Ban: "bans_valid st \<Longrightarrow> valid s \<Longrightarrow> bans_valid (Ban_subnet bt now s r off since st)"
  by (auto simp: bans_valid_def Ban_subnet_def Let_def split: if_splits dest!: ban_put_subset)

lemma bans_valid_Sweep: "bans_valid st \<Longrightarrow> bans_valid (SweepBanned now st)"
  by (auto simp: bans_valid_def SweepBanned_def Let_def)

text \<open>Keys are not repeated, so that an entry is the one that is found.\<close>

definition bans_ok :: "ban_state \<Rightarrow> bool" where
  "bans_ok st \<longleftrightarrow> bans_valid st \<and> distinct (map (subnet_key \<circ> fst) (setBanned st))"

lemma ban_put_keys:
  "map (subnet_key \<circ> fst) (ban_put s x es) =
     map (subnet_key \<circ> fst) es @ (if subnet_key s \<in> set (map (subnet_key \<circ> fst) es) then [] else [subnet_key s])"
  by (induction es) (auto split: prod.splits, force)

lemma bans_ok_Ban: "bans_ok st \<Longrightarrow> valid s \<Longrightarrow> bans_ok (Ban_subnet bt now s r off since st)"
  using bans_valid_Ban[of st s bt now r off since]
  by (auto simp: bans_ok_def Ban_subnet_def Let_def ban_put_keys split: prod.splits)

lemma bans_ok_Sweep: "bans_ok st \<Longrightarrow> bans_ok (SweepBanned now st)"
  using bans_valid_Sweep[of st now]
  by (auto simp: bans_ok_def SweepBanned_def Let_def distinct_map inj_on_def)

lemma ban_find_entry:
  "distinct (map (subnet_key \<circ> fst) es) \<Longrightarrow> (t, e) \<in> set es \<Longrightarrow> subnet_key t = subnet_key s \<Longrightarrow> ban_find s es = Some e"
  by (induction es) (auto split: prod.splits simp: image_iff)

lemma Ban_subnet_puts:
  "\<exists>x. setBanned (Ban_subnet bt now s r off since st) = ban_put s x (setBanned st) \<and>
     (off > 0 \<and> \<not> since \<longrightarrow> now + off \<le> nBanUntil x) \<and>
     (\<forall>e. ban_find s (setBanned st) = Some e \<longrightarrow> nBanUntil e \<le> nBanUntil x)"
  by (auto simp: Ban_subnet_def Let_def split: option.split)

lemma bans_okD: "bans_ok st \<Longrightarrow> (s, e) \<in> set (setBanned st) \<Longrightarrow> valid s"
  by (auto simp: bans_ok_def bans_valid_def)

lemma Ban_bans:
  assumes "bans_ok st" "valid s" "off > 0"
  shows "banned_until (Ban_subnet bt now s r off False st) (subnet_key s) (now + off)"
proof -
  obtain x where x: "setBanned (Ban_subnet bt now s r off False st) = ban_put s x (setBanned st)" "now + off \<le> nBanUntil x"
    using Ban_subnet_puts[of bt now s r off False st] assms(3) by auto
  show ?thesis
  proof (cases "ban_find s (setBanned st)")
    case None
    from ban_put_new[OF this, of x] show ?thesis using x assms(2) by (auto simp: banned_until_def)
  next
    case (Some e)
    from ban_put_same[OF this, of x] obtain t where
      "(t, e) \<in> set (setBanned st)" "subnet_key t = subnet_key s" "(t, x) \<in> set (ban_put s x (setBanned st))" by blast
    then show ?thesis using x bans_okD[OF assms(1)] unfolding banned_until_def by metis
  qed
qed

lemma Ban_keeps_ban:
  assumes "bans_ok st" "banned_until st k t"
  shows "banned_until (Ban_subnet bt now s r off since st) k t"
proof -
  obtain s' e where e: "(s', e) \<in> set (setBanned st)" "valid s'" "subnet_key s' = k" "t \<le> nBanUntil e"
    using assms(2) by (auto simp: banned_until_def)
  obtain x where x: "setBanned (Ban_subnet bt now s r off since st) = ban_put s x (setBanned st)"
      "\<And>e. ban_find s (setBanned st) = Some e \<Longrightarrow> nBanUntil e \<le> nBanUntil x"
    using Ban_subnet_puts[of bt now s r off since st] by auto
  show ?thesis
  proof (cases "subnet_key s' = subnet_key s")
    case False
    from ban_put_other[OF e(1) this, of x] show ?thesis using e x(1) by (auto simp: banned_until_def)
  next
    case True
    have f: "ban_find s (setBanned st) = Some e"
      using ban_find_entry[OF _ e(1) True] assms(1) by (simp add: bans_ok_def)
    from ban_put_same[OF f, of x] obtain u where
      "(u, e) \<in> set (setBanned st)" "subnet_key u = subnet_key s" "(u, x) \<in> set (ban_put s x (setBanned st))" by blast
    then show ?thesis
      using e True x(1) x(2)[OF f] bans_okD[OF assms(1)] unfolding banned_until_def by (metis order_trans)
  qed
qed

lemma Sweep_keeps_ban: "banned_until st k t \<Longrightarrow> now < t \<Longrightarrow> banned_until (SweepBanned now st) k t"
  by (force simp: banned_until_def SweepBanned_def Let_def)

fun later_op :: "int \<Rightarrow> ban_op \<Rightarrow> bool" where
  "later_op t (OpBan s reason offset since now) \<longleftrightarrow> valid s"
| "later_op t (OpSweep now) \<longleftrightarrow> now < t"

lemma later_ops_keep:
  assumes "bans_ok st" "banned_until st k t" "list_all (later_op t) ops"
  shows "bans_ok (fold (ban_op_run bt) ops st) \<and> banned_until (fold (ban_op_run bt) ops st) k t"
  using assms
proof (induction ops arbitrary: st)
  case (Cons op ops)
  then show ?case
    by (cases op) (simp_all add: bans_ok_Ban bans_ok_Sweep Ban_keeps_ban Sweep_keeps_ban)
qed simp

lemma banned_until_IsBanned:
  assumes "banned_until st (subnet_key (host_subnet (ip a))) t" "length (ip a) = 16" "addr_IsValid a" "now < t"
  shows "IsBanned st now a"
proof -
  obtain s e where e: "(s, e) \<in> set (setBanned st)" "valid s" "subnet_key s = subnet_key (host_subnet (ip a))" "t \<le> nBanUntil e"
    using assms(1) by (auto simp: banned_until_def)
  then have "s = host_subnet (ip a)" by (simp add: host_subnet_def subnet_key_def)
  then have "subnet_Match s a" using host_subnet_Match[of "ip a" a] assms(2,3) by simp
  then show ?thesis using e assms(4) by (force simp: IsBanned_def list_ex_iff)
qed

text \<open>
  C15. A banned address stays banned until its time, whatever other bans and sweeps come in between: an address of
  Tor, whose name is its text, and a numeric address that resolves as documented.
\<close>

theorem banned_until_expiry:
  assumes "bans_ok st" "length (ip a) = 16" "addr_IsValid a" "IsTor a \<or> resolves E (CNetAddr.truncate a)"
    and "offset > 0" "t < now + offset" "list_all (later_op (now + offset)) ops"
  shows "IsBanned (fold (ban_op_run bantime) ops (Ban E bantime now a reason offset False st)) t a"
proof -
  have sub: "addr_subnet E a = host_subnet (ip a)" using assms(2,4) addr_subnet_tor addr_subnet_numeric by blast
  have v: "valid (host_subnet (ip a))" by (simp add: host_subnet_def)
  have "banned_until (Ban E bantime now a reason offset False st) (subnet_key (host_subnet (ip a))) (now + offset)"
    using Ban_bans[OF assms(1) v assms(5)] by (simp add: Ban_def sub)
  moreover have "bans_ok (Ban E bantime now a reason offset False st)"
    using bans_ok_Ban[OF assms(1) v] by (simp add: Ban_def sub)
  ultimately show ?thesis using later_ops_keep banned_until_IsBanned assms by blast
qed

lemma banned_until_expiry_witness:
  "IsBanned (fold (ban_op_run 86400) [OpSweep 1050, OpBan (host_subnet (replicate 16 7)) BanReasonManuallyAdded 0 False 1060]
     (Ban (quad_env ''8.8.4.4'' [8, 8, 4, 4]) 86400 1000 (quad 8 8 4 4) BanReasonNodeMisbehaving 100 False
       \<lparr>setBanned = [], setBannedIsDirty = False\<rparr>)) 1099 (quad 8 8 4 4)"
proof (rule banned_until_expiry)
  show "IsTor (quad 8 8 4 4) \<or> resolves (quad_env ''8.8.4.4'' [8, 8, 4, 4]) (CNetAddr.truncate (quad 8 8 4 4))"
    by code_simp
  show "addr_IsValid (quad 8 8 4 4)" by code_simp
qed (simp_all add: bans_ok_def bans_valid_def host_subnet_def)

lemma tor_bytes_valid:
  assumes "ip b = pchOnionCat @ r"
  shows "addr_IsValid b" "IsTor b"
proof -
  have "hd (ip b) = 0xFD" using assms by (simp add: pchOnionCat_def)
  then have hd: "hd (ip b) \<noteq> 0" by simp
  have "drop 3 pchIPv4 = 0 # drop 4 pchIPv4" "pchIPv4 = 0 # drop 1 pchIPv4" by (simp_all add: pchIPv4_def)
  then have "\<not> IsIPv4 b" "\<not> starts (drop 3 pchIPv4) (ip b)" "ip b \<noteq> replicate 16 0"
    using hd starts_hd[of 0 _ "ip b"] unfolding IsIPv4_def by (metis, metis, auto)
  moreover have "GetByte b 15 = 0xFD" using assms by (simp add: GetByte_def pchOnionCat_def)
  ultimately show "addr_IsValid b" by (simp add: addr_IsValid_def IsRFC3849_def)
  show "IsTor b" using assms by (simp add: IsTor_def starts_def)
qed

lemma ban_put_cases: "(t, e) \<in> set (ban_put s x es) \<Longrightarrow> (t, e) \<in> set es \<or> subnet_key t = subnet_key s"
  by (induction es) (auto split: prod.splits if_splits)

text \<open>
  C40. Banning an I2P address bans another one: \<open>SetSpecial\<close> gives the name of an I2P address the prefix of Tor.
  The banned peer is no more banned than before, and the Tor address with the same last bytes is.
\<close>

theorem i2p_ban_misses:
  assumes "IsI2P a" "length (ip a) = 16" "bans_ok st" "ip b = pchOnionCat @ drop 6 (ip a)" "t < now + offset" "offset > 0"
  shows "(IsBanned (Ban E bantime now a reason offset False st) t a \<longleftrightarrow> IsBanned st t a) \<and>
    IsTor b \<and> IsBanned (Ban E bantime now a reason offset False st) t b"
proof -
  let ?st = "Ban E bantime now a reason offset False st" and ?s = "host_subnet (ip b)"
  have sub: "addr_subnet E a = ?s" using addr_subnet_i2p[OF assms(1,2)] assms(4) by simp
  have len: "length (ip b) = 16" using assms(2,4) by (simp add: pchOnionCat_def)
  have v: "valid ?s" by (simp add: host_subnet_def)
  have ne: "ip a \<noteq> ip b"
    using not_tor_i2p[OF assms(1)] assms(4) unfolding IsTor_def starts_def by (metis append_eq_conv_conj)
  obtain x where x: "setBanned ?st = ban_put ?s x (setBanned st)"
    using Ban_subnet_puts[of bantime now ?s reason offset False st] by (auto simp: Ban_def sub)
  have hit: "\<not> subnet_Match u a" if "subnet_key u = subnet_key ?s" for u
  proof -
    have "subnet_Match u a \<Longrightarrow> u = ?s" using that by (cases u) (simp add: subnet_key_def host_subnet_def subnet_Match_def)
    then show ?thesis using host_subnet_Match[OF len assms(2)] ne by auto
  qed
  have m: "p \<in> set (setBanned ?st) \<and> (case p of (u, e) \<Rightarrow> subnet_Match u a \<and> t < nBanUntil e) \<longleftrightarrow>
      p \<in> set (setBanned st) \<and> (case p of (u, e) \<Rightarrow> subnet_Match u a \<and> t < nBanUntil e)" for p
    using hit[of "fst p"] ban_put_cases[of "fst p" "snd p" ?s x "setBanned st"]
      ban_put_other[of "fst p" "snd p" "setBanned st" ?s x]
    by (cases p) (auto simp: x)
  have "IsBanned ?st t a \<longleftrightarrow> IsBanned st t a"
    unfolding IsBanned_def list_ex_iff Bex_def using m by blast
  moreover have "banned_until ?st (subnet_key ?s) (now + offset)"
    using Ban_bans[OF assms(3) v assms(6)] by (simp add: Ban_def sub)
  then have "IsBanned ?st t b" using banned_until_IsBanned len tor_bytes_valid(1)[OF assms(4)] assms(5) by blast
  ultimately show ?thesis using tor_bytes_valid(2)[OF assms(4)] by blast
qed

lemma i2p_ban_misses_witness:
  "\<not> IsBanned (Ban (quad_env [] []) 86400 1000 \<lparr>ip = pchGarliCat @ replicate 10 1\<rparr> BanReasonNodeMisbehaving 100 False
       \<lparr>setBanned = [], setBannedIsDirty = False\<rparr>) 1050 \<lparr>ip = pchGarliCat @ replicate 10 1\<rparr> \<and>
   IsBanned (Ban (quad_env [] []) 86400 1000 \<lparr>ip = pchGarliCat @ replicate 10 1\<rparr> BanReasonNodeMisbehaving 100 False
       \<lparr>setBanned = [], setBannedIsDirty = False\<rparr>) 1050 \<lparr>ip = pchOnionCat @ replicate 10 1\<rparr>"
  using i2p_ban_misses[of "\<lparr>ip = pchGarliCat @ replicate 10 1\<rparr>" "\<lparr>setBanned = [], setBannedIsDirty = False\<rparr>"
      "\<lparr>ip = pchOnionCat @ replicate 10 1\<rparr>" 1050 1000 100 "quad_env [] []" 86400 BanReasonNodeMisbehaving]
  by (simp add: IsI2P_def starts_def pchGarliCat_def bans_ok_def bans_valid_def IsBanned_def[of "\<lparr>setBanned = [], setBannedIsDirty = False\<rparr>"])

end
