(* ===== verification/AddrMan.thy ===== *)
theory AddrMan
  imports NetAddr Serialize "HOL-Library.Multiset"
begin

text \<open>
  The table of known peers: \<open>CAddrInfo\<close> and \<open>CAddrMan\<close> of \<open>src/src/addrman.h\<close> and
  \<open>src/src/addrman.cpp\<close>.  An entry has an id; the ids are in a map, in a vector in random order, and in
  buckets of \<open>new\<close> or \<open>tried\<close> addresses.  A failed assertion, an access out of a vector or to an id that has
  no entry is \<open>None\<close>.  Random numbers are a function from the draws of a call, in order, to the numbers;
  \<open>GetRandInt\<close> reduces them.  \<open>Hash\<close> and the time are arguments.  Counters of entries and attempts are
  \<open>int\<close>: they count calls.  \<open>Select_\<close>, which computes with floating-point numbers, is not modelled.
\<close>

section \<open>Entries\<close>

definition ADDRMAN_TRIED_BUCKET_COUNT :: nat where "ADDRMAN_TRIED_BUCKET_COUNT = 64"
definition ADDRMAN_TRIED_BUCKET_SIZE :: nat where "ADDRMAN_TRIED_BUCKET_SIZE = 64"
definition ADDRMAN_NEW_BUCKET_COUNT :: nat where "ADDRMAN_NEW_BUCKET_COUNT = 256"
definition ADDRMAN_NEW_BUCKET_SIZE :: nat where "ADDRMAN_NEW_BUCKET_SIZE = 64"
definition ADDRMAN_TRIED_BUCKETS_PER_GROUP :: uint64 where "ADDRMAN_TRIED_BUCKETS_PER_GROUP = 4"
definition ADDRMAN_NEW_BUCKETS_PER_SOURCE_GROUP :: uint64 where "ADDRMAN_NEW_BUCKETS_PER_SOURCE_GROUP = 32"
definition ADDRMAN_NEW_BUCKETS_PER_ADDRESS :: int where "ADDRMAN_NEW_BUCKETS_PER_ADDRESS = 4"
definition ADDRMAN_TRIED_ENTRIES_INSPECT_ON_EVICT :: nat where "ADDRMAN_TRIED_ENTRIES_INSPECT_ON_EVICT = 4"
definition ADDRMAN_HORIZON_DAYS :: int where "ADDRMAN_HORIZON_DAYS = 30"
definition ADDRMAN_RETRIES :: int where "ADDRMAN_RETRIES = 3"
definition ADDRMAN_MAX_FAILURES :: int where "ADDRMAN_MAX_FAILURES = 10"
definition ADDRMAN_MIN_FAIL_DAYS :: int where "ADDRMAN_MIN_FAIL_DAYS = 7"
definition ADDRMAN_GETADDR_MAX_PCT :: nat where "ADDRMAN_GETADDR_MAX_PCT = 23"
definition ADDRMAN_GETADDR_MAX :: nat where "ADDRMAN_GETADDR_MAX = 2500"

lemmas addrman_sizes =
  ADDRMAN_TRIED_BUCKET_COUNT_def ADDRMAN_TRIED_BUCKET_SIZE_def ADDRMAN_NEW_BUCKET_COUNT_def ADDRMAN_NEW_BUCKET_SIZE_def
  ADDRMAN_NEW_BUCKETS_PER_ADDRESS_def

record CAddress = CService +
  nServices :: uint64
  nTime :: uint32
  nLastTry :: int

record CAddrInfo = CAddress +
  source :: CNetAddr
  nLastSuccess :: int
  nAttempts :: int
  nRefCount :: int
  fInTried :: bool
  nRandomPos :: int

definition mk_info :: "CAddress \<Rightarrow> CNetAddr \<Rightarrow> CAddrInfo" where
  "mk_info addrIn addrSource =
     CAddress.extend (addrIn\<lparr>nLastTry := 0\<rparr>)
       \<lparr>source = addrSource, nLastSuccess = 0, nAttempts = 0, nRefCount = 0, fInTried = False, nRandomPos = - 1\<rparr>"

definition Get64 :: "uint256 \<Rightarrow> uint64" where
  "Get64 h = ucast h"

definition GetTriedBucket :: "(bytes \<Rightarrow> uint256) \<Rightarrow> bytes \<Rightarrow> CAddrInfo \<Rightarrow> nat" where
  "GetTriedBucket Hash nKey info =
     (let hash1 = Get64 (Hash (write_bytevec nKey @ write_bytevec (CService_GetKey info)));
          hash2 = Get64 (Hash (write_bytevec nKey @ write_bytevec (GetGroup info) @
                               write_word 8 (hash1 mod ADDRMAN_TRIED_BUCKETS_PER_GROUP)))
      in unat hash2 mod ADDRMAN_TRIED_BUCKET_COUNT)"

definition GetNewBucket :: "(bytes \<Rightarrow> uint256) \<Rightarrow> bytes \<Rightarrow> CAddrInfo \<Rightarrow> CNetAddr \<Rightarrow> nat" where
  "GetNewBucket Hash nKey info src =
     (let hash1 = Get64 (Hash (write_bytevec nKey @ write_bytevec (GetGroup info) @ write_bytevec (GetGroup src)));
          hash2 = Get64 (Hash (write_bytevec nKey @ write_bytevec (GetGroup src) @
                               write_word 8 (hash1 mod ADDRMAN_NEW_BUCKETS_PER_SOURCE_GROUP)))
      in unat hash2 mod ADDRMAN_NEW_BUCKET_COUNT)"

definition IsTerrible :: "int \<Rightarrow> CAddrInfo \<Rightarrow> bool" where
  "IsTerrible nNow info \<longleftrightarrow>
     (if nLastTry info \<noteq> 0 \<and> nLastTry info \<ge> nNow - 60 then False
      else if uint (nTime info) > nNow + 10 * 60 then True
      else if nTime info = 0 \<or> nNow - uint (nTime info) > ADDRMAN_HORIZON_DAYS * 86400 then True
      else if nLastSuccess info = 0 \<and> nAttempts info \<ge> ADDRMAN_RETRIES then True
      else nNow - nLastSuccess info > ADDRMAN_MIN_FAIL_DAYS * 86400 \<and> nAttempts info \<ge> ADDRMAN_MAX_FAILURES)"

section \<open>The table\<close>

record CAddrMan =
  nKey :: bytes
  nIdCount :: int
  mapInfo :: "int \<rightharpoonup> CAddrInfo"
  mapAddr :: "CNetAddr \<rightharpoonup> int"
  vRandom :: "int list"
  nTried :: int
  vvTried :: "int list list"
  nNew :: int
  vvNew :: "int set list"

definition new_addrman :: "bytes \<Rightarrow> CAddrMan" where
  "new_addrman key =
     \<lparr>nKey = key, nIdCount = 0, mapInfo = Map.empty, mapAddr = Map.empty, vRandom = [], nTried = 0,
      vvTried = replicate ADDRMAN_TRIED_BUCKET_COUNT [], nNew = 0, vvNew = replicate ADDRMAN_NEW_BUCKET_COUNT {}\<rparr>"

text \<open>\<open>GetRand\<close> draws again until the number is below a multiple of the limit, so every value can come.\<close>

definition GetRandInt :: "nat \<Rightarrow> nat \<Rightarrow> nat" where
  "GetRandInt draw nMax = (if nMax = 0 then 0 else draw mod nMax)"

definition addr_Find :: "CAddrMan \<Rightarrow> 'a CNetAddr_scheme \<Rightarrow> (int \<times> CAddrInfo) option" where
  "addr_Find st addr =
     (case mapAddr st (CNetAddr.truncate addr) of
        None \<Rightarrow> None
      | Some nId \<Rightarrow> (case mapInfo st nId of None \<Rightarrow> None | Some info \<Rightarrow> Some (nId, info)))"

definition addr_Create :: "CAddrMan \<Rightarrow> CAddress \<Rightarrow> CNetAddr \<Rightarrow> int \<times> CAddrInfo \<times> CAddrMan" where
  "addr_Create st addr addrSource =
     (let nId = nIdCount st;
          info = (mk_info addr addrSource)\<lparr>nRandomPos := int (length (vRandom st))\<rparr>
      in (nId, info,
          st\<lparr>nIdCount := nId + 1, mapInfo := (mapInfo st)(nId \<mapsto> info),
             mapAddr := (mapAddr st)(CNetAddr.truncate addr \<mapsto> nId), vRandom := vRandom st @ [nId]\<rparr>))"

text \<open>The positions are \<open>unsigned int\<close>: a negative one is out of the vector, as in the code.\<close>

definition SwapRandom :: "int \<Rightarrow> int \<Rightarrow> CAddrMan \<Rightarrow> CAddrMan option" where
  "SwapRandom nRndPos1 nRndPos2 st =
     (if nRndPos1 = nRndPos2 then Some st
      else if 0 \<le> nRndPos1 \<and> nRndPos1 < int (length (vRandom st)) \<and> 0 \<le> nRndPos2 \<and> nRndPos2 < int (length (vRandom st))
      then
        let nId1 = vRandom st ! nat nRndPos1; nId2 = vRandom st ! nat nRndPos2
        in case mapInfo st nId1 of
             None \<Rightarrow> None
           | Some info1 \<Rightarrow>
               let m1 = (mapInfo st)(nId1 \<mapsto> info1\<lparr>nRandomPos := nRndPos2\<rparr>)
               in case m1 nId2 of
                    None \<Rightarrow> None
                  | Some info2 \<Rightarrow>
                      Some (st\<lparr>mapInfo := m1(nId2 \<mapsto> info2\<lparr>nRandomPos := nRndPos1\<rparr>),
                               vRandom := (vRandom st)[nat nRndPos1 := nId2, nat nRndPos2 := nId1]\<rparr>)
      else None)"

text \<open>
  One reference less: an entry without any is moved to the end of the vector and deleted; then the id leaves
  the bucket.
\<close>

definition drop_entry :: "int \<Rightarrow> CAddrInfo \<Rightarrow> CAddrMan \<Rightarrow> CAddrMan option" where
  "drop_entry nId info st =
     (case SwapRandom (nRandomPos info) (int (length (vRandom st)) - 1) st of
        None \<Rightarrow> None
      | Some st \<Rightarrow>
          if vRandom st = [] then None
          else Some (st\<lparr>vRandom := butlast (vRandom st), mapAddr := (mapAddr st)(CNetAddr.truncate info := None),
                       mapInfo := (mapInfo st)(nId := None), nNew := nNew st - 1\<rparr>))"

definition drop_reference :: "nat \<Rightarrow> int \<Rightarrow> CAddrMan \<Rightarrow> CAddrMan option" where
  "drop_reference nUBucket nId st =
     (case mapInfo st nId of
        None \<Rightarrow> None
      | Some info \<Rightarrow>
          let info = info\<lparr>nRefCount := nRefCount info - 1\<rparr>; st = st\<lparr>mapInfo := (mapInfo st)(nId \<mapsto> info)\<rparr>
          in map_option (\<lambda>st. st\<lparr>vvNew := (vvNew st)[nUBucket := vvNew st ! nUBucket - {nId}]\<rparr>)
               (if nRefCount info = 0 then drop_entry nId info st else Some st))"

fun first_terrible :: "int \<Rightarrow> (int \<rightharpoonup> CAddrInfo) \<Rightarrow> int list \<Rightarrow> int option option" where
  "first_terrible nNow minfo [] = Some None"
| "first_terrible nNow minfo (n # ns) =
     (case minfo n of
        None \<Rightarrow> None
      | Some info \<Rightarrow> if IsTerrible nNow info then Some (Some n) else first_terrible nNow minfo ns)"

text \<open>The oldest of those drawn: the ids come with their positions in the bucket.\<close>

fun oldest_drawn :: "(int \<rightharpoonup> CAddrInfo) \<Rightarrow> nat set \<Rightarrow> nat \<Rightarrow> int \<Rightarrow> int list \<Rightarrow> int option" where
  "oldest_drawn minfo n nI nOldest [] = Some nOldest"
| "oldest_drawn minfo n nI nOldest (i # ids) =
     (if nI \<in> n then
        if nOldest = - 1 then oldest_drawn minfo n (nI + 1) i ids
        else
          case (minfo i, minfo nOldest) of
            (Some info, Some old) \<Rightarrow> oldest_drawn minfo n (nI + 1) (if nTime info < nTime old then i else nOldest) ids
          | _ \<Rightarrow> None
      else oldest_drawn minfo n (nI + 1) nOldest ids)"

definition ShrinkNew :: "int \<Rightarrow> (nat \<Rightarrow> nat) \<Rightarrow> nat \<Rightarrow> CAddrMan \<Rightarrow> CAddrMan option" where
  "ShrinkNew nNow r nUBucket st =
     (if \<not> nUBucket < length (vvNew st) then None
      else
        let vNew = vvNew st ! nUBucket; ids = sorted_list_of_set vNew
        in case first_terrible nNow (mapInfo st) ids of
             None \<Rightarrow> None
           | Some (Some nId) \<Rightarrow> drop_reference nUBucket nId st
           | Some None \<Rightarrow>
               let n = (\<lambda>k. GetRandInt (r k) (card vNew)) ` {0, 1, 2, 3}
               in case oldest_drawn (mapInfo st) n 0 (- 1) ids of
                    None \<Rightarrow> None
                  | Some nOldest \<Rightarrow> drop_reference nUBucket nOldest st)"

text \<open>The loop over the first entries of a tried bucket: the position to replace, and the shuffled bucket.\<close>

fun inspect_tried ::
  "(int \<rightharpoonup> CAddrInfo) \<Rightarrow> (nat \<Rightarrow> nat) \<Rightarrow> nat list \<Rightarrow> int list \<Rightarrow> int \<Rightarrow> int \<Rightarrow> (int \<times> int list) option" where
  "inspect_tried minfo r [] vTried nOldest nOldestPos = Some (nOldestPos, vTried)"
| "inspect_tried minfo r (i # is) vTried nOldest nOldestPos =
     (let nPos = GetRandInt (r i) (length vTried - i) + i;
          nTemp = vTried ! nPos;
          vTried = vTried[nPos := vTried ! i];
          vTried = vTried[i := nTemp]
      in if nOldest = - 1 then inspect_tried minfo r is vTried nTemp (int nPos)
         else
           case (minfo nTemp, minfo nOldest) of
             (Some info, Some old) \<Rightarrow>
               if nLastSuccess info < nLastSuccess old then inspect_tried minfo r is vTried nTemp (int nPos)
               else inspect_tried minfo r is vTried nOldest nOldestPos
           | _ \<Rightarrow> None)"

definition SelectTried :: "(nat \<Rightarrow> nat) \<Rightarrow> nat \<Rightarrow> CAddrMan \<Rightarrow> (int \<times> CAddrMan) option" where
  "SelectTried r nKBucket st =
     (if nKBucket < length (vvTried st) then
        let vTried = vvTried st ! nKBucket
        in map_option (\<lambda>(nPos, vTried). (nPos, st\<lparr>vvTried := (vvTried st)[nKBucket := vTried]\<rparr>))
             (inspect_tried (mapInfo st) r [0..<min ADDRMAN_TRIED_ENTRIES_INSPECT_ON_EVICT (length vTried)] vTried (- 1) (- 1))
      else None)"

text \<open>The eviction of a tried entry by a new one: the place in \<open>MakeTried\<close> where the bucket is full.\<close>

definition evict_tried :: "(bytes \<Rightarrow> uint256) \<Rightarrow> (nat \<Rightarrow> nat) \<Rightarrow> int \<Rightarrow> nat \<Rightarrow> nat \<Rightarrow> CAddrMan \<Rightarrow> CAddrMan option" where
  "evict_tried Hash r nId nOrigin nKBucket st =
     (case SelectTried r nKBucket st of
        None \<Rightarrow> None
      | Some (nPos, st) \<Rightarrow>
          if \<not> (0 \<le> nPos \<and> nat nPos < length (vvTried st ! nKBucket)) then None
          else
            let old = vvTried st ! nKBucket ! nat nPos
            in case mapInfo st old of
                 None \<Rightarrow> None
               | Some infoOld \<Rightarrow>
                   let nUBucket = GetNewBucket Hash (nKey st) infoOld (source infoOld);
                       b = (if card (vvNew st ! nUBucket) < ADDRMAN_NEW_BUCKET_SIZE then nUBucket else nOrigin);
                       m = (mapInfo st)(old \<mapsto> infoOld\<lparr>fInTried := False, nRefCount := 1\<rparr>)
                   in Some (st\<lparr>mapInfo := (case m nId of None \<Rightarrow> m | Some info \<Rightarrow> m(nId \<mapsto> info\<lparr>fInTried := True\<rparr>)),
                              vvNew := (vvNew st)[b := insert old (vvNew st ! b)], nNew := nNew st + 1,
                              vvTried := (vvTried st)[nKBucket := (vvTried st ! nKBucket)[nat nPos := nId]]\<rparr>))"

definition MakeTried :: "(bytes \<Rightarrow> uint256) \<Rightarrow> (nat \<Rightarrow> nat) \<Rightarrow> int \<Rightarrow> nat \<Rightarrow> CAddrMan \<Rightarrow> CAddrMan option" where
  "MakeTried Hash r nId nOrigin st =
     (if \<not> (nOrigin < length (vvNew st) \<and> nId \<in> vvNew st ! nOrigin) then None
      else
        case mapInfo st nId of
          None \<Rightarrow> None
        | Some info \<Rightarrow>
            let info = info\<lparr>nRefCount := nRefCount info - int (length (filter (\<lambda>vNew. nId \<in> vNew) (vvNew st)))\<rparr>;
                st = st\<lparr>vvNew := map (\<lambda>vNew. vNew - {nId}) (vvNew st), nNew := nNew st - 1,
                        mapInfo := (mapInfo st)(nId \<mapsto> info)\<rparr>;
                nKBucket = GetTriedBucket Hash (nKey st) info
            in if nRefCount info \<noteq> 0 then None
               else if length (vvTried st ! nKBucket) < ADDRMAN_TRIED_BUCKET_SIZE
               then Some (st\<lparr>vvTried := (vvTried st)[nKBucket := vvTried st ! nKBucket @ [nId]], nTried := nTried st + 1,
                            mapInfo := (mapInfo st)(nId \<mapsto> info\<lparr>fInTried := True\<rparr>)\<rparr>)
               else evict_tried Hash r nId nOrigin nKBucket st)"

definition addrman_Good ::
  "(bytes \<Rightarrow> uint256) \<Rightarrow> (nat \<Rightarrow> nat) \<Rightarrow> 'a CService_scheme \<Rightarrow> int \<Rightarrow> CAddrMan \<Rightarrow> CAddrMan option" where
  "addrman_Good Hash r addr nTimeIn st =
     (case addr_Find st addr of
        None \<Rightarrow> Some st
      | Some (nId, info) \<Rightarrow>
          if \<not> service_eq info addr then Some st
          else
            let info = info\<lparr>nLastSuccess := nTimeIn, nLastTry := nTimeIn, nTime := word_of_int nTimeIn, nAttempts := 0\<rparr>;
                st = st\<lparr>mapInfo := (mapInfo st)(nId \<mapsto> info)\<rparr>;
                size = length (vvNew st);
                nRnd = GetRandInt (r 0) size
            in if fInTried info then Some st
               else case find (\<lambda>nB. nId \<in> vvNew st ! nB) (map (\<lambda>n. (n + nRnd) mod size) [0..<size]) of
                      None \<Rightarrow> Some st
                    | Some nUBucket \<Rightarrow> MakeTried Hash (r \<circ> Suc) nId nUBucket st)"

text \<open>The factor by which another reference is harder to get.\<close>

definition ref_factor :: "int \<Rightarrow> nat" where
  "ref_factor refs = 2 ^ nat refs"

text \<open>The last part of \<open>Add_\<close>, for an entry that may get one more reference.\<close>

definition add_reference ::
  "(bytes \<Rightarrow> uint256) \<Rightarrow> int \<Rightarrow> (nat \<Rightarrow> nat) \<Rightarrow> int \<Rightarrow> CAddrInfo \<Rightarrow> CNetAddr \<Rightarrow> CAddrMan \<Rightarrow> CAddrMan option" where
  "add_reference Hash nNow r nId info src st =
     (let nUBucket = GetNewBucket Hash (nKey st) info src
      in if nId \<in> vvNew st ! nUBucket then Some st
         else
           let st = st\<lparr>mapInfo := (mapInfo st)(nId \<mapsto> info\<lparr>nRefCount := nRefCount info + 1\<rparr>)\<rparr>
           in map_option (\<lambda>st. st\<lparr>vvNew := (vvNew st)[nUBucket := insert nId (vvNew st ! nUBucket)]\<rparr>)
                (if card (vvNew st ! nUBucket) = ADDRMAN_NEW_BUCKET_SIZE then ShrinkNew nNow r nUBucket st else Some st))"

definition addrman_Add ::
  "(bytes \<Rightarrow> uint256) \<Rightarrow> int \<Rightarrow> (nat \<Rightarrow> nat) \<Rightarrow> CAddress \<Rightarrow> CNetAddr \<Rightarrow> int \<Rightarrow> CAddrMan \<Rightarrow> (bool \<times> CAddrMan) option" where
  "addrman_Add Hash nNow r addr src nTimePenalty st =
     (if \<not> IsRoutable addr then Some (False, st)
      else
        case addr_Find st addr of
          Some (nId, info) \<Rightarrow>
            let fCurrentlyOnline = nNow - uint (nTime addr) < 24 * 60 * 60;
                nUpdateInterval = (if fCurrentlyOnline then 60 * 60 else 24 * 60 * 60);
                info = (if nTime addr \<noteq> 0 \<and>
                           (nTime info = 0 \<or> uint (nTime info) < uint (nTime addr) - nUpdateInterval - nTimePenalty)
                        then info\<lparr>nTime := word_of_int (max 0 (uint (nTime addr) - nTimePenalty))\<rparr> else info);
                info = info\<lparr>nServices := nServices info OR nServices addr\<rparr>;
                st = st\<lparr>mapInfo := (mapInfo st)(nId \<mapsto> info)\<rparr>;
                nFactor = ref_factor (nRefCount info)
            in if nTime addr = 0 \<or> nTime info \<noteq> 0 \<and> nTime addr \<le> nTime info then Some (False, st)
               else if fInTried info then Some (False, st)
               else if nRefCount info = ADDRMAN_NEW_BUCKETS_PER_ADDRESS then Some (False, st)
               else if nFactor > 1 \<and> GetRandInt (r 0) nFactor \<noteq> 0 then Some (False, st)
               else map_option (Pair False) (add_reference Hash nNow (r \<circ> Suc) nId info src st)
        | None \<Rightarrow>
            (case addr_Create st addr src of
               (nId, info, st) \<Rightarrow>
                 let info = info\<lparr>nTime := word_of_int (max 0 (uint (nTime info) - nTimePenalty))\<rparr>;
                     st = st\<lparr>mapInfo := (mapInfo st)(nId \<mapsto> info), nNew := nNew st + 1\<rparr>
                 in map_option (Pair True) (add_reference Hash nNow (r \<circ> Suc) nId info src st)))"

text \<open>Several addresses; the draws of each.\<close>

fun addrman_Add_all ::
  "(bytes \<Rightarrow> uint256) \<Rightarrow> int \<Rightarrow> (nat \<Rightarrow> nat \<Rightarrow> nat) \<Rightarrow> CAddress list \<Rightarrow> CNetAddr \<Rightarrow> int \<Rightarrow> CAddrMan \<Rightarrow> (nat \<times> CAddrMan) option" where
  "addrman_Add_all Hash nNow r [] src nTimePenalty st = Some (0, st)"
| "addrman_Add_all Hash nNow r (addr # vAddr) src nTimePenalty st =
     (case addrman_Add Hash nNow (r 0) addr src nTimePenalty st of
        None \<Rightarrow> None
      | Some (fNew, st) \<Rightarrow>
          map_option (apfst ((+) (if fNew then 1 else 0))) (addrman_Add_all Hash nNow (r \<circ> Suc) vAddr src nTimePenalty st))"

definition addrman_Attempt :: "'a CService_scheme \<Rightarrow> int \<Rightarrow> CAddrMan \<Rightarrow> CAddrMan" where
  "addrman_Attempt addr nTimeIn st =
     (case addr_Find st addr of
        None \<Rightarrow> st
      | Some (nId, info) \<Rightarrow>
          if \<not> service_eq info addr then st
          else st\<lparr>mapInfo := (mapInfo st)(nId \<mapsto> info\<lparr>nLastTry := nTimeIn, nAttempts := nAttempts info + 1\<rparr>)\<rparr>)"

definition addrman_Connected :: "'a CService_scheme \<Rightarrow> int \<Rightarrow> CAddrMan \<Rightarrow> CAddrMan" where
  "addrman_Connected addr nTimeIn st =
     (case addr_Find st addr of
        None \<Rightarrow> st
      | Some (nId, info) \<Rightarrow>
          if \<not> service_eq info addr then st
          else if nTimeIn - uint (nTime info) > 20 * 60
          then st\<lparr>mapInfo := (mapInfo st)(nId \<mapsto> info\<lparr>nTime := word_of_int nTimeIn\<rparr>)\<rparr> else st)"

fun getaddr_loop :: "(nat \<Rightarrow> nat) \<Rightarrow> nat list \<Rightarrow> CAddrMan \<Rightarrow> (CAddress list \<times> CAddrMan) option" where
  "getaddr_loop r [] st = Some ([], st)"
| "getaddr_loop r (n # ns) st =
     (let nRndPos = GetRandInt (r n) (length (vRandom st) - n) + n
      in case SwapRandom (int n) (int nRndPos) st of
           None \<Rightarrow> None
         | Some st \<Rightarrow>
             if \<not> n < length (vRandom st) then None
             else case mapInfo st (vRandom st ! n) of
                    None \<Rightarrow> None
                  | Some info \<Rightarrow> map_option (apfst ((#) (CAddress.truncate info))) (getaddr_loop r ns st))"

definition addrman_GetAddr :: "(nat \<Rightarrow> nat) \<Rightarrow> CAddrMan \<Rightarrow> (CAddress list \<times> CAddrMan) option" where
  "addrman_GetAddr r st =
     (let nNodes = min (ADDRMAN_GETADDR_MAX_PCT * length (vRandom st) div 100) ADDRMAN_GETADDR_MAX
      in getaddr_loop r [0..<nNodes] st)"

section \<open>The consistency check\<close>

text \<open>
  \<open>Check_\<close>, which is compiled with \<open>DEBUG_ADDRMAN\<close>: an error code, or zero.  \<open>mapAddr[info]\<close> on an absent
  address gives zero.
\<close>

fun check_infos :: "CAddrMan \<Rightarrow> int list \<Rightarrow> int set \<Rightarrow> (int \<rightharpoonup> int) \<Rightarrow> int + int set \<times> (int \<rightharpoonup> int)" where
  "check_infos st [] setTried mapNew = Inr (setTried, mapNew)"
| "check_infos st (n # ns) setTried mapNew =
     (let info = the (mapInfo st n); pos = nRandomPos info
      in if fInTried info \<and> nLastSuccess info = 0 then Inl (- 1)
         else if fInTried info \<and> nRefCount info \<noteq> 0 then Inl (- 2)
         else if \<not> fInTried info \<and> (nRefCount info < 0 \<or> nRefCount info > ADDRMAN_NEW_BUCKETS_PER_ADDRESS) then Inl (- 3)
         else if \<not> fInTried info \<and> nRefCount info = 0 then Inl (- 4)
         else if (case mapAddr st (CNetAddr.truncate info) of None \<Rightarrow> 0 | Some k \<Rightarrow> k) \<noteq> n then Inl (- 5)
         else if pos < 0 \<or> pos \<ge> int (length (vRandom st)) \<or> vRandom st ! nat pos \<noteq> n then Inl (- 14)
         else if nLastTry info < 0 then Inl (- 6)
         else if nLastSuccess info < 0 then Inl (- 8)
         else if fInTried info then check_infos st ns (insert n setTried) mapNew
         else check_infos st ns setTried (mapNew(n \<mapsto> nRefCount info)))"

fun check_tried :: "int list \<Rightarrow> int set \<Rightarrow> int + int set" where
  "check_tried [] setTried = Inr setTried"
| "check_tried (n # ns) setTried = (if n \<notin> setTried then Inl (- 11) else check_tried ns (setTried - {n}))"

fun check_new :: "int list \<Rightarrow> (int \<rightharpoonup> int) \<Rightarrow> int + (int \<rightharpoonup> int)" where
  "check_new [] mapNew = Inr mapNew"
| "check_new (n # ns) mapNew =
     (case mapNew n of
        None \<Rightarrow> Inl (- 12)
      | Some k \<Rightarrow> check_new ns (mapNew(n := (if k - 1 = 0 then None else Some (k - 1)))))"

definition addrman_Check :: "CAddrMan \<Rightarrow> int" where
  "addrman_Check st =
     (if int (length (vRandom st)) \<noteq> nTried st + nNew st then - 7
      else
        case check_infos st (sorted_list_of_set (dom (mapInfo st))) {} Map.empty of
          Inl e \<Rightarrow> e
        | Inr (setTried, mapNew) \<Rightarrow>
            if int (card setTried) \<noteq> nTried st then - 9
            else if int (card (dom mapNew)) \<noteq> nNew st then - 10
            else
              case check_tried (concat (vvTried st)) setTried of
                Inl e \<Rightarrow> e
              | Inr setTried \<Rightarrow>
                  (case check_new (concat (map sorted_list_of_set (vvNew st))) mapNew of
                     Inl e \<Rightarrow> e
                   | Inr mapNew \<Rightarrow> if setTried \<noteq> {} then - 13 else if mapNew \<noteq> Map.empty then - 15 else 0))"

section \<open>States a table reaches\<close>

inductive am_run :: "(bytes \<Rightarrow> uint256) \<Rightarrow> CAddrMan \<Rightarrow> bool" for Hash where
  am_new: "am_run Hash (new_addrman key)"
| am_add: "am_run Hash st \<Longrightarrow> addrman_Add Hash nNow r addr src nTimePenalty st = Some (b, st') \<Longrightarrow> am_run Hash st'"
| am_good: "am_run Hash st \<Longrightarrow> 0 < nTimeIn \<Longrightarrow> addrman_Good Hash r (addr :: CService) nTimeIn st = Some st' \<Longrightarrow> am_run Hash st'"
| am_attempt: "am_run Hash st \<Longrightarrow> 0 \<le> nTimeIn \<Longrightarrow> am_run Hash (addrman_Attempt (addr :: CService) nTimeIn st)"
| am_connected: "am_run Hash st \<Longrightarrow> am_run Hash (addrman_Connected (addr :: CService) nTimeIn st)"
| am_getaddr: "am_run Hash st \<Longrightarrow> addrman_GetAddr r st = Some (v, st') \<Longrightarrow> am_run Hash st'"

section \<open>The invariant\<close>

text \<open>
  The indexes: every id is in the vector where its entry says, and every address is that of one entry.
\<close>

definition idx_ok :: "(int \<rightharpoonup> CAddrInfo) \<Rightarrow> (CNetAddr \<rightharpoonup> int) \<Rightarrow> int list \<Rightarrow> int \<Rightarrow> bool" where
  "idx_ok m a v c \<longleftrightarrow>
     distinct v \<and> dom m = set v \<and> 0 \<le> c \<and> (\<forall>n \<in> set v. 0 \<le> n \<and> n < c) \<and>
     (\<forall>n i. m n = Some i \<longrightarrow>
        0 \<le> nRandomPos i \<and> nRandomPos i < int (length v) \<and> v ! nat (nRandomPos i) = n \<and>
        a (CNetAddr.truncate i) = Some n) \<and>
     (\<forall>x n. a x = Some n \<longrightarrow> (\<exists>i. m n = Some i \<and> CNetAddr.truncate i = x))"

text \<open>How many of the buckets have an id.\<close>

definition ref_count :: "int set list \<Rightarrow> int \<Rightarrow> int" where
  "ref_count vN n = sum_list (map (\<lambda>s. of_bool (n \<in> s)) vN)"

definition info_ok :: "CAddrInfo \<Rightarrow> bool" where
  "info_ok i \<longleftrightarrow> 0 \<le> nLastTry i \<and> 0 \<le> nLastSuccess i \<and>
     (if fInTried i then nLastSuccess i \<noteq> 0 \<and> nRefCount i = 0
      else 1 \<le> nRefCount i \<and> nRefCount i \<le> ADDRMAN_NEW_BUCKETS_PER_ADDRESS)"

definition tried_ids :: "(int \<rightharpoonup> CAddrInfo) \<Rightarrow> int set" where
  "tried_ids m = {n. \<exists>i. m n = Some i \<and> fInTried i}"

text \<open>
  The buckets: an entry counts the new buckets it is in, tried entries are in one tried bucket, no bucket is
  over its size.  \<open>p\<close> is an id whose entry has counted a bucket it is not in yet.
\<close>

definition buckets_ok ::
  "int option \<Rightarrow> (int \<rightharpoonup> CAddrInfo) \<Rightarrow> int list list \<Rightarrow> int set list \<Rightarrow> int \<Rightarrow> int \<Rightarrow> bool" where
  "buckets_ok p m vT vN nT nN \<longleftrightarrow>
     finite (dom m) \<and> length vT = ADDRMAN_TRIED_BUCKET_COUNT \<and> length vN = ADDRMAN_NEW_BUCKET_COUNT \<and>
     (\<forall>n i. m n = Some i \<longrightarrow> info_ok i \<and> nRefCount i = ref_count vN n + of_bool (p = Some n)) \<and>
     (\<forall>s \<in> set vN. finite s \<and> card s \<le> ADDRMAN_NEW_BUCKET_SIZE \<and> s \<subseteq> dom m) \<and>
     (\<forall>v \<in> set vT. length v \<le> ADDRMAN_TRIED_BUCKET_SIZE) \<and>
     distinct (concat vT) \<and> set (concat vT) = tried_ids m \<and>
     nT = int (length (concat vT)) \<and> nT + nN = int (card (dom m))"

definition am_inv :: "int option \<Rightarrow> CAddrMan \<Rightarrow> bool" where
  "am_inv p st \<longleftrightarrow> idx_ok (mapInfo st) (mapAddr st) (vRandom st) (nIdCount st) \<and>
     buckets_ok p (mapInfo st) (vvTried st) (vvNew st) (nTried st) (nNew st)"

lemma ref_count_update:
  "b < length vN \<Longrightarrow> ref_count (vN[b := s]) n = ref_count vN n + of_bool (n \<in> s) - of_bool (n \<in> vN ! b)"
  by (induction vN arbitrary: b) (simp_all add: ref_count_def split: nat.split)

lemma ref_count_nonneg: "0 \<le> ref_count vN n"
  by (induction vN) (simp_all add: ref_count_def)

lemma ref_count_zero: "ref_count vN n = 0 \<longleftrightarrow> (\<forall>s \<in> set vN. n \<notin> s)"
proof (induction vN)
  case (Cons s vN)
  then show ?case using ref_count_nonneg[of vN n] by (auto simp: ref_count_def)
qed (simp add: ref_count_def)

lemma ref_count_filter: "ref_count vN n = int (length (filter (\<lambda>s. n \<in> s) vN))"
  by (induction vN) (simp_all add: ref_count_def)

lemma ref_count_remove: "ref_count (map (\<lambda>s. s - {k}) vN) n = (if n = k then 0 else ref_count vN n)"
  by (induction vN) (simp_all add: ref_count_def)

lemma ref_count_outside: "\<forall>s \<in> set vN. s \<subseteq> dom m \<Longrightarrow> m n = None \<Longrightarrow> ref_count vN n = 0"
  by (auto simp: ref_count_zero)

text \<open>Entries that differ in their position.\<close>

definition repos :: "(int \<rightharpoonup> CAddrInfo) \<Rightarrow> (int \<rightharpoonup> CAddrInfo) \<Rightarrow> bool" where
  "repos m m' \<longleftrightarrow> (\<forall>n. map_option (\<lambda>i. i\<lparr>nRandomPos := 0\<rparr>) (m n) = map_option (\<lambda>i. i\<lparr>nRandomPos := 0\<rparr>) (m' n))"

lemma repos_dom:
  assumes "repos m m'"
  shows "dom m' = dom m"
proof -
  have "m n = None \<longleftrightarrow> m' n = None" for n
    using assms[unfolded repos_def, rule_format, of n] by (cases "m n"; cases "m' n") simp_all
  then show ?thesis by (auto simp: dom_def)
qed

lemma repos_Some:
  assumes "repos m m'" "m' n = Some i'"
  shows "\<exists>i q. m n = Some i \<and> i' = i\<lparr>nRandomPos := q\<rparr>"
proof -
  have "map_option (\<lambda>i. i\<lparr>nRandomPos := 0\<rparr>) (m n) = Some (i'\<lparr>nRandomPos := 0\<rparr>)"
    using assms by (simp add: repos_def)
  then obtain i where i: "m n = Some i" "i\<lparr>nRandomPos := 0\<rparr> = i'\<lparr>nRandomPos := 0\<rparr>" by auto
  have "i' = i'\<lparr>nRandomPos := 0\<rparr>\<lparr>nRandomPos := nRandomPos i'\<rparr>" by simp
  also have "\<dots> = i\<lparr>nRandomPos := nRandomPos i'\<rparr>" unfolding i(2)[symmetric] by simp
  finally show ?thesis using i(1) by blast
qed

lemma repos_sym: "repos m m' \<Longrightarrow> repos m' m"
  by (simp add: repos_def)

lemma repos_trans: "repos m m' \<Longrightarrow> repos m' m'' \<Longrightarrow> repos m m''"
  by (simp add: repos_def)

lemma repos_refl: "repos m m"
  by (simp add: repos_def)

lemma repos_update: "m n = Some i \<Longrightarrow> repos m (m(n \<mapsto> i\<lparr>nRandomPos := q\<rparr>))"
  by (simp add: repos_def)

lemma repos_upd_both: "repos m m' \<Longrightarrow> repos (m(n := x)) (m'(n := x))"
  by (simp add: repos_def)

lemma info_ok_repos [simp]: "info_ok (i\<lparr>nRandomPos := q\<rparr>) = info_ok i"
  by (simp add: info_ok_def)

lemma buckets_okD:
  assumes "buckets_ok p m vT vN nT nN" "m n = Some i"
  shows "info_ok i" "nRefCount i = ref_count vN n + of_bool (p = Some n)"
  using assms by (auto simp: buckets_ok_def)

lemma buckets_okI:
  assumes "finite (dom m)" "length vT = ADDRMAN_TRIED_BUCKET_COUNT" "length vN = ADDRMAN_NEW_BUCKET_COUNT"
    and "\<And>n i. m n = Some i \<Longrightarrow> info_ok i \<and> nRefCount i = ref_count vN n + of_bool (p = Some n)"
    and "\<And>s. s \<in> set vN \<Longrightarrow> finite s \<and> card s \<le> ADDRMAN_NEW_BUCKET_SIZE \<and> s \<subseteq> dom m"
    and "\<And>v. v \<in> set vT \<Longrightarrow> length v \<le> ADDRMAN_TRIED_BUCKET_SIZE"
    and "distinct (concat vT)" "set (concat vT) = tried_ids m" "nT = int (length (concat vT))" "nT + nN = int (card (dom m))"
  shows "buckets_ok p m vT vN nT nN"
  using assms by (simp add: buckets_ok_def)

lemma buckets_parts:
  assumes "buckets_ok p m vT vN nT nN"
  shows "finite (dom m)" "length vT = ADDRMAN_TRIED_BUCKET_COUNT" "length vN = ADDRMAN_NEW_BUCKET_COUNT"
    "distinct (concat vT)" "set (concat vT) = tried_ids m" "nT = int (length (concat vT))" "nT + nN = int (card (dom m))"
    "s \<in> set vN \<Longrightarrow> finite s \<and> card s \<le> ADDRMAN_NEW_BUCKET_SIZE \<and> s \<subseteq> dom m"
    "v \<in> set vT \<Longrightarrow> length v \<le> ADDRMAN_TRIED_BUCKET_SIZE"
  using assms by (auto simp: buckets_ok_def)

lemma tried_ids_upd: "tried_ids (m(n \<mapsto> j)) = (if fInTried j then insert n (tried_ids m) else tried_ids m - {n})"
  by (auto simp: tried_ids_def)

lemma tried_ids_delete: "tried_ids (m(n := None)) = tried_ids m - {n}"
  by (auto simp: tried_ids_def)

lemma tried_ids_iff: "m n = Some i \<Longrightarrow> n \<in> tried_ids m \<longleftrightarrow> fInTried i"
  by (simp add: tried_ids_def)

lemma buckets_repos:
  assumes "buckets_ok p m vT vN nT nN" "repos m m'"
  shows "buckets_ok p m' vT vN nT nN"
proof -
  have "info_ok i' \<and> nRefCount i' = ref_count vN n + of_bool (p = Some n)" if "m' n = Some i'" for n i'
    using repos_Some[OF assms(2) that] buckets_okD[OF assms(1), of n] by force
  moreover have "n \<in> tried_ids m' \<longleftrightarrow> n \<in> tried_ids m" for n
    using repos_Some[OF assms(2), of n] repos_Some[OF repos_sym[OF assms(2)], of n] by (fastforce simp: tried_ids_def)
  then have "tried_ids m' = tried_ids m" by blast
  ultimately show ?thesis using assms(1) repos_dom[OF assms(2)] by (simp add: buckets_ok_def)
qed

text \<open>A change of an entry that neither index nor bucket depends on.\<close>

definition like_info :: "CAddrInfo \<Rightarrow> CAddrInfo \<Rightarrow> bool" where
  "like_info i j \<longleftrightarrow> CNetAddr.truncate j = CNetAddr.truncate i \<and> nRandomPos j = nRandomPos i"

lemma idx_touch:
  assumes "idx_ok m a v c" "m n = Some i" "like_info i j"
  shows "idx_ok (m(n \<mapsto> j)) a v c"
proof -
  have "\<exists>i. (m(n \<mapsto> j)) k = Some i \<and> CNetAddr.truncate i = x" if "a x = Some k" for x k
    using assms that unfolding idx_ok_def like_info_def by (metis fun_upd_apply option.inject)
  moreover have "dom (m(n \<mapsto> j)) = dom m" using assms(2) by auto
  ultimately show ?thesis using assms by (auto simp: idx_ok_def like_info_def)
qed

lemma dom_upd_same: "m n = Some i \<Longrightarrow> dom (m(n \<mapsto> j)) = dom m"
  by auto

lemma buckets_upd:
  assumes "buckets_ok p m vT vN nT nN" "m n = Some i" "info_ok j" "fInTried j = fInTried i"
    and "nRefCount j = ref_count vN n + of_bool (q = Some n)" "\<And>k. k \<noteq> n \<Longrightarrow> (q = Some k) = (p = Some k)"
  shows "buckets_ok q (m(n \<mapsto> j)) vT vN nT nN"
proof (rule buckets_okI)
  show "info_ok i' \<and> nRefCount i' = ref_count vN k + of_bool (q = Some k)" if "(m(n \<mapsto> j)) k = Some i'" for k i'
    using that assms(3,5,6) buckets_okD[OF assms(1), of k] by (auto split: if_splits)
  show "set (concat vT) = tried_ids (m(n \<mapsto> j))"
    using buckets_parts(5)[OF assms(1)] tried_ids_iff[of m n i] assms(2,4) by (auto simp: tried_ids_upd)
qed (use buckets_parts[OF assms(1)] dom_upd_same[of m n i j] assms(2) in simp_all)

lemma buckets_touch:
  assumes "buckets_ok p m vT vN nT nN" "m n = Some i" "info_ok j" "fInTried j = fInTried i" "nRefCount j = nRefCount i"
  shows "buckets_ok p (m(n \<mapsto> j)) vT vN nT nN"
  by (rule buckets_upd[OF assms(1-4)]) (simp_all add: assms(5) buckets_okD(2)[OF assms(1,2)])

text \<open>One more reference: counted first, put in the bucket last.\<close>

lemma buckets_count_up:
  assumes "buckets_ok None m vT vN nT nN" "m n = Some i" "\<not> fInTried i" "nRefCount i < ADDRMAN_NEW_BUCKETS_PER_ADDRESS"
  shows "buckets_ok (Some n) (m(n \<mapsto> i\<lparr>nRefCount := nRefCount i + 1\<rparr>)) vT vN nT nN"
proof (rule buckets_upd[OF assms(1,2)])
  show "info_ok (i\<lparr>nRefCount := nRefCount i + 1\<rparr>)"
    using buckets_okD(1)[OF assms(1,2)] assms(3,4) by (simp add: info_ok_def)
qed (use buckets_okD(2)[OF assms(1,2)] in simp_all)

lemma buckets_new_entry:
  assumes "buckets_ok None m vT vN nT nN" "m n = None" "info_ok i" "\<not> fInTried i" "nRefCount i = 1"
  shows "buckets_ok (Some n) (m(n \<mapsto> i)) vT vN nT (nN + 1)"
proof (rule buckets_okI)
  note parts = buckets_parts[OF assms(1)]
  have zero: "ref_count vN n = 0" by (rule ref_count_outside[of vN m]) (use parts(8) assms(2) in blast)+
  show "info_ok i' \<and> nRefCount i' = ref_count vN k + of_bool (Some n = Some k)" if "(m(n \<mapsto> i)) k = Some i'" for k i'
    using that assms(3,5) zero buckets_okD[OF assms(1), of k] by (auto split: if_splits)
  show "set (concat vT) = tried_ids (m(n \<mapsto> i))"
    using parts(5) assms(2,4) by (auto simp: tried_ids_upd tried_ids_def)
  show "nT + (nN + 1) = int (card (dom (m(n \<mapsto> i))))"
    using parts(1,7) assms(2) by (simp add: card_insert_if domIff)
  show "finite s \<and> card s \<le> ADDRMAN_NEW_BUCKET_SIZE \<and> s \<subseteq> dom (m(n \<mapsto> i))" if "s \<in> set vN" for s
    using parts(8)[OF that] by auto
qed (use buckets_parts[OF assms(1)] in simp_all)

lemma buckets_insert:
  assumes "buckets_ok (Some n) m vT vN nT nN" "b < ADDRMAN_NEW_BUCKET_COUNT" "n \<notin> vN ! b"
    and "card (vN ! b) < ADDRMAN_NEW_BUCKET_SIZE" "n \<in> dom m"
  shows "buckets_ok None m vT (vN[b := insert n (vN ! b)]) nT nN"
proof (rule buckets_okI)
  note parts = buckets_parts[OF assms(1)]
  have len: "b < length vN" using assms(2) parts(3) by simp
  show "finite s \<and> card s \<le> ADDRMAN_NEW_BUCKET_SIZE \<and> s \<subseteq> dom m" if "s \<in> set (vN[b := insert n (vN ! b)])" for s
  proof -
    have "s \<in> set vN \<or> s = insert n (vN ! b)" using that set_update_subset_insert[of vN b] by blast
    then show ?thesis using parts(8)[of s] parts(8)[of "vN ! b"] len assms(3-5) by (auto simp: card_insert_if)
  qed
  show "info_ok i \<and> nRefCount i = ref_count (vN[b := insert n (vN ! b)]) k + of_bool (None = Some k)"
    if "m k = Some i" for k i
    using buckets_okD[OF assms(1) that] assms(3) by (auto simp: ref_count_update[OF len])
qed (use buckets_parts[OF assms(1)] in simp_all)

text \<open>One reference less.\<close>

lemma buckets_remove:
  assumes "buckets_ok p m vT vN nT nN" "b < ADDRMAN_NEW_BUCKET_COUNT" "n \<in> vN ! b" "m n = Some i" "p \<noteq> Some n"
    and "nRefCount i \<noteq> 1"
  shows "buckets_ok p (m(n \<mapsto> i\<lparr>nRefCount := nRefCount i - 1\<rparr>)) vT (vN[b := vN ! b - {n}]) nT nN"
proof (rule buckets_okI)
  note parts = buckets_parts[OF assms(1)]
  have len: "b < length vN" using assms(2) parts(3) by simp
  have tried: "\<not> fInTried i"
  proof
    assume "fInTried i"
    then have "ref_count vN n = 0" using buckets_okD[OF assms(1,4)] assms(5) by (simp add: info_ok_def)
    then show False using len assms(3) by (simp add: ref_count_zero)
  qed
  show "finite s \<and> card s \<le> ADDRMAN_NEW_BUCKET_SIZE \<and> s \<subseteq> dom (m(n \<mapsto> i\<lparr>nRefCount := nRefCount i - 1\<rparr>))"
    if "s \<in> set (vN[b := vN ! b - {n}])" for s
  proof -
    have "s \<in> set vN \<or> s = vN ! b - {n}" using that set_update_subset_insert[of vN b] by blast
    then show ?thesis
      using parts(8)[of s] parts(8)[of "vN ! b"] len card_Diff1_le[of "vN ! b" n] by (auto simp: le_trans)
  qed
  show "info_ok i' \<and> nRefCount i' = ref_count (vN[b := vN ! b - {n}]) k + of_bool (p = Some k)"
    if "(m(n \<mapsto> i\<lparr>nRefCount := nRefCount i - 1\<rparr>)) k = Some i'" for k i'
    using that buckets_okD[OF assms(1), of k] buckets_okD[OF assms(1,4)] tried assms(3,5,6)
    by (auto simp: ref_count_update[OF len] info_ok_def split: if_splits)
  show "set (concat vT) = tried_ids (m(n \<mapsto> i\<lparr>nRefCount := nRefCount i - 1\<rparr>))"
    using parts(5) tried tried_ids_iff[of m n i] assms(4) by (auto simp: tried_ids_upd)
qed (use buckets_parts[OF assms(1)] dom_upd_same[of m n i] assms(4) in simp_all)

lemma buckets_delete:
  assumes "buckets_ok p m vT vN nT nN" "b < ADDRMAN_NEW_BUCKET_COUNT" "n \<in> vN ! b" "m n = Some i" "p \<noteq> Some n"
    and "nRefCount i = 1"
  shows "buckets_ok p (m(n := None)) vT (vN[b := vN ! b - {n}]) nT (nN - 1)"
proof (rule buckets_okI)
  note parts = buckets_parts[OF assms(1)]
  have len: "b < length vN" using assms(2) parts(3) by simp
  have one: "ref_count vN n = 1" using buckets_okD(2)[OF assms(1,4)] assms(5,6) by simp
  have gone: "\<forall>s \<in> set (vN[b := vN ! b - {n}]). n \<notin> s"
    using one assms(3) by (simp add: ref_count_update[OF len] flip: ref_count_zero)
  have tried: "\<not> fInTried i" using buckets_okD(1)[OF assms(1,4)] assms(6) by (auto simp: info_ok_def)
  show "finite s \<and> card s \<le> ADDRMAN_NEW_BUCKET_SIZE \<and> s \<subseteq> dom (m(n := None))" if "s \<in> set (vN[b := vN ! b - {n}])" for s
  proof -
    have "s \<in> set vN \<or> s = vN ! b - {n}" using that set_update_subset_insert[of vN b] by blast
    then show ?thesis
      using gone that parts(8)[of s] parts(8)[of "vN ! b"] len card_Diff1_le[of "vN ! b" n] by (auto simp: le_trans)
  qed
  show "info_ok i' \<and> nRefCount i' = ref_count (vN[b := vN ! b - {n}]) k + of_bool (p = Some k)"
    if "(m(n := None)) k = Some i'" for k i'
    using that buckets_okD[OF assms(1), of k] by (auto simp: ref_count_update[OF len] split: if_splits)
  show "set (concat vT) = tried_ids (m(n := None))"
    using parts(5) tried tried_ids_iff[of m n i] assms(4) by (auto simp: tried_ids_delete)
  have "card (dom (m(n := None))) = card (dom m) - 1" using parts(1) assms(4) by (simp add: domI)
  moreover have "0 < card (dom m)" using parts(1) assms(4) by (auto simp: card_gt_0_iff)
  ultimately show "nT + (nN - 1) = int (card (dom (m(n := None))))" using parts(7) by simp
qed (use buckets_parts[OF assms(1)] in simp_all)

text \<open>Tried buckets: reordering one, and a new entry that becomes a tried one.\<close>

lemma concat_update:
  "k < length xss \<Longrightarrow> mset (concat (xss[k := ys])) + mset (xss ! k) = mset (concat xss) + mset ys"
  by (induction xss arbitrary: k) (auto split: nat.split)

lemma concat_update_same:
  assumes "k < length xss" "mset ys = mset (xss ! k)"
  shows "mset (concat (xss[k := ys])) = mset (concat xss)"
  using concat_update[OF assms(1), of ys] assms(2) by simp

lemma buckets_shuffle:
  assumes "buckets_ok p m vT vN nT nN" "k < length vT" "mset v = mset (vT ! k)"
  shows "buckets_ok p m (vT[k := v]) vN nT nN"
proof (rule buckets_okI)
  note parts = buckets_parts[OF assms(1)]
  note same = concat_update_same[OF assms(2,3)]
  show "distinct (concat (vT[k := v]))" using parts(4) same mset_eq_imp_distinct_iff by blast
  show "set (concat (vT[k := v])) = tried_ids m" using parts(5) mset_eq_setD[OF same] by simp
  show "nT = int (length (concat (vT[k := v])))" using parts(6) mset_eq_length[OF same] by simp
  show "length w \<le> ADDRMAN_TRIED_BUCKET_SIZE" if "w \<in> set (vT[k := v])" for w
  proof -
    have "w \<in> set vT \<or> w = v" using that set_update_subset_insert[of vT k v] by blast
    then show ?thesis using parts(9)[of w] parts(9)[of "vT ! k"] assms(2) mset_eq_length[OF assms(3)] by auto
  qed
qed (use buckets_parts[OF assms(1)] buckets_okD[OF assms(1)] in simp_all)

text \<open>A new entry leaves its new buckets.\<close>

lemma removed_bucket:
  assumes "\<And>s. s \<in> set vN \<Longrightarrow> finite s \<and> card s \<le> ADDRMAN_NEW_BUCKET_SIZE \<and> s \<subseteq> dom m" "s \<in> set (map (\<lambda>s. s - {n}) vN)"
  shows "finite s \<and> card s \<le> ADDRMAN_NEW_BUCKET_SIZE \<and> s \<subseteq> dom m"
proof -
  obtain t where "t \<in> set vN" "s = t - {n}" using assms(2) by auto
  then show ?thesis using assms(1)[of t] card_Diff1_le[of t n] by (auto simp: le_trans)
qed

lemma buckets_promote:
  assumes "buckets_ok None m vT vN nT nN" "m n = Some i" "\<not> fInTried i" "nLastSuccess i \<noteq> 0"
    and "k < length vT" "length (vT ! k) < ADDRMAN_TRIED_BUCKET_SIZE"
  shows "buckets_ok None (m(n \<mapsto> i\<lparr>nRefCount := 0, fInTried := True\<rparr>)) (vT[k := vT ! k @ [n]]) (map (\<lambda>s. s - {n}) vN)
     (nT + 1) (nN - 1)"
proof (rule buckets_okI)
  note parts = buckets_parts[OF assms(1)]
  have ms: "mset (concat (vT[k := vT ! k @ [n]])) = add_mset n (mset (concat vT))"
    using concat_update[OF assms(5), of "vT ! k @ [n]"] by simp
  have fresh: "n \<notin> set (concat vT)" using parts(5) assms(2,3) by (simp add: tried_ids_iff)
  have dom: "dom (m(n \<mapsto> i\<lparr>nRefCount := 0, fInTried := True\<rparr>)) = dom m" using assms(2) by auto
  show "distinct (concat (vT[k := vT ! k @ [n]]))"
    using parts(4) fresh ms mset_eq_imp_distinct_iff[of _ "n # concat vT"] by simp
  have "set (concat (vT[k := vT ! k @ [n]])) = insert n (set (concat vT))"
    using mset_eq_setD[of "concat (vT[k := vT ! k @ [n]])" "n # concat vT"] ms by (simp del: set_concat)
  then show "set (concat (vT[k := vT ! k @ [n]])) = tried_ids (m(n \<mapsto> i\<lparr>nRefCount := 0, fInTried := True\<rparr>))"
    using parts(5) by (simp add: tried_ids_upd)
  have "length (concat (vT[k := vT ! k @ [n]])) = Suc (length (concat vT))"
    using mset_eq_length[of _ "n # concat vT"] ms by simp
  then show "nT + 1 = int (length (concat (vT[k := vT ! k @ [n]])))" using parts(6) by simp
  show "nT + 1 + (nN - 1) = int (card (dom (m(n \<mapsto> i\<lparr>nRefCount := 0, fInTried := True\<rparr>))))" using parts(7) by (simp only: dom)
  show "info_ok i' \<and> nRefCount i' = ref_count (map (\<lambda>s. s - {n}) vN) l + of_bool (None = Some l)"
    if "(m(n \<mapsto> i\<lparr>nRefCount := 0, fInTried := True\<rparr>)) l = Some i'" for l i'
    using that buckets_okD[OF assms(1), of l] buckets_okD(1)[OF assms(1,2)] assms(4)
    by (auto simp: ref_count_remove info_ok_def split: if_splits)
  show "finite s \<and> card s \<le> ADDRMAN_NEW_BUCKET_SIZE \<and> s \<subseteq> dom (m(n \<mapsto> i\<lparr>nRefCount := 0, fInTried := True\<rparr>))"
    if "s \<in> set (map (\<lambda>s. s - {n}) vN)" for s
    unfolding dom by (rule removed_bucket[OF parts(8) that])
  show "length w \<le> ADDRMAN_TRIED_BUCKET_SIZE" if "w \<in> set (vT[k := vT ! k @ [n]])" for w
  proof -
    have "w \<in> set vT \<or> w = vT ! k @ [n]" using that set_update_subset_insert[of vT k] by blast
    then show ?thesis using parts(9)[of w] assms(6) by auto
  qed
qed (use buckets_parts[OF assms(1)] in simp_all)

lemma concat_replace:
  assumes "k < length vT" "q < length (vT ! k)" "vT ! k ! q = x"
  shows "mset (concat (vT[k := (vT ! k)[q := y]])) = add_mset y (mset (concat vT) - {#x#})" "x \<in># mset (concat vT)"
proof -
  have x: "x \<in> set (vT ! k)" using assms(2,3) by (metis nth_mem)
  then show mem: "x \<in># mset (concat vT)" using assms(1) by (auto intro: nth_mem)
  have "mset ((vT ! k)[q := y]) = add_mset y (mset (vT ! k) - {#x#})" using mset_update[OF assms(2)] assms(3) by simp
  then have "mset (concat (vT[k := (vT ! k)[q := y]])) + mset (vT ! k) = mset (concat vT) + add_mset y (mset (vT ! k) - {#x#})"
    using concat_update[OF assms(1), of "(vT ! k)[q := y]"] by simp
  then have "add_mset x (mset (concat (vT[k := (vT ! k)[q := y]])) + (mset (vT ! k) - {#x#})) =
      add_mset y (mset (concat vT) + (mset (vT ! k) - {#x#}))"
    using x by (metis (no_types, lifting) insert_DiffM set_mset_mset union_mset_add_mset_right)
  then have "add_mset x (mset (concat (vT[k := (vT ! k)[q := y]]))) = add_mset y (mset (concat vT))"
    by (metis add_right_cancel union_mset_add_mset_left)
  then show "mset (concat (vT[k := (vT ! k)[q := y]])) = add_mset y (mset (concat vT) - {#x#})"
    using mem by (metis add_mset_remove_trivial add_mset_remove_trivial_If diff_union_swap insert_DiffM)
qed

lemma buckets_evict:
  assumes "buckets_ok None m vT vN nT nN" "m n = Some i" "\<not> fInTried i" "nLastSuccess i \<noteq> 0"
    and "k < length vT" "q < length (vT ! k)" "m (vT ! k ! q) = Some io" "b < ADDRMAN_NEW_BUCKET_COUNT"
    and "card (vN ! b - {n}) < ADDRMAN_NEW_BUCKET_SIZE"
  defines "old \<equiv> vT ! k ! q"
  defines "m' \<equiv> m(old \<mapsto> io\<lparr>fInTried := False, nRefCount := 1\<rparr>, n \<mapsto> i\<lparr>nRefCount := 0, fInTried := True\<rparr>)"
  shows "buckets_ok None m' (vT[k := (vT ! k)[q := n]])
    ((map (\<lambda>s. s - {n}) vN)[b := insert old (vN ! b - {n})]) nT nN"
proof (rule buckets_okI)
  note parts = buckets_parts[OF assms(1)]
  have old: "m old = Some io" using assms(7) by (simp add: old_def)
  note rep = concat_replace(1)[OF assms(5,6) refl, of n, folded old_def] concat_replace(2)[OF assms(5,6) refl, folded old_def]
  have oldT: "old \<in> set (concat vT)" using rep(2) by (simp only: set_mset_mset)
  then have ot: "fInTried io" using parts(5) old by (simp add: tried_ids_iff del: set_concat)
  have ne: "old \<noteq> n" using ot old assms(2,3) by auto
  have fresh: "n \<notin> set (concat vT)" using parts(5) assms(2,3) by (simp add: tried_ids_iff del: set_concat)
  have zero: "ref_count vN old = 0" using buckets_okD[OF assms(1) old] ot by (simp add: info_ok_def)
  have len: "b < length (map (\<lambda>s. s - {n}) vN)" "b < length vN" using assms(8) parts(3) by simp_all
  have dom: "dom m' = dom m" using assms(2) old by (auto simp: m'_def)
  have rem: "mset (concat vT) - {#old#} = mset (remove1 old (concat vT))" by simp
  show "distinct (concat (vT[k := (vT ! k)[q := n]]))"
    using parts(4) fresh rep(1) mset_eq_imp_distinct_iff[of _ "n # remove1 old (concat vT)"] notin_set_remove1
    by (metis distinct.simps(2) distinct_remove1 mset.simps(2) rem)
  have "set (concat (vT[k := (vT ! k)[q := n]])) = insert n (set (concat vT) - {old})"
    using mset_eq_setD[of "concat (vT[k := (vT ! k)[q := n]])" "n # remove1 old (concat vT)"] rep(1) parts(4)
    by (simp add: set_remove1_eq del: set_concat)
  then show "set (concat (vT[k := (vT ! k)[q := n]])) = tried_ids m'"
    using parts(5) ne by (auto simp: m'_def tried_ids_upd)
  have "length (concat (vT[k := (vT ! k)[q := n]])) = length (concat vT)"
    using arg_cong[OF rep(1), of size] rep(2) by (simp add: size_Diff_singleton) (metis size_mset length_pos_if_in_set oldT Suc_pred)
  then show "nT = int (length (concat (vT[k := (vT ! k)[q := n]])))" using parts(6) by simp
  show "nT + nN = int (card (dom m'))" using parts(7) by (simp only: dom)
  show "info_ok j \<and> nRefCount j =
      ref_count ((map (\<lambda>s. s - {n}) vN)[b := insert old (vN ! b - {n})]) l + of_bool (None = Some l)" if "m' l = Some j" for l j
  proof -
    have "old \<notin> vN ! b" using zero len(2) by (simp add: ref_count_zero)
    then show ?thesis
      using that buckets_okD[OF assms(1), of l] buckets_okD(1)[OF assms(1,2)] buckets_okD(1)[OF assms(1) old] assms(4) ne zero len(2)
      by (auto simp: m'_def ref_count_update[OF len(1)] ref_count_remove info_ok_def ADDRMAN_NEW_BUCKETS_PER_ADDRESS_def split: if_splits)
  qed
  show "finite s \<and> card s \<le> ADDRMAN_NEW_BUCKET_SIZE \<and> s \<subseteq> dom m'"
    if "s \<in> set ((map (\<lambda>s. s - {n}) vN)[b := insert old (vN ! b - {n})])" for s
  proof -
    have "s \<in> set (map (\<lambda>s. s - {n}) vN) \<or> s = insert old (vN ! b - {n})"
      using subsetD[OF set_update_subset_insert that] by (simp only: insert_iff disj_commute)
    then show ?thesis
      using removed_bucket[OF parts(8), where s = s and n = n] parts(8)[of "vN ! b"] len(2) assms(9) old unfolding dom by (auto simp: card_insert_if)
  qed
  show "length w \<le> ADDRMAN_TRIED_BUCKET_SIZE" if "w \<in> set (vT[k := (vT ! k)[q := n]])" for w
  proof -
    have "w \<in> set vT \<or> w = (vT ! k)[q := n]" using that set_update_subset_insert[of vT k] by blast
    then show ?thesis using parts(9)[of w] parts(9)[of "vT ! k"] assms(5) by auto
  qed
qed (use buckets_parts[OF assms(1)] assms(2,7) in \<open>simp_all add: m'_def\<close>)

section \<open>The indexes\<close>

lemma idx_okD:
  assumes "idx_ok m a v c" "m n = Some i"
  shows "0 \<le> nRandomPos i" "nRandomPos i < int (length v)" "v ! nat (nRandomPos i) = n"
    "a (CNetAddr.truncate i) = Some n" "0 \<le> n" "n < c" "n \<in> set v"
  using assms by (auto simp: idx_ok_def)

lemma idx_info: "idx_ok m a v c \<Longrightarrow> n \<in> set v \<Longrightarrow> \<exists>i. m n = Some i"
  by (auto simp: idx_ok_def)

lemma idx_addr: "idx_ok m a v c \<Longrightarrow> a x = Some n \<Longrightarrow> \<exists>i. m n = Some i \<and> CNetAddr.truncate i = x"
  by (simp add: idx_ok_def)

lemma truncate_pos [simp]: "CNetAddr.truncate (i\<lparr>nRandomPos := q\<rparr>) = CNetAddr.truncate i"
  by (simp add: CNetAddr.truncate_def)

lemma idx_swap:
  assumes "idx_ok m a v c" "p1 < length v" "p2 < length v" "p1 \<noteq> p2" "m (v ! p1) = Some i1" "m (v ! p2) = Some i2"
  shows "idx_ok (m(v ! p1 \<mapsto> i1\<lparr>nRandomPos := int p2\<rparr>, v ! p2 \<mapsto> i2\<lparr>nRandomPos := int p1\<rparr>)) a (v[p1 := v ! p2, p2 := v ! p1]) c"
proof -
  let ?m = "m(v ! p1 \<mapsto> i1\<lparr>nRandomPos := int p2\<rparr>, v ! p2 \<mapsto> i2\<lparr>nRandomPos := int p1\<rparr>)" and ?v = "v[p1 := v ! p2, p2 := v ! p1]"
  have d: "distinct v" using assms(1) by (simp add: idx_ok_def)
  have ne: "v ! p1 \<noteq> v ! p2" using d assms(2-4) by (simp add: nth_eq_iff_index_eq)
  have set: "set ?v = set v" using assms(2,3) by (simp add: set_swap)
  have dom: "dom ?m = dom m" using assms(5,6) by auto
  have entry: "0 \<le> nRandomPos i \<and> nRandomPos i < int (length ?v) \<and> ?v ! nat (nRandomPos i) = n \<and> a (CNetAddr.truncate i) = Some n"
    if "?m n = Some i" for n i
  proof (cases "n = v ! p1 \<or> n = v ! p2")
    case True
    then show ?thesis using that ne assms(2-4) idx_okD(4)[OF assms(1,5)] idx_okD(4)[OF assms(1,6)] by auto
  next
    case False
    then have mn: "m n = Some i" using that by auto
    note pos = idx_okD[OF assms(1) mn]
    then have "nat (nRandomPos i) \<noteq> p1" "nat (nRandomPos i) \<noteq> p2" using False by auto
    then show ?thesis using pos by simp
  qed
  have addr: "\<exists>i. ?m n = Some i \<and> CNetAddr.truncate i = x" if "a x = Some n" for x n
  proof -
    from idx_addr[OF assms(1) that] obtain i where "m n = Some i" "CNetAddr.truncate i = x" by blast
    then show ?thesis using assms(5,6) ne by (cases "n = v ! p2"; cases "n = v ! p1") simp_all
  qed
  show ?thesis
    unfolding idx_ok_def dom set using assms(1-3) entry addr distinct_swap[OF assms(2,3)] d
    by (auto simp: idx_ok_def)
qed

lemma SwapRandom_works:
  assumes "idx_ok (mapInfo st) (mapAddr st) (vRandom st) (nIdCount st)" "p1 < length (vRandom st)" "p2 < length (vRandom st)"
  shows "\<exists>m v. SwapRandom (int p1) (int p2) st = Some (st\<lparr>mapInfo := m, vRandom := v\<rparr>) \<and>
    idx_ok m (mapAddr st) v (nIdCount st) \<and> repos (mapInfo st) m \<and> length v = length (vRandom st) \<and>
    v ! p2 = vRandom st ! p1"
proof (cases "p1 = p2")
  case True
  then show ?thesis
    using assms(1) repos_refl by (intro exI[of _ "mapInfo st"] exI[of _ "vRandom st"]) (simp add: SwapRandom_def)
next
  case False
  let ?v = "vRandom st"
  obtain i1 i2 where i: "mapInfo st (?v ! p1) = Some i1" "mapInfo st (?v ! p2) = Some i2"
    using idx_info[OF assms(1)] assms(2,3) by (meson nth_mem)
  have ne: "?v ! p1 \<noteq> ?v ! p2"
    using assms False by (simp add: idx_ok_def nth_eq_iff_index_eq)
  let ?m = "(mapInfo st)(?v ! p1 \<mapsto> i1\<lparr>nRandomPos := int p2\<rparr>, ?v ! p2 \<mapsto> i2\<lparr>nRandomPos := int p1\<rparr>)"
  have "repos (mapInfo st) ?m"
    using i ne by (simp add: repos_def)
  moreover have "SwapRandom (int p1) (int p2) st = Some (st\<lparr>mapInfo := ?m, vRandom := ?v[p1 := ?v ! p2, p2 := ?v ! p1]\<rparr>)"
    using assms(2,3) False i ne by (simp add: SwapRandom_def Let_def)
  ultimately show ?thesis
    using idx_swap[OF assms False i] assms(2,3) by (intro exI[of _ ?m] exI[of _ "?v[p1 := ?v ! p2, p2 := ?v ! p1]"]) simp
qed

lemma drop_entry_works:
  assumes "idx_ok (mapInfo st) (mapAddr st) (vRandom st) (nIdCount st)" "mapInfo st n = Some i"
  shows "\<exists>m a v. drop_entry n i st = Some (st\<lparr>mapInfo := m(n := None), mapAddr := a, vRandom := v, nNew := nNew st - 1\<rparr>) \<and>
    idx_ok (m(n := None)) a v (nIdCount st) \<and> repos (mapInfo st) m"
proof -
  note pos = idx_okD[OF assms]
  let ?l = "length (vRandom st) - 1" and ?a = "(mapAddr st)(CNetAddr.truncate i := None)"
  have len: "nat (nRandomPos i) < length (vRandom st)" "?l < length (vRandom st)" using pos(1,2) by auto
  obtain m v where sw: "SwapRandom (int (nat (nRandomPos i))) (int ?l) st = Some (st\<lparr>mapInfo := m, vRandom := v\<rparr>)"
      "idx_ok m (mapAddr st) v (nIdCount st)" "repos (mapInfo st) m" "length v = length (vRandom st)" "v ! ?l = n"
    using SwapRandom_works[OF assms(1) len] pos(3) by auto
  have v: "v = butlast v @ [n]" using sw(4,5) len by (metis append_butlast_last_id last_conv_nth list.size(3) not_less_zero)
  obtain j where j: "m n = Some j" "CNetAddr.truncate j = CNetAddr.truncate i"
    using repos_Some[OF repos_sym[OF sw(3)] assms(2)] by auto
  have d: "n \<notin> set (butlast v)" using sw(2) v unfolding idx_ok_def by (metis distinct_append disjoint_insert(1) list.simps(15) Int_commute)
  have dv: "distinct (butlast v)" using sw(2) by (simp add: idx_ok_def distinct_butlast)
  have sv: "set v = insert n (set (butlast v))" using arg_cong[OF v, of set] by simp
  have lv: "length v = Suc (length (butlast v))" using arg_cong[OF v, of length] by simp
  have entry: "0 \<le> nRandomPos k \<and> nRandomPos k < int (length (butlast v)) \<and> butlast v ! nat (nRandomPos k) = l \<and>
      ?a (CNetAddr.truncate k) = Some l" if "(m(n := None)) l = Some k" for l k
  proof -
    have ml: "m l = Some k" "l \<noteq> n" using that by (auto split: if_splits)
    note p = idx_okD[OF sw(2) ml(1)]
    have "nat (nRandomPos k) \<noteq> ?l" using p(3) ml(2) sw(5) by auto
    then have "nat (nRandomPos k) < length (butlast v)" using p(1,2) sw(4) by auto
    moreover have "CNetAddr.truncate k \<noteq> CNetAddr.truncate i" using p(4) idx_okD(4)[OF sw(2) j(1)] j(2) ml(2) by auto
    ultimately show ?thesis using p by (auto simp: nth_butlast)
  qed
  have addr: "\<exists>k. (m(n := None)) l = Some k \<and> CNetAddr.truncate k = x" if "?a x = Some l" for x l
  proof -
    have "mapAddr st x = Some l" "x \<noteq> CNetAddr.truncate i" using that by (auto split: if_splits)
    moreover obtain k where "m l = Some k" "CNetAddr.truncate k = x"
      using idx_addr[OF sw(2) calculation(1)] by blast
    ultimately show ?thesis using j by auto
  qed
  have dom: "dom (m(n := None)) = set (butlast v)" using sw(2) sv d by (auto simp: idx_ok_def)
  have "idx_ok (m(n := None)) ?a (butlast v) (nIdCount st)"
    unfolding idx_ok_def dom using sw(2) sv dv entry addr by (auto simp: idx_ok_def)
  moreover have "drop_entry n i st = Some (st\<lparr>mapInfo := m(n := None), mapAddr := ?a, vRandom := butlast v, nNew := nNew st - 1\<rparr>)"
    using sw(1) v len pos(1) unfolding drop_entry_def by (auto simp: of_nat_diff)
  ultimately show ?thesis using sw(3) by blast
qed

section \<open>What an operation leaves alone\<close>

text \<open>
  \<open>keeps X st st'\<close>: the key, the tried buckets, and the address and port of every entry but those of \<open>X\<close>.
\<close>

definition keeps :: "int set \<Rightarrow> CAddrMan \<Rightarrow> CAddrMan \<Rightarrow> bool" where
  "keeps X st st' \<longleftrightarrow> nKey st' = nKey st \<and> vvTried st' = vvTried st \<and>
     (\<forall>n i. n \<notin> X \<longrightarrow> mapInfo st n = Some i \<longrightarrow> (\<exists>j. mapInfo st' n = Some j \<and> ip j = ip i \<and> port j = port i))"

lemma keeps_refl: "keeps X st st"
  by (simp add: keeps_def)

lemma keeps_trans: "keeps X st st' \<Longrightarrow> keeps Y st' st'' \<Longrightarrow> keeps (X \<union> Y) st st''"
  by (simp add: keeps_def) metis

lemma keeps_mono: "keeps X st st' \<Longrightarrow> X \<subseteq> Y \<Longrightarrow> keeps Y st st'"
  by (auto simp: keeps_def)

lemma keeps_touch: "mapInfo st n = Some i \<Longrightarrow> ip j = ip i \<Longrightarrow> port j = port i \<Longrightarrow> keeps X st (st\<lparr>mapInfo := (mapInfo st)(n \<mapsto> j)\<rparr>)"
  by (simp add: keeps_def)

lemma keeps_new: "keeps X st st' \<Longrightarrow> keeps X st (st'\<lparr>vvNew := v\<rparr>)"
  by (simp add: keeps_def)

lemma SwapRandom_keeps: "SwapRandom p q st = Some st' \<Longrightarrow> keeps {} st st'"
  by (auto simp: SwapRandom_def keeps_def Let_def split: if_splits option.splits)

lemma drop_entry_keeps:
  assumes "drop_entry n i st = Some st'"
  shows "keeps {n} st st'"
proof -
  obtain st1 where sw: "SwapRandom (nRandomPos i) (int (length (vRandom st)) - 1) st = Some st1"
    using assms by (auto simp: drop_entry_def split: option.splits)
  then have "st' = st1\<lparr>vRandom := butlast (vRandom st1), mapAddr := (mapAddr st1)(CNetAddr.truncate i := None),
      mapInfo := (mapInfo st1)(n := None), nNew := nNew st1 - 1\<rparr>"
    using assms by (auto simp: drop_entry_def split: if_splits)
  then show ?thesis using SwapRandom_keeps[OF sw] by (auto simp: keeps_def)
qed

lemma drop_reference_keeps:
  assumes "drop_reference b n st = Some st'"
  shows "keeps {n} st st'"
proof -
  obtain i where i: "mapInfo st n = Some i" using assms by (auto simp: drop_reference_def split: option.splits)
  define j where "j = i\<lparr>nRefCount := nRefCount i - 1\<rparr>"
  define st1 where "st1 = st\<lparr>mapInfo := (mapInfo st)(n \<mapsto> j)\<rparr>"
  have run: "drop_reference b n st = map_option (\<lambda>st. st\<lparr>vvNew := (vvNew st)[b := vvNew st ! b - {n}]\<rparr>)
      (if nRefCount j = 0 then drop_entry n j st1 else Some st1)"
    by (simp only: drop_reference_def i option.case Let_def j_def st1_def)
  obtain st2 where st2: "(if nRefCount j = 0 then drop_entry n j st1 else Some st1) = Some st2"
      "st' = st2\<lparr>vvNew := (vvNew st2)[b := vvNew st2 ! b - {n}]\<rparr>"
    using assms unfolding run by (simp only: map_option_eq_Some) blast
  have "keeps {n} st1 st2" using st2(1) drop_entry_keeps[of n j st1 st2] by (auto simp: keeps_refl split: if_splits)
  moreover have "keeps {} st st1" unfolding st1_def by (rule keeps_touch[OF i]) (simp_all add: j_def)
  ultimately show ?thesis using keeps_trans[of "{}" st st1 "{n}" st2] st2(2) keeps_new by simp
qed

text \<open>Tried entries are in the bucket of their address.\<close>

definition placed :: "(bytes \<Rightarrow> uint256) \<Rightarrow> CAddrMan \<Rightarrow> bool" where
  "placed Hash st \<longleftrightarrow>
     (\<forall>k < ADDRMAN_TRIED_BUCKET_COUNT. \<forall>n \<in> set (vvTried st ! k).
        \<exists>i. mapInfo st n = Some i \<and> GetTriedBucket Hash (nKey st) i = k)"

lemmas addr_predicates =
  IsRoutable_def addr_IsValid_def addr_IsLocal_def IsIPv4_def IsTor_def IsI2P_def IsRFC1918_def IsRFC3927_def
  IsRFC3849_def IsRFC3964_def IsRFC6052_def IsRFC4380_def IsRFC4862_def IsRFC4193_def IsRFC6145_def IsRFC4843_def GetByte_def

lemma GetGroup_ip: "ip a = ip b \<Longrightarrow> GetGroup a = GetGroup b"
  by (simp only: GetGroup_def group_bytes_def addr_predicates)

lemma GetTriedBucket_addr: "ip j = ip i \<Longrightarrow> port j = port i \<Longrightarrow> GetTriedBucket Hash key j = GetTriedBucket Hash key i"
  using GetGroup_ip[of j i] by (simp add: GetTriedBucket_def CService_GetKey_def)

lemma placed_update:
  assumes "placed Hash st" "nKey st' = nKey st" "mapInfo st n = Some i" "GetTriedBucket Hash (nKey st) i = k0"
    and "\<And>x i. mapInfo st x = Some i \<Longrightarrow> \<exists>j. mapInfo st' x = Some j \<and> ip j = ip i \<and> port j = port i"
    and "\<And>k. k < ADDRMAN_TRIED_BUCKET_COUNT \<Longrightarrow> set (vvTried st' ! k) \<subseteq> set (vvTried st ! k) \<union> (if k = k0 then {n} else {})"
  shows "placed Hash st'"
  unfolding placed_def
proof (intro allI impI ballI)
  fix k x assume k: "k < ADDRMAN_TRIED_BUCKET_COUNT" "x \<in> set (vvTried st' ! k)"
  then have "x \<in> set (vvTried st ! k) \<or> x = n \<and> k = k0" using assms(6)[OF k(1)] by (auto split: if_splits)
  then obtain i' where i': "mapInfo st x = Some i'" "GetTriedBucket Hash (nKey st) i' = k"
    using assms(1,3,4) k(1) unfolding placed_def by blast
  from assms(5)[OF i'(1)] obtain j where j: "mapInfo st' x = Some j" "ip j = ip i'" "port j = port i'" by blast
  then show "\<exists>i. mapInfo st' x = Some i \<and> GetTriedBucket Hash (nKey st') i = k"
    using GetTriedBucket_addr[OF j(2,3)] i'(2) assms(2) by simp
qed

lemma placed_keeps:
  assumes "placed Hash st" "keeps X st st'" "X \<inter> tried_ids (mapInfo st) = {}"
    and "\<And>k n. k < ADDRMAN_TRIED_BUCKET_COUNT \<Longrightarrow> n \<in> set (vvTried st ! k) \<Longrightarrow> n \<in> tried_ids (mapInfo st)"
  shows "placed Hash st'"
  unfolding placed_def
proof (intro allI impI ballI)
  fix k x assume k: "k < ADDRMAN_TRIED_BUCKET_COUNT" "x \<in> set (vvTried st' ! k)"
  then have x: "x \<in> set (vvTried st ! k)" using assms(2) by (simp add: keeps_def)
  then have "x \<notin> X" using assms(3,4) k(1) by blast
  moreover obtain i where i: "mapInfo st x = Some i" "GetTriedBucket Hash (nKey st) i = k"
    using assms(1) k(1) x unfolding placed_def by blast
  ultimately obtain j where "mapInfo st' x = Some j" "ip j = ip i" "port j = port i"
    using assms(2) unfolding keeps_def by blast
  then show "\<exists>i. mapInfo st' x = Some i \<and> GetTriedBucket Hash (nKey st') i = k"
    using i(2) assms(2) GetTriedBucket_addr[of j i] by (simp add: keeps_def)
qed

section \<open>The operations keep the invariant\<close>

lemma am_bucket:
  assumes "am_inv p st" "b < ADDRMAN_NEW_BUCKET_COUNT"
  shows "b < length (vvNew st)" "finite (vvNew st ! b)" "card (vvNew st ! b) \<le> ADDRMAN_NEW_BUCKET_SIZE"
    "vvNew st ! b \<subseteq> dom (mapInfo st)"
proof -
  have ok: "buckets_ok p (mapInfo st) (vvTried st) (vvNew st) (nTried st) (nNew st)" using assms(1) by (simp add: am_inv_def)
  show len: "b < length (vvNew st)" using assms(2) buckets_parts(3)[OF ok] by simp
  show "finite (vvNew st ! b)" "card (vvNew st ! b) \<le> ADDRMAN_NEW_BUCKET_SIZE" "vvNew st ! b \<subseteq> dom (mapInfo st)"
    using buckets_parts(8)[OF ok nth_mem[OF len]] by auto
qed

lemma drop_reference_works:
  assumes "am_inv p st" "b < ADDRMAN_NEW_BUCKET_COUNT" "n \<in> vvNew st ! b" "p \<noteq> Some n"
  shows "\<exists>st'. drop_reference b n st = Some st' \<and> am_inv p st' \<and> nKey st' = nKey st \<and>
    vvNew st' = (vvNew st)[b := vvNew st ! b - {n}] \<and> dom (mapInfo st) - {n} \<subseteq> dom (mapInfo st')"
proof -
  let ?m = "mapInfo st"
  have idx: "idx_ok ?m (mapAddr st) (vRandom st) (nIdCount st)"
    and bk: "buckets_ok p ?m (vvTried st) (vvNew st) (nTried st) (nNew st)" using assms(1) by (simp_all add: am_inv_def)
  obtain i where i: "?m n = Some i" using am_bucket(4)[OF assms(1,2)] assms(3) by blast
  let ?j = "i\<lparr>nRefCount := nRefCount i - 1\<rparr>"
  let ?st = "st\<lparr>mapInfo := ?m(n \<mapsto> ?j)\<rparr>"
  have idx1: "idx_ok (mapInfo ?st) (mapAddr ?st) (vRandom ?st) (nIdCount ?st)"
    using idx_touch[OF idx i, of ?j] by (simp add: like_info_def CNetAddr.truncate_def)
  show ?thesis
  proof (cases "nRefCount i = 1")
    case True
    obtain m a v where d: "drop_entry n ?j ?st = Some (?st\<lparr>mapInfo := m(n := None), mapAddr := a, vRandom := v, nNew := nNew ?st - 1\<rparr>)"
        "idx_ok (m(n := None)) a v (nIdCount ?st)" "repos (mapInfo ?st) m"
      using drop_entry_works[OF idx1, of n ?j] by auto
    have "repos (?m(n := None)) (m(n := None))" using repos_upd_both[OF d(3), of n None] by simp
    then have "buckets_ok p (m(n := None)) (vvTried st) ((vvNew st)[b := vvNew st ! b - {n}]) (nTried st) (nNew st - 1)"
      by (rule buckets_repos[OF buckets_delete[OF bk assms(2,3) i assms(4) True]])
    moreover have "dom (m(n := None)) = dom ?m - {n}" using repos_dom[OF d(3)] i by auto
    ultimately show ?thesis using d(1,2) i True by (simp add: drop_reference_def am_inv_def)
  next
    case False
    show ?thesis
      using buckets_remove[OF bk assms(2,3) i assms(4) False] idx1 i False by (auto simp: drop_reference_def am_inv_def Let_def)
  qed
qed

lemma first_terrible_works:
  "set ids \<subseteq> dom m \<Longrightarrow> \<exists>x. first_terrible now m ids = Some x \<and> (\<forall>n. x = Some n \<longrightarrow> n \<in> set ids)"
  by (induction ids) auto

lemma oldest_drawn_works:
  assumes "set ids \<subseteq> dom m" "\<forall>k \<in> set ids. 0 \<le> k"
    and "if old = - 1 then \<exists>j \<in> n. nI \<le> j \<and> j < nI + length ids else old \<in> dom m"
  shows "\<exists>x. oldest_drawn m n nI old ids = Some x \<and> (x \<in> set ids \<or> x = old \<and> old \<noteq> - 1)"
  using assms
proof (induction ids arbitrary: nI old)
  case (Cons i ids)
  obtain info where i: "m i = Some info" using Cons.prems(1) by auto
  have step: "\<exists>x. oldest_drawn m n (nI + 1) old' ids = Some x \<and> (x \<in> set (i # ids) \<or> x = old \<and> old \<noteq> - 1)"
    if "old' = i \<or> old' = old \<and> old \<noteq> - 1" for old'
  proof -
    have "old' \<in> dom m" "old' \<noteq> - 1" using that i Cons.prems by (auto split: if_splits)
    then show ?thesis using Cons.IH[of old' "nI + 1"] Cons.prems that by auto
  qed
  show ?case
  proof (cases "nI \<in> n")
    case True
    then show ?thesis using step[of i] step[of old] i Cons.prems(3) by (auto split: option.splits if_splits)
  next
    case False
    show ?thesis
    proof (cases "old = - 1")
      case True
      then obtain j where j: "j \<in> n" "nI \<le> j" "j < nI + length (i # ids)" using Cons.prems(3) by auto
      then have "j \<noteq> nI" using False by auto
      then have "\<exists>j \<in> n. nI + 1 \<le> j \<and> j < nI + 1 + length ids" using j by (intro bexI[of _ j]) auto
      then show ?thesis using Cons.IH[of "- 1" "nI + 1"] Cons.prems(1,2) True False by auto
    qed (use step[of old] False in auto)
  qed
qed (auto split: if_splits)

lemma GetRandInt_less: "0 < n \<Longrightarrow> GetRandInt r n < n"
  by (simp add: GetRandInt_def)

lemma ShrinkNew_works:
  assumes "am_inv p st" "b < ADDRMAN_NEW_BUCKET_COUNT" "vvNew st ! b \<noteq> {}" "\<And>n. p = Some n \<Longrightarrow> n \<notin> vvNew st ! b"
  shows "\<exists>st' k. ShrinkNew now r b st = Some st' \<and> am_inv p st' \<and> nKey st' = nKey st \<and> k \<in> vvNew st ! b \<and>
    vvNew st' = (vvNew st)[b := vvNew st ! b - {k}] \<and> dom (mapInfo st) - {k} \<subseteq> dom (mapInfo st') \<and> keeps {k} st st'"
proof -
  let ?s = "vvNew st ! b"
  note bucket = am_bucket[OF assms(1,2)]
  have ids: "set (sorted_list_of_set ?s) = ?s" "length (sorted_list_of_set ?s) = card ?s"
    using bucket(2) by simp_all
  have drop: "\<exists>st'. drop_reference b k st = Some st' \<and> am_inv p st' \<and> nKey st' = nKey st \<and>
      vvNew st' = (vvNew st)[b := vvNew st ! b - {k}] \<and> dom (mapInfo st) - {k} \<subseteq> dom (mapInfo st') \<and> keeps {k} st st'"
    if "k \<in> ?s" for k
  proof -
    have "p \<noteq> Some k" using assms(4) that by blast
    from drop_reference_works[OF assms(1,2) that this] show ?thesis using drop_reference_keeps by blast
  qed
  obtain x where x: "first_terrible now (mapInfo st) (sorted_list_of_set ?s) = Some x" "\<And>n. x = Some n \<Longrightarrow> n \<in> ?s"
    using first_terrible_works[of "sorted_list_of_set ?s" "mapInfo st" now] bucket(4) ids(1) by auto
  show ?thesis
  proof (cases x)
    case (Some k)
    then show ?thesis using drop[OF x(2)[OF Some]] x(2)[OF Some] x(1) bucket(1) by (auto simp: ShrinkNew_def)
  next
    case None
    let ?n = "(\<lambda>k. GetRandInt (r k) (card ?s)) ` {0, 1, 2, 3}"
    have "0 < card ?s" using assms(3) bucket(2) by (simp add: card_gt_0_iff)
    then have "GetRandInt (r 0) (card ?s) < card ?s" by (rule GetRandInt_less)
    moreover have "\<forall>k \<in> ?s. 0 \<le> k" using assms(1) bucket(4) unfolding am_inv_def idx_ok_def by blast
    ultimately obtain k where k: "oldest_drawn (mapInfo st) ?n 0 (- 1) (sorted_list_of_set ?s) = Some k" "k \<in> ?s"
      using oldest_drawn_works[of "sorted_list_of_set ?s" "mapInfo st" "- 1" ?n 0] bucket(4) ids by auto
    then show ?thesis using drop[OF k(2)] x(1) None bucket(1) by (auto simp: ShrinkNew_def Let_def)
  qed
qed

lemma GetNewBucket_less: "GetNewBucket Hash key i src < ADDRMAN_NEW_BUCKET_COUNT"
  by (simp add: GetNewBucket_def Let_def ADDRMAN_NEW_BUCKET_COUNT_def)

lemma GetTriedBucket_less: "GetTriedBucket Hash key i < ADDRMAN_TRIED_BUCKET_COUNT"
  by (simp add: GetTriedBucket_def Let_def ADDRMAN_TRIED_BUCKET_COUNT_def)

lemma am_insert:
  assumes "am_inv (Some n) st" "b < ADDRMAN_NEW_BUCKET_COUNT" "n \<notin> vvNew st ! b"
    and "card (vvNew st ! b) < ADDRMAN_NEW_BUCKET_SIZE" "n \<in> dom (mapInfo st)"
  shows "am_inv None (st\<lparr>vvNew := (vvNew st)[b := insert n (vvNew st ! b)]\<rparr>)"
  using buckets_insert[OF _ assms(2-5)] assms(1) by (simp add: am_inv_def)

lemma add_reference_works:
  assumes "am_inv (Some n) (st\<lparr>mapInfo := (mapInfo st)(n \<mapsto> i\<lparr>nRefCount := nRefCount i + 1\<rparr>)\<rparr>)"
    and "\<And>s. s \<in> set (vvNew st) \<Longrightarrow> n \<in> s \<Longrightarrow> am_inv None st" "mapInfo st n = Some i"
  shows "\<exists>st'. add_reference Hash now r n i src st = Some st' \<and> am_inv None st' \<and> keeps (\<Union> (set (vvNew st))) st st'"
proof -
  define b where "b = GetNewBucket Hash (nKey st) i src"
  let ?st = "st\<lparr>mapInfo := (mapInfo st)(n \<mapsto> i\<lparr>nRefCount := nRefCount i + 1\<rparr>)\<rparr>"
  have b: "b < ADDRMAN_NEW_BUCKET_COUNT" by (simp add: b_def GetNewBucket_less)
  note bucket = am_bucket[OF assms(1) b]
  have touch: "keeps {} st ?st" by (rule keeps_touch[OF assms(3)]) simp_all
  show ?thesis
  proof (cases "n \<in> vvNew st ! b")
    case True
    then have "am_inv None st" using assms(2)[of "vvNew st ! b"] bucket(1) by simp
    then show ?thesis using True keeps_refl by (simp add: add_reference_def b_def)
  next
    case False
    show ?thesis
    proof (cases "card (vvNew st ! b) = ADDRMAN_NEW_BUCKET_SIZE")
      case full: True
      then have "vvNew ?st ! b \<noteq> {}" by (auto simp: ADDRMAN_NEW_BUCKET_SIZE_def)
      then obtain st' k where sh: "ShrinkNew now r b ?st = Some st'" "am_inv (Some n) st'" "k \<in> vvNew st ! b"
          "vvNew st' = (vvNew st)[b := vvNew st ! b - {k}]" "dom (mapInfo ?st) - {k} \<subseteq> dom (mapInfo st')"
          "keeps {k} ?st st'"
        using ShrinkNew_works[OF assms(1) b, of now r] False by auto
      have "{} \<union> {k} \<subseteq> \<Union> (set (vvNew st))" using sh(3) bucket(1) by auto
      then have kp: "keeps (\<Union> (set (vvNew st))) st (st'\<lparr>vvNew := (vvNew st')[b := insert n (vvNew st' ! b)]\<rparr>)"
        by (rule keeps_new[OF keeps_mono[OF keeps_trans[OF touch sh(6)]]])
      have "vvNew st' ! b = vvNew st ! b - {k}" using sh(4) bucket(1) by simp
      moreover have "n \<in> dom (mapInfo st')" using sh(3,5) False by auto
      moreover have "card (vvNew st ! b - {k}) < ADDRMAN_NEW_BUCKET_SIZE"
        using full sh(3) bucket(2) card_Diff1_less[of "vvNew st ! b" k] by simp
      ultimately have "am_inv None (st'\<lparr>vvNew := (vvNew st')[b := insert n (vvNew st' ! b)]\<rparr>)"
        using am_insert[OF sh(2) b] False by simp
      then show ?thesis using sh(1) full False kp by (simp add: add_reference_def Let_def flip: b_def)
    next
      case space: False
      then have "am_inv None (?st\<lparr>vvNew := (vvNew ?st)[b := insert n (vvNew ?st ! b)]\<rparr>)"
        using am_insert[OF assms(1) b] bucket(3) False by simp
      moreover have "keeps (\<Union> (set (vvNew st))) st (?st\<lparr>vvNew := (vvNew ?st)[b := insert n (vvNew ?st ! b)]\<rparr>)"
        by (rule keeps_new[OF keeps_mono[OF touch]]) simp
      ultimately show ?thesis using space False by (simp add: add_reference_def Let_def flip: b_def)
    qed
  qed
qed

lemma am_touch:
  assumes "am_inv p st" "mapInfo st n = Some i" "like_info i j" "info_ok j" "fInTried j = fInTried i" "nRefCount j = nRefCount i"
  shows "am_inv p (st\<lparr>mapInfo := (mapInfo st)(n \<mapsto> j)\<rparr>)"
  using idx_touch[of "mapInfo st" "mapAddr st" "vRandom st" "nIdCount st" n i j] assms
    buckets_touch[of p "mapInfo st" "vvTried st" "vvNew st" "nTried st" "nNew st" n i j] by (simp add: am_inv_def)

lemma am_info: "am_inv None st \<Longrightarrow> mapInfo st n = Some i \<Longrightarrow> info_ok i \<and> nRefCount i = ref_count (vvNew st) n"
  using buckets_okD by (fastforce simp: am_inv_def)

lemma addr_Find_Some: "addr_Find st addr = Some (n, i) \<Longrightarrow> mapInfo st n = Some i"
  by (auto simp: addr_Find_def split: option.splits)

lemma addr_Find_None:
  assumes "am_inv p st" "addr_Find st addr = None"
  shows "mapAddr st (CNetAddr.truncate addr) = None"
proof (rule ccontr)
  assume "mapAddr st (CNetAddr.truncate addr) \<noteq> None"
  then obtain n where n: "mapAddr st (CNetAddr.truncate addr) = Some n" by auto
  from idx_addr[OF conjunct1[OF assms(1)[unfolded am_inv_def]] n] assms(2) n show False by (auto simp: addr_Find_def)
qed

lemma idx_create:
  assumes "idx_ok m a v c" "a x = None" "CNetAddr.truncate i = x" "nRandomPos i = int (length v)"
  shows "idx_ok (m(c \<mapsto> i)) (a(x \<mapsto> c)) (v @ [c]) (c + 1)"
proof -
  have fresh: "c \<notin> set v" using assms(1) by (auto simp: idx_ok_def)
  then have mc: "m c = None" using assms(1) by (auto simp: idx_ok_def)
  have entry: "0 \<le> nRandomPos j \<and> nRandomPos j < int (length (v @ [c])) \<and> (v @ [c]) ! nat (nRandomPos j) = n \<and>
      (a(x \<mapsto> c)) (CNetAddr.truncate j) = Some n" if "(m(c \<mapsto> i)) n = Some j" for n j
  proof (cases "n = c")
    case False
    then have mn: "m n = Some j" using that by simp
    note p = idx_okD[OF assms(1) mn]
    have "CNetAddr.truncate j \<noteq> x" using p(4) assms(2) by auto
    then show ?thesis using p by (auto simp: nth_append)
  qed (use that assms(3,4) in simp)
  have addr: "\<exists>j. (m(c \<mapsto> i)) n = Some j \<and> CNetAddr.truncate j = y" if "(a(x \<mapsto> c)) y = Some n" for y n
    using that idx_addr[OF assms(1), of y n] mc assms(3) by (cases "y = x") auto
  have "dom (m(c \<mapsto> i)) = set (v @ [c])" using assms(1) by (auto simp: idx_ok_def)
  then show ?thesis using assms(1) fresh entry addr by (auto simp: idx_ok_def)
qed

lemma truncate_mk_info [simp]: "CNetAddr.truncate (mk_info addr src) = CNetAddr.truncate addr"
  by (simp add: mk_info_def CNetAddr.truncate_def CAddress.defs)

lemma mk_info_simps [simp]:
  "nLastTry (mk_info addr src) = 0" "nLastSuccess (mk_info addr src) = 0" "nRefCount (mk_info addr src) = 0"
  "\<not> fInTried (mk_info addr src)"
  by (simp_all add: mk_info_def CAddress.defs)

lemma truncate_time [simp]:
  "CNetAddr.truncate (i\<lparr>nTime := t\<rparr>) = CNetAddr.truncate (i :: CAddrInfo)"
  "CNetAddr.truncate (i\<lparr>nServices := u\<rparr>) = CNetAddr.truncate i"
  "CNetAddr.truncate (i\<lparr>nRefCount := k\<rparr>) = CNetAddr.truncate i"
  "CNetAddr.truncate (i\<lparr>nLastTry := k\<rparr>) = CNetAddr.truncate i"
  "CNetAddr.truncate (i\<lparr>nLastSuccess := k\<rparr>) = CNetAddr.truncate i"
  "CNetAddr.truncate (i\<lparr>nAttempts := k\<rparr>) = CNetAddr.truncate i"
  "CNetAddr.truncate (i\<lparr>fInTried := b\<rparr>) = CNetAddr.truncate i"
  by (simp_all add: CNetAddr.truncate_def)

lemma Add_new_works:
  assumes "am_inv None st" "addr_Find st addr = None"
  shows "\<exists>b st'. addrman_Add Hash now r addr src pen st = Some (b, st') \<and> am_inv None st' \<and> keeps (\<Union> (set (vvNew st))) st st'"
proof (cases "IsRoutable addr")
  case True
  define c where "c = nIdCount st"
  define i where "i = (mk_info addr src)\<lparr>nRandomPos := int (length (vRandom st)),
      nTime := word_of_int (max 0 (uint (nTime (mk_info addr src)) - pen))\<rparr>"
  define st1 where "st1 = st\<lparr>nIdCount := c + 1, mapAddr := (mapAddr st)(CNetAddr.truncate addr \<mapsto> c),
      vRandom := vRandom st @ [c], mapInfo := (mapInfo st)(c \<mapsto> i),
      nNew := nNew st + 1\<rparr>"
  have run: "addrman_Add Hash now r addr src pen st = map_option (Pair True) (add_reference Hash now (r \<circ> Suc) c i src st1)"
    using True assms(2) by (simp add: addrman_Add_def addr_Create_def Let_def c_def i_def st1_def)
  have idx: "idx_ok (mapInfo st) (mapAddr st) (vRandom st) c"
    and bk: "buckets_ok None (mapInfo st) (vvTried st) (vvNew st) (nTried st) (nNew st)"
    using assms(1) by (simp_all add: am_inv_def c_def)
  have mc: "mapInfo st c = None" using idx by (auto simp: idx_ok_def)
  have "\<forall>s \<in> set (vvNew st). s \<subseteq> dom (mapInfo st)" using buckets_parts(8)[OF bk] by blast
  then have out: "\<forall>s \<in> set (vvNew st). c \<notin> s" using mc by auto
  have "idx_ok ((mapInfo st)(c \<mapsto> i\<lparr>nRefCount := nRefCount i + 1\<rparr>)) ((mapAddr st)(CNetAddr.truncate addr \<mapsto> c)) (vRandom st @ [c]) (c + 1)"
    by (rule idx_create[OF idx addr_Find_None[OF assms]]) (simp_all add: i_def)
  moreover have "buckets_ok (Some c) ((mapInfo st)(c \<mapsto> i\<lparr>nRefCount := nRefCount i + 1\<rparr>)) (vvTried st) (vvNew st) (nTried st) (nNew st + 1)"
    by (rule buckets_new_entry[OF bk mc]) (simp_all add: i_def info_ok_def ADDRMAN_NEW_BUCKETS_PER_ADDRESS_def)
  ultimately have "am_inv (Some c) (st1\<lparr>mapInfo := (mapInfo st1)(c \<mapsto> i\<lparr>nRefCount := nRefCount i + 1\<rparr>)\<rparr>)"
    by (simp add: am_inv_def st1_def)
  then have "\<exists>st'. add_reference Hash now (r \<circ> Suc) c i src st1 = Some st' \<and> am_inv None st' \<and> keeps (\<Union> (set (vvNew st))) st1 st'"
    using add_reference_works[of c st1 i Hash now "r \<circ> Suc" src] out by (auto simp: st1_def)
  moreover have "keeps {} st st1" using mc by (auto simp: st1_def keeps_def)
  ultimately show ?thesis using run keeps_trans[of "{}" st st1] by fastforce
next
  case False
  then show ?thesis using assms(1) by (intro exI[of _ False] exI[of _ st]) (simp add: addrman_Add_def keeps_refl)
qed

lemma Add_old_works:
  assumes "am_inv None st" "addr_Find st addr = Some (n, i)"
  shows "\<exists>b st'. addrman_Add Hash now r addr src pen st = Some (b, st') \<and> am_inv None st' \<and> keeps (\<Union> (set (vvNew st))) st st'"
proof (cases "IsRoutable addr")
  case True
  define upd where "upd = (if nTime addr \<noteq> 0 \<and>
      (nTime i = 0 \<or> uint (nTime i) < uint (nTime addr) - (if now - uint (nTime addr) < 24 * 60 * 60 then 60 * 60 else 24 * 60 * 60) - pen)
      then i\<lparr>nTime := word_of_int (max 0 (uint (nTime addr) - pen))\<rparr> else i)"
  define j where "j = upd\<lparr>nServices := nServices upd OR nServices addr\<rparr>"
  define st1 where "st1 = st\<lparr>mapInfo := (mapInfo st)(n \<mapsto> j)\<rparr>"
  have mi: "mapInfo st n = Some i" by (rule addr_Find_Some[OF assms(2)])
  have like: "like_info i j" "info_ok j = info_ok i" "fInTried j = fInTried i" "nRefCount j = nRefCount i"
    by (simp_all add: j_def upd_def like_info_def info_ok_def)
  have inv: "am_inv None st1"
    unfolding st1_def using am_touch[OF assms(1) mi like(1) _ like(3,4)] am_info[OF assms(1) mi] like(2) by blast
  have run: "addrman_Add Hash now r addr src pen st =
      (if nTime addr = 0 \<or> nTime j \<noteq> 0 \<and> nTime addr \<le> nTime j then Some (False, st1)
       else if fInTried j then Some (False, st1)
       else if nRefCount j = ADDRMAN_NEW_BUCKETS_PER_ADDRESS then Some (False, st1)
       else if ref_factor (nRefCount j) > 1 \<and> GetRandInt (r 0) (ref_factor (nRefCount j)) \<noteq> 0 then Some (False, st1)
       else map_option (Pair False) (add_reference Hash now (r \<circ> Suc) n j src st1))"
    using True assms(2) unfolding addrman_Add_def j_def upd_def st1_def Let_def by (simp only: if_False option.case prod.case simp_thms)
  have mj: "mapInfo st1 n = Some j" by (simp add: st1_def)
  have touch: "keeps {} st st1" unfolding st1_def by (rule keeps_touch[OF mi]) (simp_all add: j_def upd_def)
  have "\<exists>st'. add_reference Hash now (r \<circ> Suc) n j src st1 = Some st' \<and> am_inv None st' \<and> keeps (\<Union> (set (vvNew st1))) st1 st'"
    if "\<not> fInTried j" "nRefCount j \<noteq> ADDRMAN_NEW_BUCKETS_PER_ADDRESS"
  proof (rule add_reference_works)
    have "info_ok j" using am_info[OF inv mj] by simp
    then have "nRefCount j < ADDRMAN_NEW_BUCKETS_PER_ADDRESS" using that by (simp add: info_ok_def)
    then show "am_inv (Some n) (st1\<lparr>mapInfo := (mapInfo st1)(n \<mapsto> j\<lparr>nRefCount := nRefCount j + 1\<rparr>)\<rparr>)"
      using buckets_count_up[of "mapInfo st1" _ _ _ _ n j] idx_touch[of "mapInfo st1" _ _ _ n j "j\<lparr>nRefCount := nRefCount j + 1\<rparr>"]
        inv mj that(1) by (simp add: am_inv_def like_info_def)
  qed (rule inv mj)+
  then have "\<exists>st'. add_reference Hash now (r \<circ> Suc) n j src st1 = Some st' \<and> am_inv None st' \<and> keeps (\<Union> (set (vvNew st))) st st'"
    if "\<not> fInTried j" "nRefCount j \<noteq> ADDRMAN_NEW_BUCKETS_PER_ADDRESS"
    using that keeps_trans[OF touch] by (fastforce simp: st1_def)
  then show ?thesis unfolding run using inv keeps_mono[OF touch] by auto
next
  case False
  then show ?thesis using assms(1) by (intro exI[of _ False] exI[of _ st]) (simp add: addrman_Add_def keeps_refl)
qed

lemma Add_works:
  assumes "am_inv None st"
  shows "\<exists>b st'. addrman_Add Hash now r addr src pen st = Some (b, st') \<and> am_inv None st' \<and> keeps (\<Union> (set (vvNew st))) st st'"
proof (cases "addr_Find st addr")
  case (Some p)
  obtain n i where "p = (n, i)" by (cases p)
  then show ?thesis using Add_old_works[OF assms, of addr n i] Some by blast
qed (rule Add_new_works[OF assms])

lemma Add_all_works:
  "am_inv None st \<Longrightarrow> \<exists>n st'. addrman_Add_all Hash now r vAddr src pen st = Some (n, st') \<and> am_inv None st'"
proof (induction vAddr arbitrary: r st)
  case (Cons addr vAddr)
  obtain b st1 where "addrman_Add Hash now (r 0) addr src pen st = Some (b, st1)" "am_inv None st1"
    using Add_works[OF Cons.prems] by blast
  moreover obtain k st2 where "addrman_Add_all Hash now (r \<circ> Suc) vAddr src pen st1 = Some (k, st2)" "am_inv None st2"
    using Cons.IH calculation(2) by blast
  ultimately show ?case by simp
qed simp

lemma Attempt_works:
  assumes "am_inv None st" "0 \<le> t"
  shows "am_inv None (addrman_Attempt addr t st)"
proof (cases "addr_Find st addr")
  case (Some p)
  obtain n i where p: "p = (n, i)" by (cases p)
  have mi: "mapInfo st n = Some i" using addr_Find_Some Some p by blast
  have "info_ok i" using am_info[OF assms(1) mi] by simp
  then have "am_inv None (st\<lparr>mapInfo := (mapInfo st)(n \<mapsto> i\<lparr>nLastTry := t, nAttempts := nAttempts i + 1\<rparr>)\<rparr>)"
    using assms(2) by (intro am_touch[OF assms(1) mi]) (simp_all add: like_info_def info_ok_def)
  then show ?thesis using assms(1) Some p by (simp add: addrman_Attempt_def)
qed (simp add: addrman_Attempt_def assms)

lemma Connected_works:
  assumes "am_inv None st"
  shows "am_inv None (addrman_Connected addr t st)"
proof (cases "addr_Find st addr")
  case (Some p)
  obtain n i where p: "p = (n, i)" by (cases p)
  have mi: "mapInfo st n = Some i" using addr_Find_Some Some p by blast
  have "info_ok i" using am_info[OF assms mi] by simp
  then have "am_inv None (st\<lparr>mapInfo := (mapInfo st)(n \<mapsto> i\<lparr>nTime := word_of_int t\<rparr>)\<rparr>)"
    by (intro am_touch[OF assms mi]) (simp_all add: like_info_def info_ok_def)
  then show ?thesis using assms Some p by (simp add: addrman_Connected_def)
qed (simp add: addrman_Connected_def assms)

lemma inspect_tried_works:
  assumes "set v \<subseteq> dom m" "\<forall>n \<in> set v. 0 \<le> n" "\<forall>i \<in> set is. i < length v" "old = - 1 \<or> old \<in> dom m"
    and "if old = - 1 then is \<noteq> [] else 0 \<le> pos \<and> nat pos < length v"
  shows "\<exists>p v'. inspect_tried m r is v old pos = Some (p, v') \<and> mset v' = mset v \<and> 0 \<le> p \<and> nat p < length v"
  using assms
proof (induction "is" arbitrary: v old pos)
  case (Cons i "is")
  define q where "q = GetRandInt (r i) (length v - i) + i"
  define w where "w = v[q := v ! i, i := v ! q]"
  have i: "i < length v" using Cons.prems(3) by simp
  then have q: "q < length v" using GetRandInt_less[of "length v - i" "r i"] by (simp add: q_def)
  have w: "mset w = mset v" unfolding w_def by (rule mset_swap[OF i q])
  then have w': "set w = set v" "length w = length v" by (auto dest: mset_eq_setD mset_eq_length)
  have t: "v ! q \<in> set v" using q by simp
  then obtain info where info: "m (v ! q) = Some info" "v ! q \<noteq> - 1" using Cons.prems(1,2) by force
  have step: "\<exists>p v'. inspect_tried m r is w old' pos' = Some (p, v') \<and> mset v' = mset v \<and> 0 \<le> p \<and> nat p < length v"
    if "old' \<in> dom m" "old' \<noteq> - 1" "0 \<le> pos'" "nat pos' < length v" for old' pos'
    using Cons.IH[of w old' pos'] Cons.prems(1-3) that w w' by auto
  have run: "inspect_tried m r (i # is) v old pos =
      (if old = - 1 then inspect_tried m r is w (v ! q) (int q)
       else case (m (v ! q), m old) of
          (Some info, Some oldi) \<Rightarrow>
            if nLastSuccess info < nLastSuccess oldi then inspect_tried m r is w (v ! q) (int q)
            else inspect_tried m r is w old pos
        | _ \<Rightarrow> None)"
    by (simp only: inspect_tried.simps Let_def q_def w_def)
  have new: "\<exists>p v'. inspect_tried m r is w (v ! q) (int q) = Some (p, v') \<and> mset v' = mset v \<and> 0 \<le> p \<and> nat p < length v"
    using step[of "v ! q" "int q"] info q by auto
  show ?case
  proof (cases "old = - 1")
    case False
    then obtain oldi where "m old = Some oldi" using Cons.prems(4) by auto
    then show ?thesis using False new step[of old pos] info Cons.prems(4,5) unfolding run by auto
  qed (unfold run, use new in simp)
qed (auto split: if_splits)

lemma am_tried:
  assumes "am_inv p st" "k < ADDRMAN_TRIED_BUCKET_COUNT" "n \<in> set (vvTried st ! k)"
  shows "k < length (vvTried st)" "n \<in> tried_ids (mapInfo st)" "0 \<le> n"
proof -
  have ok: "buckets_ok p (mapInfo st) (vvTried st) (vvNew st) (nTried st) (nNew st)" using assms(1) by (simp add: am_inv_def)
  show len: "k < length (vvTried st)" using assms(2) buckets_parts(2)[OF ok] by simp
  have "n \<in> set (concat (vvTried st))" using assms(3) len by (auto intro: nth_mem)
  then show t: "n \<in> tried_ids (mapInfo st)" using buckets_parts(5)[OF ok] by (simp del: set_concat)
  then obtain i where i: "mapInfo st n = Some i" by (auto simp: tried_ids_def)
  have "idx_ok (mapInfo st) (mapAddr st) (vRandom st) (nIdCount st)" using assms(1) by (simp add: am_inv_def)
  from idx_okD(5)[OF this i] show "0 \<le> n" .
qed

lemma SelectTried_works:
  assumes "am_inv p st" "k < ADDRMAN_TRIED_BUCKET_COUNT" "vvTried st ! k \<noteq> []" "vvTried st' = vvTried st"
    and "dom (mapInfo st') = dom (mapInfo st)"
  shows "\<exists>q v. SelectTried r k st' = Some (int q, st'\<lparr>vvTried := (vvTried st)[k := v]\<rparr>) \<and>
    mset v = mset (vvTried st ! k) \<and> q < length v"
proof -
  let ?v = "vvTried st ! k" and ?is = "[0..<min ADDRMAN_TRIED_ENTRIES_INSPECT_ON_EVICT (length (vvTried st ! k))]"
  have len: "k < length (vvTried st)"
    using assms(2) buckets_parts(2)[OF conjunct2[OF assms(1)[unfolded am_inv_def]]] by simp
  have "set ?v \<subseteq> dom (mapInfo st')" "\<forall>n \<in> set ?v. 0 \<le> n"
    using am_tried[OF assms(1,2)] unfolding assms(5) tried_ids_def by fastforce+
  moreover have "?is \<noteq> []" using assms(3) by (simp add: ADDRMAN_TRIED_ENTRIES_INSPECT_ON_EVICT_def)
  ultimately obtain q v where "inspect_tried (mapInfo st') r ?is ?v (- 1) (- 1) = Some (q, v)" "mset v = mset ?v" "0 \<le> q"
      "nat q < length ?v"
    using inspect_tried_works[of ?v "mapInfo st'" ?is "- 1" "- 1" r] by auto
  then show ?thesis
    using len mset_eq_length[of v ?v] assms(4)
    by (intro exI[of _ "nat q"] exI[of _ v]) (simp add: SelectTried_def Let_def)
qed

lemma MakeTried_works:
  assumes "am_inv None st" "b < ADDRMAN_NEW_BUCKET_COUNT" "n \<in> vvNew st ! b" "mapInfo st n = Some i" "nLastSuccess i \<noteq> 0"
  shows "\<exists>st'. MakeTried Hash r n b st = Some st' \<and> am_inv None st' \<and> (placed Hash st \<longrightarrow> placed Hash st')"
proof -
  let ?m = "mapInfo st" and ?i = "i\<lparr>nRefCount := 0\<rparr>" and ?vN = "map (\<lambda>s. s - {n}) (vvNew st)"
  have idx: "idx_ok ?m (mapAddr st) (vRandom st) (nIdCount st)"
    and bk: "buckets_ok None ?m (vvTried st) (vvNew st) (nTried st) (nNew st)" using assms(1) by (simp_all add: am_inv_def)
  have len: "b < length (vvNew st)" by (rule am_bucket(1)[OF assms(1,2)])
  have "ref_count (vvNew st) n \<noteq> 0" using assms(3) len by (auto simp: ref_count_zero)
  then have nt: "\<not> fInTried i" using am_info[OF assms(1,4)] by (auto simp: info_ok_def)
  have refs: "i\<lparr>nRefCount := nRefCount i - int (length (filter (\<lambda>vNew. n \<in> vNew) (vvNew st)))\<rparr> = ?i"
    using am_info[OF assms(1,4)] by (simp add: ref_count_filter)
  define k where "k = GetTriedBucket Hash (nKey st) ?i"
  define st2 where "st2 = st\<lparr>vvNew := ?vN, nNew := nNew st - 1, mapInfo := ?m(n \<mapsto> ?i)\<rparr>"
  have k: "k < ADDRMAN_TRIED_BUCKET_COUNT" "k < length (vvTried st)"
    using buckets_parts(2)[OF bk] by (simp_all add: k_def GetTriedBucket_less)
  have bucket_of: "GetTriedBucket Hash (nKey st) i = k" unfolding k_def by (rule GetTriedBucket_addr) simp_all
  have run: "MakeTried Hash r n b st =
      (if length (vvTried st ! k) < ADDRMAN_TRIED_BUCKET_SIZE
       then Some (st2\<lparr>vvTried := (vvTried st)[k := vvTried st ! k @ [n]], nTried := nTried st + 1,
                      mapInfo := ?m(n \<mapsto> ?i\<lparr>fInTried := True\<rparr>)\<rparr>)
       else evict_tried Hash r n b k st2)"
    using assms(3,4) len refs by (simp add: MakeTried_def Let_def k_def st2_def)
  show ?thesis
  proof (cases "length (vvTried st ! k) < ADDRMAN_TRIED_BUCKET_SIZE")
    case True
    let ?st' = "st2\<lparr>vvTried := (vvTried st)[k := vvTried st ! k @ [n]], nTried := nTried st + 1,
        mapInfo := ?m(n \<mapsto> ?i\<lparr>fInTried := True\<rparr>)\<rparr>"
    have "placed Hash ?st'" if "placed Hash st"
      by (rule placed_update[OF that, of _ n i k])
         (use assms(4) k in \<open>auto simp: st2_def nth_list_update bucket_of split: if_splits\<close>)
    then show ?thesis
      using True run buckets_promote[OF bk assms(4) nt assms(5) k(2)] idx_touch[OF idx assms(4), of "?i\<lparr>fInTried := True\<rparr>"]
      by (simp add: am_inv_def st2_def like_info_def)
  next
    case False
    then have "vvTried st ! k \<noteq> []" by (auto simp: ADDRMAN_TRIED_BUCKET_SIZE_def)
    moreover have "vvTried st2 = vvTried st" "dom (mapInfo st2) = dom ?m" using assms(4) by (auto simp: st2_def)
    ultimately obtain q v where sel: "SelectTried r k st2 = Some (int q, st2\<lparr>vvTried := (vvTried st)[k := v]\<rparr>)"
        "mset v = mset (vvTried st ! k)" "q < length v"
      using SelectTried_works[OF assms(1) k(1), of st2 r] by blast
    let ?vT = "(vvTried st)[k := v]"
    have vk: "?vT ! k = v" using k(2) by simp
    have "v ! q \<in> set (vvTried st ! k)" using mset_eq_setD[OF sel(2)] sel(3) nth_mem by blast
    then have old: "v ! q \<in> tried_ids ?m" by (rule am_tried(2)[OF assms(1) k(1)])
    then obtain io where io: "?m (v ! q) = Some io" "fInTried io" by (auto simp: tried_ids_def)
    have ne: "v ! q \<noteq> n" using io assms(4) nt by auto
    define u where "u = GetNewBucket Hash (nKey st) io (source io)"
    define d where "d = (if card (?vN ! u) < ADDRMAN_NEW_BUCKET_SIZE then u else b)"
    have u: "u < ADDRMAN_NEW_BUCKET_COUNT" by (simp add: u_def GetNewBucket_less)
    have d: "d < ADDRMAN_NEW_BUCKET_COUNT" using u assms(2) by (simp add: d_def)
    have dlen: "d < length (vvNew st)" "u < length (vvNew st)" using am_bucket(1)[OF assms(1)] d u by simp_all
    have "card (vvNew st ! b - {n}) < ADDRMAN_NEW_BUCKET_SIZE"
      using am_bucket(2,3)[OF assms(1,2)] assms(3) card_Diff1_less[of "vvNew st ! b" n] by simp
    then have space: "card (vvNew st ! d - {n}) < ADDRMAN_NEW_BUCKET_SIZE"
      using dlen(2) by (auto simp: d_def split: if_splits)
    let ?m' = "?m(v ! q \<mapsto> io\<lparr>fInTried := False, nRefCount := 1\<rparr>, n \<mapsto> ?i\<lparr>fInTried := True\<rparr>)"
    have "buckets_ok None ?m' (?vT[k := (?vT ! k)[q := n]]) (?vN[d := insert (v ! q) (vvNew st ! d - {n})]) (nTried st) (nNew st)"
      using buckets_evict[OF buckets_shuffle[OF bk k(2) sel(2)] assms(4) nt assms(5), of k q io d] k(2) sel(3) io(1) d space vk
      by simp
    moreover have "idx_ok ?m' (mapAddr st) (vRandom st) (nIdCount st)"
    proof (rule idx_touch)
      show "idx_ok (?m(v ! q \<mapsto> io\<lparr>fInTried := False, nRefCount := 1\<rparr>)) (mapAddr st) (vRandom st) (nIdCount st)"
        by (rule idx_touch[OF idx io(1)]) (simp add: like_info_def)
    qed (use assms(4) ne in \<open>simp_all add: like_info_def\<close>)
    moreover have "evict_tried Hash r n b k st2 =
        Some (st2\<lparr>mapInfo := ?m', vvNew := ?vN[d := insert (v ! q) (vvNew st ! d - {n})], nNew := nNew st,
                  vvTried := ?vT[k := (?vT ! k)[q := n]]\<rparr>)"
      using sel(1,3) vk io ne dlen unfolding evict_tried_def
      by (simp add: Let_def st2_def fun_upd_twist flip: u_def d_def) (use len in \<open>simp add: d_def\<close>)
    moreover have "placed Hash (st2\<lparr>mapInfo := ?m', vvNew := w, nNew := nNew st, vvTried := ?vT[k := (?vT ! k)[q := n]]\<rparr>)"
      if "placed Hash st" for w
    proof (rule placed_update[OF that, of _ n i k])
      have "set (v[q := n]) \<subseteq> set (vvTried st ! k) \<union> {n}"
        using set_update_subset_insert[of v q n] mset_eq_setD[OF sel(2)] by auto
      then show "set (vvTried (st2\<lparr>mapInfo := ?m', vvNew := w, nNew := nNew st, vvTried := ?vT[k := (?vT ! k)[q := n]]\<rparr>) ! l) \<subseteq>
          set (vvTried st ! l) \<union> (if l = k then {n} else {})" for l
        using k(2) by (cases "l = k") simp_all
    qed (use assms(4) io(1) ne bucket_of in \<open>auto simp: st2_def\<close>)
    ultimately show ?thesis using run False by (simp add: am_inv_def st2_def)
  qed
qed

lemma Good_works:
  assumes "am_inv None st" "0 < t"
  shows "\<exists>st'. addrman_Good Hash r addr t st = Some st' \<and> am_inv None st' \<and> (placed Hash st \<longrightarrow> placed Hash st')"
proof (cases "addr_Find st addr")
  case (Some p)
  obtain n i where p: "p = (n, i)" by (cases p)
  have mi: "mapInfo st n = Some i" using addr_Find_Some Some p by blast
  define j where "j = i\<lparr>nLastSuccess := t, nLastTry := t, nTime := word_of_int t, nAttempts := 0\<rparr>"
  define st1 where "st1 = st\<lparr>mapInfo := (mapInfo st)(n \<mapsto> j)\<rparr>"
  have "info_ok i" using am_info[OF assms(1) mi] by simp
  then have inv: "am_inv None st1"
    unfolding st1_def using assms(2) by (intro am_touch[OF assms(1) mi]) (simp_all add: j_def like_info_def info_ok_def)
  define size where "size = length (vvNew st)"
  have size: "size = ADDRMAN_NEW_BUCKET_COUNT"
    using buckets_parts(3)[OF conjunct2[OF assms(1)[unfolded am_inv_def]]] by (simp add: size_def)
  let ?order = "map (\<lambda>n. (n + GetRandInt (r 0) size) mod size) [0..<size]"
  have run: "addrman_Good Hash r addr t st =
      (if \<not> service_eq i addr then Some st else if fInTried j then Some st1
       else case find (\<lambda>nB. n \<in> vvNew st ! nB) ?order of
              None \<Rightarrow> Some st1 | Some nUBucket \<Rightarrow> MakeTried Hash (r \<circ> Suc) n nUBucket st1)"
    unfolding addrman_Good_def Some p option.case prod.case Let_def j_def st1_def size_def by (simp cong: option.case_cong)
  have pl: "placed Hash st1" if "placed Hash st"
    by (rule placed_update[OF that, of _ n i "GetTriedBucket Hash (nKey st) i"]) (use mi in \<open>auto simp: st1_def j_def\<close>)
  have "\<exists>st'. MakeTried Hash (r \<circ> Suc) n b st1 = Some st' \<and> am_inv None st' \<and> (placed Hash st1 \<longrightarrow> placed Hash st')"
    if found: "find (\<lambda>nB. n \<in> vvNew st ! nB) ?order = Some b" for b
  proof (rule MakeTried_works[OF inv])
    obtain l where l: "l < length ?order" "n \<in> vvNew st ! (?order ! l)" "b = ?order ! l"
      using found by (auto simp: find_Some_iff)
    then show "b < ADDRMAN_NEW_BUCKET_COUNT" using size by (simp add: ADDRMAN_NEW_BUCKET_COUNT_def)
    show "n \<in> vvNew st1 ! b" using l by (simp add: st1_def)
    show "mapInfo st1 n = Some j" by (simp add: st1_def)
    show "nLastSuccess j \<noteq> 0" using assms(2) by (simp add: j_def)
  qed
  then show ?thesis unfolding run using inv assms(1) pl by (auto split: option.split)
qed (simp add: addrman_Good_def assms)

text \<open>What \<open>GetAddr_\<close> gives are entries of the table, of which it changes the order only.\<close>

lemma getaddr_loop_works:
  assumes "am_inv p st" "set ns \<subseteq> {..<length (vRandom st)}"
  shows "\<exists>v st'. getaddr_loop r ns st = Some (v, st') \<and> am_inv p st' \<and> length v = length ns \<and>
    repos (mapInfo st) (mapInfo st') \<and> keeps {} st st' \<and>
    (\<forall>i \<in> set v. \<exists>n j. mapInfo st n = Some j \<and> i = CAddress.truncate j)"
  using assms
proof (induction ns arbitrary: st)
  case (Cons n ns)
  define q where "q = GetRandInt (r n) (length (vRandom st) - n) + n"
  have n: "n < length (vRandom st)" using Cons.prems(2) by simp
  then have q: "q < length (vRandom st)" using GetRandInt_less[of "length (vRandom st) - n" "r n"] by (simp add: q_def)
  have idx: "idx_ok (mapInfo st) (mapAddr st) (vRandom st) (nIdCount st)"
    and bk: "buckets_ok p (mapInfo st) (vvTried st) (vvNew st) (nTried st) (nNew st)"
    using Cons.prems(1) by (simp_all add: am_inv_def)
  obtain m v where sw: "SwapRandom (int n) (int q) st = Some (st\<lparr>mapInfo := m, vRandom := v\<rparr>)"
      "idx_ok m (mapAddr st) v (nIdCount st)" "repos (mapInfo st) m" "length v = length (vRandom st)"
    using SwapRandom_works[OF idx n q] by auto
  define st1 where "st1 = st\<lparr>mapInfo := m, vRandom := v\<rparr>"
  have inv: "am_inv p st1" using sw(2) buckets_repos[OF bk sw(3)] by (simp add: am_inv_def st1_def)
  have "v ! n \<in> set v" using n sw(4) by simp
  from idx_info[OF sw(2) this] obtain i where i: "m (v ! n) = Some i" by blast
  have "set ns \<subseteq> {..<length (vRandom st1)}" using Cons.prems(2) sw(4) by (simp add: st1_def)
  from Cons.IH[OF inv this] obtain w st2 where w: "getaddr_loop r ns st1 = Some (w, st2)" "am_inv p st2" "length w = length ns"
      "repos m (mapInfo st2)" "keeps {} st1 st2" "\<forall>i \<in> set w. \<exists>n j. m n = Some j \<and> i = CAddress.truncate j"
    by (auto simp: st1_def)
  have orig: "\<exists>j. mapInfo st l = Some j \<and> CAddress.truncate k = CAddress.truncate j" if "m l = Some k" for l k
    using repos_Some[OF sw(3) that] by (auto simp: CAddress.truncate_def)
  have run: "getaddr_loop r (n # ns) st = Some (CAddress.truncate i # w, st2)"
    using sw(1,4) w(1) i n by (simp add: Let_def st1_def flip: q_def)
  show ?case
    unfolding run using w(2,3,6) repos_trans[OF sw(3) w(4)] keeps_trans[OF SwapRandom_keeps[OF sw(1)] w(5)[unfolded st1_def]] orig[OF i] orig
    by (auto 0 3) metis
qed (simp add: repos_refl keeps_refl)

lemma GetAddr_works:
  assumes "am_inv p st"
  shows "\<exists>v st'. addrman_GetAddr r st = Some (v, st') \<and> am_inv p st' \<and> keeps {} st st' \<and>
    length v = min (23 * length (vRandom st) div 100) 2500 \<and>
    (\<forall>i \<in> set v. \<exists>n j. mapInfo st n = Some j \<and> i = CAddress.truncate j)"
proof -
  have "set [0..<min (23 * length (vRandom st) div 100) 2500] \<subseteq> {..<length (vRandom st)}" by auto
  from getaddr_loop_works[OF assms this, of r] show ?thesis
    by (auto simp: addrman_GetAddr_def ADDRMAN_GETADDR_MAX_PCT_def ADDRMAN_GETADDR_MAX_def Let_def)
qed

section \<open>Every state is consistent\<close>

lemma am_inv_new: "am_inv None (new_addrman key)"
  by (auto simp: am_inv_def new_addrman_def idx_ok_def buckets_ok_def tried_ids_def concat_replicate_trivial)

lemma am_tried_not_new: "am_inv None st \<Longrightarrow> \<Union> (set (vvNew st)) \<inter> tried_ids (mapInfo st) = {}"
proof -
  assume inv: "am_inv None st"
  have "n \<notin> s" if n: "n \<in> tried_ids (mapInfo st)" and s: "s \<in> set (vvNew st)" for n s
  proof -
    obtain i where i: "mapInfo st n = Some i" "fInTried i" using n by (auto simp: tried_ids_def)
    then have "ref_count (vvNew st) n = 0" using am_info[OF inv i(1)] by (simp add: info_ok_def)
    then show ?thesis using s by (simp add: ref_count_zero)
  qed
  then show ?thesis by blast
qed

lemma am_placed_keeps:
  assumes "am_inv None st" "placed Hash st" "keeps X st st'" "X \<subseteq> \<Union> (set (vvNew st))"
  shows "placed Hash st'"
proof (rule placed_keeps[OF assms(2,3)])
  show "X \<inter> tried_ids (mapInfo st) = {}" using assms(4) am_tried_not_new[OF assms(1)] by blast
  show "n \<in> tried_ids (mapInfo st)" if "k < ADDRMAN_TRIED_BUCKET_COUNT" "n \<in> set (vvTried st ! k)" for k n
    by (rule am_tried(2)[OF assms(1) that])
qed

lemma Attempt_keeps: "keeps {} st (addrman_Attempt addr t st)"
  by (auto simp: addrman_Attempt_def keeps_refl split: option.split intro!: keeps_touch dest: addr_Find_Some)

lemma Connected_keeps: "keeps {} st (addrman_Connected addr t st)"
  by (auto simp: addrman_Connected_def keeps_refl split: option.split intro!: keeps_touch dest: addr_Find_Some)

lemma am_run_inv: "am_run Hash st \<Longrightarrow> am_inv None st \<and> placed Hash st"
proof (induction rule: am_run.induct)
  case (am_new key)
  have "placed Hash (new_addrman key)" by (simp add: placed_def new_addrman_def)
  then show ?case using am_inv_new by blast
next
  case (am_add st now r addr src pen b st')
  then have "am_inv None st' \<and> keeps (\<Union> (set (vvNew st))) st st'" using Add_works[of st Hash now r addr src pen] by auto
  then show ?case using am_placed_keeps[of st Hash _ st'] am_add.IH by blast
next
  case (am_good st t r addr st')
  then show ?case using Good_works[of st t Hash r addr] by auto
next
  case (am_attempt st t addr)
  then show ?case using Attempt_works am_placed_keeps[OF _ _ Attempt_keeps] by blast
next
  case (am_connected st addr t)
  then show ?case using Connected_works am_placed_keeps[OF _ _ Connected_keeps] by blast
next
  case (am_getaddr st r v st')
  then have "am_inv None st' \<and> keeps {} st st'" using GetAddr_works[of None st r] by auto
  then show ?case using am_placed_keeps[of st Hash "{}" st'] am_getaddr.IH by blast
qed

lemma check_infos_result:
  assumes "am_inv None st" "set ns \<subseteq> dom (mapInfo st)"
  shows "check_infos st ns T N =
    Inr (T \<union> (set ns \<inter> tried_ids (mapInfo st)),
         \<lambda>n. if n \<in> set ns - tried_ids (mapInfo st) then map_option nRefCount (mapInfo st n) else N n)"
  using assms(2)
proof (induction ns arbitrary: T N)
  case (Cons n ns)
  obtain i where i: "mapInfo st n = Some i" using Cons.prems by auto
  have idx: "idx_ok (mapInfo st) (mapAddr st) (vRandom st) (nIdCount st)" using assms(1) by (simp add: am_inv_def)
  have ok: "info_ok i" using am_info[OF assms(1) i] by simp
  show ?case
    using Cons idx_okD(1-4)[OF idx i] ok i tried_ids_iff[of "mapInfo st" n i]
    by (cases "fInTried i") (auto simp: info_ok_def Let_def fun_eq_iff)
qed auto

lemma check_tried_result: "distinct ns \<Longrightarrow> set ns \<subseteq> T \<Longrightarrow> check_tried ns T = Inr (T - set ns)"
proof (induction ns arbitrary: T)
  case (Cons n ns)
  then have "set ns \<subseteq> T - {n}" by auto
  moreover have "T - {n} - set ns = T - set (n # ns)" by auto
  ultimately show ?case using Cons.IH[of "T - {n}"] Cons.prems by simp
qed simp

lemma check_new_result:
  assumes "\<And>n. int (count (mset ns) n) \<le> (case N n of None \<Rightarrow> 0 | Some k \<Rightarrow> k)" "\<And>n k. N n = Some k \<Longrightarrow> 1 \<le> k"
  shows "check_new ns N =
    Inr (\<lambda>n. case N n of None \<Rightarrow> None | Some k \<Rightarrow> if k = int (count (mset ns) n) then None else Some (k - int (count (mset ns) n)))"
  using assms
proof (induction ns arbitrary: N)
  case Nil
  show ?case using Nil(2) by (force simp: fun_eq_iff split: option.split)
next
  case (Cons n ns)
  obtain k where k: "N n = Some k" "1 \<le> k" using Cons.prems(1)[of n] Cons.prems(2)[of n] by (cases "N n") auto
  let ?N = "N(n := (if k - 1 = 0 then None else Some (k - 1)))"
  have "int (count (mset ns) l) \<le> (case ?N l of None \<Rightarrow> 0 | Some k \<Rightarrow> k)" for l
    using Cons.prems(1)[of l] k by (cases "l = n") auto
  moreover have "1 \<le> j" if "?N l = Some j" for l j
    using that Cons.prems(2)[of l j] k by (cases "l = n") (auto split: if_splits)
  ultimately have "check_new ns ?N = Inr (\<lambda>n. case ?N n of None \<Rightarrow> None
      | Some k \<Rightarrow> if k = int (count (mset ns) n) then None else Some (k - int (count (mset ns) n)))"
    by (rule Cons.IH)
  moreover have "int (count (mset ns) n) \<le> k - 1" using Cons.prems(1)[of n] k by simp
  ultimately show ?case using k by (auto simp: fun_eq_iff split: option.split)
qed

lemma count_buckets:
  "\<forall>s \<in> set vN. finite s \<Longrightarrow> int (count (mset (concat (map sorted_list_of_set vN))) n) = ref_count vN n"
  by (induction vN) (auto simp: ref_count_def distinct_count_atmost_1[THEN iffD1, rule_format])

lemma addrman_check_passes:
  assumes "am_inv None st"
  shows "addrman_Check st = 0"
proof -
  let ?m = "mapInfo st" and ?T = "tried_ids (mapInfo st)"
  have idx: "idx_ok ?m (mapAddr st) (vRandom st) (nIdCount st)"
    and bk: "buckets_ok None ?m (vvTried st) (vvNew st) (nTried st) (nNew st)" using assms(1) by (simp_all add: am_inv_def)
  note parts = buckets_parts[OF bk]
  define N where "N = (\<lambda>n. if n \<in> dom ?m - ?T then map_option nRefCount (?m n) else None)"
  have TD: "?T \<subseteq> dom ?m" by (auto simp: tried_ids_def)
  have infos: "check_infos st (sorted_list_of_set (dom ?m)) {} Map.empty = Inr (?T, N)"
    using check_infos_result[OF assms, of "sorted_list_of_set (dom ?m)" "{}" Map.empty] parts(1) TD
    by (simp add: N_def inf.absorb2)
  have size: "int (length (vRandom st)) = int (card (dom ?m))"
    using idx by (simp add: idx_ok_def distinct_card)
  have cT: "int (card ?T) = nTried st" using parts(4-6) distinct_card by (metis set_concat)
  have domN: "dom N = dom ?m - ?T" by (auto simp: N_def split: if_splits)
  have "card (dom N) = card (dom ?m) - card ?T"
    unfolding domN using TD parts(1) finite_subset by (blast intro: card_Diff_subset)
  then have cN: "int (card (dom N)) = nNew st" using cT parts(7) card_mono[OF parts(1) TD] by linarith
  have tried: "check_tried (concat (vvTried st)) ?T = Inr {}"
    using check_tried_result[OF parts(4), of ?T] parts(5) by simp
  have count: "int (count (mset (concat (map sorted_list_of_set (vvNew st)))) n) = ref_count (vvNew st) n" for n
    using count_buckets[of "vvNew st" n] parts(8) by blast
  have N: "N n = (if ref_count (vvNew st) n = 0 then None else Some (ref_count (vvNew st) n))" for n
  proof (cases "?m n")
    case None
    then show ?thesis using ref_count_outside[of "vvNew st" ?m n] parts(8) by (auto simp: N_def)
  next
    case (Some i)
    then show ?thesis using am_info[OF assms Some] tried_ids_iff[of ?m n i] by (auto simp: N_def info_ok_def split: if_splits)
  qed
  have "check_new (concat (map sorted_list_of_set (vvNew st))) N = Inr Map.empty"
  proof (subst check_new_result)
    fix n
    show "int (count (mset (concat (map sorted_list_of_set (vvNew st)))) n) \<le> (case N n of None \<Rightarrow> 0 | Some k \<Rightarrow> k)"
      by (simp add: count N)
    show "1 \<le> k" if "N n = Some k" for k using that ref_count_nonneg[of "vvNew st" n] by (auto simp: N split: if_splits)
  qed (auto simp: count N fun_eq_iff split: option.split)
  then show ?thesis using infos size cT cN parts(7) tried by (simp add: addrman_Check_def)
qed

lemma card_union_bound:
  assumes "finite K" "\<And>k. k \<in> K \<Longrightarrow> card (f k) \<le> c"
  shows "card (\<Union> (f ` K)) \<le> card K * c"
proof -
  have "card (\<Union> (f ` K)) \<le> (\<Sum>k \<in> K. card (f k))" by (rule card_UN_le[OF assms(1)])
  also have "\<dots> \<le> card K * c" using sum_bounded_above[of K "\<lambda>k. card (f k)" c] assms(2) by simp
  finally show ?thesis .
qed

lemma am_size:
  assumes "am_inv None st"
  shows "length (vRandom st) \<le> 20480"
proof -
  have idx: "idx_ok (mapInfo st) (mapAddr st) (vRandom st) (nIdCount st)"
    and bk: "buckets_ok None (mapInfo st) (vvTried st) (vvNew st) (nTried st) (nNew st)" using assms(1) by (simp_all add: am_inv_def)
  note parts = buckets_parts[OF bk]
  have cover: "set (vRandom st) \<subseteq> tried_ids (mapInfo st) \<union> \<Union> (set (vvNew st))"
  proof
    fix n assume "n \<in> set (vRandom st)"
    then obtain i where i: "mapInfo st n = Some i" using idx_info[OF idx] by blast
    have "fInTried i \<or> ref_count (vvNew st) n \<noteq> 0" using am_info[OF assms i] by (auto simp: info_ok_def)
    then show "n \<in> tried_ids (mapInfo st) \<union> \<Union> (set (vvNew st))" using i by (auto simp: tried_ids_def ref_count_zero)
  qed
  have "card (\<Union> (set ` set (vvTried st))) \<le> card (set (vvTried st)) * 64"
  proof (rule card_union_bound)
    show "card (set v) \<le> 64" if "v \<in> set (vvTried st)" for v
      using parts(9)[OF that] card_length[of v] by (simp add: ADDRMAN_TRIED_BUCKET_SIZE_def)
  qed simp
  also have "\<dots> \<le> 64 * 64" using card_length[of "vvTried st"] parts(2) by (simp add: ADDRMAN_TRIED_BUCKET_COUNT_def)
  finally have T: "card (tried_ids (mapInfo st)) \<le> 64 * 64" using parts(5) by simp
  have "card (\<Union> (id ` set (vvNew st))) \<le> card (set (vvNew st)) * 64"
    by (rule card_union_bound) (use parts(8) in \<open>auto simp: ADDRMAN_NEW_BUCKET_SIZE_def\<close>)
  also have "\<dots> \<le> 256 * 64" using card_length[of "vvNew st"] parts(3) by (simp add: ADDRMAN_NEW_BUCKET_COUNT_def)
  finally have N: "card (\<Union> (set (vvNew st))) \<le> 256 * 64" by simp
  have "tried_ids (mapInfo st) \<subseteq> dom (mapInfo st)" "\<Union> (set (vvNew st)) \<subseteq> dom (mapInfo st)"
    using parts(8) by (auto simp: tried_ids_def)
  then have "finite (tried_ids (mapInfo st) \<union> \<Union> (set (vvNew st)))" using parts(1) by (meson finite_UnI finite_subset)
  then have "card (set (vRandom st)) \<le> card (tried_ids (mapInfo st)) + card (\<Union> (set (vvNew st)))"
    using card_mono[OF _ cover] card_Un_le le_trans by blast
  moreover have "card (set (vRandom st)) = length (vRandom st)" using idx by (simp add: idx_ok_def distinct_card)
  ultimately show ?thesis using T N by simp
qed

text \<open> C19.
  In every state the table of peers reaches, whatever addresses come in and whatever the random numbers, the
  code's own consistency check finds nothing, there are at most 64 * 64 + 256 * 64 entries, no operation fails
  an assertion or reads out of a vector, and \<open>GetAddr_\<close> gives at most 2500 addresses, each of an entry.
\<close>

theorem addrman_consistent:
  assumes "am_run Hash st"
  shows "addrman_Check st = 0 \<and> length (vRandom st) \<le> 20480 \<and>
    (\<forall>nNow r addr src nTimePenalty. addrman_Add Hash nNow r addr src nTimePenalty st \<noteq> None) \<and>
    (\<forall>r (addr :: CService) nTimeIn. 0 < nTimeIn \<longrightarrow> addrman_Good Hash r addr nTimeIn st \<noteq> None) \<and>
    (\<forall>r. \<exists>v st'. addrman_GetAddr r st = Some (v, st') \<and> length v \<le> 2500 \<and>
       (\<forall>i \<in> set v. \<exists>n j. mapInfo st n = Some j \<and> i = CAddress.truncate j))"
proof -
  have inv: "am_inv None st" using am_run_inv[OF assms] by blast
  have "addrman_Add Hash nNow r addr src nTimePenalty st \<noteq> None" for nNow r addr src nTimePenalty
    using Add_works[OF inv, of Hash nNow r addr src nTimePenalty] by auto
  moreover have "0 < nTimeIn \<Longrightarrow> addrman_Good Hash r addr nTimeIn st \<noteq> None" for r and addr :: CService and nTimeIn
    using Good_works[OF inv, of nTimeIn Hash r addr] by auto
  moreover have "\<exists>v st'. addrman_GetAddr r st = Some (v, st') \<and> length v \<le> 2500 \<and>
      (\<forall>i \<in> set v. \<exists>n j. mapInfo st n = Some j \<and> i = CAddress.truncate j)" for r
    using GetAddr_works[OF inv, of r] by auto
  ultimately show ?thesis using addrman_check_passes[OF inv] am_size[OF inv] by blast
qed

text \<open>
  Peers of one group, which is the first sixteen bits of an IPv4 address, fill at most 256 of the 4096 places
  for tried addresses; addresses told by sources of one group go to at most 32 of the 256 buckets for new ones.
\<close>

theorem group_bounds:
  assumes "am_run Hash st"
  shows "card {n. \<exists>i. mapInfo st n = Some i \<and> fInTried i \<and> GetGroup i = g} \<le> 256 \<and>
    card {b. \<exists>i src. GetGroup src = g \<and> b = GetNewBucket Hash (nKey st) i src} \<le> 32"
proof -
  have inv: "am_inv None st" and pl: "placed Hash st" using am_run_inv[OF assms] by simp_all
  have bk: "buckets_ok None (mapInfo st) (vvTried st) (vvNew st) (nTried st) (nNew st)" using inv by (simp add: am_inv_def)
  note parts = buckets_parts[OF bk]
  have words: "h mod c \<in> word_of_nat ` {..<unat c}" if "c \<noteq> 0" for h c :: uint64
  proof -
    have "unat (h mod c) < unat c" using that by (simp add: unat_mod_distrib unat_gt_0)
    moreover have "h mod c = word_of_nat (unat (h mod c))" by simp
    ultimately show ?thesis by blast
  qed
  define bT where "bT h = unat (Get64 (Hash (write_bytevec (nKey st) @ write_bytevec g @ write_word 8 (h :: uint64)))) mod 64" for h
  define bN where "bN h = unat (Get64 (Hash (write_bytevec (nKey st) @ write_bytevec g @ write_word 8 (h :: uint64)))) mod 256" for h
  let ?K = "bT ` word_of_nat ` {..<4}" and ?S = "{n. \<exists>i. mapInfo st n = Some i \<and> fInTried i \<and> GetGroup i = g}"
  have inK: "GetTriedBucket Hash (nKey st) i \<in> ?K" if "GetGroup i = g" for i
    using words[of 4] that by (simp add: GetTriedBucket_def Let_def bT_def ADDRMAN_TRIED_BUCKETS_PER_GROUP_def ADDRMAN_TRIED_BUCKET_COUNT_def)
  have K64: "k < length (vvTried st)" if "k \<in> ?K" for k
    using that parts(2) by (auto simp: bT_def ADDRMAN_TRIED_BUCKET_COUNT_def)
  have sub: "?S \<subseteq> \<Union> ((\<lambda>k. set (vvTried st ! k)) ` ?K)"
  proof
    fix n assume "n \<in> ?S"
    then obtain i where i: "mapInfo st n = Some i" "fInTried i" "GetGroup i = g" by auto
    then have "n \<in> set (concat (vvTried st))" using parts(5) by (simp add: tried_ids_def del: set_concat)
    then obtain v where v: "v \<in> set (vvTried st)" "n \<in> set v" by auto
    then obtain k where k: "k < length (vvTried st)" "n \<in> set (vvTried st ! k)" by (metis in_set_conv_nth)
    then obtain j where "mapInfo st n = Some j" "GetTriedBucket Hash (nKey st) j = k"
      using pl parts(2) unfolding placed_def by metis
    then show "n \<in> \<Union> ((\<lambda>k. set (vvTried st ! k)) ` ?K)" using inK[OF i(3)] i(1) k(2) by auto
  qed
  have "card ?S \<le> card (\<Union> ((\<lambda>k. set (vvTried st ! k)) ` ?K))" by (rule card_mono[OF _ sub]) simp
  also have "\<dots> \<le> card ?K * 64"
  proof (rule card_union_bound)
    show "card (set (vvTried st ! k)) \<le> 64" if "k \<in> ?K" for k
      using parts(9)[OF nth_mem[OF K64[OF that]]] card_length[of "vvTried st ! k"] by (simp add: ADDRMAN_TRIED_BUCKET_SIZE_def)
  qed simp
  also have "\<dots> \<le> 4 * 64" using card_image_le[of "{..<4::nat}" "\<lambda>x. bT (word_of_nat x)"] by (simp add: image_image)
  finally have T: "card ?S \<le> 256" by simp
  have "{b. \<exists>i src. GetGroup src = g \<and> b = GetNewBucket Hash (nKey st) i src} \<subseteq> bN ` word_of_nat ` {..<32}"
    using words[of 32] by (auto simp: GetNewBucket_def Let_def bN_def ADDRMAN_NEW_BUCKETS_PER_SOURCE_GROUP_def ADDRMAN_NEW_BUCKET_COUNT_def)
  then have "card {b. \<exists>i src. GetGroup src = g \<and> b = GetNewBucket Hash (nKey st) i src} \<le> card (bN ` word_of_nat ` {..<32})"
    by (intro card_mono) simp_all
  also have "\<dots> \<le> 32" using card_image_le[of "{..<32::nat}" "\<lambda>x. bN (word_of_nat x)"] by (simp add: image_image)
  finally show ?thesis using T by blast
qed

section \<open>The tried entry to replace\<close>

lemma inspect_tried_keeps_pos:
  assumes "p < length v" "minfo e = Some old" "e \<noteq> - 1"
    "\<forall>x \<in> set v. \<exists>i. minfo x = Some i \<and> nLastSuccess old \<le> nLastSuccess i"
    "\<forall>i \<in> set is. i < length v \<and> i \<noteq> p \<and> GetRandInt (r i) (length v - i) + i \<noteq> p"
  shows "\<exists>v'. inspect_tried minfo r is v e q = Some (q, v') \<and> v' ! p = v ! p"
  using assms(1,4,5)
proof (induction "is" arbitrary: v)
  case (Cons i "is")
  let ?n = "GetRandInt (r i) (length v - i) + i"
  let ?w = "v[?n := v ! i, i := v ! ?n]"
  have i: "i < length v" "i \<noteq> p" "?n \<noteq> p" using Cons.prems(3) by auto
  have n: "?n < length v" using GetRandInt_less[of "length v - i" "r i"] i(1) by simp
  have "set ?w = set v" by (rule set_swap) (use i n in simp_all)
  then have "\<exists>v'. inspect_tried minfo r is ?w e q = Some (q, v') \<and> v' ! p = ?w ! p"
    using Cons.prems by (intro Cons.IH) simp_all
  moreover obtain j where "minfo (v ! ?n) = Some j" "nLastSuccess old \<le> nLastSuccess j" using Cons.prems(2) n by (meson nth_mem)
  ultimately show ?case using assms(2,3) i by (simp add: Let_def)
qed simp

text \<open>
  \<open>SelectTried\<close> returns the place an entry had before it was moved to the front: when the least recently
  tried entry of a bucket is drawn first, from a place after the fourth, and no later draw hits that place, the
  place returned holds the entry that was first in the bucket, and \<open>MakeTried\<close> replaces that one.
\<close>

theorem evicts_another:
  assumes "k < length (vvTried st)" "v = vvTried st ! k" "p = GetRandInt (r 0) (length v)" "4 \<le> p" "4 < length v" "- 1 \<notin> set v"
    "mapInfo st (v ! p) = Some old"
    "\<forall>x \<in> set v. \<exists>i. mapInfo st x = Some i \<and> nLastSuccess old \<le> nLastSuccess i"
    "\<forall>i \<in> {1, 2, 3}. GetRandInt (r i) (length v - i) + i \<noteq> p"
  shows "\<exists>st'. SelectTried r k st = Some (int p, st') \<and> vvTried st' ! k ! p = v ! 0"
proof -
  have p: "p < length v" using GetRandInt_less[of "length v" "r 0"] assms(3,5) by (cases v) simp_all
  let ?w = "v[p := v ! 0, 0 := v ! p]"
  have set: "set ?w = set v" by (rule set_swap) (use p in linarith)+
  have "v ! p \<noteq> - 1" using assms(6) nth_mem[OF p] by auto
  then have "\<exists>v'. inspect_tried (mapInfo st) r [1, 2, 3] ?w (v ! p) (int p) = Some (int p, v') \<and> v' ! p = ?w ! p"
    using assms(4,5,7-9) p set by (intro inspect_tried_keeps_pos[where old = old]) simp_all
  then obtain v' where v': "inspect_tried (mapInfo st) r [1, 2, 3] ?w (v ! p) (int p) = Some (int p, v')" "v' ! p = v ! 0"
    using assms(4) p by auto
  have "[0..<min ADDRMAN_TRIED_ENTRIES_INSPECT_ON_EVICT (length v)] = 0 # [1, 2, 3]"
    using assms(5) by (simp add: ADDRMAN_TRIED_ENTRIES_INSPECT_ON_EVICT_def upt_rec)
  then have "inspect_tried (mapInfo st) r [0..<min ADDRMAN_TRIED_ENTRIES_INSPECT_ON_EVICT (length v)] v (- 1) (- 1) = Some (int p, v')"
    using v'(1) assms(3) by (simp only: inspect_tried.simps(2) Let_def diff_zero add_0_right if_True simp_thms)
  then have "SelectTried r k st = Some (int p, st\<lparr>vvTried := (vvTried st)[k := v']\<rparr>)"
    using assms(1,2) by (simp add: SelectTried_def Let_def)
  then show ?thesis using v'(2) assms(1) by simp
qed

definition demo_peer :: "nat \<Rightarrow> int \<Rightarrow> CAddrInfo" where
  "demo_peer n t =
     (mk_info \<lparr>ip = replicate 15 0 @ [word_of_nat n], port = 8333, nServices = 1, nTime = 1000, nLastTry = 0\<rparr>
        \<lparr>ip = replicate 16 0\<rparr>)\<lparr>nLastSuccess := t, fInTried := True\<rparr>"

definition demo_table :: CAddrMan where
  "demo_table = (new_addrman [])\<lparr>vvTried := [[10, 11, 12, 13, 14]],
     mapInfo := map_of [(10, demo_peer 1 500), (11, demo_peer 2 400), (12, demo_peer 3 300), (13, demo_peer 4 200), (14, demo_peer 5 100)]\<rparr>"

lemma demo_table_simps:
  "vvTried demo_table = [[10, 11, 12, 13, 14]]"
  "mapInfo demo_table =
     [10 \<mapsto> demo_peer 1 500, 11 \<mapsto> demo_peer 2 400, 12 \<mapsto> demo_peer 3 300, 13 \<mapsto> demo_peer 4 200, 14 \<mapsto> demo_peer 5 100]"
  "nLastSuccess (demo_peer n t) = t"
  by (auto simp: demo_table_def demo_peer_def fun_eq_iff)

theorem evicts_another_witness:
  "\<exists>st'. SelectTried (\<lambda>i. if i = 0 then 4 else 0) 0 demo_table = Some (4, st') \<and> vvTried st' ! 0 ! 4 = 10"
proof -
  have "\<exists>st'. SelectTried (\<lambda>i. if i = 0 then 4 else 0) 0 demo_table = Some (int 4, st') \<and> vvTried st' ! 0 ! 4 = [10, 11, 12, 13, 14] ! 0"
    by (rule evicts_another[where old = "demo_peer 5 100"]) (simp_all add: demo_table_simps GetRandInt_def)
  then show ?thesis by simp
qed

section \<open>The properties at a first address\<close>

definition demo_address :: CAddress where
  "demo_address = \<lparr>ip = replicate 10 0 @ [255, 255, 8, 8, 8, 8], port = 8333, nServices = 1, nTime = 1000, nLastTry = 0\<rparr>"

lemma addrman_demo_run: "\<exists>b st. addrman_Add (\<lambda>_. 0) 2000 (\<lambda>_. 0) demo_address (CNetAddr.truncate demo_address) 0 (new_addrman []) = Some (b, st)
    \<and> am_run (\<lambda>_. 0) st"
proof -
  obtain b st where "addrman_Add (\<lambda>_. 0) 2000 (\<lambda>_. 0) demo_address (CNetAddr.truncate demo_address) 0 (new_addrman []) = Some (b, st)"
    using Add_works[OF am_inv_new, of "\<lambda>_. 0" 2000 "\<lambda>_. 0" demo_address "CNetAddr.truncate demo_address" 0 "[]"] by auto
  then show ?thesis using am_add[OF am_new] by blast
qed

theorem addrman_consistent_witness:
  "\<exists>b st. addrman_Add (\<lambda>_. 0) 2000 (\<lambda>_. 0) demo_address (CNetAddr.truncate demo_address) 0 (new_addrman []) = Some (b, st) \<and>
     addrman_Check st = 0 \<and> addrman_GetAddr (\<lambda>_. 0) st \<noteq> None \<and> addrman_Good (\<lambda>_. 0) (\<lambda>_. 0) (CService.truncate demo_address) 3000 st \<noteq> None"
proof -
  obtain b st where st: "addrman_Add (\<lambda>_. 0) 2000 (\<lambda>_. 0) demo_address (CNetAddr.truncate demo_address) 0 (new_addrman []) = Some (b, st)"
    "am_run (\<lambda>_. 0) st" using addrman_demo_run by blast
  have "(0::int) < 3000" by simp
  then show ?thesis using st(1) addrman_consistent[OF st(2)] by fastforce
qed

theorem group_bounds_witness:
  "\<exists>b st. addrman_Add (\<lambda>_. 0) 2000 (\<lambda>_. 0) demo_address (CNetAddr.truncate demo_address) 0 (new_addrman []) = Some (b, st) \<and>
     card {n. \<exists>i. mapInfo st n = Some i \<and> fInTried i \<and> GetGroup i = [1, 8, 8]} \<le> 256"
proof -
  obtain b st where st: "addrman_Add (\<lambda>_. 0) 2000 (\<lambda>_. 0) demo_address (CNetAddr.truncate demo_address) 0 (new_addrman []) = Some (b, st)"
    "am_run (\<lambda>_. 0) st" using addrman_demo_run by blast
  then show ?thesis using group_bounds[OF st(2), of "[1, 8, 8]"] by blast
qed

end
